(* ===== verification/Prelude.thy ===== *)
theory Prelude
  imports Main "HOL-Library.Word"
begin

text \<open>
  Shared vocabulary of the development: the machine integers of the Rust code
  as words, results with an error on the left, the integer methods of the Rust
  standard library that the code calls, little-endian byte lists, and the
  collections of simplification rules the component theories draw on.

  Arithmetic convention. The code is modelled as its \<^verbatim>\<open>release\<close> profile runs
  it: the unchecked operators \<open>+\<close>, \<open>-\<close> and \<open>*\<close> wrap around at the width of
  their type (which is what \<^typ>\<open>'a word\<close> arithmetic does), and a slice index
  out of range panics, which every definition that indexes states as an
  explicit branch.
\<close>

unbundle bit_operations_syntax

type_synonym u8 = "8 word"
type_synonym u32 = "32 word"
type_synonym u64 = "64 word"
type_synonym u128 = "128 word"

named_theorems result_simps "unfolding of the result combinators"
named_theorems byte_simps "length and indexing of little-endian byte lists"
named_theorems bitcount_simps "leading, trailing and total bit counts"

section \<open>Results\<close>

text \<open>\<^verbatim>\<open>Result<T, E>\<close> is a sum with the error on the left; \<open>bind_res\<close> is \<^verbatim>\<open>?\<close>.\<close>

definition bind_res :: "'e + 'a \<Rightarrow> ('a \<Rightarrow> 'e + 'b) \<Rightarrow> 'e + 'b" where
  "bind_res m f = (case m of Inl e \<Rightarrow> Inl e | Inr x \<Rightarrow> f x)"

lemma bind_res_simps [simp, result_simps]:
  "bind_res (Inl e) f = Inl e"
  "bind_res (Inr x) f = f x"
  by (simp_all add: bind_res_def)

lemma bind_res_eq_Inr [result_simps]:
  "bind_res m f = Inr y \<longleftrightarrow> (\<exists>x. m = Inr x \<and> f x = Inr y)"
  by (cases m) auto

lemma bind_res_eq_Inl [result_simps]:
  "bind_res m f = Inl e \<longleftrightarrow> m = Inl e \<or> (\<exists>x. m = Inr x \<and> f x = Inl e)"
  by (cases m) auto

lemma bind_res_InrE [elim]:
  assumes "bind_res m f = Inr y"
  obtains x where "m = Inr x" "f x = Inr y"
  using assms by (cases m) auto

lemma bind_res_cong [fundef_cong]:
  "m = m' \<Longrightarrow> (\<And>x. m' = Inr x \<Longrightarrow> f x = f' x) \<Longrightarrow> bind_res m f = bind_res m' f'"
  by (cases m') auto

text \<open>\<^verbatim>\<open>Option::ok_or\<close>.\<close>

definition ok_or :: "'a option \<Rightarrow> 'e \<Rightarrow> 'e + 'a" where
  "ok_or x e = (case x of None \<Rightarrow> Inl e | Some v \<Rightarrow> Inr v)"

lemma ok_or_simps [simp]: "ok_or None e = Inl e" "ok_or (Some v) e = Inr v"
  by (simp_all add: ok_or_def)

lemma ok_or_eq_Inr [result_simps]: "ok_or x e = Inr v \<longleftrightarrow> x = Some v"
  by (cases x) auto

text \<open>\<^verbatim>\<open>slice.get(i)\<close>.\<close>

definition nth_opt :: "'a list \<Rightarrow> nat \<Rightarrow> 'a option" where
  "nth_opt xs i = (if i < length xs then Some (xs ! i) else None)"

lemma nth_opt_eq_Some [simp]: "nth_opt xs i = Some x \<longleftrightarrow> i < length xs \<and> xs ! i = x"
  by (auto simp: nth_opt_def)

lemma nth_opt_eq_None [simp]: "nth_opt xs i = None \<longleftrightarrow> length xs \<le> i"
  by (auto simp: nth_opt_def)

lemma nth_opt_Cons [simp]:
  "nth_opt (x # xs) 0 = Some x" "nth_opt (x # xs) (Suc i) = nth_opt xs i"
  by (simp_all add: nth_opt_def)

lemma nth_opt_append1: "i < length xs \<Longrightarrow> nth_opt (xs @ ys) i = nth_opt xs i"
  by (simp add: nth_opt_def nth_append)

lemma nth_opt_append2: "nth_opt (xs @ ys) (length xs + i) = nth_opt ys i"
  by (simp add: nth_opt_def)

text \<open>Mapping a fallible function over a list, stopping at the first error
  (\<^verbatim>\<open>iter().map(f).collect::<Result<Vec<_>, _>>()\<close>).\<close>

fun map_res :: "('a \<Rightarrow> 'e + 'b) \<Rightarrow> 'a list \<Rightarrow> 'e + 'b list" where
  "map_res f [] = Inr []"
| "map_res f (x # xs) =
     bind_res (f x) (\<lambda>y. bind_res (map_res f xs) (\<lambda>ys. Inr (y # ys)))"

lemma map_res_Inr_length: "map_res f xs = Inr ys \<Longrightarrow> length ys = length xs"
  by (induction xs arbitrary: ys) (auto elim!: bind_res_InrE)

lemma map_res_Inr_nth:
  "map_res f xs = Inr ys \<Longrightarrow> i < length xs \<Longrightarrow> f (xs ! i) = Inr (ys ! i)"
proof (induction xs arbitrary: ys i)
  case (Cons x xs)
  then show ?case by (cases i) (auto elim!: bind_res_InrE)
qed simp

lemma map_res_all_Inr:
  "(\<And>x. x \<in> set xs \<Longrightarrow> f x = Inr (g x)) \<Longrightarrow> map_res f xs = Inr (map g xs)"
  by (induction xs) auto

section \<open>Integer methods of the standard library\<close>

text \<open>\<^verbatim>\<open>u64::from(v as u32)\<close>: the low half of a 64-bit value.\<close>

definition low32 :: "u64 \<Rightarrow> u64" where
  "low32 v = ucast (ucast v :: u32)"

definition of_bool64 :: "bool \<Rightarrow> u64" where
  "of_bool64 b = (if b then 1 else 0)"

lemma of_bool64_simps [simp]:
  "of_bool64 True = 1" "of_bool64 False = 0"
  "of_bool64 b = 1 \<longleftrightarrow> b" "of_bool64 b = 0 \<longleftrightarrow> \<not> b" "unat (of_bool64 b) = of_bool b"
  by (simp_all add: of_bool64_def)

text \<open>\<^verbatim>\<open>trailing_zeros\<close>, \<^verbatim>\<open>leading_zeros\<close>, \<^verbatim>\<open>count_ones\<close> of a \<^verbatim>\<open>u64\<close>.\<close>

definition trailing_zeros :: "u64 \<Rightarrow> nat" where
  "trailing_zeros x = length (takeWhile Not (map (bit x) [0..<64]))"

definition leading_zeros :: "u64 \<Rightarrow> nat" where
  "leading_zeros x = length (takeWhile Not (map (bit x) (rev [0..<64])))"

definition count_ones :: "u64 \<Rightarrow> nat" where
  "count_ones x = length (filter (bit x) [0..<64])"

text \<open>\<^verbatim>\<open>usize::next_power_of_two\<close>: the least power of two not below \<open>n\<close>.\<close>

fun next_power_of_two :: "nat \<Rightarrow> nat" where
  "next_power_of_two n = (if n \<le> 1 then 1 else 2 * next_power_of_two ((n + 1) div 2))"

declare next_power_of_two.simps [simp del]

lemma next_power_of_two_ge: "n \<le> next_power_of_two n"
proof (induction n rule: next_power_of_two.induct)
  case (1 n)
  then show ?case by (subst next_power_of_two.simps) auto
qed

lemma next_power_of_two_power: "\<exists>k. next_power_of_two n = 2 ^ k"
proof (induction n rule: next_power_of_two.induct)
  case (1 n)
  show ?case
  proof (cases "n \<le> 1")
    case True
    then have "next_power_of_two n = 2 ^ 0" by (subst next_power_of_two.simps) simp
    then show ?thesis by blast
  next
    case False
    with 1 obtain k where "next_power_of_two ((n + 1) div 2) = 2 ^ k" by auto
    with False have "next_power_of_two n = 2 ^ Suc k" by (subst next_power_of_two.simps) simp
    then show ?thesis by blast
  qed
qed

lemma next_power_of_two_least: "n \<le> 2 ^ k \<Longrightarrow> next_power_of_two n \<le> 2 ^ k"
proof (induction n arbitrary: k rule: next_power_of_two.induct)
  case (1 n)
  show ?case
  proof (cases "n \<le> 1")
    case True
    then show ?thesis by (subst next_power_of_two.simps) simp
  next
    case False
    with "1.prems" have "k \<noteq> 0" by (intro notI) simp
    then obtain j where k: "k = Suc j" by (cases k) auto
    with "1.prems" have "(n + 1) div 2 \<le> 2 ^ j" by simp
    with "1.IH" [of j] False have "next_power_of_two ((n + 1) div 2) \<le> 2 ^ j" by simp
    with False k show ?thesis by (subst next_power_of_two.simps) simp
  qed
qed

section \<open>Words as natural numbers\<close>

lemma unat_u64_less: "unat (x :: u64) < 2 ^ 64"
  using unsigned_less [of x, where ?'a = nat] by simp

lemma unat_u32_less: "unat (x :: u32) < 2 ^ 32"
  using unsigned_less [of x, where ?'a = nat] by simp

lemma unat_u8_less: "unat (x :: u8) < 2 ^ 8"
  using unsigned_less [of x, where ?'a = nat] by simp

lemma unat_u64_less_numeral: "unat (x :: u64) < 18446744073709551616"
  using unat_u64_less [of x] by simp

lemma unat_u32_less_numeral: "unat (x :: u32) < 4294967296"
  using unat_u32_less [of x] by simp

lemma unat_ucast_up:
  "LENGTH('a) \<le> LENGTH('b) \<Longrightarrow> unat (ucast (x :: 'a::len word) :: 'b::len word) = unat x"
proof -
  assume "LENGTH('a) \<le> LENGTH('b)"
  moreover have "unat x < 2 ^ LENGTH('a)" by (rule unsigned_less)
  ultimately have "unat x < 2 ^ LENGTH('b)"
    by (meson less_le_trans one_le_numeral power_increasing)
  then show ?thesis by (simp add: unsigned_ucast_eq take_bit_eq_mod)
qed

lemma unat_ucast_u32_u64 [simp]: "unat (ucast (x :: u32) :: u64) = unat x"
  by (rule unat_ucast_up) simp

lemma unat_ucast_u8_u64 [simp]: "unat (ucast (x :: u8) :: u64) = unat x"
  by (rule unat_ucast_up) simp

lemma unat_ucast_u64_u128 [simp]: "unat (ucast (x :: u64) :: u128) = unat x"
  by (rule unat_ucast_up) simp

lemma ucast_inj_up:
  "LENGTH('a) \<le> LENGTH('b) \<Longrightarrow>
     (ucast (x :: 'a::len word) :: 'b::len word) = ucast y \<longleftrightarrow> x = y"
  by (metis unat_ucast_up word_unat_eq_iff)

lemma u64_mod8_dvd_unat: "(a :: u64) mod 8 = 0 \<longleftrightarrow> 8 dvd unat a"
  by (simp add: word_unat_eq_iff unat_mod dvd_eq_mod_eq_0)

section \<open>Facts about the bit counts\<close>

lemma takeWhile_Not_upt:
  assumes "k \<le> n" "\<And>j. j < k \<Longrightarrow> \<not> P j" "k < n \<Longrightarrow> P k"
  shows "length (takeWhile Not (map P [0..<n])) = k"
proof -
  have "[0..<n] = [0..<k] @ [k..<n]"
    using assms(1) upt_add_eq_append [of 0 k "n - k"] by simp
  moreover have "takeWhile Not (map P [k..<n]) = []"
    using assms(1,3) by (cases "k < n") (simp_all add: upt_conv_Cons)
  moreover have "takeWhile Not (map P [0..<k]) = map P [0..<k]"
    using assms(2) by (intro takeWhile_eq_all_conv [THEN iffD2]) auto
  moreover have "takeWhile Not (map P [0..<k] @ map P [k..<n]) =
      map P [0..<k] @ takeWhile Not (map P [k..<n])"
    using assms(2) by (intro takeWhile_append2) auto
  ultimately show ?thesis by simp
qed

lemma trailing_zerosI [bitcount_simps]:
  "k < 64 \<Longrightarrow> bit x k \<Longrightarrow> (\<And>j. j < k \<Longrightarrow> \<not> bit x j) \<Longrightarrow> trailing_zeros x = k"
  unfolding trailing_zeros_def by (rule takeWhile_Not_upt) auto

lemma trailing_zeros_0 [simp]: "trailing_zeros 0 = 64"
  unfolding trailing_zeros_def by (rule takeWhile_Not_upt) auto

lemma trailing_zeros_le: "trailing_zeros x \<le> 64"
proof -
  have "length (takeWhile Not (map (bit x) [0..<64])) \<le> length (map (bit x) [0..<64])"
    by (rule length_takeWhile_le)
  then show ?thesis unfolding trailing_zeros_def by simp
qed

lemma leading_zeros_le: "leading_zeros x \<le> 64"
proof -
  have "length (takeWhile Not (map (bit x) (rev [0..<64]))) \<le> length (map (bit x) (rev [0..<64]))"
    by (rule length_takeWhile_le)
  then show ?thesis unfolding leading_zeros_def by simp
qed

lemma count_ones_le: "count_ones x \<le> 64"
proof -
  have "length (filter (bit x) [0..<64]) \<le> length [0..<64]" by (rule length_filter_le)
  then show ?thesis unfolding count_ones_def by simp
qed

lemma rev_upt_nat: "rev [0..<n] = map (\<lambda>j. n - 1 - j) [0..<n]"
  by (rule nth_equalityI) (auto simp: rev_nth)

lemma leading_zerosI [bitcount_simps]:
  assumes "k < 64" "bit x (63 - k)" "\<And>j. j < k \<Longrightarrow> \<not> bit x (63 - j)"
  shows "leading_zeros x = k"
proof -
  have "map (bit x) (rev [0..<64]) = map (\<lambda>j. bit x (63 - j)) [0..<64]"
    by (subst rev_upt_nat) (simp add: comp_def)
  then show ?thesis
    unfolding leading_zeros_def using assms takeWhile_Not_upt [of k 64 "\<lambda>j. bit x (63 - j)"]
    by simp
qed

lemma leading_zeros_0 [simp]: "leading_zeros 0 = 64"
proof -
  have "takeWhile Not (map (bit (0::u64)) (rev [0..<64])) = map (bit (0::u64)) (rev [0..<64])"
    by (rule takeWhile_eq_all_conv [THEN iffD2]) auto
  then show ?thesis unfolding leading_zeros_def by (simp only: length_map length_rev length_upt)
qed

section \<open>Little-endian bytes\<close>

text \<open>\<^verbatim>\<open>to_le_bytes\<close> of an integer of \<open>n\<close> bytes and \<^verbatim>\<open>from_le_bytes\<close>.\<close>

definition to_le :: "nat \<Rightarrow> 'a::len word \<Rightarrow> u8 list" where
  "to_le n w = map (\<lambda>i. ucast (drop_bit (8 * i) w)) [0..<n]"

fun from_le :: "u8 list \<Rightarrow> 'a::len word" where
  "from_le [] = 0"
| "from_le (b # bs) = ucast b OR push_bit 8 (from_le bs)"

lemma length_to_le [simp, byte_simps]: "length (to_le n w) = n"
  by (simp add: to_le_def)

lemma nth_to_le [simp, byte_simps]:
  "i < n \<Longrightarrow> to_le n w ! i = ucast (drop_bit (8 * i) w)"
  by (simp add: to_le_def)

lemma bit_from_le:
  "bit (from_le bs :: 'a::len word) n \<longleftrightarrow>
     n < LENGTH('a) \<and> n div 8 < length bs \<and> bit (bs ! (n div 8)) (n mod 8)"
proof (induction bs arbitrary: n)
  case Nil
  then show ?case by simp
next
  case (Cons b bs)
  show ?case
  proof (cases "n < 8")
    case True
    then show ?thesis by (auto simp: bit_simps)
  next
    case False
    then obtain k where n: "n = k + 8" by (metis add.commute le_add_diff_inverse not_less)
    then have "n div 8 = Suc (k div 8)" "n mod 8 = k mod 8" by simp_all
    moreover have "\<not> bit b n" using n bit_imp_le_length [of b n] by auto
    ultimately show ?thesis using n Cons.IH [of k] by (auto simp: bit_simps)
  qed
qed

lemma from_le_to_le [simp, byte_simps]:
  assumes "LENGTH('a) \<le> 8 * n"
  shows "from_le (to_le n w) = (w :: 'a::len word)"
proof (rule bit_word_eqI)
  fix m assume m: "m < LENGTH('a)"
  with assms have "m div 8 < n" by auto
  moreover have "8 * (m div 8) + m mod 8 = m" by simp
  ultimately show "bit (from_le (to_le n w) :: 'a word) m = bit w m"
    using m by (simp add: bit_from_le bit_simps)
qed

lemma to_le_from_le [simp, byte_simps]:
  assumes "length bs = n" "8 * n \<le> LENGTH('a)"
  shows "to_le n (from_le bs :: 'a::len word) = bs"
proof (rule nth_equalityI)
  show "length (to_le n (from_le bs :: 'a word)) = length bs" using assms by simp
next
  fix i assume "i < length (to_le n (from_le bs :: 'a word))"
  then have i: "i < n" by simp
  show "to_le n (from_le bs :: 'a word) ! i = bs ! i"
  proof (rule bit_word_eqI)
    fix m assume m: "m < LENGTH(8)"
    then have "(8 * i + m) div 8 = i" "(8 * i + m) mod 8 = m" by simp_all
    moreover have "8 * i + m < LENGTH('a)" using i m assms by simp
    ultimately show "bit (to_le n (from_le bs :: 'a word) ! i) m = bit (bs ! i) m"
      using i m assms by (simp add: bit_from_le bit_simps)
  qed
qed

lemma to_le_inj:
  "LENGTH('a) \<le> 8 * n \<Longrightarrow> to_le n v = to_le n w \<Longrightarrow> v = (w :: 'a::len word)"
  by (metis from_le_to_le)

section \<open>Byte buffers\<close>

text \<open>\<^verbatim>\<open>buf[start..start + n]\<close> and \<^verbatim>\<open>buf[start..start + n].copy_from_slice(bytes)\<close>,
  used where the code has checked the range.\<close>

definition get_bytes :: "u8 list \<Rightarrow> nat \<Rightarrow> nat \<Rightarrow> u8 list" where
  "get_bytes buf start n = take n (drop start buf)"

definition put_bytes :: "u8 list \<Rightarrow> nat \<Rightarrow> u8 list \<Rightarrow> u8 list" where
  "put_bytes buf start bytes = take start buf @ bytes @ drop (start + length bytes) buf"

text \<open>\<^verbatim>\<open>Vec::resize\<close>.\<close>

definition resize :: "'a list \<Rightarrow> nat \<Rightarrow> 'a \<Rightarrow> 'a list" where
  "resize xs n x = take n xs @ replicate (n - length xs) x"

lemma length_resize [simp]: "length (resize xs n x) = n"
  by (simp add: resize_def)

lemma nth_resize: "i < n \<Longrightarrow> resize xs n x ! i = (if i < length xs then xs ! i else x)"
  by (auto simp: resize_def nth_append min_def)

lemma length_get_bytes [byte_simps]:
  "start + n \<le> length buf \<Longrightarrow> length (get_bytes buf start n) = n"
  by (simp add: get_bytes_def)

lemma nth_get_bytes [byte_simps]:
  "start + n \<le> length buf \<Longrightarrow> i < n \<Longrightarrow> get_bytes buf start n ! i = buf ! (start + i)"
  by (simp add: get_bytes_def)

lemma length_put_bytes [byte_simps]:
  "start + length bytes \<le> length buf \<Longrightarrow> length (put_bytes buf start bytes) = length buf"
  by (simp add: put_bytes_def)

lemma nth_put_bytes [byte_simps]:
  assumes "start + length bytes \<le> length buf" "i < length buf"
  shows "put_bytes buf start bytes ! i =
    (if start \<le> i \<and> i < start + length bytes then bytes ! (i - start) else buf ! i)"
  using assms by (auto simp: put_bytes_def nth_append min_def)

lemma get_put_bytes_same [byte_simps]:
  "start + length bytes \<le> length buf \<Longrightarrow> n = length bytes \<Longrightarrow>
     get_bytes (put_bytes buf start bytes) start n = bytes"
  by (simp add: get_bytes_def put_bytes_def)

lemma get_put_bytes_other [byte_simps]:
  assumes "start + length bytes \<le> length buf" "s + n \<le> length buf"
    and "s + n \<le> start \<or> start + length bytes \<le> s"
  shows "get_bytes (put_bytes buf start bytes) s n = get_bytes buf s n"
  by (rule nth_equalityI)
    (use assms in \<open>auto simp: nth_get_bytes length_get_bytes length_put_bytes nth_put_bytes\<close>)

lemma get_bytes_replicate: "get_bytes (replicate n b) s k = replicate (min k (n - s)) b"
  by (simp add: get_bytes_def)

section \<open>Field values of integers\<close>

text \<open>\<^verbatim>\<open>JoltField::from_u64\<close> and its siblings: the ring homomorphism on the value.\<close>

definition from_u64 :: "u64 \<Rightarrow> 'f::comm_ring_1" where
  "from_u64 v = of_nat (unat v)"

definition from_u128 :: "u128 \<Rightarrow> 'f::comm_ring_1" where
  "from_u128 v = of_nat (unat v)"

lemma unat_power_2: "k < LENGTH('a) \<Longrightarrow> unat (2 ^ k :: 'a::len word) = 2 ^ k"
proof -
  assume "k < LENGTH('a)"
  then have "(2 :: nat) ^ k < 2 ^ LENGTH('a)" by simp
  then show ?thesis using unat_of_nat [of "2 ^ k", where 'a = 'a] by (simp add: take_bit_nat_eq_self)
qed

lemma from_u64_power [simp]: "k < 64 \<Longrightarrow> from_u64 (2 ^ k) = 2 ^ k"
  by (simp add: from_u64_def unat_power_2)

lemma from_u128_power [simp]: "k < 128 \<Longrightarrow> from_u128 (2 ^ k) = 2 ^ k"
  by (simp add: from_u128_def unat_power_2)

end
