(* ===== verification/Layout.thy ===== *)
theory Layout
  imports Prelude
begin

text \<open>
  \<^verbatim>\<open>jolt-wasm-ir/src/layout.rs\<close>: the guest address space. The constants are
  abbreviations of their values, checked against the Rust expressions by
  \<open>layout_contiguous\<close>; the address functions are the Rust \<^verbatim>\<open>const fn\<close>s on 64-bit
  words.
\<close>

abbreviation (input) PAGE_SIZE :: u64 where "PAGE_SIZE \<equiv> 65536"
abbreviation (input) WORD_BYTES :: u64 where "WORD_BYTES \<equiv> 8"

definition RAM_BASE :: u64 where "RAM_BASE = 0x90000000"
definition SYSTEM_BASE :: u64 where "SYSTEM_BASE = RAM_BASE"
definition SYSTEM_SIZE :: u64 where "SYSTEM_SIZE = 0x1000"
definition MEMORY_SIZE_ADDR :: u64 where "MEMORY_SIZE_ADDR = SYSTEM_BASE"
definition TERMINATION_ADDR :: u64 where "TERMINATION_ADDR = SYSTEM_BASE + 8"
definition INPUTS_BASE :: u64 where "INPUTS_BASE = SYSTEM_BASE + SYSTEM_SIZE"
definition INPUTS_SIZE :: u64 where "INPUTS_SIZE = 0x1000"
definition OUTPUTS_BASE :: u64 where "OUTPUTS_BASE = INPUTS_BASE + INPUTS_SIZE"
definition OUTPUTS_SIZE :: u64 where "OUTPUTS_SIZE = 0x1000"
definition MAX_INPUT_WORDS :: u64 where "MAX_INPUT_WORDS = INPUTS_SIZE div WORD_BYTES"
definition MAX_OUTPUT_WORDS :: u64 where "MAX_OUTPUT_WORDS = OUTPUTS_SIZE div WORD_BYTES"
definition SHADOW_STACK_BASE :: u64 where "SHADOW_STACK_BASE = OUTPUTS_BASE + OUTPUTS_SIZE"
definition SHADOW_STACK_SIZE :: u64 where "SHADOW_STACK_SIZE = 0x100000"
definition SHADOW_GUARD_SIZE :: u64 where "SHADOW_GUARD_SIZE = 0x1000"
definition GLOBALS_BASE :: u64 where
  "GLOBALS_BASE = SHADOW_STACK_BASE + SHADOW_STACK_SIZE + SHADOW_GUARD_SIZE"
definition GLOBALS_SIZE :: u64 where "GLOBALS_SIZE = 0x10000"
definition TABLE_BASE :: u64 where "TABLE_BASE = GLOBALS_BASE + GLOBALS_SIZE"
definition TABLE_SIZE :: u64 where "TABLE_SIZE = 0x10000"
definition TABLE_SLOT_BYTES :: u64 where "TABLE_SLOT_BYTES = 2 * WORD_BYTES"
definition MAX_TABLE_SLOTS :: u64 where "MAX_TABLE_SLOTS = TABLE_SIZE div TABLE_SLOT_BYTES"
definition LINEAR_MEMORY_BASE :: u64 where "LINEAR_MEMORY_BASE = TABLE_BASE + TABLE_SIZE"
definition LINEAR_CELL_BYTES :: u64 where "LINEAR_CELL_BYTES = WORD_BYTES"
definition WASM_WORD_BYTES :: u64 where "WASM_WORD_BYTES = 4"
definition DEFAULT_MAX_PAGES :: u64 where "DEFAULT_MAX_PAGES = 256"
definition MAX_PAGES :: u64 where "MAX_PAGES = 65536"

named_theorems layout_defs "the layout constants"
lemmas [layout_defs] =
  RAM_BASE_def SYSTEM_BASE_def SYSTEM_SIZE_def MEMORY_SIZE_ADDR_def TERMINATION_ADDR_def
  INPUTS_BASE_def INPUTS_SIZE_def OUTPUTS_BASE_def OUTPUTS_SIZE_def
  MAX_INPUT_WORDS_def MAX_OUTPUT_WORDS_def SHADOW_STACK_BASE_def SHADOW_STACK_SIZE_def
  SHADOW_GUARD_SIZE_def GLOBALS_BASE_def GLOBALS_SIZE_def TABLE_BASE_def TABLE_SIZE_def
  TABLE_SLOT_BYTES_def MAX_TABLE_SLOTS_def LINEAR_MEMORY_BASE_def LINEAR_CELL_BYTES_def
  WASM_WORD_BYTES_def DEFAULT_MAX_PAGES_def MAX_PAGES_def

definition input_address :: "u64 \<Rightarrow> u64" where
  "input_address i = INPUTS_BASE + WORD_BYTES * i"

definition linear_address :: "u64 \<Rightarrow> u64" where
  "linear_address a = LINEAR_MEMORY_BASE + (LINEAR_CELL_BYTES div WASM_WORD_BYTES) * a"

definition table_slot_address :: "u64 \<Rightarrow> u64" where
  "table_slot_address i = TABLE_BASE + TABLE_SLOT_BYTES * i"

definition output_address :: "u64 \<Rightarrow> u64" where
  "output_address i = OUTPUTS_BASE + WORD_BYTES * i"

definition remap_word_address :: "u64 \<Rightarrow> u64 option" where
  "remap_word_address address =
     (if address < RAM_BASE \<or> address mod WORD_BYTES \<noteq> 0 then None
      else Some ((address - RAM_BASE) div WORD_BYTES))"

definition unmap_word_address :: "u64 \<Rightarrow> u64" where
  "unmap_word_address index = RAM_BASE + index * WORD_BYTES"

definition ram_end :: "u64 \<Rightarrow> u64" where
  "ram_end max_pages = linear_address (max_pages * PAGE_SIZE) + LINEAR_CELL_BYTES"

lemma layout_values:
  "SYSTEM_BASE = 0x90000000" "INPUTS_BASE = 0x90001000" "OUTPUTS_BASE = 0x90002000"
  "SHADOW_STACK_BASE = 0x90003000" "GLOBALS_BASE = 0x90104000" "TABLE_BASE = 0x90114000"
  "LINEAR_MEMORY_BASE = 0x90124000" "MAX_TABLE_SLOTS = 4096" "MAX_OUTPUT_WORDS = 512"
  "TERMINATION_ADDR = 0x90000008" "MEMORY_SIZE_ADDR = 0x90000000"
  by (simp_all add: layout_defs)

lemma layout_contiguous:
  "MEMORY_SIZE_ADDR = RAM_BASE \<and> TERMINATION_ADDR < SYSTEM_BASE + SYSTEM_SIZE \<and>
   SYSTEM_BASE + SYSTEM_SIZE = INPUTS_BASE \<and> INPUTS_BASE + INPUTS_SIZE = OUTPUTS_BASE \<and>
   OUTPUTS_BASE + OUTPUTS_SIZE = SHADOW_STACK_BASE \<and>
   SHADOW_STACK_BASE + SHADOW_STACK_SIZE + SHADOW_GUARD_SIZE = GLOBALS_BASE \<and>
   GLOBALS_BASE + GLOBALS_SIZE = TABLE_BASE \<and> TABLE_BASE + TABLE_SIZE = LINEAR_MEMORY_BASE"
  by (simp add: layout_defs)

section \<open>The dense word index\<close>

lemma remap_unmap_nat:
  assumes "index < 2 ^ 60"
  shows "unat (unmap_word_address index) = 0x90000000 + 8 * unat index"
proof -
  have "unat index < 2 ^ 60" using assms by (simp add: word_less_nat_alt)
  then show ?thesis by (simp add: unmap_word_address_def layout_defs unat_word_ariths)
qed

text \<open>\<^verbatim>\<open>unmap_word_address\<close> and \<^verbatim>\<open>remap_word_address\<close> are inverse where the RAM argument
  uses them: word indices below \<open>2^60\<close>, aligned addresses at or above the RAM base.\<close>

lemma remap_unmap:
  assumes "index < 2 ^ 60"
  shows "remap_word_address (unmap_word_address index) = Some index"
proof -
  let ?a = "unmap_word_address index"
  have ua: "unat ?a = 0x90000000 + 8 * unat index" by (rule remap_unmap_nat [OF assms])
  have ge: "\<not> ?a < RAM_BASE" using ua by (simp add: word_less_nat_alt RAM_BASE_def)
  have al: "?a mod 8 = 0" using ua by (simp add: u64_mod8_dvd_unat)
  have "unat ((?a - RAM_BASE) div 8) = unat index"
    using ua ge by (simp add: unat_div unat_sub word_le_nat_alt RAM_BASE_def not_less)
  then have "(?a - RAM_BASE) div 8 = index" by (simp add: word_unat_eq_iff)
  with ge al show ?thesis by (simp add: remap_word_address_def)
qed

lemma unmap_remap:
  assumes "remap_word_address a = Some i"
  shows "unmap_word_address i = a"
proof -
  have ge: "RAM_BASE \<le> a" and al: "8 dvd unat a" and i: "i = (a - RAM_BASE) div 8"
    using assms by (auto simp: remap_word_address_def u64_mod8_dvd_unat split: if_splits)
  have le: "unat RAM_BASE \<le> unat a" using ge by (simp add: word_le_nat_alt)
  have ui: "unat i = (unat a - 0x90000000) div 8"
    using i ge by (simp add: unat_div unat_sub RAM_BASE_def)
  have "unat a = 0x90000000 + 8 * unat i"
    using ui al le by (simp add: RAM_BASE_def dvd_div_mult_self dvd_diff_nat)
  moreover have "unat a < 18446744073709551616" by (rule unat_u64_less_numeral)
  ultimately have "unat (unmap_word_address i) = unat a"
    by (simp add: unmap_word_address_def RAM_BASE_def unat_word_ariths)
  then show ?thesis by (simp add: word_unat_eq_iff)
qed

lemma remap_inj:
  "remap_word_address a = Some i \<Longrightarrow> remap_word_address b = Some i \<Longrightarrow> a = b"
  using unmap_remap by metis

end
