(* ===== verification/Wasm_Ir.thy ===== *)
theory Wasm_Ir
  imports Prelude
begin

text \<open>
  \<^verbatim>\<open>jolt-wasm-ir/src/ops.rs\<close> and \<^verbatim>\<open>ir.rs\<close>: operand widths, virtual registers, the
  ALU catalogue with its reference semantics \<open>evaluate\<close>, the instruction set
  and the lowered program. A register is its number; \<open>wf_reg\<close> is the type
  invariant \<open>id < REGISTER_COUNT\<close> that the Rust constructors enforce. The
  constructors carry the Rust names with a prefix where two enums share one.
  \<^verbatim>\<open>BTreeMap\<close> is an association list in key order, read by \<^const>\<open>map_of\<close>.
  A signed 64-bit offset is its bit pattern.
\<close>

section \<open>ops.rs\<close>

datatype width = W32 | W64

fun width_bits :: "width \<Rightarrow> nat" where
  "width_bits W32 = 32"
| "width_bits W64 = 64"

section \<open>Registers\<close>

type_synonym pc = u32

definition REGISTER_COUNT :: nat where "REGISTER_COUNT = 128"

datatype reg = Reg (reg_index: nat)

definition wf_reg :: "reg \<Rightarrow> bool" where
  "wf_reg r \<longleftrightarrow> reg_index r < REGISTER_COUNT"

abbreviation ZERO :: reg where "ZERO \<equiv> Reg 0"
abbreviation SP :: reg where "SP \<equiv> Reg 1"
abbreviation RA :: reg where "RA \<equiv> Reg 2"
abbreviation T0 :: reg where "T0 \<equiv> Reg 3"
abbreviation T1 :: reg where "T1 \<equiv> Reg 4"
abbreviation T2 :: reg where "T2 \<equiv> Reg 5"
abbreviation T3 :: reg where "T3 \<equiv> Reg 6"
abbreviation T4 :: reg where "T4 \<equiv> Reg 7"
abbreviation LIMIT_B :: reg where "LIMIT_B \<equiv> Reg 8"
abbreviation LIMIT_H :: reg where "LIMIT_H \<equiv> Reg 9"
abbreviation LIMIT_W :: reg where "LIMIT_W \<equiv> Reg 10"
abbreviation LIMIT_D :: reg where "LIMIT_D \<equiv> Reg 11"

definition FRAME_BASE :: nat where "FRAME_BASE = 12"
definition MAX_FRAME_SLOTS :: nat where "MAX_FRAME_SLOTS = REGISTER_COUNT - FRAME_BASE"
definition MAX_RESULTS :: nat where "MAX_RESULTS = reg_index T4 - reg_index T0 + 1"

definition frame_slot :: "nat \<Rightarrow> reg option" where
  "frame_slot slot = (if slot < MAX_FRAME_SLOTS then Some (Reg (FRAME_BASE + slot)) else None)"

definition reg_from_id :: "u8 \<Rightarrow> reg option" where
  "reg_from_id i = (if unat i < REGISTER_COUNT then Some (Reg (unat i)) else None)"

definition temp :: "nat \<Rightarrow> reg option" where
  "temp i = (if i < MAX_RESULTS then Some (Reg (reg_index T0 + i)) else None)"

definition reg_id :: "reg \<Rightarrow> u8" where
  "reg_id r = of_nat (reg_index r)"

lemma MAX_FRAME_SLOTS_eq [simp]: "MAX_FRAME_SLOTS = 116"
  by (simp add: MAX_FRAME_SLOTS_def REGISTER_COUNT_def FRAME_BASE_def)

lemma MAX_RESULTS_eq [simp]: "MAX_RESULTS = 5"
  by (simp add: MAX_RESULTS_def)

lemma frame_slot_eq_Some:
  "frame_slot slot = Some r \<longleftrightarrow> slot < 116 \<and> r = Reg (12 + slot)"
  by (auto simp: frame_slot_def FRAME_BASE_def)

lemma temp_eq_Some: "temp i = Some r \<longleftrightarrow> i < 5 \<and> r = Reg (3 + i)"
  by (auto simp: temp_def)

lemma frame_slot_wf: "frame_slot slot = Some r \<Longrightarrow> wf_reg r"
  by (auto simp: frame_slot_eq_Some wf_reg_def REGISTER_COUNT_def)

lemma temp_wf: "temp i = Some r \<Longrightarrow> wf_reg r"
  by (auto simp: temp_eq_Some wf_reg_def REGISTER_COUNT_def)

lemma frame_slot_inj:
  "frame_slot i = Some r \<Longrightarrow> frame_slot j = Some r \<Longrightarrow> i = j"
  by (auto simp: frame_slot_eq_Some)

lemma reg_from_id_reg_id: "wf_reg r \<Longrightarrow> reg_from_id (reg_id r) = Some r"
  by (cases r) (simp add: wf_reg_def REGISTER_COUNT_def reg_from_id_def reg_id_def unat_of_nat)

section \<open>Operands and the ALU catalogue\<close>

datatype operand = Op_Reg reg | Op_Imm u64

datatype operand_mode = Mode_Interleaved | Mode_Add | Mode_Sub | Mode_Mul

datatype alu_op =
    A_Add width | A_Sub width | A_Mul width
  | A_And | A_Andn | A_Or | A_Xor
  | A_Eq | A_Ne | A_LtU | A_LtS | A_GeU | A_GeS | A_LeU
  | A_Srl | A_Sra | A_Rotr
  | A_NegateIf | A_MulUNoOverflow | A_Pow2 | A_ShiftRightBitmask
  | A_SignExtendWord | A_LowerHalfWord
  | A_Clz | A_Ctz | A_Popcnt

fun op_mode :: "alu_op \<Rightarrow> operand_mode" where
  "op_mode (A_Add _) = Mode_Add"
| "op_mode A_Pow2 = Mode_Add"
| "op_mode A_ShiftRightBitmask = Mode_Add"
| "op_mode A_SignExtendWord = Mode_Add"
| "op_mode A_LowerHalfWord = Mode_Add"
| "op_mode (A_Sub _) = Mode_Sub"
| "op_mode (A_Mul _) = Mode_Mul"
| "op_mode A_MulUNoOverflow = Mode_Mul"
| "op_mode _ = Mode_Interleaved"

fun is_boolean :: "alu_op \<Rightarrow> bool" where
  "is_boolean A_Eq = True"
| "is_boolean A_Ne = True"
| "is_boolean A_LtU = True"
| "is_boolean A_LtS = True"
| "is_boolean A_GeU = True"
| "is_boolean A_GeS = True"
| "is_boolean A_LeU = True"
| "is_boolean A_MulUNoOverflow = True"
| "is_boolean _ = False"

text \<open>\<^verbatim>\<open>shift_right_bitmask\<close>, for \<open>shift < 64\<close>: \<open>ones(64 - shift) << shift\<close>.\<close>

definition shift_right_bitmask :: "u64 \<Rightarrow> u64" where
  "shift_right_bitmask shift =
     push_bit (unat shift) (ucast ((push_bit (64 - unat shift) 1 :: u128) - 1) :: u64)"

text \<open>The closure \<^verbatim>\<open>canonical\<close> of \<^verbatim>\<open>AluOp::evaluate\<close>.\<close>

fun canonical :: "u64 \<Rightarrow> width \<Rightarrow> u64" where
  "canonical v W32 = low32 v"
| "canonical v W64 = v"

text \<open>\<^verbatim>\<open>checked_mul\<close> succeeds.\<close>

definition checked_mul_is_some :: "u64 \<Rightarrow> u64 \<Rightarrow> bool" where
  "checked_mul_is_some x y \<longleftrightarrow> unat x * unat y < 2 ^ 64"

fun evaluate :: "alu_op \<Rightarrow> u64 \<Rightarrow> u64 \<Rightarrow> u64" where
  "evaluate (A_Add w) x y = canonical (x + y) w"
| "evaluate (A_Sub w) x y = canonical (x - y) w"
| "evaluate (A_Mul w) x y = canonical (x * y) w"
| "evaluate A_And x y = x AND y"
| "evaluate A_Andn x y = x AND NOT y"
| "evaluate A_Or x y = x OR y"
| "evaluate A_Xor x y = x XOR y"
| "evaluate A_Eq x y = of_bool64 (x = y)"
| "evaluate A_Ne x y = of_bool64 (x \<noteq> y)"
| "evaluate A_LtU x y = of_bool64 (x < y)"
| "evaluate A_LtS x y = of_bool64 (sint x < sint y)"
| "evaluate A_GeU x y = of_bool64 (x \<ge> y)"
| "evaluate A_GeS x y = of_bool64 (sint x \<ge> sint y)"
| "evaluate A_LeU x y = of_bool64 (x \<le> y)"
| "evaluate A_Srl x y = drop_bit (trailing_zeros y) x"
| "evaluate A_Sra x y = signed_drop_bit (trailing_zeros y) x"
| "evaluate A_Rotr x y = word_rotr (trailing_zeros y mod 64) x"
| "evaluate A_NegateIf x y = (if drop_bit 63 x = 1 then - y else y)"
| "evaluate A_MulUNoOverflow x y = of_bool64 (checked_mul_is_some x y)"
| "evaluate A_Pow2 x y = push_bit (unat ((x + y) AND 63)) 1"
| "evaluate A_ShiftRightBitmask x y = shift_right_bitmask ((x + y) AND 63)"
| "evaluate A_SignExtendWord x y = scast (ucast (x + y) :: u32)"
| "evaluate A_LowerHalfWord x y = low32 (x + y)"
| "evaluate A_Clz x y = of_nat (leading_zeros x)"
| "evaluate A_Ctz x y = of_nat (trailing_zeros x)"
| "evaluate A_Popcnt x y = of_nat (count_ones x)"

text \<open>Boolean operators return 0 or 1, which is what \<^verbatim>\<open>is_boolean\<close> promises the
  assert and branch rows.\<close>

lemma is_boolean_evaluate: "is_boolean op \<Longrightarrow> evaluate op x y \<in> {0, 1}"
  by (cases op) (auto simp: of_bool64_def)

section \<open>Instructions and programs\<close>

datatype assert_failure =
    OutOfBounds u8
  | DivideByZero
  | IntegerOverflow
  | TableOutOfBounds
  | IndirectCallTypeMismatch

datatype advice_hint = QuotientU

fun advice_compute :: "advice_hint \<Rightarrow> u64 \<Rightarrow> u64 \<Rightarrow> u64" where
  "advice_compute QuotientU x y = (if y = 0 then 0 else x div y)"

datatype ir =
    Nop
  | Halt
  | Trap
  | Alu alu_op reg reg operand
  | Advice advice_hint reg reg reg
  | Assert alu_op assert_failure reg operand
  | Load reg reg u64
  | Store reg reg u64
  | Jump pc
  | JumpReg reg
  | Branch alu_op reg reg pc

definition ir_const :: "reg \<Rightarrow> u64 \<Rightarrow> ir" where
  "ir_const rd v = Alu (A_Add W64) rd ZERO (Op_Imm v)"

definition ir_mov :: "reg \<Rightarrow> reg \<Rightarrow> ir" where
  "ir_mov rd rs = Alu (A_Add W64) rd rs (Op_Imm 0)"

definition ir_alu :: "alu_op \<Rightarrow> reg \<Rightarrow> reg \<Rightarrow> operand \<Rightarrow> ir" where
  "ir_alu op rd rs1 rs2 = Alu op rd rs1 rs2"

definition ir_alu_imm :: "alu_op \<Rightarrow> reg \<Rightarrow> reg \<Rightarrow> u64 \<Rightarrow> ir" where
  "ir_alu_imm op rd rs1 v = Alu op rd rs1 (Op_Imm v)"

definition ir_branch_if_zero :: "reg \<Rightarrow> pc \<Rightarrow> ir" where
  "ir_branch_if_zero rs target = Branch A_Eq rs ZERO target"

definition ir_branch_if_nonzero :: "reg \<Rightarrow> pc \<Rightarrow> ir" where
  "ir_branch_if_nonzero rs target = Branch A_Ne rs ZERO target"

named_theorems row_ctors "unfolding of the row constructor functions"
lemmas [row_ctors] = ir_const_def ir_mov_def ir_alu_def ir_alu_imm_def
  ir_branch_if_zero_def ir_branch_if_nonzero_def

record ir_function =
  fn_entry :: pc
  fn_params :: u32
  fn_results :: u32
  fn_frame_slots :: nat

record table_slot =
  ts_entry :: pc
  ts_signature :: u32

fun table_slot_words :: "table_slot option \<Rightarrow> u64 list" where
  "table_slot_words (Some slot) = [ucast (ts_entry slot), ucast (ts_signature slot) + 1]"
| "table_slot_words None = [0, 0]"

record memory_limits =
  initial_pages :: u64
  max_pages :: u64

record data_segment =
  ds_offset :: u64
  ds_bytes :: "u8 list"

record ir_program =
  p_code :: "ir list"
  p_functions :: "ir_function list"
  p_exports :: "(string \<times> u32) list"
  p_entries :: "(string \<times> pc) list"
  p_output_words :: "(string \<times> u32) list"
  p_memory :: memory_limits
  p_globals :: "u64 list"
  p_data :: "data_segment list"
  p_table :: "table_slot option list"

definition HALT_PC :: pc where "HALT_PC = 0"

text \<open>A slot's signature word is zero exactly when the slot is null: the check
  \<open>signature word = expected id + 1\<close> of an indirect call can never accept a null slot.\<close>

lemma table_slot_words_length [simp]: "length (table_slot_words s) = 2"
  by (cases s) auto

lemma ucast32_plus1_neq_0: "ucast (s :: u32) + 1 \<noteq> (0 :: u64)"
proof
  assume "ucast s + 1 = (0 :: u64)"
  then have "unat (ucast s + 1 :: u64) = 0" by simp
  moreover have "unat s < 4294967296" by (rule unat_u32_less_numeral)
  ultimately show False by (simp add: unat_word_ariths)
qed

lemma table_slot_words_null: "table_slot_words s ! 1 = 0 \<longleftrightarrow> s = None"
  by (cases s) (auto simp: ucast32_plus1_neq_0)

end
