(* ===== verification/Guest_Memory.thy ===== *)
theory Guest_Memory
  imports Layout Wasm_Ir
begin

text \<open>
  \<^verbatim>\<open>jolt-wasm-backend/src/memory.rs\<close> and \<^verbatim>\<open>error.rs\<close>: guest memory as the byte
  vectors of its regions. Every access is one aligned 64-bit word. The
  \<open>Panicked\<close> trap stands for a slice index out of range, which the Rust code
  turns into a panic. The locale \<open>word_memory\<close> at the end states the contract the
  RAM argument relies on, and the operations of this theory interpret it.
\<close>

datatype trap =
    Unreachable
  | Trap_DivideByZero
  | Trap_IntegerOverflow
  | OutOfBoundsMemory u64 u8
  | CallStackExhausted
  | Trap_TableOutOfBounds
  | Trap_IndirectCallTypeMismatch
  | UnalignedWord u64
  | CellOverflow u64 u64
  | InvalidJump u64
  | Panicked

record guest_memory =
  gm_shadow :: "u8 list"
  gm_system :: "u8 list"
  gm_inputs :: "u8 list"
  gm_outputs :: "u8 list"
  gm_globals :: "u8 list"
  gm_table :: "u8 list"
  gm_linear :: "u8 list"
  gm_max_pages :: u64

datatype region = Shadow | System | Inputs | Outputs | Globals | Table

datatype slot = Cell nat | Word region nat

text \<open>The loop over the two words of the function-table slots; \<^const>\<open>None\<close> is the panic of
  a slot past the region.\<close>

fun fill_table :: "u8 list \<Rightarrow> nat \<Rightarrow> table_slot option list \<Rightarrow> u8 list option" where
  "fill_table buf i [] = Some buf"
| "fill_table buf i (s # ss) =
     (let start = unat (table_slot_address (of_nat i) - TABLE_BASE); ws = table_slot_words s in
      if start + 16 \<le> length buf
      then fill_table
             (put_bytes (put_bytes buf start (to_le 8 (ws ! 0))) (start + 8) (to_le 8 (ws ! 1)))
             (Suc i) ss
      else None)"

definition memory_new ::
  "memory_limits \<Rightarrow> u64 list \<Rightarrow> table_slot option list \<Rightarrow> guest_memory option"
where
  "memory_new limits globals table =
     (let global_bytes = resize (concat (map (to_le 8) globals)) (unat GLOBALS_SIZE) 0;
          bytes = initial_pages limits * PAGE_SIZE in
      map_option (\<lambda>table_bytes.
        \<lparr>gm_shadow = replicate (unat SHADOW_STACK_SIZE) 0,
         gm_system = put_bytes (replicate (unat SYSTEM_SIZE) 0) 0 (to_le 8 bytes),
         gm_inputs = replicate (unat INPUTS_SIZE) 0,
         gm_outputs = replicate (unat OUTPUTS_SIZE) 0,
         gm_globals = global_bytes,
         gm_table = table_bytes,
         gm_linear = replicate (unat (bytes + WASM_WORD_BYTES)) 0,
         gm_max_pages = max_pages limits\<rparr>)
        (fill_table (replicate (unat TABLE_SIZE) 0) 0 table))"

definition size_bytes :: "guest_memory \<Rightarrow> u64" where
  "size_bytes m = from_le (get_bytes (gm_system m) 0 8)"

definition pages :: "guest_memory \<Rightarrow> u64" where
  "pages m = size_bytes m div PAGE_SIZE"

definition init_linear :: "guest_memory \<Rightarrow> u64 \<Rightarrow> u8 list \<Rightarrow> trap + guest_memory" where
  "init_linear m offset bytes =
     (if unat offset + length bytes \<ge> 2 ^ 64 \<or> unat offset + length bytes > unat (size_bytes m)
      then Inl (OutOfBoundsMemory (linear_address offset) (of_nat (min (length bytes) 255)))
      else if unat offset + length bytes > length (gm_linear m) then Inl Panicked
      else Inr (m\<lparr>gm_linear := put_bytes (gm_linear m) (unat offset) bytes\<rparr>))"

fun region_buf :: "guest_memory \<Rightarrow> region \<Rightarrow> u8 list" where
  "region_buf m Shadow = gm_shadow m"
| "region_buf m System = gm_system m"
| "region_buf m Inputs = gm_inputs m"
| "region_buf m Outputs = gm_outputs m"
| "region_buf m Globals = gm_globals m"
| "region_buf m Table = gm_table m"

fun set_region_buf :: "guest_memory \<Rightarrow> region \<Rightarrow> u8 list \<Rightarrow> guest_memory" where
  "set_region_buf m Shadow b = m\<lparr>gm_shadow := b\<rparr>"
| "set_region_buf m System b = m\<lparr>gm_system := b\<rparr>"
| "set_region_buf m Inputs b = m\<lparr>gm_inputs := b\<rparr>"
| "set_region_buf m Outputs b = m\<lparr>gm_outputs := b\<rparr>"
| "set_region_buf m Globals b = m\<lparr>gm_globals := b\<rparr>"
| "set_region_buf m Table b = m\<lparr>gm_table := b\<rparr>"

text \<open>The word at an offset of a region: the shared tail of \<^verbatim>\<open>locate\<close>.\<close>

definition locate_in :: "guest_memory \<Rightarrow> region \<Rightarrow> u64 \<Rightarrow> u64 \<Rightarrow> trap + slot" where
  "locate_in m r base address =
     (let start = unat (address - base) in
      if start + 8 > length (region_buf m r)
      then Inl (if r = Shadow then CallStackExhausted else OutOfBoundsMemory address 8)
      else Inr (Word r start))"

definition locate :: "guest_memory \<Rightarrow> u64 \<Rightarrow> trap + slot" where
  "locate m address =
     (if address mod WORD_BYTES \<noteq> 0 then Inl (UnalignedWord address)
      else if address \<ge> LINEAR_MEMORY_BASE then
        (let cell = (address - LINEAR_MEMORY_BASE) div LINEAR_CELL_BYTES;
             start = unat (cell * WASM_WORD_BYTES) in
         if start + 4 > length (gm_linear m) then Inl (OutOfBoundsMemory address 8)
         else Inr (Cell start))
      else if address \<ge> TABLE_BASE then locate_in m Table TABLE_BASE address
      else if address \<ge> GLOBALS_BASE then locate_in m Globals GLOBALS_BASE address
      else if address \<ge> SHADOW_STACK_BASE + SHADOW_STACK_SIZE then Inl CallStackExhausted
      else if address \<ge> SHADOW_STACK_BASE then locate_in m Shadow SHADOW_STACK_BASE address
      else if address \<ge> OUTPUTS_BASE then locate_in m Outputs OUTPUTS_BASE address
      else if address \<ge> INPUTS_BASE then locate_in m Inputs INPUTS_BASE address
      else if address \<ge> SYSTEM_BASE then locate_in m System SYSTEM_BASE address
      else Inl (OutOfBoundsMemory address 8))"

definition read_word :: "guest_memory \<Rightarrow> u64 \<Rightarrow> trap + u64" where
  "read_word m address =
     bind_res (locate m address) (\<lambda>s. case s of
         Cell start \<Rightarrow> Inr (ucast (from_le (get_bytes (gm_linear m) start 4) :: u32))
       | Word r start \<Rightarrow> Inr (from_le (get_bytes (region_buf m r) start 8)))"

definition write_word :: "guest_memory \<Rightarrow> u64 \<Rightarrow> u64 \<Rightarrow> trap + (u64 \<times> guest_memory)" where
  "write_word m address v =
     bind_res (locate m address) (\<lambda>s. case s of
         Cell start \<Rightarrow>
           if v \<ge> 2 ^ 32 then Inl (CellOverflow address v)
           else Inr (ucast (from_le (get_bytes (gm_linear m) start 4) :: u32),
                     m\<lparr>gm_linear := put_bytes (gm_linear m) start (to_le 4 (ucast v :: u32))\<rparr>)
       | Word r start \<Rightarrow>
           (let old = from_le (get_bytes (region_buf m r) start 8);
                m' = set_region_buf m r (put_bytes (region_buf m r) start (to_le 8 v)) in
            Inr (old,
              if address = MEMORY_SIZE_ADDR
              then (let capped = min v (gm_max_pages m * PAGE_SIZE) in
                    m'\<lparr>gm_linear := resize (gm_linear m') (unat (capped + WASM_WORD_BYTES)) 0\<rparr>)
              else m')))"

section \<open>Locating a word\<close>

definition wf_memory :: "guest_memory \<Rightarrow> bool" where
  "wf_memory m \<longleftrightarrow> length (gm_shadow m) = 0x100000 \<and> length (gm_system m) = 0x1000 \<and>
     length (gm_inputs m) = 0x1000 \<and> length (gm_outputs m) = 0x1000 \<and>
     length (gm_globals m) = 0x10000 \<and> length (gm_table m) = 0x10000"

text \<open>The type invariant of a guest memory: the fixed regions have their sizes, and linear
  memory holds the bytes the size word announces (capped at the declared maximum) and one
  guard cell, a whole number of wasm words.\<close>

definition linear_bytes :: "guest_memory \<Rightarrow> u64 \<Rightarrow> nat" where
  "linear_bytes m v = unat (min v (gm_max_pages m * PAGE_SIZE) + WASM_WORD_BYTES)"

definition invar_memory :: "guest_memory \<Rightarrow> bool" where
  "invar_memory m \<longleftrightarrow> wf_memory m \<and> 4 dvd length (gm_linear m) \<and>
     gm_max_pages m \<le> MAX_PAGES \<and> length (gm_linear m) = linear_bytes m (size_bytes m)"

fun region_base :: "region \<Rightarrow> u64" where
  "region_base Shadow = SHADOW_STACK_BASE"
| "region_base System = SYSTEM_BASE"
| "region_base Inputs = INPUTS_BASE"
| "region_base Outputs = OUTPUTS_BASE"
| "region_base Globals = GLOBALS_BASE"
| "region_base Table = TABLE_BASE"

definition slot_in_range :: "guest_memory \<Rightarrow> slot \<Rightarrow> bool" where
  "slot_in_range m s = (case s of Cell start \<Rightarrow> start + 4 \<le> length (gm_linear m)
     | Word r start \<Rightarrow> start + 8 \<le> length (region_buf m r))"

text \<open>The address a slot stands for: \<^const>\<open>locate\<close> is its partial inverse, so two addresses
  never share a slot.\<close>

definition slot_address :: "slot \<Rightarrow> u64" where
  "slot_address s = (case s of Cell start \<Rightarrow> LINEAR_MEMORY_BASE + 2 * of_nat start
     | Word r start \<Rightarrow> region_base r + of_nat start)"

lemma locate_in_Inr:
  "locate_in m r base a = Inr s \<longleftrightarrow>
     s = Word r (unat (a - base)) \<and> unat (a - base) + 8 \<le> length (region_buf m r)"
  by (auto simp: locate_in_def Let_def split: if_splits)

lemma locate_cases:
  assumes "locate m a = Inr s"
  shows "8 dvd unat a \<and> slot_in_range m s \<and>
    ((\<exists>r. s = Word r (unat (a - region_base r)) \<and> region_base r \<le> a \<and> a < LINEAR_MEMORY_BASE) \<or>
     (s = Cell (unat ((a - LINEAR_MEMORY_BASE) div 8 * 4)) \<and> LINEAR_MEMORY_BASE \<le> a))"
  using assms
  by (auto simp: locate_def Let_def locate_in_Inr slot_in_range_def u64_mod8_dvd_unat not_le
      LINEAR_CELL_BYTES_def WASM_WORD_BYTES_def split: if_splits
      intro: exI [of _ Table] exI [of _ Globals] exI [of _ Shadow] exI [of _ Outputs]
        exI [of _ Inputs] exI [of _ System])

lemma region_base_values:
  "unat (region_base r) = (case r of Shadow \<Rightarrow> 0x90003000 | System \<Rightarrow> 0x90000000
     | Inputs \<Rightarrow> 0x90001000 | Outputs \<Rightarrow> 0x90002000 | Globals \<Rightarrow> 0x90104000 | Table \<Rightarrow> 0x90114000)"
  by (cases r) (simp_all add: layout_values)

lemma region_base_dvd: "8 dvd unat (region_base r)"
  by (cases r) (simp_all add: layout_values)

lemma locate_cell_start:
  assumes "LINEAR_MEMORY_BASE \<le> a"
  shows "unat ((a - LINEAR_MEMORY_BASE) div 8 * 4) = (unat a - 0x90124000) div 8 * 4"
proof -
  have "unat (a - LINEAR_MEMORY_BASE) = unat a - 0x90124000"
    using assms by (simp add: unat_sub layout_values word_le_nat_alt)
  moreover have "unat a < 18446744073709551616" by (rule unat_u64_less_numeral)
  ultimately show ?thesis by (simp add: unat_word_ariths unat_div)
qed

lemma slot_address_locate:
  assumes "locate m a = Inr s"
  shows "slot_address s = a"
proof -
  have al: "8 dvd unat a" using locate_cases [OF assms] by blast
  consider (w) r where "s = Word r (unat (a - region_base r))" "region_base r \<le> a"
    | (c) "s = Cell (unat ((a - LINEAR_MEMORY_BASE) div 8 * 4))" "LINEAR_MEMORY_BASE \<le> a"
    using locate_cases [OF assms] by blast
  then show ?thesis
  proof cases
    case w
    then show ?thesis by (simp add: slot_address_def)
  next
    case c
    define d where "d = unat a - 0x90124000"
    have le: "0x90124000 \<le> unat a" using c(2) by (simp add: word_le_nat_alt layout_values)
    then have "8 dvd d" using al unfolding d_def by (intro dvd_diff_nat) auto
    then have "2 * (d div 8 * 4) = d" by auto
    then have "2 * unat ((a - LINEAR_MEMORY_BASE) div 8 * 4) = d"
      using locate_cell_start [OF c(2)] d_def by simp
    then have "2 * of_nat (unat ((a - LINEAR_MEMORY_BASE) div 8 * 4)) = (of_nat d :: u64)"
      by (metis of_nat_mult of_nat_numeral)
    also have "of_nat d = a - LINEAR_MEMORY_BASE"
      unfolding d_def using le by (simp add: of_nat_diff layout_values)
    finally show ?thesis using c(1) by (simp add: slot_address_def)
  qed
qed

lemma locate_inj: "locate m a = Inr s \<Longrightarrow> locate m b = Inr s \<Longrightarrow> a = b"
  using slot_address_locate by metis

text \<open>Two different slots of one region are at least a word (a cell) apart.\<close>

lemma locate_word_aligned:
  assumes "locate m a = Inr (Word r start)"
  shows "8 dvd start"
proof -
  have "start = unat (a - region_base r)" "region_base r \<le> a" "8 dvd unat a"
    using locate_cases [OF assms] by auto
  then have "start = unat a - unat (region_base r)" "unat (region_base r) \<le> unat a"
    by (simp_all add: unat_sub word_le_nat_alt)
  with \<open>8 dvd unat a\<close> show ?thesis by (simp add: dvd_diff_nat region_base_dvd)
qed

lemma locate_cell_aligned: "locate m a = Inr (Cell start) \<Longrightarrow> 4 dvd start"
  using locate_cases [of m a "Cell start"] locate_cell_start [of a] by auto

lemma aligned_apart:
  "(n::nat) dvd i \<Longrightarrow> n dvd j \<Longrightarrow> i \<noteq> j \<Longrightarrow> i + n \<le> j \<or> j + n \<le> i"
proof -
  assume "n dvd i" "n dvd j" "i \<noteq> j"
  then obtain x y where "i = n * x" "j = n * y" "x \<noteq> y" by (auto elim!: dvdE)
  then have "Suc x \<le> y \<or> Suc y \<le> x" by auto
  then have "n * Suc x \<le> n * y \<or> n * Suc y \<le> n * x" using mult_le_mono2 by blast
  then show ?thesis using \<open>i = n * x\<close> \<open>j = n * y\<close> by (simp add: add.commute)
qed

lemma locate_cong:
  assumes "\<And>r. length (region_buf m' r) = length (region_buf m r)"
    and "length (gm_linear m') = length (gm_linear m)"
  shows "locate m' a = locate m a"
proof -
  have "locate_in m' r b c = locate_in m r b c" for r b c
    by (simp only: locate_in_def assms(1))
  then show ?thesis by (simp only: locate_def assms(2))
qed

lemma region_buf_set [simp]:
  "region_buf (set_region_buf m r b) q = (if q = r then b else region_buf m q)"
  "gm_linear (set_region_buf m r b) = gm_linear m"
  "gm_max_pages (set_region_buf m r b) = gm_max_pages m"
  by (cases r; cases q; simp)+

lemma region_buf_linear [simp]: "region_buf (m\<lparr>gm_linear := l\<rparr>) r = region_buf m r"
  by (cases r) auto

lemma wf_memory_region:
  "wf_memory m \<longleftrightarrow> (\<forall>r. length (region_buf m r) = (case r of Shadow \<Rightarrow> 0x100000 | Globals \<Rightarrow> 0x10000
     | Table \<Rightarrow> 0x10000 | _ \<Rightarrow> 0x1000))"
proof
  assume "wf_memory m"
  then show "\<forall>r. length (region_buf m r) = (case r of Shadow \<Rightarrow> 0x100000 | Globals \<Rightarrow> 0x10000
     | Table \<Rightarrow> 0x10000 | _ \<Rightarrow> 0x1000)"
    by (intro allI) (simp add: wf_memory_def split: region.split)
next
  assume h: "\<forall>r. length (region_buf m r) = (case r of Shadow \<Rightarrow> 0x100000 | Globals \<Rightarrow> 0x10000
     | Table \<Rightarrow> 0x10000 | _ \<Rightarrow> 0x1000)"
  show "wf_memory m"
    using h [rule_format, of Shadow] h [rule_format, of System] h [rule_format, of Inputs]
      h [rule_format, of Outputs] h [rule_format, of Globals] h [rule_format, of Table]
    by (simp add: wf_memory_def)
qed

section \<open>The laws of a word memory\<close>

text \<open>A write to the size word does not shrink linear memory and leaves whole words. This is the
  condition under which the memory is a word store: shrinking drops cells, and growing again brings them
  back as zeros. It is a hypothesis of the laws below; that all writes to the size word of a program are
  of this kind is not shown here.\<close>

definition grows :: "guest_memory \<Rightarrow> u64 \<Rightarrow> u64 \<Rightarrow> bool" where
  "grows m a v \<longleftrightarrow> (a = MEMORY_SIZE_ADDR \<longrightarrow> 4 dvd unat v \<and> size_bytes m \<le> v)"

lemma linear_bytes_mono:
  assumes "gm_max_pages m \<le> MAX_PAGES" "u \<le> v"
  shows "linear_bytes m u \<le> linear_bytes m v"
proof -
  let ?c = "gm_max_pages m * PAGE_SIZE"
  have "unat (gm_max_pages m) \<le> 65536"
    using assms(1) by (simp add: word_le_nat_alt MAX_PAGES_def)
  then have c: "unat ?c \<le> 65536 * 65536" by (simp add: unat_word_ariths)
  have "unat (min w ?c + 4) = unat (min w ?c) + 4" for w
  proof -
    have "unat (min w ?c) \<le> 65536 * 65536" using c by (simp add: min_def word_le_nat_alt)
    then show ?thesis by (simp add: unat_word_ariths)
  qed
  moreover have "unat (min u ?c) \<le> unat (min v ?c)"
    using assms(2) by (simp add: min_def word_le_nat_alt)
  ultimately show ?thesis by (simp add: linear_bytes_def WASM_WORD_BYTES_def)
qed

lemma grows_length:
  "invar_memory m \<Longrightarrow> grows m a v \<Longrightarrow> a = MEMORY_SIZE_ADDR \<Longrightarrow>
     length (gm_linear m) \<le> linear_bytes m v"
  by (simp add: invar_memory_def grows_def linear_bytes_mono)

lemma write_word_cell:
  assumes "locate m a = Inr (Cell start)"
  shows "write_word m a v =
    (if v \<ge> 2 ^ 32 then Inl (CellOverflow a v)
     else Inr (ucast (from_le (get_bytes (gm_linear m) start 4) :: u32),
               m\<lparr>gm_linear := put_bytes (gm_linear m) start (to_le 4 (ucast v :: u32))\<rparr>))"
  using assms by (simp add: write_word_def)

lemma write_word_word:
  assumes "locate m a = Inr (Word r start)"
  shows "write_word m a v =
    Inr (from_le (get_bytes (region_buf m r) start 8),
      if a = MEMORY_SIZE_ADDR
      then (set_region_buf m r (put_bytes (region_buf m r) start (to_le 8 v)))
             \<lparr>gm_linear := resize (gm_linear m) (linear_bytes m v) 0\<rparr>
      else set_region_buf m r (put_bytes (region_buf m r) start (to_le 8 v)))"
  using assms by (simp add: write_word_def Let_def linear_bytes_def)

lemma write_word_locate:
  assumes "write_word m a v = Inr (old, m')"
  obtains s where "locate m a = Inr s" "slot_in_range m s"
  using assms locate_cases unfolding write_word_def by (auto elim!: bind_res_InrE)

lemma write_word_old:
  assumes w: "write_word m a v = Inr (old, m')"
  shows "read_word m a = Inr old"
proof -
  obtain s where "locate m a = Inr s" using w by (rule write_word_locate)
  with w show ?thesis
    by (cases s) (auto simp: read_word_def write_word_cell write_word_word split: if_splits)
qed

lemma write_word_lengths:
  assumes "write_word m a v = Inr (old, m')"
  shows "length (region_buf m' q) = length (region_buf m q)"
    "a \<noteq> MEMORY_SIZE_ADDR \<Longrightarrow> length (gm_linear m') = length (gm_linear m)"
    "gm_max_pages m' = gm_max_pages m"
proof -
  obtain s where s: "locate m a = Inr s" "slot_in_range m s"
    using assms by (rule write_word_locate)
  show "length (region_buf m' q) = length (region_buf m q)"
    "a \<noteq> MEMORY_SIZE_ADDR \<Longrightarrow> length (gm_linear m') = length (gm_linear m)"
    "gm_max_pages m' = gm_max_pages m"
    using assms s
    by (cases s; auto simp: write_word_cell write_word_word slot_in_range_def byte_simps
        split: if_splits)+
qed

lemma write_word_wf: "wf_memory m \<Longrightarrow> write_word m a v = Inr (old, m') \<Longrightarrow> wf_memory m'"
  by (simp add: wf_memory_region write_word_lengths)

text \<open>Reads through a slot, and how a write through another slot leaves them alone.\<close>

definition slot_value :: "guest_memory \<Rightarrow> slot \<Rightarrow> u64" where
  "slot_value m s = (case s of Cell start \<Rightarrow> ucast (from_le (get_bytes (gm_linear m) start 4) :: u32)
     | Word r start \<Rightarrow> from_le (get_bytes (region_buf m r) start 8))"

lemma read_word_slot: "read_word m a = bind_res (locate m a) (\<lambda>s. Inr (slot_value m s))"
  unfolding read_word_def slot_value_def by (rule bind_res_cong) (auto split: slot.splits)

lemma ucast_ucast_u32:
  assumes "v < (2 ^ 32 :: u64)"
  shows "ucast (ucast v :: u32) = v"
proof -
  have "unat v < 2 ^ 32" using assms by (simp add: word_less_nat_alt)
  then have "unat (ucast (ucast v :: u32) :: u64) = unat v"
    by (simp add: unsigned_ucast_eq take_bit_eq_mod unat_mod)
  then show ?thesis by (simp add: word_unat_eq_iff)
qed

lemma write_word_same_slot:
  assumes "write_word m a v = Inr (old, m')" "locate m a = Inr s"
  shows "slot_value m' s = v \<and> slot_in_range m' s"
proof (cases s)
  case (Cell start)
  then have "start + 4 \<le> length (gm_linear m)"
    using locate_cases [OF assms(2)] by (simp add: slot_in_range_def)
  with assms Cell show ?thesis
    by (auto simp: write_word_cell slot_value_def slot_in_range_def byte_simps ucast_ucast_u32
        not_le split: if_splits)
next
  case (Word r start)
  then have "start + 8 \<le> length (region_buf m r)"
    using locate_cases [OF assms(2)] by (simp add: slot_in_range_def)
  with assms Word show ?thesis
    by (auto simp: write_word_word slot_value_def slot_in_range_def byte_simps split: if_splits)
qed

lemma write_word_other_slot:
  assumes w: "write_word m a v = Inr (old, m')" and a: "locate m a = Inr s"
    and b: "locate m b = Inr t" and ne: "a \<noteq> b" and g: "grows m a v" and inv: "invar_memory m"
  shows "slot_value m' t = slot_value m t"
proof -
  have st: "s \<noteq> t" using locate_inj a b ne by blast
  have rs: "slot_in_range m s" and rt: "slot_in_range m t"
    using locate_cases [OF a] locate_cases [OF b] by blast+
  show ?thesis
  proof (cases s)
    case (Cell i)
    show ?thesis
    proof (cases t)
      case (Cell j)
      have "i + 4 \<le> j \<or> j + 4 \<le> i"
        using aligned_apart [of 4 i j] locate_cell_aligned a b st \<open>s = Cell i\<close> Cell by blast
      with w a \<open>s = Cell i\<close> Cell rs rt show ?thesis
        by (auto simp: write_word_cell slot_value_def slot_in_range_def get_put_bytes_other
            split: if_splits)
    next
      case (Word r j)
      with w a \<open>s = Cell i\<close> show ?thesis
        by (auto simp: write_word_cell slot_value_def split: if_splits)
    qed
  next
    case (Word r i)
    show ?thesis
    proof (cases t)
      case (Cell j)
      have "get_bytes (resize (gm_linear m) (linear_bytes m v) 0) j 4 = get_bytes (gm_linear m) j 4"
        if "a = MEMORY_SIZE_ADDR"
        using grows_length [OF inv g that] rt Cell
        by (simp add: slot_in_range_def resize_def get_bytes_def)
      with w a Word Cell show ?thesis
        by (auto simp: write_word_word slot_value_def split: if_splits)
    next
      case (Word q j)
      have "r = q \<Longrightarrow> i + 8 \<le> j \<or> j + 8 \<le> i"
        using aligned_apart [of 8 i j] locate_word_aligned a b st \<open>s = Word r i\<close> Word by blast
      with w a \<open>s = Word r i\<close> Word rs rt show ?thesis
        by (auto simp: write_word_word slot_value_def slot_in_range_def get_put_bytes_other
            split: if_splits)
    qed
  qed
qed

text \<open>A write that does not shrink the memory leaves every mapped address mapped where it was.\<close>

lemma locate_mono:
  assumes "\<And>r. length (region_buf m' r) = length (region_buf m r)"
    and "length (gm_linear m) \<le> length (gm_linear m')" and "locate m a = Inr s"
  shows "locate m' a = Inr s"
proof -
  have "locate_in m' r b c = locate_in m r b c" for r b c
    by (simp only: locate_in_def assms(1))
  then have "locate m' a = locate m a" if "\<not> LINEAR_MEMORY_BASE \<le> a"
    using that by (simp add: locate_def)
  moreover have "locate m' a = Inr s" if "LINEAR_MEMORY_BASE \<le> a"
    using that assms(2,3) by (simp add: locate_def Let_def split: if_splits)
  ultimately show ?thesis using assms(3) by auto
qed

lemma write_word_kept:
  assumes w: "write_word m a v = Inr (old, m')" and t: "locate m b = Inr t" and g: "grows m a v"
    and inv: "invar_memory m"
  shows "locate m' b = Inr t"
proof (rule locate_mono [OF _ _ t])
  show "length (region_buf m' r) = length (region_buf m r)" for r
    using write_word_lengths [OF w] by blast
  obtain s where s: "locate m a = Inr s" using w by (rule write_word_locate)
  show "length (gm_linear m) \<le> length (gm_linear m')"
  proof (cases "a = MEMORY_SIZE_ADDR")
    case True
    obtain r i where "s = Word r i"
      using locate_cases [OF s] unfolding True by (auto simp: layout_values word_le_nat_alt)
    then show ?thesis using w s grows_length [OF inv g True] True by (auto simp: write_word_word)
  next
    case False
    then show ?thesis using write_word_lengths [OF w] by simp
  qed
qed

text \<open>The address written stays mapped even when the write shrinks the memory.\<close>

lemma write_word_relocate:
  assumes w: "write_word m a v = Inr (old, m')" and s: "locate m a = Inr s"
  shows "locate m' a = Inr s"
proof (cases "a = MEMORY_SIZE_ADDR")
  case True
  have len: "length (region_buf m' q) = length (region_buf m q)" for q
    using write_word_lengths [OF w] by blast
  have "locate_in m' q c d = locate_in m q c d" for q c d by (simp only: locate_in_def len)
  moreover have "\<not> LINEAR_MEMORY_BASE \<le> a" using True by (simp add: layout_values word_le_nat_alt)
  ultimately have "locate m' a = locate m a" by (simp add: locate_def)
  then show ?thesis using s by simp
next
  case False
  then have "locate m' a = locate m a"
    using w write_word_lengths by (intro locate_cong) auto
  then show ?thesis using s by simp
qed

text \<open>A cell linear memory gains when the size word grows reads as zero.\<close>

lemma size_bytes_slot:
  assumes "locate m MEMORY_SIZE_ADDR = Inr s"
  shows "slot_value m s = size_bytes m \<and> s = Word System 0"
proof -
  have "s = Word System 0"
    using assms by (auto simp: locate_def locate_in_Inr layout_values word_le_nat_alt SHADOW_STACK_SIZE_def
        split: if_splits)
  then show ?thesis by (simp add: slot_value_def size_bytes_def)
qed

lemma linear_bytes_dvd:
  assumes "4 dvd unat v"
  shows "4 dvd linear_bytes m v"
proof -
  have "4 dvd unat (gm_max_pages m * PAGE_SIZE)" by (simp add: unat_word_ariths dvd_mod)
  then have "4 dvd unat (min v (gm_max_pages m * PAGE_SIZE))" using assms by (simp add: min_def)
  then show ?thesis by (simp add: linear_bytes_def unat_word_ariths WASM_WORD_BYTES_def dvd_mod)
qed

lemma invar_memory_write:
  assumes inv: "invar_memory m" and w: "write_word m a v = Inr (old, m')" and g: "grows m a v"
  shows "invar_memory m'"
proof -
  obtain s where s: "locate m a = Inr s" using w by (rule write_word_locate)
  have wf: "wf_memory m'" using inv write_word_wf [OF _ w] by (simp add: invar_memory_def)
  have max: "gm_max_pages m' = gm_max_pages m" using write_word_lengths [OF w] by blast
  then have lb: "linear_bytes m' x = linear_bytes m x" for x by (simp add: linear_bytes_def)
  show ?thesis
  proof (cases "a = MEMORY_SIZE_ADDR")
    case True
    have si: "s = Word System 0" and s': "locate m' a = Inr s"
      using s size_bytes_slot [of m s] write_word_relocate [OF w s] True by auto
    have "size_bytes m' = v"
      using write_word_same_slot [OF w s] size_bytes_slot [of m' s] s' True by simp
    moreover have "gm_linear m' = resize (gm_linear m) (linear_bytes m v) 0"
      using w s si True by (auto simp: write_word_word)
    moreover have "4 dvd linear_bytes m v" using g True by (simp add: grows_def linear_bytes_dvd)
    ultimately show ?thesis using inv wf max lb by (simp add: invar_memory_def)
  next
    case False
    obtain t where t: "locate m MEMORY_SIZE_ADDR = Inr t"
      using inv by (cases "locate m MEMORY_SIZE_ADDR")
        (auto simp: locate_def locate_in_def layout_values word_le_nat_alt SHADOW_STACK_SIZE_def invar_memory_def
          wf_memory_def split: if_splits)
    have t': "locate m' MEMORY_SIZE_ADDR = Inr t" by (rule write_word_kept [OF w t g inv])
    have "size_bytes m' = size_bytes m"
      using write_word_other_slot [OF w s t False g inv] size_bytes_slot [OF t]
        size_bytes_slot [OF t'] by metis
    then show ?thesis
      using inv wf max lb write_word_lengths(2) [OF w False] unfolding invar_memory_def by metis
  qed
qed

lemma write_word_new_slot:
  assumes inv: "invar_memory m" and w: "write_word m a v = Inr (old, m')"
    and b: "locate m b = Inl e" and b': "locate m' b = Inr t"
  shows "slot_value m' t = 0"
proof -
  obtain s where s: "locate m a = Inr s" using w by (rule write_word_locate)
  have a: "a = MEMORY_SIZE_ADDR"
  proof (rule ccontr)
    assume "a \<noteq> MEMORY_SIZE_ADDR"
    then have "locate m' b = locate m b" using w write_word_lengths by (intro locate_cong) auto
    with b b' show False by simp
  qed
  obtain r i where si: "s = Word r i"
    using locate_cases [OF s] unfolding a by (auto simp: layout_values word_le_nat_alt)
  have len: "length (region_buf m' q) = length (region_buf m q)" for q
    using write_word_lengths [OF w] by blast
  have lin: "gm_linear m' = resize (gm_linear m) (linear_bytes m v) 0"
    using w s si a by (auto simp: write_word_word)
  have eqn: "locate_in m' q c d = locate_in m q c d" for q c d by (simp only: locate_in_def len)
  have ge: "LINEAR_MEMORY_BASE \<le> b"
    using b b' by (auto simp: locate_def eqn split: if_splits)
  obtain j where t: "t = Cell j" "j + 4 \<le> length (gm_linear m')"
      "j = unat ((b - LINEAR_MEMORY_BASE) div 8 * 4)"
    using locate_cases [OF b'] ge by (auto simp: slot_in_range_def)
  have "length (gm_linear m) < j + 4"
    using b b' ge t(3)
    by (auto simp: locate_def Let_def LINEAR_CELL_BYTES_def WASM_WORD_BYTES_def split: if_splits)
  moreover have "4 dvd j" using b' t(1) locate_cell_aligned by blast
  ultimately have "length (gm_linear m) \<le> j"
    using inv by (auto simp: invar_memory_def elim!: dvdE)
  then have "get_bytes (gm_linear m') j 4 = replicate 4 0"
    using t(2) by (intro nth_equalityI) (auto simp: lin nth_get_bytes length_get_bytes nth_resize)
  then have "from_le (get_bytes (gm_linear m') j 4) = (0 :: u32)"
    by (simp add: numeral_eq_Suc)
  then show ?thesis by (simp add: slot_value_def t(1))
qed

section \<open>The contract of a word memory\<close>

text \<open>What the RAM argument relies on, as an interface: a write reports the word that was
  there, the next read of the address returns what was written, other words keep theirs, and
  a word that was not mapped before starts as \<open>fresh\<close>. \<open>allowed\<close> restricts the writes for
  which the last two hold.\<close>

locale word_memory =
  fixes get :: "'m \<Rightarrow> 'a \<Rightarrow> 'e + 'w"
    and put :: "'m \<Rightarrow> 'a \<Rightarrow> 'w \<Rightarrow> 'e + ('w \<times> 'm)"
    and allowed :: "'m \<Rightarrow> 'a \<Rightarrow> 'w \<Rightarrow> bool"
    and invar :: "'m \<Rightarrow> bool"
    and fresh :: 'w
  assumes write_old: "put m a v = Inr (old, m') \<Longrightarrow> get m a = Inr old"
    and write_same: "put m a v = Inr (old, m') \<Longrightarrow> allowed m a v \<Longrightarrow> get m' a = Inr v"
    and write_other: "put m a v = Inr (old, m') \<Longrightarrow> allowed m a v \<Longrightarrow> a \<noteq> b \<Longrightarrow>
          invar m \<Longrightarrow> get m b = Inr w \<Longrightarrow> get m' b = Inr w"
    and write_fresh: "put m a v = Inr (old, m') \<Longrightarrow> allowed m a v \<Longrightarrow> invar m \<Longrightarrow> a \<noteq> b \<Longrightarrow>
          get m b = Inl e \<Longrightarrow> get m' b = Inr w \<Longrightarrow> w = fresh"
    and write_invar: "put m a v = Inr (old, m') \<Longrightarrow> allowed m a v \<Longrightarrow> invar m \<Longrightarrow> invar m'"
begin

text \<open>The memory as a total store: what each address holds, \<open>fresh\<close> where nothing is mapped.\<close>

definition contents :: "'m \<Rightarrow> 'a \<Rightarrow> 'w" where
  "contents m a = (case get m a of Inl _ \<Rightarrow> fresh | Inr w \<Rightarrow> w)"

text \<open>Agreement with a store: the store gives every mapped word and \<open>fresh\<close> elsewhere, so that
  it already answers for the words a growing put maps later.\<close>

definition agrees :: "'m \<Rightarrow> ('a \<Rightarrow> 'w) \<Rightarrow> bool" where
  "agrees m \<sigma> \<longleftrightarrow> invar m \<and> \<sigma> = contents m"

lemma agrees_read: "agrees m \<sigma> \<Longrightarrow> get m a = Inr w \<Longrightarrow> \<sigma> a = w"
  by (simp add: agrees_def contents_def)

lemma agrees_write:
  assumes "agrees m \<sigma>" "put m a v = Inr (old, m')" "allowed m a v"
  shows "agrees m' (\<sigma>(a := v)) \<and> \<sigma> a = old"
proof -
  have "contents m' b = (\<sigma>(a := v)) b" for b
  proof (cases "b = a")
    case True
    then show ?thesis using write_same [OF assms(2,3)] by (simp add: contents_def)
  next
    case False
    then have ab: "a \<noteq> b" by simp
    show ?thesis
    proof (cases "get m b")
      case (Inr w)
      then show ?thesis
        using write_other [OF assms(2,3) ab _ Inr] assms(1) ab by (simp add: contents_def agrees_def)
    next
      case (Inl e)
      then have "\<sigma> b = fresh" using assms(1) by (simp add: contents_def agrees_def)
      moreover have "contents m' b = fresh"
        using write_fresh [OF assms(2,3) _ ab Inl] assms(1)
        by (cases "get m' b") (simp_all add: contents_def agrees_def)
      ultimately show ?thesis using ab by simp
    qed
  qed
  moreover have "\<sigma> a = old" using agrees_read [OF assms(1)] write_old [OF assms(2)] by blast
  moreover have "invar m'" using write_invar [OF assms(2,3)] assms(1) by (simp add: agrees_def)
  ultimately show ?thesis by (auto simp: agrees_def)
qed

end

interpretation wm: word_memory read_word write_word grows invar_memory 0
proof
  fix m a v old m'
  assume w: "write_word m a v = Inr (old, m')"
  obtain s where s: "locate m a = Inr s" using w by (rule write_word_locate)
  show "read_word m a = Inr old" by (rule write_word_old [OF w])
  assume g: "grows m a v"
  show "read_word m' a = Inr v"
    using write_word_same_slot [OF w s] write_word_relocate [OF w s] by (simp add: read_word_slot)
  assume i: "invar_memory m"
  show "invar_memory m'" by (rule invar_memory_write [OF i w g])
  show "read_word m' b = Inr x" if ab: "a \<noteq> b" and x: "read_word m b = Inr x" for b x
  proof -
    obtain t where t: "locate m b = Inr t" "x = slot_value m t"
      using x by (auto simp: read_word_slot elim!: bind_res_InrE)
    then show ?thesis
      using write_word_other_slot [OF w s t(1) ab g i] write_word_kept [OF w t(1) g i]
      by (simp add: read_word_slot)
  qed
  show "x = 0" if "a \<noteq> b" "read_word m b = Inl e" "read_word m' b = Inr x" for b x e
    using that write_word_new_slot [OF i w]
    by (auto simp: read_word_slot bind_res_eq_Inl elim!: bind_res_InrE)
qed

section \<open>The initial memory\<close>

lemma fill_table_length: "fill_table buf i ss = Some buf' \<Longrightarrow> length buf' = length buf"
proof (induction buf i ss arbitrary: buf' rule: fill_table.induct)
  case (2 buf i s ss)
  let ?start = "unat (table_slot_address (of_nat i) - TABLE_BASE)"
  let ?buf = "put_bytes (put_bytes buf ?start (to_le 8 (table_slot_words s ! 0))) (?start + 8)
    (to_le 8 (table_slot_words s ! 1))"
  from 2(2) have le: "?start + 16 \<le> length buf" and rest: "fill_table ?buf (Suc i) ss = Some buf'"
    by (simp_all add: Let_def split: if_splits)
  have "length buf' = length ?buf" using 2(1) [OF refl refl le rest] .
  also have "\<dots> = length buf" using le by (simp add: length_put_bytes)
  finally show ?case .
qed simp

lemma region_sizes:
  "unat SHADOW_STACK_SIZE = 0x100000" "unat SYSTEM_SIZE = 0x1000" "unat INPUTS_SIZE = 0x1000"
  "unat OUTPUTS_SIZE = 0x1000" "unat GLOBALS_SIZE = 0x10000" "unat TABLE_SIZE = 0x10000"
  by (simp_all add: layout_defs)

text \<open>The limits the decoder admits.\<close>

definition limits_ok :: "memory_limits \<Rightarrow> bool" where
  "limits_ok limits \<longleftrightarrow> initial_pages limits \<le> max_pages limits \<and> max_pages limits \<le> MAX_PAGES"

lemma limits_bytes:
  assumes "limits_ok limits"
  shows "initial_pages limits * PAGE_SIZE \<le> max_pages limits * PAGE_SIZE"
    "unat (initial_pages limits * PAGE_SIZE) = unat (initial_pages limits) * 65536"
    "unat (initial_pages limits) \<le> 65536" "unat (max_pages limits) \<le> 65536"
proof -
  have a: "unat (initial_pages limits) \<le> unat (max_pages limits)" "unat (max_pages limits) \<le> 65536"
    using assms by (simp_all add: limits_ok_def word_le_nat_alt MAX_PAGES_def)
  then show "unat (initial_pages limits) \<le> 65536" "unat (max_pages limits) \<le> 65536" by simp_all
  have "unat (w * PAGE_SIZE) = unat w * 65536" if "unat w \<le> 65536" for w :: u64
    using that by (simp add: unat_word_ariths)
  then show "unat (initial_pages limits * PAGE_SIZE) = unat (initial_pages limits) * 65536"
    "initial_pages limits * PAGE_SIZE \<le> max_pages limits * PAGE_SIZE"
    using a by (simp_all add: word_le_nat_alt)
qed

lemma memory_new_facts:
  assumes "memory_new limits globals table = Some m" "limits_ok limits"
  shows "invar_memory m" "size_bytes m = initial_pages limits * PAGE_SIZE"
    "gm_max_pages m = max_pages limits"
proof -
  let ?bytes = "initial_pages limits * PAGE_SIZE"
  have max: "gm_max_pages m = max_pages limits"
    and sys: "gm_system m = put_bytes (replicate 0x1000 0) 0 (to_le 8 ?bytes)"
    and lin: "gm_linear m = replicate (unat (?bytes + WASM_WORD_BYTES)) 0"
    and tab: "length (gm_table m) = 0x10000"
    and other: "length (gm_shadow m) = 0x100000" "length (gm_inputs m) = 0x1000"
      "length (gm_outputs m) = 0x1000" "length (gm_globals m) = 0x10000"
    using assms(1) by (auto simp: memory_new_def Let_def region_sizes dest: fill_table_length)
  show "gm_max_pages m = max_pages limits" by (rule max)
  show size: "size_bytes m = ?bytes"
    using get_put_bytes_same [of 0 "to_le 8 ?bytes" "replicate 0x1000 0" 8]
    by (simp add: size_bytes_def sys)
  have "min ?bytes (max_pages limits * PAGE_SIZE) = ?bytes"
    using limits_bytes(1) [OF assms(2)] by (simp add: min_def)
  then have l: "length (gm_linear m) = linear_bytes m ?bytes"
    by (simp add: lin linear_bytes_def max)
  have "4 dvd unat ?bytes" using limits_bytes(2) [OF assms(2)] by simp
  then have "4 dvd length (gm_linear m)" unfolding l by (rule linear_bytes_dvd)
  moreover have "length (gm_system m) = 0x1000" by (simp add: sys length_put_bytes)
  ultimately show "invar_memory m"
    using tab other l size max assms(2) by (simp add: invar_memory_def wf_memory_def limits_ok_def)
qed

lemma init_linear_keeps:
  assumes "init_linear m offset bytes = Inr m'"
  shows "invar_memory m' \<longleftrightarrow> invar_memory m" "size_bytes m' = size_bytes m"
    "gm_max_pages m' = gm_max_pages m" "length (gm_linear m') = length (gm_linear m)"
proof -
  have b: "unat offset + length bytes \<le> length (gm_linear m)"
    and m': "m' = m\<lparr>gm_linear := put_bytes (gm_linear m) (unat offset) bytes\<rparr>"
    using assms by (auto simp: init_linear_def split: if_splits)
  have len: "length (gm_linear m') = length (gm_linear m)"
    using b by (simp add: m' length_put_bytes)
  have "wf_memory m' = wf_memory m" "size_bytes m' = size_bytes m" "linear_bytes m' = linear_bytes m"
    "gm_max_pages m' = gm_max_pages m"
    by (simp_all add: m' wf_memory_def size_bytes_def linear_bytes_def fun_eq_iff)
  then show "invar_memory m' \<longleftrightarrow> invar_memory m" "size_bytes m' = size_bytes m"
    "gm_max_pages m' = gm_max_pages m" "length (gm_linear m') = length (gm_linear m)"
    using len by (simp_all add: invar_memory_def)
qed

end
