(* ===== verification/Row_Model.thy ===== *)
theory Row_Model
  imports Wasm_Ir
begin

text \<open>
  \<^verbatim>\<open>jolt-wasm-ir/src/row.rs\<close>: the flags of a proof row, the set of flags as a
  32-bit mask, what a row looks up, and the classification \<open>row_spec\<close> of every
  instruction. \<open>has_simps\<close> reads a flag out of a union of masks.
\<close>

datatype row_flag =
    F_LeftIsRs1 | F_RightIsRs2 | F_RightIsImm
  | F_AddOperands | F_SubOperands | F_MulOperands
  | F_WriteLookupToRd | F_Load | F_Store | F_Jump | F_Branch | F_Assert
  | F_Halt | F_Trap | F_Advice

fun flag_bit :: "row_flag \<Rightarrow> nat" where
  "flag_bit F_LeftIsRs1 = 0"
| "flag_bit F_RightIsRs2 = 1"
| "flag_bit F_RightIsImm = 2"
| "flag_bit F_AddOperands = 3"
| "flag_bit F_SubOperands = 4"
| "flag_bit F_MulOperands = 5"
| "flag_bit F_WriteLookupToRd = 6"
| "flag_bit F_Load = 7"
| "flag_bit F_Store = 8"
| "flag_bit F_Jump = 9"
| "flag_bit F_Branch = 10"
| "flag_bit F_Assert = 11"
| "flag_bit F_Halt = 12"
| "flag_bit F_Trap = 13"
| "flag_bit F_Advice = 14"

definition FLAG_COUNT :: nat where "FLAG_COUNT = 15"

definition ALL_FLAGS :: "row_flag list" where
  "ALL_FLAGS =
    [F_LeftIsRs1, F_RightIsRs2, F_RightIsImm, F_AddOperands, F_SubOperands, F_MulOperands,
     F_WriteLookupToRd, F_Load, F_Store, F_Jump, F_Branch, F_Assert, F_Halt, F_Trap, F_Advice]"

datatype row_flags = RowFlags (flags_bits: u32)

definition flag_mask :: "row_flag \<Rightarrow> row_flags" where
  "flag_mask f = RowFlags (push_bit (flag_bit f) 1)"

definition flags_empty :: row_flags where
  "flags_empty = RowFlags 0"

definition flags_union :: "row_flags \<Rightarrow> row_flags \<Rightarrow> row_flags" where
  "flags_union a b = RowFlags (flags_bits a OR flags_bits b)"

definition flags_intersects :: "row_flags \<Rightarrow> row_flags \<Rightarrow> bool" where
  "flags_intersects a b \<longleftrightarrow> flags_bits a AND flags_bits b \<noteq> 0"

definition flags_has :: "row_flags \<Rightarrow> row_flag \<Rightarrow> bool" where
  "flags_has a f \<longleftrightarrow> flags_bits a AND flags_bits (flag_mask f) \<noteq> 0"

definition flags_from_bits :: "u32 \<Rightarrow> row_flags" where
  "flags_from_bits b = RowFlags (b AND (push_bit FLAG_COUNT 1 - 1))"

named_theorems has_simps "reading one flag of a set of flags"

lemma flag_bit_less: "flag_bit f < 15"
  by (cases f) auto

lemma flag_bit_inj [simp]: "flag_bit f = flag_bit g \<longleftrightarrow> f = g"
  by (cases f; cases g) auto

lemma ALL_FLAGS_bits: "map flag_bit ALL_FLAGS = [0..<FLAG_COUNT]"
  by (simp add: ALL_FLAGS_def FLAG_COUNT_def upt_rec)

lemma in_ALL_FLAGS: "f \<in> set ALL_FLAGS"
  by (cases f) (auto simp: ALL_FLAGS_def)

lemma flags_has_bit: "flags_has a f \<longleftrightarrow> bit (flags_bits a) (flag_bit f)"
  by (simp add: flags_has_def flag_mask_def bit_iff_and_push_bit_not_eq_0)

lemma flags_has_union [has_simps]:
  "flags_has (flags_union a b) f \<longleftrightarrow> flags_has a f \<or> flags_has b f"
  by (simp add: flags_has_bit flags_union_def bit_or_iff)

lemma flags_has_mask [has_simps]: "flags_has (flag_mask g) f \<longleftrightarrow> f = g"
proof -
  have "flag_bit f < 32" using flag_bit_less [of f] by simp
  then have "bit (push_bit (flag_bit g) (1 :: u32)) (flag_bit f) \<longleftrightarrow> flag_bit f = flag_bit g"
    by (auto simp: bit_exp_iff possible_bit_def)
  then show ?thesis by (simp add: flags_has_bit flag_mask_def)
qed

lemma flags_has_empty [has_simps]: "\<not> flags_has flags_empty f"
  by (simp add: flags_has_bit flags_empty_def)

lemma flags_intersects_union_right [has_simps]:
  "flags_intersects a (flags_union b c) \<longleftrightarrow> flags_intersects a b \<or> flags_intersects a c"
  by (auto simp: flags_intersects_def flags_union_def bit.conj_disj_distrib or_eq_0_iff)

lemma flags_intersects_mask [has_simps]: "flags_intersects a (flag_mask f) \<longleftrightarrow> flags_has a f"
  by (simp add: flags_intersects_def flags_has_def)

text \<open>The set of flags is recovered from its bits: the encoding of a committed row
  loses no flag.\<close>

lemma flags_from_bits_mask: "flags_from_bits (flags_bits (flag_mask f)) = flag_mask f"
  by (cases f) (simp_all add: flags_from_bits_def flag_mask_def FLAG_COUNT_def)

lemma flags_from_bits_union:
  "flags_from_bits (flags_bits (flags_union a b)) =
     flags_union (flags_from_bits (flags_bits a)) (flags_from_bits (flags_bits b))"
  by (simp add: flags_from_bits_def flags_union_def bit.conj_disj_distrib2)

section \<open>What a row looks up\<close>

datatype lookup = Lookup_Table alu_op | Lookup_Advice advice_hint

fun lookup_table_op :: "lookup \<Rightarrow> alu_op" where
  "lookup_table_op (Lookup_Table op) = op"
| "lookup_table_op (Lookup_Advice _) = A_Add W64"

fun lookup_is_raw_index :: "lookup \<Rightarrow> bool" where
  "lookup_is_raw_index (Lookup_Table op) \<longleftrightarrow> op_mode op \<noteq> Mode_Interleaved"
| "lookup_is_raw_index (Lookup_Advice _) \<longleftrightarrow> True"

section \<open>Row specifications\<close>

record row_spec =
  rs_flags :: row_flags
  rs_rs1 :: "reg option"
  rs_rs2 :: "reg option"
  rs_rd :: "reg option"
  rs_imm :: u64
  rs_lookup :: "lookup option"

definition spec_empty :: row_spec where
  "spec_empty = \<lparr>rs_flags = flags_empty, rs_rs1 = None, rs_rs2 = None, rs_rd = None,
     rs_imm = 0, rs_lookup = None\<rparr>"

definition spec_left_input :: "row_spec \<Rightarrow> u64 \<Rightarrow> u64" where
  "spec_left_input s rs1_value = (if flags_has (rs_flags s) F_LeftIsRs1 then rs1_value else 0)"

definition spec_right_input :: "row_spec \<Rightarrow> u64 \<Rightarrow> u64" where
  "spec_right_input s rs2_value =
     (if flags_has (rs_flags s) F_RightIsRs2 then rs2_value
      else if flags_has (rs_flags s) F_RightIsImm then rs_imm s
      else 0)"

definition spec_raf_flag :: "row_spec \<Rightarrow> bool" where
  "spec_raf_flag s = (case rs_lookup s of None \<Rightarrow> False | Some l \<Rightarrow> lookup_is_raw_index l)"

definition spec_output :: "row_spec \<Rightarrow> u64 \<Rightarrow> u64 \<Rightarrow> u64 \<Rightarrow> u64" where
  "spec_output s left right rd_write =
     (case rs_lookup s of
        Some (Lookup_Table op) \<Rightarrow> evaluate op left right
      | Some (Lookup_Advice _) \<Rightarrow> rd_write
      | None \<Rightarrow> 0)"

fun operand_flags :: "alu_op \<Rightarrow> row_flags" where
  "operand_flags op =
     (case op_mode op of
        Mode_Interleaved \<Rightarrow> flags_empty
      | Mode_Add \<Rightarrow> flag_mask F_AddOperands
      | Mode_Sub \<Rightarrow> flag_mask F_SubOperands
      | Mode_Mul \<Rightarrow> flag_mask F_MulOperands)"

fun right_operand :: "operand \<Rightarrow> row_flags \<times> reg option \<times> u64" where
  "right_operand (Op_Reg r) = (flag_mask F_RightIsRs2, Some r, 0)"
| "right_operand (Op_Imm v) = (flag_mask F_RightIsImm, None, v)"

fun row_spec_of :: "ir \<Rightarrow> row_spec" where
  "row_spec_of Nop = spec_empty"
| "row_spec_of Halt = spec_empty\<lparr>rs_flags := flag_mask F_Halt\<rparr>"
| "row_spec_of Trap = spec_empty\<lparr>rs_flags := flag_mask F_Trap\<rparr>"
| "row_spec_of (Alu op rd rs1 rs2) =
     (case right_operand rs2 of (right, r2, imm) \<Rightarrow>
       \<lparr>rs_flags = flags_union (flags_union (flags_union (flag_mask F_LeftIsRs1) right)
                     (flag_mask F_WriteLookupToRd)) (operand_flags op),
        rs_rs1 = Some rs1, rs_rs2 = r2, rs_rd = Some rd, rs_imm = imm,
        rs_lookup = Some (Lookup_Table op)\<rparr>)"
| "row_spec_of (Advice hint rd rs1 rs2) =
     spec_empty\<lparr>rs_flags := flags_union (flag_mask F_Advice) (flag_mask F_WriteLookupToRd),
       rs_rs1 := Some rs1, rs_rs2 := Some rs2, rs_rd := Some rd,
       rs_lookup := Some (Lookup_Advice hint)\<rparr>"
| "row_spec_of (Assert op failure rs1 rs2) =
     (case right_operand rs2 of (right, r2, imm) \<Rightarrow>
       \<lparr>rs_flags = flags_union (flags_union (flags_union (flag_mask F_LeftIsRs1) right)
                     (flag_mask F_Assert)) (operand_flags op),
        rs_rs1 = Some rs1, rs_rs2 = r2, rs_rd = None, rs_imm = imm,
        rs_lookup = Some (Lookup_Table op)\<rparr>)"
| "row_spec_of (Load rd rs offset) =
     spec_empty\<lparr>rs_flags := flag_mask F_Load, rs_rs1 := Some rs, rs_rd := Some rd,
       rs_imm := offset\<rparr>"
| "row_spec_of (Store rs val offset) =
     spec_empty\<lparr>rs_flags := flag_mask F_Store, rs_rs1 := Some rs, rs_rs2 := Some val,
       rs_imm := offset\<rparr>"
| "row_spec_of (Jump target) =
     spec_empty\<lparr>rs_flags := flags_union (flags_union (flag_mask F_RightIsImm)
                  (flag_mask F_AddOperands)) (flag_mask F_Jump),
       rs_imm := ucast target, rs_lookup := Some (Lookup_Table (A_Add W64))\<rparr>"
| "row_spec_of (JumpReg rs) =
     spec_empty\<lparr>rs_flags := flags_union (flags_union (flag_mask F_LeftIsRs1)
                  (flag_mask F_AddOperands)) (flag_mask F_Jump),
       rs_rs1 := Some rs, rs_lookup := Some (Lookup_Table (A_Add W64))\<rparr>"
| "row_spec_of (Branch op rs1 rs2 target) =
     spec_empty\<lparr>rs_flags := flags_union (flags_union (flags_union (flag_mask F_LeftIsRs1)
                  (flag_mask F_RightIsRs2)) (flag_mask F_Branch)) (operand_flags op),
       rs_rs1 := Some rs1, rs_rs2 := Some rs2, rs_imm := ucast target,
       rs_lookup := Some (Lookup_Table op)\<rparr>"

lemma operand_flags_has [has_simps]:
  "flags_has (operand_flags op) f \<longleftrightarrow>
     (f = F_AddOperands \<and> op_mode op = Mode_Add) \<or>
     (f = F_SubOperands \<and> op_mode op = Mode_Sub) \<or>
     (f = F_MulOperands \<and> op_mode op = Mode_Mul)"
  by (auto simp: has_simps split: operand_mode.splits)

declare operand_flags.simps [simp del]

lemmas spec_simps = spec_empty_def spec_left_input_def spec_right_input_def spec_output_def
  spec_raf_flag_def

text \<open>Facts about the classification that every consumer of a row relies on: which flags
  exclude each other, and which operand registers come with which flags.\<close>

lemma right_operand_eq:
  "right_operand o2 = (case o2 of Op_Reg r \<Rightarrow> (flag_mask F_RightIsRs2, Some r, 0)
     | Op_Imm v \<Rightarrow> (flag_mask F_RightIsImm, None, v))"
  by (cases o2) auto

lemma row_flags_disjoint:
  "\<not> (flags_has (rs_flags (row_spec_of i)) F_RightIsRs2 \<and>
      flags_has (rs_flags (row_spec_of i)) F_RightIsImm)"
  "\<not> (flags_has (rs_flags (row_spec_of i)) F_Load \<and> flags_has (rs_flags (row_spec_of i)) F_Store)"
  "\<not> (flags_has (rs_flags (row_spec_of i)) F_Jump \<and> flags_has (rs_flags (row_spec_of i)) F_Branch)"
  "\<not> (flags_has (rs_flags (row_spec_of i)) F_Halt \<and>
      (flags_has (rs_flags (row_spec_of i)) F_Jump \<or> flags_has (rs_flags (row_spec_of i)) F_Branch))"
  by (cases i; simp add: has_simps spec_empty_def right_operand_eq split: operand.splits)+

end
