(* ===== verification/Machine_Exec.thy ===== *)
theory Machine_Exec
  imports Guest_Memory Row_Model
begin

text \<open>
  \<^verbatim>\<open>jolt-wasm-backend/src/machine.rs\<close> (and the errors of \<^verbatim>\<open>error.rs\<close>): the
  reference interpreter, one record per executed instruction. The register file
  \<^verbatim>\<open>[u64; REGISTER_COUNT]\<close>, indexed by a register, is a function of the register. The loop of
  \<^verbatim>\<open>run\<close> recurses on the steps left under the step limit, so it always returns, with
  \<open>StepLimit\<close> when they are used up.
\<close>

record register_read =
  rr_register :: reg
  rr_value :: u64

record register_write =
  rw_register :: reg
  rw_pre_value :: u64
  rw_post_value :: u64

record ram_read =
  rd_address :: u64
  rd_value :: u64

record ram_write =
  wr_address :: u64
  wr_pre_value :: u64
  wr_post_value :: u64

datatype ram_access = Ram_Read ram_read | Ram_Write ram_write | Ram_NoOp

record exec_record =
  rec_pc :: pc
  rec_next_pc :: pc
  rec_instruction :: ir
  rec_rs1 :: "register_read option"
  rec_rs2 :: "register_read option"
  rec_rd :: "register_write option"
  rec_ram :: ram_access

record execution =
  ex_records :: "exec_record list"
  ex_results :: "u64 list"
  ex_terminated :: bool
  ex_memory :: guest_memory

datatype execution_error =
    UnknownExport string
  | ArgumentCount string nat nat
  | Exec_Trap pc trap
  | StepLimit u64
  | Exec_Panicked

definition DEFAULT_STEP_LIMIT :: u64 where "DEFAULT_STEP_LIMIT = 2 ^ 32"

record machine =
  m_program :: ir_program
  m_regs :: "reg \<Rightarrow> u64"
  m_pc :: pc
  m_memory :: guest_memory
  m_step_limit :: u64

section \<open>Construction\<close>

fun init_segments :: "guest_memory \<Rightarrow> data_segment list \<Rightarrow> trap + guest_memory" where
  "init_segments m [] = Inr m"
| "init_segments m (d # ds) =
     bind_res (init_linear m (ds_offset d) (ds_bytes d)) (\<lambda>m'. init_segments m' ds)"

definition map_err :: "('e \<Rightarrow> 'f) \<Rightarrow> 'e + 'a \<Rightarrow> 'f + 'a" where
  "map_err f r = (case r of Inl e \<Rightarrow> Inl (f e) | Inr x \<Rightarrow> Inr x)"

definition machine_new :: "ir_program \<Rightarrow> execution_error + machine" where
  "machine_new program =
     (case memory_new (p_memory program) (p_globals program) (p_table program) of
        None \<Rightarrow> Inl Exec_Panicked
      | Some memory \<Rightarrow>
          bind_res (map_err (Exec_Trap HALT_PC) (init_segments memory (p_data program))) (\<lambda>memory'.
          Inr \<lparr>m_program = program, m_regs = (\<lambda>_. 0), m_pc = HALT_PC, m_memory = memory',
               m_step_limit = DEFAULT_STEP_LIMIT\<rparr>))"

definition with_step_limit :: "machine \<Rightarrow> u64 \<Rightarrow> machine" where
  "with_step_limit m limit = m\<lparr>m_step_limit := limit\<rparr>"

section \<open>One step\<close>

definition read_reg :: "machine \<Rightarrow> reg \<Rightarrow> register_read" where
  "read_reg m r = \<lparr>rr_register = r, rr_value = m_regs m r\<rparr>"

definition write_reg :: "machine \<Rightarrow> reg \<Rightarrow> u64 \<Rightarrow> register_write \<times> machine" where
  "write_reg m rd v =
     (let pre_value = m_regs m rd; post_value = (if rd = ZERO then 0 else v) in
      (\<lparr>rw_register = rd, rw_pre_value = pre_value, rw_post_value = post_value\<rparr>,
       m\<lparr>m_regs := (m_regs m)(rd := post_value)\<rparr>))"

definition assert_trap :: "ir \<Rightarrow> u64 \<Rightarrow> trap" where
  "assert_trap i rs1_value =
     (case i of
        Assert _ failure _ _ \<Rightarrow>
          (case failure of
             OutOfBounds bytes \<Rightarrow> OutOfBoundsMemory rs1_value bytes
           | DivideByZero \<Rightarrow> Trap_DivideByZero
           | IntegerOverflow \<Rightarrow> Trap_IntegerOverflow
           | TableOutOfBounds \<Rightarrow> Trap_TableOutOfBounds
           | IndirectCallTypeMismatch \<Rightarrow> Trap_IndirectCallTypeMismatch)
      | _ \<Rightarrow> Unreachable)"

text \<open>The value of an optional read: \<^verbatim>\<open>rs1.map_or(0, |r| r.value)\<close>.\<close>

definition read_value :: "register_read option \<Rightarrow> u64" where
  "read_value r = (case r of None \<Rightarrow> 0 | Some x \<Rightarrow> rr_value x)"

definition post_value :: "register_write option \<Rightarrow> u64" where
  "post_value w = (case w of None \<Rightarrow> 0 | Some x \<Rightarrow> rw_post_value x)"

definition step_output :: "row_spec \<Rightarrow> u64 \<Rightarrow> u64 \<Rightarrow> u64" where
  "step_output spec rs1_value rs2_value =
     (case rs_lookup spec of
        Some (Lookup_Table op) \<Rightarrow>
          evaluate op (spec_left_input spec rs1_value) (spec_right_input spec rs2_value)
      | Some (Lookup_Advice hint) \<Rightarrow> advice_compute hint rs1_value rs2_value
      | None \<Rightarrow> 0)"

text \<open>The flag-guarded memory effect: the access, the value for \<open>rd\<close>, the memory after.\<close>

definition step_ram ::
  "row_spec \<Rightarrow> guest_memory \<Rightarrow> u64 \<Rightarrow> u64 \<Rightarrow> u64 \<Rightarrow> trap + (ram_access \<times> u64 option \<times> guest_memory)"
where
  "step_ram spec memory rs1_value rs2_value output =
     (let flags = rs_flags spec; address = rs1_value + rs_imm spec in
      if flags_has flags F_Load then
        bind_res (read_word memory address) (\<lambda>v.
        Inr (Ram_Read \<lparr>rd_address = address, rd_value = v\<rparr>, Some v, memory))
      else if flags_has flags F_Store then
        bind_res (write_word memory address rs2_value) (\<lambda>(pre_value, memory').
        Inr (Ram_Write \<lparr>wr_address = address, wr_pre_value = pre_value,
                        wr_post_value = rs2_value\<rparr>, None, memory'))
      else if flags_intersects flags (flags_union (flag_mask F_WriteLookupToRd) (flag_mask F_Advice))
      then Inr (Ram_NoOp, Some output, memory)
      else Inr (Ram_NoOp, None, memory))"

text \<open>\<^verbatim>\<open>Pc::try_from(output)\<close>.\<close>

definition pc_try_from :: "u64 \<Rightarrow> pc option" where
  "pc_try_from v = (if v < 2 ^ 32 then Some (ucast v) else None)"

definition step_next_pc :: "row_spec \<Rightarrow> pc \<Rightarrow> u64 \<Rightarrow> u64 + pc" where
  "step_next_pc spec pc output =
     (let flags = rs_flags spec in
      if flags_has flags F_Halt then Inr pc
      else if flags_has flags F_Jump then ok_or (pc_try_from output) output
      else if flags_has flags F_Branch \<and> output = 1 then Inr (ucast (rs_imm spec))
      else Inr (pc + 1))"

definition step :: "machine \<Rightarrow> trap + (exec_record \<times> machine)" where
  "step m =
     (let pc = m_pc m in
      bind_res (ok_or (nth_opt (p_code (m_program m)) (unat pc)) (InvalidJump (ucast pc)))
        (\<lambda>instruction.
      let spec = row_spec_of instruction; flags = rs_flags spec in
      if flags_has flags F_Trap then Inl Unreachable
      else
        (let rs1 = map_option (read_reg m) (rs_rs1 spec);
             rs2 = map_option (read_reg m) (rs_rs2 spec);
             output = step_output spec (read_value rs1) (read_value rs2) in
         if flags_has flags F_Assert \<and> output \<noteq> 1
         then Inl (assert_trap instruction (read_value rs1))
         else
           bind_res (step_ram spec (m_memory m) (read_value rs1) (read_value rs2) output)
             (\<lambda>(ram, rd_val, memory').
           let m1 = m\<lparr>m_memory := memory'\<rparr>;
               (rd, m2) = (case (rs_rd spec, rd_val) of
                  (Some reg, Some v) \<Rightarrow> (case write_reg m1 reg v of (w, m2) \<Rightarrow> (Some w, m2))
                | _ \<Rightarrow> (None, m1)) in
           bind_res (map_err InvalidJump (step_next_pc spec pc output)) (\<lambda>next_pc.
           Inr (\<lparr>rec_pc = pc, rec_next_pc = next_pc, rec_instruction = instruction,
                 rec_rs1 = rs1, rec_rs2 = rs2, rec_rd = rd, rec_ram = ram\<rparr>,
                m2\<lparr>m_pc := next_pc\<rparr>))))))"

section \<open>Running an export\<close>

fun run :: "nat \<Rightarrow> machine \<Rightarrow> execution_error + (exec_record list \<times> machine)" where
  "run 0 m = Inl (StepLimit (m_step_limit m))"
| "run (Suc n) m =
     bind_res (map_err (Exec_Trap (m_pc m)) (step m)) (\<lambda>(r, m').
     if rec_instruction r = Halt then Inr ([r], m')
     else bind_res (run n m') (\<lambda>(rs, m''). Inr (r # rs, m'')))"

fun write_inputs :: "guest_memory \<Rightarrow> nat \<Rightarrow> u64 list \<Rightarrow> trap + guest_memory" where
  "write_inputs memory i [] = Inr memory"
| "write_inputs memory i (arg # args) =
     bind_res (write_word memory (input_address (of_nat i)) arg) (\<lambda>(_, memory').
     write_inputs memory' (Suc i) args)"

definition invoke :: "machine \<Rightarrow> string \<Rightarrow> u64 list \<Rightarrow> execution_error + execution" where
  "invoke m name args =
     (let program = m_program m in
      bind_res (ok_or (map_of (p_exports program) name) (UnknownExport name)) (\<lambda>function.
      bind_res (ok_or (map_of (p_entries program) name) (UnknownExport name)) (\<lambda>entry.
      bind_res (ok_or (nth_opt (p_functions program) (unat function)) (UnknownExport name)) (\<lambda>f.
      let params = unat (fn_params f) in
      bind_res (ok_or (map_of (p_output_words program) name) (UnknownExport name)) (\<lambda>results.
      if length args \<noteq> params then Inl (ArgumentCount name params (length args))
      else
        bind_res (map_err (Exec_Trap HALT_PC) (write_inputs (m_memory m) 0 args)) (\<lambda>memory.
        bind_res (run (unat (m_step_limit m))
                   (m\<lparr>m_regs := (\<lambda>_. 0), m_pc := entry, m_memory := memory\<rparr>)) (\<lambda>(records, m').
        bind_res (map_err (Exec_Trap HALT_PC)
                   (map_res (\<lambda>k. read_word (m_memory m') (output_address (of_nat k)))
                     [0..<unat results])) (\<lambda>words.
        bind_res (map_err (Exec_Trap HALT_PC) (read_word (m_memory m') TERMINATION_ADDR)) (\<lambda>t.
        Inr \<lparr>ex_records = records, ex_results = words, ex_terminated = (t = 1),
             ex_memory = m_memory m'\<rparr>)))))))))"

section \<open>The instruction set without the row model\<close>

text \<open>A direct semantics of the instructions on registers, program counter and memory: the
  specification the row-driven \<^const>\<open>step\<close> implements.\<close>

definition set_reg :: "(reg \<Rightarrow> u64) \<Rightarrow> reg \<Rightarrow> u64 \<Rightarrow> reg \<Rightarrow> u64" where
  "set_reg regs rd v = regs(rd := if rd = ZERO then 0 else v)"

fun operand_value :: "(reg \<Rightarrow> u64) \<Rightarrow> operand \<Rightarrow> u64" where
  "operand_value regs (Op_Reg r) = regs r"
| "operand_value regs (Op_Imm v) = v"

type_synonym isa_state = "(reg \<Rightarrow> u64) \<times> pc \<times> guest_memory"

fun isa_step :: "ir \<Rightarrow> isa_state \<Rightarrow> trap + isa_state" where
  "isa_step Nop (regs, pc, mem) = Inr (regs, pc + 1, mem)"
| "isa_step Halt (regs, pc, mem) = Inr (regs, pc, mem)"
| "isa_step Trap (regs, pc, mem) = Inl Unreachable"
| "isa_step (Alu op rd a b) (regs, pc, mem) =
     Inr (set_reg regs rd (evaluate op (regs a) (operand_value regs b)), pc + 1, mem)"
| "isa_step (Advice hint rd a b) (regs, pc, mem) =
     Inr (set_reg regs rd (advice_compute hint (regs a) (regs b)), pc + 1, mem)"
| "isa_step (Assert op failure a b) (regs, pc, mem) =
     (if evaluate op (regs a) (operand_value regs b) = 1 then Inr (regs, pc + 1, mem)
      else Inl (assert_trap (Assert op failure a b) (regs a)))"
| "isa_step (Load rd rs offset) (regs, pc, mem) =
     bind_res (read_word mem (regs rs + offset)) (\<lambda>v. Inr (set_reg regs rd v, pc + 1, mem))"
| "isa_step (Store rs val offset) (regs, pc, mem) =
     bind_res (write_word mem (regs rs + offset) (regs val)) (\<lambda>(_, mem'). Inr (regs, pc + 1, mem'))"
| "isa_step (Jump target) (regs, pc, mem) = Inr (regs, target, mem)"
| "isa_step (JumpReg rs) (regs, pc, mem) =
     (if regs rs < 2 ^ 32 then Inr (regs, ucast (regs rs), mem) else Inl (InvalidJump (regs rs)))"
| "isa_step (Branch op a b target) (regs, pc, mem) =
     Inr (regs, if evaluate op (regs a) (regs b) = 1 then target else pc + 1, mem)"

definition machine_state :: "machine \<Rightarrow> isa_state" where
  "machine_state m = (m_regs m, m_pc m, m_memory m)"

definition put_state :: "machine \<Rightarrow> isa_state \<Rightarrow> machine" where
  "put_state m st = (case st of (regs, pc, mem) \<Rightarrow> m\<lparr>m_regs := regs, m_pc := pc, m_memory := mem\<rparr>)"

definition instruction_at :: "machine \<Rightarrow> ir option" where
  "instruction_at m = nth_opt (p_code (m_program m)) (unat (m_pc m))"

lemma pc_try_from_ucast [simp]: "pc_try_from (ucast (t :: pc)) = Some t"
proof -
  have "(ucast t :: u64) < 2 ^ 32"
    using unat_u32_less_numeral [of t] by (simp add: word_less_nat_alt)
  moreover have "ucast (ucast t :: u64) = t"
    by (simp add: word_unat_eq_iff unsigned_ucast_eq take_bit_eq_mod unat_mod)
  ultimately show ?thesis unfolding pc_try_from_def by metis
qed

lemma ucast_pc_imm [simp]: "ucast (ucast (t :: pc) :: u64) = t"
  using pc_try_from_ucast [of t] by (simp add: pc_try_from_def split: if_splits)

lemma ucast_pc_less [simp]: "ucast (t :: pc) < (4294967296 :: u64)"
  using unat_u32_less_numeral [of t] by (simp add: word_less_nat_alt)

lemmas step_unfold = step_def instruction_at_def read_reg_def write_reg_def read_value_def
  post_value_def step_output_def step_ram_def step_next_pc_def spec_simps has_simps
  right_operand_eq map_err_def

lemma ok_or_instruction:
  "instruction_at m = Some i \<Longrightarrow> ok_or (nth_opt (p_code (m_program m)) (unat (m_pc m))) e = Inr i"
  by (simp only: instruction_at_def ok_or_simps)

definition operand_read :: "machine \<Rightarrow> operand \<Rightarrow> register_read option" where
  "operand_read m b = (case b of Op_Reg r \<Rightarrow> Some (read_reg m r) | Op_Imm _ \<Rightarrow> None)"

text \<open>The step of each instruction, record included.\<close>

lemma step_Nop:
  assumes "instruction_at m = Some Nop"
  shows "step m = Inr (\<lparr>rec_pc = m_pc m, rec_next_pc = m_pc m + 1, rec_instruction = Nop,
      rec_rs1 = None, rec_rs2 = None,
      rec_rd = None, rec_ram = Ram_NoOp\<rparr>,
    m\<lparr>m_pc := m_pc m + 1\<rparr>)"
  by (simp add: step_unfold ok_or_instruction [OF assms] Let_def)

lemma step_Halt:
  assumes "instruction_at m = Some Halt"
  shows "step m = Inr (\<lparr>rec_pc = m_pc m, rec_next_pc = m_pc m, rec_instruction = Halt,
      rec_rs1 = None, rec_rs2 = None,
      rec_rd = None, rec_ram = Ram_NoOp\<rparr>, m)"
  by (simp add: step_unfold ok_or_instruction [OF assms] Let_def)

lemma step_Trap: "instruction_at m = Some Trap \<Longrightarrow> step m = Inl Unreachable"
  by (simp add: step_unfold ok_or_instruction Let_def)

lemma step_Alu:
  assumes "instruction_at m = Some (Alu op rd a b)"
  shows "step m = (let v = evaluate op (m_regs m a) (operand_value (m_regs m) b) in
    Inr (\<lparr>rec_pc = m_pc m, rec_next_pc = m_pc m + 1, rec_instruction = Alu op rd a b,
      rec_rs1 = Some (read_reg m a), rec_rs2 = operand_read m b,
      rec_rd = Some (fst (write_reg m rd v)), rec_ram = Ram_NoOp\<rparr>,
      m\<lparr>m_regs := set_reg (m_regs m) rd v, m_pc := m_pc m + 1\<rparr>))"
  by (cases b) (simp_all add: step_unfold ok_or_instruction [OF assms] Let_def operand_read_def
      set_reg_def)

lemma step_Advice:
  assumes "instruction_at m = Some (Advice hint rd a b)"
  shows "step m = (let v = advice_compute hint (m_regs m a) (m_regs m b) in
    Inr (\<lparr>rec_pc = m_pc m, rec_next_pc = m_pc m + 1, rec_instruction = Advice hint rd a b,
      rec_rs1 = Some (read_reg m a), rec_rs2 = Some (read_reg m b),
      rec_rd = Some (fst (write_reg m rd v)), rec_ram = Ram_NoOp\<rparr>,
      m\<lparr>m_regs := set_reg (m_regs m) rd v, m_pc := m_pc m + 1\<rparr>))"
  by (simp add: step_unfold ok_or_instruction [OF assms] Let_def set_reg_def)

lemma step_Assert:
  assumes "instruction_at m = Some (Assert op failure a b)"
  shows "step m = (if evaluate op (m_regs m a) (operand_value (m_regs m) b) \<noteq> 1
    then Inl (assert_trap (Assert op failure a b) (m_regs m a))
    else Inr (\<lparr>rec_pc = m_pc m, rec_next_pc = m_pc m + 1, rec_instruction = Assert op failure a b,
      rec_rs1 = Some (read_reg m a), rec_rs2 = operand_read m b,
      rec_rd = None, rec_ram = Ram_NoOp\<rparr>,
      m\<lparr>m_pc := m_pc m + 1\<rparr>))"
  by (cases b) (simp_all add: step_unfold ok_or_instruction [OF assms] Let_def operand_read_def)

lemma step_Load:
  assumes "instruction_at m = Some (Load rd a offset)"
  shows "step m = bind_res (read_word (m_memory m) (m_regs m a + offset)) (\<lambda>v.
    Inr (\<lparr>rec_pc = m_pc m, rec_next_pc = m_pc m + 1, rec_instruction = Load rd a offset,
      rec_rs1 = Some (read_reg m a), rec_rs2 = None,
      rec_rd = Some (fst (write_reg m rd v)), rec_ram = Ram_Read \<lparr>rd_address = m_regs m a + offset, rd_value = v\<rparr>\<rparr>,
      m\<lparr>m_regs := set_reg (m_regs m) rd v, m_pc := m_pc m + 1\<rparr>))"
  by (cases "read_word (m_memory m) (m_regs m a + offset)")
    (simp_all add: step_unfold ok_or_instruction [OF assms] Let_def set_reg_def)

lemma step_Store:
  assumes "instruction_at m = Some (Store a val offset)"
  shows "step m = bind_res (write_word (m_memory m) (m_regs m a + offset) (m_regs m val))
    (\<lambda>(old, mem').
    Inr (\<lparr>rec_pc = m_pc m, rec_next_pc = m_pc m + 1, rec_instruction = Store a val offset,
      rec_rs1 = Some (read_reg m a), rec_rs2 = Some (read_reg m val),
      rec_rd = None, rec_ram = Ram_Write \<lparr>wr_address = m_regs m a + offset, wr_pre_value = old, wr_post_value = m_regs m val\<rparr>\<rparr>,
      m\<lparr>m_memory := mem', m_pc := m_pc m + 1\<rparr>))"
  by (cases "write_word (m_memory m) (m_regs m a + offset) (m_regs m val)")
    (auto simp: step_unfold ok_or_instruction [OF assms] Let_def)

lemma step_Jump:
  assumes "instruction_at m = Some (Jump target)"
  shows "step m = Inr (\<lparr>rec_pc = m_pc m, rec_next_pc = target, rec_instruction = Jump target,
      rec_rs1 = None, rec_rs2 = None,
      rec_rd = None, rec_ram = Ram_NoOp\<rparr>,
    m\<lparr>m_pc := target\<rparr>)"
  by (simp add: step_unfold ok_or_instruction [OF assms] Let_def)

lemma step_JumpReg:
  assumes "instruction_at m = Some (JumpReg a)"
  shows "step m = (if m_regs m a < 2 ^ 32
    then Inr (\<lparr>rec_pc = m_pc m, rec_next_pc = ucast (m_regs m a), rec_instruction = JumpReg a,
      rec_rs1 = Some (read_reg m a), rec_rs2 = None,
      rec_rd = None, rec_ram = Ram_NoOp\<rparr>,
      m\<lparr>m_pc := ucast (m_regs m a)\<rparr>)
    else Inl (InvalidJump (m_regs m a)))"
  by (simp add: step_unfold ok_or_instruction [OF assms] Let_def pc_try_from_def)

lemma step_Branch:
  assumes "instruction_at m = Some (Branch op a b target)"
  shows "step m =
    (let next_pc = (if evaluate op (m_regs m a) (m_regs m b) = 1 then target else m_pc m + 1) in
    Inr (\<lparr>rec_pc = m_pc m, rec_next_pc = next_pc, rec_instruction = Branch op a b target,
      rec_rs1 = Some (read_reg m a), rec_rs2 = Some (read_reg m b),
      rec_rd = None, rec_ram = Ram_NoOp\<rparr>,
      m\<lparr>m_pc := next_pc\<rparr>))"
  by (simp add: step_unfold ok_or_instruction [OF assms] Let_def)

lemmas step_instruction = step_Nop step_Halt step_Trap step_Alu step_Advice step_Assert step_Load
  step_Store step_Jump step_JumpReg step_Branch

lemma step_no_instruction:
  "instruction_at m = None \<Longrightarrow> step m = Inl (InvalidJump (ucast (m_pc m)))"
  unfolding instruction_at_def step_def Let_def by (simp only: ok_or_simps bind_res_simps)

text \<open>C12: The row-driven interpreter implements the instruction set: a step of a machine that
  has an instruction at its program counter changes registers, program counter and memory (or
  traps) exactly as the direct semantics of that instruction says.\<close>

theorem step_implements_isa:
  assumes "instruction_at m = Some i"
  shows "bind_res (step m) (\<lambda>(r, m'). Inr m') =
    bind_res (isa_step i (machine_state m)) (\<lambda>st. Inr (put_state m st))"
  using assms
  by (cases i)
    (auto simp: step_instruction machine_state_def put_state_def Let_def
      bind_res_def split: sum.splits prod.splits)

section \<open>Records of a step\<close>

lemma step_InrE:
  assumes "step m = Inr (r, m')"
  obtains i where "instruction_at m = Some i"
  using assms step_no_instruction [of m] by (cases "instruction_at m") auto

lemma write_reg_register [simp]:
  "rw_register (fst (write_reg m rd v)) = rd"
  "rw_pre_value (fst (write_reg m rd v)) = m_regs m rd"
  "rw_post_value (fst (write_reg m rd v)) = (if rd = ZERO then 0 else v)"
  by (simp_all add: write_reg_def Let_def)

lemma step_fields:
  assumes "step m = Inr (r, m')"
  shows "instruction_at m = Some (rec_instruction r)" "rec_pc r = m_pc m"
    "rec_next_pc r = m_pc m'" "m_program m' = m_program m" "m_step_limit m' = m_step_limit m"
proof -
  obtain i where i: "instruction_at m = Some i" using assms by (rule step_InrE)
  then have "instruction_at m = Some (rec_instruction r) \<and> rec_pc r = m_pc m \<and>
    rec_next_pc r = m_pc m' \<and> m_program m' = m_program m \<and> m_step_limit m' = m_step_limit m"
    using assms by (cases i)
      (auto simp: step_instruction Let_def elim!: bind_res_InrE split: if_splits prod.splits)
  then show "instruction_at m = Some (rec_instruction r)" "rec_pc r = m_pc m"
    "rec_next_pc r = m_pc m'" "m_program m' = m_program m" "m_step_limit m' = m_step_limit m"
    by blast+
qed

section \<open>The access logs\<close>

text \<open>What a record says about registers and about RAM, as (address, value before, value
  after); a read leaves the value. The offline memory check replays such a log.\<close>

definition read_log :: "register_read option \<Rightarrow> (reg \<times> u64 \<times> u64) list" where
  "read_log r = (case r of None \<Rightarrow> [] | Some x \<Rightarrow> [(rr_register x, rr_value x, rr_value x)])"

definition register_log :: "exec_record \<Rightarrow> (reg \<times> u64 \<times> u64) list" where
  "register_log r = read_log (rec_rs1 r) @ read_log (rec_rs2 r) @
     (case rec_rd r of None \<Rightarrow> [] | Some w \<Rightarrow> [(rw_register w, rw_pre_value w, rw_post_value w)])"

definition ram_log :: "exec_record \<Rightarrow> (u64 \<times> u64 \<times> u64) list" where
  "ram_log r = (case rec_ram r of Ram_NoOp \<Rightarrow> []
     | Ram_Read x \<Rightarrow> [(rd_address x, rd_value x, rd_value x)]
     | Ram_Write x \<Rightarrow> [(wr_address x, wr_pre_value x, wr_post_value x)])"

fun replay :: "('a \<Rightarrow> 'w) \<Rightarrow> ('a \<times> 'w \<times> 'w) list \<Rightarrow> ('a \<Rightarrow> 'w) option" where
  "replay \<sigma> [] = Some \<sigma>"
| "replay \<sigma> ((a, pre, post) # log) = (if \<sigma> a = pre then replay (\<sigma>(a := post)) log else None)"

lemma replay_append: "replay \<sigma> (xs @ ys) = Option.bind (replay \<sigma> xs) (\<lambda>\<sigma>'. replay \<sigma>' ys)"
  by (induction \<sigma> xs rule: replay.induct) (auto simp: fun_upd_def)

context word_memory
begin

text \<open>A client's step that only reads, and one that writes, replayed on an agreeing store.\<close>

lemma replay_read: "agrees m \<sigma> \<Longrightarrow> get m a = Inr w \<Longrightarrow> replay \<sigma> [(a, w, w)] = Some \<sigma>"
  using agrees_read by fastforce

lemma replay_write:
  "agrees m \<sigma> \<Longrightarrow> put m a v = Inr (old, m') \<Longrightarrow> allowed m a v \<Longrightarrow>
     \<exists>\<sigma>'. replay \<sigma> [(a, old, v)] = Some \<sigma>' \<and> agrees m' \<sigma>'"
  using agrees_write by auto

end

text \<open>The register file is a word memory too: \<^const>\<open>ZERO\<close> stays zero, and a write to it is not
  one the interface promises to keep.\<close>

definition reg_read :: "(reg \<Rightarrow> u64) \<Rightarrow> reg \<Rightarrow> unit + u64" where
  "reg_read regs r = Inr (regs r)"

definition reg_put :: "(reg \<Rightarrow> u64) \<Rightarrow> reg \<Rightarrow> u64 \<Rightarrow> unit + (u64 \<times> (reg \<Rightarrow> u64))" where
  "reg_put regs r v = Inr (regs r, set_reg regs r v)"

interpretation rf: word_memory reg_read reg_put "\<lambda>regs r v. r = ZERO \<longrightarrow> v = 0"
  "\<lambda>regs. regs ZERO = 0" 0
  by unfold_locales (auto simp: reg_read_def reg_put_def set_reg_def)

lemma rf_agrees: "rf.agrees regs \<sigma> \<longleftrightarrow> regs ZERO = 0 \<and> \<sigma> = regs"
  by (auto simp: rf.agrees_def rf.contents_def reg_read_def fun_eq_iff)

lemma replay_read_log: "replay regs (read_log (Some (read_reg m r))) = Some regs" if "regs = m_regs m"
  using that by (simp add: read_log_def read_reg_def)

lemma replay_operand_read:
  "replay (m_regs m) (read_log (operand_read m b)) = Some (m_regs m)"
  by (cases b) (simp_all add: read_log_def operand_read_def read_reg_def)

lemma read_log_None [simp]: "read_log None = []"
  by (simp add: read_log_def)

lemma step_register_replay:
  assumes st: "step m = Inr (r, m')" and z: "m_regs m ZERO = 0"
  shows "replay (m_regs m) (register_log r) = Some (m_regs m') \<and> m_regs m' ZERO = 0"
proof -
  obtain i where i: "instruction_at m = Some i" using st by (rule step_InrE)
  have w: "replay (m_regs m) [(rd, m_regs m rd, if rd = ZERO then 0 else v)] =
      Some (set_reg (m_regs m) rd v) \<and> set_reg (m_regs m) rd v ZERO = 0" for rd v
    using rf.replay_write [of "m_regs m" "m_regs m" rd "if rd = ZERO then 0 else v" "m_regs m rd"] z
    by (auto simp: rf_agrees reg_put_def set_reg_def)
  show ?thesis
    using st i z w
    by (cases i) (auto simp: step_instruction Let_def register_log_def replay_append
        replay_operand_read replay_read_log elim!: bind_res_InrE split: if_splits)
qed

text \<open>What a log may do to the size word: it grows, by whole words.\<close>

definition log_grows :: "(u64 \<times> u64 \<times> u64) list \<Rightarrow> bool" where
  "log_grows log \<longleftrightarrow> (\<forall>(a, pre, post) \<in> set log. a = MEMORY_SIZE_ADDR \<longrightarrow> pre \<le> post \<and> 4 dvd unat post)"

lemma log_grows_append [simp]: "log_grows (xs @ ys) \<longleftrightarrow> log_grows xs \<and> log_grows ys"
  by (auto simp: log_grows_def)

lemma write_word_size_old:
  assumes "write_word m MEMORY_SIZE_ADDR v = Inr (old, m')"
  shows "old = size_bytes m"
proof -
  have "read_word m MEMORY_SIZE_ADDR = Inr old" by (rule write_word_old [OF assms])
  then obtain s where "locate m MEMORY_SIZE_ADDR = Inr s" "old = slot_value m s"
    by (auto simp: read_word_slot elim!: bind_res_InrE)
  then show ?thesis using size_bytes_slot by simp
qed

lemma log_grows_write:
  "write_word m a v = Inr (old, m') \<Longrightarrow> log_grows [(a, old, v)] \<Longrightarrow> grows m a v"
  by (auto simp: log_grows_def grows_def dest: write_word_size_old)

lemma step_ram_replay:
  assumes st: "step m = Inr (r, m')" and ag: "wm.agrees (m_memory m) \<sigma>"
    and g: "log_grows (ram_log r)"
  shows "\<exists>\<sigma>'. replay \<sigma> (ram_log r) = Some \<sigma>' \<and> wm.agrees (m_memory m') \<sigma>'"
proof -
  obtain i where i: "instruction_at m = Some i" using st by (rule step_InrE)
  show ?thesis
  proof (cases "\<exists>a v off. i = Store a v off")
    case True
    then obtain a v off where ii: "i = Store a v off" by blast
    obtain old mem' where w: "write_word (m_memory m) (m_regs m a + off) (m_regs m v) = Inr (old, mem')"
      and r: "ram_log r = [(m_regs m a + off, old, m_regs m v)]" and m': "m_memory m' = mem'"
      using st i ii by (auto simp: step_instruction ram_log_def elim!: bind_res_InrE)
    show ?thesis
      using wm.replay_write [OF ag w log_grows_write [OF w]] g r m' by simp
  next
    case False
    have rd: "\<sigma> x = w" if "read_word (m_memory m) x = Inr w" for x w
      by (rule wm.agrees_read [OF ag that])
    show ?thesis
      using st i ag rd False
      by (cases i) (auto simp: step_instruction Let_def ram_log_def fun_upd_idem
          elim!: bind_res_InrE split: if_splits)
  qed
qed

section \<open>Whole runs\<close>

lemma run_Suc_InrE:
  assumes "run (Suc n) m = Inr (rs, m'')"
  obtains (halt) r where "step m = Inr (r, m'')" "rec_instruction r = Halt" "rs = [r]"
  | (more) r m' rs' where "step m = Inr (r, m')" "rec_instruction r \<noteq> Halt"
      "run n m' = Inr (rs', m'')" "rs = r # rs'"
  using assms by (auto simp: map_err_def elim!: bind_res_InrE split: sum.splits if_splits)

lemma run_induct [consumes 1, case_names halt more]:
  assumes "run n m = Inr (rs, m'')"
    and "\<And>m r m'. step m = Inr (r, m') \<Longrightarrow> rec_instruction r = Halt \<Longrightarrow> P m [r] m'"
    and "\<And>m r m' rs m''. step m = Inr (r, m') \<Longrightarrow> rec_instruction r \<noteq> Halt \<Longrightarrow> P m' rs m'' \<Longrightarrow>
      rs \<noteq> [] \<Longrightarrow> rec_pc (hd rs) = m_pc m' \<Longrightarrow> P m (r # rs) m''"
  shows "P m rs m''"
proof -
  have "P m rs m'' \<and> rs \<noteq> [] \<and> rec_pc (hd rs) = m_pc m"
    using assms(1)
  proof (induction n arbitrary: m rs)
    case (Suc n)
    from Suc.prems show ?case
    proof (cases rule: run_Suc_InrE)
      case (halt r)
      then show ?thesis using assms(2) step_fields by simp
    next
      case (more r m' rs')
      then show ?thesis using Suc.IH [OF more(3)] assms(3) [OF more(1,2)] step_fields by simp
    qed
  qed simp
  then show ?thesis by blast
qed

text \<open>The next program counter of every record is the program counter of the one after it.\<close>

fun pc_chain :: "exec_record list \<Rightarrow> bool" where
  "pc_chain (r # s # rs) \<longleftrightarrow> rec_next_pc r = rec_pc s \<and> pc_chain (s # rs)"
| "pc_chain _ \<longleftrightarrow> True"

lemma pc_chain_Cons: "rs \<noteq> [] \<Longrightarrow> pc_chain (r # rs) \<longleftrightarrow> rec_next_pc r = rec_pc (hd rs) \<and> pc_chain rs"
  by (cases rs) auto

text \<open>C14: The trace of a run is one contiguous execution of the program: it starts at the
  machine's program counter, every record's next program counter is where the next record is,
  every record holds the instruction the code has at its program counter, and it stops at the
  first \<^const>\<open>Halt\<close>.\<close>

theorem run_trace_contiguous:
  assumes "run n m = Inr (rs, m')"
  shows "rs \<noteq> [] \<and> rec_pc (hd rs) = m_pc m \<and> pc_chain rs \<and>
    (\<forall>r \<in> set rs. nth_opt (p_code (m_program m)) (unat (rec_pc r)) = Some (rec_instruction r)) \<and>
    rec_instruction (last rs) = Halt \<and> (\<forall>r \<in> set (butlast rs). rec_instruction r \<noteq> Halt) \<and>
    m_pc m' = rec_pc (last rs)"
  using assms
proof (induction rule: run_induct)
  case (halt m r m')
  have "m' = m" using halt step_Halt [of m] step_fields(1) [OF halt(1)] by simp
  then show ?case using halt step_fields [OF halt(1)] by (simp add: instruction_at_def)
next
  case (more m r m' rs m'')
  then show ?case using step_fields [OF more(1)] by (simp add: instruction_at_def pc_chain_Cons)
qed

text \<open>C13: Register consistency: replaying the register accesses of a run over the initial
  register file, whose zero register is zero, each read returning the last value written, succeeds and
  ends in the final register file; the zero register is zero throughout.\<close>

theorem run_register_consistent:
  assumes "run n m = Inr (rs, m')" "m_regs m ZERO = 0"
  shows "replay (m_regs m) (concat (map register_log rs)) = Some (m_regs m') \<and> m_regs m' ZERO = 0"
  using assms
proof (induction rule: run_induct)
  case (halt m r m')
  then show ?case using step_register_replay [OF halt(1)] by simp
next
  case (more m r m' rs m'')
  then show ?case using step_register_replay [OF more(1)] by (simp add: replay_append)
qed

text \<open>What the memory holds at an address; an unmapped one counts as zero.\<close>

definition ram_contents :: "guest_memory \<Rightarrow> u64 \<Rightarrow> u64" where
  "ram_contents m a = (case read_word m a of Inl _ \<Rightarrow> 0 | Inr w \<Rightarrow> w)"

lemma wm_agrees: "wm.agrees m \<sigma> \<longleftrightarrow> invar_memory m \<and> \<sigma> = ram_contents m"
  by (auto simp: wm.agrees_def wm.contents_def ram_contents_def fun_eq_iff)

text \<open>C3: RAM consistency. Take a run from a well-formed memory (\<open>invar_memory\<close>; a machine
  built for a program within the decoder's memory limits has one), and suppose that every access in
  the run's own log to the size word keeps or raises it and leaves a multiple of four (\<open>log_grows\<close>). Then
  replaying the RAM accesses of the run over the initial contents (zero where nothing is mapped yet)
  succeeds, every read returning the last value written, and ends in the final contents, and the final
  memory is well formed. The condition on the size word is a hypothesis about the run: it is not derived
  for the code the lowering emits. A run that shrinks memory and grows it again is outside the theorem:
  the cells that come back are zero, whatever was written to them before.\<close>

theorem run_ram_consistent:
  assumes "run n m = Inr (rs, m')" "invar_memory (m_memory m)"
    "log_grows (concat (map ram_log rs))"
  shows "replay (ram_contents (m_memory m)) (concat (map ram_log rs)) =
      Some (ram_contents (m_memory m')) \<and> invar_memory (m_memory m')"
proof -
  have "\<exists>\<sigma>'. replay \<sigma> (concat (map ram_log rs)) = Some \<sigma>' \<and> wm.agrees (m_memory m') \<sigma>'"
    if "wm.agrees (m_memory m) \<sigma>" for \<sigma>
    using assms(1,3) that
  proof (induction arbitrary: \<sigma> rule: run_induct)
    case (halt m r m')
    then show ?case using step_ram_replay [OF halt(1)] by simp
  next
    case (more m r m' rs m'')
    from more.prems have "log_grows (ram_log r)" "log_grows (concat (map ram_log rs))" by simp_all
    with step_ram_replay [OF more(1) more.prems(2)] more.IH show ?case
      by (auto simp: replay_append)
  qed
  then show ?thesis using assms(2) unfolding wm_agrees by blast
qed

text \<open>A run never takes more steps than its limit allows.\<close>

theorem run_bounded:
  assumes "run n m = Inr (rs, m')"
  shows "length rs \<le> n"
  using assms
proof (induction n arbitrary: m rs)
  case (Suc n)
  then show ?case by (elim run_Suc_InrE) fastforce+
qed simp

section \<open>Instantiation\<close>

lemma init_segments_invar: "init_segments m ds = Inr m' \<Longrightarrow> invar_memory m' \<longleftrightarrow> invar_memory m"
  by (induction ds arbitrary: m) (auto elim!: bind_res_InrE dest: init_linear_keeps)

text \<open>A machine built for a program whose memory limits are those the decoder admits starts
  with a well-formed memory, zeroed registers and the halt program counter.\<close>

theorem machine_new_invar:
  assumes "machine_new program = Inr m" "limits_ok (p_memory program)"
  shows "invar_memory (m_memory m) \<and> m_program m = program \<and> m_regs m = (\<lambda>_. 0) \<and>
    m_pc m = HALT_PC"
proof -
  obtain mem mem' where "memory_new (p_memory program) (p_globals program) (p_table program) = Some mem"
    and "init_segments mem (p_data program) = Inr mem'"
    and m: "m = \<lparr>m_program = program, m_regs = (\<lambda>_. 0), m_pc = HALT_PC, m_memory = mem',
               m_step_limit = DEFAULT_STEP_LIMIT\<rparr>"
    using assms(1) by (auto simp: machine_new_def map_err_def split: option.splits sum.splits)
  then have "invar_memory mem'"
    using memory_new_facts(1) [OF _ assms(2)] init_segments_invar by blast
  then show ?thesis by (simp add: m)
qed

end
