(* ===== verification/Bytecode_Table.thy ===== *)
theory Bytecode_Table
  imports Row_Model
begin

text \<open>
  \<^verbatim>\<open>jolt-wasm-ir/src/bytecode.rs\<close>: the committed bytecode table. A row is the
  static half of a proof row; \<open>preprocess\<close> validates a program and pads its rows
  with the \<^const>\<open>Halt\<close> row to a power of two. A row's fields \<open>rs1\<close>, \<open>rs2\<close>,
  \<open>rd\<close> are register ids with 255 for "none"; \<^verbatim>\<open>i128\<close> column values are integers.
\<close>

definition REGISTER_NONE :: u8 where "REGISTER_NONE = 0xFF"

record bytecode_row =
  br_imm :: u64
  br_flags :: row_flags
  br_rs1 :: u8
  br_rs2 :: u8
  br_rd :: u8
  br_lookup :: "lookup option"

definition register_id :: "reg option \<Rightarrow> u8" where
  "register_id r = (case r of None \<Rightarrow> REGISTER_NONE | Some x \<Rightarrow> reg_id x)"

definition register_of_id :: "u8 \<Rightarrow> reg option" where
  "register_of_id i = (if i \<noteq> REGISTER_NONE then reg_from_id i else None)"

definition row_from_spec :: "row_spec \<Rightarrow> bytecode_row" where
  "row_from_spec s = \<lparr>br_imm = rs_imm s, br_flags = rs_flags s,
     br_rs1 = register_id (rs_rs1 s), br_rs2 = register_id (rs_rs2 s),
     br_rd = register_id (rs_rd s), br_lookup = rs_lookup s\<rparr>"

definition bytecode_row_of :: "ir \<Rightarrow> bytecode_row" where
  "bytecode_row_of i = row_from_spec (row_spec_of i)"

definition br_table_op :: "bytecode_row \<Rightarrow> alu_op option" where
  "br_table_op r = map_option lookup_table_op (br_lookup r)"

definition br_raf_flag :: "bytecode_row \<Rightarrow> bool" where
  "br_raf_flag r = (case br_lookup r of None \<Rightarrow> False | Some l \<Rightarrow> lookup_is_raw_index l)"

definition br_imm_signed :: "bytecode_row \<Rightarrow> int" where
  "br_imm_signed r =
     (if flags_intersects (br_flags r) (flags_union (flag_mask F_Load) (flag_mask F_Store))
      then sint (br_imm r) else uint (br_imm r))"

definition br_encode :: "bytecode_row \<Rightarrow> u8 list" where
  "br_encode r = to_le 8 (br_imm r) @ to_le 4 (flags_bits (br_flags r)) @
     [br_rs1 r, br_rs2 r, br_rd r, if br_lookup r = None then 0 else 1]"

datatype bytecode_column =
    Col_Pc | Col_Imm | Col_Flag row_flag | Col_Rs1 | Col_Rs2 | Col_Rd
  | Col_TableFlag alu_op | Col_RafFlag

datatype preprocessing_error =
    MissingHaltTrampoline "ir option"
  | TargetOutOfRange pc u64 nat
  | NotBoolean pc ir
  | ProgramTooLarge nat
  | EntryOutOfRange string u32

record wasm_bytecode =
  wb_rows :: "bytecode_row list"
  wb_len :: nat
  wb_entries :: "(string \<times> pc) list"

text \<open>The target an instruction jumps to, when it is an immediate (the \<^verbatim>\<open>match\<close> in the loop).\<close>

fun immediate_target :: "ir \<Rightarrow> u64 option" where
  "immediate_target (Jump target) = Some (ucast target)"
| "immediate_target (Branch _ _ _ target) = Some (ucast target)"
| "immediate_target _ = None"

text \<open>The catalogue operation of a row that looks a table up (\<^verbatim>\<open>Some(Lookup::Table(op))\<close>).\<close>

fun looked_up_table :: "lookup option \<Rightarrow> alu_op option" where
  "looked_up_table (Some (Lookup_Table op)) = Some op"
| "looked_up_table _ = None"

text \<open>One iteration of the loop over the code: the target check, then the boolean check.\<close>

definition preprocess_row :: "nat \<Rightarrow> pc \<Rightarrow> ir \<Rightarrow> preprocessing_error + bytecode_row" where
  "preprocess_row len pc i =
     (let spec = row_spec_of i in
      bind_res
        (case immediate_target i of
           Some target \<Rightarrow>
             if target \<ge> of_nat len then Inl (TargetOutOfRange pc target len) else Inr ()
         | None \<Rightarrow> Inr ()) (\<lambda>_.
      bind_res
        (case (flags_intersects (rs_flags spec)
                 (flags_union (flag_mask F_Branch) (flag_mask F_Assert)),
               looked_up_table (rs_lookup spec)) of
           (True, Some op) \<Rightarrow> if \<not> is_boolean op then Inl (NotBoolean pc i) else Inr ()
         | _ \<Rightarrow> Inr ()) (\<lambda>_.
      Inr (row_from_spec spec))))"

fun preprocess_rows :: "nat \<Rightarrow> nat \<Rightarrow> ir list \<Rightarrow> preprocessing_error + bytecode_row list" where
  "preprocess_rows len k [] = Inr []"
| "preprocess_rows len k (i # is) =
     bind_res (preprocess_row len (of_nat k) i) (\<lambda>r.
     bind_res (preprocess_rows len (Suc k) is) (\<lambda>rs. Inr (r # rs)))"

fun preprocess_entries ::
  "nat \<Rightarrow> (string \<times> pc) list \<Rightarrow> (string \<times> u32) list \<Rightarrow> preprocessing_error + (string \<times> pc) list"
where
  "preprocess_entries len entries [] = Inr []"
| "preprocess_entries len entries ((name, function) # exports) =
     (case map_of entries name of
        None \<Rightarrow> Inl (EntryOutOfRange name function)
      | Some pc \<Rightarrow>
          if unat pc \<ge> len then Inl (EntryOutOfRange name function)
          else bind_res (preprocess_entries len entries exports) (\<lambda>es. Inr ((name, pc) # es)))"

definition preprocess :: "ir_program \<Rightarrow> preprocessing_error + wasm_bytecode" where
  "preprocess program =
     (let code = p_code program; len = length code in
      if nth_opt code 0 \<noteq> Some Halt then Inl (MissingHaltTrampoline (nth_opt code 0))
      else if len \<ge> 2 ^ 32 then Inl (ProgramTooLarge len)
      else
        bind_res (preprocess_rows len 0 code) (\<lambda>rows.
        bind_res (preprocess_entries len (p_entries program) (p_exports program)) (\<lambda>entries.
        Inr \<lparr>wb_rows = resize rows (max (next_power_of_two len) 2) (rows ! 0),
             wb_len = len, wb_entries = entries\<rparr>)))"

definition wb_code_size :: "wasm_bytecode \<Rightarrow> nat" where
  "wb_code_size b = length (wb_rows b)"

definition wb_row :: "wasm_bytecode \<Rightarrow> pc \<Rightarrow> bytecode_row" where
  "wb_row b pc = (case nth_opt (wb_rows b) (unat pc) of Some r \<Rightarrow> r | None \<Rightarrow> wb_rows b ! 0)"

definition wb_entry :: "wasm_bytecode \<Rightarrow> string \<Rightarrow> pc option" where
  "wb_entry b export = map_of (wb_entries b) export"

definition register_value :: "u8 \<Rightarrow> int" where
  "register_value i = (if i = REGISTER_NONE then 0 else uint i)"

definition wb_column :: "wasm_bytecode \<Rightarrow> pc \<Rightarrow> bytecode_column \<Rightarrow> int" where
  "wb_column b pc column =
     (let row = wb_row b pc in
      case column of
        Col_Pc \<Rightarrow> uint pc
      | Col_Imm \<Rightarrow> br_imm_signed row
      | Col_Flag f \<Rightarrow> of_bool (flags_has (br_flags row) f)
      | Col_Rs1 \<Rightarrow> register_value (br_rs1 row)
      | Col_Rs2 \<Rightarrow> register_value (br_rs2 row)
      | Col_Rd \<Rightarrow> register_value (br_rd row)
      | Col_TableFlag op \<Rightarrow> of_bool (br_table_op row = Some op)
      | Col_RafFlag \<Rightarrow> of_bool (br_raf_flag row))"

definition wb_column_values :: "wasm_bytecode \<Rightarrow> bytecode_column \<Rightarrow> int list" where
  "wb_column_values b column = map (\<lambda>pc. wb_column b (of_nat pc) column) [0..<length (wb_rows b)]"

definition wb_encode :: "wasm_bytecode \<Rightarrow> u8 list" where
  "wb_encode b = concat (map br_encode (wb_rows b))"

section \<open>Facts about rows\<close>

definition wf_reg_opt :: "reg option \<Rightarrow> bool" where
  "wf_reg_opt r \<longleftrightarrow> (case r of None \<Rightarrow> True | Some x \<Rightarrow> wf_reg x)"

lemma unat_reg_id: "wf_reg r \<Longrightarrow> unat (reg_id r) = reg_index r"
  by (simp add: wf_reg_def REGISTER_COUNT_def reg_id_def unat_of_nat)

lemma reg_id_neq_none: "wf_reg r \<Longrightarrow> reg_id r \<noteq> REGISTER_NONE"
proof
  assume r: "wf_reg r" and "reg_id r = REGISTER_NONE"
  then have "unat (reg_id r) = 255" by (simp add: REGISTER_NONE_def)
  with r show False by (simp add: unat_reg_id) (simp add: wf_reg_def REGISTER_COUNT_def)
qed

lemma register_of_register_id: "wf_reg_opt r \<Longrightarrow> register_of_id (register_id r) = r"
  by (cases r) (auto simp: wf_reg_opt_def register_of_id_def register_id_def
      reg_id_neq_none reg_from_id_reg_id)

lemma length_br_encode [simp]: "length (br_encode r) = 16"
  by (simp add: br_encode_def)

lemma br_encode_static_inj:
  assumes "br_encode r = br_encode s"
  shows "br_imm r = br_imm s \<and> br_flags r = br_flags s \<and> br_rs1 r = br_rs1 s \<and>
    br_rs2 r = br_rs2 s \<and> br_rd r = br_rd s \<and> (br_lookup r = None \<longleftrightarrow> br_lookup s = None)"
proof -
  have a: "to_le 8 (br_imm r) = to_le 8 (br_imm s)"
    and b: "to_le 4 (flags_bits (br_flags r)) = to_le 4 (flags_bits (br_flags s))"
    using assms by (auto simp: br_encode_def append_eq_append_conv)
  have "br_imm r = br_imm s" by (rule to_le_inj [OF _ a]) simp
  moreover have "flags_bits (br_flags r) = flags_bits (br_flags s)"
    by (rule to_le_inj [OF _ b]) simp
  ultimately show ?thesis using assms
    by (auto simp: br_encode_def row_flags.expand append_eq_append_conv split: if_splits)
qed

section \<open>Facts about preprocessing\<close>

lemma preprocess_row_Inr: "preprocess_row len pc i = Inr r \<Longrightarrow> r = bytecode_row_of i"
  by (auto simp: preprocess_row_def bytecode_row_of_def Let_def elim!: bind_res_InrE)

lemma preprocess_row_target:
  "preprocess_row len pc i = Inr r \<Longrightarrow> len < 2 ^ 32 \<Longrightarrow> immediate_target i = Some t \<Longrightarrow> unat t < len"
  by (auto simp: preprocess_row_def Let_def not_le word_less_nat_alt unat_of_nat
      elim!: bind_res_InrE split: if_splits)

lemma preprocess_rows_eq:
  "preprocess_rows len k code = Inr rows \<Longrightarrow> rows = map bytecode_row_of code"
  by (induction code arbitrary: k rows) (auto elim!: bind_res_InrE dest: preprocess_row_Inr)

lemma preprocess_rows_each:
  "preprocess_rows len k code = Inr rows \<Longrightarrow> i < length code \<Longrightarrow>
     preprocess_row len (of_nat (k + i)) (code ! i) = Inr (bytecode_row_of (code ! i))"
proof (induction code arbitrary: k rows i)
  case (Cons c code)
  from Cons.prems(1) obtain r rs where r: "preprocess_row len (of_nat k) c = Inr r"
    and rs: "preprocess_rows len (Suc k) code = Inr rs"
    by (auto elim!: bind_res_InrE)
  show ?case
  proof (cases i)
    case 0
    then show ?thesis using r preprocess_row_Inr [OF r] by simp
  next
    case (Suc j)
    then show ?thesis using Cons.IH [OF rs, of j] Cons.prems(2) by simp
  qed
qed simp

lemma preprocess_entries_Cons_Inr:
  "preprocess_entries len entries ((name, function) # exports) = Inr es \<longleftrightarrow>
     (\<exists>pc es'. map_of entries name = Some pc \<and> unat pc < len \<and>
        preprocess_entries len entries exports = Inr es' \<and> es = (name, pc) # es')"
  by (auto simp: bind_res_eq_Inr split: option.splits)

lemma preprocess_entries_Inr:
  "preprocess_entries len entries exports = Inr es \<Longrightarrow>
     map fst es = map fst exports \<and>
     (\<forall>e \<in> set es. map_of entries (fst e) = Some (snd e) \<and> unat (snd e) < len)"
proof (induction exports arbitrary: es)
  case (Cons e exports)
  obtain name fn where e: "e = (name, fn)" by (cases e)
  obtain pc es' where "map_of entries name = Some pc" "unat pc < len"
    and es': "preprocess_entries len entries exports = Inr es'" and "es = (name, pc) # es'"
    using Cons.prems unfolding e preprocess_entries_Cons_Inr by blast
  moreover note Cons.IH [OF es']
  ultimately show ?case unfolding e by simp
qed simp

lemma preprocess_InrD:
  assumes "preprocess program = Inr b"
  shows "nth_opt (p_code program) 0 = Some Halt" "length (p_code program) < 2 ^ 32"
    "preprocess_rows (length (p_code program)) 0 (p_code program) =
       Inr (map bytecode_row_of (p_code program))"
    "wb_rows b = resize (map bytecode_row_of (p_code program))
       (max (next_power_of_two (length (p_code program))) 2) (bytecode_row_of Halt)"
    "wb_len b = length (p_code program)"
    "preprocess_entries (length (p_code program)) (p_entries program) (p_exports program) =
       Inr (wb_entries b)"
proof -
  let ?code = "p_code program"
  from assms have h: "nth_opt ?code 0 = Some Halt" and l: "length ?code < 2 ^ 32"
    by (auto simp: preprocess_def Let_def split: if_splits)
  with assms obtain rows entries where
    rows: "preprocess_rows (length ?code) 0 ?code = Inr rows" and
    entries: "preprocess_entries (length ?code) (p_entries program) (p_exports program) = Inr entries" and
    b: "b = \<lparr>wb_rows = resize rows (max (next_power_of_two (length ?code)) 2) (rows ! 0),
             wb_len = length ?code, wb_entries = entries\<rparr>"
    by (auto simp: preprocess_def Let_def elim!: bind_res_InrE split: if_splits)
  have eq: "rows = map bytecode_row_of ?code" by (rule preprocess_rows_eq [OF rows])
  from h have "?code \<noteq> []" "?code ! 0 = Halt" by auto
  then have "rows ! 0 = bytecode_row_of Halt" using eq by simp
  then show "nth_opt ?code 0 = Some Halt" "length ?code < 2 ^ 32"
    "preprocess_rows (length ?code) 0 ?code = Inr (map bytecode_row_of ?code)"
    "wb_rows b = resize (map bytecode_row_of ?code)
       (max (next_power_of_two (length ?code)) 2) (bytecode_row_of Halt)"
    "wb_len b = length ?code"
    "preprocess_entries (length ?code) (p_entries program) (p_exports program) = Inr (wb_entries b)"
    using h l rows entries eq b by simp_all
qed

text \<open>What validation establishes about the code: the facts a trace of it relies on.\<close>

definition code_valid :: "ir list \<Rightarrow> bool" where
  "code_valid code \<longleftrightarrow> code \<noteq> [] \<and> code ! 0 = Halt \<and> length code < 2 ^ 32 \<and>
     (\<forall>i \<in> set code. (\<forall>t. immediate_target i = Some t \<longrightarrow> unat t < length code) \<and>
       (\<forall>op f a b. i = Assert op f a b \<longrightarrow> is_boolean op) \<and>
       (\<forall>op a b t. i = Branch op a b t \<longrightarrow> is_boolean op))"

lemma preprocess_row_boolean:
  "preprocess_row len pc i = Inr r \<Longrightarrow>
     (\<forall>op f a b. i = Assert op f a b \<longrightarrow> is_boolean op) \<and>
     (\<forall>op a b t. i = Branch op a b t \<longrightarrow> is_boolean op)"
  by (auto simp: preprocess_row_def Let_def has_simps right_operand_eq
      elim!: bind_res_InrE split: if_splits operand.splits)

lemma preprocess_code_valid:
  assumes "preprocess program = Inr b"
  shows "code_valid (p_code program)"
  unfolding code_valid_def
proof (intro conjI ballI)
  let ?code = "p_code program"
  note d = preprocess_InrD [OF assms]
  show "?code \<noteq> []" "?code ! 0 = Halt" "length ?code < 2 ^ 32" using d(1,2) by auto
  fix i assume "i \<in> set ?code"
  then obtain k where k: "k < length ?code" "?code ! k = i" by (auto simp: in_set_conv_nth)
  then have r: "preprocess_row (length ?code) (of_nat k) i = Inr (bytecode_row_of i)"
    using preprocess_rows_each [OF d(3), of k] by simp
  show "\<forall>t. immediate_target i = Some t \<longrightarrow> unat t < length ?code"
    using preprocess_row_target [OF r] d(2) by blast
  show "\<forall>op f a b. i = Assert op f a b \<longrightarrow> is_boolean op"
    "\<forall>op a b t. i = Branch op a b t \<longrightarrow> is_boolean op"
    using preprocess_row_boolean [OF r] by blast+
qed

lemma wb_row_code:
  assumes "preprocess program = Inr b" "unat pc < length (p_code program)"
  shows "wb_row b pc = bytecode_row_of (p_code program ! unat pc)"
proof -
  note d = preprocess_InrD [OF assms(1)]
  have "length (p_code program) \<le> max (next_power_of_two (length (p_code program))) 2"
    using next_power_of_two_ge [of "length (p_code program)"] by simp
  then show ?thesis using assms(2) d(4) by (simp add: wb_row_def nth_opt_def nth_resize)
qed

lemma wb_row_padding:
  assumes "preprocess program = Inr b" "length (p_code program) \<le> unat pc"
  shows "wb_row b pc = bytecode_row_of Halt"
proof -
  note d = preprocess_InrD [OF assms(1)]
  have "wb_rows b ! 0 = bytecode_row_of Halt"
    using d(1,4) by (auto simp: nth_resize)
  then show ?thesis using assms(2) d(4) by (auto simp: wb_row_def nth_opt_def nth_resize)
qed

end
