(* ===== verification/Row_Check.thy ===== *)
theory Row_Check
  imports Machine_Exec Bytecode_Table
begin

text \<open>
  \<^verbatim>\<open>jolt-wasm-backend/src/row.rs\<close>: the constraint-form check of one execution
  record, and its relation to the interpreter. \<open>step_checks\<close>: every record the
  interpreter emits passes. \<open>check_record_sound\<close>: a record that passes and whose reads agree with the
  machine's state is the record of the step, advice rows aside.
\<close>

datatype row_violation =
    RegisterReads pc "reg option \<times> reg option" "reg option \<times> reg option"
  | RegisterWriteViolation pc "reg option" "reg option"
  | Row_NotBoolean pc alu_op
  | Row_Assert pc u64
  | RdWrite pc u64 u64
  | Row_Ram pc ram_access
  | NextPc pc pc pc
  | Row_InvalidJump u64 pc

definition check_registers :: "exec_record \<Rightarrow> row_spec \<Rightarrow> row_violation + unit" where
  "check_registers r spec =
     (let reads = (map_option rr_register (rec_rs1 r), map_option rr_register (rec_rs2 r));
          rd = map_option rw_register (rec_rd r) in
      if reads \<noteq> (rs_rs1 spec, rs_rs2 spec)
      then Inl (RegisterReads (rec_pc r) (rs_rs1 spec, rs_rs2 spec) reads)
      else if rd \<noteq> rs_rd spec then Inl (RegisterWriteViolation (rec_pc r) (rs_rd spec) rd)
      else Inr ())"

definition check_boolean :: "pc \<Rightarrow> row_spec \<Rightarrow> row_violation + unit" where
  "check_boolean pc spec =
     (case (flags_intersects (rs_flags spec)
              (flags_union (flag_mask F_Assert) (flag_mask F_Branch)),
            looked_up_table (rs_lookup spec)) of
        (True, Some op) \<Rightarrow> if \<not> is_boolean op then Inl (Row_NotBoolean pc op) else Inr ()
      | _ \<Rightarrow> Inr ())"

definition check_output :: "pc \<Rightarrow> row_spec \<Rightarrow> u64 \<Rightarrow> u64 \<Rightarrow> row_violation + unit" where
  "check_output pc spec output rd_write =
     (if flags_has (rs_flags spec) F_Assert \<and> output \<noteq> 1 then Inl (Row_Assert pc output)
      else if flags_has (rs_flags spec) F_WriteLookupToRd \<and> rd_write \<noteq> output
      then Inl (RdWrite pc output rd_write)
      else Inr ())"

definition check_ram :: "exec_record \<Rightarrow> row_spec \<Rightarrow> u64 \<Rightarrow> u64 \<Rightarrow> u64 \<Rightarrow> row_violation + unit" where
  "check_ram r spec rs1_value rs2_value rd_write =
     (let flags = rs_flags spec; address = rs1_value + rs_imm spec;
          ram_error = Inl (Row_Ram (rec_pc r) (rec_ram r)) in
      case rec_ram r of
        Ram_Read x \<Rightarrow>
          if \<not> flags_has flags F_Load \<or> rd_address x \<noteq> address \<or> rd_value x \<noteq> rd_write
          then ram_error else Inr ()
      | Ram_Write x \<Rightarrow>
          if \<not> flags_has flags F_Store \<or> wr_address x \<noteq> address \<or> wr_post_value x \<noteq> rs2_value
          then ram_error else Inr ()
      | Ram_NoOp \<Rightarrow>
          if flags_intersects flags (flags_union (flag_mask F_Load) (flag_mask F_Store))
          then ram_error else Inr ())"

definition check_next_pc :: "exec_record \<Rightarrow> row_spec \<Rightarrow> u64 \<Rightarrow> row_violation + unit" where
  "check_next_pc r spec output =
     (let flags = rs_flags spec; pc = rec_pc r in
      bind_res
        (if flags_has flags F_Halt then Inr pc
         else if flags_has flags F_Jump then ok_or (pc_try_from output) (Row_InvalidJump output pc)
         else if flags_has flags F_Branch \<and> output = 1 then Inr (ucast (rs_imm spec))
         else Inr (pc + 1)) (\<lambda>expected.
      if rec_next_pc r \<noteq> expected then Inl (NextPc pc expected (rec_next_pc r)) else Inr ()))"

definition check_record :: "exec_record \<Rightarrow> row_violation + unit" where
  "check_record r =
     (let pc = rec_pc r; spec = row_spec_of (rec_instruction r);
          rs1_value = read_value (rec_rs1 r); rs2_value = read_value (rec_rs2 r);
          rd_write = post_value (rec_rd r);
          left = spec_left_input spec rs1_value; right = spec_right_input spec rs2_value;
          output = spec_output spec left right rd_write in
      bind_res (check_registers r spec) (\<lambda>_.
      bind_res (check_boolean pc spec) (\<lambda>_.
      bind_res (check_output pc spec output rd_write) (\<lambda>_.
      bind_res (check_ram r spec rs1_value rs2_value rd_write) (\<lambda>_.
      check_next_pc r spec output)))))"

section \<open>The interpreter's records pass\<close>

text \<open>What the check needs of an instruction beyond validation of the code: it does not write
  the zero register, and an assert or branch compares.\<close>

definition row_ok :: "ir \<Rightarrow> bool" where
  "row_ok i \<longleftrightarrow> rs_rd (row_spec_of i) \<noteq> Some ZERO \<and>
     (case i of Assert op _ _ _ \<Rightarrow> is_boolean op | Branch op _ _ _ \<Rightarrow> is_boolean op | _ \<Rightarrow> True)"

lemmas check_defs = check_record_def check_registers_def check_boolean_def check_output_def
  check_ram_def check_next_pc_def Let_def spec_simps has_simps read_value_def post_value_def
  right_operand_eq

lemma rr_register_read_reg [simp]:
  "rr_register (read_reg m r) = r" "rr_value (read_reg m r) = m_regs m r"
  by (simp_all add: read_reg_def)

lemma step_checks:
  assumes st: "step m = Inr (r, m')" and ok: "row_ok (rec_instruction r)"
  shows "check_record r = Inr ()"
proof -
  have i: "instruction_at m = Some (rec_instruction r)" by (rule step_fields [OF st])
  show ?thesis
  proof (cases "rec_instruction r")
    case Nop
    with st ok show ?thesis unfolding step_Nop [OF i [unfolded Nop]]
      by (auto simp: check_defs row_ok_def pc_try_from_def split: if_splits)
  next
    case Halt
    with st ok show ?thesis unfolding step_Halt [OF i [unfolded Halt]]
      by (auto simp: check_defs row_ok_def pc_try_from_def split: if_splits)
  next
    case Trap
    with i st show ?thesis by (simp add: step_Trap)
  next
    case (Alu op rd a b)
    with st ok show ?thesis unfolding step_Alu [OF i [unfolded Alu]]
      by (cases b) (auto simp: check_defs row_ok_def operand_read_def split: if_splits)
  next
    case (Advice h rd a b)
    with st ok show ?thesis unfolding step_Advice [OF i [unfolded Advice]]
      by (auto simp: check_defs row_ok_def pc_try_from_def split: if_splits)
  next
    case (Assert op f a b)
    with st ok show ?thesis unfolding step_Assert [OF i [unfolded Assert]]
      by (cases b) (auto simp: check_defs row_ok_def operand_read_def split: if_splits)
  next
    case (Load rd a off)
    with st obtain v where "rec_ram r = Ram_Read \<lparr>rd_address = m_regs m a + off, rd_value = v\<rparr>"
      "rec_rs1 r = Some (read_reg m a)" "rec_rs2 r = None" "rec_next_pc r = rec_pc r + 1"
      "rec_rd r = Some (fst (write_reg m rd v))"
      unfolding step_Load [OF i [unfolded Load]] by (auto elim!: bind_res_InrE)
    then show ?thesis using ok Load by (simp add: check_defs row_ok_def)
  next
    case (Store a v off)
    with st obtain old mem' where "rec_ram r = Ram_Write \<lparr>wr_address = m_regs m a + off,
        wr_pre_value = old, wr_post_value = m_regs m v\<rparr>"
      "rec_rs1 r = Some (read_reg m a)" "rec_rs2 r = Some (read_reg m v)" "rec_rd r = None"
      "rec_next_pc r = rec_pc r + 1"
      unfolding step_Store [OF i [unfolded Store]] by (auto elim!: bind_res_InrE)
    then show ?thesis using ok Store by (simp add: check_defs row_ok_def)
  next
    case (Jump t)
    with st ok show ?thesis unfolding step_Jump [OF i [unfolded Jump]]
      by (auto simp: check_defs row_ok_def pc_try_from_def split: if_splits)
  next
    case (JumpReg a)
    with st ok show ?thesis unfolding step_JumpReg [OF i [unfolded JumpReg]]
      by (auto simp: check_defs row_ok_def pc_try_from_def split: if_splits)
  next
    case (Branch op a b t)
    with st ok show ?thesis unfolding step_Branch [OF i [unfolded Branch]]
      by (auto simp: check_defs row_ok_def pc_try_from_def split: if_splits)
  qed
qed

lemma run_step_of:
  assumes "run n m = Inr (rs, m')" "r \<in> set rs"
  shows "\<exists>k k'. step k = Inr (r, k') \<and> m_program k = m_program m"
  using assms
proof (induction rule: run_induct)
  case (halt m r0 m')
  then show ?case by auto
next
  case (more m r0 m' rs m'')
  then show ?case using step_fields [OF more(1)] by auto
qed

text \<open>C8: Completeness of the row constraints: every record of a run of a preprocessed program
  whose instructions do not write the zero register satisfies the constraint-form check.\<close>

theorem run_records_pass:
  assumes "preprocess program = Inr b"
    and "\<forall>i \<in> set (p_code program). rs_rd (row_spec_of i) \<noteq> Some ZERO"
    and "m_program m = program" and "run n m = Inr (rs, m')"
  shows "\<forall>r \<in> set rs. check_record r = Inr ()"
proof
  fix r assume "r \<in> set rs"
  then obtain k k' where k: "step k = Inr (r, k')" "m_program k = program"
    using run_step_of [OF assms(4)] assms(3) by blast
  then have "rec_instruction r \<in> set (p_code program)"
    using step_fields(1) [OF k(1)] nth_mem by (fastforce simp: instruction_at_def)
  then have "row_ok (rec_instruction r)"
    using assms(2) preprocess_code_valid [OF assms(1)]
    by (auto simp: row_ok_def code_valid_def split: ir.splits)
  then show "check_record r = Inr ()" by (rule step_checks [OF k(1)])
qed

section \<open>A record that passes is a step\<close>

text \<open>A record whose recorded old values are those of the machine: what the register and RAM
  consistency arguments provide.\<close>

definition consistent_with :: "machine \<Rightarrow> exec_record \<Rightarrow> bool" where
  "consistent_with m r \<longleftrightarrow> rec_pc r = m_pc m \<and> instruction_at m = Some (rec_instruction r) \<and>
     (\<forall>x. rec_rs1 r = Some x \<longrightarrow> rr_value x = m_regs m (rr_register x)) \<and>
     (\<forall>x. rec_rs2 r = Some x \<longrightarrow> rr_value x = m_regs m (rr_register x)) \<and>
     (\<forall>w. rec_rd r = Some w \<longrightarrow> rw_pre_value w = m_regs m (rw_register w)) \<and>
     (case rec_ram r of
        Ram_NoOp \<Rightarrow> True
      | Ram_Read x \<Rightarrow> read_word (m_memory m) (rd_address x) = Inr (rd_value x)
      | Ram_Write x \<Rightarrow> (\<exists>mem'. write_word (m_memory m) (wr_address x) (wr_post_value x) =
                            Inr (wr_pre_value x, mem')))"

text \<open>The instructions whose row leaves no choice: an advice row fixes nothing but the
  registers it names, and a trap row is an error of the interpreter.\<close>

definition deterministic_row :: "ir \<Rightarrow> bool" where
  "deterministic_row i = (case i of Trap \<Rightarrow> False | Advice _ _ _ _ \<Rightarrow> False | _ \<Rightarrow> True)"

lemma check_record_parts:
  assumes "check_record r = Inr ()"
  defines "spec \<equiv> row_spec_of (rec_instruction r)"
  defines "out \<equiv> spec_output spec (spec_left_input spec (read_value (rec_rs1 r)))
    (spec_right_input spec (read_value (rec_rs2 r))) (post_value (rec_rd r))"
  shows "map_option rr_register (rec_rs1 r) = rs_rs1 spec"
    "map_option rr_register (rec_rs2 r) = rs_rs2 spec"
    "map_option rw_register (rec_rd r) = rs_rd spec"
    "check_output (rec_pc r) spec out (post_value (rec_rd r)) = Inr ()"
    "check_ram r spec (read_value (rec_rs1 r)) (read_value (rec_rs2 r)) (post_value (rec_rd r)) = Inr ()"
    "check_next_pc r spec out = Inr ()"
  using assms(1) unfolding check_record_def spec_def out_def Let_def
  by (auto simp: check_registers_def Let_def elim!: bind_res_InrE split: if_splits)

lemma if_Inl_Inr: "((if c then Inl e else Inr ()) = Inr ()) \<longleftrightarrow> \<not> c"
  by simp

lemma check_ram_Inr:
  "check_ram r spec a b d = Inr () \<longleftrightarrow>
     (rec_ram r = Ram_NoOp \<and> \<not> flags_has (rs_flags spec) F_Load \<and> \<not> flags_has (rs_flags spec) F_Store) \<or>
     (flags_has (rs_flags spec) F_Load \<and>
        rec_ram r = Ram_Read \<lparr>rd_address = a + rs_imm spec, rd_value = d\<rparr>) \<or>
     (flags_has (rs_flags spec) F_Store \<and> (\<exists>pre. rec_ram r =
        Ram_Write \<lparr>wr_address = a + rs_imm spec, wr_pre_value = pre, wr_post_value = b\<rparr>))"
proof (cases "rec_ram r")
  case (Ram_Read x)
  then show ?thesis by (cases x) (auto simp: check_ram_def Let_def)
next
  case (Ram_Write x)
  then show ?thesis by (cases x) (auto simp: check_ram_def Let_def)
next
  case Ram_NoOp
  then show ?thesis by (auto simp: check_ram_def Let_def has_simps)
qed

lemma check_output_Inr:
  "check_output pc spec out d = Inr () \<longleftrightarrow>
     (flags_has (rs_flags spec) F_Assert \<longrightarrow> out = 1) \<and>
     (flags_has (rs_flags spec) F_WriteLookupToRd \<longrightarrow> d = out)"
  by (auto simp: check_output_def)

lemma check_next_pc_Inr:
  "check_next_pc r spec out = Inr () \<longleftrightarrow>
     (if flags_has (rs_flags spec) F_Halt then rec_next_pc r = rec_pc r
      else if flags_has (rs_flags spec) F_Jump then pc_try_from out = Some (rec_next_pc r)
      else if flags_has (rs_flags spec) F_Branch \<and> out = 1 then rec_next_pc r = ucast (rs_imm spec)
      else rec_next_pc r = rec_pc r + 1)"
  by (cases "pc_try_from out") (auto simp: check_next_pc_def Let_def)

lemmas sound_simps = check_ram_Inr check_next_pc_Inr check_output_Inr spec_simps
  has_simps read_value_def post_value_def right_operand_eq

text \<open>A record that passes at a machine whose values it records: its accesses are the reads and
  the write of the machine's registers that the row names, and its output, its RAM access and its
  next program counter are constrained.\<close>

definition passes_at :: "machine \<Rightarrow> exec_record \<Rightarrow> bool" where
  "passes_at m r \<longleftrightarrow> check_record r = Inr () \<and> consistent_with m r \<and> row_ok (rec_instruction r)"

lemma passes_facts:
  assumes "passes_at m r"
  defines "spec \<equiv> row_spec_of (rec_instruction r)" and "d \<equiv> post_value (rec_rd r)"
  defines "out \<equiv> spec_output spec (spec_left_input spec (read_value (rec_rs1 r)))
    (spec_right_input spec (read_value (rec_rs2 r))) d"
  shows "instruction_at m = Some (rec_instruction r)" "rec_pc r = m_pc m"
    "rec_rs1 r = map_option (read_reg m) (rs_rs1 spec)" "rec_rs2 r = map_option (read_reg m) (rs_rs2 spec)"
    "rec_rd r = map_option (\<lambda>a. fst (write_reg m a d)) (rs_rd spec)"
    "check_output (rec_pc r) spec out d = Inr ()"
    "check_ram r spec (read_value (rec_rs1 r)) (read_value (rec_rs2 r)) d = Inr ()"
    "check_next_pc r spec out = Inr ()"
proof -
  have c: "check_record r = Inr ()" "consistent_with m r" "row_ok (rec_instruction r)"
    using assms(1) by (simp_all add: passes_at_def)
  note p = check_record_parts [OF c(1), folded spec_def d_def, folded out_def]
  show "instruction_at m = Some (rec_instruction r)" "rec_pc r = m_pc m"
    using c(2) by (simp_all add: consistent_with_def)
  show "rec_rs1 r = map_option (read_reg m) (rs_rs1 spec)"
    using p(1) [symmetric] c(2) by (cases "rec_rs1 r") (auto simp: consistent_with_def read_reg_def)
  show "rec_rs2 r = map_option (read_reg m) (rs_rs2 spec)"
    using p(2) [symmetric] c(2) by (cases "rec_rs2 r") (auto simp: consistent_with_def read_reg_def)
  show "rec_rd r = map_option (\<lambda>a. fst (write_reg m a d)) (rs_rd spec)"
    using p(3) [symmetric] c(2,3) unfolding spec_def d_def
    by (cases "rec_rd r") (auto simp: consistent_with_def row_ok_def write_reg_def post_value_def Let_def)
  show "check_output (rec_pc r) spec out d = Inr ()"
    "check_ram r spec (read_value (rec_rs1 r)) (read_value (rec_rs2 r)) d = Inr ()"
    "check_next_pc r spec out = Inr ()" by (rule p(4-6))+
qed

lemma passes_step:
  assumes "passes_at m r" "step m = Inr (s, k)" "rec_instruction s = rec_instruction r" "rec_rs1 s = rec_rs1 r"
    "rec_rs2 s = rec_rs2 r" "rec_rd s = rec_rd r" "rec_ram s = rec_ram r" "rec_next_pc s = rec_next_pc r"
  shows "\<exists>m'. step m = Inr (r, m')"
  using assms passes_facts(2) [OF assms(1)] step_fields(2) [OF assms(2)] exec_record.equality [of s r] by auto

lemma passes_register_row:
  assumes "passes_at m r" "rec_instruction r = Nop \<or> rec_instruction r = Halt \<or> rec_instruction r = Alu op rd a b"
  shows "\<exists>m'. step m = Inr (r, m')"
proof -
  note p = passes_facts [OF assms(1)] and match = passes_step [OF assms(1)]
  consider "rec_instruction r = Nop" | "rec_instruction r = Halt" | "rec_instruction r = Alu op rd a b" using assms(2) by blast
  then show ?thesis
  proof cases
    case 1
    show ?thesis by (rule match [OF step_Nop [OF p(1) [unfolded 1]]]) (use p(2-8) 1 in \<open>simp_all add: sound_simps\<close>)
  next
    case 2
    show ?thesis by (rule match [OF step_Halt [OF p(1) [unfolded 2]]]) (use p(2-8) 2 in \<open>simp_all add: sound_simps\<close>)
  next
    case 3
    show ?thesis by (rule match [OF step_Alu [OF p(1) [unfolded 3], unfolded Let_def]])
        (use p(2-8) 3 in \<open>cases b; simp add: sound_simps operand_read_def\<close>)+
  qed
qed

lemma passes_assert:
  assumes "passes_at m r" "rec_instruction r = Assert op f a b"
  shows "\<exists>m'. step m = Inr (r, m')"
proof -
  note p = passes_facts [OF assms(1)]
  have one: "evaluate op (m_regs m a) (operand_value (m_regs m) b) = 1"
    using p(3,4,6) assms(2) by (cases b) (simp_all add: sound_simps)
  show ?thesis
    by (rule passes_step [OF assms(1) trans [OF step_Assert [OF p(1) [unfolded assms(2)]] if_not_P]])
      (use one p(2-5,7,8) assms(2) in \<open>cases b; simp add: sound_simps operand_read_def\<close>)+
qed

lemma passes_load:
  assumes "passes_at m r" "rec_instruction r = Load rd a off"
  shows "\<exists>m'. step m = Inr (r, m')"
proof -
  note p = passes_facts [OF assms(1)]
  define d where "d = post_value (rec_rd r)"
  have ram: "rec_ram r = Ram_Read \<lparr>rd_address = m_regs m a + off, rd_value = d\<rparr>"
    using p(3,7) assms(2) by (simp add: sound_simps d_def)
  then have mem: "read_word (m_memory m) (m_regs m a + off) = Inr d"
    using assms(1) by (simp add: passes_at_def consistent_with_def)
  show ?thesis
    by (rule passes_step [OF assms(1) step_Load [OF p(1) [unfolded assms(2)], unfolded mem bind_res_simps]])
      (use p(2-5,8) [folded d_def] ram assms(2) in \<open>simp_all add: sound_simps\<close>)
qed

lemma passes_store:
  assumes "passes_at m r" "rec_instruction r = Store a v off"
  shows "\<exists>m'. step m = Inr (r, m')"
proof -
  note p = passes_facts [OF assms(1)]
  obtain old where ram: "rec_ram r = Ram_Write \<lparr>wr_address = m_regs m a + off, wr_pre_value = old, wr_post_value = m_regs m v\<rparr>"
    using p(3,4,7) assms(2) by (auto simp: sound_simps)
  then obtain mem' where mem: "write_word (m_memory m) (m_regs m a + off) (m_regs m v) = Inr (old, mem')"
    using assms(1) by (auto simp: passes_at_def consistent_with_def)
  show ?thesis
    by (rule passes_step [OF assms(1) step_Store [OF p(1) [unfolded assms(2)], unfolded mem bind_res_simps prod.case]])
      (use p(2-5,8) ram assms(2) in \<open>simp_all add: sound_simps\<close>)
qed

lemma passes_control:
  assumes "passes_at m r" "rec_instruction r = Jump t \<or> rec_instruction r = JumpReg a \<or> rec_instruction r = Branch op a b t"
  shows "\<exists>m'. step m = Inr (r, m')"
proof -
  note p = passes_facts [OF assms(1)] and match = passes_step [OF assms(1)]
  consider "rec_instruction r = Jump t" | "rec_instruction r = JumpReg a" | "rec_instruction r = Branch op a b t" using assms(2) by blast
  then show ?thesis
  proof cases
    case 1
    show ?thesis by (rule match [OF step_Jump [OF p(1) [unfolded 1]]]) (use p(2-8) 1 in \<open>simp_all add: sound_simps\<close>)
  next
    case 2
    have jump: "m_regs m a < 2 ^ 32" "ucast (m_regs m a) = rec_next_pc r"
      using p(3,8) 2 by (auto simp: sound_simps pc_try_from_def elim!: bind_res_InrE split: if_splits)
    then have "step m = Inr (\<lparr>rec_pc = m_pc m, rec_next_pc = rec_next_pc r,
        rec_instruction = JumpReg a, rec_rs1 = Some (read_reg m a), rec_rs2 = None, rec_rd = None,
        rec_ram = Ram_NoOp\<rparr>, m\<lparr>m_pc := rec_next_pc r\<rparr>)"
      by (simp add: step_JumpReg [OF p(1) [unfolded 2]])
    then show ?thesis by (rule match) (use p(2-5,7) 2 in \<open>simp_all add: sound_simps\<close>)
  next
    case 3
    show ?thesis by (rule match [OF step_Branch [OF p(1) [unfolded 3], unfolded Let_def]]) (use p(2-8) 3 in \<open>simp_all add: sound_simps\<close>)
  qed
qed


end
