(* ===== verification/Lookup_Index.thy ===== *)
theory Lookup_Index
  imports Prelude
begin

text \<open>
  \<^verbatim>\<open>jolt-lookup-tables/src/interleave.rs\<close> and \<^verbatim>\<open>lookup_bits.rs\<close>: the 128-bit
  lookup index. \<open>interleave_bits\<close> spreads two operands over the odd and even bits in six
  shift-and-mask stages, \<open>uninterleave_bits\<close> gathers them again; \<open>spread\<close> is the
  invariant of a stage. \<^verbatim>\<open>LookupBits\<close> is its byte array and length.
\<close>

section \<open>interleave.rs\<close>

definition spread_bits :: "u64 \<Rightarrow> u128" where
  "spread_bits x =
     (let x0 = (ucast x :: u128);
          x1 = (x0 OR push_bit 32 x0) AND 0x00000000FFFFFFFF00000000FFFFFFFF;
          x2 = (x1 OR push_bit 16 x1) AND 0x0000FFFF0000FFFF0000FFFF0000FFFF;
          x3 = (x2 OR push_bit 8 x2) AND 0x00FF00FF00FF00FF00FF00FF00FF00FF;
          x4 = (x3 OR push_bit 4 x3) AND 0x0F0F0F0F0F0F0F0F0F0F0F0F0F0F0F0F;
          x5 = (x4 OR push_bit 2 x4) AND 0x33333333333333333333333333333333
      in (x5 OR push_bit 1 x5) AND 0x55555555555555555555555555555555)"

definition interleave_bits :: "u64 \<Rightarrow> u64 \<Rightarrow> u128" where
  "interleave_bits x y = push_bit 1 (spread_bits x) OR spread_bits y"

text \<open>The six stages \<^verbatim>\<open>uninterleave_bits\<close> applies to each operand's masked bits.\<close>

definition gather_bits :: "u128 \<Rightarrow> u64" where
  "gather_bits x0 =
     (let x1 = (x0 OR drop_bit 1 x0) AND 0x33333333333333333333333333333333;
          x2 = (x1 OR drop_bit 2 x1) AND 0x0F0F0F0F0F0F0F0F0F0F0F0F0F0F0F0F;
          x3 = (x2 OR drop_bit 4 x2) AND 0x00FF00FF00FF00FF00FF00FF00FF00FF;
          x4 = (x3 OR drop_bit 8 x3) AND 0x0000FFFF0000FFFF0000FFFF0000FFFF;
          x5 = (x4 OR drop_bit 16 x4) AND 0x00000000FFFFFFFF00000000FFFFFFFF
      in ucast ((x5 OR drop_bit 32 x5) AND 0x0000000000000000FFFFFFFFFFFFFFFF))"

definition uninterleave_bits :: "u128 \<Rightarrow> u64 \<times> u64" where
  "uninterleave_bits val =
     (gather_bits (drop_bit 1 val AND 0x55555555555555555555555555555555),
      gather_bits (val AND 0x55555555555555555555555555555555))"

section \<open>lookup_bits.rs\<close>

record lookup_bits =
  lb_bytes :: "u8 list"
  lb_len :: nat

definition lb_as_u128 :: "lookup_bits \<Rightarrow> u128" where
  "lb_as_u128 b = from_le (lb_bytes b)"

definition lb_new :: "u128 \<Rightarrow> nat \<Rightarrow> lookup_bits" where
  "lb_new bits len =
     \<lparr>lb_bytes = to_le 16 (if len < 128 then bits mod push_bit len 1 else bits), lb_len = len\<rparr>"

definition lb_uninterleave :: "lookup_bits \<Rightarrow> lookup_bits \<times> lookup_bits" where
  "lb_uninterleave b =
     (case uninterleave_bits (lb_as_u128 b) of (x_bits, y_bits) \<Rightarrow>
       (let x = lb_new (ucast x_bits) (lb_len b div 2) in
        (x, lb_new (ucast y_bits) (lb_len b - lb_len x))))"

text \<open>\<^verbatim>\<open>split\<close>. In the code the subtraction of the lengths underflows when the suffix is longer than the
  vector; here it stops at zero. The callers split off no more bits than there are, and the lemma on
  \<open>lb_split\<close> has this as a hypothesis.\<close>

definition lb_split :: "lookup_bits \<Rightarrow> nat \<Rightarrow> lookup_bits \<times> lookup_bits" where
  "lb_split b suffix_len =
     (lb_new (drop_bit (suffix_len mod 128) (lb_as_u128 b)) (lb_len b - suffix_len),
      lb_new (lb_as_u128 b mod push_bit (suffix_len mod 128) 1) suffix_len)"

text \<open>\<^verbatim>\<open>pop_msb\<close> returns the bit and the shortened vector; on the empty vector the code
  panics (the length underflows), so the callers' length is a hypothesis of the lemmas.\<close>

definition lb_pop_msb :: "lookup_bits \<Rightarrow> u8 \<times> lookup_bits" where
  "lb_pop_msb b =
     (let bits = lb_as_u128 b; n = lb_len b - 1 in
      (ucast (drop_bit n bits AND 1),
       b\<lparr>lb_bytes := to_le 16 (bits mod push_bit n 1), lb_len := n\<rparr>))"

definition lb_is_empty :: "lookup_bits \<Rightarrow> bool" where
  "lb_is_empty b \<longleftrightarrow> lb_len b = 0"

text \<open>\<^verbatim>\<open>u128::trailing_zeros\<close> and \<^verbatim>\<open>leading_ones\<close>.\<close>

definition lb_trailing_zeros :: "lookup_bits \<Rightarrow> nat" where
  "lb_trailing_zeros b =
     min (length (takeWhile Not (map (bit (lb_as_u128 b)) [0..<128]))) (lb_len b)"

definition lb_leading_ones :: "lookup_bits \<Rightarrow> nat" where
  "lb_leading_ones b =
     length (takeWhile id (map (bit (push_bit ((128 - lb_len b) mod 128) (lb_as_u128 b)))
       (rev [0..<128])))"

section \<open>The stages\<close>

definition spread :: "nat \<Rightarrow> (nat \<Rightarrow> bool) \<Rightarrow> u128 \<Rightarrow> bool" where
  "spread s f v \<longleftrightarrow> (\<forall>n < 128. bit v n \<longleftrightarrow> n mod (2 * s) < s \<and> f (s * (n div (2 * s)) + n mod (2 * s)))"

definition stage_mask :: "nat \<Rightarrow> u128 \<Rightarrow> bool" where
  "stage_mask s m \<longleftrightarrow> (\<forall>n < 128. bit m n \<longleftrightarrow> n mod (2 * s) < s)"

lemma spread_stage_arith:
  fixes n s q r :: nat
  assumes "n = 4 * s * q + r" "r < 4 * s" "0 < s" "n mod (2 * s) < s"
  shows "(r < s \<and> n mod (4 * s) < 2 * s \<and> (s \<le> n \<longrightarrow> \<not> (n - s) mod (4 * s) < 2 * s) \<and>
      2 * s * (n div (4 * s)) + n mod (4 * s) = s * (n div (2 * s)) + n mod (2 * s)) \<or>
    (2 * s \<le> r \<and> \<not> n mod (4 * s) < 2 * s \<and> s \<le> n \<and> (n - s) mod (4 * s) < 2 * s \<and>
      2 * s * ((n - s) div (4 * s)) + (n - s) mod (4 * s) = s * (n div (2 * s)) + n mod (2 * s))"
proof -
  have n4: "n div (4 * s) = q" "n mod (4 * s) = r" using assms by auto
  have split: "n = 2 * s * (2 * q) + r" using assms(1) by simp
  have m2: "n mod (2 * s) = r mod (2 * s)" unfolding split by (rule mod_mult_self4)
  have d2: "n div (2 * s) = 2 * q + r div (2 * s)" 
    unfolding split by (rule div_mult_self4) (use assms(3) in simp)
  consider "r < 2 * s" | "2 * s \<le> r" by linarith
  then show ?thesis
  proof cases
    case 1
    then have r: "r < s" using m2 assms(4) by simp
    have "\<not> (n - s) mod (4 * s) < 2 * s" if "s \<le> n"
    proof -
      have "0 < q" using that r assms(1) by (cases q) auto
      then obtain p where "q = Suc p" by (cases q) auto
      then have "n - s = 4 * s * p + (3 * s + r)" using assms(1) by (simp add: algebra_simps)
      moreover have "3 * s + r < 4 * s" using r by simp
      ultimately have "(n - s) mod (4 * s) = 3 * s + r" by (simp only: mod_mult_self4 mod_less)
      then show ?thesis by simp
    qed
    moreover have "2 * s * q + r = s * (2 * q + r div (2 * s)) + r mod (2 * s)" using 1 by simp
    ultimately show ?thesis using r n4 m2 d2 1 by simp
  next
    case 2
    define t where "t = r - 2 * s"
    have r: "r = 2 * s + t" "t < 2 * s" using 2 assms(2) t_def by auto
    then have t: "t < s" using m2 assms(4) by simp
    have rd: "r div (2 * s) = 1" "r mod (2 * s) = t"
      using div_mult_self4 [of "2 * s" 1 t] mod_mult_self4 [of "2 * s" 1 t] r assms(3) by simp_all
    have "n - s = 4 * s * q + (s + t)" using assms(1) r by simp
    moreover have "s + t < 4 * s" using t by simp
    ultimately have ns: "(n - s) mod (4 * s) = s + t" "(n - s) div (4 * s) = q"
      using assms(3) by (simp_all only: mod_mult_self4 mod_less div_mult_self4) simp
    show ?thesis using 2 n4 ns d2 m2 rd t r assms(1) by (simp add: algebra_simps)
  qed
qed

lemma spread_step:
  assumes "spread (2 * s) f v" "stage_mask s m" "0 < s"
  shows "spread s f ((v OR push_bit s v) AND m)"
  unfolding spread_def
proof (intro allI impI)
  fix n :: nat assume n: "n < 128"
  define q r where "q = n div (4 * s)" and "r = n mod (4 * s)"
  have nqr: "n = 4 * s * q + r" "r < 4 * s" using assms(3) by (simp_all add: q_def r_def)
  have b: "bit ((v OR push_bit s v) AND m) n \<longleftrightarrow>
      n mod (2 * s) < s \<and> (bit v n \<or> s \<le> n \<and> bit v (n - s))"
    using n assms(2) by (auto simp: bit_and_iff bit_or_iff bit_push_bit_iff stage_mask_def possible_bit_def)
  have v: "k < 128 \<Longrightarrow> bit v k \<longleftrightarrow> k mod (4 * s) < 2 * s \<and>
      f (2 * s * (k div (4 * s)) + k mod (4 * s))" for k
    using assms(1) by (simp add: spread_def)
  show "bit ((v OR push_bit s v) AND m) n \<longleftrightarrow>
      n mod (2 * s) < s \<and> f (s * (n div (2 * s)) + n mod (2 * s))"
  proof (cases "n mod (2 * s) < s")
    case True
    from spread_stage_arith [OF nqr assms(3) True] show ?thesis
      using b v [of n] v [of "n - s"] n True by auto
  qed (use b in simp)
qed

lemma gather_step:
  assumes "spread s f v" "stage_mask (2 * s) m" "0 < s" "4 * s dvd 128"
  shows "spread (2 * s) f ((v OR drop_bit s v) AND m)"
  unfolding spread_def
proof (intro allI impI)
  fix n :: nat assume n: "n < 128"
  define q r where "q = n div (4 * s)" and "r = n mod (4 * s)"
  have nqr: "n = 4 * s * q + r" "r < 4 * s" using assms(3) by (simp_all add: q_def r_def)
  have b: "bit ((v OR drop_bit s v) AND m) n \<longleftrightarrow> r < 2 * s \<and> (bit v n \<or> bit v (n + s))"
    using n assms(2) r_def by (auto simp: bit_and_iff bit_or_iff bit_drop_bit_eq stage_mask_def add.commute)
  have v: "k < 128 \<Longrightarrow> bit v k \<longleftrightarrow> k mod (2 * s) < s \<and>
      f (s * (k div (2 * s)) + k mod (2 * s))" for k
    using assms(1) by (simp add: spread_def)
  have split: "n = 2 * s * (2 * q) + r" using nqr(1) by simp
  have n4: "n mod (2 * (2 * s)) = r" "n div (2 * (2 * s)) = q" by (simp_all add: q_def r_def)
  have "r < 2 * s \<and> (bit v n \<or> bit v (n + s)) \<longleftrightarrow> r < 2 * s \<and> f (2 * s * q + r)" (is ?goal)
  proof (cases "r < 2 * s")
    case True
    obtain d where d: "128 = 4 * s * d" using assms(4) unfolding dvd_def by blast
    have "q < d" using n nqr(1) d by (metis add_lessD1 mult_less_cancel1)
    then have "4 * s * Suc q \<le> 4 * s * d" by (intro mult_le_mono2) simp
    moreover have "4 * s * Suc q = 4 * s * q + 4 * s" by simp
    ultimately have ns: "n + s < 128" using d nqr(1) True by linarith
    have n2: "n mod (2 * s) = r" "n div (2 * s) = 2 * q"
      unfolding split using True assms(3) by (simp_all only: mod_mult_self4 mod_less div_mult_self4) simp_all
    show ?goal
    proof (cases "r < s")
      case rs: True
      have "n + s = 2 * s * (2 * q) + (r + s)" "r + s < 2 * s" using split rs by simp_all
      then have "(n + s) mod (2 * s) = r + s" by (simp only: mod_mult_self4 mod_less)
      moreover have "s * (2 * q) + r = 2 * s * q + r" by simp
      ultimately show ?goal using v [OF n] v [OF ns] True n2 rs by (metis not_add_less2)
    next
      case False
      define t where "t = r - s"
      have t: "t < s" "r = s + t" using False True t_def by auto
      have "n + s = 2 * s * (2 * q + 1) + t" "t < 2 * s" using split t by simp_all
      then have "(n + s) mod (2 * s) = t" "(n + s) div (2 * s) = 2 * q + 1"
        using assms(3) by (simp_all only: mod_mult_self4 mod_less div_mult_self4) simp
      moreover have "s * (2 * q + 1) + t = 2 * s * q + r" using t by simp
      moreover have "\<not> r < s" by fact
      ultimately show ?goal using v [OF n] v [OF ns] True n2 t(1) by metis
    qed
  next
    case False
    then show ?goal by simp
  qed
  then show "bit ((v OR drop_bit s v) AND m) n \<longleftrightarrow>
      n mod (2 * (2 * s)) < 2 * s \<and> f (2 * s * (n div (2 * (2 * s))) + n mod (2 * (2 * s)))"
    unfolding n4 b .
qed

section \<open>Interleaving and gathering\<close>

lemma stage_mask_list:
  "stage_mask s m \<longleftrightarrow> list_all (\<lambda>n. bit m n \<longleftrightarrow> n mod (2 * s) < s) [0..<128]"
  by (auto simp: stage_mask_def list_all_iff)

lemma stage_masks:
  "stage_mask 32 0x00000000FFFFFFFF00000000FFFFFFFF"
  "stage_mask 16 0x0000FFFF0000FFFF0000FFFF0000FFFF"
  "stage_mask 8 0x00FF00FF00FF00FF00FF00FF00FF00FF"
  "stage_mask 4 0x0F0F0F0F0F0F0F0F0F0F0F0F0F0F0F0F"
  "stage_mask 2 0x33333333333333333333333333333333"
  "stage_mask 1 0x55555555555555555555555555555555"
  "stage_mask 64 0x0000000000000000FFFFFFFFFFFFFFFF"
  unfolding stage_mask_list by code_simp+

lemma spread_ucast: "spread 64 (bit x) (ucast (x :: u64))"
  unfolding spread_def by (auto simp: bit_ucast_iff dest: bit_imp_le_length)

lemma spread_steps:
  "spread 64 f v \<Longrightarrow> spread 32 f ((v OR push_bit 32 v) AND 0x00000000FFFFFFFF00000000FFFFFFFF)"
  "spread 32 f v \<Longrightarrow> spread 16 f ((v OR push_bit 16 v) AND 0x0000FFFF0000FFFF0000FFFF0000FFFF)"
  "spread 16 f v \<Longrightarrow> spread 8 f ((v OR push_bit 8 v) AND 0x00FF00FF00FF00FF00FF00FF00FF00FF)"
  "spread 8 f v \<Longrightarrow> spread 4 f ((v OR push_bit 4 v) AND 0x0F0F0F0F0F0F0F0F0F0F0F0F0F0F0F0F)"
  "spread 4 f v \<Longrightarrow> spread 2 f ((v OR push_bit 2 v) AND 0x33333333333333333333333333333333)"
  "spread 2 f v \<Longrightarrow> spread 1 f ((v OR push_bit 1 v) AND 0x55555555555555555555555555555555)"
  by (rule spread_step, simp_all only: stage_masks; simp)+

lemma gather_steps:
  "spread 1 f v \<Longrightarrow> spread 2 f ((v OR drop_bit 1 v) AND 0x33333333333333333333333333333333)"
  "spread 2 f v \<Longrightarrow> spread 4 f ((v OR drop_bit 2 v) AND 0x0F0F0F0F0F0F0F0F0F0F0F0F0F0F0F0F)"
  "spread 4 f v \<Longrightarrow> spread 8 f ((v OR drop_bit 4 v) AND 0x00FF00FF00FF00FF00FF00FF00FF00FF)"
  "spread 8 f v \<Longrightarrow> spread 16 f ((v OR drop_bit 8 v) AND 0x0000FFFF0000FFFF0000FFFF0000FFFF)"
  "spread 16 f v \<Longrightarrow> spread 32 f ((v OR drop_bit 16 v) AND 0x00000000FFFFFFFF00000000FFFFFFFF)"
  "spread 32 f v \<Longrightarrow> spread 64 f ((v OR drop_bit 32 v) AND 0x0000000000000000FFFFFFFFFFFFFFFF)"
  using gather_step [of 1 f v] gather_step [of 2 f v] gather_step [of 4 f v] gather_step [of 8 f v]
    gather_step [of 16 f v] gather_step [of 32 f v] stage_masks
  by simp_all

lemma spread_bits_spread: "spread 1 (bit x) (spread_bits x)"
  unfolding spread_bits_def Let_def by (intro spread_steps spread_ucast)

lemma bit_spread_bits: "n < 128 \<Longrightarrow> bit (spread_bits x) n \<longleftrightarrow> even n \<and> bit x (n div 2)"
  using spread_bits_spread [of x] by (auto simp: spread_def even_iff_mod_2_eq_zero)

lemma bit_gather_bits:
  assumes "spread 1 f v" "k < 64"
  shows "bit (gather_bits v) k \<longleftrightarrow> f k"
proof -
  have "spread 64 f ((\<lambda>x1. let x2 = (x1 OR drop_bit 2 x1) AND 0x0F0F0F0F0F0F0F0F0F0F0F0F0F0F0F0F;
          x3 = (x2 OR drop_bit 4 x2) AND 0x00FF00FF00FF00FF00FF00FF00FF00FF;
          x4 = (x3 OR drop_bit 8 x3) AND 0x0000FFFF0000FFFF0000FFFF0000FFFF;
          x5 = (x4 OR drop_bit 16 x4) AND 0x00000000FFFFFFFF00000000FFFFFFFF
      in (x5 OR drop_bit 32 x5) AND 0x0000000000000000FFFFFFFFFFFFFFFF)
      ((v OR drop_bit 1 v) AND 0x33333333333333333333333333333333))" (is "spread 64 f ?g")
    unfolding Let_def by (intro gather_steps assms(1))
  then have "bit ?g k \<longleftrightarrow> f k" using assms(2) by (simp add: spread_def)
  then show ?thesis using assms(2) by (simp add: gather_bits_def Let_def bit_ucast_iff)
qed

lemma bit_uninterleave:
  assumes "k < 64"
  shows "bit (fst (uninterleave_bits v)) k \<longleftrightarrow> bit v (2 * k + 1)"
    "bit (snd (uninterleave_bits v)) k \<longleftrightarrow> bit v (2 * k)"
proof -
  have m: "n < 128 \<Longrightarrow> bit (0x55555555555555555555555555555555 :: u128) n \<longleftrightarrow> n mod 2 = 0" for n
    using stage_masks(6) by (simp add: stage_mask_def)
  have "spread 1 (\<lambda>k. bit v (2 * k + 1)) (drop_bit 1 v AND 0x55555555555555555555555555555555)"
    "spread 1 (\<lambda>k. bit v (2 * k)) (v AND 0x55555555555555555555555555555555)"
    using m by (auto simp: spread_def bit_and_iff bit_drop_bit_eq)
  then show "bit (fst (uninterleave_bits v)) k \<longleftrightarrow> bit v (2 * k + 1)"
    "bit (snd (uninterleave_bits v)) k \<longleftrightarrow> bit v (2 * k)"
    using assms by (simp_all add: uninterleave_bits_def bit_gather_bits)
qed

lemma bit_interleave:
  assumes "n < 128"
  shows "bit (interleave_bits x y) n \<longleftrightarrow> (if even n then bit y (n div 2) else bit x (n div 2))"
proof (cases n)
  case (Suc m)
  then show ?thesis using assms
    unfolding interleave_bits_def bit_or_iff bit_push_bit_iff
    by (auto simp: bit_spread_bits possible_bit_def)
next
  case 0
  then show ?thesis
    unfolding interleave_bits_def bit_or_iff bit_push_bit_iff by (simp add: bit_spread_bits)
qed

lemma uninterleave_interleave [simp]: "uninterleave_bits (interleave_bits x y) = (x, y)"
proof -
  have "fst (uninterleave_bits (interleave_bits x y)) = x"
    by (rule bit_word_eqI) (simp add: bit_uninterleave bit_interleave)
  moreover have "snd (uninterleave_bits (interleave_bits x y)) = y"
    by (rule bit_word_eqI) (simp add: bit_uninterleave bit_interleave)
  ultimately show ?thesis by (simp add: prod_eq_iff)
qed

lemma interleave_uninterleave:
  "interleave_bits (fst (uninterleave_bits v)) (snd (uninterleave_bits v)) = v"
proof (rule bit_word_eqI)
  fix n :: nat assume "n < LENGTH(128)"
  then have n: "n < 128" "n div 2 < 64" by simp_all
  show "bit (interleave_bits (fst (uninterleave_bits v)) (snd (uninterleave_bits v))) n = bit v n"
    using n by (auto simp: bit_interleave bit_uninterleave elim!: oddE evenE)
qed

text \<open>Interleaving is a bijection between pairs of 64-bit operands and 128-bit lookup
  indices: \<^verbatim>\<open>uninterleave_bits\<close> and \<^verbatim>\<open>interleave_bits\<close> invert each other on every input.\<close>

theorem interleave_roundtrip:
  "uninterleave_bits (interleave_bits x y) = (x, y) \<and>
   (case uninterleave_bits v of (a, b) \<Rightarrow> interleave_bits a b) = v"
  using interleave_uninterleave [of v] by (simp add: case_prod_beta)

section \<open>Popping bits\<close>

lemma bits_mod_push: "(b :: u128) mod push_bit n 1 = take_bit n b" "(b :: u128) mod 2 ^ n = take_bit n b"
  by (simp_all add: take_bit_eq_mod push_bit_eq_mult)

lemma lb_as_u128_new: "lb_as_u128 (lb_new b n) = (if n < 128 then take_bit n b else b)"
  by (simp add: lb_as_u128_def lb_new_def bits_mod_push)

lemma lb_len_new [simp]: "lb_len (lb_new b n) = n"
  by (simp add: lb_new_def)

lemma lb_pop_msb_new:
  assumes "n < 128"
  shows "lb_pop_msb (lb_new b (Suc n)) = (of_bool (bit b n), lb_new b n)"
proof -
  let ?c = "if Suc n < 128 then take_bit (Suc n) b else b"
  have "take_bit n ?c = take_bit n b" by (simp add: min_def)
  moreover have "drop_bit n ?c AND 1 = of_bool (bit b n)"
    using assms by (auto simp: and_one_eq bit_iff_odd_drop_bit [symmetric] bit_take_bit_iff mod_2_eq_odd)
  moreover have "lb_as_u128 (lb_new b (Suc n)) = ?c" by (simp add: lb_as_u128_new)
  moreover have "lb_new b n = \<lparr>lb_bytes = to_le 16 (take_bit n b), lb_len = n\<rparr>"
    using assms by (simp only: lb_new_def if_True bits_mod_push)
  moreover have "(lb_new b (Suc n))\<lparr>lb_bytes := c, lb_len := n\<rparr> = \<lparr>lb_bytes = c, lb_len = n\<rparr>" for c
    by (simp add: lb_new_def)
  ultimately show ?thesis
    by (simp only: lb_pop_msb_def Let_def lb_len_new bits_mod_push diff_Suc_1) simp
qed

text \<open>Splitting a bit vector keeps it: the prefix's bits above the suffix's bits are the
  original bits, and the two lengths add up.\<close>

theorem lb_split_parts:
  assumes "lb_len b < 128" "lb_as_u128 b = take_bit (lb_len b) (lb_as_u128 b)" "k \<le> lb_len b"
  shows "case lb_split b k of (p, s) \<Rightarrow>
    lb_len p + lb_len s = lb_len b \<and>
    push_bit k (lb_as_u128 p) OR lb_as_u128 s = lb_as_u128 b"
proof -
  have k: "k mod 128 = k" using assms(1,3) by simp
  let ?v = "lb_as_u128 b"
  have "push_bit k (take_bit (lb_len b - k) (drop_bit k ?v)) OR take_bit k ?v = take_bit (lb_len b) ?v"
    by (rule bit_word_eqI) (use assms(3) in \<open>auto simp: bit_simps\<close>)
  then show ?thesis
    using assms k by (auto simp: lb_split_def lb_as_u128_new bits_mod_push)
qed

end
