(* ===== verification/Lookup_Tables.thy ===== *)
theory Lookup_Tables
  imports Lookup_Index Bytecode_Table
begin

text \<open>
  \<^verbatim>\<open>jolt-lookup-tables/src/tables/*.rs\<close> (\<^verbatim>\<open>materialize_entry\<close> of the 24 tables of the
  catalogue) and \<^verbatim>\<open>jolt-wasm-tables/src/lib.rs\<close> (the catalogue): a table's entry at a
  128-bit lookup index, the index of a row, and the theorem that the entry there is the
  operation's value. \<open>xlen\<close> is the const generic \<^verbatim>\<open>XLEN\<close>, 64 in the catalogue.
\<close>

section \<open>Entries\<close>

definition range_check_entry :: "nat \<Rightarrow> u128 \<Rightarrow> u64" where
  "range_check_entry xlen index = ucast (index AND (push_bit xlen 1 - 1))"

definition lower_half_word_entry :: "nat \<Rightarrow> u128 \<Rightarrow> u64" where
  "lower_half_word_entry xlen index = ucast (index mod push_bit (xlen div 2) 1)"

definition and_entry :: "u128 \<Rightarrow> u64" where
  "and_entry index = (case uninterleave_bits index of (x, y) \<Rightarrow> x AND y)"

definition andn_entry :: "u128 \<Rightarrow> u64" where
  "andn_entry index = (case uninterleave_bits index of (x, y) \<Rightarrow> x AND NOT y)"

definition or_entry :: "u128 \<Rightarrow> u64" where
  "or_entry index = (case uninterleave_bits index of (x, y) \<Rightarrow> x OR y)"

definition xor_entry :: "u128 \<Rightarrow> u64" where
  "xor_entry index = (case uninterleave_bits index of (x, y) \<Rightarrow> x XOR y)"

definition equal_entry :: "u128 \<Rightarrow> u64" where
  "equal_entry index = (case uninterleave_bits index of (x, y) \<Rightarrow> of_bool64 (x = y))"

definition not_equal_entry :: "u128 \<Rightarrow> u64" where
  "not_equal_entry index = (case uninterleave_bits index of (x, y) \<Rightarrow> of_bool64 (x \<noteq> y))"

definition unsigned_less_than_entry :: "u128 \<Rightarrow> u64" where
  "unsigned_less_than_entry index = (case uninterleave_bits index of (x, y) \<Rightarrow> of_bool64 (x < y))"

definition unsigned_greater_than_equal_entry :: "u128 \<Rightarrow> u64" where
  "unsigned_greater_than_equal_entry index =
     (case uninterleave_bits index of (x, y) \<Rightarrow> of_bool64 (x \<ge> y))"

definition unsigned_less_than_equal_entry :: "u128 \<Rightarrow> u64" where
  "unsigned_less_than_equal_entry index =
     (case uninterleave_bits index of (x, y) \<Rightarrow> of_bool64 (x \<le> y))"

text \<open>\<^verbatim>\<open>((x as i64) << shift) >> shift\<close>: the low \<open>xlen\<close> bits, sign-extended.\<close>

definition sign_extended :: "nat \<Rightarrow> u64 \<Rightarrow> u64" where
  "sign_extended xlen x = signed_drop_bit (64 - xlen) (push_bit (64 - xlen) x)"

definition signed_less_than_entry :: "nat \<Rightarrow> u128 \<Rightarrow> u64" where
  "signed_less_than_entry xlen index = (case uninterleave_bits index of (x, y) \<Rightarrow>
     of_bool64 (sint (sign_extended xlen x) < sint (sign_extended xlen y)))"

definition signed_greater_than_equal_entry :: "nat \<Rightarrow> u128 \<Rightarrow> u64" where
  "signed_greater_than_equal_entry xlen index = (case uninterleave_bits index of (x, y) \<Rightarrow>
     of_bool64 (sint (sign_extended xlen x) \<ge> sint (sign_extended xlen y)))"

text \<open>The shift tables walk the operands from the most significant bit, as loops over a
  state. \<open>srl_step\<close> is one round of the right shift: the state is (x, y, entry).\<close>

definition srl_step ::
  "lookup_bits \<times> lookup_bits \<times> u64 \<Rightarrow> lookup_bits \<times> lookup_bits \<times> u64"
where
  "srl_step st = (case st of (x, y, entry) \<Rightarrow>
     (case (lb_pop_msb x, lb_pop_msb y) of ((x_i, x'), (y_i, y')) \<Rightarrow>
       (x', y', entry * (1 + ucast y_i) + ucast (x_i * y_i))))"

definition srl_entry :: "nat \<Rightarrow> u128 \<Rightarrow> u64" where
  "srl_entry xlen index = (case uninterleave_bits index of (x, y) \<Rightarrow>
     (case fold (\<lambda>_. srl_step) [0..<xlen] (lb_new (ucast x) xlen, lb_new (ucast y) xlen, 0) of
       (_, _, entry) \<Rightarrow> entry))"

definition sra_step ::
  "nat \<Rightarrow> lookup_bits \<times> lookup_bits \<times> u64 \<times> u64 \<Rightarrow> lookup_bits \<times> lookup_bits \<times> u64 \<times> u64"
where
  "sra_step i st = (case st of (x, y, entry, sign_extension) \<Rightarrow>
     (case (lb_pop_msb x, lb_pop_msb y) of ((x_b, x'), (y_b, y')) \<Rightarrow>
       (let x_i = ucast x_b; y_i = ucast y_b in
       (x', y', entry * (1 + y_i) + x_i * y_i,
        if i \<noteq> 0 then sign_extension + push_bit i 1 * (1 - y_i) else sign_extension))))"

definition sra_entry :: "nat \<Rightarrow> u128 \<Rightarrow> u64" where
  "sra_entry xlen index = (case uninterleave_bits index of (x, y) \<Rightarrow>
     (let xb = lb_new (ucast x) xlen; sign_bit = of_bool64 (lb_leading_ones xb \<noteq> 0) in
      case fold sra_step [0..<xlen] (xb, lb_new (ucast y) xlen, 0, 0) of
        (_, _, entry, sign_extension) \<Rightarrow> entry + sign_bit * sign_extension))"

definition rotr_step :: "u64 \<Rightarrow> u64 \<Rightarrow> nat \<Rightarrow> u128 \<times> u64 \<times> u64 \<Rightarrow> u128 \<times> u64 \<times> u64" where
  "rotr_step x_bits y_bits i st = (case st of (prod_one_plus_y, first_sum, second_sum) \<Rightarrow>
     (let x = drop_bit i x_bits AND 1; y = drop_bit i y_bits AND 1 in
      (prod_one_plus_y * (1 + ucast y),
       first_sum * (1 + y) + x * y,
       second_sum + x * ucast ((1 - ucast y) * prod_one_plus_y :: u128) * push_bit i 1)))"

definition rotr_entry :: "nat \<Rightarrow> u128 \<Rightarrow> u64" where
  "rotr_entry xlen index = (case uninterleave_bits index of (x_bits, y_bits) \<Rightarrow>
     (case fold (rotr_step x_bits y_bits) (rev [0..<xlen]) (1, 0, 0) of
        (_, first_sum, second_sum) \<Rightarrow> first_sum + second_sum))"

definition negate_if_entry :: "nat \<Rightarrow> u128 \<Rightarrow> u64" where
  "negate_if_entry xlen index = (case uninterleave_bits index of (sign_source, v) \<Rightarrow>
     (let mask = ucast (push_bit xlen 1 - 1 :: u128); val = v AND mask in
      if sign_source AND push_bit (xlen - 1) 1 = 0 then val else (- val) AND mask))"

definition mulu_no_overflow_entry :: "nat \<Rightarrow> u128 \<Rightarrow> u64" where
  "mulu_no_overflow_entry xlen index = of_bool64 (drop_bit xlen index = 0)"

definition pow2_entry :: "nat \<Rightarrow> u128 \<Rightarrow> u64" where
  "pow2_entry xlen index = push_bit (unat (index mod of_nat xlen)) 1"

definition shift_right_bitmask_entry :: "nat \<Rightarrow> u128 \<Rightarrow> u64" where
  "shift_right_bitmask_entry xlen index =
     (let shift = unat (index mod of_nat xlen);
          ones = ucast (push_bit (xlen - shift) 1 - 1 :: u128) in
      push_bit shift ones)"

definition sign_extend_word_entry :: "nat \<Rightarrow> u128 \<Rightarrow> u64" where
  "sign_extend_word_entry xlen index =
     (let half_word_size = xlen div 2;
          lower_half = (ucast (index mod push_bit half_word_size 1) :: u64);
          sign_bit = drop_bit (half_word_size - 1) lower_half AND 1 in
      if sign_bit = 1
      then lower_half OR push_bit half_word_size (push_bit half_word_size 1 - 1)
      else lower_half)"

definition clz_entry :: "nat \<Rightarrow> u128 \<Rightarrow> u64" where
  "clz_entry xlen index = (case uninterleave_bits index of (x, _) \<Rightarrow>
     if x = 0 then of_nat xlen else of_nat (leading_zeros x) - (64 - of_nat xlen))"

definition ctz_entry :: "nat \<Rightarrow> u128 \<Rightarrow> u64" where
  "ctz_entry xlen index = (case uninterleave_bits index of (x, _) \<Rightarrow>
     if x = 0 then of_nat xlen else of_nat (trailing_zeros x))"

definition popcnt_entry :: "u128 \<Rightarrow> u64" where
  "popcnt_entry index = (case uninterleave_bits index of (x, _) \<Rightarrow> of_nat (count_ones x))"

section \<open>The catalogue\<close>

definition XLEN :: nat where "XLEN = 64"

datatype wasm_table =
    RangeCheck | LowerHalfWord | And | Andn | Or | Xor | Equal | NotEqual
  | UnsignedLessThan | SignedLessThan | UnsignedGreaterThanEqual | SignedGreaterThanEqual
  | UnsignedLessThanEqual | Srl | Sra | Rotr | NegateIf | MulUNoOverflow | Pow2
  | ShiftRightBitmask | SignExtendWord | Clz | Ctz | Popcnt

text \<open>\<^verbatim>\<open>iter\<close>: every table in declaration order.\<close>

definition wasm_tables :: "wasm_table list" where
  "wasm_tables =
     [RangeCheck, LowerHalfWord, And, Andn, Or, Xor, Equal, NotEqual,
      UnsignedLessThan, SignedLessThan, UnsignedGreaterThanEqual, SignedGreaterThanEqual,
      UnsignedLessThanEqual, Srl, Sra, Rotr, NegateIf, MulUNoOverflow, Pow2,
      ShiftRightBitmask, SignExtendWord, Clz, Ctz, Popcnt]"

definition TABLE_COUNT :: nat where "TABLE_COUNT = length wasm_tables"

fun table_of :: "alu_op \<Rightarrow> wasm_table" where
  "table_of (A_Add W64) = RangeCheck"
| "table_of (A_Sub W64) = RangeCheck"
| "table_of (A_Mul W64) = RangeCheck"
| "table_of (A_Add W32) = LowerHalfWord"
| "table_of (A_Sub W32) = LowerHalfWord"
| "table_of (A_Mul W32) = LowerHalfWord"
| "table_of A_LowerHalfWord = LowerHalfWord"
| "table_of A_And = And"
| "table_of A_Andn = Andn"
| "table_of A_Or = Or"
| "table_of A_Xor = Xor"
| "table_of A_Eq = Equal"
| "table_of A_Ne = NotEqual"
| "table_of A_LtU = UnsignedLessThan"
| "table_of A_LtS = SignedLessThan"
| "table_of A_GeU = UnsignedGreaterThanEqual"
| "table_of A_GeS = SignedGreaterThanEqual"
| "table_of A_LeU = UnsignedLessThanEqual"
| "table_of A_Srl = Srl"
| "table_of A_Sra = Sra"
| "table_of A_Rotr = Rotr"
| "table_of A_NegateIf = NegateIf"
| "table_of A_MulUNoOverflow = MulUNoOverflow"
| "table_of A_Pow2 = Pow2"
| "table_of A_ShiftRightBitmask = ShiftRightBitmask"
| "table_of A_SignExtendWord = SignExtendWord"
| "table_of A_Clz = Clz"
| "table_of A_Ctz = Ctz"
| "table_of A_Popcnt = Popcnt"

definition table_from_index :: "nat \<Rightarrow> wasm_table option" where
  "table_from_index i = nth_opt wasm_tables i"

definition table_index :: "wasm_table \<Rightarrow> nat" where
  "table_index t = length (takeWhile (\<lambda>u. u \<noteq> t) wasm_tables)"

fun materialize_entry :: "wasm_table \<Rightarrow> u128 \<Rightarrow> u64" where
  "materialize_entry RangeCheck i = range_check_entry XLEN i"
| "materialize_entry LowerHalfWord i = lower_half_word_entry XLEN i"
| "materialize_entry And i = and_entry i"
| "materialize_entry Andn i = andn_entry i"
| "materialize_entry Or i = or_entry i"
| "materialize_entry Xor i = xor_entry i"
| "materialize_entry Equal i = equal_entry i"
| "materialize_entry NotEqual i = not_equal_entry i"
| "materialize_entry UnsignedLessThan i = unsigned_less_than_entry i"
| "materialize_entry SignedLessThan i = signed_less_than_entry XLEN i"
| "materialize_entry UnsignedGreaterThanEqual i = unsigned_greater_than_equal_entry i"
| "materialize_entry SignedGreaterThanEqual i = signed_greater_than_equal_entry XLEN i"
| "materialize_entry UnsignedLessThanEqual i = unsigned_less_than_equal_entry i"
| "materialize_entry Srl i = srl_entry XLEN i"
| "materialize_entry Sra i = sra_entry XLEN i"
| "materialize_entry Rotr i = rotr_entry XLEN i"
| "materialize_entry NegateIf i = negate_if_entry XLEN i"
| "materialize_entry MulUNoOverflow i = mulu_no_overflow_entry XLEN i"
| "materialize_entry Pow2 i = pow2_entry XLEN i"
| "materialize_entry ShiftRightBitmask i = shift_right_bitmask_entry XLEN i"
| "materialize_entry SignExtendWord i = sign_extend_word_entry XLEN i"
| "materialize_entry Clz i = clz_entry XLEN i"
| "materialize_entry Ctz i = ctz_entry XLEN i"
| "materialize_entry Popcnt i = popcnt_entry i"

fun lookup_index_for :: "operand_mode \<Rightarrow> u64 \<Rightarrow> u64 \<Rightarrow> u128" where
  "lookup_index_for Mode_Interleaved left right = interleave_bits left right"
| "lookup_index_for Mode_Add left right = ucast left + ucast right"
| "lookup_index_for Mode_Sub left right = ucast left + push_bit 64 1 - ucast right"
| "lookup_index_for Mode_Mul left right = ucast left * ucast right"

definition lookup_index :: "alu_op \<Rightarrow> u64 \<Rightarrow> u64 \<Rightarrow> u128" where
  "lookup_index op left right = lookup_index_for (op_mode op) left right"

definition bytecode_table_id :: "bytecode_row \<Rightarrow> nat option" where
  "bytecode_table_id row = map_option (\<lambda>op. table_index (table_of op)) (br_table_op row)"

definition table_output :: "alu_op \<Rightarrow> u64 \<Rightarrow> u64 \<Rightarrow> u64" where
  "table_output op left right = materialize_entry (table_of op) (lookup_index op left right)"

section \<open>The catalogue's ids\<close>

text \<open>A table's id is its position in the catalogue: \<^verbatim>\<open>from_index\<close> and \<^verbatim>\<open>index\<close> are
  inverse, and every id fits the 6 bits the kernels pack it in.\<close>

theorem table_index_roundtrip:
  "table_from_index (table_index t) = Some t \<and> table_index t < TABLE_COUNT \<and> TABLE_COUNT < 64 \<and>
   (table_from_index i = Some t \<longleftrightarrow> i = table_index t)"
proof -
  have len: "length wasm_tables = 24" by (simp add: wasm_tables_def)
  have dist: "distinct wasm_tables" by (simp add: wasm_tables_def)
  have at: "table_index t < 24 \<and> wasm_tables ! table_index t = t" for t
    by (cases t) (simp_all add: table_index_def wasm_tables_def)
  have "i < 24 \<and> wasm_tables ! i = t \<longleftrightarrow> i = table_index t"
    using at [of t] dist len by (auto simp: nth_eq_iff_index_eq)
  then show ?thesis using at [of t] len by (simp add: table_from_index_def TABLE_COUNT_def)
qed

section \<open>Entries at the index of a row\<close>

lemma ucast_of_unat: "(ucast (w :: u128) :: u64) = of_nat (unat w)"
  by (simp add: word_unat_eq_iff unsigned_ucast_eq unsigned_of_nat)

lemma unat_index_bounds: 
  "unat (ucast (x::u64) + ucast (y::u64) :: u128) = unat x + unat y"
  "unat (ucast (x::u64) + push_bit 64 1 - ucast (y::u64) :: u128) = unat x + 2^64 - unat y"
  "unat (ucast (x::u64) * ucast (y::u64) :: u128) = unat x * unat y"
proof -
  have b: "unat x < 18446744073709551616" "unat y < 18446744073709551616" by (rule unat_u64_less_numeral)+
  show "unat (ucast (x::u64) + ucast (y::u64) :: u128) = unat x + unat y"
    using b by (simp add: unat_word_ariths)
  have "unat (ucast x + 18446744073709551616 :: u128) = unat x + 18446744073709551616" 
    using b by (simp add: unat_word_ariths)
  then show "unat (ucast (x::u64) + push_bit 64 1 - ucast (y::u64) :: u128) = unat x + 2^64 - unat y"
    using b by (simp add: unat_sub word_le_nat_alt)
  have "unat x * unat y \<le> 18446744073709551615 * 18446744073709551615"
    using b by (intro mult_le_mono) auto
  then show "unat (ucast (x::u64) * ucast (y::u64) :: u128) = unat x * unat y"
    by (simp add: unat_word_ariths)
qed

lemma ucast_u128_ring:
  "(ucast (ucast x + ucast y :: u128) :: u64) = x + y"
  "(ucast (ucast x + push_bit 64 1 - ucast y :: u128) :: u64) = x - y"
  "(ucast (ucast x * ucast y :: u128) :: u64) = x * y"
proof -
  show "(ucast (ucast x + ucast y :: u128) :: u64) = x + y"
    unfolding ucast_of_unat unat_index_bounds by simp
  show "(ucast (ucast x * ucast y :: u128) :: u64) = x * y"
    unfolding ucast_of_unat unat_index_bounds by simp
  have "unat y < 18446744073709551616" by (rule unat_u64_less_numeral)
  then have "unat y \<le> unat x + 18446744073709551616" by simp
  then have "(of_nat (unat x + 18446744073709551616 - unat y) :: u64) = x - y" by (simp add: of_nat_diff)
  then show "(ucast (ucast x + push_bit 64 1 - ucast y :: u128) :: u64) = x - y"
    unfolding ucast_of_unat unat_index_bounds by simp
qed

lemma range_check_entry_eq: "range_check_entry 64 i = ucast i"
proof -
  have "push_bit 64 1 - 1 = (mask 64 :: u128)" by (simp add: mask_eq_exp_minus_1)
  then have "range_check_entry 64 i = ucast (take_bit 64 i)"
    unfolding range_check_entry_def by (simp only: take_bit_eq_mask)
  then show ?thesis by (intro bit_word_eqI) (simp add: bit_simps)
qed

lemma lower_half_word_entry_eq: "lower_half_word_entry 64 i = low32 (ucast i)"
proof -
  have "i mod push_bit (64 div 2) 1 = take_bit 32 i" using bits_mod_push(1) [of i 32] by simp
  then show ?thesis unfolding lower_half_word_entry_def low32_def
  by (intro bit_word_eqI) (auto simp add: bit_simps)
qed

lemma mulu_no_overflow_entry_eq: "mulu_no_overflow_entry 64 (ucast (x::u64) * ucast y) = of_bool64 (checked_mul_is_some x y)"
proof -
  have "drop_bit 64 (ucast x * ucast y :: u128) = 0 \<longleftrightarrow> unat (ucast x * ucast y :: u128) < 2 ^ 64"
    by (simp add: word_unat_eq_iff unat_div div_eq_0_iff drop_bit_eq_div)
  then show ?thesis 
    unfolding mulu_no_overflow_entry_def checked_mul_is_some_def unat_index_bounds by simp
qed

lemma mod64: "unat (i mod of_nat 64 :: u128) = unat ((ucast i :: u64) AND 63)"
proof -
  have "(ucast i :: u64) AND 63 = take_bit 6 (ucast i)" by (simp add: take_bit_eq_mask mask_eq_exp_minus_1)
  then show ?thesis 
   by (simp add: unat_mod unsigned_take_bit_eq take_bit_eq_mod unsigned_ucast_eq mod_mod_cancel)
qed

lemma pow2_entry_eq: "pow2_entry 64 i = push_bit (unat ((ucast i :: u64) AND 63)) 1"
  unfolding pow2_entry_def mod64 ..
lemma shift_right_bitmask_entry_eq: "shift_right_bitmask_entry 64 i = shift_right_bitmask ((ucast i :: u64) AND 63)"
  unfolding shift_right_bitmask_entry_def mod64 shift_right_bitmask_def Let_def ..
lemma sign_extend_word_entry_eq: "sign_extend_word_entry 64 i = scast (ucast (ucast i :: u64) :: u32)"
proof -
  define l where "l = (ucast (take_bit 32 i) :: u64)"
  have l: "(ucast (i mod push_bit (64 div 2) 1) :: u64) = l" 
    unfolding l_def using bits_mod_push(1) [of i 32] by simp
  have s: "drop_bit (64 div 2 - 1) l AND 1 = 1 \<longleftrightarrow> bit l 31"
    by (simp add: bit_iff_odd_drop_bit and_one_eq odd_iff_mod_2_eq_one)
  have u: "push_bit (64 div 2) (push_bit (64 div 2) 1 - 1) = (push_bit 32 (mask 32) :: u64)"
    by (simp add: mask_eq_exp_minus_1)
  have "bit (scast (ucast (ucast i :: u64) :: u32) :: u64) n \<longleftrightarrow>
      (if n < 32 then bit i n else bit i 31)" if "n < 64" for n
    using that by (cases "n < 31"; cases "n = 31") (auto simp: bit_simps min_def)
  then show ?thesis unfolding sign_extend_word_entry_def Let_def l s u
    by (intro bit_word_eqI) (auto simp: bit_simps l_def)
qed

lemma drop_bit_63: "drop_bit 63 (x :: u64) = of_bool (bit x 63)"
proof (rule bit_word_eqI)
  fix n :: nat
  show "bit (drop_bit 63 x) n \<longleftrightarrow> bit (of_bool (bit x 63) :: u64) n"
    by (cases n) (auto simp: bit_simps dest: bit_imp_le_length)
qed

lemma negate_if_entry_eq: "negate_if_entry 64 (interleave_bits x y) = (if drop_bit 63 x = 1 then - y else y)"
proof -
  have m: "(ucast (push_bit 64 1 - 1 :: u128) :: u64) = -1" by simp
  have "x AND push_bit (64 - 1) 1 = 0 \<longleftrightarrow> \<not> bit x 63"
    by (simp only: bit_iff_and_push_bit_not_eq_0) simp
  then show ?thesis unfolding negate_if_entry_def uninterleave_interleave prod.case Let_def m drop_bit_63 by simp
qed

lemma sign_extended_64: "sign_extended 64 x = x" unfolding sign_extended_def by (rule bit_word_eqI) (simp add: bit_simps bit_signed_drop_bit_iff)

lemma clz_ctz_entry_eq: "clz_entry 64 (interleave_bits x y) = of_nat (leading_zeros x)"
 "ctz_entry 64 (interleave_bits x y) = of_nat (trailing_zeros x)"
  by (auto simp: clz_entry_def ctz_entry_def)
text \<open>The operand domain of the shift tables: a bitmask of ones from position \<open>s\<close> up.\<close>

definition shift_mask :: "u64 \<Rightarrow> nat \<Rightarrow> bool" where
  "shift_mask y s \<longleftrightarrow> s < 64 \<and> (\<forall>n < 64. bit y n \<longleftrightarrow> s \<le> n)"

lemma shift_mask_trailing: "shift_mask y s \<Longrightarrow> trailing_zeros y = s"
  by (rule trailing_zerosI) (auto simp: shift_mask_def)

lemma shift_right_bitmask_mask:
  assumes "unat k < 64"
  shows "shift_mask (shift_right_bitmask k) (unat k)"
proof -
  have "push_bit (64 - unat k) 1 - 1 = (mask (64 - unat k) :: u128)" by (simp add: mask_eq_exp_minus_1)
  then show ?thesis using assms
    unfolding shift_mask_def shift_right_bitmask_def by (auto simp: bit_simps)
qed

lemma fold_upt_invariant:
  assumes "P 0 s" "\<And>k t. k < n \<Longrightarrow> P k t \<Longrightarrow> P (Suc k) (f k t)"
  shows "P n (fold f [0..<n] s)"
  using assms(2) by (induction n) (auto simp: assms(1))

lemma bit_u64_ge [simp]: "64 \<le> n \<Longrightarrow> \<not> bit (x :: u64) n"
  using bit_imp_le_length [of x n] by auto

lemma drop_bit_Suc_bit: "drop_bit n (x :: u64) = 2 * drop_bit (Suc n) x + of_bool (bit x n)"
proof -
  let ?d = "drop_bit n x"
  have "drop_bit (Suc n) x = ?d div 2" by (simp add: drop_bit_Suc drop_bit_half)
  moreover have "of_bool (bit x n) = ?d mod 2" by (simp add: bit_iff_odd_drop_bit mod_2_eq_odd)
  ultimately show ?thesis by (simp only: mult_div_mod_eq)
qed

definition shifted :: "u64 \<Rightarrow> nat \<Rightarrow> nat \<Rightarrow> u64" where
  "shifted x s k = drop_bit (max s (64 - k)) x"

lemma shifted_Suc:
  assumes "n < 64"
  shows "shifted x s (64 - n) =
    (if s \<le> n then shifted x s (63 - n) * 2 + of_bool (bit x n) else shifted x s (63 - n))"
proof -
  have e: "64 - (64 - n) = n" "64 - (63 - n) = Suc n" using assms by auto
  consider "s \<le> n" | "s = Suc n" | "Suc n < s" by linarith
  then show ?thesis unfolding shifted_def e
    by cases (simp_all add: drop_bit_Suc_bit [of n x] mult.commute max_def)
qed

lemma srl_loop:
  assumes "shift_mask y s" "k < 64"
  shows "srl_step (lb_new (ucast x) (64 - k), lb_new (ucast y) (64 - k), shifted x s k) =
     (lb_new (ucast x) (64 - Suc k), lb_new (ucast y) (64 - Suc k), shifted x s (Suc k))"
proof -
  obtain n where n: "64 - k = Suc n" "64 - Suc k = n" "n < 64" "k = 63 - n" "Suc k = 64 - n"
    using assms(2) by (intro that [of "63 - k"]) auto
  have bits: "bit (ucast w :: u128) n = bit w n" for w :: u64 using n(3) by (simp add: bit_simps)
  have y: "bit y n \<longleftrightarrow> s \<le> n" and s: "s < 64" using assms n(3) by (auto simp: shift_mask_def)
  show ?thesis
    unfolding n(1,2) srl_step_def prod.case
    using n(3) s y shifted_Suc [OF n(3), of x s]
    unfolding n(5) by (auto simp: lb_pop_msb_new bits n(4))
qed

lemma srl_entry_eq:
  assumes "shift_mask y s"
  shows "srl_entry 64 (interleave_bits x y) = drop_bit s x"
proof -
  let ?st = "\<lambda>k. (lb_new (ucast x) (64 - k), lb_new (ucast y) (64 - k), shifted x s k)"
  have "fold (\<lambda>_. srl_step) [0..<64] (?st 0) = ?st 64"
    by (rule fold_upt_invariant [where P = "\<lambda>k t. t = ?st k"]) (simp_all add: srl_loop [OF assms])
  moreover have "shifted x s 0 = 0" "shifted x s 64 = drop_bit s x" 
    using assms by (simp_all add: shifted_def shift_mask_def max_def)
  ultimately show ?thesis by (simp add: srl_entry_def)
qed

text \<open>The arithmetic shift's sign extension: the top \<open>s\<close> bits.\<close>

definition sign_ext :: "nat \<Rightarrow> nat \<Rightarrow> u64" where
  "sign_ext s k = push_bit (64 - s) (mask (k + s - 64))"

lemma push_mask_Suc: "push_bit a (mask (Suc m)) = push_bit a (mask m) + push_bit (a + m) (1 :: u64)"
  by (simp add: mask_eq_exp_minus_1 push_bit_eq_mult power_add algebra_simps)

lemma sign_ext_Suc:
  assumes "n < 64" "s < 64"
  shows "sign_ext s (64 - n) =
    (if s \<le> n then sign_ext s (63 - n) else sign_ext s (63 - n) + push_bit (63 - n) 1)"
proof (cases "s \<le> n")
  case True
  then have "64 - n + s - 64 = 0" "63 - n + s - 64 = 0" using assms by auto
  then show ?thesis using True by (simp add: sign_ext_def)
next
  case False
  then have "64 - n + s - 64 = Suc (63 - n + s - 64)" "64 - s + (63 - n + s - 64) = 63 - n"
    using assms by auto
  then show ?thesis using False push_mask_Suc [of "64 - s" "63 - n + s - 64"]
    by (simp add: sign_ext_def)
qed

lemma sra_loop:
  assumes "shift_mask y s" "k < 64"
  shows "sra_step k (lb_new (ucast x) (64 - k), lb_new (ucast y) (64 - k), shifted x s k, sign_ext s k) =
     (lb_new (ucast x) (64 - Suc k), lb_new (ucast y) (64 - Suc k), shifted x s (Suc k), sign_ext s (Suc k))"
proof -
  obtain n where n: "64 - k = Suc n" "64 - Suc k = n" "n < 64" "k = 63 - n" "Suc k = 64 - n"
    using assms(2) by (intro that [of "63 - k"]) auto
  have bits: "bit (ucast w :: u128) n = bit w n" for w :: u64 using n(3) by (simp add: bit_simps)
  have y: "bit y n \<longleftrightarrow> s \<le> n" and s: "s < 64" using assms n(3) by (auto simp: shift_mask_def)
  have n128: "n < 128" using n(3) by simp
  have zero: "k = 0 \<Longrightarrow> s \<le> n" using n s by simp
  show ?thesis
    unfolding n(1,2) sra_step_def prod.case Let_def lb_pop_msb_new [OF n128] bits
    unfolding n(5) shifted_Suc [OF n(3)] sign_ext_Suc [OF n(3) s]
    using y zero by (auto simp: n(4))
qed

lemma leading_ones_sign: "lb_leading_ones (lb_new (ucast (x :: u64)) 64) \<noteq> 0 \<longleftrightarrow> bit x 63"
proof -
  have "rev [0..<128] = 127 # rev [0..<127]" by (simp add: upt_Suc_append [of 0 127, simplified])
  then show ?thesis 
   by (simp add: lb_leading_ones_def lb_as_u128_new bit_simps)
qed

lemma sra_entry_eq:
  assumes "shift_mask y s"
  shows "sra_entry 64 (interleave_bits x y) = signed_drop_bit s x"
proof -
  let ?st = "\<lambda>k. (lb_new (ucast x) (64 - k), lb_new (ucast y) (64 - k), shifted x s k, sign_ext s k)"
  have f: "fold sra_step [0..<64] (?st 0) = ?st 64"
    by (rule fold_upt_invariant [where P = "\<lambda>k t. t = ?st k"]) (simp_all add: sra_loop [OF assms])
  have s: "s < 64" using assms by (simp add: shift_mask_def)
  have "shifted x s 0 = 0" "shifted x s 64 = drop_bit s x" "sign_ext s 0 = 0" 
     "sign_ext s 64 = push_bit (64 - s) (mask s)"
    using s by (auto simp add: shifted_def max_def sign_ext_def)
  moreover have "drop_bit s x + of_bool64 (bit x 63) * push_bit (64 - s) (mask s) = signed_drop_bit s x"
  proof -
    have "drop_bit s x + of_bool64 (bit x 63) * push_bit (64 - s) (mask s) =
        drop_bit s x OR (if bit x 63 then push_bit (64 - s) (mask s) else 0)"
      by (subst disjunctive_add_eq_or)
        (auto intro!: bit_word_eqI simp: bit_simps of_bool64_def dest: bit_imp_le_length)
    also have "\<dots> = signed_drop_bit s x"
      by (rule bit_word_eqI) (use s in \<open>auto simp: bit_simps bit_signed_drop_bit_iff min_def not_less
        dest: bit_imp_le_length\<close>)
    finally show ?thesis .
  qed
  ultimately show ?thesis using f by (simp add: sra_entry_def leading_ones_sign flip: neq0_conv)
qed

lemma take_bit_high_Suc:
  "take_bit s x AND NOT (mask n) =
    (take_bit s x AND NOT (mask (Suc n))) + (if n < s \<and> bit x n then push_bit n 1 else (0 :: u64))"
proof -
  let ?b = "if n < s \<and> bit x n then push_bit n 1 else (0 :: u64)"
  have "(take_bit s x AND NOT (mask (Suc n))) + ?b = (take_bit s x AND NOT (mask (Suc n))) OR ?b"
    by (rule disjunctive_add_eq_or) (auto intro!: bit_word_eqI simp: bit_simps)
  also have "\<dots> = take_bit s x AND NOT (mask n)"
    by (rule bit_word_eqI) (auto simp: bit_simps less_Suc_eq dest: bit_imp_le_length)
  finally show ?thesis by simp
qed

lemma not_mask_64: "NOT (mask 64) = (0 :: u64)"
  by (rule bit_word_eqI) (simp add: bit_simps)

definition rot_high :: "u64 \<Rightarrow> nat \<Rightarrow> nat \<Rightarrow> u64" where
  "rot_high x s k = push_bit (64 - s) (take_bit s x AND NOT (mask (64 - k)))"

lemma rotr_loop:
  assumes "shift_mask y s" "k < 64"
  shows "rotr_step x y (63 - k) (push_bit (min k (64 - s)) 1, shifted x s k, rot_high x s k) =
     (push_bit (min (Suc k) (64 - s)) 1, shifted x s (Suc k), rot_high x s (Suc k))"
proof -
  obtain n where n: "63 - k = n" "64 - k = Suc n" "64 - Suc k = n" "n < 64" "k = 63 - n" "Suc k = 64 - n"
    using assms(2) by (intro that [of "63 - k"]) auto
  have y: "bit y n \<longleftrightarrow> s \<le> n" and s: "s < 64" using assms n(4) by (auto simp: shift_mask_def)
  have b: "drop_bit n w AND 1 = of_bool (bit w n)" for w :: u64
    by (auto simp: and_one_eq bit_iff_odd_drop_bit mod_2_eq_odd)
  have high: "rot_high x s (Suc k) = rot_high x s k +
      (if n < s \<and> bit x n then push_bit (64 - s) (push_bit n 1) else 0)"
    unfolding rot_high_def n(2,3) take_bit_high_Suc [of s x n]
    by (simp add: push_bit_add algebra_simps push_bit_eq_mult)
  show ?thesis
  proof (cases "s \<le> n")
    case True
    then have "min (Suc k) (64 - s) = Suc k" "min k (64 - s) = k" using n(4,5) by auto
    then show ?thesis
      using True y high shifted_Suc [OF n(4), of x s]
      by (simp add: rotr_step_def b n(1) flip: n(5,6))
  next
    case False
    then have m: "min (Suc k) (64 - s) = 64 - s" "min k (64 - s) = 64 - s" using n(4,5) by auto
    have "64 - s < 64" using False by auto
    then have u: "(ucast (push_bit (64 - s) 1 :: u128) :: u64) = push_bit (64 - s) 1"
      by (intro bit_word_eqI) (simp add: bit_simps)
    show ?thesis
      using False y high shifted_Suc [OF n(4), of x s] u
      by (simp add: rotr_step_def b n(1) m push_bit_eq_mult mult.assoc flip: n(5,6))
  qed
qed

lemma rotr_entry_eq:
  assumes "shift_mask y s"
  shows "rotr_entry 64 (interleave_bits x y) = word_rotr s x"
proof -
  have s: "s < 64" using assms by (simp add: shift_mask_def)
  let ?st = "\<lambda>k. (push_bit (min k (64 - s)) 1, shifted x s k, rot_high x s k)"
  have "rev [0..<64] = map (\<lambda>k. 63 - k) [0..<64]" using rev_upt_nat [of 64] by simp
  then have "fold (rotr_step x y) (rev [0..<64]) (?st 0) =
      fold (\<lambda>k. rotr_step x y (63 - k)) [0..<64] (?st 0)"
    by (simp only: fold_map comp_def)
  also have "\<dots> = ?st 64"
    by (rule fold_upt_invariant [where P = "\<lambda>k t. t = ?st k"]) (simp_all only: rotr_loop [OF assms])
  finally have f: "fold (rotr_step x y) (rev [0..<64]) (?st 0) = ?st 64" .
  have i: "shifted x s 0 = 0" "rot_high x s 0 = 0" "shifted x s 64 = drop_bit s x"
    "rot_high x s 64 = push_bit (64 - s) (take_bit s x)"
    using s by (simp_all add: shifted_def max_def rot_high_def not_mask_64)
  have "drop_bit s x + push_bit (64 - s) (take_bit s x) = drop_bit s x OR push_bit (64 - s) (take_bit s x)"
    by (rule disjunctive_add_eq_or) (auto intro!: bit_word_eqI simp: bit_simps dest: bit_imp_le_length)
  also have "\<dots> = word_rotr s x"
  proof (rule bit_word_eqI)
    fix n :: nat assume "n < LENGTH(64)"
    then have n: "n < 64" by simp
    have "(n + s) mod 64 = (if n + s < 64 then n + s else n + s - 64)"
      using n s by (simp add: mod_if [of "n + s" 64])
    then show "bit (drop_bit s x OR push_bit (64 - s) (take_bit s x)) n = bit (word_rotr s x) n"
      using n s by (auto simp: bit_simps add.commute [of s n])
  qed
  finally show ?thesis using f i by (simp add: rotr_entry_def)
qed

section \<open>The catalogue computes the operations\<close>

lemmas interleaved_entries = and_entry_def andn_entry_def or_entry_def xor_entry_def equal_entry_def
  not_equal_entry_def unsigned_less_than_entry_def unsigned_greater_than_equal_entry_def
  unsigned_less_than_equal_entry_def signed_less_than_entry_def
  signed_greater_than_equal_entry_def sign_extended_64 popcnt_entry_def clz_ctz_entry_eq
  negate_if_entry_eq

lemmas index_entries = range_check_entry_eq lower_half_word_entry_eq mulu_no_overflow_entry_eq pow2_entry_eq shift_right_bitmask_entry_eq sign_extend_word_entry_eq ucast_u128_ring

text \<open>The operations whose right operand must be a shift bitmask for the entry to be the
  shift: the lowering always feeds them one.\<close>

definition in_domain :: "alu_op \<Rightarrow> u64 \<Rightarrow> bool" where
  "in_domain op y = (case op of
      A_Srl \<Rightarrow> shift_mask y (trailing_zeros y)
    | A_Sra \<Rightarrow> shift_mask y (trailing_zeros y)
    | A_Rotr \<Rightarrow> shift_mask y (trailing_zeros y)
    | _ \<Rightarrow> True)"

lemma table_output_eq:
  assumes "in_domain op y"
  shows "table_output op x y = evaluate op x y"
proof (cases op)
  case (A_Add w)
  then show ?thesis by (cases w) (simp_all add: table_output_def lookup_index_def XLEN_def index_entries)
next
  case (A_Sub w)
  then show ?thesis by (cases w) (simp_all only: table_output_def lookup_index_def XLEN_def index_entries
     table_of.simps materialize_entry.simps op_mode.simps lookup_index_for.simps evaluate.simps canonical.simps)
next
  case (A_Mul w)
  then show ?thesis by (cases w) (simp_all add: table_output_def lookup_index_def XLEN_def index_entries)
next
  case A_Srl
  then show ?thesis using assms 
    by (simp add: table_output_def lookup_index_def XLEN_def in_domain_def srl_entry_eq)
next
  case A_Sra
  then show ?thesis using assms 
    by (simp add: table_output_def lookup_index_def XLEN_def in_domain_def sra_entry_eq)
next
  case A_Rotr
  then have "trailing_zeros y < 64" using assms by (simp add: in_domain_def shift_mask_def)
  then show ?thesis using assms A_Rotr
    by (simp add: table_output_def lookup_index_def XLEN_def in_domain_def rotr_entry_eq)
qed (simp_all add: table_output_def lookup_index_def XLEN_def index_entries interleaved_entries)

text \<open>C2: The lookup argument's tables compute the instruction set: for every operation, the
  catalogue's entry at the row's lookup index is the operation's reference value, on all
  operands (for the shifts: on the bitmask operands the lowering feeds them).\<close>

theorem table_output_evaluate:
  assumes "in_domain op y"
  shows "table_output op x y = evaluate op x y"
  using assms by (rule table_output_eq)

end
