(* ===== verification/Example_Program.thy ===== *)
theory Example_Program
  imports Row_Check Lookup_Tables
begin

text \<open>
  A concrete program and its run, at which the properties of the machine theories are
  instantiated: it stores a word on the shadow stack, loads it back, asserts that it is the
  word stored, and jumps to the halt trampoline.
\<close>

definition demo_code :: "ir list" where
  "demo_code =
    [Halt,
     ir_const T0 0x90003000,
     Store T0 T0 8,
     Load T1 T0 8,
     Assert A_Eq IntegerOverflow T1 (Op_Reg T0),
     Jump 0]"

definition demo_program :: ir_program where
  "demo_program = \<lparr>p_code = demo_code,
     p_functions = [\<lparr>fn_entry = 1, fn_params = 0, fn_results = 0, fn_frame_slots = 0\<rparr>],
     p_exports = [(''main'', 0)], p_entries = [(''main'', 1)], p_output_words = [(''main'', 0)],
     p_memory = \<lparr>initial_pages = 1, max_pages = 2\<rparr>, p_globals = [], p_data = [], p_table = []\<rparr>"

definition demo_memory :: guest_memory where
  "demo_memory = (case memory_new (p_memory demo_program) [] [] of Some m \<Rightarrow> m)"

definition demo_machine :: machine where
  "demo_machine = \<lparr>m_program = demo_program, m_regs = (\<lambda>_. 0), m_pc = 1, m_memory = demo_memory,
     m_step_limit = 100\<rparr>"

lemma demo_limits: "limits_ok (p_memory demo_program)"
  by (simp add: limits_ok_def demo_program_def MAX_PAGES_def)

lemma demo_memory_new: "memory_new (p_memory demo_program) [] [] = Some demo_memory"
  by (simp add: demo_memory_def memory_new_def Let_def)

lemma demo_memory_invar: "invar_memory demo_memory"
  by (rule memory_new_facts(1) [OF demo_memory_new demo_limits])

lemma demo_locate: "locate demo_memory 0x90003008 = Inr (Word Shadow 8)"
  using demo_memory_invar
  by (simp add: locate_def locate_in_def layout_values word_le_nat_alt SHADOW_STACK_SIZE_def invar_memory_def
      wf_memory_def)

lemma demo_write:
  obtains old mem where "write_word demo_memory 0x90003008 0x90003000 = Inr (old, mem)"
    "read_word mem 0x90003008 = Inr 0x90003000"
proof -
  obtain old mem where w: "write_word demo_memory 0x90003008 0x90003000 = Inr (old, mem)"
    by (simp add: write_word_word [OF demo_locate])
  moreover have "grows demo_memory 0x90003008 0x90003000" by (simp add: grows_def layout_values)
  ultimately show thesis using wm.write_same that by blast
qed

lemma demo_program_simps [simp]:
  "p_code demo_program = demo_code" "m_program demo_machine = demo_program"
  "m_memory demo_machine = demo_memory" "m_pc demo_machine = 1" "m_regs demo_machine = (\<lambda>_. 0)"
  by (simp_all add: demo_program_def demo_machine_def)

lemma run_more:
  "step m = Inr (r, m') \<Longrightarrow> rec_instruction r \<noteq> Halt \<Longrightarrow> run n m' = Inr (rs, m'') \<Longrightarrow>
     run (Suc n) m = Inr (r # rs, m'')"
  by (simp add: map_err_def)

lemma run_halt: "step m = Inr (r, m') \<Longrightarrow> rec_instruction r = Halt \<Longrightarrow> run (Suc n) m = Inr ([r], m')"
  by (simp add: map_err_def)

lemma demo_run:
  obtains r1 r2 r3 r4 r5 r6 m' where "run 10 demo_machine = Inr ([r1, r2, r3, r4, r5, r6], m')"
    "rec_pc r1 = 1" "log_grows (concat (map ram_log [r1, r2, r3, r4, r5, r6]))"
    "ram_log r3 = [(0x90003008, 0x90003000, 0x90003000)]"
proof -
  obtain old mem where w: "write_word demo_memory 0x90003008 0x90003000 = Inr (old, mem)"
    and r: "read_word mem 0x90003008 = Inr 0x90003000"
    by (rule demo_write)
  note at = instruction_at_def nth_opt_def demo_code_def ir_const_def
  let ?m1 = "demo_machine"
  have s1: "instruction_at ?m1 = Some (Alu (A_Add W64) T0 ZERO (Op_Imm 0x90003000))"
    by (simp add: at)
  obtain r1 m2 where st1: "step ?m1 = Inr (r1, m2)" "rec_instruction r1 \<noteq> Halt" "rec_pc r1 = 1"
      "ram_log r1 = []" 
    and m2: "m_program m2 = demo_program" "m_pc m2 = 2" "m_memory m2 = demo_memory"
      "m_regs m2 T0 = 0x90003000"
    by (simp add: step_Alu [OF s1] Let_def ram_log_def set_reg_def)
  have s2: "instruction_at m2 = Some (Store T0 T0 8)" by (simp add: at m2)
  obtain r2 m3 where st2: "step m2 = Inr (r2, m3)" "rec_instruction r2 \<noteq> Halt"
      "ram_log r2 = [(0x90003008, old, 0x90003000)]"
    and m3: "m_program m3 = demo_program" "m_pc m3 = 3" "m_memory m3 = mem"
      "m_regs m3 T0 = 0x90003000"
    by (simp add: step_Store [OF s2] m2 w ram_log_def)
  have s3: "instruction_at m3 = Some (Load T1 T0 8)" by (simp add: at m3)
  obtain r3 m4 where st3: "step m3 = Inr (r3, m4)" "rec_instruction r3 \<noteq> Halt"
      "ram_log r3 = [(0x90003008, 0x90003000, 0x90003000)]"
    and m4: "m_program m4 = demo_program" "m_pc m4 = 4" "m_regs m4 T0 = 0x90003000"
      "m_regs m4 T1 = 0x90003000"
    by (simp add: step_Load [OF s3] m3 r ram_log_def set_reg_def)
  have s4: "instruction_at m4 = Some (Assert A_Eq IntegerOverflow T1 (Op_Reg T0))"
    by (simp add: at m4)
  obtain r4 m5 where st4: "step m4 = Inr (r4, m5)" "rec_instruction r4 \<noteq> Halt" "ram_log r4 = []"
    and m5: "m_program m5 = demo_program" "m_pc m5 = 5"
    by (simp add: step_Assert [OF s4] m4 ram_log_def)
  have s5: "instruction_at m5 = Some (Jump 0)" by (simp add: at m5)
  obtain r5 m6 where st5: "step m5 = Inr (r5, m6)" "rec_instruction r5 \<noteq> Halt" "ram_log r5 = []"
    and m6: "m_program m6 = demo_program" "m_pc m6 = 0"
    by (simp add: step_Jump [OF s5] m5 ram_log_def)
  have s6: "instruction_at m6 = Some Halt" by (simp add: at m6)
  obtain r6 where st6: "step m6 = Inr (r6, m6)" "rec_instruction r6 = Halt" "ram_log r6 = []"
    by (simp add: step_Halt [OF s6] ram_log_def)
  have "run (Suc (Suc (Suc (Suc (Suc (Suc 4)))))) demo_machine = Inr ([r1, r2, r3, r4, r5, r6], m6)"
    by (intro run_more [OF st1(1,2)] run_more [OF st2(1,2)] run_more [OF st3(1,2)]
        run_more [OF st4(1,2)] run_more [OF st5(1,2)] run_halt [OF st6(1,2)])
  moreover have "log_grows (concat (map ram_log [r1, r2, r3, r4, r5, r6]))"
    by (simp add: st1 st2 st3 st4 st5 st6 log_grows_def layout_values)
  ultimately show thesis using that st1(3) st3(3) by (simp add: numeral_eq_Suc)
qed

section \<open>The properties at the example\<close>

lemma demo_at_1: "instruction_at demo_machine = Some (Alu (A_Add W64) T0 ZERO (Op_Imm 0x90003000))"
  by (simp add: instruction_at_def nth_opt_def demo_code_def ir_const_def)

lemma step_implements_isa_witness:
  "bind_res (step demo_machine) (\<lambda>(r, m'). Inr m') =
     Inr (put_state demo_machine (set_reg (\<lambda>_. 0) T0 0x90003000, 2, demo_memory))"
  using step_implements_isa [OF demo_at_1] by (simp add: machine_state_def)

lemma run_trace_contiguous_witness:
  "\<exists>rs m'. run 10 demo_machine = Inr (rs, m') \<and> length rs = 6 \<and> pc_chain rs \<and>
     rec_pc (hd rs) = 1 \<and> rec_instruction (last rs) = Halt"
proof -
  obtain r1 r2 r3 r4 r5 r6 m' where r: "run 10 demo_machine = Inr ([r1, r2, r3, r4, r5, r6], m')"
    by (rule demo_run)
  then show ?thesis using run_trace_contiguous [OF r] by auto
qed

lemma run_register_consistent_witness:
  "\<exists>rs m'. run 10 demo_machine = Inr (rs, m') \<and>
     replay (\<lambda>_. 0) (concat (map register_log rs)) = Some (m_regs m')"
proof -
  obtain r1 r2 r3 r4 r5 r6 m' where r: "run 10 demo_machine = Inr ([r1, r2, r3, r4, r5, r6], m')"
    by (rule demo_run)
  have "m_regs demo_machine ZERO = 0" by simp
  from run_register_consistent [OF r this] show ?thesis using r unfolding demo_program_simps by blast
qed

lemma run_ram_consistent_witness:
  "\<exists>rs m'. run 10 demo_machine = Inr (rs, m') \<and>
     (\<exists>r \<in> set rs. ram_log r = [(0x90003008, 0x90003000, 0x90003000)]) \<and>
     replay (ram_contents demo_memory) (concat (map ram_log rs)) = Some (ram_contents (m_memory m'))"
proof -
  obtain r1 r2 r3 r4 r5 r6 m' where r: "run 10 demo_machine = Inr ([r1, r2, r3, r4, r5, r6], m')"
    and g: "log_grows (concat (map ram_log [r1, r2, r3, r4, r5, r6]))"
    and l: "ram_log r3 = [(0x90003008, 0x90003000, 0x90003000)]"
    by (rule demo_run)
  have inv: "invar_memory (m_memory demo_machine)" using demo_memory_invar by simp
  have "replay (ram_contents demo_memory) (concat (map ram_log [r1, r2, r3, r4, r5, r6])) =
      Some (ram_contents (m_memory m'))"
    using run_ram_consistent [OF r inv g] unfolding demo_program_simps by blast
  moreover have "\<exists>r \<in> set [r1, r2, r3, r4, r5, r6]. ram_log r = [(0x90003008, 0x90003000, 0x90003000)]"
    using l by simp
  ultimately show ?thesis using r by blast
qed

lemma run_bounded_witness: "\<exists>rs m'. run 10 demo_machine = Inr (rs, m') \<and> length rs \<le> 10"
proof -
  obtain r1 r2 r3 r4 r5 r6 m' where r: "run 10 demo_machine = Inr ([r1, r2, r3, r4, r5, r6], m')"
    by (rule demo_run)
  then show ?thesis using run_bounded [OF r] by blast
qed

lemma demo_machine_new: "\<exists>m. machine_new demo_program = Inr m"
  by (simp add: machine_new_def map_err_def demo_memory_new [unfolded demo_program_def, simplified]
      demo_program_def)

lemma machine_new_invar_witness:
  "\<exists>m. machine_new demo_program = Inr m \<and> invar_memory (m_memory m) \<and> m_pc m = HALT_PC"
proof -
  obtain m where m: "machine_new demo_program = Inr m" using demo_machine_new by blast
  then show ?thesis using machine_new_invar [OF m demo_limits] by blast
qed

lemma demo_preprocess: "\<exists>b. preprocess demo_program = Inr b"
  by (simp add: preprocess_def demo_program_def demo_code_def nth_opt_def preprocess_row_def Let_def
      has_simps ir_const_def)

lemma run_records_pass_witness:
  "\<exists>rs m'. run 10 demo_machine = Inr (rs, m') \<and> length rs = 6 \<and>
     (\<forall>r \<in> set rs. check_record r = Inr ())"
proof -
  obtain r1 r2 r3 r4 r5 r6 m' where r: "run 10 demo_machine = Inr ([r1, r2, r3, r4, r5, r6], m')"
    by (rule demo_run)
  obtain b where b: "preprocess demo_program = Inr b" using demo_preprocess by blast
  have z: "\<forall>i \<in> set (p_code demo_program). rs_rd (row_spec_of i) \<noteq> Some ZERO"
    by (simp add: demo_code_def ir_const_def spec_empty_def)
  have "\<forall>r \<in> set [r1, r2, r3, r4, r5, r6]. check_record r = Inr ()"
    by (rule run_records_pass [OF b z _ r]) simp
  then show ?thesis using r by (intro exI [of _ "[r1, r2, r3, r4, r5, r6]"] exI [of _ m']) simp
qed

definition demo_record :: exec_record where
  "demo_record = \<lparr>rec_pc = 1, rec_next_pc = 2,
     rec_instruction = Alu (A_Add W64) T0 ZERO (Op_Imm 0x90003000),
     rec_rs1 = Some \<lparr>rr_register = ZERO, rr_value = 0\<rparr>, rec_rs2 = None,
     rec_rd = Some \<lparr>rw_register = T0, rw_pre_value = 0, rw_post_value = 0x90003000\<rparr>,
     rec_ram = Ram_NoOp\<rparr>"


lemma table_output_evaluate_witness:
  "table_output A_Srl 0xABCD 0xFFFFFFFFFFFFFFF0 = 0xABC"
proof -
  have m: "shift_right_bitmask 4 = 0xFFFFFFFFFFFFFFF0" by (simp add: shift_right_bitmask_def)
  have "shift_mask 0xFFFFFFFFFFFFFFF0 4" using shift_right_bitmask_mask [of 4] m by simp
  then have "trailing_zeros 0xFFFFFFFFFFFFFFF0 = 4" "in_domain A_Srl 0xFFFFFFFFFFFFFFF0"
    by (simp_all add: shift_mask_trailing in_domain_def)
  then show ?thesis using table_output_evaluate [of A_Srl "0xFFFFFFFFFFFFFFF0" "0xABCD"] by simp
qed

lemma lb_split_parts_witness:
  "case lb_split (lb_new 0xD6 8) 3 of (p, s) \<Rightarrow>
    lb_len p + lb_len s = 8 \<and> push_bit 3 (lb_as_u128 p) OR lb_as_u128 s = 0xD6"
  using lb_split_parts [of "lb_new 0xD6 8" 3] by (simp add: lb_as_u128_new)

end
