(* ===== verification/Wasm_Source.thy ===== *)
theory Wasm_Source
  imports Layout Wasm_Ir
begin

text \<open>
  \<^verbatim>\<open>jolt-wasm-frontend/src/source.rs\<close>, \<^verbatim>\<open>module.rs\<close> and \<^verbatim>\<open>error.rs\<close>: the source operators
  of the supported integer core, the decoded module and the errors of the lowering. The
  decoder itself reads a third-party parser's types and is not modelled; a decoded module is
  the input of the lowering. The constructors of an enum share a prefix.
\<close>

section \<open>source.rs\<close>

datatype val_type = I32 | I64

fun val_width :: "val_type \<Rightarrow> width" where
  "val_width I32 = W32"
| "val_width I64 = W64"

datatype unary_op = U_Clz | U_Ctz | U_Popcnt | U_Eqz | U_Extend8S | U_Extend16S | U_Extend32S

datatype binary_op =
    B_Add | B_Sub | B_Mul | B_DivS | B_DivU | B_RemS | B_RemU
  | B_And | B_Or | B_Xor | B_Shl | B_ShrS | B_ShrU | B_Rotl | B_Rotr
  | B_Eq | B_Ne | B_LtS | B_LtU | B_GtS | B_GtU | B_LeS | B_LeU | B_GeS | B_GeU

datatype convert_op = WrapI64 | ExtendI32S | ExtendI32U

datatype mem_width = B1 | B2 | B4 | B8

fun mem_bytes :: "mem_width \<Rightarrow> u8" where
  "mem_bytes B1 = 1"
| "mem_bytes B2 = 2"
| "mem_bytes B4 = 4"
| "mem_bytes B8 = 8"

fun mem_mask :: "mem_width \<Rightarrow> u64" where
  "mem_mask B1 = 0xFF"
| "mem_mask B2 = 0xFFFF"
| "mem_mask B4 = 0xFFFFFFFF"
| "mem_mask B8 = 0xFFFFFFFFFFFFFFFF"

record block_sig =
  bs_params :: u32
  bs_results :: u32

datatype wasm_op =
    W_Unreachable
  | W_Nop
  | W_Block block_sig
  | W_Loop block_sig
  | W_If block_sig
  | W_Else
  | W_End
  | W_Br u32
  | W_BrIf u32
  | W_BrTable "u32 list" u32
  | W_Return
  | W_Call u32
  | W_CallIndirect u32
  | W_Drop
  | W_Select
  | W_LocalGet u32
  | W_LocalSet u32
  | W_LocalTee u32
  | W_GlobalGet u32
  | W_GlobalSet u32
  | W_Load val_type mem_width bool u64
  | W_Store val_type mem_width u64
  | W_MemorySize
  | W_MemoryGrow
  | W_Const val_type u64
  | W_Unary width unary_op
  | W_Binary width binary_op
  | W_Convert convert_op

section \<open>module.rs\<close>

record func_type =
  ft_params :: "val_type list"
  ft_results :: "val_type list"

record source_op =
  so_op :: wasm_op
  so_height :: u32

record wasm_function =
  wf_type_index :: u32
  wf_locals :: "val_type list"
  wf_body :: "source_op list"
  wf_max_height :: u32

record wasm_global =
  wg_ty :: val_type
  wg_mutable :: bool
  wg_init :: u64

record memory_decl =
  md_initial_pages :: u64
  md_max_pages :: "u64 option"

record table_decl =
  td_initial :: u64
  td_maximum :: "u64 option"

record element_segment =
  es_offset :: u64
  es_functions :: "u32 option list"

record wasm_module =
  wm_types :: "func_type list"
  wm_functions :: "wasm_function list"
  wm_globals :: "wasm_global list"
  wm_memory :: "memory_decl option"
  wm_data :: "data_segment list"
  wm_table :: "table_decl option"
  wm_elements :: "element_segment list"
  wm_memory_outputs :: "(string \<times> u32) list"
  wm_exports :: "(string \<times> u32) list"
  wm_start :: "u32 option"

text \<open>\<^verbatim>\<open>func_type\<close>, whose two errors the lowering does not tell apart.\<close>

definition module_func_type :: "wasm_module \<Rightarrow> u32 \<Rightarrow> func_type option" where
  "module_func_type m f =
     Option.bind (nth_opt (wm_functions m) (unat f)) (\<lambda>fn.
     nth_opt (wm_types m) (unat (wf_type_index fn)))"

section \<open>error.rs\<close>

text \<open>\<open>LowerPanic\<close> is an index out of range.\<close>

datatype lower_error =
    FrameTooLarge u32 nat nat
  | TooManyResults u32 nat nat
  | LowerProgramTooLarge nat
  | FunctionIndex u32
  | LabelDepth u32
  | MalformedControl u32
  | MemoryTooLarge u64 u64
  | TableTooLarge u64 u64
  | TooManyOutputs string u32 u64
  | OutputsNeedPointer string
  | LowerPanic

end
