(* ===== verification/Lower_Emit.thy ===== *)
theory Lower_Emit
  imports Wasm_Source
begin

text \<open>
  \<^verbatim>\<open>jolt-wasm-frontend/src/lower.rs\<close>, the instruction selector: the emitter and the
  per-function state, the helpers that append rows, and the expansion of every source operator
  into rows. \<open>'a em\<close> is a method of the emitter that may fail; \<open>em_bind\<close> sequences
  two, as \<^verbatim>\<open>?;\<close> does. Heights and slots are 32-bit and wrap.
\<close>

section \<open>State\<close>

datatype outputs = Out_Results | Out_Memory u32

datatype callee = Callee_Direct u32 | Callee_Indirect u32 reg

record signature =
  sg_id :: u32
  sg_params :: u32
  sg_results :: u32
  sg_locals :: u32
  sg_frame_slots :: nat

datatype label_kind = LK_Block | LK_Loop pc | LK_If pc | LK_Else

record label =
  lb_kind :: label_kind
  lb_base :: u32
  lb_sig :: block_sig
  lb_fixups :: "pc list"

definition label_arity :: "label \<Rightarrow> u32" where
  "label_arity l = (case lb_kind l of LK_Loop _ \<Rightarrow> bs_params (lb_sig l) | _ \<Rightarrow> bs_results (lb_sig l))"

record cold_block =
  cb_entry_fixup :: pc
  cb_rows :: "ir list"
  cb_rejoin :: pc

record emitter =
  em_code :: "ir list"
  em_call_fixups :: "(pc \<times> u32) list"
  em_cold :: "cold_block list"
  em_signatures :: "signature list"
  em_type_signatures :: "signature list"
  em_table_slots :: u64
  em_max_memory_bytes :: u64

datatype pending = Pending_Local u32 | Pending_Const u64

record function_ctx =
  fc_index :: u32
  fc_sig :: signature
  fc_labels :: "label list"
  fc_pending :: "pending option list"

type_synonym 'a em = "emitter \<Rightarrow> lower_error + ('a \<times> emitter)"

definition em_return :: "'a \<Rightarrow> 'a em" where
  "em_return x e = Inr (x, e)"

definition em_bind :: "'a em \<Rightarrow> ('a \<Rightarrow> 'b em) \<Rightarrow> 'b em" where
  "em_bind m f e = bind_res (m e) (\<lambda>(x, e'). f x e')"

definition em_then :: "'a em \<Rightarrow> 'b em \<Rightarrow> 'b em" where
  "em_then m n = em_bind m (\<lambda>_. n)"

definition em_lift :: "lower_error + 'a \<Rightarrow> 'a em" where
  "em_lift r e = bind_res r (\<lambda>x. Inr (x, e))"

fun em_each :: "('b \<Rightarrow> unit em) \<Rightarrow> 'b list \<Rightarrow> unit em" where
  "em_each f [] = em_return ()"
| "em_each f (x # xs) = em_then (f x) (em_each f xs)"

lemma em_return_apply [simp]: "em_return x e = Inr (x, e)"
  by (simp add: em_return_def)

lemma em_bind_apply [simp]: "em_bind m f e = bind_res (m e) (\<lambda>(x, e'). f x e')"
  by (simp add: em_bind_def)

lemma em_then_apply [simp]: "em_then m n e = bind_res (m e) (\<lambda>(_, e'). n e')"
  by (simp add: em_then_def)

lemma em_lift_apply [simp]: "em_lift r e = bind_res r (\<lambda>x. Inr (x, e))"
  by (simp add: em_lift_def)

text \<open>The range \<^verbatim>\<open>a..b\<close> of 32-bit integers.\<close>

definition u32_range :: "u32 \<Rightarrow> u32 \<Rightarrow> u32 list" where
  "u32_range a b = map of_nat [unat a..<unat b]"

section \<open>The function context\<close>

definition ctx_slot :: "function_ctx \<Rightarrow> u32 \<Rightarrow> lower_error + reg" where
  "ctx_slot ctx slot =
     ok_or (frame_slot (unat slot)) (FrameTooLarge (fc_index ctx) (unat slot + 1) MAX_FRAME_SLOTS)"

definition ctx_stack :: "function_ctx \<Rightarrow> u32 \<Rightarrow> lower_error + reg" where
  "ctx_stack ctx depth = ctx_slot ctx (sg_locals (fc_sig ctx) + depth)"

definition take_pending :: "function_ctx \<Rightarrow> u32 \<Rightarrow> pending option \<times> function_ctx" where
  "take_pending ctx depth =
     (case nth_opt (fc_pending ctx) (unat depth) of
        None \<Rightarrow> (None, ctx)
      | Some p \<Rightarrow> (p, ctx\<lparr>fc_pending := (fc_pending ctx)[unat depth := None]\<rparr>))"

definition set_pending :: "function_ctx \<Rightarrow> u32 \<Rightarrow> pending \<Rightarrow> function_ctx" where
  "set_pending ctx depth v =
     (let d = unat depth;
          ps = (if length (fc_pending ctx) \<le> d then resize (fc_pending ctx) (d + 1) None
                else fc_pending ctx) in
      ctx\<lparr>fc_pending := ps[d := Some v]\<rparr>)"

text \<open>The innermost label is last; depth 0 names it.\<close>

definition ctx_label :: "function_ctx \<Rightarrow> u32 \<Rightarrow> lower_error + label" where
  "ctx_label ctx depth =
     (let n = length (fc_labels ctx); d = unat depth + 1 in
      if d \<le> n then ok_or (nth_opt (fc_labels ctx) (n - d)) (LabelDepth depth)
      else Inl (LabelDepth depth))"

section \<open>Rows\<close>

abbreviation (input) op_reg :: "reg \<Rightarrow> operand" where "op_reg \<equiv> Op_Reg"
abbreviation (input) op_imm :: "u64 \<Rightarrow> operand" where "op_imm \<equiv> Op_Imm"

definition row_load :: "reg \<Rightarrow> reg \<Rightarrow> u64 \<Rightarrow> ir" where
  "row_load rd base offset = Load rd base offset"

definition row_store :: "reg \<Rightarrow> reg \<Rightarrow> u64 \<Rightarrow> ir" where
  "row_store base v offset = Store base v offset"

definition add64 :: "reg \<Rightarrow> reg \<Rightarrow> operand \<Rightarrow> ir" where
  "add64 rd rs1 rs2 = ir_alu (A_Add W64) rd rs1 rs2"

definition mul64 :: "reg \<Rightarrow> reg \<Rightarrow> operand \<Rightarrow> ir" where
  "mul64 rd rs1 rs2 = ir_alu (A_Mul W64) rd rs1 rs2"

definition row_assert :: "alu_op \<Rightarrow> assert_failure \<Rightarrow> reg \<Rightarrow> operand \<Rightarrow> ir" where
  "row_assert op failure rs1 rs2 = Assert op failure rs1 rs2"

lemmas [row_ctors] = row_load_def row_store_def add64_def mul64_def row_assert_def

definition CELLS_PER_BYTE :: u64 where "CELLS_PER_BYTE = LINEAR_CELL_BYTES div WASM_WORD_BYTES"
definition LANE_MASK :: u64 where "LANE_MASK = LINEAR_CELL_BYTES - CELLS_PER_BYTE"
definition SHIFT_PER_LANE :: u64 where "SHIFT_PER_LANE = 8 div CELLS_PER_BYTE"
definition WASM_WORD_MASK :: u64 where
  "WASM_WORD_MASK = push_bit (8 * unat WASM_WORD_BYTES) 1 - 1"

lemma lane_constants [simp]:
  "CELLS_PER_BYTE = 2" "LANE_MASK = 6" "SHIFT_PER_LANE = 4" "WASM_WORD_MASK = 0xFFFFFFFF"
  by (simp_all add: CELLS_PER_BYTE_def LANE_MASK_def SHIFT_PER_LANE_def WASM_WORD_MASK_def
      LINEAR_CELL_BYTES_def WASM_WORD_BYTES_def)

fun limit_reg :: "mem_width \<Rightarrow> reg" where
  "limit_reg B1 = LIMIT_B"
| "limit_reg B2 = LIMIT_H"
| "limit_reg B4 = LIMIT_W"
| "limit_reg B8 = LIMIT_D"

definition sign_extend_rows :: "width \<Rightarrow> reg \<Rightarrow> reg \<Rightarrow> u64 \<Rightarrow> ir list" where
  "sign_extend_rows w rd rs bits =
     (let up = 64 - bits;
          (target, canonicalize) = (case w of W64 \<Rightarrow> (rd, False) | W32 \<Rightarrow> (T0, True)) in
      [mul64 target rs (op_imm (push_bit (unat up) 1)),
       ir_alu_imm A_Sra target target (shift_right_bitmask up)] @
      (if canonicalize then [ir_alu_imm A_LowerHalfWord rd target 0] else []))"

definition narrow_rows :: "reg \<Rightarrow> reg \<Rightarrow> mem_width \<Rightarrow> bool \<Rightarrow> width \<Rightarrow> ir list" where
  "narrow_rows rd rs w signd result =
     (case (w, signd) of
        (B8, _) \<Rightarrow> [ir_mov rd rs]
      | (_, False) \<Rightarrow> [ir_alu_imm A_And rd rs (mem_mask w)]
      | (B1, True) \<Rightarrow> sign_extend_rows result rd rs 8
      | (B2, True) \<Rightarrow> sign_extend_rows result rd rs 16
      | (B4, True) \<Rightarrow>
          (case result of
             W64 \<Rightarrow> [ir_alu_imm A_SignExtendWord rd rs 0]
           | W32 \<Rightarrow> [ir_alu_imm A_And rd rs (mem_mask w)]))"

fun signed_overflow_pair :: "width \<Rightarrow> u64 \<times> u64" where
  "signed_overflow_pair W32 = (0x80000000, 0xFFFFFFFF)"
| "signed_overflow_pair W64 = (push_bit 63 1, 0xFFFFFFFFFFFFFFFF)"

section \<open>Emitting rows\<close>

definition em_pc :: "pc em" where
  "em_pc e = (if length (em_code e) < 2 ^ 32 then Inr (of_nat (length (em_code e)), e)
              else Inl (LowerProgramTooLarge 32))"

definition emit :: "ir \<Rightarrow> pc em" where
  "emit i = em_bind em_pc (\<lambda>pc. \<lambda>e. Inr (pc, e\<lparr>em_code := em_code e @ [i]\<rparr>))"

definition emit_all :: "ir list \<Rightarrow> unit em" where
  "emit_all irs = em_each (\<lambda>i. em_then (emit i) (em_return ())) irs"

fun set_target :: "ir \<Rightarrow> pc \<Rightarrow> ir" where
  "set_target (Jump target) new_target = Jump new_target"
| "set_target (Branch op a b target) new_target = Branch op a b new_target"
| "set_target (Alu op rd a (Op_Imm imm)) new_target = Alu op rd a (Op_Imm (ucast new_target))"
| "set_target i new_target = i"

definition patch :: "pc \<Rightarrow> pc \<Rightarrow> unit em" where
  "patch pc target e =
     (if unat pc < length (em_code e)
      then Inr ((), e\<lparr>em_code := (em_code e)[unat pc := set_target (em_code e ! unat pc) target]\<rparr>)
      else Inl LowerPanic)"

definition materialize :: "function_ctx \<Rightarrow> u32 \<Rightarrow> pending \<Rightarrow> unit em" where
  "materialize ctx depth v =
     em_bind (em_lift (ctx_stack ctx depth)) (\<lambda>rd.
     case v of
       Pending_Local local \<Rightarrow>
         em_bind (em_lift (ctx_slot ctx local)) (\<lambda>rs. emit_all [ir_mov rd rs])
     | Pending_Const imm \<Rightarrow> emit_all [ir_const rd imm])"

text \<open>The two loops over the pending slots, from a depth on.\<close>

fun materialize_from :: "nat \<Rightarrow> nat \<Rightarrow> function_ctx \<Rightarrow> function_ctx em" where
  "materialize_from 0 depth ctx = em_return ctx"
| "materialize_from (Suc n) depth ctx =
     (case fc_pending ctx ! depth of
        Some v \<Rightarrow>
          em_then (materialize (ctx\<lparr>fc_pending := (fc_pending ctx)[depth := None]\<rparr>) (of_nat depth) v)
            (materialize_from n (Suc depth) (ctx\<lparr>fc_pending := (fc_pending ctx)[depth := None]\<rparr>))
      | None \<Rightarrow> materialize_from n (Suc depth) ctx)"

definition materialize_all :: "function_ctx \<Rightarrow> function_ctx em" where
  "materialize_all ctx = materialize_from (length (fc_pending ctx)) 0 ctx"

fun materialize_local_from :: "u32 \<Rightarrow> nat \<Rightarrow> nat \<Rightarrow> function_ctx \<Rightarrow> function_ctx em" where
  "materialize_local_from local 0 depth ctx = em_return ctx"
| "materialize_local_from local (Suc n) depth ctx =
     (if fc_pending ctx ! depth = Some (Pending_Local local)
      then
        em_then
          (materialize (ctx\<lparr>fc_pending := (fc_pending ctx)[depth := None]\<rparr>) (of_nat depth)
            (Pending_Local local))
          (materialize_local_from local n (Suc depth)
            (ctx\<lparr>fc_pending := (fc_pending ctx)[depth := None]\<rparr>))
      else materialize_local_from local n (Suc depth) ctx)"

definition materialize_local :: "function_ctx \<Rightarrow> u32 \<Rightarrow> function_ctx em" where
  "materialize_local ctx local = materialize_local_from local (length (fc_pending ctx)) 0 ctx"

definition em_src :: "function_ctx \<Rightarrow> u32 \<Rightarrow> (reg \<times> function_ctx) em" where
  "em_src ctx depth =
     (case take_pending ctx depth of (p, ctx') \<Rightarrow>
        (case p of
           Some (Pending_Local local) \<Rightarrow>
             em_bind (em_lift (ctx_slot ctx' local)) (\<lambda>r. em_return (r, ctx'))
         | Some (Pending_Const c) \<Rightarrow>
             em_then (materialize ctx' depth (Pending_Const c))
               (em_bind (em_lift (ctx_stack ctx' depth)) (\<lambda>r. em_return (r, ctx')))
         | None \<Rightarrow> em_bind (em_lift (ctx_stack ctx' depth)) (\<lambda>r. em_return (r, ctx'))))"

definition src_operand :: "function_ctx \<Rightarrow> u32 \<Rightarrow> (operand \<times> function_ctx) em" where
  "src_operand ctx depth =
     (case take_pending ctx depth of (p, ctx') \<Rightarrow>
        (case p of
           Some (Pending_Const imm) \<Rightarrow> em_return (Op_Imm imm, ctx')
         | Some (Pending_Local local) \<Rightarrow>
             em_bind (em_lift (ctx_slot ctx' local)) (\<lambda>r. em_return (Op_Reg r, ctx'))
         | None \<Rightarrow> em_bind (em_lift (ctx_stack ctx' depth)) (\<lambda>r. em_return (Op_Reg r, ctx'))))"

definition em_dest ::
  "function_ctx \<Rightarrow> u32 \<Rightarrow> wasm_op option \<Rightarrow> ((reg \<times> bool) \<times> function_ctx) em"
where
  "em_dest ctx depth next_op =
     (case next_op of
        Some (W_LocalSet local) \<Rightarrow>
          em_bind (materialize_local ctx local) (\<lambda>ctx'.
          em_bind (em_lift (ctx_slot ctx' local)) (\<lambda>r. em_return ((r, True), ctx')))
      | Some (W_LocalTee local) \<Rightarrow>
          em_bind (materialize_local ctx local) (\<lambda>ctx'.
          let ctx'' = set_pending ctx' depth (Pending_Local local) in
          em_bind (em_lift (ctx_slot ctx'' local)) (\<lambda>r. em_return ((r, True), ctx'')))
      | _ \<Rightarrow> em_bind (em_lift (ctx_stack ctx depth)) (\<lambda>r. em_return ((r, False), ctx)))"

end
