(* ===== verification/Lower_Expand.thy ===== *)
theory Lower_Expand
  imports Lower_Emit
begin

text \<open>
  \<^verbatim>\<open>jolt-wasm-frontend/src/lower.rs\<close>, the expansions: the rows of a source operator that
  has no table of its own, of a linear-memory access of any width and alignment, and of
  \<^verbatim>\<open>memory.grow\<close>.
\<close>

section \<open>Binary operators\<close>

definition emit_shift_bitmask :: "width \<Rightarrow> reg \<Rightarrow> unit em" where
  "emit_shift_bitmask w b =
     em_bind
       (case w of
          W64 \<Rightarrow> em_return b
        | W32 \<Rightarrow> em_then (emit (ir_alu_imm A_And T0 b 31)) (em_return T0)) (\<lambda>count.
     em_then (emit (ir_alu_imm A_ShiftRightBitmask T0 count 0)) (em_return ()))"

definition emit_rotr :: "width \<Rightarrow> reg \<Rightarrow> reg \<Rightarrow> reg \<Rightarrow> unit em" where
  "emit_rotr w rd a b =
     (case w of
        W64 \<Rightarrow>
          em_then (emit_shift_bitmask w b)
            (emit_all [ir_alu A_Rotr rd a (op_reg T0)])
      | W32 \<Rightarrow>
          em_then (emit_all [mul64 T2 a (op_imm (push_bit 32 1)), ir_alu A_Or T2 T2 (op_reg a)])
         (em_then (emit_shift_bitmask w b)
            (emit_all [ir_alu A_Srl T2 T2 (op_reg T0), ir_alu_imm A_LowerHalfWord rd T2 0])))"

definition emit_assert_nonzero :: "reg \<Rightarrow> unit em" where
  "emit_assert_nonzero b = emit_all [row_assert A_Ne DivideByZero b (op_imm 0)]"

definition emit_unsigned_divmod :: "width \<Rightarrow> reg \<Rightarrow> reg \<Rightarrow> unit em" where
  "emit_unsigned_divmod w a b =
     em_then (emit (Advice QuotientU T3 a b))
    (em_then
       (if w = W64
        then em_then (emit (row_assert A_MulUNoOverflow IntegerOverflow T3 (op_reg b))) (em_return ())
        else em_return ())
       (emit_all
         [mul64 T2 T3 (op_reg b),
          row_assert A_LeU IntegerOverflow T2 (op_reg a),
          ir_alu (A_Sub W64) T4 a (op_reg T2),
          row_assert A_LtU IntegerOverflow T4 (op_reg b)]))"

text \<open>The closure \<^verbatim>\<open>widen\<close> of the signed division.\<close>

definition widen_row :: "width \<Rightarrow> reg \<Rightarrow> reg \<Rightarrow> ir" where
  "widen_row w rd rs = (case w of W64 \<Rightarrow> ir_mov rd rs | W32 \<Rightarrow> ir_alu_imm A_SignExtendWord rd rs 0)"

definition emit_signed_divmod :: "width \<Rightarrow> binary_op \<Rightarrow> reg \<Rightarrow> reg \<Rightarrow> reg \<Rightarrow> unit em" where
  "emit_signed_divmod w op rd a b =
     em_then (emit_assert_nonzero b)
    (em_then
       (if op = B_DivS
        then (case signed_overflow_pair w of (min_val, neg_one) \<Rightarrow>
          emit_all
            [ir_alu_imm A_Eq T2 a min_val,
             ir_alu_imm A_Eq T4 b neg_one,
             ir_alu A_And T2 T2 (op_reg T4),
             row_assert A_Eq IntegerOverflow T2 (op_imm 0)])
        else em_return ())
    (em_then
       (emit_all
         [widen_row w T0 a,
          ir_alu A_NegateIf T0 T0 (op_reg T0),
          widen_row w T1 b,
          ir_alu A_NegateIf T1 T1 (op_reg T1)])
    (em_then (emit_unsigned_divmod W64 T0 T1)
    (em_bind
       (if op = B_DivS
        then em_then (emit (ir_alu A_Xor T2 a (op_reg b))) (em_return (T2, T3))
        else em_return (a, T4)) (\<lambda>(sign_source, magnitude).
     em_then (emit (widen_row w T2 sign_source))
       (let (target, canonicalize) = (case w of W64 \<Rightarrow> (rd, False) | W32 \<Rightarrow> (T2, True)) in
        em_then (emit (ir_alu A_NegateIf target T2 (op_reg magnitude)))
          (if canonicalize
           then em_then (emit (ir_alu_imm A_LowerHalfWord rd T2 0)) (em_return ())
           else em_return ())))))))"

text \<open>The single-row operators: the first \<^verbatim>\<open>match\<close> of \<^verbatim>\<open>emit_binary\<close>.\<close>

fun direct_op :: "width \<Rightarrow> binary_op \<Rightarrow> alu_op option" where
  "direct_op w B_Add = Some (A_Add w)"
| "direct_op w B_Sub = Some (A_Sub w)"
| "direct_op w B_Mul = Some (A_Mul w)"
| "direct_op w B_And = Some A_And"
| "direct_op w B_Or = Some A_Or"
| "direct_op w B_Xor = Some A_Xor"
| "direct_op w B_Eq = Some A_Eq"
| "direct_op w B_Ne = Some A_Ne"
| "direct_op w B_LtU = Some A_LtU"
| "direct_op w B_LeU = Some A_LeU"
| "direct_op w B_GeU = Some A_GeU"
| "direct_op w _ = None"

text \<open>The signed comparisons: the table and whether the operands are swapped.\<close>

fun signed_compare :: "binary_op \<Rightarrow> alu_op \<times> bool" where
  "signed_compare B_LtS = (A_LtS, False)"
| "signed_compare B_GtS = (A_LtS, True)"
| "signed_compare B_GeS = (A_GeS, False)"
| "signed_compare _ = (A_GeS, True)"

definition emit_signed_compare :: "width \<Rightarrow> binary_op \<Rightarrow> reg \<Rightarrow> reg \<Rightarrow> reg \<Rightarrow> unit em" where
  "emit_signed_compare w op rd a b =
     (case signed_compare op of (table, swap) \<Rightarrow>
        em_bind
          (case w of
             W64 \<Rightarrow> em_return (a, b)
           | W32 \<Rightarrow>
               em_then (emit_all [ir_alu_imm A_SignExtendWord T0 a 0, ir_alu_imm A_SignExtendWord T1 b 0])
                 (em_return (T0, T1))) (\<lambda>(x, y).
        let (x', y') = (if swap then (y, x) else (x, y)) in
        emit_all [ir_alu table rd x' (op_reg y')]))"

definition emit_shl :: "width \<Rightarrow> reg \<Rightarrow> reg \<Rightarrow> reg \<Rightarrow> unit em" where
  "emit_shl w rd a b =
     (case w of
        W64 \<Rightarrow> emit_all [ir_alu_imm A_Pow2 T0 b 0, ir_alu (A_Mul W64) rd a (op_reg T0)]
      | W32 \<Rightarrow>
          emit_all
            [ir_alu_imm A_And T0 b 31,
             ir_alu_imm A_Pow2 T0 T0 0,
             ir_alu (A_Mul W32) rd a (op_reg T0)])"

definition emit_shr_s :: "width \<Rightarrow> reg \<Rightarrow> reg \<Rightarrow> reg \<Rightarrow> unit em" where
  "emit_shr_s w rd a b =
     (case w of
        W64 \<Rightarrow> em_then (emit_shift_bitmask w b) (emit_all [ir_alu A_Sra rd a (op_reg T0)])
      | W32 \<Rightarrow>
          em_then (emit_shift_bitmask w b)
            (emit_all
              [ir_alu_imm A_SignExtendWord T1 a 0,
               ir_alu A_Sra T1 T1 (op_reg T0),
               ir_alu_imm A_LowerHalfWord rd T1 0]))"

text \<open>The second \<^verbatim>\<open>match\<close> of \<^verbatim>\<open>emit_binary\<close>: the operators that read \<open>b\<close> as a register.\<close>

definition emit_binary_reg :: "width \<Rightarrow> binary_op \<Rightarrow> reg \<Rightarrow> reg \<Rightarrow> reg \<Rightarrow> unit em" where
  "emit_binary_reg w op rd a b =
     (case op of
        B_GtU \<Rightarrow> emit_all [ir_alu A_LtU rd b (op_reg a)]
      | B_LtS \<Rightarrow> emit_signed_compare w op rd a b
      | B_GtS \<Rightarrow> emit_signed_compare w op rd a b
      | B_LeS \<Rightarrow> emit_signed_compare w op rd a b
      | B_GeS \<Rightarrow> emit_signed_compare w op rd a b
      | B_Shl \<Rightarrow> emit_shl w rd a b
      | B_ShrU \<Rightarrow> em_then (emit_shift_bitmask w b) (emit_all [ir_alu A_Srl rd a (op_reg T0)])
      | B_ShrS \<Rightarrow> emit_shr_s w rd a b
      | B_Rotr \<Rightarrow> emit_rotr w rd a b
      | B_Rotl \<Rightarrow>
          em_then (emit (ir_alu (A_Sub W64) T1 ZERO (op_reg b))) (emit_rotr w rd a T1)
      | B_DivU \<Rightarrow>
          em_then (emit_assert_nonzero b)
            (em_then (emit_unsigned_divmod w a b) (emit_all [ir_mov rd T3]))
      | B_RemU \<Rightarrow>
          em_then (emit_assert_nonzero b)
            (em_then (emit_unsigned_divmod w a b) (emit_all [ir_mov rd T4]))
      | B_DivS \<Rightarrow> emit_signed_divmod w op rd a b
      | B_RemS \<Rightarrow> emit_signed_divmod w op rd a b
      | _ \<Rightarrow> em_lift (Inl LowerPanic))"

definition emit_binary :: "width \<Rightarrow> binary_op \<Rightarrow> reg \<Rightarrow> reg \<Rightarrow> operand \<Rightarrow> unit em" where
  "emit_binary w op rd a b =
     (case direct_op w op of
        Some alu \<Rightarrow> emit_all [ir_alu alu rd a b]
      | None \<Rightarrow>
          em_bind
            (case b of
               Op_Reg r \<Rightarrow> em_return r
             | Op_Imm imm \<Rightarrow> em_then (emit (ir_const T0 imm)) (em_return T0)) (\<lambda>r.
          emit_binary_reg w op rd a r))"

definition binary_takes_immediate :: "binary_op \<Rightarrow> bool" where
  "binary_takes_immediate op \<longleftrightarrow>
     op \<in> {B_Add, B_Sub, B_Mul, B_And, B_Or, B_Xor, B_Eq, B_Ne, B_LtU, B_LeU, B_GeU}"

section \<open>Unary operators and conversions\<close>

definition emit_sign_extend :: "width \<Rightarrow> reg \<Rightarrow> reg \<Rightarrow> u64 \<Rightarrow> unit em" where
  "emit_sign_extend w rd rs bits = emit_all (sign_extend_rows w rd rs bits)"

definition emit_unary :: "width \<Rightarrow> unary_op \<Rightarrow> reg \<Rightarrow> reg \<Rightarrow> unit em" where
  "emit_unary w op rd a =
     (case (op, w) of
        (U_Eqz, _) \<Rightarrow> emit_all [ir_alu_imm A_Eq rd a 0]
      | (U_Popcnt, _) \<Rightarrow> emit_all [ir_alu_imm A_Popcnt rd a 0]
      | (U_Clz, W64) \<Rightarrow> emit_all [ir_alu_imm A_Clz rd a 0]
      | (U_Clz, W32) \<Rightarrow> emit_all [ir_alu_imm A_Clz T0 a 0, ir_alu_imm (A_Sub W64) rd T0 32]
      | (U_Ctz, W64) \<Rightarrow> emit_all [ir_alu_imm A_Ctz rd a 0]
      | (U_Ctz, W32) \<Rightarrow> emit_all [ir_alu_imm A_Or T0 a (push_bit 32 1), ir_alu_imm A_Ctz rd T0 0]
      | (U_Extend8S, _) \<Rightarrow> emit_sign_extend w rd a 8
      | (U_Extend16S, _) \<Rightarrow> emit_sign_extend w rd a 16
      | (U_Extend32S, _) \<Rightarrow> emit_all [ir_alu_imm A_SignExtendWord rd a 0])"

text \<open>The row of a conversion (the inner \<^verbatim>\<open>match\<close> of the operator's case).\<close>

fun convert_row :: "convert_op \<Rightarrow> reg \<Rightarrow> reg \<Rightarrow> ir" where
  "convert_row WrapI64 rd a = ir_alu_imm A_And rd a 0xFFFFFFFF"
| "convert_row ExtendI32S rd a = ir_alu_imm A_SignExtendWord rd a 0"
| "convert_row ExtendI32U rd a = ir_mov rd a"

section \<open>Linear memory\<close>

definition add_cold :: "pc \<Rightarrow> ir list \<Rightarrow> unit em" where
  "add_cold entry_fixup rows =
     em_bind em_pc (\<lambda>rejoin. \<lambda>e.
       Inr ((), e\<lparr>em_cold := em_cold e @
         [\<lparr>cb_entry_fixup = entry_fixup, cb_rows = rows, cb_rejoin = rejoin\<rparr>]\<rparr>))"

definition flush_block :: "cold_block \<Rightarrow> unit em" where
  "flush_block block =
     em_bind em_pc (\<lambda>start.
     em_then (patch (cb_entry_fixup block) start)
    (em_then (emit_all (cb_rows block))
    (em_then (emit (Jump (cb_rejoin block))) (em_return ()))))"

definition flush_cold :: "unit em" where
  "flush_cold e = em_each flush_block (em_cold e) (e\<lparr>em_cold := []\<rparr>)"

definition emit_limits :: "reg \<Rightarrow> unit em" where
  "emit_limits size_in =
     em_then (emit (mul64 T2 size_in (op_imm CELLS_PER_BYTE)))
       (em_each (\<lambda>w.
          em_then (emit (add64 (limit_reg w) T2
            (op_imm (linear_address 0 - CELLS_PER_BYTE * ucast (mem_bytes w) + 1))))
          (em_return ())) [B1, B2, B4, B8])"

definition emit_memory_grow :: "reg \<Rightarrow> reg \<Rightarrow> unit em" where
  "emit_memory_grow rd rs =
     em_then (\<lambda>e. emit_all
       [row_load T0 ZERO MEMORY_SIZE_ADDR,
        mul64 T1 rs (op_imm PAGE_SIZE),
        add64 T1 T0 (op_reg T1),
        ir_alu_imm A_LeU T2 T1 (em_max_memory_bytes e)] e)
    (em_bind (emit (ir_branch_if_zero T2 0)) (\<lambda>fail.
     em_then (emit (row_store ZERO T1 MEMORY_SIZE_ADDR))
    (em_then (emit_limits T1)
    (em_then (emit (ir_alu_imm A_Srl rd T0 (shift_right_bitmask 16)))
    (em_bind (emit (Jump 0)) (\<lambda>done_pc.
     em_bind em_pc (\<lambda>fail_pc.
     em_then (patch fail fail_pc)
    (em_then (emit (ir_const rd 0xFFFFFFFF))
    (em_bind em_pc (\<lambda>end_pc. patch done_pc end_pc))))))))))"

definition emit_address :: "reg \<Rightarrow> u64 \<Rightarrow> mem_width \<Rightarrow> unit em" where
  "emit_address addr offset w = emit_all
     [add64 T0 addr (op_reg addr),
      add64 T0 T0 (op_imm (linear_address offset)),
      row_assert A_LtU (OutOfBounds (mem_bytes w)) T0 (op_reg (limit_reg w)),
      ir_alu_imm A_And T2 T0 LANE_MASK,
      ir_alu_imm A_And T1 T0 (NOT (LINEAR_CELL_BYTES - 1))]"

definition emit_crossing_branch :: "mem_width \<Rightarrow> pc option em" where
  "emit_crossing_branch w =
     (case w of
        B1 \<Rightarrow> em_return None
      | B4 \<Rightarrow> em_bind (emit (ir_branch_if_nonzero T2 0)) (\<lambda>pc. em_return (Some pc))
      | B8 \<Rightarrow> em_bind (emit (ir_branch_if_nonzero T2 0)) (\<lambda>pc. em_return (Some pc))
      | B2 \<Rightarrow>
          em_then (emit (ir_const T4 5))
            (em_bind (emit (Branch A_LtU T4 T2 0)) (\<lambda>pc. em_return (Some pc))))"

definition emit_narrow :: "reg \<Rightarrow> reg \<Rightarrow> mem_width \<Rightarrow> bool \<Rightarrow> width \<Rightarrow> unit em" where
  "emit_narrow rd rs w signd result = emit_all (narrow_rows rd rs w signd result)"

text \<open>The hot path of a load: one cell, or the two cells of an aligned \<^verbatim>\<open>i64\<close>.\<close>

definition emit_load_hot :: "reg \<Rightarrow> mem_width \<Rightarrow> bool \<Rightarrow> width \<Rightarrow> unit em" where
  "emit_load_hot rd w signd result =
     (case w of
        B8 \<Rightarrow> emit_all
          [row_load T3 T1 0,
           row_load T4 T1 LINEAR_CELL_BYTES,
           mul64 T4 T4 (op_imm (push_bit 32 1)),
           ir_alu A_Or rd T3 (op_reg T4)]
      | B4 \<Rightarrow>
          (if \<not> signd then em_then (emit (row_load rd T1 0)) (em_return ())
           else em_then (emit (row_load T3 T1 0)) (emit_narrow rd T3 w signd result))
      | _ \<Rightarrow>
          em_then (emit_all
            [row_load T3 T1 0,
             mul64 T2 T2 (op_imm SHIFT_PER_LANE),
             ir_alu_imm A_ShiftRightBitmask T4 T2 0,
             ir_alu A_Srl T3 T3 (op_reg T4)])
           (emit_narrow rd T3 w signd result))"

definition load_cold_rows :: "reg \<Rightarrow> mem_width \<Rightarrow> bool \<Rightarrow> width \<Rightarrow> ir list" where
  "load_cold_rows rd w signd result =
     [mul64 T2 T2 (op_imm SHIFT_PER_LANE),
      row_load T3 T1 0,
      ir_alu_imm A_ShiftRightBitmask T4 T2 0,
      ir_alu A_Srl T3 T3 (op_reg T4),
      row_load T4 T1 LINEAR_CELL_BYTES,
      ir_const T0 32,
      ir_alu (A_Sub W64) T0 T0 (op_reg T2),
      ir_alu_imm A_Pow2 T0 T0 0,
      mul64 T4 T4 (op_reg T0),
      ir_alu A_Or T3 T3 (op_reg T4)] @
     (if w = B8
      then
        [row_load T4 T1 (2 * LINEAR_CELL_BYTES),
         mul64 T4 T4 (op_reg T0),
         mul64 T4 T4 (op_imm (push_bit 32 1)),
         ir_alu A_Or T3 T3 (op_reg T4)]
      else []) @
     narrow_rows rd T3 w signd result"

definition emit_load :: "reg \<Rightarrow> reg \<Rightarrow> u64 \<Rightarrow> mem_width \<Rightarrow> bool \<Rightarrow> width \<Rightarrow> unit em" where
  "emit_load rd addr offset w signd result =
     em_then (emit_address addr offset w)
    (em_bind (emit_crossing_branch w) (\<lambda>crossing.
     em_then (emit_load_hot rd w signd result)
       (case crossing of
          Some pc \<Rightarrow> add_cold pc (load_cold_rows rd w signd result)
        | None \<Rightarrow> em_return ())))"

text \<open>The hot path of a store.\<close>

definition emit_store_hot :: "reg \<Rightarrow> bool \<Rightarrow> mem_width \<Rightarrow> unit em" where
  "emit_store_hot v wide w =
     (let mask = mem_mask w in
      case w of
        B4 \<Rightarrow>
          (if \<not> wide then em_then (emit (row_store T1 v 0)) (em_return ())
           else emit_all [ir_alu_imm A_And T3 v mask, row_store T1 T3 0])
      | B8 \<Rightarrow> emit_all
          [ir_alu_imm A_And T3 v WASM_WORD_MASK,
           row_store T1 T3 0,
           ir_alu_imm A_Srl T3 v (shift_right_bitmask 32),
           row_store T1 T3 LINEAR_CELL_BYTES]
      | _ \<Rightarrow> emit_all
          [mul64 T2 T2 (op_imm SHIFT_PER_LANE),
           row_load T3 T1 0,
           ir_alu_imm A_Pow2 T4 T2 0,
           ir_const T0 mask,
           mul64 T0 T0 (op_reg T4),
           ir_alu A_Andn T3 T3 (op_reg T0),
           ir_alu_imm A_And T0 v mask,
           mul64 T0 T0 (op_reg T4),
           ir_alu A_Or T3 T3 (op_reg T0),
           row_store T1 T3 0])"

definition store_cold_rows :: "reg \<Rightarrow> mem_width \<Rightarrow> ir list" where
  "store_cold_rows v w =
     (let mask = mem_mask w; bm32 = shift_right_bitmask 32 in
      [mul64 T2 T2 (op_imm SHIFT_PER_LANE),
       row_load T3 T1 0,
       ir_alu_imm A_Pow2 T4 T2 0,
       ir_const T0 mask,
       mul64 T0 T0 (op_reg T4),
       ir_alu_imm A_And T0 T0 WASM_WORD_MASK,
       ir_alu A_Andn T3 T3 (op_reg T0),
       ir_alu_imm A_And T0 v mask,
       mul64 T0 T0 (op_reg T4),
       ir_alu_imm A_And T0 T0 WASM_WORD_MASK,
       ir_alu A_Or T3 T3 (op_reg T0),
       row_store T1 T3 0,
       ir_const T0 32,
       ir_alu (A_Sub W64) T0 T0 (op_reg T2),
       ir_alu_imm A_ShiftRightBitmask T0 T0 0,
       row_load T3 T1 LINEAR_CELL_BYTES,
       ir_const T4 mask,
       ir_alu A_Srl T4 T4 (op_reg T0),
       ir_alu_imm A_And T4 T4 WASM_WORD_MASK,
       ir_alu A_Andn T3 T3 (op_reg T4),
       ir_alu_imm A_And T4 v mask,
       ir_alu A_Srl T4 T4 (op_reg T0),
       ir_alu_imm A_And T4 T4 WASM_WORD_MASK,
       ir_alu A_Or T3 T3 (op_reg T4),
       row_store T1 T3 LINEAR_CELL_BYTES] @
      (if w = B8
       then
         [row_load T3 T1 (2 * LINEAR_CELL_BYTES),
          ir_const T4 0xFFFFFFFFFFFFFFFF,
          ir_alu A_Srl T4 T4 (op_reg T0),
          ir_alu_imm A_Srl T4 T4 bm32,
          ir_alu A_Andn T3 T3 (op_reg T4),
          ir_alu A_Srl T4 v (op_reg T0),
          ir_alu_imm A_Srl T4 T4 bm32,
          ir_alu A_Or T3 T3 (op_reg T4),
          row_store T1 T3 (2 * LINEAR_CELL_BYTES)]
       else []))"

definition emit_store :: "reg \<Rightarrow> reg \<Rightarrow> bool \<Rightarrow> u64 \<Rightarrow> mem_width \<Rightarrow> unit em" where
  "emit_store base v wide offset w =
     em_then (emit_address base offset w)
    (em_bind (emit_crossing_branch w) (\<lambda>crossing.
     em_then (emit_store_hot v wide w)
       (case crossing of
          Some pc \<Rightarrow> add_cold pc (store_cold_rows v w)
        | None \<Rightarrow> em_return ())))"

end
