(* ===== verification/Lower_Control.thy ===== *)
theory Lower_Control
  imports Lower_Expand
begin

text \<open>
  \<^verbatim>\<open>jolt-wasm-frontend/src/lower.rs\<close>, control: branches and labels, calls, the entry stub
  of an export, the lowering of one operator (one definition per group of cases of
  \<^verbatim>\<open>lower_op\<close>), of a function and of a module.
\<close>

section \<open>Branches\<close>

definition move_down :: "function_ctx \<Rightarrow> u32 \<Rightarrow> u32 \<Rightarrow> u32 \<Rightarrow> unit em" where
  "move_down ctx height base n =
     (let src = height - n in
      if src = base then em_return ()
      else
        em_each (\<lambda>k.
          em_bind (em_lift (ctx_stack ctx (base + k))) (\<lambda>rd.
          em_bind (em_lift (ctx_stack ctx (src + k))) (\<lambda>rs.
          em_then (emit (ir_mov rd rs)) (em_return ())))) (u32_range 0 n))"

definition needs_moves :: "function_ctx \<Rightarrow> u32 \<Rightarrow> u32 \<Rightarrow> lower_error + bool" where
  "needs_moves ctx height depth =
     bind_res (ctx_label ctx depth) (\<lambda>l.
     let n = label_arity l in Inr (n > 0 \<and> height - n \<noteq> lb_base l))"

definition emit_return :: "function_ctx \<Rightarrow> u32 \<Rightarrow> unit em" where
  "emit_return ctx height =
     (let results = sg_results (fc_sig ctx) in
      em_then
        (em_each (\<lambda>k.
           em_bind (em_lift (ctx_stack ctx (height - results + k))) (\<lambda>rs.
           em_bind (em_lift (ok_or (temp (unat k))
             (TooManyResults (fc_index ctx) (unat results) MAX_RESULTS))) (\<lambda>rd.
           em_then (emit (ir_mov rd rs)) (em_return ())))) (u32_range 0 results))
        (emit_all [row_load RA SP (- 8), JumpReg RA]))"

text \<open>\<^verbatim>\<open>ctx.labels[i].fixups.push(pc)\<close>.\<close>

definition push_fixup :: "function_ctx \<Rightarrow> nat \<Rightarrow> pc \<Rightarrow> function_ctx" where
  "push_fixup ctx i pc =
     (let l = fc_labels ctx ! i in
      ctx\<lparr>fc_labels := (fc_labels ctx)[i := l\<lparr>lb_fixups := lb_fixups l @ [pc]\<rparr>]\<rparr>)"

definition em_branch :: "function_ctx \<Rightarrow> u32 \<Rightarrow> u32 \<Rightarrow> function_ctx em" where
  "em_branch ctx height depth =
     em_bind (em_lift (ctx_label ctx depth)) (\<lambda>l.
     let n = label_arity l; is_function_label = (unat depth + 1 = length (fc_labels ctx)) in
     if is_function_label then em_then (emit_return ctx height) (em_return ctx)
     else
       em_then (move_down ctx height (lb_base l) n)
         (case lb_kind l of
            LK_Loop entry \<Rightarrow> em_then (emit (Jump entry)) (em_return ctx)
          | _ \<Rightarrow>
              em_bind (emit (Jump 0)) (\<lambda>pc.
              em_return (push_fixup ctx (length (fc_labels ctx) - 1 - unat depth) pc))))"

section \<open>Calls\<close>

definition emit_indirect_target :: "reg \<Rightarrow> u32 \<Rightarrow> unit em" where
  "emit_indirect_target index signature e = emit_all
     [row_assert A_LtU TableOutOfBounds index (op_imm (em_table_slots e)),
      mul64 RA index (op_imm TABLE_SLOT_BYTES),
      row_load T0 RA (table_slot_address 0 + WORD_BYTES),
      row_assert A_Eq IndirectCallTypeMismatch T0 (op_imm (ucast signature + 1)),
      row_load RA RA (table_slot_address 0)] e"

definition callee_signature :: "callee \<Rightarrow> emitter \<Rightarrow> lower_error + signature" where
  "callee_signature c e =
     (case c of
        Callee_Direct function \<Rightarrow>
          ok_or (nth_opt (em_signatures e) (unat function)) (FunctionIndex function)
      | Callee_Indirect type_index _ \<Rightarrow>
          ok_or (nth_opt (em_type_signatures e) (unat type_index)) (FunctionIndex type_index))"

text \<open>A call up to the jump: spill the live slots, store the return address (patched later),
  load the parameters, bump the stack pointer. The result is the pc of the return-address row.\<close>

definition emit_call_prologue :: "function_ctx \<Rightarrow> u32 \<Rightarrow> u32 \<Rightarrow> pc em" where
  "emit_call_prologue ctx live params =
     em_then
       (em_each (\<lambda>slot.
          em_bind (em_lift (ctx_slot ctx slot)) (\<lambda>v.
          em_then (emit (row_store SP v (ucast slot * 8))) (em_return ()))) (u32_range 0 live))
    (em_bind (emit (ir_const RA 0)) (\<lambda>ra_pc.
     em_then (emit (row_store SP RA (ucast live * 8)))
    (em_then
       (em_each (\<lambda>j.
          em_bind (em_lift (ctx_slot ctx j)) (\<lambda>rd.
          em_then (emit (row_load rd SP (ucast (live - params + j) * 8))) (em_return ())))
        (u32_range 0 params))
    (em_then (emit (add64 SP SP (op_imm (ucast (live + 1) * 8))))
       (em_return ra_pc)))))"

text \<open>After the call: restore the stack pointer, reload the slots below the arguments, move
  the results into place.\<close>

definition emit_call_epilogue :: "function_ctx \<Rightarrow> u32 \<Rightarrow> u32 \<Rightarrow> u32 \<Rightarrow> unit em" where
  "emit_call_epilogue ctx live params results =
     em_then (emit (add64 SP SP (op_imm (- (ucast (live + 1) * 8)))))
    (em_then
       (em_each (\<lambda>slot.
          em_bind (em_lift (ctx_slot ctx slot)) (\<lambda>rd.
          em_then (emit (row_load rd SP (ucast slot * 8))) (em_return ())))
        (u32_range 0 (live - params)))
       (em_each (\<lambda>k.
          em_bind (em_lift (ctx_slot ctx (live - params + k))) (\<lambda>rd.
          em_bind (em_lift (ok_or (temp (unat k))
            (TooManyResults (fc_index ctx) (unat results) MAX_RESULTS))) (\<lambda>rs.
          em_then (emit (ir_mov rd rs)) (em_return ())))) (u32_range 0 results)))"

definition emit_call :: "function_ctx \<Rightarrow> u32 \<Rightarrow> callee \<Rightarrow> unit em" where
  "emit_call ctx height c =
     em_bind (\<lambda>e. em_lift (callee_signature c e) e) (\<lambda>callee_sig.
     let params = sg_params callee_sig; results = sg_results callee_sig;
         live = sg_locals (fc_sig ctx) + height in
     em_bind (emit_call_prologue ctx live params) (\<lambda>ra_pc.
     em_then
       (case c of
          Callee_Direct function \<Rightarrow>
            em_bind (emit (Jump 0)) (\<lambda>jump_pc. \<lambda>e.
              Inr ((), e\<lparr>em_call_fixups := em_call_fixups e @ [(jump_pc, function)]\<rparr>))
        | Callee_Indirect _ index \<Rightarrow>
            em_then (emit_indirect_target index (sg_id callee_sig))
              (em_then (emit (JumpReg RA)) (em_return ())))
    (em_bind em_pc (\<lambda>return_pc.
     em_then (patch ra_pc return_pc)
       (emit_call_epilogue ctx live params results)))))"

section \<open>The entry stub\<close>

definition emit_stub_outputs :: "function_ctx \<Rightarrow> signature \<Rightarrow> outputs \<Rightarrow> unit em" where
  "emit_stub_outputs ctx sig out =
     (case out of
        Out_Results \<Rightarrow>
          em_each (\<lambda>k.
            em_bind (em_lift (ctx_slot ctx k)) (\<lambda>v.
            em_then (emit (row_store ZERO v (output_address (ucast k)))) (em_return ())))
          (u32_range 0 (sg_results sig))
      | Out_Memory words \<Rightarrow>
          em_bind (em_lift (ctx_slot ctx 0)) (\<lambda>pointer.
          em_bind (em_lift (ctx_slot ctx 1)) (\<lambda>word_reg.
          em_each (\<lambda>k.
            em_then (emit_load word_reg pointer (ucast k * WORD_BYTES) B8 False W64)
              (em_then (emit (row_store ZERO word_reg (output_address (ucast k)))) (em_return ())))
          (u32_range 0 words))))"

definition emit_entry_stub :: "u32 \<Rightarrow> u32 option \<Rightarrow> outputs \<Rightarrow> unit em" where
  "emit_entry_stub function start out =
     em_bind (\<lambda>e. em_lift (ok_or (nth_opt (em_signatures e) (unat function))
       (FunctionIndex function)) e) (\<lambda>sig.
     let ctx = \<lparr>fc_index = function,
           fc_sig = \<lparr>sg_id = sg_id sig, sg_params = 0, sg_results = 0, sg_locals = 0,
             sg_frame_slots = unat (max (max (sg_params sig) (sg_results sig)) 2)\<rparr>,
           fc_labels = [], fc_pending = []\<rparr> in
     em_then (emit (ir_const SP (SHADOW_STACK_BASE + 8)))
    (em_then (emit (row_load T0 ZERO MEMORY_SIZE_ADDR))
    (em_then (emit_limits T0)
    (em_then (case start of
        Some s \<Rightarrow> emit_call ctx 0 (Callee_Direct s)
      | None \<Rightarrow> em_return ())
    (em_then
       (em_each (\<lambda>i.
          em_bind (em_lift (ctx_slot ctx i)) (\<lambda>rd.
          em_then (emit (row_load rd ZERO (input_address (ucast i)))) (em_return ())))
        (u32_range 0 (sg_params sig)))
    (em_then (emit_call ctx (sg_params sig) (Callee_Direct function))
    (em_then (emit_stub_outputs ctx sig out)
    (em_then
       (emit_all
         [ir_const T0 1,
          row_store ZERO T0 TERMINATION_ADDR,
          Jump HALT_PC])
       flush_cold))))))))"

section \<open>One operator\<close>

definition global_address :: "u32 \<Rightarrow> u64" where
  "global_address index = GLOBALS_BASE + 8 * ucast index"

text \<open>\<^verbatim>\<open>local.set\<close> and \<^verbatim>\<open>local.tee\<close>.\<close>

definition lower_local_set :: "function_ctx \<Rightarrow> u32 \<Rightarrow> bool \<Rightarrow> u32 \<Rightarrow> function_ctx em" where
  "lower_local_set ctx i tee h =
     (case take_pending ctx (h - 1) of (v, ctx1) \<Rightarrow>
     em_bind (materialize_local ctx1 i) (\<lambda>ctx2.
     em_bind (em_lift (ctx_slot ctx2 i)) (\<lambda>rd.
     em_then
       (case v of
          Some (Pending_Local local) \<Rightarrow>
            if local = i then em_return ()
            else em_bind (em_lift (ctx_slot ctx2 local)) (\<lambda>rs. emit_all [ir_mov rd rs])
        | Some (Pending_Const imm) \<Rightarrow> emit_all [ir_const rd imm]
        | None \<Rightarrow> em_bind (em_lift (ctx_stack ctx2 (h - 1))) (\<lambda>rs. emit_all [ir_mov rd rs]))
       (em_return (if tee then set_pending ctx2 (h - 1) (Pending_Local i) else ctx2)))))"

text \<open>The operators that compute a value: globals, memory, arithmetic, conversions. The result
  is whether the next operator was absorbed.\<close>

definition lower_value_op ::
  "function_ctx \<Rightarrow> wasm_op \<Rightarrow> u32 \<Rightarrow> wasm_op option \<Rightarrow> (bool \<times> function_ctx) em"
where
  "lower_value_op ctx op h next_op =
     (case op of
        W_GlobalGet g \<Rightarrow>
          em_bind (em_dest ctx h next_op) (\<lambda>((rd, skip), ctx1).
          em_then (emit (row_load rd ZERO (global_address g))) (em_return (skip, ctx1)))
      | W_GlobalSet g \<Rightarrow>
          em_bind (em_src ctx (h - 1)) (\<lambda>(v, ctx1).
          em_then (emit (row_store ZERO v (global_address g))) (em_return (False, ctx1)))
      | W_Load ty w signd offset \<Rightarrow>
          em_bind (em_src ctx (h - 1)) (\<lambda>(addr, ctx1).
          em_bind (em_dest ctx1 (h - 1) next_op) (\<lambda>((rd, skip), ctx2).
          em_then (emit_load rd addr offset w signd (val_width ty)) (em_return (skip, ctx2))))
      | W_Store ty w offset \<Rightarrow>
          em_bind (em_src ctx (h - 2)) (\<lambda>(base, ctx1).
          em_bind (em_src ctx1 (h - 1)) (\<lambda>(v, ctx2).
          em_then (emit_store base v (ty = I64) offset w) (em_return (False, ctx2))))
      | W_MemorySize \<Rightarrow>
          em_bind (em_dest ctx h next_op) (\<lambda>((rd, skip), ctx1).
          em_then (emit_all [row_load T0 ZERO MEMORY_SIZE_ADDR,
                             ir_alu_imm A_Srl rd T0 (shift_right_bitmask 16)])
            (em_return (skip, ctx1)))
      | W_MemoryGrow \<Rightarrow>
          em_bind (em_src ctx (h - 1)) (\<lambda>(rs, ctx1).
          em_bind (em_dest ctx1 (h - 1) next_op) (\<lambda>((rd, skip), ctx2).
          em_then (emit_memory_grow rd rs) (em_return (skip, ctx2))))
      | W_Unary w uop \<Rightarrow>
          em_bind (em_src ctx (h - 1)) (\<lambda>(a, ctx1).
          em_bind (em_dest ctx1 (h - 1) next_op) (\<lambda>((rd, skip), ctx2).
          em_then (emit_unary w uop rd a) (em_return (skip, ctx2))))
      | W_Binary w bop \<Rightarrow>
          em_bind (em_src ctx (h - 2)) (\<lambda>(rs1, ctx1).
          em_bind
            (if binary_takes_immediate bop then src_operand ctx1 (h - 1)
             else em_bind (em_src ctx1 (h - 1)) (\<lambda>(r, ctx2). em_return (Op_Reg r, ctx2)))
            (\<lambda>(rs2, ctx2).
          em_bind (em_dest ctx2 (h - 2) next_op) (\<lambda>((rd, skip), ctx3).
          em_then (emit_binary w bop rd rs1 rs2) (em_return (skip, ctx3)))))
      | W_Convert cop \<Rightarrow>
          em_bind (em_src ctx (h - 1)) (\<lambda>(a, ctx1).
          em_bind (em_dest ctx1 (h - 1) next_op) (\<lambda>((rd, skip), ctx2).
          em_then (emit (convert_row cop rd a)) (em_return (skip, ctx2))))
      | _ \<Rightarrow> em_lift (Inl LowerPanic))"

definition lower_select :: "function_ctx \<Rightarrow> u32 \<Rightarrow> function_ctx em" where
  "lower_select ctx h =
     em_bind (em_src ctx (h - 3)) (\<lambda>(v1, ctx1).
     em_bind (em_src ctx1 (h - 2)) (\<lambda>(v2, ctx2).
     em_bind (em_src ctx2 (h - 1)) (\<lambda>(cond, ctx3).
     em_bind (em_lift (ctx_stack ctx3 (h - 3))) (\<lambda>rd.
     em_then (if v1 \<noteq> rd then emit_all [ir_mov rd v1] else em_return ())
    (em_bind (emit (ir_branch_if_nonzero cond 0)) (\<lambda>skip.
     em_then (emit (ir_mov rd v2))
    (em_bind em_pc (\<lambda>end_pc.
     em_then (patch skip end_pc) (em_return ctx3)))))))))"

text \<open>The structured control operators.\<close>

definition push_label :: "function_ctx \<Rightarrow> label_kind \<Rightarrow> u32 \<Rightarrow> block_sig \<Rightarrow> function_ctx" where
  "push_label ctx kind base sig = ctx\<lparr>fc_labels := fc_labels ctx @
     [\<lparr>lb_kind = kind, lb_base = base, lb_sig = sig, lb_fixups = []\<rparr>]\<rparr>"

definition lower_else :: "function_ctx \<Rightarrow> function_ctx em" where
  "lower_else ctx =
     em_bind (materialize_all ctx) (\<lambda>ctx1.
     let labels = fc_labels ctx1 in
     if labels = [] then em_lift (Inl (MalformedControl (fc_index ctx1)))
     else
       (let l = last labels in
        case lb_kind l of
          LK_If skip \<Rightarrow>
            em_bind (emit (Jump 0)) (\<lambda>to_end.
            em_bind em_pc (\<lambda>else_pc.
            em_then (patch skip else_pc)
              (em_return (ctx1\<lparr>fc_labels := butlast labels @
                [l\<lparr>lb_fixups := lb_fixups l @ [to_end], lb_kind := LK_Else\<rparr>]\<rparr>))))
        | _ \<Rightarrow> em_lift (Inl (MalformedControl (fc_index ctx1)))))"

definition lower_end :: "function_ctx \<Rightarrow> u32 \<Rightarrow> function_ctx em" where
  "lower_end ctx h =
     em_bind (materialize_all ctx) (\<lambda>ctx1.
     let labels = fc_labels ctx1 in
     if labels = [] then em_lift (Inl (MalformedControl (fc_index ctx1)))
     else
       (let l = last labels; ctx2 = ctx1\<lparr>fc_labels := butlast labels\<rparr> in
        em_then (if fc_labels ctx2 = [] then emit_return ctx2 h else em_return ())
       (em_bind em_pc (\<lambda>end_pc.
        em_then (case lb_kind l of LK_If skip \<Rightarrow> patch skip end_pc | _ \<Rightarrow> em_return ())
       (em_then (em_each (\<lambda>pc. patch pc end_pc) (lb_fixups l))
          (em_return ctx2))))))"

definition lower_br_if :: "function_ctx \<Rightarrow> u32 \<Rightarrow> u32 \<Rightarrow> function_ctx em" where
  "lower_br_if ctx depth h0 =
     em_bind (em_src ctx (h0 - 1)) (\<lambda>(cond, ctx0).
     em_bind (materialize_all ctx0) (\<lambda>ctx1.
     let h = h0 - 1; is_function_label = (unat depth + 1 = length (fc_labels ctx1)) in
     em_bind
       (if is_function_label then em_return False
        else em_bind (em_lift (needs_moves ctx1 h depth)) (\<lambda>moves. em_return (\<not> moves)))
       (\<lambda>plain.
     if plain then
       (let i = length (fc_labels ctx1) - 1 - unat depth in
        case lb_kind (fc_labels ctx1 ! i) of
          LK_Loop entry \<Rightarrow> em_then (emit (ir_branch_if_nonzero cond entry)) (em_return ctx1)
        | _ \<Rightarrow>
            em_bind (emit (ir_branch_if_nonzero cond 0)) (\<lambda>pc.
            em_return (push_fixup ctx1 i pc)))
     else
       em_bind (emit (ir_branch_if_zero cond 0)) (\<lambda>skip.
       em_bind (em_branch ctx1 h depth) (\<lambda>ctx2.
       em_bind em_pc (\<lambda>end_pc.
       em_then (patch skip end_pc) (em_return ctx2)))))))"

text \<open>The loop over the targets of a \<^verbatim>\<open>br_table\<close>, from target number \<open>i\<close>.\<close>

fun lower_br_targets :: "function_ctx \<Rightarrow> reg \<Rightarrow> u32 \<Rightarrow> nat \<Rightarrow> u32 list \<Rightarrow> function_ctx em" where
  "lower_br_targets ctx index h i [] = em_return ctx"
| "lower_br_targets ctx index h i (depth # targets) =
     em_then (emit (ir_const T0 (of_nat i)))
    (em_bind (emit (Branch A_Ne index T0 0)) (\<lambda>skip.
     em_bind (em_branch ctx h depth) (\<lambda>ctx1.
     em_bind em_pc (\<lambda>next_pc.
     em_then (patch skip next_pc)
       (lower_br_targets ctx1 index h (Suc i) targets)))))"

definition lower_control_op :: "function_ctx \<Rightarrow> wasm_op \<Rightarrow> u32 \<Rightarrow> function_ctx em" where
  "lower_control_op ctx op h =
     (case op of
        W_Block sig \<Rightarrow>
          em_bind (materialize_all ctx) (\<lambda>ctx1.
          em_return (push_label ctx1 LK_Block (h - bs_params sig) sig))
      | W_Loop sig \<Rightarrow>
          em_bind (materialize_all ctx) (\<lambda>ctx1.
          em_bind em_pc (\<lambda>entry.
          em_return (push_label ctx1 (LK_Loop entry) (h - bs_params sig) sig)))
      | W_If sig \<Rightarrow>
          em_bind (em_src ctx (h - 1)) (\<lambda>(cond, ctx0).
          em_bind (materialize_all ctx0) (\<lambda>ctx1.
          em_bind (emit (ir_branch_if_zero cond 0)) (\<lambda>skip.
          em_return (push_label ctx1 (LK_If skip) (h - 1 - bs_params sig) sig))))
      | W_Else \<Rightarrow> lower_else ctx
      | W_End \<Rightarrow> lower_end ctx h
      | W_Br depth \<Rightarrow>
          em_bind (materialize_all ctx) (\<lambda>ctx1. em_branch ctx1 h depth)
      | W_BrIf depth \<Rightarrow> lower_br_if ctx depth h
      | W_BrTable targets default_depth \<Rightarrow>
          em_bind (em_src ctx (h - 1)) (\<lambda>(index, ctx0).
          em_bind (materialize_all ctx0) (\<lambda>ctx1.
          em_bind (lower_br_targets ctx1 index (h - 1) 0 targets) (\<lambda>ctx2.
          em_branch ctx2 (h - 1) default_depth)))
      | W_Return \<Rightarrow>
          em_bind (materialize_all ctx) (\<lambda>ctx1.
          em_then (emit_return ctx1 h) (em_return ctx1))
      | W_Call function \<Rightarrow>
          em_bind (materialize_all ctx) (\<lambda>ctx1.
          em_then (emit_call ctx1 h (Callee_Direct function)) (em_return ctx1))
      | W_CallIndirect type_index \<Rightarrow>
          em_bind (materialize_all ctx) (\<lambda>ctx1.
          em_bind (em_lift (ctx_stack ctx1 (h - 1))) (\<lambda>index.
          em_then (emit_call ctx1 (h - 1) (Callee_Indirect type_index index)) (em_return ctx1)))
      | _ \<Rightarrow> em_lift (Inl LowerPanic))"

definition is_control_op :: "wasm_op \<Rightarrow> bool" where
  "is_control_op op = (case op of
      W_Block _ \<Rightarrow> True | W_Loop _ \<Rightarrow> True | W_If _ \<Rightarrow> True | W_Else \<Rightarrow> True | W_End \<Rightarrow> True
    | W_Br _ \<Rightarrow> True | W_BrIf _ \<Rightarrow> True | W_BrTable _ _ \<Rightarrow> True | W_Return \<Rightarrow> True
    | W_Call _ \<Rightarrow> True | W_CallIndirect _ \<Rightarrow> True | _ \<Rightarrow> False)"

text \<open>\<^verbatim>\<open>lower_op\<close>: the rows of one operator, and whether the next was absorbed.\<close>

definition lower_op ::
  "function_ctx \<Rightarrow> wasm_op \<Rightarrow> u32 \<Rightarrow> wasm_op option \<Rightarrow> (bool \<times> function_ctx) em"
where
  "lower_op ctx op h next_op =
     (case op of
        W_Nop \<Rightarrow> em_return (False, ctx)
      | W_Drop \<Rightarrow> em_return (False, snd (take_pending ctx (h - 1)))
      | W_Unreachable \<Rightarrow> em_then (emit Trap) (em_return (False, ctx))
      | W_Const _ v \<Rightarrow> em_return (False, set_pending ctx h (Pending_Const v))
      | W_LocalGet i \<Rightarrow> em_return (False, set_pending ctx h (Pending_Local i))
      | W_LocalSet i \<Rightarrow>
          em_bind (lower_local_set ctx i False h) (\<lambda>ctx1. em_return (False, ctx1))
      | W_LocalTee i \<Rightarrow>
          em_bind (lower_local_set ctx i True h) (\<lambda>ctx1. em_return (False, ctx1))
      | W_Select \<Rightarrow> em_bind (lower_select ctx h) (\<lambda>ctx1. em_return (False, ctx1))
      | _ \<Rightarrow>
          if is_control_op op
          then em_bind (lower_control_op ctx op h) (\<lambda>ctx1. em_return (False, ctx1))
          else lower_value_op ctx op h next_op)"

section \<open>A function\<close>

text \<open>The loop over the body; the flag skips the operator the one before it absorbed.\<close>

fun lower_body :: "function_ctx \<Rightarrow> bool \<Rightarrow> source_op list \<Rightarrow> function_ctx em" where
  "lower_body ctx skip [] = em_return ctx"
| "lower_body ctx skip (s # body) =
     (if skip then lower_body ctx False body
      else
        em_bind (lower_op ctx (so_op s) (so_height s) (map_option so_op (nth_opt body 0)))
          (\<lambda>(absorbed, ctx1). lower_body ctx1 absorbed body))"

definition lower_function :: "u32 \<Rightarrow> wasm_function \<Rightarrow> unit em" where
  "lower_function index function e =
     (case nth_opt (em_signatures e) (unat index) of
        None \<Rightarrow> Inl LowerPanic
      | Some sig \<Rightarrow>
         (let ctx = \<lparr>fc_index = index, fc_sig = sig,
                fc_labels = [\<lparr>lb_kind = LK_Block, lb_base = 0,
                  lb_sig = \<lparr>bs_params = 0, bs_results = sg_results sig\<rparr>, lb_fixups = []\<rparr>],
                fc_pending = []\<rparr> in
          em_then
            (em_each (\<lambda>slot.
               em_bind (em_lift (ctx_slot ctx slot)) (\<lambda>rd.
               em_then (emit (ir_mov rd ZERO)) (em_return ())))
             (u32_range (sg_params sig) (sg_locals sig)))
         (em_bind (lower_body ctx False (wf_body function)) (\<lambda>ctx1.
          if fc_labels ctx1 \<noteq> [] then em_lift (Inl (MalformedControl index))
          else flush_cold)) e))"

end
