(* ===== verification/Lower_Module.thy ===== *)
theory Lower_Module
  imports Lower_Control
begin

text \<open>
  \<^verbatim>\<open>jolt-wasm-frontend/src/lower.rs\<close>, the lowering of a module: memory limits, signatures,
  the code of every function and of every entry stub, the call fixups and the function table.
  The maps keyed by export name are association lists in the order of the keys, the order in
  which the code visits them.
\<close>

section \<open>Memory limits, types and signatures\<close>

definition lower_memory :: "wasm_module \<Rightarrow> lower_error + memory_limits" where
  "lower_memory m =
     (case wm_memory m of
        Some decl \<Rightarrow>
          (let cap = min (case md_max_pages decl of Some p \<Rightarrow> p | None \<Rightarrow> DEFAULT_MAX_PAGES) MAX_PAGES in
           if md_initial_pages decl > cap
           then Inl (MemoryTooLarge (md_initial_pages decl) cap)
           else Inr \<lparr>initial_pages = md_initial_pages decl, max_pages = cap\<rparr>)
      | None \<Rightarrow> Inr \<lparr>initial_pages = 0, max_pages = 0\<rparr>)"

definition lower_table_slots :: "wasm_module \<Rightarrow> lower_error + u64" where
  "lower_table_slots m =
     (let slots = (case wm_table m of None \<Rightarrow> 0 | Some t \<Rightarrow> td_initial t) in
      if slots > MAX_TABLE_SLOTS then Inl (TableTooLarge slots MAX_TABLE_SLOTS) else Inr slots)"

text \<open>The position of the first element equal to \<open>x\<close>.\<close>

fun position :: "'a list \<Rightarrow> 'a \<Rightarrow> nat option" where
  "position [] x = None"
| "position (y # ys) x = (if y = x then Some 0 else map_option Suc (position ys x))"

fun canonical_ids_from :: "func_type list \<Rightarrow> func_type list \<Rightarrow> u32 list" where
  "canonical_ids_from seen [] = []"
| "canonical_ids_from seen (ty # types) =
     (case position seen ty of
        Some i \<Rightarrow> of_nat i # canonical_ids_from seen types
      | None \<Rightarrow> of_nat (length seen) # canonical_ids_from (seen @ [ty]) types)"

definition canonical_type_ids :: "func_type list \<Rightarrow> u32 list" where
  "canonical_type_ids types = canonical_ids_from [] types"

definition function_signature :: "wasm_module \<Rightarrow> u32 list \<Rightarrow> u32 \<Rightarrow> wasm_function \<Rightarrow> lower_error + signature" where
  "function_signature m type_ids index function =
     bind_res (ok_or (module_func_type m index) (FunctionIndex index)) (\<lambda>ty.
     bind_res (ok_or (nth_opt type_ids (unat (wf_type_index function))) (FunctionIndex index)) (\<lambda>tid.
     let locals = length (ft_params ty) + length (wf_locals function);
         slots = locals + unat (wf_max_height function) in
     if slots > MAX_FRAME_SLOTS then Inl (FrameTooLarge index slots MAX_FRAME_SLOTS)
     else if length (ft_results ty) > MAX_RESULTS
     then Inl (TooManyResults index (length (ft_results ty)) MAX_RESULTS)
     else Inr \<lparr>sg_id = tid, sg_params = of_nat (length (ft_params ty)),
       sg_results = of_nat (length (ft_results ty)), sg_locals = of_nat locals,
       sg_frame_slots = slots\<rparr>))"

definition type_signature :: "func_type \<Rightarrow> u32 \<Rightarrow> signature" where
  "type_signature ty tid =
     \<lparr>sg_id = tid, sg_params = of_nat (length (ft_params ty)),
      sg_results = of_nat (length (ft_results ty)), sg_locals = 0, sg_frame_slots = 0\<rparr>"

text \<open>\<^verbatim>\<open>iter().enumerate()\<close>.\<close>

definition enumerate32 :: "'a list \<Rightarrow> (u32 \<times> 'a) list" where
  "enumerate32 xs = zip (map of_nat [0..<length xs]) xs"

definition lower_signatures :: "wasm_module \<Rightarrow> u32 list \<Rightarrow> lower_error + signature list" where
  "lower_signatures m type_ids =
     map_res (\<lambda>(index, function). function_signature m type_ids index function)
       (enumerate32 (wm_functions m))"

section \<open>Functions and entry stubs\<close>

fun lower_functions :: "(u32 \<times> wasm_function) list \<Rightarrow> ir_function list em" where
  "lower_functions [] = em_return []"
| "lower_functions ((index, function) # rest) =
     em_bind em_pc (\<lambda>entry.
     em_then (lower_function index function)
    (em_bind (\<lambda>e. em_lift (ok_or (nth_opt (em_signatures e) (unat index)) LowerPanic) e) (\<lambda>sig.
     em_bind (lower_functions rest) (\<lambda>functions.
     em_return (\<lparr>fn_entry = entry, fn_params = sg_params sig, fn_results = sg_results sig,
       fn_frame_slots = sg_frame_slots sig\<rparr> # functions)))))"

definition export_outputs :: "wasm_module \<Rightarrow> string \<Rightarrow> u32 \<Rightarrow> lower_error + outputs" where
  "export_outputs m name function =
     (case map_of (wm_memory_outputs m) name of
        Some words \<Rightarrow>
          bind_res (ok_or (module_func_type m function) (FunctionIndex function)) (\<lambda>ty.
          if ft_results ty \<noteq> [I32] then Inl (OutputsNeedPointer name)
          else if (ucast words :: u64) > MAX_OUTPUT_WORDS
          then Inl (TooManyOutputs name words MAX_OUTPUT_WORDS)
          else Inr (Out_Memory words))
      | None \<Rightarrow> Inr Out_Results)"

text \<open>The entry stubs: per export its entry pc and its number of output words.\<close>

fun lower_exports ::
  "wasm_module \<Rightarrow> (string \<times> u32) list \<Rightarrow> ((string \<times> pc) list \<times> (string \<times> u32) list) em"
where
  "lower_exports m [] = em_return ([], [])"
| "lower_exports m ((name, function) # rest) =
     em_bind em_pc (\<lambda>pc.
     em_bind (em_lift (export_outputs m name function)) (\<lambda>out.
     em_then (emit_entry_stub function (wm_start m) out)
    (em_bind
       (case out of
          Out_Results \<Rightarrow> (\<lambda>e. em_lift
            (map_sum id sg_results (ok_or (nth_opt (em_signatures e) (unat function)) LowerPanic)) e)
        | Out_Memory words \<Rightarrow> em_return words) (\<lambda>n.
     em_bind (lower_exports m rest) (\<lambda>(entries, words).
     em_return ((name, pc) # entries, (name, n) # words))))))"

section \<open>Fixups and the table\<close>

definition function_entry :: "ir_function list \<Rightarrow> u32 \<Rightarrow> lower_error + pc" where
  "function_entry functions f =
     map_sum id fn_entry (ok_or (nth_opt functions (unat f)) (FunctionIndex f))"

fun fix_calls :: "ir_function list \<Rightarrow> (pc \<times> u32) list \<Rightarrow> ir list \<Rightarrow> lower_error + ir list" where
  "fix_calls functions [] code = Inr code"
| "fix_calls functions ((pc, callee) # fixups) code =
     bind_res (function_entry functions callee) (\<lambda>entry.
     if unat pc < length code
     then fix_calls functions fixups (code[unat pc := set_target (code ! unat pc) entry])
     else Inl LowerPanic)"

definition element_slot ::
  "ir_function list \<Rightarrow> signature list \<Rightarrow> u32 option \<Rightarrow> lower_error + table_slot option"
where
  "element_slot functions signatures f =
     (case f of
        None \<Rightarrow> Inr None
      | Some g \<Rightarrow>
          bind_res (function_entry functions g) (\<lambda>entry.
          bind_res (ok_or (nth_opt signatures (unat g)) LowerPanic) (\<lambda>sig.
          Inr (Some \<lparr>ts_entry = entry, ts_signature = sg_id sig\<rparr>))))"

text \<open>The entries of one segment from position \<open>i\<close>, then the segments.\<close>

fun fill_segment ::
  "ir_function list \<Rightarrow> signature list \<Rightarrow> lower_error \<Rightarrow> nat \<Rightarrow> u32 option list \<Rightarrow>
   table_slot option list \<Rightarrow> lower_error + table_slot option list"
where
  "fill_segment functions signatures e i [] table = Inr table"
| "fill_segment functions signatures e i (f # fs) table =
     (if i < length table then
        bind_res (element_slot functions signatures f) (\<lambda>slot.
        fill_segment functions signatures e (Suc i) fs (table[i := slot]))
      else Inl e)"

fun fill_elements ::
  "ir_function list \<Rightarrow> signature list \<Rightarrow> u64 \<Rightarrow> element_segment list \<Rightarrow>
   table_slot option list \<Rightarrow> lower_error + table_slot option list"
where
  "fill_elements functions signatures slots [] table = Inr table"
| "fill_elements functions signatures slots (s # segments) table =
     bind_res
       (fill_segment functions signatures
         (TableTooLarge (es_offset s + of_nat (length (es_functions s))) slots)
         (unat (es_offset s)) (es_functions s) table)
       (fill_elements functions signatures slots segments)"

section \<open>The module\<close>

definition initial_emitter :: "signature list \<Rightarrow> signature list \<Rightarrow> u64 \<Rightarrow> memory_limits \<Rightarrow> emitter" where
  "initial_emitter signatures type_signatures slots memory =
     \<lparr>em_code = [Halt], em_call_fixups = [], em_cold = [], em_signatures = signatures,
      em_type_signatures = type_signatures, em_table_slots = slots,
      em_max_memory_bytes = max_pages memory * PAGE_SIZE\<rparr>"

definition lower :: "wasm_module \<Rightarrow> lower_error + ir_program" where
  "lower m =
     bind_res (lower_memory m) (\<lambda>memory.
     bind_res (lower_table_slots m) (\<lambda>slots.
     let type_ids = canonical_type_ids (wm_types m) in
     bind_res (lower_signatures m type_ids) (\<lambda>signatures.
     let type_signatures = map2 type_signature (wm_types m) type_ids in
     bind_res (lower_functions (enumerate32 (wm_functions m))
         (initial_emitter signatures type_signatures slots memory)) (\<lambda>(functions, e1).
     bind_res (lower_exports m (wm_exports m) e1) (\<lambda>((entries, output_words), e2).
     bind_res (fix_calls functions (em_call_fixups e2) (em_code e2)) (\<lambda>code.
     bind_res (fill_elements functions signatures slots (wm_elements m)
         (replicate (unat slots) None)) (\<lambda>table.
     Inr \<lparr>p_code = code, p_functions = functions, p_exports = wm_exports m,
       p_entries = entries, p_output_words = output_words, p_memory = memory,
       p_globals = map wg_init (wm_globals m), p_data = wm_data m, p_table = table\<rparr>)))))))"

end
