(* ===== verification/Exec_Rows.thy ===== *)
theory Exec_Rows
  imports Lower_Module Machine_Exec
begin

text \<open>
  Straight-line rows: their effect on registers and memory for an arbitrary advice value (the
  value an \<^const>\<open>Advice\<close> row writes is the prover's choice), the link with the machine, whose
  advice is the honest one, and the rows an emitter method appends.
\<close>

section \<open>Executing straight-line rows\<close>

type_synonym rows_state = "(reg \<Rightarrow> u64) \<times> guest_memory"

fun straight :: "ir \<Rightarrow> bool" where
  "straight (Alu _ _ _ _) = True"
| "straight (Advice _ _ _ _) = True"
| "straight (Assert _ _ _ _) = True"
| "straight (Load _ _ _) = True"
| "straight (Store _ _ _) = True"
| "straight _ = False"

fun exec_row :: "(u64 \<Rightarrow> u64 \<Rightarrow> u64) \<Rightarrow> ir \<Rightarrow> rows_state \<Rightarrow> trap + rows_state" where
  "exec_row adv (Alu op rd a b) (regs, mem) =
     Inr (set_reg regs rd (evaluate op (regs a) (operand_value regs b)), mem)"
| "exec_row adv (Advice hint rd a b) (regs, mem) =
     Inr (set_reg regs rd (adv (regs a) (regs b)), mem)"
| "exec_row adv (Assert op failure a b) (regs, mem) =
     (if evaluate op (regs a) (operand_value regs b) = 1 then Inr (regs, mem)
      else Inl (assert_trap (Assert op failure a b) (regs a)))"
| "exec_row adv (Load rd rs offset) (regs, mem) =
     bind_res (read_word mem (regs rs + offset)) (\<lambda>v. Inr (set_reg regs rd v, mem))"
| "exec_row adv (Store rs val offset) (regs, mem) =
     bind_res (write_word mem (regs rs + offset) (regs val)) (\<lambda>(_, mem'). Inr (regs, mem'))"
| "exec_row adv _ (regs, mem) = Inl Unreachable"

fun exec_rows :: "(u64 \<Rightarrow> u64 \<Rightarrow> u64) \<Rightarrow> ir list \<Rightarrow> rows_state \<Rightarrow> trap + rows_state" where
  "exec_rows adv [] s = Inr s"
| "exec_rows adv (row # rows) s = bind_res (exec_row adv row s) (exec_rows adv rows)"

lemma exec_rows_append:
  "exec_rows adv (xs @ ys) s = bind_res (exec_rows adv xs s) (exec_rows adv ys)"
  by (induction xs arbitrary: s) (auto simp: bind_res_def split: sum.splits)

text \<open>The advice of the reference interpreter.\<close>

definition honest :: "u64 \<Rightarrow> u64 \<Rightarrow> u64" where
  "honest x y = advice_compute QuotientU x y"

lemma exec_row_isa:
  assumes "straight i"
  shows "isa_step i (regs, pc, mem) =
    bind_res (exec_row honest i (regs, mem)) (\<lambda>(regs', mem'). Inr (regs', pc + 1, mem'))"
  using assms
proof (cases i)
  case (Advice hint rd a b)
  then show ?thesis by (cases hint) (simp add: honest_def)
qed (auto simp: bind_res_def split: sum.splits prod.splits)

text \<open>A number of machine steps.\<close>

fun steps :: "nat \<Rightarrow> machine \<Rightarrow> trap + machine" where
  "steps 0 m = Inr m"
| "steps (Suc n) m = bind_res (step m) (\<lambda>(_, m'). steps n m')"

definition code_at :: "machine \<Rightarrow> ir list \<Rightarrow> bool" where
  "code_at m rows \<longleftrightarrow> unat (m_pc m) + length rows < 2 ^ 32 \<and>
     (\<forall>k < length rows. nth_opt (p_code (m_program m)) (unat (m_pc m) + k) = Some (rows ! k))"

lemma code_at_Cons:
  assumes "code_at m (row # rows)"
  shows "instruction_at m = Some row"
    "p_code (m_program m') = p_code (m_program m) \<Longrightarrow> m_pc m' = m_pc m + 1 \<Longrightarrow> code_at m' rows"
proof -
  have b: "unat (m_pc m) + Suc (length rows) < 2 ^ 32"
    and n: "nth_opt (p_code (m_program m)) (unat (m_pc m) + k) = Some ((row # rows) ! k)"
    if "k < Suc (length rows)" for k
    using assms that by (auto simp: code_at_def)
  show "instruction_at m = Some row" using n [of 0] by (simp add: instruction_at_def)
  assume "p_code (m_program m') = p_code (m_program m)" and pc: "m_pc m' = m_pc m + 1"
  moreover have "unat (m_pc m + 1) = unat (m_pc m) + 1"
    using b [of 0] by (simp add: unat_word_ariths)
  ultimately show "code_at m' rows"
    using b [of 0] n [of "Suc k" for k] by (auto simp: code_at_def)
qed

theorem steps_exec_rows:
  assumes "code_at m rows" "\<forall>i \<in> set rows. straight i"
  shows "steps (length rows) m = bind_res (exec_rows honest rows (m_regs m, m_memory m))
    (\<lambda>(regs, mem). Inr (put_state m (regs, m_pc m + of_nat (length rows), mem)))"
  using assms
proof (induction rows arbitrary: m)
  case (Cons i rows)
  note at = code_at_Cons [OF Cons.prems(1)]
  have s: "straight i" using Cons.prems by simp
  have st: "bind_res (step m) (\<lambda>(r, m'). Inr m') =
    bind_res (exec_row honest i (m_regs m, m_memory m))
      (\<lambda>(regs', mem'). Inr (put_state m (regs', m_pc m + 1, mem')))"
    using step_implements_isa [OF at(1)] unfolding machine_state_def exec_row_isa [OF s]
    by (auto simp: bind_res_def split: sum.splits prod.splits)
  show ?case
  proof (cases "exec_row honest i (m_regs m, m_memory m)")
    case (Inl t)
    then have "step m = Inl t" using st by (auto simp: bind_res_def split: sum.splits prod.splits)
    then show ?thesis using Inl by simp
  next
    case (Inr s')
    obtain regs' mem' where s': "s' = (regs', mem')" by (cases s')
    let ?m = "put_state m (regs', m_pc m + 1, mem')"
    obtain r where "step m = Inr (r, ?m)"
      using st Inr s' by (auto simp: bind_res_def split: sum.splits prod.splits)
    moreover have "code_at ?m rows" by (rule at(2)) (simp_all add: put_state_def)
    ultimately show ?thesis using Inr s' Cons.IH [of ?m] Cons.prems(2)
      by (simp add: put_state_def add.left_commute add.assoc add.commute [of 1])
  qed
qed (simp add: put_state_def)

section \<open>The rows a method appends\<close>

text \<open>\<open>act\<close> appends exactly \<open>rows\<close> and returns \<open>x\<close>, unless the program counter overflows.\<close>

definition emits :: "'a em \<Rightarrow> ir list \<Rightarrow> 'a \<Rightarrow> bool" where
  "emits act rows x \<longleftrightarrow> (\<forall>e. act e =
     (if rows = [] \<or> length (em_code e) + length rows \<le> 2 ^ 32
      then Inr (x, e\<lparr>em_code := em_code e @ rows\<rparr>) else Inl (LowerProgramTooLarge 32)))"

named_theorems emits_rules "rows appended by composed emitter methods"

lemma emits_return [emits_rules]: "emits (em_return x) [] x"
  by (simp add: emits_def)

lemma emits_bind [emits_rules]:
  "emits a rows x \<Longrightarrow> emits (f x) rows' y \<Longrightarrow> emits (em_bind a f) (rows @ rows') y"
  by (auto simp: emits_def)

lemma emits_then [emits_rules]:
  "emits a rows x \<Longrightarrow> emits b rows' y \<Longrightarrow> emits (em_then a b) (rows @ rows') y"
  by (auto simp: emits_def)

lemma emits_emit_then [emits_rules]:
  "emits b rows y \<Longrightarrow> emits (em_then (emit i) b) (i # rows) y"
  by (auto simp: emits_def emit_def em_pc_def)

lemma emits_all [emits_rules]: "emits (emit_all rows) rows ()"
proof (induction rows)
  case Nil
  then show ?case by (simp add: emit_all_def emits_def)
next
  case (Cons i rows)
  have "emits (em_then (em_then (emit i) (em_return ())) (emit_all rows)) ([i] @ rows) ()"
    by (intro emits_then [OF emits_emit_then [OF emits_return]] Cons.IH)
  then show ?case by (simp only: emit_all_def em_each.simps append_Cons append_Nil)
qed

lemma emits_Inr:
  "emits act rows x \<Longrightarrow> act e = Inr (y, e') \<Longrightarrow> y = x \<and> e' = e\<lparr>em_code := em_code e @ rows\<rparr>"
  by (auto simp: emits_def split: if_splits)

lemma emits_eq: "emits act rows x \<Longrightarrow> rows = rows' \<Longrightarrow> emits act rows' x"
  by simp

end
