(* ===== verification/Wasm_Semantics.thy ===== *)
theory Wasm_Semantics
  imports Wasm_Source Guest_Memory "HOL-Library.Signed_Division"
begin

text \<open>
  The numeric instructions of the WebAssembly core specification on machine words of their own
  width, and their image on 64-bit registers, where an \<^verbatim>\<open>i32\<close> is zero-extended. This is
  the specification the operator expansions of the lowering are proved against.
\<close>

section \<open>Integer operators at a width\<close>

text \<open>\<open>ibinop\<close> of the core specification, traps included; a comparison returns 0 or 1.\<close>

fun wasm_arith :: "binary_op \<Rightarrow> 'a::len word \<Rightarrow> 'a word \<Rightarrow> trap + 'a word" where
  "wasm_arith B_Add x y = Inr (x + y)"
| "wasm_arith B_Sub x y = Inr (x - y)"
| "wasm_arith B_Mul x y = Inr (x * y)"
| "wasm_arith B_DivU x y = (if y = 0 then Inl Trap_DivideByZero else Inr (x div y))"
| "wasm_arith B_RemU x y = (if y = 0 then Inl Trap_DivideByZero else Inr (x mod y))"
| "wasm_arith B_DivS x y =
     (if y = 0 then Inl Trap_DivideByZero
      else if sint x sdiv sint y = 2 ^ (LENGTH('a) - 1) then Inl Trap_IntegerOverflow
      else Inr (word_of_int (sint x sdiv sint y)))"
| "wasm_arith B_RemS x y =
     (if y = 0 then Inl Trap_DivideByZero else Inr (word_of_int (sint x smod sint y)))"
| "wasm_arith B_And x y = Inr (x AND y)"
| "wasm_arith B_Or x y = Inr (x OR y)"
| "wasm_arith B_Xor x y = Inr (x XOR y)"
| "wasm_arith B_Shl x y = Inr (push_bit (unat y mod LENGTH('a)) x)"
| "wasm_arith B_ShrU x y = Inr (drop_bit (unat y mod LENGTH('a)) x)"
| "wasm_arith B_ShrS x y = Inr (signed_drop_bit (unat y mod LENGTH('a)) x)"
| "wasm_arith B_Rotl x y = Inr (word_rotl (unat y mod LENGTH('a)) x)"
| "wasm_arith B_Rotr x y = Inr (word_rotr (unat y mod LENGTH('a)) x)"
| "wasm_arith B_Eq x y = Inr (of_bool (x = y))"
| "wasm_arith B_Ne x y = Inr (of_bool (x \<noteq> y))"
| "wasm_arith B_LtS x y = Inr (of_bool (sint x < sint y))"
| "wasm_arith B_LtU x y = Inr (of_bool (x < y))"
| "wasm_arith B_GtS x y = Inr (of_bool (sint x > sint y))"
| "wasm_arith B_GtU x y = Inr (of_bool (x > y))"
| "wasm_arith B_LeS x y = Inr (of_bool (sint x \<le> sint y))"
| "wasm_arith B_LeU x y = Inr (of_bool (x \<le> y))"
| "wasm_arith B_GeS x y = Inr (of_bool (sint x \<ge> sint y))"
| "wasm_arith B_GeU x y = Inr (of_bool (x \<ge> y))"

text \<open>\<open>iunop\<close> and \<open>itestop\<close>.\<close>

fun wasm_unop :: "unary_op \<Rightarrow> 'a::len word \<Rightarrow> 'a word" where
  "wasm_unop U_Clz x = of_nat (length (takeWhile Not (map (bit x) (rev [0..<LENGTH('a)]))))"
| "wasm_unop U_Ctz x = of_nat (length (takeWhile Not (map (bit x) [0..<LENGTH('a)])))"
| "wasm_unop U_Popcnt x = of_nat (length (filter (bit x) [0..<LENGTH('a)]))"
| "wasm_unop U_Eqz x = of_bool (x = 0)"
| "wasm_unop U_Extend8S x = scast (ucast x :: u8)"
| "wasm_unop U_Extend16S x = scast (ucast x :: 16 word)"
| "wasm_unop U_Extend32S x = scast (ucast x :: u32)"

section \<open>On registers\<close>

definition canonical_value :: "width \<Rightarrow> u64 \<Rightarrow> bool" where
  "canonical_value w v \<longleftrightarrow> w = W64 \<or> v < 2 ^ 32"

fun wasm_binary :: "width \<Rightarrow> binary_op \<Rightarrow> u64 \<Rightarrow> u64 \<Rightarrow> trap + u64" where
  "wasm_binary W64 op x y = wasm_arith op x y"
| "wasm_binary W32 op x y = map_sum id ucast (wasm_arith op (ucast x :: u32) (ucast y))"

fun wasm_unary :: "width \<Rightarrow> unary_op \<Rightarrow> u64 \<Rightarrow> u64" where
  "wasm_unary W64 op x = wasm_unop op x"
| "wasm_unary W32 op x = ucast (wasm_unop op (ucast x :: u32))"

fun wasm_convert :: "convert_op \<Rightarrow> u64 \<Rightarrow> u64" where
  "wasm_convert WrapI64 x = ucast (ucast x :: u32)"
| "wasm_convert ExtendI32S x = scast (ucast x :: u32)"
| "wasm_convert ExtendI32U x = ucast (ucast x :: u32)"

text \<open>The width of the result: comparisons and tests return an \<^verbatim>\<open>i32\<close>.\<close>

definition is_relop :: "binary_op \<Rightarrow> bool" where
  "is_relop op \<longleftrightarrow>
     op \<in> {B_Eq, B_Ne, B_LtS, B_LtU, B_GtS, B_GtU, B_LeS, B_LeU, B_GeS, B_GeU}"

section \<open>Zero-extended words\<close>

named_theorems w32_simps "operations on zero-extended 32-bit words"

lemma canonical_W64 [simp]: "canonical_value W64 v"
  by (simp add: canonical_value_def)

lemma unat_ucast_down: "unat (ucast (v :: u64) :: u32) = unat v mod 2 ^ 32"
  by (simp only: unsigned_ucast_eq take_bit_eq_mod len_num1 len_bit0 len_bit1) simp

lemma canonical_W32E:
  assumes "canonical_value W32 v"
  obtains v' :: u32 where "v = ucast v'"
proof
  have "unat v < 4294967296" using assms by (simp add: canonical_value_def word_less_nat_alt)
  then show "v = ucast (ucast v :: u32)"
    by (simp add: word_unat_eq_iff unat_ucast_down)
qed

lemma canonical_ucast [simp]: "canonical_value W32 (ucast (v :: u32))"
  using unat_u32_less_numeral [of v] by (simp add: canonical_value_def word_less_nat_alt)

lemma ucast_ucast_32 [simp]: "ucast (ucast (x :: u32) :: u64) = x"
  by (rule bit_word_eqI) (simp add: bit_simps)

lemma low32_bits: "low32 v = take_bit 32 v"
  by (rule bit_word_eqI) (auto simp: low32_def bit_simps)

lemma ucast_low32 [simp]: "ucast (low32 v) = (ucast v :: u32)"
  by (simp add: low32_def)

lemma ucast_down_of_unat: "(ucast (v :: u64) :: u32) = of_nat (unat v)"
  by (simp add: word_unat_eq_iff unat_ucast_down unat_of_nat)

lemma of_nat_mod_64: "(of_nat (k mod 2 ^ 64) :: u32) = of_nat k"
proof -
  have "(k mod 2 ^ 64) mod 2 ^ 32 = k mod (2 ^ 32 :: nat)"
    by (rule mod_mod_cancel) (rule le_imp_power_dvd, simp)
  then show ?thesis unfolding word_unat_eq_iff unat_of_nat by simp
qed

lemma ucast_down_ring:
  "(ucast (x + y :: u64) :: u32) = ucast x + ucast y"
  "(ucast (x - y :: u64) :: u32) = ucast x - ucast y"
  "(ucast (x * y :: u64) :: u32) = ucast x * ucast y"
proof -
  have add: "(ucast (x + y :: u64) :: u32) = ucast x + ucast y" for x y
    unfolding ucast_down_of_unat unat_word_ariths(1)
    using of_nat_mod_64 [of "unat x + unat y"] by simp
  show "(ucast (x + y :: u64) :: u32) = ucast x + ucast y" by (rule add)
  show "(ucast (x - y :: u64) :: u32) = ucast x - ucast y"
    using add [of "x - y" y] by simp
  show "(ucast (x * y :: u64) :: u32) = ucast x * ucast y"
    unfolding ucast_down_of_unat unat_word_ariths(2)
    using of_nat_mod_64 [of "unat x * unat y"] by simp
qed

lemma low32_ring [w32_simps]:
  "low32 ((ucast x :: u64) + ucast y) = ucast ((x :: u32) + y)"
  "low32 ((ucast x :: u64) - ucast y) = ucast (x - y)"
  "low32 ((ucast x :: u64) * ucast y) = ucast (x * y)"
  by (simp_all add: low32_def ucast_down_ring)

lemma ucast_up_simps [w32_simps]:
  fixes x y :: u32
  shows "(ucast x :: u64) AND ucast y = ucast (x AND y)" "(ucast x :: u64) OR ucast y = ucast (x OR y)"
    "(ucast x :: u64) XOR ucast y = ucast (x XOR y)"
    "(ucast x :: u64) = ucast y \<longleftrightarrow> x = y" "(ucast x :: u64) < ucast y \<longleftrightarrow> x < y"
    "(ucast x :: u64) \<le> ucast y \<longleftrightarrow> x \<le> y" "(ucast x :: u64) = 0 \<longleftrightarrow> x = 0"
  proof -
  show "(ucast x :: u64) AND ucast y = ucast (x AND y)" "(ucast x :: u64) OR ucast y = ucast (x OR y)"
    "(ucast x :: u64) XOR ucast y = ucast (x XOR y)"
    by (rule bit_word_eqI, auto simp: bit_simps)+
  show "(ucast x :: u64) = ucast y \<longleftrightarrow> x = y" "(ucast x :: u64) < ucast y \<longleftrightarrow> x < y"
    "(ucast x :: u64) \<le> ucast y \<longleftrightarrow> x \<le> y" "(ucast x :: u64) = 0 \<longleftrightarrow> x = 0"
    by (simp_all add: word_unat_eq_iff word_less_nat_alt word_le_nat_alt)
qed

lemma of_bool64_ucast [w32_simps]: "of_bool64 b = ucast (of_bool b :: u32)" "of_bool64 b = of_bool b"
  by (simp_all add: of_bool64_def)

end
