(* ===== verification/Word_Facts.thy ===== *)
theory Word_Facts
  imports Wasm_Semantics Lookup_Tables
begin

text \<open>
  The word arithmetic behind the operator expansions: shifts by a bitmask, rotations through a
  doubled word, sign extension by shifting up and down, bit counts of a zero-extended word,
  division through magnitudes.
\<close>

lemma bit_u32_ge [simp]: "32 \<le> n \<Longrightarrow> \<not> bit (x :: u32) n"
  by (simp add: bit_imp_le_length leD bit_word.rep_eq) 

section \<open>Counts\<close>

lemma unat_and_low:
  "unat ((v :: u64) AND 63) = unat v mod 64" "unat (v AND 31) = unat v mod 32"
proof -
  have m: "(63 :: u64) = mask 6" "(31 :: u64) = mask 5" by (simp_all add: mask_eq_exp_minus_1)
  show "unat ((v :: u64) AND 63) = unat v mod 64" "unat (v AND 31) = unat v mod 32"
    unfolding m by (simp_all add: take_bit_eq_mask [symmetric] unsigned_take_bit_eq take_bit_eq_mod unat_mod)
qed

lemma trailing_zeros_bitmask: "unat k < 64 \<Longrightarrow> trailing_zeros (shift_right_bitmask k) = unat k"
  by (rule shift_mask_trailing [OF shift_right_bitmask_mask])

lemma push_bit_one_mult: "(x :: u64) * push_bit n 1 = push_bit n x"
  by (simp add: push_bit_eq_mult)

section \<open>Shifts\<close>

lemma shift_w32:
  fixes x :: u32
  shows "drop_bit n (ucast x :: u64) = ucast (drop_bit n x)"
    and "low32 (push_bit n (ucast x)) = ucast (push_bit n x)"
    and "n < 32 \<Longrightarrow> low32 (signed_drop_bit n (scast x)) = ucast (signed_drop_bit n x)"
proof -
  show "drop_bit n (ucast x :: u64) = ucast (drop_bit n x)"
    by (rule bit_word_eqI) (auto simp: bit_simps dest: bit_imp_le_length)
  show "low32 (push_bit n (ucast x)) = ucast (push_bit n x)"
    unfolding low32_bits by (rule bit_word_eqI) (auto simp: bit_simps)
  show "low32 (signed_drop_bit n (scast x)) = ucast (signed_drop_bit n x)" if "n < 32"
    unfolding low32_bits using that
    by (intro bit_word_eqI) (auto simp: bit_simps bit_signed_drop_bit_iff)
qed

section \<open>Rotations\<close>

lemma rotl_as_rotr: "word_rotl n (x :: 'a::len word) = word_rotr (LENGTH('a) - n mod LENGTH('a)) x"
  by (rule bit_word_eqI) (simp add: bit_word_rotl_iff bit_word_rotr_iff)

lemma rotr_mod: "word_rotr (n mod LENGTH('a)) (x :: 'a::len word) = word_rotr n x"
  by (rule bit_word_eqI) (simp add: bit_word_rotr_iff mod_add_right_eq)

lemma rotr_doubled:
  assumes "n < 32"
  shows "low32 (drop_bit n ((ucast (x :: u32) * push_bit 32 1) OR ucast x)) = ucast (word_rotr n x)"
proof (rule bit_word_eqI)
  fix i :: nat
  have idx: "(i + n) mod 32 = (if i + n < 32 then i + n else i + n - 32)" if "i < 32"
    using that assms by (simp add: mod_if)
  have e: "low32 (drop_bit n ((ucast x * push_bit 32 1) OR ucast x)) =
    take_bit 32 (drop_bit n (push_bit 32 (ucast x) OR ucast x))"
    by (simp only: low32_bits push_bit_one_mult)
  show "bit (low32 (drop_bit n ((ucast x * push_bit 32 1) OR ucast x))) i =
    bit (ucast (word_rotr n x) :: u64) i"
  proof (cases "i < 32")
    case True
    then have "i + n - 32 < 64" using assms by linarith
    then show ?thesis unfolding e using True assms idx [OF True]
      by (cases "i + n < 32") (simp_all add: bit_simps bit_word_rotr_iff add.commute [of n] del: less_Suc_eq)
  qed (simp only: e, simp add: bit_simps)
qed

lemma mod_complement:
  assumes "(u + n) mod m = 0" "0 < (m :: nat)"
  shows "u mod m = (m - n mod m) mod m"
proof -
  have lt: "u mod m < m" "n mod m < m" using assms(2) by simp_all
  have "(u mod m + n mod m) mod m = 0" using assms(1) by (simp add: mod_simps)
  then have "u mod m + n mod m = 0 \<or> u mod m + n mod m = m"
    using lt by (cases "u mod m + n mod m < m") (auto simp: le_mod_geq)
  then show ?thesis
  proof
    assume "u mod m + n mod m = m"
    then have "m - n mod m = u mod m" by linarith
    then show ?thesis using lt by simp
  qed (use lt in simp)
qed

lemma rotl_counts:
  "word_rotr (unat (0 - (b :: u64) AND 63)) (x :: u64) = word_rotl (unat b mod 64) x"
  "word_rotr (unat (0 - ucast c AND (31 :: u64))) (y :: u32) = word_rotl (unat (c :: u32) mod 32) y"
proof -
  have "(unat (0 - z) + unat z) mod 2 ^ 64 = 0" for z :: u64
    using unat_word_ariths(1) [of "0 - z" z] by simp
  moreover have "k mod 2 ^ 64 mod 64 = k mod 64" "k mod 2 ^ 64 mod 32 = k mod 32" for k :: nat
    using mod_mod_cancel [of "2 ^ 6" "2 ^ 64" k] mod_mod_cancel [of "2 ^ 5" "2 ^ 64" k]
    by (simp_all add: le_imp_power_dvd)
  ultimately have sum: "(unat (0 - z) + unat z) mod 64 = 0" "(unat (0 - z) + unat z) mod 32 = 0" for z :: u64
    by (metis mod_0)+
  have neg: "unat (0 - z) mod 64 = (64 - unat z mod 64) mod 64"
    "unat (0 - z) mod 32 = (32 - unat z mod 32) mod 32" for z :: u64
    by (rule mod_complement [OF sum(1)], simp, rule mod_complement [OF sum(2)], simp)
  show "word_rotr (unat (0 - b AND 63)) x = word_rotl (unat b mod 64) x"
    using neg(1) [of b] rotr_mod [of "64 - unat b mod 64" x]
    by (simp add: unat_and_low rotl_as_rotr)
  show "word_rotr (unat (0 - ucast c AND (31 :: u64))) y = word_rotl (unat c mod 32) y"
    using neg(2) [of "ucast c"] rotr_mod [of "32 - unat c mod 32" y]
    by (simp add: unat_and_low rotl_as_rotr)
qed

section \<open>Bit counts\<close>

lemma upt_64: "[0..<64] = [0..<32] @ [32..<64]"
  using upt_add_eq_append [of 0 32 32] by simp

lemma bits_ucast_low: "map (bit (ucast (x :: u32) :: u64)) [0..<32] = map (bit x) [0..<32]"
  by (simp add: bit_simps)

lemma count_small: "k \<le> 32 \<Longrightarrow> (ucast (of_nat k :: u32) :: u64) = of_nat k"
  by (simp add: word_unat_eq_iff unat_of_nat)

lemma clz_w32:
  "of_nat (leading_zeros (ucast (x :: u32))) - 32 = (ucast (wasm_unop U_Clz x) :: u64)"
proof -
  let ?n = "length (takeWhile Not (map (bit x) (rev [0..<32])))"
  let ?high = "map (bit (ucast x :: u64)) (rev [32..<64])"
  have "takeWhile Not (?high @ map (bit x) (rev [0..<32])) =
    ?high @ takeWhile Not (map (bit x) (rev [0..<32]))"
    by (rule takeWhile_append2) (auto simp: bit_simps)
  moreover have "map (bit (ucast x :: u64)) (rev [0..<64]) = ?high @ map (bit x) (rev [0..<32])"
    unfolding upt_64 rev_append map_append using bits_ucast_low [of x] by (simp add: rev_map [symmetric] del: upt.simps)
  ultimately have "leading_zeros (ucast x) = 32 + ?n"
    unfolding leading_zeros_def by simp
  moreover have "?n \<le> 32"
    using length_takeWhile_le [of Not "map (bit x) (rev [0..<32])"] by simp
  ultimately show ?thesis by (simp add: count_small)
qed

lemma ctz_w32:
  "of_nat (trailing_zeros (ucast (x :: u32) OR push_bit 32 1)) = (ucast (wasm_unop U_Ctz x) :: u64)"
proof -
  define b :: u64 where "b = ucast x OR push_bit 32 1"
  let ?n = "length (takeWhile Not (map (bit x) [0..<32]))"
  have bit_b: "bit b i \<longleftrightarrow> bit x i \<or> i = 32" for i
    unfolding b_def bit_or_iff bit_push_bit_iff by (auto simp: bit_simps)
  have low: "map (bit b) [0..<32] = map (bit x) [0..<32]" by (simp add: bit_b)
  have high: "takeWhile Not (map (bit b) [32..<64]) = []"
    by (simp add: upt_conv_Cons bit_b)
  have "trailing_zeros b = ?n"
  proof (cases "\<forall>i < 32. \<not> bit x i")
    case True
    have "takeWhile Not (map (bit x) [0..<32] @ map (bit b) [32..<64]) =
      map (bit x) [0..<32] @ takeWhile Not (map (bit b) [32..<64])"
      and "takeWhile Not (map (bit x) [0..<32]) = map (bit x) [0..<32]"
      by (intro takeWhile_append2) (auto simp: takeWhile_eq_all_conv True)
    then show ?thesis
      unfolding trailing_zeros_def upt_64 map_append low high append_Nil2 by (simp only:)
  next
    case False
    then obtain i where "i < 32" "bit x i" by blast
    then have "takeWhile Not (map (bit x) [0..<32] @ map (bit b) [32..<64]) =
      takeWhile Not (map (bit x) [0..<32])"
      by (intro takeWhile_append1 [of "bit x i"]) auto
    then show ?thesis unfolding trailing_zeros_def upt_64 map_append low by simp
  qed
  moreover have "?n \<le> 32" using length_takeWhile_le [of Not "map (bit x) [0..<32]"] by simp
  ultimately show ?thesis unfolding b_def [symmetric] by (simp add: count_small)
qed

lemma popcnt_w32: "of_nat (count_ones (ucast (x :: u32))) = (ucast (wasm_unop U_Popcnt x) :: u64)"
proof -
  have "filter (bit (ucast x :: u64)) [32..<64] = []" by (simp add: filter_empty_conv bit_simps)
  moreover have "filter (bit (ucast x :: u64)) [0..<32] = filter (bit x) [0..<32]"
    by (rule filter_cong) (auto simp: bit_simps)
  ultimately have "count_ones (ucast x) = length (filter (bit x) [0..<32])"
    unfolding count_ones_def upt_64 by simp
  moreover have "length (filter (bit x) [0..<32]) \<le> 32"
    using length_filter_le [of "bit x" "[0..<32]"] by simp
  ultimately show ?thesis by (simp add: count_small)
qed

section \<open>Sign extension\<close>

lemma sint_scast_32 [simp]: "sint (scast (x :: u32) :: u64) = sint x"
proof -
  have "- (2 ^ 31) \<le> sint x" "sint x < 2 ^ 31" using sint_ge [of x] sint_lt [of x] by simp_all
  then have "signed_take_bit 63 (sint x) = sint x" by (intro signed_take_bit_int_eq_self) simp_all
  then show ?thesis by (simp add: signed_scast_eq)
qed

lemma extend_by_shifts:
  "signed_drop_bit 56 (push_bit 56 (x :: u64)) = scast (ucast x :: u8)"
  "signed_drop_bit 48 (push_bit 48 (x :: u64)) = scast (ucast x :: 16 word)"
  by (rule bit_word_eqI, auto simp: bit_simps bit_signed_drop_bit_iff)+

section \<open>Division\<close>

text \<open>The checks of the division rows pin the quotient and the remainder, whatever the advice.\<close>

lemma divmod_pinned:
  assumes "checked_mul_is_some q b" "q * b \<le> a" "a - q * b < b"
  shows "q = a div b" "a - q * b = a mod b"
proof -
  have m: "unat (q * b) = unat q * unat b"
    using assms(1) by (simp add: checked_mul_is_some_def unat_word_ariths)
  have s: "unat (a - q * b) = unat a - unat q * unat b" "unat q * unat b \<le> unat a"
    using assms(2) m by (simp_all add: unat_sub word_le_nat_alt)
  have lt: "unat a - unat q * unat b < unat b" using assms(3) s by (simp add: word_less_nat_alt)
  then have "unat a div unat b = unat q"
    using s(2) by (intro div_nat_eqI) (simp_all add: mult.commute)
  then show q: "q = a div b" by (simp add: word_unat_eq_iff unat_div)
  then show "a - q * b = a mod b" by (metis minus_div_mult_eq_mod)
qed

lemma divmod_honest:
  assumes "b \<noteq> (0 :: u64)"
  shows "checked_mul_is_some (a div b) b" "a div b * b \<le> a" "a - a div b * b < b"
    "a - a div b * b = a mod b"
proof -
  have le: "unat (a div b) * unat b \<le> unat a"
    by (simp add: unat_div mult.commute [of "unat a div unat b"])
  then show c: "checked_mul_is_some (a div b) b"
    using unat_u64_less [of a] by (simp add: checked_mul_is_some_def)
  then show "a div b * b \<le> a"
    using le by (simp add: checked_mul_is_some_def word_le_nat_alt unat_word_ariths)
  show m: "a - a div b * b = a mod b" by (rule minus_div_mult_eq_mod)
  show "a - a div b * b < b" unfolding m using assms by (simp add: word_mod_less_divisor word_gt_0)
qed

text \<open>The magnitude of a signed value: the \<^const>\<open>A_NegateIf\<close> row on the value itself.\<close>

definition magnitude :: "u64 \<Rightarrow> u64" where
  "magnitude x = (if drop_bit 63 x = 1 then - x else x)"

lemma sign_bit: "drop_bit 63 (x :: u64) = 1 \<longleftrightarrow> sint x < 0"
proof -
  have "sint x < 0 \<longleftrightarrow> bit x 63" using bit_last_iff [of x] by simp
  then show ?thesis by (simp add: drop_bit_63)
qed

lemma magnitude_of_int: "magnitude x = word_of_int \<bar>sint x\<bar>"
proof (cases "sint x < 0")
  case True
  then show ?thesis by (simp add: magnitude_def sign_bit wi_hom_neg [symmetric])
next
  case False
  then show ?thesis by (simp add: magnitude_def sign_bit)
qed

lemma uint_magnitude: "uint (magnitude x) = \<bar>sint x\<bar>"
proof -
  have "\<bar>sint x\<bar> < 2 ^ 64" using sint_ge [of x] sint_lt [of x] by simp
  then show ?thesis by (simp add: magnitude_of_int uint_word_of_int)
qed

lemma sdiv_overflow:
  fixes x y :: "'a::len word"
  assumes "sint y \<noteq> 0"
  shows "sint x sdiv sint y = 2 ^ (LENGTH('a) - 1) \<longleftrightarrow>
    sint x = - (2 ^ (LENGTH('a) - 1)) \<and> sint y = - 1"
proof -
  define m :: int where "m = 2 ^ (LENGTH('a) - 1)"
  have m: "0 < m" by (simp add: m_def)
  have x: "- m \<le> sint x" "sint x < m"
    using sint_ge [of x] sint_lt [of x] by (simp_all add: m_def)
  have "sint x = - m \<and> sint y = - 1" if eq: "sint x sdiv sint y = m"
  proof -
    let ?q = "\<bar>sint x\<bar> div \<bar>sint y\<bar>"
    have q: "0 \<le> ?q" "?q \<le> \<bar>sint x\<bar>"
      using assms zdiv_mono2 [of "\<bar>sint x\<bar>" 1 "\<bar>sint y\<bar>"] by (simp_all add: pos_imp_zdiv_nonneg_iff)
    have e: "sgn (sint x) * sgn (sint y) * ?q = m" using eq by (simp add: signed_divide_int_def)
    then have s: "sgn (sint x) * sgn (sint y) = 1 \<and> ?q = m"
      using m q by (auto simp: sgn_if split: if_splits)
    then have ax: "\<bar>sint x\<bar> = m" using q(2) x by linarith
    then have sx: "sint x = - m" using x by linarith
    have "\<bar>sint y\<bar> = 1"
    proof (rule ccontr)
      assume "\<bar>sint y\<bar> \<noteq> 1"
      then have "1 < \<bar>sint y\<bar>" using assms by linarith
      then show False using int_div_less_self [of m "\<bar>sint y\<bar>"] m s ax by simp
    qed
    then show ?thesis using s sx m by (auto simp: sgn_if split: if_splits)
  qed
  moreover have "sint x sdiv sint y = m" if "sint x = - m" "sint y = - 1"
    using that m by (simp add: signed_divide_int_def)
  ultimately show ?thesis unfolding m_def by blast
qed

text \<open>Re-signing the quotient and the remainder of the magnitudes.\<close>

lemma signed_from_magnitudes:
  assumes "sint x \<noteq> 0 \<longrightarrow> (neg_q \<longleftrightarrow> (sint x < 0) \<noteq> (sint y < 0))" "neg_r \<longleftrightarrow> sint x < 0" "y \<noteq> 0"
  shows "(if neg_q then - (magnitude x div magnitude y) else magnitude x div magnitude y) =
      (word_of_int (sint x sdiv sint y) :: u64)"
    and "(if neg_r then - (magnitude x mod magnitude y) else magnitude x mod magnitude y) =
      (word_of_int (sint x smod sint y) :: u64)"
proof -
  have q: "magnitude x div magnitude y = word_of_int (\<bar>sint x\<bar> div \<bar>sint y\<bar>)"
    by (simp add: word_div_def uint_magnitude)
  have r: "magnitude x mod magnitude y = word_of_int (\<bar>sint x\<bar> mod \<bar>sint y\<bar>)"
    by (simp add: word_mod_def uint_magnitude)
  have y: "sint y \<noteq> 0" using assms(3) by (metis scast_id scast_eq word_of_int_0)
  show "(if neg_q then - (magnitude x div magnitude y) else magnitude x div magnitude y) =
      (word_of_int (sint x sdiv sint y) :: u64)"
    using assms(1) y unfolding q
    by (cases "sint x = 0") (auto simp: signed_divide_int_def sgn_if wi_hom_neg [symmetric])
  show "(if neg_r then - (magnitude x mod magnitude y) else magnitude x mod magnitude y) =
      (word_of_int (sint x smod sint y) :: u64)"
    using assms(2) unfolding r
    by (cases "sint x = 0") (auto simp: signed_modulo_int_def sgn_if wi_hom_neg [symmetric])
qed

end
