(* ===== verification/Expand_Correct.thy ===== *)
theory Expand_Correct
  imports Exec_Rows Word_Facts
begin

text \<open>
  Correctness of the operator expansions of \<^verbatim>\<open>lower.rs\<close>: the rows each method appends,
  and that executing them on registers computes the WebAssembly operator of
  \<^verbatim>\<open>Wasm_Semantics\<close>, traps included, writing only the destination and the scratch
  registers \<^const>\<open>T0\<close> to \<^const>\<open>T4\<close>. The divisions are treated for an arbitrary advice value.
\<close>

section \<open>Registers\<close>

text \<open>A register of the frame, which no expansion uses as scratch.\<close>

definition frame_reg :: "reg \<Rightarrow> bool" where
  "frame_reg r \<longleftrightarrow> FRAME_BASE \<le> reg_index r"

lemma frame_reg_neq [simp]:
  "frame_reg r \<Longrightarrow> n < 12 \<Longrightarrow> r \<noteq> Reg n" "frame_reg r \<Longrightarrow> n < 12 \<Longrightarrow> Reg n \<noteq> r"
  by (auto simp: frame_reg_def FRAME_BASE_def)

lemma frame_slot_frame_reg: "frame_slot i = Some r \<Longrightarrow> frame_reg r"
  by (auto simp: frame_slot_eq_Some frame_reg_def FRAME_BASE_def)

definition scratch :: "reg set" where
  "scratch = {T0, T1, T2, T3, T4}"

lemma set_reg_apply [simp]: "set_reg regs rd v x = (if x = rd then if rd = ZERO then 0 else v else regs x)"
  by (simp add: set_reg_def)

text \<open>The outcome of a row sequence for an operator with result \<open>res\<close>: its trap, or its value
  in \<open>rd\<close> with memory and every other register but the scratch registers unchanged.\<close>

fun computes :: "reg \<Rightarrow> rows_state \<Rightarrow> trap + u64 \<Rightarrow> trap + rows_state \<Rightarrow> bool" where
  "computes rd s (Inl t) out \<longleftrightarrow> out = Inl t"
| "computes rd (regs, mem) (Inr v) out \<longleftrightarrow> (\<exists>regs'. out = Inr (regs', mem) \<and> regs' rd = v \<and>
     (\<forall>r. r \<noteq> rd \<longrightarrow> r \<notin> scratch \<longrightarrow> regs' r = regs r))"

section \<open>The rows\<close>

definition bitmask_rows :: "width \<Rightarrow> reg \<Rightarrow> ir list" where
  "bitmask_rows w b = (case w of
      W64 \<Rightarrow> [ir_alu_imm A_ShiftRightBitmask T0 b 0]
    | W32 \<Rightarrow> [ir_alu_imm A_And T0 b 31, ir_alu_imm A_ShiftRightBitmask T0 T0 0])"

definition rotr_rows :: "width \<Rightarrow> reg \<Rightarrow> reg \<Rightarrow> reg \<Rightarrow> ir list" where
  "rotr_rows w rd a b = (case w of
      W64 \<Rightarrow> bitmask_rows w b @ [ir_alu A_Rotr rd a (op_reg T0)]
    | W32 \<Rightarrow> [mul64 T2 a (op_imm (push_bit 32 1)), ir_alu A_Or T2 T2 (op_reg a)] @
        bitmask_rows w b @ [ir_alu A_Srl T2 T2 (op_reg T0), ir_alu_imm A_LowerHalfWord rd T2 0])"

definition nonzero_rows :: "reg \<Rightarrow> ir list" where
  "nonzero_rows b = [row_assert A_Ne DivideByZero b (op_imm 0)]"

definition divmod_rows :: "width \<Rightarrow> reg \<Rightarrow> reg \<Rightarrow> ir list" where
  "divmod_rows w a b =
     Advice QuotientU T3 a b #
     (if w = W64 then [row_assert A_MulUNoOverflow IntegerOverflow T3 (op_reg b)] else []) @
     [mul64 T2 T3 (op_reg b),
      row_assert A_LeU IntegerOverflow T2 (op_reg a),
      ir_alu (A_Sub W64) T4 a (op_reg T2),
      row_assert A_LtU IntegerOverflow T4 (op_reg b)]"

definition overflow_rows :: "width \<Rightarrow> reg \<Rightarrow> reg \<Rightarrow> ir list" where
  "overflow_rows w a b = (case signed_overflow_pair w of (min_val, neg_one) \<Rightarrow>
     [ir_alu_imm A_Eq T2 a min_val, ir_alu_imm A_Eq T4 b neg_one,
      ir_alu A_And T2 T2 (op_reg T4), row_assert A_Eq IntegerOverflow T2 (op_imm 0)])"

definition magnitude_rows :: "width \<Rightarrow> reg \<Rightarrow> reg \<Rightarrow> ir list" where
  "magnitude_rows w a b =
     [widen_row w T0 a, ir_alu A_NegateIf T0 T0 (op_reg T0),
      widen_row w T1 b, ir_alu A_NegateIf T1 T1 (op_reg T1)]"

definition resign_rows :: "width \<Rightarrow> binary_op \<Rightarrow> reg \<Rightarrow> reg \<Rightarrow> reg \<Rightarrow> ir list" where
  "resign_rows w op rd a b =
     (let magnitude = (if op = B_DivS then T3 else T4) in
      (if op = B_DivS then [ir_alu A_Xor T2 a (op_reg b), widen_row w T2 T2]
       else [widen_row w T2 a]) @
      (case w of
         W64 \<Rightarrow> [ir_alu A_NegateIf rd T2 (op_reg magnitude)]
       | W32 \<Rightarrow> [ir_alu A_NegateIf T2 T2 (op_reg magnitude), ir_alu_imm A_LowerHalfWord rd T2 0]))"

definition compare_rows :: "width \<Rightarrow> binary_op \<Rightarrow> reg \<Rightarrow> reg \<Rightarrow> reg \<Rightarrow> ir list" where
  "compare_rows w op rd a b =
     (let (table, swap) = signed_compare op; (x, y) = (case w of W64 \<Rightarrow> (a, b) | W32 \<Rightarrow> (T0, T1)) in
      (case w of W64 \<Rightarrow> []
       | W32 \<Rightarrow> [ir_alu_imm A_SignExtendWord T0 a 0, ir_alu_imm A_SignExtendWord T1 b 0]) @
      [if swap then ir_alu table rd y (op_reg x) else ir_alu table rd x (op_reg y)])"

definition binary_rows :: "width \<Rightarrow> binary_op \<Rightarrow> reg \<Rightarrow> reg \<Rightarrow> reg \<Rightarrow> ir list" where
  "binary_rows w op rd a b = (case op of
      B_GtU \<Rightarrow> [ir_alu A_LtU rd b (op_reg a)]
    | B_LtS \<Rightarrow> compare_rows w op rd a b
    | B_GtS \<Rightarrow> compare_rows w op rd a b
    | B_LeS \<Rightarrow> compare_rows w op rd a b
    | B_GeS \<Rightarrow> compare_rows w op rd a b
    | B_Shl \<Rightarrow> (case w of
          W64 \<Rightarrow> [ir_alu_imm A_Pow2 T0 b 0, ir_alu (A_Mul W64) rd a (op_reg T0)]
        | W32 \<Rightarrow> [ir_alu_imm A_And T0 b 31, ir_alu_imm A_Pow2 T0 T0 0,
                  ir_alu (A_Mul W32) rd a (op_reg T0)])
    | B_ShrU \<Rightarrow> bitmask_rows w b @ [ir_alu A_Srl rd a (op_reg T0)]
    | B_ShrS \<Rightarrow> bitmask_rows w b @ (case w of
          W64 \<Rightarrow> [ir_alu A_Sra rd a (op_reg T0)]
        | W32 \<Rightarrow> [ir_alu_imm A_SignExtendWord T1 a 0, ir_alu A_Sra T1 T1 (op_reg T0),
                  ir_alu_imm A_LowerHalfWord rd T1 0])
    | B_Rotr \<Rightarrow> rotr_rows w rd a b
    | B_Rotl \<Rightarrow> ir_alu (A_Sub W64) T1 ZERO (op_reg b) # rotr_rows w rd a T1
    | B_DivU \<Rightarrow> nonzero_rows b @ divmod_rows w a b @ [ir_mov rd T3]
    | B_RemU \<Rightarrow> nonzero_rows b @ divmod_rows w a b @ [ir_mov rd T4]
    | B_DivS \<Rightarrow> nonzero_rows b @ overflow_rows w a b @ magnitude_rows w a b @
        divmod_rows W64 T0 T1 @ resign_rows w op rd a b
    | B_RemS \<Rightarrow> nonzero_rows b @ magnitude_rows w a b @ divmod_rows W64 T0 T1 @
        resign_rows w op rd a b
    | _ \<Rightarrow> [])"

section \<open>They are the rows the code emits\<close>

lemma emits_case_prod: "emits (f x y) r z \<Longrightarrow> emits (case (x, y) of (a, b) \<Rightarrow> f a b) r z"
  by simp

lemmas emits_intro = emits_case_prod emits_emit_then emits_then emits_bind emits_return emits_all

lemma emits_bitmask: "emits (emit_shift_bitmask w b) (bitmask_rows w b) ()"
  unfolding emit_shift_bitmask_def bitmask_rows_def
  by (cases w) (simp_all only: width.case, (rule emits_eq, (rule emits_intro)+, simp)+)

lemma emits_rotr: "emits (emit_rotr w rd a b) (rotr_rows w rd a b) ()"
  unfolding emit_rotr_def rotr_rows_def
  by (cases w) (simp_all only: width.case, (rule emits_eq, (rule emits_bitmask emits_intro)+, simp)+)

lemma emits_nonzero: "emits (emit_assert_nonzero b) (nonzero_rows b) ()"
  unfolding emit_assert_nonzero_def nonzero_rows_def by (rule emits_all)

lemma emits_divmod: "emits (emit_unsigned_divmod w a b) (divmod_rows w a b) ()"
  unfolding emit_unsigned_divmod_def divmod_rows_def
  by (cases w) (simp_all only: width.distinct if_False if_True simp_thms,
    (rule emits_eq, (rule emits_intro)+, simp)+)

lemma emits_signed_divmod:
  assumes "op = B_DivS \<or> op = B_RemS"
  shows "emits (emit_signed_divmod w op rd a b)
    (nonzero_rows b @ (if op = B_DivS then overflow_rows w a b else []) @ magnitude_rows w a b @
     divmod_rows W64 T0 T1 @ resign_rows w op rd a b) ()"
proof -
  note rules = emits_nonzero emits_divmod emits_intro
  show ?thesis using assms
    unfolding emit_signed_divmod_def overflow_rows_def magnitude_rows_def resign_rows_def Let_def
    by (cases w; elim disjE; hypsubst)
      (simp_all only: width.case prod.case if_True if_False binary_op.distinct simp_thms
        split_beta fst_conv snd_conv signed_overflow_pair.simps,
       (rule emits_eq, (rule rules)+, simp)+)
qed

lemma emits_compare: "emits (emit_signed_compare w op rd a b) (compare_rows w op rd a b) ()"
  unfolding emit_signed_compare_def compare_rows_def
  by (cases w; cases "signed_compare op"; cases "snd (signed_compare op)")
    (simp_all only: width.case prod.case Let_def snd_conv if_True if_False append_Nil append_Cons,
     (rule emits_eq, (rule emits_intro)+, simp)+)

text \<open>The row of an operator with a table of its own, or its expansion.\<close>

definition emitted_rows :: "width \<Rightarrow> binary_op \<Rightarrow> reg \<Rightarrow> reg \<Rightarrow> operand \<Rightarrow> ir list" where
  "emitted_rows w op rd a b = (case direct_op w op of
      Some alu \<Rightarrow> [ir_alu alu rd a b]
    | None \<Rightarrow> (case b of Op_Reg r \<Rightarrow> binary_rows w op rd a r
        | Op_Imm v \<Rightarrow> ir_const T0 v # binary_rows w op rd a T0))"

lemma emits_binary_reg:
  assumes "direct_op w op = None"
  shows "emits (emit_binary_reg w op rd a b) (binary_rows w op rd a b) ()"
proof -
  note rules = emits_compare emits_rotr emits_bitmask emits_nonzero emits_divmod emits_intro
  show ?thesis using assms emits_signed_divmod [of op w rd a b]
    unfolding emit_binary_reg_def binary_rows_def emit_shl_def emit_shr_s_def
    by (cases op; cases w; simp_all only: direct_op.simps binary_op.case width.case option.distinct
        binary_op.distinct if_True if_False simp_thms append_Nil)
      (rule emits_eq, (rule rules)+, simp)+
qed

lemma emits_binary: "emits (emit_binary w op rd a b) (emitted_rows w op rd a b) ()"
proof (cases "direct_op w op")
  case None
  note rules = emits_binary_reg [OF None] emits_intro
  show ?thesis unfolding emit_binary_def emitted_rows_def None option.case
    by (cases b) (simp_all only: operand.case, (rule emits_eq, (rule rules)+, simp)+)
qed (simp add: emit_binary_def emitted_rows_def emits_all)

section \<open>The operators without division\<close>

lemma direct_correct:
  assumes "direct_op w op = Some alu" "canonical_value w x" "canonical_value w y"
  shows "wasm_binary w op x y = Inr (evaluate alu x y)"
proof (cases w)
  case W64
  then show ?thesis using assms by (cases op) (auto simp: of_bool64_def)
next
  case W32
  then obtain x' y' :: u32 where "x = ucast x'" "y = ucast y'"
    using assms canonical_W32E by metis
  then show ?thesis using assms W32 by (cases op) (auto simp: w32_simps)
qed

lemma computesI:
  "exec_rows adv rows (regs, mem) = Inr (regs', mem) \<Longrightarrow> regs' rd = v \<Longrightarrow>
    (\<And>r. r \<noteq> rd \<Longrightarrow> r \<notin> scratch \<Longrightarrow> regs' r = regs r) \<Longrightarrow>
    res = Inr v \<Longrightarrow> computes rd (regs, mem) res (exec_rows adv rows (regs, mem))"
  by auto

lemma count_facts:
  "unat ((x :: u64) AND 63) < 64" "unat (x AND 31) < 64" "unat (x AND 31) < 32"
  "(x AND 31) AND 63 = x AND 31"
  "unat (y :: u64) mod 64 = unat (y AND 63)" "unat (z :: u32) mod 32 = unat ((ucast z :: u64) AND 31)"
proof -
  show "(x AND 31) AND 63 = x AND 31" by (simp add: and.assoc)
qed (simp_all add: unat_and_low less_trans [of _ 32 64])

lemma rotr_w32:
  "n < 32 \<Longrightarrow> low32 (drop_bit n (ucast (x :: u32) * 4294967296) OR ucast (drop_bit n x)) =
    ucast (word_rotr n x)"
  using rotr_doubled [of n x] by (simp add: shift_w32)

lemma shl_w32: "low32 (ucast (x :: u32) * 2 ^ n) = ucast (push_bit n x)"
  using shift_w32(2) [of n x] by (simp add: push_bit_eq_mult mult.commute)

lemmas expansion_simps = compare_rows_def rotr_rows_def bitmask_rows_def row_ctors
  scratch_def of_bool64_def trailing_zeros_bitmask count_facts

lemma expansion_correct:
  assumes "frame_reg rd" "frame_reg a" "frame_reg b" "regs ZERO = 0"
    "canonical_value w (regs a)" "canonical_value w (regs b)"
    "direct_op w op = None" "op \<notin> {B_DivU, B_RemU, B_DivS, B_RemS}"
  shows "computes rd (regs, mem) (wasm_binary w op (regs a) (regs b))
    (exec_rows adv (binary_rows w op rd a b) (regs, mem))"
proof (cases w)
  case W64
  show ?thesis using assms rotl_counts(1) [of "regs b" "regs a"] unfolding W64 binary_rows_def
    by (cases op) (simp_all add: expansion_simps push_bit_eq_mult mult.commute)
next
  case W32
  then obtain x y :: u32 where xy: "regs a = ucast x" "regs b = ucast y"
    using assms canonical_W32E by metis
  show ?thesis using assms xy rotl_counts(2) [of y x]
    unfolding W32 binary_rows_def
    by (cases op) (simp_all add: expansion_simps w32_simps shift_w32 rotr_w32 shl_w32)
qed

section \<open>Division\<close>

definition quotient_ok :: "width \<Rightarrow> u64 \<Rightarrow> u64 \<Rightarrow> u64 \<Rightarrow> bool" where
  "quotient_ok w q x y \<longleftrightarrow> (w = W64 \<longrightarrow> checked_mul_is_some q y) \<and> q * y \<le> x \<and> x - q * y < y"

lemma quotient_okD:
  "quotient_ok W64 q x y \<Longrightarrow> q = x div y" "quotient_ok W64 q x y \<Longrightarrow> x - q * y = x mod y"
  using divmod_pinned by (auto simp: quotient_ok_def)

lemma quotient_ok_div: "y \<noteq> 0 \<Longrightarrow> quotient_ok w (x div y) x y"
  using divmod_honest by (auto simp: quotient_ok_def)

definition widen :: "width \<Rightarrow> u64 \<Rightarrow> u64" where
  "widen w x = (case w of W64 \<Rightarrow> x | W32 \<Rightarrow> scast (ucast x :: u32))"

text \<open>What each group of rows does to the registers.\<close>

lemma divmod_exec:
  assumes "a \<notin> {ZERO, T2, T3, T4}" "b \<notin> {ZERO, T2, T3, T4}"
  shows "exec_rows adv (divmod_rows w a b) (regs, mem) =
    (let x = regs a; y = regs b; q = adv x y in
     if quotient_ok w q x y then Inr (regs(T3 := q, T2 := q * y, T4 := x - q * y), mem)
     else Inl Trap_IntegerOverflow)"
  using assms
  by (cases w) (auto simp: divmod_rows_def row_ctors quotient_ok_def Let_def assert_trap_def fun_eq_iff)

lemma nonzero_exec:
  "exec_rows adv (nonzero_rows b) (regs, mem) =
    (if regs b = 0 then Inl Trap_DivideByZero else Inr (regs, mem))"
  by (simp add: nonzero_rows_def row_ctors assert_trap_def)

lemma overflow_exec:
  assumes "a \<notin> {T2, T4}" "b \<notin> {T2, T4}"
  shows "exec_rows adv (overflow_rows w a b) (regs, mem) =
    (if regs a = fst (signed_overflow_pair w) \<and> regs b = snd (signed_overflow_pair w)
     then Inl Trap_IntegerOverflow
     else Inr (regs(T2 := 0, T4 := of_bool64 (regs b = snd (signed_overflow_pair w))), mem))"
  using assms
  by (cases w) (auto simp: overflow_rows_def row_ctors assert_trap_def of_bool64_def fun_eq_iff)

lemma magnitude_exec:
  assumes "a \<notin> {T0, T1}" "b \<notin> {T0, T1}"
  shows "exec_rows adv (magnitude_rows w a b) (regs, mem) =
    Inr (regs(T0 := magnitude (widen w (regs a)), T1 := magnitude (widen w (regs b))), mem)"
  using assms
  by (cases w) (auto simp: magnitude_rows_def widen_row_def row_ctors magnitude_def widen_def fun_eq_iff)

lemma resign_exec:
  assumes "frame_reg rd" "frame_reg a" "frame_reg b"
  shows "\<exists>regs'. exec_rows adv (resign_rows w op rd a b) (regs, mem) = Inr (regs', mem) \<and>
    regs' rd = canonical
      (evaluate A_NegateIf (widen w (if op = B_DivS then regs a XOR regs b else regs a))
        (if op = B_DivS then regs T3 else regs T4)) w \<and>
    (\<forall>r. r \<noteq> rd \<longrightarrow> r \<notin> scratch \<longrightarrow> regs' r = regs r)"
  using assms
  by (cases w) (auto simp: resign_rows_def widen_row_def row_ctors widen_def scratch_def Let_def)

text \<open>The values: re-signed quotients and remainders of magnitudes are the signed ones.\<close>

lemma sint_xor_neg: "sint (x XOR y :: 'a::len word) < 0 \<longleftrightarrow> (sint x < 0) \<noteq> (sint y < 0)"
  by (simp add: bit_last_iff [symmetric] bit_simps)

lemma widen_sint: "canonical_value w x \<Longrightarrow> widen w x = 0 \<longleftrightarrow> x = 0"
proof (cases w)
  case W32
  assume "canonical_value w x"
  then obtain x' :: u32 where x: "x = ucast x'" using W32 canonical_W32E by metis
  have "(scast x' :: u64) = 0 \<longleftrightarrow> x' = 0"
    by (metis sint_scast_32 signed_eq_0_iff)
  then show ?thesis by (simp add: x W32 widen_def w32_simps)
qed (simp add: widen_def)

lemma signed_values_64:
  assumes "y \<noteq> (0 :: u64)"
  shows "evaluate A_NegateIf (x XOR y) (magnitude x div magnitude y) = word_of_int (sint x sdiv sint y)"
    "evaluate A_NegateIf x (magnitude x mod magnitude y) = word_of_int (sint x smod sint y)"
  using signed_from_magnitudes [of x "sint (x XOR y) < 0" y "sint x < 0"] assms
  unfolding evaluate.simps sign_bit sint_xor_neg by simp_all

lemma low32_of_int: "low32 (word_of_int k) = ucast (word_of_int k :: u32)"
  by (rule bit_word_eqI) (simp add: low32_bits bit_simps)

lemma scast_xor: "scast (x XOR y :: u32) = (scast x XOR scast y :: u64)"
  by (rule bit_word_eqI) (auto simp: bit_simps)

lemma sint_inj: "sint x = sint y \<longleftrightarrow> x = y"
  by (metis scast_id scast_eq)

lemma overflow_pair_64:
  assumes "y \<noteq> (0 :: u64)"
  shows "sint x sdiv sint y = 2 ^ 63 \<longleftrightarrow>
    x = fst (signed_overflow_pair W64) \<and> y = snd (signed_overflow_pair W64)"
proof -
  have "sint x = - (2 ^ 63) \<longleftrightarrow> x = fst (signed_overflow_pair W64)"
    "sint y = - 1 \<longleftrightarrow> y = snd (signed_overflow_pair W64)"
    using sint_inj [of x "0x8000000000000000"] sint_inj [of y "0xFFFFFFFFFFFFFFFF"] by simp_all
  then show ?thesis using sdiv_overflow [of y x] assms by (simp add: signed_eq_0_iff)
qed

lemma overflow_pair_32:
  assumes "y \<noteq> (0 :: u32)"
  shows "sint x sdiv sint y = 2 ^ 31 \<longleftrightarrow>
    ucast (x :: u32) = fst (signed_overflow_pair W32) \<and> ucast y = snd (signed_overflow_pair W32)"
proof -
  have u: "(ucast x :: u64) = 0x80000000 \<longleftrightarrow> x = 0x80000000" "(ucast y :: u64) = 0xFFFFFFFF \<longleftrightarrow> y = 0xFFFFFFFF"
    using ucast_up_simps(4) [of x "0x80000000"] ucast_up_simps(4) [of y "0xFFFFFFFF"] by simp_all
  have "sint x = - (2 ^ 31) \<longleftrightarrow> x = 0x80000000" "sint y = - 1 \<longleftrightarrow> y = 0xFFFFFFFF"
    using sint_inj [of x "0x80000000"] sint_inj [of y "0xFFFFFFFF"] by simp_all
  then show ?thesis using sdiv_overflow [of y x] assms u by (simp add: signed_eq_0_iff)
qed

fun division_inputs :: "width \<Rightarrow> binary_op \<Rightarrow> u64 \<Rightarrow> u64 \<Rightarrow> width \<times> u64 \<times> u64" where
  "division_inputs w op x y =
     (if op = B_DivU \<or> op = B_RemU then (w, x, y)
      else (W64, magnitude (widen w x), magnitude (widen w y)))"

text \<open>The result written from a quotient \<open>q\<close> of the inputs and the remainder it leaves.\<close>

definition division_value :: "width \<Rightarrow> binary_op \<Rightarrow> u64 \<Rightarrow> u64 \<Rightarrow> u64 \<Rightarrow> u64 \<Rightarrow> u64" where
  "division_value w op x y q r = (case op of
      B_DivU \<Rightarrow> q
    | B_RemU \<Rightarrow> r
    | B_DivS \<Rightarrow> canonical (evaluate A_NegateIf (widen w (x XOR y)) q) w
    | _ \<Rightarrow> canonical (evaluate A_NegateIf (widen w x) r) w)"

definition is_division :: "binary_op \<Rightarrow> bool" where
  "is_division op \<longleftrightarrow> op \<in> {B_DivU, B_RemU, B_DivS, B_RemS}"

lemma division_correct:
  assumes "canonical_value w x" "canonical_value w y" "is_division op"
    "division_inputs w op x y = (w', x', y')"
  shows "wasm_binary w op x y =
    (if y = 0 then Inl Trap_DivideByZero
     else if op = B_DivS \<and> x = fst (signed_overflow_pair w) \<and> y = snd (signed_overflow_pair w)
     then Inl Trap_IntegerOverflow
     else Inr (division_value w op x y (x' div y') (x' mod y')))"
proof (cases w)
  case W64
  show ?thesis using assms(3,4) signed_values_64 [of y x] overflow_pair_64 [of y x]
    by (auto simp: W64 widen_def is_division_def division_value_def simp del: evaluate.simps)
next
  case W32
  then obtain u v :: u32 where xy: "x = ucast u" "y = ucast v"
    using assms canonical_W32E by metis
  have z: "(scast v :: u64) \<noteq> 0 \<longleftrightarrow> v \<noteq> 0"
    using widen_sint [OF assms(2)] by (simp add: W32 xy widen_def w32_simps)
  have dm: "ucast u div ucast v = (ucast (u div v) :: u64)" "ucast u mod ucast v = (ucast (u mod v) :: u64)"
    by (simp_all add: word_unat_eq_iff unat_div unat_mod)
  show ?thesis
  proof (cases "op = B_DivU \<or> op = B_RemU")
    case True
    then show ?thesis using assms(4)
      by (auto simp: W32 xy w32_simps dm division_value_def)
  next
    case False
    then show ?thesis
      using assms(3,4) signed_values_64 [of "scast v" "scast u"] overflow_pair_32 [of v u] z
      by (auto simp: W32 xy widen_def w32_simps scast_xor low32_of_int is_division_def
          division_value_def simp del: evaluate.simps signed_overflow_pair.simps)
  qed
qed

lemma resign_computes:
  assumes "frame_reg rd" "frame_reg a" "frame_reg b" "op = B_DivS \<or> op = B_RemS"
    and "\<And>r. r \<notin> scratch \<Longrightarrow> regs' r = regs r" and "regs' T3 = q" "regs' T4 = r"
  shows "computes rd (regs, mem) (Inr (division_value w op (regs a) (regs b) q r))
    (exec_rows adv (resign_rows w op rd a b) (regs', mem))"
proof -
  have ab: "regs' a = regs a" "regs' b = regs b"
    using assms by (auto simp: scratch_def)
  obtain regs'' where "exec_rows adv (resign_rows w op rd a b) (regs', mem) = Inr (regs'', mem)"
    "regs'' rd = canonical (evaluate A_NegateIf (widen w (if op = B_DivS then regs' a XOR regs' b else regs' a))
        (if op = B_DivS then regs' T3 else regs' T4)) w"
    "\<forall>r. r \<noteq> rd \<longrightarrow> r \<notin> scratch \<longrightarrow> regs'' r = regs' r"
    using resign_exec [OF assms(1-3)] by blast
  then show ?thesis using assms(4-7) ab
    by (auto simp: division_value_def simp del: evaluate.simps)
qed

text \<open>The rows of a division for any advice: the trap of the operator, or the advice refused, or
  the result made from the advice.\<close>

definition division_traps :: "width \<Rightarrow> binary_op \<Rightarrow> u64 \<Rightarrow> u64 \<Rightarrow> trap option" where
  "division_traps w op x y =
     (if y = 0 then Some Trap_DivideByZero
      else if op = B_DivS \<and> x = fst (signed_overflow_pair w) \<and> y = snd (signed_overflow_pair w)
      then Some Trap_IntegerOverflow else None)"

lemma division_outcome:
  assumes "frame_reg rd" "frame_reg a" "frame_reg b" "is_division op"
    and "division_inputs w op (regs a) (regs b) = (w', x', y')"
  shows "case division_traps w op (regs a) (regs b) of
      Some t \<Rightarrow> exec_rows adv (binary_rows w op rd a b) (regs, mem) = Inl t
    | None \<Rightarrow>
        if quotient_ok w' (adv x' y') x' y'
        then computes rd (regs, mem)
          (Inr (division_value w op (regs a) (regs b) (adv x' y') (x' - adv x' y' * y')))
          (exec_rows adv (binary_rows w op rd a b) (regs, mem))
        else exec_rows adv (binary_rows w op rd a b) (regs, mem) = Inl Trap_IntegerOverflow"
proof (cases "op = B_DivU \<or> op = B_RemU")
  case True
  then have "w' = w" "x' = regs a" "y' = regs b" using assms(5) by auto
  then show ?thesis using True assms(1-3)
    by (auto simp: binary_rows_def exec_rows_append nonzero_exec divmod_exec division_traps_def
        division_value_def row_ctors scratch_def Let_def split: option.splits)
next
  case False
  then have op: "op = B_DivS \<or> op = B_RemS" using assms(4) by (auto simp: is_division_def)
  have i: "w' = W64" "x' = magnitude (widen w (regs a))" "y' = magnitude (widen w (regs b))"
    using assms(5) False by auto
  note steps = binary_rows_def exec_rows_append nonzero_exec divmod_exec overflow_exec
    magnitude_exec division_traps_def
  from op show ?thesis
  proof
    assume d: "op = B_DivS"
    show ?thesis using assms(1-3) unfolding d
      by (auto simp: steps i Let_def scratch_def simp del: computes.simps intro!: resign_computes)
  next
    assume d: "op = B_RemS"
    show ?thesis using assms(1-3) unfolding d
      by (auto simp: steps i Let_def scratch_def simp del: computes.simps intro!: resign_computes)
  qed
qed

section \<open>Unary operators and conversions\<close>

definition unary_rows :: "width \<Rightarrow> unary_op \<Rightarrow> reg \<Rightarrow> reg \<Rightarrow> ir list" where
  "unary_rows w op rd a = (case op of
      U_Eqz \<Rightarrow> [ir_alu_imm A_Eq rd a 0]
    | U_Popcnt \<Rightarrow> [ir_alu_imm A_Popcnt rd a 0]
    | U_Clz \<Rightarrow> (case w of W64 \<Rightarrow> [ir_alu_imm A_Clz rd a 0]
        | W32 \<Rightarrow> [ir_alu_imm A_Clz T0 a 0, ir_alu_imm (A_Sub W64) rd T0 32])
    | U_Ctz \<Rightarrow> (case w of W64 \<Rightarrow> [ir_alu_imm A_Ctz rd a 0]
        | W32 \<Rightarrow> [ir_alu_imm A_Or T0 a (push_bit 32 1), ir_alu_imm A_Ctz rd T0 0])
    | U_Extend8S \<Rightarrow> sign_extend_rows w rd a 8
    | U_Extend16S \<Rightarrow> sign_extend_rows w rd a 16
    | U_Extend32S \<Rightarrow> [ir_alu_imm A_SignExtendWord rd a 0])"

lemma emits_unary: "emits (emit_unary w op rd a) (unary_rows w op rd a) ()"
  unfolding emit_unary_def unary_rows_def emit_sign_extend_def
  by (cases op; cases w; simp only: prod.case unary_op.case width.case; rule emits_all)

lemma low32_extend:
  "low32 (scast (ucast (ucast (x :: u32) :: u64) :: u8)) = ucast (scast (ucast x :: u8) :: u32)"
  "low32 (scast (ucast (ucast (x :: u32) :: u64) :: 16 word)) = ucast (scast (ucast x :: 16 word) :: u32)"
  unfolding low32_bits by (rule bit_word_eqI, auto simp: bit_simps)+

lemma trailing_bitmask_const:
  "trailing_zeros (shift_right_bitmask 56) = 56" "trailing_zeros (shift_right_bitmask 48) = 48"
  using trailing_zeros_bitmask [of 56] trailing_zeros_bitmask [of 48] by simp_all

lemma extend_w64:
  "signed_drop_bit 56 ((x :: u64) * 72057594037927936) = scast (ucast x :: u8)"
  "signed_drop_bit 48 ((x :: u64) * 281474976710656) = scast (ucast x :: 16 word)"
  using extend_by_shifts [of x] by (simp_all add: push_bit_eq_mult)

lemma unary_rows_correct:
  assumes "frame_reg rd" "frame_reg a" "canonical_value w (regs a)" "w = W32 \<longrightarrow> op \<noteq> U_Extend32S"
  shows "computes rd (regs, mem) (Inr (wasm_unary w op (regs a)))
    (exec_rows adv (unary_rows w op rd a) (regs, mem))"
proof (cases w)
  case W64
  have counts: "wasm_unop U_Clz x = of_nat (leading_zeros x)" "wasm_unop U_Ctz x = of_nat (trailing_zeros x)"
    "wasm_unop U_Popcnt x = of_nat (count_ones x)" for x :: u64
    by (simp_all add: leading_zeros_def trailing_zeros_def count_ones_def del: upt_rec_numeral)
  show ?thesis using assms unfolding W64 unary_rows_def
    by (cases op) (simp_all add: row_ctors sign_extend_rows_def trailing_bitmask_const extend_w64
        scratch_def of_bool64_def counts del: wasm_unop.simps(1-3))
next
  case W32
  then obtain x :: u32 where x: "regs a = ucast x" using assms canonical_W32E by metis
  have ctz: "of_nat (trailing_zeros (ucast x OR 4294967296)) = (ucast (wasm_unop U_Ctz x) :: u64)"
    using ctz_w32 [of x] by simp
  show ?thesis using assms x unfolding W32 unary_rows_def
    by (cases op) (simp_all add: row_ctors sign_extend_rows_def trailing_bitmask_const extend_w64
        low32_extend scratch_def w32_simps clz_w32 ctz popcnt_w32 del: wasm_unop.simps(1-3) )
qed

lemma convert_row_correct:
  assumes "frame_reg rd" "frame_reg a" "op \<noteq> WrapI64 \<longrightarrow> canonical_value W32 (regs a)"
  shows "computes rd (regs, mem) (Inr (wasm_convert op (regs a)))
    (exec_rows adv [convert_row op rd a] (regs, mem))"
proof (cases op)
  case WrapI64
  have "x AND 0xFFFFFFFF = ucast (ucast x :: u32)" for x :: u64
    using take_bit_eq_mask [of 32 x] low32_bits [of x] by (simp add: low32_def mask_eq_exp_minus_1)
  then show ?thesis using assms WrapI64 by (simp add: row_ctors scratch_def)
next
  case ExtendI32U
  then obtain x :: u32 where x: "regs a = ucast x" using assms canonical_W32E by blast
  then show ?thesis using assms ExtendI32U by (simp add: row_ctors scratch_def)
qed (use assms in \<open>simp_all add: row_ctors scratch_def\<close>)

end
