(* ===== verification/Lowering_Correct.thy ===== *)
theory Lowering_Correct
  imports Expand_Correct
begin

text \<open>
  The properties of the operator expansions: the rows the lowering emits for an operator, run by
  the machine, compute the WebAssembly operator; the division rows accept no wrong quotient from
  the prover, but for the 32-bit unsigned ones, where the missing overflow check lets one through.
\<close>

section \<open>All operators on rows\<close>

lemma honest_div: "y \<noteq> 0 \<Longrightarrow> honest x y = x div y"
  by (simp add: honest_def)

lemma division_inputs_nonzero:
  assumes "canonical_value w y" "y \<noteq> 0" "division_inputs w op x y = (w', x', y')"
  shows "y' \<noteq> 0"
proof -
  have "widen w y \<noteq> 0" using widen_sint [OF assms(1)] assms(2) by simp
  then have "uint (magnitude (widen w y)) \<noteq> 0" by (simp add: uint_magnitude signed_eq_0_iff)
  then have "magnitude (widen w y) \<noteq> 0" by (simp add: unsigned_eq_0_iff)
  then show ?thesis using assms(2,3) by (auto split: if_splits)
qed

lemma wasm_division_cases:
  assumes "canonical_value w x" "canonical_value w y" "is_division op"
    "division_inputs w op x y = (w', x', y')"
  shows "wasm_binary w op x y = (case division_traps w op x y of Some t \<Rightarrow> Inl t
    | None \<Rightarrow> Inr (division_value w op x y (x' div y') (x' mod y')))"
  unfolding division_correct [OF assms] division_traps_def by simp

lemma division_honest_correct:
  assumes "frame_reg rd" "frame_reg a" "frame_reg b" "is_division op"
    "canonical_value w (regs a)" "canonical_value w (regs b)"
  shows "computes rd (regs, mem) (wasm_binary w op (regs a) (regs b))
    (exec_rows honest (binary_rows w op rd a b) (regs, mem))"
proof -
  obtain w' x' y' where i: "division_inputs w op (regs a) (regs b) = (w', x', y')"
    by (metis prod_cases3)
  note out = division_outcome [OF assms(1-4) i, of honest mem]
  note val = wasm_division_cases [OF assms(5,6,4) i]
  show ?thesis
  proof (cases "division_traps w op (regs a) (regs b)")
    case None
    then have "regs b \<noteq> 0" by (auto simp: division_traps_def)
    then have y: "y' \<noteq> 0" using division_inputs_nonzero [OF assms(6) _ i] by blast
    then have "quotient_ok w' (honest x' y') x' y'" by (simp add: honest_div quotient_ok_div)
    then show ?thesis using out val None divmod_honest(4) [OF y, of x']
      by (simp add: honest_div [OF y] del: computes.simps)
  qed (use out val in simp)
qed

lemma canonical_imm_reg: "operand_value regs b = v \<Longrightarrow> b = Op_Reg r \<Longrightarrow> regs r = v"
  by simp

definition valid_operand :: "width \<Rightarrow> binary_op \<Rightarrow> operand \<Rightarrow> bool" where
  "valid_operand w op b \<longleftrightarrow> (case b of Op_Reg r \<Rightarrow> frame_reg r | Op_Imm _ \<Rightarrow> binary_takes_immediate op)"

lemma takes_immediate_direct: "binary_takes_immediate op \<longleftrightarrow> direct_op w op \<noteq> None"
  by (cases op) (auto simp: binary_takes_immediate_def)

lemma emitted_rows_correct:
  assumes "frame_reg rd" "frame_reg a" "valid_operand w op b" "regs ZERO = 0"
    "canonical_value w (regs a)" "canonical_value w (operand_value regs b)"
  shows "computes rd (regs, mem) (wasm_binary w op (regs a) (operand_value regs b))
    (exec_rows honest (emitted_rows w op rd a b) (regs, mem))"
proof (cases "direct_op w op")
  case None
  then obtain r where b: "b = Op_Reg r" "frame_reg r"
    using assms(3) takes_immediate_direct [of op w] by (cases b) (auto simp: valid_operand_def)
  have e: "emitted_rows w op rd a b = binary_rows w op rd a r"
    by (simp add: emitted_rows_def None b)
  show ?thesis
  proof (cases "is_division op")
    case True
    then show ?thesis unfolding e
      using division_honest_correct [OF assms(1,2) b(2)] assms(5,6) b by simp
  next
    case False
    then show ?thesis unfolding e
      using expansion_correct [of rd a r regs w op] assms b None by (simp add: is_division_def)
  qed
next
  case (Some alu)
  have "wasm_binary w op (regs a) (operand_value regs b) = Inr (evaluate alu (regs a) (operand_value regs b))"
    by (rule direct_correct [OF Some assms(5,6)])
  then show ?thesis using assms(1) by (simp add: emitted_rows_def Some row_ctors scratch_def)
qed

section \<open>On the machine\<close>

text \<open>What \<open>n\<close> steps of a machine do for an operator with result \<open>res\<close>: the trap, or the
  value in \<open>rd\<close>, the program counter past the \<open>n\<close> rows, memory and all other registers but
  the scratch ones unchanged.\<close>

fun machine_computes :: "reg \<Rightarrow> nat \<Rightarrow> machine \<Rightarrow> trap + u64 \<Rightarrow> bool" where
  "machine_computes rd n m (Inl t) \<longleftrightarrow> steps n m = Inl t"
| "machine_computes rd n m (Inr v) \<longleftrightarrow> (\<exists>regs'.
     steps n m = Inr (m\<lparr>m_regs := regs', m_pc := m_pc m + of_nat n\<rparr>) \<and>
     regs' rd = v \<and> (\<forall>r. r \<noteq> rd \<longrightarrow> r \<notin> scratch \<longrightarrow> regs' r = m_regs m r))"

lemma straight_rows:
  "\<forall>i \<in> set (emitted_rows w op rd a b). straight i"
  "\<forall>i \<in> set (unary_rows w uop rd a). straight i"
  "straight (convert_row cop rd a)"
proof -
  have bin: "\<forall>i \<in> set (binary_rows w op rd a r). straight i" for r
    by (cases op; cases w) (auto simp: binary_rows_def compare_rows_def rotr_rows_def bitmask_rows_def
        nonzero_rows_def divmod_rows_def overflow_rows_def magnitude_rows_def resign_rows_def
        widen_row_def row_ctors)
  show "\<forall>i \<in> set (emitted_rows w op rd a b). straight i"
    using bin by (auto simp: emitted_rows_def row_ctors split: option.splits operand.splits)
  show "\<forall>i \<in> set (unary_rows w uop rd a). straight i"
    by (cases uop; cases w) (auto simp: unary_rows_def sign_extend_rows_def row_ctors)
  show "straight (convert_row cop rd a)" by (cases cop) (simp_all add: row_ctors)
qed

lemma computes_on_machine:
  assumes "code_at m rows" "\<forall>i \<in> set rows. straight i"
    and "computes rd (m_regs m, m_memory m) res (exec_rows honest rows (m_regs m, m_memory m))"
  shows "machine_computes rd (length rows) m res"
  using assms(3) unfolding steps_exec_rows [OF assms(1,2)]
  by (cases res) (auto simp: steps_exec_rows [OF assms(1,2)] put_state_def)

text \<open>C1: Every binary integer operator is compiled correctly: the rows \<^verbatim>\<open>emit_binary\<close> appends
  for a destination and operands in frame registers (an immediate where the selector takes one),
  run by the machine on canonical operands, put the WebAssembly result in the destination and
  change nothing else but scratch registers, or trap exactly as the operator does.\<close>

theorem emit_binary_correct:
  assumes "emit_binary w op rd a b e = Inr ((), e')"
    and "frame_reg rd" "frame_reg a" "valid_operand w op b"
  shows "\<exists>rows. e' = e\<lparr>em_code := em_code e @ rows\<rparr> \<and>
    (\<forall>m. code_at m rows \<longrightarrow> m_regs m ZERO = 0 \<longrightarrow> canonical_value w (m_regs m a) \<longrightarrow>
      canonical_value w (operand_value (m_regs m) b) \<longrightarrow>
      machine_computes rd (length rows) m
        (wasm_binary w op (m_regs m a) (operand_value (m_regs m) b)))"
proof (intro exI conjI allI impI)
  show "e' = e\<lparr>em_code := em_code e @ emitted_rows w op rd a b\<rparr>"
    using emits_Inr [OF emits_binary assms(1)] by simp
  fix m
  assume "code_at m (emitted_rows w op rd a b)" "m_regs m ZERO = 0" "canonical_value w (m_regs m a)"
    "canonical_value w (operand_value (m_regs m) b)"
  then show "machine_computes rd (length (emitted_rows w op rd a b)) m
      (wasm_binary w op (m_regs m a) (operand_value (m_regs m) b))"
    by (intro computes_on_machine straight_rows emitted_rows_correct assms(2-4))
qed

text \<open>C20: Every unary operator is compiled correctly in the same sense: zero tests, bit counts and
  sign extensions, at both widths, on canonical operands in frame registers; \<^verbatim>\<open>i32.extend32_s\<close>, which
  WebAssembly does not have, is left out.\<close>

theorem emit_unary_correct:
  assumes "emit_unary w op rd a e = Inr ((), e')" "frame_reg rd" "frame_reg a"
    "w = W32 \<longrightarrow> op \<noteq> U_Extend32S"
  shows "\<exists>rows. e' = e\<lparr>em_code := em_code e @ rows\<rparr> \<and>
    (\<forall>m. code_at m rows \<longrightarrow> canonical_value w (m_regs m a) \<longrightarrow>
      machine_computes rd (length rows) m (Inr (wasm_unary w op (m_regs m a))))"
proof (intro exI conjI allI impI)
  show "e' = e\<lparr>em_code := em_code e @ unary_rows w op rd a\<rparr>"
    using emits_Inr [OF emits_unary assms(1)] by simp
  fix m
  assume "code_at m (unary_rows w op rd a)" "canonical_value w (m_regs m a)"
  then show "machine_computes rd (length (unary_rows w op rd a)) m
      (Inr (wasm_unary w op (m_regs m a)))"
    by (intro computes_on_machine straight_rows unary_rows_correct assms(2-4))
qed

text \<open>The row of a conversion computes it.\<close>

theorem convert_row_machine:
  assumes "code_at m [convert_row op rd a]" "frame_reg rd" "frame_reg a"
    "op \<noteq> WrapI64 \<longrightarrow> canonical_value W32 (m_regs m a)"
  shows "machine_computes rd 1 m (Inr (wasm_convert op (m_regs m a)))"
proof -
  have "machine_computes rd (length [convert_row op rd a]) m (Inr (wasm_convert op (m_regs m a)))"
    by (intro computes_on_machine convert_row_correct) (use assms straight_rows(3) in simp_all)
  then show ?thesis by simp
qed

section \<open>Whatever the advice\<close>

text \<open>C9: The division rows accept no wrong advice: at 64 bits, and for signed division at both
  widths, rows that do not trap have the WebAssembly result in the destination for every value the
  prover may put in the quotient register.\<close>

theorem division_advice_sound:
  assumes "emit_binary w op rd a (Op_Reg b) e = Inr ((), e')" "frame_reg rd" "frame_reg a" "frame_reg b"
    and "is_division op" "w = W64 \<or> op = B_DivS \<or> op = B_RemS"
  shows "\<exists>rows. e' = e\<lparr>em_code := em_code e @ rows\<rparr> \<and>
    (\<forall>adv regs mem regs' mem'. canonical_value w (regs a) \<longrightarrow> canonical_value w (regs b) \<longrightarrow>
      exec_rows adv rows (regs, mem) = Inr (regs', mem') \<longrightarrow>
      wasm_binary w op (regs a) (regs b) = Inr (regs' rd) \<and> mem' = mem)"
proof (intro exI conjI allI impI)
  have d: "direct_op w op = None" using assms(5) by (auto simp: is_division_def)
  show "e' = e\<lparr>em_code := em_code e @ binary_rows w op rd a b\<rparr>"
    using emits_Inr [OF emits_binary assms(1)] by (simp add: emitted_rows_def d)
  fix adv regs mem regs' mem'
  assume c: "canonical_value w (regs a)" "canonical_value w (regs b)"
    and run: "exec_rows adv (binary_rows w op rd a b) (regs, mem) = Inr (regs', mem')"
  obtain w' x' y' where i: "division_inputs w op (regs a) (regs b) = (w', x', y')"
    by (metis prod_cases3)
  have w': "w' = W64" using i assms(5,6) by (auto simp: is_division_def split: if_splits)
  note out = division_outcome [OF assms(2-5) i, of adv mem]
  have t: "division_traps w op (regs a) (regs b) = None" and q: "quotient_ok W64 (adv x' y') x' y'"
    using out run w' by (auto split: option.splits if_splits)
  have "computes rd (regs, mem) (Inr (division_value w op (regs a) (regs b) (x' div y') (x' mod y')))
      (Inr (regs', mem'))"
    using out run w' t q quotient_okD [OF q] by (simp del: computes.simps)
  then show "wasm_binary w op (regs a) (regs b) = Inr (regs' rd)" "mem' = mem"
    using wasm_division_cases [OF c assms(5) i] t by simp_all
qed

text \<open>C22: At 32 bits the unsigned division is only sound for advice that is itself a 32-bit value.\<close>

theorem division_advice_sound_32:
  assumes "emit_binary W32 op rd a (Op_Reg b) e = Inr ((), e')" "frame_reg rd" "frame_reg a" "frame_reg b"
    and "op = B_DivU \<or> op = B_RemU"
  shows "\<exists>rows. e' = e\<lparr>em_code := em_code e @ rows\<rparr> \<and>
    (\<forall>adv regs mem regs' mem'. canonical_value W32 (regs a) \<longrightarrow> canonical_value W32 (regs b) \<longrightarrow>
      canonical_value W32 (adv (regs a) (regs b)) \<longrightarrow>
      exec_rows adv rows (regs, mem) = Inr (regs', mem') \<longrightarrow>
      wasm_binary W32 op (regs a) (regs b) = Inr (regs' rd) \<and> mem' = mem)"
proof (intro exI conjI allI impI)
  have op: "is_division op" "direct_op W32 op = None" using assms(5) by (auto simp: is_division_def)
  show "e' = e\<lparr>em_code := em_code e @ binary_rows W32 op rd a b\<rparr>"
    using emits_Inr [OF emits_binary assms(1)] by (simp add: emitted_rows_def op)
  fix adv regs mem regs' mem'
  assume c: "canonical_value W32 (regs a)" "canonical_value W32 (regs b)"
    and q: "canonical_value W32 (adv (regs a) (regs b))"
    and run: "exec_rows adv (binary_rows W32 op rd a b) (regs, mem) = Inr (regs', mem')"
  have i: "division_inputs W32 op (regs a) (regs b) = (W32, regs a, regs b)" using assms(5) by auto
  note out = division_outcome [OF assms(2-4) op(1) i, of adv mem]
  have t: "division_traps W32 op (regs a) (regs b) = None"
    and ok: "quotient_ok W32 (adv (regs a) (regs b)) (regs a) (regs b)"
    using out run by (auto split: option.splits if_splits)
  have "checked_mul_is_some (adv (regs a) (regs b)) (regs b)"
  proof -
    have "unat (adv (regs a) (regs b)) < 2 ^ 32" "unat (regs b) < 2 ^ 32"
      using c(2) q by (simp_all add: canonical_value_def word_less_nat_alt)
    then have "unat (adv (regs a) (regs b)) * unat (regs b) < 2 ^ 32 * 2 ^ 32"
      by (intro mult_strict_mono) simp_all
    then show ?thesis by (simp add: checked_mul_is_some_def)
  qed
  then have ok64: "quotient_ok W64 (adv (regs a) (regs b)) (regs a) (regs b)"
    using ok by (simp add: quotient_ok_def)
  have "computes rd (regs, mem) (Inr (division_value W32 op (regs a) (regs b) (regs a div regs b) (regs a mod regs b)))
      (Inr (regs', mem'))"
    using out run t ok quotient_okD [OF ok64] by (simp del: computes.simps)
  then show "wasm_binary W32 op (regs a) (regs b) = Inr (regs' rd)" "mem' = mem"
    using wasm_division_cases [OF c op(1) i] t by simp_all
qed

text \<open>C21: A wrong 32-bit quotient passes: with the overflow check skipped, the rows of
  \<^verbatim>\<open>i32.div_u\<close> accept the advice \<open>2 ^ 63\<close> for \<open>1 div 2\<close>: the product wraps to zero and no
  row traps, and the destination holds a value that is not even a 32-bit one.\<close>

theorem division_advice_hole:
  "\<exists>rows. emit_binary W32 B_DivU (Reg 12) (Reg 13) (Op_Reg (Reg 14)) e =
      (if length (em_code e) + length rows \<le> 2 ^ 32
       then Inr ((), e\<lparr>em_code := em_code e @ rows\<rparr>) else Inl (LowerProgramTooLarge 32)) \<and>
    (\<exists>regs regs'. regs (Reg 13) = 1 \<and> regs (Reg 14) = 2 \<and>
      wasm_binary W32 B_DivU (regs (Reg 13)) (regs (Reg 14)) = Inr 0 \<and>
      exec_rows (\<lambda>_ _. 2 ^ 63) rows (regs, mem) = Inr (regs', mem) \<and> regs' (Reg 12) = 2 ^ 63)"
proof (intro exI conjI)
  let ?rows = "binary_rows W32 B_DivU (Reg 12) (Reg 13) (Reg 14)"
  have wrap: "(18446744073709551616 :: u64) = 0" by simp
  let ?regs = "(\<lambda>_. 0)(Reg 13 := 1, Reg 14 := 2) :: reg \<Rightarrow> u64"
  have "emits (emit_binary W32 B_DivU (Reg 12) (Reg 13) (Op_Reg (Reg 14))) ?rows ()"
    using emits_binary [of W32 B_DivU "Reg 12" "Reg 13" "Op_Reg (Reg 14)"]
    by (simp add: emitted_rows_def)
  moreover have "?rows \<noteq> []" by (simp add: binary_rows_def nonzero_rows_def)
  ultimately show "emit_binary W32 B_DivU (Reg 12) (Reg 13) (Op_Reg (Reg 14)) e =
      (if length (em_code e) + length ?rows \<le> 2 ^ 32
       then Inr ((), e\<lparr>em_code := em_code e @ ?rows\<rparr>) else Inl (LowerProgramTooLarge 32))"
    by (simp add: emits_def)
  show "?regs (Reg 13) = 1" "?regs (Reg 14) = 2" by simp_all
  show "wasm_binary W32 B_DivU (?regs (Reg 13)) (?regs (Reg 14)) = Inr 0"
    by (simp add: word_div_def)
  show "exec_rows (\<lambda>_ _. 2 ^ 63) ?rows (?regs, mem) =
      Inr (?regs(T3 := 2 ^ 63, T2 := 0, T4 := 1, Reg 12 := 2 ^ 63), mem)"
    by (simp add: wrap binary_rows_def nonzero_rows_def divmod_rows_def row_ctors fun_eq_iff)
  show "(?regs(T3 := 2 ^ 63, T2 := 0, T4 := 1, Reg 12 := 2 ^ 63)) (Reg 12) = 2 ^ 63" by simp
qed

end
