(* ===== verification/Lowering_Examples.thy ===== *)
theory Lowering_Examples
  imports Lowering_Correct Example_Program
begin

text \<open>
  Concrete instances of the properties of the lowering: an emitter, a machine that is about to
  run a given list of rows, and operands.
\<close>

definition empty_emitter :: emitter where
  "empty_emitter = \<lparr>em_code = [Halt], em_call_fixups = [], em_cold = [], em_signatures = [],
     em_type_signatures = [], em_table_slots = 0, em_max_memory_bytes = 0\<rparr>"

definition rows_machine :: "ir list \<Rightarrow> (reg \<Rightarrow> u64) \<Rightarrow> machine" where
  "rows_machine rows regs = demo_machine\<lparr>m_program := demo_program\<lparr>p_code := Halt # rows\<rparr>,
     m_regs := regs, m_pc := 1\<rparr>"

definition demo_regs :: "reg \<Rightarrow> u64" where
  "demo_regs = (\<lambda>_. 0)(Reg 13 := 0xFFFFFFF9, Reg 14 := 2)"

lemma rows_machine_simps [simp]:
  "m_regs (rows_machine rows regs) = regs" "m_pc (rows_machine rows regs) = 1"
  "p_code (m_program (rows_machine rows regs)) = Halt # rows"
  by (simp_all add: rows_machine_def)

lemma demo_regs_simps [simp]: "demo_regs (Reg 13) = 0xFFFFFFF9" "demo_regs (Reg 14) = 2" "demo_regs ZERO = 0"
  by (simp_all add: demo_regs_def)

lemma code_at_rows_machine: "length rows < 1000 \<Longrightarrow> code_at (rows_machine rows regs) rows"
  by (simp add: code_at_def)

lemma emits_empty:
  assumes "emits act rows x" "length rows < 1000"
  shows "act empty_emitter = Inr (x, empty_emitter\<lparr>em_code := Halt # rows\<rparr>)"
proof -
  have "length (em_code empty_emitter) + length rows \<le> 2 ^ 32" using assms(2) by (simp add: empty_emitter_def)
  then show ?thesis using assms(1) by (simp add: emits_def empty_emitter_def)
qed

lemma same_rows:
  "empty_emitter\<lparr>em_code := Halt # rows\<rparr> = empty_emitter\<lparr>em_code := em_code empty_emitter @ rows'\<rparr> \<Longrightarrow>
    rows' = rows"
  by (simp add: empty_emitter_def)

lemma demo_frame: "frame_reg (Reg 12)" "frame_reg (Reg 13)" "frame_reg (Reg 14)"
  by (simp_all add: frame_reg_def FRAME_BASE_def)

lemma demo_div_value: "wasm_binary W32 B_DivS 0xFFFFFFF9 2 = Inr 0xFFFFFFFD"
  by (simp add: signed_divide_int_def)

lemma length_binary_rows: "length (emitted_rows W32 B_DivS (Reg 12) (Reg 13) (Op_Reg (Reg 14))) < 1000"
  "length (emitted_rows W32 B_DivU (Reg 12) (Reg 13) (Op_Reg (Reg 14))) < 1000"
  by (simp_all add: emitted_rows_def binary_rows_def nonzero_rows_def overflow_rows_def magnitude_rows_def
      divmod_rows_def resign_rows_def)

theorem emit_binary_correct_witness:
  "\<exists>rows regs'. steps (length rows) (rows_machine rows demo_regs) =
      Inr (rows_machine rows demo_regs\<lparr>m_regs := regs', m_pc := 1 + of_nat (length rows)\<rparr>) \<and>
    regs' (Reg 12) = 0xFFFFFFFD"
proof -
  let ?rows = "emitted_rows W32 B_DivS (Reg 12) (Reg 13) (Op_Reg (Reg 14))"
  have e: "emit_binary W32 B_DivS (Reg 12) (Reg 13) (Op_Reg (Reg 14)) empty_emitter =
    Inr ((), empty_emitter\<lparr>em_code := Halt # ?rows\<rparr>)"
    by (rule emits_empty [OF emits_binary length_binary_rows(1)])
  have "machine_computes (Reg 12) (length ?rows) (rows_machine ?rows demo_regs)
      (wasm_binary W32 B_DivS (demo_regs (Reg 13)) (demo_regs (Reg 14)))"
    using emit_binary_correct [OF e] code_at_rows_machine [OF length_binary_rows(1), of demo_regs] same_rows
    by (force simp: demo_frame valid_operand_def canonical_value_def)
  then show ?thesis using demo_div_value by auto
qed

theorem emit_unary_correct_witness:
  "\<exists>rows regs'. steps (length rows) (rows_machine rows demo_regs) =
      Inr (rows_machine rows demo_regs\<lparr>m_regs := regs', m_pc := 1 + of_nat (length rows)\<rparr>) \<and>
    regs' (Reg 12) = 1"
proof -
  let ?rows = "unary_rows W32 U_Ctz (Reg 12) (Reg 14)"
  have len: "length ?rows < 1000" by (simp add: unary_rows_def)
  have e: "emit_unary W32 U_Ctz (Reg 12) (Reg 14) empty_emitter =
    Inr ((), empty_emitter\<lparr>em_code := Halt # ?rows\<rparr>)"
    by (rule emits_empty [OF emits_unary len])
  have "machine_computes (Reg 12) (length ?rows) (rows_machine ?rows demo_regs)
      (Inr (wasm_unary W32 U_Ctz (demo_regs (Reg 14))))"
    using emit_unary_correct [OF e] code_at_rows_machine [OF len, of demo_regs] same_rows
    by (force simp: demo_frame canonical_value_def)
  moreover have "wasm_unary W32 U_Ctz (demo_regs (Reg 14)) = 1"
    by (simp add: upt_conv_Cons)
  ultimately show ?thesis by auto
qed

theorem convert_row_machine_witness:
  "\<exists>m'. steps 1 (rows_machine [convert_row ExtendI32S (Reg 12) (Reg 13)] demo_regs) = Inr m' \<and>
    m_regs m' (Reg 12) = 0xFFFFFFFFFFFFFFF9"
proof -
  let ?rows = "[convert_row ExtendI32S (Reg 12) (Reg 13)]"
  have "machine_computes (Reg 12) 1 (rows_machine ?rows demo_regs)
      (Inr (wasm_convert ExtendI32S (m_regs (rows_machine ?rows demo_regs) (Reg 13))))"
    by (rule convert_row_machine [OF code_at_rows_machine demo_frame(1,2)])
      (simp_all add: canonical_value_def)
  then show ?thesis by auto
qed

theorem division_advice_sound_witness:
  "\<exists>rows regs'. exec_rows honest rows (demo_regs, demo_memory) = Inr (regs', demo_memory) \<and>
    wasm_binary W32 B_DivS 0xFFFFFFF9 2 = Inr (regs' (Reg 12))"
proof -
  let ?rows = "emitted_rows W32 B_DivS (Reg 12) (Reg 13) (Op_Reg (Reg 14))"
  have e: "emit_binary W32 B_DivS (Reg 12) (Reg 13) (Op_Reg (Reg 14)) empty_emitter =
    Inr ((), empty_emitter\<lparr>em_code := Halt # ?rows\<rparr>)"
    by (rule emits_empty [OF emits_binary length_binary_rows(1)])
  have divs: "is_division B_DivS" "W32 = W64 \<or> B_DivS = B_DivS \<or> B_DivS = B_RemS"
    by (simp_all add: is_division_def)
  have can: "canonical_value W32 (demo_regs (Reg 13))" "canonical_value W32 (demo_regs (Reg 14))"
    by (simp_all add: canonical_value_def)
  obtain rows where rows: "empty_emitter\<lparr>em_code := Halt # ?rows\<rparr> =
      empty_emitter\<lparr>em_code := em_code empty_emitter @ rows\<rparr>"
    and sound: "\<forall>adv regs mem regs' mem'. canonical_value W32 (regs (Reg 13)) \<longrightarrow>
      canonical_value W32 (regs (Reg 14)) \<longrightarrow> exec_rows adv rows (regs, mem) = Inr (regs', mem') \<longrightarrow>
      wasm_binary W32 B_DivS (regs (Reg 13)) (regs (Reg 14)) = Inr (regs' (Reg 12)) \<and> mem' = mem"
    using division_advice_sound [OF e demo_frame divs] by blast
  have "computes (Reg 12) (demo_regs, demo_memory) (wasm_binary W32 B_DivS (demo_regs (Reg 13)) (demo_regs (Reg 14)))
      (exec_rows honest ?rows (demo_regs, demo_memory))"
    using emitted_rows_correct [of "Reg 12" "Reg 13" W32 B_DivS "Op_Reg (Reg 14)" demo_regs]
    by (simp add: demo_frame valid_operand_def canonical_value_def)
  then obtain regs' where "exec_rows honest ?rows (demo_regs, demo_memory) = Inr (regs', demo_memory)"
    using demo_div_value by auto
  then show ?thesis using sound [rule_format, OF can] same_rows [OF rows] by fastforce
qed

theorem division_advice_sound_32_witness:
  "\<exists>rows regs'. exec_rows honest rows (demo_regs, demo_memory) = Inr (regs', demo_memory) \<and>
    wasm_binary W32 B_DivU 0xFFFFFFF9 2 = Inr (regs' (Reg 12))"
proof -
  let ?rows = "emitted_rows W32 B_DivU (Reg 12) (Reg 13) (Op_Reg (Reg 14))"
  have e: "emit_binary W32 B_DivU (Reg 12) (Reg 13) (Op_Reg (Reg 14)) empty_emitter =
    Inr ((), empty_emitter\<lparr>em_code := Halt # ?rows\<rparr>)"
    by (rule emits_empty [OF emits_binary length_binary_rows(2)])
  have q: "canonical_value W32 (honest 0xFFFFFFF9 2)"
    by (simp add: canonical_value_def honest_def)
  have can: "canonical_value W32 (demo_regs (Reg 13))" "canonical_value W32 (demo_regs (Reg 14))"
    by (simp_all add: canonical_value_def)
  obtain rows where rows: "empty_emitter\<lparr>em_code := Halt # ?rows\<rparr> =
      empty_emitter\<lparr>em_code := em_code empty_emitter @ rows\<rparr>"
    and sound: "\<forall>adv regs mem regs' mem'. canonical_value W32 (regs (Reg 13)) \<longrightarrow>
      canonical_value W32 (regs (Reg 14)) \<longrightarrow> canonical_value W32 (adv (regs (Reg 13)) (regs (Reg 14))) \<longrightarrow>
      exec_rows adv rows (regs, mem) = Inr (regs', mem') \<longrightarrow>
      wasm_binary W32 B_DivU (regs (Reg 13)) (regs (Reg 14)) = Inr (regs' (Reg 12)) \<and> mem' = mem"
    using division_advice_sound_32 [OF e demo_frame] by blast
  have "computes (Reg 12) (demo_regs, demo_memory) (wasm_binary W32 B_DivU (demo_regs (Reg 13)) (demo_regs (Reg 14)))
      (exec_rows honest ?rows (demo_regs, demo_memory))"
    using emitted_rows_correct [of "Reg 12" "Reg 13" W32 B_DivU "Op_Reg (Reg 14)" demo_regs]
    by (simp add: demo_frame valid_operand_def canonical_value_def)
  then obtain regs' where "exec_rows honest ?rows (demo_regs, demo_memory) = Inr (regs', demo_memory)"
    by (auto split: if_splits)
  then show ?thesis using sound [rule_format, OF can] same_rows [OF rows] q by fastforce
qed

end
