(* ===== verification/Trace_Row.thy ===== *)
theory Trace_Row
  imports Row_Check Lookup_Tables
begin

text \<open>
  \<^verbatim>\<open>jolt-wasm-program/src/trace_row.rs\<close>: the compact row a record is materialized into.
  Four slots hold the values of the logical columns, which share storage by the class of the row;
  the accessors read the columns back. \<open>from_record_columns\<close>: no column is lost.
\<close>

record wasm_trace_row =
  tr_slots :: "u64 list"
  tr_imm :: u64
  tr_pc :: pc
  tr_next_pc :: pc
  tr_flags :: row_flags
  tr_rs1 :: u8
  tr_rs2 :: u8
  tr_rd :: u8
  tr_lookup :: "lookup option"

datatype memory_contract =
    LoadWithoutRead | LoadNotRdWrite | StoreWithoutWrite | StoreNotRs2 | NonMemoryAccess

datatype trace_row_error =
    RegisterOperands pc "reg option \<times> reg option \<times> reg option" "reg option \<times> reg option \<times> reg option"
  | MemoryContract pc ram_access memory_contract

definition from_parts :: "row_spec \<Rightarrow> pc \<Rightarrow> pc \<Rightarrow> u64 list \<Rightarrow> wasm_trace_row" where
  "from_parts spec pc next_pc slots =
     \<lparr>tr_slots = slots, tr_imm = rs_imm spec, tr_pc = pc, tr_next_pc = next_pc,
      tr_flags = rs_flags spec, tr_rs1 = register_id (rs_rs1 spec),
      tr_rs2 = register_id (rs_rs2 spec), tr_rd = register_id (rs_rd spec),
      tr_lookup = rs_lookup spec\<rparr>"

definition no_op_row :: wasm_trace_row where
  "no_op_row = from_parts (row_spec_of Halt) 0 0 [0, 0, 0, 0]"

text \<open>The slots of a record, or the memory contract it breaks.\<close>

definition record_slots :: "exec_record \<Rightarrow> row_flags \<Rightarrow> trace_row_error + u64 list" where
  "record_slots r flags =
     (let rs1 = read_value (rec_rs1 r); rs2 = read_value (rec_rs2 r);
          rd_pre = (case rec_rd r of None \<Rightarrow> 0 | Some w \<Rightarrow> rw_pre_value w);
          rd_write = post_value (rec_rd r);
          contract = (\<lambda>d. Inl (MemoryContract (rec_pc r) (rec_ram r) d)) in
      if flags_has flags F_Load then
        (case rec_ram r of
           Ram_Read x \<Rightarrow>
             if rd_value x \<noteq> rd_write then contract LoadNotRdWrite
             else Inr [rs1, rd_address x, rd_pre, rd_write]
         | _ \<Rightarrow> contract LoadWithoutRead)
      else if flags_has flags F_Store then
        (case rec_ram r of
           Ram_Write x \<Rightarrow>
             if wr_post_value x \<noteq> rs2 then contract StoreNotRs2
             else Inr [rs1, rs2, wr_pre_value x, wr_address x]
         | _ \<Rightarrow> contract StoreWithoutWrite)
      else if rec_ram r \<noteq> Ram_NoOp then contract NonMemoryAccess
      else Inr [rs1, rs2, rd_pre, rd_write])"

definition record_operands :: "exec_record \<Rightarrow> reg option \<times> reg option \<times> reg option" where
  "record_operands r = (map_option rr_register (rec_rs1 r), map_option rr_register (rec_rs2 r),
     map_option rw_register (rec_rd r))"

definition from_record :: "exec_record \<Rightarrow> trace_row_error + wasm_trace_row" where
  "from_record r =
     (let spec = row_spec_of (rec_instruction r) in
      if record_operands r \<noteq> (rs_rs1 spec, rs_rs2 spec, rs_rd spec)
      then Inl (RegisterOperands (rec_pc r) (rs_rs1 spec, rs_rs2 spec, rs_rd spec) (record_operands r))
      else
        bind_res (record_slots r (rs_flags spec)) (\<lambda>slots.
        Inr (from_parts spec (rec_pc r) (rec_next_pc r) slots)))"

definition build_trace_rows :: "exec_record list \<Rightarrow> trace_row_error + wasm_trace_row list" where
  "build_trace_rows records = map_res from_record records"

section \<open>Columns\<close>

definition is_load :: "wasm_trace_row \<Rightarrow> bool" where
  "is_load t \<longleftrightarrow> flags_has (tr_flags t) F_Load"

definition is_store :: "wasm_trace_row \<Rightarrow> bool" where
  "is_store t \<longleftrightarrow> flags_has (tr_flags t) F_Store"

definition is_noop :: "wasm_trace_row \<Rightarrow> bool" where
  "is_noop t \<longleftrightarrow> flags_has (tr_flags t) F_Halt"

definition rs1_value :: "wasm_trace_row \<Rightarrow> u64" where
  "rs1_value t = tr_slots t ! 0"

definition rs2_value :: "wasm_trace_row \<Rightarrow> u64" where
  "rs2_value t = (if is_load t then 0 else tr_slots t ! 1)"

definition rd_pre_value :: "wasm_trace_row \<Rightarrow> u64" where
  "rd_pre_value t = (if is_store t then 0 else tr_slots t ! 2)"

definition rd_write_value :: "wasm_trace_row \<Rightarrow> u64" where
  "rd_write_value t = (if is_store t then 0 else tr_slots t ! 3)"

definition ram_address :: "wasm_trace_row \<Rightarrow> u64" where
  "ram_address t = (if is_load t then tr_slots t ! 1 else if is_store t then tr_slots t ! 3 else 0)"

definition ram_read_value :: "wasm_trace_row \<Rightarrow> u64" where
  "ram_read_value t = (if is_load t then tr_slots t ! 3 else if is_store t then tr_slots t ! 2 else 0)"

definition ram_write_value :: "wasm_trace_row \<Rightarrow> u64" where
  "ram_write_value t = (if is_load t then tr_slots t ! 3 else if is_store t then tr_slots t ! 1 else 0)"

definition tr_bytecode_row :: "wasm_trace_row \<Rightarrow> bytecode_row" where
  "tr_bytecode_row t = \<lparr>br_imm = tr_imm t, br_flags = tr_flags t, br_rs1 = tr_rs1 t,
     br_rs2 = tr_rs2 t, br_rd = tr_rd t, br_lookup = tr_lookup t\<rparr>"

definition tr_imm_signed :: "wasm_trace_row \<Rightarrow> int" where
  "tr_imm_signed t = br_imm_signed (tr_bytecode_row t)"

definition rs1_index :: "wasm_trace_row \<Rightarrow> reg option" where
  "rs1_index t = register_of_id (tr_rs1 t)"

definition rs2_index :: "wasm_trace_row \<Rightarrow> reg option" where
  "rs2_index t = register_of_id (tr_rs2 t)"

definition rd_index :: "wasm_trace_row \<Rightarrow> reg option" where
  "rd_index t = register_of_id (tr_rd t)"

definition tr_table_op :: "wasm_trace_row \<Rightarrow> alu_op option" where
  "tr_table_op t = map_option lookup_table_op (tr_lookup t)"

definition tr_raf_flag :: "wasm_trace_row \<Rightarrow> bool" where
  "tr_raf_flag t = (case tr_lookup t of None \<Rightarrow> False | Some l \<Rightarrow> lookup_is_raw_index l)"

definition tr_table :: "wasm_trace_row \<Rightarrow> nat option" where
  "tr_table t = map_option (\<lambda>op. table_index (table_of op)) (tr_table_op t)"

definition tr_left_input :: "wasm_trace_row \<Rightarrow> u64" where
  "tr_left_input t = (if flags_has (tr_flags t) F_LeftIsRs1 then rs1_value t else 0)"

definition tr_right_input :: "wasm_trace_row \<Rightarrow> u64" where
  "tr_right_input t =
     (if flags_has (tr_flags t) F_RightIsRs2 then rs2_value t
      else if flags_has (tr_flags t) F_RightIsImm then tr_imm t
      else 0)"

definition tr_operand_mode :: "wasm_trace_row \<Rightarrow> operand_mode" where
  "tr_operand_mode t =
     (if flags_has (tr_flags t) F_AddOperands then Mode_Add
      else if flags_has (tr_flags t) F_SubOperands then Mode_Sub
      else if flags_has (tr_flags t) F_MulOperands then Mode_Mul
      else Mode_Interleaved)"

definition tr_lookup_index :: "wasm_trace_row \<Rightarrow> u128 option" where
  "tr_lookup_index t =
     (case tr_lookup t of
        Some (Lookup_Table op) \<Rightarrow> Some (lookup_index_for (op_mode op) (tr_left_input t) (tr_right_input t))
      | Some (Lookup_Advice _) \<Rightarrow> Some (ucast (rd_write_value t))
      | None \<Rightarrow> None)"

definition tr_lookup_operands :: "wasm_trace_row \<Rightarrow> u64 \<times> u128" where
  "tr_lookup_operands t =
     (case tr_lookup t of
        Some (Lookup_Table op) \<Rightarrow>
          if op_mode op = Mode_Interleaved then (tr_left_input t, ucast (tr_right_input t))
          else (0, case tr_lookup_index t of Some i \<Rightarrow> i | None \<Rightarrow> 0)
      | Some (Lookup_Advice _) \<Rightarrow> (0, case tr_lookup_index t of Some i \<Rightarrow> i | None \<Rightarrow> 0)
      | None \<Rightarrow> (tr_left_input t, ucast (tr_right_input t)))"

definition tr_lookup_output :: "wasm_trace_row \<Rightarrow> u64" where
  "tr_lookup_output t =
     (case (tr_table_op t, tr_lookup_index t) of
        (Some op, Some index) \<Rightarrow> materialize_entry (table_of op) index
      | _ \<Rightarrow> 0)"

section \<open>The columns of a record's row\<close>

lemmas trace_columns = is_load_def is_store_def rs1_value_def rs2_value_def rd_pre_value_def
  rd_write_value_def ram_address_def ram_read_value_def ram_write_value_def

text \<open>Which flags come with which instruction.\<close>

lemma load_flag: "flags_has (rs_flags (row_spec_of i)) F_Load \<longleftrightarrow> (\<exists>rd a off. i = Load rd a off)"
  and store_flag: "flags_has (rs_flags (row_spec_of i)) F_Store \<longleftrightarrow> (\<exists>a v off. i = Store a v off)"
  by (cases i; auto simp: has_simps spec_empty_def right_operand_eq split: operand.splits)+

lemma from_record_parts:
  assumes "from_record r = Inr t"
  defines "spec \<equiv> row_spec_of (rec_instruction r)"
  shows "record_operands r = (rs_rs1 spec, rs_rs2 spec, rs_rd spec)"
    and "\<exists>slots. record_slots r (rs_flags spec) = Inr slots \<and>
      t = from_parts spec (rec_pc r) (rec_next_pc r) slots"
  using assms(1) unfolding from_record_def spec_def Let_def
  by (auto elim!: bind_res_InrE split: if_splits)

text \<open>The compact row loses nothing: although columns share storage, every accessor of the
  row of a record returns the record's column (zero for an access the row does not make).\<close>

lemma from_record_columns:
  assumes "from_record r = Inr t"
  shows "rs1_value t = read_value (rec_rs1 r) \<and> rs2_value t = read_value (rec_rs2 r) \<and>
    rd_write_value t = post_value (rec_rd r) \<and>
    rd_pre_value t = (case rec_rd r of None \<Rightarrow> 0 | Some w \<Rightarrow> rw_pre_value w) \<and>
    (case rec_ram r of
       Ram_NoOp \<Rightarrow> ram_address t = 0 \<and> ram_read_value t = 0 \<and> ram_write_value t = 0
     | Ram_Read x \<Rightarrow> ram_address t = rd_address x \<and> ram_read_value t = rd_value x \<and>
         ram_write_value t = rd_value x
     | Ram_Write x \<Rightarrow> ram_address t = wr_address x \<and> ram_read_value t = wr_pre_value x \<and>
         ram_write_value t = wr_post_value x) \<and>
    tr_bytecode_row t = bytecode_row_of (rec_instruction r) \<and> tr_pc t = rec_pc r \<and>
    tr_next_pc t = rec_next_pc r"
proof -
  obtain slots where ops: "record_operands r = (rs_rs1 (row_spec_of (rec_instruction r)),
      rs_rs2 (row_spec_of (rec_instruction r)), rs_rd (row_spec_of (rec_instruction r)))"
    and slots: "record_slots r (rs_flags (row_spec_of (rec_instruction r))) = Inr slots"
    and t: "t = from_parts (row_spec_of (rec_instruction r)) (rec_pc r) (rec_next_pc r) slots"
    using from_record_parts [OF assms] by blast
  note simps = from_parts_def tr_bytecode_row_def bytecode_row_of_def row_from_spec_def
    record_slots_def trace_columns Let_def has_simps spec_simps
  show ?thesis
  proof (cases "rec_instruction r")
    case (Load rd a off)
    then show ?thesis using slots ops unfolding t
      by (auto simp: simps record_operands_def read_value_def split: ram_access.splits if_splits)
  next
    case (Store a v off)
    then show ?thesis using slots ops unfolding t
      by (auto simp: simps record_operands_def post_value_def split: ram_access.splits if_splits)
  qed (use slots load_flag [of "rec_instruction r"] store_flag [of "rec_instruction r"] in
      \<open>auto simp: t from_parts_def tr_bytecode_row_def bytecode_row_of_def row_from_spec_def
        record_slots_def trace_columns Let_def split: if_splits\<close>)
qed

end
