(* ===== verification/R1cs_Matrices.thy ===== *)
theory R1cs_Matrices
  imports Prelude
begin

text \<open>
  \<^verbatim>\<open>jolt-r1cs/src/constraint.rs\<close>: sparse constraint matrices, the check of a witness, and
  the weighted evaluations the verifier folds them into. The field is any commutative ring.
\<close>

section \<open>Constraint matrices\<close>

type_synonym 'f sparse_row = "(nat \<times> 'f) list"

record 'f constraint_matrices =
  cm_num_constraints :: nat
  cm_num_vars :: nat
  cm_a :: "'f sparse_row list"
  cm_b :: "'f sparse_row list"
  cm_c :: "'f sparse_row list"

definition check_invariants :: "nat \<Rightarrow> nat \<Rightarrow> 'f sparse_row list \<Rightarrow> 'f sparse_row list \<Rightarrow> 'f sparse_row list \<Rightarrow> bool" where
  "check_invariants num_constraints num_vars a b c \<longleftrightarrow>
     list_all (\<lambda>rows. length rows = num_constraints \<and>
       list_all (list_all (\<lambda>(col, _). col < num_vars)) rows) [a, b, c]"

text \<open>\<^verbatim>\<open>ConstraintMatrices::new\<close>, which panics (None) when the invariant fails.\<close>

definition cm_new ::
  "nat \<Rightarrow> nat \<Rightarrow> 'f sparse_row list \<Rightarrow> 'f sparse_row list \<Rightarrow> 'f sparse_row list \<Rightarrow> 'f constraint_matrices option"
where
  "cm_new num_constraints num_vars a b c =
     (if check_invariants num_constraints num_vars a b c
      then Some \<lparr>cm_num_constraints = num_constraints, cm_num_vars = num_vars,
        cm_a = a, cm_b = b, cm_c = c\<rparr>
      else None)"

definition row_dot :: "'f::comm_ring_1 sparse_row \<Rightarrow> 'f list \<Rightarrow> 'f" where
  "row_dot r w = fold (\<lambda>(col, coeff) acc. acc + coeff * w ! col) r 0"

text \<open>\<^verbatim>\<open>check_witness\<close> from constraint \<open>k\<close>: the first violated one, if any.\<close>

fun check_rows ::
  "nat \<Rightarrow> 'f::comm_ring_1 sparse_row list \<Rightarrow> 'f sparse_row list \<Rightarrow> 'f sparse_row list \<Rightarrow> 'f list \<Rightarrow> nat + unit"
where
  "check_rows k (a # as) (b # bs) (c # cs) w =
     (if row_dot a w * row_dot b w \<noteq> row_dot c w then Inl k else check_rows (Suc k) as bs cs w)"
| "check_rows k _ _ _ w = Inr ()"

definition check_witness :: "'f::comm_ring_1 constraint_matrices \<Rightarrow> 'f list \<Rightarrow> nat + unit" where
  "check_witness m w = check_rows 0 (cm_a m) (cm_b m) (cm_c m) w"

section \<open>Weighted evaluations\<close>

datatype constraint_matrix_eval_error =
    RowWeightsLengthMismatch nat nat
  | ColumnWeightsLengthMismatch nat nat
  | ColumnOutOfBounds nat nat
  | ColumnRangeOverflow nat nat

definition matrix_column_eval ::
  "'f::comm_ring_1 sparse_row list \<Rightarrow> 'f list \<Rightarrow> nat \<Rightarrow> constraint_matrix_eval_error + 'f"
where
  "matrix_column_eval rows row_weights column =
     (if length row_weights < length rows
      then Inl (RowWeightsLengthMismatch (length rows) (length row_weights))
      else Inr (fold (\<lambda>(row, rw) acc.
        fold (\<lambda>(col, coeff) acc. if col = column then acc + rw * coeff else acc) row acc)
        (zip rows row_weights) 0))"

definition matrix_bilinear_eval_columns ::
  "'f::comm_ring_1 sparse_row list \<Rightarrow> 'f list \<Rightarrow> 'f list \<Rightarrow> nat \<Rightarrow> nat \<Rightarrow> constraint_matrix_eval_error + 'f"
where
  "matrix_bilinear_eval_columns rows row_weights column_weights start_col col_count =
     (if length row_weights < length rows
      then Inl (RowWeightsLengthMismatch (length rows) (length row_weights))
      else if length column_weights \<noteq> col_count
      then Inl (ColumnWeightsLengthMismatch col_count (length column_weights))
      else if start_col + col_count \<ge> 2 ^ 64 then Inl (ColumnRangeOverflow start_col col_count)
      else Inr (fold (\<lambda>(row, rw) acc.
        fold (\<lambda>(col, coeff) acc.
          if start_col \<le> col \<and> col < start_col + col_count
          then acc + rw * column_weights ! (col - start_col) * coeff else acc) row acc)
        (zip rows row_weights) 0))"

text \<open>Both results have a component for each of the three matrices.\<close>

definition public_column_contributions ::
  "'f::comm_ring_1 constraint_matrices \<Rightarrow> 'f list \<Rightarrow> nat \<Rightarrow> 'f \<Rightarrow> constraint_matrix_eval_error + 'f \<times> 'f \<times> 'f"
where
  "public_column_contributions m row_weights column scalar =
     bind_res (matrix_column_eval (cm_a m) row_weights column) (\<lambda>a.
     bind_res (matrix_column_eval (cm_b m) row_weights column) (\<lambda>b.
     bind_res (matrix_column_eval (cm_c m) row_weights column) (\<lambda>c.
     Inr (a * scalar, b * scalar, c * scalar))))"

definition weighted_column ::
  "'f::comm_ring_1 constraint_matrices \<Rightarrow> 'f list \<Rightarrow> nat \<Rightarrow> constraint_matrix_eval_error + 'f \<times> 'f \<times> 'f"
where
  "weighted_column m row_weights column =
     (if column \<ge> cm_num_vars m then Inl (ColumnOutOfBounds column (cm_num_vars m))
      else
        bind_res (matrix_column_eval (cm_a m) row_weights column) (\<lambda>a.
        bind_res (matrix_column_eval (cm_b m) row_weights column) (\<lambda>b.
        bind_res (matrix_column_eval (cm_c m) row_weights column) (\<lambda>c. Inr (a, b, c)))))"

definition weighted_columns ::
  "'f::comm_ring_1 constraint_matrices \<Rightarrow> 'f list \<Rightarrow> nat list \<Rightarrow>
    constraint_matrix_eval_error + 'f list \<times> 'f list \<times> 'f list"
where
  "weighted_columns m row_weights columns =
     (if length row_weights < cm_num_constraints m
      then Inl (RowWeightsLengthMismatch (cm_num_constraints m) (length row_weights))
      else
        bind_res (map_res (weighted_column m row_weights) columns) (\<lambda>ws.
        Inr (map fst ws, map (\<lambda>w. fst (snd w)) ws, map (\<lambda>w. snd (snd w)) ws)))"

definition linear_form_bilinear_eval ::
  "'f::comm_ring_1 constraint_matrices \<Rightarrow> 'f list \<Rightarrow> 'f list \<Rightarrow> nat \<Rightarrow> nat \<Rightarrow> 'f \<times> 'f \<times> 'f \<Rightarrow>
    constraint_matrix_eval_error + 'f"
where
  "linear_form_bilinear_eval m row_weights column_weights start_col col_count weights =
     bind_res (matrix_bilinear_eval_columns (cm_a m) row_weights column_weights start_col col_count) (\<lambda>a.
     bind_res (matrix_bilinear_eval_columns (cm_b m) row_weights column_weights start_col col_count) (\<lambda>b.
     bind_res (matrix_bilinear_eval_columns (cm_c m) row_weights column_weights start_col col_count) (\<lambda>c.
     case weights of (w0, w1, w2) \<Rightarrow> Inr (w0 * a + w1 * b + w2 * c))))"

section \<open>What the evaluations compute\<close>

lemma fold_plus_sum: "fold (\<lambda>x acc. acc + f x) xs (s :: 'f::comm_ring_1) = s + (\<Sum>x \<leftarrow> xs. f x)"
  by (induction xs arbitrary: s) (simp_all add: add.assoc)

lemma row_dot_sum: "row_dot r w = (\<Sum>(col, coeff) \<leftarrow> r. coeff * w ! col)"
proof -
  have "row_dot r w = fold (\<lambda>x acc. acc + (case x of (col, coeff) \<Rightarrow> coeff * w ! col)) r 0"
    unfolding row_dot_def by (rule arg_cong [where f = "\<lambda>f. fold f r 0"]) (auto simp: fun_eq_iff)
  then show ?thesis by (simp add: fold_plus_sum)
qed

lemma row_dot_simps [simp]:
  "row_dot [] w = 0" "row_dot ((col, coeff) # r) w = coeff * w ! col + row_dot r w"
  by (simp_all add: row_dot_sum)

lemma row_dot_append [simp]: "row_dot (r @ s) w = row_dot r w + row_dot s w"
  by (simp add: row_dot_sum)

text \<open>A row only reads the columns it mentions.\<close>

lemma row_dot_cong:
  assumes "\<And>col coeff. (col, coeff) \<in> set r \<Longrightarrow> w ! col = w' ! col"
  shows "row_dot r w = row_dot r w'"
  unfolding row_dot_sum by (intro arg_cong [where f = sum_list] map_cong) (use assms in auto)

text \<open>The column weights placed in a vector of zeros.\<close>

definition window :: "nat \<Rightarrow> 'f::zero list \<Rightarrow> nat \<Rightarrow> 'f list" where
  "window start_col column_weights num_vars =
     map (\<lambda>i. if start_col \<le> i \<and> i < start_col + length column_weights then column_weights ! (i - start_col) else 0)
       [0..<num_vars]"

lemma bilinear_eval_row:
  assumes "list_all (\<lambda>(col, _). col < n) row"
  shows "fold (\<lambda>(col, coeff) acc.
      if start_col \<le> col \<and> col < start_col + length cw then acc + rw * cw ! (col - start_col) * coeff else acc) row acc =
    acc + rw * row_dot row (window start_col cw n)"
  using assms
proof (induction row arbitrary: acc)
  case (Cons x row)
  obtain col coeff where "x = (col, coeff)" by fastforce
  then show ?case using Cons by (auto simp: window_def algebra_simps)
qed simp

lemma bilinear_eval_rows:
  assumes "list_all (list_all (\<lambda>(col, _). col < n)) rows"
  shows "fold (\<lambda>(row, rw) acc. fold (\<lambda>(col, coeff) acc.
      if start_col \<le> col \<and> col < start_col + length cw then acc + rw * cw ! (col - start_col) * coeff else acc) row acc)
      (zip rows ws) acc =
    acc + (\<Sum>(row, rw) \<leftarrow> zip rows ws. rw * row_dot row (window start_col cw n))"
  using assms
proof (induction rows arbitrary: ws acc)
  case (Cons row rows)
  then show ?case
    by (cases ws) (simp_all add: bilinear_eval_row [of n] add.assoc)
qed simp

lemma matrix_bilinear_eval_Inr:
  assumes "list_all (list_all (\<lambda>(col, _). col < n)) rows"
    and "matrix_bilinear_eval_columns rows ws cw start_col col_count = Inr v"
  shows "v = (\<Sum>(row, rw) \<leftarrow> zip rows ws. rw * row_dot row (window start_col cw n))"
proof -
  have "length cw = col_count" "v = fold (\<lambda>(row, rw) acc. fold (\<lambda>(col, coeff) acc.
      if start_col \<le> col \<and> col < start_col + col_count then acc + rw * cw ! (col - start_col) * coeff else acc) row acc)
      (zip rows ws) 0"
    using assms(2) by (auto simp: matrix_bilinear_eval_columns_def split: if_splits)
  then show ?thesis using bilinear_eval_rows [OF assms(1), of start_col cw ws 0] by simp
qed

text \<open>The unit vector of a column.\<close>

definition unit_vector :: "nat \<Rightarrow> nat \<Rightarrow> 'f::zero_neq_one list" where
  "unit_vector column n = map (\<lambda>i. if i = column then 1 else 0) [0..<n]"

lemma column_eval_row:
  assumes "list_all (\<lambda>(col, _). col < n) row"
  shows "fold (\<lambda>(col, coeff) acc. if col = column then acc + rw * coeff else acc) row acc =
    acc + rw * row_dot row (unit_vector column n)"
  using assms
proof (induction row arbitrary: acc)
  case (Cons x row)
  obtain col coeff where "x = (col, coeff)" by fastforce
  then show ?case using Cons by (auto simp: unit_vector_def algebra_simps)
qed simp

lemma matrix_column_eval_Inr:
  assumes "list_all (list_all (\<lambda>(col, _). col < n)) rows"
    and "matrix_column_eval rows ws column = Inr v"
  shows "v = (\<Sum>(row, rw) \<leftarrow> zip rows ws. rw * row_dot row (unit_vector column n))"
proof -
  have "fold (\<lambda>(row, rw) acc. fold (\<lambda>(col, coeff) acc. if col = column then acc + rw * coeff else acc) row acc)
      (zip rows ws) acc = acc + (\<Sum>(row, rw) \<leftarrow> zip rows ws. rw * row_dot row (unit_vector column n))" for acc
    using assms(1)
  proof (induction rows arbitrary: ws acc)
    case (Cons row rows)
    then show ?case by (cases ws) (simp_all add: column_eval_row [of n] add.assoc)
  qed simp
  then show ?thesis using assms(2) by (auto simp: matrix_column_eval_def split: if_splits)
qed

lemma check_invariants_rows:
  "check_invariants n v a b c \<Longrightarrow>
    list_all (list_all (\<lambda>(col, _). col < v)) a \<and> list_all (list_all (\<lambda>(col, _). col < v)) b \<and>
    list_all (list_all (\<lambda>(col, _). col < v)) c \<and> length a = n \<and> length b = n \<and> length c = n"
  by (simp add: check_invariants_def)

section \<open>Satisfaction\<close>

lemma check_rows_iff:
  assumes "length as = length bs" "length cs = length bs"
  shows "check_rows k as bs cs w = Inr () \<longleftrightarrow>
    (\<forall>i < length as. row_dot (as ! i) w * row_dot (bs ! i) w = row_dot (cs ! i) w)"
  using assms
proof (induction k as bs cs w rule: check_rows.induct)
  case (1 k a as b bs c cs w)
  then show ?case by (auto simp: All_less_Suc2)
qed auto

text \<open>The first violated constraint is the one returned.\<close>

lemma check_rows_Inl:
  assumes "length as = length bs" "length cs = length bs" "check_rows k as bs cs w = Inl i"
  shows "k \<le> i \<and> i - k < length as \<and>
    row_dot (as ! (i - k)) w * row_dot (bs ! (i - k)) w \<noteq> row_dot (cs ! (i - k)) w \<and>
    (\<forall>j < i - k. row_dot (as ! j) w * row_dot (bs ! j) w = row_dot (cs ! j) w)"
  using assms
proof (induction k as bs cs w rule: check_rows.induct)
  case (1 k a as b bs c cs w)
  show ?case
  proof (cases "row_dot a w * row_dot b w = row_dot c w")
    case True
    then have "Suc k \<le> i \<and> i - Suc k < length as \<and>
        row_dot (as ! (i - Suc k)) w * row_dot (bs ! (i - Suc k)) w \<noteq> row_dot (cs ! (i - Suc k)) w \<and>
        (\<forall>j < i - Suc k. row_dot (as ! j) w * row_dot (bs ! j) w = row_dot (cs ! j) w)"
      using 1 by simp
    moreover from this obtain d where "i - k = Suc d" "d = i - Suc k" by (metis Suc_diff_Suc Suc_le_lessD)
    ultimately show ?thesis using True by (auto simp: All_less_Suc2)
  next
    case False
    then show ?thesis using 1 by simp
  qed
qed auto

end
