(* ===== verification/R1cs_Wasm.thy ===== *)
theory R1cs_Wasm
  imports Trace_Row R1cs_Matrices
begin

text \<open>
  \<^verbatim>\<open>jolt-r1cs/src/constraints/wasm.rs\<close> over the constraint matrices of
  \<^verbatim>\<open>R1cs_Matrices\<close>, and the witness of a row in \<^verbatim>\<open>jolt-wasm-program/src/r1cs.rs\<close>. The
  field is any commutative ring: the constraints only add and multiply.
\<close>

section \<open>Rows of literals\<close>

text \<open>\<^verbatim>\<open>row\<close> and \<^verbatim>\<open>row_wide\<close> of \<^verbatim>\<open>constraints/mod.rs\<close> (the first also checks that the
  coefficients, all literals, fit 64 bits).\<close>

definition row_of :: "(nat \<times> int) list \<Rightarrow> 'f::comm_ring_1 sparse_row" where
  "row_of entries = map (\<lambda>(idx, c). (idx, of_int c)) (filter (\<lambda>(_, c). c \<noteq> 0) entries)"

section \<open>The variables\<close>

definition V_CONST :: nat where "V_CONST = 0"
definition V_LEFT_INPUT :: nat where "V_LEFT_INPUT = 1"
definition V_RIGHT_INPUT :: nat where "V_RIGHT_INPUT = 2"
definition V_PRODUCT :: nat where "V_PRODUCT = 3"
definition V_PC :: nat where "V_PC = 4"
definition V_IMM :: nat where "V_IMM = 5"
definition V_RAM_ADDRESS :: nat where "V_RAM_ADDRESS = 6"
definition V_RS1_VALUE :: nat where "V_RS1_VALUE = 7"
definition V_RS2_VALUE :: nat where "V_RS2_VALUE = 8"
definition V_RD_WRITE_VALUE :: nat where "V_RD_WRITE_VALUE = 9"
definition V_RAM_READ_VALUE :: nat where "V_RAM_READ_VALUE = 10"
definition V_RAM_WRITE_VALUE :: nat where "V_RAM_WRITE_VALUE = 11"
definition V_LEFT_LOOKUP_OPERAND :: nat where "V_LEFT_LOOKUP_OPERAND = 12"
definition V_RIGHT_LOOKUP_OPERAND :: nat where "V_RIGHT_LOOKUP_OPERAND = 13"
definition V_NEXT_PC :: nat where "V_NEXT_PC = 14"
definition V_LOOKUP_OUTPUT :: nat where "V_LOOKUP_OUTPUT = 15"
definition V_SHOULD_BRANCH :: nat where "V_SHOULD_BRANCH = 16"
definition V_FLAGS :: nat where "V_FLAGS = 17"
definition NUM_FLAGS :: nat where "NUM_FLAGS = 15"
definition NUM_VARS_PER_CYCLE :: nat where "NUM_VARS_PER_CYCLE = V_FLAGS + NUM_FLAGS"
definition NUM_R1CS_INPUTS :: nat where "NUM_R1CS_INPUTS = NUM_VARS_PER_CYCLE - 1"
definition NUM_EQ_CONSTRAINTS :: nat where "NUM_EQ_CONSTRAINTS = 22"
definition NUM_PRODUCT_CONSTRAINTS :: nat where "NUM_PRODUCT_CONSTRAINTS = 2"
definition NUM_CONSTRAINTS_PER_CYCLE :: nat where
  "NUM_CONSTRAINTS_PER_CYCLE = NUM_EQ_CONSTRAINTS + NUM_PRODUCT_CONSTRAINTS"

text \<open>The variable of a flag, \<^verbatim>\<open>V_FLAG_LEFT_IS_RS1\<close> to \<^verbatim>\<open>V_FLAG_ADVICE\<close>.\<close>

definition V_FLAG :: "row_flag \<Rightarrow> nat" where
  "V_FLAG f = V_FLAGS + flag_bit f"

definition input_column :: "nat \<Rightarrow> nat option" where
  "input_column i = (if i < NUM_R1CS_INPUTS then Some (1 + i) else None)"

lemmas variable_defs = V_CONST_def V_LEFT_INPUT_def V_RIGHT_INPUT_def V_PRODUCT_def V_PC_def
  V_IMM_def V_RAM_ADDRESS_def V_RS1_VALUE_def V_RS2_VALUE_def V_RD_WRITE_VALUE_def
  V_RAM_READ_VALUE_def V_RAM_WRITE_VALUE_def V_LEFT_LOOKUP_OPERAND_def V_RIGHT_LOOKUP_OPERAND_def
  V_NEXT_PC_def V_LOOKUP_OUTPUT_def V_SHOULD_BRANCH_def V_FLAGS_def NUM_FLAGS_def
  NUM_VARS_PER_CYCLE_def V_FLAG_def

section \<open>The constraints\<close>

definition TWOS_COMPLEMENT_BIAS :: int where "TWOS_COMPLEMENT_BIAS = 0x10000000000000000"

text \<open>The guard and the difference of the equality rows 0 to 18, and of the next-pc rows 19 to 21.\<close>

definition eq_rows :: "((nat \<times> int) list \<times> (nat \<times> int) list) list" where
  "eq_rows =
    [([(V_FLAG F_LeftIsRs1, 1)], [(V_LEFT_INPUT, 1), (V_RS1_VALUE, -1)]),
     ([(V_CONST, 1), (V_FLAG F_LeftIsRs1, -1)], [(V_LEFT_INPUT, 1)]),
     ([(V_FLAG F_RightIsRs2, 1)], [(V_RIGHT_INPUT, 1), (V_RS2_VALUE, -1)]),
     ([(V_FLAG F_RightIsImm, 1)], [(V_RIGHT_INPUT, 1), (V_IMM, -1)]),
     ([(V_CONST, 1), (V_FLAG F_RightIsRs2, -1), (V_FLAG F_RightIsImm, -1)], [(V_RIGHT_INPUT, 1)]),
     ([(V_FLAG F_Load, 1), (V_FLAG F_Store, 1)],
      [(V_RAM_ADDRESS, 1), (V_RS1_VALUE, -1), (V_IMM, -1)]),
     ([(V_CONST, 1), (V_FLAG F_Load, -1), (V_FLAG F_Store, -1)], [(V_RAM_ADDRESS, 1)]),
     ([(V_FLAG F_Load, 1)], [(V_RAM_READ_VALUE, 1), (V_RAM_WRITE_VALUE, -1)]),
     ([(V_FLAG F_Load, 1)], [(V_RAM_READ_VALUE, 1), (V_RD_WRITE_VALUE, -1)]),
     ([(V_FLAG F_Store, 1)], [(V_RS2_VALUE, 1), (V_RAM_WRITE_VALUE, -1)]),
     ([(V_FLAG F_AddOperands, 1), (V_FLAG F_SubOperands, 1), (V_FLAG F_MulOperands, 1)],
      [(V_LEFT_LOOKUP_OPERAND, 1)]),
     ([(V_CONST, 1), (V_FLAG F_AddOperands, -1), (V_FLAG F_SubOperands, -1), (V_FLAG F_MulOperands, -1)],
      [(V_LEFT_LOOKUP_OPERAND, 1), (V_LEFT_INPUT, -1)]),
     ([(V_FLAG F_AddOperands, 1)],
      [(V_RIGHT_LOOKUP_OPERAND, 1), (V_LEFT_INPUT, -1), (V_RIGHT_INPUT, -1)]),
     ([(V_FLAG F_SubOperands, 1)],
      [(V_RIGHT_LOOKUP_OPERAND, 1), (V_LEFT_INPUT, -1), (V_RIGHT_INPUT, 1),
       (V_CONST, - TWOS_COMPLEMENT_BIAS)]),
     ([(V_FLAG F_MulOperands, 1)], [(V_RIGHT_LOOKUP_OPERAND, 1), (V_PRODUCT, -1)]),
     ([(V_CONST, 1), (V_FLAG F_AddOperands, -1), (V_FLAG F_SubOperands, -1), (V_FLAG F_MulOperands, -1),
       (V_FLAG F_Advice, -1)],
      [(V_RIGHT_LOOKUP_OPERAND, 1), (V_RIGHT_INPUT, -1)]),
     ([(V_FLAG F_Assert, 1)], [(V_LOOKUP_OUTPUT, 1), (V_CONST, -1)]),
     ([(V_FLAG F_WriteLookupToRd, 1)], [(V_RD_WRITE_VALUE, 1), (V_LOOKUP_OUTPUT, -1)]),
     ([(V_FLAG F_Jump, 1)], [(V_NEXT_PC, 1), (V_LOOKUP_OUTPUT, -1)])]"

definition next_pc_rows :: "((nat \<times> int) list \<times> (nat \<times> int) list) list" where
  "next_pc_rows =
    [([(V_SHOULD_BRANCH, 1)], [(V_NEXT_PC, 1), (V_IMM, -1)]),
     ([(V_FLAG F_Halt, 1)], [(V_NEXT_PC, 1), (V_PC, -1)]),
     ([(V_CONST, 1), (V_SHOULD_BRANCH, -1), (V_FLAG F_Jump, -1), (V_FLAG F_Halt, -1)],
      [(V_NEXT_PC, 1), (V_PC, -1), (V_CONST, -1)])]"

definition product_rows :: "((nat \<times> int) list \<times> (nat \<times> int) list \<times> (nat \<times> int) list) list" where
  "product_rows =
    [([(V_LEFT_INPUT, 1)], [(V_RIGHT_INPUT, 1)], [(V_PRODUCT, 1)]),
     ([(V_LOOKUP_OUTPUT, 1)], [(V_FLAG F_Branch, 1)], [(V_SHOULD_BRANCH, 1)])]"

text \<open>\<^verbatim>\<open>wasm_eq_constraint_rows\<close>: the three matrices of the equality rows.\<close>

definition wasm_eq_constraint_rows ::
  "'f::comm_ring_1 sparse_row list \<times> 'f sparse_row list \<times> 'f sparse_row list"
where
  "wasm_eq_constraint_rows =
     (map (row_of \<circ> fst) (eq_rows @ next_pc_rows), map (row_of \<circ> snd) (eq_rows @ next_pc_rows),
      map (\<lambda>_. []) (eq_rows @ next_pc_rows))"

definition wasm_spartan_outer_constraints :: "'f::comm_ring_1 constraint_matrices option" where
  "wasm_spartan_outer_constraints =
     (case wasm_eq_constraint_rows of (a, b, c) \<Rightarrow> cm_new NUM_EQ_CONSTRAINTS NUM_VARS_PER_CYCLE a b c)"

definition wasm_trace_constraints :: "'f::comm_ring_1 constraint_matrices option" where
  "wasm_trace_constraints =
     (case wasm_eq_constraint_rows of (a, b, c) \<Rightarrow>
        cm_new NUM_CONSTRAINTS_PER_CYCLE NUM_VARS_PER_CYCLE
          (a @ map (row_of \<circ> fst) product_rows) (b @ map (row_of \<circ> fst \<circ> snd) product_rows)
          (c @ map (row_of \<circ> snd \<circ> snd) product_rows))"

section \<open>The witness of a row\<close>

text \<open>The values, in the order of the variables, then the flags.\<close>

definition cycle_witness :: "wasm_trace_row \<Rightarrow> 'f::comm_ring_1 list" where
  "cycle_witness t =
     (let left = tr_left_input t; right = tr_right_input t; output = tr_lookup_output t;
          flags = tr_flags t; (left_lookup, right_lookup) = tr_lookup_operands t in
      [1,
       from_u64 left,
       from_u64 right,
       of_nat (unat (ucast left * ucast right :: u128)),
       of_nat (unat (tr_pc t)),
       of_int (tr_imm_signed t),
       from_u64 (ram_address t),
       from_u64 (rs1_value t),
       from_u64 (rs2_value t),
       from_u64 (rd_write_value t),
       from_u64 (ram_read_value t),
       from_u64 (ram_write_value t),
       from_u64 left_lookup,
       of_nat (unat right_lookup),
       of_nat (unat (tr_next_pc t)),
       from_u64 output,
       of_bool (flags_has flags F_Branch \<and> output = 1)] @
      map (\<lambda>i. of_bool (bit (flags_bits flags) i)) [0..<NUM_FLAGS])"

lemma constraint_counts:
  "length (eq_rows @ next_pc_rows) = NUM_EQ_CONSTRAINTS" "length product_rows = NUM_PRODUCT_CONSTRAINTS"
  by (simp_all add: eq_rows_def next_pc_rows_def product_rows_def NUM_EQ_CONSTRAINTS_def
      NUM_PRODUCT_CONSTRAINTS_def)

lemma length_cycle_witness: "length (cycle_witness t) = NUM_VARS_PER_CYCLE"
  by (simp add: cycle_witness_def variable_defs Let_def split: prod.splits)

section \<open>Reading the witness\<close>

lemma witness_values [simp]:
  "cycle_witness t ! V_CONST = 1"
  "cycle_witness t ! V_LEFT_INPUT = from_u64 (tr_left_input t)"
  "cycle_witness t ! V_RIGHT_INPUT = from_u64 (tr_right_input t)"
  "cycle_witness t ! V_PRODUCT =
    of_nat (unat (ucast (tr_left_input t) * ucast (tr_right_input t) :: u128))"
  "cycle_witness t ! V_PC = of_nat (unat (tr_pc t))"
  "cycle_witness t ! V_IMM = of_int (tr_imm_signed t)"
  "cycle_witness t ! V_RAM_ADDRESS = from_u64 (ram_address t)"
  "cycle_witness t ! V_RS1_VALUE = from_u64 (rs1_value t)"
  "cycle_witness t ! V_RS2_VALUE = from_u64 (rs2_value t)"
  "cycle_witness t ! V_RD_WRITE_VALUE = from_u64 (rd_write_value t)"
  "cycle_witness t ! V_RAM_READ_VALUE = from_u64 (ram_read_value t)"
  "cycle_witness t ! V_RAM_WRITE_VALUE = from_u64 (ram_write_value t)"
  "cycle_witness t ! V_LEFT_LOOKUP_OPERAND = from_u64 (fst (tr_lookup_operands t))"
  "cycle_witness t ! V_RIGHT_LOOKUP_OPERAND = of_nat (unat (snd (tr_lookup_operands t)))"
  "cycle_witness t ! V_NEXT_PC = of_nat (unat (tr_next_pc t))"
  "cycle_witness t ! V_LOOKUP_OUTPUT = from_u64 (tr_lookup_output t)"
  "cycle_witness t ! V_SHOULD_BRANCH = of_bool (flags_has (tr_flags t) F_Branch \<and> tr_lookup_output t = 1)"
  by (simp_all add: cycle_witness_def variable_defs Let_def split_beta nth_append)

lemma witness_flag [simp]:
  "(cycle_witness t ! V_FLAG f :: 'f::comm_ring_1) = of_bool (flags_has (tr_flags t) f)"
proof -
  let ?w = "cycle_witness t :: 'f list"
    and ?flags = "map (\<lambda>i. of_bool (bit (flags_bits (tr_flags t)) i)) [0..<15] :: 'f list"
  have w: "?w = take 17 ?w @ ?flags"
    by (simp add: cycle_witness_def Let_def split_beta NUM_FLAGS_def del: upt_rec_numeral)
  have "length (take 17 ?w) = 17" by (simp add: length_cycle_witness variable_defs)
  then have "?w ! (17 + flag_bit f) = ?flags ! flag_bit f"
    by (subst w) (metis nth_append_length_plus)
  then show ?thesis
    using flag_bit_less [of f] by (simp add: V_FLAG_def V_FLAGS_def flags_has_bit del: upt_rec_numeral)
qed

lemma row_dot_row_of: "row_dot (row_of entries) w = (\<Sum>(i, c) \<leftarrow> entries. of_int c * w ! i)"
proof -
  have "fold (\<lambda>(col, coeff) acc. acc + coeff * w ! col) (row_of entries) s =
      s + (\<Sum>(i, c) \<leftarrow> entries. of_int c * w ! i)" for s
    by (induction entries arbitrary: s) (auto simp: row_of_def add.assoc)
  then show ?thesis by (simp add: row_dot_def)
qed

lemma check_rows_map:
  "check_rows k (map f xs) (map g xs) (map h xs) w = Inr () \<longleftrightarrow>
    (\<forall>x \<in> set xs. row_dot (f x) w * row_dot (g x) w = row_dot (h x) w)"
  by (induction xs arbitrary: k) auto

text \<open>All rows as triples.\<close>

definition constraint_triples :: "((nat \<times> int) list \<times> (nat \<times> int) list \<times> (nat \<times> int) list) list" where
  "constraint_triples = map (\<lambda>(g, d). (g, d, [])) (eq_rows @ next_pc_rows) @ product_rows"

lemma trace_constraints_Some:
  "wasm_trace_constraints = Some \<lparr>cm_num_constraints = 24, cm_num_vars = 32,
     cm_a = map (row_of \<circ> fst) constraint_triples, cm_b = map (row_of \<circ> fst \<circ> snd) constraint_triples,
     cm_c = map (row_of \<circ> snd \<circ> snd) constraint_triples\<rparr>"
  by (simp add: wasm_trace_constraints_def wasm_eq_constraint_rows_def cm_new_def check_invariants_def
      eq_rows_def next_pc_rows_def product_rows_def constraint_triples_def row_of_def variable_defs
      NUM_CONSTRAINTS_PER_CYCLE_def NUM_EQ_CONSTRAINTS_def NUM_PRODUCT_CONSTRAINTS_def TWOS_COMPLEMENT_BIAS_def)

lemma check_witness_iff:
  assumes "wasm_trace_constraints = Some m"
  shows "check_witness m w = Inr () \<longleftrightarrow> (\<forall>(a, b, c) \<in> set constraint_triples.
    row_dot (row_of a) w * row_dot (row_of b) w = row_dot (row_of c) w)"
proof -
  have m: "m = \<lparr>cm_num_constraints = 24, cm_num_vars = 32,
     cm_a = map (row_of \<circ> fst) constraint_triples, cm_b = map (row_of \<circ> fst \<circ> snd) constraint_triples,
     cm_c = map (row_of \<circ> snd \<circ> snd) constraint_triples\<rparr>"
    using assms by (simp add: trace_constraints_Some)
  show ?thesis unfolding m check_witness_def by (simp add: check_rows_map split_beta)
qed

end
