(* ===== verification/R1cs_Correct.thy ===== *)
theory R1cs_Correct
  imports R1cs_Wasm
begin

text \<open>
  What the uniform constraints say. \<open>constraintsD\<close> reads the 24 rows as implications
  between columns; \<open>constraints_sound\<close> and \<open>constraints_complete\<close> relate them to the
  row check of \<^verbatim>\<open>row.rs\<close>.
\<close>


section \<open>The columns of a record's row\<close>

lemma row_of_record:
  assumes "from_record r = Inr t"
  shows "tr_flags t = rs_flags (row_spec_of (rec_instruction r))"
    "tr_lookup t = rs_lookup (row_spec_of (rec_instruction r))"
    "tr_imm t = rs_imm (row_spec_of (rec_instruction r))"
    "rs1_value t = read_value (rec_rs1 r)" "rs2_value t = read_value (rec_rs2 r)"
    "rd_write_value t = post_value (rec_rd r)" "tr_pc t = rec_pc r" "tr_next_pc t = rec_next_pc r"
    "tr_left_input t = spec_left_input (row_spec_of (rec_instruction r)) (read_value (rec_rs1 r))"
    "tr_right_input t = spec_right_input (row_spec_of (rec_instruction r)) (read_value (rec_rs2 r))"
    "tr_imm_signed t = br_imm_signed (bytecode_row_of (rec_instruction r))"
proof -
  note c = from_record_columns [OF assms]
  have b: "tr_bytecode_row t = bytecode_row_of (rec_instruction r)" using c by blast
  then show f: "tr_flags t = rs_flags (row_spec_of (rec_instruction r))"
    "tr_lookup t = rs_lookup (row_spec_of (rec_instruction r))"
    "tr_imm t = rs_imm (row_spec_of (rec_instruction r))"
    by (simp_all add: tr_bytecode_row_def bytecode_row_of_def row_from_spec_def)
  show v: "rs1_value t = read_value (rec_rs1 r)" "rs2_value t = read_value (rec_rs2 r)"
    "rd_write_value t = post_value (rec_rd r)" "tr_pc t = rec_pc r" "tr_next_pc t = rec_next_pc r"
    using c by blast+
  show "tr_left_input t = spec_left_input (row_spec_of (rec_instruction r)) (read_value (rec_rs1 r))"
    "tr_right_input t = spec_right_input (row_spec_of (rec_instruction r)) (read_value (rec_rs2 r))"
    by (simp_all add: tr_left_input_def tr_right_input_def spec_left_input_def spec_right_input_def f v)
  show "tr_imm_signed t = br_imm_signed (bytecode_row_of (rec_instruction r))"
    by (simp add: tr_imm_signed_def b)
qed

text \<open>The operands of the row's operation are in the domain of its table.\<close>

definition in_table_domain :: "exec_record \<Rightarrow> bool" where
  "in_table_domain r = (let spec = row_spec_of (rec_instruction r) in
     case rs_lookup spec of
       Some (Lookup_Table op) \<Rightarrow> in_domain op (spec_right_input spec (read_value (rec_rs2 r)))
     | _ \<Rightarrow> True)"

lemma lookup_output_of_record:
  assumes "from_record r = Inr t" "in_table_domain r"
  shows "tr_lookup_output t = (let spec = row_spec_of (rec_instruction r) in
    spec_output spec (spec_left_input spec (read_value (rec_rs1 r)))
      (spec_right_input spec (read_value (rec_rs2 r))) (post_value (rec_rd r)))"
proof (cases "rs_lookup (row_spec_of (rec_instruction r))")
  case None
  then show ?thesis
    by (simp add: tr_lookup_output_def tr_table_op_def row_of_record [OF assms(1)] spec_output_def Let_def)
next
  case (Some l)
  show ?thesis
  proof (cases l)
    case (Lookup_Table op)
    then show ?thesis using assms(2) Some
        table_output_eq [of op "spec_right_input (row_spec_of (rec_instruction r)) (read_value (rec_rs2 r))"
          "spec_left_input (row_spec_of (rec_instruction r)) (read_value (rec_rs1 r))"]
      by (simp add: tr_lookup_output_def tr_table_op_def tr_lookup_index_def row_of_record [OF assms(1)]
          spec_output_def in_table_domain_def table_output_def lookup_index_def Let_def)
  next
    case (Lookup_Advice h)
    have "(ucast (ucast (v :: u64) :: u128) :: u64) = v" for v
      by (rule bit_word_eqI) (simp add: bit_simps)
    then show ?thesis using Some Lookup_Advice
      by (simp add: tr_lookup_output_def tr_table_op_def tr_lookup_index_def row_of_record [OF assms(1)]
          spec_output_def XLEN_def range_check_entry_eq Let_def)
  qed
qed

section \<open>Equations between small integers\<close>

text \<open>The field is large: no small integer but zero vanishes in it.\<close>

definition large_ring :: "'f::comm_ring_1 itself \<Rightarrow> bool" where
  "large_ring _ \<longleftrightarrow> (\<forall>k. (of_int k :: 'f) = 0 \<longrightarrow> \<bar>k\<bar> < 2 ^ 130 \<longrightarrow> k = 0)"

lemma large_ring_eq:
  assumes "large_ring TYPE('f::comm_ring_1)" "\<bar>a - b\<bar> < 2 ^ 130"
  shows "(of_int a :: 'f) = of_int b \<longleftrightarrow> a = b"
proof -
  have "(of_int a :: 'f) = of_int b \<longleftrightarrow> (of_int (a - b) :: 'f) = 0" by simp
  then show ?thesis using assms unfolding large_ring_def by fastforce
qed

lemma from_u64_int: "from_u64 x = of_int (uint x)"
  by (simp add: from_u64_def)

lemma word_bounds: "0 \<le> uint (x :: u64)" "uint x < 2 ^ 64" "0 \<le> uint (p :: u32)" "uint p < 2 ^ 32"
  using uint_lt2p [of x] uint_lt2p [of p] by simp_all

lemma diff_small:
  "- (2 ^ 65) < a \<Longrightarrow> a < 2 ^ 66 \<Longrightarrow> - (2 ^ 65) < b \<Longrightarrow> b < 2 ^ 66 \<Longrightarrow> \<bar>a - b\<bar> < (2 ^ 130 :: int)"
  by (simp add: abs_less_iff)

lemma word_small:
  fixes x :: u64 and p :: u32
  shows "- (2 ^ 65) < uint x" "uint x < 2 ^ 66" "- (2 ^ 65) < uint p" "uint p < 2 ^ 66"
    "- (2 ^ 65) < uint p + 1" "uint p + 1 < 2 ^ 66"
proof -
  show "- (2 ^ 65) < uint x" "uint x < 2 ^ 66" "- (2 ^ 65) < uint p" "uint p < 2 ^ 66"
    using uint_lt2p [of x] uint_lt2p [of p]
    by (auto intro: less_le_trans [OF _ uint_ge_0] less_trans)
  have "(0 :: int) + 0 \<le> uint p + 1" by (intro add_mono) simp_all
  then show "- (2 ^ 65) < uint p + 1" by (rule less_le_trans [rotated]) simp
  have "uint p + 1 \<le> 2 ^ 32" using uint_lt2p [of p] by simp
  then show "uint p + 1 < 2 ^ 66" by (rule le_less_trans) simp
qed

lemma sum_small:
  fixes y :: u64
  assumes "\<bar>k\<bar> \<le> 2 ^ 64"
  shows "- (2 ^ 65) < uint y + k" "uint y + k < 2 ^ 66" "- (2 ^ 65) < k" "k < 2 ^ 66"
proof -
  have k: "- (2 ^ 64) \<le> k" "k \<le> 2 ^ 64" using assms by (simp_all add: abs_le_iff)
  have "0 + - (2 ^ 64) \<le> uint y + k" by (rule add_mono) (simp_all only: k(1) uint_ge_0)
  then show "- (2 ^ 65) < uint y + k" by (rule less_le_trans [rotated]) simp
  have "uint y + k < 2 ^ 64 + 2 ^ 64" by (rule add_less_le_mono) (use uint_lt2p [of y] k(2) in simp_all)
  then show "uint y + k < 2 ^ 66" by (rule less_trans) simp
  show "- (2 ^ 65) < k" by (rule less_le_trans [OF _ k(1)]) simp
  show "k < 2 ^ 66" by (rule le_less_trans [OF k(2)]) simp
qed

lemma one_zero_small: "- (2 ^ 65) < (1::int)" "(1::int) < 2 ^ 66" "- (2 ^ 65) < (0::int)" "(0::int) < 2 ^ 66"
  by simp_all

lemma field_eqs:
  fixes x y :: u64 and p q :: u32
  assumes "large_ring TYPE('f::comm_ring_1)"
  shows "(from_u64 x :: 'f) = from_u64 y \<longleftrightarrow> x = y" 
    "(from_u64 x :: 'f) = 1 \<longleftrightarrow> x = 1" "(from_u64 x :: 'f) = 0 \<longleftrightarrow> x = 0"
    "(of_nat (unat p) :: 'f) = of_nat (unat q) \<longleftrightarrow> p = q"
    "(of_nat (unat p) :: 'f) = from_u64 y \<longleftrightarrow> uint p = uint y"
    "(of_nat (unat p) :: 'f) = of_nat (unat q) + 1 \<longleftrightarrow> uint p = uint q + 1"
    "\<bar>k\<bar> \<le> 2 ^ 64 \<Longrightarrow> (of_nat (unat p) :: 'f) = of_int k \<longleftrightarrow> uint p = k"
    "\<bar>k\<bar> \<le> 2 ^ 64 \<Longrightarrow> (from_u64 x :: 'f) = from_u64 y + of_int k \<longleftrightarrow> uint x = uint y + k"
proof -
  note eq = large_ring_eq [OF assms diff_small]
  have p: "(of_nat (unat p) :: 'f) = of_int (uint p)" for p :: u32 by simp
  have "(of_int (uint x) :: 'f) = of_int (uint y) \<longleftrightarrow> uint x = uint y"
    by (rule eq) (rule word_small)+
  then show "(from_u64 x :: 'f) = from_u64 y \<longleftrightarrow> x = y" unfolding from_u64_int word_uint_eq_iff .
  have "(of_int (uint x) :: 'f) = of_int 1 \<longleftrightarrow> uint x = 1"
    by (rule eq) (rule word_small one_zero_small)+
  then show "(from_u64 x :: 'f) = 1 \<longleftrightarrow> x = 1" unfolding from_u64_int word_uint_eq_iff by simp
  have "(of_int (uint x) :: 'f) = of_int 0 \<longleftrightarrow> uint x = 0"
    by (rule eq) (rule word_small one_zero_small)+
  then show "(from_u64 x :: 'f) = 0 \<longleftrightarrow> x = 0" unfolding from_u64_int word_uint_eq_iff by simp
  have "(of_int (uint p) :: 'f) = of_int (uint q) \<longleftrightarrow> uint p = uint q"
    by (rule eq) (rule word_small)+
  then show "(of_nat (unat p) :: 'f) = of_nat (unat q) \<longleftrightarrow> p = q" unfolding p word_uint_eq_iff .
  have "(of_int (uint p) :: 'f) = of_int (uint y) \<longleftrightarrow> uint p = uint y"
    by (rule eq) (rule word_small)+
  then show "(of_nat (unat p) :: 'f) = from_u64 y \<longleftrightarrow> uint p = uint y" unfolding p from_u64_int .
  have "(of_int (uint p) :: 'f) = of_int (uint q + 1) \<longleftrightarrow> uint p = uint q + 1"
    by (rule eq) (rule word_small)+
  then show "(of_nat (unat p) :: 'f) = of_nat (unat q) + 1 \<longleftrightarrow> uint p = uint q + 1"
    unfolding p of_int_add of_int_1 .
  show "(of_nat (unat p) :: 'f) = of_int k \<longleftrightarrow> uint p = k" if "\<bar>k\<bar> \<le> 2 ^ 64"
    unfolding p by (rule eq) (rule word_small sum_small [OF that])+
  have "(of_int (uint x) :: 'f) = of_int (uint y + k) \<longleftrightarrow> uint x = uint y + k" if "\<bar>k\<bar> \<le> 2 ^ 64"
    by (rule eq) (rule word_small sum_small [OF that])+
  then show "(from_u64 x :: 'f) = from_u64 y + of_int k \<longleftrightarrow> uint x = uint y + k" if "\<bar>k\<bar> \<le> 2 ^ 64"
    using that unfolding from_u64_int of_int_add by blast
qed


section \<open>The constraints as implications\<close>

lemma guard_simps:
  fixes x y :: "'f::comm_ring_1"
  shows "of_bool a * x = 0 \<longleftrightarrow> (a \<longrightarrow> x = 0)"
    "(1 - of_bool a) * x = 0 \<longleftrightarrow> (\<not> a \<longrightarrow> x = 0)"
    "\<not> (a \<and> b) \<Longrightarrow> (of_bool a + of_bool b) * x = 0 \<longleftrightarrow> (a \<or> b \<longrightarrow> x = 0)"
    "\<not> (a \<and> b) \<Longrightarrow> (1 - of_bool a - of_bool b) * x = 0 \<longleftrightarrow> (\<not> a \<and> \<not> b \<longrightarrow> x = 0)"
    "\<not> (a \<and> b) \<Longrightarrow> \<not> (a \<and> c) \<Longrightarrow> \<not> (b \<and> c) \<Longrightarrow>
      (of_bool a + of_bool b + of_bool c) * x = 0 \<longleftrightarrow> (a \<or> b \<or> c \<longrightarrow> x = 0)"
    "\<not> (a \<and> b) \<Longrightarrow> \<not> (a \<and> c) \<Longrightarrow> \<not> (b \<and> c) \<Longrightarrow>
      (1 - of_bool a - of_bool b - of_bool c) * x = 0 \<longleftrightarrow> (\<not> a \<and> \<not> b \<and> \<not> c \<longrightarrow> x = 0)"
    "\<not> (a \<and> b) \<Longrightarrow> \<not> (a \<and> c) \<Longrightarrow> \<not> (b \<and> c) \<Longrightarrow> \<not> (d \<and> (a \<or> b \<or> c)) \<Longrightarrow>
      (1 - of_bool a - of_bool b - of_bool c - of_bool d) * x = 0 \<longleftrightarrow>
        (\<not> a \<and> \<not> b \<and> \<not> c \<and> \<not> d \<longrightarrow> x = 0)"
  by auto

text \<open>The flags of a row exclude each other the way the guards of the constraints assume.\<close>

lemma row_flags_exclusive:
  defines "h i \<equiv> flags_has (rs_flags (row_spec_of i))"
  shows "\<not> (h i F_RightIsRs2 \<and> h i F_RightIsImm)" "\<not> (h i F_Load \<and> h i F_Store)"
    "\<not> (h i F_AddOperands \<and> h i F_SubOperands)" "\<not> (h i F_AddOperands \<and> h i F_MulOperands)"
    "\<not> (h i F_SubOperands \<and> h i F_MulOperands)"
    "\<not> (h i F_Advice \<and> (h i F_AddOperands \<or> h i F_SubOperands \<or> h i F_MulOperands))"
    "\<not> (h i F_Branch \<and> h i F_Jump)" "\<not> (h i F_Branch \<and> h i F_Halt)" "\<not> (h i F_Jump \<and> h i F_Halt)"
  unfolding h_def by (cases i; simp add: has_simps spec_empty_def right_operand_eq split: operand.splits)+

text \<open>What the rows say of a witness whose flag columns are those of the instruction \<open>i\<close> and whose
  branch column is 0 or 1.\<close>

lemma constraints_iff:
  fixes w :: "'f::comm_ring_1 list" and i :: ir
  defines "h \<equiv> flags_has (rs_flags (row_spec_of i))"
  assumes m: "wasm_trace_constraints = Some m"
    and c: "w ! V_CONST = 1" and f: "\<And>f. w ! V_FLAG f = of_bool (h f)"
    and s: "w ! V_SHOULD_BRANCH = of_bool taken" "taken \<longrightarrow> h F_Branch"
  shows "check_witness m w = Inr () \<longleftrightarrow>
    (h F_LeftIsRs1 \<longrightarrow> w ! V_LEFT_INPUT = w ! V_RS1_VALUE) \<and>
    (\<not> h F_LeftIsRs1 \<longrightarrow> w ! V_LEFT_INPUT = 0) \<and>
    (h F_RightIsRs2 \<longrightarrow> w ! V_RIGHT_INPUT = w ! V_RS2_VALUE) \<and>
    (h F_RightIsImm \<longrightarrow> w ! V_RIGHT_INPUT = w ! V_IMM) \<and>
    (\<not> h F_RightIsRs2 \<and> \<not> h F_RightIsImm \<longrightarrow> w ! V_RIGHT_INPUT = 0) \<and>
    (h F_Load \<or> h F_Store \<longrightarrow> w ! V_RAM_ADDRESS = w ! V_RS1_VALUE + w ! V_IMM) \<and>
    (\<not> h F_Load \<and> \<not> h F_Store \<longrightarrow> w ! V_RAM_ADDRESS = 0) \<and>
    (h F_Load \<longrightarrow> w ! V_RAM_READ_VALUE = w ! V_RAM_WRITE_VALUE) \<and>
    (h F_Load \<longrightarrow> w ! V_RAM_READ_VALUE = w ! V_RD_WRITE_VALUE) \<and>
    (h F_Store \<longrightarrow> w ! V_RS2_VALUE = w ! V_RAM_WRITE_VALUE) \<and>
    (h F_AddOperands \<or> h F_SubOperands \<or> h F_MulOperands \<longrightarrow> w ! V_LEFT_LOOKUP_OPERAND = 0) \<and>
    (\<not> h F_AddOperands \<and> \<not> h F_SubOperands \<and> \<not> h F_MulOperands \<longrightarrow>
       w ! V_LEFT_LOOKUP_OPERAND = w ! V_LEFT_INPUT) \<and>
    (h F_AddOperands \<longrightarrow> w ! V_RIGHT_LOOKUP_OPERAND = w ! V_LEFT_INPUT + w ! V_RIGHT_INPUT) \<and>
    (h F_SubOperands \<longrightarrow> w ! V_RIGHT_LOOKUP_OPERAND =
       w ! V_LEFT_INPUT - w ! V_RIGHT_INPUT + of_int TWOS_COMPLEMENT_BIAS) \<and>
    (h F_MulOperands \<longrightarrow> w ! V_RIGHT_LOOKUP_OPERAND = w ! V_PRODUCT) \<and>
    (\<not> h F_AddOperands \<and> \<not> h F_SubOperands \<and> \<not> h F_MulOperands \<and> \<not> h F_Advice \<longrightarrow>
       w ! V_RIGHT_LOOKUP_OPERAND = w ! V_RIGHT_INPUT) \<and>
    (h F_Assert \<longrightarrow> w ! V_LOOKUP_OUTPUT = 1) \<and>
    (h F_WriteLookupToRd \<longrightarrow> w ! V_RD_WRITE_VALUE = w ! V_LOOKUP_OUTPUT) \<and>
    (h F_Jump \<longrightarrow> w ! V_NEXT_PC = w ! V_LOOKUP_OUTPUT) \<and>
    (taken \<longrightarrow> w ! V_NEXT_PC = w ! V_IMM) \<and>
    (h F_Halt \<longrightarrow> w ! V_NEXT_PC = w ! V_PC) \<and>
    (\<not> taken \<and> \<not> h F_Jump \<and> \<not> h F_Halt \<longrightarrow> w ! V_NEXT_PC = w ! V_PC + 1) \<and>
    w ! V_LEFT_INPUT * w ! V_RIGHT_INPUT = w ! V_PRODUCT \<and>
    w ! V_LOOKUP_OUTPUT * of_bool (h F_Branch) = of_bool taken"
proof -
  note e = row_flags_exclusive [of i, folded h_def]
  have t: "\<not> (taken \<and> h F_Jump)" "\<not> (taken \<and> h F_Halt)" using s(2) e by auto
  have eqs: "check_witness m w = Inr () \<longleftrightarrow>
    (of_bool (h F_LeftIsRs1) * (w ! V_LEFT_INPUT - w ! V_RS1_VALUE) = 0 \<and>
     (1 - of_bool (h F_LeftIsRs1)) * w ! V_LEFT_INPUT = 0 \<and>
     of_bool (h F_RightIsRs2) * (w ! V_RIGHT_INPUT - w ! V_RS2_VALUE) = 0 \<and>
     of_bool (h F_RightIsImm) * (w ! V_RIGHT_INPUT - w ! V_IMM) = 0 \<and>
     (1 - of_bool (h F_RightIsRs2) - of_bool (h F_RightIsImm)) * w ! V_RIGHT_INPUT = 0 \<and>
     (of_bool (h F_Load) + of_bool (h F_Store)) * (w ! V_RAM_ADDRESS - (w ! V_RS1_VALUE + w ! V_IMM)) = 0 \<and>
     (1 - of_bool (h F_Load) - of_bool (h F_Store)) * w ! V_RAM_ADDRESS = 0 \<and>
     of_bool (h F_Load) * (w ! V_RAM_READ_VALUE - w ! V_RAM_WRITE_VALUE) = 0 \<and>
     of_bool (h F_Load) * (w ! V_RAM_READ_VALUE - w ! V_RD_WRITE_VALUE) = 0 \<and>
     of_bool (h F_Store) * (w ! V_RS2_VALUE - w ! V_RAM_WRITE_VALUE) = 0 \<and>
     (of_bool (h F_AddOperands) + of_bool (h F_SubOperands) + of_bool (h F_MulOperands)) *
       w ! V_LEFT_LOOKUP_OPERAND = 0 \<and>
     (1 - of_bool (h F_AddOperands) - of_bool (h F_SubOperands) - of_bool (h F_MulOperands)) *
       (w ! V_LEFT_LOOKUP_OPERAND - w ! V_LEFT_INPUT) = 0 \<and>
     of_bool (h F_AddOperands) * (w ! V_RIGHT_LOOKUP_OPERAND - (w ! V_LEFT_INPUT + w ! V_RIGHT_INPUT)) = 0 \<and>
     of_bool (h F_SubOperands) * (w ! V_RIGHT_LOOKUP_OPERAND -
       (w ! V_LEFT_INPUT - w ! V_RIGHT_INPUT + of_int TWOS_COMPLEMENT_BIAS)) = 0 \<and>
     of_bool (h F_MulOperands) * (w ! V_RIGHT_LOOKUP_OPERAND - w ! V_PRODUCT) = 0 \<and>
     (1 - of_bool (h F_AddOperands) - of_bool (h F_SubOperands) - of_bool (h F_MulOperands) -
       of_bool (h F_Advice)) * (w ! V_RIGHT_LOOKUP_OPERAND - w ! V_RIGHT_INPUT) = 0 \<and>
     of_bool (h F_Assert) * (w ! V_LOOKUP_OUTPUT - 1) = 0 \<and>
     of_bool (h F_WriteLookupToRd) * (w ! V_RD_WRITE_VALUE - w ! V_LOOKUP_OUTPUT) = 0 \<and>
     of_bool (h F_Jump) * (w ! V_NEXT_PC - w ! V_LOOKUP_OUTPUT) = 0 \<and>
     of_bool taken * (w ! V_NEXT_PC - w ! V_IMM) = 0 \<and>
     of_bool (h F_Halt) * (w ! V_NEXT_PC - w ! V_PC) = 0 \<and>
     (1 - of_bool taken - of_bool (h F_Jump) - of_bool (h F_Halt)) * (w ! V_NEXT_PC - (w ! V_PC + 1)) = 0 \<and>
     w ! V_LEFT_INPUT * w ! V_RIGHT_INPUT = w ! V_PRODUCT \<and>
     w ! V_LOOKUP_OUTPUT * of_bool (h F_Branch) = of_bool taken)"
    unfolding check_witness_iff [OF m] constraint_triples_def eq_rows_def next_pc_rows_def product_rows_def
    by (simp add: row_dot_row_of c f s(1) algebra_simps)
  show ?thesis
    unfolding eqs guard_simps(1,2) guard_simps(3) [OF e(2)] guard_simps(4) [OF e(1)]
      guard_simps(4) [OF e(2)] guard_simps(5) [OF e(3,4,5)] guard_simps(6) [OF e(3,4,5)]
      guard_simps(7) [OF e(3,4,5,6)] guard_simps(6) [OF t e(9)] right_minus_eq ..
qed


lemma constraintsD:
  fixes w :: "'f::comm_ring_1 list" and i :: ir
  defines "h \<equiv> flags_has (rs_flags (row_spec_of i))"
  assumes m: "wasm_trace_constraints = Some m"
    and c: "w ! V_CONST = 1" and f: "\<And>f. w ! V_FLAG f = of_bool (h f)"
    and s: "w ! V_SHOULD_BRANCH = of_bool taken" "taken \<longrightarrow> h F_Branch"
    and ok: "check_witness m w = Inr ()"
  shows "h F_LeftIsRs1 \<longrightarrow> w ! V_LEFT_INPUT = w ! V_RS1_VALUE"
    "\<not> h F_LeftIsRs1 \<longrightarrow> w ! V_LEFT_INPUT = 0"
    "h F_RightIsRs2 \<longrightarrow> w ! V_RIGHT_INPUT = w ! V_RS2_VALUE"
    "h F_RightIsImm \<longrightarrow> w ! V_RIGHT_INPUT = w ! V_IMM"
    "\<not> h F_RightIsRs2 \<and> \<not> h F_RightIsImm \<longrightarrow> w ! V_RIGHT_INPUT = 0"
    "h F_Load \<or> h F_Store \<longrightarrow> w ! V_RAM_ADDRESS = w ! V_RS1_VALUE + w ! V_IMM"
    "\<not> h F_Load \<and> \<not> h F_Store \<longrightarrow> w ! V_RAM_ADDRESS = 0"
    "h F_Load \<longrightarrow> w ! V_RAM_READ_VALUE = w ! V_RAM_WRITE_VALUE"
    "h F_Load \<longrightarrow> w ! V_RAM_READ_VALUE = w ! V_RD_WRITE_VALUE"
    "h F_Store \<longrightarrow> w ! V_RS2_VALUE = w ! V_RAM_WRITE_VALUE"
    "h F_AddOperands \<or> h F_SubOperands \<or> h F_MulOperands \<longrightarrow> w ! V_LEFT_LOOKUP_OPERAND = 0"
    "\<not> h F_AddOperands \<and> \<not> h F_SubOperands \<and> \<not> h F_MulOperands \<longrightarrow> w ! V_LEFT_LOOKUP_OPERAND = w ! V_LEFT_INPUT"
    "h F_AddOperands \<longrightarrow> w ! V_RIGHT_LOOKUP_OPERAND = w ! V_LEFT_INPUT + w ! V_RIGHT_INPUT"
    "h F_SubOperands \<longrightarrow> w ! V_RIGHT_LOOKUP_OPERAND = w ! V_LEFT_INPUT - w ! V_RIGHT_INPUT + of_int TWOS_COMPLEMENT_BIAS"
    "h F_MulOperands \<longrightarrow> w ! V_RIGHT_LOOKUP_OPERAND = w ! V_PRODUCT"
    "\<not> h F_AddOperands \<and> \<not> h F_SubOperands \<and> \<not> h F_MulOperands \<and> \<not> h F_Advice \<longrightarrow> w ! V_RIGHT_LOOKUP_OPERAND = w ! V_RIGHT_INPUT"
    "h F_Assert \<longrightarrow> w ! V_LOOKUP_OUTPUT = 1"
    "h F_WriteLookupToRd \<longrightarrow> w ! V_RD_WRITE_VALUE = w ! V_LOOKUP_OUTPUT"
    "h F_Jump \<longrightarrow> w ! V_NEXT_PC = w ! V_LOOKUP_OUTPUT"
    "taken \<longrightarrow> w ! V_NEXT_PC = w ! V_IMM"
    "h F_Halt \<longrightarrow> w ! V_NEXT_PC = w ! V_PC"
    "\<not> taken \<and> \<not> h F_Jump \<and> \<not> h F_Halt \<longrightarrow> w ! V_NEXT_PC = w ! V_PC + 1"
    "w ! V_LEFT_INPUT * w ! V_RIGHT_INPUT = w ! V_PRODUCT"
    "w ! V_LOOKUP_OUTPUT * of_bool (h F_Branch) = of_bool taken"
  using iffD1 [OF constraints_iff [OF m c, where i = i, folded h_def, OF f s] ok] by - (elim conjE, assumption)+

section \<open>Rows of records\<close>

text \<open>A record has the registers and the memory access its instruction names.\<close>

definition record_shape :: "exec_record \<Rightarrow> bool" where
  "record_shape r = (let spec = row_spec_of (rec_instruction r) in
     record_operands r = (rs_rs1 spec, rs_rs2 spec, rs_rd spec) \<and>
     (case rec_ram r of
        Ram_NoOp \<Rightarrow> \<not> flags_has (rs_flags spec) F_Load \<and> \<not> flags_has (rs_flags spec) F_Store
      | Ram_Read _ \<Rightarrow> flags_has (rs_flags spec) F_Load
      | Ram_Write _ \<Rightarrow> flags_has (rs_flags spec) F_Store))"

definition record_output :: "exec_record \<Rightarrow> u64" where
  "record_output r = (let spec = row_spec_of (rec_instruction r) in
     spec_output spec (spec_left_input spec (read_value (rec_rs1 r)))
       (spec_right_input spec (read_value (rec_rs2 r))) (post_value (rec_rd r)))"

lemma check_record_iff:
  assumes "record_shape r" "row_ok (rec_instruction r)"
  defines "spec \<equiv> row_spec_of (rec_instruction r)"
  shows "check_record r = Inr () \<longleftrightarrow>
    check_output (rec_pc r) spec (record_output r) (post_value (rec_rd r)) = Inr () \<and>
    check_ram r spec (read_value (rec_rs1 r)) (read_value (rec_rs2 r)) (post_value (rec_rd r)) = Inr () \<and>
    check_next_pc r spec (record_output r) = Inr ()"
proof -
  have regs: "check_registers r spec = Inr ()"
    using assms by (simp add: check_registers_def record_shape_def record_operands_def Let_def)
  have bool: "check_boolean (rec_pc r) spec = Inr ()"
    using assms(2) unfolding spec_def
    by (cases "rec_instruction r") (auto simp: check_boolean_def row_ok_def has_simps spec_empty_def right_operand_eq
        split: operand.splits)
  show ?thesis
    unfolding check_record_def Let_def spec_def [symmetric] regs bool
    by (simp add: record_output_def spec_def [symmetric] Let_def bind_res_eq_Inr)
qed

text \<open>What the rest of the proof system says of the columns of a cycle: the bytecode argument the
  flags, the immediate and the pc; the register and RAM arguments the values of the record's
  accesses (zero for an access the row does not make); the shift argument the next pc; the lookup
  argument that the output is the table's entry at the looked-up operands.\<close>

fun ram_columns :: "ram_access \<Rightarrow> u64 \<times> u64 \<times> u64" where
  "ram_columns Ram_NoOp = (0, 0, 0)"
| "ram_columns (Ram_Read x) = (rd_address x, rd_value x, rd_value x)"
| "ram_columns (Ram_Write x) = (wr_address x, wr_pre_value x, wr_post_value x)"

definition lookup_columns :: "lookup option \<Rightarrow> u64 \<Rightarrow> 'f::comm_ring_1 list \<Rightarrow> bool" where
  "lookup_columns l out w \<longleftrightarrow> w ! V_LOOKUP_OUTPUT = from_u64 out \<and>
     (case l of
        None \<Rightarrow> out = 0
      | Some (Lookup_Table op) \<Rightarrow>
          if op_mode op = Mode_Interleaved
          then \<exists>x y. w ! V_LEFT_LOOKUP_OPERAND = from_u64 x \<and> w ! V_RIGHT_LOOKUP_OPERAND = from_u64 y \<and>
            out = materialize_entry (table_of op) (interleave_bits x y)
          else \<exists>i :: u128. w ! V_RIGHT_LOOKUP_OPERAND = of_nat (unat i) \<and>
            out = materialize_entry (table_of op) i
      | Some (Lookup_Advice h) \<Rightarrow> \<exists>i :: u128. w ! V_RIGHT_LOOKUP_OPERAND = of_nat (unat i) \<and>
            out = materialize_entry (table_of (lookup_table_op (Lookup_Advice h))) i)"

definition argument_columns :: "exec_record \<Rightarrow> u64 \<Rightarrow> 'f::comm_ring_1 list \<Rightarrow> bool" where
  "argument_columns r out w \<longleftrightarrow>
     w ! V_CONST = 1 \<and>
     (\<forall>f. w ! V_FLAG f = of_bool (flags_has (rs_flags (row_spec_of (rec_instruction r))) f)) \<and>
     w ! V_IMM = of_int (br_imm_signed (bytecode_row_of (rec_instruction r))) \<and>
     w ! V_PC = of_nat (unat (rec_pc r)) \<and> w ! V_NEXT_PC = of_nat (unat (rec_next_pc r)) \<and>
     w ! V_RS1_VALUE = from_u64 (read_value (rec_rs1 r)) \<and>
     w ! V_RS2_VALUE = from_u64 (read_value (rec_rs2 r)) \<and>
     w ! V_RD_WRITE_VALUE = from_u64 (post_value (rec_rd r)) \<and>
     (case ram_columns (rec_ram r) of (address, read, write) \<Rightarrow>
        w ! V_RAM_ADDRESS = from_u64 address \<and> w ! V_RAM_READ_VALUE = from_u64 read \<and>
        w ! V_RAM_WRITE_VALUE = from_u64 write) \<and>
     lookup_columns (rs_lookup (row_spec_of (rec_instruction r))) out w"

section \<open>The looked-up operands are the row's operands\<close>

text \<open>The immediate column: unsigned, except on the memory rows.\<close>

lemma imm_signed_eq:
  "br_imm_signed (bytecode_row_of i) =
    (if flags_has (rs_flags (row_spec_of i)) F_Load \<or> flags_has (rs_flags (row_spec_of i)) F_Store
     then sint (rs_imm (row_spec_of i)) else uint (rs_imm (row_spec_of i)))"
  by (simp add: br_imm_signed_def bytecode_row_of_def row_from_spec_def has_simps)

lemma imm_column:
  assumes "\<not> flags_has (rs_flags (row_spec_of i)) F_Load" "\<not> flags_has (rs_flags (row_spec_of i)) F_Store"
  shows "of_int (br_imm_signed (bytecode_row_of i)) = from_u64 (rs_imm (row_spec_of i))"
  unfolding imm_signed_eq using assms by (simp only: if_False simp_thms from_u64_int)

lemma imm_operand_not_memory:
  "flags_has (rs_flags (row_spec_of i)) F_RightIsImm \<Longrightarrow> \<not> flags_has (rs_flags (row_spec_of i)) F_Load"
  "flags_has (rs_flags (row_spec_of i)) F_RightIsImm \<Longrightarrow> \<not> flags_has (rs_flags (row_spec_of i)) F_Store"
  by (cases i; simp add: has_simps spec_empty_def right_operand_eq split: operand.splits)+

lemma from_u64_0 [simp]: "from_u64 0 = 0"
  by (simp add: from_u64_def)

lemma lookup_flags:
  defines "h i \<equiv> flags_has (rs_flags (row_spec_of i))"
  shows "rs_lookup (row_spec_of i) = Some (Lookup_Table op) \<Longrightarrow> h i F_AddOperands \<longleftrightarrow> op_mode op = Mode_Add"
    "rs_lookup (row_spec_of i) = Some (Lookup_Table op) \<Longrightarrow> h i F_SubOperands \<longleftrightarrow> op_mode op = Mode_Sub"
    "rs_lookup (row_spec_of i) = Some (Lookup_Table op) \<Longrightarrow> h i F_MulOperands \<longleftrightarrow> op_mode op = Mode_Mul"
    "h i F_Advice \<longleftrightarrow> (\<exists>x. rs_lookup (row_spec_of i) = Some (Lookup_Advice x))"
    "h i F_Advice \<Longrightarrow> \<not> h i F_LeftIsRs1"
    "rs_lookup (row_spec_of i) = None \<Longrightarrow> \<not> h i F_AddOperands \<and> \<not> h i F_SubOperands \<and> \<not> h i F_MulOperands"
    "h i F_Branch \<Longrightarrow> \<not> h i F_Load \<and> \<not> h i F_Store"
  unfolding h_def by (cases i; auto simp: has_simps spec_empty_def right_operand_eq split: operand.splits)+

lemma branch_flag:
  "flags_has (rs_flags (row_spec_of i)) F_Branch \<longleftrightarrow> (\<exists>op a b t. i = Branch op a b t)"
  by (cases i; auto simp: has_simps spec_empty_def right_operand_eq split: operand.splits)

lemma diff_small_128:
  "0 \<le> a \<Longrightarrow> a < 2 ^ 128 \<Longrightarrow> 0 \<le> b \<Longrightarrow> b < 2 ^ 128 \<Longrightarrow> \<bar>a - b\<bar> < (2 ^ 130 :: int)"
  by (simp add: abs_less_iff)

lemma u128_less: "uint (a :: u128) < 2 ^ 128"
  using uint_lt2p [of a] by simp

lemma of_nat_index_eq:
  assumes "large_ring TYPE('f::comm_ring_1)"
  shows "(of_nat (unat (a :: u128)) :: 'f) = of_nat (unat b) \<longleftrightarrow> a = b"
proof -
  have "(of_int (uint a) :: 'f) = of_int (uint b) \<longleftrightarrow> uint a = uint b"
    by (rule large_ring_eq [OF assms]) (intro diff_small_128 uint_ge_0 u128_less)
  moreover have "(of_nat (unat x) :: 'f) = of_int (uint x)" for x :: u128 by simp
  ultimately show ?thesis by (metis word_uint_eq_iff)
qed

lemma field_index:
  "(from_u64 x + from_u64 y :: 'f::comm_ring_1) = of_nat (unat (lookup_index_for Mode_Add x y))"
  "(from_u64 x - from_u64 y + of_int TWOS_COMPLEMENT_BIAS :: 'f::comm_ring_1) =
    of_nat (unat (lookup_index_for Mode_Sub x y))"
  "(from_u64 x * from_u64 y :: 'f::comm_ring_1) = of_nat (unat (lookup_index_for Mode_Mul x y))"
proof -
  have y: "unat y \<le> unat x + 2 ^ 64" using unat_u64_less_numeral [of y] by simp
  show "(from_u64 x + from_u64 y :: 'f) = of_nat (unat (lookup_index_for Mode_Add x y))"
    "(from_u64 x * from_u64 y :: 'f) = of_nat (unat (lookup_index_for Mode_Mul x y))"
    unfolding lookup_index_for.simps unat_index_bounds from_u64_def by simp_all
  show "(from_u64 x - from_u64 y + of_int TWOS_COMPLEMENT_BIAS :: 'f) =
      of_nat (unat (lookup_index_for Mode_Sub x y))"
    unfolding lookup_index_for.simps unat_index_bounds from_u64_def of_nat_diff [OF y]
    by (simp add: TWOS_COMPLEMENT_BIAS_def)
qed

text \<open>The operands the constraints force determine the looked-up entry.\<close>

lemma lookup_forced:
  fixes w :: "'f::comm_ring_1 list"
  assumes ring: "large_ring TYPE('f)" and op: "lookup_columns (Some (Lookup_Table op)) out w"
    and dom: "in_domain op y"
    and l: "op_mode op = Mode_Interleaved \<Longrightarrow>
      w ! V_LEFT_LOOKUP_OPERAND = from_u64 x \<and> w ! V_RIGHT_LOOKUP_OPERAND = from_u64 y"
    and i: "op_mode op \<noteq> Mode_Interleaved \<Longrightarrow>
      w ! V_RIGHT_LOOKUP_OPERAND = of_nat (unat (lookup_index_for (op_mode op) x y))"
  shows "out = evaluate op x y"
proof -
  have "out = table_output op x y"
  proof (cases "op_mode op = Mode_Interleaved")
    case True
    then show ?thesis using op l field_eqs(1) [OF ring]
      by (auto simp: lookup_columns_def table_output_def lookup_index_def)
  next
    case False
    then show ?thesis using op i of_nat_index_eq [OF ring]
      by (auto simp: lookup_columns_def table_output_def lookup_index_def)
  qed
  then show ?thesis using table_output_eq [OF dom] by simp
qed

text \<open>In the witness of a row, the inputs and the lookup output are those of the record.\<close>

lemma forced_output:
  fixes w :: "'f::comm_ring_1 list"
  assumes ring: "large_ring TYPE('f)" and m: "wasm_trace_constraints = Some m"
    and w: "argument_columns r out w" and dom: "in_table_domain r" and ok: "check_witness m w = Inr ()"
    and s: "w ! V_SHOULD_BRANCH = of_bool taken"
      "taken \<longrightarrow> flags_has (rs_flags (row_spec_of (rec_instruction r))) F_Branch"
  shows "(case rs_lookup (row_spec_of (rec_instruction r)) of Some (Lookup_Advice _) \<Rightarrow> True
    | _ \<Rightarrow> out = record_output r)"
proof -
  have c: "w ! V_CONST = 1" and f: "\<And>f. w ! V_FLAG f =
      of_bool (flags_has (rs_flags (row_spec_of (rec_instruction r))) f)"
    and imm: "w ! V_IMM = of_int (br_imm_signed (bytecode_row_of (rec_instruction r)))"
    and v: "w ! V_RS1_VALUE = from_u64 (read_value (rec_rs1 r))"
      "w ! V_RS2_VALUE = from_u64 (read_value (rec_rs2 r))"
    and lk: "lookup_columns (rs_lookup (row_spec_of (rec_instruction r))) out w"
    using w unfolding argument_columns_def by blast+
  note k = constraintsD [OF m c f s ok]
  show ?thesis
  proof (cases "rs_lookup (row_spec_of (rec_instruction r))")
    case None
    then show ?thesis using lk by (simp add: lookup_columns_def record_output_def spec_output_def Let_def)
  next
    case (Some lu)
    show ?thesis
    proof (cases lu)
      case (Lookup_Advice h)
      then show ?thesis using Some by simp
    next
      case (Lookup_Table op)
      let ?spec = "row_spec_of (rec_instruction r)"
      let ?x = "spec_left_input ?spec (read_value (rec_rs1 r))"
      let ?y = "spec_right_input ?spec (read_value (rec_rs2 r))"
      have x: "w ! V_LEFT_INPUT = from_u64 ?x"
        using k(1,2) v(1) by (simp add: spec_left_input_def)
      have y: "w ! V_RIGHT_INPUT = from_u64 ?y"
      proof (cases "flags_has (rs_flags ?spec) F_RightIsImm")
        case True
        then have "w ! V_IMM = from_u64 (rs_imm ?spec)"
          using imm_column [OF imm_operand_not_memory] imm by metis
        then show ?thesis
          using True k(4) row_flags_exclusive(1) [of "rec_instruction r"] by (simp add: spec_right_input_def)
      qed (use k(3,5) v(2) in \<open>simp add: spec_right_input_def\<close>)
      note fl = lookup_flags(1-3) [OF Some [unfolded Lookup_Table]]
      have "\<not> flags_has (rs_flags ?spec) F_Advice" using Some Lookup_Table by (simp add: lookup_flags(4))
      note fl = fl this
      have "out = evaluate op ?x ?y"
      proof (rule lookup_forced [OF ring])
        show "lookup_columns (Some (Lookup_Table op)) out w" using lk Some Lookup_Table by simp
        show "in_domain op ?y" using dom Some Lookup_Table by (simp add: in_table_domain_def Let_def)
        show "w ! V_LEFT_LOOKUP_OPERAND = from_u64 ?x \<and> w ! V_RIGHT_LOOKUP_OPERAND = from_u64 ?y"
          if "op_mode op = Mode_Interleaved"
          using k(12,16) fl x y that by simp
        show "w ! V_RIGHT_LOOKUP_OPERAND = of_nat (unat (lookup_index_for (op_mode op) ?x ?y))"
          if "op_mode op \<noteq> Mode_Interleaved"
        proof (cases "op_mode op")
          case Mode_Add
          then show ?thesis using k(13) fl(1) x y field_index(1) by simp
        next
          case Mode_Sub
          then show ?thesis using k(14) fl(2) x y field_index(2) by simp
        next
          case Mode_Mul
          then show ?thesis using k(15,23) fl(3) unfolding x y Mode_Mul field_index(3) by simp
        qed (use that in simp)
      qed
      then show ?thesis using Some Lookup_Table
        by (simp add: record_output_def spec_output_def Let_def)
    qed
  qed
qed


lemma boolean_entries: "is_boolean op \<Longrightarrow> materialize_entry (table_of op) i \<in> {0, 1}"
  by (cases op) (auto simp: equal_entry_def not_equal_entry_def unsigned_less_than_entry_def
      signed_less_than_entry_def unsigned_greater_than_equal_entry_def signed_greater_than_equal_entry_def
      unsigned_less_than_equal_entry_def mulu_no_overflow_entry_def of_bool64_def split_beta Let_def)

section \<open>Soundness\<close>

lemma branch_column:
  fixes w :: "'f::comm_ring_1 list"
  assumes ring: "large_ring TYPE('f)" and m: "wasm_trace_constraints = Some m"
    and w: "argument_columns r out w" and row: "row_ok (rec_instruction r)"
    and ok: "check_witness m w = Inr ()"
  shows "w ! V_SHOULD_BRANCH =
    of_bool (flags_has (rs_flags (row_spec_of (rec_instruction r))) F_Branch \<and> out = 1)"
proof -
  let ?b = "flags_has (rs_flags (row_spec_of (rec_instruction r))) F_Branch"
  have "w ! V_LOOKUP_OUTPUT * w ! V_FLAG F_Branch = w ! V_SHOULD_BRANCH"
    using ok unfolding check_witness_iff [OF m] constraint_triples_def product_rows_def
    by (simp add: row_dot_row_of)
  then have b: "w ! V_SHOULD_BRANCH = from_u64 out * of_bool ?b"
    using w by (simp add: argument_columns_def lookup_columns_def)
  show ?thesis
  proof (cases ?b)
    case True
    then obtain op a c t where i: "rec_instruction r = Branch op a c t"
      unfolding branch_flag by blast
    have "out \<in> {0, 1}"
      using w row boolean_entries [of op]
      by (auto simp: i argument_columns_def lookup_columns_def row_ok_def split: if_splits)
    then show ?thesis using b True by (auto simp: from_u64_def)
  qed (use b in simp)
qed

lemma next_pc_sound:
  fixes p :: u32 and x :: u64
  assumes "uint p = uint x"
  shows "p = ucast x" "pc_try_from x = Some p"
proof -
  show p: "p = ucast x"
    using assms by (metis unsigned_ucast_eq word_of_int_uint ucast_eq)
  show "pc_try_from x = Some p"
    using assms uint_lt2p [of p] by (simp add: pc_try_from_def p word_less_def)
qed

lemma address_sound:
  fixes x a imm :: u64
  assumes "large_ring TYPE('f::comm_ring_1)" "(from_u64 x :: 'f) = from_u64 a + of_int (sint imm)"
  shows "x = a + imm"
proof -
  have "\<bar>sint imm\<bar> \<le> 2 ^ 64" using sint_range_size [of imm] by (simp add: abs_le_iff word_size)
  then have "uint x = uint a + sint imm" using assms field_eqs(8) by blast
  then have "(of_int (uint x) :: u64) = of_int (uint a + sint imm)" by simp
  then show ?thesis unfolding of_int_add by simp
qed

text \<open>The columns of a record whose constraints hold, as implications between the record's values.\<close>

lemma sound_columns:
  fixes w :: "'f::comm_ring_1 list"
  assumes ring: "large_ring TYPE('f)" and m: "wasm_trace_constraints = Some m"
    and w: "argument_columns r out w" and row: "row_ok (rec_instruction r)" and ok: "check_witness m w = Inr ()"
  defines "spec \<equiv> row_spec_of (rec_instruction r)"
  defines "h \<equiv> flags_has (rs_flags spec)" and "address \<equiv> fst (ram_columns (rec_ram r))"
    and "read \<equiv> fst (snd (ram_columns (rec_ram r)))" and "written \<equiv> snd (snd (ram_columns (rec_ram r)))"
  shows "h F_Assert \<Longrightarrow> out = 1" "h F_WriteLookupToRd \<Longrightarrow> post_value (rec_rd r) = out"
    "h F_Load \<or> h F_Store \<Longrightarrow> address = read_value (rec_rs1 r) + rs_imm spec"
    "h F_Load \<Longrightarrow> read = post_value (rec_rd r)" "h F_Store \<Longrightarrow> written = read_value (rec_rs2 r)"
    "h F_Halt \<Longrightarrow> rec_next_pc r = rec_pc r" "h F_Jump \<Longrightarrow> pc_try_from out = Some (rec_next_pc r)"
    "h F_Branch \<Longrightarrow> out = 1 \<Longrightarrow> rec_next_pc r = ucast (rs_imm spec)"
    "\<not> (h F_Branch \<and> out = 1) \<Longrightarrow> \<not> h F_Jump \<Longrightarrow> \<not> h F_Halt \<Longrightarrow> rec_next_pc r = rec_pc r + 1"
proof -
  have c: "w ! V_CONST = 1" and f: "\<And>f. w ! V_FLAG f = of_bool (flags_has (rs_flags spec) f)"
    and imm: "w ! V_IMM = of_int (br_imm_signed (bytecode_row_of (rec_instruction r)))"
    and pc: "w ! V_PC = of_nat (unat (rec_pc r))" "w ! V_NEXT_PC = of_nat (unat (rec_next_pc r))"
    and v: "w ! V_RS1_VALUE = from_u64 (read_value (rec_rs1 r))" "w ! V_RS2_VALUE = from_u64 (read_value (rec_rs2 r))"
      "w ! V_RD_WRITE_VALUE = from_u64 (post_value (rec_rd r))"
    using w unfolding argument_columns_def spec_def by blast+
  have ram: "w ! V_RAM_ADDRESS = from_u64 address" "w ! V_RAM_READ_VALUE = from_u64 read" "w ! V_RAM_WRITE_VALUE = from_u64 written"
    and out: "w ! V_LOOKUP_OUTPUT = from_u64 out"
    using w by (simp_all add: argument_columns_def lookup_columns_def address_def read_def written_def case_prod_unfold)
  have s: "w ! V_SHOULD_BRANCH = of_bool (h F_Branch \<and> out = 1)" "h F_Branch \<and> out = 1 \<longrightarrow> flags_has (rs_flags spec) F_Branch"
    using branch_column [OF ring m w row ok] by (simp_all add: h_def spec_def)
  note k = constraintsD [OF m c f [unfolded spec_def] s [unfolded spec_def] ok, folded spec_def, folded h_def]
  note eqs = field_eqs [OF ring]
  show "out = 1" if "h F_Assert" using k(17) that out eqs(2) by metis
  show "post_value (rec_rd r) = out" if "h F_WriteLookupToRd" using k(18) that out v(3) eqs(1) by metis
  show "address = read_value (rec_rs1 r) + rs_imm spec" if "h F_Load \<or> h F_Store"
  proof -
    have "w ! V_IMM = of_int (sint (rs_imm spec))" using that imm by (auto simp: imm_signed_eq h_def spec_def)
    then have "(from_u64 address :: 'f) = from_u64 (read_value (rec_rs1 r)) + of_int (sint (rs_imm spec))"
      using k(6) that ram(1) v(1) by simp
    then show ?thesis by (rule address_sound [OF ring])
  qed
  show "read = post_value (rec_rd r)" if "h F_Load" using k(9) that ram(2) v(3) eqs(1) by metis
  show "written = read_value (rec_rs2 r)" if "h F_Store" using k(10) that ram(3) v(2) eqs(1) by metis
  show "rec_next_pc r = rec_pc r" if "h F_Halt" using k(21) that pc eqs(4) by metis
  show "pc_try_from out = Some (rec_next_pc r)" if "h F_Jump"
    by (rule next_pc_sound(2)) (use k(19) that pc(2) out eqs(5) in metis)
  show "rec_next_pc r = ucast (rs_imm spec)" if br: "h F_Branch" "out = 1"
  proof (rule next_pc_sound(1))
    have "\<not> h F_Load \<and> \<not> h F_Store" using br lookup_flags(7) unfolding h_def spec_def by blast
    then have "w ! V_IMM = from_u64 (rs_imm spec)" using imm_column imm unfolding h_def spec_def by metis
    then show "uint (rec_next_pc r) = uint (rs_imm spec)" using k(20) br pc(2) eqs(5) by metis
  qed
  show "rec_next_pc r = rec_pc r + 1" if "\<not> (h F_Branch \<and> out = 1)" "\<not> h F_Jump" "\<not> h F_Halt"
  proof -
    have "uint (rec_next_pc r) = uint (rec_pc r) + 1" using k(22) that pc eqs(6) by metis
    then have "(of_int (uint (rec_next_pc r)) :: u32) = of_int (uint (rec_pc r) + 1)" by simp
    then show ?thesis unfolding of_int_add by simp
  qed
qed

lemma sound_output:
  fixes w :: "'f::comm_ring_1 list"
  assumes ring: "large_ring TYPE('f)" and m: "wasm_trace_constraints = Some m"
    and w: "argument_columns r out w" and row: "row_ok (rec_instruction r)" and dom: "in_table_domain r" and ok: "check_witness m w = Inr ()"
  defines "h \<equiv> flags_has (rs_flags (row_spec_of (rec_instruction r)))"
  shows "\<not> h F_Advice \<Longrightarrow> record_output r = out" "h F_Advice \<Longrightarrow> record_output r = post_value (rec_rd r)"
    "h F_Assert \<or> h F_Jump \<or> h F_Branch \<Longrightarrow> \<not> h F_Advice"
proof -
  have s: "w ! V_SHOULD_BRANCH = of_bool (h F_Branch \<and> out = 1)"
    "h F_Branch \<and> out = 1 \<longrightarrow> flags_has (rs_flags (row_spec_of (rec_instruction r))) F_Branch"
    using branch_column [OF ring m w row ok] by (simp_all add: h_def)
  have o: "case rs_lookup (row_spec_of (rec_instruction r)) of Some (Lookup_Advice _) \<Rightarrow> True | _ \<Rightarrow> out = record_output r"
    by (rule forced_output [OF ring m w dom ok s])
  have adv: "h F_Advice \<longleftrightarrow> (\<exists>x. rs_lookup (row_spec_of (rec_instruction r)) = Some (Lookup_Advice x))"
    unfolding h_def by (rule lookup_flags(4))
  show "record_output r = out" if "\<not> h F_Advice" using o adv that by (auto split: option.splits lookup.splits)
  show "record_output r = post_value (rec_rd r)" if "h F_Advice"
    using adv that by (auto simp: record_output_def spec_output_def Let_def)
  show "\<not> h F_Advice" if "h F_Assert \<or> h F_Jump \<or> h F_Branch"
    using that unfolding h_def by (cases "rec_instruction r"; auto simp: has_simps spec_empty_def right_operand_eq split: operand.splits)
qed

lemma constraints_imp_check_record:
  fixes w :: "'f::comm_ring_1 list"
  assumes ring: "large_ring TYPE('f)" and m: "wasm_trace_constraints = Some m"
    and w: "argument_columns r out w" and shape: "record_shape r" and row: "row_ok (rec_instruction r)"
    and dom: "in_table_domain r" and ok: "check_witness m w = Inr ()"
  shows "check_record r = Inr ()"
proof -
  let ?spec = "row_spec_of (rec_instruction r)"
  define h where "h = flags_has (rs_flags ?spec)"
  note col = sound_columns [OF ring m w row ok, folded h_def] and o = sound_output [OF ring m w row dom ok, folded h_def]
  have "check_output (rec_pc r) ?spec (record_output r) (post_value (rec_rd r)) = Inr ()"
    unfolding check_output_Inr h_def [symmetric] using col(1,2) o by (cases "h F_Advice") auto
  moreover have "check_ram r ?spec (read_value (rec_rs1 r)) (read_value (rec_rs2 r)) (post_value (rec_rd r)) = Inr ()"
  proof (cases "rec_ram r")
    case Ram_NoOp
    then show ?thesis using shape by (simp add: check_ram_Inr record_shape_def Let_def)
  next
    case (Ram_Read x)
    then have "h F_Load" using shape by (simp add: record_shape_def Let_def h_def)
    then show ?thesis using col(3,4) unfolding check_ram_Inr h_def [symmetric] Ram_Read by (cases x) simp
  next
    case (Ram_Write x)
    then have "h F_Store" using shape by (simp add: record_shape_def Let_def h_def)
    then show ?thesis using col(3,5) unfolding check_ram_Inr h_def [symmetric] Ram_Write by (cases x) simp
  qed
  moreover have "check_next_pc r ?spec (record_output r) = Inr ()"
    unfolding check_next_pc_Inr h_def [symmetric] using col(6-9) o(1,3) by (cases "h F_Branch") auto
  ultimately show ?thesis by (simp add: check_record_iff [OF shape row])
qed

section \<open>Completeness\<close>

text \<open>The address of a memory row does not wrap, and the pc of a falling-through row neither: both
  are exact integers in the constraints.\<close>

definition exact_row :: "exec_record \<Rightarrow> bool" where
  "exact_row r \<longleftrightarrow> unat (rec_pc r) + 1 < 2 ^ 32 \<and>
     (rec_ram r \<noteq> Ram_NoOp \<longrightarrow>
        uint (fst (ram_columns (rec_ram r))) =
          uint (read_value (rec_rs1 r)) + sint (rs_imm (row_spec_of (rec_instruction r))))"

lemma from_record_shape:
  assumes "from_record r = Inr t"
  shows "record_shape r"
  using from_record_parts(1) [OF assms] from_record_parts(2) [OF assms]
  by (auto simp: record_shape_def record_slots_def Let_def split: ram_access.splits if_splits)

lemma ram_of_record:
  assumes "from_record r = Inr t"
  shows "ram_columns (rec_ram r) = (ram_address t, ram_read_value t, ram_write_value t)"
  using from_record_columns [OF assms] by (auto split: ram_access.splits)

lemma lookup_operands_of_record:
  assumes "from_record r = Inr t"
  defines "spec \<equiv> row_spec_of (rec_instruction r)"
  defines "x \<equiv> spec_left_input spec (read_value (rec_rs1 r))"
  defines "y \<equiv> spec_right_input spec (read_value (rec_rs2 r))"
  shows "tr_lookup_operands t = (case rs_lookup spec of
      Some (Lookup_Table op) \<Rightarrow>
        if op_mode op = Mode_Interleaved then (x, ucast y) else (0, lookup_index_for (op_mode op) x y)
    | Some (Lookup_Advice _) \<Rightarrow> (0, ucast (post_value (rec_rd r)))
    | None \<Rightarrow> (x, ucast y))"
  unfolding tr_lookup_operands_def tr_lookup_index_def row_of_record [OF assms(1)] spec_def x_def y_def
  by (auto split: option.splits lookup.splits)

lemma witness_operands:
  fixes t r
  assumes t: "from_record r = Inr t"
  defines "h \<equiv> flags_has (rs_flags (row_spec_of (rec_instruction r)))"
  defines "w \<equiv> cycle_witness t :: 'f::comm_ring_1 list"
  shows "w ! V_LEFT_LOOKUP_OPERAND =
      (if h F_AddOperands \<or> h F_SubOperands \<or> h F_MulOperands then 0 else w ! V_LEFT_INPUT)"
    and "\<not> h F_Advice \<Longrightarrow> w ! V_RIGHT_LOOKUP_OPERAND =
       (if h F_AddOperands then w ! V_LEFT_INPUT + w ! V_RIGHT_INPUT
        else if h F_SubOperands then w ! V_LEFT_INPUT - w ! V_RIGHT_INPUT + of_int TWOS_COMPLEMENT_BIAS
        else if h F_MulOperands then w ! V_PRODUCT else w ! V_RIGHT_INPUT)"
proof -
  let ?spec = "row_spec_of (rec_instruction r)"
  let ?x = "spec_left_input ?spec (read_value (rec_rs1 r))"
  let ?y = "spec_right_input ?spec (read_value (rec_rs2 r))"
  note lk = lookup_operands_of_record [OF t] and row_of = row_of_record [OF t]
  have cast: "(unsigned y :: 'f) = from_u64 y" for y :: u64
    by (simp add: from_u64_def)
  have goals: "w ! V_LEFT_LOOKUP_OPERAND =
      (if h F_AddOperands \<or> h F_SubOperands \<or> h F_MulOperands then 0 else w ! V_LEFT_INPUT) \<and>
    (\<not> h F_Advice \<longrightarrow> w ! V_RIGHT_LOOKUP_OPERAND =
       (if h F_AddOperands then w ! V_LEFT_INPUT + w ! V_RIGHT_INPUT
        else if h F_SubOperands then w ! V_LEFT_INPUT - w ! V_RIGHT_INPUT + of_int TWOS_COMPLEMENT_BIAS
        else if h F_MulOperands then w ! V_PRODUCT else w ! V_RIGHT_INPUT))"
  proof (cases "rs_lookup ?spec")
    case None
    then show ?thesis using lookup_flags(6) [OF None]
      by (simp add: w_def h_def lk row_of cast)
  next
    case (Some lu)
    show ?thesis
    proof (cases lu)
      case (Lookup_Advice x)
      then show ?thesis using Some lookup_flags(4,5) [of "rec_instruction r"]
        by (simp add: w_def h_def lk row_of spec_left_input_def)
    next
      case (Lookup_Table op)
      note fl = lookup_flags(1-3) [OF Some [unfolded Lookup_Table]]
      have wv: "w ! V_LEFT_INPUT = from_u64 ?x" "w ! V_RIGHT_INPUT = from_u64 ?y"
        "w ! V_PRODUCT = from_u64 ?x * from_u64 ?y"
        unfolding w_def witness_values row_of field_index(3) by simp_all
      have lv: "w ! V_LEFT_LOOKUP_OPERAND = from_u64 (fst (tr_lookup_operands t))"
        "w ! V_RIGHT_LOOKUP_OPERAND = of_nat (unat (snd (tr_lookup_operands t)))"
        by (simp_all only: w_def witness_values)
      show ?thesis unfolding h_def fl wv lv lk Some Lookup_Table field_index
        by (cases "op_mode op") (simp_all add: cast)
    qed
  qed
  then show "w ! V_LEFT_LOOKUP_OPERAND =
      (if h F_AddOperands \<or> h F_SubOperands \<or> h F_MulOperands then 0 else w ! V_LEFT_INPUT)"
    by (rule conjunct1)
  show "w ! V_RIGHT_LOOKUP_OPERAND =
       (if h F_AddOperands then w ! V_LEFT_INPUT + w ! V_RIGHT_INPUT
        else if h F_SubOperands then w ! V_LEFT_INPUT - w ! V_RIGHT_INPUT + of_int TWOS_COMPLEMENT_BIAS
        else if h F_MulOperands then w ! V_PRODUCT else w ! V_RIGHT_INPUT)" if "\<not> h F_Advice"
    using goals that by blast
qed

lemma checked_record:
  assumes t: "from_record r = Inr t" and row: "row_ok (rec_instruction r)" and ok: "check_record r = Inr ()"
  defines "spec \<equiv> row_spec_of (rec_instruction r)"
  defines "h \<equiv> flags_has (rs_flags spec)" and "out \<equiv> record_output r"
  shows "h F_Assert \<Longrightarrow> out = 1" "h F_WriteLookupToRd \<Longrightarrow> post_value (rec_rd r) = out"
    "if h F_Halt then rec_next_pc r = rec_pc r
      else if h F_Jump then pc_try_from out = Some (rec_next_pc r)
      else if h F_Branch \<and> out = 1 then rec_next_pc r = ucast (rs_imm spec)
      else rec_next_pc r = rec_pc r + 1"
    "rec_ram r = Ram_NoOp \<and> \<not> h F_Load \<and> \<not> h F_Store \<or>
      h F_Load \<and> rec_ram r = Ram_Read \<lparr>rd_address = read_value (rec_rs1 r) + rs_imm spec,
        rd_value = post_value (rec_rd r)\<rparr> \<or>
      h F_Store \<and> (\<exists>pre. rec_ram r = Ram_Write \<lparr>wr_address = read_value (rec_rs1 r) + rs_imm spec,
        wr_pre_value = pre, wr_post_value = read_value (rec_rs2 r)\<rparr>)"
proof -
  have "check_output (rec_pc r) spec out (post_value (rec_rd r)) = Inr ()"
    "check_ram r spec (read_value (rec_rs1 r)) (read_value (rec_rs2 r)) (post_value (rec_rd r)) = Inr ()"
    "check_next_pc r spec out = Inr ()"
    using ok check_record_iff [OF from_record_shape [OF t] row] unfolding out_def spec_def by blast+
  then show "h F_Assert \<Longrightarrow> out = 1" "h F_WriteLookupToRd \<Longrightarrow> post_value (rec_rd r) = out"
    "if h F_Halt then rec_next_pc r = rec_pc r
      else if h F_Jump then pc_try_from out = Some (rec_next_pc r)
      else if h F_Branch \<and> out = 1 then rec_next_pc r = ucast (rs_imm spec)
      else rec_next_pc r = rec_pc r + 1"
    "rec_ram r = Ram_NoOp \<and> \<not> h F_Load \<and> \<not> h F_Store \<or>
      h F_Load \<and> rec_ram r = Ram_Read \<lparr>rd_address = read_value (rec_rs1 r) + rs_imm spec,
        rd_value = post_value (rec_rd r)\<rparr> \<or>
      h F_Store \<and> (\<exists>pre. rec_ram r = Ram_Write \<lparr>wr_address = read_value (rec_rs1 r) + rs_imm spec,
        wr_pre_value = pre, wr_post_value = read_value (rec_rs2 r)\<rparr>)"
    by (simp_all add: check_output_Inr check_next_pc_Inr check_ram_Inr h_def)
qed

text \<open>The immediate column, and the inputs it is one of.\<close>

lemma witness_inputs:
  fixes t r
  assumes t: "from_record r = Inr t"
  defines "spec \<equiv> row_spec_of (rec_instruction r)"
  defines "h \<equiv> flags_has (rs_flags spec)" and "w \<equiv> cycle_witness t :: 'f::comm_ring_1 list"
  shows "\<not> h F_Load \<Longrightarrow> \<not> h F_Store \<Longrightarrow> w ! V_IMM = from_u64 (rs_imm spec)"
    "h F_Load \<or> h F_Store \<Longrightarrow> w ! V_IMM = of_int (sint (rs_imm spec))"
    "w ! V_LEFT_INPUT = (if h F_LeftIsRs1 then w ! V_RS1_VALUE else 0)"
    "w ! V_RIGHT_INPUT = (if h F_RightIsRs2 then w ! V_RS2_VALUE else if h F_RightIsImm then w ! V_IMM else 0)"
proof -
  note row_of = row_of_record [OF t]
  show imm: "w ! V_IMM = from_u64 (rs_imm spec)" if "\<not> h F_Load" "\<not> h F_Store"
    using imm_column that by (simp add: w_def row_of h_def spec_def)
  show "w ! V_IMM = of_int (sint (rs_imm spec))" if "h F_Load \<or> h F_Store"
    using that by (auto simp: w_def row_of h_def spec_def imm_signed_eq)
  show "w ! V_LEFT_INPUT = (if h F_LeftIsRs1 then w ! V_RS1_VALUE else 0)"
    by (simp add: w_def row_of spec_left_input_def h_def spec_def)
  have "h F_RightIsImm \<Longrightarrow> \<not> h F_Load \<and> \<not> h F_Store"
    unfolding h_def spec_def using imm_operand_not_memory by blast
  then show "w ! V_RIGHT_INPUT = (if h F_RightIsRs2 then w ! V_RS2_VALUE else if h F_RightIsImm then w ! V_IMM else 0)"
    using imm by (simp add: w_def row_of spec_right_input_def h_def spec_def)
qed

lemma witness_ram:
  fixes t r
  assumes t: "from_record r = Inr t" and row: "row_ok (rec_instruction r)" and exact: "exact_row r"
    and ok: "check_record r = Inr ()"
  defines "h \<equiv> flags_has (rs_flags (row_spec_of (rec_instruction r)))" and "w \<equiv> cycle_witness t :: 'f::comm_ring_1 list"
  shows "w ! V_RAM_ADDRESS = (if h F_Load \<or> h F_Store then w ! V_RS1_VALUE + w ! V_IMM else 0)"
    "h F_Load \<Longrightarrow> w ! V_RAM_READ_VALUE = w ! V_RAM_WRITE_VALUE"
    "h F_Load \<Longrightarrow> w ! V_RAM_READ_VALUE = w ! V_RD_WRITE_VALUE"
    "h F_Store \<Longrightarrow> w ! V_RS2_VALUE = w ! V_RAM_WRITE_VALUE"
proof -
  let ?spec = "row_spec_of (rec_instruction r)"
  note row_of = row_of_record [OF t] and rams = ram_of_record [OF t]
  note ram = checked_record(4) [OF t row ok, folded h_def] and excl = row_flags_exclusive [of "rec_instruction r", folded h_def]
  show "w ! V_RAM_ADDRESS = (if h F_Load \<or> h F_Store then w ! V_RS1_VALUE + w ! V_IMM else 0)"
  proof (cases "h F_Load \<or> h F_Store")
    case True
    then have "rec_ram r \<noteq> Ram_NoOp" using ram excl(2) by auto
    then have "uint (ram_address t) = uint (read_value (rec_rs1 r)) + sint (rs_imm ?spec)"
      using exact rams by (simp add: exact_row_def)
    then have "(of_int (uint (ram_address t)) :: 'f) =
        of_int (uint (read_value (rec_rs1 r)) + sint (rs_imm ?spec))" by (rule arg_cong)
    then show ?thesis using True witness_inputs(2) [OF t, where 'f = 'f, folded h_def w_def, OF True]
      by (simp only: of_int_add from_u64_int w_def witness_values row_of if_True)
  next
    case False
    then have "rec_ram r = Ram_NoOp" using ram by auto
    then show ?thesis using False rams by (simp add: w_def)
  qed
  have "h F_Load \<Longrightarrow> ram_read_value t = post_value (rec_rd r) \<and> ram_write_value t = post_value (rec_rd r)"
    and "h F_Store \<Longrightarrow> ram_write_value t = read_value (rec_rs2 r)"
    using ram rams excl(2) by auto
  then show "h F_Load \<Longrightarrow> w ! V_RAM_READ_VALUE = w ! V_RAM_WRITE_VALUE"
    "h F_Load \<Longrightarrow> w ! V_RAM_READ_VALUE = w ! V_RD_WRITE_VALUE"
    "h F_Store \<Longrightarrow> w ! V_RS2_VALUE = w ! V_RAM_WRITE_VALUE"
    by (simp_all add: w_def row_of)
qed

lemma record_output_column:
  assumes "from_record r = Inr t" "in_table_domain r"
  shows "tr_lookup_output t = record_output r"
  using lookup_output_of_record [OF assms] by (simp add: record_output_def)

text \<open>The four ways a row goes on.\<close>

lemma next_pc_columns:
  fixes t r
  assumes t: "from_record r = Inr t" and dom: "in_table_domain r" and exact: "exact_row r"
  defines "spec \<equiv> row_spec_of (rec_instruction r)" and "w \<equiv> cycle_witness t :: 'f::comm_ring_1 list"
  shows "pc_try_from (record_output r) = Some (rec_next_pc r) \<Longrightarrow> w ! V_NEXT_PC = w ! V_LOOKUP_OUTPUT"
    "flags_has (rs_flags spec) F_Branch \<Longrightarrow> rec_next_pc r = ucast (rs_imm spec) \<Longrightarrow> w ! V_NEXT_PC = w ! V_IMM"
    "rec_next_pc r = rec_pc r + 1 \<Longrightarrow> w ! V_NEXT_PC = w ! V_PC + 1" "rec_next_pc r = rec_pc r \<Longrightarrow> w ! V_NEXT_PC = w ! V_PC"
proof -
  note row_of = row_of_record [OF t]
  show "w ! V_NEXT_PC = w ! V_LOOKUP_OUTPUT" if "pc_try_from (record_output r) = Some (rec_next_pc r)"
  proof -
    have "rec_next_pc r = ucast (record_output r)" "unat (record_output r) < 2 ^ 32"
      using that by (auto simp: pc_try_from_def word_less_nat_alt split: if_splits)
    then have "unat (rec_next_pc r) = unat (record_output r)" by (simp add: unsigned_ucast_eq take_bit_eq_mod)
    then show ?thesis by (simp only: w_def witness_values row_of record_output_column [OF t dom] from_u64_def)
  qed
  show "w ! V_NEXT_PC = w ! V_IMM" if br: "flags_has (rs_flags spec) F_Branch" "rec_next_pc r = ucast (rs_imm spec)"
  proof -
    obtain op a c t where "rec_instruction r = Branch op a c t" using br(1) unfolding spec_def branch_flag by blast
    then have "rs_imm spec = ucast t" "rec_next_pc r = t" using br(2) by (simp_all add: spec_def spec_empty_def)
    then have "unat (rec_next_pc r) = unat (rs_imm spec)" by (simp add: unsigned_ucast_eq)
    moreover have "w ! V_IMM = from_u64 (rs_imm spec)"
      using witness_inputs(1) [OF t] lookup_flags(7) br(1) unfolding spec_def w_def by blast
    ultimately show ?thesis by (simp only: w_def witness_values row_of from_u64_def)
  qed
  show "w ! V_NEXT_PC = w ! V_PC + 1" if "rec_next_pc r = rec_pc r + 1"
  proof -
    have "unat (rec_pc r) + 1 < 2 ^ 32" using exact by (simp add: exact_row_def)
    then have "unat (rec_pc r + 1) = unat (rec_pc r) + 1" by (simp add: unat_word_ariths)
    then show ?thesis unfolding w_def witness_values row_of that by simp
  qed
  show "w ! V_NEXT_PC = w ! V_PC" if "rec_next_pc r = rec_pc r" using that by (simp add: w_def row_of)
qed

lemma witness_next_pc:
  fixes t r
  assumes t: "from_record r = Inr t" and row: "row_ok (rec_instruction r)" and dom: "in_table_domain r"
    and exact: "exact_row r" and ok: "check_record r = Inr ()"
  defines "h \<equiv> flags_has (rs_flags (row_spec_of (rec_instruction r)))" and "w \<equiv> cycle_witness t :: 'f::comm_ring_1 list"
  shows "w ! V_NEXT_PC = (if h F_Branch \<and> record_output r = 1 then w ! V_IMM else if h F_Jump then w ! V_LOOKUP_OUTPUT
      else if h F_Halt then w ! V_PC else w ! V_PC + 1)"
proof -
  note next_pc = checked_record(3) [OF t row ok, folded h_def] and excl = row_flags_exclusive [of "rec_instruction r", folded h_def]
  note to = next_pc_columns [OF t dom exact, where 'f = 'f, folded h_def w_def]
  show ?thesis
  proof (cases "h F_Branch \<and> record_output r = 1")
    case True
    then show ?thesis using next_pc to(2) excl(7,8) by (simp only: if_True if_False simp_thms)
  next
    case no_branch: False
    show ?thesis
    proof (cases "h F_Jump")
      case True
      then show ?thesis using next_pc to(1) excl(9) no_branch by (simp only: if_True if_False simp_thms)
    next
      case False
      then show ?thesis using next_pc to(3,4) no_branch by (cases "h F_Halt") (simp_all only: if_True if_False simp_thms)
    qed
  qed
qed

lemma witness_output:
  fixes t r
  assumes t: "from_record r = Inr t" and row: "row_ok (rec_instruction r)" and dom: "in_table_domain r"
    and ok: "check_record r = Inr ()"
  defines "h \<equiv> flags_has (rs_flags (row_spec_of (rec_instruction r)))" and "w \<equiv> cycle_witness t :: 'f::comm_ring_1 list"
  shows "h F_Assert \<Longrightarrow> w ! V_LOOKUP_OUTPUT = 1" "h F_WriteLookupToRd \<Longrightarrow> w ! V_RD_WRITE_VALUE = w ! V_LOOKUP_OUTPUT"
    "w ! V_LOOKUP_OUTPUT * of_bool (h F_Branch) = of_bool (h F_Branch \<and> record_output r = 1)"
    "w ! V_SHOULD_BRANCH = of_bool (h F_Branch \<and> record_output r = 1)"
    "w ! V_LEFT_INPUT * w ! V_RIGHT_INPUT = w ! V_PRODUCT"
proof -
  note row_of = row_of_record [OF t] and o = record_output_column [OF t dom] and outs = checked_record(1,2) [OF t row ok, folded h_def]
  show "w ! V_LOOKUP_OUTPUT = 1" if "h F_Assert" using outs(1) [OF that] by (simp add: w_def o from_u64_def)
  show "w ! V_RD_WRITE_VALUE = w ! V_LOOKUP_OUTPUT" if "h F_WriteLookupToRd"
    using outs(2) [OF that] by (simp add: w_def o row_of)
  have "h F_Branch \<Longrightarrow> record_output r \<in> {0, 1}"
    using row is_boolean_evaluate unfolding h_def record_output_def branch_flag
    by (auto simp: has_simps spec_simps row_ok_def Let_def; blast)
  then show "w ! V_LOOKUP_OUTPUT * of_bool (h F_Branch) = of_bool (h F_Branch \<and> record_output r = 1)"
    by (auto simp: w_def o from_u64_def)
  show "w ! V_SHOULD_BRANCH = of_bool (h F_Branch \<and> record_output r = 1)" by (simp add: w_def row_of o h_def)
  show "w ! V_LEFT_INPUT * w ! V_RIGHT_INPUT = w ! V_PRODUCT" unfolding w_def witness_values field_index(3) by simp
qed

lemma check_record_imp_constraints:
  fixes m :: "'f::comm_ring_1 constraint_matrices"
  assumes m: "wasm_trace_constraints = Some m" and t: "from_record r = Inr t"
    and row: "row_ok (rec_instruction r)" and dom: "in_table_domain r" and exact: "exact_row r"
    and ok: "check_record r = Inr ()"
  shows "check_witness m (cycle_witness t) = Inr ()"
proof -
  define h where "h = flags_has (rs_flags (row_spec_of (rec_instruction r)))"
  let ?w = "cycle_witness t :: 'f list"
  have f: "?w ! V_FLAG f = of_bool (flags_has (rs_flags (row_spec_of (rec_instruction r))) f)" for f
    by (simp add: row_of_record [OF t])
  note excl = row_flags_exclusive [of "rec_instruction r", folded h_def]
  note ins = witness_inputs(3,4) [OF t, where 'f = 'f, folded h_def]
  note ram = witness_ram [OF t row exact ok, where 'f = 'f, folded h_def]
  note nxt = witness_next_pc [OF t row dom exact ok, where 'f = 'f, folded h_def]
  note outs = witness_output [OF t row dom ok, where 'f = 'f, folded h_def]
  note operands = witness_operands [OF t, where 'f = 'f, folded h_def]
  have right: "h F_AddOperands \<Longrightarrow> \<not> h F_Advice" "h F_SubOperands \<Longrightarrow> \<not> h F_Advice \<and> \<not> h F_AddOperands"
    "h F_MulOperands \<Longrightarrow> \<not> h F_Advice \<and> \<not> h F_AddOperands \<and> \<not> h F_SubOperands" using excl(3-6) by blast+
  have b: "h F_Branch \<and> record_output r = 1 \<longrightarrow> flags_has (rs_flags (row_spec_of (rec_instruction r))) F_Branch" by (simp add: h_def)
  show ?thesis
  proof (rule iffD2 [OF constraints_iff [OF m witness_values(1) f outs(4) b]], fold h_def, intro conjI impI)
    show "?w ! V_NEXT_PC = ?w ! V_LOOKUP_OUTPUT" if "h F_Jump" using nxt that excl(7) by simp
    show "?w ! V_NEXT_PC = ?w ! V_PC" if "h F_Halt" using nxt that excl(8,9) by simp
    show "?w ! V_NEXT_PC = ?w ! V_IMM" if "h F_Branch \<and> record_output r = 1" using nxt that by simp
    show "?w ! V_NEXT_PC = ?w ! V_PC + 1" if "\<not> (h F_Branch \<and> record_output r = 1) \<and> \<not> h F_Jump \<and> \<not> h F_Halt"
      using nxt that by (simp only: if_False simp_thms)
    show "?w ! V_RIGHT_INPUT = ?w ! V_IMM" if "h F_RightIsImm" using ins(2) that excl(1) by simp
  qed (use ins ram(1) operands(1) in simp; fail |
    use operands(2) right in \<open>simp only: if_True if_False simp_thms\<close>; fail | rule outs ram; assumption)+
qed


text \<open>C7: Soundness of the uniform constraints: take any witness of a cycle, prover-chosen in the
  operand, product and branch columns, whose other columns are what the bytecode, register, RAM and
  lookup arguments pin down for a record (\<open>argument_columns\<close>). In a ring in which no nonzero integer of
  absolute value below \<open>2 ^ 130\<close> vanishes (\<open>large_ring\<close>), if the witness satisfies the 24 constraints
  then the record passes the row check (so, by the row check's soundness, it is a step of the machine),
  under three conditions on the record: it has the registers and the memory access that its instruction
  names (\<open>record_shape\<close>); the instruction does not write the zero register, and an assert or a branch
  compares with a boolean operation (\<open>row_ok\<close>); and the right operand of a shift or rotation through a
  table (\<open>Srl\<close>, \<open>Sra\<close>, \<open>Rotr\<close>) is a bitmask of ones above zeros (\<open>in_table_domain\<close>). No argument
  behind \<open>argument_columns\<close> pins the last condition; without it the table's entry is not the operation's
  value, and the record need not pass.\<close>

theorem constraints_sound:
  fixes w :: "'f::comm_ring_1 list"
  assumes "large_ring TYPE('f)" "wasm_trace_constraints = Some m"
    and "argument_columns r out w" "record_shape r" "row_ok (rec_instruction r)" "in_table_domain r"
    and "check_witness m w = Inr ()"
  shows "check_record r = Inr ()"
  using assms by (rule constraints_imp_check_record)

text \<open>C10: Completeness of the uniform constraints: in any commutative ring, the row materialized
  from a record that passes the row check satisfies all 24 constraints, when the record converts to a
  trace row (\<open>from_record\<close> succeeds); its instruction does not write the zero register, and an assert or
  a branch compares with a boolean operation (\<open>row_ok\<close>); the right operand of a shift or rotation
  through a table (\<open>Srl\<close>, \<open>Sra\<close>, \<open>Rotr\<close>) is a bitmask of ones above zeros (\<open>in_table_domain\<close>), since
  off that domain the table's entry is not the operation's value; and neither its pc nor its memory
  address wraps around (\<open>exact_row\<close>).\<close>

theorem constraints_complete:
  fixes m :: "'f::comm_ring_1 constraint_matrices"
  assumes "wasm_trace_constraints = Some m" "from_record r = Inr t"
    and "row_ok (rec_instruction r)" "in_table_domain r" "exact_row r"
    and "check_record r = Inr ()"
  shows "check_witness m (cycle_witness t) = Inr ()"
  using assms by (rule check_record_imp_constraints)

text \<open>The trap row: no constraint mentions its flag.\<close>

definition trap_record :: "pc \<Rightarrow> exec_record" where
  "trap_record p = \<lparr>rec_pc = p, rec_next_pc = p + 1, rec_instruction = Trap, rec_rs1 = None,
     rec_rs2 = None, rec_rd = None, rec_ram = Ram_NoOp\<rparr>"

lemma trap_record_facts:
  "row_ok (rec_instruction (trap_record p))" "in_table_domain (trap_record p)"
  "check_record (trap_record p) = Inr ()" "\<exists>t. from_record (trap_record p) = Inr t"
  by (simp_all add: trap_record_def row_ok_def in_table_domain_def check_defs spec_empty_def
      from_record_def record_operands_def record_slots_def has_simps)

text \<open>C11: The uniform constraints accept a trap row that falls through to the next pc (one that does not
  wrap), although the interpreter never completes one: the Trap flag occurs in no constraint, so nothing
  in the constraints or the row check stops a trace from running past an \<^verbatim>\<open>unreachable\<close>.\<close>

theorem trap_row_accepted:
  assumes "wasm_trace_constraints = Some (m :: 'f::comm_ring_1 constraint_matrices)"
    and "unat p + 1 < 2 ^ 32"
  shows "(\<exists>t. from_record (trap_record p) = Inr t \<and> check_witness m (cycle_witness t) = Inr ()) \<and>
    (instruction_at mc = Some Trap \<longrightarrow> step mc = Inl Unreachable)"
proof -
  obtain t where t: "from_record (trap_record p) = Inr t" using trap_record_facts(4) by blast
  have "exact_row (trap_record p)" using assms(2) by (simp add: exact_row_def trap_record_def)
  then have "check_witness m (cycle_witness t) = Inr ()"
    using check_record_imp_constraints [OF assms(1) t] trap_record_facts by blast
  then show ?thesis using t step_Trap by blast
qed

section \<open>At a concrete row\<close>

lemma large_ring_int: "large_ring TYPE(int)"
  by (simp add: large_ring_def)

text \<open>The witness the prover fills is one whose columns are those of the record.\<close>

lemma argument_columns_witness:
  assumes "from_record r = Inr t" "in_table_domain r"
  shows "argument_columns r (tr_lookup_output t) (cycle_witness t :: 'f::comm_ring_1 list)"
proof -
  let ?spec = "row_spec_of (rec_instruction r)" and ?w = "cycle_witness t :: 'f list"
  note row_of = row_of_record [OF assms(1)]
  have "lookup_columns (rs_lookup ?spec) (tr_lookup_output t) ?w"
  proof (cases "rs_lookup ?spec")
    case None
    then show ?thesis by (simp add: lookup_columns_def tr_lookup_output_def tr_table_op_def row_of)
  next
    case (Some l)
    have cast: "(of_nat (unat y) :: 'f) = from_u64 y" for y :: u64 by (simp add: from_u64_def)
    have v: "?w ! V_LEFT_LOOKUP_OPERAND = from_u64 (fst (tr_lookup_operands t))"
      "?w ! V_RIGHT_LOOKUP_OPERAND = of_nat (unat (snd (tr_lookup_operands t)))"
      "?w ! V_LOOKUP_OUTPUT = from_u64 (tr_lookup_output t)" by (rule witness_values)+
    show ?thesis
    proof (cases l)
      case (Lookup_Table op)
      then show ?thesis unfolding lookup_columns_def v
        by (cases "op_mode op = Mode_Interleaved")
          (auto simp: Some tr_lookup_operands_def tr_lookup_output_def tr_table_op_def tr_lookup_index_def
            row_of cast simp del: of_nat_unat of_nat_eq_iff intro!: exI)
    next
      case (Lookup_Advice h)
      then show ?thesis unfolding lookup_columns_def v
        by (auto simp: Some tr_lookup_operands_def tr_lookup_output_def tr_table_op_def tr_lookup_index_def
            row_of simp del: of_nat_unat intro!: exI)
    qed
  qed
  then show ?thesis
    by (simp add: argument_columns_def row_of ram_of_record [OF assms(1)])
qed

definition demo_row_record :: exec_record where
  "demo_row_record = \<lparr>rec_pc = 7, rec_next_pc = 8, rec_instruction = Alu (A_Sub W64) T0 T1 (Op_Imm 5),
     rec_rs1 = Some \<lparr>rr_register = T1, rr_value = 3\<rparr>, rec_rs2 = None,
     rec_rd = Some \<lparr>rw_register = T0, rw_pre_value = 0, rw_post_value = 0xFFFFFFFFFFFFFFFE\<rparr>,
     rec_ram = Ram_NoOp\<rparr>"

lemma demo_row_facts:
  "row_ok (rec_instruction demo_row_record)" "in_table_domain demo_row_record" "exact_row demo_row_record"
  "\<exists>t. from_record demo_row_record = Inr t" "check_record demo_row_record = Inr ()"
  by (simp_all add: demo_row_record_def row_ok_def in_table_domain_def in_domain_def exact_row_def check_defs
      from_record_def record_operands_def record_slots_def has_simps)

lemma constraints_complete_witness:
  "\<exists>m t. (wasm_trace_constraints :: int constraint_matrices option) = Some m \<and>
     from_record demo_row_record = Inr t \<and> check_witness m (cycle_witness t) = Inr ()"
proof -
  obtain t where t: "from_record demo_row_record = Inr t" using demo_row_facts(4) by blast
  obtain m :: "int constraint_matrices" where m: "wasm_trace_constraints = Some m"
    using trace_constraints_Some by blast
  show ?thesis
    using constraints_complete [OF m t demo_row_facts(1-3,5)] m t by blast
qed

lemma constraints_sound_witness: "check_record demo_row_record = Inr ()"
proof -
  obtain t where t: "from_record demo_row_record = Inr t" using demo_row_facts(4) by blast
  obtain m :: "int constraint_matrices" where m: "wasm_trace_constraints = Some m"
    using trace_constraints_Some by blast
  have "check_witness m (cycle_witness t) = Inr ()"
    using check_record_imp_constraints [OF m t demo_row_facts(1-3,5)] .
  then show ?thesis
    by (rule constraints_sound [OF large_ring_int m argument_columns_witness [OF t demo_row_facts(2)]
          from_record_shape [OF t] demo_row_facts(1,2)])
qed

lemma trap_row_accepted_witness:
  "\<exists>m t. (wasm_trace_constraints :: int constraint_matrices option) = Some m \<and>
     from_record (trap_record 41) = Inr t \<and> check_witness m (cycle_witness t) = Inr ()"
proof -
  obtain m :: "int constraint_matrices" where m: "wasm_trace_constraints = Some m"
    using trace_constraints_Some by blast
  show ?thesis using trap_row_accepted [OF m, of 41] m by auto
qed

end
