(* ===== verification/Univariate_Poly.thy ===== *)
theory Univariate_Poly
  imports Main
begin

text \<open>
  \<^verbatim>\<open>jolt-poly/src/univariate.rs\<close> and \<^verbatim>\<open>compressed_univariate.rs\<close>: univariate
  polynomials as coefficient vectors in ascending degree order, over any field. A panic is
  \<open>None\<close>.
\<close>

text \<open>\<^verbatim>\<open>Field::inverse\<close>, which is \<^verbatim>\<open>None\<close> at zero.\<close>

definition field_inverse :: "'f::field \<Rightarrow> 'f option" where
  "field_inverse x = (if x = 0 then None else Some (inverse x))"

section \<open>Coefficient form\<close>

type_synonym 'f univariate_poly = "'f list"

definition up_degree :: "'f univariate_poly \<Rightarrow> nat" where
  "up_degree p = (if p = [] then 0 else length p - 1)"

definition up_zero :: "'f univariate_poly" where
  "up_zero = []"

text \<open>\<^verbatim>\<open>evaluate\<close>: Horner's method, a \<^verbatim>\<open>reduce\<close> over the reversed coefficients.\<close>

definition up_evaluate :: "'f::field univariate_poly \<Rightarrow> 'f \<Rightarrow> 'f" where
  "up_evaluate p x = (case rev p of [] \<Rightarrow> 0 | c # cs \<Rightarrow> fold (\<lambda>c acc. acc * x + c) cs c)"

definition up_is_zero :: "'f::field univariate_poly \<Rightarrow> bool" where
  "up_is_zero p \<longleftrightarrow> p = [] \<or> list_all (\<lambda>c. c = 0) p"

definition up_leading_coefficient :: "'f univariate_poly \<Rightarrow> 'f option" where
  "up_leading_coefficient p = (if p = [] then None else Some (last p))"

section \<open>Arithmetic\<close>

definition up_neg :: "'f::field univariate_poly \<Rightarrow> 'f univariate_poly" where
  "up_neg p = map uminus p"

text \<open>The coefficients of \<open>shorter\<close> added to those of \<open>longer\<close>, pairwise.\<close>

definition add_into :: "'f::field list \<Rightarrow> 'f list \<Rightarrow> 'f list" where
  "add_into longer shorter = map2 (+) longer shorter @ drop (length shorter) longer"

definition up_add :: "'f::field univariate_poly \<Rightarrow> 'f univariate_poly \<Rightarrow> 'f univariate_poly" where
  "up_add p q = (if length p \<ge> length q then add_into p q else add_into q p)"

text \<open>\<^verbatim>\<open>AddAssign\<close> and \<^verbatim>\<open>SubAssign\<close>: the left side is first resized.\<close>

definition pad_to :: "nat \<Rightarrow> 'f::field list \<Rightarrow> 'f list" where
  "pad_to n p = p @ replicate (n - length p) 0"

definition up_add_assign :: "'f::field univariate_poly \<Rightarrow> 'f univariate_poly \<Rightarrow> 'f univariate_poly" where
  "up_add_assign p q =
     (let p = (if length q > length p then pad_to (length q) p else p) in
      map2 (+) p q @ drop (length q) p)"

definition up_sub_assign :: "'f::field univariate_poly \<Rightarrow> 'f univariate_poly \<Rightarrow> 'f univariate_poly" where
  "up_sub_assign p q =
     (let p = (if length q > length p then pad_to (length q) p else p) in
      map2 (-) p q @ drop (length q) p)"

text \<open>The subtraction of references, over a zero vector of the larger length.\<close>

definition up_sub :: "'f::field univariate_poly \<Rightarrow> 'f univariate_poly \<Rightarrow> 'f univariate_poly" where
  "up_sub p q =
     (let n = max (length p) (length q);
          coeffs = fold (\<lambda>(i, c) v. v[i := v ! i + c]) (enumerate 0 p) (replicate n 0) in
      fold (\<lambda>(i, c) v. v[i := v ! i - c]) (enumerate 0 q) coeffs)"

definition up_scale :: "'f::field univariate_poly \<Rightarrow> 'f \<Rightarrow> 'f univariate_poly" where
  "up_scale p a = map (\<lambda>c. c * a) p"

section \<open>Interpolation\<close>

text \<open>One factor of a Lagrange basis polynomial: multiply the first \<open>len\<close> coefficients by
  \<open>X + neg\<close> in place, from the top down, then scale.\<close>

definition times_linear :: "nat \<Rightarrow> 'f::field \<Rightarrow> 'f list \<Rightarrow> 'f list" where
  "times_linear len neg b =
     (let b = fold (\<lambda>k b. b[k := b ! (k - 1) + b ! k * neg]) (rev [1..<Suc len]) b in
      b[0 := b ! 0 * neg])"

definition scale_prefix :: "nat \<Rightarrow> 'f::field \<Rightarrow> 'f list \<Rightarrow> 'f list" where
  "scale_prefix len a b = map (\<lambda>c. c * a) (take len b) @ drop len b"

definition basis_step ::
  "('f::field \<times> 'f) list \<Rightarrow> nat \<Rightarrow> nat \<Rightarrow> ('f list \<times> nat) option \<Rightarrow> ('f list \<times> nat) option"
where
  "basis_step points j m st =
     (case st of None \<Rightarrow> None
      | Some (basis, len) \<Rightarrow>
          if m = j then Some (basis, len)
          else
            (case field_inverse (fst (points ! j) - fst (points ! m)) of
               None \<Rightarrow> None
             | Some denom \<Rightarrow>
                 Some (scale_prefix (Suc len) denom (times_linear len (- fst (points ! m)) basis), Suc len)))"

definition lagrange_basis :: "('f::field \<times> 'f) list \<Rightarrow> nat \<Rightarrow> 'f list option" where
  "lagrange_basis points j =
     (let n = length points in
      map_option fst (fold (basis_step points j) [0..<n] (Some (1 # replicate (n - 1) 0, 1))))"

text \<open>\<^verbatim>\<open>interpolate\<close>: the weighted sum of the basis polynomials. It panics without points, and
  on points that are not distinct.\<close>

definition interpolate_step ::
  "('f::field \<times> 'f) list \<Rightarrow> nat \<Rightarrow> 'f list option \<Rightarrow> 'f list option"
where
  "interpolate_step points j acc =
     (case acc of None \<Rightarrow> None
      | Some result \<Rightarrow>
          (case lagrange_basis points j of
             None \<Rightarrow> None
           | Some basis \<Rightarrow> Some (map2 (\<lambda>r b. r + snd (points ! j) * b) result basis)))"

definition interpolate :: "('f::field \<times> 'f) list \<Rightarrow> 'f univariate_poly option" where
  "interpolate points =
     (if points = [] then None
      else fold (interpolate_step points) [0..<length points] (Some (replicate (length points) 0)))"

definition interpolate_over_integers :: "'f::field list \<Rightarrow> 'f univariate_poly option" where
  "interpolate_over_integers evals =
     (if evals = [] then None
      else interpolate (map (\<lambda>(i, y). (of_nat i, y)) (enumerate 0 evals)))"

definition evaluate_basis :: "nat \<Rightarrow> nat \<Rightarrow> 'f::field \<Rightarrow> 'f option" where
  "evaluate_basis domain_size index point =
     (if \<not> index < domain_size then None
      else
        let js = filter (\<lambda>j. j \<noteq> index) [0..<domain_size];
            numer = fold (\<lambda>j acc. acc * (point - of_nat j)) js 1;
            denom = fold (\<lambda>j acc. acc * (of_nat index - of_nat j)) js 1 in
        map_option (\<lambda>i. numer * i) (field_inverse denom))"

section \<open>Round polynomials from partial information\<close>

definition from_linear_times_quadratic_with_hint ::
  "'f::field \<times> 'f \<Rightarrow> 'f \<Rightarrow> 'f \<Rightarrow> 'f \<Rightarrow> 'f univariate_poly option"
where
  "from_linear_times_quadratic_with_hint l q0 q2 hint =
     (case l of (l0, l1) \<Rightarrow>
      let linear_eval_one = l0 + l1; cubic_coeff_0 = l0 * q0 in
      case field_inverse linear_eval_one of
        None \<Rightarrow> None
      | Some one_inv \<Rightarrow>
          let q1 = (hint - cubic_coeff_0) * one_inv - q0 - q2 in
          Some [cubic_coeff_0, l0 * q1 + l1 * q0, l0 * q2 + l1 * q1, l1 * q2])"

section \<open>Division\<close>

text \<open>Stripping trailing zeros.\<close>

definition strip_zeros :: "'f::field list \<Rightarrow> 'f list" where
  "strip_zeros p = rev (dropWhile (\<lambda>c. c = 0) (rev p))"

text \<open>One step of the long division by \<open>divisor\<close>, whose leading coefficient is not zero.\<close>

definition divide_step ::
  "'f::field list \<Rightarrow> 'f \<Rightarrow> 'f list \<Rightarrow> 'f list \<Rightarrow> 'f list \<times> 'f list"
where
  "divide_step divisor leading_inv remainder quot =
     (let c = last remainder * leading_inv; d = length remainder - length divisor in
      (strip_zeros (fold (\<lambda>(i, a) r. r[d + i := r ! (d + i) - c * a]) (enumerate 0 divisor) remainder),
       quot[d := c]))"

partial_function (option) divide_loop ::
  "'f::field list \<Rightarrow> 'f \<Rightarrow> 'f list \<Rightarrow> 'f list \<Rightarrow> ('f list \<times> 'f list) option"
where
  "divide_loop divisor leading_inv remainder quot =
     (if \<not> up_is_zero remainder \<and> length remainder \<ge> length divisor
      then (case divide_step divisor leading_inv remainder quot of
              (r, q) \<Rightarrow> divide_loop divisor leading_inv r q)
      else Some (quot, remainder))"

text \<open>\<^verbatim>\<open>divide_with_remainder\<close>: quotient and remainder, \<open>None\<close> for the zero divisor. The outer
  option is the loop's termination.\<close>

definition divide_with_remainder ::
  "'f::field univariate_poly \<Rightarrow> 'f univariate_poly \<Rightarrow> ('f univariate_poly \<times> 'f univariate_poly) option option"
where
  "divide_with_remainder p divisor =
     (if up_is_zero p then Some (Some (up_zero, up_zero))
      else
        let divisor_coeffs = strip_zeros divisor in
        if divisor_coeffs = [] then Some None
        else if length p < length divisor_coeffs then Some (Some (up_zero, p))
        else map_option Some
          (divide_loop divisor_coeffs (inverse (last divisor_coeffs)) p
            (replicate (length p - length divisor_coeffs + 1) 0)))"

section \<open>Compressed form\<close>

type_synonym 'f compressed_poly = "'f list"

definition cp_degree :: "'f compressed_poly \<Rightarrow> nat" where
  "cp_degree c = length c"

text \<open>\<^verbatim>\<open>compress\<close> omits the linear coefficient; it panics on fewer than two coefficients.\<close>

definition up_compress :: "'f univariate_poly \<Rightarrow> 'f compressed_poly option" where
  "up_compress p = (case p of c0 # c1 # cs \<Rightarrow> Some (c0 # cs) | _ \<Rightarrow> None)"

text \<open>The operations on a compressed polynomial panic when it is empty.\<close>

definition recover_linear_term :: "'f::field compressed_poly \<Rightarrow> 'f \<Rightarrow> 'f option" where
  "recover_linear_term c hint =
     (case c of [] \<Rightarrow> None | c0 # cs \<Rightarrow> Some (fold (\<lambda>c t. t - c) cs (hint - c0 - c0)))"

definition eval_from_hint :: "'f::field compressed_poly \<Rightarrow> 'f \<Rightarrow> 'f \<Rightarrow> 'f option" where
  "eval_from_hint c hint x =
     (case recover_linear_term c hint of
        None \<Rightarrow> None
      | Some linear \<Rightarrow>
          Some (snd (fold (\<lambda>a (x_pow, sum). (x_pow * x, sum + a * (x_pow * x))) (tl c)
            (x, hd c + x * linear))))"

definition evaluate_with_hint :: "'f::field compressed_poly \<Rightarrow> 'f \<Rightarrow> 'f \<Rightarrow> 'f option" where
  "evaluate_with_hint c hint x = eval_from_hint c hint x"

definition decompress :: "'f::field compressed_poly \<Rightarrow> 'f \<Rightarrow> 'f univariate_poly option" where
  "decompress c hint =
     map_option (\<lambda>linear. hd c # linear # tl c) (recover_linear_term c hint)"

section \<open>Evaluation\<close>

text \<open>The coefficient of \<open>X\<^sup>i\<close>, zero past the end of the vector.\<close>

definition up_coeff :: "'f::field list \<Rightarrow> nat \<Rightarrow> 'f" where
  "up_coeff p i = (if i < length p then p ! i else 0)"

lemma up_coeff_simps [simp]:
  "up_coeff [] i = 0" "up_coeff (c # p) 0 = c" "up_coeff (c # p) (Suc i) = up_coeff p i"
  by (simp_all add: up_coeff_def)

lemma up_coeff_ge: "length p \<le> i \<Longrightarrow> up_coeff p i = 0"
  by (simp add: up_coeff_def)

lemma up_evaluate_simps [simp]:
  "up_evaluate [] x = 0" "up_evaluate (c # p) x = c + x * up_evaluate p x"
  by (cases "rev p"; simp add: up_evaluate_def mult.commute add.commute)+

lemma up_evaluate_sum: "length p \<le> n \<Longrightarrow> up_evaluate p x = (\<Sum>i<n. up_coeff p i * x ^ i)"
proof (induction p arbitrary: n)
  case Nil
  then show ?case by simp
next
  case (Cons c p)
  then obtain k where n: "n = Suc k" by (cases n) auto
  then show ?case using Cons
    by (simp add: sum.lessThan_Suc_shift sum_distrib_left algebra_simps del: sum.lessThan_Suc)
qed

lemma up_evaluate_cong:
  assumes "\<And>i. up_coeff p i = up_coeff q i"
  shows "up_evaluate p x = up_evaluate q x"
  using up_evaluate_sum [of p "max (length p) (length q)"] up_evaluate_sum [of q "max (length p) (length q)"]
  by (simp add: assms)

lemma up_coeff_eqI: "length r = n \<Longrightarrow> (\<And>i. i < n \<Longrightarrow> r ! i = f i) \<Longrightarrow> (\<And>i. n \<le> i \<Longrightarrow> f i = 0) \<Longrightarrow>
    up_coeff r i = f i"
  by (simp add: up_coeff_def)

section \<open>Arithmetic\<close>

lemma up_evaluate_neg: "up_evaluate (up_neg p) x = - up_evaluate p x"
  by (induction p) (simp_all add: up_neg_def algebra_simps)

lemma up_evaluate_scale: "up_evaluate (up_scale p a) x = up_evaluate p x * a"
  by (induction p) (simp_all add: up_scale_def algebra_simps)

lemma up_evaluate_linear:
  assumes "\<And>i. up_coeff r i = up_coeff p i + a * up_coeff q i"
  shows "up_evaluate r x = up_evaluate p x + a * up_evaluate q x"
proof -
  let ?n = "max (length r) (max (length p) (length q))"
  have "up_evaluate r x = (\<Sum>i<?n. up_coeff r i * x ^ i)" by (rule up_evaluate_sum) simp
  also have "\<dots> = (\<Sum>i<?n. up_coeff p i * x ^ i) + a * (\<Sum>i<?n. up_coeff q i * x ^ i)"
    by (simp add: assms algebra_simps sum.distrib sum_distrib_left)
  also have "\<dots> = up_evaluate p x + a * up_evaluate q x" by (simp add: up_evaluate_sum [symmetric])
  finally show ?thesis .
qed

lemma up_coeff_add_into:
  "length q \<le> length p \<Longrightarrow> up_coeff (add_into p q) i = up_coeff p i + up_coeff q i"
  by (auto simp: up_coeff_def add_into_def nth_append)

lemma up_coeff_add: "up_coeff (up_add p q) i = up_coeff p i + up_coeff q i"
  by (simp add: up_add_def up_coeff_add_into add.commute)

lemma up_coeff_pad [simp]: "up_coeff (pad_to n p) i = up_coeff p i"
  by (auto simp: up_coeff_def pad_to_def nth_append)

lemma up_coeff_map2_drop:
  assumes "length q \<le> length p" "\<And>a. f a 0 = a"
  shows "up_coeff (map2 f p q @ drop (length q) p) i =
    (if i < length p then f (up_coeff p i) (up_coeff q i) else 0)"
  using assms by (auto simp: up_coeff_def nth_append)

lemma length_pad [simp]: "length (pad_to n p) = max n (length p)"
  by (simp add: pad_to_def)

lemma up_coeff_add_assign: "up_coeff (up_add_assign p q) i = up_coeff p i + up_coeff q i"
  using up_coeff_map2_drop [of q "if length p < length q then pad_to (length q) p else p" "(+)" i]
  by (auto simp: up_add_assign_def Let_def up_coeff_ge)

lemma up_coeff_sub_assign: "up_coeff (up_sub_assign p q) i = up_coeff p i - up_coeff q i"
  using up_coeff_map2_drop [of q "if length p < length q then pad_to (length q) p else p" "(-)" i]
  by (auto simp: up_sub_assign_def Let_def up_coeff_ge)

text \<open>Accumulating a list into a vector, index by index.\<close>

lemma fold_accumulate:
  assumes "d + k + length p \<le> length v"
  shows "length (fold (\<lambda>(i, c) v. v[d + i := f (v ! (d + i)) c]) (enumerate k p) v) = length v"
    and "i < length v \<Longrightarrow> fold (\<lambda>(i, c) v. v[d + i := f (v ! (d + i)) c]) (enumerate k p) v ! i =
      (if d + k \<le> i \<and> i < d + k + length p then f (v ! i) (p ! (i - (d + k))) else v ! i)"
  using assms by (induction p arbitrary: k v) (auto simp: nth_list_update nth_Cons')

lemma up_coeff_sub: "up_coeff (up_sub p q) i = up_coeff p i - up_coeff q i"
proof -
  let ?n = "max (length p) (length q)"
  let ?v = "fold (\<lambda>(i, c) v. v[i := v ! i + c]) (enumerate 0 p) (replicate ?n 0)"
  note a = fold_accumulate [where d = 0 and k = 0 and p = p and v = "replicate ?n 0" and f = "(+)", simplified]
  note b = fold_accumulate [where d = 0 and k = 0 and p = q and v = ?v and f = "(-)", simplified]
  show ?thesis using a b by (auto simp: up_sub_def Let_def up_coeff_def)
qed

lemma up_evaluate_arith:
  "up_evaluate (up_add p q) x = up_evaluate p x + up_evaluate q x"
  "up_evaluate (up_add_assign p q) x = up_evaluate p x + up_evaluate q x"
  "up_evaluate (up_sub p q) x = up_evaluate p x - up_evaluate q x"
  "up_evaluate (up_sub_assign p q) x = up_evaluate p x - up_evaluate q x"
  using up_evaluate_linear [of "up_add p q" p 1 q] up_evaluate_linear [of "up_add_assign p q" p 1 q]
    up_evaluate_linear [of "up_sub p q" p "- 1" q] up_evaluate_linear [of "up_sub_assign p q" p "- 1" q]
  by (simp_all add: up_coeff_add up_coeff_add_assign up_coeff_sub up_coeff_sub_assign)

section \<open>Roots\<close>

text \<open>Dividing out a root.\<close>

lemma divide_out_root:
  "\<exists>q. length q = length p - 1 \<and> (\<forall>x. up_evaluate p x - up_evaluate p a = (x - a) * up_evaluate q x)"
proof (induction p)
  case Nil
  then show ?case by simp
next
  case (Cons c p)
  then obtain q where q: "length q = length p - 1"
    "\<And>x. up_evaluate p x - up_evaluate p a = (x - a) * up_evaluate q x" by blast
  show ?case
  proof (cases p)
    case Nil
    then show ?thesis by simp
  next
    case Cons': (Cons d p')
    let ?r = "up_add p (up_scale q a)"
    have "length (up_add p (up_scale q a)) = length p"
      using q(1) by (simp add: up_add_def add_into_def up_scale_def)
    moreover have "up_evaluate (c # p) x - up_evaluate (c # p) a = (x - a) * up_evaluate ?r x" for x
    proof -
      have "up_evaluate p a = up_evaluate p x - (x - a) * up_evaluate q x" using q(2) [of x] by (simp add: algebra_simps)
      then show ?thesis unfolding up_evaluate_simps up_evaluate_arith up_evaluate_scale
        by (simp only:) (simp add: algebra_simps)
    qed
    ultimately show ?thesis by (intro exI [of _ ?r]) simp
  qed
qed

lemma up_roots_bound:
  fixes p :: "'f::field list"
  assumes "up_evaluate p y \<noteq> 0"
  shows "finite {x. up_evaluate p x = 0} \<and> card {x. up_evaluate p x = 0} \<le> length p - 1"
  using assms
proof (induction "length p" arbitrary: p)
  case 0
  then show ?case by simp
next
  case (Suc n)
  show ?case
  proof (cases "\<exists>a. up_evaluate p a = 0")
    case True
    then obtain a where a: "up_evaluate p a = 0" by blast
    obtain q where q: "length q = length p - 1" "\<And>x. up_evaluate p x = (x - a) * up_evaluate q x"
      using divide_out_root [of p a] a by auto
    have nz: "up_evaluate q y \<noteq> 0" using Suc(3) q(2) [of y] by auto
    have n: "n = length q" using q(1) Suc(2) by simp
    have IH: "finite {x. up_evaluate q x = 0}" "card {x. up_evaluate q x = 0} \<le> length q - 1"
      using Suc(1) [OF n nz] by blast+
    have "0 < length q" using nz by (cases q) auto
    moreover have "{x. up_evaluate p x = 0} = insert a {x. up_evaluate q x = 0}" using q(2) by auto
    ultimately show ?thesis using IH q(1) card_insert_le_m1 [of "length q" "{x. up_evaluate q x = 0}" a]
      by simp
  qed simp
qed

text \<open>Two polynomials of degree at most \<open>d\<close> that differ somewhere agree on at most \<open>d\<close> points.\<close>

lemma up_agree_bound:
  fixes p q :: "'f::field list"
  assumes "length p \<le> Suc d" "length q \<le> Suc d" "up_evaluate p y \<noteq> up_evaluate q y"
  shows "finite {x. up_evaluate p x = up_evaluate q x} \<and> card {x. up_evaluate p x = up_evaluate q x} \<le> d"
proof -
  have l: "length (up_add p (up_neg q)) \<le> Suc d"
    using assms by (simp add: up_add_def add_into_def up_neg_def)
  have e: "up_evaluate (up_add p (up_neg q)) x = up_evaluate p x - up_evaluate q x" for x
    by (simp add: up_evaluate_arith up_evaluate_neg)
  then have "up_evaluate (up_add p (up_neg q)) y \<noteq> 0" using assms(3) by simp
  from up_roots_bound [OF this] l show ?thesis unfolding e right_minus_eq by linarith
qed

section \<open>Compression\<close>

lemma recover_linear_sum:
  "recover_linear_term [] hint = None"
  "recover_linear_term (c0 # cs) hint = Some (hint - c0 - c0 - sum_list cs)"
proof -
  have "fold (\<lambda>c t. t - c) cs t = t - sum_list cs" for t
    by (induction cs arbitrary: t) simp_all
  then show "recover_linear_term (c0 # cs) hint = Some (hint - c0 - c0 - sum_list cs)"
    by (simp add: recover_linear_term_def)
qed (simp add: recover_linear_term_def)

lemma up_evaluate_1: "up_evaluate p 1 = sum_list p"
  by (induction p) simp_all

lemma eval_from_hint_cs:
  "snd (fold (\<lambda>a (x_pow, sum). (x_pow * x, sum + a * (x_pow * x))) cs (y, s)) =
    s + y * x * up_evaluate cs x"
  by (induction cs arbitrary: y s) (simp_all add: algebra_simps)

lemma eval_from_hint_decompress:
  "evaluate_with_hint c hint x = map_option (\<lambda>p. up_evaluate p x) (decompress c hint)"
  by (cases c) (simp_all add: evaluate_with_hint_def eval_from_hint_def decompress_def recover_linear_sum
      eval_from_hint_cs algebra_simps)

lemma decompress_sum:
  assumes "decompress c hint = Some p"
  shows "up_evaluate p 0 + up_evaluate p 1 = hint" "length p = Suc (length c)" "up_degree p = cp_degree c"
proof -
  obtain c0 cs where c: "c = c0 # cs" using assms by (cases c) (simp_all add: decompress_def recover_linear_sum)
  then have "p = c0 # (hint - c0 - c0 - sum_list cs) # cs"
    using assms by (simp add: decompress_def recover_linear_sum)
  then show "up_evaluate p 0 + up_evaluate p 1 = hint" "length p = Suc (length c)" "up_degree p = cp_degree c"
    by (simp_all add: c up_evaluate_1 up_degree_def cp_degree_def)
qed

lemma compress_decompress:
  assumes "up_compress p = Some c"
  shows "decompress c (up_evaluate p 0 + up_evaluate p 1) = Some p"
  using assms by (cases p rule: remdups_adj.cases)
    (auto simp: up_compress_def decompress_def recover_linear_sum up_evaluate_1)

section \<open>Interpolation is correct\<close>

lemma times_linear_fold:
  fixes b :: "'f::field list" and a :: 'f
  assumes "len < length b"
  defines "r \<equiv> fold (\<lambda>k b. b[k := b ! (k - 1) + b ! k * a]) (rev [1..<Suc len]) b"
  shows "length r = length b \<and>
    (\<forall>i < length b. r ! i = (if 1 \<le> i \<and> i \<le> len then b ! (i - 1) + b ! i * a else b ! i))"
  using assms(1) unfolding r_def
proof (induction len arbitrary: b)
  case 0
  then show ?case by simp
next
  case (Suc len)
  let ?b = "b[Suc len := b ! len + b ! Suc len * a]"
  have s: "rev [1..<Suc (Suc len)] = Suc len # rev [1..<Suc len]" by simp
  have len: "len < length ?b" using Suc(2) by simp
  note IH = Suc.IH [OF len]
  show ?case
  proof (intro conjI allI impI)
    show "length (fold (\<lambda>k b. b[k := b ! (k - 1) + b ! k * a]) (rev [1..<Suc (Suc len)]) b) = length b"
      unfolding s using IH by simp
    fix i assume "i < length b"
    then have "fold (\<lambda>k b. b[k := b ! (k - 1) + b ! k * a]) (rev [1..<Suc (Suc len)]) b ! i =
        (if 1 \<le> i \<and> i \<le> len then ?b ! (i - 1) + ?b ! i * a else ?b ! i)"
      unfolding s using IH by simp
    also have "\<dots> = (if 1 \<le> i \<and> i \<le> Suc len then b ! (i - 1) + b ! i * a else b ! i)"
      using Suc(2) by (cases "i = Suc len") (auto simp: nth_list_update)
    finally show "fold (\<lambda>k b. b[k := b ! (k - 1) + b ! k * a]) (rev [1..<Suc (Suc len)]) b ! i =
        (if 1 \<le> i \<and> i \<le> Suc len then b ! (i - 1) + b ! i * a else b ! i)" .
  qed
qed

lemma times_linear_evaluate:
  fixes b :: "'f::field list"
  assumes "len < length b" "0 < len" "\<And>i. len \<le> i \<Longrightarrow> up_coeff b i = 0"
  shows "length (times_linear len a b) = length b"
    "\<And>i. Suc len \<le> i \<Longrightarrow> up_coeff (times_linear len a b) i = 0"
    "up_evaluate (times_linear len a b) x = (x + a) * up_evaluate b x"
proof -
  note f = times_linear_fold [OF assms(1), of a]
  have c: "up_coeff (times_linear len a b) i = up_coeff (0 # b) i + a * up_coeff b i" for i
  proof (cases "i < length b")
    case True
    have "b ! i = 0 \<and> b ! (i - 1) = 0" if "len < i"
    proof -
      have "len \<le> i" "len \<le> i - 1" "i - 1 < length b" using that True by auto
      then show ?thesis using assms(3) [of i] assms(3) [of "i - 1"] True by (simp add: up_coeff_def)
    qed
    then have "i \<le> len \<or> b ! i = 0 \<and> b ! (i - 1) = 0" by linarith
    then show ?thesis using f True assms(1,2)
      by (cases i) (auto simp: times_linear_def Let_def up_coeff_def nth_list_update simp del: upt_Suc)
  next
    case False
    then have "up_coeff (0 # b) i = 0" using assms(1) assms(3) [of "i - 1"] by (cases i) auto
    then show ?thesis using f False
      by (simp add: times_linear_def Let_def up_coeff_ge del: upt_Suc)
  qed
  show "length (times_linear len a b) = length b" using f by (simp add: times_linear_def Let_def del: upt_Suc)
  show "up_coeff (times_linear len a b) i = 0" if "Suc len \<le> i" for i
    using c [of i] assms(3) [of i] assms(3) [of "i - 1"] that by (cases i) auto
  have "up_evaluate (times_linear len a b) x = up_evaluate (0 # b) x + a * up_evaluate b x"
    by (rule up_evaluate_linear) (rule c)
  then show "up_evaluate (times_linear len a b) x = (x + a) * up_evaluate b x" by (simp add: algebra_simps)
qed

lemma scale_prefix_coeff:
  assumes "\<And>i. len \<le> i \<Longrightarrow> up_coeff b i = 0"
  shows "up_coeff (scale_prefix len a b) i = a * up_coeff b i"
  using assms [of i] by (auto simp: scale_prefix_def up_coeff_def nth_append min_def split: if_splits)

lemma up_evaluate_multiple:
  assumes "\<And>i. up_coeff r i = a * up_coeff b i"
  shows "up_evaluate r x = a * up_evaluate b x"
  using up_evaluate_linear [of r "[]" a b x] assms by simp

lemma distinct_fst:
  "distinct (map fst ps) \<Longrightarrow> i < length ps \<Longrightarrow> j < length ps \<Longrightarrow> fst (ps ! i) = fst (ps ! j) \<longleftrightarrow> i = j"
  by (metis length_map nth_eq_iff_index_eq nth_map)

lemma lagrange_basis_prefix:
  fixes points :: "('f::field \<times> 'f) list"
  assumes "distinct (map fst points)" "j < length points" "k \<le> length points"
  defines "x \<equiv> \<lambda>m. fst (points ! m)"
  shows "\<exists>b. fold (basis_step points j) [0..<k] (Some (1 # replicate (length points - 1) 0, 1)) =
      Some (b, if j < k then k else Suc k) \<and> length b = length points \<and>
      (\<forall>i \<ge> (if j < k then k else Suc k). up_coeff b i = 0) \<and>
      (\<forall>z. up_evaluate b z = (\<Prod>m \<in> {..<k} - {j}. (z - x m) / (x j - x m)))"
  using assms(3)
proof (induction k)
  case 0
  have "up_evaluate (replicate n 0 :: 'f list) z = 0" for n z by (induction n) simp_all
  then show ?case using assms(2)
    by (auto simp: up_coeff_def nth_Cons')
next
  case (Suc k)
  then obtain b where b: "fold (basis_step points j) [0..<k] (Some (1 # replicate (length points - 1) 0, 1)) =
      Some (b, if j < k then k else Suc k)" "length b = length points"
    "\<And>i. i \<ge> (if j < k then k else Suc k) \<Longrightarrow> up_coeff b i = 0"
    "\<And>z. up_evaluate b z = (\<Prod>m \<in> {..<k} - {j}. (z - x m) / (x j - x m))" by auto
  show ?case
  proof (cases "k = j")
    case True
    then have "{..<Suc k} - {j} = {..<k} - {j}" by auto
    moreover have "basis_step points j j (Some st) = Some st" for st
      by (cases st) (simp add: basis_step_def)
    ultimately show ?thesis using b True by simp
  next
    case False
    let ?len = "if j < k then k else Suc k" and ?d = "inverse (x j - x k)"
    let ?t = "times_linear ?len (- x k) b"
    have ne: "x j \<noteq> x k"
      using assms(1,2) Suc(2) False by (simp add: x_def distinct_fst)
    have len: "?len < length b" "0 < ?len" using False assms(2) Suc(2) b(2) by auto
    note t = times_linear_evaluate [OF len b(3), where a = "- x k"]
    have c: "up_coeff (scale_prefix (Suc ?len) ?d ?t) i = ?d * up_coeff ?t i" for i
      by (rule scale_prefix_coeff) (rule t(2))
    have step: "fold (basis_step points j) [0..<Suc k] (Some (1 # replicate (length points - 1) 0, 1)) =
        Some (scale_prefix (Suc ?len) ?d ?t, Suc ?len)"
    proof -
      have "basis_step points j k (Some (b, ?len)) = Some (scale_prefix (Suc ?len) ?d ?t, Suc ?len)"
        using False ne by (simp add: basis_step_def field_inverse_def x_def)
      then show ?thesis using b(1) by simp
    qed
    have "{..<Suc k} - {j} = insert k ({..<k} - {j})" using False by auto
    then have "up_evaluate (scale_prefix (Suc ?len) ?d ?t) z =
        (\<Prod>m \<in> {..<Suc k} - {j}. (z - x m) / (x j - x m))" for z
      using up_evaluate_multiple [OF c, of z] t(3) [of z] b(4) [of z] by (simp add: field_simps)
    moreover have "length (scale_prefix (Suc ?len) ?d ?t) = length points"
      using t(1) b(2) len by (simp add: scale_prefix_def)
    moreover have "Suc ?len = (if j < Suc k then Suc k else Suc (Suc k))" using False by auto
    ultimately show ?thesis using step c t(2) by auto
  qed
qed

lemma lagrange_basis_correct:
  fixes points :: "('f::field \<times> 'f) list"
  assumes "distinct (map fst points)" "j < length points"
  shows "\<exists>b. lagrange_basis points j = Some b \<and> length b = length points \<and>
    (\<forall>i < length points. up_evaluate b (fst (points ! i)) = (if i = j then 1 else 0))"
proof -
  let ?x = "\<lambda>m. fst (points ! m)" and ?n = "length points"
  obtain b where b: "lagrange_basis points j = Some b" "length b = ?n"
    "\<And>z. up_evaluate b z = (\<Prod>m \<in> {..<?n} - {j}. (z - ?x m) / (?x j - ?x m))"
    using lagrange_basis_prefix [OF assms order.refl] by (auto simp: lagrange_basis_def Let_def)
  have ne: "?x m \<noteq> ?x j" if "m < ?n" "m \<noteq> j" for m
    using assms that by (simp add: distinct_fst)
  have "up_evaluate b (?x i) = (if i = j then 1 else 0)" if i: "i < ?n" for i
  proof (cases "i = j")
    case True
    then show ?thesis unfolding b(3) using ne [symmetric] by (auto intro!: prod.neutral)
  next
    case False
    then show ?thesis unfolding b(3) using i by (auto intro!: bexI [of _ i])
  qed
  then show ?thesis using b by blast
qed

lemma interpolate_prefix:
  fixes points :: "('f::field \<times> 'f) list"
  assumes "distinct (map fst points)" "k \<le> length points"
  shows "\<exists>r. fold (interpolate_step points) [0..<k] (Some (replicate (length points) 0)) = Some r \<and>
    length r = length points \<and>
    (\<forall>i < length points. up_evaluate r (fst (points ! i)) = (if i < k then snd (points ! i) else 0))"
  using assms(2)
proof (induction k)
  case 0
  have "up_evaluate (replicate n 0 :: 'f list) z = 0" for n z by (induction n) simp_all
  then show ?case by simp
next
  case (Suc k)
  then obtain r where r: "fold (interpolate_step points) [0..<k] (Some (replicate (length points) 0)) = Some r"
    "length r = length points"
    "\<And>i. i < length points \<Longrightarrow> up_evaluate r (fst (points ! i)) = (if i < k then snd (points ! i) else 0)"
    by auto
  obtain b where b: "lagrange_basis points k = Some b" "length b = length points"
    "\<And>i. i < length points \<Longrightarrow> up_evaluate b (fst (points ! i)) = (if i = k then 1 else 0)"
    using lagrange_basis_correct [OF assms(1), of k] Suc(2) by auto
  let ?s = "map2 (\<lambda>r b. r + snd (points ! k) * b) r b"
  have "up_evaluate ?s z = up_evaluate r z + snd (points ! k) * up_evaluate b z" for z
    by (rule up_evaluate_linear) (use r(2) b(2) in \<open>simp add: up_coeff_def\<close>)
  then have "up_evaluate ?s (fst (points ! i)) = (if i < Suc k then snd (points ! i) else 0)"
    if "i < length points" for i using r(3) b(3) that by (simp add: less_Suc_eq)
  moreover have "interpolate_step points k (Some r) = Some ?s" using b(1) by (simp add: interpolate_step_def)
  ultimately show ?case using r(1,2) b(2) by simp
qed

lemma interpolate_correct:
  fixes points :: "('f::field \<times> 'f) list"
  assumes "distinct (map fst points)" "points \<noteq> []"
  shows "\<exists>p. interpolate points = Some p \<and> length p = length points \<and>
    (\<forall>(x, y) \<in> set points. up_evaluate p x = y)"
proof -
  obtain p where p: "interpolate points = Some p" "length p = length points"
    "\<And>i. i < length points \<Longrightarrow> up_evaluate p (fst (points ! i)) = snd (points ! i)"
    using interpolate_prefix [OF assms(1) order.refl] assms(2) by (auto simp: interpolate_def)
  then show ?thesis by (fastforce simp: in_set_conv_nth)
qed

section \<open>Division is correct\<close>

lemma strip_zeros_append: "\<exists>n. p = strip_zeros p @ replicate n 0"
proof -
  let ?t = "takeWhile (\<lambda>c. c = 0) (rev p)"
  have "p = strip_zeros p @ rev ?t"
    unfolding strip_zeros_def by (metis rev_append rev_rev_ident takeWhile_dropWhile_id)
  moreover have "rev ?t = replicate (length ?t) 0"
    by (rule replicate_eqI) (auto dest: set_takeWhileD)
  ultimately show ?thesis by metis
qed

lemma up_evaluate_append: "up_evaluate (p @ q) x = up_evaluate p x + x ^ length p * up_evaluate q x"
  by (induction p) (simp_all add: algebra_simps)

lemma up_evaluate_zeros [simp]: "up_evaluate (replicate n 0) x = 0"
  by (induction n) simp_all

lemma up_evaluate_strip [simp]: "up_evaluate (strip_zeros p) x = up_evaluate p x"
proof -
  obtain n where "p = strip_zeros p @ replicate n 0" using strip_zeros_append by blast
  then have "up_evaluate p x = up_evaluate (strip_zeros p @ replicate n 0) x" by simp
  then show ?thesis by (simp add: up_evaluate_append)
qed

lemma strip_zeros_last: "strip_zeros p \<noteq> [] \<Longrightarrow> last (strip_zeros p) \<noteq> 0"
  unfolding strip_zeros_def by (metis (mono_tags, lifting) Nil_is_rev_conv hd_dropWhile last_rev)

lemma strip_zeros_length: "length (strip_zeros p) \<le> length p"
  using length_dropWhile_le [of "\<lambda>c. c = 0" "rev p"] by (simp add: strip_zeros_def)

lemma strip_zeros_shorter:
  assumes "p \<noteq> []" "last p = 0"
  shows "length (strip_zeros p) < length p"
proof -
  obtain q where "p = q @ [0]" using assms by (metis append_butlast_last_id)
  then show ?thesis using strip_zeros_length [of q] by (simp add: strip_zeros_def)
qed

lemma strip_zeros_empty: "strip_zeros p = [] \<longleftrightarrow> up_is_zero p"
  by (auto simp: strip_zeros_def up_is_zero_def list_all_iff dropWhile_eq_Nil_conv)

lemma up_evaluate_update:
  assumes "k < length p"
  shows "up_evaluate (p[k := c]) x = up_evaluate p x + (c - p ! k) * x ^ k"
proof -
  have "up_coeff (p[k := c]) i = up_coeff p i + (c - p ! k) * up_coeff (replicate k 0 @ [1]) i" for i
    using assms by (auto simp: up_coeff_def nth_append nth_list_update)
  then have "up_evaluate (p[k := c]) x = up_evaluate p x + (c - p ! k) * up_evaluate (replicate k 0 @ [1]) x"
    by (rule up_evaluate_linear)
  then show ?thesis by (simp add: up_evaluate_append)
qed

text \<open>One step takes a multiple of the divisor from the remainder and adds it to the quotient.\<close>

lemma divide_step_correct:
  fixes divisor :: "'f::field list"
  assumes "divisor \<noteq> []" "last divisor \<noteq> 0" "length divisor \<le> length r"
    and "length r - length divisor < length q" "q ! (length r - length divisor) = 0"
    and "divide_step divisor (inverse (last divisor)) r q = (r', q')"
  shows "length r' < length r" "length q' = length q"
    "up_evaluate q' x * up_evaluate divisor x + up_evaluate r' x =
      up_evaluate q x * up_evaluate divisor x + up_evaluate r x"
    "i < length r - length divisor \<Longrightarrow> q' ! i = q ! i"
proof -
  let ?d = "length r - length divisor" and ?c = "last r * inverse (last divisor)"
  let ?s = "fold (\<lambda>(i, a) r. r[?d + i := r ! (?d + i) - ?c * a]) (enumerate 0 divisor) r"
  have rq: "r' = strip_zeros ?s" "q' = q[?d := ?c]" using assms(6) by (auto simp: divide_step_def Let_def)
  have b: "?d + 0 + length divisor \<le> length r" using assms(3) by simp
  note f = fold_accumulate [OF b, where f = "\<lambda>y a. y - ?c * a"]
  have s: "length ?s = length r"
    "\<And>i. i < length r \<Longrightarrow> ?s ! i = (if ?d \<le> i then r ! i - ?c * divisor ! (i - ?d) else r ! i)"
    using f assms(3) by auto
  have "up_coeff ?s i = up_coeff r i + (- ?c) * up_coeff (replicate ?d 0 @ divisor) i" for i
    using s assms(3) by (auto simp: up_coeff_def nth_append)
  then have ev: "up_evaluate ?s x = up_evaluate r x + (- ?c) * up_evaluate (replicate ?d 0 @ divisor) x"
    by (rule up_evaluate_linear)
  have "0 < length ?s" unfolding s(1) using assms(1,3) by (cases r) simp_all
  then have ne: "?s \<noteq> []" unfolding length_greater_0_conv .
  have "last ?s = 0"
  proof -
    have "r \<noteq> []" using assms(1,3) by auto
    then have "last ?s = ?s ! (length r - 1)" using last_conv_nth [OF ne] unfolding s(1) by blast
    moreover have "length r - 1 - ?d = length divisor - 1" "?d \<le> length r - 1"
    proof -
      have "0 < length divisor" "length divisor \<le> length r" using assms(1,3) by simp_all
      then show "length r - 1 - ?d = length divisor - 1" "?d \<le> length r - 1" by arith+
    qed
    moreover have "divisor ! (length divisor - 1) = last divisor" using assms(1) by (simp add: last_conv_nth)
    moreover have "length r - 1 < length r" "r ! (length r - 1) = last r"
      using \<open>r \<noteq> []\<close> by (simp_all add: last_conv_nth)
    ultimately show ?thesis using s(2) assms(2) by simp
  qed
  from strip_zeros_shorter [OF ne this] show "length r' < length r" unfolding rq s(1) .
  show "length q' = length q" by (simp add: rq)
  show "up_evaluate q' x * up_evaluate divisor x + up_evaluate r' x =
      up_evaluate q x * up_evaluate divisor x + up_evaluate r x"
    unfolding rq up_evaluate_strip ev up_evaluate_update [OF assms(4)] assms(5)
    by (simp add: up_evaluate_append algebra_simps)
  show "i < length r - length divisor \<Longrightarrow> q' ! i = q ! i" by (simp add: rq)
qed

lemma divide_loop_correct:
  fixes divisor :: "'f::field list"
  assumes "divisor \<noteq> []" "last divisor \<noteq> 0"
    and "length r + 1 \<le> length q + length divisor"
    and "\<And>i. i + length divisor \<le> length r \<Longrightarrow> q ! i = 0"
  shows "\<exists>q' r'. divide_loop divisor (inverse (last divisor)) r q = Some (q', r') \<and>
    length q' = length q \<and> (up_is_zero r' \<or> length r' < length divisor) \<and>
    (\<forall>x. up_evaluate q' x * up_evaluate divisor x + up_evaluate r' x =
      up_evaluate q x * up_evaluate divisor x + up_evaluate r x)"
  using assms(3,4)
proof (induction "length r" arbitrary: r q rule: less_induct)
  case less
  show ?case
  proof (cases "\<not> up_is_zero r \<and> length r \<ge> length divisor")
    case True
    obtain r1 q1 where s: "divide_step divisor (inverse (last divisor)) r q = (r1, q1)" by fastforce
    have b: "length divisor \<le> length r" "length r - length divisor < length q"
      "q ! (length r - length divisor) = 0"
      using True less.prems by auto
    note d = divide_step_correct [OF assms(1,2) b s]
    have l: "length r1 + 1 \<le> length q1 + length divisor" "\<And>i. i + length divisor \<le> length r1 \<Longrightarrow> q1 ! i = 0"
      using d(1,2,4) less.prems by auto
    obtain q' r' where o: "divide_loop divisor (inverse (last divisor)) r1 q1 = Some (q', r')"
      "length q' = length q1" "up_is_zero r' \<or> length r' < length divisor"
      "\<And>x. up_evaluate q' x * up_evaluate divisor x + up_evaluate r' x =
        up_evaluate q1 x * up_evaluate divisor x + up_evaluate r1 x"
      using less.hyps [OF d(1) l] by blast
    have "divide_loop divisor (inverse (last divisor)) r q = Some (q', r')"
      using True s o(1) by (simp add: divide_loop.simps)
    then show ?thesis using o(2-4) d(2,3) by simp
  next
    case False
    then have "divide_loop divisor (inverse (last divisor)) r q = Some (q, r)"
      by (subst divide_loop.simps) (simp only: if_False)
    then show ?thesis using False by auto
  qed
qed

lemma divide_with_remainder_facts:
  fixes p divisor :: "'f::field univariate_poly"
  assumes "\<not> up_is_zero divisor"
  shows "\<exists>q r. divide_with_remainder p divisor = Some (Some (q, r)) \<and>
    (\<forall>x. up_evaluate p x = up_evaluate q x * up_evaluate divisor x + up_evaluate r x) \<and>
    (up_is_zero r \<or> length r < length (strip_zeros divisor))"
proof (cases "up_is_zero p")
  case True
  then have "p = replicate (length p) 0" by (auto simp: up_is_zero_def list_all_iff intro: replicate_eqI)
  then have "up_evaluate p x = 0" for x by (metis up_evaluate_zeros)
  then show ?thesis using True by (auto simp: divide_with_remainder_def up_zero_def up_is_zero_def)
next
  case p: False
  let ?d = "strip_zeros divisor"
  have d: "?d \<noteq> []" "last ?d \<noteq> 0" using assms strip_zeros_empty strip_zeros_last by blast+
  show ?thesis
  proof (cases "length p < length ?d")
    case True
    then show ?thesis using p d by (simp add: divide_with_remainder_def Let_def up_zero_def)
  next
    case False
    let ?q = "replicate (length p - length ?d + 1) 0"
    obtain q r where l: "divide_loop ?d (inverse (last ?d)) p ?q = Some (q, r)"
      "up_is_zero r \<or> length r < length ?d"
      "\<And>x. up_evaluate q x * up_evaluate ?d x + up_evaluate r x =
        up_evaluate ?q x * up_evaluate ?d x + up_evaluate p x"
    proof -
      have "length p + 1 \<le> length ?q + length ?d" using False by simp
      moreover have "?q ! i = 0" if "i + length ?d \<le> length p" for i
        using that by (simp del: replicate_Suc add: less_Suc_eq_le)
      ultimately show thesis using divide_loop_correct [OF d, of p ?q] that by blast
    qed
    then show ?thesis using p d False l(3) [symmetric]
      by (simp add: divide_with_remainder_def Let_def del: replicate_Suc)
  qed
qed

section \<open>Products with a known linear factor\<close>

lemma linear_times_quadratic:
  assumes "l0 + l1 \<noteq> 0"
  shows "\<exists>s. from_linear_times_quadratic_with_hint (l0, l1) q0 q2
      (l0 * q0 + (l0 + l1) * (q0 + q1 + q2)) = Some s \<and>
    (\<forall>x. up_evaluate s x = (l0 + l1 * x) * (q0 + q1 * x + q2 * x ^ 2))"
proof -
  let ?h = "l0 * q0 + (l0 + l1) * (q0 + q1 + q2)"
  have "(?h - l0 * q0) * inverse (l0 + l1) - q0 - q2 = q1" using assms by (simp add: field_simps)
  then show ?thesis using assms
    by (simp add: from_linear_times_quadratic_with_hint_def field_inverse_def Let_def algebra_simps power2_eq_square)
qed

end
