(* ===== verification/Sumcheck.thy ===== *)
theory Sumcheck
  imports Prelude Univariate_Poly
begin

text \<open>
  The crate \<^verbatim>\<open>jolt-sumcheck\<close>: claims, round messages, round domains, the verifier and
  the batched prover, over any field. The transcript is a parameter: a hash-based state the code
  appends to and draws challenges from.
\<close>

section \<open>Errors, claims, transcript\<close>

datatype 'f sumcheck_error =
    RoundCheckFailed nat 'f 'f
  | DegreeBoundExceeded nat nat
  | ZeroBatchDegree nat
  | CompressedPolynomialTooShort nat nat
  | RoundSumCoefficientCountMismatch nat nat nat
  | InvalidIntegerDomain nat
  | WrongNumberOfRounds nat nat
  | EmptyRoundCoefficients
  | MissingEvaluationSource string
  | ZeroCommitmentCapacity
  | RoundExceedsCommitmentCapacity nat nat
  | BatchMemberCountMismatch nat nat
  | BatchMemberRoundsMismatch nat nat nat
  | BatchMemberWindowOutOfRange nat nat nat nat
  | MissingRoundMessage nat
  | RoundMemberIndexOutOfRange nat nat
  | WrongProofEncoding string string
  | BatchedPointRangeOverflow nat nat
  | BatchedPointOutOfRange nat nat nat
  | Sumcheck_Panicked

record 'f evaluation_claim =
  ec_point :: "'f list"
  ec_value :: 'f

record sumcheck_statement =
  ss_num_vars :: nat
  ss_degree :: nat

record 'f sumcheck_claim =
  sc_num_vars :: nat
  sc_degree :: nat
  sc_claimed_sum :: 'f

text \<open>The constructors panic on degree 0.\<close>

definition statement_new :: "nat \<Rightarrow> nat \<Rightarrow> sumcheck_statement option" where
  "statement_new num_vars degree =
     (if degree \<ge> 1 then Some \<lparr>ss_num_vars = num_vars, ss_degree = degree\<rparr> else None)"

definition claim_new :: "nat \<Rightarrow> nat \<Rightarrow> 'f \<Rightarrow> 'f sumcheck_claim option" where
  "claim_new num_vars degree claimed_sum =
     (if degree \<ge> 1
      then Some \<lparr>sc_num_vars = num_vars, sc_degree = degree, sc_claimed_sum = claimed_sum\<rparr> else None)"

text \<open>\<^verbatim>\<open>Transcript\<close>: append a label with a count, append a scalar, append a labelled scalar,
  draw a challenge.\<close>

record ('t, 'f) transcript_ops =
  append_label_count :: "'t \<Rightarrow> string \<Rightarrow> nat \<Rightarrow> 't"
  append_scalar :: "'t \<Rightarrow> 'f \<Rightarrow> 't"
  append_labeled :: "'t \<Rightarrow> string \<Rightarrow> 'f \<Rightarrow> 't"
  draw_challenge :: "'t \<Rightarrow> 'f \<times> 't"

definition SUMCHECK_ROUND_TRANSCRIPT_LABEL :: string where
  "SUMCHECK_ROUND_TRANSCRIPT_LABEL = ''sumcheck_poly''"
definition UNISKIP_ROUND_TRANSCRIPT_LABEL :: string where
  "UNISKIP_ROUND_TRANSCRIPT_LABEL = ''uniskip_poly''"
definition SUMCHECK_CLAIM_TRANSCRIPT_LABEL :: string where
  "SUMCHECK_CLAIM_TRANSCRIPT_LABEL = ''sumcheck_claim''"
definition OPENING_CLAIM_TRANSCRIPT_LABEL :: string where
  "OPENING_CLAIM_TRANSCRIPT_LABEL = ''opening_claim''"

section \<open>Round messages\<close>

datatype 'f clear_round =
    Poly_Round "'f univariate_poly"
  | Labeled_Round "'f univariate_poly" string
  | Compressed_Labeled_Round "'f univariate_poly" string

fun round_poly :: "'f clear_round \<Rightarrow> 'f univariate_poly" where
  "round_poly (Poly_Round p) = p"
| "round_poly (Labeled_Round p _) = p"
| "round_poly (Compressed_Labeled_Round p _) = p"

definition round_degree :: "'f clear_round \<Rightarrow> nat" where
  "round_degree r = up_degree (round_poly r)"

definition append_scalars :: "('t, 'f) transcript_ops \<Rightarrow> 'f list \<Rightarrow> 't \<Rightarrow> 't" where
  "append_scalars ops cs t = fold (\<lambda>c t. append_scalar ops t c) cs t"

fun round_append :: "('t, 'f) transcript_ops \<Rightarrow> 'f clear_round \<Rightarrow> 't \<Rightarrow> 't" where
  "round_append ops (Poly_Round p) t = append_scalars ops p t"
| "round_append ops (Labeled_Round p label) t =
     append_scalars ops p (append_label_count ops t label (length p))"
| "round_append ops (Compressed_Labeled_Round p label) t =
     (case p of
        [] \<Rightarrow> t
      | constant # rest \<Rightarrow>
          append_scalars ops (drop 1 rest)
            (append_scalar ops (append_label_count ops t label (length p - 1)) constant))"

definition round_evaluate :: "'f::field clear_round \<Rightarrow> 'f \<Rightarrow> 'f" where
  "round_evaluate r x = up_evaluate (round_poly r) x"

definition coefficient_linear_combination :: "'f::field clear_round \<Rightarrow> 'f list \<Rightarrow> 'f" where
  "coefficient_linear_combination r coefficients = sum_list (map2 (*) (round_poly r) coefficients)"

fun check_round_well_formed :: "'f clear_round \<Rightarrow> nat \<Rightarrow> 'f sumcheck_error + unit" where
  "check_round_well_formed (Compressed_Labeled_Round p _) round =
     (if length p < 2 then Inl (CompressedPolynomialTooShort round (length p)) else Inr ())"
| "check_round_well_formed _ round = Inr ()"

section \<open>Round domains\<close>

datatype centered_integer_domain_error =
    EmptyDomain
  | DomainTooLarge nat
  | PowerSumOverflow nat nat

definition checked_i64 :: "int \<Rightarrow> int option" where
  "checked_i64 x = (if - (2 ^ 63) \<le> x \<and> x < 2 ^ 63 then Some x else None)"

definition checked_i128 :: "int \<Rightarrow> int option" where
  "checked_i128 x = (if - (2 ^ 127) \<le> x \<and> x < 2 ^ 127 then Some x else None)"

definition centered_domain_start :: "nat \<Rightarrow> centered_integer_domain_error + int" where
  "centered_domain_start domain_size =
     (if domain_size = 0 then Inl EmptyDomain
      else if domain_size > 2 ^ 63 - 1 then Inl (DomainTooLarge domain_size)
      else Inr (- int ((domain_size - 1) div 2)))"

text \<open>The inner loop: the powers of one point added to the sums.\<close>

fun add_powers ::
  "nat \<Rightarrow> nat \<Rightarrow> int \<Rightarrow> nat \<Rightarrow> int \<Rightarrow> int list \<Rightarrow> centered_integer_domain_error + int list"
where
  "add_powers domain_size num_powers t k pow [] = Inr []"
| "add_powers domain_size num_powers t k pow (s # sums) =
     bind_res (ok_or (checked_i128 (s + pow)) (PowerSumOverflow domain_size k)) (\<lambda>s.
     bind_res
       (if k + 1 < num_powers
        then ok_or (checked_i128 (pow * t)) (PowerSumOverflow domain_size (k + 1))
        else Inr pow) (\<lambda>pow.
     bind_res (add_powers domain_size num_powers t (k + 1) pow sums) (\<lambda>sums.
     Inr (s # sums))))"

fun sum_powers ::
  "nat \<Rightarrow> nat \<Rightarrow> int \<Rightarrow> nat list \<Rightarrow> int list \<Rightarrow> centered_integer_domain_error + int list"
where
  "sum_powers domain_size num_powers start [] sums = Inr sums"
| "sum_powers domain_size num_powers start (offset # offsets) sums =
     bind_res (ok_or (checked_i64 (int offset)) (DomainTooLarge domain_size)) (\<lambda>offset.
     bind_res (ok_or (checked_i64 (start + offset)) (DomainTooLarge domain_size)) (\<lambda>t.
     bind_res (add_powers domain_size num_powers t 0 1 sums) (\<lambda>sums.
     sum_powers domain_size num_powers start offsets sums)))"

definition centered_power_sums :: "nat \<Rightarrow> nat \<Rightarrow> centered_integer_domain_error + int list" where
  "centered_power_sums domain_size num_powers =
     bind_res (centered_domain_start domain_size) (\<lambda>start.
     if num_powers = 0 then Inr []
     else sum_powers domain_size num_powers start [0..<domain_size] (replicate num_powers 0))"

datatype sumcheck_domain_spec = BooleanHypercube | CenteredInteger nat

fun round_sum_coefficients ::
  "sumcheck_domain_spec \<Rightarrow> nat \<Rightarrow> 'f::field sumcheck_error + 'f list"
where
  "round_sum_coefficients BooleanHypercube degree = Inr (2 # replicate degree 1)"
| "round_sum_coefficients (CenteredInteger domain_size) degree =
     (case centered_power_sums domain_size (degree + 1) of
        Inl _ \<Rightarrow> Inl (InvalidIntegerDomain domain_size)
      | Inr sums \<Rightarrow> Inr (map of_int sums))"

definition check_round_sum ::
  "sumcheck_domain_spec \<Rightarrow> nat \<Rightarrow> 'f::field \<Rightarrow> 'f clear_round \<Rightarrow> 'f sumcheck_error + unit"
where
  "check_round_sum domain round_index running_sum round =
     bind_res (check_round_well_formed round round_index) (\<lambda>_.
     bind_res (round_sum_coefficients domain (round_degree round)) (\<lambda>coefficients.
     let expected = round_degree round + 1 in
     if length coefficients \<noteq> expected
     then Inl (RoundSumCoefficientCountMismatch round_index expected (length coefficients))
     else
       let actual = coefficient_linear_combination round coefficients in
       if actual \<noteq> running_sum then Inl (RoundCheckFailed round_index running_sum actual) else Inr ()))"

section \<open>The verifier\<close>

text \<open>The loop of \<^verbatim>\<open>verify\<close> from round \<open>k\<close>: challenges, final running sum, transcript.\<close>

fun verify_rounds ::
  "('t, 'f::field) transcript_ops \<Rightarrow> sumcheck_domain_spec \<Rightarrow> nat \<Rightarrow> nat \<Rightarrow> 'f \<Rightarrow>
    'f clear_round list \<Rightarrow> 't \<Rightarrow> 'f sumcheck_error + 'f list \<times> 'f \<times> 't"
where
  "verify_rounds ops domain max_degree k running_sum [] t = Inr ([], running_sum, t)"
| "verify_rounds ops domain max_degree k running_sum (round # rounds) t =
     (if round_degree round > max_degree
      then Inl (DegreeBoundExceeded (round_degree round) max_degree)
      else
        bind_res (check_round_sum domain k running_sum round) (\<lambda>_.
        let (r, t) = draw_challenge ops (round_append ops round t) in
        bind_res (verify_rounds ops domain max_degree (Suc k) (round_evaluate round r) rounds t)
          (\<lambda>(challenges, final, t). Inr (r # challenges, final, t))))"

definition sumcheck_verify ::
  "('t, 'f::field) transcript_ops \<Rightarrow> 'f sumcheck_claim \<Rightarrow> 'f clear_round list \<Rightarrow> sumcheck_domain_spec \<Rightarrow> 't \<Rightarrow>
    'f sumcheck_error + 'f evaluation_claim \<times> 't"
where
  "sumcheck_verify ops claim round_proofs domain t =
     (if length round_proofs \<noteq> sc_num_vars claim
      then Inl (WrongNumberOfRounds (sc_num_vars claim) (length round_proofs))
      else
        bind_res (verify_rounds ops domain (sc_degree claim) 0 (sc_claimed_sum claim) round_proofs t)
          (\<lambda>(challenges, final, t). Inr (\<lparr>ec_point = challenges, ec_value = final\<rparr>, t)))"

text \<open>The compressed rounds carry no sum to check: the running sum is the hint.\<close>

fun verify_compressed_rounds ::
  "('t, 'f::field) transcript_ops \<Rightarrow> string \<Rightarrow> nat \<Rightarrow> nat \<Rightarrow> 'f \<Rightarrow>
    'f compressed_poly list \<Rightarrow> 't \<Rightarrow> 'f sumcheck_error + 'f list \<times> 'f \<times> 't"
where
  "verify_compressed_rounds ops label max_degree k running_sum [] t = Inr ([], running_sum, t)"
| "verify_compressed_rounds ops label max_degree k running_sum (round # rounds) t =
     (if cp_degree round > max_degree
      then Inl (DegreeBoundExceeded (cp_degree round) max_degree)
      else if round = [] then Inl (CompressedPolynomialTooShort k 0)
      else
        let (r, t) = draw_challenge ops
              (append_scalars ops round (append_label_count ops t label (length round))) in
        case evaluate_with_hint round running_sum r of
          None \<Rightarrow> Inl Sumcheck_Panicked
        | Some running_sum \<Rightarrow>
            bind_res (verify_compressed_rounds ops label max_degree (Suc k) running_sum rounds t)
              (\<lambda>(challenges, final, t). Inr (r # challenges, final, t)))"

definition verify_compressed ::
  "('t, 'f::field) transcript_ops \<Rightarrow> 'f sumcheck_claim \<Rightarrow> 'f compressed_poly list \<Rightarrow> string \<Rightarrow> 't \<Rightarrow>
    'f sumcheck_error + 'f evaluation_claim \<times> 't"
where
  "verify_compressed ops claim round_polynomials label t =
     (if length round_polynomials \<noteq> sc_num_vars claim
      then Inl (WrongNumberOfRounds (sc_num_vars claim) (length round_polynomials))
      else
        bind_res (verify_compressed_rounds ops label (sc_degree claim) 0 (sc_claimed_sum claim)
            round_polynomials t)
          (\<lambda>(challenges, final, t). Inr (\<lparr>ec_point = challenges, ec_value = final\<rparr>, t)))"

end
