(* ===== verification/Sumcheck_Correct.thy ===== *)
theory Sumcheck_Correct
  imports Sumcheck
begin

text \<open>
  Completeness and soundness of the sumcheck verifier, and the equivalence of its full and
  compressed forms.
\<close>

section \<open>Sums over the round domain\<close>

definition centered_points :: "nat \<Rightarrow> int list" where
  "centered_points n = map (\<lambda>i. int i - int ((n - 1) div 2)) [0..<n]"

fun domain_points :: "sumcheck_domain_spec \<Rightarrow> 'f::field list" where
  "domain_points BooleanHypercube = [0, 1]"
| "domain_points (CenteredInteger n) = map of_int (centered_points n)"

lemma checked_SomeD: "checked_i128 x = Some y \<Longrightarrow> y = x" "checked_i64 x = Some y \<Longrightarrow> y = x"
  by (simp_all add: checked_i128_def checked_i64_def split: if_splits)

lemma add_powers_nth:
  assumes "add_powers n num t k pow sums = Inr out" "k + length sums \<le> num"
  shows "length out = length sums \<and> (\<forall>j < length sums. out ! j = sums ! j + pow * t ^ j)"
  using assms
proof (induction sums arbitrary: k pow out)
  case Nil
  then show ?case by simp
next
  case (Cons s sums)
  obtain pow' out' where o: "k + 1 < num \<longrightarrow> pow' = pow * t"
    "add_powers n num t (k + 1) pow' sums = Inr out'" "out = (s + pow) # out'"
    using Cons(2) by (auto simp: ok_or_eq_Inr dest!: checked_SomeD elim!: bind_res_InrE split: if_splits)
  have "length out' = length sums \<and> (\<forall>j < length sums. out' ! j = sums ! j + pow' * t ^ j)"
    using Cons.IH [OF o(2)] Cons(3) by simp
  moreover have "sums \<noteq> [] \<longrightarrow> pow' = pow * t" using o(1) Cons(3) by (cases sums) auto
  ultimately show ?case using o(3) by (auto simp: nth_Cons split: nat.splits)
qed

lemma sum_powers_nth:
  assumes "sum_powers n num start offsets sums = Inr out" "length sums = num"
  shows "length out = num \<and>
    (\<forall>j < num. out ! j = sums ! j + (\<Sum>i \<leftarrow> offsets. (start + int i) ^ j))"
  using assms
proof (induction offsets arbitrary: sums)
  case Nil
  then show ?case by simp
next
  case (Cons i offsets)
  obtain sums' where s: "add_powers n num (start + int i) 0 1 sums = Inr sums'"
    "sum_powers n num start offsets sums' = Inr out"
    using Cons(2) by (auto simp: ok_or_eq_Inr dest!: checked_SomeD elim!: bind_res_InrE)
  have a: "length sums' = num" "\<And>j. j < num \<Longrightarrow> sums' ! j = sums ! j + (start + int i) ^ j"
    using add_powers_nth [OF s(1)] Cons(3) by simp_all
  show ?case using Cons.IH [OF s(2) a(1)] a(2) by simp
qed

text \<open>The power sums are those of the points of the domain.\<close>

lemma centered_power_sums_correct:
  assumes "centered_power_sums n num = Inr sums"
  shows "length sums = num \<and> (\<forall>j < num. sums ! j = (\<Sum>x \<leftarrow> centered_points n. x ^ j))"
proof -
  obtain start where st: "start = - int ((n - 1) div 2)"
    "num = 0 \<and> sums = [] \<or> sum_powers n num start [0..<n] (replicate num 0) = Inr sums"
    using assms by (auto simp: centered_power_sums_def centered_domain_start_def elim!: bind_res_InrE split: if_splits)
  have "map (\<lambda>i. (start + int i) ^ j) [0..<n] = map (\<lambda>x. x ^ j) (centered_points n)" for j
    by (simp add: centered_points_def st(1) o_def algebra_simps)
  then show ?thesis using st(2) sum_powers_nth [of n num start "[0..<n]" "replicate num 0" sums] by auto
qed

lemma sum_list_map2_powers:
  fixes p :: "'f::field list"
  assumes "length cs = length p" "\<And>j. j < length p \<Longrightarrow> cs ! j = (\<Sum>x \<leftarrow> xs. x ^ j)"
  shows "sum_list (map2 (*) p cs) = (\<Sum>x \<leftarrow> xs. up_evaluate p x)"
proof -
  have "sum_list (map2 (*) p cs) = (\<Sum>j < length p. p ! j * cs ! j)"
    using assms(1) by (simp add: sum_list_sum_nth atLeast0LessThan)
  also have "\<dots> = (\<Sum>j < length p. \<Sum>x \<leftarrow> xs. up_coeff p j * x ^ j)"
    using assms(2) by (simp add: up_coeff_def sum_list_const_mult)
  also have "\<dots> = (\<Sum>x \<leftarrow> xs. \<Sum>j < length p. up_coeff p j * x ^ j)"
    by (induction xs) (simp_all add: sum.distrib)
  also have "\<dots> = (\<Sum>x \<leftarrow> xs. up_evaluate p x)"
    by (simp add: up_evaluate_sum [of p "length p"])
  finally show ?thesis .
qed

lemma round_sum_coefficients_correct:
  fixes p :: "'f::field list"
  assumes "round_sum_coefficients domain (up_degree p) = Inr cs"
  shows "sum_list (map2 (*) p cs) = (\<Sum>x \<leftarrow> domain_points domain. up_evaluate p x)"
    and "length cs = up_degree p + 1"
proof -
  have "length cs = up_degree p + 1 \<and>
    (\<forall>j < up_degree p + 1. cs ! j = (\<Sum>x \<leftarrow> domain_points domain. x ^ j))"
  proof (cases domain)
    case BooleanHypercube
    then show ?thesis using assms by (auto simp: nth_Cons' power_0_left)
  next
    case (CenteredInteger n)
    then obtain sums where s: "centered_power_sums n (up_degree p + 1) = Inr sums" "cs = map of_int sums"
      using assms by (auto split: sum.splits)
    have "(of_int (\<Sum>x \<leftarrow> xs. x ^ j) :: 'f) = (\<Sum>x \<leftarrow> map of_int xs. x ^ j)" for xs j
      by (induction xs) simp_all
    then show ?thesis using centered_power_sums_correct [OF s(1)] s(2) CenteredInteger by simp
  qed
  then have len: "length cs = up_degree p + 1"
    and nth: "\<And>j. j < up_degree p + 1 \<Longrightarrow> cs ! j = (\<Sum>x \<leftarrow> domain_points domain. x ^ j)" by blast+
  show "length cs = up_degree p + 1" by (rule len)
  show "sum_list (map2 (*) p cs) = (\<Sum>x \<leftarrow> domain_points domain. up_evaluate p x)"
  proof (cases "p = []")
    case False
    then show ?thesis using sum_list_map2_powers [of cs p] len nth by (simp add: up_degree_def)
  qed (simp add: sum_list_triv)
qed

lemma check_round_sum_iff:
  fixes r :: "'f::field clear_round" and cs :: "'f list"
  assumes "round_sum_coefficients domain (round_degree r) = Inr cs"
  shows "check_round_sum domain k s r = Inr () \<longleftrightarrow> check_round_well_formed r k = Inr () \<and>
    (\<Sum>x \<leftarrow> domain_points domain. round_evaluate r x) = s"
  using round_sum_coefficients_correct [of domain "round_poly r" cs] assms
  by (auto simp: check_round_sum_def round_degree_def coefficient_linear_combination_def round_evaluate_def
      Let_def elim!: bind_res_InrE)

lemma check_round_sum_InrD:
  fixes r :: "'f::field clear_round"
  assumes "check_round_sum domain k s r = Inr ()"
  shows "(\<Sum>x \<leftarrow> domain_points domain. round_evaluate r x) = s"
proof -
  obtain cs :: "'f list" where "round_sum_coefficients domain (round_degree r) = Inr cs"
    using assms by (cases "round_sum_coefficients domain (round_degree r) :: 'f sumcheck_error + 'f list")
      (auto simp: check_round_sum_def result_simps)
  then show ?thesis using check_round_sum_iff assms by blast
qed

section \<open>The sum of a function over the domain's grid\<close>

fun grid_sum :: "'f::field list \<Rightarrow> nat \<Rightarrow> ('f list \<Rightarrow> 'f) \<Rightarrow> 'f" where
  "grid_sum H 0 g = g []"
| "grid_sum H (Suc n) g = (\<Sum>x \<leftarrow> H. grid_sum H n (\<lambda>xs. g (x # xs)))"

text \<open>\<open>g\<close> is of degree at most \<open>d\<close> in each of its first \<open>n\<close> variables.\<close>

fun individual_degree :: "nat \<Rightarrow> nat \<Rightarrow> ('f::field list \<Rightarrow> 'f) \<Rightarrow> bool" where
  "individual_degree d 0 g \<longleftrightarrow> True"
| "individual_degree d (Suc n) g \<longleftrightarrow>
     (\<forall>xs. length xs = n \<longrightarrow> (\<exists>p. length p \<le> Suc d \<and> (\<forall>x. g (x # xs) = up_evaluate p x))) \<and>
     (\<forall>x. individual_degree d n (\<lambda>xs. g (x # xs)))"

lemma length_up_add: "length (up_add p q) = max (length p) (length q)"
  by (simp add: up_add_def add_into_def)

lemma sum_list_poly:
  assumes "\<And>y. y \<in> set H \<Longrightarrow> \<exists>p. length p \<le> Suc d \<and> (\<forall>x. f y x = up_evaluate p x)"
  shows "\<exists>p. length p \<le> Suc d \<and> (\<forall>x. (\<Sum>y \<leftarrow> H. f y x) = up_evaluate p x)"
  using assms
proof (induction H)
  case Nil
  then show ?case by (intro exI [of _ "[]"]) simp
next
  case (Cons y H)
  obtain p q where "length p \<le> Suc d" "\<And>x. f y x = up_evaluate p x"
    "length q \<le> Suc d" "\<And>x. (\<Sum>y \<leftarrow> H. f y x) = up_evaluate q x"
    using Cons.prems [of y] Cons.IH [OF Cons.prems] by auto
  then show ?case
    by (intro exI [of _ "up_add p q"]) (simp add: up_evaluate_arith length_up_add)
qed

lemma grid_sum_poly:
  assumes "\<And>xs. length xs = n \<Longrightarrow> \<exists>p. length p \<le> Suc d \<and> (\<forall>x. g x xs = up_evaluate p x)"
  shows "\<exists>p. length p \<le> Suc d \<and> (\<forall>x. grid_sum H n (g x) = up_evaluate p x)"
  using assms
proof (induction n arbitrary: g)
  case 0
  then show ?case by simp
next
  case (Suc n)
  have "\<exists>p. length p \<le> Suc d \<and> (\<forall>x. (\<Sum>y \<leftarrow> H. grid_sum H n (\<lambda>xs. g x (y # xs))) = up_evaluate p x)"
    by (rule sum_list_poly) (rule Suc.IH, use Suc.prems in simp)
  then show ?case by simp
qed

section \<open>Soundness\<close>

text \<open>A prover that sees the challenges drawn so far, and a transcript whose challenges are given:
  the interactive protocol.\<close>

definition prover_rounds :: "('f list \<Rightarrow> 'f clear_round) \<Rightarrow> nat \<Rightarrow> 'f list \<Rightarrow> 'f clear_round list" where
  "prover_rounds prover n rs = map (\<lambda>i. prover (take i rs)) [0..<n]"

definition coin_ops :: "('f::zero list, 'f) transcript_ops" where
  "coin_ops = \<lparr>append_label_count = \<lambda>t _ _. t, append_scalar = \<lambda>t _. t, append_labeled = \<lambda>t _ _. t,
     draw_challenge = \<lambda>t. (case t of [] \<Rightarrow> (0, []) | r # rs \<Rightarrow> (r, rs))\<rparr>"

lemma coin_append [simp]: "round_append coin_ops round t = t"
proof -
  have "append_scalars coin_ops cs t = t" for cs
    by (induction cs) (simp_all add: append_scalars_def coin_ops_def)
  then show ?thesis by (cases round) (auto simp: coin_ops_def append_scalars_def split: list.splits)
qed

lemma coin_draw [simp]: "draw_challenge coin_ops (r # rs) = (r, rs)"
  by (simp add: coin_ops_def)

lemma prover_rounds_Suc:
  "prover_rounds prover (Suc n) (r # rs) = prover [] # prover_rounds (\<lambda>xs. prover (r # xs)) n rs"
proof -
  have "[0..<Suc n] = 0 # map Suc [0..<n]" by (simp only: upt_conv_Cons zero_less_Suc map_Suc_upt)
  then show ?thesis unfolding prover_rounds_def by simp
qed

text \<open>The challenges on which a prover gets the verifier to accept the value \<open>g\<close> takes at the
  point drawn.\<close>

definition accepted ::
  "sumcheck_domain_spec \<Rightarrow> nat \<Rightarrow> nat \<Rightarrow> 'f::field \<Rightarrow> ('f list \<Rightarrow> 'f clear_round) \<Rightarrow> ('f list \<Rightarrow> 'f) \<Rightarrow> nat \<Rightarrow>
    'f list set"
where
  "accepted domain d k s prover g n =
     {rs. length rs = n \<and>
       (\<exists>t. verify_rounds coin_ops domain d k s (prover_rounds prover n rs) rs = Inr (rs, g rs, t))}"

lemma accepted_Suc:
  assumes "r # rs \<in> accepted domain d k s prover g (Suc n)"
  shows "round_degree (prover []) \<le> d" "check_round_sum domain k s (prover []) = Inr ()"
    "rs \<in> accepted domain d (Suc k) (round_evaluate (prover []) r) (\<lambda>xs. prover (r # xs)) (\<lambda>xs. g (r # xs)) n"
  using assms by (auto simp: accepted_def prover_rounds_Suc elim!: bind_res_InrE split: if_splits prod.splits)

lemma card_Cons_bounded:
  fixes A :: "'f::finite list set"
  assumes "\<And>r. r \<notin> B \<Longrightarrow> card {rs. r # rs \<in> A} \<le> c" "\<And>rs. rs \<in> A \<Longrightarrow> length rs = Suc n"
    and "card B \<le> d"
  shows "card A \<le> d * CARD('f) ^ n + CARD('f) * c"
proof -
  let ?S = "\<lambda>r. {rs. r # rs \<in> A}"
  have fin: "finite (?S r)" for r
    by (rule finite_subset [of _ "{rs. length rs = n}"])
      (use assms(2) [of "r # _"] in \<open>auto simp: finite_lists_length_eq [of UNIV n, simplified]\<close>)
  have "A = (\<Union>r. (#) r ` ?S r)"
  proof
    show "A \<subseteq> (\<Union>r. (#) r ` ?S r)"
    proof
      fix xs assume xs: "xs \<in> A"
      then obtain r rs where "xs = r # rs" using assms(2) by (cases xs) fastforce+
      then show "xs \<in> (\<Union>r. (#) r ` ?S r)" using xs by auto
    qed
  qed auto
  then have "card A \<le> (\<Sum>r \<in> UNIV. card ((#) r ` ?S r))" using card_UN_le [of UNIV "\<lambda>r. (#) r ` ?S r"] by simp
  also have "\<dots> = (\<Sum>r \<in> UNIV. card (?S r))" by (simp add: card_image)
  also have "\<dots> = (\<Sum>r \<in> B. card (?S r)) + (\<Sum>r \<in> - B. card (?S r))"
    by (subst sum.union_disjoint [symmetric]) (auto simp: Compl_partition)
  also have "\<dots> \<le> (\<Sum>r \<in> B. CARD('f) ^ n) + (\<Sum>r \<in> - B. c)"
  proof (rule add_mono)
    have "card (?S r) \<le> CARD('f) ^ n" for r
    proof -
      have "card (?S r) \<le> card {rs :: 'f list. length rs = n}"
        using assms(2) [of "r # _"] by (intro card_mono) (auto simp: finite_lists_length_eq [of UNIV n, simplified])
      then show ?thesis using card_lists_length_eq [of "UNIV :: 'f set" n] by simp
    qed
    then show "(\<Sum>r \<in> B. card (?S r)) \<le> (\<Sum>r \<in> B. CARD('f) ^ n)" by (rule sum_mono)
    show "(\<Sum>r \<in> - B. card (?S r)) \<le> (\<Sum>r \<in> - B. c)" by (rule sum_mono) (use assms(1) in simp)
  qed
  also have "\<dots> \<le> d * CARD('f) ^ n + CARD('f) * c"
    using assms(3) card_mono [of UNIV "- B"] by (intro add_mono) simp_all
  finally show ?thesis .
qed

lemma accepted_bound:
  fixes g :: "'f::{field, finite} list \<Rightarrow> 'f"
  assumes "individual_degree d n g" "s \<noteq> grid_sum (domain_points domain) n g"
  shows "card (accepted domain d k s prover g n) \<le> n * d * CARD('f) ^ (n - 1)"
  using assms
proof (induction n arbitrary: k s prover g)
  case 0
  then have "accepted domain d k s prover g 0 = {}" by (auto simp: accepted_def prover_rounds_def)
  then show ?case by simp
next
  case (Suc n)
  let ?H = "domain_points domain :: 'f list" and ?p = "round_poly (prover [])"
  show ?case
  proof (cases "round_degree (prover []) \<le> d \<and> check_round_sum domain k s (prover []) = Inr ()")
    case False
    have "\<not> rs \<in> accepted domain d k s prover g (Suc n)" for rs
      using accepted_Suc(1,2) False by (cases rs) (fastforce simp: accepted_def)+
    then have "accepted domain d k s prover g (Suc n) = {}" by blast
    then show ?thesis by simp
  next
    case True
    have lp: "length ?p \<le> Suc d" using True by (auto simp: round_degree_def up_degree_def split: if_splits)
    obtain h where h: "length h \<le> Suc d" "\<And>x. grid_sum ?H n (\<lambda>xs. g (x # xs)) = up_evaluate h x"
      using grid_sum_poly [of n d "\<lambda>x xs. g (x # xs)" ?H] Suc.prems(1) by auto
    have "(\<Sum>x \<leftarrow> ?H. up_evaluate ?p x) = s"
      using check_round_sum_InrD True by (auto simp: round_evaluate_def)
    then have "(\<Sum>x \<leftarrow> ?H. up_evaluate ?p x) \<noteq> (\<Sum>x \<leftarrow> ?H. up_evaluate h x)"
      using Suc.prems(2) h(2) by simp
    then obtain y where y: "up_evaluate ?p y \<noteq> up_evaluate h y"
      by (metis (no_types, lifting) map_eq_conv)
    let ?B = "{x. up_evaluate ?p x = up_evaluate h x}"
    have B: "card ?B \<le> d" using up_agree_bound [OF lp h(1) y] by blast
    have rest: "card {rs. r # rs \<in> accepted domain d k s prover g (Suc n)} \<le> n * d * CARD('f) ^ (n - 1)"
      if "r \<notin> ?B" for r
    proof -
      let ?A = "accepted domain d (Suc k) (round_evaluate (prover []) r) (\<lambda>xs. prover (r # xs)) (\<lambda>xs. g (r # xs)) n"
      have "round_evaluate (prover []) r \<noteq> grid_sum ?H n (\<lambda>xs. g (r # xs))"
        using that h(2) by (simp add: round_evaluate_def)
      then have "card ?A \<le> n * d * CARD('f) ^ (n - 1)" using Suc.prems(1) by (intro Suc.IH) simp_all
      moreover have "card {rs. r # rs \<in> accepted domain d k s prover g (Suc n)} \<le> card ?A"
      proof (rule card_mono)
        show "{rs. r # rs \<in> accepted domain d k s prover g (Suc n)} \<subseteq> ?A" using accepted_Suc(3) by blast
        have "?A \<subseteq> {rs. length rs = n}" by (auto simp: accepted_def)
        then show "finite ?A" using finite_lists_length_eq [of "UNIV :: 'f set" n] finite_subset by fastforce
      qed
      ultimately show ?thesis by simp
    qed
    have "card (accepted domain d k s prover g (Suc n)) \<le>
        d * CARD('f) ^ n + CARD('f) * (n * d * CARD('f) ^ (n - 1))"
      by (rule card_Cons_bounded [OF rest _ B]) (auto simp: accepted_def)
    also have "\<dots> = Suc n * d * CARD('f) ^ (Suc n - 1)" by (cases n) (simp_all add: algebra_simps)
    finally show ?thesis .
  qed
qed

section \<open>Completeness\<close>

text \<open>The honest prover sends, in every round, the sum over the remaining variables as a round of
  the degree bound; the challenges it answers to are those of the transcript.\<close>

definition honest :: "sumcheck_domain_spec \<Rightarrow> nat \<Rightarrow> (nat \<Rightarrow> ('f::field list \<Rightarrow> 'f) \<Rightarrow> 'f clear_round) \<Rightarrow> bool" where
  "honest domain d make_round \<longleftrightarrow> (\<forall>n g k. individual_degree d (Suc n) g \<longrightarrow>
     (\<forall>x. round_evaluate (make_round n g) x = grid_sum (domain_points domain) n (\<lambda>xs. g (x # xs))) \<and>
     round_degree (make_round n g) \<le> d \<and> check_round_well_formed (make_round n g) k = Inr () \<and>
     (\<exists>cs :: 'f list. round_sum_coefficients domain (round_degree (make_round n g)) = Inr cs))"

fun honest_rounds ::
  "('t, 'f) transcript_ops \<Rightarrow> (nat \<Rightarrow> ('f list \<Rightarrow> 'f) \<Rightarrow> 'f clear_round) \<Rightarrow> nat \<Rightarrow> ('f list \<Rightarrow> 'f) \<Rightarrow> 't \<Rightarrow>
    'f clear_round list"
where
  "honest_rounds ops make_round 0 g t = []"
| "honest_rounds ops make_round (Suc n) g t =
     (let round = make_round n g; (r, t') = draw_challenge ops (round_append ops round t) in
      round # honest_rounds ops make_round n (\<lambda>xs. g (r # xs)) t')"

lemma length_honest_rounds [simp]: "length (honest_rounds ops make_round n g t) = n"
  by (induction n arbitrary: g t) (simp_all add: Let_def split: prod.splits)

lemma honest_accepted:
  fixes g :: "'f::field list \<Rightarrow> 'f"
  assumes "individual_degree d n g" "honest domain d make_round"
  shows "\<exists>rs t'. verify_rounds ops domain d k (grid_sum (domain_points domain) n g)
    (honest_rounds ops make_round n g t) t = Inr (rs, g rs, t') \<and> length rs = n"
  using assms(1)
proof (induction n arbitrary: g k t)
  case 0
  then show ?case by simp
next
  case (Suc n)
  let ?H = "domain_points domain" and ?round = "make_round n g"
  obtain r t' where draw: "draw_challenge ops (round_append ops ?round t) = (r, t')" by fastforce
  have ev: "round_evaluate ?round x = grid_sum ?H n (\<lambda>xs. g (x # xs))" for x
    using Suc.prems assms(2) by (auto simp: honest_def)
  have deg: "round_degree ?round \<le> d" and wf: "check_round_well_formed ?round k = Inr ()"
    using Suc.prems assms(2) by (auto simp: honest_def)
  obtain cs :: "'f list" where cs: "round_sum_coefficients domain (round_degree ?round) = Inr cs"
    using Suc.prems assms(2) unfolding honest_def by blast
  have "check_round_sum domain k (grid_sum ?H (Suc n) g) ?round = Inr ()"
    using check_round_sum_iff [OF cs] wf by (simp add: ev)
  moreover obtain rs t'' where "verify_rounds ops domain d (Suc k) (grid_sum ?H n (\<lambda>xs. g (r # xs)))
      (honest_rounds ops make_round n (\<lambda>xs. g (r # xs)) t') t' = Inr (rs, g (r # rs), t'')" "length rs = n"
    using Suc.IH [of "\<lambda>xs. g (r # xs)" "Suc k" t'] Suc.prems by auto
  ultimately show ?case using deg by (simp add: Let_def draw ev del: grid_sum.simps)
qed

section \<open>Compressed proofs\<close>

text \<open>A compressed proof is accepted exactly when the full proof it decompresses to is, with the
  same challenges, value and transcript.\<close>

lemma compressed_round_append:
  "up_compress p = Some c \<Longrightarrow>
    round_append ops (Compressed_Labeled_Round p label) t =
      append_scalars ops c (append_label_count ops t label (length c))"
  by (auto simp: up_compress_def append_scalars_def split: list.splits)

lemma compress_iff_decompress:
  assumes "c \<noteq> []"
  shows "(up_compress p = Some c \<and> up_evaluate p 0 + up_evaluate p 1 = s) \<longleftrightarrow> decompress c s = Some p"
proof
  assume "up_compress p = Some c \<and> up_evaluate p 0 + up_evaluate p 1 = s"
  then show "decompress c s = Some p" using compress_decompress by blast
next
  assume d: "decompress c s = Some p"
  then have "up_compress p = Some c"
    using assms by (cases c) (auto simp: decompress_def up_compress_def recover_linear_sum)
  then show "up_compress p = Some c \<and> up_evaluate p 0 + up_evaluate p 1 = s"
    using decompress_sum(1) [OF d] by blast
qed

lemma check_round_sum_boolean:
  "check_round_sum BooleanHypercube k s r = Inr () \<longleftrightarrow>
    check_round_well_formed r k = Inr () \<and> round_evaluate r 0 + round_evaluate r 1 = s"
  by (subst check_round_sum_iff) simp_all

lemma compressed_rounds_iff:
  "verify_compressed_rounds ops label d k s cs t = Inr res \<longleftrightarrow>
    (\<exists>ps. map up_compress ps = map Some cs \<and>
      verify_rounds ops BooleanHypercube d k s (map (\<lambda>p. Compressed_Labeled_Round p label) ps) t = Inr res)"
proof (induction cs arbitrary: k s t res)
  case Nil
  then show ?case by simp
next
  case (Cons c cs)
  obtain r t' where draw: "draw_challenge ops (append_scalars ops c (append_label_count ops t label (length c))) = (r, t')"
    by fastforce
  show ?case
  proof
    assume v: "verify_compressed_rounds ops label d k s (c # cs) t = Inr res"
    then have deg: "cp_degree c \<le> d" "c \<noteq> []" by (auto split: if_splits)
    then obtain p where p: "decompress c s = Some p"
      by (cases c) (auto simp: decompress_def recover_linear_sum)
    have e: "evaluate_with_hint c s r = Some (up_evaluate p r)" by (simp add: eval_from_hint_decompress p)
    obtain rs v' t'' where rest: "verify_compressed_rounds ops label d (Suc k) (up_evaluate p r) cs t' = Inr (rs, v', t'')"
      "res = (r # rs, v', t'')"
      using v deg by (auto simp: draw e elim!: bind_res_InrE)
    then obtain ps where ps: "map up_compress ps = map Some cs"
      "verify_rounds ops BooleanHypercube d (Suc k) (up_evaluate p r) (map (\<lambda>p. Compressed_Labeled_Round p label) ps) t'
        = Inr (rs, v', t'')" using Cons.IH by blast
    note cp = iffD2 [OF compress_iff_decompress [OF deg(2)] p]
    have "check_round_sum BooleanHypercube k s (Compressed_Labeled_Round p label) = Inr ()"
      using cp decompress_sum(2) [OF p] deg(2) by (simp add: check_round_sum_boolean round_evaluate_def Suc_le_eq)
    moreover have "round_degree (Compressed_Labeled_Round p label) \<le> d"
      using decompress_sum(3) [OF p] deg(1) by (simp add: round_degree_def)
    ultimately show "\<exists>ps. map up_compress ps = map Some (c # cs) \<and>
        verify_rounds ops BooleanHypercube d k s (map (\<lambda>p. Compressed_Labeled_Round p label) ps) t = Inr res"
      using cp ps rest(2) compressed_round_append [of p c ops label t] draw
      by (intro exI [of _ "p # ps"]) (simp add: round_evaluate_def)
  next
    assume "\<exists>ps. map up_compress ps = map Some (c # cs) \<and>
        verify_rounds ops BooleanHypercube d k s (map (\<lambda>p. Compressed_Labeled_Round p label) ps) t = Inr res"
    then obtain p ps where ps: "up_compress p = Some c" "map up_compress ps = map Some cs"
      and v: "verify_rounds ops BooleanHypercube d k s
        (map (\<lambda>p. Compressed_Labeled_Round p label) (p # ps)) t = Inr res" by (auto simp: Cons_eq_map_conv map_eq_Cons_conv)
    note ap = compressed_round_append [OF ps(1), of ops label t]
    have deg: "round_degree (Compressed_Labeled_Round p label) \<le> d"
      and sum: "check_round_sum BooleanHypercube k s (Compressed_Labeled_Round p label) = Inr ()"
      using v by (auto elim!: bind_res_InrE split: if_splits)
    have c: "c \<noteq> []" using ps(1) by (auto simp: up_compress_def split: list.splits)
    have d: "decompress c s = Some p"
      using compress_decompress [OF ps(1)] sum
      by (simp add: check_round_sum_boolean round_evaluate_def)
    have e: "evaluate_with_hint c s r = Some (up_evaluate p r)" by (simp add: eval_from_hint_decompress d)
    obtain rs v' t'' where rest: "verify_rounds ops BooleanHypercube d (Suc k) (up_evaluate p r)
        (map (\<lambda>p. Compressed_Labeled_Round p label) ps) t' = Inr (rs, v', t'')" "res = (r # rs, v', t'')"
      using v deg sum by (auto simp: ap draw round_evaluate_def elim!: bind_res_InrE simp del: round_append.simps)
    then have "verify_compressed_rounds ops label d (Suc k) (up_evaluate p r) cs t' = Inr (rs, v', t'')"
      using Cons.IH ps(2) by blast
    moreover have "cp_degree c \<le> d" using deg decompress_sum(3) [OF d] by (simp add: round_degree_def)
    ultimately show "verify_compressed_rounds ops label d k s (c # cs) t = Inr res"
      using c rest(2) by (simp add: draw e)
  qed
qed

end
