(* ===== verification/Sumcheck_Batch.thy ===== *)
theory Sumcheck_Batch
  imports Sumcheck_Correct
begin

text \<open>
  \<^verbatim>\<open>batch.rs\<close>, \<^verbatim>\<open>prover.rs\<close> and the clear recorder of
  \<^verbatim>\<open>recorder.rs\<close>: the batched prover with the stock sequential scheduler. A batch
  member is a parameter, the object behind the \<^verbatim>\<open>ProveRounds\<close> trait: a state with the
  trait's three operations.
\<close>

section \<open>The prelude\<close>

record 'f batch_member =
  bm_input_claim :: 'f
  bm_coefficient :: 'f
  bm_rounds :: nat
  bm_offset :: nat

record 'f batch_prelude =
  bp_members :: "'f batch_member list"
  bp_claimed_sum :: 'f
  bp_max_num_vars :: nat
  bp_max_degree :: nat

text \<open>\<^verbatim>\<open>BatchPrelude::new\<close>, which panics when a member has too many rounds.\<close>

definition prelude_new :: "'f::field batch_member list \<Rightarrow> nat \<Rightarrow> nat \<Rightarrow> 'f batch_prelude option" where
  "prelude_new members max_num_vars max_degree =
     (if \<not> list_all (\<lambda>m. bm_rounds m \<le> max_num_vars) members then None
      else Some \<lparr>bp_members = members,
        bp_claimed_sum =
          sum_list (map (\<lambda>m. bm_coefficient m * (bm_input_claim m * 2 ^ (max_num_vars - bm_rounds m))) members),
        bp_max_num_vars = max_num_vars, bp_max_degree = max_degree\<rparr>)"

record ('s, 'f) round_prover =
  rp_num_rounds :: "'s \<Rightarrow> nat"
  rp_prove_round :: "'s \<Rightarrow> 'f option \<Rightarrow> nat \<Rightarrow> 'f \<Rightarrow> 'f sumcheck_error + 'f univariate_poly \<times> 's"
  rp_finish_rounds :: "'s \<Rightarrow> 'f \<Rightarrow> 'f sumcheck_error + 's"

record 'f proved_batch =
  pb_challenges :: "'f list"
  pb_final_claim :: 'f
  pb_member_claims :: "'f list"

section \<open>One round\<close>

function trim_round_polynomial :: "'f::field list \<Rightarrow> 'f univariate_poly" where
  "trim_round_polynomial coefficients =
     (if length coefficients > 2 \<and> last coefficients = 0
      then trim_round_polynomial (butlast coefficients) else coefficients)"
  by pat_completeness auto
termination by (relation "measure length") auto

declare trim_round_polynomial.simps [simp del]

definition member_active :: "nat \<Rightarrow> 'f batch_member \<Rightarrow> bool" where
  "member_active round m \<longleftrightarrow> round \<ge> bm_offset m \<and> round < bm_offset m + bm_rounds m"

text \<open>An inactive member's claim is halved; its constant polynomial goes to the first slot.\<close>

definition halve_claims :: "'f::field \<Rightarrow> nat \<Rightarrow> 'f batch_member list \<Rightarrow> 'f list \<Rightarrow> 'f list" where
  "halve_claims two_inv round ms claims =
     map2 (\<lambda>m c. if member_active round m then c else c * two_inv) ms claims"

definition inactive_constant :: "nat \<Rightarrow> 'f::field batch_member list \<Rightarrow> 'f list \<Rightarrow> 'f" where
  "inactive_constant round ms claims =
     fold (\<lambda>(m, c) s. if member_active round m then s else s + bm_coefficient m * c) (zip ms claims) 0"

text \<open>The sequential traversal: the active members' messages, in declaration order.\<close>

fun run_members ::
  "('s, 'f) round_prover \<Rightarrow> nat \<Rightarrow> 'f batch_member list \<Rightarrow> 's list \<Rightarrow> 'f option list \<Rightarrow> 'f list \<Rightarrow>
    'f sumcheck_error + 'f univariate_poly option list \<times> 's list"
where
  "run_members rp round (m # ms) (s # ss) (b # bs) (c # cs) =
     (if member_active round m
      then
        bind_res (rp_prove_round rp s b (round - bm_offset m) c) (\<lambda>(p, s).
        bind_res (run_members rp round ms ss bs cs) (\<lambda>(ps, ss). Inr (Some p # ps, s # ss)))
      else
        bind_res (run_members rp round ms ss bs cs) (\<lambda>(ps, ss). Inr (None # ps, s # ss)))"
| "run_members rp round _ ss _ _ = Inr ([], ss)"

text \<open>The messages combined with the batching coefficients, slot by slot.\<close>

definition add_scaled :: "'f::field list \<Rightarrow> 'f \<Rightarrow> 'f list \<Rightarrow> 'f list" where
  "add_scaled slots a p =
     map2 (\<lambda>slot c. slot + a * c) slots p @ drop (length p) slots"

fun combine_messages ::
  "nat \<Rightarrow> 'f::field batch_member list \<Rightarrow> 'f univariate_poly option list \<Rightarrow> 'f list \<Rightarrow>
    'f sumcheck_error + 'f list"
where
  "combine_messages max_degree (m # ms) (None # ps) slots = combine_messages max_degree ms ps slots"
| "combine_messages max_degree (m # ms) (Some p # ps) slots =
     (if up_degree p > max_degree then Inl (DegreeBoundExceeded (up_degree p) max_degree)
      else combine_messages max_degree ms ps (add_scaled slots (bm_coefficient m) p))"
| "combine_messages max_degree _ _ slots = Inr slots"

text \<open>\<^verbatim>\<open>ClearSumcheckRecorder::absorb_round\<close>, on the list of rounds recorded so far.\<close>

definition absorb_round ::
  "('t, 'f::field) transcript_ops \<Rightarrow> 'f univariate_poly \<Rightarrow> 'f compressed_poly list \<Rightarrow> 't \<Rightarrow>
    'f sumcheck_error + 'f \<times> 'f compressed_poly list \<times> 't"
where
  "absorb_round ops p recorded t =
     (let (challenge, t) = draw_challenge ops
            (round_append ops (Compressed_Labeled_Round p SUMCHECK_ROUND_TRANSCRIPT_LABEL) t) in
      case up_compress p of
        None \<Rightarrow> Inl Sumcheck_Panicked
      | Some c \<Rightarrow> Inr (challenge, recorded @ [c], t))"

record ('s, 'f, 't) batch_state =
  bs_members :: "'s list"
  bs_claims :: "'f list"
  bs_binds :: "'f option list"
  bs_running :: 'f
  bs_challenges :: "'f list"
  bs_recorded :: "'f compressed_poly list"
  bs_transcript :: 't

definition batch_round ::
  "('t, 'f::field) transcript_ops \<Rightarrow> ('s, 'f) round_prover \<Rightarrow> 'f batch_prelude \<Rightarrow> 'f \<Rightarrow> nat \<Rightarrow>
    ('s, 'f, 't) batch_state \<Rightarrow> 'f sumcheck_error + ('s, 'f, 't) batch_state"
where
  "batch_round ops rp prelude two_inv round st =
     (let ms = bp_members prelude; max_degree = bp_max_degree prelude;
          claims = halve_claims two_inv round ms (bs_claims st);
          slots = inactive_constant round ms claims # replicate max_degree 0 in
      bind_res (run_members rp round ms (bs_members st) (bs_binds st) claims) (\<lambda>(messages, members).
      bind_res (combine_messages max_degree ms messages slots) (\<lambda>slots.
      let batched = trim_round_polynomial slots;
          round_sum = up_evaluate batched 0 + up_evaluate batched 1 in
      if round_sum \<noteq> bs_running st then Inl (RoundCheckFailed round (bs_running st) round_sum)
      else
        bind_res (absorb_round ops batched (bs_recorded st) (bs_transcript st))
          (\<lambda>(challenge, recorded, t).
        Inr \<lparr>bs_members = members,
          bs_claims = map2 (\<lambda>p c. case p of Some p \<Rightarrow> up_evaluate p challenge | None \<Rightarrow> c) messages claims,
          bs_binds = map2 (\<lambda>p b. case p of Some _ \<Rightarrow> Some challenge | None \<Rightarrow> b) messages (bs_binds st),
          bs_running = up_evaluate batched challenge,
          bs_challenges = bs_challenges st @ [challenge],
          bs_recorded = recorded, bs_transcript = t\<rparr>))))"

section \<open>The whole batch\<close>

fun batch_rounds ::
  "('t, 'f::field) transcript_ops \<Rightarrow> ('s, 'f) round_prover \<Rightarrow> 'f batch_prelude \<Rightarrow> 'f \<Rightarrow> nat list \<Rightarrow>
    ('s, 'f, 't) batch_state \<Rightarrow> 'f sumcheck_error + ('s, 'f, 't) batch_state"
where
  "batch_rounds ops rp prelude two_inv [] st = Inr st"
| "batch_rounds ops rp prelude two_inv (round # rounds) st =
     bind_res (batch_round ops rp prelude two_inv round st)
       (batch_rounds ops rp prelude two_inv rounds)"

fun finish_members ::
  "('s, 'f) round_prover \<Rightarrow> 's list \<Rightarrow> 'f option list \<Rightarrow> 'f sumcheck_error + 's list"
where
  "finish_members rp (s # ss) (Some b # bs) =
     bind_res (rp_finish_rounds rp s b) (\<lambda>s. bind_res (finish_members rp ss bs) (\<lambda>ss. Inr (s # ss)))"
| "finish_members rp (s # ss) (None # bs) = bind_res (finish_members rp ss bs) (\<lambda>ss. Inr (s # ss))"
| "finish_members rp ss _ = Inr ss"

text \<open>The checks of the members against the prelude.\<close>

fun check_members ::
  "('s, 'f) round_prover \<Rightarrow> nat \<Rightarrow> nat \<Rightarrow> 's list \<Rightarrow> 'f batch_member list \<Rightarrow> 'f sumcheck_error + unit"
where
  "check_members rp max_num_vars index (s # ss) (m # ms) =
     (if rp_num_rounds rp s \<noteq> bm_rounds m
      then Inl (BatchMemberRoundsMismatch index (bm_rounds m) (rp_num_rounds rp s))
      else if bm_offset m + bm_rounds m > max_num_vars
      then Inl (BatchMemberWindowOutOfRange index (bm_offset m) (bm_rounds m) max_num_vars)
      else check_members rp max_num_vars (Suc index) ss ms)"
| "check_members rp max_num_vars index _ _ = Inr ()"

definition batch_start ::
  "'f::field batch_prelude \<Rightarrow> 's list \<Rightarrow> 't \<Rightarrow> ('s, 'f, 't) batch_state"
where
  "batch_start prelude members t =
     \<lparr>bs_members = members,
      bs_claims = map (\<lambda>m. bm_input_claim m * 2 ^ (bp_max_num_vars prelude - bm_rounds m)) (bp_members prelude),
      bs_binds = replicate (length members) None, bs_running = bp_claimed_sum prelude,
      bs_challenges = [], bs_recorded = [], bs_transcript = t\<rparr>"

text \<open>\<^verbatim>\<open>prove_batch\<close> with a fresh clear recorder: the proved batch, the members, the recorded
  rounds and the transcript.\<close>

definition prove_batch ::
  "('t, 'f::field) transcript_ops \<Rightarrow> ('s, 'f) round_prover \<Rightarrow> 'f batch_prelude \<Rightarrow> 's list \<Rightarrow> 't \<Rightarrow>
    'f sumcheck_error + 'f proved_batch \<times> 's list \<times> 'f compressed_poly list \<times> 't"
where
  "prove_batch ops rp prelude members t =
     (let max_num_vars = bp_max_num_vars prelude in
      if length members \<noteq> length (bp_members prelude)
      then Inl (BatchMemberCountMismatch (length (bp_members prelude)) (length members))
      else
        bind_res (check_members rp max_num_vars 0 members (bp_members prelude)) (\<lambda>_.
        if max_num_vars > 0 \<and> bp_max_degree prelude < 1 then Inl (ZeroBatchDegree max_num_vars)
        else
          (case field_inverse 2 of
             None \<Rightarrow> Inl Sumcheck_Panicked
           | Some two_inv \<Rightarrow>
               bind_res (batch_rounds ops rp prelude two_inv [0..<max_num_vars]
                   (batch_start prelude members t)) (\<lambda>st.
               bind_res (finish_members rp (bs_members st) (bs_binds st)) (\<lambda>members.
               Inr (\<lparr>pb_challenges = bs_challenges st, pb_final_claim = bs_running st,
                  pb_member_claims = bs_claims st\<rparr>, members, bs_recorded st, bs_transcript st))))))"

section \<open>The univariate-skip round\<close>

definition check_uniskip_round ::
  "'f::field univariate_poly \<Rightarrow> 'f \<Rightarrow> nat \<Rightarrow> nat \<Rightarrow> 'f sumcheck_error + unit"
where
  "check_uniskip_round p input_claim degree domain_size =
     (if up_degree p > degree then Inl (DegreeBoundExceeded (up_degree p) degree)
      else check_round_sum (CenteredInteger domain_size) 0 input_claim
        (Labeled_Round p UNISKIP_ROUND_TRANSCRIPT_LABEL))"

record 'f proved_uniskip =
  pu_proof :: "'f univariate_poly list"
  pu_challenge :: 'f
  pu_output_claim :: 'f

definition prove_uniskip_clear ::
  "('t, 'f::field) transcript_ops \<Rightarrow> 'f univariate_poly \<Rightarrow> 'f \<Rightarrow> nat \<Rightarrow> nat \<Rightarrow> 't \<Rightarrow>
    'f sumcheck_error + 'f proved_uniskip \<times> 't"
where
  "prove_uniskip_clear ops p input_claim degree domain_size t =
     bind_res (check_uniskip_round p input_claim degree domain_size) (\<lambda>_.
     let (challenge, t) = draw_challenge ops (round_append ops (Labeled_Round p UNISKIP_ROUND_TRANSCRIPT_LABEL) t);
         output_claim = up_evaluate p challenge in
     Inr (\<lparr>pu_proof = [p], pu_challenge = challenge, pu_output_claim = output_claim\<rparr>,
       append_labeled ops t OPENING_CLAIM_TRANSCRIPT_LABEL output_claim))"

section \<open>One round of the batch is one round the verifier accepts\<close>

lemma trim_cases:
  "length p > 2 \<and> last p = 0 \<Longrightarrow> trim_round_polynomial p = trim_round_polynomial (butlast p)"
  "\<not> (length p > 2 \<and> last p = 0) \<Longrightarrow> trim_round_polynomial p = p"
  by (subst trim_round_polynomial.simps, simp only: if_True if_False simp_thms)+

lemma trim_evaluate [simp]: "up_evaluate (trim_round_polynomial p) x = up_evaluate p x"
proof (induction p rule: trim_round_polynomial.induct)
  case (1 p)
  show ?case
  proof (cases "length p > 2 \<and> last p = 0")
    case True
    then have "p = butlast p @ [0]" by (metis append_butlast_last_id list.size(3) not_less_zero)
    then have "up_evaluate p x = up_evaluate (butlast p @ [0]) x" by simp
    also have "\<dots> = up_evaluate (butlast p) x" by (simp only: up_evaluate_append) simp
    finally show ?thesis using 1 True trim_cases(1) by metis
  qed (simp only: trim_cases(2) simp_thms)
qed

lemma trim_length:
  "length (trim_round_polynomial p) \<le> length p" "2 \<le> length p \<Longrightarrow> 2 \<le> length (trim_round_polynomial p)"
proof -
  have "length (trim_round_polynomial p) \<le> length p \<and> (2 \<le> length p \<longrightarrow> 2 \<le> length (trim_round_polynomial p))"
  proof (induction p rule: trim_round_polynomial.induct)
    case (1 p)
    show ?case
    proof (cases "length p > 2 \<and> last p = 0")
      case True
      then show ?thesis using 1 [OF True] unfolding trim_cases(1) [OF True] by auto
    qed (simp only: trim_cases(2) simp_thms order.refl)
  qed
  then show "length (trim_round_polynomial p) \<le> length p"
    "2 \<le> length p \<Longrightarrow> 2 \<le> length (trim_round_polynomial p)" by blast+
qed

lemma degree_length: "up_degree p \<le> d \<longleftrightarrow> length p \<le> Suc d"
  by (cases p) (auto simp: up_degree_def)

lemma length_add_scaled: "length p \<le> length slots \<Longrightarrow> length (add_scaled slots a p) = length slots"
  by (simp add: add_scaled_def)

lemma add_scaled_evaluate:
  assumes "length p \<le> length slots"
  shows "up_evaluate (add_scaled slots a p) x = up_evaluate slots x + a * up_evaluate p x"
  by (rule up_evaluate_linear) (use assms in \<open>auto simp: up_coeff_def add_scaled_def nth_append\<close>)

text \<open>The weighted sum of the messages.\<close>

definition message_sum :: "'f::field batch_member list \<Rightarrow> 'f univariate_poly option list \<Rightarrow> 'f \<Rightarrow> 'f" where
  "message_sum ms messages x =
     (\<Sum>(m, q) \<leftarrow> zip ms messages. case q of Some p \<Rightarrow> bm_coefficient m * up_evaluate p x | None \<Rightarrow> 0)"

lemma combine_messages_facts:
  assumes "combine_messages d ms messages slots = Inr out" "length slots = Suc d"
  shows "length out = Suc d \<and> (\<forall>x. up_evaluate out x = up_evaluate slots x + message_sum ms messages x)"
  using assms
proof (induction d ms messages slots rule: combine_messages.induct)
  case (2 d m ms p ps slots)
  then have "up_degree p \<le> d" by (simp split: if_splits)
  then have "length p \<le> length slots" using 2 by (simp add: degree_length)
  then show ?case using 2 length_add_scaled [of p slots] add_scaled_evaluate [of p slots]
    by (auto simp: message_sum_def split: if_splits)
qed (auto simp: message_sum_def)

lemma absorb_round_facts:
  assumes "absorb_round ops p recorded t = Inr (r, recorded', t')"
  shows "\<exists>c. up_compress p = Some c \<and> recorded' = recorded @ [c] \<and>
    draw_challenge ops (append_scalars ops c
      (append_label_count ops t SUMCHECK_ROUND_TRANSCRIPT_LABEL (length c))) = (r, t')"
  using assms compressed_round_append [of p _ ops SUMCHECK_ROUND_TRANSCRIPT_LABEL t]
  by (auto simp: absorb_round_def Let_def simp del: round_append.simps split: prod.splits option.splits)

text \<open>What a successful round does.\<close>

lemma batch_round_facts:
  assumes "batch_round ops rp prelude two_inv round st = Inr st'"
  obtains messages members slots p c r claims where
    "claims = halve_claims two_inv round (bp_members prelude) (bs_claims st)"
    "run_members rp round (bp_members prelude) (bs_members st) (bs_binds st) claims = Inr (messages, members)"
    "combine_messages (bp_max_degree prelude) (bp_members prelude) messages
       (inactive_constant round (bp_members prelude) claims # replicate (bp_max_degree prelude) 0) = Inr slots"
    "p = trim_round_polynomial slots" "up_evaluate p 0 + up_evaluate p 1 = bs_running st"
    "up_compress p = Some c" "bs_recorded st' = bs_recorded st @ [c]"
    "draw_challenge ops (append_scalars ops c (append_label_count ops (bs_transcript st)
       SUMCHECK_ROUND_TRANSCRIPT_LABEL (length c))) = (r, bs_transcript st')"
    "bs_running st' = up_evaluate p r" "bs_challenges st' = bs_challenges st @ [r]"
    "bs_claims st' = map2 (\<lambda>q c. case q of Some p \<Rightarrow> up_evaluate p r | None \<Rightarrow> c) messages claims"
    "bs_members st' = members"
    "bs_binds st' = map2 (\<lambda>q b. case q of Some _ \<Rightarrow> Some r | None \<Rightarrow> b) messages (bs_binds st)"
proof -
  obtain messages members slots where run:
    "run_members rp round (bp_members prelude) (bs_members st) (bs_binds st)
       (halve_claims two_inv round (bp_members prelude) (bs_claims st)) = Inr (messages, members)"
    "combine_messages (bp_max_degree prelude) (bp_members prelude) messages
       (inactive_constant round (bp_members prelude) (halve_claims two_inv round (bp_members prelude) (bs_claims st))
         # replicate (bp_max_degree prelude) 0) = Inr slots"
    using assms by (auto simp: batch_round_def Let_def elim!: bind_res_InrE)
  obtain r recorded t' where absorb:
    "absorb_round ops (trim_round_polynomial slots) (bs_recorded st) (bs_transcript st) = Inr (r, recorded, t')"
    "up_evaluate slots 0 + up_evaluate slots 1 = bs_running st"
    "st' = \<lparr>bs_members = members,
          bs_claims = map2 (\<lambda>p c. case p of Some p \<Rightarrow> up_evaluate p r | None \<Rightarrow> c) messages
            (halve_claims two_inv round (bp_members prelude) (bs_claims st)),
          bs_binds = map2 (\<lambda>p b. case p of Some _ \<Rightarrow> Some r | None \<Rightarrow> b) messages (bs_binds st),
          bs_running = up_evaluate (trim_round_polynomial slots) r,
          bs_challenges = bs_challenges st @ [r],
          bs_recorded = recorded, bs_transcript = t'\<rparr>"
    using assms run by (auto simp: batch_round_def Let_def elim!: bind_res_InrE split: if_splits)
  obtain c where c: "up_compress (trim_round_polynomial slots) = Some c" "recorded = bs_recorded st @ [c]"
    "draw_challenge ops (append_scalars ops c
      (append_label_count ops (bs_transcript st) SUMCHECK_ROUND_TRANSCRIPT_LABEL (length c))) = (r, t')"
    using absorb_round_facts [OF absorb(1)] by blast
  show ?thesis
    by (rule that [OF refl run(1,2) refl _ c(1)])
      (use absorb(2,3) c(2,3) in \<open>simp_all only: batch_state.simps trim_evaluate\<close>)
qed

lemma batch_round_verifies:
  assumes "batch_round ops rp prelude two_inv round st = Inr st'"
  shows "\<exists>c r. bs_recorded st' = bs_recorded st @ [c] \<and> bs_challenges st' = bs_challenges st @ [r] \<and>
    cp_degree c \<le> bp_max_degree prelude \<and> c \<noteq> [] \<and>
    draw_challenge ops (append_scalars ops c (append_label_count ops (bs_transcript st)
       SUMCHECK_ROUND_TRANSCRIPT_LABEL (length c))) = (r, bs_transcript st') \<and>
    evaluate_with_hint c (bs_running st) r = Some (bs_running st')"
proof -
  from assms obtain messages members slots p c r claims where
    s: "combine_messages (bp_max_degree prelude) (bp_members prelude) messages
       (inactive_constant round (bp_members prelude) claims # replicate (bp_max_degree prelude) 0) = Inr slots"
    "p = trim_round_polynomial slots" "up_evaluate p 0 + up_evaluate p 1 = bs_running st"
    "up_compress p = Some c" "bs_recorded st' = bs_recorded st @ [c]"
    "draw_challenge ops (append_scalars ops c (append_label_count ops (bs_transcript st)
       SUMCHECK_ROUND_TRANSCRIPT_LABEL (length c))) = (r, bs_transcript st')"
    "bs_running st' = up_evaluate p r" "bs_challenges st' = bs_challenges st @ [r]"
    by (rule batch_round_facts)
  have "length slots = Suc (bp_max_degree prelude)" using combine_messages_facts [OF s(1)] by simp
  then have "length p \<le> Suc (bp_max_degree prelude)" using trim_length(1) [of slots] s(2) by simp
  moreover have "length c = length p - 1" "c \<noteq> []"
    using s(4) by (auto simp: up_compress_def split: list.splits)
  moreover have "evaluate_with_hint c (bs_running st) r = Some (up_evaluate p r)"
    using compress_decompress [OF s(4)] s(3) by (simp add: eval_from_hint_decompress)
  ultimately show ?thesis using s(5-8) by (auto simp: cp_degree_def)
qed

lemma batch_rounds_verify:
  assumes "batch_rounds ops rp prelude two_inv rounds st = Inr st'"
  shows "\<exists>cs rs. bs_recorded st' = bs_recorded st @ cs \<and> bs_challenges st' = bs_challenges st @ rs \<and>
    length cs = length rounds \<and>
    verify_compressed_rounds ops SUMCHECK_ROUND_TRANSCRIPT_LABEL (bp_max_degree prelude) k (bs_running st) cs
      (bs_transcript st) = Inr (rs, bs_running st', bs_transcript st')"
  using assms
proof (induction rounds arbitrary: k st)
  case Nil
  then show ?case by simp
next
  case (Cons round rounds)
  obtain st1 where st1: "batch_round ops rp prelude two_inv round st = Inr st1"
    "batch_rounds ops rp prelude two_inv rounds st1 = Inr st'"
    using Cons.prems by (auto elim!: bind_res_InrE)
  obtain c r where c: "bs_recorded st1 = bs_recorded st @ [c]" "bs_challenges st1 = bs_challenges st @ [r]"
    "cp_degree c \<le> bp_max_degree prelude" "c \<noteq> []"
    "draw_challenge ops (append_scalars ops c (append_label_count ops (bs_transcript st)
       SUMCHECK_ROUND_TRANSCRIPT_LABEL (length c))) = (r, bs_transcript st1)"
    "evaluate_with_hint c (bs_running st) r = Some (bs_running st1)"
    using batch_round_verifies [OF st1(1)] by blast
  obtain cs rs where "bs_recorded st' = bs_recorded st1 @ cs" "bs_challenges st' = bs_challenges st1 @ rs"
    "length cs = length rounds"
    "verify_compressed_rounds ops SUMCHECK_ROUND_TRANSCRIPT_LABEL (bp_max_degree prelude) (Suc k) (bs_running st1) cs
      (bs_transcript st1) = Inr (rs, bs_running st', bs_transcript st')"
    using Cons.IH [OF st1(2)] by blast
  then show ?case using c by (intro exI [of _ "c # cs"] exI [of _ "r # rs"]) simp
qed

lemma prove_batch_verified:
  assumes "prove_batch ops rp prelude members t = Inr (proved, members', recorded, t')"
  shows "verify_compressed ops
    \<lparr>sc_num_vars = bp_max_num_vars prelude, sc_degree = bp_max_degree prelude,
     sc_claimed_sum = bp_claimed_sum prelude\<rparr>
    recorded SUMCHECK_ROUND_TRANSCRIPT_LABEL t =
    Inr (\<lparr>ec_point = pb_challenges proved, ec_value = pb_final_claim proved\<rparr>, t')"
proof -
  obtain two_inv st where "batch_rounds ops rp prelude two_inv [0..<bp_max_num_vars prelude]
      (batch_start prelude members t) = Inr st"
    "pb_challenges proved = bs_challenges st" "pb_final_claim proved = bs_running st"
    "recorded = bs_recorded st" "t' = bs_transcript st"
    using assms by (auto simp: prove_batch_def Let_def elim!: bind_res_InrE split: if_splits option.splits)
  then show ?thesis
    using batch_rounds_verify [of ops rp prelude two_inv "[0..<bp_max_num_vars prelude]"
        "batch_start prelude members t" st 0]
    by (auto simp: verify_compressed_def batch_start_def)
qed

section \<open>The running sum is the weighted sum of the members' claims\<close>

definition weighted_claims :: "'f::field batch_member list \<Rightarrow> 'f list \<Rightarrow> 'f" where
  "weighted_claims ms claims = (\<Sum>(m, c) \<leftarrow> zip ms claims. bm_coefficient m * c)"

lemma inactive_constant_sum:
  fixes ms :: "'f::field batch_member list"
  shows "inactive_constant round ms claims =
    (\<Sum>(m, c) \<leftarrow> zip ms claims. if member_active round m then 0 else bm_coefficient m * c)"
proof -
  have "fold (\<lambda>(m, c) s. if member_active round m then s else s + bm_coefficient m * c) xs s =
      s + (\<Sum>(m, c) \<leftarrow> xs. if member_active round m then 0 else bm_coefficient m * c)" for xs :: "('f batch_member \<times> 'f) list" and s
    by (induction xs arbitrary: s) (auto simp: add.assoc)
  then show ?thesis by (simp add: inactive_constant_def)
qed

lemma run_members_messages:
  assumes "run_members rp round ms ss bs cs = Inr (messages, ss')"
    and "length ss = length ms" "length bs = length ms" "length cs = length ms"
  shows "length ss' = length ms" "list_all2 (\<lambda>m q. q \<noteq> None \<longleftrightarrow> member_active round m) ms messages"
proof -
  have "length ss' = length ms \<and> list_all2 (\<lambda>m q. q \<noteq> None \<longleftrightarrow> member_active round m) ms messages"
    using assms
  proof (induction rp round ms ss bs cs arbitrary: messages ss' rule: run_members.induct)
    case (1 rp round m ms s ss b bs c cs)
    then show ?case by (fastforce elim!: bind_res_InrE split: if_splits)
  qed auto
  then show "length ss' = length ms" "list_all2 (\<lambda>m q. q \<noteq> None \<longleftrightarrow> member_active round m) ms messages"
    by blast+
qed

lemma weighted_after_messages:
  assumes "list_all2 (\<lambda>m q. q \<noteq> None \<longleftrightarrow> member_active round m) ms messages" "length claims = length ms"
  shows "weighted_claims ms (map2 (\<lambda>q c. case q of Some p \<Rightarrow> up_evaluate p r | None \<Rightarrow> c) messages claims) =
    inactive_constant round ms claims + message_sum ms messages r"
  using assms
proof (induction ms messages arbitrary: claims rule: list_all2_induct)
  case Nil
  then show ?case by (simp add: weighted_claims_def inactive_constant_sum message_sum_def)
next
  case (Cons m ms q messages)
  then obtain c claims' where c: "claims = c # claims'" "length claims' = length ms" by (cases claims) auto
  show ?case using Cons.IH [OF c(2)] Cons.hyps(1) c(1)
    by (auto simp: weighted_claims_def inactive_constant_sum message_sum_def algebra_simps split: option.splits)
qed

definition batch_aligned :: "'f batch_member list \<Rightarrow> ('s, 'f, 't) batch_state \<Rightarrow> bool" where
  "batch_aligned ms st \<longleftrightarrow> length (bs_members st) = length ms \<and> length (bs_claims st) = length ms \<and>
     length (bs_binds st) = length ms"

lemma length_halve_claims [simp]: "length (halve_claims h round ms claims) = min (length ms) (length claims)"
  by (simp add: halve_claims_def)

lemma batch_round_combines:
  assumes "batch_round ops rp prelude two_inv round st = Inr st'" "batch_aligned (bp_members prelude) st"
  shows "batch_aligned (bp_members prelude) st' \<and>
    bs_running st' = weighted_claims (bp_members prelude) (bs_claims st')"
proof -
  let ?ms = "bp_members prelude"
  from assms(1) obtain messages members slots p r claims where
    s: "claims = halve_claims two_inv round ?ms (bs_claims st)"
    "run_members rp round ?ms (bs_members st) (bs_binds st) claims = Inr (messages, members)"
    "combine_messages (bp_max_degree prelude) ?ms messages
       (inactive_constant round ?ms claims # replicate (bp_max_degree prelude) 0) = Inr slots"
    "p = trim_round_polynomial slots" "bs_running st' = up_evaluate p r"
    "bs_claims st' = map2 (\<lambda>q c. case q of Some p \<Rightarrow> up_evaluate p r | None \<Rightarrow> c) messages claims"
    "bs_members st' = members"
    "bs_binds st' = map2 (\<lambda>q b. case q of Some _ \<Rightarrow> Some r | None \<Rightarrow> b) messages (bs_binds st)"
    by (rule batch_round_facts)
  have len: "length claims = length ?ms" using assms(2) s(1) by (simp add: batch_aligned_def)
  note m = run_members_messages [OF s(2) _ _ len]
  have al: "length members = length ?ms" "list_all2 (\<lambda>m q. q \<noteq> None \<longleftrightarrow> member_active round m) ?ms messages"
    using m assms(2) by (simp_all add: batch_aligned_def)
  have "up_evaluate slots r = inactive_constant round ?ms claims + message_sum ?ms messages r"
    using combine_messages_facts [OF s(3)] by simp
  moreover have "length messages = length ?ms" using al(2) by (simp add: list_all2_lengthD)
  ultimately show ?thesis
    using weighted_after_messages [OF al(2) len, of r] s(4-8) al(1) len assms(2) by (simp add: batch_aligned_def)
qed

lemma batch_rounds_combine:
  assumes "batch_rounds ops rp prelude two_inv rounds st = Inr st'" "batch_aligned (bp_members prelude) st"
    and "bs_running st = weighted_claims (bp_members prelude) (bs_claims st)"
  shows "batch_aligned (bp_members prelude) st' \<and>
    bs_running st' = weighted_claims (bp_members prelude) (bs_claims st')"
  using assms
proof (induction rounds arbitrary: st)
  case Nil
  then show ?case by simp
next
  case (Cons round rounds)
  then show ?case using batch_round_combines by (fastforce elim!: bind_res_InrE)
qed

lemma batch_start_aligned:
  assumes "prelude_new ms n d = Some prelude" "length members = length ms"
  shows "batch_aligned (bp_members prelude) (batch_start prelude members t)"
    "bs_running (batch_start prelude members t) =
      weighted_claims (bp_members prelude) (bs_claims (batch_start prelude members t))"
proof -
  have "zip ms (map f ms) = map (\<lambda>m. (m, f m)) ms" for f :: "'a batch_member \<Rightarrow> 'a" by (induction ms) simp_all
  then show "batch_aligned (bp_members prelude) (batch_start prelude members t)"
    "bs_running (batch_start prelude members t) =
      weighted_claims (bp_members prelude) (bs_claims (batch_start prelude members t))"
    using assms by (auto simp: prelude_new_def batch_aligned_def batch_start_def weighted_claims_def o_def split: if_splits)
qed

lemma prove_batch_combines:
  assumes "prelude_new ms n d = Some prelude"
    and "prove_batch ops rp prelude members t = Inr (proved, members', recorded, t')"
  shows "length (pb_member_claims proved) = length ms"
    "pb_final_claim proved = weighted_claims ms (pb_member_claims proved)"
proof -
  have ms: "bp_members prelude = ms" using assms(1) by (auto simp: prelude_new_def split: if_splits)
  obtain two_inv st where st: "batch_rounds ops rp prelude two_inv [0..<bp_max_num_vars prelude]
      (batch_start prelude members t) = Inr st" "length members = length ms"
    "pb_final_claim proved = bs_running st" "pb_member_claims proved = bs_claims st"
    using assms(2) by (auto simp: prove_batch_def Let_def ms elim!: bind_res_InrE split: if_splits option.splits)
  show "length (pb_member_claims proved) = length ms"
    "pb_final_claim proved = weighted_claims ms (pb_member_claims proved)"
    using batch_rounds_combine [OF st(1) batch_start_aligned [OF assms(1) st(2)]]
    by (simp_all add: st ms batch_aligned_def)
qed

section \<open>A batch of honest members succeeds\<close>

text \<open>An honest member: \<open>P m k s b c\<close> says that \<open>m\<close> is in state \<open>s\<close> after
  \<open>k\<close> rounds, with the bind \<open>b\<close> pending and the claim \<open>c\<close>. Its round polynomials are
  in the batch's degree, sum to the claim and lead to the next state on every challenge.\<close>

definition honest_members ::
  "('s, 'f::field) round_prover \<Rightarrow> nat \<Rightarrow> ('f batch_member \<Rightarrow> nat \<Rightarrow> 's \<Rightarrow> 'f option \<Rightarrow> 'f \<Rightarrow> bool) \<Rightarrow> bool"
where
  "honest_members rp d P \<longleftrightarrow>
     (\<forall>m k s b c. P m k s b c \<longrightarrow> k < bm_rounds m \<longrightarrow>
       (\<exists>p s'. rp_prove_round rp s b k c = Inr (p, s') \<and> up_degree p \<le> d \<and>
         up_evaluate p 0 + up_evaluate p 1 = c \<and> (\<forall>r. P m (Suc k) s' (Some r) (up_evaluate p r)))) \<and>
     (\<forall>m s r c. P m (bm_rounds m) s (Some r) c \<longrightarrow> (\<exists>s'. rp_finish_rounds rp s r = Inr s'))"

text \<open>Where a member stands before a global round: before, in or after its window.\<close>

definition member_status ::
  "('f::field batch_member \<Rightarrow> nat \<Rightarrow> 's \<Rightarrow> 'f option \<Rightarrow> 'f \<Rightarrow> bool) \<Rightarrow> nat \<Rightarrow>
    'f batch_member \<Rightarrow> 's \<Rightarrow> 'f option \<Rightarrow> 'f \<Rightarrow> bool"
where
  "member_status P round m s b c \<longleftrightarrow>
     (if round \<le> bm_offset m then P m 0 s None (c * inverse 2 ^ (bm_offset m - round)) \<and> b = None
      else if round \<le> bm_offset m + bm_rounds m then P m (round - bm_offset m) s b c \<and> b \<noteq> None
      else bm_rounds m = 0 \<and> b = None \<or> (\<exists>c. P m (bm_rounds m) s b c) \<and> b \<noteq> None)"

fun all_status ::
  "('f::field batch_member \<Rightarrow> nat \<Rightarrow> 's \<Rightarrow> 'f option \<Rightarrow> 'f \<Rightarrow> bool) \<Rightarrow> nat \<Rightarrow>
    'f batch_member list \<Rightarrow> 's list \<Rightarrow> 'f option list \<Rightarrow> 'f list \<Rightarrow> bool"
where
  "all_status P round (m # ms) (s # ss) (b # bs) (c # cs) \<longleftrightarrow>
     member_status P round m s b c \<and> all_status P round ms ss bs cs"
| "all_status P round [] [] [] [] \<longleftrightarrow> True"
| "all_status P round _ _ _ _ \<longleftrightarrow> False"

lemma status_inactive:
  assumes "member_status P round m s b c" "\<not> member_active round m"
  shows "member_status P (Suc round) m s b (c * inverse 2)"
proof (cases "Suc round \<le> bm_offset m")
  case True
  then have "bm_offset m - round = Suc (bm_offset m - Suc round)" by simp
  then show ?thesis using assms(1) True by (simp add: member_status_def mult.assoc)
next
  case False
  then show ?thesis using assms by (auto simp: member_status_def member_active_def split: if_splits)
qed

lemma status_active:
  assumes "member_status P round m s b c" "member_active round m" "honest_members rp d P"
  shows "\<exists>p s'. rp_prove_round rp s b (round - bm_offset m) c = Inr (p, s') \<and> up_degree p \<le> d \<and>
    up_evaluate p 0 + up_evaluate p 1 = c \<and>
    (\<forall>r. member_status P (Suc round) m s' (Some r) (up_evaluate p r))"
proof -
  have k: "round - bm_offset m < bm_rounds m" "bm_offset m \<le> round"
    using assms(2) by (auto simp: member_active_def)
  have "P m (round - bm_offset m) s b c"
    using assms(1) k by (cases "round = bm_offset m") (auto simp: member_status_def)
  then obtain p s' where p: "rp_prove_round rp s b (round - bm_offset m) c = Inr (p, s')" "up_degree p \<le> d"
    "up_evaluate p 0 + up_evaluate p 1 = c" "\<And>r. P m (Suc (round - bm_offset m)) s' (Some r) (up_evaluate p r)"
    using assms(3) k(1) unfolding honest_members_def by blast
  have "Suc round \<le> bm_offset m + bm_rounds m" using k by simp
  then have "member_status P (Suc round) m s' (Some r) (up_evaluate p r)" for r
    using p(4) k by (simp add: member_status_def Suc_diff_le)
  then show ?thesis using p(1-3) by blast
qed

lemma run_members_succeeds:
  fixes cs :: "'f::field list"
  assumes "all_status P round ms ss bs cs" "honest_members rp d P" "(2 :: 'f) \<noteq> 0"
  shows "\<exists>messages ss'. run_members rp round ms ss bs (halve_claims (inverse 2) round ms cs) = Inr (messages, ss') \<and>
    (\<forall>p. Some p \<in> set messages \<longrightarrow> up_degree p \<le> d) \<and>
    2 * inactive_constant round ms (halve_claims (inverse 2) round ms cs) +
      (message_sum ms messages 0 + message_sum ms messages 1) = weighted_claims ms cs \<and>
    (\<forall>r. all_status P (Suc round) ms ss' (map2 (\<lambda>q b. case q of Some _ \<Rightarrow> Some r | None \<Rightarrow> b) messages bs)
      (map2 (\<lambda>q c. case q of Some p \<Rightarrow> up_evaluate p r | None \<Rightarrow> c) messages
        (halve_claims (inverse 2) round ms cs)))"
  using assms(1,2)
proof (induction P round ms ss bs cs rule: all_status.induct)
  case (1 P round m ms s ss b bs c cs)
  let ?cs = "halve_claims (inverse 2) round ms cs"
  have H: "halve_claims (inverse 2) round (m # ms) (c # cs) =
      (if member_active round m then c else c * inverse 2) # ?cs"
    by (simp add: halve_claims_def)
  obtain messages ss' where ih: "run_members rp round ms ss bs ?cs = Inr (messages, ss')"
    "\<And>p. Some p \<in> set messages \<Longrightarrow> up_degree p \<le> d"
    "2 * inactive_constant round ms ?cs + (message_sum ms messages 0 + message_sum ms messages 1) =
      weighted_claims ms cs"
    "\<And>r. all_status P (Suc round) ms ss' (map2 (\<lambda>q b. case q of Some _ \<Rightarrow> Some r | None \<Rightarrow> b) messages bs)
      (map2 (\<lambda>q c. case q of Some p \<Rightarrow> up_evaluate p r | None \<Rightarrow> c) messages ?cs)"
    using "1.IH" "1.prems" by auto
  have st: "member_status P round m s b c" and hon: "honest_members rp d P" using "1.prems" by simp_all
  show ?case
  proof (cases "member_active round m")
    case False
    have st': "member_status P (Suc round) m s b (c * inverse 2)" by (rule status_inactive [OF st False])
    have "2 * (bm_coefficient m * (c * inverse 2)) = bm_coefficient m * c" using assms(3) by simp
    then have "2 * inactive_constant round (m # ms) (c * inverse 2 # ?cs) +
        (message_sum (m # ms) (None # messages) 0 + message_sum (m # ms) (None # messages) 1) =
        weighted_claims (m # ms) (c # cs)"
      using ih(3) [symmetric] False
      by (simp add: inactive_constant_sum message_sum_def weighted_claims_def distrib_left)
    then show ?thesis using ih(1,2,4) False st' unfolding H
      by (intro exI [of _ "None # messages"] exI [of _ "s # ss'"]) auto
  next
    case True
    obtain p s' where p: "rp_prove_round rp s b (round - bm_offset m) c = Inr (p, s')" "up_degree p \<le> d"
      "up_evaluate p 0 + up_evaluate p 1 = c" "\<And>r. member_status P (Suc round) m s' (Some r) (up_evaluate p r)"
      using status_active [OF st True hon] by blast
    have "2 * inactive_constant round (m # ms) (c # ?cs) +
        (message_sum (m # ms) (Some p # messages) 0 + message_sum (m # ms) (Some p # messages) 1) =
        weighted_claims (m # ms) (c # cs)"
      using ih(3) [symmetric] True p(3) [symmetric]
      by (simp add: inactive_constant_sum message_sum_def weighted_claims_def distrib_left)
    then show ?thesis using ih(1,2,4) True p unfolding H
      by (intro exI [of _ "Some p # messages"] exI [of _ "s' # ss'"]) auto
  qed
qed (simp_all add: halve_claims_def message_sum_def inactive_constant_sum weighted_claims_def)

lemma combine_messages_succeeds:
  assumes "\<forall>p. Some p \<in> set messages \<longrightarrow> up_degree p \<le> d"
  shows "\<exists>slots'. combine_messages d ms messages slots = Inr slots'"
  using assms
proof (induction d ms messages slots rule: combine_messages.induct)
  case (2 d m ms p ps slots)
  then have "\<not> d < up_degree p" "\<forall>p. Some p \<in> set ps \<longrightarrow> up_degree p \<le> d" by auto
  then show ?case using "2.IH" by simp
qed auto

definition batch_healthy ::
  "('f::field batch_member \<Rightarrow> nat \<Rightarrow> 's \<Rightarrow> 'f option \<Rightarrow> 'f \<Rightarrow> bool) \<Rightarrow> nat \<Rightarrow> 'f batch_member list \<Rightarrow>
    ('s, 'f, 't) batch_state \<Rightarrow> bool"
where
  "batch_healthy P round ms st \<longleftrightarrow>
     all_status P round ms (bs_members st) (bs_binds st) (bs_claims st) \<and>
     bs_running st = weighted_claims ms (bs_claims st)"

lemma all_status_aligned:
  "all_status P round ms ss bs cs \<Longrightarrow> length ss = length ms \<and> length bs = length ms \<and> length cs = length ms"
  by (induction P round ms ss bs cs rule: all_status.induct) auto

lemma batch_round_succeeds:
  fixes st :: "('s, 'f::field, 't) batch_state"
  assumes "batch_healthy P round (bp_members prelude) st" "honest_members rp (bp_max_degree prelude) P"
    and "(2 :: 'f) \<noteq> 0" "1 \<le> bp_max_degree prelude"
  shows "\<exists>st'. batch_round ops rp prelude (inverse 2) round st = Inr st' \<and>
    batch_healthy P (Suc round) (bp_members prelude) st'"
proof -
  let ?ms = "bp_members prelude" and ?d = "bp_max_degree prelude"
  let ?cs = "halve_claims (inverse 2) round ?ms (bs_claims st)"
  let ?slots = "inactive_constant round ?ms ?cs # replicate ?d 0"
  obtain messages ss' where run:
    "run_members rp round ?ms (bs_members st) (bs_binds st) ?cs = Inr (messages, ss')"
    "\<forall>p. Some p \<in> set messages \<longrightarrow> up_degree p \<le> ?d"
    "2 * inactive_constant round ?ms ?cs + (message_sum ?ms messages 0 + message_sum ?ms messages 1) =
      weighted_claims ?ms (bs_claims st)"
    "\<And>r. all_status P (Suc round) ?ms ss' (map2 (\<lambda>q b. case q of Some _ \<Rightarrow> Some r | None \<Rightarrow> b) messages (bs_binds st))
      (map2 (\<lambda>q c. case q of Some p \<Rightarrow> up_evaluate p r | None \<Rightarrow> c) messages ?cs)"
    using run_members_succeeds [OF _ assms(2,3)] assms(1) by (force simp: batch_healthy_def)
  obtain slots where slots: "combine_messages ?d ?ms messages ?slots = Inr slots"
    using combine_messages_succeeds [OF run(2)] by blast
  have f: "length slots = Suc ?d" "\<And>x. up_evaluate slots x = inactive_constant round ?ms ?cs + message_sum ?ms messages x"
    using combine_messages_facts [OF slots] by simp_all
  have "up_evaluate slots 0 + up_evaluate slots 1 =
      2 * inactive_constant round ?ms ?cs + (message_sum ?ms messages 0 + message_sum ?ms messages 1)"
    unfolding f(2) by (simp add: algebra_simps)
  then have sum: "up_evaluate slots 0 + up_evaluate slots 1 = bs_running st"
    using run(3) assms(1) by (simp add: batch_healthy_def)
  have "2 \<le> length (trim_round_polynomial slots)" using trim_length(2) [of slots] f(1) assms(4) by simp
  then obtain c where c: "up_compress (trim_round_polynomial slots) = Some c"
    by (auto simp: up_compress_def numeral_2_eq_2 Suc_le_length_iff)
  have "\<exists>st'. batch_round ops rp prelude (inverse 2) round st = Inr st'"
    using run(1) slots sum c
    by (auto simp: batch_round_def Let_def absorb_round_def simp del: round_append.simps split: prod.splits)
  then obtain st' where st': "batch_round ops rp prelude (inverse 2) round st = Inr st'" by blast
  have al: "batch_aligned ?ms st"
    using all_status_aligned assms(1) by (fastforce simp: batch_healthy_def batch_aligned_def)
  have "all_status P (Suc round) ?ms (bs_members st') (bs_binds st') (bs_claims st')"
    using st' run(1,4) slots sum c by (auto simp: batch_round_def Let_def elim!: bind_res_InrE)
  then show ?thesis using batch_round_combines [OF st' al] st' by (auto simp: batch_healthy_def)
qed

lemma batch_rounds_succeed:
  fixes st :: "('s, 'f::field, 't) batch_state"
  assumes "batch_healthy P k (bp_members prelude) st" "honest_members rp (bp_max_degree prelude) P"
    and "(2 :: 'f) \<noteq> 0" "1 \<le> bp_max_degree prelude \<or> n = k" "k \<le> n"
  shows "\<exists>st'. batch_rounds ops rp prelude (inverse 2) [k..<n] st = Inr st' \<and>
    batch_healthy P n (bp_members prelude) st'"
  using assms
proof (induction "n - k" arbitrary: k st)
  case 0
  then show ?case by simp
next
  case (Suc j)
  then have k: "k < n" "1 \<le> bp_max_degree prelude" by auto
  obtain st1 where "batch_round ops rp prelude (inverse 2) k st = Inr st1"
    "batch_healthy P (Suc k) (bp_members prelude) st1"
    using batch_round_succeeds [OF Suc.prems(1-3) k(2)] by blast
  then show ?case using Suc.hyps(1) [of "Suc k" st1] Suc.hyps(2) Suc.prems(2,3) k
    by (simp add: upt_conv_Cons)
qed

lemma finish_members_succeed:
  assumes "all_status P n ms ss bs cs" "honest_members rp d P"
    and "\<And>m. m \<in> set ms \<Longrightarrow> bm_offset m + bm_rounds m \<le> n"
  shows "\<exists>ss'. finish_members rp ss bs = Inr ss'"
  using assms
proof (induction P n ms ss bs cs rule: all_status.induct)
  case (1 P n m ms s ss b bs c cs)
  then obtain ss' where ih: "finish_members rp ss bs = Inr ss'" by auto
  have w: "bm_offset m + bm_rounds m \<le> n" and hon: "honest_members rp d P" using 1 by simp_all
  show ?case
  proof (cases b)
    case None
    then show ?thesis using ih by simp
  next
    case (Some r)
    then have "\<exists>c. P m (bm_rounds m) s (Some r) c"
      using 1(2) w by (auto simp: member_status_def split: if_splits)
    then obtain s' where "rp_finish_rounds rp s r = Inr s'" using hon unfolding honest_members_def by blast
    then show ?thesis using Some ih by simp
  qed
qed auto

text \<open>The members at the start of the batch.\<close>

definition members_ready ::
  "('s, 'f::field) round_prover \<Rightarrow> nat \<Rightarrow> ('f batch_member \<Rightarrow> nat \<Rightarrow> 's \<Rightarrow> 'f option \<Rightarrow> 'f \<Rightarrow> bool) \<Rightarrow>
    'f batch_member list \<Rightarrow> 's list \<Rightarrow> bool"
where
  "members_ready rp n P ms ss \<longleftrightarrow>
     list_all2 (\<lambda>m s. rp_num_rounds rp s = bm_rounds m \<and> bm_offset m + bm_rounds m \<le> n \<and>
       P m 0 s None (bm_input_claim m * 2 ^ (n - bm_rounds m - bm_offset m))) ms ss"

lemma start_status:
  fixes ms :: "'f::field batch_member list"
  assumes "members_ready rp n P ms ss" "(2 :: 'f) \<noteq> 0"
  shows "all_status P 0 ms ss (replicate (length ss) None)
    (map (\<lambda>m. bm_input_claim m * 2 ^ (n - bm_rounds m)) ms)"
  using assms(1) unfolding members_ready_def
proof (induction ms ss rule: list_all2_induct)
  case (Cons m ms s ss)
  have "n - bm_rounds m = (n - bm_rounds m - bm_offset m) + bm_offset m" using Cons.hyps(1) by simp
  then have "(2 :: 'f) ^ (n - bm_rounds m) * inverse 2 ^ bm_offset m = 2 ^ (n - bm_rounds m - bm_offset m)"
    using assms(2) by (metis (no_types, lifting) mult.assoc mult.right_neutral power_add power_inverse power_not_zero right_inverse)
  then show ?case using Cons by (simp add: member_status_def mult.assoc)
qed simp

lemma check_members_ready:
  "members_ready rp n P ms ss \<Longrightarrow> check_members rp n index ss ms = Inr ()"
  unfolding members_ready_def by (induction ms ss arbitrary: index rule: list_all2_induct) auto

lemma prove_batch_succeeds:
  fixes ms :: "'f::field batch_member list"
  assumes "prelude_new ms n d = Some prelude" "members_ready rp n P ms members" "honest_members rp d P"
    and "(2 :: 'f) \<noteq> 0" "1 \<le> d \<or> n = 0"
  shows "\<exists>proved members' recorded t'. prove_batch ops rp prelude members t = Inr (proved, members', recorded, t')"
proof -
  have pre: "bp_members prelude = ms" "bp_max_num_vars prelude = n" "bp_max_degree prelude = d"
    using assms(1) by (auto simp: prelude_new_def split: if_splits)
  have len: "length members = length ms" using assms(2) by (simp add: members_ready_def list_all2_lengthD)
  let ?st = "batch_start prelude members t"
  have "batch_healthy P 0 (bp_members prelude) ?st"
    using start_status [OF assms(2,4)] batch_start_aligned(2) [OF assms(1) len, of t]
    by (simp add: batch_healthy_def batch_start_def pre)
  from batch_rounds_succeed [OF this, of rp n ops]
  obtain st where st: "batch_rounds ops rp prelude (inverse 2) [0..<n] ?st = Inr st" "batch_healthy P n ms st"
    using assms(3-5) by (auto simp: pre)
  have "bm_offset m + bm_rounds m \<le> n" if "m \<in> set ms" for m
    using assms(2) that by (auto simp: members_ready_def list_all2_conv_all_nth in_set_conv_nth)
  then obtain ss' where "finish_members rp (bs_members st) (bs_binds st) = Inr ss'"
    using finish_members_succeed st(2) assms(3) unfolding batch_healthy_def by blast
  then show ?thesis using st(1) check_members_ready [OF assms(2)] assms(4,5) len
    by (auto simp: prove_batch_def Let_def pre field_inverse_def)
qed

section \<open>The univariate-skip round\<close>

lemma uniskip_verified:
  assumes "prove_uniskip_clear ops p claim d n t = Inr (proved, t')"
  shows "\<exists>t''. sumcheck_verify ops \<lparr>sc_num_vars = 1, sc_degree = d, sc_claimed_sum = claim\<rparr>
      (map (\<lambda>p. Labeled_Round p UNISKIP_ROUND_TRANSCRIPT_LABEL) (pu_proof proved)) (CenteredInteger n) t =
      Inr (\<lparr>ec_point = [pu_challenge proved], ec_value = pu_output_claim proved\<rparr>, t'') \<and>
    t' = append_labeled ops t'' OPENING_CLAIM_TRANSCRIPT_LABEL (pu_output_claim proved)"
  using assms
  by (auto simp: prove_uniskip_clear_def check_uniskip_round_def sumcheck_verify_def Let_def round_degree_def
      round_evaluate_def simp del: round_append.simps elim!: bind_res_InrE split: if_splits prod.splits)

end
