(* ===== verification/Sumcheck_Committed.thy ===== *)
theory Sumcheck_Committed
  imports Sumcheck_Batch
begin

text \<open>
  \<^verbatim>\<open>proof.rs\<close>, \<^verbatim>\<open>committed.rs\<close> and the recorders of \<^verbatim>\<open>recorder.rs\<close>: the
  wire forms of a sumcheck proof, the committed rounds of the zero-knowledge mode and their
  consistency check. The vector commitment, the random generator and the way a commitment enters
  the transcript are parameters.
\<close>

section \<open>Proof encodings\<close>

datatype 'f clear_proof =
    Full_Proof "'f univariate_poly list"
  | Compressed_Proof "'f compressed_poly list"

record 'c committed_round =
  cr_commitment :: 'c
  cr_degree :: nat

record 'c committed_sumcheck_proof =
  csp_rounds :: "'c committed_round list"
  csp_output_claims :: "'c list"

datatype ('f, 'c) sumcheck_proof =
    Clear "'f clear_proof"
  | Committed "'c committed_sumcheck_proof"

fun is_committed :: "('f, 'c) sumcheck_proof \<Rightarrow> bool" where
  "is_committed (Committed _) = True"
| "is_committed (Clear _) = False"

fun as_clear :: "('f, 'c) sumcheck_proof \<Rightarrow> 'f clear_proof option" where
  "as_clear (Clear p) = Some p"
| "as_clear (Committed _) = None"

fun as_committed :: "('f, 'c) sumcheck_proof \<Rightarrow> 'c committed_sumcheck_proof option" where
  "as_committed (Clear _) = None"
| "as_committed (Committed p) = Some p"

fun proof_verify ::
  "('t, 'f::field) transcript_ops \<Rightarrow> ('f, 'c) sumcheck_proof \<Rightarrow> 'f sumcheck_claim \<Rightarrow> sumcheck_domain_spec \<Rightarrow>
    string \<Rightarrow> 't \<Rightarrow> 'f sumcheck_error + 'f evaluation_claim \<times> 't"
where
  "proof_verify ops (Clear (Full_Proof ps)) claim domain label t =
     sumcheck_verify ops claim (map (\<lambda>p. Labeled_Round p label) ps) domain t"
| "proof_verify ops (Clear (Compressed_Proof _)) claim domain label t =
     Inl (WrongProofEncoding ''full clear'' ''compressed clear'')"
| "proof_verify ops (Committed _) claim domain label t =
     Inl (WrongProofEncoding ''full clear'' ''committed'')"

text \<open>\<^verbatim>\<open>SumcheckClaim::new\<close> panics on degree 0.\<close>

fun verify_compressed_boolean ::
  "('t, 'f::field) transcript_ops \<Rightarrow> ('f, 'c) sumcheck_proof \<Rightarrow> nat \<Rightarrow> nat \<Rightarrow> 'f \<Rightarrow> 't \<Rightarrow>
    'f sumcheck_error + 'f evaluation_claim \<times> 't"
where
  "verify_compressed_boolean ops (Clear (Compressed_Proof cs)) num_vars degree claimed_sum t =
     (case claim_new num_vars degree claimed_sum of
        None \<Rightarrow> Inl Sumcheck_Panicked
      | Some claim \<Rightarrow> verify_compressed ops claim cs SUMCHECK_ROUND_TRANSCRIPT_LABEL t)"
| "verify_compressed_boolean ops (Clear (Full_Proof _)) num_vars degree claimed_sum t =
     Inl (WrongProofEncoding ''compressed clear'' ''full clear'')"
| "verify_compressed_boolean ops (Committed _) num_vars degree claimed_sum t =
     Inl (WrongProofEncoding ''compressed clear'' ''committed'')"

section \<open>Committed rounds\<close>

record ('f, 'c) vector_commitment =
  vc_capacity :: nat
  vc_commit :: "'f list \<Rightarrow> 'f \<Rightarrow> 'c"

definition SUMCHECK_COMMITMENT_LABEL :: string where
  "SUMCHECK_COMMITMENT_LABEL = ''sumcheck_commitment''"

definition OUTPUT_CLAIMS_LABEL :: string where
  "OUTPUT_CLAIMS_LABEL = ''output_claims_coms''"

text \<open>\<open>ac\<close> appends a commitment to the transcript.\<close>

definition committed_round_append ::
  "('t, 'f) transcript_ops \<Rightarrow> ('t \<Rightarrow> 'c \<Rightarrow> 't) \<Rightarrow> 'c committed_round \<Rightarrow> 't \<Rightarrow> 't"
where
  "committed_round_append ops ac r t =
     ac (append_label_count ops t SUMCHECK_COMMITMENT_LABEL (cr_degree r)) (cr_commitment r)"

definition output_claims_append ::
  "('t, 'f) transcript_ops \<Rightarrow> ('t \<Rightarrow> 'c \<Rightarrow> 't) \<Rightarrow> 'c list \<Rightarrow> 't \<Rightarrow> 't"
where
  "output_claims_append ops ac commitments t =
     fold (\<lambda>c t. ac t c) commitments (append_label_count ops t OUTPUT_CLAIMS_LABEL (length commitments))"

record ('f, 'c) verified_committed_round =
  vr_commitment :: 'c
  vr_degree :: nat
  vr_challenge :: 'f

text \<open>The loop of \<^verbatim>\<open>verify_committed_round_consistency\<close>.\<close>

fun verify_committed_rounds ::
  "('t, 'f) transcript_ops \<Rightarrow> ('t \<Rightarrow> 'c \<Rightarrow> 't) \<Rightarrow> nat \<Rightarrow> 'c committed_round list \<Rightarrow> 't \<Rightarrow>
    'f sumcheck_error + ('f, 'c) verified_committed_round list \<times> 't"
where
  "verify_committed_rounds ops ac max_degree [] t = Inr ([], t)"
| "verify_committed_rounds ops ac max_degree (round # rounds) t =
     (if cr_degree round > max_degree then Inl (DegreeBoundExceeded (cr_degree round) max_degree)
      else
        let (r, t) = draw_challenge ops (committed_round_append ops ac round t) in
        bind_res (verify_committed_rounds ops ac max_degree rounds t) (\<lambda>(vs, t).
        Inr (\<lparr>vr_commitment = cr_commitment round, vr_degree = cr_degree round, vr_challenge = r\<rparr> # vs, t)))"

definition verify_committed_round_consistency ::
  "('t, 'f) transcript_ops \<Rightarrow> ('t \<Rightarrow> 'c \<Rightarrow> 't) \<Rightarrow> sumcheck_statement \<Rightarrow> 'c committed_round list \<Rightarrow> 't \<Rightarrow>
    'f sumcheck_error + ('f, 'c) verified_committed_round list \<times> 't"
where
  "verify_committed_round_consistency ops ac st rounds t =
     (if length rounds \<noteq> ss_num_vars st then Inl (WrongNumberOfRounds (ss_num_vars st) (length rounds))
      else verify_committed_rounds ops ac (ss_degree st) rounds t)"

fun verify_committed_consistency ::
  "('t, 'f) transcript_ops \<Rightarrow> ('t \<Rightarrow> 'c \<Rightarrow> 't) \<Rightarrow> ('f, 'c) sumcheck_proof \<Rightarrow> sumcheck_statement \<Rightarrow> 't \<Rightarrow>
    'f sumcheck_error + ('f, 'c) verified_committed_round list \<times> 't"
where
  "verify_committed_consistency ops ac (Committed p) st t =
     bind_res (verify_committed_round_consistency ops ac st (csp_rounds p) t) (\<lambda>(vs, t).
     Inr (vs, output_claims_append ops ac (csp_output_claims p) t))"
| "verify_committed_consistency ops ac (Clear (Full_Proof _)) st t =
     Inl (WrongProofEncoding ''committed'' ''full clear'')"
| "verify_committed_consistency ops ac (Clear (Compressed_Proof _)) st t =
     Inl (WrongProofEncoding ''committed'' ''compressed clear'')"

definition consistency_challenges :: "('f, 'c) verified_committed_round list \<Rightarrow> 'f list" where
  "consistency_challenges rounds = map vr_challenge rounds"

definition consistency_degrees :: "('f, 'c) verified_committed_round list \<Rightarrow> nat list" where
  "consistency_degrees rounds = map vr_degree rounds"

definition consistency_commitments :: "('f, 'c) verified_committed_round list \<Rightarrow> 'c list" where
  "consistency_commitments rounds = map vr_commitment rounds"

section \<open>Batched consistency\<close>

record ('f, 'c) batched_consistency =
  bc_rounds :: "('f, 'c) verified_committed_round list"
  bc_coefficients :: "'f list"
  bc_max_num_vars :: nat
  bc_max_degree :: nat

definition try_round_offset :: "('f, 'c) batched_consistency \<Rightarrow> nat \<Rightarrow> 'f sumcheck_error + nat" where
  "try_round_offset bc num_vars =
     (if num_vars \<le> bc_max_num_vars bc then Inr (bc_max_num_vars bc - num_vars)
      else Inl (BatchedPointOutOfRange 0 num_vars (length (bc_rounds bc))))"

definition try_instance_point_at ::
  "('f, 'c) batched_consistency \<Rightarrow> nat \<Rightarrow> nat \<Rightarrow> 'f sumcheck_error + 'f list"
where
  "try_instance_point_at bc offset num_vars =
     (if offset + num_vars \<ge> 2 ^ 64 then Inl (BatchedPointRangeOverflow offset num_vars)
      else if offset + num_vars \<le> length (bc_rounds bc)
      then Inr (map vr_challenge (take num_vars (drop offset (bc_rounds bc))))
      else Inl (BatchedPointOutOfRange offset num_vars (length (bc_rounds bc))))"

definition try_instance_point :: "('f, 'c) batched_consistency \<Rightarrow> nat \<Rightarrow> 'f sumcheck_error + 'f list" where
  "try_instance_point bc num_vars =
     bind_res (try_round_offset bc num_vars) (\<lambda>offset. try_instance_point_at bc offset num_vars)"

section \<open>The committed builder\<close>

record 'f committed_witness =
  cw_round_coefficients :: "'f list list"
  cw_round_blindings :: "'f list"
  cw_output_rows :: "'f list list"
  cw_output_blindings :: "'f list"

text \<open>The builder: the generator's state, the rounds so far and the witness. \<open>rnd\<close> draws a field
  element.\<close>

record ('f, 'c, 'r) committed_builder =
  cb_rng :: 'r
  cb_rounds :: "'c committed_round list"
  cb_witness :: "'f committed_witness"

definition builder_new ::
  "('f, 'c) vector_commitment \<Rightarrow> 'r \<Rightarrow> 'f sumcheck_error + ('f, 'c, 'r) committed_builder"
where
  "builder_new vc rng =
     (if vc_capacity vc = 0 then Inl ZeroCommitmentCapacity
      else Inr \<lparr>cb_rng = rng, cb_rounds = [], cb_witness =
        \<lparr>cw_round_coefficients = [], cw_round_blindings = [], cw_output_rows = [], cw_output_blindings = []\<rparr>\<rparr>)"

definition commit_witness ::
  "('f, 'c) vector_commitment \<Rightarrow> 'f list \<Rightarrow> 'f \<Rightarrow> 'f sumcheck_error + 'c committed_round"
where
  "commit_witness vc coefficients blinding =
     (if coefficients = [] then Inl EmptyRoundCoefficients
      else Inr \<lparr>cr_commitment = vc_commit vc coefficients blinding, cr_degree = length coefficients - 1\<rparr>)"

definition commit_round ::
  "('t, 'f) transcript_ops \<Rightarrow> ('t \<Rightarrow> 'c \<Rightarrow> 't) \<Rightarrow> ('r \<Rightarrow> 'f \<times> 'r) \<Rightarrow> ('f, 'c) vector_commitment \<Rightarrow>
    'f univariate_poly \<Rightarrow> ('f, 'c, 'r) committed_builder \<Rightarrow> 't \<Rightarrow>
    'f sumcheck_error + 'f \<times> ('f, 'c, 'r) committed_builder \<times> 't"
where
  "commit_round ops ac rnd vc p b t =
     (if length p > vc_capacity vc then Inl (RoundExceedsCommitmentCapacity (length p) (vc_capacity vc))
      else
        let (blinding, rng) = rnd (cb_rng b) in
        bind_res (commit_witness vc p blinding) (\<lambda>round.
        let (challenge, t) = draw_challenge ops (committed_round_append ops ac round t);
            w = cb_witness b in
        Inr (challenge,
          \<lparr>cb_rng = rng, cb_rounds = cb_rounds b @ [round],
           cb_witness = w\<lparr>cw_round_coefficients := cw_round_coefficients w @ [p],
             cw_round_blindings := cw_round_blindings w @ [blinding]\<rparr>\<rparr>, t)))"

function chunks :: "nat \<Rightarrow> 'a list \<Rightarrow> 'a list list" where
  "chunks n xs = (if xs = [] \<or> n = 0 then [] else take n xs # chunks n (drop n xs))"
  by pat_completeness auto
termination by (relation "measure (\<lambda>(n, xs). length xs)") auto

declare chunks.simps [simp del]

fun commit_rows ::
  "('r \<Rightarrow> 'f \<times> 'r) \<Rightarrow> ('f, 'c) vector_commitment \<Rightarrow> 'f list list \<Rightarrow> 'r \<Rightarrow> ('c \<times> 'f) list \<times> 'r"
where
  "commit_rows rnd vc [] rng = ([], rng)"
| "commit_rows rnd vc (row # rows) rng =
     (let (blinding, rng) = rnd rng; (rest, rng) = commit_rows rnd vc rows rng in
      ((vc_commit vc row blinding, blinding) # rest, rng))"

definition builder_finish ::
  "('t, 'f) transcript_ops \<Rightarrow> ('t \<Rightarrow> 'c \<Rightarrow> 't) \<Rightarrow> ('r \<Rightarrow> 'f \<times> 'r) \<Rightarrow> ('f, 'c) vector_commitment \<Rightarrow>
    'f list \<Rightarrow> ('f, 'c, 'r) committed_builder \<Rightarrow> 't \<Rightarrow>
    ('f, 'c) sumcheck_proof \<times> 'f committed_witness \<times> 't"
where
  "builder_finish ops ac rnd vc output_claim_values b t =
     (let rows = chunks (vc_capacity vc) output_claim_values;
          committed = fst (commit_rows rnd vc rows (cb_rng b));
          commitments = map fst committed;
          w = cb_witness b in
      (Committed \<lparr>csp_rounds = cb_rounds b, csp_output_claims = commitments\<rparr>,
       w\<lparr>cw_output_rows := cw_output_rows w @ rows,
         cw_output_blindings := cw_output_blindings w @ map snd committed\<rparr>,
       output_claims_append ops ac commitments t))"

text \<open>\<^verbatim>\<open>prove_uniskip_committed\<close>: proof, witness, challenge, output claim.\<close>

definition prove_uniskip_committed ::
  "('t, 'f::field) transcript_ops \<Rightarrow> ('t \<Rightarrow> 'c \<Rightarrow> 't) \<Rightarrow> ('r \<Rightarrow> 'f \<times> 'r) \<Rightarrow> ('f, 'c) vector_commitment \<Rightarrow>
    'f univariate_poly \<Rightarrow> 'f \<Rightarrow> nat \<Rightarrow> nat \<Rightarrow> 'r \<Rightarrow> 't \<Rightarrow>
    'f sumcheck_error + ('f, 'c) sumcheck_proof \<times> 'f committed_witness \<times> 'f \<times> 'f \<times> 't"
where
  "prove_uniskip_committed ops ac rnd vc p input_claim degree domain_size rng t =
     bind_res (check_uniskip_round p input_claim degree domain_size) (\<lambda>_.
     bind_res (builder_new vc rng) (\<lambda>b.
     bind_res (commit_round ops ac rnd vc p b t) (\<lambda>(challenge, b, t).
     let output_claim = up_evaluate p challenge;
         (proof, w, t) = builder_finish ops ac rnd vc [output_claim] b t in
     Inr (proof, w, challenge, output_claim, t))))"

section \<open>The clear recorder\<close>

definition clear_absorb_input_claims :: "('t, 'f) transcript_ops \<Rightarrow> 'f list \<Rightarrow> 't \<Rightarrow> 't" where
  "clear_absorb_input_claims ops claims t =
     fold (\<lambda>c t. append_labeled ops t SUMCHECK_CLAIM_TRANSCRIPT_LABEL c) claims t"

definition clear_finish ::
  "('t, 'f) transcript_ops \<Rightarrow> 'f compressed_poly list \<Rightarrow> 'f list \<Rightarrow> 't \<Rightarrow> ('f, 'c) sumcheck_proof \<times> 't"
where
  "clear_finish ops recorded output_claim_values t =
     (Clear (Compressed_Proof recorded),
      fold (\<lambda>c t. append_labeled ops t OPENING_CLAIM_TRANSCRIPT_LABEL c) output_claim_values t)"

section \<open>Committed proofs are consistent\<close>

text \<open>Committing a sequence of round polynomials.\<close>

fun commit_rounds ::
  "('t, 'f) transcript_ops \<Rightarrow> ('t \<Rightarrow> 'c \<Rightarrow> 't) \<Rightarrow> ('r \<Rightarrow> 'f \<times> 'r) \<Rightarrow> ('f, 'c) vector_commitment \<Rightarrow>
    'f univariate_poly list \<Rightarrow> ('f, 'c, 'r) committed_builder \<Rightarrow> 't \<Rightarrow>
    'f sumcheck_error + 'f list \<times> ('f, 'c, 'r) committed_builder \<times> 't"
where
  "commit_rounds ops ac rnd vc [] b t = Inr ([], b, t)"
| "commit_rounds ops ac rnd vc (p # ps) b t =
     bind_res (commit_round ops ac rnd vc p b t) (\<lambda>(r, b, t).
     bind_res (commit_rounds ops ac rnd vc ps b t) (\<lambda>(rs, b, t). Inr (r # rs, b, t)))"

lemma commit_round_facts:
  assumes "commit_round ops ac rnd vc p b t = Inr (r, b', t')"
  shows "\<exists>round blinding. cb_rounds b' = cb_rounds b @ [round] \<and> cr_degree round = up_degree p \<and>
    cr_commitment round = vc_commit vc p blinding \<and>
    draw_challenge ops (committed_round_append ops ac round t) = (r, t') \<and>
    cw_round_coefficients (cb_witness b') = cw_round_coefficients (cb_witness b) @ [p] \<and>
    cw_round_blindings (cb_witness b') = cw_round_blindings (cb_witness b) @ [blinding]"
  using assms
  by (auto simp: commit_round_def commit_witness_def Let_def up_degree_def elim!: bind_res_InrE
      split: if_splits prod.splits)

lemma commit_rounds_facts:
  assumes "commit_rounds ops ac rnd vc ps b t = Inr (rs, b', t')" "\<And>p. p \<in> set ps \<Longrightarrow> up_degree p \<le> d"
  shows "\<exists>rounds blindings vs. cb_rounds b' = cb_rounds b @ rounds \<and> length rounds = length ps \<and>
    verify_committed_rounds ops ac d rounds t = Inr (vs, t') \<and> consistency_challenges vs = rs \<and>
    consistency_commitments vs = map2 (vc_commit vc) ps blindings \<and> length blindings = length ps \<and>
    consistency_degrees vs = map up_degree ps \<and>
    cw_round_coefficients (cb_witness b') = cw_round_coefficients (cb_witness b) @ ps \<and>
    cw_round_blindings (cb_witness b') = cw_round_blindings (cb_witness b) @ blindings"
  using assms
proof (induction ps arbitrary: b t rs)
  case Nil
  then show ?case by (auto simp: consistency_challenges_def consistency_commitments_def consistency_degrees_def)
next
  case (Cons p ps)
  obtain r b1 t1 rs' where c: "commit_round ops ac rnd vc p b t = Inr (r, b1, t1)"
    "commit_rounds ops ac rnd vc ps b1 t1 = Inr (rs', b', t')" "rs = r # rs'"
    using Cons.prems(1) by (auto elim!: bind_res_InrE)
  obtain round blinding where one: "cb_rounds b1 = cb_rounds b @ [round]" "cr_degree round = up_degree p"
    "cr_commitment round = vc_commit vc p blinding"
    "draw_challenge ops (committed_round_append ops ac round t) = (r, t1)"
    "cw_round_coefficients (cb_witness b1) = cw_round_coefficients (cb_witness b) @ [p]"
    "cw_round_blindings (cb_witness b1) = cw_round_blindings (cb_witness b) @ [blinding]"
    using commit_round_facts [OF c(1)] by blast
  obtain rounds blindings vs where rest: "cb_rounds b' = cb_rounds b1 @ rounds" "length rounds = length ps"
    "verify_committed_rounds ops ac d rounds t1 = Inr (vs, t')" "consistency_challenges vs = rs'"
    "consistency_commitments vs = map2 (vc_commit vc) ps blindings" "length blindings = length ps"
    "consistency_degrees vs = map up_degree ps"
    "cw_round_coefficients (cb_witness b') = cw_round_coefficients (cb_witness b1) @ ps"
    "cw_round_blindings (cb_witness b') = cw_round_blindings (cb_witness b1) @ blindings"
    using Cons.IH [OF c(2)] Cons.prems(2) by force
  have "cr_degree round \<le> d" using one(2) Cons.prems(2) by simp
  then show ?case using one rest c(3)
    by (intro exI [of _ "round # rounds"] exI [of _ "blinding # blindings"]
        exI [of _ "\<lparr>vr_commitment = cr_commitment round, vr_degree = cr_degree round, vr_challenge = r\<rparr> # vs"])
      (simp add: consistency_challenges_def consistency_commitments_def consistency_degrees_def)
qed

lemma chunks_concat: "0 < n \<Longrightarrow> concat (chunks n xs) = xs"
proof (induction n xs rule: chunks.induct)
  case (1 n xs)
  then show ?case by (subst chunks.simps) auto
qed

lemma chunks_bound: "row \<in> set (chunks n xs) \<Longrightarrow> length row \<le> n"
proof (induction n xs rule: chunks.induct)
  case (1 n xs)
  then show ?case by (subst (asm) (2) chunks.simps) (auto split: if_splits)
qed

lemma commit_rows_facts:
  "map fst (fst (commit_rows rnd vc rows rng)) = map2 (vc_commit vc) rows (map snd (fst (commit_rows rnd vc rows rng))) \<and>
    length (fst (commit_rows rnd vc rows rng)) = length rows"
  by (induction rows arbitrary: rng) (auto split: prod.splits, (metis fst_conv)+)

text \<open>A committed proof passes its consistency check, with the challenges the builder drew, and the
  witness opens every commitment in it.\<close>

lemma committed_consistent:
  assumes "builder_new vc rng = Inr b0"
    and "commit_rounds ops ac rnd vc ps b0 t = Inr (rs, b, t1)"
    and "builder_finish ops ac rnd vc outputs b t1 = (p, w, t2)"
    and "\<And>p. p \<in> set ps \<Longrightarrow> up_degree p \<le> d"
  shows "\<exists>vs. verify_committed_consistency ops ac p \<lparr>ss_num_vars = length ps, ss_degree = d\<rparr> t = Inr (vs, t2) \<and>
    consistency_challenges vs = rs \<and> consistency_degrees vs = map up_degree ps \<and>
    cw_round_coefficients w = ps \<and> length (cw_round_blindings w) = length ps \<and>
    consistency_commitments vs = map2 (vc_commit vc) (cw_round_coefficients w) (cw_round_blindings w) \<and>
    concat (cw_output_rows w) = outputs \<and> length (cw_output_blindings w) = length (cw_output_rows w) \<and>
    map_option csp_output_claims (as_committed p) =
      Some (map2 (vc_commit vc) (cw_output_rows w) (cw_output_blindings w))"
proof -
  have cap: "0 < vc_capacity vc" and b0: "cb_rounds b0 = []" "cw_round_coefficients (cb_witness b0) = []"
    "cw_round_blindings (cb_witness b0) = []" "cw_output_rows (cb_witness b0) = []"
    "cw_output_blindings (cb_witness b0) = []"
    using assms(1) by (auto simp: builder_new_def split: if_splits)
  obtain rounds blindings vs where r: "cb_rounds b = rounds" "length rounds = length ps"
    "verify_committed_rounds ops ac d rounds t = Inr (vs, t1)" "consistency_challenges vs = rs"
    "consistency_commitments vs = map2 (vc_commit vc) ps blindings" "length blindings = length ps"
    "consistency_degrees vs = map up_degree ps" "cw_round_coefficients (cb_witness b) = ps"
    "cw_round_blindings (cb_witness b) = blindings"
    using commit_rounds_facts [OF assms(2,4)] b0 by auto
  have o: "cw_output_rows (cb_witness b) = []" "cw_output_blindings (cb_witness b) = []"
  proof -
    have "cw_output_rows (cb_witness b') = cw_output_rows (cb_witness b'') \<and>
        cw_output_blindings (cb_witness b') = cw_output_blindings (cb_witness b'')"
      if "commit_rounds ops ac rnd vc qs b'' t' = Inr (rs', b', t'')" for qs b'' t' rs' b' t''
      using that
    proof (induction qs arbitrary: b'' t' rs')
      case (Cons q qs)
      then show ?case
        by (fastforce simp: commit_round_def Let_def elim!: bind_res_InrE split: if_splits prod.splits)
    qed simp
    then show "cw_output_rows (cb_witness b) = []" "cw_output_blindings (cb_witness b) = []"
      using assms(2) b0(4,5) by metis+
  qed
  show ?thesis using assms(3) r o chunks_concat [OF cap] commit_rows_facts [of rnd vc]
    by (auto simp: builder_finish_def Let_def verify_committed_round_consistency_def)
qed

end
