(* ===== verification/Sumcheck_Props.thy ===== *)
theory Sumcheck_Props
  imports Sumcheck_Committed
begin

text \<open>
  The properties of the polynomial and sumcheck crates, with their instances over the field of
  three elements.
\<close>

section \<open>A small field\<close>

datatype gf3 = G0 | G1 | G2

instantiation gf3 :: field
begin

definition zero_gf3 :: gf3 where "zero_gf3 = G0"
definition one_gf3 :: gf3 where "one_gf3 = G1"

fun plus_gf3 :: "gf3 \<Rightarrow> gf3 \<Rightarrow> gf3" where
  "plus_gf3 G0 y = y" | "plus_gf3 x G0 = x" | "plus_gf3 G1 G1 = G2" | "plus_gf3 G1 G2 = G0"
| "plus_gf3 G2 G1 = G0" | "plus_gf3 G2 G2 = G1"

fun times_gf3 :: "gf3 \<Rightarrow> gf3 \<Rightarrow> gf3" where
  "times_gf3 G0 y = G0" | "times_gf3 x G0 = G0" | "times_gf3 G1 y = y" | "times_gf3 x G1 = x"
| "times_gf3 G2 G2 = G1"

fun uminus_gf3 :: "gf3 \<Rightarrow> gf3" where
  "uminus_gf3 G0 = G0" | "uminus_gf3 G1 = G2" | "uminus_gf3 G2 = G1"

definition minus_gf3 :: "gf3 \<Rightarrow> gf3 \<Rightarrow> gf3" where "minus_gf3 x y = x + - y"
definition inverse_gf3 :: "gf3 \<Rightarrow> gf3" where "inverse_gf3 x = x"
definition divide_gf3 :: "gf3 \<Rightarrow> gf3 \<Rightarrow> gf3" where "divide_gf3 x y = x * inverse y"

instance
proof
  fix a b c :: gf3
  show "a * b * c = a * (b * c)" by (cases a; cases b; cases c) simp_all
  show "a * b = b * a" by (cases a; cases b) simp_all
  show "1 * a = a" by (cases a) (simp_all add: one_gf3_def)
  show "a + b + c = a + (b + c)" by (cases a; cases b; cases c) simp_all
  show "a + b = b + a" by (cases a; cases b) simp_all
  show "0 + a = a" by (simp add: zero_gf3_def)
  show "- a + a = 0" by (cases a) (simp_all add: zero_gf3_def)
  show "a - b = a + - b" by (rule minus_gf3_def)
  show "(a + b) * c = a * c + b * c" by (cases a; cases b; cases c) simp_all
  show "(0 :: gf3) \<noteq> 1" by (simp add: zero_gf3_def one_gf3_def)
  show "a \<noteq> 0 \<Longrightarrow> inverse a * a = 1" by (cases a) (simp_all add: zero_gf3_def one_gf3_def inverse_gf3_def)
  show "a div b = a * inverse b" by (rule divide_gf3_def)
  show "inverse (0 :: gf3) = 0" by (simp add: zero_gf3_def inverse_gf3_def)
qed

end

instance gf3 :: finite
proof
  have univ: "(UNIV :: gf3 set) = {G0, G1, G2}" using gf3.exhaust by auto
  show "finite (UNIV :: gf3 set)" unfolding univ by simp
qed

lemma gf3_minus:
  "x - G0 = x" "G0 - G1 = G2" "G0 - G2 = G1" "G1 - G1 = G0" "G1 - G2 = G2" "G2 - G1 = G1" "G2 - G2 = G0"
  by (simp_all only: minus_gf3_def uminus_gf3.simps plus_gf3.simps) (cases x; simp)

lemmas gf3_simps = zero_gf3_def one_gf3_def gf3_minus inverse_gf3_def divide_gf3_def

lemma gf3_two: "(2 :: gf3) = G2"
  using one_add_one [where 'a = gf3] by (simp add: one_gf3_def)

section \<open>An honest prover by interpolation\<close>

text \<open>The round polynomial interpolated through the sums at \<open>d + 1\<close> points.\<close>

definition interpolated_round ::
  "sumcheck_domain_spec \<Rightarrow> string \<Rightarrow> 'f::field list \<Rightarrow> nat \<Rightarrow> ('f list \<Rightarrow> 'f) \<Rightarrow> 'f clear_round"
where
  "interpolated_round domain label points n g =
     (case interpolate (map (\<lambda>x. (x, grid_sum (domain_points domain) n (\<lambda>xs. g (x # xs)))) points) of
        None \<Rightarrow> Labeled_Round [] label
      | Some p \<Rightarrow> Labeled_Round p label)"

lemma interpolated_honest:
  fixes points :: "'f::field list"
  assumes "distinct points" "length points = Suc d" "round_sum_coefficients domain d = Inr (cs :: 'f list)"
  shows "honest domain d (interpolated_round domain label points)"
  unfolding honest_def
proof (intro allI impI)
  fix n k and g :: "'f list \<Rightarrow> 'f"
  assume g: "individual_degree d (Suc n) g"
  let ?f = "\<lambda>x. grid_sum (domain_points domain) n (\<lambda>xs. g (x # xs))"
  let ?pts = "map (\<lambda>x. (x, ?f x)) points"
  have "distinct (map fst ?pts)" "?pts \<noteq> []" using assms(1,2) by (auto simp: o_def)
  then obtain p where p: "interpolate ?pts = Some p" "length p = Suc d" "\<And>x. x \<in> set points \<Longrightarrow> up_evaluate p x = ?f x"
    using interpolate_correct [of ?pts] assms(2) by auto
  have "\<exists>h. length h \<le> Suc d \<and> (\<forall>x. ?f x = up_evaluate h x)"
    using grid_sum_poly [of n d "\<lambda>x xs. g (x # xs)"] g by simp
  then obtain h where h: "length h \<le> Suc d" "\<And>x. ?f x = up_evaluate h x" by blast
  have agree: "up_evaluate p x = up_evaluate h x" for x
  proof (rule ccontr)
    assume ne: "up_evaluate p x \<noteq> up_evaluate h x"
    note b = up_agree_bound [OF _ h(1) ne]
    have "set points \<subseteq> {x. up_evaluate p x = up_evaluate h x}" using p(3) h(2) by auto
    then have "card (set points) \<le> d" using b p(2) card_mono by (metis (no_types, lifting) le_refl order_trans)
    then show False using assms(1,2) by (simp add: distinct_card)
  qed
  have r: "interpolated_round domain label points n g = Labeled_Round p label"
    by (simp add: interpolated_round_def p(1))
  show "(\<forall>x. round_evaluate (interpolated_round domain label points n g) x = ?f x) \<and>
     round_degree (interpolated_round domain label points n g) \<le> d \<and>
     check_round_well_formed (interpolated_round domain label points n g) k = Inr () \<and>
     (\<exists>cs :: 'f list. round_sum_coefficients domain (round_degree (interpolated_round domain label points n g)) = Inr cs)"
    using agree h(2) p(2) assms(3) by (auto simp: r round_evaluate_def round_degree_def up_degree_def)
qed

section \<open>Soundness and completeness\<close>

lemma coin_challenges:
  assumes "verify_rounds coin_ops domain d k s rounds rs = Inr (challenges, v, t)" "length rounds = length rs"
  shows "challenges = rs"
  using assms
proof (induction rounds arbitrary: k s rs challenges)
  case Nil
  then show ?case by simp
next
  case (Cons round rounds)
  then obtain r rs' where rs: "rs = r # rs'" by (cases rs) auto
  show ?case using Cons.prems Cons.IH [of "Suc k" "round_evaluate round r" rs']
    by (auto simp: rs elim!: bind_res_InrE split: if_splits)
qed

lemma verify_accepted:
  "{rs. length rs = n \<and> (\<exists>e t. sumcheck_verify coin_ops
      \<lparr>sc_num_vars = n, sc_degree = d, sc_claimed_sum = s\<rparr> (prover_rounds prover n rs) domain rs = Inr (e, t) \<and>
      ec_value e = g (ec_point e))} \<subseteq> accepted domain d 0 s prover g n"
proof
  fix rs
  assume "rs \<in> {rs. length rs = n \<and> (\<exists>e t. sumcheck_verify coin_ops
      \<lparr>sc_num_vars = n, sc_degree = d, sc_claimed_sum = s\<rparr> (prover_rounds prover n rs) domain rs = Inr (e, t) \<and>
      ec_value e = g (ec_point e))}"
  then obtain challenges v t where "length rs = n"
    "verify_rounds coin_ops domain d 0 s (prover_rounds prover n rs) rs = Inr (challenges, v, t)" "v = g challenges"
    by (auto simp: sumcheck_verify_def prover_rounds_def elim!: bind_res_InrE)
  then show "rs \<in> accepted domain d 0 s prover g n"
    using coin_challenges [of domain d 0 s "prover_rounds prover n rs" rs challenges v t]
    by (auto simp: accepted_def prover_rounds_def)
qed

text \<open>C23: soundness of the sumcheck verifier. Against a false claim about a function of individual
  degree at most \<open>d\<close> in \<open>n\<close> variables, whatever a prover sends that sees the challenges as
  they are drawn, at most \<open>n * d * |F|^(n-1)\<close> of the \<open>|F|^n\<close> challenge vectors make the verifier
  end in a true evaluation claim, over the Boolean hypercube and over centered integer domains.\<close>

theorem sumcheck_sound:
  fixes g :: "'f::{field, finite} list \<Rightarrow> 'f"
  assumes "individual_degree d n g" "s \<noteq> grid_sum (domain_points domain) n g"
  shows "card {rs. length rs = n \<and> (\<exists>e t. sumcheck_verify coin_ops
      \<lparr>sc_num_vars = n, sc_degree = d, sc_claimed_sum = s\<rparr> (prover_rounds prover n rs) domain rs = Inr (e, t) \<and>
      ec_value e = g (ec_point e))} \<le> n * d * CARD('f) ^ (n - 1)"
proof -
  have "finite (accepted domain d 0 s prover g n)"
    by (rule finite_subset [of _ "{rs. length rs = n}"])
      (auto simp: accepted_def finite_lists_length_eq [of UNIV n, simplified])
  from card_mono [OF this verify_accepted] accepted_bound [OF assms] show ?thesis by (rule order_trans)
qed

definition product2 :: "gf3 list \<Rightarrow> gf3" where
  "product2 xs = xs ! 0 * xs ! 1"

lemma product2_degree: "individual_degree (Suc 0) (Suc (Suc 0)) product2"
proof -
  have "\<exists>p. length p \<le> 2 \<and> (\<forall>x. product2 (x # xs) = up_evaluate p x)" for xs
    by (intro exI [of _ "[0, xs ! 0]"]) (simp add: product2_def)
  moreover have "\<exists>p. length p \<le> 2 \<and> (\<forall>x. product2 [y, x] = up_evaluate p x)" for y
    by (intro exI [of _ "[0, y]"]) (simp add: product2_def mult.commute)
  ultimately show ?thesis by (simp add: numeral_2_eq_2)
qed

theorem sumcheck_sound_witness:
  "card {rs. length rs = Suc (Suc 0) \<and> (\<exists>e t. sumcheck_verify coin_ops
      \<lparr>sc_num_vars = Suc (Suc 0), sc_degree = Suc 0, sc_claimed_sum = G2\<rparr>
      (prover_rounds (\<lambda>_. Poly_Round [G1, G1]) (Suc (Suc 0)) rs) BooleanHypercube rs = Inr (e, t) \<and>
      ec_value e = product2 (ec_point e))} \<le> Suc (Suc 0) * Suc 0 * CARD(gf3) ^ (Suc (Suc 0) - 1)"
  by (rule sumcheck_sound [OF product2_degree]) (simp add: product2_def gf3_simps)

text \<open>C24: completeness of the sumcheck verifier. The prover that sends, in every round, the
  polynomial interpolated through the sums over the remaining variables at \<open>d + 1\<close> points
  is accepted on the true sum, on every transcript, and the evaluation claim left is true.\<close>

theorem sumcheck_complete:
  fixes g :: "'f::field list \<Rightarrow> 'f"
  assumes "individual_degree d n g" "distinct points" "length points = Suc d"
    and "round_sum_coefficients domain d = Inr (cs :: 'f list)"
  shows "\<exists>e t'. sumcheck_verify ops
      \<lparr>sc_num_vars = n, sc_degree = d, sc_claimed_sum = grid_sum (domain_points domain) n g\<rparr>
      (honest_rounds ops (interpolated_round domain label points) n g t) domain t = Inr (e, t') \<and>
    length (ec_point e) = n \<and> ec_value e = g (ec_point e)"
proof -
  note h = interpolated_honest [OF assms(2-4), of label]
  show ?thesis using honest_accepted [OF assms(1) h, of ops 0 t] by (auto simp: sumcheck_verify_def)
qed

theorem sumcheck_complete_witness:
  "\<exists>e t'. sumcheck_verify coin_ops
      \<lparr>sc_num_vars = Suc (Suc 0), sc_degree = Suc 0,
       sc_claimed_sum = grid_sum (domain_points BooleanHypercube) (Suc (Suc 0)) product2\<rparr>
      (honest_rounds coin_ops (interpolated_round BooleanHypercube ''round'' [G0, G2]) (Suc (Suc 0)) product2 [G2, G2])
      BooleanHypercube [G2, G2] = Inr (e, t') \<and>
    length (ec_point e) = Suc (Suc 0) \<and> ec_value e = product2 (ec_point e)"
  by (rule sumcheck_complete [OF product2_degree, where cs = "[2, 1]"]) simp_all

section \<open>Compressed proofs\<close>

text \<open>C25: the compressed verifier, which reconstructs the omitted linear coefficient from the running
  sum, accepts a list of compressed polynomials exactly when they are the compressions of a full
  proof that the full verifier accepts, with the same evaluation claim and the same transcript.\<close>

theorem compressed_verifier_equivalent:
  fixes cs :: "'f::field compressed_poly list"
  shows "verify_compressed ops claim cs label t = Inr res \<longleftrightarrow>
    (\<exists>ps. map up_compress ps = map Some cs \<and>
      sumcheck_verify ops claim (map (\<lambda>p. Compressed_Labeled_Round p label) ps) BooleanHypercube t = Inr res)"
proof (cases "length cs = sc_num_vars claim")
  case True
  have len: "length ps = length cs" if "map up_compress ps = map Some cs" for ps :: "'f univariate_poly list"
    using that by (metis length_map)
  show ?thesis
  proof
    assume "verify_compressed ops claim cs label t = Inr res"
    then obtain rs v t' where "verify_compressed_rounds ops label (sc_degree claim) 0 (sc_claimed_sum claim) cs t =
        Inr (rs, v, t')" "res = (\<lparr>ec_point = rs, ec_value = v\<rparr>, t')"
      using True by (auto simp: verify_compressed_def elim!: bind_res_InrE)
    then show "\<exists>ps. map up_compress ps = map Some cs \<and>
        sumcheck_verify ops claim (map (\<lambda>p. Compressed_Labeled_Round p label) ps) BooleanHypercube t = Inr res"
      using len True unfolding compressed_rounds_iff by (fastforce simp: sumcheck_verify_def)
  next
    assume "\<exists>ps. map up_compress ps = map Some cs \<and>
        sumcheck_verify ops claim (map (\<lambda>p. Compressed_Labeled_Round p label) ps) BooleanHypercube t = Inr res"
    then obtain ps rs v t' where "map up_compress ps = map Some cs"
      "verify_rounds ops BooleanHypercube (sc_degree claim) 0 (sc_claimed_sum claim)
        (map (\<lambda>p. Compressed_Labeled_Round p label) ps) t = Inr (rs, v, t')"
      "res = (\<lparr>ec_point = rs, ec_value = v\<rparr>, t')"
      using len True by (auto simp: sumcheck_verify_def elim!: bind_res_InrE split: if_splits)
    then have "verify_compressed_rounds ops label (sc_degree claim) 0 (sc_claimed_sum claim) cs t = Inr (rs, v, t')"
      unfolding compressed_rounds_iff by blast
    then show "verify_compressed ops claim cs label t = Inr res"
      using True \<open>res = _\<close> by (simp add: verify_compressed_def)
  qed
next
  case False
  have "length ps \<noteq> sc_num_vars claim" if "map up_compress ps = map Some cs" for ps :: "'f univariate_poly list"
    using that False by (metis length_map)
  then show ?thesis using False by (auto simp: verify_compressed_def sumcheck_verify_def)
qed

section \<open>The batched prover\<close>

text \<open>C26: what the batched prover records verifies. When \<^verbatim>\<open>prove_batch\<close> succeeds with the clear
  recorder, the compressed verifier accepts the recorded proof for the batch's combined claim from
  the same transcript, and ends with the prover's challenges, final claim and transcript.\<close>

theorem batch_proof_verifies:
  assumes "prove_batch ops rp prelude members t = Inr (proved, members', recorded, t')"
    and "1 \<le> bp_max_degree prelude"
  shows "verify_compressed_boolean ops (Clear (Compressed_Proof recorded) :: ('f::field, 'c) sumcheck_proof)
      (bp_max_num_vars prelude) (bp_max_degree prelude) (bp_claimed_sum prelude) t =
    Inr (\<lparr>ec_point = pb_challenges proved, ec_value = pb_final_claim proved\<rparr>, t')"
  using prove_batch_verified [OF assms(1)] assms(2) by (simp add: claim_new_def)

text \<open>C27: the batch's final claim is the sum of the members' final claims, weighted with their
  batching coefficients, and there is one for every member: checking it reduces to checking every
  member at its own point.\<close>

theorem batch_final_claim:
  assumes "prelude_new ms n d = Some prelude"
    and "prove_batch ops rp prelude members t = Inr (proved, members', recorded, t')"
  shows "length (pb_member_claims proved) = length ms \<and>
    pb_final_claim proved = (\<Sum>(m, c) \<leftarrow> zip ms (pb_member_claims proved). bm_coefficient m * c)"
  using prove_batch_combines [OF assms] by (simp add: weighted_claims_def)

text \<open>C28: a batch of honest members succeeds. When every member's window lies in the batch, its claim
  when its window opens is the one its state stands for, its round polynomials sum to its claim
  within the degree bound and lead to a state for the new claim whatever the challenge, then
  \<^verbatim>\<open>prove_batch\<close> returns a proof on every transcript, whatever the windows and their order.\<close>

theorem honest_batch_succeeds:
  fixes ms :: "'f::field batch_member list"
  assumes "prelude_new ms n d = Some prelude" "members_ready rp n P ms members" "honest_members rp d P"
    and "(2 :: 'f) \<noteq> 0" "1 \<le> d"
  shows "\<exists>proved members' recorded t'. prove_batch ops rp prelude members t = Inr (proved, members', recorded, t')"
  by (rule prove_batch_succeeds [OF assms(1-4) disjI1 [OF assms(5)]])

text \<open>A member over the three-element field that halves a linear polynomial: its state is the claim.\<close>

definition half_member :: "(gf3, gf3) round_prover" where
  "half_member = \<lparr>rp_num_rounds = \<lambda>s. 1, rp_prove_round = \<lambda>s b k c. Inr ([c * G2, G0], s),
     rp_finish_rounds = \<lambda>s r. Inr s\<rparr>"

definition two_members :: "gf3 batch_member list" where
  "two_members = [\<lparr>bm_input_claim = G1, bm_coefficient = G2, bm_rounds = 1, bm_offset = 1\<rparr>,
     \<lparr>bm_input_claim = G2, bm_coefficient = G1, bm_rounds = 1, bm_offset = 0\<rparr>]"

definition two_prelude :: "gf3 batch_prelude" where
  "two_prelude = the (prelude_new two_members 2 1)"

lemma two_prelude: "prelude_new two_members 2 1 = Some two_prelude"
  by (simp add: prelude_new_def two_prelude_def two_members_def)

lemma half_member_honest: "honest_members half_member 1 (\<lambda>m k s b c. bm_rounds m = 1)"
proof -
  have "c * G2 + (c * G2 + 1 * 0) = c" for c :: gf3 by (cases c) (simp_all add: gf3_simps)
  then show ?thesis by (auto simp: honest_members_def half_member_def up_degree_def gf3_simps)
qed

theorem honest_batch_succeeds_witness:
  "\<exists>proved members' recorded t'.
    prove_batch coin_ops half_member two_prelude [G0, G0] [G1, G2] = Inr (proved, members', recorded, t')"
  by (rule honest_batch_succeeds [OF two_prelude _ half_member_honest])
    (simp_all add: members_ready_def two_members_def half_member_def gf3_two zero_gf3_def)


lemma two_run:
  "prove_batch coin_ops half_member two_prelude [G0, G0] [G1, G2] =
    Inr (\<lparr>pb_challenges = [G1, G2], pb_final_claim = G2, pb_member_claims = [G2, G1]\<rparr>, [G0, G0], [[G1], [G2]], [])"
  by code_simp

theorem batch_proof_verifies_witness:
  "verify_compressed_boolean coin_ops (Clear (Compressed_Proof [[G1], [G2]]) :: (gf3, unit) sumcheck_proof)
      (bp_max_num_vars two_prelude) (bp_max_degree two_prelude) (bp_claimed_sum two_prelude) [G1, G2] =
    Inr (\<lparr>ec_point = [G1, G2], ec_value = G2\<rparr>, [])"
  using batch_proof_verifies [OF two_run] by (simp add: two_prelude_def prelude_new_def two_members_def)

theorem batch_final_claim_witness:
  "length two_members = 2 \<and> G2 = (\<Sum>(m, c) \<leftarrow> zip two_members [G2, G1]. bm_coefficient m * c)"
  using batch_final_claim [OF two_prelude two_run] by simp

text \<open>C29: a committed sumcheck proof passes its consistency check. The proof the committed builder
  assembles from a sequence of round polynomials within the degree bound is accepted from the same
  transcript, with the builder's challenges and transcript, the polynomials' degrees, and a witness
  that opens every round commitment and every output-claim row, the rows being the output claims in
  order.\<close>

theorem committed_proof_consistent:
  assumes "builder_new vc rng = Inr b0"
    and "commit_rounds ops ac rnd vc ps b0 t = Inr (rs, b, t1)"
    and "builder_finish ops ac rnd vc outputs b t1 = (p, w, t2)"
    and "\<And>p. p \<in> set ps \<Longrightarrow> up_degree p \<le> d"
  shows "\<exists>vs. verify_committed_consistency ops ac p \<lparr>ss_num_vars = length ps, ss_degree = d\<rparr> t = Inr (vs, t2) \<and>
    consistency_challenges vs = rs \<and> consistency_degrees vs = map up_degree ps \<and>
    cw_round_coefficients w = ps \<and> length (cw_round_blindings w) = length ps \<and>
    consistency_commitments vs = map2 (vc_commit vc) (cw_round_coefficients w) (cw_round_blindings w) \<and>
    concat (cw_output_rows w) = outputs \<and> length (cw_output_blindings w) = length (cw_output_rows w) \<and>
    map_option csp_output_claims (as_committed p) =
      Some (map2 (vc_commit vc) (cw_output_rows w) (cw_output_blindings w))"
  by (rule committed_consistent [OF assms])

text \<open>A commitment that is the blinded sum, and a generator that counts.\<close>

definition sum_commitment :: "(gf3, gf3) vector_commitment" where
  "sum_commitment = \<lparr>vc_capacity = 2, vc_commit = \<lambda>v b. sum_list v + b\<rparr>"

definition count_rng :: "gf3 \<Rightarrow> gf3 \<times> gf3" where
  "count_rng r = (r, r + 1)"

definition keep_transcript :: "gf3 list \<Rightarrow> gf3 \<Rightarrow> gf3 list" where
  "keep_transcript t c = t"

definition example_builder :: "(gf3, gf3, gf3) committed_builder" where
  "example_builder = \<lparr>cb_rng = G0, cb_rounds = [], cb_witness =
     \<lparr>cw_round_coefficients = [], cw_round_blindings = [], cw_output_rows = [], cw_output_blindings = []\<rparr>\<rparr>"

lemma example_committed:
  "builder_new sum_commitment G0 = Inr example_builder"
  "commit_rounds coin_ops keep_transcript count_rng sum_commitment [[G1, G2]] example_builder [G2] =
    Inr ([G2], \<lparr>cb_rng = G1, cb_rounds = [\<lparr>cr_commitment = G0, cr_degree = 1\<rparr>], cb_witness =
      \<lparr>cw_round_coefficients = [[G1, G2]], cw_round_blindings = [G0], cw_output_rows = [],
       cw_output_blindings = []\<rparr>\<rparr>, [])"
  by (simp_all add: builder_new_def commit_round_def commit_witness_def sum_commitment_def example_builder_def count_rng_def committed_round_append_def keep_transcript_def Let_def gf3_simps coin_ops_def)

lemma example_finished:
  "builder_finish coin_ops keep_transcript count_rng sum_commitment [G0, G1, G0]
     \<lparr>cb_rng = G1, cb_rounds = [\<lparr>cr_commitment = G0, cr_degree = 1\<rparr>], cb_witness =
      \<lparr>cw_round_coefficients = [[G1, G2]], cw_round_blindings = [G0], cw_output_rows = [],
       cw_output_blindings = []\<rparr>\<rparr> [] =
    (Committed \<lparr>csp_rounds = [\<lparr>cr_commitment = G0, cr_degree = 1\<rparr>], csp_output_claims = [G2, G2]\<rparr>,
     \<lparr>cw_round_coefficients = [[G1, G2]], cw_round_blindings = [G0], cw_output_rows = [[G0, G1], [G0]],
       cw_output_blindings = [G1, G2]\<rparr>, [])"
  by (simp add: builder_finish_def sum_commitment_def count_rng_def output_claims_append_def keep_transcript_def Let_def gf3_simps coin_ops_def chunks.simps)

theorem committed_proof_consistent_witness:
  "\<exists>vs. verify_committed_consistency coin_ops keep_transcript
      (Committed \<lparr>csp_rounds = [\<lparr>cr_commitment = G0, cr_degree = 1\<rparr>], csp_output_claims = [G2, G2]\<rparr>
        :: (gf3, gf3) sumcheck_proof)
      \<lparr>ss_num_vars = length [[G1, G2]], ss_degree = 1\<rparr> [G2] = Inr (vs, []) \<and> consistency_challenges vs = [G2]"
proof -
  obtain vs where "verify_committed_consistency coin_ops keep_transcript
      (Committed \<lparr>csp_rounds = [\<lparr>cr_commitment = G0, cr_degree = 1\<rparr>], csp_output_claims = [G2, G2]\<rparr>
        :: (gf3, gf3) sumcheck_proof)
      \<lparr>ss_num_vars = length [[G1, G2]], ss_degree = 1\<rparr> [G2] = Inr (vs, [])" "consistency_challenges vs = [G2]"
    using committed_proof_consistent [OF example_committed example_finished, of 1]
    by (auto simp: up_degree_def simp del: verify_committed_consistency.simps)
  then show ?thesis by blast
qed

text \<open>The points of a batched committed proof. Reading an instance's challenges at an offset
  succeeds exactly when the range does not overflow and lies in the rounds, and then gives the
  challenges of that range; otherwise it is the error that names the range.\<close>

theorem instance_point_result:
  "try_instance_point_at bc offset n =
    (if offset + n < 2 ^ 64 \<and> offset + n \<le> length (bc_rounds bc)
     then Inr (map (\<lambda>i. consistency_challenges (bc_rounds bc) ! i) [offset..<offset + n])
     else if 2 ^ 64 \<le> offset + n then Inl (BatchedPointRangeOverflow offset n)
     else Inl (BatchedPointOutOfRange offset n (length (bc_rounds bc))))"
proof -
  have "map vr_challenge (take n (drop offset xs)) = map (\<lambda>i. consistency_challenges xs ! i) [offset..<offset + n]"
    if "offset + n \<le> length xs" for xs :: "('a, 'b) verified_committed_round list"
    using that by (intro nth_equalityI) (simp_all add: consistency_challenges_def)
  then show ?thesis by (simp add: try_instance_point_at_def)
qed

section \<open>Univariate polynomials\<close>

text \<open>Interpolation. Through any distinct points, \<^verbatim>\<open>interpolate\<close> returns the polynomial
  with as many coefficients as points that takes the given values, and no other polynomial of that
  length does.\<close>

theorem interpolate_unique:
  fixes points :: "('f::field \<times> 'f) list"
  assumes "distinct (map fst points)" "points \<noteq> []"
  shows "\<exists>p. interpolate points = Some p \<and> length p = length points \<and>
    (\<forall>(x, y) \<in> set points. up_evaluate p x = y) \<and>
    (\<forall>q. length q \<le> length points \<longrightarrow> (\<forall>(x, y) \<in> set points. up_evaluate q x = y) \<longrightarrow>
      (\<forall>x. up_evaluate q x = up_evaluate p x))"
proof -
  obtain p where p: "interpolate points = Some p" "length p = length points"
    "\<forall>(x, y) \<in> set points. up_evaluate p x = y"
    using interpolate_correct [OF assms] by blast
  obtain d where d: "length points = Suc d" using assms(2) by (cases points) auto
  have "up_evaluate q x = up_evaluate p x"
    if q: "length q \<le> length points" "\<forall>(x, y) \<in> set points. up_evaluate q x = y" for q x
  proof (rule ccontr)
    assume ne: "up_evaluate q x \<noteq> up_evaluate p x"
    have b: "finite {x. up_evaluate q x = up_evaluate p x} \<and> card {x. up_evaluate q x = up_evaluate p x} \<le> d"
      by (rule up_agree_bound [OF _ _ ne]) (use q(1) p(2) d in simp_all)
    have "fst ` set points \<subseteq> {x. up_evaluate q x = up_evaluate p x}" using p(3) q(2) by fastforce
    then have "card (set (map fst points)) \<le> d" using b card_mono by (metis list.set_map order_trans)
    then show False using assms(1) d distinct_card by (metis length_map not_less_eq_eq order_refl)
  qed
  then show ?thesis using p by blast
qed

theorem interpolate_unique_witness:
  "interpolate [(G0, G1), (G1, G1), (G2, G0)] = Some [G1, G2, G1] \<and>
    up_evaluate [G1, G2, G1] G2 = G0"
proof -
  have "\<exists>p. interpolate [(G0, G1), (G1, G1), (G2, G0)] = Some p \<and> (\<forall>(x, y) \<in> set [(G0, G1), (G1, G1), (G2, G0)]. up_evaluate p x = y)"
    using interpolate_unique [of "[(G0, G1), (G1, G1), (G2, G0)]"] by auto
  moreover have "interpolate [(G0, G1), (G1, G1), (G2, G0)] = Some [G1, G2, G1]" by code_simp
  ultimately show ?thesis by auto
qed

text \<open>C30: division with remainder always terminates; it returns nothing exactly for the division of a
  polynomial that is not zero by zero; otherwise quotient and remainder satisfy the division
  equation, and the remainder is zero or shorter than the divisor stripped of its zeros unless the
  divisor is zero.\<close>

theorem divide_with_remainder_correct:
  "(divide_with_remainder p divisor \<noteq> None) \<and>
   (divide_with_remainder p divisor = Some None \<longleftrightarrow> up_is_zero divisor \<and> \<not> up_is_zero p) \<and>
   (\<forall>q r. divide_with_remainder p divisor = Some (Some (q, r)) \<longrightarrow>
     (\<forall>x. up_evaluate p x = up_evaluate q x * up_evaluate divisor x + up_evaluate r x) \<and>
     (up_is_zero r \<or> length r < length (strip_zeros divisor)))"
proof (cases "up_is_zero divisor")
  case True
  have z: "up_evaluate p x = 0" if "up_is_zero p" for x
    using that strip_zeros_empty [of p] up_evaluate_strip [of p x] by simp
  show ?thesis using True strip_zeros_empty [of divisor] z
    by (auto simp: divide_with_remainder_def up_zero_def up_is_zero_def)
next
  case False
  then show ?thesis using divide_with_remainder_facts [OF False, of p] by auto
qed

lemma example_division:
  "divide_loop [G2, G1] G1 [G1, G0, G1] [G0, G0] = Some ([G1, G1], [G2])"
proof -
  have "divide_loop [G2, G1] G1 [G1, G0, G1] [G0, G0] = divide_loop [G2, G1] G1 [G1, G1] [G0, G1]"
    by (subst divide_loop.simps) (simp add: divide_step_def strip_zeros_def up_is_zero_def gf3_simps)
  also have "\<dots> = divide_loop [G2, G1] G1 [G2] [G1, G1]"
    by (subst divide_loop.simps) (simp add: divide_step_def strip_zeros_def up_is_zero_def gf3_simps)
  also have "\<dots> = Some ([G1, G1], [G2])" by (subst divide_loop.simps) simp
  finally show ?thesis .
qed

theorem divide_with_remainder_correct_witness:
  "divide_with_remainder [G1, G0, G1] [G2, G1, G0] = Some (Some ([G1, G1], [G2])) \<and>
    up_evaluate [G1, G0, G1] G2 = up_evaluate [G1, G1] G2 * up_evaluate [G2, G1, G0] G2 + up_evaluate [G2] G2"
proof -
  have d: "divide_with_remainder [G1, G0, G1] [G2, G1, G0] = Some (Some ([G1, G1], [G2]))"
    by (simp add: divide_with_remainder_def strip_zeros_def up_is_zero_def gf3_simps example_division)
  show ?thesis using divide_with_remainder_correct [of "[G1, G0, G1]" "[G2, G1, G0]"] d by blast
qed

text \<open>Round trip of a round polynomial through its compressed form, with the sum of its values at
  0 and 1 as the hint: decompression gives the coefficients back, and the value computed from the
  compressed form is the polynomial's.\<close>

theorem compressed_poly_roundtrip:
  assumes "up_compress p = Some c"
  shows "decompress c (up_evaluate p 0 + up_evaluate p 1) = Some p \<and> cp_degree c = up_degree p \<and>
    evaluate_with_hint c (up_evaluate p 0 + up_evaluate p 1) x = Some (up_evaluate p x)"
  using compress_decompress [OF assms] decompress_sum(3) [OF compress_decompress [OF assms]]
  by (simp add: eval_from_hint_decompress)

theorem compressed_poly_roundtrip_witness:
  "decompress [G1, G2] (up_evaluate [G1, G1, G2] 0 + up_evaluate [G1, G1, G2] 1) = Some [G1, G1, G2]"
  using compressed_poly_roundtrip [of "[G1, G1, G2]" "[G1, G2]"] by (simp add: up_compress_def)

end
