(* ===== verification/R1cs_Builder.thy ===== *)
theory R1cs_Builder
  imports R1cs_Matrices
begin

text \<open>
  \<^verbatim>\<open>jolt-r1cs/src/builder.rs\<close>: linear combinations over the variables of a constraint
  system, and the builder that allocates variables and asserts products of linear combinations.
  A failing \<^verbatim>\<open>assert!\<close> is \<open>None\<close>.
\<close>

section \<open>Linear combinations\<close>

text \<open>\<^verbatim>\<open>Variable\<close> is an index; variable 0 is the constant one.\<close>

type_synonym r1cs_variable = nat

definition ONE :: r1cs_variable where "ONE = 0"

datatype r1cs_builder_error =
    MissingWitnessValue r1cs_variable
  | VariableOutOfBounds r1cs_variable nat
  | CannotAssignOne
  | WitnessAlreadyAssigned r1cs_variable

type_synonym 'f linear_combination = "(r1cs_variable \<times> 'f) list"

definition lc_zero :: "'f linear_combination" where "lc_zero = []"

definition lc_constant :: "'f::comm_ring_1 \<Rightarrow> 'f linear_combination" where
  "lc_constant c = (if c = 0 then lc_zero else [(ONE, c)])"

definition lc_one :: "'f::comm_ring_1 linear_combination" where "lc_one = lc_constant 1"

definition lc_variable :: "r1cs_variable \<Rightarrow> 'f::comm_ring_1 linear_combination" where
  "lc_variable v = [(v, 1)]"

definition lc_scale :: "'f::comm_ring_1 linear_combination \<Rightarrow> 'f \<Rightarrow> 'f linear_combination" where
  "lc_scale l a = (if a = 0 then lc_zero else map (\<lambda>(v, c). (v, c * a)) l)"

definition lc_add :: "'f linear_combination \<Rightarrow> 'f linear_combination \<Rightarrow> 'f linear_combination" where
  "lc_add l r = l @ r"

definition lc_neg :: "'f::comm_ring_1 linear_combination \<Rightarrow> 'f linear_combination" where
  "lc_neg l = map (\<lambda>(v, c). (v, - c)) l"

definition lc_sub :: "'f::comm_ring_1 linear_combination \<Rightarrow> 'f linear_combination \<Rightarrow> 'f linear_combination" where
  "lc_sub l r = lc_add l (lc_neg r)"

definition lc_evaluate ::
  "'f::comm_ring_1 linear_combination \<Rightarrow> 'f option list \<Rightarrow> r1cs_builder_error + 'f"
where
  "lc_evaluate l witness =
     fold (\<lambda>(v, c) acc. bind_res acc (\<lambda>acc.
       bind_res (ok_or (Option.bind (nth_opt witness v) id) (MissingWitnessValue v)) (\<lambda>x.
       Inr (acc + c * x)))) l (Inr 0)"

text \<open>\<^verbatim>\<open>into_sparse_row\<close>: the coefficients collected in a sorted map, the zero ones
  dropped before and after.\<close>

fun btree_add :: "nat \<Rightarrow> 'f::comm_ring_1 \<Rightarrow> (nat \<times> 'f) list \<Rightarrow> (nat \<times> 'f) list" where
  "btree_add k c [] = [(k, c)]"
| "btree_add k c ((j, d) # es) =
     (if k < j then (k, c) # (j, d) # es
      else if k = j then (j, d + c) # es
      else (j, d) # btree_add k c es)"

definition into_sparse_row :: "'f::comm_ring_1 linear_combination \<Rightarrow> 'f sparse_row" where
  "into_sparse_row l =
     filter (\<lambda>(_, c). c \<noteq> 0)
       (fold (\<lambda>(v, c) es. if c = 0 then es else btree_add v c es) l [])"

section \<open>The builder\<close>

record 'f r1cs_builder =
  rb_witness :: "'f option list"
  rb_a :: "'f sparse_row list"
  rb_b :: "'f sparse_row list"
  rb_c :: "'f sparse_row list"

definition rb_new :: "'f::comm_ring_1 r1cs_builder" where
  "rb_new = \<lparr>rb_witness = [Some 1], rb_a = [], rb_b = [], rb_c = []\<rparr>"

definition rb_num_vars :: "'f r1cs_builder \<Rightarrow> nat" where
  "rb_num_vars b = length (rb_witness b)"

definition alloc_witness :: "'f option \<Rightarrow> 'f r1cs_builder \<Rightarrow> r1cs_variable \<times> 'f r1cs_builder" where
  "alloc_witness x b = (length (rb_witness b), b\<lparr>rb_witness := rb_witness b @ [x]\<rparr>)"

definition rb_alloc :: "'f \<Rightarrow> 'f r1cs_builder \<Rightarrow> r1cs_variable \<times> 'f r1cs_builder" where
  "rb_alloc x b = alloc_witness (Some x) b"

definition alloc_unknown :: "'f r1cs_builder \<Rightarrow> r1cs_variable \<times> 'f r1cs_builder" where
  "alloc_unknown b = alloc_witness None b"

definition rb_assign ::
  "r1cs_variable \<Rightarrow> 'f \<Rightarrow> 'f r1cs_builder \<Rightarrow> r1cs_builder_error + 'f r1cs_builder"
where
  "rb_assign v x b =
     (if v = ONE then Inl CannotAssignOne
      else if length (rb_witness b) \<le> v then Inl (VariableOutOfBounds v (length (rb_witness b)))
      else if rb_witness b ! v \<noteq> None then Inl (WitnessAlreadyAssigned v)
      else Inr (b\<lparr>rb_witness := (rb_witness b)[v := Some x]\<rparr>))"

fun collect_witness :: "nat \<Rightarrow> 'f option list \<Rightarrow> r1cs_builder_error + 'f list" where
  "collect_witness i [] = Inr []"
| "collect_witness i (None # xs) = Inl (MissingWitnessValue i)"
| "collect_witness i (Some x # xs) = bind_res (collect_witness (Suc i) xs) (\<lambda>ys. Inr (x # ys))"

definition rb_full_witness :: "'f r1cs_builder \<Rightarrow> r1cs_builder_error + 'f list" where
  "rb_full_witness b = collect_witness 0 (rb_witness b)"

definition known_variables :: "'f r1cs_builder \<Rightarrow> 'f linear_combination \<Rightarrow> bool" where
  "known_variables b l \<longleftrightarrow> list_all (\<lambda>(v, _). v < length (rb_witness b)) l"

definition assert_product ::
  "'f::comm_ring_1 linear_combination \<Rightarrow> 'f linear_combination \<Rightarrow> 'f linear_combination \<Rightarrow>
    'f r1cs_builder \<Rightarrow> 'f r1cs_builder option"
where
  "assert_product lhs rhs out b =
     (if \<not> known_variables b lhs \<or> \<not> known_variables b rhs \<or> \<not> known_variables b out then None
      else Some (b\<lparr>rb_a := rb_a b @ [into_sparse_row lhs], rb_b := rb_b b @ [into_sparse_row rhs],
        rb_c := rb_c b @ [into_sparse_row out]\<rparr>))"

definition assert_zero :: "'f::comm_ring_1 linear_combination \<Rightarrow> 'f r1cs_builder \<Rightarrow> 'f r1cs_builder option" where
  "assert_zero l b = assert_product l lc_one lc_zero b"

definition assert_equal ::
  "'f::comm_ring_1 linear_combination \<Rightarrow> 'f linear_combination \<Rightarrow> 'f r1cs_builder \<Rightarrow> 'f r1cs_builder option"
where
  "assert_equal lhs rhs b = assert_zero (lc_sub lhs rhs) b"

text \<open>\<^verbatim>\<open>multiply\<close> allocates the product, its value known when the factors' are.\<close>

definition multiply ::
  "'f::comm_ring_1 linear_combination \<Rightarrow> 'f linear_combination \<Rightarrow> 'f r1cs_builder \<Rightarrow>
    ('f linear_combination \<times> 'f r1cs_builder) option"
where
  "multiply lhs rhs b =
     (let x = (case (lc_evaluate lhs (rb_witness b), lc_evaluate rhs (rb_witness b)) of
                 (Inr l, Inr r) \<Rightarrow> Some (l * r) | _ \<Rightarrow> None);
          (v, b) = alloc_witness x b; out = lc_variable v in
      map_option (\<lambda>b. (out, b)) (assert_product lhs rhs out b))"

definition into_matrices :: "'f::comm_ring_1 r1cs_builder \<Rightarrow> 'f constraint_matrices option" where
  "into_matrices b = cm_new (length (rb_a b)) (length (rb_witness b)) (rb_a b) (rb_b b) (rb_c b)"

section \<open>Values of linear combinations\<close>

definition lc_value :: "'f::comm_ring_1 linear_combination \<Rightarrow> 'f list \<Rightarrow> 'f" where
  "lc_value l w = (\<Sum>(v, c) \<leftarrow> l. c * w ! v)"

lemma lc_value_simps [simp]:
  "lc_value [] w = 0" "lc_value ((v, c) # l) w = c * w ! v + lc_value l w"
  "lc_value lc_zero w = 0"
  "lc_value (lc_variable v) w = w ! v"
  "lc_value (lc_add l r) w = lc_value l w + lc_value r w"
  by (simp_all add: lc_value_def lc_zero_def lc_variable_def lc_add_def)

lemma lc_value_neg [simp]: "lc_value (lc_neg l) w = - lc_value l w"
  by (induction l) (auto simp: lc_value_def lc_neg_def)

lemma lc_value_sub [simp]: "lc_value (lc_sub l r) w = lc_value l w - lc_value r w"
  by (simp add: lc_sub_def)

lemma lc_value_scale [simp]: "lc_value (lc_scale l a) w = lc_value l w * a"
  by (induction l) (auto simp: lc_value_def lc_scale_def lc_zero_def algebra_simps)

lemma lc_value_constant [simp]: "w ! 0 = 1 \<Longrightarrow> lc_value (lc_constant c) w = c"
  by (simp add: lc_value_def lc_constant_def lc_zero_def ONE_def)

lemma lc_value_one [simp]: "w ! 0 = 1 \<Longrightarrow> lc_value lc_one w = 1"
  by (simp add: lc_one_def)

lemma lc_value_cong:
  "(\<And>v c. (v, c) \<in> set l \<Longrightarrow> w ! v = w' ! v) \<Longrightarrow> lc_value l w = lc_value l w'"
  unfolding lc_value_def by (intro arg_cong [where f = sum_list] map_cong) auto

lemma lc_value_append:
  assumes "list_all (\<lambda>(v, _). v < length w) l"
  shows "lc_value l (w @ ext) = lc_value l w"
  by (rule lc_value_cong) (use assms in \<open>auto simp: list_all_iff nth_append\<close>)

lemma lc_evaluate_known:
  assumes "list_all (\<lambda>(v, _). v < length w) l"
  shows "lc_evaluate l (map Some w) = Inr (lc_value l w)"
proof -
  have "fold (\<lambda>(v, c) acc. bind_res acc (\<lambda>acc.
       bind_res (ok_or (Option.bind (nth_opt (map Some w) v) id) (MissingWitnessValue v)) (\<lambda>x.
       Inr (acc + c * x)))) l (Inr s) = Inr (s + lc_value l w)" for s
    using assms
  proof (induction l arbitrary: s)
    case (Cons x l)
    obtain v c where x: "x = (v, c)" by fastforce
    then show ?case using Cons by (simp add: add.assoc nth_opt_def)
  qed simp
  then show ?thesis by (simp add: lc_evaluate_def)
qed

section \<open>Sparse rows\<close>

lemma btree_add_dot: "row_dot (btree_add k c es) w = c * w ! k + row_dot es w"
  by (induction k c es rule: btree_add.induct) (simp_all add: algebra_simps)

lemma row_dot_drop_zeros: "row_dot (filter (\<lambda>(_, c). c \<noteq> 0) es) w = row_dot es w"
  by (induction es) auto

lemma into_sparse_row_dot [simp]: "row_dot (into_sparse_row l) w = lc_value l w"
proof -
  have "row_dot (fold (\<lambda>(v, c) es. if c = 0 then es else btree_add v c es) l es) w = row_dot es w + lc_value l w" for es
    by (induction l arbitrary: es) (auto simp: btree_add_dot algebra_simps)
  then show ?thesis by (simp add: into_sparse_row_def row_dot_drop_zeros)
qed

definition wf_sparse_row :: "nat \<Rightarrow> 'f::zero sparse_row \<Rightarrow> bool" where
  "wf_sparse_row n row \<longleftrightarrow> sorted (map fst row) \<and> distinct (map fst row) \<and>
     list_all (\<lambda>(col, c). col < n \<and> c \<noteq> 0) row"

lemma btree_add_sorted:
  assumes "sorted (map fst es)" "distinct (map fst es)"
  shows "sorted (map fst (btree_add k c es)) \<and> distinct (map fst (btree_add k c es)) \<and>
    fst ` set (btree_add k c es) = insert k (fst ` set es)"
  using assms by (induction k c es rule: btree_add.induct) force+

lemma into_sparse_row_wf:
  assumes "list_all (\<lambda>(v, _). v < n) l"
  shows "wf_sparse_row n (into_sparse_row l)"
proof -
  let ?f = "\<lambda>(v, c) es. if c = 0 then es else btree_add v c es"
  have "sorted (map fst (fold ?f l es)) \<and> distinct (map fst (fold ?f l es)) \<and>
      (\<forall>x \<in> set (fold ?f l es). fst x < n)"
    if "sorted (map fst es)" "distinct (map fst es)" "\<forall>x \<in> set es. fst x < n" for es
    using assms that
  proof (induction l arbitrary: es)
    case (Cons x l)
    obtain v c where x: "x = (v, c)" by fastforce
    have "\<forall>y \<in> set (btree_add v c es). fst y < n"
    proof
      fix y assume "y \<in> set (btree_add v c es)"
      then have "fst y \<in> insert v (fst ` set es)" using btree_add_sorted [OF Cons.prems(2,3)] by blast
      then show "fst y < n" using Cons.prems(1,4) x by auto
    qed
    then show ?case
      using Cons.prems Cons.IH [of es] Cons.IH [of "btree_add v c es"] btree_add_sorted [OF Cons.prems(2,3), of v c]
      by (cases "c = 0") (auto simp: x)
  qed simp
  from this [of "[]"] have f: "sorted (map fst (fold ?f l []))" "distinct (map fst (fold ?f l []))"
    "\<forall>x \<in> set (fold ?f l []). fst x < n" by simp_all
  show ?thesis using f unfolding wf_sparse_row_def into_sparse_row_def
    by (auto simp: list_all_iff distinct_map sorted_wrt_map sorted_wrt_filter inj_on_def)
qed

section \<open>The builder's invariant\<close>

definition builder_ok :: "'f::comm_ring_1 r1cs_builder \<Rightarrow> bool" where
  "builder_ok b \<longleftrightarrow> rb_witness b \<noteq> [] \<and> hd (rb_witness b) = Some 1 \<and>
     length (rb_b b) = length (rb_a b) \<and> length (rb_c b) = length (rb_a b) \<and>
     list_all (wf_sparse_row (rb_num_vars b)) (rb_a b) \<and>
     list_all (wf_sparse_row (rb_num_vars b)) (rb_b b) \<and>
     list_all (wf_sparse_row (rb_num_vars b)) (rb_c b)"

text \<open>The constraints asserted so far hold of a witness.\<close>

definition satisfies :: "'f::comm_ring_1 r1cs_builder \<Rightarrow> 'f list \<Rightarrow> bool" where
  "satisfies b w \<longleftrightarrow> length w = rb_num_vars b \<and> w ! 0 = 1 \<and>
     (\<forall>i < length (rb_a b). row_dot (rb_a b ! i) w * row_dot (rb_b b ! i) w = row_dot (rb_c b ! i) w)"

lemma wf_sparse_row_mono: "wf_sparse_row n row \<Longrightarrow> n \<le> m \<Longrightarrow> wf_sparse_row m row"
  by (auto simp: wf_sparse_row_def list_all_iff)

lemma builder_ok_new: "builder_ok rb_new"
  by (simp add: builder_ok_def rb_new_def rb_num_vars_def)

lemma builder_ok_alloc: "builder_ok b \<Longrightarrow> builder_ok (snd (alloc_witness x b))"
  by (auto simp: builder_ok_def alloc_witness_def rb_num_vars_def list_all_iff intro: wf_sparse_row_mono)

lemma builder_ok_assign: "builder_ok b \<Longrightarrow> rb_assign v x b = Inr b' \<Longrightarrow> builder_ok b'"
  by (cases "rb_witness b") (auto simp: builder_ok_def rb_assign_def rb_num_vars_def ONE_def split: if_splits nat.splits)

lemma assert_product_SomeD:
  assumes "assert_product lhs rhs out b = Some b'"
  shows "known_variables b lhs" "known_variables b rhs" "known_variables b out"
    "b' = b\<lparr>rb_a := rb_a b @ [into_sparse_row lhs], rb_b := rb_b b @ [into_sparse_row rhs],
        rb_c := rb_c b @ [into_sparse_row out]\<rparr>"
  using assms by (auto simp: assert_product_def split: if_splits)

lemma builder_ok_assert_product:
  assumes "builder_ok b" "assert_product lhs rhs out b = Some b'"
  shows "builder_ok b'"
  using assms assert_product_SomeD [OF assms(2)]
  by (auto simp: builder_ok_def rb_num_vars_def known_variables_def intro!: into_sparse_row_wf)

lemma satisfies_assert_product:
  assumes "builder_ok b" "assert_product lhs rhs out b = Some b'"
  shows "satisfies b' w \<longleftrightarrow> satisfies b w \<and> lc_value lhs w * lc_value rhs w = lc_value out w"
  using assms(1) assert_product_SomeD(4) [OF assms(2)]
  by (auto simp: satisfies_def builder_ok_def rb_num_vars_def nth_append less_Suc_eq)

lemma assert_equal_facts:
  assumes "builder_ok b" "assert_equal lhs rhs b = Some b'"
  shows "builder_ok b'" "rb_witness b' = rb_witness b"
    "satisfies b' w \<longleftrightarrow> satisfies b w \<and> lc_value lhs w = lc_value rhs w"
proof -
  have p: "assert_product (lc_sub lhs rhs) lc_one lc_zero b = Some b'"
    using assms(2) by (simp add: assert_equal_def assert_zero_def)
  show "builder_ok b'" by (rule builder_ok_assert_product [OF assms(1) p])
  show "rb_witness b' = rb_witness b" using assert_product_SomeD(4) [OF p] by simp
  show "satisfies b' w \<longleftrightarrow> satisfies b w \<and> lc_value lhs w = lc_value rhs w"
    using satisfies_assert_product [OF assms(1) p, of w] by (auto simp: satisfies_def)
qed

lemma assert_equal_succeeds:
  assumes "builder_ok b" "known_variables b lhs" "known_variables b rhs"
  shows "\<exists>b'. assert_equal lhs rhs b = Some b'"
proof -
  have "0 < length (rb_witness b)" using assms(1) by (simp add: builder_ok_def)
  then have "known_variables b (lc_sub lhs rhs)" "known_variables b lc_one" "known_variables b lc_zero"
    using assms(2,3) by (auto simp: known_variables_def lc_sub_def lc_add_def lc_neg_def lc_one_def
        lc_constant_def lc_zero_def ONE_def list_all_iff)
  then show ?thesis by (simp add: assert_equal_def assert_zero_def assert_product_def)
qed

text \<open>The allocation of a variable leaves the constraints, read on the old variables.\<close>

lemma row_dot_append_vars:
  assumes "wf_sparse_row (length w) row"
  shows "row_dot row (w @ ext) = row_dot row w"
  by (rule row_dot_cong) (use assms in \<open>auto simp: wf_sparse_row_def list_all_iff nth_append\<close>)

lemma satisfies_alloc:
  assumes "builder_ok b"
  shows "satisfies (snd (alloc_witness x b)) w \<longleftrightarrow> (\<exists>v y. w = v @ [y] \<and> satisfies b v)"
proof -
  have rows: "row_dot (rb_a b ! i) (v @ [y]) = row_dot (rb_a b ! i) v"
    "row_dot (rb_b b ! i) (v @ [y]) = row_dot (rb_b b ! i) v"
    "row_dot (rb_c b ! i) (v @ [y]) = row_dot (rb_c b ! i) v"
    if "i < length (rb_a b)" "length v = rb_num_vars b" for i v y
    using assms that by (auto simp: builder_ok_def list_all_length intro!: row_dot_append_vars)
  have pos: "0 < rb_num_vars b" using assms by (simp add: builder_ok_def rb_num_vars_def)
  show ?thesis
  proof
    assume s: "satisfies (snd (alloc_witness x b)) w"
    then have "length w = Suc (rb_num_vars b)"
      by (simp add: satisfies_def alloc_witness_def rb_num_vars_def)
    then obtain v y where w: "w = v @ [y]" "length v = rb_num_vars b"
      by (metis append_butlast_last_id length_butlast diff_Suc_1 list.size(3) nat.distinct(1))
    have "satisfies b v" using s w rows pos
      by (auto simp: satisfies_def alloc_witness_def rb_num_vars_def nth_append)
    then show "\<exists>v y. w = v @ [y] \<and> satisfies b v" using w(1) by blast
  next
    assume "\<exists>v y. w = v @ [y] \<and> satisfies b v"
    then show "satisfies (snd (alloc_witness x b)) w" using rows pos
      by (auto simp: satisfies_def alloc_witness_def rb_num_vars_def nth_append)
  qed
qed

section \<open>Products\<close>

text \<open>The assertion on the factors runs after the product is allocated, so it does not reject a factor
  that mentions the new variable; the lemmas take factors over the old ones.\<close>

lemma multiply_facts:
  assumes "builder_ok b" "known_variables b lhs" "known_variables b rhs"
  obtains b' where "multiply lhs rhs b = Some (lc_variable (rb_num_vars b), b')" "builder_ok b'"
    "rb_num_vars b' = Suc (rb_num_vars b)"
    "\<And>w. satisfies b' w \<longleftrightarrow> (\<exists>v. w = v @ [lc_value lhs v * lc_value rhs v] \<and> satisfies b v)"
    "\<And>v. rb_witness b = map Some v \<Longrightarrow> rb_witness b' = map Some (v @ [lc_value lhs v * lc_value rhs v])"
proof -
  define x where "x = (case (lc_evaluate lhs (rb_witness b), lc_evaluate rhs (rb_witness b)) of
      (Inr l, Inr r) \<Rightarrow> Some (l * r) | _ \<Rightarrow> None)"
  define b1 where "b1 = snd (alloc_witness x b)"
  let ?v = "rb_num_vars b"
  have ok1: "builder_ok b1" unfolding b1_def by (rule builder_ok_alloc [OF assms(1)])
  have wit: "rb_witness b1 = rb_witness b @ [x]" by (simp add: b1_def alloc_witness_def)
  have "known_variables b1 lhs" "known_variables b1 rhs" "known_variables b1 (lc_variable ?v)"
    using assms(2,3) by (auto simp: known_variables_def wit list_all_iff lc_variable_def rb_num_vars_def)
  then obtain b' where p: "assert_product lhs rhs (lc_variable ?v) b1 = Some b'"
    by (simp add: assert_product_def)
  have m: "multiply lhs rhs b = Some (lc_variable ?v, b')"
    using p by (simp add: multiply_def Let_def alloc_witness_def rb_num_vars_def x_def b1_def)
  note f = assert_product_SomeD [OF p]
  have wit': "rb_witness b' = rb_witness b @ [x]" using f(4) wit by simp
  have old: "lc_value lhs (v @ [y]) = lc_value lhs v" "lc_value rhs (v @ [y]) = lc_value rhs v"
    if "length v = ?v" for v y
    using assms(2,3) that by (simp_all add: known_variables_def rb_num_vars_def lc_value_append)
  have len: "length v = ?v" if "satisfies b v" for v using that by (simp add: satisfies_def)
  have sat: "satisfies b' w \<longleftrightarrow> (\<exists>v. w = v @ [lc_value lhs v * lc_value rhs v] \<and> satisfies b v)" for w
  proof -
    have "satisfies b' w \<longleftrightarrow> satisfies b1 w \<and> lc_value lhs w * lc_value rhs w = w ! ?v"
      using satisfies_assert_product [OF ok1 p] by simp
    also have "\<dots> \<longleftrightarrow> (\<exists>v y. w = v @ [y] \<and> satisfies b v \<and> lc_value lhs w * lc_value rhs w = w ! ?v)"
      using satisfies_alloc [OF assms(1), of x w] unfolding b1_def by blast
    also have "\<dots> \<longleftrightarrow> (\<exists>v y. w = v @ [y] \<and> satisfies b v \<and> lc_value lhs v * lc_value rhs v = y)"
    proof (intro ex_cong1 conj_cong refl)
      fix v y
      assume "w = v @ [y]" "satisfies b v"
      then show "(lc_value lhs w * lc_value rhs w = w ! ?v) = (lc_value lhs v * lc_value rhs v = y)"
        using old [OF len, of v y] len [of v] by (simp add: nth_append)
    qed
    also have "\<dots> \<longleftrightarrow> (\<exists>v. w = v @ [lc_value lhs v * lc_value rhs v] \<and> satisfies b v)" by blast
    finally show ?thesis .
  qed
  have full: "rb_witness b' = map Some (v @ [lc_value lhs v * lc_value rhs v])" if "rb_witness b = map Some v" for v
    using that assms(2,3) lc_evaluate_known [of v lhs] lc_evaluate_known [of v rhs]
    by (simp add: wit' x_def known_variables_def)
  show thesis
    by (rule that [OF m builder_ok_assert_product [OF ok1 p] _ sat full]) (simp_all add: rb_num_vars_def wit')
qed

text \<open>A builder that satisfies its invariant always yields matrices, and they check what the builder
  asserted.\<close>

lemma into_matrices_facts:
  assumes "builder_ok b"
  shows "\<exists>m. into_matrices b = Some m \<and> cm_num_vars m = rb_num_vars b \<and>
    (\<forall>w. length w = rb_num_vars b \<longrightarrow> w ! 0 = 1 \<longrightarrow> (check_witness m w = Inr () \<longleftrightarrow> satisfies b w))"
proof -
  have "list_all (list_all (\<lambda>(col, _). col < rb_num_vars b)) rows"
    if "list_all (wf_sparse_row (rb_num_vars b)) rows" for rows :: "'a sparse_row list"
    using that by (auto simp: list_all_iff wf_sparse_row_def)
  then have "check_invariants (length (rb_a b)) (rb_num_vars b) (rb_a b) (rb_b b) (rb_c b)"
    using assms by (simp add: builder_ok_def check_invariants_def)
  then show ?thesis using assms
    by (simp add: into_matrices_def cm_new_def rb_num_vars_def check_witness_def check_rows_iff
        builder_ok_def satisfies_def)
qed

lemma collect_witness_Inr:
  "collect_witness i xs = Inr ys \<longleftrightarrow> xs = map Some ys"
  by (induction i xs arbitrary: ys rule: collect_witness.induct) (auto simp: result_simps)

end
