(* ===== verification/Sumcheck_R1cs.thy ===== *)
theory Sumcheck_R1cs
  imports Sumcheck_Correct R1cs_Builder
begin

text \<open>
  \<^verbatim>\<open>jolt-sumcheck/src/r1cs.rs\<close>: the sumcheck verifier as constraints over the builder. The
  rounds' degrees and challenges are public; the coefficients and the claims between the rounds are
  variables.
\<close>

section \<open>Layout\<close>

record 'f r1cs_round =
  rr_degree :: nat
  rr_challenge :: 'f

record r1cs_round_layout =
  rl_claim_in :: r1cs_variable
  rl_coefficients :: "r1cs_variable list"
  rl_claim_out :: r1cs_variable

record r1cs_layout =
  ly_input_claim :: r1cs_variable
  ly_rounds :: "r1cs_round_layout list"
  ly_output_claim :: r1cs_variable

text \<open>The reason of \<^verbatim>\<open>RoundSumCoefficientsUnavailable\<close> is the source error; the last
  constructor is a failing assertion of the builder.\<close>

datatype 'f sumcheck_r1cs_error =
    R1_WrongNumberOfRounds nat nat
  | R1_DegreeBoundExceeded nat nat nat
  | LayoutRoundCountMismatch nat nat
  | EmptyRoundLayout nat
  | LayoutRoundDegreeMismatch nat nat nat
  | RoundClaimLinkMismatch nat r1cs_variable r1cs_variable
  | OutputClaimLinkMismatch r1cs_variable r1cs_variable
  | LayoutVariableOutOfBounds r1cs_variable nat
  | RoundSumCoefficientsUnavailable nat "'f sumcheck_error"
  | R1_RoundSumCoefficientCountMismatch nat nat nat
  | R1_Panicked

definition rl_degree :: "r1cs_round_layout \<Rightarrow> nat" where
  "rl_degree l = length (rl_coefficients l) - 1"

definition ly_round_count :: "r1cs_layout \<Rightarrow> nat" where
  "ly_round_count l = length (ly_rounds l)"

fun check_round_degrees :: "nat \<Rightarrow> nat \<Rightarrow> 'f r1cs_round list \<Rightarrow> 'f sumcheck_r1cs_error + unit" where
  "check_round_degrees bound i [] = Inr ()"
| "check_round_degrees bound i (r # rs) =
     (if rr_degree r > bound then Inl (R1_DegreeBoundExceeded i bound (rr_degree r))
      else check_round_degrees bound (Suc i) rs)"

definition validate_rounds_statement ::
  "sumcheck_statement \<Rightarrow> 'f r1cs_round list \<Rightarrow> 'f sumcheck_r1cs_error + unit"
where
  "validate_rounds_statement st rounds =
     (if ss_num_vars st \<noteq> length rounds then Inl (R1_WrongNumberOfRounds (ss_num_vars st) (length rounds))
      else check_round_degrees (ss_degree st) 0 rounds)"

fun alloc_unknowns :: "nat \<Rightarrow> 'f r1cs_builder \<Rightarrow> r1cs_variable list \<times> 'f r1cs_builder" where
  "alloc_unknowns 0 b = ([], b)"
| "alloc_unknowns (Suc n) b =
     (let (v, b) = alloc_unknown b; (vs, b) = alloc_unknowns n b in (v # vs, b))"

fun allocate_rounds ::
  "'f r1cs_round list \<Rightarrow> r1cs_variable \<Rightarrow> 'f r1cs_builder \<Rightarrow>
    r1cs_round_layout list \<times> r1cs_variable \<times> 'f r1cs_builder"
where
  "allocate_rounds [] claim_in b = ([], claim_in, b)"
| "allocate_rounds (r # rs) claim_in b =
     (let (coefficients, b) = alloc_unknowns (Suc (rr_degree r)) b;
          (claim_out, b) = alloc_unknown b;
          (ls, claim, b) = allocate_rounds rs claim_out b in
      (\<lparr>rl_claim_in = claim_in, rl_coefficients = coefficients, rl_claim_out = claim_out\<rparr> # ls, claim, b))"

definition allocate_sumcheck_r1cs_layout ::
  "'f r1cs_builder \<Rightarrow> sumcheck_statement \<Rightarrow> 'f r1cs_round list \<Rightarrow>
    'f sumcheck_r1cs_error + r1cs_layout \<times> 'f r1cs_builder"
where
  "allocate_sumcheck_r1cs_layout b st rounds =
     bind_res (validate_rounds_statement st rounds) (\<lambda>_.
     let (input_claim, b) = alloc_unknown b;
         (ls, output_claim, b) = allocate_rounds rounds input_claim b in
     Inr (\<lparr>ly_input_claim = input_claim, ly_rounds = ls, ly_output_claim = output_claim\<rparr>, b))"

section \<open>Validation\<close>

definition validate_variable :: "r1cs_variable \<Rightarrow> nat \<Rightarrow> 'f sumcheck_r1cs_error + unit" where
  "validate_variable v num_vars = (if v \<ge> num_vars then Inl (LayoutVariableOutOfBounds v num_vars) else Inr ())"

fun validate_variables :: "r1cs_variable list \<Rightarrow> nat \<Rightarrow> 'f sumcheck_r1cs_error + unit" where
  "validate_variables [] num_vars = Inr ()"
| "validate_variables (v # vs) num_vars =
     bind_res (validate_variable v num_vars) (\<lambda>_. validate_variables vs num_vars)"

text \<open>The loop over the rounds, from the claim expected as the next input.\<close>

fun validate_links ::
  "nat \<Rightarrow> nat \<Rightarrow> r1cs_variable \<Rightarrow> 'f r1cs_round list \<Rightarrow> r1cs_round_layout list \<Rightarrow>
    'f sumcheck_r1cs_error + r1cs_variable"
where
  "validate_links num_vars i expected (r # rs) (l # ls) =
     bind_res (validate_variable (rl_claim_in l) num_vars) (\<lambda>_.
     bind_res (validate_variable (rl_claim_out l) num_vars) (\<lambda>_.
     bind_res (validate_variables (rl_coefficients l) num_vars) (\<lambda>_.
     if rl_coefficients l = [] then Inl (EmptyRoundLayout i)
     else if rr_degree r \<noteq> rl_degree l then Inl (LayoutRoundDegreeMismatch i (rr_degree r) (rl_degree l))
     else if rl_claim_in l \<noteq> expected then Inl (RoundClaimLinkMismatch i expected (rl_claim_in l))
     else validate_links num_vars (Suc i) (rl_claim_out l) rs ls)))"
| "validate_links num_vars i expected _ _ = Inr expected"

definition validate_layout ::
  "nat \<Rightarrow> sumcheck_statement \<Rightarrow> 'f r1cs_round list \<Rightarrow> r1cs_layout \<Rightarrow> 'f sumcheck_r1cs_error + unit"
where
  "validate_layout num_vars st rounds layout =
     bind_res (validate_rounds_statement st rounds) (\<lambda>_.
     bind_res (validate_variable (ly_input_claim layout) num_vars) (\<lambda>_.
     bind_res (validate_variable (ly_output_claim layout) num_vars) (\<lambda>_.
     if length rounds \<noteq> length (ly_rounds layout)
     then Inl (LayoutRoundCountMismatch (length rounds) (length (ly_rounds layout)))
     else
       bind_res (validate_links num_vars 0 (ly_input_claim layout) rounds (ly_rounds layout)) (\<lambda>expected.
       if ly_output_claim layout \<noteq> expected
       then Inl (OutputClaimLinkMismatch expected (ly_output_claim layout)) else Inr ()))))"

section \<open>Constraints\<close>

definition round_sum_lc ::
  "nat \<Rightarrow> r1cs_round_layout \<Rightarrow> 'f::field list \<Rightarrow> 'f sumcheck_r1cs_error + 'f linear_combination"
where
  "round_sum_lc i l coefficients =
     (if length coefficients \<noteq> length (rl_coefficients l)
      then Inl (R1_RoundSumCoefficientCountMismatch i (length (rl_coefficients l)) (length coefficients))
      else Inr (fold (\<lambda>(v, c) s. lc_add s (lc_scale (lc_variable v) c))
        (zip (rl_coefficients l) coefficients) lc_zero))"

definition polynomial_eval_lc :: "r1cs_variable list \<Rightarrow> 'f::field \<Rightarrow> 'f linear_combination" where
  "polynomial_eval_lc coefficients point =
     fst (fold (\<lambda>v (result, power). (lc_add result (lc_scale (lc_variable v) power), power * point))
       coefficients (lc_zero, 1))"

definition append_round_constraints ::
  "nat \<Rightarrow> r1cs_round_layout \<Rightarrow> 'f::field \<Rightarrow> 'f list \<Rightarrow> 'f r1cs_builder \<Rightarrow>
    'f sumcheck_r1cs_error + 'f r1cs_builder"
where
  "append_round_constraints i l challenge coefficients b =
     bind_res (round_sum_lc i l coefficients) (\<lambda>round_sum.
     bind_res (ok_or (assert_equal round_sum (lc_variable (rl_claim_in l)) b) R1_Panicked) (\<lambda>b.
     ok_or (assert_equal (polynomial_eval_lc (rl_coefficients l) challenge) (lc_variable (rl_claim_out l)) b)
       R1_Panicked))"

fun append_rounds ::
  "sumcheck_domain_spec \<Rightarrow> nat \<Rightarrow> r1cs_round_layout list \<Rightarrow> 'f::field r1cs_round list \<Rightarrow> 'f r1cs_builder \<Rightarrow>
    'f sumcheck_r1cs_error + 'f r1cs_builder"
where
  "append_rounds domain i (l # ls) (r # rs) b =
     (case round_sum_coefficients domain (rr_degree r) of
        Inl e \<Rightarrow> Inl (RoundSumCoefficientsUnavailable i e)
      | Inr coefficients \<Rightarrow>
          bind_res (append_round_constraints i l (rr_challenge r) coefficients b)
            (append_rounds domain (Suc i) ls rs))"
| "append_rounds domain i _ _ b = Inr b"

definition append_sumcheck_r1cs_constraints_for_domain ::
  "'f::field r1cs_builder \<Rightarrow> sumcheck_statement \<Rightarrow> 'f r1cs_round list \<Rightarrow> r1cs_layout \<Rightarrow> sumcheck_domain_spec \<Rightarrow>
    'f sumcheck_r1cs_error + 'f r1cs_builder"
where
  "append_sumcheck_r1cs_constraints_for_domain b st rounds layout domain =
     bind_res (validate_layout (rb_num_vars b) st rounds layout) (\<lambda>_.
     append_rounds domain 0 (ly_rounds layout) rounds b)"

definition append_sumcheck_r1cs_constraints ::
  "'f::field r1cs_builder \<Rightarrow> sumcheck_statement \<Rightarrow> 'f r1cs_round list \<Rightarrow> r1cs_layout \<Rightarrow>
    'f sumcheck_r1cs_error + 'f r1cs_builder"
where
  "append_sumcheck_r1cs_constraints b st rounds layout =
     append_sumcheck_r1cs_constraints_for_domain b st rounds layout BooleanHypercube"

section \<open>The linear combinations of a round\<close>

lemma lc_value_fold:
  "lc_value (fold (\<lambda>(v, c) s. lc_add s (lc_scale (lc_variable v) c)) xs s) w =
    lc_value s w + (\<Sum>(v, c) \<leftarrow> xs. w ! v * c)"
  by (induction xs arbitrary: s) (auto simp: add.assoc)

lemma known_variables_simps [simp]:
  "known_variables b lc_zero" "known_variables b (lc_variable v) \<longleftrightarrow> v < rb_num_vars b"
  "known_variables b (lc_add l r) \<longleftrightarrow> known_variables b l \<and> known_variables b r"
  "known_variables b l \<Longrightarrow> known_variables b (lc_scale l c)"
  by (auto simp: known_variables_def lc_zero_def lc_variable_def lc_add_def lc_scale_def rb_num_vars_def list_all_iff)

lemma known_fold:
  assumes "known_variables b s" "\<forall>(v, c) \<in> set xs. v < rb_num_vars b"
  shows "known_variables b (fold (\<lambda>(v, c) s. lc_add s (lc_scale (lc_variable v) c)) xs s)"
  using assms by (induction xs arbitrary: s) auto

lemma round_sum_lc_facts:
  assumes "round_sum_lc i l coefficients = Inr lc"
  shows "length coefficients = length (rl_coefficients l)"
    "lc_value lc w = sum_list (map2 (*) (map ((!) w) (rl_coefficients l)) coefficients)"
    "\<forall>v \<in> set (rl_coefficients l). v < rb_num_vars b \<Longrightarrow> known_variables b lc"
proof -
  have lc: "lc = fold (\<lambda>(v, c) s. lc_add s (lc_scale (lc_variable v) c))
      (zip (rl_coefficients l) coefficients) lc_zero"
    and len: "length coefficients = length (rl_coefficients l)"
    using assms by (auto simp: round_sum_lc_def split: if_splits)
  show "length coefficients = length (rl_coefficients l)" by (rule len)
  show "lc_value lc w = sum_list (map2 (*) (map ((!) w) (rl_coefficients l)) coefficients)"
    unfolding lc lc_value_fold by (simp add: zip_map1 o_def case_prod_unfold)
  show "known_variables b lc" if "\<forall>v \<in> set (rl_coefficients l). v < rb_num_vars b"
    unfolding lc by (rule known_fold) (use that in \<open>auto dest: set_zip_leftD\<close>)
qed

lemma polynomial_eval_lc_facts:
  fixes w :: "'f::field list"
  shows "lc_value (polynomial_eval_lc vs x) w = up_evaluate (map ((!) w) vs) x"
    "\<forall>v \<in> set vs. v < rb_num_vars b \<Longrightarrow> known_variables b (polynomial_eval_lc vs x)"
proof -
  let ?f = "\<lambda>v (result, power). (lc_add result (lc_scale (lc_variable v) power), power * x)"
  have "lc_value (fst (fold ?f vs (s, p))) w = lc_value s w + p * up_evaluate (map ((!) w) vs) x" for s p
    by (induction vs arbitrary: s p) (simp_all add: algebra_simps)
  then show "lc_value (polynomial_eval_lc vs x) w = up_evaluate (map ((!) w) vs) x"
    by (simp add: polynomial_eval_lc_def)
  have "known_variables b (fst (fold ?f vs (s, p)))"
    if "known_variables b s" "\<forall>v \<in> set vs. v < rb_num_vars b" for s p
    using that by (induction vs arbitrary: s p) simp_all
  then show "\<forall>v \<in> set vs. v < rb_num_vars b \<Longrightarrow> known_variables b (polynomial_eval_lc vs x)"
    by (simp add: polynomial_eval_lc_def)
qed

section \<open>The constraints are the verifier\<close>

text \<open>The round polynomials an assignment gives.\<close>

definition assigned_rounds :: "'f list \<Rightarrow> r1cs_round_layout list \<Rightarrow> 'f univariate_poly list" where
  "assigned_rounds w ls = map (\<lambda>l. map ((!) w) (rl_coefficients l)) ls"

text \<open>The claim variables hold the running sums.\<close>

definition claims_assigned :: "'f::field list \<Rightarrow> r1cs_round_layout list \<Rightarrow> 'f r1cs_round list \<Rightarrow> bool" where
  "claims_assigned w ls rounds \<longleftrightarrow>
     list_all2 (\<lambda>l r. w ! rl_claim_out l = up_evaluate (map ((!) w) (rl_coefficients l)) (rr_challenge r)) ls rounds"

definition layout_in_bounds :: "nat \<Rightarrow> r1cs_round_layout \<Rightarrow> bool" where
  "layout_in_bounds n l \<longleftrightarrow> rl_claim_in l < n \<and> rl_claim_out l < n \<and> (\<forall>v \<in> set (rl_coefficients l). v < n)"

lemma append_round_constraints_facts:
  assumes "builder_ok b" "append_round_constraints i l x cs b = Inr b'"
  shows "builder_ok b'" "rb_witness b' = rb_witness b" "length cs = length (rl_coefficients l)"
    "satisfies b' w \<longleftrightarrow> satisfies b w \<and>
      sum_list (map2 (*) (map ((!) w) (rl_coefficients l)) cs) = w ! rl_claim_in l \<and>
      up_evaluate (map ((!) w) (rl_coefficients l)) x = w ! rl_claim_out l"
proof -
  obtain lc b1 where s: "round_sum_lc i l cs = Inr lc"
    "assert_equal lc (lc_variable (rl_claim_in l)) b = Some b1"
    "assert_equal (polynomial_eval_lc (rl_coefficients l) x) (lc_variable (rl_claim_out l)) b1 = Some b'"
    using assms(2) by (auto simp: append_round_constraints_def ok_or_eq_Inr elim!: bind_res_InrE)
  note 1 = assert_equal_facts [OF assms(1) s(2)]
  note 2 = assert_equal_facts [OF 1(1) s(3)]
  show "builder_ok b'" by (rule 2(1))
  show "rb_witness b' = rb_witness b" using 1(2) 2(2) by simp
  show "length cs = length (rl_coefficients l)" by (rule round_sum_lc_facts(1) [OF s(1)])
  show "satisfies b' w \<longleftrightarrow> satisfies b w \<and>
      sum_list (map2 (*) (map ((!) w) (rl_coefficients l)) cs) = w ! rl_claim_in l \<and>
      up_evaluate (map ((!) w) (rl_coefficients l)) x = w ! rl_claim_out l"
    unfolding 2(3) 1(3) round_sum_lc_facts(2) [OF s(1)] polynomial_eval_lc_facts(1) by simp
qed

lemma append_round_constraints_succeeds:
  assumes "builder_ok b" "layout_in_bounds (rb_num_vars b) l" "length cs = length (rl_coefficients l)"
  shows "\<exists>b'. append_round_constraints i l x cs b = Inr b'"
proof -
  obtain lc where lc: "round_sum_lc i l cs = Inr lc" using assms(3) by (simp add: round_sum_lc_def)
  have "known_variables b lc" using round_sum_lc_facts(3) [OF lc, of b] assms(2) by (simp add: layout_in_bounds_def)
  then obtain b1 where b1: "assert_equal lc (lc_variable (rl_claim_in l)) b = Some b1"
    using assert_equal_succeeds [OF assms(1), of lc "lc_variable (rl_claim_in l)"] assms(2)
    by (auto simp: layout_in_bounds_def)
  have n: "rb_num_vars b1 = rb_num_vars b" "builder_ok b1"
    using assert_equal_facts [OF assms(1) b1] by (simp_all add: rb_num_vars_def)
  then obtain b' where "assert_equal (polynomial_eval_lc (rl_coefficients l) x) (lc_variable (rl_claim_out l)) b1 = Some b'"
    using assert_equal_succeeds [OF n(2)] polynomial_eval_lc_facts(2) assms(2)
    by (metis known_variables_simps(2) layout_in_bounds_def)
  then show ?thesis using lc b1 by (simp add: append_round_constraints_def)
qed

text \<open>The link between the claims of consecutive rounds.\<close>

fun linked :: "r1cs_variable \<Rightarrow> r1cs_round_layout list \<Rightarrow> r1cs_variable \<Rightarrow> bool" where
  "linked v [] out \<longleftrightarrow> v = out"
| "linked v (l # ls) out \<longleftrightarrow> rl_claim_in l = v \<and> linked (rl_claim_out l) ls out"

definition layout_matches :: "nat \<Rightarrow> nat \<Rightarrow> 'f r1cs_round \<Rightarrow> r1cs_round_layout \<Rightarrow> bool" where
  "layout_matches n d r l \<longleftrightarrow> layout_in_bounds n l \<and> length (rl_coefficients l) = Suc (rr_degree r) \<and> rr_degree r \<le> d"

lemma verify_rounds_coin:
  assumes "round_degree r \<le> d"
  shows "verify_rounds coin_ops domain d k s (r # rs) (x # xs) =
    bind_res (check_round_sum domain k s r) (\<lambda>_.
    bind_res (verify_rounds coin_ops domain d (Suc k) (round_evaluate r x) rs xs) (\<lambda>(cs, v, t). Inr (x # cs, v, t)))"
  using assms by simp

lemma verify_rounds_coin_Inr:
  assumes "round_degree r \<le> d"
  shows "verify_rounds coin_ops domain d k s (r # rs) (x # xs) = Inr (x # cs, v, t) \<longleftrightarrow>
    check_round_sum domain k s r = Inr () \<and>
    verify_rounds coin_ops domain d (Suc k) (round_evaluate r x) rs xs = Inr (cs, v, t)"
  unfolding verify_rounds_coin [OF assms]
  by (cases "check_round_sum domain k s r";
      cases "verify_rounds coin_ops domain d (Suc k) (round_evaluate r x) rs xs") auto

text \<open>The verifier with the challenges given accepts the rounds of an assignment exactly when it
  satisfies the appended constraints and ends in the output claim.\<close>

lemma append_rounds_facts:
  fixes b :: "'f::field r1cs_builder"
  assumes "builder_ok b" "list_all2 (layout_matches (rb_num_vars b) d) rounds ls" "linked v ls out"
    and "append_rounds domain i ls rounds b = Inr b'"
  shows "builder_ok b' \<and> rb_witness b' = rb_witness b \<and>
    (satisfies b' w \<longleftrightarrow> satisfies b w \<and>
      verify_rounds coin_ops domain d k (w ! v) (map Poly_Round (assigned_rounds w ls)) (map rr_challenge rounds) =
        Inr (map rr_challenge rounds, w ! out, []) \<and> claims_assigned w ls rounds)"
  using assms
proof (induction rounds ls arbitrary: b v i k rule: list_induct2')
  case 1
  then show ?case by (simp add: assigned_rounds_def claims_assigned_def)
next
  case (4 r rs l ls)
  obtain cs :: "'f list" and b1 where s: "round_sum_coefficients domain (rr_degree r) = Inr cs"
    "append_round_constraints i l (rr_challenge r) cs b = Inr b1"
    "append_rounds domain (Suc i) ls rs b1 = Inr b'"
    using "4.prems"(4) by (auto elim!: bind_res_InrE split: sum.splits)
  note one = append_round_constraints_facts [OF "4.prems"(1) s(2)]
  have len: "length (rl_coefficients l) = Suc (rr_degree r)" "rr_degree r \<le> d"
    using "4.prems"(2) by (simp_all add: layout_matches_def)
  have link: "rl_claim_in l = v" "linked (rl_claim_out l) ls out" using "4.prems"(3) by simp_all
  have n: "rb_num_vars b1 = rb_num_vars b" using one(2) by (simp add: rb_num_vars_def)
  have rest: "builder_ok b' \<and> rb_witness b' = rb_witness b1 \<and>
    (satisfies b' w \<longleftrightarrow> satisfies b1 w \<and>
      verify_rounds coin_ops domain d (Suc k) (w ! rl_claim_out l) (map Poly_Round (assigned_rounds w ls))
        (map rr_challenge rs) = Inr (map rr_challenge rs, w ! out, []) \<and> claims_assigned w ls rs)"
    by (rule "4.IH" [OF one(1) _ link(2) s(3)]) (use "4.prems"(2) n in simp)
  let ?p = "map ((!) w) (rl_coefficients l)"
  have deg: "round_degree (Poly_Round ?p) = rr_degree r"
    using len by (cases "rl_coefficients l") (simp_all add: round_degree_def up_degree_def)
  then have deg_le: "round_degree (Poly_Round ?p) \<le> d" using len(2) by simp
  have sum: "check_round_sum domain k (w ! v) (Poly_Round ?p) = Inr () \<longleftrightarrow>
      sum_list (map2 (*) ?p cs) = w ! v"
    using s(1) one(3) len by (simp add: check_round_sum_def deg Let_def coefficient_linear_combination_def)
  let ?rest = "\<lambda>x. verify_rounds coin_ops domain d (Suc k) x (map Poly_Round (assigned_rounds w ls))
      (map rr_challenge rs) = Inr (map rr_challenge rs, w ! out, [])"
  have step: "verify_rounds coin_ops domain d k (w ! v) (map Poly_Round (assigned_rounds w (l # ls)))
      (map rr_challenge (r # rs)) = Inr (map rr_challenge (r # rs), w ! out, []) \<longleftrightarrow>
    sum_list (map2 (*) ?p cs) = w ! v \<and>
    ?rest (up_evaluate ?p (rr_challenge r))"
    unfolding assigned_rounds_def list.map verify_rounds_coin_Inr [OF deg_le] sum
    by (simp only: round_evaluate_def round_poly.simps)
  have "satisfies b' w \<longleftrightarrow> satisfies b1 w \<and> ?rest (w ! rl_claim_out l) \<and> claims_assigned w ls rs"
    using rest by blast
  also have "\<dots> \<longleftrightarrow> satisfies b w \<and> (sum_list (map2 (*) ?p cs) = w ! v \<and>
      ?rest (up_evaluate ?p (rr_challenge r))) \<and> claims_assigned w (l # ls) (r # rs)"
    unfolding one(4) [of w] link(1) claims_assigned_def list_all2_Cons
    by (rule iffI; elim conjE; intro conjI; (assumption | simp only:))
  finally show ?case unfolding step using rest one(2) by simp
qed simp_all

section \<open>Valid layouts\<close>

lemma validate_variable_Inr [simp]: "validate_variable v n = Inr () \<longleftrightarrow> v < n"
  by (simp add: validate_variable_def)

lemma validate_variables_Inr [simp]: "validate_variables vs n = Inr () \<longleftrightarrow> (\<forall>v \<in> set vs. v < n)"
  by (induction vs) (auto simp: result_simps)

lemma check_round_degrees_Inr [simp]:
  "check_round_degrees d i rounds = Inr () \<longleftrightarrow> (\<forall>r \<in> set rounds. rr_degree r \<le> d)"
  by (induction rounds arbitrary: i) (auto simp: not_less)

lemma validate_links_Inr:
  assumes "length rounds = length ls"
  shows "validate_links n i v rounds ls = Inr out \<longleftrightarrow>
    linked v ls out \<and> list_all2 (\<lambda>r l. layout_in_bounds n l \<and> length (rl_coefficients l) = Suc (rr_degree r)) rounds ls"
  using assms
proof (induction rounds ls arbitrary: i v rule: list_induct2)
  case (Cons r rounds l ls)
  have "rl_coefficients l \<noteq> [] \<and> rr_degree r = rl_degree l \<longleftrightarrow> length (rl_coefficients l) = Suc (rr_degree r)"
    by (cases "rl_coefficients l") (auto simp: rl_degree_def)
  then show ?case using Cons.IH [of "Suc i" "rl_claim_out l"]
    by (auto simp: result_simps layout_in_bounds_def)
qed auto

lemma validate_layout_Inr:
  "validate_layout n st rounds layout = Inr () \<longleftrightarrow>
    ss_num_vars st = length rounds \<and> ly_input_claim layout < n \<and> ly_output_claim layout < n \<and>
    linked (ly_input_claim layout) (ly_rounds layout) (ly_output_claim layout) \<and>
    list_all2 (layout_matches n (ss_degree st)) rounds (ly_rounds layout)"
proof (cases "length rounds = length (ly_rounds layout)")
  case True
  have m: "list_all2 (layout_matches n (ss_degree st)) rounds (ly_rounds layout) \<longleftrightarrow>
      (\<forall>r \<in> set rounds. rr_degree r \<le> ss_degree st) \<and>
      list_all2 (\<lambda>r l. layout_in_bounds n l \<and> length (rl_coefficients l) = Suc (rr_degree r)) rounds (ly_rounds layout)"
    using True by (auto simp: list_all2_conv_all_nth layout_matches_def all_set_conv_all_nth)
  show ?thesis using True unfolding m
    by (auto simp: validate_layout_def validate_rounds_statement_def result_simps validate_links_Inr)
next
  case False
  then show ?thesis
    by (auto simp: validate_layout_def result_simps dest: list_all2_lengthD)
qed

section \<open>Allocated layouts\<close>

definition with_unknowns :: "nat \<Rightarrow> 'f r1cs_builder \<Rightarrow> 'f r1cs_builder" where
  "with_unknowns k b = b\<lparr>rb_witness := rb_witness b @ replicate k None\<rparr>"

lemma with_unknowns_simps [simp]:
  "with_unknowns 0 b = b" "rb_num_vars (with_unknowns k b) = rb_num_vars b + k"
  "with_unknowns j (with_unknowns k b) = with_unknowns (k + j) b"
  by (simp_all add: with_unknowns_def rb_num_vars_def replicate_add)

lemma alloc_unknown_eq: "alloc_unknown b = (rb_num_vars b, with_unknowns (Suc 0) b)"
  by (simp add: alloc_unknown_def alloc_witness_def with_unknowns_def rb_num_vars_def)

lemma alloc_unknowns_eq:
  "alloc_unknowns n b = ([rb_num_vars b..<rb_num_vars b + n], with_unknowns n b)"
proof (induction n arbitrary: b)
  case (Suc n)
  have "rb_num_vars b # [Suc (rb_num_vars b)..<rb_num_vars b + Suc n] = [rb_num_vars b..<rb_num_vars b + Suc n]"
    by (rule upt_conv_Cons [symmetric]) simp
  then show ?case using Suc by (simp add: alloc_unknown_eq Let_def)
qed simp

lemma builder_ok_unknowns: "builder_ok b \<Longrightarrow> builder_ok (with_unknowns k b)"
proof (induction k)
  case (Suc k)
  have "with_unknowns (Suc k) b = snd (alloc_witness None (with_unknowns k b))"
    by (simp add: alloc_witness_def with_unknowns_def replicate_append_same)
  then show ?case using builder_ok_alloc Suc by metis
qed simp

lemma layout_matches_mono:
  "layout_matches n d r l \<Longrightarrow> n \<le> m \<Longrightarrow> layout_matches m d r l"
  by (auto simp: layout_matches_def layout_in_bounds_def)

lemma allocate_rounds_facts:
  assumes "allocate_rounds rounds v b = (ls, out, b')" "v < rb_num_vars b" "\<forall>r \<in> set rounds. rr_degree r \<le> d"
  shows "linked v ls out \<and> out < rb_num_vars b' \<and> (\<exists>k. b' = with_unknowns k b) \<and>
    list_all2 (layout_matches (rb_num_vars b') d) rounds ls"
  using assms
proof (induction rounds arbitrary: v b ls)
  case Nil
  then show ?case by (auto intro: exI [of _ 0])
next
  case (Cons r rounds)
  let ?k = "Suc (rr_degree r)"
  let ?b1 = "with_unknowns (?k + 1) b"
  let ?l = "\<lparr>rl_claim_in = v, rl_coefficients = [rb_num_vars b..<rb_num_vars b + ?k],
    rl_claim_out = rb_num_vars b + ?k\<rparr>"
  obtain ls' where ls': "allocate_rounds rounds (rb_num_vars b + ?k) ?b1 = (ls', out, b')" "ls = ?l # ls'"
    using Cons.prems(1)
    by (auto simp: alloc_unknowns_eq alloc_unknown_eq Let_def simp del: alloc_unknowns.simps upt_Suc split: prod.splits)
  have ih: "linked (rb_num_vars b + ?k) ls' out \<and> out < rb_num_vars b' \<and> (\<exists>k. b' = with_unknowns k ?b1) \<and>
      list_all2 (layout_matches (rb_num_vars b') d) rounds ls'"
    by (rule Cons.IH [OF ls'(1)]) (use Cons.prems(3) in simp_all)
  then obtain k where k: "b' = with_unknowns k ?b1" by blast
  have "layout_matches (rb_num_vars b') d r ?l"
    using Cons.prems(2,3) by (auto simp: k layout_matches_def layout_in_bounds_def)
  then show ?case using ih ls'(2) k by auto
qed

text \<open>An allocated layout is valid.\<close>

lemma allocate_layout_valid:
  assumes "builder_ok b" "allocate_sumcheck_r1cs_layout b st rounds = Inr (layout, b')"
  shows "builder_ok b' \<and> validate_layout (rb_num_vars b') st rounds layout = Inr () \<and>
    (\<exists>k. b' = with_unknowns k b)"
proof -
  obtain ls out where s: "validate_rounds_statement st rounds = Inr ()"
    "allocate_rounds rounds (rb_num_vars b) (with_unknowns (Suc 0) b) = (ls, out, b')"
    "layout = \<lparr>ly_input_claim = rb_num_vars b, ly_rounds = ls, ly_output_claim = out\<rparr>"
    using assms(2)
    by (auto simp: allocate_sumcheck_r1cs_layout_def alloc_unknown_eq Let_def elim!: bind_res_InrE split: prod.splits)
  have v: "ss_num_vars st = length rounds" "\<forall>r \<in> set rounds. rr_degree r \<le> ss_degree st"
    using s(1) by (auto simp: validate_rounds_statement_def split: if_splits)
  have f: "linked (rb_num_vars b) ls out \<and> out < rb_num_vars b' \<and> (\<exists>k. b' = with_unknowns k (with_unknowns (Suc 0) b)) \<and>
      list_all2 (layout_matches (rb_num_vars b') (ss_degree st)) rounds ls"
    by (rule allocate_rounds_facts [OF s(2) _ v(2)]) simp
  then obtain k where k: "b' = with_unknowns k b" by auto
  have "rb_num_vars b < rb_num_vars b'" using f by auto
  then show ?thesis using f v(1) builder_ok_unknowns [OF assms(1)] k by (auto simp: validate_layout_Inr s(3))
qed

lemma append_rounds_succeeds:
  fixes b :: "'f::field r1cs_builder"
  assumes "builder_ok b" "list_all2 (layout_matches (rb_num_vars b) d) rounds ls"
    and "\<And>r. r \<in> set rounds \<Longrightarrow> \<exists>cs :: 'f list. round_sum_coefficients domain (rr_degree r) = Inr cs"
  shows "\<exists>b'. append_rounds domain i ls rounds b = Inr b'"
  using assms
proof (induction rounds ls arbitrary: b i rule: list_induct2')
  case (4 r rounds l ls)
  obtain cs :: "'f list" where cs: "round_sum_coefficients domain (rr_degree r) = Inr cs"
    using "4.prems"(3) by auto
  have m: "layout_matches (rb_num_vars b) d r l" using "4.prems"(2) by simp
  have "length cs = length (rl_coefficients l)"
    using round_sum_coefficients_correct(2) [of domain "replicate (Suc (rr_degree r)) 0" cs] cs m
    by (simp add: up_degree_def layout_matches_def)
  then obtain b1 where b1: "append_round_constraints i l (rr_challenge r) cs b = Inr b1"
    using append_round_constraints_succeeds [OF "4.prems"(1), of l cs i "rr_challenge r"] m
    by (auto simp: layout_matches_def)
  note one = append_round_constraints_facts [OF "4.prems"(1) b1]
  have "\<exists>b'. append_rounds domain (Suc i) ls rounds b1 = Inr b'"
    by (rule "4.IH" [OF one(1)]) (use "4.prems"(2,3) one(2) in \<open>auto simp: rb_num_vars_def\<close>)
  then show ?case using cs b1 by simp
qed auto

section \<open>Properties\<close>

lemma append_constraints_facts:
  fixes b :: "'f::field r1cs_builder"
  assumes "builder_ok b" "append_sumcheck_r1cs_constraints_for_domain b st rounds layout domain = Inr b'"
  shows "builder_ok b' \<and> rb_num_vars b' = rb_num_vars b \<and>
    (satisfies b' w \<longleftrightarrow> satisfies b w \<and>
      sumcheck_verify coin_ops
        \<lparr>sc_num_vars = ss_num_vars st, sc_degree = ss_degree st, sc_claimed_sum = w ! ly_input_claim layout\<rparr>
        (map Poly_Round (assigned_rounds w (ly_rounds layout))) domain (map rr_challenge rounds) =
      Inr (\<lparr>ec_point = map rr_challenge rounds, ec_value = w ! ly_output_claim layout\<rparr>, []) \<and>
      claims_assigned w (ly_rounds layout) rounds)"
proof -
  have v: "ss_num_vars st = length rounds"
    "linked (ly_input_claim layout) (ly_rounds layout) (ly_output_claim layout)"
    "list_all2 (layout_matches (rb_num_vars b) (ss_degree st)) rounds (ly_rounds layout)"
    and a: "append_rounds domain 0 (ly_rounds layout) rounds b = Inr b'"
    using assms(2) by (auto simp: append_sumcheck_r1cs_constraints_for_domain_def validate_layout_Inr elim!: bind_res_InrE)
  note f = append_rounds_facts [OF assms(1) v(3,2) a, of w 0]
  have "length (ly_rounds layout) = length rounds" using v(3) by (simp add: list_all2_lengthD)
  then have "sumcheck_verify coin_ops
        \<lparr>sc_num_vars = ss_num_vars st, sc_degree = ss_degree st, sc_claimed_sum = w ! ly_input_claim layout\<rparr>
        (map Poly_Round (assigned_rounds w (ly_rounds layout))) domain (map rr_challenge rounds) =
      Inr (\<lparr>ec_point = map rr_challenge rounds, ec_value = w ! ly_output_claim layout\<rparr>, []) \<longleftrightarrow>
    verify_rounds coin_ops domain (ss_degree st) 0 (w ! ly_input_claim layout)
      (map Poly_Round (assigned_rounds w (ly_rounds layout))) (map rr_challenge rounds) =
      Inr (map rr_challenge rounds, w ! ly_output_claim layout, [])"
    by (cases "verify_rounds coin_ops domain (ss_degree st) 0 (w ! ly_input_claim layout)
      (map Poly_Round (assigned_rounds w (ly_rounds layout))) (map rr_challenge rounds)")
      (auto simp: sumcheck_verify_def v(1) assigned_rounds_def)
  then show ?thesis using f by (simp add: rb_num_vars_def)
qed

lemma allocated_constraints_succeed:
  fixes b :: "'f::field r1cs_builder"
  assumes "builder_ok b" "allocate_sumcheck_r1cs_layout b st rounds = Inr (layout, b1)"
    and "\<And>r. r \<in> set rounds \<Longrightarrow> \<exists>cs :: 'f list. round_sum_coefficients domain (rr_degree r) = Inr cs"
  shows "\<exists>b'. append_sumcheck_r1cs_constraints_for_domain b1 st rounds layout domain = Inr b'"
proof -
  have v: "builder_ok b1" "validate_layout (rb_num_vars b1) st rounds layout = Inr ()"
    using allocate_layout_valid [OF assms(1,2)] by simp_all
  then have "list_all2 (layout_matches (rb_num_vars b1) (ss_degree st)) rounds (ly_rounds layout)"
    by (simp add: validate_layout_Inr)
  from append_rounds_succeeds [OF v(1) this assms(3)] v(2) show ?thesis
    by (auto simp: append_sumcheck_r1cs_constraints_for_domain_def)
qed

end
