(* ===== verification/R1cs_Claims.thy ===== *)
theory R1cs_Claims
  imports R1cs_Builder
begin

text \<open>
  Symbolic claim expressions, \<^verbatim>\<open>jolt-claims/src/claims.rs\<close> and \<^verbatim>\<open>ops.rs\<close>, and
  their lowering to constraints, \<^verbatim>\<open>jolt-r1cs/src/lowering.rs\<close>. The identifiers of
  openings, challenges and derived values are type parameters, as in the code.
\<close>

section \<open>Expressions\<close>

datatype ('o, 'p, 'c) source = Opening 'o | Challenge 'c | Derived 'p

record ('f, 'o, 'p, 'c) claim_term =
  ct_coefficient :: 'f
  ct_factors :: "('o, 'p, 'c) source list"

type_synonym ('f, 'o, 'p, 'c) claim_expr = "('f, 'o, 'p, 'c) claim_term list"

definition term_constant :: "'f \<Rightarrow> ('f, 'o, 'p, 'c) claim_term" where
  "term_constant c = \<lparr>ct_coefficient = c, ct_factors = []\<rparr>"

definition term_source :: "('o, 'p, 'c) source \<Rightarrow> ('f::comm_ring_1, 'o, 'p, 'c) claim_term" where
  "term_source s = \<lparr>ct_coefficient = 1, ct_factors = [s]\<rparr>"

definition expr_zero :: "('f, 'o, 'p, 'c) claim_expr" where "expr_zero = []"

definition expr_is_zero :: "('f, 'o, 'p, 'c) claim_expr \<Rightarrow> bool" where
  "expr_is_zero e \<longleftrightarrow> e = []"

definition expr_one :: "('f::comm_ring_1, 'o, 'p, 'c) claim_expr" where
  "expr_one = [term_constant 1]"

definition expr_constant :: "'f::comm_ring_1 \<Rightarrow> ('f, 'o, 'p, 'c) claim_expr" where
  "expr_constant c = (if c = 0 then expr_zero else [term_constant c])"

definition expr_opening :: "'o \<Rightarrow> ('f::comm_ring_1, 'o, 'p, 'c) claim_expr" where
  "expr_opening i = [term_source (Opening i)]"

definition expr_challenge :: "'c \<Rightarrow> ('f::comm_ring_1, 'o, 'p, 'c) claim_expr" where
  "expr_challenge i = [term_source (Challenge i)]"

definition expr_derived :: "'p \<Rightarrow> ('f::comm_ring_1, 'o, 'p, 'c) claim_expr" where
  "expr_derived i = [term_source (Derived i)]"

fun resolve :: "('o \<Rightarrow> 'f) \<Rightarrow> ('c \<Rightarrow> 'f) \<Rightarrow> ('p \<Rightarrow> 'f) \<Rightarrow> ('o, 'p, 'c) source \<Rightarrow> 'f" where
  "resolve ro rc rd (Opening i) = ro i"
| "resolve ro rc rd (Challenge i) = rc i"
| "resolve ro rc rd (Derived i) = rd i"

definition expr_evaluate ::
  "('f::comm_ring_1, 'o, 'p, 'c) claim_expr \<Rightarrow> ('o \<Rightarrow> 'f) \<Rightarrow> ('c \<Rightarrow> 'f) \<Rightarrow> ('p \<Rightarrow> 'f) \<Rightarrow> 'f"
where
  "expr_evaluate e ro rc rd =
     fold (\<lambda>t result. result + fold (\<lambda>s v. v * resolve ro rc rd s) (ct_factors t) (ct_coefficient t)) e 0"

fun try_resolve ::
  "('o \<Rightarrow> 'e + 'f) \<Rightarrow> ('c \<Rightarrow> 'e + 'f) \<Rightarrow> ('p \<Rightarrow> 'e + 'f) \<Rightarrow> ('o, 'p, 'c) source \<Rightarrow> 'e + 'f"
where
  "try_resolve ro rc rd (Opening i) = ro i"
| "try_resolve ro rc rd (Challenge i) = rc i"
| "try_resolve ro rc rd (Derived i) = rd i"

fun try_factors :: "(('o, 'p, 'c) source \<Rightarrow> 'e + 'f::comm_ring_1) \<Rightarrow> ('o, 'p, 'c) source list \<Rightarrow> 'f \<Rightarrow> 'e + 'f" where
  "try_factors r [] v = Inr v"
| "try_factors r (s # ss) v = bind_res (r s) (\<lambda>x. try_factors r ss (v * x))"

fun try_terms ::
  "(('o, 'p, 'c) source \<Rightarrow> 'e + 'f::comm_ring_1) \<Rightarrow> ('f, 'o, 'p, 'c) claim_expr \<Rightarrow> 'f \<Rightarrow> 'e + 'f"
where
  "try_terms r [] result = Inr result"
| "try_terms r (t # ts) result =
     bind_res (try_factors r (ct_factors t) (ct_coefficient t)) (\<lambda>v. try_terms r ts (result + v))"

definition try_evaluate ::
  "('f::comm_ring_1, 'o, 'p, 'c) claim_expr \<Rightarrow> ('o \<Rightarrow> 'e + 'f) \<Rightarrow> ('c \<Rightarrow> 'e + 'f) \<Rightarrow> ('p \<Rightarrow> 'e + 'f) \<Rightarrow> 'e + 'f"
where
  "try_evaluate e ro rc rd = try_terms (try_resolve ro rc rd) e 0"

section \<open>Operators\<close>

definition expr_from_term :: "('f::comm_ring_1, 'o, 'p, 'c) claim_term \<Rightarrow> ('f, 'o, 'p, 'c) claim_expr" where
  "expr_from_term t = (if ct_coefficient t = 0 \<and> ct_factors t = [] then expr_zero else [t])"

definition expr_from_int :: "int \<Rightarrow> ('f::comm_ring_1, 'o, 'p, 'c) claim_expr" where
  "expr_from_int i = expr_constant (of_int i)"

definition expr_add ::
  "('f, 'o, 'p, 'c) claim_expr \<Rightarrow> ('f, 'o, 'p, 'c) claim_expr \<Rightarrow> ('f, 'o, 'p, 'c) claim_expr"
where
  "expr_add e f = e @ f"

definition expr_neg :: "('f::comm_ring_1, 'o, 'p, 'c) claim_expr \<Rightarrow> ('f, 'o, 'p, 'c) claim_expr" where
  "expr_neg e = map (\<lambda>t. t\<lparr>ct_coefficient := - ct_coefficient t\<rparr>) e"

definition expr_sub ::
  "('f::comm_ring_1, 'o, 'p, 'c) claim_expr \<Rightarrow> ('f, 'o, 'p, 'c) claim_expr \<Rightarrow> ('f, 'o, 'p, 'c) claim_expr"
where
  "expr_sub e f = expr_add e (expr_neg f)"

definition expr_mul ::
  "('f::comm_ring_1, 'o, 'p, 'c) claim_expr \<Rightarrow> ('f, 'o, 'p, 'c) claim_expr \<Rightarrow> ('f, 'o, 'p, 'c) claim_expr"
where
  "expr_mul e f =
     (if expr_is_zero e \<or> expr_is_zero f then expr_zero
      else concat (map (\<lambda>t. map (\<lambda>u.
        \<lparr>ct_coefficient = ct_coefficient t * ct_coefficient u, ct_factors = ct_factors t @ ct_factors u\<rparr>) f) e))"

definition expr_mul_int :: "('f::comm_ring_1, 'o, 'p, 'c) claim_expr \<Rightarrow> int \<Rightarrow> ('f, 'o, 'p, 'c) claim_expr" where
  "expr_mul_int e i =
     (let a = of_int i in
      if a = 0 then expr_zero else map (\<lambda>t. t\<lparr>ct_coefficient := ct_coefficient t * a\<rparr>) e)"

text \<open>\<^verbatim>\<open>pow\<close>, by repeated squaring.\<close>

fun pow_loop ::
  "nat \<Rightarrow> ('f::comm_ring_1, 'o, 'p, 'c) claim_expr \<Rightarrow> ('f, 'o, 'p, 'c) claim_expr \<Rightarrow> ('f, 'o, 'p, 'c) claim_expr"
where
  "pow_loop exponent base result =
     (if exponent = 0 then result
      else
        let result = (if exponent mod 2 = 1 then expr_mul result base else result);
            exponent' = exponent div 2;
            base = (if exponent' > 0 then expr_mul base base else base) in
        pow_loop exponent' base result)"

declare pow_loop.simps [simp del]

definition expr_pow :: "('f::comm_ring_1, 'o, 'p, 'c) claim_expr \<Rightarrow> nat \<Rightarrow> ('f, 'o, 'p, 'c) claim_expr" where
  "expr_pow e exponent = pow_loop exponent e expr_one"

section \<open>Sources\<close>

datatype claim_lowering_error = MissingOpening | MissingChallenge | MissingPublic | Lowering_Panicked

datatype 'f source_value = SV_Constant 'f | SV_LC "'f linear_combination"

definition into_linear_combination :: "'f::comm_ring_1 source_value \<Rightarrow> 'f linear_combination" where
  "into_linear_combination s = (case s of SV_Constant c \<Rightarrow> lc_constant c | SV_LC l \<Rightarrow> l)"

record ('f, 'o, 'p, 'c) claim_source_table =
  cs_openings :: "('o \<times> 'f source_value) list"
  cs_challenges :: "('c \<times> 'f source_value) list"
  cs_publics :: "('p \<times> 'f source_value) list"

definition sources_new :: "('f, 'o, 'p, 'c) claim_source_table" where
  "sources_new = \<lparr>cs_openings = [], cs_challenges = [], cs_publics = []\<rparr>"

text \<open>An insertion panics on a duplicate.\<close>

definition insert_source :: "'i \<Rightarrow> 'f source_value \<Rightarrow> ('i \<times> 'f source_value) list \<Rightarrow> ('i \<times> 'f source_value) list option" where
  "insert_source i s xs = (if list_ex (\<lambda>(j, _). j = i) xs then None else Some (xs @ [(i, s)]))"

definition insert_opening_source ::
  "'o \<Rightarrow> 'f source_value \<Rightarrow> ('f, 'o, 'p, 'c) claim_source_table \<Rightarrow> ('f, 'o, 'p, 'c) claim_source_table option"
where
  "insert_opening_source i s t =
     map_option (\<lambda>xs. t\<lparr>cs_openings := xs\<rparr>) (insert_source i s (cs_openings t))"

definition insert_challenge_source ::
  "'c \<Rightarrow> 'f source_value \<Rightarrow> ('f, 'o, 'p, 'c) claim_source_table \<Rightarrow> ('f, 'o, 'p, 'c) claim_source_table option"
where
  "insert_challenge_source i s t =
     map_option (\<lambda>xs. t\<lparr>cs_challenges := xs\<rparr>) (insert_source i s (cs_challenges t))"

definition insert_public_source ::
  "'p \<Rightarrow> 'f source_value \<Rightarrow> ('f, 'o, 'p, 'c) claim_source_table \<Rightarrow> ('f, 'o, 'p, 'c) claim_source_table option"
where
  "insert_public_source i s t =
     map_option (\<lambda>xs. t\<lparr>cs_publics := xs\<rparr>) (insert_source i s (cs_publics t))"

fun source_lookup ::
  "('f, 'o, 'p, 'c) claim_source_table \<Rightarrow> ('o, 'p, 'c) source \<Rightarrow> claim_lowering_error + 'f source_value"
where
  "source_lookup t (Opening i) = ok_or (map_of (cs_openings t) i) MissingOpening"
| "source_lookup t (Challenge i) = ok_or (map_of (cs_challenges t) i) MissingChallenge"
| "source_lookup t (Derived i) = ok_or (map_of (cs_publics t) i) MissingPublic"

section \<open>Lowering\<close>

fun multiply_all ::
  "'f::comm_ring_1 linear_combination \<Rightarrow> 'f linear_combination list \<Rightarrow> 'f r1cs_builder \<Rightarrow>
    ('f linear_combination \<times> 'f r1cs_builder) option"
where
  "multiply_all product [] b = Some (product, b)"
| "multiply_all product (factor # factors) b =
     (case multiply product factor b of
        None \<Rightarrow> None
      | Some (product, b) \<Rightarrow> multiply_all product factors b)"

definition lower_product ::
  "'f::comm_ring_1 \<Rightarrow> 'f linear_combination list \<Rightarrow> 'f r1cs_builder \<Rightarrow>
    ('f linear_combination \<times> 'f r1cs_builder) option"
where
  "lower_product coefficient factors b =
     (if coefficient = 0 then Some (lc_zero, b)
      else
        (case factors of
           [] \<Rightarrow> Some (lc_constant coefficient, b)
         | product # factors \<Rightarrow>
             map_option (\<lambda>(product, b). (lc_scale product coefficient, b)) (multiply_all product factors b)))"

text \<open>The factors of a term: constants go into the coefficient.\<close>

fun lower_factors ::
  "('f::comm_ring_1, 'o, 'p, 'c) claim_source_table \<Rightarrow> ('o, 'p, 'c) source list \<Rightarrow> 'f \<Rightarrow> 'f linear_combination list \<Rightarrow>
    claim_lowering_error + 'f \<times> 'f linear_combination list"
where
  "lower_factors t [] coefficient factors = Inr (coefficient, factors)"
| "lower_factors t (s # ss) coefficient factors =
     bind_res (source_lookup t s) (\<lambda>sv.
     case sv of
       SV_Constant value \<Rightarrow> lower_factors t ss (coefficient * value) factors
     | SV_LC l \<Rightarrow> lower_factors t ss coefficient (factors @ [l]))"

fun lower_terms ::
  "('f::comm_ring_1, 'o, 'p, 'c) claim_source_table \<Rightarrow> ('f, 'o, 'p, 'c) claim_expr \<Rightarrow> 'f linear_combination \<Rightarrow>
    'f r1cs_builder \<Rightarrow> claim_lowering_error + 'f linear_combination \<times> 'f r1cs_builder"
where
  "lower_terms t [] result b = Inr (result, b)"
| "lower_terms t (u # us) result b =
     bind_res (lower_factors t (ct_factors u) (ct_coefficient u) []) (\<lambda>(coefficient, factors).
     bind_res (ok_or (lower_product coefficient factors b) Lowering_Panicked) (\<lambda>(l, b).
     lower_terms t us (lc_add result l) b))"

definition lower_claim_expr ::
  "'f::comm_ring_1 r1cs_builder \<Rightarrow> ('f, 'o, 'p, 'c) claim_expr \<Rightarrow> ('f, 'o, 'p, 'c) claim_source_table \<Rightarrow>
    claim_lowering_error + 'f linear_combination \<times> 'f r1cs_builder"
where
  "lower_claim_expr b e t = lower_terms t e lc_zero b"

definition assert_claim_expr_eq ::
  "'f::comm_ring_1 r1cs_builder \<Rightarrow> ('f, 'o, 'p, 'c) claim_expr \<Rightarrow> 'f linear_combination \<Rightarrow>
    ('f, 'o, 'p, 'c) claim_source_table \<Rightarrow> claim_lowering_error + 'f r1cs_builder"
where
  "assert_claim_expr_eq b e expected t =
     bind_res (lower_claim_expr b e t) (\<lambda>(actual, b).
     ok_or (assert_equal actual expected b) Lowering_Panicked)"

section \<open>Evaluation is a homomorphism\<close>

definition term_value :: "(('o, 'p, 'c) source \<Rightarrow> 'f::comm_ring_1) \<Rightarrow> ('f, 'o, 'p, 'c) claim_term \<Rightarrow> 'f" where
  "term_value r t = ct_coefficient t * prod_list (map r (ct_factors t))"

lemma fold_times: "fold (\<lambda>s v. v * r s) ss (c :: 'f::comm_ring_1) = c * prod_list (map r ss)"
  by (induction ss arbitrary: c) (simp_all add: mult.assoc)

lemma expr_evaluate_sum:
  "expr_evaluate e ro rc rd = (\<Sum>t \<leftarrow> e. term_value (resolve ro rc rd) t)"
proof -
  have "fold (\<lambda>t result. result + fold (\<lambda>s v. v * resolve ro rc rd s) (ct_factors t) (ct_coefficient t)) e s =
      s + (\<Sum>t \<leftarrow> e. term_value (resolve ro rc rd) t)" for s
    by (induction e arbitrary: s) (simp_all add: fold_times term_value_def add.assoc)
  then show ?thesis by (simp add: expr_evaluate_def)
qed

lemma expr_evaluate_add: "expr_evaluate (expr_add e f) ro rc rd = expr_evaluate e ro rc rd + expr_evaluate f ro rc rd"
  by (simp add: expr_evaluate_sum expr_add_def)

lemma expr_evaluate_neg: "expr_evaluate (expr_neg e) ro rc rd = - expr_evaluate e ro rc rd"
  by (induction e) (simp_all add: expr_evaluate_sum expr_neg_def term_value_def)

lemma expr_evaluate_mul_int:
  "expr_evaluate (expr_mul_int e i) ro rc rd = expr_evaluate e ro rc rd * of_int i"
  by (induction e) (auto simp: expr_evaluate_sum expr_mul_int_def term_value_def expr_zero_def Let_def algebra_simps)

lemma expr_evaluate_mul:
  "expr_evaluate (expr_mul e f) ro rc rd = expr_evaluate e ro rc rd * expr_evaluate f ro rc rd"
proof -
  let ?r = "resolve ro rc rd"
  have row: "(\<Sum>u \<leftarrow> f. term_value ?r
      \<lparr>ct_coefficient = ct_coefficient t * ct_coefficient u, ct_factors = ct_factors t @ ct_factors u\<rparr>) =
      term_value ?r t * (\<Sum>u \<leftarrow> f. term_value ?r u)" for t
    by (induction f) (simp_all add: term_value_def algebra_simps)
  have "(\<Sum>x \<leftarrow> concat (map (\<lambda>t. map (\<lambda>u.
        \<lparr>ct_coefficient = ct_coefficient t * ct_coefficient u, ct_factors = ct_factors t @ ct_factors u\<rparr>) f) e).
      term_value ?r x) = (\<Sum>t \<leftarrow> e. term_value ?r t) * (\<Sum>u \<leftarrow> f. term_value ?r u)"
    by (induction e) (simp_all add: row [unfolded o_def] o_def algebra_simps)
  then show ?thesis by (simp add: expr_evaluate_sum expr_mul_def expr_is_zero_def expr_zero_def)
qed

lemma expr_evaluate_pow: "expr_evaluate (expr_pow e n) ro rc rd = expr_evaluate e ro rc rd ^ n"
proof -
  let ?ev = "\<lambda>e. expr_evaluate e ro rc rd"
  have "?ev (pow_loop n e result) = ?ev result * ?ev e ^ n" for result
  proof (induction n e result rule: pow_loop.induct)
    case (1 n base result)
    show ?case
    proof (cases "n = 0")
      case True
      then show ?thesis by (simp add: pow_loop.simps)
    next
      case False
      let ?result = "if n mod 2 = 1 then expr_mul result base else result"
      let ?base = "if n div 2 > 0 then expr_mul base base else base"
      have "?ev (pow_loop n base result) = ?ev (pow_loop (n div 2) ?base ?result)"
        using False by (subst pow_loop.simps) (simp add: Let_def)
      also have "\<dots> = ?ev ?result * ?ev ?base ^ (n div 2)" by (rule "1.IH" [OF False refl refl refl])
      also have "?ev ?base ^ (n div 2) = (?ev base * ?ev base) ^ (n div 2)"
        by (simp add: expr_evaluate_mul)
      also have "\<dots> = ?ev base ^ (2 * (n div 2))" by (simp add: power_mult power2_eq_square)
      also have "?ev ?result * ?ev base ^ (2 * (n div 2)) = ?ev result * ?ev base ^ (n mod 2 + 2 * (n div 2))"
        by (cases "n mod 2 = 1") (simp_all add: expr_evaluate_mul mult.assoc)
      finally show ?thesis by simp
    qed
  qed
  then show ?thesis by (simp add: expr_pow_def expr_evaluate_sum expr_one_def term_constant_def term_value_def)
qed

text \<open>When every source resolves, \<^verbatim>\<open>try_evaluate\<close> is \<^verbatim>\<open>evaluate\<close>.\<close>

lemma try_evaluate_total:
  fixes e :: "('f::comm_ring_1, 'o, 'p, 'c) claim_expr"
  shows "(try_evaluate e (\<lambda>i. Inr (ro i)) (\<lambda>i. Inr (rc i)) (\<lambda>i. Inr (rd i)) :: 'e + 'f) = Inr (expr_evaluate e ro rc rd)"
proof -
  have r: "try_resolve (\<lambda>i. Inr (ro i)) (\<lambda>i. Inr (rc i)) (\<lambda>i. Inr (rd i)) s = Inr (resolve ro rc rd s)" for s
    by (cases s) simp_all
  have f: "try_factors (\<lambda>s. Inr (resolve ro rc rd s)) ss v = Inr (v * prod_list (map (resolve ro rc rd) ss))" for ss v
    by (induction ss arbitrary: v) (simp_all add: mult.assoc)
  have "(try_terms (\<lambda>s. Inr (resolve ro rc rd s)) e v :: 'e + 'f) = Inr (v + (\<Sum>t \<leftarrow> e. term_value (resolve ro rc rd) t))" for v
    by (induction e arbitrary: v) (simp_all add: f term_value_def add.assoc)
  then show ?thesis by (simp add: try_evaluate_def r [abs_def] expr_evaluate_sum)
qed

section \<open>What a lowering adds to the constraints\<close>

text \<open>From \<open>b\<close> to \<open>b'\<close> the variables are extended by a function of the old ones, the new
  constraints say no more than that, and \<open>l\<close> takes the value \<open>f\<close>. A full assignment is
  extended to a full assignment.\<close>

definition lowers ::
  "'f::comm_ring_1 r1cs_builder \<Rightarrow> 'f r1cs_builder \<Rightarrow> 'f linear_combination \<Rightarrow> ('f list \<Rightarrow> 'f) \<Rightarrow> bool"
where
  "lowers b b' l f \<longleftrightarrow> builder_ok b' \<and> rb_num_vars b \<le> rb_num_vars b' \<and> known_variables b' l \<and>
     (\<exists>ext. (\<forall>w. satisfies b' w \<longleftrightarrow> (\<exists>v. w = v @ ext v \<and> satisfies b v)) \<and>
       (\<forall>v. length v = rb_num_vars b \<longrightarrow> length (v @ ext v) = rb_num_vars b') \<and>
       (\<forall>v. length v = rb_num_vars b \<longrightarrow> v ! 0 = 1 \<longrightarrow> lc_value l (v @ ext v) = f v) \<and>
       (\<forall>v. rb_witness b = map Some v \<longrightarrow> rb_witness b' = map Some (v @ ext v)))"

lemma lowers_same:
  assumes "builder_ok b" "known_variables b l"
    and "\<And>v. length v = rb_num_vars b \<Longrightarrow> v ! 0 = 1 \<Longrightarrow> lc_value l v = f v"
  shows "lowers b b l f"
  unfolding lowers_def using assms by (intro conjI exI [of _ "\<lambda>_. []"]) auto

lemma known_mono: "known_variables b l \<Longrightarrow> rb_num_vars b \<le> rb_num_vars b' \<Longrightarrow> known_variables b' l"
  by (auto simp: known_variables_def rb_num_vars_def list_all_iff)

lemma known_append:
  "known_variables b l \<Longrightarrow> length v = rb_num_vars b \<Longrightarrow> lc_value l (v @ ext) = lc_value l v"
  by (simp add: known_variables_def rb_num_vars_def lc_value_append)

lemma builder_pos: "builder_ok b \<Longrightarrow> 0 < rb_num_vars b"
  by (simp add: builder_ok_def rb_num_vars_def)

lemma lowers_trans:
  assumes "builder_ok b" "lowers b b1 l1 f1" "lowers b1 b2 l2 f2"
    and "\<And>v w. length v = rb_num_vars b \<Longrightarrow> v ! 0 = 1 \<Longrightarrow> length (v @ w) = rb_num_vars b1 \<Longrightarrow>
      lc_value l1 (v @ w) = f1 v \<Longrightarrow> f2 (v @ w) = f v"
  shows "lowers b b2 l2 f"
proof -
  from assms(2) obtain e1 where 1: "\<forall>w. satisfies b1 w \<longleftrightarrow> (\<exists>v. w = v @ e1 v \<and> satisfies b v)"
    "\<forall>v. length v = rb_num_vars b \<longrightarrow> length (v @ e1 v) = rb_num_vars b1"
    "\<forall>v. length v = rb_num_vars b \<longrightarrow> v ! 0 = 1 \<longrightarrow> lc_value l1 (v @ e1 v) = f1 v"
    "\<forall>v. rb_witness b = map Some v \<longrightarrow> rb_witness b1 = map Some (v @ e1 v)"
    unfolding lowers_def by blast
  from assms(3) obtain e2 where 2: "\<forall>w. satisfies b2 w \<longleftrightarrow> (\<exists>v. w = v @ e2 v \<and> satisfies b1 v)"
    "\<forall>v. length v = rb_num_vars b1 \<longrightarrow> length (v @ e2 v) = rb_num_vars b2"
    "\<forall>v. length v = rb_num_vars b1 \<longrightarrow> v ! 0 = 1 \<longrightarrow> lc_value l2 (v @ e2 v) = f2 v"
    "\<forall>v. rb_witness b1 = map Some v \<longrightarrow> rb_witness b2 = map Some (v @ e2 v)"
    unfolding lowers_def by blast
  let ?e = "\<lambda>v. e1 v @ e2 (v @ e1 v)"
  have "satisfies b2 w \<longleftrightarrow> (\<exists>v. w = v @ ?e v \<and> satisfies b v)" for w
    using 1(1) 2(1) by (metis append.assoc)
  moreover have "length (v @ ?e v) = rb_num_vars b2" if "length v = rb_num_vars b" for v
    using 1(2) 2(2) that by (metis append.assoc)
  moreover have "lc_value l2 (v @ ?e v) = f v" if v: "length v = rb_num_vars b" "v ! 0 = 1" for v
  proof -
    have "0 < length v" using builder_pos [OF assms(1)] v(1) by simp
    then have "(v @ e1 v) ! 0 = 1" using v(2) by (simp add: nth_append)
    then have "lc_value l2 ((v @ e1 v) @ e2 (v @ e1 v)) = f2 (v @ e1 v)" using 1(2) 2(3) v(1) by blast
    then show ?thesis using assms(4) [OF v, of "e1 v"] 1(2,3) v by simp
  qed
  moreover have "rb_witness b2 = map Some (v @ ?e v)" if "rb_witness b = map Some v" for v
    using 1(4) 2(4) that by (metis append.assoc)
  moreover have "builder_ok b2" "known_variables b2 l2" "rb_num_vars b \<le> rb_num_vars b2"
    using assms(2,3) by (auto simp: lowers_def)
  ultimately show ?thesis unfolding lowers_def by (intro conjI exI [of _ ?e]) blast+
qed

lemma multiply_lowers:
  assumes "builder_ok b" "known_variables b lhs" "known_variables b rhs"
  shows "\<exists>l b'. multiply lhs rhs b = Some (l, b') \<and> lowers b b' l (\<lambda>v. lc_value lhs v * lc_value rhs v)"
proof -
  obtain b' where m: "multiply lhs rhs b = Some (lc_variable (rb_num_vars b), b')" "builder_ok b'"
    "rb_num_vars b' = Suc (rb_num_vars b)"
    "\<And>w. satisfies b' w \<longleftrightarrow> (\<exists>v. w = v @ [lc_value lhs v * lc_value rhs v] \<and> satisfies b v)"
    "\<And>v. rb_witness b = map Some v \<Longrightarrow> rb_witness b' = map Some (v @ [lc_value lhs v * lc_value rhs v])"
    using multiply_facts [OF assms] by metis
  have "known_variables b' (lc_variable (rb_num_vars b))"
    using m(3) by (simp add: known_variables_def lc_variable_def rb_num_vars_def)
  then have "lowers b b' (lc_variable (rb_num_vars b)) (\<lambda>v. lc_value lhs v * lc_value rhs v)"
    unfolding lowers_def using m(2-5)
    by (intro conjI exI [of _ "\<lambda>v. [lc_value lhs v * lc_value rhs v]"]) (auto simp: nth_append)
  then show ?thesis using m(1) by blast
qed

lemma multiply_all_lowers:
  assumes "builder_ok b" "known_variables b product" "list_all (known_variables b) factors"
  shows "\<exists>l b'. multiply_all product factors b = Some (l, b') \<and>
    lowers b b' l (\<lambda>v. lc_value product v * prod_list (map (\<lambda>l. lc_value l v) factors))"
  using assms
proof (induction factors arbitrary: product b)
  case Nil
  then show ?case by (auto intro!: lowers_same)
next
  case (Cons factor factors)
  obtain p1 b1 where m: "multiply product factor b = Some (p1, b1)"
    "lowers b b1 p1 (\<lambda>v. lc_value product v * lc_value factor v)"
    using multiply_lowers [of b product factor] Cons.prems by auto
  have k: "builder_ok b1" "known_variables b1 p1" "rb_num_vars b \<le> rb_num_vars b1"
    using m(2) by (auto simp: lowers_def)
  have "list_all (known_variables b1) factors"
    using Cons.prems(3) known_mono [OF _ k(3)] by (auto simp: list_all_iff)
  then obtain l b' where r: "multiply_all p1 factors b1 = Some (l, b')"
    "lowers b1 b' l (\<lambda>v. lc_value p1 v * prod_list (map (\<lambda>l. lc_value l v) factors))"
    using Cons.IH [OF k(1,2)] by blast
  have "lowers b b' l (\<lambda>v. lc_value product v * prod_list (map (\<lambda>l. lc_value l v) (factor # factors)))"
  proof (rule lowers_trans [OF Cons.prems(1) m(2) r(2)])
    fix v w
    assume v: "length v = rb_num_vars b" "lc_value p1 (v @ w) = lc_value product v * lc_value factor v"
    have "prod_list (map (\<lambda>l. lc_value l (v @ w)) factors) = prod_list (map (\<lambda>l. lc_value l v) factors)"
      using Cons.prems(3) known_append [OF _ v(1)]
      by (intro arg_cong [where f = prod_list] map_cong refl) (auto simp: list_all_iff)
    then show "lc_value p1 (v @ w) * prod_list (map (\<lambda>l. lc_value l (v @ w)) factors) =
        lc_value product v * prod_list (map (\<lambda>l. lc_value l v) (factor # factors))"
      unfolding v(2) by (simp add: mult.assoc)
  qed
  then show ?case using m(1) r(1) by auto
qed

lemma lc_constant_known: "builder_ok b \<Longrightarrow> known_variables b (lc_constant c)"
  by (auto simp: known_variables_def lc_constant_def lc_zero_def ONE_def builder_ok_def)

lemma lowers_scale:
  assumes "lowers b b' l f"
  shows "lowers b b' (lc_scale l c) (\<lambda>v. f v * c)"
proof -
  have "known_variables b' (lc_scale l c)" if "known_variables b' l"
    using that by (auto simp: known_variables_def lc_scale_def lc_zero_def list_all_iff)
  moreover from assms obtain ext where "\<forall>w. satisfies b' w \<longleftrightarrow> (\<exists>v. w = v @ ext v \<and> satisfies b v)"
    "\<forall>v. length v = rb_num_vars b \<longrightarrow> length (v @ ext v) = rb_num_vars b'"
    "\<forall>v. length v = rb_num_vars b \<longrightarrow> v ! 0 = 1 \<longrightarrow> lc_value l (v @ ext v) = f v"
    "\<forall>v. rb_witness b = map Some v \<longrightarrow> rb_witness b' = map Some (v @ ext v)"
    unfolding lowers_def by blast
  ultimately show ?thesis using assms unfolding lowers_def by (intro conjI exI [of _ ext]) simp_all
qed

lemma lower_product_lowers:
  assumes "builder_ok b" "list_all (known_variables b) factors"
  shows "\<exists>l b'. lower_product c factors b = Some (l, b') \<and>
    lowers b b' l (\<lambda>v. c * prod_list (map (\<lambda>l. lc_value l v) factors))"
proof (cases "c = 0")
  case True
  have "lowers b b lc_zero (\<lambda>v. 0)"
    using assms(1) by (intro lowers_same) (simp_all add: known_variables_def lc_zero_def)
  then show ?thesis using True by (simp add: lower_product_def)
next
  case False
  show ?thesis
  proof (cases factors)
    case Nil
    have "lowers b b (lc_constant c) (\<lambda>v. c)"
      using assms(1) by (intro lowers_same) (simp_all add: lc_constant_known)
    then show ?thesis using False Nil by (simp add: lower_product_def)
  next
    case (Cons product rest)
    obtain l b' where m: "multiply_all product rest b = Some (l, b')"
      "lowers b b' l (\<lambda>v. lc_value product v * prod_list (map (\<lambda>l. lc_value l v) rest))"
      using multiply_all_lowers [of b product rest] assms Cons by auto
    have "lowers b b' (lc_scale l c) (\<lambda>v. c * prod_list (map (\<lambda>l. lc_value l v) factors))"
      using lowers_scale [OF m(2), of c] by (simp add: Cons mult.commute)
    then show ?thesis using False m(1) Cons by (simp add: lower_product_def)
  qed
qed

section \<open>Correctness of the lowering\<close>

fun source_value_at :: "'f list \<Rightarrow> 'f::comm_ring_1 source_value \<Rightarrow> 'f" where
  "source_value_at w (SV_Constant c) = c"
| "source_value_at w (SV_LC l) = lc_value l w"

text \<open>The values of the table's sources under an assignment.\<close>

definition table_value :: "('i \<times> 'f::comm_ring_1 source_value) list \<Rightarrow> 'f list \<Rightarrow> 'i \<Rightarrow> 'f" where
  "table_value xs w i = (case map_of xs i of Some sv \<Rightarrow> source_value_at w sv | None \<Rightarrow> 0)"

definition expr_at ::
  "('f::comm_ring_1, 'o, 'p, 'c) claim_source_table \<Rightarrow> ('f, 'o, 'p, 'c) claim_expr \<Rightarrow> 'f list \<Rightarrow> 'f"
where
  "expr_at t e w =
     expr_evaluate e (table_value (cs_openings t) w) (table_value (cs_challenges t) w) (table_value (cs_publics t) w)"

definition sources_known :: "'f r1cs_builder \<Rightarrow> ('f, 'o, 'p, 'c) claim_source_table \<Rightarrow> bool" where
  "sources_known b t \<longleftrightarrow>
     (\<forall>l. SV_LC l \<in> snd ` set (cs_openings t) \<union> snd ` set (cs_challenges t) \<union> snd ` set (cs_publics t) \<longrightarrow>
       known_variables b l)"

definition table_resolve ::
  "('f::comm_ring_1, 'o, 'p, 'c) claim_source_table \<Rightarrow> 'f list \<Rightarrow> ('o, 'p, 'c) source \<Rightarrow> 'f"
where
  "table_resolve t w =
     resolve (table_value (cs_openings t) w) (table_value (cs_challenges t) w) (table_value (cs_publics t) w)"

lemma source_lookup_value: "source_lookup t s = Inr sv \<Longrightarrow> table_resolve t w s = source_value_at w sv"
  by (cases s) (auto simp: table_resolve_def table_value_def ok_or_eq_Inr)

lemma source_lookup_known:
  "sources_known b t \<Longrightarrow> source_lookup t s = Inr (SV_LC l) \<Longrightarrow> known_variables b l"
  by (cases s) (force simp: sources_known_def ok_or_eq_Inr dest: map_of_SomeD)+

lemma lower_factors_facts:
  assumes "sources_known b t" "lower_factors t ss c fs = Inr (c', fs')" "list_all (known_variables b) fs"
  shows "list_all (known_variables b) fs' \<and>
    c' * prod_list (map (\<lambda>l. lc_value l w) fs') =
      c * prod_list (map (\<lambda>l. lc_value l w) fs) * prod_list (map (table_resolve t w) ss)"
  using assms(2,3)
proof (induction ss arbitrary: c fs)
  case Nil
  then show ?case by simp
next
  case (Cons s ss)
  obtain sv where sv: "source_lookup t s = Inr sv" using Cons.prems(1) by (auto elim!: bind_res_InrE)
  note val = source_lookup_value [OF sv, of w]
  show ?case
  proof (cases sv)
    case (SV_Constant x)
    then show ?thesis using Cons.IH [of "c * x" fs] Cons.prems sv val by (simp add: ac_simps)
  next
    case (SV_LC l)
    then have "known_variables b l" using source_lookup_known [OF assms(1)] sv by simp
    then show ?thesis using Cons.IH [of c "fs @ [l]"] Cons.prems sv val SV_LC by (simp add: ac_simps)
  qed
qed

lemma sources_known_mono: "sources_known b t \<Longrightarrow> rb_num_vars b \<le> rb_num_vars b' \<Longrightarrow> sources_known b' t"
  unfolding sources_known_def using known_mono by blast

lemma table_value_append:
  assumes "\<And>l. SV_LC l \<in> snd ` set xs \<Longrightarrow> known_variables b l" "length v = rb_num_vars b"
  shows "table_value xs (v @ w) i = table_value xs v i"
proof (cases "map_of xs i")
  case (Some sv)
  then have "sv \<in> snd ` set xs" by (force dest: map_of_SomeD)
  then show ?thesis using assms(1) known_append [OF _ assms(2)] Some
    by (cases sv) (auto simp: table_value_def)
qed (simp add: table_value_def)

lemma source_value_append:
  assumes "sources_known b t" "length v = rb_num_vars b"
  shows "table_resolve t (v @ w) = table_resolve t v"
proof -
  have "table_value (cs_openings t) (v @ w) = table_value (cs_openings t) v"
    "table_value (cs_challenges t) (v @ w) = table_value (cs_challenges t) v"
    "table_value (cs_publics t) (v @ w) = table_value (cs_publics t) v"
    using assms(1) by (auto intro!: ext table_value_append [OF _ assms(2)] simp: sources_known_def)
  then show ?thesis by (simp add: table_resolve_def)
qed

lemma lower_terms_lowers:
  assumes "builder_ok b" "sources_known b t" "known_variables b result"
    and "lower_terms t us result b = Inr (l, b')"
  shows "lowers b b' l (\<lambda>v. lc_value result v + (\<Sum>u \<leftarrow> us. term_value (table_resolve t v) u))"
  using assms
proof (induction us arbitrary: result b)
  case Nil
  then show ?case by (auto intro!: lowers_same)
next
  case (Cons u us)
  obtain c fs l1 b1 where s: "lower_factors t (ct_factors u) (ct_coefficient u) [] = Inr (c, fs)"
    "lower_product c fs b = Some (l1, b1)" "lower_terms t us (lc_add result l1) b1 = Inr (l, b')"
    using Cons.prems(4) by (auto simp: ok_or_eq_Inr elim!: bind_res_InrE)
  note ff = lower_factors_facts [OF Cons.prems(2) s(1)]
  have lw: "lowers b b1 l1 (\<lambda>v. c * prod_list (map (\<lambda>l. lc_value l v) fs))"
    using lower_product_lowers [OF Cons.prems(1), of fs c] ff s(2) by auto
  have k: "builder_ok b1" "known_variables b1 l1" "rb_num_vars b \<le> rb_num_vars b1"
    using lw by (auto simp: lowers_def)
  have "known_variables b1 (lc_add result l1)"
    using known_mono [OF Cons.prems(3) k(3)] k(2) by (simp add: known_variables_def lc_add_def)
  note ih = Cons.IH [OF k(1) sources_known_mono [OF Cons.prems(2) k(3)] this s(3)]
  show ?case
  proof (rule lowers_trans [OF Cons.prems(1) lw ih])
    fix v w
    assume v: "length v = rb_num_vars b" "lc_value l1 (v @ w) = c * prod_list (map (\<lambda>l. lc_value l v) fs)"
    have "lc_value l1 (v @ w) = term_value (table_resolve t v) u"
      using v(2) ff [of v] by (simp add: term_value_def)
    moreover have "table_resolve t (v @ w) = table_resolve t v"
      by (rule source_value_append [OF Cons.prems(2) v(1)])
    ultimately show "lc_value (lc_add result l1) (v @ w) +
        (\<Sum>u \<leftarrow> us. term_value (table_resolve t (v @ w)) u) =
        lc_value result v + (\<Sum>u \<leftarrow> u # us. term_value (table_resolve t v) u)"
      using known_append [OF Cons.prems(3) v(1)] by (simp add: add.assoc)
  qed
qed

lemma expr_at_sum: "expr_at t e w = (\<Sum>u \<leftarrow> e. term_value (table_resolve t w) u)"
  by (simp add: expr_at_def expr_evaluate_sum table_resolve_def)

lemma lower_claim_expr_lowers:
  assumes "builder_ok b" "sources_known b t" "lower_claim_expr b e t = Inr (l, b')"
  shows "lowers b b' l (expr_at t e)"
proof -
  have "known_variables b lc_zero" by (simp add: known_variables_def lc_zero_def)
  from lower_terms_lowers [OF assms(1,2) this] show ?thesis
    using assms(3) by (simp add: lower_claim_expr_def expr_at_sum [abs_def])
qed

text \<open>The lowering fails only on a source the table does not have, and never panics.\<close>

lemma lower_factors_result:
  "(\<exists>r. lower_factors t ss c fs = Inr r) \<longleftrightarrow> (\<forall>s \<in> set ss. \<exists>sv. source_lookup t s = Inr sv)"
  "lower_factors t ss c fs \<noteq> Inl Lowering_Panicked"
proof -
  have p: "source_lookup t s \<noteq> Inl Lowering_Panicked" for s
    by (cases s) (auto simp: ok_or_def split: option.splits)
  have "((\<exists>r. lower_factors t ss c fs = Inr r) \<longleftrightarrow> (\<forall>s \<in> set ss. \<exists>sv. source_lookup t s = Inr sv)) \<and>
      lower_factors t ss c fs \<noteq> Inl Lowering_Panicked"
  proof (induction ss arbitrary: c fs)
    case (Cons s ss)
    show ?case
    proof (cases "source_lookup t s")
      case (Inr sv)
      then show ?thesis using Cons by (cases sv) auto
    qed (use p [of s] in auto)
  qed simp
  then show "(\<exists>r. lower_factors t ss c fs = Inr r) \<longleftrightarrow> (\<forall>s \<in> set ss. \<exists>sv. source_lookup t s = Inr sv)"
    "lower_factors t ss c fs \<noteq> Inl Lowering_Panicked" by blast+
qed

lemma lower_terms_result:
  assumes "builder_ok b" "sources_known b t" "known_variables b result"
  shows "((\<exists>r. lower_terms t us result b = Inr r) \<longleftrightarrow>
      (\<forall>u \<in> set us. \<forall>s \<in> set (ct_factors u). \<exists>sv. source_lookup t s = Inr sv)) \<and>
    lower_terms t us result b \<noteq> Inl Lowering_Panicked"
  using assms
proof (induction us arbitrary: result b)
  case (Cons u us)
  show ?case
  proof (cases "lower_factors t (ct_factors u) (ct_coefficient u) []")
    case (Inl e)
    then show ?thesis
      using lower_factors_result [of t "ct_factors u" "ct_coefficient u" "[]"] by auto
  next
    case (Inr r)
    obtain c fs where r: "r = (c, fs)" by fastforce
    have ff: "list_all (known_variables b) fs" using lower_factors_facts [OF Cons.prems(2) Inr [unfolded r]] by simp
    obtain l1 b1 where p: "lower_product c fs b = Some (l1, b1)"
      "lowers b b1 l1 (\<lambda>v. c * prod_list (map (\<lambda>l. lc_value l v) fs))"
      using lower_product_lowers [OF Cons.prems(1) ff] by blast
    have k: "builder_ok b1" "known_variables b1 l1" "rb_num_vars b \<le> rb_num_vars b1"
      using p(2) by (auto simp: lowers_def)
    have "known_variables b1 (lc_add result l1)"
      using known_mono [OF Cons.prems(3) k(3)] k(2) by (simp add: known_variables_def lc_add_def)
    note ih = Cons.IH [OF k(1) sources_known_mono [OF Cons.prems(2) k(3)] this]
    then show ?thesis using Inr p(1) lower_factors_result(1) [of t "ct_factors u" "ct_coefficient u" "[]"]
      by (auto simp: r)
  qed
qed simp

end
