(* ===== verification/R1cs_Props.thy ===== *)
theory R1cs_Props
  imports Sumcheck_R1cs R1cs_Claims Sumcheck_Props
begin

text \<open>
  The properties of the constraint builder, the lowering of claim expressions and the sumcheck
  constraints, with their instances over the field of three elements.
\<close>

section \<open>The builder\<close>

text \<open>One operation of the builder.\<close>

inductive builder_step :: "'f::comm_ring_1 r1cs_builder \<Rightarrow> 'f r1cs_builder \<Rightarrow> bool" where
  bs_alloc: "alloc_witness x b = (v, b') \<Longrightarrow> builder_step b b'"
| bs_assign: "rb_assign v x b = Inr b' \<Longrightarrow> builder_step b b'"
| bs_product: "assert_product lhs rhs out b = Some b' \<Longrightarrow> builder_step b b'"
| bs_equal: "assert_equal lhs rhs b = Some b' \<Longrightarrow> builder_step b b'"
| bs_multiply: "multiply lhs rhs b = Some (out, b') \<Longrightarrow> builder_step b b'"

inductive builder_reachable :: "'f::comm_ring_1 r1cs_builder \<Rightarrow> bool" where
  br_new: "builder_reachable rb_new"
| br_step: "builder_reachable b \<Longrightarrow> builder_step b b' \<Longrightarrow> builder_reachable b'"

inductive_cases builder_stepE: "builder_step b b'"

lemma builder_ok_multiply:
  assumes "builder_ok b" "multiply lhs rhs b = Some (out, b')"
  shows "builder_ok b'"
proof -
  obtain x where "assert_product lhs rhs out (snd (alloc_witness x b)) = Some b'"
    using assms(2) unfolding multiply_def Let_def by (auto split: prod.splits) (metis snd_conv)
  then show ?thesis using builder_ok_assert_product builder_ok_alloc [OF assms(1)] by blast
qed

lemma builder_step_ok: "builder_step b b' \<Longrightarrow> builder_ok b \<Longrightarrow> builder_ok b'"
proof (induction rule: builder_step.induct)
  case (bs_alloc x b v b')
  then show ?case using builder_ok_alloc [of b x] by simp
qed (auto intro: builder_ok_assign builder_ok_assert_product builder_ok_multiply assert_equal_facts(1))

lemma builder_reachable_ok: "builder_reachable b \<Longrightarrow> builder_ok b"
  by (induction rule: builder_reachable.induct) (auto intro: builder_ok_new builder_step_ok)

text \<open>C33: every builder that operations produce from the empty one is well formed: column 0 is the
  constant one, there are as many rows in each matrix, every row is sorted, without duplicates, zeros
  or columns out of range. So \<^verbatim>\<open>into_matrices\<close> never panics, and the matrices accept
  exactly the assignments that satisfy everything asserted.\<close>

theorem builder_matrices:
  assumes "builder_reachable b"
  shows "builder_ok b \<and> (\<exists>m. into_matrices b = Some m \<and> cm_num_vars m = rb_num_vars b \<and>
    (\<forall>w. length w = rb_num_vars b \<longrightarrow> w ! 0 = 1 \<longrightarrow> (check_witness m w = Inr () \<longleftrightarrow> satisfies b w)))"
  using into_matrices_facts builder_reachable_ok [OF assms] by blast

definition square_builder :: "gf3 r1cs_builder" where
  "square_builder = snd (the (multiply (lc_variable 1) (lc_variable 1) (snd (rb_alloc G2 rb_new))))"

lemma square_builder_reachable: "builder_reachable square_builder"
proof -
  have "multiply (lc_variable 1) (lc_variable 1) (snd (rb_alloc G2 rb_new)) =
      Some (lc_variable 2, square_builder)"
    by (simp add: square_builder_def multiply_def rb_alloc_def alloc_witness_def rb_new_def Let_def
        assert_product_def known_variables_def lc_variable_def)
  moreover have "builder_reachable (snd (rb_alloc G2 rb_new))"
    by (rule br_step [OF br_new bs_alloc [of "Some G2" _ 1]]) (simp add: rb_alloc_def alloc_witness_def rb_new_def)
  ultimately show ?thesis using br_step bs_multiply by blast
qed

theorem builder_matrices_witness:
  "\<exists>m. into_matrices square_builder = Some m \<and>
    (check_witness m [G1, G2, G1] = Inr () \<longleftrightarrow> satisfies square_builder [G1, G2, G1])"
proof -
  have "rb_num_vars square_builder = 3" by code_simp
  then show ?thesis using builder_matrices [OF square_builder_reachable]
    by (auto simp: one_gf3_def numeral_3_eq_3)
qed

section \<open>Claim expressions\<close>

text \<open>The operators on claim expressions, which work on sums of products, mean what they are
  written as: evaluation commutes with addition, subtraction, negation, multiplication, scaling by an
  integer and powers by repeated squaring, under any values of the sources.\<close>

theorem claim_expr_homomorphism:
  "expr_evaluate (expr_add e f) ro rc rd = expr_evaluate e ro rc rd + expr_evaluate f ro rc rd \<and>
   expr_evaluate (expr_sub e f) ro rc rd = expr_evaluate e ro rc rd - expr_evaluate f ro rc rd \<and>
   expr_evaluate (expr_neg e) ro rc rd = - expr_evaluate e ro rc rd \<and>
   expr_evaluate (expr_mul e f) ro rc rd = expr_evaluate e ro rc rd * expr_evaluate f ro rc rd \<and>
   expr_evaluate (expr_mul_int e i) ro rc rd = expr_evaluate e ro rc rd * of_int i \<and>
   expr_evaluate (expr_pow e n) ro rc rd = expr_evaluate e ro rc rd ^ n"
  by (simp add: expr_sub_def expr_evaluate_add expr_evaluate_neg expr_evaluate_mul expr_evaluate_mul_int
      expr_evaluate_pow)

text \<open>C31: the lowering of a claim expression to constraints is correct. It fails only when the table
  lacks a source of the expression. When it succeeds, the new constraints fix the new variables as a
  function of the old ones and constrain nothing else; on every assignment of the old variables the
  linear combination returned takes the value of the expression; and a full assignment is extended to
  one that satisfies the new constraints.\<close>

theorem lower_claim_expr_correct:
  assumes "builder_ok b" "sources_known b t"
  shows "case lower_claim_expr b e t of
      Inl err \<Rightarrow> err \<noteq> Lowering_Panicked \<and>
        (\<exists>u \<in> set e. \<exists>s \<in> set (ct_factors u). \<forall>sv. source_lookup t s \<noteq> Inr sv)
    | Inr (l, b') \<Rightarrow> builder_ok b' \<and> known_variables b' l \<and>
        (\<exists>ext. (\<forall>w. satisfies b' w \<longleftrightarrow> (\<exists>v. w = v @ ext v \<and> satisfies b v)) \<and>
          (\<forall>v. satisfies b v \<longrightarrow> lc_value l (v @ ext v) = expr_at t e v) \<and>
          (\<forall>v. rb_witness b = map Some v \<longrightarrow> rb_witness b' = map Some (v @ ext v)))"
proof (cases "lower_claim_expr b e t")
  case (Inl err)
  have "known_variables b lc_zero" by simp
  from lower_terms_result [OF assms this, of e] Inl show ?thesis
    by (auto simp: lower_claim_expr_def)
next
  case (Inr r)
  then obtain l b' where r: "lower_claim_expr b e t = Inr (l, b')" by (cases r) simp
  have sat: "length v = rb_num_vars b" "v ! 0 = 1" if "satisfies b v" for v
    using that by (simp_all add: satisfies_def)
  from lower_claim_expr_lowers [OF assms r] obtain ext where
    "builder_ok b'" "known_variables b' l"
    "\<forall>w. satisfies b' w \<longleftrightarrow> (\<exists>v. w = v @ ext v \<and> satisfies b v)"
    "\<forall>v. length v = rb_num_vars b \<longrightarrow> v ! 0 = 1 \<longrightarrow> lc_value l (v @ ext v) = expr_at t e v"
    "\<forall>v. rb_witness b = map Some v \<longrightarrow> rb_witness b' = map Some (v @ ext v)"
    unfolding lowers_def by blast
  then show ?thesis unfolding r using sat by (auto intro!: exI [of _ ext])
qed

definition example_table :: "(gf3, nat, unit, nat) claim_source_table" where
  "example_table = \<lparr>cs_openings = [(0, SV_LC (lc_variable 1)), (1, SV_LC (lc_variable 2))],
     cs_challenges = [(0, SV_Constant G2)], cs_publics = []\<rparr>"

definition example_expr :: "(gf3, nat, unit, nat) claim_expr" where
  "example_expr = expr_add (expr_mul (expr_opening 0) (expr_opening 1))
     (expr_mul (expr_challenge 0) (expr_opening 0))"

definition example_rb :: "gf3 r1cs_builder" where
  "example_rb = \<lparr>rb_witness = [Some G1, Some G1, Some G2], rb_a = [], rb_b = [], rb_c = []\<rparr>"

theorem lower_claim_expr_correct_witness:
  "\<exists>l b'. lower_claim_expr example_rb example_expr example_table = Inr (l, b') \<and>
    rb_witness b' = map Some [G1, G1, G2, G2] \<and> lc_value l [G1, G1, G2, G2] = G1"
proof -
  have l: "lower_claim_expr example_rb example_expr example_table =
      Inr ([(3, G1), (1, G2)], \<lparr>rb_witness = [Some G1, Some G1, Some G2, Some G2],
        rb_a = [[(1, G1)]], rb_b = [[(2, G1)]], rb_c = [[(3, G1)]]\<rparr>)"
    by code_simp
  have ok: "builder_ok example_rb"
    by (simp add: builder_ok_def example_rb_def one_gf3_def)
  have known: "sources_known example_rb example_table"
    by (auto simp: sources_known_def example_table_def example_rb_def rb_num_vars_def)
  have sat: "satisfies example_rb [G1, G1, G2]"
    by (simp add: satisfies_def example_rb_def rb_num_vars_def one_gf3_def)
  obtain ext where e: "\<forall>v. satisfies example_rb v \<longrightarrow>
      lc_value [(3, G1), (1, G2)] (v @ ext v) = expr_at example_table example_expr v"
    "\<forall>v. rb_witness example_rb = map Some v \<longrightarrow> [Some G1, Some G1, Some G2, Some G2] = map Some (v @ ext v)"
    using lower_claim_expr_correct [OF ok known, of example_expr] unfolding l by auto
  have "ext [G1, G1, G2] = [G2]" using e(2) [rule_format, of "[G1, G1, G2]"] by (auto simp: example_rb_def)
  moreover have "expr_at example_table example_expr [G1, G1, G2] = G1" by code_simp
  ultimately have "lc_value [(3, G1), (1, G2)] [G1, G1, G2, G2] = G1"
    using e(1) sat by fastforce
  then show ?thesis using l by simp
qed

section \<open>The sumcheck verifier as constraints\<close>

text \<open>C32: the sumcheck constraints are the sumcheck verifier. An assignment satisfies the constraints
  appended for a layout exactly when it satisfies those before, the verifier accepts the rounds whose
  coefficients it assigns, from the input claim, on the public challenges and ends in the output claim,
  and the claim variables between the rounds hold the running sums.\<close>

theorem sumcheck_constraints_equivalent:
  fixes b :: "'f::field r1cs_builder"
  assumes "builder_ok b" "append_sumcheck_r1cs_constraints_for_domain b st rounds layout domain = Inr b'"
  shows "builder_ok b' \<and>
    (satisfies b' w \<longleftrightarrow> satisfies b w \<and>
      sumcheck_verify coin_ops
        \<lparr>sc_num_vars = ss_num_vars st, sc_degree = ss_degree st, sc_claimed_sum = w ! ly_input_claim layout\<rparr>
        (map Poly_Round (assigned_rounds w (ly_rounds layout))) domain (map rr_challenge rounds) =
      Inr (\<lparr>ec_point = map rr_challenge rounds, ec_value = w ! ly_output_claim layout\<rparr>, []) \<and>
      claims_assigned w (ly_rounds layout) rounds)"
  using append_constraints_facts [OF assms, of w] by blast

text \<open>The layout allocated for a list of rounds is valid: the constraints over it are appended
  without an error, for any domain whose power sums do not overflow at the rounds' degrees.\<close>

theorem allocated_layout_accepted:
  fixes b :: "'f::field r1cs_builder"
  assumes "builder_ok b" "allocate_sumcheck_r1cs_layout b st rounds = Inr (layout, b1)"
    and "\<And>r. r \<in> set rounds \<Longrightarrow> \<exists>cs :: 'f list. round_sum_coefficients domain (rr_degree r) = Inr cs"
  shows "\<exists>b'. append_sumcheck_r1cs_constraints_for_domain b1 st rounds layout domain = Inr b'"
  using allocated_constraints_succeed [OF assms] by blast

definition example_rounds :: "gf3 r1cs_round list" where
  "example_rounds = [\<lparr>rr_degree = 1, rr_challenge = G2\<rparr>]"

definition example_layout :: r1cs_layout where
  "example_layout = \<lparr>ly_input_claim = 1,
     ly_rounds = [\<lparr>rl_claim_in = 1, rl_coefficients = [2, 3], rl_claim_out = 4\<rparr>], ly_output_claim = 4\<rparr>"

definition example_unknowns :: "gf3 r1cs_builder" where
  "example_unknowns = \<lparr>rb_witness = [Some G1, None, None, None, None], rb_a = [], rb_b = [], rb_c = []\<rparr>"

definition example_constrained :: "gf3 r1cs_builder" where
  "example_constrained = \<lparr>rb_witness = [Some G1, None, None, None, None],
     rb_a = [[(1, G2), (2, G2), (3, G1)], [(2, G1), (3, G2), (4, G2)]],
     rb_b = [[(0, G1)], [(0, G1)]], rb_c = [[], []]\<rparr>"

lemma example_appended:
  "allocate_sumcheck_r1cs_layout rb_new \<lparr>ss_num_vars = 1, ss_degree = 1\<rparr> example_rounds =
    Inr (example_layout, example_unknowns)"
  "append_sumcheck_r1cs_constraints_for_domain example_unknowns \<lparr>ss_num_vars = 1, ss_degree = 1\<rparr>
    example_rounds example_layout BooleanHypercube = Inr example_constrained"
  by code_simp+

lemma example_unknowns_ok: "builder_ok example_unknowns"
  by (simp add: builder_ok_def example_unknowns_def one_gf3_def)

theorem allocated_layout_accepted_witness:
  "\<exists>b'. append_sumcheck_r1cs_constraints_for_domain example_unknowns \<lparr>ss_num_vars = 1, ss_degree = 1\<rparr>
    example_rounds example_layout BooleanHypercube = Inr b'"
  by (rule allocated_layout_accepted [OF builder_ok_new example_appended(1)]) simp

theorem sumcheck_constraints_equivalent_witness:
  "satisfies example_constrained [G1, G1, G2, G0, G2] \<longleftrightarrow> satisfies example_unknowns [G1, G1, G2, G0, G2] \<and>
    sumcheck_verify coin_ops \<lparr>sc_num_vars = 1, sc_degree = 1, sc_claimed_sum = G1\<rparr>
      [Poly_Round [G2, G0]] BooleanHypercube [G2] = Inr (\<lparr>ec_point = [G2], ec_value = G2\<rparr>, []) \<and>
    claims_assigned [G1, G1, G2, G0, G2] (ly_rounds example_layout) example_rounds"
  using sumcheck_constraints_equivalent [OF example_unknowns_ok example_appended(2), of "[G1, G1, G2, G0, G2]"]
  by (simp add: example_layout_def example_rounds_def assigned_rounds_def)

section \<open>Folded matrices\<close>

text \<open>The folded evaluation of the three matrices is the bilinear form it stands for: with weights
  \<open>r\<close> for the rows and column weights placed at \<open>start_col\<close> in an otherwise zero vector
  \<open>z\<close>, it is the sum over the rows of \<open>r\<close> times the weighted sum of the three matrices' products
  with \<open>z\<close>.\<close>

theorem linear_form_correct:
  assumes "cm_new n v a b c = Some m"
    and "linear_form_bilinear_eval m r cw start_col col_count (w0, w1, w2) = Inr x"
  shows "n \<le> length r \<and> length cw = col_count \<and>
    x = (\<Sum>i < n. r ! i * (w0 * row_dot (a ! i) (window start_col cw v) +
      w1 * row_dot (b ! i) (window start_col cw v) + w2 * row_dot (c ! i) (window start_col cw v)))"
proof -
  let ?z = "window start_col cw v"
  have inv: "list_all (list_all (\<lambda>(col, _). col < v)) a" "list_all (list_all (\<lambda>(col, _). col < v)) b"
    "list_all (list_all (\<lambda>(col, _). col < v)) c" "length a = n" "length b = n" "length c = n"
    and m: "cm_a m = a" "cm_b m = b" "cm_c m = c"
    using assms(1) check_invariants_rows [of n v a b c] by (auto simp: cm_new_def split: if_splits)
  obtain xa xb xc where e: "matrix_bilinear_eval_columns a r cw start_col col_count = Inr xa"
    "matrix_bilinear_eval_columns b r cw start_col col_count = Inr xb"
    "matrix_bilinear_eval_columns c r cw start_col col_count = Inr xc" "x = w0 * xa + w1 * xb + w2 * xc"
    using assms(2) by (auto simp: linear_form_bilinear_eval_def m elim!: bind_res_InrE)
  have len: "n \<le> length r" "length cw = col_count"
    using e(1) inv(4) by (auto simp: matrix_bilinear_eval_columns_def split: if_splits)
  have sum: "(\<Sum>(row, rw) \<leftarrow> zip rows r. rw * row_dot row ?z) = (\<Sum>i < n. r ! i * row_dot (rows ! i) ?z)"
    if "length rows = n" for rows
    using that len(1) by (simp add: sum_list_sum_nth atLeast0LessThan min_def)
  show ?thesis
    using len matrix_bilinear_eval_Inr [OF inv(1) e(1)] matrix_bilinear_eval_Inr [OF inv(2) e(2)]
      matrix_bilinear_eval_Inr [OF inv(3) e(3)] sum inv(4-6)
    by (simp add: e(4) sum_distrib_left sum.distrib algebra_simps)
qed

theorem linear_form_correct_witness:
  "G1 = (\<Sum>i < 1. [G2] ! i * (G1 * row_dot ([[(1, G2)]] ! i) (window 1 [G1] 2) +
      G2 * row_dot ([[(0, G1)]] ! i) (window 1 [G1] 2) + G1 * row_dot ([[]] ! i) (window 1 [G1] 2)))"
proof -
  have n: "cm_new 1 2 [[(1, G2)]] [[(0, G1)]] [[]] =
      Some \<lparr>cm_num_constraints = 1, cm_num_vars = 2, cm_a = [[(1, G2)]], cm_b = [[(0, G1)]], cm_c = [[]]\<rparr>"
    by (simp add: cm_new_def check_invariants_def)
  have "linear_form_bilinear_eval
      \<lparr>cm_num_constraints = 1, cm_num_vars = 2, cm_a = [[(1, G2)]], cm_b = [[(0, G1)]], cm_c = [[]]\<rparr>
      [G2] [G1] 1 1 (G1, G2, G1) = Inr G1"
    by (simp add: linear_form_bilinear_eval_def matrix_bilinear_eval_columns_def gf3_simps)
  from linear_form_correct [OF n this] show ?thesis by blast
qed

end
