(* ===== verification/Eq_Poly.thy ===== *)
theory Eq_Poly
  imports Prelude
begin

text \<open>
  \<^verbatim>\<open>jolt-poly/src/eq.rs\<close> and \<^verbatim>\<open>mle.rs\<close>: the equality polynomial, its value at a point and at an
  index, and the constructions of its table: \<open>evaluations\<close>, the serial, parallel and cached ones.
  Indices are big-endian: the first coordinate is the most significant bit. A \<^verbatim>\<open>usize\<close> is a
  natural number, an index of type \<^verbatim>\<open>u128\<close> a word; a failed assertion is \<open>None\<close>.
\<close>

section \<open>Powers of two\<close>

text \<open>\<^verbatim>\<open>usize::is_power_of_two\<close>, \<^verbatim>\<open>trailing_zeros\<close> and \<^verbatim>\<open>Math::log_2\<close> of \<^verbatim>\<open>jolt-utils\<close>, which
  rounds up; \<open>log_2 0\<close> is a failed assertion there, and never called.\<close>

definition is_power_of_two :: "nat \<Rightarrow> bool" where
  "is_power_of_two n \<longleftrightarrow> 0 < n \<and> next_power_of_two n = n"

fun twos :: "nat \<Rightarrow> nat" where
  "twos n = (if n = 0 \<or> odd n then 0 else Suc (twos (n div 2)))"

fun floor_log :: "nat \<Rightarrow> nat" where
  "floor_log n = (if n \<le> 1 then 0 else Suc (floor_log (n div 2)))"

definition log_2 :: "nat \<Rightarrow> nat" where
  "log_2 n = (if is_power_of_two n then floor_log n else Suc (floor_log n))"

declare twos.simps [simp del] floor_log.simps [simp del]

section \<open>Values of the equality polynomial\<close>

definition eq_evaluate :: "'f::comm_ring_1 list \<Rightarrow> 'f list \<Rightarrow> 'f option" where
  "eq_evaluate point p =
     (if length point \<noteq> length p then None
      else Some (fold (\<lambda>(r, p) acc. acc * (r * p + (1 - r) * (1 - p))) (zip point p) 1))"

definition eq_mle :: "'f::comm_ring_1 list \<Rightarrow> 'f list \<Rightarrow> 'f option" where
  "eq_mle x y =
     (if length x \<noteq> length y then None
      else Some (fold (\<lambda>v acc. acc * v) (map2 (\<lambda>x y. x * y + (1 - x) * (1 - y)) x y) 1))"

definition zero_selector :: "'f::comm_ring_1 list \<Rightarrow> 'f" where
  "zero_selector r = fold (\<lambda>v acc. acc * v) (map (\<lambda>r. 1 - r) r) 1"

definition index_bit :: "u128 \<Rightarrow> nat \<Rightarrow> bool" where
  "index_bit index shift = (if shift < 128 then drop_bit shift index AND 1 = 1 else False)"

definition eq_index_msb :: "'f::comm_ring_1 list \<Rightarrow> u128 \<Rightarrow> 'f" where
  "eq_index_msb point index =
     fold (\<lambda>(position, c) eq.
         if index_bit index (length point - 1 - position) then eq * c else eq * (1 - c))
       (enumerate 0 point) 1"

definition boolean_bits_msb :: "nat \<Rightarrow> nat \<Rightarrow> bool list" where
  "boolean_bits_msb num_vars index =
     map (\<lambda>position. let shift = num_vars - 1 - position in
            if shift < 64 then odd (index div 2 ^ shift) else False) [0..<num_vars]"

definition boolean_point_msb :: "nat \<Rightarrow> nat \<Rightarrow> 'f::comm_ring_1 list" where
  "boolean_point_msb num_vars index = map of_bool (boolean_bits_msb num_vars index)"

text \<open>\<^verbatim>\<open>checked_shl(1)\<close> is \<^verbatim>\<open>None\<close> for no \<^verbatim>\<open>usize\<close>: it drops the high bit.\<close>

fun boolean_index_loop :: "'f::comm_ring_1 list \<Rightarrow> u64 \<Rightarrow> u64 option" where
  "boolean_index_loop [] index = Some index"
| "boolean_index_loop (v # point) index =
     (let index = push_bit 1 index in
      if v = 1 then boolean_index_loop point (index OR 1)
      else if v \<noteq> 0 then None
      else boolean_index_loop point index)"

definition boolean_index_msb :: "'f::comm_ring_1 list \<Rightarrow> u64 option" where
  "boolean_index_msb point = boolean_index_loop point 0"

section \<open>The constructions of the table\<close>

text \<open>\<^verbatim>\<open>evaluations\<close>: every coordinate doubles the table in place, from the last entry.\<close>

definition double_layer :: "'f::comm_ring_1 \<Rightarrow> 'f list \<Rightarrow> 'f list" where
  "double_layer r table =
     fold (\<lambda>j t. let base = t ! j in t[2 * j := base * (1 - r), 2 * j + 1 := base * r])
       (rev [0..<length table]) (table @ replicate (length table) 0)"

definition eq_evaluations :: "'f::comm_ring_1 list \<Rightarrow> 'f list" where
  "eq_evaluations point = fold double_layer point [1]"

text \<open>\<^verbatim>\<open>evals_serial\<close>: the odd entries below \<open>size\<close>, from the last one.\<close>

definition serial_layer :: "'f::comm_ring_1 \<Rightarrow> nat \<Rightarrow> 'f list \<Rightarrow> 'f list" where
  "serial_layer r sz evals =
     fold (\<lambda>i evals. let scalar = evals ! (i div 2); e = scalar * r in
           evals[i := e, i - 1 := scalar - e])
       (map (\<lambda>k. sz - 1 - 2 * k) [0..<sz div 2]) evals"

definition evals_serial :: "'f::comm_ring_1 list \<Rightarrow> 'f option \<Rightarrow> 'f list" where
  "evals_serial r scaling_factor =
     snd (fold (\<lambda>r (sz, evals). (sz * 2, serial_layer r (sz * 2) evals)) r
       (1, replicate (2 ^ length r) (case scaling_factor of Some s \<Rightarrow> s | None \<Rightarrow> 1)))"

text \<open>\<^verbatim>\<open>evals_parallel\<close> takes the coordinates from the last, two at a time: the first argument is
  the reversed point. The entries below \<open>size\<close> are set, the others are zero.\<close>

fun parallel_layers :: "'f::comm_ring_1 list \<Rightarrow> nat \<Rightarrow> 'f list \<Rightarrow> 'f list" where
  "parallel_layers (r_lo # r_hi # rest) sz evals =
     (let q0 = take sz evals;
          with_lo = map (\<lambda>x. x * r_lo) q0; without_lo = map2 (-) q0 with_lo;
          q2 = map (\<lambda>x. x * r_hi) without_lo; q3 = map (\<lambda>x. x * r_hi) with_lo in
      parallel_layers rest (sz * 4)
        (map2 (-) without_lo q2 @ map2 (-) with_lo q3 @ q2 @ q3 @ drop (4 * sz) evals))"
| "parallel_layers [r] sz evals =
     (let left = take sz evals; right = map (\<lambda>x. x * r) left in
      map2 (-) left right @ right @ drop (2 * sz) evals)"
| "parallel_layers [] sz evals = evals"

definition evals_parallel :: "'f::comm_ring_1 list \<Rightarrow> 'f option \<Rightarrow> 'f list" where
  "evals_parallel r scaling_factor =
     parallel_layers (rev r) 1
       ((replicate (2 ^ length r) 0)[0 := (case scaling_factor of Some s \<Rightarrow> s | None \<Rightarrow> 1)])"

definition eq_evals :: "'f::comm_ring_1 list \<Rightarrow> 'f option \<Rightarrow> 'f list" where
  "eq_evals r scaling_factor =
     (if length r \<le> 16 then evals_serial r scaling_factor else evals_parallel r scaling_factor)"

text \<open>\<^verbatim>\<open>evals_cached\<close> keeps the table of every prefix, \<^verbatim>\<open>evals_cached_rev\<close> of every suffix: the
  next table is written from the last one.\<close>

definition cached_layer :: "'f::comm_ring_1 \<Rightarrow> nat \<Rightarrow> 'f list \<Rightarrow> 'f list \<Rightarrow> 'f list" where
  "cached_layer r sz prev init =
     fold (\<lambda>i evals. let scalar = prev ! (i div 2); e = scalar * r in
           evals[i := e, i - 1 := scalar - e])
       (map (\<lambda>k. sz - 1 - 2 * k) [0..<sz div 2]) init"

definition scaled_tables :: "nat \<Rightarrow> 'f::comm_ring_1 option \<Rightarrow> 'f list list" where
  "scaled_tables n scaling_factor =
     map (\<lambda>i. replicate (2 ^ i) (case scaling_factor of Some s \<Rightarrow> s | None \<Rightarrow> 1)) [0..<Suc n]"

definition evals_cached :: "'f::comm_ring_1 list \<Rightarrow> 'f option \<Rightarrow> 'f list list" where
  "evals_cached r scaling_factor =
     fold (\<lambda>j evals. evals[Suc j := cached_layer (r ! j) (2 ^ Suc j) (evals ! j) (evals ! Suc j)])
       [0..<length r] (scaled_tables (length r) scaling_factor)"

definition cached_rev_layer :: "'f::comm_ring_1 \<Rightarrow> nat \<Rightarrow> nat \<Rightarrow> 'f list \<Rightarrow> 'f list \<Rightarrow> 'f list" where
  "cached_rev_layer r sz multiple prev init =
     fold (\<lambda>i evals. let scalar = prev ! i; e = scalar * r in
           evals[i + multiple := e, i := scalar - e]) [0..<sz] init"

definition evals_cached_rev :: "'f::comm_ring_1 list \<Rightarrow> 'f option \<Rightarrow> 'f list list" where
  "evals_cached_rev r scaling_factor =
     fold (\<lambda>j evals. evals[Suc j :=
             cached_rev_layer (rev r ! j) (2 ^ j) (2 ^ j) (evals ! j) (evals ! Suc j)])
       [0..<length r] (scaled_tables (length r) scaling_factor)"

text \<open>The block of the table from an aligned index: the prefix of the point selects it.\<close>

definition evals_for_aligned_block :: "'f::comm_ring_1 list \<Rightarrow> nat \<Rightarrow> nat \<Rightarrow> 'f list option" where
  "evals_for_aligned_block r start_index block_size =
     (if \<not> is_power_of_two block_size \<or> start_index mod block_size \<noteq> 0 \<or> length r < log_2 block_size then None
      else
        (let block_vars = log_2 block_size; prefix_len = length r - block_vars;
             prefix_value = start_index div 2 ^ block_vars;
             prefix_scale = fold (\<lambda>(bit, r) s. s * (if bit then r else 1 - r))
               (zip (boolean_bits_msb prefix_len prefix_value) r) 1 in
         Some (eq_evals (drop prefix_len r) (Some prefix_scale))))"

definition evals_for_max_aligned_block ::
  "'f::comm_ring_1 list \<Rightarrow> nat \<Rightarrow> nat \<Rightarrow> (nat \<times> 'f list) option"
where
  "evals_for_max_aligned_block r start_index remaining_len =
     (if remaining_len = 0 then None
      else
        (let max_len_pow = (if is_power_of_two remaining_len then remaining_len
               else next_power_of_two remaining_len div 2);
             align_pow = (if start_index = 0 then 2 ^ length r else 2 ^ twos start_index);
             block_size = min max_len_pow align_pow in
         map_option (Pair block_size) (evals_for_aligned_block r start_index block_size)))"

section \<open>The reference table\<close>

text \<open>The table of \<open>s \<cdot> eq(r, \<cdot>)\<close>, the first coordinate splitting it in halves.\<close>

fun eq_table :: "'f::comm_ring_1 \<Rightarrow> 'f list \<Rightarrow> 'f list" where
  "eq_table s [] = [s]"
| "eq_table s (r # rs) = eq_table (s * (1 - r)) rs @ eq_table (s * r) rs"

lemma length_eq_table [simp]: "length (eq_table s r) = 2 ^ length r"
  by (induction r arbitrary: s) auto

lemma eq_table_scale: "eq_table (s * c) r = map (\<lambda>x. c * x) (eq_table s r)"
proof (induction r arbitrary: s)
  case (Cons a r)
  have "s * c * (1 - a) = s * (1 - a) * c" "s * c * a = s * a * c" by (simp_all add: ac_simps)
  then show ?case by (simp only: eq_table.simps Cons map_append)
qed (simp add: mult.commute)

lemma eq_table_scale1: "eq_table s r = map (\<lambda>x. s * x) (eq_table 1 r)"
  using eq_table_scale [of 1 s r] by simp

lemma eq_table_snoc:
  "eq_table s (rs @ [r]) = concat (map (\<lambda>e. [e * (1 - r), e * r]) (eq_table s rs))"
  by (induction rs arbitrary: s) auto

lemma eq_table_front: "eq_table s (r # rs) = map (\<lambda>x. x - x * r) (eq_table s rs) @ map (\<lambda>x. x * r) (eq_table s rs)"
  unfolding eq_table.simps eq_table_scale by (simp add: algebra_simps)

lemma sum_eq_table: "sum_list (eq_table s r) = s"
  by (induction r arbitrary: s) (auto simp: algebra_simps)

text \<open>A product over the coordinates.\<close>

lemma fold_times_prod: "fold (\<lambda>v acc. acc * f v) xs (a::'f::comm_ring_1) = a * (\<Prod>v\<leftarrow>xs. f v)"
  by (induction xs arbitrary: a) (auto simp: mult.assoc)

definition eq_product :: "'f::comm_ring_1 list \<Rightarrow> 'f list \<Rightarrow> 'f" where
  "eq_product x y = (\<Prod>(x, y)\<leftarrow>zip x y. x * y + (1 - x) * (1 - y))"

lemma eq_product_simps [simp]:
  "eq_product [] y = 1" "eq_product x [] = 1"
  "eq_product (a # x) (b # y) = (a * b + (1 - a) * (1 - b)) * eq_product x y"
  by (simp_all add: eq_product_def)

lemma eq_product_append:
  "length x = length y \<Longrightarrow> eq_product (x @ x') (y @ y') = eq_product x y * eq_product x' y'"
  by (simp add: eq_product_def)

lemma eq_product_commute: "eq_product x y = eq_product y x"
proof (induction x arbitrary: y)
  case (Cons a x)
  then show ?case by (cases y) (auto simp: mult.commute)
qed simp

lemma eq_evaluate_eq:
  assumes "length x = length y"
  shows "eq_evaluate x y = Some (eq_product x y)"
  using assms fold_times_prod [of "\<lambda>v. fst v * snd v + (1 - fst v) * (1 - snd v)" "zip x y" 1]
  by (simp add: eq_evaluate_def eq_product_def split_def)

lemma eq_mle_eq: "length x = length y \<Longrightarrow> eq_mle x y = Some (eq_product x y)"
  by (simp add: eq_mle_def eq_product_def fold_times_prod case_prod_beta)

lemma zero_selector_eq: "zero_selector r = eq_product r (replicate (length r) 0)"
  by (induction r) (simp_all add: zero_selector_def fold_times_prod)

section \<open>Every construction gives the reference table\<close>

lemma double_pass:
  assumes "2 * m \<le> length t"
  shows "fold (\<lambda>j t. let base = t ! j in t[2 * j := f base, 2 * j + 1 := g base]) (rev [0..<m]) t =
    concat (map (\<lambda>e. [f e, g e]) (take m t)) @ drop (2 * m) t"
  using assms
proof (induction m arbitrary: t)
  case (Suc m)
  let ?t = "t[2 * m := f (t ! m), 2 * m + 1 := g (t ! m)]"
  have tm: "take m ?t = take m t" by (simp add: take_update_cancel)
  have "drop (2 * m) ?t = [f (t ! m), g (t ! m)] @ drop (2 * Suc m) t"
    using Suc.prems by (simp add: drop_update_swap Cons_nth_drop_Suc [symmetric])
  then show ?case using Suc.IH [of ?t] Suc.prems tm
    by (simp add: take_Suc_conv_app_nth Let_def)
qed simp

lemma double_layer_eq: "double_layer r t = concat (map (\<lambda>e. [e * (1 - r), e * r]) t)"
  unfolding double_layer_def
  by (subst double_pass [where f = "\<lambda>e. e * (1 - r)" and g = "\<lambda>e. e * r"]) simp_all

lemma eq_evaluations_eq: "eq_evaluations r = eq_table 1 r"
  unfolding eq_evaluations_def
  by (induction r rule: rev_induct) (simp_all add: eq_table_snoc double_layer_eq)

lemma odd_indices: "map (\<lambda>k. 2 * m - 1 - 2 * k) [0..<m] = map (\<lambda>j. 2 * j + 1) (rev [0..<m])"
  by (rule nth_equalityI) (auto simp: rev_nth)

lemma odd_pass:
  assumes "2 * m \<le> length t" "\<And>t. length (src t) = length (src t)"
  shows "fold (\<lambda>j t. let scalar = t ! j; e = scalar * r in t[2 * j + 1 := e, 2 * j := scalar - e]) (rev [0..<m]) t =
    concat (map (\<lambda>e. [e - e * r, e * r]) (take m t)) @ drop (2 * m) t"
proof -
  have "(\<lambda>j t. let scalar = t ! j; e = scalar * r in t[2 * j + 1 := e, 2 * j := scalar - e]) =
    (\<lambda>j t. let base = t ! j in t[2 * j := base - base * r, 2 * j + 1 := base * r])"
    by (intro ext) (simp add: Let_def list_update_swap)
  then show ?thesis using double_pass [OF assms(1), of "\<lambda>e. e - e * r" "\<lambda>e. e * r"] by simp
qed

lemma serial_layer_eq:
  assumes "2 * m \<le> length t"
  shows "serial_layer r (2 * m) t = concat (map (\<lambda>e. [e - e * r, e * r]) (take m t)) @ drop (2 * m) t"
proof -
  have "serial_layer r (2 * m) t =
    fold (\<lambda>i t. let scalar = t ! (i div 2); e = scalar * r in t[i := e, i - 1 := scalar - e])
      (map (\<lambda>j. 2 * j + 1) (rev [0..<m])) t"
    by (simp only: serial_layer_def odd_indices [symmetric] nonzero_mult_div_cancel_left)
  also have "\<dots> =
    fold (\<lambda>j t. let scalar = t ! j; e = scalar * r in t[2 * j + 1 := e, 2 * j := scalar - e]) (rev [0..<m]) t"
    by (simp add: fold_map o_def)
  finally have "serial_layer r (2 * m) t =
    fold (\<lambda>j t. let scalar = t ! j; e = scalar * r in t[2 * j + 1 := e, 2 * j := scalar - e]) (rev [0..<m]) t" .
  then show ?thesis using odd_pass [OF assms] by simp
qed

lemma snoc_minus: "concat (map (\<lambda>e. [e - e * r, e * r]) (eq_table s rs)) = eq_table s (rs @ [r])"
  by (simp add: eq_table_snoc algebra_simps)

lemma serial_fold:
  assumes "2 ^ (length done + length r) = length rest + 2 ^ length done"
  shows "fold (\<lambda>r (sz, evals). (sz * 2, serial_layer r (sz * 2) evals)) r
      (2 ^ length done, eq_table s done @ rest) = (2 ^ (length done + length r), eq_table s (done @ r))"
  using assms
proof (induction r arbitrary: "done" rest)
  case (Cons a r)
  let ?n = "2 ^ length done :: nat"
  have le: "?n \<le> length rest"
  proof -
    have "2 * ?n \<le> 2 ^ (length done + length (a # r))" by simp
    then show ?thesis using Cons.prems by linarith
  qed
  have "serial_layer a (?n * 2) (eq_table s done @ rest) = eq_table s (done @ [a]) @ drop ?n rest"
    using serial_layer_eq [of ?n "eq_table s done @ rest" a] le by (simp add: mult.commute snoc_minus)
  moreover have "2 ^ (length (done @ [a]) + length r) = length (drop ?n rest) + 2 ^ length (done @ [a])"
    using Cons.prems le by simp
  ultimately show ?case using Cons.IH [of "done @ [a]" "drop ?n rest"] by (simp add: mult.commute)
qed simp

lemma evals_serial_eq: "evals_serial r s = eq_table (case s of Some s \<Rightarrow> s | None \<Rightarrow> 1) r"
proof -
  let ?s = "case s of Some s \<Rightarrow> s | None \<Rightarrow> 1"
  have "replicate (2 ^ length r) ?s = eq_table ?s [] @ replicate (2 ^ length r - 1) ?s"
    by (cases "2 ^ length r :: nat") simp_all
  then show ?thesis
    using serial_fold [of "[]" r "replicate (2 ^ length r - 1) ?s" ?s] by (simp add: evals_serial_def)
qed

lemma map2_same:
  "map F (zip (map g xs) (map h xs)) = map (\<lambda>x. F (g x, h x)) xs"
  "map F (zip xs (map h xs)) = map (\<lambda>x. F (x, h x)) xs"
  by (induction xs) simp_all

lemma parallel_layers_eq:
  assumes "length evals = 2 ^ (length done + length r)" "take (2 ^ length done) evals = eq_table s done"
  shows "parallel_layers r (2 ^ length done) evals = eq_table s (rev r @ done)"
  using assms
proof (induction r arbitrary: "done" evals rule: induct_list012)
  case (3 lo hi rest)
  let ?q = "eq_table s done" and ?n = "2 ^ length done :: nat"
  let ?e = "map (\<lambda>x. x - x * lo - (x - x * lo) * hi) ?q @ map (\<lambda>x. x * lo - x * lo * hi) ?q @
    map (\<lambda>x. (x - x * lo) * hi) ?q @ map (\<lambda>x. x * lo * hi) ?q"
  have e: "?e = eq_table s (hi # lo # done)"
    unfolding eq_table_front by (simp add: o_def)
  have "parallel_layers (lo # hi # rest) ?n evals =
    parallel_layers rest (?n * 4) (?e @ drop (4 * ?n) evals)"
    using 3(4) by (simp add: Let_def map2_same o_def)
  also have "\<dots> = parallel_layers rest (2 ^ length (hi # lo # done)) (eq_table s (hi # lo # done) @ drop (4 * ?n) evals)"
    by (simp only: e) (simp add: mult.commute)
  also have "\<dots> = eq_table s (rev rest @ hi # lo # done)"
  proof (rule 3(1))
    have "4 * ?n \<le> length evals" using 3(3) by simp
    then show "length (eq_table s (hi # lo # done) @ drop (4 * ?n) evals) =
        2 ^ (length (hi # lo # done) + length rest)"
      using 3(3) by (simp only: length_append length_eq_table length_drop) simp
  qed simp
  finally show ?case by simp
next
  case (2 r)
  then show ?case by (simp add: Let_def eq_table_front map2_same o_def del: eq_table.simps(2))
qed simp

lemma evals_parallel_eq: "evals_parallel r s = eq_table (case s of Some s \<Rightarrow> s | None \<Rightarrow> 1) r"
proof -
  let ?s = "case s of Some s \<Rightarrow> s | None \<Rightarrow> 1"
  have "take 1 ((replicate (2 ^ length r) 0)[0 := ?s]) = eq_table ?s []"
    by (cases "2 ^ length r :: nat") simp_all
  then show ?thesis
    using parallel_layers_eq [of "(replicate (2 ^ length r) 0)[0 := ?s]" "[]" "rev r" ?s]
    by (simp add: evals_parallel_def)
qed

lemma eq_evals_eq: "eq_evals r s = eq_table (case s of Some s \<Rightarrow> s | None \<Rightarrow> 1) r"
  by (simp add: eq_evals_def evals_serial_eq evals_parallel_eq)

section \<open>The cached tables\<close>

lemma cached_pass:
  assumes "length t = 2 * m"
  shows "fold (\<lambda>j t. let scalar = prev ! j; e = scalar * r in t[2 * j + 1 := e, 2 * j := scalar - e]) [0..<m] t =
    concat (map (\<lambda>j. [prev ! j - prev ! j * r, prev ! j * r]) [0..<m])"
proof -
  have "fold (\<lambda>j t. let scalar = prev ! j; e = scalar * r in t[2 * j + 1 := e, 2 * j := scalar - e]) [0..<k] t =
      concat (map (\<lambda>j. [prev ! j - prev ! j * r, prev ! j * r]) [0..<k]) @ drop (2 * k) t" if "k \<le> m" for k
    using that
  proof (induction k)
    case (Suc k)
    have len: "length (concat (map (\<lambda>j. [prev ! j - prev ! j * r, prev ! j * r]) [0..<k])) = 2 * k"
      by (induction k) simp_all
    have "drop (2 * k) t = t ! (2 * k) # t ! (2 * k + 1) # drop (2 * Suc k) t"
      using Suc.prems assms by (simp add: Cons_nth_drop_Suc)
    then show ?case using Suc by (simp add: Let_def list_update_append len)
  qed simp
  then show ?thesis using assms by simp
qed

lemma fold_disjoint_rev:
  assumes "\<And>i j t. i \<noteq> j \<Longrightarrow> f i (f j t) = f j (f i t)"
  shows "fold f (rev xs) t = fold f xs t"
proof -
  have "f y \<circ> f x = f x \<circ> f y" for x y
    by (cases "x = y") (auto simp: o_def intro: assms)
  then have "fold f xs = foldr f xs" by (intro foldr_fold [symmetric]) simp
  then show ?thesis by (simp add: foldr_conv_fold)
qed

lemma cached_layer_eq:
  assumes "length prev = m" "length t = 2 * m"
  shows "cached_layer r (2 * m) prev t = concat (map (\<lambda>e. [e - e * r, e * r]) prev)"
proof -
  let ?f = "\<lambda>j t. let scalar = prev ! j; e = scalar * r in t[2 * j + 1 := e, 2 * j := scalar - e]"
  have "cached_layer r (2 * m) prev t =
    fold (\<lambda>i t. let scalar = prev ! (i div 2); e = scalar * r in t[i := e, i - 1 := scalar - e])
      (map (\<lambda>j. 2 * j + 1) (rev [0..<m])) t"
    by (simp only: cached_layer_def odd_indices [symmetric] nonzero_mult_div_cancel_left)
  also have "\<dots> = fold ?f (rev [0..<m]) t"
    by (simp add: fold_map o_def)
  also have "\<dots> = fold ?f [0..<m] t"
    by (rule fold_disjoint_rev) (auto simp: Let_def list_update_swap intro!: nth_equalityI simp: nth_list_update)
  also have "\<dots> = concat (map (\<lambda>e. [e - e * r, e * r]) prev)"
    unfolding cached_pass [OF assms(2)] using assms(1) map_nth [of prev]
    by (metis (no_types, lifting) map_map o_def map_cong)
  finally show ?thesis .
qed

lemma cached_rev_layer_eq:
  assumes "length prev = m" "length t = 2 * m"
  shows "cached_rev_layer r m m prev t = map (\<lambda>e. e - e * r) prev @ map (\<lambda>e. e * r) prev"
proof -
  let ?f = "\<lambda>i t. let scalar = prev ! i; e = scalar * r in t[i + m := e, i := scalar - e]"
  have "length (fold ?f [0..<k] t) = length t \<and> (\<forall>i < length t. fold ?f [0..<k] t ! i =
      (if i < k then prev ! i - prev ! i * r else if m \<le> i \<and> i < m + k then prev ! (i - m) * r else t ! i))"
    if "k \<le> m" for k
    using that
  proof (induction k)
    case (Suc k)
    then show ?case using assms by (auto simp: Let_def nth_list_update less_Suc_eq)
  qed auto
  from this [of m] show ?thesis using assms
    by (auto simp: cached_rev_layer_def nth_append intro!: nth_equalityI)
qed

lemma nth_scaled_tables [simp]:
  "i \<le> n \<Longrightarrow> scaled_tables n s ! i = replicate (2 ^ i) (case s of Some s \<Rightarrow> s | None \<Rightarrow> 1)"
  "length (scaled_tables n s) = Suc n"
  by (simp_all add: scaled_tables_def del: upt_Suc)

lemma cached_tables:
  assumes layer: "\<And>j t. j < n \<Longrightarrow> length t = 2 ^ Suc j \<Longrightarrow> layer j (table j) t = table (Suc j)"
    and "table 0 = [case s of Some s \<Rightarrow> s | None \<Rightarrow> 1]"
  shows "fold (\<lambda>j evals. evals[Suc j := layer j (evals ! j) (evals ! Suc j)]) [0..<n] (scaled_tables n s) =
    map table [0..<Suc n]"
proof -
  have "fold (\<lambda>j evals. evals[Suc j := layer j (evals ! j) (evals ! Suc j)]) [0..<k] (scaled_tables n s) =
    map table [0..<Suc k] @ drop (Suc k) (scaled_tables n s)" if "k \<le> n" for k
    using that
  proof (induction k)
    case 0
    then show ?case using assms(2) nth_scaled_tables(1) [of 0 n s]
      by (cases "scaled_tables n s") (simp_all add: scaled_tables_def)
  next
    case (Suc k)
    have "drop (Suc k) (scaled_tables n s) =
        replicate (2 ^ Suc k) (case s of Some s \<Rightarrow> s | None \<Rightarrow> 1) # drop (Suc (Suc k)) (scaled_tables n s)"
      using Suc.prems nth_scaled_tables(1) [of "Suc k" n s] nth_scaled_tables(2) [of n s]
      by (metis Cons_nth_drop_Suc Suc_le_lessD less_Suc_eq_le)
    moreover have "(map table [0..<Suc k] @ x # d) ! k = table k" "(map table [0..<Suc k] @ x # d) ! Suc k = x"
        "(map table [0..<Suc k] @ x # d)[Suc k := y] = map table [0..<Suc (Suc k)] @ d"
      if "y = table (Suc k)" for x y and d :: "'a list list"
      using that by (simp_all add: nth_append list_update_append del: upt_Suc) simp
    ultimately show ?case using Suc layer [of k "replicate (2 ^ Suc k) (case s of Some s \<Rightarrow> s | None \<Rightarrow> 1)"]
      by (simp del: upt_Suc power_Suc replicate.simps) (simp add: upt_Suc_append)
  qed
  then show ?thesis by simp
qed

lemma evals_cached_eq:
  "evals_cached r s = map (\<lambda>j. eq_table (case s of Some s \<Rightarrow> s | None \<Rightarrow> 1) (take j r)) [0..<Suc (length r)]"
  unfolding evals_cached_def
proof (rule cached_tables)
  fix j :: nat and t :: "'a list" assume j: "j < length r" "length t = 2 ^ Suc j"
  then show "cached_layer (r ! j) (2 ^ Suc j) (eq_table (case s of Some s \<Rightarrow> s | None \<Rightarrow> 1) (take j r)) t =
      eq_table (case s of Some s \<Rightarrow> s | None \<Rightarrow> 1) (take (Suc j) r)"
    using cached_layer_eq [of "eq_table (case s of Some s \<Rightarrow> s | None \<Rightarrow> 1) (take j r)" "2 ^ j" t "r ! j"]
    by (simp add: take_Suc_conv_app_nth snoc_minus)
qed simp

lemma evals_cached_rev_eq:
  "evals_cached_rev r s =
     map (\<lambda>j. eq_table (case s of Some s \<Rightarrow> s | None \<Rightarrow> 1) (drop (length r - j) r)) [0..<Suc (length r)]"
  unfolding evals_cached_rev_def
proof (rule cached_tables)
  fix j :: nat and t :: "'a list" assume j: "j < length r" "length t = 2 ^ Suc j"
  have d: "drop (length r - Suc j) r = rev r ! j # drop (length r - j) r"
    using j(1) by (simp add: rev_nth Cons_nth_drop_Suc [symmetric] Suc_diff_Suc)
  show "cached_rev_layer (rev r ! j) (2 ^ j) (2 ^ j)
      (eq_table (case s of Some s \<Rightarrow> s | None \<Rightarrow> 1) (drop (length r - j) r)) t =
    eq_table (case s of Some s \<Rightarrow> s | None \<Rightarrow> 1) (drop (length r - Suc j) r)"
    unfolding d eq_table_front using j by (intro cached_rev_layer_eq) simp_all
qed simp

section \<open>The table by index\<close>

text \<open>The \<open>n\<close> low bits of a number, the most significant first.\<close>

fun msb_bits :: "nat \<Rightarrow> nat \<Rightarrow> bool list" where
  "msb_bits 0 i = []"
| "msb_bits (Suc n) i = odd (i div 2 ^ n) # msb_bits n i"

lemma length_msb_bits [simp]: "length (msb_bits n i) = n"
  by (induction n) simp_all

lemma nth_msb_bits: "k < n \<Longrightarrow> msb_bits n i ! k \<longleftrightarrow> odd (i div 2 ^ (n - 1 - k))"
  by (induction n arbitrary: k) (auto simp: nth_Cons split: nat.split)

lemma odd_div_mod_power: "k < n \<Longrightarrow> odd (i mod 2 ^ n div 2 ^ k) \<longleftrightarrow> odd (i div 2 ^ k)" for i :: nat
  using bit_take_bit_iff [of n i k] by (simp add: bit_iff_odd take_bit_eq_mod)

lemma msb_bits_mod [simp]: "n \<le> m \<Longrightarrow> msb_bits n (i mod 2 ^ m) = msb_bits n i"
  by (induction n) (simp_all add: odd_div_mod_power)

lemma msb_bits_add [simp]: "msb_bits n (2 ^ n + i) = msb_bits n i"
  using msb_bits_mod [of n n "2 ^ n + i"] msb_bits_mod [of n n i] by (simp del: msb_bits_mod)

lemma msb_bits_append: "msb_bits (m + n) i = msb_bits m (i div 2 ^ n) @ msb_bits n i"
proof (induction m)
  case (Suc m)
  have "i div 2 ^ (m + n) = i div 2 ^ n div 2 ^ m" by (simp add: power_add div_mult2_eq [symmetric] mult.commute)
  then show ?case using Suc by simp
qed simp

definition bool_point :: "bool list \<Rightarrow> 'f::comm_ring_1 list" where
  "bool_point bs = map of_bool bs"

lemma bool_point_simps [simp]:
  "bool_point [] = []" "bool_point (b # bs) = of_bool b # bool_point bs"
  "bool_point (xs @ ys) = bool_point xs @ bool_point ys" "length (bool_point bs) = length bs"
  by (simp_all add: bool_point_def)

lemma boolean_bits_msb_eq: "i < 2 ^ 64 \<Longrightarrow> boolean_bits_msb n i = msb_bits n i"
proof -
  assume "i < 2 ^ 64"
  then have "i div 2 ^ k = 0" if "64 \<le> k" for k
    using power_increasing [OF that, of "2::nat"] by (simp add: div_less)
  then have "k < 64" if "odd (i div 2 ^ k)" for k using that by (metis even_zero linorder_not_le)
  then show ?thesis by (auto simp: boolean_bits_msb_def nth_msb_bits Let_def intro!: nth_equalityI)
qed

lemma boolean_point_msb_eq: "i < 2 ^ 64 \<Longrightarrow> boolean_point_msb n i = bool_point (msb_bits n i)"
  by (simp add: boolean_point_msb_def bool_point_def boolean_bits_msb_eq)

lemma nth_eq_table:
  assumes "i < 2 ^ length r"
  shows "eq_table s r ! i = s * eq_product r (bool_point (msb_bits (length r) i))"
  using assms
proof (induction r arbitrary: s i)
  case (Cons a r)
  let ?n = "2 ^ length r :: nat"
  consider "i < ?n" | j where "i = ?n + j" "j < ?n"
    using Cons.prems by (metis add_diff_inverse_nat length_Cons less_diff_conv2 linorder_not_le mult_2 nat_add_left_cancel_less power_Suc)
  then show ?case
  proof cases
    case 1
    then show ?thesis using Cons.IH [OF 1, of "s * (1 - a)"]
      by (simp add: nth_append mult.assoc)
  next
    case 2
    then have "i div 2 ^ length r = 1" by (simp add: div_add1_eq)
    then show ?thesis using 2 Cons.IH [OF 2(2), of "s * a"]
      by (simp add: nth_append mult.assoc)
  qed
qed simp

lemma index_bit_eq: "index_bit index k \<longleftrightarrow> odd (unat index div 2 ^ k)"
proof -
  have "drop_bit k index AND 1 = 1 \<longleftrightarrow> bit index k"
    by (simp add: and_one_eq odd_iff_mod_2_eq_one [symmetric] bit_iff_odd_drop_bit)
  moreover have "bit index k \<longleftrightarrow> odd (unat index div 2 ^ k)"
    using bit_iff_odd [of "unat index" k] by (simp add: bit_unsigned_iff)
  moreover have "\<not> bit index k" if "128 \<le> k" using that by (auto dest: bit_imp_le_length)
  ultimately show ?thesis by (auto simp: index_bit_def)
qed

lemma eq_index_msb_eq: "eq_index_msb r index = eq_product r (bool_point (msb_bits (length r) (unat index)))"
proof -
  have "fold (\<lambda>(position, c) eq. if index_bit index (length p + length r - 1 - position) then eq * c else eq * (1 - c))
      (enumerate (length p) r) a = a * eq_product r (bool_point (msb_bits (length r) (unat index)))" for p :: "'a list" and a
  proof (induction r arbitrary: p a)
    case (Cons x r)
    have "fold (\<lambda>(position, c) eq. if index_bit index (length (p @ [x]) + length r - 1 - position) then eq * c else eq * (1 - c))
      (enumerate (length (p @ [x])) r) b = b * eq_product r (bool_point (msb_bits (length r) (unat index)))" for b
      by (rule Cons)
    then show ?case by (simp add: index_bit_eq mult.assoc)
  qed simp
  from this [of "[]" 1] show ?thesis by (simp add: eq_index_msb_def)
qed

end
