(* ===== verification/Mle.thy ===== *)
theory Mle
  imports Eq_Poly
begin

text \<open>
  \<^verbatim>\<open>jolt-poly/src/mle.rs\<close>: the multilinear extensions of sparse tables, of an aligned block's
  selector and of a range's mask, evaluated in logarithmic time. The lemmas relate each to the
  sum over the table's entries.
\<close>

section \<open>mle.rs\<close>

datatype mle_error =
    EqualityArityMismatch nat nat
  | InvalidRange u128 u128
  | DomainTooLarge nat
  | RangeEndOutOfDomain u128 u128
  | BlockVariablesExceedArity nat nat
  | BlockStartUnaligned u128 u128
  | BlockEndOutOfDomain u128 u128

definition try_eq_mle :: "'f::comm_ring_1 list \<Rightarrow> 'f list \<Rightarrow> mle_error + 'f" where
  "try_eq_mle left right = ok_or (eq_mle left right) (EqualityArityMismatch (length left) (length right))"

text \<open>\<^verbatim>\<open>1u128.checked_shl\<close> and \<^verbatim>\<open>u128::checked_add\<close>. The callers cast the number of coordinates to 32
  bits first; the cast is left out, so the model stands for the code at fewer than \<open>2 ^ 32\<close> coordinates.\<close>

definition checked_shl1 :: "nat \<Rightarrow> u128 option" where
  "checked_shl1 k = (if k < 128 then Some (push_bit k 1) else None)"

definition checked_add128 :: "u128 \<Rightarrow> u128 \<Rightarrow> u128 option" where
  "checked_add128 a b = (if unat a + unat b < 2 ^ 128 then Some (a + b) else None)"

definition sparse_mle_msb :: "u128 \<Rightarrow> u64 list \<Rightarrow> 'f::comm_ring_1 list \<Rightarrow> 'f" where
  "sparse_mle_msb start_index values point =
     sum_list (map (\<lambda>(offset, v). of_nat (unat v) * eq_index_msb point (start_index + of_nat offset))
       (enumerate 0 values))"

definition sparse_segments_mle_msb :: "(u128 \<times> u64 list) list \<Rightarrow> 'f::comm_ring_1 list \<Rightarrow> 'f" where
  "sparse_segments_mle_msb segments point =
     sum_list (map (\<lambda>(start_index, values). sparse_mle_msb start_index values point) segments)"

definition block_selector_mle_msb :: "u128 \<Rightarrow> nat \<Rightarrow> 'f::comm_ring_1 list \<Rightarrow> mle_error + 'f" where
  "block_selector_mle_msb start block_num_vars point =
     (if block_num_vars > length point
      then Inl (BlockVariablesExceedArity block_num_vars (length point))
      else if block_num_vars \<ge> 64 then Inl (DomainTooLarge block_num_vars)
      else
        bind_res (ok_or (checked_shl1 block_num_vars) (DomainTooLarge block_num_vars)) (\<lambda>block_size.
        bind_res (ok_or (checked_shl1 (length point)) (DomainTooLarge (length point))) (\<lambda>domain_size.
        if start mod block_size \<noteq> 0 then Inl (BlockStartUnaligned start block_size)
        else
          bind_res (ok_or (checked_add128 start block_size) (DomainTooLarge (length point))) (\<lambda>end.
          if end > domain_size then Inl (BlockEndOutOfDomain end domain_size)
          else Inr (eq_index_msb (take (length point - block_num_vars) point) (start div block_size))))))"

definition mask_bit :: "u128 \<Rightarrow> nat \<Rightarrow> nat \<Rightarrow> bool" where
  "mask_bit v len position = index_bit v (len - 1 - position)"

definition less_than_mle_msb :: "u128 \<Rightarrow> 'f::comm_ring_1 list \<Rightarrow> 'f" where
  "less_than_mle_msb bound point =
     (if Some bound = checked_shl1 (length point) then 1
      else fst (fold (\<lambda>(index, challenge) (lt_bound, eq_bound).
          if mask_bit bound (length point) index
          then (lt_bound + eq_bound * (1 - challenge), eq_bound * challenge)
          else (lt_bound, eq_bound * (1 - challenge))) (enumerate 0 point) (0, 1)))"

definition range_mask_mle_msb :: "u128 \<Rightarrow> u128 \<Rightarrow> 'f::comm_ring_1 list \<Rightarrow> mle_error + 'f" where
  "range_mask_mle_msb range_start range_end point =
     (if range_start \<ge> range_end then Inl (InvalidRange range_start range_end)
      else
        bind_res (ok_or (checked_shl1 (length point)) (DomainTooLarge (length point))) (\<lambda>domain_size.
        if range_end > domain_size then Inl (RangeEndOutOfDomain range_end domain_size)
        else Inr (less_than_mle_msb range_end point - less_than_mle_msb range_start point)))"

section \<open>Sums over the table\<close>

lemma eq_index_nth:
  assumes "i < 2 ^ length r" "i < 2 ^ 128"
  shows "eq_index_msb r (of_nat i) = eq_table 1 r ! i"
  using assms by (simp add: eq_index_msb_eq nth_eq_table unat_of_nat)

lemma sum_take_eq_table_append:
  "sum_list (take b (eq_table s (a # r))) =
     (if 2 ^ length r \<le> b then s * (1 - a) + sum_list (take (b - 2 ^ length r) (eq_table (s * a) r))
      else sum_list (take b (eq_table (s * (1 - a)) r)))"
  by (simp add: sum_eq_table)

lemma unat_shl1: "k < 128 \<Longrightarrow> unat (push_bit k 1 :: u128) = 2 ^ k"
proof -
  assume "k < 128"
  then have "(2::nat) ^ k < 2 ^ 128" by (intro power_strict_increasing) auto
  moreover have "(push_bit k 1 :: u128) = of_nat (2 ^ k)" by simp
  ultimately show ?thesis by (simp only: unat_of_nat) simp
qed

lemma less_than_loop:
  assumes "unat bound mod 2 ^ length r = b" 
  shows "fst (fold (\<lambda>(index, challenge) (lt_bound, eq_bound).
          if mask_bit bound (k + length r) index
          then (lt_bound + eq_bound * (1 - challenge), eq_bound * challenge)
          else (lt_bound, eq_bound * (1 - challenge))) (enumerate (k) r) (lt, eq)) =
    lt + sum_list (take b (eq_table eq r))"
  using assms
proof (induction r arbitrary: k lt eq b)
  case (Cons a r)
  let ?n = "2 ^ length r :: nat" and ?u = "unat bound"
  let ?b = "?u mod ?n"
  let ?step = "\<lambda>n. \<lambda>(index, challenge) (lt_bound, eq_bound).
          if mask_bit bound n index
          then (lt_bound + eq_bound * (1 - challenge), eq_bound * challenge)
          else (lt_bound, eq_bound * (1 - challenge))"
  have b: "b = ?u mod (2 * ?n)" using Cons.prems by simp
  have bit: "mask_bit bound (k + length (a # r)) (k) \<longleftrightarrow> odd (?u div ?n)"
    by (simp add: mask_bit_def index_bit_eq)
  have split: "b = (if odd (?u div ?n) then ?n + ?b else ?b)"
    unfolding b using mod_mult2_eq [of ?u ?n 2] by (simp add: mult.commute odd_iff_mod_2_eq_one)
  have less: "?b < ?n" by simp
  have IH: "fst (fold (?step (k + length (a # r))) (enumerate (Suc (k)) r) (lt, eq)) =
      lt + sum_list (take ?b (eq_table eq r))" for lt eq
    using Cons.IH [OF refl, of "Suc k"] by simp
  show ?case
    by (cases "odd (?u div ?n)") (use IH bit split less in \<open>simp_all add: sum_eq_table del: eq_table.simps
      add: eq_table.simps(2)\<close>)
qed simp

lemma less_than_mle_sum:
  assumes "unat bound \<le> 2 ^ length r" "length r < 128"
  shows "less_than_mle_msb bound r = sum_list (take (unat bound) (eq_table 1 r))"
proof (cases "unat bound = 2 ^ length r")
  case True
  then have "bound = push_bit (length r) 1"
    using assms(2) unat_shl1 [of "length r"] by (simp add: word_unat_eq_iff)
  then show ?thesis using assms(2) True
    by (simp add: less_than_mle_msb_def checked_shl1_def sum_eq_table)
next
  case False
  then have "Some bound \<noteq> checked_shl1 (length r)"
    using assms(2) unat_shl1 [of "length r"] by (auto simp: checked_shl1_def)
  then show ?thesis using False assms less_than_loop [of bound r "unat bound" 0 0 1]
    by (simp add: less_than_mle_msb_def)
qed

text \<open>A range's mask is the sum of the range's entries.\<close>

lemma range_mask_correct:
  assumes "range_mask_mle_msb a b r = Inr v"
  shows "v = (\<Sum>i = unat a..<unat b. eq_index_msb r (of_nat i))"
    and "unat a < unat b" "unat b \<le> 2 ^ length r" "length r < 128"
proof -
  from assms have ab: "a < b" and len: "length r < 128" and b: "b \<le> push_bit (length r) 1"
    and v: "v = less_than_mle_msb b r - less_than_mle_msb a r"
    by (auto simp: range_mask_mle_msb_def checked_shl1_def split: if_splits)
  show a: "unat a < unat b" using ab by (simp add: word_less_nat_alt)
  show le: "unat b \<le> 2 ^ length r" using b unat_shl1 [OF len] by (simp add: word_le_nat_alt)
  show "length r < 128" by (rule len)
  have nth: "eq_table 1 r ! i = eq_index_msb r (of_nat i)" if "i < 2 ^ length r" for i
  proof -
    have "i < 2 ^ 128" using that power_strict_increasing [OF len, of "2::nat"] by linarith
    then show ?thesis using that by (simp add: eq_index_nth)
  qed
  have sum: "sum_list (take k (eq_table 1 r)) = (\<Sum>i<k. eq_index_msb r (of_nat i))" if "k \<le> 2 ^ length r" for k
    using that nth by (simp add: sum_list_sum_nth atLeast0LessThan min_absorb2)
  have "v = (\<Sum>i<unat b. eq_index_msb r (of_nat i)) - (\<Sum>i<unat a. eq_index_msb r (of_nat i))"
    unfolding v using a le len by (simp add: less_than_mle_sum sum)
  also have "\<dots> = (\<Sum>i = unat a..<unat b. eq_index_msb r (of_nat i))"
    using a by (simp add: atLeast0LessThan [symmetric] sum_diff_nat_ivl)
  finally show "v = (\<Sum>i = unat a..<unat b. eq_index_msb r (of_nat i))" .
qed

lemma range_mask_total:
  "(\<exists>v. range_mask_mle_msb a b r = Inr v) \<longleftrightarrow> a < b \<and> length r < 128 \<and> unat b \<le> 2 ^ length r"
  using unat_shl1 [of "length r"]
  by (auto simp: range_mask_mle_msb_def checked_shl1_def word_le_nat_alt word_less_nat_alt not_le not_less)

text \<open>A block of the table is the table of the low coordinates, scaled by the block's entry.\<close>

lemma eq_table_block:
  assumes "m < 2 ^ length p"
  shows "take (2 ^ length q) (drop (m * 2 ^ length q) (eq_table s (p @ q))) =
    eq_table (s * eq_product p (bool_point (msb_bits (length p) m))) q"
  using assms
proof (induction p arbitrary: s m)
  case (Cons a p)
  let ?n = "2 ^ length p :: nat" and ?q = "2 ^ length q :: nat"
  have len: "length (eq_table s (p @ q)) = ?n * ?q" for s by (simp add: power_add)
  consider "m < ?n" | j where "m = ?n + j" "j < ?n"
    using Cons.prems by (metis add_diff_inverse_nat length_Cons less_diff_conv2 linorder_not_le mult_2 nat_add_left_cancel_less power_Suc)
  then show ?case
  proof cases
    case 1
    then have "m * ?q + ?q \<le> ?n * ?q" by (metis add.commute mult_Suc mult_le_mono1 Suc_leI)
    then show ?thesis using 1 Cons.IH [OF 1, of "s * (1 - a)"] len by (simp add: mult.assoc)
  next
    case 2
    then have "m div ?n = 1" by (simp add: div_add1_eq)
    then show ?thesis using 2 Cons.IH [OF 2(2), of "s * a"] len by (simp add: add_mult_distrib mult.assoc)
  qed
qed simp

lemma block_selector_correct:
  assumes "block_selector_mle_msb start k r = Inr v"
  shows "v = (\<Sum>i = unat start..<unat start + 2 ^ k. eq_index_msb r (of_nat i))"
    and "k \<le> length r" "unat start + 2 ^ k \<le> 2 ^ length r" "2 ^ k dvd unat start"
proof -
  let ?p = "take (length r - k) r" and ?q = "drop (length r - k) r"
  from assms have k: "k \<le> length r" "k < 64" and len: "length r < 128"
    and start: "start mod push_bit k 1 = 0" and add: "unat start + unat (push_bit k 1 :: u128) < 2 ^ 128"
    and "end": "start + push_bit k 1 \<le> push_bit (length r) 1"
    and v: "v = eq_index_msb ?p (start div push_bit k 1)"
    by (auto simp: block_selector_mle_msb_def checked_shl1_def checked_add128_def split: if_splits)
  show "k \<le> length r" by (rule k)
  have uk: "unat (push_bit k 1 :: u128) = 2 ^ k" using k by (intro unat_shl1) simp
  have mod0: "unat start mod 2 ^ k = 0" using start uk by (metis unat_0 unat_mod)
  then show dvd: "2 ^ k dvd unat start" by (simp add: mod_eq_0_iff_dvd)
  have "unat (start + push_bit k 1) = unat start + 2 ^ k" using add uk by (simp add: unat_word_ariths)
  then show le: "unat start + 2 ^ k \<le> 2 ^ length r"
    using "end" unat_shl1 [OF len] by (simp add: word_le_nat_alt)
  define m where "m = unat start div 2 ^ k"
  have m: "unat start = m * 2 ^ k" using mod0 by (auto simp: m_def)
  have "(m + 1) * 2 ^ k \<le> 2 ^ (length r - k) * 2 ^ k"
    using le k m by (simp add: power_add [symmetric])
  then have mp: "m < 2 ^ length ?p" using k by (simp del: mult_Suc)
  have "v = eq_product ?p (bool_point (msb_bits (length ?p) m))"
    unfolding v eq_index_msb_eq using k uk by (simp add: unat_div m_def)
  also have "\<dots> = sum_list (eq_table (1 * eq_product ?p (bool_point (msb_bits (length ?p) m))) ?q)"
    by (simp add: sum_eq_table)
  also have "\<dots> = sum_list (take (2 ^ k) (drop (unat start) (eq_table 1 (?p @ ?q))))"
    using eq_table_block [OF mp, of ?q 1] k m by simp
  also have "\<dots> = (\<Sum>i<2 ^ k. eq_table 1 r ! (unat start + i))"
    using le by (simp add: sum_list_sum_nth atLeast0LessThan min_absorb2)
  also have "\<dots> = (\<Sum>i<2 ^ k. eq_index_msb r (of_nat (unat start + i)))"
  proof (rule sum.cong)
    fix i :: nat assume "i \<in> {..<2 ^ k}"
    then have "unat start + i < 2 ^ length r" using le by simp
    moreover have "(2::nat) ^ length r < 2 ^ 128" using len by (intro power_strict_increasing) auto
    ultimately show "eq_table 1 r ! (unat start + i) = eq_index_msb r (of_nat (unat start + i))"
      by (intro eq_index_nth [symmetric]) auto
  qed simp
  also have "\<dots> = (\<Sum>i = unat start..<unat start + 2 ^ k. eq_index_msb r (of_nat i))"
    using sum.shift_bounds_nat_ivl [of "\<lambda>i. eq_index_msb r (of_nat i)" 0 "unat start" "2 ^ k"]
    by (simp add: atLeast0LessThan add.commute)
  finally show "v = (\<Sum>i = unat start..<unat start + 2 ^ k. eq_index_msb r (of_nat i))" .
qed

section \<open>Aligned blocks and Boolean points\<close>

lemma next_power_of_two_pow [simp]: "next_power_of_two (2 ^ k) = 2 ^ k"
proof (rule antisym)
  show "next_power_of_two (2 ^ k) \<le> 2 ^ k" by (rule next_power_of_two_least) simp
  show "2 ^ k \<le> next_power_of_two (2 ^ k)" by (rule next_power_of_two_ge)
qed

lemma is_power_of_two_iff: "is_power_of_two n \<longleftrightarrow> (\<exists>k. n = 2 ^ k)"
  using next_power_of_two_power [of n] by (auto simp: is_power_of_two_def)

lemma floor_log_pow [simp]: "floor_log (2 ^ k) = k"
proof (induction k)
  case (Suc k)
  have "\<not> 2 * 2 ^ k \<le> (1::nat)" using one_le_power [of "2::nat" k] by linarith
  then show ?case using Suc by (subst floor_log.simps) simp
qed (simp add: floor_log.simps)

lemma log_2_pow [simp]: "log_2 (2 ^ k) = k"
  by (auto simp: log_2_def is_power_of_two_iff)

lemma bit_product:
  "length bits \<le> length r \<Longrightarrow>
   fold (\<lambda>(bit, r) s. s * (if bit then r else 1 - r)) (zip bits r) a = a * eq_product r (bool_point bits)"
  by (induction bits r arbitrary: a rule: list_induct2') (auto simp: mult.assoc)

lemma aligned_block_correct:
  assumes "2 ^ k dvd start" "start < 2 ^ length r" "start < 2 ^ 64" "k \<le> length r"
  shows "evals_for_aligned_block r start (2 ^ k) = Some (take (2 ^ k) (drop start (eq_table 1 r)))"
proof -
  let ?p = "take (length r - k) r" and ?q = "drop (length r - k) r"
  obtain m where m: "start = m * 2 ^ k" using assms(1) by (metis dvd_def mult.commute)
  have "m * 2 ^ k < 2 ^ (length r - k) * 2 ^ k" using assms(2,4) m by (simp add: power_add [symmetric])
  then have mp: "m < 2 ^ length ?p" using assms(4) by simp
  have "m < 2 ^ 64" using assms(3) m by (metis le_less_trans mult.right_neutral mult_le_mono2 one_le_numeral one_le_power)
  then have bits: "boolean_bits_msb (length r - k) m = msb_bits (length r - k) m" by (rule boolean_bits_msb_eq)
  have "fold (\<lambda>(bit, r) s. s * (if bit then r else 1 - r)) (zip (msb_bits (length r - k) m) r) 1 =
      fold (\<lambda>(bit, r) s. s * (if bit then r else 1 - r)) (zip (msb_bits (length r - k) m) ?p) 1"
    using zip_append2 [of "msb_bits (length r - k) m" ?p ?q] assms(4) by simp
  also have "\<dots> = eq_product ?p (bool_point (msb_bits (length ?p) m))"
    using assms(4) by (simp add: bit_product)
  finally show ?thesis
    using eq_table_block [OF mp, of ?q 1] assms(1,4) m bits
    by (simp add: evals_for_aligned_block_def is_power_of_two_iff eq_evals_eq Let_def)
qed

lemma aligned_block_none:
  "evals_for_aligned_block r start (2 ^ k) = None \<longleftrightarrow> \<not> 2 ^ k dvd start \<or> length r < k"
  by (auto simp: evals_for_aligned_block_def is_power_of_two_iff mod_eq_0_iff_dvd Let_def)

lemma shift_in_bit: "push_bit 1 w OR of_bool b = 2 * w + of_bool b" for w :: u64
proof -
  have "push_bit 1 w + of_bool b = push_bit 1 w OR of_bool b"
    by (rule disjunctive_add) (auto simp: bit_simps bit_double_iff bit_0 mult.commute)
  then show ?thesis by (simp add: push_bit_eq_mult mult.commute)
qed

lemma boolean_index_loop_bits:
  "boolean_index_loop (bool_point (msb_bits n i) :: 'f::comm_ring_1 list) (of_nat m) =
     Some (of_nat (m * 2 ^ n + i mod 2 ^ n))"
proof (induction n arbitrary: m)
  case (Suc n)
  have i: "i mod 2 ^ Suc n = of_bool (odd (i div 2 ^ n)) * 2 ^ n + i mod 2 ^ n"
    using mod_mult2_eq [of i "2 ^ n" 2] by (simp add: mult.commute odd_iff_mod_2_eq_one of_bool_def)
  have step: "boolean_index_loop (bool_point (msb_bits (Suc n) i) :: 'f list) (of_nat m) =
      boolean_index_loop (bool_point (msb_bits n i) :: 'f list) (of_nat (2 * m + of_bool (odd (i div 2 ^ n))))"
    using shift_in_bit [of "of_nat m" True] shift_in_bit [of "of_nat m" False]
    by (cases "odd (i div 2 ^ n)") (simp_all add: Let_def add.commute mult.commute)
  show ?case unfolding step Suc i by (simp add: algebra_simps)
qed simp

lemma boolean_index_roundtrip:
  assumes "i < 2 ^ n" "n \<le> 64"
  shows "boolean_index_msb (boolean_point_msb n i :: 'f::comm_ring_1 list) = Some (of_nat i)"
proof -
  have "i < 2 ^ 64" using assms by (meson less_le_trans one_le_numeral power_increasing)
  then show ?thesis
    using boolean_index_loop_bits [of n i 0] assms(1) by (simp add: boolean_index_msb_def boolean_point_msb_eq)
qed

end
