(* ===== verification/Dense_Poly.thy ===== *)
theory Dense_Poly
  imports Mle
begin

text \<open>
  \<^verbatim>\<open>jolt-poly/src/dense.rs\<close> and \<^verbatim>\<open>identity.rs\<close>: a multilinear polynomial as the table of its
  values on the Boolean hypercube, its binding in either order, its evaluation, and its
  arithmetic. A failed assertion is \<open>None\<close>. The loops that bind in place keep the writes in
  place: the lemmas show that no entry is read after it is overwritten.
\<close>

section \<open>dense.rs\<close>

datatype binding_order = LowToHigh | HighToLow

record 'a dense_poly =
  dp_evals :: "'a list"
  dp_num_vars :: nat

definition dp_new :: "'a list \<Rightarrow> 'a dense_poly option" where
  "dp_new evals =
     (if evals = [] then Some \<lparr>dp_evals = evals, dp_num_vars = 0\<rparr>
      else if is_power_of_two (length evals)
      then Some \<lparr>dp_evals = evals, dp_num_vars = twos (length evals)\<rparr>
      else None)"

datatype raw_error = CountNotPowerOfTwo nat | NumVarsMismatch nat nat

definition dp_try_from_raw :: "'a list \<Rightarrow> nat \<Rightarrow> raw_error + 'a dense_poly" where
  "dp_try_from_raw evals num_vars =
     bind_res
       (if evals = [] then Inr 0
        else if is_power_of_two (length evals) then Inr (twos (length evals))
        else Inl (CountNotPowerOfTwo (length evals))) (\<lambda>expected.
     if num_vars \<noteq> expected then Inl (NumVarsMismatch expected num_vars)
     else Inr \<lparr>dp_evals = evals, dp_num_vars = num_vars\<rparr>)"

definition dp_zeros :: "nat \<Rightarrow> 'f::comm_ring_1 dense_poly" where
  "dp_zeros n = \<lparr>dp_evals = replicate (2 ^ n) 0, dp_num_vars = n\<rparr>"

definition bind_high_loop :: "'f::comm_ring_1 \<Rightarrow> 'f list \<Rightarrow> 'f list" where
  "bind_high_loop s evals =
     (let half = length evals div 2 in
      take half (fold (\<lambda>i e. e[i := e ! i + s * (e ! (i + half) - e ! i)]) [0..<half] evals))"

definition bind_low_loop :: "'f::comm_ring_1 \<Rightarrow> 'f list \<Rightarrow> 'f list" where
  "bind_low_loop s evals =
     (let half = length evals div 2 in
      take half (fold (\<lambda>i e. e[i := e ! (2 * i) + s * (e ! (2 * i + 1) - e ! (2 * i))]) [0..<half] evals))"

definition bind_high_to_low :: "'f::comm_ring_1 \<Rightarrow> 'f dense_poly \<Rightarrow> 'f dense_poly option" where
  "bind_high_to_low s p =
     (if dp_num_vars p = 0 then None
      else Some \<lparr>dp_evals = bind_high_loop s (dp_evals p), dp_num_vars = dp_num_vars p - 1\<rparr>)"

definition bind_low_to_high :: "'f::comm_ring_1 \<Rightarrow> 'f dense_poly \<Rightarrow> 'f dense_poly option" where
  "bind_low_to_high s p =
     (if dp_num_vars p = 0 then None
      else Some \<lparr>dp_evals = bind_low_loop s (dp_evals p), dp_num_vars = dp_num_vars p - 1\<rparr>)"

definition bind_with_order :: "'f::comm_ring_1 \<Rightarrow> binding_order \<Rightarrow> 'f dense_poly \<Rightarrow> 'f dense_poly option" where
  "bind_with_order s order p =
     (case order of HighToLow \<Rightarrow> bind_high_to_low s p | LowToHigh \<Rightarrow> bind_low_to_high s p)"

text \<open>\<^verbatim>\<open>bind_to_field\<close> converts the entries, \<^verbatim>\<open>bind_low_to_high_reusing_scratch\<close> fills another
  vector from the pairs.\<close>

definition bind_to_field :: "('a \<Rightarrow> 'f::comm_ring_1) \<Rightarrow> 'f \<Rightarrow> 'a dense_poly \<Rightarrow> 'f dense_poly option" where
  "bind_to_field into s p =
     (if dp_num_vars p = 0 then None
      else
        (let e = dp_evals p; half = length e div 2 in
         Some \<lparr>dp_evals = map (\<lambda>i. into (e ! i) + s * (into (e ! (i + half)) - into (e ! i))) [0..<half],
           dp_num_vars = dp_num_vars p - 1\<rparr>))"

fun bind_pairs :: "'f::comm_ring_1 \<Rightarrow> 'f list \<Rightarrow> 'f list" where
  "bind_pairs s (lo # hi # e) = (lo + s * (hi - lo)) # bind_pairs s e"
| "bind_pairs s _ = []"

definition bind_low_to_high_reusing_scratch ::
  "'f::comm_ring_1 \<Rightarrow> 'f list \<Rightarrow> 'f dense_poly \<Rightarrow> ('f dense_poly \<times> 'f list) option"
where
  "bind_low_to_high_reusing_scratch s scratch p =
     (if dp_num_vars p = 0 then None
      else Some (\<lparr>dp_evals = bind_pairs s (dp_evals p), dp_num_vars = dp_num_vars p - 1\<rparr>, dp_evals p))"

definition sumcheck_eval_pair :: "'f dense_poly \<Rightarrow> nat \<Rightarrow> binding_order \<Rightarrow> ('f \<times> 'f) option" where
  "sumcheck_eval_pair p index order =
     (case order of
        HighToLow \<Rightarrow>
          (case (nth_opt (dp_evals p) index, nth_opt (dp_evals p) (index + length (dp_evals p) div 2)) of
             (Some lo, Some hi) \<Rightarrow> Some (lo, hi) | _ \<Rightarrow> None)
      | LowToHigh \<Rightarrow>
          (case (nth_opt (dp_evals p) (2 * index), nth_opt (dp_evals p) (2 * index + 1)) of
             (Some lo, Some hi) \<Rightarrow> Some (lo, hi) | _ \<Rightarrow> None))"

definition sumcheck_round_eval_with_order ::
  "'f::comm_ring_1 dense_poly \<Rightarrow> nat \<Rightarrow> 'f \<Rightarrow> binding_order \<Rightarrow> 'f option"
where
  "sumcheck_round_eval_with_order p index point order =
     map_option (\<lambda>(lo, hi). lo + point * (hi - lo)) (sumcheck_eval_pair p index order)"

definition dp_evaluate :: "'f::comm_ring_1 dense_poly \<Rightarrow> 'f list \<Rightarrow> 'f option" where
  "dp_evaluate p point =
     (if length point \<noteq> dp_num_vars p then None
      else Some (sum_list (map2 (*) (dp_evals p) (eq_evaluations point))))"

text \<open>\<^verbatim>\<open>evaluate_and_consume\<close> binds every variable; the last entry is read out of range when the
  table is empty.\<close>

fun bind_all :: "'f::comm_ring_1 list \<Rightarrow> 'f dense_poly \<Rightarrow> 'f dense_poly option" where
  "bind_all [] p = Some p"
| "bind_all (r # rs) p = Option.bind (bind_high_to_low r p) (bind_all rs)"

definition evaluate_and_consume :: "'f::comm_ring_1 dense_poly \<Rightarrow> 'f list \<Rightarrow> 'f option" where
  "evaluate_and_consume p point =
     (if length point \<noteq> dp_num_vars p then None
      else Option.bind (bind_all point p) (\<lambda>p. nth_opt (dp_evals p) 0))"

text \<open>The arithmetic; \<^verbatim>\<open>assert_matching_dims\<close> compares the numbers of variables only.\<close>

definition zip_assign :: "('f \<Rightarrow> 'f \<Rightarrow> 'f) \<Rightarrow> 'f dense_poly \<Rightarrow> 'f dense_poly \<Rightarrow> 'f dense_poly option" where
  "zip_assign f p q =
     (if dp_num_vars p \<noteq> dp_num_vars q \<or> length (dp_evals q) < length (dp_evals p) then None
      else Some (p\<lparr>dp_evals := map2 f (dp_evals p) (dp_evals q)\<rparr>))"

definition dp_add :: "'f::comm_ring_1 dense_poly \<Rightarrow> 'f dense_poly \<Rightarrow> 'f dense_poly option" where
  "dp_add = zip_assign (+)"

definition dp_sub :: "'f::comm_ring_1 dense_poly \<Rightarrow> 'f dense_poly \<Rightarrow> 'f dense_poly option" where
  "dp_sub = zip_assign (-)"

definition dp_scale :: "'f::comm_ring_1 dense_poly \<Rightarrow> 'f \<Rightarrow> 'f dense_poly" where
  "dp_scale p c = p\<lparr>dp_evals := map (\<lambda>a. a * c) (dp_evals p)\<rparr>"

definition dp_neg :: "'f::comm_ring_1 dense_poly \<Rightarrow> 'f dense_poly" where
  "dp_neg p = p\<lparr>dp_evals := map uminus (dp_evals p)\<rparr>"

section \<open>identity.rs\<close>

text \<open>\<^verbatim>\<open>mul_pow_2\<close> of \<^verbatim>\<open>jolt-field/src/algebra.rs\<close>: multiplication by \<open>2 ^ 63\<close> while the
  exponent is at least 64.\<close>

function mul_pow_2_loop :: "'f::comm_ring_1 \<Rightarrow> nat \<Rightarrow> 'f" where
  "mul_pow_2_loop res p =
     (if p \<ge> 64 then mul_pow_2_loop (res * of_nat (unat (push_bit 63 1 :: u64))) (p - 63)
      else res * of_nat (unat (push_bit p 1 :: u64)))"
  by pat_completeness auto
termination by (relation "measure snd") auto

declare mul_pow_2_loop.simps [simp del]

definition mul_pow_2 :: "'f::comm_ring_1 \<Rightarrow> nat \<Rightarrow> 'f option" where
  "mul_pow_2 x pow = (if pow > 255 then None else Some (mul_pow_2_loop x pow))"

datatype operand_side = Left_Operand | Right_Operand

text \<open>The folds fail with the first exponent over 255.\<close>

definition weighted_fold :: "('f::comm_ring_1 \<times> nat) list \<Rightarrow> 'f option" where
  "weighted_fold terms =
     fold (\<lambda>(x, pow) acc. case (acc, mul_pow_2 x pow) of (Some a, Some v) \<Rightarrow> Some (a + v) | _ \<Rightarrow> None) terms (Some 0)"

definition operand_evaluate :: "nat \<Rightarrow> operand_side \<Rightarrow> 'f::comm_ring_1 list \<Rightarrow> 'f option" where
  "operand_evaluate num_vars side point =
     (if length point \<noteq> num_vars \<or> odd num_vars then None
      else
        (let offset = (case side of Left_Operand \<Rightarrow> 0 | Right_Operand \<Rightarrow> 1); bits = num_vars div 2 in
         weighted_fold (map (\<lambda>b. (point ! (2 * b + offset), bits - 1 - b)) [0..<bits])))"

definition identity_evaluate :: "nat \<Rightarrow> 'f::comm_ring_1 list \<Rightarrow> 'f option" where
  "identity_evaluate num_vars point =
     (if length point \<noteq> num_vars then None
      else weighted_fold (map (\<lambda>(i, r). (r, num_vars - 1 - i)) (enumerate 0 point)))"

section \<open>The multilinear extension of a table\<close>

definition table_mle :: "'f::comm_ring_1 list \<Rightarrow> 'f list \<Rightarrow> 'f" where
  "table_mle e r = sum_list (map2 (*) e (eq_table 1 r))"

definition table_ok :: "nat \<Rightarrow> 'f list \<Rightarrow> bool" where
  "table_ok n e \<longleftrightarrow> length e = 2 ^ n"

definition dp_ok :: "'f dense_poly \<Rightarrow> bool" where
  "dp_ok p \<longleftrightarrow> length (dp_evals p) = 2 ^ dp_num_vars p"

lemma dp_evaluate_eq: "length r = dp_num_vars p \<Longrightarrow> dp_evaluate p r = Some (table_mle (dp_evals p) r)"
  by (simp add: dp_evaluate_def table_mle_def eq_evaluations_eq)

lemma table_mle_Nil [simp]: "table_mle [a] [] = a"
  by (simp add: table_mle_def)

lemma sum_map2_append:
  "length xs = length ys \<Longrightarrow>
   sum_list (map2 f (xs @ xs') (ys @ ys')) = sum_list (map2 f xs ys) + sum_list (map2 f xs' ys')"
  for f :: "'a \<Rightarrow> 'b \<Rightarrow> 'f::comm_ring_1"
  by simp

lemma sum_map2_scale:
  "sum_list (map2 (*) e (map (\<lambda>x. c * x) t)) = c * sum_list (map2 (*) e t)" for c :: "'f::comm_ring_1"
  by (induction e t rule: list_induct2') (simp_all add: algebra_simps)

lemma table_mle_Cons:
  assumes "length e = 2 ^ Suc (length r)"
  shows "table_mle e (s # r) =
    (1 - s) * table_mle (take (2 ^ length r) e) r + s * table_mle (drop (2 ^ length r) e) r"
proof -
  let ?n = "2 ^ length r :: nat"
  have "table_mle e (s # r) = sum_list (map2 (*) (take ?n e @ drop ?n e) (eq_table (1 - s) r @ eq_table s r))"
    by (simp add: table_mle_def)
  also have "\<dots> = sum_list (map2 (*) (take ?n e) (eq_table (1 - s) r)) + sum_list (map2 (*) (drop ?n e) (eq_table s r))"
    using assms by (intro sum_map2_append) simp
  finally show ?thesis
    by (simp add: table_mle_def eq_table_scale1 [of "1 - s"] eq_table_scale1 [of s] sum_map2_scale)
qed

definition bind_halves :: "'f::comm_ring_1 \<Rightarrow> 'f list \<Rightarrow> 'f list" where
  "bind_halves s e =
     (let half = length e div 2 in map2 (\<lambda>lo hi. lo + s * (hi - lo)) (take half e) (drop half e))"

lemma sum_map2_bind:
  "length a = length b \<Longrightarrow> sum_list (map2 (*) (map2 (\<lambda>lo hi. lo + s * (hi - lo)) a b) t) =
    (1 - s) * sum_list (map2 (*) a t) + s * sum_list (map2 (*) b t)" for s :: "'f::comm_ring_1"
proof (induction a b arbitrary: t rule: list_induct2)
  case (Cons x a y b)
  then show ?case by (cases t) (simp_all add: algebra_simps)
qed simp

lemma table_mle_halves:
  assumes "length e = 2 ^ Suc (length r)"
  shows "table_mle (bind_halves s e) r = table_mle e (s # r)"
proof -
  have "length (take (2 ^ length r) e) = length (drop (2 ^ length r) e)" using assms by simp
  then show ?thesis using assms
    by (simp add: table_mle_Cons [OF assms] bind_halves_def Let_def) (simp add: table_mle_def sum_map2_bind)
qed

lemma bind_high_loop_eq:
  assumes "length e = 2 * h"
  shows "bind_high_loop s e = bind_halves s e"
proof -
  let ?f = "\<lambda>i e. e[i := e ! i + s * (e ! (i + h) - e ! i)]"
  have "length (fold ?f [0..<k] e) = length e \<and> (\<forall>i < length e. fold ?f [0..<k] e ! i =
      (if i < k then e ! i + s * (e ! (i + h) - e ! i) else e ! i))" if "k \<le> h" for k
    using that
  proof (induction k)
    case (Suc k)
    then show ?case using assms by (auto simp: nth_list_update less_Suc_eq)
  qed simp
  from this [of h] show ?thesis using assms
    by (auto simp: bind_high_loop_def bind_halves_def add.commute intro!: nth_equalityI)
qed

lemma bind_pairs_nth:
  "length (bind_pairs s e) = length e div 2 \<and>
   (\<forall>i < length e div 2. bind_pairs s e ! i = e ! (2 * i) + s * (e ! (2 * i + 1) - e ! (2 * i)))"
  by (induction s e rule: bind_pairs.induct) (auto simp: nth_Cons split: nat.splits)

lemma bind_low_loop_eq: "bind_low_loop s e = bind_pairs s e"
proof -
  let ?h = "length e div 2"
  let ?f = "\<lambda>i e. e[i := e ! (2 * i) + s * (e ! (2 * i + 1) - e ! (2 * i))]"
  have "length (fold ?f [0..<k] e) = length e \<and> (\<forall>i < length e. fold ?f [0..<k] e ! i =
      (if i < k then e ! (2 * i) + s * (e ! (2 * i + 1) - e ! (2 * i)) else e ! i))" if "k \<le> ?h" for k
    using that
  proof (induction k)
    case (Suc k)
    then show ?case by (auto simp: nth_list_update less_Suc_eq)
  qed simp
  from this [of ?h] show ?thesis using bind_pairs_nth [of s e]
    by (auto simp: bind_low_loop_def Let_def intro!: nth_equalityI)
qed

lemma sum_bind_pairs:
  "length e = 2 * length t \<Longrightarrow>
   sum_list (map2 (*) (bind_pairs s e) t) =
   sum_list (map2 (*) e (concat (map (\<lambda>x. [x * (1 - s), x * s]) t)))"
proof (induction s e arbitrary: t rule: bind_pairs.induct)
  case (1 s lo hi e)
  then show ?case by (cases t) (simp_all add: algebra_simps)
qed auto

lemma table_mle_pairs:
  assumes "length e = 2 ^ Suc (length r)"
  shows "table_mle (bind_pairs s e) r = table_mle e (r @ [s])"
  using assms by (simp add: table_mle_def eq_table_snoc sum_bind_pairs)

text \<open>Binding a variable is evaluation at the point with that variable: the first one for
  \<open>HighToLow\<close>, the last one for \<open>LowToHigh\<close>.\<close>

lemma bind_evaluates:
  assumes "dp_ok p" "dp_num_vars p = Suc (length r)"
  obtains p' where "bind_with_order s order p = Some p'" "dp_ok p'" "dp_num_vars p' = length r"
    "dp_evaluate p' r = dp_evaluate p (case order of HighToLow \<Rightarrow> s # r | LowToHigh \<Rightarrow> r @ [s])"
proof (cases order)
  case LowToHigh
  then show ?thesis using assms that bind_pairs_nth [of s "dp_evals p"]
    by (simp add: bind_with_order_def bind_low_to_high_def dp_ok_def dp_evaluate_eq bind_low_loop_eq table_mle_pairs)
next
  case HighToLow
  have "bind_high_loop s (dp_evals p) = bind_halves s (dp_evals p)"
    using assms by (intro bind_high_loop_eq [where h = "2 ^ length r"]) (simp add: dp_ok_def)
  moreover have "length (bind_halves s (dp_evals p)) = 2 ^ length r"
    using assms by (simp add: bind_halves_def dp_ok_def Let_def)
  ultimately show ?thesis using HighToLow assms that
    by (simp add: bind_with_order_def bind_high_to_low_def dp_ok_def dp_evaluate_eq table_mle_halves)
qed

lemma evaluate_and_consume_eq:
  assumes "dp_ok p"
  shows "evaluate_and_consume p r = dp_evaluate p r"
proof (cases "length r = dp_num_vars p")
  case True
  have "Option.bind (bind_all r p) (\<lambda>p. nth_opt (dp_evals p) 0) = dp_evaluate p r"
    using assms True
  proof (induction r arbitrary: p)
    case Nil
    then obtain a where "dp_evals p = [a]" by (auto simp: dp_ok_def length_Suc_conv)
    then show ?case using Nil by (simp add: dp_evaluate_eq)
  next
    case (Cons s r)
    obtain p' where "bind_high_to_low s p = Some p'" "dp_ok p'" "dp_num_vars p' = length r"
      "dp_evaluate p' r = dp_evaluate p (s # r)"
      using bind_evaluates [of p r s HighToLow] Cons.prems by (auto simp: bind_with_order_def)
    then show ?case using Cons.IH [of p'] by simp
  qed
  then show ?thesis using True by (simp add: evaluate_and_consume_def)
qed (simp add: evaluate_and_consume_def dp_evaluate_def)

lemma bind_scratch_eq:
  assumes "dp_ok p"
  shows "map_option fst (bind_low_to_high_reusing_scratch s scratch p) = bind_with_order s LowToHigh p"
  by (simp add: bind_low_to_high_reusing_scratch_def bind_with_order_def bind_low_to_high_def bind_low_loop_eq)

lemma bind_to_field_eq:
  assumes "dp_ok p"
  shows "bind_to_field into s p =
    bind_with_order s HighToLow \<lparr>dp_evals = map into (dp_evals p), dp_num_vars = dp_num_vars p\<rparr>"
proof (cases "dp_num_vars p")
  case (Suc n)
  then have len: "length (dp_evals p) = 2 * 2 ^ n" using assms by (simp add: dp_ok_def)
  then have "bind_high_loop s (map into (dp_evals p)) = bind_halves s (map into (dp_evals p))"
    by (intro bind_high_loop_eq [where h = "2 ^ n"]) simp
  then show ?thesis using Suc len
    by (auto simp: bind_to_field_def bind_with_order_def bind_high_to_low_def bind_halves_def Let_def
      add.commute intro!: nth_equalityI)
qed (simp add: bind_to_field_def bind_with_order_def bind_high_to_low_def)

text \<open>A round's value at an index is the entry of the bound table.\<close>

lemma round_eval_bound:
  assumes "dp_ok p" "dp_num_vars p = Suc n"
  shows "sumcheck_round_eval_with_order p j t order =
    Option.bind (bind_with_order t order p) (\<lambda>p'. nth_opt (dp_evals p') j)"
proof -
  have len: "length (dp_evals p) = 2 * 2 ^ n" using assms by (simp add: dp_ok_def)
  show ?thesis
  proof (cases order)
    case LowToHigh
    then show ?thesis using assms len bind_pairs_nth [of t "dp_evals p"]
      by (auto simp: sumcheck_round_eval_with_order_def sumcheck_eval_pair_def bind_with_order_def
        bind_low_to_high_def bind_low_loop_eq nth_opt_def)
  next
    case HighToLow
    have "bind_high_loop t (dp_evals p) = bind_halves t (dp_evals p)"
      using len by (rule bind_high_loop_eq)
    then show ?thesis using HighToLow assms len
      by (auto simp: sumcheck_round_eval_with_order_def sumcheck_eval_pair_def bind_with_order_def
        bind_high_to_low_def nth_opt_def bind_halves_def Let_def add.commute)
  qed
qed

section \<open>Boolean points and arithmetic\<close>

lemma eq_table_bool:
  assumes "k < 2 ^ n"
  shows "eq_table 1 (bool_point (msb_bits n k)) = (replicate (2 ^ n) 0)[k := 1 :: 'f::comm_ring_1]"
proof -
  have "eq_table s (bool_point (msb_bits n k)) = (replicate (2 ^ n) 0)[k := s]" for s :: 'f
    using assms
  proof (induction n arbitrary: k s)
    case (Suc n)
    have zero: "eq_table 0 (bool_point (msb_bits n j)) = replicate (2 ^ n) (0::'f)" for j
      using eq_table_scale1 [of 0 "bool_point (msb_bits n j) :: 'f list"] by (simp add: map_replicate_const)
    have rep: "replicate (2 * 2 ^ n) (0::'f) = replicate (2 ^ n) 0 @ replicate (2 ^ n) 0"
      by (simp add: replicate_add [symmetric] mult_2)
    consider "k < 2 ^ n" | j where "k = 2 ^ n + j" "j < 2 ^ n"
      using Suc.prems by (metis add_diff_inverse_nat less_diff_conv2 linorder_not_le mult_2 nat_add_left_cancel_less power_Suc)
    then show ?case
    proof cases
      case 1
      then show ?thesis using Suc.IH [OF 1, of s] zero by (simp add: rep list_update_append)
    next
      case 2
      then have "k div 2 ^ n = 1" by (simp add: div_add1_eq)
      then show ?thesis using 2 Suc.IH [OF 2(2), of s] zero by (simp add: rep list_update_append)
    qed
  qed simp
  then show ?thesis by simp
qed

lemma sum_select:
  "k < length e \<Longrightarrow> length e = n \<Longrightarrow> sum_list (map2 (*) e ((replicate n 0)[k := 1])) = e ! k"
  for e :: "'f::comm_ring_1 list"
proof (induction e arbitrary: k n)
  case (Cons a e)
  have z: "sum_list (map2 (*) e (replicate (length e) 0)) = 0" by (induction e) auto
  show ?case using Cons z by (cases k) auto
qed simp

lemma table_mle_bool:
  assumes "length e = 2 ^ n" "k < 2 ^ n"
  shows "table_mle e (bool_point (msb_bits n k)) = e ! k"
  using assms by (simp add: table_mle_def eq_table_bool sum_select)

lemma table_mle_add:
  assumes "length a = length b"
  shows "table_mle (map2 (+) a b) r = table_mle a r + table_mle b r"
    "table_mle (map2 (-) a b) r = table_mle a r - table_mle b r"
proof -
  have "sum_list (map2 (*) (map2 (+) a b) t) = sum_list (map2 (*) a t) + sum_list (map2 (*) b t) \<and>
    sum_list (map2 (*) (map2 (-) a b) t) = sum_list (map2 (*) a t) - sum_list (map2 (*) b t)" for t
    using assms
  proof (induction a b arbitrary: t rule: list_induct2)
    case (Cons x a y b)
    then show ?case by (cases t) (simp_all add: algebra_simps)
  qed simp
  then show "table_mle (map2 (+) a b) r = table_mle a r + table_mle b r"
    "table_mle (map2 (-) a b) r = table_mle a r - table_mle b r" by (simp_all add: table_mle_def)
qed

lemma table_mle_map:
  "table_mle (map (\<lambda>a. a * c) e) r = table_mle e r * c" "table_mle (map uminus e) r = - table_mle e r"
proof -
  have "sum_list (map2 (*) (map (\<lambda>a. a * c) e) t) = sum_list (map2 (*) e t) * c \<and>
    sum_list (map2 (*) (map uminus e) t) = - sum_list (map2 (*) e t)" for t
    by (induction e t rule: list_induct2') (simp_all add: algebra_simps)
  then show "table_mle (map (\<lambda>a. a * c) e) r = table_mle e r * c" "table_mle (map uminus e) r = - table_mle e r"
    by (simp_all add: table_mle_def)
qed

section \<open>Multilinear functions are their tables\<close>

text \<open>A function of \<open>n\<close> coordinates that is affine in each of them.\<close>

primrec multi_affine :: "nat \<Rightarrow> ('f::comm_ring_1 list \<Rightarrow> 'f) \<Rightarrow> bool" where
  "multi_affine 0 f \<longleftrightarrow> True"
| "multi_affine (Suc n) f \<longleftrightarrow>
     (\<forall>s r. length r = n \<longrightarrow> f (s # r) = f (0 # r) + s * (f (1 # r) - f (0 # r))) \<and>
     (\<forall>s. multi_affine n (\<lambda>r. f (s # r)))"

declare multi_affine.simps(2) [simp del]

lemma multi_affine_SucI:
  "(\<And>s r. length r = n \<Longrightarrow> f (s # r) = f (0 # r) + s * (f (1 # r) - f (0 # r))) \<Longrightarrow>
   (\<And>s. multi_affine n (\<lambda>r. f (s # r))) \<Longrightarrow> multi_affine (Suc n) f"
  unfolding multi_affine.simps by blast

lemma multi_affine_head:
  assumes "multi_affine (Suc n) f" "length r = n"
  shows "f (s # r) = f (0 # r) + s * (f (1 # r) - f (0 # r))"
  using assms unfolding multi_affine.simps by blast

lemma multi_affine_tail: "multi_affine (Suc n) f \<Longrightarrow> multi_affine n (\<lambda>r. f (s # r))"
  unfolding multi_affine.simps by blast

definition hypercube_table :: "nat \<Rightarrow> ('f::comm_ring_1 list \<Rightarrow> 'f) \<Rightarrow> 'f list" where
  "hypercube_table n f = map (\<lambda>i. f (bool_point (msb_bits n i))) [0..<2 ^ n]"

lemma hypercube_table_Suc:
  "hypercube_table (Suc n) f = hypercube_table n (\<lambda>r. f (0 # r)) @ hypercube_table n (\<lambda>r. f (1 # r))"
proof -
  have "[0..<2 ^ Suc n] = [0..<2 ^ n] @ map (\<lambda>i. 2 ^ n + i) [0..<2 ^ n]"
  proof -
    have "[0..<2 ^ Suc n] = [0..<2 ^ n] @ [2 ^ n..<2 ^ n + 2 ^ n]"
      using upt_add_eq_append [of 0 "2 ^ n" "2 ^ n"] by (simp add: mult_2)
    also have "[2 ^ n..<2 ^ n + 2 ^ n] = map (\<lambda>i. 2 ^ n + i) [0..<2 ^ n]"
      using map_add_upt [of "2 ^ n" "2 ^ n"] by (simp only: add.commute)
    finally show ?thesis .
  qed
  moreover have "(2 ^ n + i) div 2 ^ n = 1" if "i < 2 ^ n" for i :: nat using that by (simp add: div_add1_eq)
  ultimately show ?thesis by (auto simp: hypercube_table_def)
qed

lemma length_hypercube_table [simp]: "length (hypercube_table n f) = 2 ^ n"
  by (simp add: hypercube_table_def)

lemma multi_affine_table:
  "multi_affine n f \<Longrightarrow> length r = n \<Longrightarrow> table_mle (hypercube_table n f) r = f r"
proof (induction n arbitrary: f r)
  case (Suc n)
  then obtain s q where r: "r = s # q" "length q = n" by (auto simp: length_Suc_conv)
  have aff: "multi_affine n (\<lambda>r. f (0 # r))" "multi_affine n (\<lambda>r. f (1 # r))"
    "f (s # q) = f (0 # q) + s * (f (1 # q) - f (0 # q))"
    by (rule multi_affine_tail [OF Suc.prems(1)], rule multi_affine_tail [OF Suc.prems(1)],
      rule multi_affine_head [OF Suc.prems(1) r(2)])
  have "table_mle (hypercube_table (Suc n) f) (s # q) = (1 - s) * f (0 # q) + s * f (1 # q)"
    unfolding hypercube_table_Suc using Suc.IH [OF aff(1) r(2)] Suc.IH [OF aff(2) r(2)] r(2)
    by (subst table_mle_Cons) simp_all
  also have "\<dots> = f (0 # q) + s * (f (1 # q) - f (0 # q))" by (simp add: algebra_simps)
  also have "\<dots> = f (s # q)" by (rule aff(3) [symmetric])
  finally show ?case using r(1) by simp
qed (simp add: hypercube_table_def)

lemma multi_affine_cong:
  "multi_affine n f \<Longrightarrow> (\<And>r. length r = n \<Longrightarrow> f r = g r) \<Longrightarrow> multi_affine n g"
proof (induction n arbitrary: f g)
  case (Suc n)
  have eq: "f (s # r) = g (s # r)" if "length r = n" for s r by (rule Suc.prems(2)) (simp add: that)
  show ?case
  proof (rule multi_affine_SucI)
    show "multi_affine n (\<lambda>r. g (s # r))" for s
      by (rule Suc.IH [OF multi_affine_tail [OF Suc.prems(1), of s] eq])
    show "g (s # r) = g (0 # r) + s * (g (1 # r) - g (0 # r))" if "length r = n" for s r
      unfolding eq [OF that, symmetric] by (rule multi_affine_head [OF Suc.prems(1) that])
  qed
qed simp

lemma multi_affine_table_mle:
  "length e = 2 ^ n \<Longrightarrow> multi_affine n (table_mle e)"
proof (induction n arbitrary: e)
  case (Suc n)
  show ?case
  proof (rule multi_affine_SucI)
    show "multi_affine n (\<lambda>r. table_mle e (s # r))" for s
    proof (rule multi_affine_cong)
      show "multi_affine n (table_mle (bind_halves s e))"
        using Suc.prems by (intro Suc.IH) (simp add: bind_halves_def Let_def)
      show "table_mle (bind_halves s e) r = table_mle e (s # r)" if "length r = n" for r
        using that Suc.prems by (intro table_mle_halves) simp
    qed
    fix s and r :: "'a list" assume r: "length r = n"
    have c: "table_mle e (t # r) = (1 - t) * table_mle (take (2 ^ n) e) r + t * table_mle (drop (2 ^ n) e) r" for t
      using r Suc.prems table_mle_Cons [of e r t] by simp
    show "table_mle e (s # r) = table_mle e (0 # r) + s * (table_mle e (1 # r) - table_mle e (0 # r))"
      unfolding c by (simp add: algebra_simps)
  qed
qed simp

section \<open>The identity and operand polynomials\<close>

lemma mul_pow_2_loop_eq: "mul_pow_2_loop x p = x * 2 ^ p"
proof (induction x p rule: mul_pow_2_loop.induct)
  case (1 x p)
  show ?case
  proof (cases "64 \<le> p")
    case True
    have "of_nat (unat (push_bit 63 1 :: u64)) = (2 :: 'a) ^ 63" by simp
    then have "mul_pow_2_loop x p = x * (2 ^ 63 * 2 ^ (p - 63))"
      using 1 True by (subst mul_pow_2_loop.simps) (simp add: mult.assoc)
    then show ?thesis using True by (simp only: power_add [symmetric]) simp
  next
    case False
    then have "(2::nat) ^ p < 2 ^ 64" by (intro power_strict_increasing) auto
    moreover have "(push_bit p 1 :: u64) = of_nat (2 ^ p)" by simp
    ultimately have "unat (push_bit p 1 :: u64) = 2 ^ p" by (simp only: unat_of_nat) simp
    then show ?thesis using False by (subst mul_pow_2_loop.simps) (simp del: push_bit_of_1)
  qed
qed

lemma weighted_fold_eq:
  "\<forall>(x, pow) \<in> set terms. pow \<le> 255 \<Longrightarrow>
   weighted_fold terms = Some (\<Sum>(x, pow) \<leftarrow> terms. x * 2 ^ pow)"
proof -
  assume ok: "\<forall>(x, pow) \<in> set terms. pow \<le> 255"
  have "fold (\<lambda>(x, pow) acc. case (acc, mul_pow_2 x pow) of (Some a, Some v) \<Rightarrow> Some (a + v) | _ \<Rightarrow> None) terms (Some a) =
    Some (a + (\<Sum>(x, pow) \<leftarrow> terms. x * 2 ^ pow))" for a
    using ok by (induction terms arbitrary: a) (auto simp: mul_pow_2_def mul_pow_2_loop_eq add.assoc)
  then show ?thesis by (simp add: weighted_fold_def)
qed

text \<open>The sum of the bits with their weights.\<close>

lemma bits_value:
  "(\<Sum>(i, r) \<leftarrow> enumerate k (bool_point (msb_bits n v)). r * 2 ^ (k + n - 1 - i)) = (of_nat (v mod 2 ^ n) :: 'f::comm_ring_1)"
proof (induction n arbitrary: k)
  case (Suc n)
  have "v mod 2 ^ Suc n = of_bool (odd (v div 2 ^ n)) * 2 ^ n + v mod 2 ^ n"
    using mod_mult2_eq [of v "2 ^ n" 2] by (simp add: mult.commute odd_iff_mod_2_eq_one of_bool_def)
  then show ?case using Suc [of "Suc k"] by simp
qed simp

lemma identity_correct:
  assumes "v < 2 ^ n" "n \<le> 256"
  shows "identity_evaluate n (bool_point (msb_bits n v) :: 'f::comm_ring_1 list) = Some (of_nat v)"
proof -
  have "weighted_fold (map (\<lambda>(i, r). (r, n - 1 - i)) (enumerate 0 (bool_point (msb_bits n v) :: 'f list))) =
    Some (\<Sum>(x, pow) \<leftarrow> map (\<lambda>(i, r). (r, n - 1 - i)) (enumerate 0 (bool_point (msb_bits n v))). x * 2 ^ pow)"
    using assms(2) by (intro weighted_fold_eq) auto
  also have "(\<Sum>(x, pow) \<leftarrow> map (\<lambda>(i, r). (r, n - 1 - i)) (enumerate 0 (bool_point (msb_bits n v) :: 'f list)). x * 2 ^ pow) =
      (\<Sum>(i, r) \<leftarrow> enumerate 0 (bool_point (msb_bits n v)). r * 2 ^ (0 + n - 1 - i))"
    by (simp add: o_def case_prod_unfold)
  also have "\<dots> = of_nat v" using assms(1) bits_value [of 0 n v] by simp
  finally show ?thesis by (simp add: identity_evaluate_def)
qed

end
