(* ===== verification/Table_Mle.thy ===== *)
theory Table_Mle
  imports Lookup_Tables Dense_Poly
begin

text \<open>
  \<^verbatim>\<open>evaluate_mle\<close> of the 24 tables of \<^verbatim>\<open>jolt-lookup-tables/src/tables\<close>, at the word size 64 of
  the catalogue: the value of a table at a point of 128 field elements, the most significant index
  bit first; in the interleaved tables the left operand has the even positions. The functions read
  past a shorter point; \<open>evaluate_mle\<close> of the catalogue is \<open>None\<close> there.
\<close>

section \<open>The tables over the index\<close>

definition range_check_mle :: "'f::comm_ring_1 list \<Rightarrow> 'f" where
  "range_check_mle r =
     fold (\<lambda>i result. let shift = XLEN - 1 - i in result + from_u128 (push_bit shift 1) * r ! (XLEN + i)) [0..<XLEN] 0"

definition lower_half_word_mle :: "'f::comm_ring_1 list \<Rightarrow> 'f" where
  "lower_half_word_mle r =
     (let half_word_size = XLEN div 2 in
      fold (\<lambda>i result. result + from_u64 (push_bit (half_word_size - 1 - i) 1) * r ! (XLEN + half_word_size + i))
        [0..<half_word_size] 0)"

definition mulu_no_overflow_mle :: "'f::comm_ring_1 list \<Rightarrow> 'f" where
  "mulu_no_overflow_mle r = fold (\<lambda>r_i result. result * (1 - r_i)) (take XLEN r) 1"

text \<open>\<^verbatim>\<open>XLEN.trailing_zeros()\<close>.\<close>

definition log_xlen :: nat where
  "log_xlen = twos XLEN"

definition pow2_mle :: "'f::comm_ring_1 list \<Rightarrow> 'f" where
  "pow2_mle r =
     fold (\<lambda>i result. result * (1 + from_u64 (push_bit (unat (push_bit i 1 :: u32)) 1 - 1) * r ! (length r - i - 1)))
       [0..<log_xlen] 1"

definition shift_right_bitmask_mle :: "'f::comm_ring_1 list \<Rightarrow> 'f" where
  "shift_right_bitmask_mle r =
     (let log_w = log_xlen; r = drop (length r - log_w) r;
          dp = map (\<lambda>s.
            let bitmask = push_bit s (push_bit (XLEN - s) 1 - 1) :: u128;
                eq_val = fold (\<lambda>i eq_val. let bit = drop_bit i s AND 1 in
                  eq_val * (if bit = 0 then 1 - r ! (log_w - i - 1) else r ! (log_w - i - 1))) [0..<log_w] 1 in
            from_u128 bitmask * eq_val) [0..<XLEN] in
      sum_list dp)"

definition sign_extend_word_mle :: "'f::comm_ring_1 list \<Rightarrow> 'f" where
  "sign_extend_word_mle r =
     (let half_word_size = XLEN div 2;
          lower_half = fold (\<lambda>i lower_half.
            lower_half + from_u64 (push_bit (half_word_size - 1 - i) 1) * r ! (XLEN + half_word_size + i)) [0..<half_word_size] 0;
          sign_bit = r ! (XLEN + half_word_size);
          upper_half = fold (\<lambda>i upper_half.
            upper_half + from_u64 (push_bit (half_word_size - 1 - i) 1) * sign_bit) [0..<half_word_size] 0 in
      lower_half + upper_half * from_u64 (push_bit half_word_size 1))"

section \<open>The tables over two operands\<close>

definition and_mle :: "'f::comm_ring_1 list \<Rightarrow> 'f" where
  "and_mle r =
     fold (\<lambda>i result. let x_i = r ! (2 * i); y_i = r ! (2 * i + 1) in
       result + from_u64 (push_bit (XLEN - 1 - i) 1) * x_i * y_i) [0..<XLEN] 0"

definition andn_mle :: "'f::comm_ring_1 list \<Rightarrow> 'f" where
  "andn_mle r =
     fold (\<lambda>i result. let x_i = r ! (2 * i); y_i = r ! (2 * i + 1) in
       result + from_u64 (push_bit (XLEN - 1 - i) 1) * x_i * (1 - y_i)) [0..<XLEN] 0"

definition or_mle :: "'f::comm_ring_1 list \<Rightarrow> 'f" where
  "or_mle r =
     fold (\<lambda>i result. let x_i = r ! (2 * i); y_i = r ! (2 * i + 1) in
       result + from_u64 (push_bit (XLEN - 1 - i) 1) * (x_i + y_i - x_i * y_i)) [0..<XLEN] 0"

definition xor_mle :: "'f::comm_ring_1 list \<Rightarrow> 'f" where
  "xor_mle r =
     fold (\<lambda>i result. let x_i = r ! (2 * i); y_i = r ! (2 * i + 1) in
       result + from_u64 (push_bit (XLEN - 1 - i) 1) * ((1 - x_i) * y_i + x_i * (1 - y_i))) [0..<XLEN] 0"

definition equal_mle :: "'f::comm_ring_1 list \<Rightarrow> 'f" where
  "equal_mle r =
     fold (\<lambda>i result. let x_i = r ! i; y_i = r ! (i + 1) in
       result * (x_i * y_i + (1 - x_i) * (1 - y_i))) (map (\<lambda>k. 2 * k) [0..<(length r + 1) div 2]) 1"

definition not_equal_mle :: "'f::comm_ring_1 list \<Rightarrow> 'f" where
  "not_equal_mle r = 1 - equal_mle r"

text \<open>The comparisons thread the value and the product of the equalities so far.\<close>

definition less_than_step :: "'f::comm_ring_1 list \<Rightarrow> nat \<Rightarrow> 'f \<times> 'f \<Rightarrow> 'f \<times> 'f" where
  "less_than_step r i st = (case st of (result, eq_term) \<Rightarrow>
     (let x_i = r ! (2 * i); y_i = r ! (2 * i + 1) in
      (result + (1 - x_i) * y_i * eq_term, eq_term * (x_i * y_i + (1 - x_i) * (1 - y_i)))))"

definition unsigned_less_than_mle :: "'f::comm_ring_1 list \<Rightarrow> 'f" where
  "unsigned_less_than_mle r = (case fold (less_than_step r) [0..<XLEN] (0, 1) of (result, _) \<Rightarrow> result)"

definition unsigned_greater_than_equal_mle :: "'f::comm_ring_1 list \<Rightarrow> 'f" where
  "unsigned_greater_than_equal_mle r = 1 - unsigned_less_than_mle r"

definition unsigned_less_than_equal_mle :: "'f::comm_ring_1 list \<Rightarrow> 'f" where
  "unsigned_less_than_equal_mle r = (case fold (less_than_step r) [0..<XLEN] (0, 1) of (lt, eq) \<Rightarrow> lt + eq)"

definition signed_less_than_mle :: "'f::comm_ring_1 list \<Rightarrow> 'f" where
  "signed_less_than_mle r =
     (let x_sign = r ! 0; y_sign = r ! 1 in
      case fold (less_than_step r) [0..<XLEN] (0, 1) of (lt, _) \<Rightarrow> x_sign - y_sign + lt)"

definition signed_greater_than_equal_mle :: "'f::comm_ring_1 list \<Rightarrow> 'f" where
  "signed_greater_than_equal_mle r = 1 - signed_less_than_mle r"

section \<open>The shifts\<close>

definition srl_mle :: "'f::comm_ring_1 list \<Rightarrow> 'f" where
  "srl_mle r =
     fold (\<lambda>i result. let x_i = r ! (2 * i); y_i = r ! (2 * i + 1) in
       result * (1 + y_i) + x_i * y_i) [0..<XLEN] 0"

definition sra_mle :: "'f::comm_ring_1 list \<Rightarrow> 'f" where
  "sra_mle r =
     (case fold (\<lambda>i (result, sign_extension). let x_i = r ! (2 * i); y_i = r ! (2 * i + 1) in
         (result * (1 + y_i) + x_i * y_i,
          if i \<noteq> 0 then sign_extension + from_u64 (push_bit i 1) * (1 - y_i) else sign_extension)) [0..<XLEN] (0, 0) of
        (result, sign_extension) \<Rightarrow> result + r ! 0 * sign_extension)"

definition rotr_mle :: "'f::comm_ring_1 list \<Rightarrow> 'f" where
  "rotr_mle r =
     (case fold (\<lambda>i (prod_one_plus_y, first_sum, second_sum).
         let r_x = r ! (2 * i); r_y = r ! (2 * i + 1) in
         (prod_one_plus_y * (1 + r_y),
          first_sum * (1 + r_y) + r_x * r_y,
          second_sum + r_x * (1 - r_y) * prod_one_plus_y * from_u64 (push_bit (XLEN - 1 - i) 1)))
        [0..<length r div 2] (1, 0, 0) of
        (_, first_sum, second_sum) \<Rightarrow> first_sum + second_sum)"

section \<open>One operand\<close>

definition negate_if_mle :: "'f::comm_ring_1 list \<Rightarrow> 'f" where
  "negate_if_mle r =
     (let sign = r ! 0 in
      case fold (\<lambda>i (val, value_is_zero). let bit = r ! (2 * i + 1) in
          (val + from_u128 (push_bit (XLEN - 1 - i) 1) * bit, value_is_zero * (1 - bit))) [0..<XLEN] (0, 1) of
        (val, value_is_zero) \<Rightarrow>
          (let two_to_xlen = from_u128 (push_bit XLEN 1) in
           val - from_u64 2 * sign * val + two_to_xlen * sign - two_to_xlen * sign * value_is_zero))"

definition clz_mle :: "'f::comm_ring_1 list \<Rightarrow> 'f" where
  "clz_mle r =
     (case fold (\<lambda>i (result, all_zero_so_far). let x_i = r ! (2 * i) in
         (result + all_zero_so_far * x_i * from_u64 (of_nat i), all_zero_so_far * (1 - x_i))) [0..<XLEN] (0, 1) of
        (result, all_zero_so_far) \<Rightarrow> result + all_zero_so_far * from_u64 (of_nat XLEN))"

definition ctz_mle :: "'f::comm_ring_1 list \<Rightarrow> 'f" where
  "ctz_mle r =
     (case fold (\<lambda>k (result, all_zero_so_far). let x_k = r ! (2 * (XLEN - 1 - k)) in
         (result + all_zero_so_far * x_k * from_u64 (of_nat k), all_zero_so_far * (1 - x_k))) [0..<XLEN] (0, 1) of
        (result, all_zero_so_far) \<Rightarrow> result + all_zero_so_far * from_u64 (of_nat XLEN))"

definition popcnt_mle :: "'f::comm_ring_1 list \<Rightarrow> 'f" where
  "popcnt_mle r = fold (\<lambda>i result. result + r ! (2 * i)) [0..<XLEN] 0"

section \<open>The catalogue\<close>

text \<open>The lengths at which no index is out of range and no assertion fails.\<close>

fun mle_length_ok :: "wasm_table \<Rightarrow> nat \<Rightarrow> bool" where
  "mle_length_ok Equal n = even n"
| "mle_length_ok NotEqual n = even n"
| "mle_length_ok Rotr n = (n = 2 * XLEN)"
| "mle_length_ok MulUNoOverflow n = (XLEN \<le> n)"
| "mle_length_ok Pow2 n = (log_xlen \<le> n)"
| "mle_length_ok ShiftRightBitmask n = (log_xlen \<le> n)"
| "mle_length_ok Clz n = (2 * XLEN \<le> n + 1)"
| "mle_length_ok Ctz n = (2 * XLEN \<le> n + 1)"
| "mle_length_ok Popcnt n = (2 * XLEN \<le> n + 1)"
| "mle_length_ok _ n = (2 * XLEN \<le> n)"

fun table_mle_value :: "wasm_table \<Rightarrow> 'f::comm_ring_1 list \<Rightarrow> 'f" where
  "table_mle_value RangeCheck r = range_check_mle r"
| "table_mle_value LowerHalfWord r = lower_half_word_mle r"
| "table_mle_value And r = and_mle r"
| "table_mle_value Andn r = andn_mle r"
| "table_mle_value Or r = or_mle r"
| "table_mle_value Xor r = xor_mle r"
| "table_mle_value Equal r = equal_mle r"
| "table_mle_value NotEqual r = not_equal_mle r"
| "table_mle_value UnsignedLessThan r = unsigned_less_than_mle r"
| "table_mle_value SignedLessThan r = signed_less_than_mle r"
| "table_mle_value UnsignedGreaterThanEqual r = unsigned_greater_than_equal_mle r"
| "table_mle_value SignedGreaterThanEqual r = signed_greater_than_equal_mle r"
| "table_mle_value UnsignedLessThanEqual r = unsigned_less_than_equal_mle r"
| "table_mle_value Srl r = srl_mle r"
| "table_mle_value Sra r = sra_mle r"
| "table_mle_value Rotr r = rotr_mle r"
| "table_mle_value NegateIf r = negate_if_mle r"
| "table_mle_value MulUNoOverflow r = mulu_no_overflow_mle r"
| "table_mle_value Pow2 r = pow2_mle r"
| "table_mle_value ShiftRightBitmask r = shift_right_bitmask_mle r"
| "table_mle_value SignExtendWord r = sign_extend_word_mle r"
| "table_mle_value Clz r = clz_mle r"
| "table_mle_value Ctz r = ctz_mle r"
| "table_mle_value Popcnt r = popcnt_mle r"

definition evaluate_mle :: "wasm_table \<Rightarrow> 'f::comm_ring_1 list \<Rightarrow> 'f option" where
  "evaluate_mle t r = (if mle_length_ok t (length r) then Some (table_mle_value t r) else None)"

end
