(* ===== verification/Table_Prefix.thy ===== *)
theory Table_Prefix
  imports Table_Mle
begin

text \<open>
  The decomposition of the tables into prefixes and suffixes:
  \<^verbatim>\<open>jolt-lookup-tables/src/tables/prefixes/*.rs\<close>, \<^verbatim>\<open>suffixes/*.rs\<close> and the \<^verbatim>\<open>prefixes\<close>,
  \<^verbatim>\<open>suffixes\<close> and \<^verbatim>\<open>combine\<close> of every table. A prefix is evaluated at the bits \<open>b\<close> of one phase,
  from the checkpoints of the phases before; a suffix at the bits that are not bound yet. Machine
  shifts take their count modulo the width, as a release build does.
\<close>

section \<open>The variants\<close>

datatype prefixes =
    P_LowerWord | P_LowerHalfWord | P_Eq | P_And | P_Andn | P_Or | P_Xor | P_LessThan
  | P_LeftOperandIsZero | P_LeftOperandMsb | P_RightOperandMsb | P_Pow2 | P_RightShift
  | P_SignExtension | P_LeftShift | P_LeftShiftHelper | P_SignExtensionUpperHalf | P_RightOperand
  | P_LeftMsbRightOperand | P_LeftMsbRightOperandIsZero | P_OverflowBitsZero | P_Popcnt | P_Clz | P_Ctz

definition ALL_PREFIXES :: "prefixes list" where
  "ALL_PREFIXES =
     [P_LowerWord, P_LowerHalfWord, P_Eq, P_And, P_Andn, P_Or, P_Xor, P_LessThan,
      P_LeftOperandIsZero, P_LeftOperandMsb, P_RightOperandMsb, P_Pow2, P_RightShift,
      P_SignExtension, P_LeftShift, P_LeftShiftHelper, P_SignExtensionUpperHalf, P_RightOperand,
      P_LeftMsbRightOperand, P_LeftMsbRightOperandIsZero, P_OverflowBitsZero, P_Popcnt, P_Clz, P_Ctz]"

datatype suffixes =
    S_One | S_And | S_AndNot | S_Xor | S_Or | S_RightOperand | S_LowerWord | S_LowerHalfWord
  | S_LessThan | S_Eq | S_LeftOperandIsZero | S_RightOperandIsZero | S_Pow2 | S_RightShift
  | S_RightShiftHelper | S_SignExtension | S_LeftShift | S_SignExtensionUpperHalf
  | S_OverflowBitsZero | S_Popcnt | S_ClzLow | S_CtzLow

text \<open>The checkpoints: a value for every prefix (\<^verbatim>\<open>&[PrefixEval<F>]\<close>, indexed by the variant).\<close>

type_synonym 'f checkpoints = "prefixes \<Rightarrow> 'f"

section \<open>Prefixes\<close>

text \<open>\<^verbatim>\<open>u64::from(b)\<close>.\<close>

definition lb_u64 :: "lookup_bits \<Rightarrow> u64" where
  "lb_u64 b = ucast (lb_as_u128 b)"

text \<open>\<^verbatim>\<open>2 * XLEN - suffix_len - b.len()\<close>: the number of index bits bound before this phase.\<close>

definition phase_start :: "lookup_bits \<Rightarrow> nat \<Rightarrow> nat" where
  "phase_start b suffix_len = 2 * XLEN - suffix_len - lb_len b"

definition lb_leading_zeros :: "lookup_bits \<Rightarrow> u64" where
  "lb_leading_zeros x =
     (let n = of_nat (lb_len x); v = lb_u64 x in
      if v = 0 then n else n - of_nat (64 - leading_zeros v))"

definition operand_msb :: "lookup_bits \<Rightarrow> u64" where
  "operand_msb x = drop_bit ((lb_len x - 1) mod 64) (lb_u64 x)"

definition lower_word_prefix :: "'f::comm_ring_1 checkpoints \<Rightarrow> lookup_bits \<Rightarrow> nat \<Rightarrow> 'f" where
  "lower_word_prefix checkpoints b suffix_len =
     (if phase_start b suffix_len < XLEN then 0
      else checkpoints P_LowerWord + from_u128 (push_bit (suffix_len mod 128) (lb_as_u128 b)))"

definition lower_half_word_prefix :: "'f::comm_ring_1 checkpoints \<Rightarrow> lookup_bits \<Rightarrow> nat \<Rightarrow> 'f" where
  "lower_half_word_prefix checkpoints b suffix_len =
     (if phase_start b suffix_len < XLEN + XLEN div 2 then 0
      else checkpoints P_LowerHalfWord + from_u128 (push_bit (suffix_len mod 128) (lb_as_u128 b)))"

definition eq_prefix :: "'f::comm_ring_1 checkpoints \<Rightarrow> lookup_bits \<Rightarrow> nat \<Rightarrow> 'f" where
  "eq_prefix checkpoints b suffix_len = (case lb_uninterleave b of (x, y) \<Rightarrow>
     if lb_as_u128 x = lb_as_u128 y then checkpoints P_Eq else 0)"

definition and_prefix :: "'f::comm_ring_1 checkpoints \<Rightarrow> lookup_bits \<Rightarrow> nat \<Rightarrow> 'f" where
  "and_prefix checkpoints b suffix_len = (case lb_uninterleave b of (x, y) \<Rightarrow>
     checkpoints P_And + from_u64 (push_bit (suffix_len div 2 mod 64) (lb_u64 x AND lb_u64 y)))"

definition andn_prefix :: "'f::comm_ring_1 checkpoints \<Rightarrow> lookup_bits \<Rightarrow> nat \<Rightarrow> 'f" where
  "andn_prefix checkpoints b suffix_len = (case lb_uninterleave b of (x, y) \<Rightarrow>
     checkpoints P_Andn + from_u64 (push_bit (suffix_len div 2 mod 64) (lb_u64 x AND NOT (lb_u64 y))))"

definition or_prefix :: "'f::comm_ring_1 checkpoints \<Rightarrow> lookup_bits \<Rightarrow> nat \<Rightarrow> 'f" where
  "or_prefix checkpoints b suffix_len = (case lb_uninterleave b of (x, y) \<Rightarrow>
     checkpoints P_Or + from_u64 (push_bit (suffix_len div 2 mod 64) (lb_u64 x OR lb_u64 y)))"

definition xor_prefix :: "'f::comm_ring_1 checkpoints \<Rightarrow> lookup_bits \<Rightarrow> nat \<Rightarrow> 'f" where
  "xor_prefix checkpoints b suffix_len = (case lb_uninterleave b of (x, y) \<Rightarrow>
     checkpoints P_Xor + from_u64 (push_bit (suffix_len div 2 mod 64) (lb_u64 x XOR lb_u64 y)))"

definition less_than_prefix :: "'f::comm_ring_1 checkpoints \<Rightarrow> lookup_bits \<Rightarrow> nat \<Rightarrow> 'f" where
  "less_than_prefix checkpoints b suffix_len = (case lb_uninterleave b of (x, y) \<Rightarrow>
     if lb_u64 x < lb_u64 y then checkpoints P_LessThan + checkpoints P_Eq else checkpoints P_LessThan)"

definition left_is_zero_prefix :: "'f::comm_ring_1 checkpoints \<Rightarrow> lookup_bits \<Rightarrow> nat \<Rightarrow> 'f" where
  "left_is_zero_prefix checkpoints b suffix_len = (case lb_uninterleave b of (x, _) \<Rightarrow>
     if lb_u64 x \<noteq> 0 then 0 else checkpoints P_LeftOperandIsZero)"

definition left_operand_msb_prefix :: "'f::comm_ring_1 checkpoints \<Rightarrow> lookup_bits \<Rightarrow> nat \<Rightarrow> 'f" where
  "left_operand_msb_prefix checkpoints b suffix_len =
     (if phase_start b suffix_len > 0 then checkpoints P_LeftOperandMsb
      else (case lb_uninterleave b of (x, _) \<Rightarrow> from_u64 (operand_msb x)))"

definition right_operand_msb_prefix :: "'f::comm_ring_1 checkpoints \<Rightarrow> lookup_bits \<Rightarrow> nat \<Rightarrow> 'f" where
  "right_operand_msb_prefix checkpoints b suffix_len =
     (if phase_start b suffix_len > 0 then checkpoints P_RightOperandMsb
      else (case lb_uninterleave b of (_, y) \<Rightarrow> from_u64 (operand_msb y)))"

definition pow2_prefix :: "'f::comm_ring_1 checkpoints \<Rightarrow> lookup_bits \<Rightarrow> nat \<Rightarrow> 'f" where
  "pow2_prefix checkpoints b suffix_len =
     (if suffix_len \<noteq> 0 then 1
      else checkpoints P_Pow2 * from_u64 (push_bit (unat (lb_u64 b AND (of_nat XLEN - 1))) 1))"

definition right_shift_prefix :: "'f::comm_ring_1 checkpoints \<Rightarrow> lookup_bits \<Rightarrow> nat \<Rightarrow> 'f" where
  "right_shift_prefix checkpoints b suffix_len = (case lb_uninterleave b of (x, y) \<Rightarrow>
     (let x_val = lb_u64 x; y_val = lb_u64 y; n = lb_len y in
      fold (\<lambda>i result.
          let x_i = drop_bit (n - 1 - i) x_val AND 1; y_i = drop_bit (n - 1 - i) y_val AND 1 in
          if y_i = 1 then result + result + from_u64 x_i else result)
        [0..<n] (checkpoints P_RightShift)))"

definition sign_extension_prefix :: "'f::comm_ring_1 checkpoints \<Rightarrow> lookup_bits \<Rightarrow> nat \<Rightarrow> 'f" where
  "sign_extension_prefix checkpoints b suffix_len =
     (let j_start = phase_start b suffix_len in
      case lb_uninterleave b of (x, y) \<Rightarrow>
        (let y_val = lb_u64 y; y_len = lb_len y in
         if j_start = 0 then
           (let sign_bit = operand_msb x AND 1 in
            if sign_bit = 0 then 0
            else from_u64 (fold (\<lambda>i sum. if drop_bit (y_len - 1 - i) y_val AND 1 = 0 then sum + push_bit i 1 else sum)
                   [1..<y_len] 0))
         else
           (let sign_bit = checkpoints P_LeftOperandMsb; base_index = j_start div 2;
                new_sum = fold (\<lambda>i new_sum. if drop_bit (y_len - 1 - i) y_val AND 1 = 0
                    then new_sum + from_u64 (push_bit ((base_index + i) mod 64) 1) else new_sum) [0..<y_len] 0 in
            checkpoints P_SignExtension + sign_bit * new_sum)))"

definition left_shift_prefix :: "'f::comm_ring_1 checkpoints \<Rightarrow> lookup_bits \<Rightarrow> nat \<Rightarrow> 'f" where
  "left_shift_prefix checkpoints b suffix_len =
     (let j_start = phase_start b suffix_len in
      case lb_uninterleave b of (x, y) \<Rightarrow>
        (let x_val = lb_u64 x; y_val = lb_u64 y; n = lb_len y in
         fst (fold (\<lambda>i (result, prod).
             let x_i = drop_bit (n - 1 - i) x_val AND 1; y_i = drop_bit (n - 1 - i) y_val AND 1;
                 result = (if y_i = 0 \<and> x_i = 1
                   then result + prod * from_u64 (push_bit (XLEN - 1 - j_start div 2 - i) 1) else result);
                 prod = (if y_i = 1 then prod + prod else prod) in
             (result, prod))
           [0..<n] (checkpoints P_LeftShift, checkpoints P_LeftShiftHelper))))"

definition left_shift_helper_prefix :: "'f::comm_ring_1 checkpoints \<Rightarrow> lookup_bits \<Rightarrow> nat \<Rightarrow> 'f" where
  "left_shift_helper_prefix checkpoints b suffix_len = (case lb_uninterleave b of (_, y) \<Rightarrow>
     checkpoints P_LeftShiftHelper * from_u64 (push_bit (count_ones (lb_u64 y) mod 64) 1))"

definition sign_extension_upper_half_prefix :: "'f::comm_ring_1 checkpoints \<Rightarrow> lookup_bits \<Rightarrow> nat \<Rightarrow> 'f" where
  "sign_extension_upper_half_prefix checkpoints b suffix_len =
     (let half_word_size = XLEN div 2 in
      if suffix_len \<ge> half_word_size then 1
      else
        (let j_start = phase_start b suffix_len; sign_bit_round = XLEN + half_word_size in
         if j_start \<le> sign_bit_round \<and> sign_bit_round < j_start + lb_len b
         then (case lb_uninterleave b of (x, _) \<Rightarrow>
           from_u128 (push_bit half_word_size (push_bit half_word_size 1 - 1)) * from_u64 (operand_msb x AND 1))
         else checkpoints P_SignExtensionUpperHalf))"

definition right_operand_prefix :: "'f::comm_ring_1 checkpoints \<Rightarrow> lookup_bits \<Rightarrow> nat \<Rightarrow> 'f" where
  "right_operand_prefix checkpoints b suffix_len = (case lb_uninterleave b of (_, y) \<Rightarrow>
     checkpoints P_RightOperand + from_u128 (push_bit (suffix_len div 2) (lb_as_u128 y)))"

definition left_msb_right_operand_prefix :: "'f::comm_ring_1 checkpoints \<Rightarrow> lookup_bits \<Rightarrow> nat \<Rightarrow> 'f" where
  "left_msb_right_operand_prefix checkpoints b suffix_len = (case lb_uninterleave b of (x, y) \<Rightarrow>
     (let left_msb = (if phase_start b suffix_len = 0 then from_u64 (operand_msb x) else checkpoints P_LeftOperandMsb) in
      checkpoints P_LeftMsbRightOperand + left_msb * from_u128 (push_bit (suffix_len div 2) (lb_as_u128 y))))"

definition left_msb_right_operand_is_zero_prefix :: "'f::comm_ring_1 checkpoints \<Rightarrow> lookup_bits \<Rightarrow> nat \<Rightarrow> 'f" where
  "left_msb_right_operand_is_zero_prefix checkpoints b suffix_len = (case lb_uninterleave b of (x, y) \<Rightarrow>
     if lb_u64 y \<noteq> 0 then 0
     else if phase_start b suffix_len = 0 then from_u64 (operand_msb x)
     else checkpoints P_LeftMsbRightOperandIsZero)"

definition overflow_bits_zero_prefix :: "'f::comm_ring_1 checkpoints \<Rightarrow> lookup_bits \<Rightarrow> nat \<Rightarrow> 'f" where
  "overflow_bits_zero_prefix checkpoints b suffix_len =
     (if phase_start b suffix_len \<ge> 128 - XLEN then checkpoints P_OverflowBitsZero
      else
        (let overflow_bits = (if suffix_len \<ge> XLEN then lb_as_u128 b else drop_bit (XLEN - suffix_len) (lb_as_u128 b)) in
         if overflow_bits \<noteq> 0 then 0 else checkpoints P_OverflowBitsZero))"

definition popcnt_prefix :: "'f::comm_ring_1 checkpoints \<Rightarrow> lookup_bits \<Rightarrow> nat \<Rightarrow> 'f" where
  "popcnt_prefix checkpoints b suffix_len = (case lb_uninterleave b of (x, _) \<Rightarrow>
     checkpoints P_Popcnt + of_nat (count_ones (lb_u64 x)))"

definition clz_prefix :: "'f::comm_ring_1 checkpoints \<Rightarrow> lookup_bits \<Rightarrow> nat \<Rightarrow> 'f" where
  "clz_prefix checkpoints b suffix_len = (case lb_uninterleave b of (x, _) \<Rightarrow>
     checkpoints P_Clz + checkpoints P_LeftOperandIsZero * from_u64 (lb_leading_zeros x))"

definition ctz_prefix :: "'f::comm_ring_1 checkpoints \<Rightarrow> lookup_bits \<Rightarrow> nat \<Rightarrow> 'f" where
  "ctz_prefix checkpoints b suffix_len = (case lb_uninterleave b of (x, _) \<Rightarrow>
     (let v = lb_u64 x in
      if v = 0 then checkpoints P_Ctz + from_u64 (of_nat (lb_len x)) else of_nat (trailing_zeros v)))"

fun default_checkpoint :: "prefixes \<Rightarrow> 'f::comm_ring_1" where
  "default_checkpoint P_Eq = 1"
| "default_checkpoint P_LeftOperandIsZero = 1"
| "default_checkpoint P_Pow2 = 1"
| "default_checkpoint P_LeftShiftHelper = 1"
| "default_checkpoint P_SignExtensionUpperHalf = 1"
| "default_checkpoint P_OverflowBitsZero = 1"
| "default_checkpoint _ = 0"

fun prefix_evaluate :: "prefixes \<Rightarrow> 'f::comm_ring_1 checkpoints \<Rightarrow> lookup_bits \<Rightarrow> nat \<Rightarrow> 'f" where
  "prefix_evaluate P_LowerWord c b n = lower_word_prefix c b n"
| "prefix_evaluate P_LowerHalfWord c b n = lower_half_word_prefix c b n"
| "prefix_evaluate P_Eq c b n = eq_prefix c b n"
| "prefix_evaluate P_And c b n = and_prefix c b n"
| "prefix_evaluate P_Andn c b n = andn_prefix c b n"
| "prefix_evaluate P_Or c b n = or_prefix c b n"
| "prefix_evaluate P_Xor c b n = xor_prefix c b n"
| "prefix_evaluate P_LessThan c b n = less_than_prefix c b n"
| "prefix_evaluate P_LeftOperandIsZero c b n = left_is_zero_prefix c b n"
| "prefix_evaluate P_LeftOperandMsb c b n = left_operand_msb_prefix c b n"
| "prefix_evaluate P_RightOperandMsb c b n = right_operand_msb_prefix c b n"
| "prefix_evaluate P_Pow2 c b n = pow2_prefix c b n"
| "prefix_evaluate P_RightShift c b n = right_shift_prefix c b n"
| "prefix_evaluate P_SignExtension c b n = sign_extension_prefix c b n"
| "prefix_evaluate P_LeftShift c b n = left_shift_prefix c b n"
| "prefix_evaluate P_LeftShiftHelper c b n = left_shift_helper_prefix c b n"
| "prefix_evaluate P_SignExtensionUpperHalf c b n = sign_extension_upper_half_prefix c b n"
| "prefix_evaluate P_RightOperand c b n = right_operand_prefix c b n"
| "prefix_evaluate P_LeftMsbRightOperand c b n = left_msb_right_operand_prefix c b n"
| "prefix_evaluate P_LeftMsbRightOperandIsZero c b n = left_msb_right_operand_is_zero_prefix c b n"
| "prefix_evaluate P_OverflowBitsZero c b n = overflow_bits_zero_prefix c b n"
| "prefix_evaluate P_Popcnt c b n = popcnt_prefix c b n"
| "prefix_evaluate P_Clz c b n = clz_prefix c b n"
| "prefix_evaluate P_Ctz c b n = ctz_prefix c b n"

section \<open>Suffixes\<close>

text \<open>\<^verbatim>\<open>unbounded_shl\<close> and \<^verbatim>\<open>unbounded_shr\<close> give zero for a count of 64 or more, as the shifts here do.\<close>

definition one_suffix :: "lookup_bits \<Rightarrow> u64" where
  "one_suffix b = 1"

definition and_suffix :: "lookup_bits \<Rightarrow> u64" where
  "and_suffix b = (case lb_uninterleave b of (x, y) \<Rightarrow> lb_u64 x AND lb_u64 y)"

definition andnot_suffix :: "lookup_bits \<Rightarrow> u64" where
  "andnot_suffix b = (case lb_uninterleave b of (x, y) \<Rightarrow> lb_u64 x AND NOT (lb_u64 y))"

definition or_suffix :: "lookup_bits \<Rightarrow> u64" where
  "or_suffix b = (case lb_uninterleave b of (x, y) \<Rightarrow> lb_u64 x OR lb_u64 y)"

definition xor_suffix :: "lookup_bits \<Rightarrow> u64" where
  "xor_suffix b = (case lb_uninterleave b of (x, y) \<Rightarrow> lb_u64 x XOR lb_u64 y)"

definition right_operand_suffix :: "lookup_bits \<Rightarrow> u64" where
  "right_operand_suffix b = (case lb_uninterleave b of (_, y) \<Rightarrow> lb_u64 y)"

definition lower_word_suffix :: "lookup_bits \<Rightarrow> u64" where
  "lower_word_suffix b = ucast (lb_as_u128 b mod push_bit XLEN 1)"

definition lower_half_word_suffix :: "lookup_bits \<Rightarrow> u64" where
  "lower_half_word_suffix b =
     (let half_word_size = XLEN div 2 in
      if half_word_size = 64 then ucast (lb_as_u128 b) else ucast (lb_as_u128 b mod push_bit half_word_size 1))"

definition lt_suffix :: "lookup_bits \<Rightarrow> u64" where
  "lt_suffix b = (case lb_uninterleave b of (x, y) \<Rightarrow> of_bool64 (lb_u64 x < lb_u64 y))"

definition eq_suffix :: "lookup_bits \<Rightarrow> u64" where
  "eq_suffix b = (case lb_uninterleave b of (x, y) \<Rightarrow> of_bool64 (lb_as_u128 x = lb_as_u128 y))"

definition left_is_zero_suffix :: "lookup_bits \<Rightarrow> u64" where
  "left_is_zero_suffix b = (case lb_uninterleave b of (x, _) \<Rightarrow> of_bool64 (lb_u64 x = 0))"

definition right_is_zero_suffix :: "lookup_bits \<Rightarrow> u64" where
  "right_is_zero_suffix b = (case lb_uninterleave b of (_, y) \<Rightarrow> of_bool64 (lb_u64 y = 0))"

definition pow2_suffix :: "lookup_bits \<Rightarrow> u64" where
  "pow2_suffix b =
     (if lb_is_empty b then 1
      else (case lb_split b log_xlen of (_, shift) \<Rightarrow> push_bit (unat (lb_u64 shift) mod 64) 1))"

definition right_shift_suffix :: "lookup_bits \<Rightarrow> u64" where
  "right_shift_suffix b = (case lb_uninterleave b of (x, y) \<Rightarrow> drop_bit (lb_trailing_zeros y) (lb_u64 x))"

definition right_shift_helper_suffix :: "lookup_bits \<Rightarrow> u64" where
  "right_shift_helper_suffix b = (case lb_uninterleave b of (_, y) \<Rightarrow> push_bit (lb_leading_ones y mod 64) 1)"

definition sign_extension_suffix :: "lookup_bits \<Rightarrow> u64" where
  "sign_extension_suffix b = (case lb_uninterleave b of (_, y) \<Rightarrow>
     (let padding_len = min (trailing_zeros (lb_u64 y)) (lb_len y) in
      ucast (push_bit XLEN 1 - push_bit (XLEN - padding_len) 1 :: u128)))"

definition left_shift_suffix :: "lookup_bits \<Rightarrow> u64" where
  "left_shift_suffix b = (case lb_uninterleave b of (x, y) \<Rightarrow>
     push_bit (lb_leading_ones y) (lb_u64 x AND NOT (lb_u64 y)))"

definition sign_extension_upper_half_suffix :: "lookup_bits \<Rightarrow> u64" where
  "sign_extension_upper_half_suffix b =
     (let half_word_size = XLEN div 2 in
      if lb_len b \<ge> half_word_size then
        (if drop_bit (half_word_size - 1) (lb_as_u128 b) AND 1 = 1
         then push_bit half_word_size (push_bit half_word_size 1 - 1) else 0)
      else 1)"

definition overflow_bits_zero_suffix :: "lookup_bits \<Rightarrow> u64" where
  "overflow_bits_zero_suffix b = of_bool64 (drop_bit XLEN (lb_as_u128 b) = 0)"

definition popcnt_suffix :: "lookup_bits \<Rightarrow> u64" where
  "popcnt_suffix b = (case lb_uninterleave b of (x, _) \<Rightarrow> of_nat (count_ones (lb_u64 x)))"

definition clz_low_suffix :: "lookup_bits \<Rightarrow> u64" where
  "clz_low_suffix b = (case lb_uninterleave b of (x, _) \<Rightarrow> lb_leading_zeros x)"

definition ctz_low_suffix :: "lookup_bits \<Rightarrow> u64" where
  "ctz_low_suffix b = (case lb_uninterleave b of (x, _) \<Rightarrow>
     (let v = lb_u64 x in if v = 0 then of_nat (lb_len x) else of_nat (trailing_zeros v)))"

fun suffix_mle :: "suffixes \<Rightarrow> lookup_bits \<Rightarrow> u64" where
  "suffix_mle S_One b = one_suffix b"
| "suffix_mle S_And b = and_suffix b"
| "suffix_mle S_AndNot b = andnot_suffix b"
| "suffix_mle S_Or b = or_suffix b"
| "suffix_mle S_Xor b = xor_suffix b"
| "suffix_mle S_RightOperand b = right_operand_suffix b"
| "suffix_mle S_LowerWord b = lower_word_suffix b"
| "suffix_mle S_LowerHalfWord b = lower_half_word_suffix b"
| "suffix_mle S_LessThan b = lt_suffix b"
| "suffix_mle S_Eq b = eq_suffix b"
| "suffix_mle S_LeftOperandIsZero b = left_is_zero_suffix b"
| "suffix_mle S_RightOperandIsZero b = right_is_zero_suffix b"
| "suffix_mle S_Pow2 b = pow2_suffix b"
| "suffix_mle S_RightShift b = right_shift_suffix b"
| "suffix_mle S_RightShiftHelper b = right_shift_helper_suffix b"
| "suffix_mle S_SignExtension b = sign_extension_suffix b"
| "suffix_mle S_LeftShift b = left_shift_suffix b"
| "suffix_mle S_SignExtensionUpperHalf b = sign_extension_upper_half_suffix b"
| "suffix_mle S_OverflowBitsZero b = overflow_bits_zero_suffix b"
| "suffix_mle S_Popcnt b = popcnt_suffix b"
| "suffix_mle S_ClzLow b = clz_low_suffix b"
| "suffix_mle S_CtzLow b = ctz_low_suffix b"

definition suffix_evaluate :: "suffixes \<Rightarrow> lookup_bits \<Rightarrow> 'f::comm_ring_1" where
  "suffix_evaluate s b = from_u64 (suffix_mle s b)"

definition is_01_valued :: "suffixes \<Rightarrow> bool" where
  "is_01_valued s \<longleftrightarrow> s \<in> {S_One, S_Eq, S_LessThan, S_LeftOperandIsZero, S_RightOperandIsZero, S_OverflowBitsZero}"

section \<open>The tables\<close>

text \<open>A table's prefixes and suffixes and their recombination; \<open>None\<close> where the number of suffix
  values is not the table's, which the slice conversion rejects.\<close>

definition range_check_prefixes :: "prefixes list" where
  "range_check_prefixes = [P_LowerWord]"

definition range_check_suffixes :: "suffixes list" where
  "range_check_suffixes = [S_One, S_LowerWord]"

definition range_check_combine :: "'f::comm_ring_1 checkpoints \<Rightarrow> 'f list \<Rightarrow> 'f option" where
  "range_check_combine p suffixes = (case suffixes of
       [one, lower_word] \<Rightarrow> Some (p P_LowerWord * one + lower_word)
     | _ \<Rightarrow> None)"

definition lower_half_word_prefixes :: "prefixes list" where
  "lower_half_word_prefixes = [P_LowerHalfWord]"

definition lower_half_word_suffixes :: "suffixes list" where
  "lower_half_word_suffixes = [S_One, S_LowerHalfWord]"

definition lower_half_word_combine :: "'f::comm_ring_1 checkpoints \<Rightarrow> 'f list \<Rightarrow> 'f option" where
  "lower_half_word_combine p suffixes = (case suffixes of
       [one, lower_half_word] \<Rightarrow> Some (p P_LowerHalfWord * one + lower_half_word)
     | _ \<Rightarrow> None)"

definition and_prefixes :: "prefixes list" where
  "and_prefixes = [P_And]"

definition and_suffixes :: "suffixes list" where
  "and_suffixes = [S_One, S_And]"

definition and_combine :: "'f::comm_ring_1 checkpoints \<Rightarrow> 'f list \<Rightarrow> 'f option" where
  "and_combine p suffixes = (case suffixes of
       [one, and_] \<Rightarrow> Some (p P_And * one + and_)
     | _ \<Rightarrow> None)"

definition andn_prefixes :: "prefixes list" where
  "andn_prefixes = [P_Andn]"

definition andn_suffixes :: "suffixes list" where
  "andn_suffixes = [S_One, S_AndNot]"

definition andn_combine :: "'f::comm_ring_1 checkpoints \<Rightarrow> 'f list \<Rightarrow> 'f option" where
  "andn_combine p suffixes = (case suffixes of
       [one, andn] \<Rightarrow> Some (p P_Andn * one + andn)
     | _ \<Rightarrow> None)"

definition or_prefixes :: "prefixes list" where
  "or_prefixes = [P_Or]"

definition or_suffixes :: "suffixes list" where
  "or_suffixes = [S_One, S_Or]"

definition or_combine :: "'f::comm_ring_1 checkpoints \<Rightarrow> 'f list \<Rightarrow> 'f option" where
  "or_combine p suffixes = (case suffixes of
       [one, or_] \<Rightarrow> Some (p P_Or * one + or_)
     | _ \<Rightarrow> None)"

definition xor_prefixes :: "prefixes list" where
  "xor_prefixes = [P_Xor]"

definition xor_suffixes :: "suffixes list" where
  "xor_suffixes = [S_One, S_Xor]"

definition xor_combine :: "'f::comm_ring_1 checkpoints \<Rightarrow> 'f list \<Rightarrow> 'f option" where
  "xor_combine p suffixes = (case suffixes of
       [one, xor_] \<Rightarrow> Some (p P_Xor * one + xor_)
     | _ \<Rightarrow> None)"

definition equal_table_prefixes :: "prefixes list" where
  "equal_table_prefixes = [P_Eq]"

definition equal_table_suffixes :: "suffixes list" where
  "equal_table_suffixes = [S_Eq]"

definition equal_combine :: "'f::comm_ring_1 checkpoints \<Rightarrow> 'f list \<Rightarrow> 'f option" where
  "equal_combine p suffixes = (case suffixes of
       [eq] \<Rightarrow> Some (p P_Eq * eq)
     | _ \<Rightarrow> None)"

definition not_equal_prefixes :: "prefixes list" where
  "not_equal_prefixes = [P_Eq]"

definition not_equal_suffixes :: "suffixes list" where
  "not_equal_suffixes = [S_One, S_Eq]"

definition not_equal_combine :: "'f::comm_ring_1 checkpoints \<Rightarrow> 'f list \<Rightarrow> 'f option" where
  "not_equal_combine p suffixes = (case suffixes of
       [one, eq] \<Rightarrow> Some (one - p P_Eq * eq)
     | _ \<Rightarrow> None)"

definition unsigned_less_than_prefixes :: "prefixes list" where
  "unsigned_less_than_prefixes = [P_LessThan, P_Eq]"

definition unsigned_less_than_suffixes :: "suffixes list" where
  "unsigned_less_than_suffixes = [S_One, S_LessThan]"

definition unsigned_less_than_combine :: "'f::comm_ring_1 checkpoints \<Rightarrow> 'f list \<Rightarrow> 'f option" where
  "unsigned_less_than_combine p suffixes = (case suffixes of
       [one, lt] \<Rightarrow> Some (p P_LessThan * one + p P_Eq * lt)
     | _ \<Rightarrow> None)"

definition signed_less_than_prefixes :: "prefixes list" where
  "signed_less_than_prefixes = [P_LeftOperandMsb, P_RightOperandMsb, P_LessThan, P_Eq]"

definition signed_less_than_suffixes :: "suffixes list" where
  "signed_less_than_suffixes = [S_One, S_LessThan]"

definition signed_less_than_combine :: "'f::comm_ring_1 checkpoints \<Rightarrow> 'f list \<Rightarrow> 'f option" where
  "signed_less_than_combine p suffixes = (case suffixes of
       [one, lt] \<Rightarrow> Some (p P_LeftOperandMsb * one - p P_RightOperandMsb * one + p P_LessThan * one + p P_Eq * lt)
     | _ \<Rightarrow> None)"

definition unsigned_greater_than_equal_prefixes :: "prefixes list" where
  "unsigned_greater_than_equal_prefixes = [P_LessThan, P_Eq]"

definition unsigned_greater_than_equal_suffixes :: "suffixes list" where
  "unsigned_greater_than_equal_suffixes = [S_One, S_LessThan]"

definition unsigned_greater_than_equal_combine :: "'f::comm_ring_1 checkpoints \<Rightarrow> 'f list \<Rightarrow> 'f option" where
  "unsigned_greater_than_equal_combine p suffixes = (case suffixes of
       [one, lt] \<Rightarrow> Some (one - p P_LessThan * one - p P_Eq * lt)
     | _ \<Rightarrow> None)"

definition signed_greater_than_equal_prefixes :: "prefixes list" where
  "signed_greater_than_equal_prefixes = [P_RightOperandMsb, P_LeftOperandMsb, P_LessThan, P_Eq]"

definition signed_greater_than_equal_suffixes :: "suffixes list" where
  "signed_greater_than_equal_suffixes = [S_One, S_LessThan]"

definition signed_greater_than_equal_combine :: "'f::comm_ring_1 checkpoints \<Rightarrow> 'f list \<Rightarrow> 'f option" where
  "signed_greater_than_equal_combine p suffixes = (case suffixes of
       [one, lt] \<Rightarrow> Some (one + p P_RightOperandMsb * one - p P_LeftOperandMsb * one - p P_LessThan * one - p P_Eq * lt)
     | _ \<Rightarrow> None)"

definition unsigned_less_than_equal_prefixes :: "prefixes list" where
  "unsigned_less_than_equal_prefixes = [P_LessThan, P_Eq]"

definition unsigned_less_than_equal_suffixes :: "suffixes list" where
  "unsigned_less_than_equal_suffixes = [S_One, S_LessThan, S_Eq]"

definition unsigned_less_than_equal_combine :: "'f::comm_ring_1 checkpoints \<Rightarrow> 'f list \<Rightarrow> 'f option" where
  "unsigned_less_than_equal_combine p suffixes = (case suffixes of
       [one, lt, eq] \<Rightarrow> Some (p P_LessThan * one + p P_Eq * lt + p P_Eq * eq)
     | _ \<Rightarrow> None)"

definition virtual_srl_prefixes :: "prefixes list" where
  "virtual_srl_prefixes = [P_RightShift]"

definition virtual_srl_suffixes :: "suffixes list" where
  "virtual_srl_suffixes = [S_RightShift, S_RightShiftHelper]"

definition virtual_srl_combine :: "'f::comm_ring_1 checkpoints \<Rightarrow> 'f list \<Rightarrow> 'f option" where
  "virtual_srl_combine p suffixes = (case suffixes of
       [right_shift, right_shift_helper] \<Rightarrow> Some (p P_RightShift * right_shift_helper + right_shift)
     | _ \<Rightarrow> None)"

definition virtual_sra_prefixes :: "prefixes list" where
  "virtual_sra_prefixes = [P_RightShift, P_LeftOperandMsb, P_SignExtension]"

definition virtual_sra_suffixes :: "suffixes list" where
  "virtual_sra_suffixes = [S_One, S_RightShift, S_RightShiftHelper, S_SignExtension]"

definition virtual_sra_combine :: "'f::comm_ring_1 checkpoints \<Rightarrow> 'f list \<Rightarrow> 'f option" where
  "virtual_sra_combine p suffixes = (case suffixes of
       [one, right_shift, right_shift_helper, sign_extension] \<Rightarrow> Some (p P_RightShift * right_shift_helper + right_shift + p P_LeftOperandMsb * sign_extension + p P_SignExtension * one)
     | _ \<Rightarrow> None)"

definition virtual_rotr_prefixes :: "prefixes list" where
  "virtual_rotr_prefixes = [P_RightShift, P_LeftShiftHelper, P_LeftShift]"

definition virtual_rotr_suffixes :: "suffixes list" where
  "virtual_rotr_suffixes = [S_RightShiftHelper, S_RightShift, S_LeftShift, S_One]"

definition virtual_rotr_combine :: "'f::comm_ring_1 checkpoints \<Rightarrow> 'f list \<Rightarrow> 'f option" where
  "virtual_rotr_combine p suffixes = (case suffixes of
       [right_shift_helper, right_shift, left_shift, one] \<Rightarrow> Some (p P_RightShift * right_shift_helper + right_shift + p P_LeftShiftHelper * left_shift + p P_LeftShift * one)
     | _ \<Rightarrow> None)"

definition virtual_negate_if_prefixes :: "prefixes list" where
  "virtual_negate_if_prefixes = [P_RightOperand, P_LeftOperandMsb, P_LeftMsbRightOperand, P_LeftMsbRightOperandIsZero]"

definition virtual_negate_if_suffixes :: "suffixes list" where
  "virtual_negate_if_suffixes = [S_One, S_RightOperand, S_RightOperandIsZero]"

definition virtual_negate_if_combine :: "'f::comm_ring_1 checkpoints \<Rightarrow> 'f list \<Rightarrow> 'f option" where
  "virtual_negate_if_combine p suffixes = (case suffixes of
       [one, right_val, right_zero] \<Rightarrow> Some ((let two_to_xlen = from_u128 (push_bit XLEN 1) in
         p P_RightOperand * one + right_val
           - from_u64 2 * (p P_LeftMsbRightOperand * one + p P_LeftOperandMsb * right_val)
           + two_to_xlen * p P_LeftOperandMsb * one
           - two_to_xlen * p P_LeftMsbRightOperandIsZero * right_zero))
     | _ \<Rightarrow> None)"

definition mulu_no_overflow_prefixes :: "prefixes list" where
  "mulu_no_overflow_prefixes = [P_OverflowBitsZero]"

definition mulu_no_overflow_suffixes :: "suffixes list" where
  "mulu_no_overflow_suffixes = [S_OverflowBitsZero]"

definition mulu_no_overflow_combine :: "'f::comm_ring_1 checkpoints \<Rightarrow> 'f list \<Rightarrow> 'f option" where
  "mulu_no_overflow_combine p suffixes = (case suffixes of
       [overflow_bits_zero] \<Rightarrow> Some (p P_OverflowBitsZero * overflow_bits_zero)
     | _ \<Rightarrow> None)"

definition pow2_prefixes :: "prefixes list" where
  "pow2_prefixes = [P_Pow2]"

definition pow2_suffixes :: "suffixes list" where
  "pow2_suffixes = [S_Pow2]"

definition pow2_combine :: "'f::comm_ring_1 checkpoints \<Rightarrow> 'f list \<Rightarrow> 'f option" where
  "pow2_combine p suffixes = (case suffixes of
       [pow2] \<Rightarrow> Some (p P_Pow2 * pow2)
     | _ \<Rightarrow> None)"

definition shift_right_bitmask_prefixes :: "prefixes list" where
  "shift_right_bitmask_prefixes = [P_Pow2]"

definition shift_right_bitmask_suffixes :: "suffixes list" where
  "shift_right_bitmask_suffixes = [S_One, S_Pow2]"

definition shift_right_bitmask_combine :: "'f::comm_ring_1 checkpoints \<Rightarrow> 'f list \<Rightarrow> 'f option" where
  "shift_right_bitmask_combine p suffixes = (case suffixes of
       [one, pow2] \<Rightarrow> Some (from_u128 (push_bit XLEN 1) * one - p P_Pow2 * pow2)
     | _ \<Rightarrow> None)"

definition sign_extend_word_prefixes :: "prefixes list" where
  "sign_extend_word_prefixes = [P_LowerHalfWord, P_SignExtensionUpperHalf]"

definition sign_extend_word_suffixes :: "suffixes list" where
  "sign_extend_word_suffixes = [S_One, S_LowerHalfWord, S_SignExtensionUpperHalf]"

definition sign_extend_word_combine :: "'f::comm_ring_1 checkpoints \<Rightarrow> 'f list \<Rightarrow> 'f option" where
  "sign_extend_word_combine p suffixes = (case suffixes of
       [one, lower_half_word, sign_extension_upper_half] \<Rightarrow> Some (p P_LowerHalfWord * one + lower_half_word + p P_SignExtensionUpperHalf * sign_extension_upper_half)
     | _ \<Rightarrow> None)"

definition clz_prefixes :: "prefixes list" where
  "clz_prefixes = [P_Clz, P_LeftOperandIsZero]"

definition clz_suffixes :: "suffixes list" where
  "clz_suffixes = [S_One, S_ClzLow]"

definition clz_combine :: "'f::comm_ring_1 checkpoints \<Rightarrow> 'f list \<Rightarrow> 'f option" where
  "clz_combine p suffixes = (case suffixes of
       [one, clz_low] \<Rightarrow> Some (p P_Clz * one + p P_LeftOperandIsZero * clz_low)
     | _ \<Rightarrow> None)"

definition ctz_prefixes :: "prefixes list" where
  "ctz_prefixes = [P_Ctz]"

definition ctz_suffixes :: "suffixes list" where
  "ctz_suffixes = [S_CtzLow, S_LeftOperandIsZero]"

definition ctz_combine :: "'f::comm_ring_1 checkpoints \<Rightarrow> 'f list \<Rightarrow> 'f option" where
  "ctz_combine p suffixes = (case suffixes of
       [ctz_low, left_is_zero] \<Rightarrow> Some (ctz_low + p P_Ctz * left_is_zero)
     | _ \<Rightarrow> None)"

definition popcnt_prefixes :: "prefixes list" where
  "popcnt_prefixes = [P_Popcnt]"

definition popcnt_suffixes :: "suffixes list" where
  "popcnt_suffixes = [S_One, S_Popcnt]"

definition popcnt_combine :: "'f::comm_ring_1 checkpoints \<Rightarrow> 'f list \<Rightarrow> 'f option" where
  "popcnt_combine p suffixes = (case suffixes of
       [one, popcnt] \<Rightarrow> Some (p P_Popcnt * one + popcnt)
     | _ \<Rightarrow> None)"

fun table_prefixes :: "wasm_table \<Rightarrow> prefixes list" where
  "table_prefixes RangeCheck = range_check_prefixes"
| "table_prefixes LowerHalfWord = lower_half_word_prefixes"
| "table_prefixes And = and_prefixes"
| "table_prefixes Andn = andn_prefixes"
| "table_prefixes Or = or_prefixes"
| "table_prefixes Xor = xor_prefixes"
| "table_prefixes Equal = equal_table_prefixes"
| "table_prefixes NotEqual = not_equal_prefixes"
| "table_prefixes UnsignedLessThan = unsigned_less_than_prefixes"
| "table_prefixes SignedLessThan = signed_less_than_prefixes"
| "table_prefixes UnsignedGreaterThanEqual = unsigned_greater_than_equal_prefixes"
| "table_prefixes SignedGreaterThanEqual = signed_greater_than_equal_prefixes"
| "table_prefixes UnsignedLessThanEqual = unsigned_less_than_equal_prefixes"
| "table_prefixes Srl = virtual_srl_prefixes"
| "table_prefixes Sra = virtual_sra_prefixes"
| "table_prefixes Rotr = virtual_rotr_prefixes"
| "table_prefixes NegateIf = virtual_negate_if_prefixes"
| "table_prefixes MulUNoOverflow = mulu_no_overflow_prefixes"
| "table_prefixes Pow2 = pow2_prefixes"
| "table_prefixes ShiftRightBitmask = shift_right_bitmask_prefixes"
| "table_prefixes SignExtendWord = sign_extend_word_prefixes"
| "table_prefixes Clz = clz_prefixes"
| "table_prefixes Ctz = ctz_prefixes"
| "table_prefixes Popcnt = popcnt_prefixes"

fun table_suffixes :: "wasm_table \<Rightarrow> suffixes list" where
  "table_suffixes RangeCheck = range_check_suffixes"
| "table_suffixes LowerHalfWord = lower_half_word_suffixes"
| "table_suffixes And = and_suffixes"
| "table_suffixes Andn = andn_suffixes"
| "table_suffixes Or = or_suffixes"
| "table_suffixes Xor = xor_suffixes"
| "table_suffixes Equal = equal_table_suffixes"
| "table_suffixes NotEqual = not_equal_suffixes"
| "table_suffixes UnsignedLessThan = unsigned_less_than_suffixes"
| "table_suffixes SignedLessThan = signed_less_than_suffixes"
| "table_suffixes UnsignedGreaterThanEqual = unsigned_greater_than_equal_suffixes"
| "table_suffixes SignedGreaterThanEqual = signed_greater_than_equal_suffixes"
| "table_suffixes UnsignedLessThanEqual = unsigned_less_than_equal_suffixes"
| "table_suffixes Srl = virtual_srl_suffixes"
| "table_suffixes Sra = virtual_sra_suffixes"
| "table_suffixes Rotr = virtual_rotr_suffixes"
| "table_suffixes NegateIf = virtual_negate_if_suffixes"
| "table_suffixes MulUNoOverflow = mulu_no_overflow_suffixes"
| "table_suffixes Pow2 = pow2_suffixes"
| "table_suffixes ShiftRightBitmask = shift_right_bitmask_suffixes"
| "table_suffixes SignExtendWord = sign_extend_word_suffixes"
| "table_suffixes Clz = clz_suffixes"
| "table_suffixes Ctz = ctz_suffixes"
| "table_suffixes Popcnt = popcnt_suffixes"

fun table_combine :: "wasm_table \<Rightarrow> 'f::comm_ring_1 checkpoints \<Rightarrow> 'f list \<Rightarrow> 'f option" where
  "table_combine RangeCheck p s = range_check_combine p s"
| "table_combine LowerHalfWord p s = lower_half_word_combine p s"
| "table_combine And p s = and_combine p s"
| "table_combine Andn p s = andn_combine p s"
| "table_combine Or p s = or_combine p s"
| "table_combine Xor p s = xor_combine p s"
| "table_combine Equal p s = equal_combine p s"
| "table_combine NotEqual p s = not_equal_combine p s"
| "table_combine UnsignedLessThan p s = unsigned_less_than_combine p s"
| "table_combine SignedLessThan p s = signed_less_than_combine p s"
| "table_combine UnsignedGreaterThanEqual p s = unsigned_greater_than_equal_combine p s"
| "table_combine SignedGreaterThanEqual p s = signed_greater_than_equal_combine p s"
| "table_combine UnsignedLessThanEqual p s = unsigned_less_than_equal_combine p s"
| "table_combine Srl p s = virtual_srl_combine p s"
| "table_combine Sra p s = virtual_sra_combine p s"
| "table_combine Rotr p s = virtual_rotr_combine p s"
| "table_combine NegateIf p s = virtual_negate_if_combine p s"
| "table_combine MulUNoOverflow p s = mulu_no_overflow_combine p s"
| "table_combine Pow2 p s = pow2_combine p s"
| "table_combine ShiftRightBitmask p s = shift_right_bitmask_combine p s"
| "table_combine SignExtendWord p s = sign_extend_word_combine p s"
| "table_combine Clz p s = clz_combine p s"
| "table_combine Ctz p s = ctz_combine p s"
| "table_combine Popcnt p s = popcnt_combine p s"

end
