(* ===== verification/Mle_Entry.thy ===== *)
theory Mle_Entry
  imports Table_Mle
begin

text \<open>
  At a point of bits, \<^verbatim>\<open>evaluate_mle\<close> of every table is its entry at the index those bits write:
  for each of the \<open>2 ^ 128\<close> indices, in any commutative ring.
\<close>

section \<open>The bits of an index\<close>

definition index_point :: "u128 \<Rightarrow> 'f::comm_ring_1 list" where
  "index_point v = bool_point (msb_bits 128 (unat v))"

lemma length_index_point [simp]: "length (index_point v) = 128"
  by (simp add: index_point_def)

lemma odd_unat_div: "odd (unat w div 2 ^ k) \<longleftrightarrow> bit w k" for w :: "'a::len word"
  by (metis bit_iff_odd bit_unsigned_iff possible_bit_def bit_imp_le_length possible_bit_nat)

lemma nth_index_point: "j < 128 \<Longrightarrow> index_point v ! j = of_bool (bit v (127 - j))"
  by (simp add: index_point_def bool_point_def nth_msb_bits odd_unat_div)

lemma nth_index_pair:
  assumes "i < 64"
  shows "index_point (interleave_bits x y) ! (2 * i) = of_bool (bit x (63 - i))"
    "index_point (interleave_bits x y) ! Suc (2 * i) = of_bool (bit y (63 - i))"
proof -
  have "127 - 2 * i = Suc (2 * (63 - i))" "127 - Suc (2 * i) = 2 * (63 - i)" using assms by auto
  then show "index_point (interleave_bits x y) ! (2 * i) = of_bool (bit x (63 - i))"
    "index_point (interleave_bits x y) ! Suc (2 * i) = of_bool (bit y (63 - i))"
    using assms by (simp_all add: nth_index_point bit_interleave)
qed

lemma unat_bits: "unat w mod 2 ^ n = (\<Sum>k<n. of_bool (bit w k) * 2 ^ k)" for w :: "'a::len word"
proof (induction n)
  case (Suc n)
  have "unat w mod 2 ^ Suc n = unat w mod 2 ^ n + of_bool (bit w n) * 2 ^ n"
    using odd_unat_div [of w n]
    by (auto simp: mod_mult2_eq [of _ "2 ^ n" 2, simplified mult.commute [of _ 2]] mod_2_eq_odd mult.commute)
  then show ?case using Suc by simp
qed simp

lemma sum_rev: "(\<Sum>i<n. f i) = (\<Sum>i<n. f (n - 1 - i))" for f :: "nat \<Rightarrow> 'a::comm_monoid_add"
  using sum.nat_diff_reindex [of f n] by simp

lemma bits_sum: "(\<Sum>i<n. 2 ^ (n - 1 - i) * of_bool (bit w (n - 1 - i))) = (of_nat (unat w mod 2 ^ n) :: 'f::comm_ring_1)"
  for w :: "'a::len word"
proof -
  have "(\<Sum>i<n. 2 ^ (n - 1 - i) * of_bool (bit w (n - 1 - i))) = (\<Sum>k<n. (2 :: 'f) ^ k * of_bool (bit w k))"
    by (rule sum_rev [symmetric])
  then show ?thesis by (simp add: unat_bits mult.commute)
qed

lemma word_bits_sum: "(\<Sum>i<64. 2 ^ (63 - i) * of_bool (bit w (63 - i))) = from_u64 w" for w :: u64
proof -
  have "unat w mod 2 ^ 64 = unat w" using unat_u64_less_numeral [of w] by simp
  then show ?thesis using bits_sum [of 64 w] by (simp add: from_u64_def)
qed

lemma fold_sum: "fold (\<lambda>i acc. acc + f i) [0..<n] a = a + (\<Sum>i<n. f i)" for a :: "'f::comm_ring_1"
  by (induction n) (simp_all add: add.assoc)

lemma fold_sum_cong:
  assumes "\<And>i a. i < n \<Longrightarrow> g i a = a + f i"
  shows "fold g [0..<n] (0 :: 'f::comm_ring_1) = (\<Sum>i<n. f i)"
proof -
  have "fold g [0..<n] 0 = fold (\<lambda>i acc. acc + f i) [0..<n] (0 :: 'f)"
    by (rule fold_cong) (auto simp: assms)
  then show ?thesis by (simp add: fold_sum)
qed

text \<open>A table that sums the bits of its entry.\<close>

lemma bitwise_table:
  assumes "\<And>i a. i < 64 \<Longrightarrow> g i a = a + 2 ^ (63 - i) * of_bool (bit w (63 - i))"
  shows "fold g [0..<64] (0 :: 'f::comm_ring_1) = from_u64 w"
  unfolding word_bits_sum [symmetric] by (rule fold_sum_cong) (rule assms)

lemma bitwise_mle:
  "and_mle (index_point (interleave_bits x y)) = from_u64 (x AND y)"
  "andn_mle (index_point (interleave_bits x y)) = from_u64 (x AND NOT y)"
  "or_mle (index_point (interleave_bits x y)) = from_u64 (x OR y)"
  "xor_mle (index_point (interleave_bits x y)) = from_u64 (x XOR y)"
  unfolding and_mle_def andn_mle_def or_mle_def xor_mle_def XLEN_def
  by (rule bitwise_table; simp add: nth_index_pair bit_simps Let_def)+

lemma index_sum:
  assumes "n \<le> 64" "\<And>i a. i < n \<Longrightarrow> g i a = a + 2 ^ (n - 1 - i) * of_bool (bit (v :: u128) (n - 1 - i))"
  shows "fold g [0..<n] (0 :: 'f::comm_ring_1) = of_nat (unat v mod 2 ^ n)"
  unfolding bits_sum [symmetric] by (rule fold_sum_cong) (rule assms(2))

lemma range_check_mle_entry: "range_check_mle (index_point v) = from_u64 (range_check_entry 64 v)"
proof -
  have "range_check_mle (index_point v) = of_nat (unat v mod 2 ^ 64)"
    unfolding range_check_mle_def XLEN_def
    by (rule index_sum) (simp_all add: nth_index_point Let_def)
  then show ?thesis by (simp add: range_check_entry_eq from_u64_def unsigned_ucast_eq take_bit_eq_mod)
qed

lemma lower_half_sum: "fold (\<lambda>i result. result + from_u64 (push_bit (32 - 1 - i) 1) * index_point v ! (64 + 32 + i)) [0..<32] 0 =
  (of_nat (unat v mod 2 ^ 32) :: 'f::comm_ring_1)"
  by (rule index_sum) (simp_all add: nth_index_point)

lemma lower_half_word_mle_entry: "lower_half_word_mle (index_point v) = from_u64 (lower_half_word_entry 64 v)"
proof -
  have "lower_half_word_mle (index_point v) = (of_nat (unat v mod 2 ^ 32) :: 'a)"
    unfolding lower_half_word_mle_def XLEN_def Let_def using lower_half_sum [of v] by simp
  moreover have "unat (lower_half_word_entry 64 v) = unat v mod 2 ^ 32"
    by (simp add: lower_half_word_entry_def unsigned_ucast_eq unat_mod take_bit_eq_mod mod_mod_cancel)
  ultimately show ?thesis by (simp add: from_u64_def)
qed

lemma popcnt_mle_entry: "popcnt_mle (index_point (interleave_bits x y)) = from_u64 (of_nat (count_ones x))"
proof -
  have "popcnt_mle (index_point (interleave_bits x y)) = (\<Sum>i<64. of_bool (bit x (63 - i)) :: 'a)"
    unfolding popcnt_mle_def XLEN_def by (rule fold_sum_cong) (simp add: nth_index_pair)
  also have "\<dots> = (\<Sum>i<64. of_bool (bit x i))" by (subst sum_rev) simp
  also have "\<dots> = of_nat (count_ones x)"
  proof -
    have "of_nat (length (filter (bit x) [0..<n])) = (\<Sum>i<n. of_bool (bit x i) :: 'a)" for n by (induction n) simp_all
    then show ?thesis by (simp add: count_ones_def)
  qed
  finally show ?thesis using count_ones_le [of x] by (simp add: from_u64_def unat_of_nat take_bit_nat_eq_self)
qed

lemma fold_prod: "fold (\<lambda>x acc. acc * f x) xs a = a * (\<Prod>x\<leftarrow>xs. f x)" for a :: "'f::comm_ring_1"
  by (induction xs arbitrary: a) (simp_all add: mult.assoc)

lemma prod_bools: "(\<Prod>b\<leftarrow>bs. of_bool (P b)) = (of_bool (\<forall>b \<in> set bs. P b) :: 'f::comm_ring_1)"
  by (induction bs) auto

lemma equal_mle_entry: "equal_mle (index_point (interleave_bits x y)) = of_bool (x = y)"
proof -
  let ?r = "index_point (interleave_bits x y) :: 'a list"
  have "equal_mle ?r = (\<Prod>i\<leftarrow>[0..<64]. ?r ! (2 * i) * ?r ! (2 * i + 1) + (1 - ?r ! (2 * i)) * (1 - ?r ! (2 * i + 1)))"
    unfolding equal_mle_def Let_def fold_prod by (simp add: comp_def)
  also have "\<dots> = (\<Prod>i\<leftarrow>[0..<64]. of_bool (bit x (63 - i) = bit y (63 - i)))"
    by (intro arg_cong [where f = prod_list] map_cong) (simp_all add: nth_index_pair)
  also have "\<dots> = of_bool (\<forall>i \<in> set [0..<64]. bit x (63 - i) = bit y (63 - i))" by (rule prod_bools)
  also have "(\<forall>i \<in> set [0..<64]. bit x (63 - i) = bit y (63 - i)) \<longleftrightarrow> x = y"
  proof
    assume a: "\<forall>i \<in> set [0..<64]. bit x (63 - i) = bit y (63 - i)"
    show "x = y"
    proof (rule bit_word_eqI)
      fix n :: nat assume "n < LENGTH(64)"
      then show "bit x n = bit y n" using a [rule_format, of "63 - n"] by simp
    qed
  qed simp
  finally show ?thesis .
qed

lemma mulu_no_overflow_mle_entry: "mulu_no_overflow_mle (index_point v) = from_u64 (mulu_no_overflow_entry 64 v)"
proof -
  have "mulu_no_overflow_mle (index_point v) = (\<Prod>r\<leftarrow>take 64 (index_point v). 1 - r :: 'a)"
    by (simp add: mulu_no_overflow_mle_def XLEN_def fold_prod)
  also have "take 64 (index_point v) = map (\<lambda>j. of_bool (bit v (127 - j)) :: 'a) [0..<64]"
    by (auto simp: nth_index_point intro!: nth_equalityI)
  also have "(\<Prod>r\<leftarrow>map (\<lambda>j. of_bool (bit v (127 - j)) :: 'a) [0..<64]. 1 - r) = (\<Prod>j\<leftarrow>[0..<64]. of_bool (\<not> bit v (127 - j)))"
    by (simp add: comp_def of_bool_not_iff)
  also have "\<dots> = of_bool (\<forall>j \<in> set [0..<64]. \<not> bit v (127 - j))" by (rule prod_bools)
  also have "(\<forall>j \<in> set [0..<64]. \<not> bit v (127 - j)) \<longleftrightarrow> drop_bit 64 v = 0"
  proof
    assume a: "\<forall>j \<in> set [0..<64]. \<not> bit v (127 - j)"
    show "drop_bit 64 v = 0"
    proof (rule bit_word_eqI)
      fix n :: nat
      show "bit (drop_bit 64 v) n = bit (0 :: u128) n"
        using a [rule_format, of "63 - n"] by (cases "n < 64") (auto simp: bit_drop_bit_eq dest: bit_imp_le_length)
    qed
  next
    assume a: "drop_bit 64 v = 0"
    show "\<forall>j \<in> set [0..<64]. \<not> bit v (127 - j)"
    proof
      fix j assume "j \<in> set [0..<64]"
      then have "127 - j = 64 + (63 - j)" by auto
      then have "bit v (127 - j) = bit (drop_bit 64 v) (63 - j)" by (simp only: bit_drop_bit_eq comp_apply)
      then show "\<not> bit v (127 - j)" by (simp add: a)
    qed
  qed
  finally show ?thesis by (simp add: mulu_no_overflow_entry_def of_bool64_def from_u64_def)
qed

section \<open>Comparisons\<close>

lemma unat_div_step: "unat w div 2 ^ n = 2 * (unat w div 2 ^ Suc n) + of_bool (bit w n)" for w :: "'a::len word"
proof -
  let ?d = "unat w div 2 ^ n"
  have "?d = 2 * (?d div 2) + ?d mod 2" by simp
  moreover have "?d div 2 = unat w div 2 ^ Suc n" by (simp only: div_mult2_eq [symmetric] power_Suc2)
  moreover have "?d mod 2 = of_bool (bit w n)" using odd_unat_div [of w n] by (simp add: mod_2_eq_odd)
  ultimately show ?thesis by metis
qed

lemma less_than_digit:
  fixes a b :: nat
  shows "2 * a + of_bool p < 2 * b + of_bool q \<longleftrightarrow> a < b \<or> a = b \<and> \<not> p \<and> q"
    "2 * a + of_bool p = 2 * b + of_bool q \<longleftrightarrow> a = b \<and> p = q"
  by (cases p; cases q; auto; presburger)+

lemma less_than_fold:
  "fold (less_than_step (index_point (interleave_bits x y))) [0..<64] (0, 1) =
     (of_bool (x < y) :: 'f::comm_ring_1, of_bool (x = y))"
proof -
  let ?d = "\<lambda>w k. unat (w :: u64) div 2 ^ (64 - k)"
  have "fold (less_than_step (index_point (interleave_bits x y))) [0..<64] (0 :: 'f, 1) =
      (of_bool (?d x 64 < ?d y 64), of_bool (?d x 64 = ?d y 64))"
  proof (rule fold_upt_invariant [where P = "\<lambda>k st. st = (of_bool (?d x k < ?d y k) :: 'f, of_bool (?d x k = ?d y k))"])
    show "(0 :: 'f, 1 :: 'f) = (of_bool (?d x 0 < ?d y 0), of_bool (?d x 0 = ?d y 0))"
      using unat_u64_less_numeral [of x] unat_u64_less_numeral [of y] by simp
    fix k :: nat and st :: "'f \<times> 'f"
    assume k: "k < 64" and st: "st = (of_bool (?d x k < ?d y k), of_bool (?d x k = ?d y k))"
    have n: "64 - k = Suc (63 - k)" "64 - Suc k = 63 - k" using k by auto
    show "less_than_step (index_point (interleave_bits x y)) k st =
        (of_bool (?d x (Suc k) < ?d y (Suc k)), of_bool (?d x (Suc k) = ?d y (Suc k)))"
      unfolding st n unat_div_step [of x "63 - k"] unat_div_step [of y "63 - k"] less_than_digit
      by (cases "bit x (63 - k)"; cases "bit y (63 - k)")
        (auto simp: less_than_step_def Let_def nth_index_pair [OF k])
  qed
  then show ?thesis by (simp add: word_less_nat_alt word_unat_eq_iff)
qed

lemma comparison_mle_entry:
  "not_equal_mle (index_point (interleave_bits x y)) = of_bool (x \<noteq> y)"
  "unsigned_less_than_mle (index_point (interleave_bits x y)) = of_bool (x < y)"
  "unsigned_greater_than_equal_mle (index_point (interleave_bits x y)) = of_bool (y \<le> x)"
  "unsigned_less_than_equal_mle (index_point (interleave_bits x y)) = of_bool (x \<le> y)"
  by (auto simp: not_equal_mle_def equal_mle_entry unsigned_less_than_mle_def unsigned_greater_than_equal_mle_def
    unsigned_less_than_equal_mle_def XLEN_def less_than_fold)

lemma sint_bit_63: "sint x = uint x - 2 ^ 64 * of_bool (bit x 63)" for x :: u64
proof -
  have r: "- (2 ^ 63) \<le> sint x" "sint x < 2 ^ 63" using sint_ge [of x] sint_lt [of x] by simp_all
  have "uint x = sint x mod 2 ^ 64" by (simp add: uint_sint take_bit_eq_mod)
  also have "\<dots> = (if sint x < 0 then sint x + 2 ^ 64 else sint x)"
    using r mod_pos_pos_trivial [of "sint x + 2 ^ 64" "2 ^ 64"] by (auto simp: mod_pos_pos_trivial)
  finally show ?thesis using bit_last_iff [of x] by (simp add: split: if_splits)
qed

lemma bit_63_iff: "bit x 63 \<longleftrightarrow> 2 ^ 63 \<le> uint x" for x :: u64
proof -
  have "unat x div 2 ^ Suc 63 = 0" using unat_u64_less_numeral [of x] by simp
  then have "unat x div 2 ^ 63 = of_bool (bit x 63)" using unat_div_step [of x 63] by simp
  moreover have "unat x div 2 ^ 63 = 0 \<longleftrightarrow> unat x < 2 ^ 63" by (simp add: div_eq_0_iff)
  ultimately have "bit x 63 \<longleftrightarrow> 2 ^ 63 \<le> unat x" by (cases "bit x 63") auto
  also have "\<dots> \<longleftrightarrow> int (2 ^ 63) \<le> int (unat x)" by (rule of_nat_le_iff [symmetric])
  finally show ?thesis by simp
qed

lemma signed_mle_entry:
  "signed_less_than_mle (index_point (interleave_bits x y)) = (of_bool (sint x < sint y) :: 'f::comm_ring_1)"
  "signed_greater_than_equal_mle (index_point (interleave_bits x y)) = (of_bool (sint y \<le> sint x) :: 'f)"
proof -
  let ?r = "index_point (interleave_bits x y) :: 'f list"
  have r: "?r ! 0 = of_bool (bit x 63)" "?r ! Suc 0 = of_bool (bit y 63)" using nth_index_pair [of 0 x y] by simp_all
  have "(of_bool (bit x 63) - of_bool (bit y 63) + of_bool (x < y) :: 'f) = of_bool (sint x < sint y)"
    using uint_lt2p [of x] uint_lt2p [of y] uint_ge_0 [of x] uint_ge_0 [of y]
    by (cases "bit x 63"; cases "bit y 63") (auto simp: sint_bit_63 word_less_def bit_63_iff, (use uint_ge_0 [of x] uint_ge_0 [of y] in linarith)+)
  then show "signed_less_than_mle ?r = of_bool (sint x < sint y)"
    by (simp add: signed_less_than_mle_def XLEN_def less_than_fold Let_def r)
  then show "signed_greater_than_equal_mle ?r = of_bool (sint y \<le> sint x)"
    by (auto simp: signed_greater_than_equal_mle_def not_less)
qed

section \<open>Zeros\<close>

lemma clz_mle_entry: "clz_mle (index_point (interleave_bits x y)) = from_u64 (of_nat (leading_zeros x))"
proof -
  let ?z = "\<lambda>k. \<forall>i < k. \<not> bit x (63 - i)"
  let ?f = "\<lambda>i (result, z). let x_i = index_point (interleave_bits x y) ! (2 * i) in
      (result + z * x_i * from_u64 (of_nat i), z * (1 - x_i)) :: 'a \<times> 'a"
  let ?st = "\<lambda>k. (if ?z k then 0 else of_nat (leading_zeros x), of_bool (?z k)) :: 'a \<times> 'a"
  have "fold ?f [0..<64] (0, 1) = ?st 64"
  proof (rule fold_upt_invariant [where P = "\<lambda>k st. st = ?st k"])
    fix k st assume k: "k < (64 :: nat)" and st: "st = ?st k"
    have "leading_zeros x = k" if "?z k" "bit x (63 - k)"
      by (rule leading_zerosI) (use k that in auto)
    then show "?f k st = ?st (Suc k)" unfolding st using k
      by (auto simp: Let_def nth_index_pair less_Suc_eq from_u64_def unat_of_nat take_bit_nat_eq_self)
  qed simp
  moreover have "leading_zeros x = 64" if "?z 64"
  proof -
    have "x = 0"
    proof (rule bit_word_eqI)
      fix n :: nat assume "n < LENGTH(64)"
      then show "bit x n = bit 0 n" using that [rule_format, of "63 - n"] by simp
    qed
    then show ?thesis by simp
  qed
  ultimately show ?thesis using leading_zeros_le [of x]
    by (auto simp: clz_mle_def XLEN_def from_u64_def unat_of_nat take_bit_nat_eq_self)
qed

lemma ctz_mle_entry: "ctz_mle (index_point (interleave_bits x y)) = from_u64 (of_nat (trailing_zeros x))"
proof -
  let ?z = "\<lambda>k. \<forall>i < k. \<not> bit x i"
  let ?f = "\<lambda>k (result, z). let x_k = index_point (interleave_bits x y) ! (2 * (64 - 1 - k)) in
      (result + z * x_k * from_u64 (of_nat k), z * (1 - x_k)) :: 'a \<times> 'a"
  let ?st = "\<lambda>k. (if ?z k then 0 else of_nat (trailing_zeros x), of_bool (?z k)) :: 'a \<times> 'a"
  have "fold ?f [0..<64] (0, 1) = ?st 64"
  proof (rule fold_upt_invariant [where P = "\<lambda>k st. st = ?st k"])
    fix k st assume k: "k < (64 :: nat)" and st: "st = ?st k"
    have "trailing_zeros x = k" if "?z k" "bit x k"
      by (rule trailing_zerosI) (use k that in auto)
    moreover have "index_point (interleave_bits x y) ! (2 * (64 - 1 - k)) = (of_bool (bit x k) :: 'a)"
      using nth_index_pair(1) [of "63 - k" x y, where 'a = 'a] k by simp
    ultimately show "?f k st = ?st (Suc k)" unfolding st using k
      by (auto simp: Let_def less_Suc_eq from_u64_def unat_of_nat take_bit_nat_eq_self)
  qed simp
  moreover have "trailing_zeros x = 64" if "?z 64"
  proof -
    have "x = 0" by (rule bit_word_eqI) (use that in auto)
    then show ?thesis by simp
  qed
  ultimately show ?thesis using trailing_zeros_le [of x]
    by (auto simp: ctz_mle_def XLEN_def from_u64_def unat_of_nat take_bit_nat_eq_self)
qed

section \<open>Shifts\<close>

lemma pop_operand: "k < 64 \<Longrightarrow> lb_pop_msb (lb_new (ucast (w :: u64)) (64 - k)) = (of_bool (bit w (63 - k)), lb_new (ucast w) (63 - k))"
proof -
  assume k: "k < 64"
  then have n: "64 - k = Suc (63 - k)" by simp
  show ?thesis unfolding n using k by (subst lb_pop_msb_new) (auto simp: bit_ucast_iff)
qed

lemma shift_steps:
  fixes x y :: u64
  assumes "k < 64"
  shows "srl_step (lb_new (ucast x) (64 - k), lb_new (ucast y) (64 - k), e) =
      (lb_new (ucast x) (63 - k), lb_new (ucast y) (63 - k),
        e * (1 + of_bool (bit y (63 - k))) + of_bool (bit x (63 - k) \<and> bit y (63 - k)))"
    "sra_step k (lb_new (ucast x) (64 - k), lb_new (ucast y) (64 - k), e, se) =
      (lb_new (ucast x) (63 - k), lb_new (ucast y) (63 - k),
        e * (1 + of_bool (bit y (63 - k))) + of_bool (bit x (63 - k) \<and> bit y (63 - k)),
        if k \<noteq> 0 \<and> \<not> bit y (63 - k) then se + push_bit k 1 else se)"
  unfolding srl_step_def sra_step_def pop_operand [OF assms] prod.case Let_def by (cases "bit x (63 - k)"; cases "bit y (63 - k)"; simp)+

text \<open>The right shifts gather the bits of \<open>x\<close> where \<open>y\<close> is set; the value after \<open>k\<close> bits is under
  \<open>2 ^ k\<close>, so the 64-bit arithmetic of the entry never wraps.\<close>

lemma srl_mle_entry: "srl_mle (index_point (interleave_bits x y)) = from_u64 (srl_entry 64 (interleave_bits x y))"
proof -
  let ?f = "\<lambda>i result. let x_i = index_point (interleave_bits x y) ! (2 * i); y_i = index_point (interleave_bits x y) ! (2 * i + 1) in
       result * (1 + y_i) + x_i * y_i :: 'a"
  let ?S = "\<lambda>k. fold (\<lambda>_. srl_step) [0..<k] (lb_new (ucast x) 64, lb_new (ucast y) 64, 0)"
  have "\<exists>N. ?S k = (lb_new (ucast x) (64 - k), lb_new (ucast y) (64 - k), of_nat N) \<and>
      fold ?f [0..<k] 0 = of_nat N \<and> N < 2 ^ k" if "k \<le> 64" for k
    using that
  proof (induction k)
    case 0
    then show ?case by (intro exI [of _ 0]) simp
  next
    case (Suc k)
    then obtain N where N: "?S k = (lb_new (ucast x) (64 - k), lb_new (ucast y) (64 - k), of_nat N)"
      "fold ?f [0..<k] 0 = of_nat N" "N < 2 ^ k" by auto
    have k: "k < 64" using Suc.prems by simp
    let ?b = "\<lambda>w :: u64. bit w (63 - k)"
    show ?case
      using N Suc.prems k
      by (intro exI [of _ "if ?b y then N * 2 + of_bool (?b x) else N"])
        (simp add: shift_steps nth_index_pair)
  qed
  from this [of 64] obtain N where N: "?S 64 = (lb_new (ucast x) 0, lb_new (ucast y) 0, of_nat N)"
    "fold ?f [0..<64] 0 = of_nat N" "N < 2 ^ 64" by auto
  then have "unat (of_nat N :: u64) = N" by (simp add: unat_of_nat take_bit_nat_eq_self)
  then show ?thesis using N(1,2) by (simp add: srl_mle_def XLEN_def srl_entry_def from_u64_def)
qed

lemma sra_mle_entry: "sra_mle (index_point (interleave_bits x y)) = from_u64 (sra_entry 64 (interleave_bits x y))"
proof -
  let ?f = "\<lambda>i (result, sign_extension). let x_i = index_point (interleave_bits x y) ! (2 * i); y_i = index_point (interleave_bits x y) ! (2 * i + 1) in
       (result * (1 + y_i) + x_i * y_i, if i \<noteq> 0 then sign_extension + from_u64 (push_bit i 1) * (1 - y_i) else sign_extension) :: 'a \<times> 'a"
  let ?S = "\<lambda>k. fold sra_step [0..<k] (lb_new (ucast x) 64, lb_new (ucast y) 64, 0, 0)"
  have "\<exists>N M. ?S k = (lb_new (ucast x) (64 - k), lb_new (ucast y) (64 - k), of_nat N, of_nat M) \<and>
      fold ?f [0..<k] (0, 0) = (of_nat N, of_nat M) \<and> N + M < 2 ^ k" if "k \<le> 64" for k
    using that
  proof (induction k)
    case 0
    then show ?case by (intro exI [of _ 0]) simp
  next
    case (Suc k)
    then obtain N M where N: "?S k = (lb_new (ucast x) (64 - k), lb_new (ucast y) (64 - k), of_nat N, of_nat M)"
      "fold ?f [0..<k] (0, 0) = (of_nat N, of_nat M)" "N + M < 2 ^ k" by auto
    have k: "k < 64" using Suc.prems by simp
    let ?b = "\<lambda>w :: u64. bit w (63 - k)"
    show ?case
      by (rule exI [of _ "if ?b y then N * 2 + of_bool (?b x) else N"], rule exI [of _ "if k \<noteq> 0 \<and> \<not> ?b y then M + 2 ^ k else M"])
        (use N Suc.prems k in \<open>(simp add: shift_steps nth_index_pair, cases "k = 0"; simp)\<close>)
  qed
  from this [of 64] obtain N M where N: "?S 64 = (lb_new (ucast x) 0, lb_new (ucast y) 0, of_nat N, of_nat M)"
    "fold ?f [0..<64] (0, 0) = (of_nat N, of_nat M)" "N + M < 2 ^ 64" by auto
  have u: "unat (of_nat K :: u64) = K" if "K \<le> N + M" for K using that N(3) by (simp add: unat_of_nat take_bit_nat_eq_self)
  have "unat (of_nat (N + M) :: u64) = N + M" "unat (of_nat N :: u64) = N" by (rule u; simp)+
  then have unat: "unat (of_nat N + of_bool64 b * of_nat M :: u64) = (if b then N + M else N)" for b
    by (cases b) (simp_all add: of_bool64_def)
  have "sra_mle (index_point (interleave_bits x y)) = (of_nat N + of_bool (bit x 63) * of_nat M :: 'a)"
    using N(2) nth_index_pair(1) [of 0 x y, where 'a = 'a] by (simp add: sra_mle_def XLEN_def)
  moreover have "sra_entry 64 (interleave_bits x y) = of_nat N + of_bool64 (bit x 63) * of_nat M"
    using N(1) by (simp add: sra_entry_def Let_def leading_ones_sign flip: neq0_conv)
  ultimately show ?thesis by (simp add: from_u64_def unat)
qed

text \<open>The rotation: the bits of \<open>x\<close> under the ones of \<open>y\<close> fill the low positions, the others the
  high ones.\<close>

lemma ucast_power_u128: "k < 64 \<Longrightarrow> (ucast (2 ^ k :: u128) :: u64) = 2 ^ k"
  by (simp add: word_unat_eq_iff unsigned_ucast_eq unat_power_2 take_bit_nat_eq_self)

lemma rotr_step_at:
  fixes x y :: u64
  assumes "j < 64" "p < 64 \<or> p = 64 \<and> bit y j"
  shows "rotr_step x y j (2 ^ p, a, b) =
    (if bit y j then (2 ^ Suc p, a * 2 + of_bool (bit x j), b)
     else (2 ^ p, a, b + of_bool (bit x j) * 2 ^ p * 2 ^ j))"
proof -
  have b: "drop_bit j w AND 1 = of_bool (bit w j)" for w :: u64
    by (auto simp: and_one_eq bit_iff_odd_drop_bit mod_2_eq_odd)
  show ?thesis using assms by (auto simp: rotr_step_def b ucast_power_u128 push_bit_eq_mult)
qed

lemma rotr_power: "p \<le> k \<Longrightarrow> k < 64 \<Longrightarrow> (2 :: 'b::comm_semiring_1) ^ p * 2 ^ (63 - k) = 2 ^ (64 - (Suc k - p))"
proof -
  assume "p \<le> k" "k < 64"
  then have "p + (63 - k) = 64 - (Suc k - p)" by simp
  then show ?thesis by (simp only: power_add [symmetric])
qed

lemma rotr_mle_entry: "rotr_mle (index_point (interleave_bits x y)) = from_u64 (rotr_entry 64 (interleave_bits x y))"
proof -
  let ?r = "index_point (interleave_bits x y) :: 'a list"
  let ?f = "\<lambda>i (prod_one_plus_y, first_sum, second_sum).
         let r_x = ?r ! (2 * i); r_y = ?r ! (2 * i + 1) in
         (prod_one_plus_y * (1 + r_y), first_sum * (1 + r_y) + r_x * r_y,
          second_sum + r_x * (1 - r_y) * prod_one_plus_y * from_u64 (push_bit (64 - 1 - i) 1))"
  let ?S = "\<lambda>k. fold (\<lambda>i. rotr_step x y (63 - i)) [0..<k] (1, 0, 0)"
  have "\<exists>p N M. ?S k = (2 ^ p, of_nat N, of_nat M) \<and> fold ?f [0..<k] (1, 0, 0) = (2 ^ p, of_nat N, of_nat M) \<and>
      p \<le> k \<and> N < 2 ^ p \<and> M + 2 ^ (64 - (k - p)) \<le> 2 ^ 64" if "k \<le> 64" for k
    using that
  proof (induction k)
    case 0
    show ?case by (rule exI [of _ 0], rule exI [of _ 0], rule exI [of _ 0]) simp
  next
    case (Suc k)
    then obtain p N M where N: "?S k = (2 ^ p, of_nat N, of_nat M)" "fold ?f [0..<k] (1, 0, 0) = (2 ^ p, of_nat N, of_nat M)"
      "p \<le> k" "N < 2 ^ p" "M + 2 ^ (64 - (k - p)) \<le> 2 ^ 64" by auto
    have k: "k < 64" using Suc.prems by simp
    have step: "?S (Suc k) = rotr_step x y (63 - k) (2 ^ p, of_nat N, of_nat M)" "fold ?f [0..<Suc k] (1, 0, 0) = ?f k (2 ^ p, of_nat N, of_nat M)"
      by (simp_all only: upt_Suc_append fold_append N comp_apply le0 fold_simps)
    have at: "rotr_step x y (63 - k) (2 ^ p, of_nat N, of_nat M) =
      (if bit y (63 - k) then (2 ^ Suc p, of_nat N * 2 + of_bool (bit x (63 - k)), of_nat M)
       else (2 ^ p, of_nat N, of_nat M + of_bool (bit x (63 - k)) * 2 ^ p * 2 ^ (63 - k)))"
      by (rule rotr_step_at) (use k N(3) in auto)
    show ?case
    proof (cases "bit y (63 - k)")
      case True
      show ?thesis unfolding step at
        by (rule exI [of _ "Suc p"], rule exI [of _ "N * 2 + of_bool (bit x (63 - k))"], rule exI [of _ M])
          (use True N(3,4,5) k in \<open>simp add: nth_index_pair\<close>)
    next
      case False
      have e: "64 - (k - p) = Suc (64 - (Suc k - p))" using N(3) k by simp
      show ?thesis unfolding step at
        by (rule exI [of _ p], rule exI [of _ N], rule exI [of _ "M + of_bool (bit x (63 - k)) * 2 ^ p * 2 ^ (63 - k)"])
          (use False N(3,4,5) k in \<open>auto simp: nth_index_pair mult.assoc rotr_power e simp del: diff_Suc_Suc\<close>)
    qed
  qed
  from this [of 64] obtain p N M where N: "?S 64 = (2 ^ p, of_nat N, of_nat M)" "fold ?f [0..<64] (1, 0, 0) = (2 ^ p, of_nat N, of_nat M)"
    "p \<le> 64" "N < 2 ^ p" "M + 2 ^ p \<le> 2 ^ 64" by auto
  have "rev [0..<64] = map (\<lambda>k. 63 - k) [0..<64]" using rev_upt_nat [of 64] by simp
  then have "fold (rotr_step x y) (rev [0..<64]) (1, 0, 0) = ?S 64" by (simp only: fold_map comp_def)
  then have "rotr_entry 64 (interleave_bits x y) = of_nat (N + M)" using N(1) by (simp add: rotr_entry_def)
  moreover have "unat (of_nat (N + M) :: u64) = N + M" using N(4,5) by (simp add: unat_of_nat take_bit_nat_eq_self del: of_nat_add)
  moreover have "rotr_mle ?r = of_nat (N + M)" using N(2) by (simp add: rotr_mle_def XLEN_def)
  ultimately show ?thesis by (simp add: from_u64_def)
qed

section \<open>The remaining tables\<close>

lemma negate_if_mle_entry:
  "negate_if_mle (index_point (interleave_bits x y)) = from_u64 (if bit x 63 then - y else y)"
proof -
  let ?r = "index_point (interleave_bits x y) :: 'a list"
  let ?f = "\<lambda>i (val, z). let bit = ?r ! (2 * i + 1) in (val + from_u128 (push_bit (64 - 1 - i) 1) * bit, z * (1 - bit)) :: 'a \<times> 'a"
  have "fold ?f [0..<k] (0, 1) = (\<Sum>i<k. 2 ^ (63 - i) * of_bool (bit y (63 - i)), of_bool (\<forall>i < k. \<not> bit y (63 - i)))"
    if "k \<le> 64" for k
    using that
  proof (induction k)
    case (Suc k)
    then show ?case by (auto simp: nth_index_pair less_Suc_eq simp del: sum_mult_of_bool_eq sum_of_bool_mult_eq)
  qed simp
  moreover have "(\<forall>i < 64. \<not> bit y (63 - i)) \<longleftrightarrow> y = 0"
  proof
    assume a: "\<forall>i < 64. \<not> bit y (63 - i)"
    show "y = 0"
    proof (rule bit_word_eqI)
      fix n :: nat assume "n < LENGTH(64)"
      then show "bit y n = bit 0 n" using a [rule_format, of "63 - n"] by simp
    qed
  qed simp
  ultimately have "fold ?f [0..<64] (0, 1) = (from_u64 y, of_bool (y = 0))"
    by (simp add: word_bits_sum del: sum_mult_of_bool_eq sum_of_bool_mult_eq)
  moreover have "?r ! 0 = of_bool (bit x 63)" using nth_index_pair(1) [of 0 x y, where 'a = 'a] by simp
  moreover have "from_u128 (push_bit 64 1) = (2 ^ 64 :: 'a)" using from_u128_power [of 64, where 'a = 'a] by (simp only: push_bit_of_1)
  moreover have "from_u64 (- y) = (if y = 0 then 0 else 2 ^ 64 - from_u64 y :: 'a)"
  proof -
    have "- y = of_nat (2 ^ 64 - unat y)" using unat_u64_less_numeral [of y] by (simp add: of_nat_diff)
    then have "unat (- y) = (2 ^ 64 - unat y) mod 2 ^ 64" by (simp only: unat_of_nat) simp
    moreover have "unat y = 0 \<longleftrightarrow> y = 0" by (simp add: unat_eq_0)
    ultimately have "unat (- y) = (if y = 0 then 0 else 2 ^ 64 - unat y)" by auto
    then show ?thesis using unat_u64_less_numeral [of y] by (simp add: from_u64_def of_nat_diff)
  qed
  ultimately show ?thesis
    by (cases "bit x 63") (auto simp: negate_if_mle_def XLEN_def Let_def from_u64_def [of 2] from_u64_def [of 0])
qed

lemma mod_Suc_bits: "n mod 2 ^ Suc k = n mod 2 ^ k + of_bool (bit n k) * 2 ^ k" for n :: nat
  using mod_mult2_eq [of n "2 ^ k" 2] by (simp add: bit_iff_odd mod_2_eq_odd mult.commute)

lemma pow2_mle_entry: "pow2_mle (index_point v) = from_u64 (pow2_entry 64 v)"
proof -
  have six: "log_xlen = 6" by (simp add: log_xlen_def XLEN_def twos.simps)
  let ?f = "\<lambda>i result. result * (1 + from_u64 (push_bit (unat (push_bit i 1 :: u32)) 1 - 1) * (index_point v ! (128 - i - 1) :: 'a))"
  have "fold ?f [0..<k] 1 = 2 ^ (unat v mod 2 ^ k)" if "k \<le> 6" for k
    using that
  proof (induction k)
    case (Suc k)
    have p: "unat (push_bit k 1 :: u32) = 2 ^ k" using Suc.prems by (simp add: unat_power_2)
    have lt: "(2 :: nat) ^ k < 64" using Suc.prems power_strict_increasing [of k 6 "2 :: nat"] by simp
    have m1: "unat (push_bit (2 ^ k) 1 - 1 :: u64) = 2 ^ 2 ^ k - 1"
      using lt unat_power_2 [of "2 ^ k", where 'a = 64] by (simp add: unat_minus_one)
    have "1 + from_u64 (push_bit (2 ^ k) 1 - 1) = (2 ^ 2 ^ k :: 'a)" by (simp only: from_u64_def m1) (simp add: of_nat_diff)
    moreover have "128 - k - 1 = 127 - k" "127 - (127 - k) = k" using Suc.prems by auto
    moreover have "unat v mod 2 ^ Suc k = unat v mod 2 ^ k + of_bool (bit v k) * 2 ^ k"
      using mod_Suc_bits [of "unat v" k] by (simp add: odd_unat_div bit_iff_odd [of "unat v"])
    ultimately show ?case using Suc p by (simp add: nth_index_point power_add)
  qed simp
  then have "pow2_mle (index_point v) = (2 ^ (unat v mod 2 ^ 6) :: 'a)"
    using six by (simp add: pow2_mle_def)
  moreover have "unat (v mod of_nat XLEN) = unat v mod 64" by (simp add: XLEN_def unat_mod)
  moreover have "unat v mod 64 < 64" by simp
  ultimately show ?thesis by (simp add: pow2_entry_def XLEN_def)
qed

lemma sum_select_index:
  "(\<Sum>s\<leftarrow>[0..<n]. g s * of_bool (s = k)) = (if k < n then g k else (0 :: 'f::comm_ring_1))"
  by (induction n) (auto simp: less_Suc_eq)

lemma shift_right_bitmask_mle_entry: "shift_right_bitmask_mle (index_point v) = from_u64 (shift_right_bitmask_entry 64 v)"
proof -
  have six: "log_xlen = 6" by (simp add: log_xlen_def XLEN_def twos.simps)
  let ?s = "unat v mod 64"
  let ?e = "\<lambda>s. fold (\<lambda>i eq_val. let bit = drop_bit i s AND 1 in
      eq_val * (if bit = 0 then 1 - drop 122 (index_point v) ! (6 - i - 1) else drop 122 (index_point v) ! (6 - i - 1))) [0..<6] (1 :: 'a)"
  have eq: "?e s = of_bool (s = ?s)" if s: "s < 64" for s
  proof -
    have "fold (\<lambda>i eq_val. let bit = drop_bit i s AND 1 in
      eq_val * (if bit = 0 then 1 - drop 122 (index_point v) ! (6 - i - 1) else drop 122 (index_point v) ! (6 - i - 1))) [0..<k] (1 :: 'a) =
      of_bool (s mod 2 ^ k = unat v mod 2 ^ k)" if "k \<le> 6" for k
      using that
    proof (induction k)
      case (Suc k)
      have r: "drop 122 (index_point v) ! (6 - k - 1) = (of_bool (bit v k) :: 'a)"
        using Suc.prems by (simp add: nth_index_point)
      have b: "drop_bit k s AND 1 = of_bool (bit s k)" by (simp add: and_one_eq bit_iff_odd drop_bit_eq_div mod_2_eq_odd)
      have "s mod 2 ^ Suc k = s mod 2 ^ k + of_bool (bit s k) * 2 ^ k"
        by (rule mod_Suc_bits)
      moreover have "unat v mod 2 ^ Suc k = unat v mod 2 ^ k + of_bool (bit v k) * 2 ^ k"
        using mod_Suc_bits [of "unat v" k] by (simp add: odd_unat_div bit_iff_odd [of "unat v"])
      moreover have "s mod 2 ^ k < 2 ^ k" "unat v mod 2 ^ k < 2 ^ k" by simp_all
      then have "s mod 2 ^ k + 2 ^ k \<noteq> unat v mod 2 ^ k" "s mod 2 ^ k \<noteq> unat v mod 2 ^ k + 2 ^ k" by linarith+
      ultimately have "s mod 2 ^ Suc k = unat v mod 2 ^ Suc k \<longleftrightarrow> s mod 2 ^ k = unat v mod 2 ^ k \<and> bit s k = bit v k"
        by (cases "bit s k"; cases "bit v k") (auto dest: sym)
      then show ?case using Suc r b by (auto simp: Let_def)
    qed simp
    from this [of 6] show ?thesis using s by simp
  qed
  let ?m = "\<lambda>s. push_bit s (push_bit (64 - s) 1 - 1) :: u128"
  have "shift_right_bitmask_mle (index_point v) = (\<Sum>s\<leftarrow>[0..<64]. from_u128 (?m s) * ?e s)"
    unfolding shift_right_bitmask_mle_def six XLEN_def Let_def by (simp cong: if_cong)
  also have "\<dots> = (\<Sum>s\<leftarrow>[0..<64]. from_u128 (?m s) * of_bool (s = ?s))"
    by (intro arg_cong [where f = sum_list] map_cong refl) (subst eq, simp, rule refl)
  also have "\<dots> = from_u128 (?m ?s)"
    using sum_select_index [of "\<lambda>s. from_u128 (?m s) :: 'a" ?s 64] by simp
  finally have "shift_right_bitmask_mle (index_point v) = (from_u128 (?m ?s) :: 'a)" .
  moreover have "unat (?m ?s) = unat (shift_right_bitmask_entry 64 v)"
  proof -
    have s: "?s < 64" by simp
    have u: "unat (v mod of_nat 64) = ?s" by (simp add: unat_mod)
    have m: "push_bit (64 - ?s) 1 - 1 = (mask (64 - ?s) :: u128)" by (simp add: mask_eq_exp_minus_1)
    have "ucast (?m ?s) = shift_right_bitmask_entry 64 v"
      unfolding shift_right_bitmask_entry_def Let_def u m
      by (rule bit_word_eqI) (auto simp: bit_simps)
    moreover have "unat (ucast (?m ?s) :: u64) = unat (?m ?s)"
    proof -
      have "?m ?s = take_bit 64 (?m ?s)" unfolding m by (rule bit_word_eqI) (use s in \<open>auto simp: bit_simps\<close>)
      then have "unat (?m ?s) = unat (take_bit 64 (?m ?s))" by (rule arg_cong)
      also have "\<dots> = take_bit 64 (unat (?m ?s))" by (rule unsigned_take_bit_eq)
      finally show ?thesis by (simp only: unsigned_ucast_eq) simp
    qed
    ultimately show ?thesis by simp
  qed
  ultimately show ?thesis by (simp only: from_u64_def from_u128_def)
qed

lemma sign_extend_word_mle_entry: "sign_extend_word_mle (index_point v) = from_u64 (sign_extend_word_entry 64 v)"
proof -
  let ?l = "unat v mod 2 ^ 32"
  define l where "l = (ucast (v mod push_bit 32 1) :: u64)"
  have ul: "unat l = ?l"
    by (simp add: l_def unsigned_ucast_eq unat_mod take_bit_eq_mod mod_mod_cancel)
  have bit: "bit l n \<longleftrightarrow> n < 32 \<and> bit v n" for n
    unfolding l_def bits_mod_push by (auto simp: bit_simps)
  have sign: "drop_bit 31 l AND 1 = 1 \<longleftrightarrow> bit v 31"
    using bit [of 31] by (simp add: bit_iff_odd_drop_bit and_one_eq odd_iff_mod_2_eq_one)
  have or: "l OR push_bit 32 (push_bit 32 1 - 1) = l + push_bit 32 (push_bit 32 1 - 1)"
  proof -
    have m: "push_bit 32 (push_bit 32 1 - 1) = (push_bit 32 (mask 32) :: u64)" by (simp add: mask_eq_exp_minus_1)
    show ?thesis unfolding m by (rule disjunctive_add_eq_or [symmetric]) (rule bit_word_eqI, simp add: bit_simps bit)
  qed
  have sum: "unat (l + push_bit 32 (push_bit 32 1 - 1)) = ?l + (2 ^ 32 - 1) * 2 ^ 32"
  proof -
    have "?l < 2 ^ 32" by simp
    then show ?thesis using ul by (simp add: unat_word_ariths)
  qed
  have upper: "fold (\<lambda>i upper_half. upper_half + from_u64 (push_bit (32 - 1 - i) 1) * b) [0..<32] 0 = (2 ^ 32 - 1) * b" for b :: 'a
  proof -
    have "fold (\<lambda>i upper_half. upper_half + from_u64 (push_bit (32 - 1 - i) 1) * b) [0..<32] 0 = (\<Sum>i<32. 2 ^ (32 - 1 - i) * b)"
      by (rule fold_sum_cong) simp
    also have "\<dots> = (\<Sum>i<32. 2 ^ i) * b" unfolding sum_distrib_right by (rule sum_rev [symmetric])
    also have "(\<Sum>i<n. 2 ^ i) = (2 :: 'a) ^ n - 1" for n by (induction n) simp_all
    finally show ?thesis .
  qed
  have p: "from_u64 (push_bit 32 1) = (2 ^ 32 :: 'a)" using from_u64_power [of 32, where 'a = 'a] by (simp only: push_bit_of_1)
  have r: "index_point v ! (64 + 32) = (of_bool (bit v 31) :: 'a)" by (simp add: nth_index_point)
  have "sign_extend_word_mle (index_point v) = (of_nat ?l + (2 ^ 32 - 1) * of_bool (bit v 31) * 2 ^ 32 :: 'a)"
    unfolding sign_extend_word_mle_def XLEN_def Let_def
    using lower_half_sum [of v, where 'f = 'a] upper [of "index_point v ! (64 + 32)"] r p by simp
  moreover have "unat (sign_extend_word_entry 64 v) = ?l + (2 ^ 32 - 1) * of_bool (bit v 31) * 2 ^ 32"
  proof -
    have "sign_extend_word_entry 64 v =
        (if drop_bit 31 l AND 1 = 1 then l OR push_bit 32 (push_bit 32 1 - 1) else l)"
      by (simp add: sign_extend_word_entry_def Let_def l_def)
    then show ?thesis by (simp only: sum sign or ul split: if_split) simp
  qed
  ultimately show ?thesis by (simp add: from_u64_def)
qed

section \<open>Every table\<close>

lemma mle_length_index: "mle_length_ok t 128"
  by (cases t) (simp_all add: XLEN_def log_xlen_def twos.simps)

lemma table_mle_value_entry: "table_mle_value t (index_point v) = (from_u64 (materialize_entry t v) :: 'f::comm_ring_1)"
proof -
  obtain x y where v: "v = interleave_bits x y" using interleave_uninterleave [of v] by metis
  have bool: "from_u64 (of_bool64 b) = (of_bool b :: 'f)" for b by (simp add: from_u64_def of_bool64_def)
  have neg: "bit x 63 \<longleftrightarrow> drop_bit 63 x = 1" by (simp add: drop_bit_63)
  show ?thesis
    by (cases t) (simp_all add: range_check_mle_entry lower_half_word_mle_entry v bitwise_mle equal_mle_entry comparison_mle_entry
        signed_mle_entry srl_mle_entry sra_mle_entry rotr_mle_entry negate_if_mle_entry mulu_no_overflow_mle_entry pow2_mle_entry
        shift_right_bitmask_mle_entry sign_extend_word_mle_entry clz_mle_entry ctz_mle_entry popcnt_mle_entry XLEN_def
        interleaved_entries bool neg)
qed

end
