(* ===== verification/Table_State.thy ===== *)
theory Table_State
  imports Table_Prefix Mle_Entry
begin

text \<open>
  The prefixes as one state that every pair of index bits updates. The update is affine in the
  state and in each of the two variables, so a prefix is a multilinear function of the bound
  variables; on the bits of a phase it is what \<^verbatim>\<open>evaluate\<close> computes from the checkpoints.
\<close>

section \<open>The update of a pair\<close>

text \<open>The \<open>i\<close>-th pair of the index, \<open>x\<close> of the left operand and \<open>y\<close> of the right one.\<close>

fun pair_update :: "nat \<Rightarrow> 'f::comm_ring_1 \<Rightarrow> 'f \<Rightarrow> 'f checkpoints \<Rightarrow> 'f checkpoints" where
  "pair_update i x y st P_LowerWord =
     (if i < 32 then st P_LowerWord else st P_LowerWord + 2 ^ (127 - 2 * i) * x + 2 ^ (126 - 2 * i) * y)"
| "pair_update i x y st P_LowerHalfWord =
     (if i < 48 then st P_LowerHalfWord else st P_LowerHalfWord + 2 ^ (127 - 2 * i) * x + 2 ^ (126 - 2 * i) * y)"
| "pair_update i x y st P_Eq = st P_Eq * (x * y + (1 - x) * (1 - y))"
| "pair_update i x y st P_And = st P_And + 2 ^ (63 - i) * (x * y)"
| "pair_update i x y st P_Andn = st P_Andn + 2 ^ (63 - i) * (x * (1 - y))"
| "pair_update i x y st P_Or = st P_Or + 2 ^ (63 - i) * (x + y - x * y)"
| "pair_update i x y st P_Xor = st P_Xor + 2 ^ (63 - i) * ((1 - x) * y + x * (1 - y))"
| "pair_update i x y st P_LessThan = st P_LessThan + st P_Eq * ((1 - x) * y)"
| "pair_update i x y st P_LeftOperandIsZero = st P_LeftOperandIsZero * (1 - x)"
| "pair_update i x y st P_LeftOperandMsb = (if i = 0 then x else st P_LeftOperandMsb)"
| "pair_update i x y st P_RightOperandMsb = (if i = 0 then y else st P_RightOperandMsb)"
| "pair_update i x y st P_Pow2 =
     (if i < 61 then st P_Pow2
      else st P_Pow2 * (1 + (2 ^ 2 ^ (127 - 2 * i) - 1) * x) * (1 + (2 ^ 2 ^ (126 - 2 * i) - 1) * y))"
| "pair_update i x y st P_RightShift = st P_RightShift * (1 + y) + x * y"
| "pair_update i x y st P_SignExtension =
     (if i = 0 then 0 else st P_SignExtension + st P_LeftOperandMsb * (2 ^ i * (1 - y)))"
| "pair_update i x y st P_LeftShift = st P_LeftShift + st P_LeftShiftHelper * (x * (1 - y) * 2 ^ (63 - i))"
| "pair_update i x y st P_LeftShiftHelper = st P_LeftShiftHelper * (1 + y)"
| "pair_update i x y st P_SignExtensionUpperHalf =
     (if i = 48 then st P_SignExtensionUpperHalf * ((2 ^ 32 - 1) * 2 ^ 32 * x) else st P_SignExtensionUpperHalf)"
| "pair_update i x y st P_RightOperand = st P_RightOperand + 2 ^ (63 - i) * y"
| "pair_update i x y st P_LeftMsbRightOperand =
     st P_LeftMsbRightOperand + (if i = 0 then x else st P_LeftOperandMsb) * (2 ^ (63 - i) * y)"
| "pair_update i x y st P_LeftMsbRightOperandIsZero =
     (if i = 0 then x else st P_LeftMsbRightOperandIsZero) * (1 - y)"
| "pair_update i x y st P_OverflowBitsZero =
     (if i < 32 then st P_OverflowBitsZero * ((1 - x) * (1 - y)) else st P_OverflowBitsZero)"
| "pair_update i x y st P_Popcnt = st P_Popcnt + x"
| "pair_update i x y st P_Clz = st P_Clz + st P_LeftOperandIsZero * (1 - x)"
| "pair_update i x y st P_Ctz = (st P_Ctz + 1) * (1 - x)"

fun run_pairs :: "nat \<Rightarrow> 'f::comm_ring_1 list \<Rightarrow> 'f checkpoints \<Rightarrow> 'f checkpoints" where
  "run_pairs i (x # y # r) st = run_pairs (Suc i) r (pair_update i x y st)"
| "run_pairs i _ st = st"

section \<open>Multilinearity\<close>

text \<open>The point of the line through two states.\<close>

definition mix :: "'f::comm_ring_1 \<Rightarrow> 'f checkpoints \<Rightarrow> 'f checkpoints \<Rightarrow> 'f checkpoints" where
  "mix s a b = (\<lambda>p. a p + s * (b p - a p))"

lemma pair_update_mix: "pair_update i x y (mix s a b) = mix s (pair_update i x y a) (pair_update i x y b)"
proof
  fix p
  show "pair_update i x y (mix s a b) p = mix s (pair_update i x y a) (pair_update i x y b) p"
    by (cases p) (simp_all add: mix_def algebra_simps)
qed

lemma pair_update_x: "pair_update i s y st = mix s (pair_update i 0 y st) (pair_update i 1 y st)"
proof
  fix p show "pair_update i s y st p = mix s (pair_update i 0 y st) (pair_update i 1 y st) p"
    by (cases p) (simp_all add: mix_def algebra_simps)
qed

lemma pair_update_y: "pair_update i x s st = mix s (pair_update i x 0 st) (pair_update i x 1 st)"
proof
  fix p show "pair_update i x s st p = mix s (pair_update i x 0 st) (pair_update i x 1 st) p"
    by (cases p) (simp_all add: mix_def algebra_simps)
qed

lemma run_pairs_mix: "run_pairs i r (mix s a b) = mix s (run_pairs i r a) (run_pairs i r b)"
proof (induction i r a arbitrary: b rule: run_pairs.induct)
  case (1 i x y r a)
  then show ?case by (simp add: pair_update_mix)
qed simp_all

text \<open>A combination of the components that is affine in the state.\<close>

definition affine_state :: "('f::comm_ring_1 checkpoints \<Rightarrow> 'f) \<Rightarrow> bool" where
  "affine_state F \<longleftrightarrow> (\<forall>s a b. F (mix s a b) = F a + s * (F b - F a))"

lemma affine_component: "affine_state (\<lambda>st. st p)"
  by (simp add: affine_state_def mix_def)

lemma run_pairs_affine:
  assumes "affine_state F"
  shows "multi_affine (2 * k) (\<lambda>r. F (run_pairs i r st))"
proof (induction k arbitrary: i st)
  case (Suc k)
  have F: "F (mix s a b) = F a + s * (F b - F a)" for s a b using assms by (simp add: affine_state_def)
  have "multi_affine (Suc (Suc (2 * k))) (\<lambda>r. F (run_pairs i r st))"
  proof (rule multi_affine_SucI)
    fix s :: 'a and r :: "'a list" assume "length r = Suc (2 * k)"
    then obtain y q where r: "r = y # q" by (cases r) auto
    show "F (run_pairs i (s # r) st) = F (run_pairs i (0 # r) st) + s * (F (run_pairs i (1 # r) st) - F (run_pairs i (0 # r) st))"
      unfolding r run_pairs.simps pair_update_x [of i s] run_pairs_mix F ..
  next
    fix x :: 'a
    show "multi_affine (Suc (2 * k)) (\<lambda>r. F (run_pairs i (x # r) st))"
    proof (rule multi_affine_SucI)
      fix s :: 'a and q :: "'a list"
      show "F (run_pairs i (x # s # q) st) =
          F (run_pairs i (x # 0 # q) st) + s * (F (run_pairs i (x # 1 # q) st) - F (run_pairs i (x # 0 # q) st))"
        unfolding run_pairs.simps pair_update_y [of i x s] run_pairs_mix F ..
      show "multi_affine (2 * k) (\<lambda>r. F (run_pairs i (x # s # r) st))" using Suc by simp
    qed
  qed
  then show ?case by simp
qed simp

lemma run_pairs_append: "even (length r) \<Longrightarrow> run_pairs i (r @ q) st = run_pairs (i + length r div 2) q (run_pairs i r st)"
  by (induction i r st rule: run_pairs.induct) auto

end
