(* ===== verification/Table_Phase.thy ===== *)
theory Table_Phase
  imports Table_State
begin

text \<open>
  On the bits of a phase, \<^verbatim>\<open>evaluate\<close> of every prefix is the run of the pair updates from the
  checkpoints.
\<close>

section \<open>The operands of a chunk\<close>

definition chunk_point :: "nat \<Rightarrow> u128 \<Rightarrow> 'f::comm_ring_1 list" where
  "chunk_point k v = bool_point (msb_bits (2 * k) (unat v))"

lemma length_chunk_point [simp]: "length (chunk_point k v) = 2 * k"
  by (simp add: chunk_point_def)

lemma chunk_point_Suc:
  assumes "k < 64"
  shows "chunk_point (Suc k) (interleave_bits x y) =
    of_bool (bit x k) # of_bool (bit y k) # chunk_point k (interleave_bits x y)"
  using assms odd_unat_div [of "interleave_bits x y" "Suc (2 * k)"] odd_unat_div [of "interleave_bits x y" "2 * k"]
  by (simp add: chunk_point_def bit_interleave)

lemma lb_u64_new: "k \<le> 64 \<Longrightarrow> lb_u64 (lb_new (ucast (x :: u64)) k) = take_bit k x"
  by (rule bit_word_eqI) (auto simp: lb_u64_def lb_as_u128_new bit_simps)

lemma lb_as_u128_operand: "k \<le> 64 \<Longrightarrow> lb_as_u128 (lb_new (ucast (x :: u64)) k) = ucast (take_bit k x)"
  by (rule bit_word_eqI) (auto simp: lb_as_u128_new bit_simps)

lemma ucast_u64_inj: "(ucast (x :: u64) :: u128) = ucast y \<longleftrightarrow> x = y"
  by (auto simp: word_unat_eq_iff unsigned_ucast_eq take_bit_nat_eq_self unat_u64_less_numeral
    intro: order_less_trans [OF unat_u64_less_numeral])

lemma take_bit_interleave:
  assumes "k \<le> 64"
  shows "uninterleave_bits (take_bit (2 * k) (interleave_bits x y)) = (take_bit k x, take_bit k y)"
proof -
  have "fst (uninterleave_bits (take_bit (2 * k) (interleave_bits x y))) = take_bit k x"
    by (rule bit_word_eqI) (auto simp: bit_uninterleave bit_interleave bit_take_bit_iff)
  moreover have "snd (uninterleave_bits (take_bit (2 * k) (interleave_bits x y))) = take_bit k y"
    by (rule bit_word_eqI) (auto simp: bit_uninterleave bit_interleave bit_take_bit_iff)
  ultimately show ?thesis by (simp add: prod_eq_iff)
qed

lemma lb_new_take: "k \<le> 64 \<Longrightarrow> lb_new (ucast (take_bit k (x :: u64))) k = lb_new (ucast x) k"
proof -
  assume k: "k \<le> 64"
  then have "take_bit k (ucast (take_bit k x) :: u128) = take_bit k (ucast x)" by (intro bit_word_eqI) (auto simp: bit_simps)
  then show ?thesis using k by (simp add: lb_new_def bits_mod_push)
qed

lemma chunk_operands:
  assumes "k \<le> 64"
  shows "lb_uninterleave (lb_new (interleave_bits x y) (2 * k)) = (lb_new (ucast x) k, lb_new (ucast y) k)"
proof -
  have t: "(if 2 * k < 128 then take_bit (2 * k) v else v) = take_bit (2 * k) v" for v :: u128
    using assms by (auto simp: not_less intro!: bit_word_eqI simp: bit_simps)
  show ?thesis using assms
    by (simp add: lb_uninterleave_def lb_as_u128_new t take_bit_interleave lb_new_take Let_def)
qed

lemma chunk_value: "k \<le> 64 \<Longrightarrow> lb_as_u128 (lb_new v (2 * k)) = take_bit (2 * k) v"
  by (auto simp: lb_as_u128_new not_less intro!: bit_word_eqI simp: bit_simps)

lemma unat_take_bit_mod: "unat (take_bit k w) = unat w mod 2 ^ k" for w :: "'a::len word"
  by (simp add: unsigned_take_bit_eq flip: take_bit_eq_mod)

lemma unat_mod_Suc: "unat w mod 2 ^ Suc k = unat w mod 2 ^ k + of_bool (bit w k) * 2 ^ k" for w :: "'a::len word"
  using mod_Suc_bits [of "unat w" k] odd_unat_div [of w k] by (simp add: bit_iff_odd [of "unat w"])

lemma unat_push_take:
  assumes "k + j \<le> LENGTH('a)"
  shows "unat (push_bit j (take_bit k w :: 'a::len word)) = unat w mod 2 ^ k * 2 ^ j"
proof -
  have "unat w mod 2 ^ k < 2 ^ k" by simp
  then have "unat w mod 2 ^ k * 2 ^ j < 2 ^ k * 2 ^ j" by (rule mult_strict_right_mono) simp
  also have "\<dots> \<le> 2 ^ LENGTH('a)" using assms by (simp only: power_add [symmetric]) (rule power_increasing; simp)
  finally have "take_bit LENGTH('a) (unat w mod 2 ^ k * 2 ^ j) = unat w mod 2 ^ k * 2 ^ j" by (rule take_bit_nat_eq_self)
  then show ?thesis by (simp only: unsigned_push_bit_eq unat_take_bit_mod) (simp add: push_bit_eq_mult)
qed

lemma from_shift:
  "k + j \<le> 64 \<Longrightarrow> from_u64 (push_bit j (take_bit k w)) = of_nat (unat w mod 2 ^ k) * 2 ^ j"
  "k + j \<le> 128 \<Longrightarrow> from_u128 (push_bit j (take_bit k v)) = of_nat (unat v mod 2 ^ k) * 2 ^ j"
  using unat_push_take [of k j w] unat_push_take [of k j v] by (simp_all add: from_u64_def from_u128_def)

lemma from_operand_shift:
  "k + j \<le> 64 \<Longrightarrow> from_u128 (push_bit j (ucast (take_bit k (w :: u64)))) = of_nat (unat w mod 2 ^ k) * 2 ^ j"
proof -
  assume k: "k + j \<le> 64"
  have "(ucast (take_bit k w) :: u128) = take_bit k (ucast w)" using k by (intro bit_word_eqI) (auto simp: bit_simps)
  moreover have "unat (ucast w :: u128) = unat w"
    using unat_u64_less_numeral [of w] by (simp add: unsigned_ucast_eq take_bit_nat_eq_self)
  ultimately show ?thesis using from_shift(2) [of k j "ucast w"] k by simp
qed

section \<open>Runs over bits\<close>

abbreviation bit_run :: "nat \<Rightarrow> u64 \<Rightarrow> u64 \<Rightarrow> nat \<Rightarrow> 'f::comm_ring_1 checkpoints \<Rightarrow> 'f checkpoints" where
  "bit_run k x y i st \<equiv> run_pairs i (chunk_point k (interleave_bits x y)) st"

lemma bit_run_0 [simp]: "bit_run 0 x y i st = st"
  by (simp add: chunk_point_def)

lemma bit_run_Suc:
  "k < 64 \<Longrightarrow> bit_run (Suc k) x y i st =
    bit_run k x y (Suc i) (pair_update i (of_bool (bit x k)) (of_bool (bit y k)) st)"
  by (simp add: chunk_point_Suc)

text \<open>A prefix that sums weighted bits.\<close>

lemma bit_run_sum:
  fixes st :: "'f::comm_ring_1 checkpoints" and g :: "'f \<Rightarrow> 'f \<Rightarrow> 'f"
  assumes "\<And>i a b (st :: 'f checkpoints). pair_update i a b st P = st P + 2 ^ (63 - i) * g a b"
    and "\<And>j. of_bool (bit w j) = g (of_bool (bit x j)) (of_bool (bit y j))"
  shows "i + k \<le> 64 \<Longrightarrow> bit_run k x y i st P = st P + of_nat (unat (w :: u64) mod 2 ^ k) * 2 ^ (64 - i - k)"
proof (induction k arbitrary: i st)
  case (Suc k)
  have e: "63 - i = k + (64 - Suc i - k)" "64 - i - Suc k = 64 - Suc i - k" using Suc.prems by auto
  have "bit_run (Suc k) x y i st P =
      st P + 2 ^ (63 - i) * of_bool (bit w k) + of_nat (unat w mod 2 ^ k) * 2 ^ (64 - Suc i - k)"
    using Suc by (simp add: bit_run_Suc assms)
  also have "\<dots> = st P + of_nat (unat w mod 2 ^ Suc k) * 2 ^ (64 - i - Suc k)"
    unfolding unat_mod_Suc e by (simp add: power_add algebra_simps)
  finally show ?case .
qed simp

lemma bit_run_bitwise:
  assumes "i + k \<le> 64"
  shows "bit_run k x y i st P_And = st P_And + of_nat (unat (x AND y) mod 2 ^ k) * 2 ^ (64 - i - k)"
    "bit_run k x y i st P_Or = st P_Or + of_nat (unat (x OR y) mod 2 ^ k) * 2 ^ (64 - i - k)"
    "bit_run k x y i st P_Xor = st P_Xor + of_nat (unat (x XOR y) mod 2 ^ k) * 2 ^ (64 - i - k)"
    "bit_run k x y i st P_RightOperand = st P_RightOperand + of_nat (unat y mod 2 ^ k) * 2 ^ (64 - i - k)"
  using assms
  by (rule bit_run_sum [where g = "\<lambda>a b. a * b", rotated 2] bit_run_sum [where g = "\<lambda>a b. a + b - a * b", rotated 2]
      bit_run_sum [where g = "\<lambda>a b. (1 - a) * b + a * (1 - b)", rotated 2] bit_run_sum [where g = "\<lambda>a b. b", rotated 2];
      auto simp: bit_simps)+

lemma bit_run_andn:
  assumes "i + k \<le> 64"
  shows "bit_run k x y i st P_Andn = st P_Andn + of_nat (unat (x AND NOT y) mod 2 ^ k) * 2 ^ (64 - i - k)"
proof -
  have "bit_run k x y i st P_Andn = st P_Andn + of_nat (unat (x AND NOT y) mod 2 ^ k) * 2 ^ (64 - i - k)"
    if "i + k \<le> 64" for i and st :: "'a checkpoints"
    using that
  proof (induction k arbitrary: i st)
    case (Suc k)
    have e: "63 - i = k + (64 - Suc i - k)" "64 - i - Suc k = 64 - Suc i - k" and k: "k < 64" using Suc.prems by auto
    have b: "bit (x AND NOT y) k \<longleftrightarrow> bit x k \<and> \<not> bit y k" using k by (simp add: bit_simps)
    have "bit_run (Suc k) x y i st P_Andn =
        st P_Andn + 2 ^ (63 - i) * of_bool (bit (x AND NOT y) k) + of_nat (unat (x AND NOT y) mod 2 ^ k) * 2 ^ (64 - Suc i - k)"
      using Suc b by (simp add: bit_run_Suc)
    also have "\<dots> = st P_Andn + of_nat (unat (x AND NOT y) mod 2 ^ Suc k) * 2 ^ (64 - i - Suc k)"
      unfolding unat_mod_Suc e by (simp add: power_add algebra_simps)
    finally show ?case .
  qed simp
  then show ?thesis using assms by blast
qed

text \<open>The comparisons and the zero tests, over the low bits of the operands.\<close>

lemma mod_Suc_iff:
  fixes x y :: u64
  shows "unat x mod 2 ^ Suc k = unat y mod 2 ^ Suc k \<longleftrightarrow> bit x k = bit y k \<and> unat x mod 2 ^ k = unat y mod 2 ^ k"
    "unat x mod 2 ^ Suc k < unat y mod 2 ^ Suc k \<longleftrightarrow>
      \<not> bit x k \<and> bit y k \<or> bit x k = bit y k \<and> unat x mod 2 ^ k < unat y mod 2 ^ k"
    "unat x mod 2 ^ Suc k = 0 \<longleftrightarrow> \<not> bit x k \<and> unat x mod 2 ^ k = 0"
proof -
  have "unat x mod 2 ^ k < 2 ^ k" "unat y mod 2 ^ k < 2 ^ k" by simp_all
  then show "unat x mod 2 ^ Suc k = unat y mod 2 ^ Suc k \<longleftrightarrow> bit x k = bit y k \<and> unat x mod 2 ^ k = unat y mod 2 ^ k"
    "unat x mod 2 ^ Suc k < unat y mod 2 ^ Suc k \<longleftrightarrow>
      \<not> bit x k \<and> bit y k \<or> bit x k = bit y k \<and> unat x mod 2 ^ k < unat y mod 2 ^ k"
    "unat x mod 2 ^ Suc k = 0 \<longleftrightarrow> \<not> bit x k \<and> unat x mod 2 ^ k = 0"
    unfolding unat_mod_Suc by (cases "bit x k"; cases "bit y k"; linarith | simp)+
qed

lemma bit_run_tests:
  fixes x y :: u64
  shows "k \<le> 64 \<Longrightarrow> bit_run k x y i st P_Eq = (if unat x mod 2 ^ k = unat y mod 2 ^ k then st P_Eq else 0)"
    "k \<le> 64 \<Longrightarrow> bit_run k x y i st P_LessThan =
      (if unat x mod 2 ^ k < unat y mod 2 ^ k then st P_LessThan + st P_Eq else st P_LessThan)"
    "k \<le> 64 \<Longrightarrow> bit_run k x y i st P_LeftOperandIsZero = (if unat x mod 2 ^ k = 0 then st P_LeftOperandIsZero else 0)"
    "0 < i \<Longrightarrow> k \<le> 64 \<Longrightarrow> bit_run k x y i st P_LeftMsbRightOperandIsZero =
      (if unat y mod 2 ^ k = 0 then st P_LeftMsbRightOperandIsZero else 0)"
proof (induction k arbitrary: i st)
  case (Suc k)
  {
    case 1
    show ?case using Suc(1) [of "Suc i"] 1 by (simp add: bit_run_Suc mod_Suc_iff del: power_Suc)
  next
    case 2
    show ?case using Suc(2) [of "Suc i"] 2 by (simp add: bit_run_Suc mod_Suc_iff del: power_Suc)
  next
    case 3
    show ?case using Suc(3) [of "Suc i"] 3 by (simp add: bit_run_Suc mod_Suc_iff del: power_Suc)
  next
    case 4
    show ?case using Suc(4) [of "Suc i"] 4 by (simp add: bit_run_Suc mod_Suc_iff [of y] del: power_Suc)
  }
qed simp_all

lemma bit_run_keep:
  fixes x y :: u64
  shows "0 < i \<Longrightarrow> k \<le> 64 \<Longrightarrow> bit_run k x y i st P_LeftOperandMsb = st P_LeftOperandMsb"
    "0 < i \<Longrightarrow> k \<le> 64 \<Longrightarrow> bit_run k x y i st P_RightOperandMsb = st P_RightOperandMsb"
    "i + k \<le> 32 \<Longrightarrow> bit_run k x y i st P_LowerWord = st P_LowerWord"
    "i + k \<le> 48 \<Longrightarrow> bit_run k x y i st P_LowerHalfWord = st P_LowerHalfWord"
    "i + k \<le> 61 \<Longrightarrow> bit_run k x y i st P_Pow2 = st P_Pow2"
    "i + k \<le> 48 \<Longrightarrow> bit_run k x y i st P_SignExtensionUpperHalf = st P_SignExtensionUpperHalf"
    "48 < i \<Longrightarrow> k \<le> 64 \<Longrightarrow> bit_run k x y i st P_SignExtensionUpperHalf = st P_SignExtensionUpperHalf"
    "32 \<le> i \<Longrightarrow> k \<le> 64 \<Longrightarrow> bit_run k x y i st P_OverflowBitsZero = st P_OverflowBitsZero"
proof (induction k arbitrary: i st)
  case (Suc k)
  {
    case 1 then show ?case using Suc(1) [of "Suc i"] by (simp add: bit_run_Suc)
  next
    case 2 then show ?case using Suc(2) [of "Suc i"] by (simp add: bit_run_Suc)
  next
    case 3 then show ?case using Suc(3) [of "Suc i"] by (simp add: bit_run_Suc)
  next
    case 4 then show ?case using Suc(4) [of "Suc i"] by (simp add: bit_run_Suc)
  next
    case 5 then show ?case using Suc(5) [of "Suc i"] by (simp add: bit_run_Suc)
  next
    case 6 then show ?case using Suc(6) [of "Suc i"] by (simp add: bit_run_Suc)
  next
    case 7 then show ?case using Suc(7) [of "Suc i"] by (simp add: bit_run_Suc)
  next
    case 8 then show ?case using Suc(8) [of "Suc i"] by (simp add: bit_run_Suc)
  }
qed simp_all

text \<open>The prefixes over the raw index bits.\<close>

lemma unat_index_mod:
  assumes "k < 64"
  shows "unat (interleave_bits x y) mod 2 ^ (2 * Suc k) =
    unat (interleave_bits x y) mod 2 ^ (2 * k) + of_bool (bit y k) * 2 ^ (2 * k) + of_bool (bit x k) * 2 ^ Suc (2 * k)"
  using assms unat_mod_Suc [of "interleave_bits x y" "Suc (2 * k)"] unat_mod_Suc [of "interleave_bits x y" "2 * k"]
  by (simp add: bit_interleave)

lemma bit_run_index:
  fixes x y :: u64 and st :: "'f::comm_ring_1 checkpoints"
  shows "32 \<le> i \<Longrightarrow> i + k \<le> 64 \<Longrightarrow> bit_run k x y i st P_LowerWord =
      st P_LowerWord + of_nat (unat (interleave_bits x y) mod 2 ^ (2 * k)) * 2 ^ (128 - 2 * i - 2 * k)"
    "48 \<le> i \<Longrightarrow> i + k \<le> 64 \<Longrightarrow> bit_run k x y i st P_LowerHalfWord =
      st P_LowerHalfWord + of_nat (unat (interleave_bits x y) mod 2 ^ (2 * k)) * 2 ^ (128 - 2 * i - 2 * k)"
    "i + k \<le> 32 \<Longrightarrow> bit_run k x y i st P_OverflowBitsZero =
      (if unat (interleave_bits x y) mod 2 ^ (2 * k) = 0 then st P_OverflowBitsZero else 0)"
proof (induction k arbitrary: i st)
  case (Suc k)
  let ?v = "interleave_bits x y"
  have sum: "a + (2 :: 'f) ^ (127 - 2 * i) * of_bool (bit x k) + 2 ^ (126 - 2 * i) * of_bool (bit y k) +
      of_nat (unat ?v mod 2 ^ (2 * k)) * 2 ^ (128 - 2 * Suc i - 2 * k) = a + of_nat (unat ?v mod 2 ^ (2 * Suc k)) * 2 ^ (128 - 2 * i - 2 * Suc k)"
    if "i + Suc k \<le> 64" for a i
  proof -
    have e: "127 - 2 * i = Suc (2 * k) + (128 - 2 * Suc i - 2 * k)" "126 - 2 * i = 2 * k + (128 - 2 * Suc i - 2 * k)" "128 - 2 * i - 2 * Suc k = (128 - 2 * Suc i - 2 * k)" using that by auto
    have k: "k < 64" using that by simp
    show ?thesis unfolding unat_index_mod [OF k] e by (simp add: power_add algebra_simps)
  qed
  {
    case 1
    then have "bit_run (Suc k) x y i st P_LowerWord = st P_LowerWord + 2 ^ (127 - 2 * i) * of_bool (bit x k) +
        2 ^ (126 - 2 * i) * of_bool (bit y k) + of_nat (unat ?v mod 2 ^ (2 * k)) * 2 ^ (128 - 2 * Suc i - 2 * k)"
      using Suc(1) [of "Suc i"] by (simp add: bit_run_Suc)
    also have "\<dots> = st P_LowerWord + of_nat (unat ?v mod 2 ^ (2 * Suc k)) * 2 ^ (128 - 2 * i - 2 * Suc k)"
      using 1 by (intro sum) simp
    finally show ?case .
  next
    case 2
    then have "bit_run (Suc k) x y i st P_LowerHalfWord = st P_LowerHalfWord + 2 ^ (127 - 2 * i) * of_bool (bit x k) +
        2 ^ (126 - 2 * i) * of_bool (bit y k) + of_nat (unat ?v mod 2 ^ (2 * k)) * 2 ^ (128 - 2 * Suc i - 2 * k)"
      using Suc(2) [of "Suc i"] by (simp add: bit_run_Suc)
    also have "\<dots> = st P_LowerHalfWord + of_nat (unat ?v mod 2 ^ (2 * Suc k)) * 2 ^ (128 - 2 * i - 2 * Suc k)"
      using 2 by (intro sum) simp
    finally show ?case .
  next
    case 3
    then have k: "k < 64" by simp
    have "unat ?v mod 2 ^ (2 * Suc k) = 0 \<longleftrightarrow> \<not> bit x k \<and> \<not> bit y k \<and> unat ?v mod 2 ^ (2 * k) = 0"
      unfolding unat_index_mod [OF k] by auto
    then show ?case using 3 Suc(3) [of "Suc i"] by (simp add: bit_run_Suc del: power_Suc mult_Suc_right)
  }
qed simp_all

text \<open>The prefixes that start with the signs.\<close>

lemma bit_run_signs:
  fixes x y :: u64
  assumes "k < 64"
  shows "bit_run (Suc k) x y 0 st P_LeftOperandMsb = of_bool (bit x k)"
    "bit_run (Suc k) x y 0 st P_RightOperandMsb = of_bool (bit y k)"
    "bit_run (Suc k) x y 0 st P_LeftMsbRightOperandIsZero = (if unat y mod 2 ^ Suc k = 0 then of_bool (bit x k) else 0)"
  using assms by (simp_all add: bit_run_Suc bit_run_keep bit_run_tests mod_Suc_iff del: power_Suc)

lemma bit_run_upper_half:
  fixes x y :: u64
  assumes "k < 16"
  shows "bit_run (Suc k) x y 48 st P_SignExtensionUpperHalf =
    st P_SignExtensionUpperHalf * ((2 ^ 32 - 1) * 2 ^ 32 * of_bool (bit x k))"
  using assms by (simp add: bit_run_Suc bit_run_keep)

lemma bit_run_left_msb_right:
  fixes x y :: u64
  shows "0 < i \<Longrightarrow> i + k \<le> 64 \<Longrightarrow> bit_run k x y i st P_LeftMsbRightOperand =
      st P_LeftMsbRightOperand + st P_LeftOperandMsb * (of_nat (unat y mod 2 ^ k) * 2 ^ (64 - i - k))"
proof (induction k arbitrary: i st)
  case (Suc k)
  have e: "63 - i = k + (64 - Suc i - k)" "64 - i - Suc k = 64 - Suc i - k" using Suc.prems by auto
  have "bit_run (Suc k) x y i st P_LeftMsbRightOperand = st P_LeftMsbRightOperand +
      st P_LeftOperandMsb * (2 ^ (63 - i) * of_bool (bit y k)) +
      st P_LeftOperandMsb * (of_nat (unat y mod 2 ^ k) * 2 ^ (64 - Suc i - k))"
    using Suc by (simp add: bit_run_Suc)
  also have "\<dots> = st P_LeftMsbRightOperand + st P_LeftOperandMsb * (of_nat (unat y mod 2 ^ Suc k) * 2 ^ (64 - i - Suc k))"
    unfolding unat_mod_Suc e by (simp add: power_add algebra_simps)
  finally show ?case .
qed simp

lemma bit_run_left_msb_right_0:
  fixes x y :: u64
  assumes "k < 64"
  shows "bit_run (Suc k) x y 0 st P_LeftMsbRightOperand =
    st P_LeftMsbRightOperand + of_bool (bit x k) * (of_nat (unat y mod 2 ^ Suc k) * 2 ^ (63 - k))"
proof -
  have e: "63 = k + (63 - k)" using assms by simp
  have "bit_run (Suc k) x y 0 st P_LeftMsbRightOperand = st P_LeftMsbRightOperand + of_bool (bit x k) * (2 ^ (k + (63 - k)) * of_bool (bit y k)) +
      of_bool (bit x k) * (of_nat (unat y mod 2 ^ k) * 2 ^ (63 - k))"
    using assms by (simp add: bit_run_Suc bit_run_left_msb_right)
  also have "\<dots> = st P_LeftMsbRightOperand + of_bool (bit x k) * (of_nat (unat y mod 2 ^ Suc k) * 2 ^ (63 - k))"
    unfolding unat_mod_Suc by (simp add: power_add algebra_simps)
  finally show ?thesis .
qed

text \<open>The power of two: the last six bits.\<close>

lemma power_bit: "(1 + (2 ^ n - 1) * of_bool b :: 'f::comm_ring_1) = 2 ^ (n * of_bool b)"
  by simp

lemma bit_run_pow2:
  fixes x y :: u64
  shows "i + k = 64 \<Longrightarrow> 3 \<le> k \<Longrightarrow>
    bit_run k x y i st P_Pow2 = st P_Pow2 * 2 ^ (unat (interleave_bits x y) mod 64)"
proof (induction k arbitrary: i st)
  case (Suc k)
  show ?case
  proof (cases "3 \<le> k")
    case True
    then show ?thesis using Suc by (simp add: bit_run_Suc)
  next
    case False
    then have k: "k = 2" "i = 61" using Suc.prems by auto
    let ?v = "interleave_bits x y"
    let ?b = "\<lambda>b n. (1 + (2 ^ 2 ^ n - 1) * of_bool b) :: 'a"
    have "bit_run 3 x y 61 st P_Pow2 =
        st P_Pow2 * ?b (bit x 2) 5 * ?b (bit y 2) 4 * (?b (bit x 1) 3) * ?b (bit y 1) 2 * ?b (bit x 0) 1 * ?b (bit y 0) 0"
    proof -
      have runs: "bit_run 3 x y j s = bit_run 2 x y (Suc j) (pair_update j (of_bool (bit x 2)) (of_bool (bit y 2)) s)"
        "bit_run 2 x y j s = bit_run (Suc 0) x y (Suc j) (pair_update j (of_bool (bit x (Suc 0))) (of_bool (bit y (Suc 0))) s)"
        "bit_run (Suc 0) x y j s = pair_update j (of_bool (bit x 0)) (of_bool (bit y 0)) s" for j and s :: "'a checkpoints"
        using bit_run_Suc [where k = 1 and i = j and x = x and y = y and st = s]
          bit_run_Suc [where k = 0 and i = j and x = x and y = y and st = s]
          bit_run_Suc [where k = 2 and i = j and x = x and y = y and st = s] by (simp_all add: numeral_2_eq_2 numeral_3_eq_3)
      show ?thesis by (simp add: runs)
    qed
    also have "\<dots> = st P_Pow2 * 2 ^ (2 ^ 5 * of_bool (bit x 2) + 2 ^ 4 * of_bool (bit y 2) + 2 ^ 3 * of_bool (bit x 1) +
        2 ^ 2 * of_bool (bit y 1) + 2 ^ 1 * of_bool (bit x 0) + 2 ^ 0 * of_bool (bit y 0))"
      unfolding power_bit by (simp only: power_add mult.assoc)
    also have "2 ^ 5 * of_bool (bit x 2) + 2 ^ 4 * of_bool (bit y 2) + 2 ^ 3 * of_bool (bit x 1) +
        2 ^ 2 * of_bool (bit y 1) + 2 ^ 1 * of_bool (bit x 0) + 2 ^ 0 * of_bool (bit y 0) = unat ?v mod 64"
      using unat_index_mod [of 0 x y] unat_index_mod [of 1 x y] unat_index_mod [of 2 x y] by simp
    finally show ?thesis unfolding k by simp
  qed
qed simp

text \<open>The prefixes that walk the bits.\<close>

lemma fold_Suc_shift: "fold f [0..<Suc k] a = fold (\<lambda>j. f (Suc j)) [0..<k] (f 0 a)"
proof -
  have "[0..<Suc k] = 0 # map Suc [0..<k]" by (simp add: map_Suc_upt upt_conv_Cons del: upt_Suc)
  then show ?thesis by (simp add: fold_map comp_def del: upt_Suc)
qed

lemma bit_of_taken: "j < k \<Longrightarrow> drop_bit j (take_bit k w) AND 1 = of_bool (bit w j)" for w :: u64
  by (simp add: and_one_eq mod_2_eq_odd flip: bit_iff_odd_drop_bit) (simp add: bit_take_bit_iff)

lemma bit_run_right_shift:
  fixes x y :: u64
  shows "k \<le> 64 \<Longrightarrow> bit_run k x y i st P_RightShift =
    fold (\<lambda>j a. if bit y (k - 1 - j) then a + a + of_bool (bit x (k - 1 - j)) else a) [0..<k] (st P_RightShift)"
proof (induction k arbitrary: i st)
  case (Suc k)
  then show ?case unfolding fold_Suc_shift by (simp add: bit_run_Suc mult.commute [of _ 2] cong: if_cong)
qed simp

lemma bit_run_left_shift:
  fixes x y :: u64
  shows "i + k \<le> 64 \<Longrightarrow> (bit_run k x y i st P_LeftShift, bit_run k x y i st P_LeftShiftHelper) =
    fold (\<lambda>j (a, p). (if \<not> bit y (k - 1 - j) \<and> bit x (k - 1 - j) then a + p * 2 ^ (63 - i - j) else a,
        if bit y (k - 1 - j) then p + p else p)) [0..<k] (st P_LeftShift, st P_LeftShiftHelper)"
proof (induction k arbitrary: i st)
  case (Suc k)
  then show ?case unfolding fold_Suc_shift by (simp add: bit_run_Suc mult.commute [of _ 2] cong: if_cong)
qed simp

lemma bit_run_sign_extension:
  fixes x y :: u64
  shows "0 < i \<Longrightarrow> k \<le> 64 \<Longrightarrow> bit_run k x y i st P_SignExtension =
    st P_SignExtension + st P_LeftOperandMsb * (\<Sum>j<k. 2 ^ (i + j) * of_bool (\<not> bit y (k - 1 - j)))"
proof (induction k arbitrary: i st)
  case (Suc k)
  then show ?case
    by (simp add: bit_run_Suc sum.lessThan_Suc_shift algebra_simps del: sum.lessThan_Suc sum_mult_of_bool_eq sum_of_bool_mult_eq)
qed simp

lemma count_take_Suc: "count_ones (take_bit (Suc k) x) = count_ones (take_bit k x) + of_bool (bit x k)" if "k < 64"
proof -
  have take: "filter (bit (take_bit n x)) [0..<64] = filter (bit x) [0..<n]" if "n \<le> 64" for n
  proof -
    have "[0..<64] = [0..<n] @ [n..<64]" using that upt_add_eq_append [of 0 n "64 - n"] by simp
    then have "filter (bit (take_bit n x)) [0..<64] = filter (bit (take_bit n x)) [0..<n] @ filter (bit (take_bit n x)) [n..<64]"
      by (simp only: filter_append)
    also have "filter (bit (take_bit n x)) [n..<64] = []" by (simp add: filter_empty_conv bit_take_bit_iff)
    also have "filter (bit (take_bit n x)) [0..<n] = filter (bit x) [0..<n]"
      by (rule filter_cong) (auto simp: bit_take_bit_iff)
    finally show ?thesis by simp
  qed
  show ?thesis using that by (simp add: count_ones_def take del: upt_rec_numeral)
qed

lemma bit_run_counts:
  fixes x y :: u64
  shows "k \<le> 64 \<Longrightarrow> bit_run k x y i st P_Popcnt = st P_Popcnt + of_nat (count_ones (take_bit k x))"
    "k \<le> 64 \<Longrightarrow> bit_run k x y i st P_LeftShiftHelper = st P_LeftShiftHelper * 2 ^ count_ones (take_bit k y)"
proof (induction k arbitrary: i st)
  case 0
  have "count_ones 0 = 0" by (simp add: count_ones_def)
  then show "bit_run 0 x y i st P_Popcnt = st P_Popcnt + of_nat (count_ones (take_bit 0 x))" 
    "bit_run 0 x y i st P_LeftShiftHelper = st P_LeftShiftHelper * 2 ^ count_ones (take_bit 0 y)" for i st by simp_all
next
  case (Suc k)
  {
    case 1
    then show ?case using Suc(1) [of "Suc i"] by (simp add: bit_run_Suc count_take_Suc)
  next
    case 2
    then show ?case using Suc(2) [of "Suc i"] by (simp add: bit_run_Suc count_take_Suc)
  }
qed

text \<open>The zeros above the first one, and below the last one, of the low bits.\<close>

fun zeros_above :: "u64 \<Rightarrow> nat \<Rightarrow> nat" where
  "zeros_above x 0 = 0"
| "zeros_above x (Suc k) = (if bit x k then 0 else Suc (zeros_above x k))"

lemma zeros_above_le: "zeros_above x k \<le> k"
  by (induction k) auto

lemma leading_zeros_take:
  "k \<le> 64 \<Longrightarrow> take_bit k x \<noteq> 0 \<Longrightarrow> leading_zeros (take_bit k x) = 64 - k + zeros_above x k"
proof (induction k)
  case (Suc k)
  show ?case
  proof (cases "bit x k")
    case True
    have "leading_zeros (take_bit (Suc k) x) = 63 - k"
      by (rule leading_zerosI) (use Suc.prems True in \<open>auto simp: bit_take_bit_iff\<close>)
    then show ?thesis using True by simp
  next
    case False
    then have "take_bit (Suc k) x = take_bit k x" by (intro bit_word_eqI) (auto simp: bit_take_bit_iff less_Suc_eq)
    then show ?thesis using False Suc by simp
  qed
qed simp

lemma taken_0_iff: "take_bit k x = 0 \<longleftrightarrow> unat x mod 2 ^ k = 0" for x :: u64
  by (simp only: unat_take_bit_mod [symmetric] unsigned_eq_0_iff)

lemma taken_0: "take_bit k x = 0 \<Longrightarrow> j < k \<Longrightarrow> \<not> bit x j" for x :: u64
proof
  assume z: "take_bit k x = 0" and j: "j < k" "bit x j"
  have "bit (take_bit k x) j" unfolding bit_take_bit_iff using j by simp
  then show False unfolding z by simp
qed

lemma zeros_above_0: "k \<le> 64 \<Longrightarrow> take_bit k x = 0 \<Longrightarrow> zeros_above x k = k"
proof (induction k)
  case (Suc k)
  have b: "\<not> bit x k" using taken_0 [OF Suc.prems(2)] by simp
  then have "take_bit (Suc k) x = take_bit k x" by (intro bit_word_eqI) (auto simp: bit_take_bit_iff less_Suc_eq)
  then show ?case using b Suc by simp
qed simp

lemma lb_leading_zeros_operand:
  assumes "k \<le> 64"
  shows "lb_leading_zeros (lb_new (ucast x) k) = of_nat (zeros_above x k)"
proof (cases "take_bit k x = 0")
  case True
  then show ?thesis using assms by (simp add: lb_leading_zeros_def lb_u64_new zeros_above_0)
next
  case False
  then have "64 - leading_zeros (take_bit k x) = k - zeros_above x k" using assms leading_zeros_take [of k x] by simp
  moreover have "(of_nat k - of_nat (k - zeros_above x k) :: u64) = of_nat (zeros_above x k)"
    using zeros_above_le [of x k] by (simp add: of_nat_diff)
  ultimately show ?thesis using False assms by (simp add: lb_leading_zeros_def lb_u64_new)
qed

lemma bit_run_clz:
  fixes x y :: u64
  shows "k \<le> 64 \<Longrightarrow> bit_run k x y i st P_Clz = st P_Clz + st P_LeftOperandIsZero * of_nat (zeros_above x k)"
proof (induction k arbitrary: i st)
  case (Suc k)
  then show ?case by (simp add: bit_run_Suc algebra_simps)
qed simp

lemma trailing_zeros_take:
  "k < 64 \<Longrightarrow> trailing_zeros (take_bit (Suc k) x) =
    (if bit x k \<and> take_bit k x = 0 then k else trailing_zeros (take_bit k x))"
proof (cases "take_bit k x = 0")
  case True
  assume k: "k < 64"
  have low: "\<not> bit x j" if "j < k" for j using taken_0 [OF True] that by simp
  show ?thesis
  proof (cases "bit x k")
    case b: True
    have "trailing_zeros (take_bit (Suc k) x) = k"
      by (rule trailing_zerosI) (use k b low in \<open>auto simp: bit_take_bit_iff\<close>)
    then show ?thesis using True b by simp
  next
    case False
    then have "take_bit (Suc k) x = take_bit k x" by (intro bit_word_eqI) (auto simp: bit_take_bit_iff less_Suc_eq)
    then show ?thesis using False by simp
  qed
next
  case False
  assume k: "k < 64"
  obtain j where j: "bit (take_bit k x) j" using False bit_word_eqI [of "take_bit k x" 0] by auto
  define m where "m = (LEAST j. bit (take_bit k x) j)"
  have m: "bit (take_bit k x) m" unfolding m_def by (rule LeastI [of _ j]) (rule j)
  have below: "\<not> bit (take_bit k x) i" if "i < m" for i using that not_less_Least unfolding m_def by blast
  have mk: "m < k" "bit x m" using m by (auto simp: bit_take_bit_iff)
  have "trailing_zeros (take_bit k x) = m" by (rule trailing_zerosI) (use mk k m below in auto)
  moreover have "trailing_zeros (take_bit (Suc k) x) = m"
    by (rule trailing_zerosI) (use mk k below in \<open>auto simp: bit_take_bit_iff\<close>)
  ultimately show ?thesis using False by simp
qed

lemma bit_run_ctz:
  fixes x y :: u64
  shows "k \<le> 64 \<Longrightarrow> bit_run k x y i st P_Ctz =
    (if take_bit k x = 0 then st P_Ctz + of_nat k else of_nat (trailing_zeros (take_bit k x)))"
proof (induction k arbitrary: i st)
  case (Suc k)
  have z: "take_bit (Suc k) x = 0 \<longleftrightarrow> \<not> bit x k \<and> take_bit k x = 0"
    by (simp only: taken_0_iff mod_Suc_iff)
  show ?case using Suc by (simp add: bit_run_Suc z trailing_zeros_take)
qed simp

section \<open>A phase\<close>

text \<open>The phases that fall on the boundaries the prefixes know: no boundary of the word, of the half
  word and of the shift bits lies inside one.\<close>

definition phase_aligned :: "nat \<Rightarrow> nat \<Rightarrow> bool" where
  "phase_aligned i k \<longleftrightarrow> 0 < k \<and> i + k \<le> 64 \<and> (i + k \<le> 32 \<or> 32 \<le> i) \<and> (i + k \<le> 48 \<or> 48 \<le> i) \<and>
     (i + k \<le> 61 \<or> i \<le> 61 \<and> i + k = 64)"

definition checkpoints_ok :: "nat \<Rightarrow> 'f::comm_ring_1 checkpoints \<Rightarrow> bool" where
  "checkpoints_ok i st \<longleftrightarrow> (i \<le> 32 \<longrightarrow> st P_LowerWord = 0) \<and>
     (i \<le> 48 \<longrightarrow> st P_LowerHalfWord = 0 \<and> st P_SignExtensionUpperHalf = 1) \<and> (i \<le> 61 \<longrightarrow> st P_Pow2 = 1)"

lemma checkpoints_ok_default: "checkpoints_ok 0 default_checkpoint"
  by (simp add: checkpoints_ok_def)

lemma checkpoints_ok_run:
  "even (length r) \<Longrightarrow> checkpoints_ok i st \<Longrightarrow> checkpoints_ok (i + length r div 2) (run_pairs i r st)"
proof (induction i r st rule: run_pairs.induct)
  case (1 i x y r st)
  then have "checkpoints_ok (Suc i) (pair_update i x y st)" by (auto simp: checkpoints_ok_def)
  then show ?case using 1 by simp
qed simp_all

lemma operand_msb_new:
  fixes x :: u64
  assumes "k < 64"
  shows "operand_msb (lb_new (ucast x) (Suc k)) = of_bool (bit x k)"
proof (rule bit_word_eqI)
  fix n :: nat
  show "bit (operand_msb (lb_new (ucast x) (Suc k))) n \<longleftrightarrow> bit (of_bool (bit x k) :: u64) n"
    using assms lb_u64_new [of "Suc k" x] by (cases n) (auto simp: operand_msb_def bit_simps)
qed

lemma from_u64_nat: "j \<le> 64 \<Longrightarrow> from_u64 (of_nat j) = of_nat j"
  by (simp only: from_u64_def unat_of_nat) (simp add: take_bit_nat_eq_self)

lemma prefix_evaluate_bits:
  assumes "phase_aligned i k"
  shows "and_prefix st (lb_new (interleave_bits x y) (2 * k)) (128 - 2 * i - 2 * k) = bit_run k x y i st P_And"
    "andn_prefix st (lb_new (interleave_bits x y) (2 * k)) (128 - 2 * i - 2 * k) = bit_run k x y i st P_Andn"
    "or_prefix st (lb_new (interleave_bits x y) (2 * k)) (128 - 2 * i - 2 * k) = bit_run k x y i st P_Or"
    "xor_prefix st (lb_new (interleave_bits x y) (2 * k)) (128 - 2 * i - 2 * k) = bit_run k x y i st P_Xor"
    "right_operand_prefix st (lb_new (interleave_bits x y) (2 * k)) (128 - 2 * i - 2 * k) = bit_run k x y i st P_RightOperand"
proof -
  have k: "k \<le> 64" "i + k \<le> 64" "k + (64 - i - k) \<le> 64" using assms by (auto simp: phase_aligned_def)
  have n: "(128 - 2 * i - 2 * k) div 2 = 64 - i - k" "(64 - i - k) mod 64 = 64 - i - k"
    using assms by (auto simp: phase_aligned_def)
  have t: "take_bit k x AND take_bit k y = take_bit k (x AND y)" "take_bit k x AND NOT (take_bit k y) = take_bit k (x AND NOT y)"
    "take_bit k x OR take_bit k y = take_bit k (x OR y)" "take_bit k x XOR take_bit k y = take_bit k (x XOR y)"
    by (rule bit_word_eqI; auto simp: bit_simps)+
  show "and_prefix st (lb_new (interleave_bits x y) (2 * k)) (128 - 2 * i - 2 * k) = bit_run k x y i st P_And"
    "andn_prefix st (lb_new (interleave_bits x y) (2 * k)) (128 - 2 * i - 2 * k) = bit_run k x y i st P_Andn"
    "or_prefix st (lb_new (interleave_bits x y) (2 * k)) (128 - 2 * i - 2 * k) = bit_run k x y i st P_Or"
    "xor_prefix st (lb_new (interleave_bits x y) (2 * k)) (128 - 2 * i - 2 * k) = bit_run k x y i st P_Xor"
    "right_operand_prefix st (lb_new (interleave_bits x y) (2 * k)) (128 - 2 * i - 2 * k) = bit_run k x y i st P_RightOperand"
    unfolding and_prefix_def andn_prefix_def or_prefix_def xor_prefix_def right_operand_prefix_def chunk_operands [OF k(1)] prod.case
      lb_u64_new [OF k(1)] lb_as_u128_operand [OF k(1)] t n from_shift(1) [OF k(3)] from_operand_shift [OF k(3)]
      bit_run_bitwise [OF k(2)] bit_run_andn [OF k(2)] by (rule refl)+
qed

lemma prefix_evaluate_tests:
  assumes "phase_aligned i k" "checkpoints_ok i st"
  shows "eq_prefix st (lb_new (interleave_bits x y) (2 * k)) (128 - 2 * i - 2 * k) = bit_run k x y i st P_Eq"
    "less_than_prefix st (lb_new (interleave_bits x y) (2 * k)) (128 - 2 * i - 2 * k) = bit_run k x y i st P_LessThan"
    "left_is_zero_prefix st (lb_new (interleave_bits x y) (2 * k)) (128 - 2 * i - 2 * k) = bit_run k x y i st P_LeftOperandIsZero"
    "popcnt_prefix st (lb_new (interleave_bits x y) (2 * k)) (128 - 2 * i - 2 * k) = bit_run k x y i st P_Popcnt"
    "clz_prefix st (lb_new (interleave_bits x y) (2 * k)) (128 - 2 * i - 2 * k) = bit_run k x y i st P_Clz"
    "ctz_prefix st (lb_new (interleave_bits x y) (2 * k)) (128 - 2 * i - 2 * k) = bit_run k x y i st P_Ctz"
proof -
  have k: "k \<le> 64" using assms(1) by (auto simp: phase_aligned_def)
  show "eq_prefix st (lb_new (interleave_bits x y) (2 * k)) (128 - 2 * i - 2 * k) = bit_run k x y i st P_Eq"
    using k by (simp add: eq_prefix_def chunk_operands lb_as_u128_operand ucast_u64_inj bit_run_tests word_unat_eq_iff unat_take_bit_mod)
  show "less_than_prefix st (lb_new (interleave_bits x y) (2 * k)) (128 - 2 * i - 2 * k) = bit_run k x y i st P_LessThan"
    using k by (simp add: less_than_prefix_def chunk_operands lb_u64_new bit_run_tests word_less_nat_alt unat_take_bit_mod)
  show "left_is_zero_prefix st (lb_new (interleave_bits x y) (2 * k)) (128 - 2 * i - 2 * k) = bit_run k x y i st P_LeftOperandIsZero"
    using k by (simp add: left_is_zero_prefix_def chunk_operands lb_u64_new bit_run_tests taken_0_iff)
  show "popcnt_prefix st (lb_new (interleave_bits x y) (2 * k)) (128 - 2 * i - 2 * k) = bit_run k x y i st P_Popcnt"
    using k by (simp add: popcnt_prefix_def chunk_operands lb_u64_new bit_run_counts)
  show "clz_prefix st (lb_new (interleave_bits x y) (2 * k)) (128 - 2 * i - 2 * k) = bit_run k x y i st P_Clz"
    unfolding clz_prefix_def chunk_operands [OF k] prod.case lb_leading_zeros_operand [OF k] bit_run_clz [OF k]
      from_u64_nat [OF order_trans [OF zeros_above_le k]] by (rule refl)
  show "ctz_prefix st (lb_new (interleave_bits x y) (2 * k)) (128 - 2 * i - 2 * k) = bit_run k x y i st P_Ctz"
    unfolding ctz_prefix_def chunk_operands [OF k] prod.case Let_def lb_u64_new [OF k] lb_len_new bit_run_ctz [OF k]
      from_u64_nat [OF k] by (rule refl)
qed

lemma prefix_evaluate_shifts:
  assumes "phase_aligned i k"
  shows "right_shift_prefix st (lb_new (interleave_bits x y) (2 * k)) (128 - 2 * i - 2 * k) = bit_run k x y i st P_RightShift"
    "left_shift_prefix st (lb_new (interleave_bits x y) (2 * k)) (128 - 2 * i - 2 * k) = bit_run k x y i st P_LeftShift"
    "left_shift_helper_prefix st (lb_new (interleave_bits x y) (2 * k)) (128 - 2 * i - 2 * k) = bit_run k x y i st P_LeftShiftHelper"
proof -
  have k: "k \<le> 64" "i + k \<le> 64" "k < 64" "phase_start (lb_new (interleave_bits x y) (2 * k)) (128 - 2 * i - 2 * k) = 2 * i"
    using assms by (auto simp: phase_aligned_def phase_start_def XLEN_def)
  have one: "(of_bool b = (1 :: u64)) = b" "(of_bool b = (0 :: u64)) = (\<not> b)" "from_u64 (of_bool b) = of_bool b" for b
    by (simp_all add: from_u64_def)
  have bits: "drop_bit (k - 1 - j) (take_bit k w) AND 1 = of_bool (bit w (k - 1 - j))" if "j < k" for j and w :: u64
    by (rule bit_of_taken) (use that in simp)
  show "right_shift_prefix st (lb_new (interleave_bits x y) (2 * k)) (128 - 2 * i - 2 * k) = bit_run k x y i st P_RightShift"
    unfolding right_shift_prefix_def chunk_operands [OF k(1)] prod.case Let_def lb_u64_new [OF k(1)] lb_len_new bit_run_right_shift [OF k(1)]
    by (rule fold_cong) (auto simp only: bits one set_upt atLeastLessThan_iff)
  show "left_shift_helper_prefix st (lb_new (interleave_bits x y) (2 * k)) (128 - 2 * i - 2 * k) = bit_run k x y i st P_LeftShiftHelper"
  proof -
    have "filter (bit (take_bit k y)) [0..<64] = filter (bit (take_bit k y)) ([0..<k] @ [k..<64])"
      using k(1) upt_add_eq_append [of 0 k "64 - k"] by (simp del: upt_rec_numeral)
    also have "\<dots> = filter (bit (take_bit k y)) [0..<k]" by (simp add: filter_empty_conv bit_take_bit_iff)
    finally have "count_ones (take_bit k y) \<le> k"
      using length_filter_le [of "bit (take_bit k y)" "[0..<k]"] by (simp add: count_ones_def del: upt_rec_numeral)
    then show ?thesis using k(1,3)
      by (simp add: left_shift_helper_prefix_def chunk_operands lb_u64_new bit_run_counts)
  qed
  have "left_shift_prefix st (lb_new (interleave_bits x y) (2 * k)) (128 - 2 * i - 2 * k) =
    fst (fold (\<lambda>j (a, p). (if \<not> bit y (k - 1 - j) \<and> bit x (k - 1 - j) then a + p * 2 ^ (63 - i - j) else a,
        if bit y (k - 1 - j) then p + p else p)) [0..<k] (st P_LeftShift, st P_LeftShiftHelper))"
    unfolding left_shift_prefix_def chunk_operands [OF k(1)] prod.case Let_def lb_u64_new [OF k(1)] lb_len_new k(4) XLEN_def
    by (intro arg_cong [where f = fst] fold_cong ext) (auto simp: bits one split: prod.split simp del: One_nat_def diff_diff_left)
  also have "\<dots> = bit_run k x y i st P_LeftShift" unfolding bit_run_left_shift [OF k(2), symmetric] by simp
  finally show "left_shift_prefix st (lb_new (interleave_bits x y) (2 * k)) (128 - 2 * i - 2 * k) = bit_run k x y i st P_LeftShift" .
qed


lemma phase_facts:
  assumes "phase_aligned i k"
  shows "k \<le> 64" "i + k \<le> 64" "0 < k" "(128 - 2 * i - 2 * k) mod 128 = 128 - 2 * i - 2 * k"
    "2 * k + (128 - 2 * i - 2 * k) \<le> 128" "phase_start (lb_new (interleave_bits x y) (2 * k)) (128 - 2 * i - 2 * k) = 2 * i"
    "(128 - 2 * i - 2 * k) div 2 = 64 - i - k" "k + (64 - i - k) \<le> 64"
  using assms by (auto simp: phase_aligned_def phase_start_def XLEN_def)

lemma prefix_evaluate_words:
  assumes "phase_aligned i k" "checkpoints_ok i st"
  shows "lower_word_prefix st (lb_new (interleave_bits x y) (2 * k)) (128 - 2 * i - 2 * k) = bit_run k x y i st P_LowerWord"
    "lower_half_word_prefix st (lb_new (interleave_bits x y) (2 * k)) (128 - 2 * i - 2 * k) = bit_run k x y i st P_LowerHalfWord"
proof -
  note f = phase_facts [OF assms(1)]
  show "lower_word_prefix st (lb_new (interleave_bits x y) (2 * k)) (128 - 2 * i - 2 * k) = bit_run k x y i st P_LowerWord"
  proof (cases "i < 32")
    case True
    then show ?thesis using assms unfolding lower_word_prefix_def f(6)
      by (simp add: XLEN_def bit_run_keep phase_aligned_def checkpoints_ok_def)
  next
    case False
    then show ?thesis using f bit_run_index(1) [of i k x y st]
      by (simp add: lower_word_prefix_def XLEN_def chunk_value from_shift(2) del: mult_Suc_right)
  qed
  show "lower_half_word_prefix st (lb_new (interleave_bits x y) (2 * k)) (128 - 2 * i - 2 * k) = bit_run k x y i st P_LowerHalfWord"
  proof (cases "i < 48")
    case True
    then show ?thesis using assms unfolding lower_half_word_prefix_def f(6)
      by (simp add: XLEN_def bit_run_keep phase_aligned_def checkpoints_ok_def)
  next
    case False
    then show ?thesis using f bit_run_index(2) [of i k x y st]
      by (simp add: lower_half_word_prefix_def XLEN_def chunk_value from_shift(2) del: mult_Suc_right)
  qed
qed

lemma from_u64_of_bool: "from_u64 (of_bool b) = of_bool b"
  by (simp add: from_u64_def)

lemma prefix_evaluate_signs:
  assumes "phase_aligned i k"
  shows "left_operand_msb_prefix st (lb_new (interleave_bits x y) (2 * k)) (128 - 2 * i - 2 * k) = bit_run k x y i st P_LeftOperandMsb"
    "right_operand_msb_prefix st (lb_new (interleave_bits x y) (2 * k)) (128 - 2 * i - 2 * k) = bit_run k x y i st P_RightOperandMsb"
    "left_msb_right_operand_prefix st (lb_new (interleave_bits x y) (2 * k)) (128 - 2 * i - 2 * k) = bit_run k x y i st P_LeftMsbRightOperand"
    "left_msb_right_operand_is_zero_prefix st (lb_new (interleave_bits x y) (2 * k)) (128 - 2 * i - 2 * k) =
      bit_run k x y i st P_LeftMsbRightOperandIsZero"
proof -
  note f = phase_facts [OF assms(1)]
  obtain m where m: "k = Suc m" "m < 64" using f by (cases k) auto
  note unfold = left_operand_msb_prefix_def right_operand_msb_prefix_def left_msb_right_operand_prefix_def
    left_msb_right_operand_is_zero_prefix_def f(6) f(7) chunk_operands [OF f(1)] prod.case Let_def
    lb_u64_new [OF f(1)] lb_as_u128_operand [OF f(1)] from_operand_shift [OF f(8)]
  show "left_operand_msb_prefix st (lb_new (interleave_bits x y) (2 * k)) (128 - 2 * i - 2 * k) = bit_run k x y i st P_LeftOperandMsb"
    unfolding unfold using m f by (cases i) (simp_all add: bit_run_signs bit_run_keep operand_msb_new from_u64_of_bool)
  show "right_operand_msb_prefix st (lb_new (interleave_bits x y) (2 * k)) (128 - 2 * i - 2 * k) = bit_run k x y i st P_RightOperandMsb"
    unfolding unfold using m f by (cases i) (simp_all add: bit_run_signs bit_run_keep operand_msb_new from_u64_of_bool)
  show "left_msb_right_operand_prefix st (lb_new (interleave_bits x y) (2 * k)) (128 - 2 * i - 2 * k) = bit_run k x y i st P_LeftMsbRightOperand"
    unfolding unfold using m f bit_run_left_msb_right [of i k x y st] bit_run_left_msb_right_0 [of m x y st]
    by (cases i) (simp_all add: operand_msb_new from_u64_of_bool del: power_Suc)
  show "left_msb_right_operand_is_zero_prefix st (lb_new (interleave_bits x y) (2 * k)) (128 - 2 * i - 2 * k) =
      bit_run k x y i st P_LeftMsbRightOperandIsZero"
    unfolding unfold using m f bit_run_tests(4) [of i k x y st] bit_run_signs(3) [of m x y st]
    by (cases i) (simp_all add: operand_msb_new from_u64_of_bool taken_0_iff del: power_Suc)
qed

lemma fold_bits:
  "n < 64 \<Longrightarrow> unat (fold (\<lambda>i s. if P i then s + push_bit i 1 else s) [1..<Suc n] (0 :: u64)) =
      (\<Sum>j<n. 2 ^ Suc j * of_bool (P (Suc j))) \<and> (\<Sum>j<n. 2 ^ Suc j * of_bool (P (Suc j))) < (2 :: nat) ^ Suc n"
proof (induction n)
  case (Suc n)
  let ?w = "fold (\<lambda>i s. if P i then s + push_bit i 1 else s) [1..<Suc n] (0 :: u64)"
  let ?s = "\<Sum>j<n. 2 ^ Suc j * of_bool (P (Suc j)) :: nat"
  have u: "unat ?w = ?s" and l: "?s < 2 ^ Suc n" using Suc by auto
  have "(2 :: nat) ^ Suc (Suc n) \<le> 2 ^ 64" using Suc.prems by (intro power_increasing) auto
  then have b: "?s + 2 ^ Suc n < 2 ^ 64" using l by simp
  have p: "unat (push_bit (Suc n) 1 :: u64) = 2 ^ Suc n"
    using Suc.prems unat_power_2 [of "Suc n", where 'a = 64] by (simp only: push_bit_of_1) simp
  have plus: "unat (a + c) = unat a + unat c" if "unat a + unat c < 2 ^ 64" for a c :: u64
    using that by (simp add: unat_word_ariths take_bit_nat_eq_self)
  have w: "unat (?w + push_bit (Suc n) 1) = ?s + 2 ^ Suc n"
    using b u p plus [of ?w "push_bit (Suc n) 1"] by argo
  have e: "[1..<Suc (Suc n)] = [1..<Suc n] @ [Suc n]" by simp
  have f: "fold (\<lambda>i s. if P i then s + push_bit i 1 else s) [1..<Suc (Suc n)] (0 :: u64) =
      (if P (Suc n) then ?w + push_bit (Suc n) 1 else ?w)" unfolding e by simp
  show ?case unfolding f sum.lessThan_Suc using u l b w by (cases "P (Suc n)") auto
qed simp


lemma fold_bits_sum:
  "fold (\<lambda>i s. if P i then s + g i else s) [0..<n] (a :: 'f::comm_ring_1) = a + (\<Sum>j<n. g j * of_bool (P j))"
  by (induction n) (auto simp del: sum_mult_of_bool_eq)

lemma prefix_evaluate_sign_extension:
  assumes "phase_aligned i k"
  shows "sign_extension_prefix st (lb_new (interleave_bits x y) (2 * k)) (128 - 2 * i - 2 * k) = bit_run k x y i st P_SignExtension"
proof (cases "i = 0")
  case False
  note f = phase_facts [OF assms(1)]
  have bits: "drop_bit (k - 1 - j) (take_bit k w) AND 1 = of_bool (bit w (k - 1 - j))" if "j < k" for j and w :: u64
    by (rule bit_of_taken) (use that in simp)
  have two_neq: "(2 :: nat) \<noteq> 0" by simp
  have "fold (\<lambda>j s. if drop_bit (k - 1 - j) (take_bit k y) AND 1 = 0 then s + from_u64 (push_bit ((i + j) mod 64) 1) else s) [0..<k] 0 =
      fold (\<lambda>j s. if \<not> bit y (k - 1 - j) then s + 2 ^ (i + j) else s) [0..<k] 0"
    using f by (intro fold_cong ext) (auto simp: bits simp del: diff_diff_left One_nat_def)
  then have sum: "fold (\<lambda>j s. if drop_bit (k - 1 - j) (take_bit k y) AND 1 = 0 then s + from_u64 (push_bit ((2 * i div 2 + j) mod 64) 1) else s) [0..<k] 0 =
      (\<Sum>j<k. 2 ^ (i + j) * of_bool (\<not> bit y (k - 1 - j)) :: 'a)" unfolding nonzero_mult_div_cancel_left [OF two_neq] by (simp only: fold_bits_sum) simp
  show ?thesis
    unfolding sign_extension_prefix_def Let_def f(6) chunk_operands [OF f(1)] prod.case lb_u64_new [OF f(1)] lb_len_new
    using False bit_run_sign_extension [of i k x y st] f(1) by (simp only: sum) simp
next
  case True
  note f = phase_facts [OF assms(1)]
  obtain m where m: "k = Suc m" "m < 64" using f by (cases k) auto
  have bits: "drop_bit (k - 1 - j) (take_bit k w) AND 1 = of_bool (bit w (k - 1 - j))" if "j < k" for j and w :: u64
    by (rule bit_of_taken) (use that in simp)
  have fold: "fold (\<lambda>j s. if drop_bit (k - 1 - j) (take_bit k y) AND 1 = 0 then s + push_bit j 1 else s) [1..<k] (0 :: u64) =
      fold (\<lambda>j s. if \<not> bit y (k - 1 - j) then s + push_bit j 1 else s) [1..<k] 0"
    by (intro fold_cong ext) (auto simp: bits simp del: diff_diff_left One_nat_def)
  have "unat (fold (\<lambda>j s. if \<not> bit y (k - 1 - j) then s + push_bit j 1 else s) [1..<k] (0 :: u64)) =
      (\<Sum>j<m. 2 ^ Suc j * of_bool (\<not> bit y (m - 1 - j)))"
    using fold_bits [of m "\<lambda>j. \<not> bit y (k - 1 - j)"] m by simp
  then have sum: "from_u64 (fold (\<lambda>j s. if drop_bit (k - 1 - j) (take_bit k y) AND 1 = 0 then s + push_bit j 1 else s) [1..<k] 0) =
      (\<Sum>j<m. 2 ^ (1 + j) * of_bool (\<not> bit y (m - 1 - j)) :: 'a)"
    unfolding from_u64_def fold by (simp del: sum_mult_of_bool_eq)
  have msb: "operand_msb (lb_new (ucast x) k) AND 1 = of_bool (bit x m)" using m by (simp add: operand_msb_new)
  have run: "bit_run k x y i st P_SignExtension = of_bool (bit x m) * (\<Sum>j<m. 2 ^ (1 + j) * of_bool (\<not> bit y (m - 1 - j)))"
    using m True by (simp add: bit_run_Suc bit_run_sign_extension del: sum_mult_of_bool_eq)
  show ?thesis
    unfolding sign_extension_prefix_def Let_def f(6) chunk_operands [OF f(1)] prod.case lb_u64_new [OF f(1)] lb_len_new msb sum run
    using True by simp
qed

lemma prefix_evaluate_index:
  assumes "phase_aligned i k" "checkpoints_ok i st"
  shows "pow2_prefix st (lb_new (interleave_bits x y) (2 * k)) (128 - 2 * i - 2 * k) = bit_run k x y i st P_Pow2"
    "overflow_bits_zero_prefix st (lb_new (interleave_bits x y) (2 * k)) (128 - 2 * i - 2 * k) = bit_run k x y i st P_OverflowBitsZero"
    "sign_extension_upper_half_prefix st (lb_new (interleave_bits x y) (2 * k)) (128 - 2 * i - 2 * k) =
      bit_run k x y i st P_SignExtensionUpperHalf"
proof -
  note f = phase_facts [OF assms(1)]
  show "pow2_prefix st (lb_new (interleave_bits x y) (2 * k)) (128 - 2 * i - 2 * k) = bit_run k x y i st P_Pow2"
  proof (cases "i + k = 64")
    case True
    then have k: "3 \<le> k" using assms by (auto simp: phase_aligned_def)
    then have b: "unat (lb_u64 (lb_new (interleave_bits x y) (2 * k)) AND (of_nat XLEN - 1)) = unat (interleave_bits x y) mod 64"
    proof -
      have "lb_u64 (lb_new (interleave_bits x y) (2 * k)) AND mask 6 = ucast (take_bit 6 (interleave_bits x y))"
        unfolding lb_u64_def chunk_value [OF f(1)] using k by (intro bit_word_eqI) (auto simp: bit_simps)
      then have "unat (lb_u64 (lb_new (interleave_bits x y) (2 * k)) AND mask 6) = take_bit 64 (take_bit 6 (unat (interleave_bits x y)))"
        by (simp add: unsigned_ucast_eq unsigned_take_bit_eq)
      then show ?thesis by (simp add: XLEN_def mask_eq_exp_minus_1 take_bit_eq_mod)
    qed
    have "unat (interleave_bits x y) mod 64 < 64" by simp
    then show ?thesis using True k unfolding pow2_prefix_def b by (simp add: bit_run_pow2)
  next
    case False
    then show ?thesis using assms f(3) by (auto simp: pow2_prefix_def phase_aligned_def bit_run_keep checkpoints_ok_def)
  qed
  show "overflow_bits_zero_prefix st (lb_new (interleave_bits x y) (2 * k)) (128 - 2 * i - 2 * k) = bit_run k x y i st P_OverflowBitsZero"
  proof (cases "32 \<le> i")
    case True
    then show ?thesis unfolding overflow_bits_zero_prefix_def f(6) using f(1) by (simp add: XLEN_def bit_run_keep)
  next
    case False
    then have k: "i + k \<le> 32" using assms by (auto simp: phase_aligned_def)
    then have "64 \<le> 128 - 2 * i - 2 * k" by simp
    moreover have "take_bit (2 * k) (interleave_bits x y) = 0 \<longleftrightarrow> unat (interleave_bits x y) mod 2 ^ (2 * k) = 0"
      by (simp only: unat_take_bit_mod [symmetric] unsigned_eq_0_iff)
    ultimately show ?thesis using False unfolding overflow_bits_zero_prefix_def f(6)
      by (simp add: XLEN_def bit_run_index(3) [OF k] chunk_value [OF f(1)])
  qed
  show "sign_extension_upper_half_prefix st (lb_new (interleave_bits x y) (2 * k)) (128 - 2 * i - 2 * k) =
      bit_run k x y i st P_SignExtensionUpperHalf"
  proof (cases "i + k \<le> 48")
    case True
    then have "32 \<le> 128 - 2 * i - 2 * k" by simp
    then show ?thesis using assms True f(3) by (simp add: sign_extension_upper_half_prefix_def XLEN_def bit_run_keep checkpoints_ok_def)
  next
    case F: False
    then have i: "48 \<le> i" "\<not> 32 \<le> 128 - 2 * i - 2 * k" using assms by (auto simp: phase_aligned_def)
    obtain m where m: "k = Suc m" "m < 64" using f by (cases k) auto
    have u: "from_u128 18446744069414584320 = 18446744069414584320" by (simp add: from_u128_def)
    show ?thesis
    proof (cases "i = 48")
      case True
      then have "m < 16" using m f by auto
      then have run: "bit_run k x y i st P_SignExtensionUpperHalf = (2 ^ 32 - 1) * 2 ^ 32 * of_bool (bit x m)"
        using True m assms(2) bit_run_upper_half [of m x y st] by (simp add: checkpoints_ok_def)
      have msb: "operand_msb (lb_new (ucast x) k) AND 1 = of_bool (bit x m)" using m by (simp add: operand_msb_new)
      show ?thesis using True i F f(3)
        unfolding sign_extension_upper_half_prefix_def Let_def f(6) lb_len_new chunk_operands [OF f(1)] prod.case msb run
        by (simp add: XLEN_def u from_u64_of_bool)
    next
      case False
      then show ?thesis using i F f unfolding sign_extension_upper_half_prefix_def Let_def f(6) lb_len_new
        by (simp add: XLEN_def bit_run_keep)
    qed
  qed
qed

text \<open>\<^verbatim>\<open>Prefixes::evaluate\<close> at the bits of an aligned phase.\<close>

lemma prefix_evaluate_run:
  assumes "phase_aligned i k" "checkpoints_ok i st"
  shows "prefix_evaluate p st (lb_new (interleave_bits x y) (2 * k)) (128 - 2 * i - 2 * k) = bit_run k x y i st p"
  by (cases p) (simp_all only: prefix_evaluate.simps prefix_evaluate_bits [OF assms(1)] prefix_evaluate_tests [OF assms]
      prefix_evaluate_shifts [OF assms(1)] prefix_evaluate_words [OF assms] prefix_evaluate_signs [OF assms(1)]
      prefix_evaluate_sign_extension [OF assms(1)] prefix_evaluate_index [OF assms])

end
