(* ===== verification/Table_Combine.thy ===== *)
theory Table_Combine
  imports Table_Phase
begin

text \<open>
  \<^verbatim>\<open>combine\<close> recombines prefixes and suffixes to the value of the table. Fully bound, the prefixes
  give \<^verbatim>\<open>evaluate_mle\<close>; before, the suffixes of the bits that are left stand for the updates of
  those bits.
\<close>

section \<open>The fully bound prefixes\<close>

lemma run_pairs_fold:
  "run_pairs i r st = fold (\<lambda>j. pair_update (i + j) (r ! (2 * j)) (r ! (2 * j + 1))) [0..<length r div 2] st"
proof (induction i r st rule: run_pairs.induct)
  case (1 i x y r st)
  have "length (x # y # r) div 2 = Suc (length r div 2)" by simp
  then show ?case using 1 by (simp only: run_pairs.simps fold_Suc_shift) simp
qed simp_all

text \<open>Two loops in step.\<close>

lemma fold_related:
  assumes "R 0 a b" "\<And>i a b. i < n \<Longrightarrow> R i a b \<Longrightarrow> R (Suc i) (f i a) (g i b)"
  shows "R n (fold f [0..<n] a) (fold g [0..<n] b)"
  using assms(2) by (induction n) (simp_all add: assms(1))

definition bound_prefixes :: "'f::comm_ring_1 list \<Rightarrow> 'f checkpoints" where
  "bound_prefixes r = run_pairs 0 r default_checkpoint"

lemma bound_prefixes_fold:
  "length r = 128 \<Longrightarrow> bound_prefixes r =
    fold (\<lambda>j. pair_update j (r ! (2 * j)) (r ! (2 * j + 1))) [0..<64] default_checkpoint"
  by (simp add: bound_prefixes_def run_pairs_fold)

text \<open>A loop of the table in step with the pair updates.\<close>

lemma bound_prefixes_related:
  assumes "length r = 128" "R 0 a default_checkpoint"
    "\<And>i a st. i < 64 \<Longrightarrow> R i a st \<Longrightarrow> R (Suc i) (f i a) (pair_update i (r ! (2 * i)) (r ! (2 * i + 1)) st)"
  shows "R 64 (fold f [0..<64] a) (bound_prefixes r)"
  unfolding bound_prefixes_fold [OF assms(1)]
  by (rule fold_related [where R = R]) (use assms(2,3) in auto)

lemma bitwise_bound:
  assumes "length r = 128"
  shows "and_mle r = bound_prefixes r P_And" "andn_mle r = bound_prefixes r P_Andn"
    "or_mle r = bound_prefixes r P_Or" "xor_mle r = bound_prefixes r P_Xor"
    "popcnt_mle r = bound_prefixes r P_Popcnt" "srl_mle r = bound_prefixes r P_RightShift"
proof -
  note rel = bound_prefixes_related [OF assms]
  show "and_mle r = bound_prefixes r P_And" unfolding and_mle_def XLEN_def
    by (rule rel [where R = "\<lambda>_ a st. a = st P_And"]) (simp_all add: Let_def mult.assoc)
  show "andn_mle r = bound_prefixes r P_Andn" unfolding andn_mle_def XLEN_def
    by (rule rel [where R = "\<lambda>_ a st. a = st P_Andn"]) (simp_all add: Let_def mult.assoc)
  show "or_mle r = bound_prefixes r P_Or" unfolding or_mle_def XLEN_def
    by (rule rel [where R = "\<lambda>_ a st. a = st P_Or"]) (simp_all add: Let_def)
  show "xor_mle r = bound_prefixes r P_Xor" unfolding xor_mle_def XLEN_def
    by (rule rel [where R = "\<lambda>_ a st. a = st P_Xor"]) (simp_all add: Let_def)
  show "popcnt_mle r = bound_prefixes r P_Popcnt" unfolding popcnt_mle_def XLEN_def
    by (rule rel [where R = "\<lambda>_ a st. a = st P_Popcnt"]) (simp_all add: Let_def)
  show "srl_mle r = bound_prefixes r P_RightShift" unfolding srl_mle_def XLEN_def
    by (rule rel [where R = "\<lambda>_ a st. a = st P_RightShift"]) (simp_all add: Let_def)
qed

lemma compare_bound:
  assumes "length r = 128"
  shows "fold (less_than_step r) [0..<XLEN] (0, 1) = (bound_prefixes r P_LessThan, bound_prefixes r P_Eq)"
  unfolding XLEN_def
  by (rule bound_prefixes_related [OF assms, where R = "\<lambda>_ a st. a = (st P_LessThan, st P_Eq)"])
    (simp_all add: less_than_step_def Let_def mult_ac)

lemma msb_bound:
  assumes "length r = 128"
  shows "bound_prefixes r P_LeftOperandMsb = r ! 0" "bound_prefixes r P_RightOperandMsb = r ! 1"
proof -
  have "0 < (64 :: nat) \<longrightarrow> bound_prefixes r P_LeftOperandMsb = r ! 0 \<and> bound_prefixes r P_RightOperandMsb = r ! 1"
    by (rule bound_prefixes_related [OF assms, where f = "\<lambda>_. id" and a = "()"
        and R = "\<lambda>i _ st. 0 < i \<longrightarrow> st P_LeftOperandMsb = r ! 0 \<and> st P_RightOperandMsb = r ! 1"]) simp_all
  then show "bound_prefixes r P_LeftOperandMsb = r ! 0" "bound_prefixes r P_RightOperandMsb = r ! 1" by simp_all
qed

lemma equal_bound:
  assumes "length r = 128"
  shows "equal_mle r = bound_prefixes r P_Eq"
proof -
  have "fold (\<lambda>i result. result * (r ! (2 * i) * r ! (2 * i + 1) + (1 - r ! (2 * i)) * (1 - r ! (2 * i + 1)))) [0..<64] 1 =
      bound_prefixes r P_Eq"
    by (rule bound_prefixes_related [OF assms, where R = "\<lambda>_ a st. a = st P_Eq"]) simp_all
  then show ?thesis using assms by (simp add: equal_mle_def fold_map comp_def Let_def del: upt_rec_numeral)
qed

lemma shifts_bound:
  assumes "length r = 128"
  shows "sra_mle r = bound_prefixes r P_RightShift + bound_prefixes r P_SignExtension"
    "rotr_mle r = bound_prefixes r P_RightShift + bound_prefixes r P_LeftShift"
proof -
  note rel = bound_prefixes_related [OF assms]
  let ?f = "\<lambda>i (result, sign_extension). let x_i = r ! (2 * i); y_i = r ! (2 * i + 1) in
         (result * (1 + y_i) + x_i * y_i,
          if i \<noteq> 0 then sign_extension + from_u64 (push_bit i 1) * (1 - y_i) else sign_extension)"
  let ?R = "\<lambda>i a st. st P_RightShift = fst a \<and> st P_SignExtension = r ! 0 * snd a \<and> (0 < i \<longrightarrow> st P_LeftOperandMsb = r ! 0)
      \<and> (i = 0 \<longrightarrow> snd a = 0)"
  have "?R (64 :: nat) (fold ?f [0..<64] (0, 0)) (bound_prefixes r)"
    by (rule rel) (auto simp: Let_def case_prod_beta algebra_simps)
  then show "sra_mle r = bound_prefixes r P_RightShift + bound_prefixes r P_SignExtension"
    unfolding sra_mle_def XLEN_def by (auto split: prod.split)
  let ?g = "\<lambda>i (prod_one_plus_y, first_sum, second_sum).
         let r_x = r ! (2 * i); r_y = r ! (2 * i + 1) in
         (prod_one_plus_y * (1 + r_y),
          first_sum * (1 + r_y) + r_x * r_y,
          second_sum + r_x * (1 - r_y) * prod_one_plus_y * from_u64 (push_bit (XLEN - 1 - i) 1))"
  have "fold ?g [0..<64] (1, 0, 0) =
      (bound_prefixes r P_LeftShiftHelper, bound_prefixes r P_RightShift, bound_prefixes r P_LeftShift)"
    by (rule rel [where R = "\<lambda>_ a st. a = (st P_LeftShiftHelper, st P_RightShift, st P_LeftShift)"])
      (simp_all add: Let_def XLEN_def algebra_simps)
  then show "rotr_mle r = bound_prefixes r P_RightShift + bound_prefixes r P_LeftShift"
    unfolding rotr_mle_def assms by (simp del: upt_rec_numeral)
qed

lemma negate_if_bound:
  assumes "length r = 128"
  shows "negate_if_mle r = bound_prefixes r P_RightOperand - from_u64 2 * bound_prefixes r P_LeftMsbRightOperand
    + from_u128 (push_bit XLEN 1) * bound_prefixes r P_LeftOperandMsb
    - from_u128 (push_bit XLEN 1) * bound_prefixes r P_LeftMsbRightOperandIsZero"
proof -
  let ?f = "\<lambda>i (val, value_is_zero). let bit = r ! (2 * i + 1) in
          (val + from_u128 (push_bit (XLEN - 1 - i) 1) * bit, value_is_zero * (1 - bit))"
  let ?R = "\<lambda>i a st. st P_RightOperand = fst a \<and> st P_LeftMsbRightOperand = r ! 0 * fst a
      \<and> (0 < i \<longrightarrow> st P_LeftOperandMsb = r ! 0 \<and> st P_LeftMsbRightOperandIsZero = r ! 0 * snd a) \<and> (i = 0 \<longrightarrow> snd a = 1)"
  have "?R (64 :: nat) (fold ?f [0..<64] (0, 1)) (bound_prefixes r)"
    by (rule bound_prefixes_related [OF assms]) (auto simp: Let_def XLEN_def case_prod_beta algebra_simps)
  then show ?thesis unfolding negate_if_mle_def XLEN_def by (auto simp: Let_def algebra_simps split: prod.split)
qed

lemma from_u64_64: "from_u64 64 = 64"
  using from_u64_nat [of 64] by simp

lemma zeros_bound:
  assumes "length r = 128"
  shows "clz_mle r = bound_prefixes r P_Clz" "ctz_mle r = bound_prefixes r P_Ctz"
proof -
  let ?f = "\<lambda>i (result, all_zero_so_far). let x_i = r ! (2 * i) in
         (result + all_zero_so_far * x_i * from_u64 (of_nat i), all_zero_so_far * (1 - x_i))"
  let ?R = "\<lambda>i a st. st P_Clz = fst a + snd a * of_nat i \<and> st P_LeftOperandIsZero = snd a"
  have "?R (64 :: nat) (fold ?f [0..<64] (0, 1)) (bound_prefixes r)"
    by (rule bound_prefixes_related [OF assms]) (auto simp: Let_def from_u64_nat case_prod_beta algebra_simps)
  then show "clz_mle r = bound_prefixes r P_Clz" unfolding clz_mle_def XLEN_def by (auto simp: from_u64_64 split: prod.split)
  define c where "c n = fold (\<lambda>j. pair_update j (r ! (2 * j)) (r ! (2 * j + 1))) [0..<n] default_checkpoint P_Ctz" for n
  have c: "c (Suc n) = (c n + 1) * (1 - r ! (2 * n))" "c 0 = 0" for n by (simp_all add: c_def)
  let ?g = "\<lambda>k (result, all_zero_so_far). let x_k = r ! (2 * (64 - 1 - k)) in
         (result + all_zero_so_far * x_k * from_u64 (of_nat k), all_zero_so_far * (1 - x_k))"
  have "n \<le> 64 \<Longrightarrow> (case fold ?g [0..<n] (0, 1) of (a, z) \<Rightarrow> a + z * (c (64 - n) + of_nat n) = c 64)" for n
  proof (induction n)
    case (Suc n)
    have "64 - n = Suc (63 - n)" using Suc by simp
    then have cn: "c (64 - n) = (c (63 - n) + 1) * (1 - r ! (2 * (63 - n)))" using c(1) by metis
    obtain a z where f: "fold ?g [0..<n] (0, 1) = (a, z)" by force
    then show ?case using Suc by (simp add: Let_def from_u64_nat cn algebra_simps)
  qed simp
  from this [of 64] show "ctz_mle r = bound_prefixes r P_Ctz"
    unfolding ctz_mle_def XLEN_def bound_prefixes_fold [OF assms] c_def by (auto simp: from_u64_64 simp del: upt_rec_numeral split: prod.splits)
qed


text \<open>The tables over the raw index.\<close>

lemma bound_prefixes_sum:
  assumes "length r = 128" "\<And>i x y (st :: 'f::comm_ring_1 checkpoints). pair_update i x y st p = st p + g i x y"
    "default_checkpoint p = (0 :: 'f)"
  shows "bound_prefixes r p = (\<Sum>i<64. g i (r ! (2 * i)) (r ! (2 * i + 1)))"
proof -
  have "fold (\<lambda>i a. a + g i (r ! (2 * i)) (r ! (2 * i + 1))) [0..<64] 0 = bound_prefixes r p"
    by (rule bound_prefixes_related [OF assms(1), where R = "\<lambda>_ a st. a = st p"]) (simp_all add: assms)
  then show ?thesis unfolding fold_sum by simp
qed

lemma sum_pairs: "(\<Sum>i<2 * n. f i) = (\<Sum>i<n. f (2 * i) + f (2 * i + 1))" for f :: "nat \<Rightarrow> 'a::comm_monoid_add"
  by (induction n) (simp_all add: ac_simps)

lemma sum_above:
  "m \<le> n \<Longrightarrow> (\<Sum>i<n. if i < m then 0 else f i) = (\<Sum>i<n - m. f (m + i))" for f :: "nat \<Rightarrow> 'a::comm_monoid_add"
proof (induction n)
  case (Suc n)
  then show ?case by (cases "m = Suc n") (auto simp: Suc_diff_le)
qed simp

lemma index_bound:
  assumes "length r = 128"
  shows "range_check_mle r = bound_prefixes r P_LowerWord"
    "fold (\<lambda>i result. result + from_u64 (push_bit (32 - 1 - i) 1) * r ! (64 + 32 + i)) [0..<32] 0 = bound_prefixes r P_LowerHalfWord"
proof -
  have "bound_prefixes r P_LowerWord = (\<Sum>i<64. if i < 32 then 0 else 2 ^ (127 - 2 * i) * r ! (2 * i) + 2 ^ (126 - 2 * i) * r ! (2 * i + 1))"
    using assms by (rule bound_prefixes_sum) (simp_all add: add.assoc)
  also have "\<dots> = (\<Sum>i<32. 2 ^ (63 - 2 * i) * r ! (64 + 2 * i) + 2 ^ (63 - (2 * i + 1)) * r ! (64 + (2 * i + 1)))"
    by (subst sum_above) (auto intro!: sum.cong simp: algebra_simps)
  also have "\<dots> = (\<Sum>i<64. 2 ^ (63 - i) * r ! (64 + i))" using sum_pairs [of "\<lambda>i. 2 ^ (63 - i) * r ! (64 + i)" 32] by simp
  also have "\<dots> = range_check_mle r" unfolding range_check_mle_def XLEN_def
    by (rule fold_sum_cong [symmetric]) simp
  finally show "range_check_mle r = bound_prefixes r P_LowerWord" by simp
  have "bound_prefixes r P_LowerHalfWord = (\<Sum>i<64. if i < 48 then 0 else 2 ^ (127 - 2 * i) * r ! (2 * i) + 2 ^ (126 - 2 * i) * r ! (2 * i + 1))"
    using assms by (rule bound_prefixes_sum) (simp_all add: add.assoc)
  also have "\<dots> = (\<Sum>i<16. 2 ^ (31 - 2 * i) * r ! (96 + 2 * i) + 2 ^ (31 - (2 * i + 1)) * r ! (96 + (2 * i + 1)))"
    by (subst sum_above) (auto intro!: sum.cong simp: algebra_simps)
  also have "\<dots> = (\<Sum>i<32. 2 ^ (31 - i) * r ! (96 + i))" using sum_pairs [of "\<lambda>i. 2 ^ (31 - i) * r ! (96 + i)" 16] by simp
  also have "\<dots> = fold (\<lambda>i result. result + from_u64 (push_bit (32 - 1 - i) 1) * r ! (64 + 32 + i)) [0..<32] 0"
    by (rule fold_sum_cong [symmetric]) simp
  finally show "fold (\<lambda>i result. result + from_u64 (push_bit (32 - 1 - i) 1) * r ! (64 + 32 + i)) [0..<32] 0 = bound_prefixes r P_LowerHalfWord"
    by simp
qed

lemma upper_half_bound:
  assumes "length r = 128"
  shows "bound_prefixes r P_SignExtensionUpperHalf = (2 ^ 32 - 1) * 2 ^ 32 * r ! 96"
proof -
  have "bound_prefixes r P_SignExtensionUpperHalf = (if 48 < (64 :: nat) then (2 ^ 32 - 1) * 2 ^ 32 * r ! 96 else 1)"
    by (rule bound_prefixes_related [OF assms, where f = "\<lambda>_. id" and a = "()"
        and R = "\<lambda>i _ st. st P_SignExtensionUpperHalf = (if 48 < i then (2 ^ 32 - 1) * 2 ^ 32 * r ! 96 else 1)"])
      (auto simp: less_Suc_eq)
  then show ?thesis by simp
qed

lemma sign_extend_word_bound:
  assumes "length r = 128"
  shows "sign_extend_word_mle r = bound_prefixes r P_LowerHalfWord + bound_prefixes r P_SignExtensionUpperHalf"
proof -
  have "(\<Sum>i<32. 2 ^ (31 - i)) = (2 ^ 32 - 1 :: 'a)" by (simp add: numeral_eq_Suc sum.lessThan_Suc)
  then have "fold (\<lambda>i upper_half. upper_half + from_u64 (push_bit (32 - 1 - i) 1) * r ! 96) [0..<32] 0 = (2 ^ 32 - 1) * r ! 96"
    by (subst fold_sum_cong [where f = "\<lambda>i. 2 ^ (31 - i) * r ! 96"]) (simp_all flip: sum_distrib_right)
  moreover have "from_u64 4294967296 = (4294967296 :: 'a)" by (simp add: from_u64_def)
  ultimately show ?thesis unfolding sign_extend_word_mle_def XLEN_def Let_def upper_half_bound [OF assms] index_bound(2) [OF assms, symmetric]
    by (simp add: algebra_simps del: upt_rec_numeral)
qed

lemma mulu_bound:
  assumes "length r = 128"
  shows "mulu_no_overflow_mle r = bound_prefixes r P_OverflowBitsZero"
proof -
  have "bound_prefixes r P_OverflowBitsZero = (\<Prod>i\<in>{..<64} \<inter> {..<32}. (1 - r ! (2 * i)) * (1 - r ! (2 * i + 1)))"
    by (rule bound_prefixes_related [OF assms, where f = "\<lambda>_. id" and a = "()"
        and R = "\<lambda>i _ st. st P_OverflowBitsZero = (\<Prod>j\<in>{..<i} \<inter> {..<32}. (1 - r ! (2 * j)) * (1 - r ! (2 * j + 1)))"])
      (auto simp: lessThan_Suc Int_insert_left mult_ac)
  also have "{..<64} \<inter> {..<32} = {..<32 :: nat}" by auto
  also have "(\<Prod>i<32. (1 - r ! (2 * i)) * (1 - r ! (2 * i + 1))) = (\<Prod>i<2 * 32. 1 - r ! i)"
  proof -
    have "(\<Prod>i<2 * n. 1 - r ! i) = (\<Prod>i<n. (1 - r ! (2 * i)) * (1 - r ! (2 * i + 1)))" for n
      by (induction n) (simp_all add: mult_ac)
    from this [of 32] show ?thesis by simp
  qed
  also have "\<dots> = (\<Prod>x\<leftarrow>take 64 r. 1 - x)"
  proof -
    have "take 64 r = map ((!) r) [0..<64]" using assms by (intro nth_equalityI) auto
    moreover have "(\<Prod>i\<leftarrow>[0..<n]. 1 - r ! i) = (\<Prod>i<n. 1 - r ! i)" for n by (induction n) simp_all
    ultimately show ?thesis by (simp add: comp_def del: upt_rec_numeral)
  qed
  also have "\<dots> = mulu_no_overflow_mle r" unfolding mulu_no_overflow_mle_def XLEN_def fold_prod by simp
  finally show ?thesis ..
qed


text \<open>The power of two, and the masks, over the last six variables.\<close>

lemma log_xlen_6: "log_xlen = 6"
  by (simp add: log_xlen_def XLEN_def twos.simps)

lemma power_power_weight: "k < 6 \<Longrightarrow> from_u64 (push_bit (unat (push_bit k 1 :: u32)) 1 - 1) = (2 ^ 2 ^ k - 1 :: 'f::comm_ring_1)"
proof -
  assume k: "k < 6"
  have p: "unat (push_bit k 1 :: u32) = 2 ^ k" using k by (simp add: unat_power_2)
  have lt: "(2 :: nat) ^ k < 64" using k power_strict_increasing [of k 6 "2 :: nat"] by simp
  have "unat (push_bit (2 ^ k) 1 - 1 :: u64) = 2 ^ 2 ^ k - 1"
    using lt unat_power_2 [of "2 ^ k", where 'a = 64] by (simp add: unat_minus_one)
  then show ?thesis by (simp only: from_u64_def p) (simp add: of_nat_diff)
qed

lemma pow2_mle_product:
  "pow2_mle r = (\<Prod>k<6. 1 + (2 ^ 2 ^ k - 1) * r ! (length r - k - 1))"
proof -
  have "fold (\<lambda>i result. result * (1 + from_u64 (push_bit (unat (push_bit i 1 :: u32)) 1 - 1) * r ! (length r - i - 1))) [0..<n] 1 =
      (\<Prod>k<n. 1 + (2 ^ 2 ^ k - 1) * r ! (length r - k - 1))" if "n \<le> 6" for n
    using that
  proof (induction n)
    case (Suc n)
    then show ?case using power_power_weight [of n, where 'f = 'a] by simp
  qed simp
  then show ?thesis by (simp only: pow2_mle_def log_xlen_6)
qed

lemma prod_6: "(\<Prod>k<6. f k) = f 5 * f 4 * (f 3 * f 2) * (f (Suc 0) * f 0)" for f :: "nat \<Rightarrow> 'f::comm_ring_1"
  by (simp add: numeral_eq_Suc prod.lessThan_Suc mult_ac)

lemma pow2_bound:
  assumes "length r = 128"
  shows "pow2_mle r = bound_prefixes r P_Pow2"
proof -
  have "[0..<61 + 3] = [0..<61] @ [61..<61 + 3]" by (rule upt_add_eq_append) simp
  moreover have "[61..<61 + 3] = [61, 62, 63 :: nat]" by simp
  ultimately have e: "[0..<64] = [0..<61] @ [61, 62, 63 :: nat]" by (simp del: upt_rec_numeral)
  let ?f = "\<lambda>n. fold (\<lambda>j. pair_update j (r ! (2 * j)) (r ! (2 * j + 1))) [0..<n] default_checkpoint"
  have "n \<le> 61 \<Longrightarrow> ?f n P_Pow2 = 1" for n by (induction n) simp_all
  then have "?f 61 P_Pow2 = 1" by simp
  then show ?thesis unfolding bound_prefixes_fold [OF assms] e pow2_mle_product prod_6 assms
    by (simp add: mult_ac del: upt_rec_numeral)
qed

lemma sum_split_at: "(\<Sum>s<a + b. f s) = (\<Sum>s<a. f s) + (\<Sum>s<b. f (a + s))" for f :: "nat \<Rightarrow> 'a::comm_monoid_add"
  by (induction b) (simp_all add: ac_simps)

definition bit_weights :: "nat \<Rightarrow> (nat \<Rightarrow> 'f::comm_ring_1) \<Rightarrow> nat \<Rightarrow> 'f" where
  "bit_weights n q s = (\<Prod>i<n. if bit s i then q i else 1 - q i)"

lemma bit_above: "s < 2 ^ n \<Longrightarrow> bit (2 ^ n + s) i = (if i = n then True else bit s i)" for s :: nat
proof -
  assume s: "s < 2 ^ n"
  then have "\<not> bit s n" by (simp add: bit_iff_odd)
  then have "(2 ^ n AND s :: nat) = 0" by (intro bit_eqI) (auto simp: bit_simps)
  then have "(2 ^ n + s :: nat) = 2 ^ n OR s" by (rule disjunctive_add_eq_or)
  then show ?thesis by (auto simp: bit_simps)
qed

lemma bit_weights_Suc:
  assumes "s < 2 ^ n"
  shows "bit_weights (Suc n) q s = (1 - q n) * bit_weights n q s"
    "bit_weights (Suc n) q (2 ^ n + s) = q n * bit_weights n q s"
proof -
  have "\<not> bit s n" using assms by (simp add: bit_iff_odd)
  then show "bit_weights (Suc n) q s = (1 - q n) * bit_weights n q s" by (simp add: bit_weights_def)
  have "(\<Prod>i<n. if bit (2 ^ n + s) i then q i else 1 - q i) = (\<Prod>i<n. if bit s i then q i else 1 - q i)"
    by (rule prod.cong) (auto simp: bit_above [OF assms])
  then show "bit_weights (Suc n) q (2 ^ n + s) = q n * bit_weights n q s"
    unfolding bit_weights_def by (simp add: bit_above [OF assms])
qed

lemma sum_bit_weights:
  "(\<Sum>s<2 ^ n. bit_weights n q s) = 1"
  "(\<Sum>s<2 ^ n. 2 ^ s * bit_weights n q s) = (\<Prod>k<n. 1 + (2 ^ 2 ^ k - 1) * q k)"
proof (induction n)
  case 0
  show "(\<Sum>s<2 ^ 0. bit_weights 0 q s) = 1" "(\<Sum>s<2 ^ 0. 2 ^ s * bit_weights 0 q s) = (\<Prod>k<0. 1 + (2 ^ 2 ^ k - 1) * q k)"
    by (simp_all add: bit_weights_def)
next
  case (Suc n)
  have two: "(2 :: nat) ^ Suc n = 2 ^ n + 2 ^ n" by simp
  {
    case 1
    have "(\<Sum>s<2 ^ n. bit_weights (Suc n) q s) + (\<Sum>s<2 ^ n. bit_weights (Suc n) q (2 ^ n + s)) =
        (1 - q n) * (\<Sum>s<2 ^ n. bit_weights n q s) + q n * (\<Sum>s<2 ^ n. bit_weights n q s)"
      by (simp add: bit_weights_Suc sum_distrib_left)
    then show ?case unfolding two sum_split_at using Suc(1) by simp
  next
    case 2
    have "(\<Sum>s<2 ^ n. 2 ^ s * bit_weights (Suc n) q s) + (\<Sum>s<2 ^ n. 2 ^ (2 ^ n + s) * bit_weights (Suc n) q (2 ^ n + s)) =
        (1 - q n) * (\<Sum>s<2 ^ n. 2 ^ s * bit_weights n q s) + 2 ^ 2 ^ n * q n * (\<Sum>s<2 ^ n. 2 ^ s * bit_weights n q s)"
      by (simp add: bit_weights_Suc sum_distrib_left power_add mult_ac)
    then show ?case unfolding two sum_split_at prod.lessThan_Suc using Suc(2) by (simp add: algebra_simps)
  }
qed

lemma shift_right_bitmask_bound:
  assumes "length r = 128"
  shows "shift_right_bitmask_mle r = 2 ^ 64 - bound_prefixes r P_Pow2"
proof -
  let ?q = "\<lambda>i. r ! (127 - i)"
  have mask: "from_u128 (push_bit s (push_bit (64 - s) 1 - 1)) = (2 ^ 64 - 2 ^ s :: 'a)" if "s < 64" for s
  proof -
    have "unat (push_bit (64 - s) 1 - 1 :: u128) = 2 ^ (64 - s) - 1"
      using that unat_power_2 [of "64 - s", where 'a = 128] by (simp add: unat_minus_one)
    then have "unat (push_bit s (push_bit (64 - s) 1 - 1) :: u128) = take_bit 128 (2 ^ s * (2 ^ (64 - s) - 1))"
      by (simp only: unsigned_push_bit_eq) (simp add: push_bit_eq_mult mult.commute)
    also have "2 ^ s * (2 ^ (64 - s) - 1) = (2 ^ 64 - 2 ^ s :: nat)"
      using that by (simp add: right_diff_distrib' flip: power_add)
    also have "take_bit 128 (2 ^ 64 - 2 ^ s :: nat) = 2 ^ 64 - 2 ^ s" by (rule take_bit_nat_eq_self) simp
    finally show ?thesis using that power_increasing [of s 64 "2 :: nat"] by (simp only: from_u128_def) (simp add: of_nat_diff)
  qed
  let ?e = "\<lambda>s. fold (\<lambda>i eq_val. let bit = drop_bit i s AND 1 in
      eq_val * (if bit = 0 then 1 - drop 122 r ! (6 - i - 1) else drop 122 r ! (6 - i - 1))) [0..<6] (1 :: 'a)"
  have eq: "?e s = bit_weights 6 ?q s" for s :: nat
  proof -
    have "fold (\<lambda>i eq_val. let bit = drop_bit i s AND 1 in
      eq_val * (if bit = 0 then 1 - drop 122 r ! (6 - i - 1) else drop 122 r ! (6 - i - 1))) [0..<n] 1 = bit_weights n ?q s"
      if "n \<le> 6" for n
      using that
    proof (induction n)
      case (Suc n)
      have b: "drop_bit n s AND 1 = of_bool (bit s n)" by (simp add: and_one_eq bit_iff_odd drop_bit_eq_div mod_2_eq_odd)
      have r: "drop 122 r ! (6 - n - 1) = r ! (127 - n)" using Suc.prems assms by simp
      show ?case using Suc b r by (simp add: bit_weights_def Let_def)
    qed (simp add: bit_weights_def)
    then show ?thesis by blast
  qed
  have "shift_right_bitmask_mle r = (\<Sum>s\<leftarrow>[0..<64]. from_u128 (push_bit s (push_bit (64 - s) 1 - 1)) * ?e s)"
    unfolding shift_right_bitmask_mle_def log_xlen_6 XLEN_def Let_def assms by (simp cong: if_cong)
  also have "\<dots> = (\<Sum>s<64. (2 ^ 64 - 2 ^ s) * bit_weights 6 ?q s)"
    unfolding eq interv_sum_list_conv_sum_set_nat atLeast0LessThan set_upt by (intro sum.cong refl) (simp only: mask lessThan_iff)
  also have "\<dots> = 2 ^ 64 * (\<Sum>s<2 ^ 6. bit_weights 6 ?q s) - (\<Sum>s<2 ^ 6. 2 ^ s * bit_weights 6 ?q s)"
    by (simp only: left_diff_distrib sum_subtractf sum_distrib_left) simp
  also have "\<dots> = 2 ^ 64 - pow2_mle r" unfolding sum_bit_weights pow2_mle_product assms by simp
  finally show ?thesis unfolding pow2_bound [OF assms] .
qed

end
