(* ===== verification/Table_Suffix.thy ===== *)
theory Table_Suffix
  imports Table_Combine
begin

text \<open>
  The values of the suffixes on the low bits of an index, the runs of the pair updates over the
  same bits, and the two together: \<^verbatim>\<open>combine\<close> on the prefixes of the bound variables and the
  suffixes of the remaining bits is \<^verbatim>\<open>evaluate_mle\<close> at the bound variables followed by the bits.
\<close>

section \<open>Suffixes\<close>

abbreviation low_bits_of :: "nat \<Rightarrow> u64 \<Rightarrow> u64 \<Rightarrow> lookup_bits" where
  "low_bits_of m x y \<equiv> lb_new (interleave_bits x y) (2 * m)"

lemma from_u64_take: "from_u64 (take_bit m w) = of_nat (unat w mod 2 ^ m)"
  by (simp add: from_u64_def unat_take_bit_mod)

lemma from_u64_ucast: "unat v < 2 ^ 64 \<Longrightarrow> from_u64 (ucast (v :: u128)) = of_nat (unat v)"
  by (simp add: from_u64_def unsigned_ucast_eq take_bit_nat_eq_self)

lemma suffix_bitwise:
  assumes "m \<le> 64"
  shows "suffix_evaluate S_And (low_bits_of m x y) = of_nat (unat (x AND y) mod 2 ^ m)"
    "suffix_evaluate S_AndNot (low_bits_of m x y) = of_nat (unat (x AND NOT y) mod 2 ^ m)"
    "suffix_evaluate S_Or (low_bits_of m x y) = of_nat (unat (x OR y) mod 2 ^ m)"
    "suffix_evaluate S_Xor (low_bits_of m x y) = of_nat (unat (x XOR y) mod 2 ^ m)"
    "suffix_evaluate S_RightOperand (low_bits_of m x y) = of_nat (unat y mod 2 ^ m)"
    "suffix_evaluate S_One (low_bits_of m x y) = 1"
proof -
  have t: "take_bit m x AND take_bit m y = take_bit m (x AND y)" "take_bit m x AND NOT (take_bit m y) = take_bit m (x AND NOT y)"
    "take_bit m x OR take_bit m y = take_bit m (x OR y)" "take_bit m x XOR take_bit m y = take_bit m (x XOR y)"
    by (rule bit_word_eqI; auto simp: bit_simps)+
  show "suffix_evaluate S_And (low_bits_of m x y) = of_nat (unat (x AND y) mod 2 ^ m)"
    "suffix_evaluate S_AndNot (low_bits_of m x y) = of_nat (unat (x AND NOT y) mod 2 ^ m)"
    "suffix_evaluate S_Or (low_bits_of m x y) = of_nat (unat (x OR y) mod 2 ^ m)"
    "suffix_evaluate S_Xor (low_bits_of m x y) = of_nat (unat (x XOR y) mod 2 ^ m)"
    "suffix_evaluate S_RightOperand (low_bits_of m x y) = of_nat (unat y mod 2 ^ m)"
    unfolding suffix_evaluate_def suffix_mle.simps and_suffix_def andnot_suffix_def or_suffix_def xor_suffix_def right_operand_suffix_def
      chunk_operands [OF assms] prod.case lb_u64_new [OF assms] t from_u64_take by (rule refl)+
  show "suffix_evaluate S_One (low_bits_of m x y) = 1"
    by (simp add: suffix_evaluate_def one_suffix_def from_u64_def)
qed

lemma from_u64_of_bool64: "from_u64 (of_bool64 b) = of_bool b"
  by (simp add: of_bool64_def from_u64_def)

lemma suffix_tests:
  assumes "m \<le> 64"
  shows "suffix_evaluate S_LessThan (low_bits_of m x y) = of_bool (unat x mod 2 ^ m < unat y mod 2 ^ m)"
    "suffix_evaluate S_Eq (low_bits_of m x y) = of_bool (unat x mod 2 ^ m = unat y mod 2 ^ m)"
    "suffix_evaluate S_LeftOperandIsZero (low_bits_of m x y) = of_bool (unat x mod 2 ^ m = 0)"
    "suffix_evaluate S_RightOperandIsZero (low_bits_of m x y) = of_bool (unat y mod 2 ^ m = 0)"
  unfolding suffix_evaluate_def suffix_mle.simps lt_suffix_def eq_suffix_def left_is_zero_suffix_def right_is_zero_suffix_def
    chunk_operands [OF assms] prod.case lb_u64_new [OF assms] lb_as_u128_operand [OF assms] from_u64_of_bool64
    ucast_u64_inj taken_0_iff
  by (simp_all add: word_less_nat_alt word_unat_eq_iff unat_take_bit_mod)

lemma suffix_counts:
  assumes "m \<le> 64"
  shows "suffix_evaluate S_Popcnt (low_bits_of m x y) = of_nat (count_ones (take_bit m x))"
    "suffix_evaluate S_ClzLow (low_bits_of m x y) = of_nat (zeros_above x m)"
    "suffix_evaluate S_CtzLow (low_bits_of m x y) =
      (if take_bit m x = 0 then of_nat m else of_nat (trailing_zeros (take_bit m x)))"
proof -
  note tz = trailing_zeros_le
  show "suffix_evaluate S_Popcnt (low_bits_of m x y) = of_nat (count_ones (take_bit m x))"
    "suffix_evaluate S_ClzLow (low_bits_of m x y) = of_nat (zeros_above x m)"
    "suffix_evaluate S_CtzLow (low_bits_of m x y) =
      (if take_bit m x = 0 then of_nat m else of_nat (trailing_zeros (take_bit m x)))"
    unfolding suffix_evaluate_def suffix_mle.simps popcnt_suffix_def clz_low_suffix_def ctz_low_suffix_def
      chunk_operands [OF assms] prod.case lb_u64_new [OF assms] lb_leading_zeros_operand [OF assms] Let_def lb_len_new
    by (simp_all only: from_u64_nat count_ones_le tz assms order_trans [OF zeros_above_le assms] if_distrib [of from_u64])
qed

lemma suffix_words:
  assumes "m \<le> 64"
  shows "suffix_evaluate S_LowerWord (low_bits_of m x y) = of_nat (unat (interleave_bits x y) mod 2 ^ (2 * m) mod 2 ^ 64)"
    "suffix_evaluate S_LowerHalfWord (low_bits_of m x y) = of_nat (unat (interleave_bits x y) mod 2 ^ (2 * m) mod 2 ^ 32)"
    "suffix_evaluate S_OverflowBitsZero (low_bits_of m x y) = of_bool (\<forall>j \<in> {64..<2 * m}. \<not> bit (interleave_bits x y) j)"
proof -
  let ?v = "interleave_bits x y"
  have mod: "v mod push_bit n 1 = take_bit n v" if "n < 128" for n and v :: u128
    using that by (simp add: take_bit_eq_mod)
  have u: "unat (take_bit n (take_bit (2 * m) ?v)) = unat ?v mod 2 ^ (2 * m) mod 2 ^ n" for n
    by (simp only: unat_take_bit_mod)
  have l: "k mod 2 ^ 64 < 2 ^ 64" "k mod 2 ^ 32 < 2 ^ 64" for k :: nat
    using mod_less_divisor [of "2 ^ 32" k] by simp_all
  show "suffix_evaluate S_LowerWord (low_bits_of m x y) = of_nat (unat ?v mod 2 ^ (2 * m) mod 2 ^ 64)"
    unfolding suffix_evaluate_def suffix_mle.simps lower_word_suffix_def chunk_value [OF assms] XLEN_def
    by (subst mod, simp, subst from_u64_ucast) (simp_all only: u l)
  show "suffix_evaluate S_LowerHalfWord (low_bits_of m x y) = of_nat (unat ?v mod 2 ^ (2 * m) mod 2 ^ 32)"
  proof -
    have "suffix_mle S_LowerHalfWord (low_bits_of m x y) = ucast (take_bit (2 * m) ?v mod push_bit 32 1)"
      by (simp add: lower_half_word_suffix_def chunk_value [OF assms] XLEN_def)
    then show ?thesis unfolding suffix_evaluate_def by (subst (asm) mod, simp) (simp only: from_u64_ucast u l)
  qed
  have "drop_bit 64 (take_bit (2 * m) ?v) = 0 \<longleftrightarrow> (\<forall>j \<in> {64..<2 * m}. \<not> bit ?v j)"
  proof
    assume z: "drop_bit 64 (take_bit (2 * m) ?v) = 0"
    show "\<forall>j \<in> {64..<2 * m}. \<not> bit ?v j"
    proof
      fix j assume j: "j \<in> {64..<2 * m}"
      have "\<not> bit (drop_bit 64 (take_bit (2 * m) ?v)) (j - 64)" unfolding z by simp
      then show "\<not> bit ?v j" using j by (simp add: bit_simps)
    qed
  next
    assume "\<forall>j \<in> {64..<2 * m}. \<not> bit ?v j"
    then show "drop_bit 64 (take_bit (2 * m) ?v) = 0" by (intro bit_word_eqI) (auto simp: bit_simps)
  qed
  then show "suffix_evaluate S_OverflowBitsZero (low_bits_of m x y) = of_bool (\<forall>j \<in> {64..<2 * m}. \<not> bit ?v j)"
    unfolding suffix_evaluate_def suffix_mle.simps overflow_bits_zero_suffix_def chunk_value [OF assms] XLEN_def from_u64_of_bool64
    by simp
qed

lemma suffix_powers:
  assumes "m \<le> 64"
  shows "suffix_evaluate S_Pow2 (low_bits_of 0 x y) = 1"
    "3 \<le> m \<Longrightarrow> suffix_evaluate S_Pow2 (low_bits_of m x y) = 2 ^ (unat (interleave_bits x y) mod 64)"
    "suffix_evaluate S_SignExtensionUpperHalf (low_bits_of m x y) =
      (if 16 \<le> m then (2 ^ 32 - 1) * 2 ^ 32 * of_bool (bit x 15) else 1)"
proof -
  let ?v = "interleave_bits x y"
  show "suffix_evaluate S_Pow2 (low_bits_of 0 x y) = 1"
    by (simp add: suffix_evaluate_def pow2_suffix_def lb_is_empty_def from_u64_def)
  show "suffix_evaluate S_Pow2 (low_bits_of m x y) = 2 ^ (unat ?v mod 64)" if m: "3 \<le> m"
  proof -
    have ne: "\<not> lb_is_empty (low_bits_of m x y)" using m by (simp add: lb_is_empty_def)
    have "take_bit (2 * m) ?v mod push_bit 6 1 = take_bit 6 (take_bit (2 * m) ?v)"
      by (simp only: take_bit_eq_mod [of 6] push_bit_of_1)
    also have "\<dots> = take_bit 6 ?v" using m by (simp only: take_bit_take_bit) simp
    finally have "lb_u64 (lb_new (take_bit (2 * m) ?v mod push_bit 6 1) 6) = ucast (take_bit 6 ?v)"
      by (simp add: lb_u64_def lb_as_u128_new)
    moreover have "unat (ucast (take_bit 6 ?v) :: u64) = unat ?v mod 64"
      using mod_less_divisor [of 64 "unat ?v"]
      by (simp only: unsigned_ucast_eq unat_take_bit_mod) (simp add: take_bit_nat_eq_self)
    ultimately show ?thesis using ne
      by (simp add: suffix_evaluate_def pow2_suffix_def lb_split_def log_xlen_6 chunk_value [OF assms])
  qed
  have b: "drop_bit 31 (take_bit (2 * m) ?v) AND 1 = of_bool (bit x 15)" if "16 \<le> m"
    using that by (simp add: and_one_eq mod_2_eq_odd bit_iff_odd_drop_bit [symmetric] bit_take_bit_iff)
      (simp add: bit_interleave [of 31 x y])
  have u: "from_u64 18446744069414584320 = 18446744069414584320" by (simp add: from_u64_def)
  show "suffix_evaluate S_SignExtensionUpperHalf (low_bits_of m x y) =
      (if 16 \<le> m then (2 ^ 32 - 1) * 2 ^ 32 * of_bool (bit x 15) else 1)"
    using b by (auto simp: suffix_evaluate_def sign_extension_upper_half_suffix_def XLEN_def chunk_value [OF assms] u from_u64_def)
qed


text \<open>The shift suffixes, for the right operands the shifts use: \<open>s\<close> zeros below ones.\<close>

lemma mask_bits: "bit (push_bit s (- 1 :: u64)) j \<longleftrightarrow> s \<le> j \<and> j < 64"
  by (auto simp: bit_simps)

lemma mask_bit_iff: "y = push_bit s (- 1 :: u64) \<Longrightarrow> bit y j \<longleftrightarrow> s \<le> j \<and> j < 64"
  by (simp only: mask_bits)

lemma takeWhile_lengthI:
  assumes "n \<le> length xs" "\<And>j. j < n \<Longrightarrow> P (xs ! j)" "n < length xs \<Longrightarrow> \<not> P (xs ! n)"
  shows "length (takeWhile P xs) = n"
proof -
  have "takeWhile P xs = take n xs" by (rule takeWhile_eq_take_P_nth) (use assms in auto)
  then show ?thesis using assms(1) by simp
qed

lemma mask_leading_ones:
  fixes y :: u64
  assumes "m \<le> 64" "s \<le> 64" "y = push_bit s (- 1)"
  shows "lb_leading_ones (lb_new (ucast y) m) = m - min s m"
proof (cases "m = 0")
  case True
  have "length (takeWhile id (map (bit (push_bit ((128 - 0) mod 128) (lb_as_u128 (lb_new (ucast y) 0)))) (rev [0..<128]))) = 0"
    by (rule takeWhile_lengthI) (auto simp: lb_as_u128_new rev_nth simp del: upt_rec_numeral)
  then show ?thesis unfolding True lb_leading_ones_def lb_len_new by simp
next
  case False
  have shift: "(128 - m) mod 128 = 128 - m" using False assms by simp
  let ?w = "push_bit (128 - m) (lb_as_u128 (lb_new (ucast y) m))"
  have b: "bit ?w j \<longleftrightarrow> 128 - m \<le> j \<and> j < 128 \<and> s \<le> j - (128 - m)" for j
    unfolding lb_as_u128_operand [OF assms(1)] using assms(1,2) by (auto simp: bit_simps mask_bit_iff [OF assms(3)])
  have "length (takeWhile id (map (bit ?w) (rev [0..<128]))) = m - min s m"
    by (rule takeWhile_lengthI) (use False assms(1,2) in \<open>auto simp: rev_nth b simp del: upt_rec_numeral\<close>)
  then show ?thesis unfolding lb_leading_ones_def lb_len_new shift .
qed

lemma mask_trailing_zeros:
  fixes y :: u64
  assumes "m \<le> 64" "s \<le> 64" "y = push_bit s (- 1)"
  shows "lb_trailing_zeros (lb_new (ucast y) m) = min s m"
    "min (trailing_zeros (take_bit m y)) m = min s m"
proof -
  let ?w = "lb_as_u128 (lb_new (ucast y) m)"
  have b: "bit ?w j \<longleftrightarrow> s \<le> j \<and> j < m" for j
    unfolding lb_as_u128_operand [OF assms(1)] using assms(1,2) by (auto simp: bit_simps mask_bit_iff [OF assms(3)])
  have "length (takeWhile Not (map (bit ?w) [0..<128])) = (if s < m then s else 128)"
    by (rule takeWhile_lengthI) (use assms(1,2) in \<open>auto simp: b simp del: upt_rec_numeral split: if_splits\<close>)
  then show "lb_trailing_zeros (lb_new (ucast y) m) = min s m"
    unfolding lb_trailing_zeros_def lb_len_new using assms(1) by simp
  have b2: "bit (take_bit m y) j \<longleftrightarrow> s \<le> j \<and> j < m" for j
    using assms(1,2) by (auto simp: bit_take_bit_iff mask_bit_iff [OF assms(3)])
  have "trailing_zeros (take_bit m y) = (if s < m then s else 64)" unfolding trailing_zeros_def
    by (rule takeWhile_lengthI) (use assms(1,2) in \<open>auto simp: b2 simp del: upt_rec_numeral split: if_splits\<close>)
  then show "min (trailing_zeros (take_bit m y)) m = min s m" using assms(1) by simp
qed

lemma suffix_shifts:
  assumes "m < 64" "s \<le> 64" "y = push_bit s (- 1)"
  shows "suffix_evaluate S_RightShift (low_bits_of m x y) = of_nat (unat x mod 2 ^ m div 2 ^ min s m)"
    "suffix_evaluate S_RightShiftHelper (low_bits_of m x y) = 2 ^ (m - min s m)"
    "suffix_evaluate S_LeftShift (low_bits_of m x y) = of_nat (unat x mod 2 ^ min s m) * 2 ^ (m - min s m)"
    "suffix_evaluate S_SignExtension (low_bits_of m x y) = (2 ^ 64 - 2 ^ (64 - min s m) :: 'f::comm_ring_1)"
proof -
  have m: "m \<le> 64" using assms by simp
  note f = mask_leading_ones [OF m assms(2,3)] mask_trailing_zeros [OF m assms(2,3)]
  note unfold = suffix_evaluate_def suffix_mle.simps right_shift_suffix_def right_shift_helper_suffix_def left_shift_suffix_def
    sign_extension_suffix_def chunk_operands [OF m] prod.case lb_u64_new [OF m] lb_len_new f Let_def
  show "suffix_evaluate S_RightShift (low_bits_of m x y) = of_nat (unat x mod 2 ^ m div 2 ^ min s m)"
  proof -
    have "unat x mod 2 ^ m \<le> unat x" by (rule mod_less_eq_dividend)
    also have "unat x < 2 ^ 64" using unat_u64_less_numeral [of x] by simp
    finally have "unat x mod 2 ^ m < 2 ^ 64" .
    then have "take_bit 64 (unat x mod 2 ^ m) = unat x mod 2 ^ m" by (rule take_bit_nat_eq_self)
    then show ?thesis unfolding unfold from_u64_def
      by (simp only: unsigned_drop_bit_eq unat_take_bit_mod) (simp add: drop_bit_eq_div)
  qed
  have "(m - min s m) mod 64 = m - min s m" using assms(1) by simp
  then show "suffix_evaluate S_RightShiftHelper (low_bits_of m x y) = 2 ^ (m - min s m)"
    unfolding unfold using assms(1) by simp
  have a: "take_bit m x AND NOT (take_bit m y) = take_bit (min s m) x"
    using assms(1,2) by (intro bit_word_eqI) (auto simp: bit_simps mask_bit_iff [OF assms(3)])
  show "suffix_evaluate S_LeftShift (low_bits_of m x y) = of_nat (unat x mod 2 ^ min s m) * 2 ^ (m - min s m)"
    unfolding unfold a using m by (subst from_shift(1)) simp_all
  let ?p = "min s m"
  have "unat (push_bit 64 1 - push_bit (64 - ?p) 1 :: u128) = 2 ^ 64 - 2 ^ (64 - ?p)"
  proof -
    have u: "unat (push_bit 64 1 :: u128) = 2 ^ 64" "unat (push_bit (64 - ?p) 1 :: u128) = 2 ^ (64 - ?p)"
      using unat_power_2 [of 64, where 'a = 128] unat_power_2 [of "64 - ?p", where 'a = 128] by (simp_all only: push_bit_of_1) simp_all
    have "(2 :: nat) ^ (64 - ?p) \<le> 2 ^ 64" by (rule power_increasing) simp_all
    then have "push_bit (64 - ?p) 1 \<le> (push_bit 64 1 :: u128)" unfolding word_le_nat_alt u .
    then show ?thesis by (simp only: unat_sub u)
  qed
  moreover have "(2 :: nat) ^ 64 - 2 ^ (64 - ?p) < 2 ^ 64" by simp
  ultimately have "from_u64 (ucast (push_bit 64 1 - push_bit (64 - ?p) 1 :: u128)) = (of_nat (2 ^ 64 - 2 ^ (64 - ?p)) :: 'f)"
    by (simp only: from_u64_ucast)
  also have "\<dots> = 2 ^ 64 - (2 ^ (64 - ?p) :: 'f)"
    using power_increasing [of "64 - ?p" 64 "2 :: nat"] by (subst of_nat_diff) simp_all
  finally show "suffix_evaluate S_SignExtension (low_bits_of m x y) = 2 ^ 64 - (2 ^ (64 - min s m) :: 'f)"
    unfolding unfold XLEN_def .
qed

end
