(* ===== verification/Prefix_Suffix.thy ===== *)
theory Prefix_Suffix
  imports Table_Suffix
begin

text \<open>
  The recombination theorem of the prefix-suffix decomposition.
\<close>

section \<open>The runs over all the bits that are left\<close>

lemma rest_words:
  fixes x y :: u64
  shows "i + m = 64 \<Longrightarrow> bit_run m x y i st P_LowerWord =
      st P_LowerWord + of_nat (unat (interleave_bits x y) mod 2 ^ (2 * m) mod 2 ^ 64)"
    "i + m = 64 \<Longrightarrow> bit_run m x y i st P_LowerHalfWord =
      st P_LowerHalfWord + of_nat (unat (interleave_bits x y) mod 2 ^ (2 * m) mod 2 ^ 32)"
proof -
  let ?v = "interleave_bits x y"
  have low: "unat ?v mod 2 ^ (2 * n) mod 2 ^ b = unat ?v mod 2 ^ (2 * n)" if "2 * n \<le> b" for n b
  proof (rule mod_less)
    have "unat ?v mod 2 ^ (2 * n) < 2 ^ (2 * n)" by simp
    also have "\<dots> \<le> 2 ^ b" using that by (rule power_increasing) simp
    finally show "unat ?v mod 2 ^ (2 * n) < 2 ^ b" .
  qed
  have high: "unat ?v mod 2 ^ (2 * n) mod 2 ^ b = unat ?v mod 2 ^ b" if "b \<le> 2 * n" for n b
    using that by (intro mod_mod_cancel le_imp_power_dvd)
  have word: "bit_run m x y i st P_LowerWord = st P_LowerWord + of_nat (unat ?v mod 2 ^ 64)" if "i + m = 64" "32 \<le> m" for i m and st :: "'a checkpoints"
    using that
  proof (induction m arbitrary: i st)
    case (Suc m)
    then show ?case
    proof (cases "Suc m = 32")
      case True
      then show ?thesis using bit_run_index(1) [of i "Suc m" x y st] Suc.prems by simp
    next
      case False
      then show ?thesis using Suc by (simp add: bit_run_Suc)
    qed
  qed simp
  have half: "bit_run m x y i st P_LowerHalfWord = st P_LowerHalfWord + of_nat (unat ?v mod 2 ^ 32)" if "i + m = 64" "16 \<le> m" for i m and st :: "'a checkpoints"
    using that
  proof (induction m arbitrary: i st)
    case (Suc m)
    then show ?case
    proof (cases "Suc m = 16")
      case True
      then show ?thesis using bit_run_index(2) [of i "Suc m" x y st] Suc.prems by simp
    next
      case False
      then show ?thesis using Suc by (simp add: bit_run_Suc)
    qed
  qed simp
  show "bit_run m x y i st P_LowerWord = st P_LowerWord + of_nat (unat ?v mod 2 ^ (2 * m) mod 2 ^ 64)" if "i + m = 64" for i
    using bit_run_index(1) [of i m x y] word [of i m] that
    by (cases "32 \<le> m") (simp_all only: low high, simp_all)
  show "bit_run m x y i st P_LowerHalfWord = st P_LowerHalfWord + of_nat (unat ?v mod 2 ^ (2 * m) mod 2 ^ 32)" if "i + m = 64" for i
    using bit_run_index(2) [of i m x y] half [of i m] that
    by (cases "16 \<le> m") (simp_all only: low high, simp_all)
qed

lemma rest_overflow:
  fixes x y :: u64
  shows "i + m = 64 \<Longrightarrow> bit_run m x y i st P_OverflowBitsZero =
    st P_OverflowBitsZero * of_bool (\<forall>j \<in> {64..<2 * m}. \<not> bit (interleave_bits x y) j)"
proof (induction m arbitrary: i st)
  case (Suc m)
  show ?case
  proof (cases "i < 32")
    case True
    have "{64..<2 * Suc m} = insert (2 * m) (insert (Suc (2 * m)) {64..<2 * m})" using True Suc.prems by auto
    then have "(\<forall>j \<in> {64..<2 * Suc m}. \<not> bit (interleave_bits x y) j) \<longleftrightarrow>
        \<not> bit x m \<and> \<not> bit y m \<and> (\<forall>j \<in> {64..<2 * m}. \<not> bit (interleave_bits x y) j)"
      using True Suc.prems by (auto simp: bit_interleave)
    then show ?thesis using Suc True by (simp add: bit_run_Suc)
  next
    case False
    then show ?thesis using Suc.prems by (simp add: bit_run_keep)
  qed
qed simp

lemma rest_upper_half:
  fixes x y :: u64
  shows "i + m = 64 \<Longrightarrow> bit_run m x y i st P_SignExtensionUpperHalf =
    st P_SignExtensionUpperHalf * (if 16 \<le> m then (2 ^ 32 - 1) * 2 ^ 32 * of_bool (bit x 15) else 1)"
proof (induction m arbitrary: i st)
  case (Suc m)
  consider "i < 48" | "i = 48" | "48 < i" by linarith
  then show ?case
  proof cases
    case 1
    then show ?thesis using Suc by (simp add: bit_run_Suc)
  next
    case 2
    then have "m = 15" using Suc.prems by simp
    then show ?thesis using 2 bit_run_upper_half [of m x y st] by simp
  next
    case 3
    then show ?thesis using Suc.prems by (simp add: bit_run_keep)
  qed
qed simp

text \<open>The shifts, over a mask.\<close>

lemma div_power_Suc:
  fixes w :: "'a::len word"
  assumes "s \<le> m"
  shows "unat w mod 2 ^ Suc m div 2 ^ s = unat w mod 2 ^ m div 2 ^ s + of_bool (bit w m) * 2 ^ (m - s)"
proof -
  have e: "(2 :: nat) ^ m = 2 ^ (m - s) * 2 ^ s" using assms by (simp flip: power_add)
  have "unat w mod 2 ^ Suc m = unat w mod 2 ^ m + of_bool (bit w m) * 2 ^ (m - s) * 2 ^ s"
    unfolding unat_mod_Suc by (simp only: e mult.assoc)
  then show ?thesis by (simp add: div_plus_div_distrib_dvd_right)
qed

lemma rest_shifts:
  fixes x y :: u64
  assumes y: "y = push_bit s (- 1)" and s: "s \<le> 64"
  shows "i + m = 64 \<Longrightarrow> bit_run m x y i st P_RightShift =
      st P_RightShift * 2 ^ (m - min s m) + of_nat (unat x mod 2 ^ m div 2 ^ min s m)"
    "i + m = 64 \<Longrightarrow> bit_run m x y i st P_LeftShift =
      st P_LeftShift + st P_LeftShiftHelper * (of_nat (unat x mod 2 ^ min s m) * 2 ^ (m - min s m))"
    "0 < i \<Longrightarrow> i + m = 64 \<Longrightarrow> bit_run m x y i st P_SignExtension =
      st P_SignExtension + st P_LeftOperandMsb * (2 ^ 64 - 2 ^ (64 - min s m))"
proof (induction m arbitrary: i st)
  case (Suc m)
  have b: "bit y m \<longleftrightarrow> s \<le> m" if "m < 64" using that by (simp add: mask_bit_iff [OF y])
  have k: "63 - i = m" "m < 64" "i = 63 - m" if "i + Suc m = 64" for i using that by auto
  {
    case 1
    note k = k [OF 1]
    show ?case
    proof (cases "s \<le> m")
      case True
      then have "Suc m - min s (Suc m) = Suc (m - s)" "min s m = s" "min s (Suc m) = s" by auto
      then show ?thesis using Suc(1) [of "Suc i"] 1 k True b
        by (simp add: bit_run_Suc div_power_Suc algebra_simps del: power_Suc) (simp add: algebra_simps)
    next
      case False
      then have "min s m = m" "min s (Suc m) = Suc m" by auto
      then show ?thesis using Suc(1) [of "Suc i"] 1 k False b by (simp add: bit_run_Suc)
    qed
  next
    case 2
    note k = k [OF 2]
    show ?case
    proof (cases "s \<le> m")
      case True
      then have "Suc m - min s (Suc m) = Suc (m - s)" "min s m = s" "min s (Suc m) = s" by auto
      then show ?thesis using Suc(2) [of "Suc i"] 2 k True b by (simp add: bit_run_Suc algebra_simps)
    next
      case False
      then have e: "min s m = m" "min s (Suc m) = Suc m" by auto
      then show ?thesis using Suc(2) [of "Suc i"] 2 k False b unfolding e
        by (simp add: bit_run_Suc unat_mod_Suc algebra_simps del: power_Suc)
    qed
  next
    case 3
    note k = k [OF 3(2)]
    show ?case
    proof (cases "s \<le> m")
      case True
      then have "min s m = s" "min s (Suc m) = s" by auto
      then show ?thesis using Suc(3) [of "Suc i"] 3 k True b by (simp add: bit_run_Suc)
    next
      case False
      then have e: "min s m = m" "min s (Suc m) = Suc m" by auto
      have "64 - m = Suc i" "64 - Suc m = i" using 3 by auto
      then have IH: "bit_run m x y (Suc i) t P_SignExtension = t P_SignExtension + t P_LeftOperandMsb * (2 ^ 64 - 2 * 2 ^ i)"
        for t :: "'a checkpoints" using Suc(3) [of "Suc i" t] 3 unfolding e by simp
      have "\<not> bit y m" using k False b by simp
      then show ?thesis using 3 k(2) unfolding e \<open>64 - Suc m = i\<close> by (simp add: bit_run_Suc IH) (simp add: algebra_simps)
    qed
  }
qed simp_all


section \<open>Recombination\<close>

text \<open>The suffix values of a table at the bits that are left.\<close>

definition suffix_values :: "wasm_table \<Rightarrow> lookup_bits \<Rightarrow> 'f::comm_ring_1 list" where
  "suffix_values t b = map (\<lambda>s. suffix_evaluate s b) (table_suffixes t)"

lemma lb_new_0: "lb_new v 0 = low_bits_of 0 0 0"
  by (simp add: lb_new_def)

lemma mask_64: "(0 :: u64) = push_bit 64 (- 1)"
  by (rule bit_word_eqI) (auto simp: bit_simps)

lemma suffix_values_empty:
  "suffix_evaluate S_One (low_bits_of 0 0 0) = 1"
  "suffix_evaluate S_And (low_bits_of 0 0 0) = 0"
  "suffix_evaluate S_AndNot (low_bits_of 0 0 0) = 0"
  "suffix_evaluate S_Or (low_bits_of 0 0 0) = 0"
  "suffix_evaluate S_Xor (low_bits_of 0 0 0) = 0"
  "suffix_evaluate S_RightOperand (low_bits_of 0 0 0) = 0"
  "suffix_evaluate S_LowerWord (low_bits_of 0 0 0) = 0"
  "suffix_evaluate S_LowerHalfWord (low_bits_of 0 0 0) = 0"
  "suffix_evaluate S_LessThan (low_bits_of 0 0 0) = 0"
  "suffix_evaluate S_Eq (low_bits_of 0 0 0) = 1"
  "suffix_evaluate S_LeftOperandIsZero (low_bits_of 0 0 0) = 1"
  "suffix_evaluate S_RightOperandIsZero (low_bits_of 0 0 0) = 1"
  "suffix_evaluate S_Pow2 (low_bits_of 0 0 0) = 1"
  "suffix_evaluate S_SignExtensionUpperHalf (low_bits_of 0 0 0) = 1"
  "suffix_evaluate S_OverflowBitsZero (low_bits_of 0 0 0) = 1"
  "suffix_evaluate S_Popcnt (low_bits_of 0 0 0) = 0"
  "suffix_evaluate S_ClzLow (low_bits_of 0 0 0) = 0"
  "suffix_evaluate S_CtzLow (low_bits_of 0 0 0) = 0"
  "suffix_evaluate S_RightShift (low_bits_of 0 0 0) = 0"
  "suffix_evaluate S_RightShiftHelper (low_bits_of 0 0 0) = 1"
  "suffix_evaluate S_LeftShift (low_bits_of 0 0 0) = 0"
  "suffix_evaluate S_SignExtension (low_bits_of 0 0 0) = 0"
  using suffix_bitwise [of 0 0 0] suffix_tests [of 0 0 0] suffix_counts [of 0 0 0] suffix_words [of 0 0 0]
    suffix_powers [of 0 0 0] suffix_shifts [of 0 64 0 0, OF _ _ mask_64]
  by (simp_all only: order_refl le_zero_eq zero_less_numeral) (simp_all add: count_ones_def)

lemmas table_decomposition = range_check_suffixes_def lower_half_word_suffixes_def and_suffixes_def andn_suffixes_def
  or_suffixes_def xor_suffixes_def equal_table_suffixes_def not_equal_suffixes_def unsigned_less_than_suffixes_def
  signed_less_than_suffixes_def unsigned_greater_than_equal_suffixes_def signed_greater_than_equal_suffixes_def
  unsigned_less_than_equal_suffixes_def virtual_srl_suffixes_def virtual_sra_suffixes_def virtual_rotr_suffixes_def
  virtual_negate_if_suffixes_def mulu_no_overflow_suffixes_def pow2_suffixes_def shift_right_bitmask_suffixes_def
  sign_extend_word_suffixes_def clz_suffixes_def ctz_suffixes_def popcnt_suffixes_def
  range_check_combine_def lower_half_word_combine_def and_combine_def andn_combine_def
  or_combine_def xor_combine_def equal_combine_def not_equal_combine_def unsigned_less_than_combine_def
  signed_less_than_combine_def unsigned_greater_than_equal_combine_def signed_greater_than_equal_combine_def
  unsigned_less_than_equal_combine_def virtual_srl_combine_def virtual_sra_combine_def virtual_rotr_combine_def
  virtual_negate_if_combine_def mulu_no_overflow_combine_def pow2_combine_def shift_right_bitmask_combine_def
  sign_extend_word_combine_def clz_combine_def ctz_combine_def popcnt_combine_def

lemma combine_bound:
  assumes "length r = 128"
  shows "table_combine t (bound_prefixes r) (suffix_values t (lb_new v 0)) = Some (table_mle_value t r)"
proof -
  have w: "from_u128 (push_bit XLEN 1) = (2 ^ 64 :: 'a)" using from_u128_power [of 64, where 'a = 'a] by (simp add: XLEN_def)
  note bound = bitwise_bound [OF assms] compare_bound [OF assms] msb_bound [OF assms, symmetric] equal_bound [OF assms] shifts_bound [OF assms]
    negate_if_bound [OF assms] zeros_bound [OF assms] index_bound [OF assms] sign_extend_word_bound [OF assms]
    mulu_bound [OF assms] pow2_bound [OF assms] shift_right_bitmask_bound [OF assms]
  have half: "lower_half_word_mle r = bound_prefixes r P_LowerHalfWord"
    using index_bound(2) [OF assms] by (simp add: lower_half_word_mle_def XLEN_def Let_def del: upt_rec_numeral)
  have msb: "r ! 0 = bound_prefixes r P_LeftOperandMsb" "r ! 1 = bound_prefixes r P_RightOperandMsb"
    using msb_bound [OF assms] by simp_all
  show ?thesis unfolding lb_new_0
    by (cases t; simp only: table_combine.simps table_mle_value.simps table_suffixes.simps suffix_values_def table_decomposition
        list.map suffix_values_empty list.case option.inject;
        simp only: bound half msb not_equal_mle_def unsigned_less_than_mle_def unsigned_greater_than_equal_mle_def
          unsigned_less_than_equal_mle_def signed_less_than_mle_def signed_greater_than_equal_mle_def prod.case Let_def w;
        simp add: algebra_simps)
qed


text \<open>The right operands of the shifts: zeros below ones.\<close>

definition shift_operand :: "wasm_table \<Rightarrow> u64 \<Rightarrow> bool" where
  "shift_operand t y \<longleftrightarrow> t \<in> {Srl, Sra, Rotr} \<longrightarrow> list_ex (\<lambda>s. y = push_bit s (- 1)) [0..<65]"

lemma shift_operandE:
  assumes "shift_operand t y" "t \<in> {Srl, Sra, Rotr}"
  obtains s where "s \<le> 64" "y = push_bit s (- 1)"
proof -
  have "\<exists>s \<in> set [0..<65]. y = push_bit s (- 1)" using assms unfolding shift_operand_def list_ex_iff by blast
  then obtain s where s: "s \<in> set [0..<65]" "y = push_bit s (- 1)" by (rule bexE)
  have "s \<le> 64" using s(1) unfolding set_upt atLeastLessThan_iff by simp
  then show thesis by (rule that) (rule s(2))
qed

lemma bit_run_sign_0: "0 < i \<Longrightarrow> i + m = 64 \<Longrightarrow> bit_run m x y i st P_LeftOperandMsb = st P_LeftOperandMsb"
  "0 < i \<Longrightarrow> i + m = 64 \<Longrightarrow> bit_run m x y i st P_RightOperandMsb = st P_RightOperandMsb"
  by (simp_all add: bit_run_keep)

lemma combine_rest_shifts:
  assumes "0 < i" "i + m = 64" "t \<in> {Srl, Sra, Rotr}" "shift_operand t y"
  shows "table_combine t st (suffix_values t (low_bits_of m x y)) =
    table_combine t (bit_run m x y i st) (suffix_values t (low_bits_of 0 0 0))"
proof -
  obtain s where s: "s \<le> 64" "y = push_bit s (- 1)" using shift_operandE [OF assms(4,3)] .
  have m: "m < 64" "m \<le> 64" using assms by auto
  note run = rest_shifts [OF s(2,1)] bit_run_sign_0 and sfx = suffix_shifts [OF m(1) s] suffix_bitwise(6) [OF m(2)]
  from assms(3) consider "t = Srl" | "t = Sra" | "t = Rotr" by auto
  then show ?thesis
  proof cases
    case 1
    show ?thesis unfolding 1 table_combine.simps table_suffixes.simps suffix_values_def table_decomposition list.map list.case
        suffix_values_empty sfx using assms(1,2) by (simp add: run algebra_simps)
  next
    case 2
    show ?thesis unfolding 2 table_combine.simps table_suffixes.simps suffix_values_def table_decomposition list.map list.case
        suffix_values_empty sfx using assms(1,2) by (simp add: run algebra_simps)
  next
    case 3
    show ?thesis unfolding 3 table_combine.simps table_suffixes.simps suffix_values_def table_decomposition list.map list.case
        suffix_values_empty sfx using assms(1,2) by (simp add: run algebra_simps)
  qed
qed

lemma rest_bits:
  assumes "0 < i" "i + m = 64"
  shows "bit_run m x y i st P_And = st P_And + of_nat (unat (x AND y) mod 2 ^ m)"
    "bit_run m x y i st P_Andn = st P_Andn + of_nat (unat (x AND NOT y) mod 2 ^ m)"
    "bit_run m x y i st P_Or = st P_Or + of_nat (unat (x OR y) mod 2 ^ m)"
    "bit_run m x y i st P_Xor = st P_Xor + of_nat (unat (x XOR y) mod 2 ^ m)"
    "bit_run m x y i st P_RightOperand = st P_RightOperand + of_nat (unat y mod 2 ^ m)"
    "bit_run m x y i st P_LeftMsbRightOperand = st P_LeftMsbRightOperand + st P_LeftOperandMsb * of_nat (unat y mod 2 ^ m)"
proof -
  have z: "64 - i - m = 0" and le: "i + m \<le> 64" using assms by auto
  show "bit_run m x y i st P_And = st P_And + of_nat (unat (x AND y) mod 2 ^ m)"
    "bit_run m x y i st P_Andn = st P_Andn + of_nat (unat (x AND NOT y) mod 2 ^ m)"
    "bit_run m x y i st P_Or = st P_Or + of_nat (unat (x OR y) mod 2 ^ m)"
    "bit_run m x y i st P_Xor = st P_Xor + of_nat (unat (x XOR y) mod 2 ^ m)"
    "bit_run m x y i st P_RightOperand = st P_RightOperand + of_nat (unat y mod 2 ^ m)"
    "bit_run m x y i st P_LeftMsbRightOperand = st P_LeftMsbRightOperand + st P_LeftOperandMsb * of_nat (unat y mod 2 ^ m)"
    unfolding bit_run_bitwise [OF le] bit_run_andn [OF le] bit_run_left_msb_right [OF assms(1) le] z by simp_all
qed

lemma combine_rest_other:
  assumes "0 < i" "i + m = 64" "m = 0 \<or> 3 \<le> m" "t \<notin> {Srl, Sra, Rotr}"
  shows "table_combine t st (suffix_values t (low_bits_of m x y)) =
    table_combine t (bit_run m x y i st) (suffix_values t (low_bits_of 0 0 0))"
proof -
  have m: "m \<le> 64" and le0: "(0 :: nat) \<le> 64" using assms by auto
  have pow: "suffix_evaluate S_Pow2 (low_bits_of m x y) * st P_Pow2 = bit_run m x y i st P_Pow2"
    using assms(3)
  proof
    assume z: "m = 0"
    show ?thesis unfolding z suffix_powers(1) [OF le0] by (simp add: chunk_point_def)
  next
    assume m3: "3 \<le> m"
    show ?thesis unfolding suffix_powers(2) [OF m m3] bit_run_pow2 [OF assms(2) m3] by (rule mult.commute)
  qed
  note run = rest_bits [OF assms(1,2)] bit_run_tests(1-3) [OF m] bit_run_tests(4) [OF assms(1) m] bit_run_sign_0 [OF assms(1,2)]
    rest_words [OF assms(2)] rest_overflow [OF assms(2)] rest_upper_half [OF assms(2)] bit_run_counts [OF m] bit_run_clz [OF m] bit_run_ctz [OF m]
  note sfx = suffix_bitwise [OF m] suffix_tests [OF m] suffix_counts [OF m] suffix_words [OF m] suffix_powers(3) [OF m]
  show ?thesis
    using assms(4)
    by (cases t; simp only: table_combine.simps table_suffixes.simps suffix_values_def table_decomposition list.map list.case
          suffix_values_empty sfx run pow [symmetric] taken_0_iff option.inject Let_def;
        simp add: algebra_simps)
qed

text \<open>The suffixes of the remaining bits stand for the updates of those bits.\<close>

lemma combine_rest:
  assumes "0 < i" "i + m = 64" "m = 0 \<or> 3 \<le> m" "shift_operand t y"
  shows "table_combine t st (suffix_values t (low_bits_of m x y)) =
    table_combine t (bit_run m x y i st) (suffix_values t (low_bits_of 0 0 0))"
proof (cases "t \<in> {Srl, Sra, Rotr}")
  case True
  show ?thesis by (rule combine_rest_shifts [OF assms(1,2) True assms(4)])
next
  case False
  show ?thesis by (rule combine_rest_other [OF assms(1-3) False])
qed

lemma combine_prefix_suffix:
  assumes "length r = 2 * i" "0 < i" "i + m = 64" "m = 0 \<or> 3 \<le> m" "shift_operand t y"
  shows "table_combine t (bound_prefixes r) (suffix_values t (low_bits_of m x y)) =
    Some (table_mle_value t (r @ chunk_point m (interleave_bits x y)))"
proof -
  have run: "bit_run m x y i (bound_prefixes r) = bound_prefixes (r @ chunk_point m (interleave_bits x y))"
    using assms(1) by (simp add: bound_prefixes_def run_pairs_append)
  have len: "length (r @ chunk_point m (interleave_bits x y)) = 128" using assms(1,3) by simp
  show ?thesis unfolding combine_rest [OF assms(2-5)] run lb_new_0 [of 0, symmetric] by (rule combine_bound [OF len])
qed


section \<open>The table of a phase\<close>

lemma operands_of_index: "v = interleave_bits (fst (uninterleave_bits v)) (snd (uninterleave_bits v))"
  by (rule bit_word_eqI) (auto simp: bit_interleave bit_uninterleave)

text \<open>The table of a prefix over the bits of a phase, bound at the phase's variables, is the run of
  the pair updates at these variables.\<close>

lemma phase_table_bound:
  assumes "phase_aligned i k" "checkpoints_ok i st" "length r = 2 * k"
  shows "table_mle (map (\<lambda>v. prefix_evaluate p st (lb_new (of_nat v) (2 * k)) (128 - 2 * i - 2 * k)) [0..<2 ^ (2 * k)]) r =
    run_pairs i r st p"
proof -
  have k: "2 * k \<le> 128" using assms(1) by (auto simp: phase_aligned_def)
  have "prefix_evaluate p st (lb_new (of_nat v) (2 * k)) (128 - 2 * i - 2 * k) = run_pairs i (bool_point (msb_bits (2 * k) v)) st p"
    if v: "v < 2 ^ (2 * k)" for v
  proof -
    have "v < 2 ^ 128" using v power_increasing [OF k, of "2 :: nat"] by (rule order.strict_trans2) simp
    then have u: "unat (of_nat v :: u128) = v" unfolding unat_of_nat by (simp add: take_bit_nat_eq_self)
    obtain x y where w: "(of_nat v :: u128) = interleave_bits x y" using operands_of_index by blast
    show ?thesis using prefix_evaluate_run [OF assms(1,2), of p x y] unfolding w [symmetric] chunk_point_def u .
  qed
  then have "map (\<lambda>v. prefix_evaluate p st (lb_new (of_nat v) (2 * k)) (128 - 2 * i - 2 * k)) [0..<2 ^ (2 * k)] =
      hypercube_table (2 * k) (\<lambda>r. run_pairs i r st p)"
    unfolding hypercube_table_def by (intro map_cong) auto
  moreover have "multi_affine (2 * k) (\<lambda>r. run_pairs i r st p)"
    by (rule run_pairs_affine [OF affine_component])
  ultimately show ?thesis using multi_affine_table assms(3) by simp
qed

end
