(* ===== verification/Gauss.thy ===== *)
theory Gauss
  imports Univariate_Poly
begin

text \<open>
  The interpolation by Gaussian elimination of \<^verbatim>\<open>jolt-poly/src/univariate.rs\<close>:
  \<open>from_evals\<close> and its variants with a hint and with the value at infinity. The elimination
  is modelled pass by pass on the augmented matrix; a missing pivot is \<open>None\<close>. The lemmas show
  that every pass preserves the solutions, and that a nonsingular system is solved.
\<close>

section \<open>The elimination\<close>

type_synonym 'f augmented = "'f list list"

text \<open>\<open>dst[k] -= factor * src[k]\<close> for the given columns, in order.\<close>

definition row_sub :: "nat list \<Rightarrow> 'f::field \<Rightarrow> 'f list \<Rightarrow> 'f list \<Rightarrow> 'f list" where
  "row_sub ks factor src dst = fold (\<lambda>k d. d[k := d ! k - factor * src ! k]) ks dst"

definition eliminate :: "nat list \<Rightarrow> nat \<Rightarrow> nat list \<Rightarrow> 'f::field augmented \<Rightarrow> 'f augmented" where
  "eliminate ks i js m =
     fold (\<lambda>j m. let pivot_inv = inverse (m ! i ! i); factor = m ! j ! i * pivot_inv in
           m[j := row_sub ks factor (m ! i) (m ! j)]) js m"

definition forward_pass :: "nat \<Rightarrow> nat \<Rightarrow> 'f::field augmented \<Rightarrow> 'f augmented option" where
  "forward_pass sz i m =
     (case find (\<lambda>r. m ! r ! i \<noteq> 0) [i..<sz] of
        None \<Rightarrow> None
      | Some pivot_row \<Rightarrow>
          (let m = (if pivot_row \<noteq> i then m[i := m ! pivot_row, pivot_row := m ! i] else m) in
           Some (eliminate [i..<Suc sz] i [i + 1..<sz] m)))"

definition back_pass :: "nat \<Rightarrow> nat \<Rightarrow> 'f::field augmented \<Rightarrow> 'f augmented option" where
  "back_pass sz i m =
     (if m ! i ! i = 0 then None else Some (eliminate (rev [0..<Suc sz]) i (rev [0..<i]) m))"

fun passes :: "('i \<Rightarrow> 'm \<Rightarrow> 'm option) \<Rightarrow> 'i list \<Rightarrow> 'm \<Rightarrow> 'm option" where
  "passes f [] m = Some m"
| "passes f (i # is) m = Option.bind (f i m) (passes f is)"

definition read_solution :: "nat \<Rightarrow> 'f::field augmented \<Rightarrow> 'f list option" where
  "read_solution sz m =
     (if \<exists>i \<in> set [0..<sz]. field_inverse (m ! i ! i) = None then None
      else Some (map (\<lambda>i. m ! i ! sz * inverse (m ! i ! i)) [0..<sz]))"

definition gaussian_elimination_augmented :: "'f::field augmented \<Rightarrow> 'f list option" where
  "gaussian_elimination_augmented m =
     (let sz = length m in
      Option.bind (passes (forward_pass sz) [0..<sz - 1] m) (\<lambda>m.
      Option.bind (passes (back_pass sz) (rev [1..<sz]) m) (read_solution sz)))"

section \<open>Interpolation\<close>

text \<open>The powers of a row: \<open>n\<close> entries from the first power on.\<close>

fun powers_from :: "nat \<Rightarrow> 'f::field \<Rightarrow> 'f \<Rightarrow> 'f list" where
  "powers_from 0 x pw = []"
| "powers_from (Suc n) x pw = pw # powers_from n x (pw * x)"

definition gaussian_elimination_vandermonde :: "'f::field list \<Rightarrow> 'f list option" where
  "gaussian_elimination_vandermonde evals =
     (let n = length evals; xs = map of_nat [0..<n] in
      gaussian_elimination_augmented
        (map (\<lambda>i. powers_from n (xs ! i) 1 @ [evals ! i]) [0..<n]))"

definition from_evals :: "'f::field list \<Rightarrow> 'f univariate_poly option" where
  "from_evals evals = gaussian_elimination_vandermonde evals"

definition from_evals_and_hint :: "'f::field \<Rightarrow> 'f list \<Rightarrow> 'f univariate_poly option" where
  "from_evals_and_hint hint evals =
     (case evals of [] \<Rightarrow> None | e0 # rest \<Rightarrow> from_evals (e0 # (hint - e0) # rest))"

definition from_evals_toom :: "'f::field list \<Rightarrow> 'f univariate_poly option" where
  "from_evals_toom evals =
     (let n = length evals in
      if n = 0 then None
      else gaussian_elimination_augmented
        (map (\<lambda>(i, eval). powers_from n (of_nat i) 1 @ [eval]) (enumerate 0 (take (n - 1) evals))
         @ [(replicate n 0)[n - 1 := 1] @ [evals ! (n - 1)]]))"

section \<open>A pass\<close>

lemma ivl_below [simp]: "{a..<b} \<subseteq> {..<c} \<longleftrightarrow> b \<le> a \<or> b \<le> c" for a b c :: nat
  by (auto simp: subset_iff) (metis le_less_linear less_le_not_le nat_le_linear not_less)

lemma row_sub_nth:
  assumes "distinct ks" "set ks \<subseteq> {..<length dst}"
  shows "length (row_sub ks f src dst) = length dst"
    and "c < length dst \<Longrightarrow> row_sub ks f src dst ! c = (if c \<in> set ks then dst ! c - f * src ! c else dst ! c)"
proof -
  have "length (row_sub ks f src dst) = length dst \<and>
    (\<forall>c < length dst. row_sub ks f src dst ! c = (if c \<in> set ks then dst ! c - f * src ! c else dst ! c))"
    using assms
  proof (induction ks arbitrary: dst)
    case (Cons k ks)
    from Cons.IH [of "dst[k := dst ! k - f * src ! k]"] Cons.prems show ?case
      by (auto simp: row_sub_def nth_list_update)
  qed (simp add: row_sub_def)
  then show "length (row_sub ks f src dst) = length dst"
    and "c < length dst \<Longrightarrow> row_sub ks f src dst ! c = (if c \<in> set ks then dst ! c - f * src ! c else dst ! c)"
    by auto
qed

lemma eliminate_rows:
  assumes "distinct js" "i \<notin> set js" "set js \<subseteq> {..<length m}"
  shows "length (eliminate ks i js m) = length m"
    and "r < length m \<Longrightarrow> eliminate ks i js m ! r =
      (if r \<in> set js then row_sub ks (m ! r ! i * inverse (m ! i ! i)) (m ! i) (m ! r) else m ! r)"
proof -
  have "length (eliminate ks i js m) = length m \<and> (\<forall>r < length m. eliminate ks i js m ! r =
      (if r \<in> set js then row_sub ks (m ! r ! i * inverse (m ! i ! i)) (m ! i) (m ! r) else m ! r))"
    using assms
  proof (induction js arbitrary: m)
    case (Cons j js)
    let ?m = "m[j := row_sub ks (m ! j ! i * inverse (m ! i ! i)) (m ! i) (m ! j)]"
    have "eliminate ks i (j # js) m = eliminate ks i js ?m" by (simp add: eliminate_def Let_def)
    moreover have "?m ! i = m ! i" "?m ! j = row_sub ks (m ! j ! i * inverse (m ! i ! i)) (m ! i) (m ! j)"
      using Cons.prems by auto
    moreover have "?m ! r = m ! r" if "r \<noteq> j" for r using that by simp
    moreover have "length (eliminate ks i js ?m) = length ?m \<and> (\<forall>r < length ?m. eliminate ks i js ?m ! r =
      (if r \<in> set js then row_sub ks (?m ! r ! i * inverse (?m ! i ! i)) (?m ! i) (?m ! r) else ?m ! r))"
      by (rule Cons.IH) (use Cons.prems in auto)
    ultimately show ?case using Cons.prems(1) by (metis distinct.simps(2) length_list_update list.set_intros(1,2) set_ConsD)
  qed (simp add: eliminate_def)
  then show "length (eliminate ks i js m) = length m"
    and "r < length m \<Longrightarrow> eliminate ks i js m ! r =
      (if r \<in> set js then row_sub ks (m ! r ! i * inverse (m ! i ! i)) (m ! i) (m ! r) else m ! r)"
    by auto
qed

text \<open>The matrices of \<open>sz\<close> rows, and the value of a row under weights of the columns: a solution
  is a weighting that is \<open>-1\<close> on the last column and vanishes on every row.\<close>

definition rect :: "nat \<Rightarrow> 'f augmented \<Rightarrow> bool" where
  "rect sz m \<longleftrightarrow> length m = sz \<and> (\<forall>r < sz. length (m ! r) = Suc sz)"

definition row_value :: "nat \<Rightarrow> (nat \<Rightarrow> 'f::field) \<Rightarrow> 'f list \<Rightarrow> 'f" where
  "row_value sz w row = (\<Sum>c<Suc sz. row ! c * w c)"

definition vanishes :: "nat \<Rightarrow> 'f::field augmented \<Rightarrow> (nat \<Rightarrow> 'f) \<Rightarrow> bool" where
  "vanishes sz m w \<longleftrightarrow> (\<forall>r < sz. row_value sz w (m ! r) = 0)"

lemma row_value_sub:
  assumes "distinct ks" "set ks \<subseteq> {..<Suc sz}" "length dst = Suc sz"
    and "\<And>c. c < Suc sz \<Longrightarrow> c \<notin> set ks \<Longrightarrow> src ! c = 0"
  shows "row_value sz w (row_sub ks f src dst) = row_value sz w dst - f * row_value sz w src"
proof -
  have "row_sub ks f src dst ! c = dst ! c - f * src ! c" if "c < Suc sz" for c
    using row_sub_nth(2) [OF assms(1), of dst c f src] assms(2,3) assms(4) [OF that] that by auto
  then have "row_value sz w (row_sub ks f src dst) = (\<Sum>c<Suc sz. (dst ! c - f * src ! c) * w c)"
    unfolding row_value_def by (intro sum.cong) auto
  also have "\<dots> = (\<Sum>c<Suc sz. dst ! c * w c - f * (src ! c * w c))"
    by (intro sum.cong) (auto simp: algebra_simps)
  finally show ?thesis unfolding row_value_def by (simp only: sum_subtractf sum_distrib_left)
qed

lemma eliminate_rect:
  assumes "rect sz m" "distinct js" "i \<notin> set js" "set js \<subseteq> {..<sz}" "distinct ks" "set ks \<subseteq> {..<Suc sz}"
  shows "rect sz (eliminate ks i js m)"
proof -
  have "length (row_sub ks f src (m ! r)) = Suc sz" if "r < sz" for f src r
    using that assms row_sub_nth(1) [of ks "m ! r"] by (auto simp: rect_def)
  moreover have "length m = sz" using assms(1) by (simp add: rect_def)
  ultimately show ?thesis
    using eliminate_rows [OF assms(2,3), of m] assms(1,4) by (auto simp: rect_def)
qed

lemma eliminate_vanishes:
  assumes "rect sz m" "distinct js" "i \<notin> set js" "set js \<subseteq> {..<sz}" "distinct ks" "set ks \<subseteq> {..<Suc sz}"
    and "i < sz" "\<And>c. c < Suc sz \<Longrightarrow> c \<notin> set ks \<Longrightarrow> m ! i ! c = 0"
  shows "vanishes sz (eliminate ks i js m) w \<longleftrightarrow> vanishes sz m w"
proof -
  have len: "length m = sz" "\<And>r. r < sz \<Longrightarrow> length (m ! r) = Suc sz" using assms(1) by (auto simp: rect_def)
  have row: "row_value sz w (eliminate ks i js m ! r) =
      (if r \<in> set js then row_value sz w (m ! r) - m ! r ! i * inverse (m ! i ! i) * row_value sz w (m ! i)
       else row_value sz w (m ! r))" if "r < sz" for r
    using that eliminate_rows(2) [OF assms(2,3), of m r ks] assms(4,7) len
      row_value_sub [OF assms(5,6) len(2) [OF that] assms(8)] by (auto simp: subset_iff)
  show ?thesis
  proof
    assume v: "vanishes sz (eliminate ks i js m) w"
    then have "row_value sz w (m ! i) = 0" using row [OF assms(7)] assms(3,7) by (simp add: vanishes_def)
    then show "vanishes sz m w" using v row by (auto simp: vanishes_def split: if_splits)
  next
    assume "vanishes sz m w"
    then show "vanishes sz (eliminate ks i js m) w" using row assms(7) by (simp add: vanishes_def)
  qed
qed

section \<open>Forward elimination\<close>

definition triangular :: "nat \<Rightarrow> nat \<Rightarrow> 'f::field augmented \<Rightarrow> bool" where
  "triangular sz i m \<longleftrightarrow> rect sz m \<and>
     (\<forall>c < i. m ! c ! c \<noteq> 0) \<and> (\<forall>c < i. \<forall>r. c < r \<and> r < sz \<longrightarrow> m ! r ! c = 0)"

lemma swap_triangular:
  assumes "triangular sz i m" "i \<le> p" "p < sz"
  shows "triangular sz i (m[i := m ! p, p := m ! i])"
    "vanishes sz (m[i := m ! p, p := m ! i]) w \<longleftrightarrow> vanishes sz m w"
    "m[i := m ! p, p := m ! i] ! i = m ! p"
proof -
  have len: "length m = sz" using assms(1) by (simp add: triangular_def rect_def)
  have i: "i < sz" using assms by simp
  have nth: "m[i := m ! p, p := m ! i] ! r = (if r = p then m ! i else if r = i then m ! p else m ! r)" if "r < sz" for r
    using that len by (auto simp: nth_list_update)
  show "m[i := m ! p, p := m ! i] ! i = m ! p" using nth [OF i] by simp
  show "triangular sz i (m[i := m ! p, p := m ! i])"
    using assms i nth len by (auto simp: triangular_def rect_def)
  show "vanishes sz (m[i := m ! p, p := m ! i]) w \<longleftrightarrow> vanishes sz m w"
    using nth i assms(3) unfolding vanishes_def by metis
qed

lemma eliminate_below:
  assumes "triangular sz i m" "i < sz" "m ! i ! i \<noteq> 0"
  shows "triangular sz (Suc i) (eliminate [i..<Suc sz] i [i + 1..<sz] m)"
    "vanishes sz (eliminate [i..<Suc sz] i [i + 1..<sz] m) w \<longleftrightarrow> vanishes sz m w"
proof -
  let ?m = "eliminate [i..<Suc sz] i [i + 1..<sz] m"
  have rect: "rect sz m" and len: "length m = sz" "\<And>r. r < sz \<Longrightarrow> length (m ! r) = Suc sz"
    using assms(1) by (auto simp: triangular_def rect_def)
  have zero: "m ! r ! c = 0" if "c < i" "c < r" "r < sz" for r c using assms(1) that by (simp add: triangular_def)
  show "vanishes sz ?m w \<longleftrightarrow> vanishes sz m w"
    by (rule eliminate_vanishes [OF rect]) (use assms(2) zero in auto)
  have rect': "rect sz ?m" by (rule eliminate_rect [OF rect]) auto
  have row: "?m ! r = (if i < r then row_sub [i..<Suc sz] (m ! r ! i * inverse (m ! i ! i)) (m ! i) (m ! r) else m ! r)"
    if "r < sz" for r
    using that eliminate_rows(2) [of "[i + 1..<sz]" i m r "[i..<Suc sz]"] len by auto
  have entry: "?m ! r ! c = (if i \<le> c \<and> i < r then m ! r ! c - m ! r ! i * inverse (m ! i ! i) * m ! i ! c else m ! r ! c)"
    if "r < sz" "c < sz" for r c
    using that row [OF that(1)] row_sub_nth(2) [of "[i..<Suc sz]" "m ! r" c] len(2) [OF that(1)]
    by (auto simp del: upt_Suc)
  show "triangular sz (Suc i) ?m"
    using rect' assms entry zero by (auto simp: triangular_def less_Suc_eq)
qed

lemma forward_pass_correct:
  assumes "triangular sz i m" "i < sz" "forward_pass sz i m = Some m'"
  shows "triangular sz (Suc i) m'" "vanishes sz m' w \<longleftrightarrow> vanishes sz m w"
proof -
  obtain p where p: "find (\<lambda>r. m ! r ! i \<noteq> 0) [i..<sz] = Some p"
    using assms(3) by (auto simp: forward_pass_def split: option.splits)
  then have pr: "i \<le> p" "p < sz" "m ! p ! i \<noteq> 0" by (auto simp: find_Some_iff)
  let ?m = "if p \<noteq> i then m[i := m ! p, p := m ! i] else m"
  have m': "m' = eliminate [i..<Suc sz] i [i + 1..<sz] ?m"
    using assms(3) p by (simp add: forward_pass_def Let_def)
  have tri: "triangular sz i ?m" "?m ! i ! i \<noteq> 0" "vanishes sz ?m w \<longleftrightarrow> vanishes sz m w"
    using swap_triangular [OF assms(1) pr(1,2)] assms(1) pr(3) by auto
  show "triangular sz (Suc i) m'" "vanishes sz m' w \<longleftrightarrow> vanishes sz m w"
    unfolding m' using eliminate_below [OF tri(1) assms(2) tri(2)] tri(3) by blast+
qed

text \<open>A column without a pivot makes the system singular: its unknown can be chosen.\<close>

definition nonsingular :: "nat \<Rightarrow> 'f::field augmented \<Rightarrow> bool" where
  "nonsingular sz m \<longleftrightarrow> (\<forall>w. w sz = 0 \<longrightarrow> vanishes sz m w \<longrightarrow> (\<forall>c < sz. w c = 0))"

lemma singular_column:
  assumes "triangular sz i m" "i < sz" "\<And>r. i \<le> r \<Longrightarrow> r < sz \<Longrightarrow> m ! r ! i = 0"
  shows "\<not> nonsingular sz m"
proof -
  have zero: "m ! r ! c = 0" if "c < i" "c < r" "r < sz" for r c using assms(1) that by (simp add: triangular_def)
  have "\<exists>w. w i = 1 \<and> (\<forall>c > i. w c = 0) \<and> (\<forall>r. i - k \<le> r \<and> r < sz \<longrightarrow> row_value sz w (m ! r) = 0)" if "k \<le> i" for k
    using that
  proof (induction k)
    case 0
    let ?w = "\<lambda>c. if c = i then 1 else 0"
    have "row_value sz ?w (m ! r) = m ! r ! i" for r
      using assms(2) by (simp add: row_value_def if_distrib [of "(*) _"] cong: if_cong)
    then show ?case using assms(3) by (intro exI [of _ ?w]) auto
  next
    case (Suc k)
    then obtain w where w: "w i = 1" "\<forall>c > i. w c = 0" "\<forall>r. i - k \<le> r \<and> r < sz \<longrightarrow> row_value sz w (m ! r) = 0"
      by auto
    let ?r = "i - Suc k"
    have r: "?r < i" "?r < sz" "i - k = Suc ?r" using Suc.prems assms(2) by auto
    have d: "m ! ?r ! ?r \<noteq> 0" using assms(1) r by (simp add: triangular_def)
    define v where "v = w ?r - row_value sz w (m ! ?r) * inverse (m ! ?r ! ?r)"
    have upd: "row_value sz (w(?r := v)) row = row_value sz w row + row ! ?r * (v - w ?r)" for row
    proof -
      have "row ! c * (w(?r := v)) c = row ! c * w c + (if c = ?r then row ! ?r * (v - w ?r) else 0)" for c
        by (simp add: algebra_simps)
      then show ?thesis using r(2) by (simp add: row_value_def sum.distrib)
    qed
    have "row_value sz (w(?r := v)) (m ! ?r) = 0" unfolding upd using d by (simp add: v_def)
    moreover have other: "row_value sz (w(?r := v)) (m ! q) = 0" if "i - k \<le> q" "q < sz" for q
      unfolding upd using w(3) zero [OF r(1), of q] that r(3) by simp
    ultimately have "row_value sz (w(?r := v)) (m ! q) = 0" if "i - Suc k \<le> q" "q < sz" for q
      using that r(3) by (cases "q = ?r") auto
    moreover have "(w(?r := v)) i = 1" "\<forall>c > i. (w(?r := v)) c = 0" using w(1,2) r(1) by auto
    ultimately show ?case by blast
  qed
  from this [of i] obtain w where "w i = 1" "\<forall>c > i. w c = 0" "\<forall>r < sz. row_value sz w (m ! r) = 0" by auto
  moreover from this have "w sz = 0" "w i \<noteq> 0" using assms(2) by auto
  ultimately show ?thesis using assms(2) unfolding nonsingular_def vanishes_def by blast
qed

lemma forward_pass_total:
  assumes "triangular sz i m" "i < sz" "nonsingular sz m"
  obtains m' where "forward_pass sz i m = Some m'"
proof (cases "find (\<lambda>r. m ! r ! i \<noteq> 0) [i..<sz]")
  case None
  then have "m ! r ! i = 0" if "i \<le> r" "r < sz" for r using that by (auto simp: find_None_iff)
  then show ?thesis using singular_column [OF assms(1,2)] assms(3) by blast
qed (use that in \<open>simp add: forward_pass_def Let_def\<close>)

lemma forward_correct:
  assumes "triangular sz i m" "i \<le> n" "n \<le> sz" 
  shows "passes (forward_pass sz) [i..<n] m = Some m' \<Longrightarrow>
      triangular sz n m' \<and> (\<forall>w. vanishes sz m' w \<longleftrightarrow> vanishes sz m w)"
    "nonsingular sz m \<Longrightarrow> \<exists>m'. passes (forward_pass sz) [i..<n] m = Some m'"
proof -
  have "(passes (forward_pass sz) [i..<n] m = Some m' \<longrightarrow>
      triangular sz n m' \<and> (\<forall>w. vanishes sz m' w \<longleftrightarrow> vanishes sz m w)) \<and>
    (nonsingular sz m \<longrightarrow> (\<exists>m'. passes (forward_pass sz) [i..<n] m = Some m'))"
    using assms
  proof (induction "n - i" arbitrary: i m)
    case (Suc d)
    then have i: "i < n" "i < sz" "[i..<n] = i # [Suc i..<n]" "d = n - Suc i" by (auto simp: upt_conv_Cons)
    show ?case
    proof (cases "forward_pass sz i m")
      case None
      then have "\<not> nonsingular sz m" using forward_pass_total [OF Suc.prems(1) i(2)] by (metis option.distinct(1))
      then show ?thesis using None i(3) by simp
    next
      case (Some m1)
      note f = forward_pass_correct [OF Suc.prems(1) i(2) Some]
      have ns: "nonsingular sz m1 \<longleftrightarrow> nonsingular sz m" using f(2) by (simp add: nonsingular_def)
      show ?thesis using Suc.hyps(1) [OF i(4) f(1)] i f(2) ns Some Suc.prems(3) by simp
    qed
  qed auto
  then show "passes (forward_pass sz) [i..<n] m = Some m' \<Longrightarrow>
      triangular sz n m' \<and> (\<forall>w. vanishes sz m' w \<longleftrightarrow> vanishes sz m w)"
    "nonsingular sz m \<Longrightarrow> \<exists>m'. passes (forward_pass sz) [i..<n] m = Some m'" by blast+
qed

section \<open>Back substitution\<close>

text \<open>The columns from \<open>i\<close> on hold only their diagonal.\<close>

definition cleared :: "nat \<Rightarrow> nat \<Rightarrow> 'f::field augmented \<Rightarrow> bool" where
  "cleared sz i m \<longleftrightarrow> triangular sz (sz - 1) m \<and>
     (\<forall>c. i \<le> c \<and> c < sz \<longrightarrow> m ! c ! c \<noteq> 0 \<and> (\<forall>r < c. m ! r ! c = 0))"

lemma back_pass_correct:
  assumes "cleared sz (Suc i) m" "i < sz" "back_pass sz i m = Some m'"
  shows "cleared sz i m'" "vanishes sz m' w \<longleftrightarrow> vanishes sz m w"
proof -
  have m': "m' = eliminate (rev [0..<Suc sz]) i (rev [0..<i]) m" and d: "m ! i ! i \<noteq> 0"
    using assms(3) by (auto simp: back_pass_def split: if_splits)
  have tri: "triangular sz (sz - 1) m" and rect: "rect sz m" and len: "length m = sz" "\<And>r. r < sz \<Longrightarrow> length (m ! r) = Suc sz"
    using assms(1) by (auto simp: cleared_def triangular_def rect_def)
  show "vanishes sz m' w \<longleftrightarrow> vanishes sz m w" unfolding m'
    by (rule eliminate_vanishes [OF rect]) (use assms(2) in auto)
  have rect': "rect sz m'" unfolding m' by (rule eliminate_rect [OF rect]) (use assms(2) in auto)
  have row: "m' ! r = (if r < i then row_sub (rev [0..<Suc sz]) (m ! r ! i * inverse (m ! i ! i)) (m ! i) (m ! r) else m ! r)"
    if "r < sz" for r
  proof -
    have "set (rev [0..<i]) \<subseteq> {..<length m}" using assms(2) len(1) by auto
    then show ?thesis unfolding m' using that len(1)
      by (subst eliminate_rows(2)) (auto simp del: upt_Suc)
  qed
  have entry: "m' ! r ! c = (if r < i then m ! r ! c - m ! r ! i * inverse (m ! i ! i) * m ! i ! c else m ! r ! c)"
    if "r < sz" "c < sz" for r c
    using that row [OF that(1)] row_sub_nth(2) [of "rev [0..<Suc sz]" "m ! r" c] len(2) [OF that(1)]
    by (auto simp del: upt_Suc)
  have src: "m ! i ! c = 0" if "c \<noteq> i" "c < sz" for c
    using that assms(1,2) by (cases "c < i") (auto simp: cleared_def triangular_def)
  have off: "m' ! r ! c = m ! r ! c" if "c \<noteq> i" "r < sz" "c < sz" for r c
    using that entry src by simp
  have diag: "m' ! r ! i = 0" if "r < i" for r using that entry assms(2) d by simp
  have keep: "m' ! r ! i = m ! r ! i" if "i \<le> r" "r < sz" for r using that entry assms(2) by simp
  have tri': "triangular sz (sz - 1) m'"
    unfolding triangular_def
  proof (intro conjI allI impI)
    show "m' ! c ! c \<noteq> 0" if "c < sz - 1" for c
      using that tri off [of c c] keep [of c] by (cases "c = i") (auto simp: triangular_def)
    show "m' ! r ! c = 0" if "c < sz - 1" "c < r \<and> r < sz" for c r
      using that tri off [of c r] keep [of r] by (cases "c = i") (auto simp: triangular_def)
  qed (rule rect')
  have "m' ! c ! c \<noteq> 0 \<and> (\<forall>r < c. m' ! r ! c = 0)" if "i \<le> c" "c < sz" for c
  proof (cases "c = i")
    case True
    then show ?thesis using d keep [of i] diag assms(2) by simp
  next
    case False
    then show ?thesis using that off assms(1) by (auto simp: cleared_def)
  qed
  then show "cleared sz i m'" using tri' by (simp add: cleared_def)
qed

lemma back_correct:
  assumes "cleared sz i m" "1 \<le> i" "i \<le> sz"
  shows "passes (back_pass sz) (rev [1..<i]) m = Some m' \<Longrightarrow>
      cleared sz 1 m' \<and> (\<forall>w. vanishes sz m' w \<longleftrightarrow> vanishes sz m w)"
    "nonsingular sz m \<Longrightarrow> \<exists>m'. passes (back_pass sz) (rev [1..<i]) m = Some m'"
proof -
  have "(passes (back_pass sz) (rev [1..<i]) m = Some m' \<longrightarrow>
      cleared sz 1 m' \<and> (\<forall>w. vanishes sz m' w \<longleftrightarrow> vanishes sz m w)) \<and>
    (nonsingular sz m \<longrightarrow> (\<exists>m'. passes (back_pass sz) (rev [1..<i]) m = Some m'))"
    using assms
  proof (induction "i - 1" arbitrary: i m)
    case (Suc d)
    then obtain j where j: "i = Suc j" "1 \<le> j" "j < sz" "d = j - 1" by (cases i) auto
    have up: "rev [1..<i] = j # rev [1..<j]" using j by simp
    show ?case
    proof (cases "back_pass sz j m")
      case None
      then have zero: "m ! j ! j = 0" by (auto simp: back_pass_def split: if_splits)
      have tri: "triangular sz (sz - 1) m" using Suc.prems(1) by (simp add: cleared_def)
      then have "j = sz - 1" using zero j(3) by (cases "j < sz - 1") (auto simp: triangular_def)
      then have "m ! r ! (sz - 1) = 0" if "sz - 1 \<le> r" "r < sz" for r
        using zero that by (metis One_nat_def Suc_pred le_antisym less_Suc_eq_le not_less_zero gr0I)
      then have "\<not> nonsingular sz m" using singular_column [OF tri] j(3) by simp
      then show ?thesis using None up by simp
    next
      case (Some m1)
      note b = back_pass_correct [OF Suc.prems(1) [unfolded j(1)] j(3) Some]
      have ns: "nonsingular sz m1 \<longleftrightarrow> nonsingular sz m" using b(2) by (simp add: nonsingular_def)
      show ?thesis using Suc.hyps(1) [OF j(4) b(1) j(2)] j(3) b(2) ns Some up by simp
    qed
  next
    case 0
    then have "i = 1" by simp
    then show ?case using 0 by auto
  qed
  then show "passes (back_pass sz) (rev [1..<i]) m = Some m' \<Longrightarrow>
      cleared sz 1 m' \<and> (\<forall>w. vanishes sz m' w \<longleftrightarrow> vanishes sz m w)"
    "nonsingular sz m \<Longrightarrow> \<exists>m'. passes (back_pass sz) (rev [1..<i]) m = Some m'" by blast+
qed

section \<open>The solution\<close>

lemma read_solution_correct:
  assumes "cleared sz 1 m" "read_solution sz m = Some x" "w sz = -1"
  shows "vanishes sz m w \<longleftrightarrow> (\<forall>i < sz. w i = x ! i)"
proof -
  have diag: "m ! i ! i \<noteq> 0" if "i < sz" for i
    using assms(2) that by (auto simp: read_solution_def field_inverse_def split: if_splits)
  have x: "x ! i = m ! i ! sz * inverse (m ! i ! i)" if "i < sz" for i
    using assms(2) that by (auto simp: read_solution_def split: if_splits)
  have zero: "m ! r ! c = 0" if "r < sz" "c < sz" "r \<noteq> c" for r c
    using that assms(1) by (cases "r < c") (auto simp: cleared_def triangular_def)
  have "row_value sz w (m ! r) = m ! r ! r * w r - m ! r ! sz" if "r < sz" for r
  proof -
    have "(\<Sum>c<sz. m ! r ! c * w c) = (\<Sum>c<sz. if c = r then m ! r ! r * w r else 0)"
      using zero that by (intro sum.cong) auto
    then show ?thesis using that assms(3) by (simp add: row_value_def)
  qed
  then have "row_value sz w (m ! r) = 0 \<longleftrightarrow> w r = x ! r" if "r < sz" for r
  proof -
    have "row_value sz w (m ! r) = 0 \<longleftrightarrow> m ! r ! r * w r = m ! r ! sz"
      using \<open>\<And>r. r < sz \<Longrightarrow> row_value sz w (m ! r) = m ! r ! r * w r - m ! r ! sz\<close> [OF that] by simp
    also have "\<dots> \<longleftrightarrow> w r = x ! r" using diag [OF that]
      by (simp add: x [OF that] divide_inverse [symmetric] nonzero_eq_divide_eq mult.commute)
    finally show ?thesis .
  qed
  then show ?thesis by (simp add: vanishes_def)
qed

lemma gauss_correct:
  assumes "rect sz m" "0 < sz" "gaussian_elimination_augmented m = Some x"
  shows "length x = sz" "w sz = -1 \<Longrightarrow> vanishes sz m w \<longleftrightarrow> (\<forall>i < sz. w i = x ! i)"
proof -
  have len: "length m = sz" using assms(1) by (simp add: rect_def)
  obtain m1 m2 where f: "passes (forward_pass sz) [0..<sz - 1] m = Some m1"
    and b: "passes (back_pass sz) (rev [1..<sz]) m1 = Some m2" and r: "read_solution sz m2 = Some x"
    using assms(3) by (auto simp: gaussian_elimination_augmented_def len Let_def bind_eq_Some_conv)
  show "length x = sz" using r by (auto simp: read_solution_def split: if_splits)
  have tri: "triangular sz 0 m" using assms(1) by (simp add: triangular_def)
  note fc = forward_correct(1) [OF tri _ _ f]
  then have "cleared sz sz m1" by (auto simp: cleared_def)
  then have bc: "cleared sz 1 m2 \<and> (\<forall>w. vanishes sz m2 w \<longleftrightarrow> vanishes sz m1 w)"
    using back_correct(1) [OF _ _ order_refl b] assms(2) by auto
  show "vanishes sz m w \<longleftrightarrow> (\<forall>i < sz. w i = x ! i)" if "w sz = -1"
    using read_solution_correct [of sz m2 x w] r that fc bc by auto
qed

lemma gauss_total:
  assumes "rect sz m" "0 < sz" "nonsingular sz m"
  obtains x where "gaussian_elimination_augmented m = Some x"
proof -
  have len: "length m = sz" using assms(1) by (simp add: rect_def)
  have tri: "triangular sz 0 m" using assms(1) by (simp add: triangular_def)
  obtain m1 where f: "passes (forward_pass sz) [0..<sz - 1] m = Some m1"
    using forward_correct(2) [OF tri _ _ assms(3), of "sz - 1"] by auto
  note fc = forward_correct(1) [OF tri _ _ f]
  have ns: "nonsingular sz m1" using fc assms(3) by (simp add: nonsingular_def)
  have c1: "cleared sz sz m1" using fc by (auto simp: cleared_def)
  obtain m2 where b: "passes (back_pass sz) (rev [1..<sz]) m1 = Some m2"
    using back_correct(2) [OF c1 _ order_refl ns] assms(2) by auto
  have bc: "cleared sz 1 m2 \<and> (\<forall>w. vanishes sz m2 w \<longleftrightarrow> vanishes sz m1 w)"
    using back_correct(1) [OF c1 _ order_refl b] assms(2) by auto
  then have ns2: "nonsingular sz m2" using ns by (simp add: nonsingular_def)
  have "m2 ! i ! i \<noteq> 0" if "i < sz" for i
  proof (cases "sz = 1")
    case True
    have "triangular sz 0 m2" using bc by (auto simp: cleared_def triangular_def)
    then show ?thesis using singular_column [of sz 0 m2] ns2 True that by auto
  next
    case False
    then show ?thesis using bc that by (cases "i = 0") (auto simp: cleared_def triangular_def)
  qed
  then have "read_solution sz m2 \<noteq> None" by (auto simp: read_solution_def field_inverse_def)
  then show ?thesis using that f b by (auto simp: gaussian_elimination_augmented_def len Let_def)
qed

section \<open>Interpolation\<close>

text \<open>A polynomial with as many roots as coefficients has zero coefficients.\<close>

lemma divide_root_coeffs:
  "\<exists>q. length q = length p - 1 \<and>
    (\<forall>k. up_coeff p k = (case k of 0 \<Rightarrow> up_evaluate p a | Suc k \<Rightarrow> up_coeff q k) - a * up_coeff q k) \<and>
    (\<forall>x. up_evaluate p x = (x - a) * up_evaluate q x + up_evaluate p a)"
proof (induction p)
  case (Cons c p)
  then obtain q where q: "length q = length p - 1"
    "\<And>k. up_coeff p k = (case k of 0 \<Rightarrow> up_evaluate p a | Suc k \<Rightarrow> up_coeff q k) - a * up_coeff q k"
    "\<And>x. up_evaluate p x = (x - a) * up_evaluate q x + up_evaluate p a" by blast
  show ?case
  proof (cases p)
    case Nil
    then show ?thesis by (intro exI [of _ "[]"]) (auto split: nat.split)
  next
    case (Cons d p')
    have "up_coeff (c # p) k = (case k of 0 \<Rightarrow> up_evaluate (c # p) a | Suc k \<Rightarrow> up_coeff (up_evaluate p a # q) k) -
        a * up_coeff (up_evaluate p a # q) k" for k
      using q(2) by (auto split: nat.split simp: algebra_simps)
    moreover have "up_evaluate (c # p) x = (x - a) * up_evaluate (up_evaluate p a # q) x + up_evaluate (c # p) a" for x
    proof -
      have "up_evaluate (c # p) x = c + x * ((x - a) * up_evaluate q x + up_evaluate p a)"
        using q(3) [of x] by simp
      then show ?thesis by (simp add: algebra_simps)
    qed
    moreover have "length (up_evaluate p a # q) = length (c # p) - 1" using q(1) Cons by simp
    ultimately show ?thesis by blast
  qed
qed (auto split: nat.split)

lemma roots_all_zero:
  "distinct as \<Longrightarrow> length as = length p \<Longrightarrow> (\<And>x. x \<in> set as \<Longrightarrow> up_evaluate p x = 0) \<Longrightarrow> up_coeff p k = 0"
proof (induction as arbitrary: p k)
  case (Cons a as)
  obtain q where q: "length q = length p - 1"
    "\<And>k. up_coeff p k = (case k of 0 \<Rightarrow> up_evaluate p a | Suc k \<Rightarrow> up_coeff q k) - a * up_coeff q k"
    "\<And>x. up_evaluate p x = (x - a) * up_evaluate q x + up_evaluate p a"
    using divide_root_coeffs [of p a] by blast
  have "up_evaluate q x = 0" if "x \<in> set as" for x
    using q(3) [of x] Cons.prems that by auto
  then have "up_coeff q k = 0" for k using Cons.IH [of q] Cons.prems(1,2) q(1) by simp
  then show ?case using q(2) [of k] Cons.prems(3) by (simp split: nat.split)
qed simp

lemma powers_from_nth:
  "length (powers_from n x pw) = n" "k < n \<Longrightarrow> powers_from n x pw ! k = pw * x ^ k"
proof -
  show "length (powers_from n x pw) = n" by (induction n arbitrary: pw) simp_all
  show "k < n \<Longrightarrow> powers_from n x pw ! k = pw * x ^ k"
    by (induction n arbitrary: pw k) (auto simp: nth_Cons mult.assoc split: nat.split)
qed

lemma powers_row_value:
  "row_value n w (powers_from n x 1 @ [e]) = up_evaluate (map w [0..<n]) x + e * w n"
proof -
  have "(\<Sum>c<n. (powers_from n x 1 @ [e]) ! c * w c) = (\<Sum>c<n. up_coeff (map w [0..<n]) c * x ^ c)"
    by (intro sum.cong) (auto simp: nth_append powers_from_nth up_coeff_def mult.commute)
  then show ?thesis
    by (simp add: row_value_def nth_append powers_from_nth up_evaluate_sum [of "map w [0..<n]" n])
qed

lemma vandermonde_vanishes:
  assumes "length evals = n"
  shows "vanishes n (map (\<lambda>i. powers_from n (map of_nat [0..<n] ! i) 1 @ [evals ! i]) [0..<n]) w \<longleftrightarrow>
    (\<forall>i < n. up_evaluate (map w [0..<n]) (of_nat i) + evals ! i * w n = 0)"
  by (simp add: vanishes_def powers_row_value)

lemma distinct_of_nats: "inj_on (of_nat :: nat \<Rightarrow> 'f::field) {..<n} \<Longrightarrow> distinct (map (of_nat :: nat \<Rightarrow> 'f) [0..<n])"
  by (simp add: distinct_map atLeast0LessThan)

lemma from_evals_correct:
  fixes evals :: "'f::field list"
  assumes "evals \<noteq> []" "inj_on (of_nat :: nat \<Rightarrow> 'f) {..<length evals}"
  obtains p where "from_evals evals = Some p" "length p = length evals"
    "\<And>i. i < length evals \<Longrightarrow> up_evaluate p (of_nat i) = evals ! i"
proof -
  let ?n = "length evals"
  let ?m = "map (\<lambda>i. powers_from ?n (map of_nat [0..<?n] ! i) 1 @ [evals ! i]) [0..<?n]"
  have rect: "rect ?n ?m" by (simp add: rect_def powers_from_nth)
  have "nonsingular ?n ?m"
    unfolding nonsingular_def vandermonde_vanishes [OF refl]
  proof (intro allI impI)
    fix w :: "nat \<Rightarrow> 'f" and c
    assume w: "w ?n = 0" "\<forall>i < ?n. up_evaluate (map w [0..<?n]) (of_nat i) + evals ! i * w ?n = 0" and c: "c < ?n"
    have "up_coeff (map w [0..<?n]) c = 0"
      by (rule roots_all_zero [OF distinct_of_nats [OF assms(2)]]) (use w in auto)
    then show "w c = 0" using c by (simp add: up_coeff_def)
  qed
  then obtain p where p: "gaussian_elimination_augmented ?m = Some p"
    using gauss_total [OF rect] assms(1) by auto
  have len: "length p = ?n" using gauss_correct(1) [OF rect _ p] assms(1) by simp
  define w where "w c = (if c < ?n then p ! c else -1)" for c
  have "vanishes ?n ?m w" using gauss_correct(2) [OF rect _ p, of w] assms(1) by (simp add: w_def)
  moreover have "map w [0..<?n] = p" using len by (auto simp: w_def intro!: nth_equalityI)
  ultimately have "up_evaluate p (of_nat i) = evals ! i" if "i < ?n" for i
    using that unfolding vandermonde_vanishes [OF refl] by (simp add: w_def)
  moreover have "from_evals evals = Some p"
    using p by (simp add: from_evals_def gaussian_elimination_vandermonde_def Let_def)
  ultimately show ?thesis using that len by blast
qed

lemma poly_unique:
  fixes p q :: "'f::field list"
  assumes "length p = n" "length q = n" "distinct as" "length as = n"
    and "\<And>x. x \<in> set as \<Longrightarrow> up_evaluate p x = up_evaluate q x"
  shows "p = q"
proof -
  let ?d = "map2 (-) p q"
  have co: "up_coeff ?d k = up_coeff p k - up_coeff q k" for k using assms(1,2) by (simp add: up_coeff_def)
  have "up_evaluate ?d x = up_evaluate p x - up_evaluate q x" for x
    using up_evaluate_sum [of ?d n x] up_evaluate_sum [of p n x] up_evaluate_sum [of q n x] assms(1,2)
    by (simp add: co left_diff_distrib sum_subtractf)
  then have "up_coeff ?d k = 0" for k
    using roots_all_zero [of as ?d] assms by simp
  then have "up_coeff p k = up_coeff q k" for k using co by simp
  then show ?thesis using assms(1,2) by (intro nth_equalityI) (auto simp: up_coeff_def split: if_splits, metis)
qed

text \<open>The elimination agrees with the Lagrange interpolation.\<close>

lemma from_evals_interpolates:
  fixes evals :: "'f::field list"
  assumes "evals \<noteq> []" "inj_on (of_nat :: nat \<Rightarrow> 'f) {..<length evals}"
  shows "from_evals evals = interpolate_over_integers evals"
proof -
  let ?n = "length evals" and ?xs = "map (of_nat :: nat \<Rightarrow> 'f) [0..<length evals]"
  obtain p where p: "from_evals evals = Some p" "length p = ?n"
    "\<And>i. i < ?n \<Longrightarrow> up_evaluate p (of_nat i) = evals ! i"
    using from_evals_correct [OF assms] by metis
  let ?points = "map (\<lambda>(i, y). (of_nat i, y)) (enumerate 0 evals) :: ('f \<times> 'f) list"
  have fst: "map fst ?points = ?xs" by (rule nth_equalityI) (simp_all add: nth_enumerate_eq)
  have "distinct (map fst ?points)" unfolding fst by (rule distinct_of_nats [OF assms(2)])
  moreover have "?points \<noteq> []" using assms(1) by (cases evals) simp_all
  ultimately obtain q where q: "interpolate ?points = Some q" "length q = ?n"
    "\<forall>(x, y) \<in> set ?points. up_evaluate q x = y"
    using interpolate_correct [of ?points] by auto
  have "up_evaluate q (of_nat i) = evals ! i" if "i < ?n" for i
  proof -
    have mem: "(of_nat i, evals ! i) \<in> set ?points" using that by (force simp: in_set_enumerate_eq)
    show ?thesis using bspec [OF q(3) mem] by simp
  qed
  then have "p = q"
    using p(2,3) q(2) by (intro poly_unique [of p ?n q ?xs]) (auto intro: distinct_of_nats [OF assms(2)])
  then show ?thesis using p(1) q(1) assms(1) by (simp add: interpolate_over_integers_def)
qed

lemma all_less_pred: "0 < n \<Longrightarrow> (\<forall>r < n. P r) \<longleftrightarrow> (\<forall>r < n - 1. P r) \<and> P (n - 1)" for n :: nat
  by (cases n) (auto simp: less_Suc_eq)

lemma from_evals_toom_correct:
  fixes evals :: "'f::field list"
  assumes "evals \<noteq> []" "inj_on (of_nat :: nat \<Rightarrow> 'f) {..<length evals - 1}"
  obtains p where "from_evals_toom evals = Some p" "length p = length evals"
    "\<And>i. i < length evals - 1 \<Longrightarrow> up_evaluate p (of_nat i) = evals ! i"
    "p ! (length evals - 1) = last evals"
proof -
  let ?n = "length evals"
  let ?fin = "map (\<lambda>(i, eval). powers_from ?n (of_nat i) 1 @ [eval]) (enumerate 0 (take (?n - 1) evals))"
  let ?inf = "(replicate ?n 0)[?n - 1 := 1] @ [evals ! (?n - 1)]"
  let ?m = "?fin @ [?inf]"
  have n: "0 < ?n" using assms(1) by simp
  have nth: "?m ! r = (if r < ?n - 1 then powers_from ?n (of_nat r) 1 @ [evals ! r] else ?inf)" if "r < ?n" for r
    using that by (auto simp: nth_append nth_enumerate_eq)
  have rect: "rect ?n ?m" using n nth by (auto simp: rect_def powers_from_nth)
  have inf: "row_value ?n w ?inf = w (?n - 1) + evals ! (?n - 1) * w ?n" for w
  proof -
    have "(\<Sum>c<?n. ?inf ! c * w c) = (\<Sum>c<?n. if c = ?n - 1 then w c else 0)"
      by (intro sum.cong) (auto simp: nth_append nth_list_update)
    then show ?thesis using n by (simp add: row_value_def nth_append)
  qed
  have van: "vanishes ?n ?m w \<longleftrightarrow>
      (\<forall>i < ?n - 1. up_evaluate (map w [0..<?n]) (of_nat i) + evals ! i * w ?n = 0) \<and>
      w (?n - 1) + evals ! (?n - 1) * w ?n = 0" for w
  proof -
    have "vanishes ?n ?m w \<longleftrightarrow> (\<forall>r < ?n - 1. row_value ?n w (?m ! r) = 0) \<and> row_value ?n w (?m ! (?n - 1)) = 0"
      unfolding vanishes_def by (rule all_less_pred [OF n])
    also have "row_value ?n w (?m ! (?n - 1)) = w (?n - 1) + evals ! (?n - 1) * w ?n"
      using n nth [of "?n - 1"] inf by simp
    also have "(\<forall>r < ?n - 1. row_value ?n w (?m ! r) = 0) \<longleftrightarrow>
        (\<forall>i < ?n - 1. up_evaluate (map w [0..<?n]) (of_nat i) + evals ! i * w ?n = 0)"
      using nth by (auto simp: powers_row_value)
    finally show ?thesis .
  qed
  have "nonsingular ?n ?m"
    unfolding nonsingular_def van
  proof (intro allI impI)
    fix w :: "nat \<Rightarrow> 'f" and c
    assume w: "w ?n = 0" "(\<forall>i < ?n - 1. up_evaluate (map w [0..<?n]) (of_nat i) + evals ! i * w ?n = 0) \<and>
      w (?n - 1) + evals ! (?n - 1) * w ?n = 0" and c: "c < ?n"
    have top: "w (?n - 1) = 0" using w by simp
    have "[0..<?n] = [0..<?n - 1] @ [?n - 1]" using n by (metis One_nat_def Suc_pred le0 upt_Suc_append)
    then have "up_evaluate (map w [0..<?n]) x = up_evaluate (map w [0..<?n - 1]) x" for x
      using top by (simp add: up_evaluate_append)
    then have "up_coeff (map w [0..<?n - 1]) c = 0"
      by (intro roots_all_zero [OF distinct_of_nats [OF assms(2)]]) (use w in auto)
    then show "w c = 0" using c top by (cases "c = ?n - 1") (auto simp: up_coeff_def split: if_splits)
  qed
  then obtain p where p: "gaussian_elimination_augmented ?m = Some p"
    using gauss_total [OF rect n] by auto
  have len: "length p = ?n" using gauss_correct(1) [OF rect n p] .
  define w where "w c = (if c < ?n then p ! c else -1)" for c
  have v: "vanishes ?n ?m w" using gauss_correct(2) [OF rect n p, of w] by (simp add: w_def)
  have "map w [0..<?n] = p" using len by (auto simp: w_def intro!: nth_equalityI)
  then have "up_evaluate p (of_nat i) = evals ! i" if "i < ?n - 1" for i
    using v that unfolding van by (simp add: w_def)
  moreover have "p ! (?n - 1) = last evals" using v n assms(1) unfolding van by (simp add: w_def last_conv_nth)
  moreover have "from_evals_toom evals = Some p" using p n by (simp add: from_evals_toom_def Let_def)
  ultimately show ?thesis using that len by blast
qed

end
