(* ===== verification/Split_Eq.thy ===== *)
theory Split_Eq
  imports Dense_Poly Gauss
begin

text \<open>
  \<^verbatim>\<open>jolt-poly/src/split_eq.rs\<close>: the equality table as a tensor product of two tables, and the
  split equality polynomial that a sumcheck binds variable by variable, with the round polynomials
  it makes from the values of the other factor. The parallel folds are modelled by their serial
  variant.
\<close>

section \<open>TensorEqTable\<close>

record 'f tensor_eq_table =
  te_out :: "'f list"
  te_in :: "'f list"
  te_in_bits :: nat

definition tensor_new :: "'f::comm_ring_1 list \<Rightarrow> 'f tensor_eq_table" where
  "tensor_new point =
     (let split = length point div 2; out_point = take split point; in_point = drop split point in
      \<lparr>te_out = eq_evals out_point None, te_in = eq_evals in_point None, te_in_bits = length in_point\<rparr>)"

definition tensor_len :: "'f tensor_eq_table \<Rightarrow> nat" where
  "tensor_len t = length (te_out t) * length (te_in t)"

definition tensor_evaluate_index :: "'f::comm_ring_1 tensor_eq_table \<Rightarrow> nat \<Rightarrow> 'f" where
  "tensor_evaluate_index t index =
     (let x_out = drop_bit (te_in_bits t) index; x_in = index AND (push_bit (te_in_bits t) 1 - 1) in
      te_out t ! x_out * te_in t ! x_in)"

definition tensor_group_index :: "'f tensor_eq_table \<Rightarrow> nat \<Rightarrow> nat \<Rightarrow> nat" where
  "tensor_group_index t x_out x_in = push_bit (te_in_bits t) x_out OR x_in"

text \<open>\<^verbatim>\<open>par_fold_out_in\<close>: the inner fold over the low table for every entry of the high one.\<close>

definition fold_out_in ::
  "(nat \<Rightarrow> nat \<Rightarrow> nat) \<Rightarrow> 'f::zero list \<Rightarrow> 'f list \<Rightarrow> 'i \<Rightarrow> ('i \<Rightarrow> nat \<Rightarrow> nat \<Rightarrow> 'f \<Rightarrow> 'i) \<Rightarrow>
    (nat \<Rightarrow> 'f \<Rightarrow> 'i \<Rightarrow> 'o) \<Rightarrow> ('o \<Rightarrow> 'o \<Rightarrow> 'o) \<Rightarrow> 'o"
where
  "fold_out_in group_index e_out e_in make_inner inner_step outer_step merge =
     (let inner = (\<lambda>x_out. fold (\<lambda>(x_in, e_in) acc. inner_step acc (group_index x_out x_in) x_in e_in)
            (enumerate 0 e_in) make_inner);
          acc = fold (\<lambda>(x_out, e_out) acc.
            let v = outer_step x_out e_out (inner x_out) in
            Some (case acc of Some acc \<Rightarrow> merge acc v | None \<Rightarrow> v)) (enumerate 0 e_out) None in
      case acc of Some v \<Rightarrow> v | None \<Rightarrow> outer_step 0 0 make_inner)"

definition evaluate_slices :: "'f::comm_ring_1 tensor_eq_table \<Rightarrow> 'f list list \<Rightarrow> 'f list" where
  "evaluate_slices t values =
     (if values = [] then []
      else fold_out_in (tensor_group_index t) (te_out t) (te_in t) (replicate (length values) 0)
        (\<lambda>inner row x_in e_in. if e_in = 0 then inner else map2 (\<lambda>a v. a + e_in * v ! row) inner values)
        (\<lambda>x_out e_out inner. if e_out = 0 then replicate (length inner) 0 else map (\<lambda>v. v * e_out) inner)
        (map2 (+)))"

section \<open>GruenSplitEqPolynomial\<close>

record 'f gruen =
  gr_index :: nat
  gr_scalar :: 'f
  gr_point :: "'f list"
  gr_in_vec :: "'f list list"
  gr_out_vec :: "'f list list"
  gr_order :: binding_order

definition gruen_new_with_scaling ::
  "'f::comm_ring_1 list \<Rightarrow> binding_order \<Rightarrow> 'f option \<Rightarrow> 'f gruen"
where
  "gruen_new_with_scaling point order scaling_factor =
     (let scalar = (case scaling_factor of Some s \<Rightarrow> s | None \<Rightarrow> 1) in
      if point = []
      then \<lparr>gr_index = 0, gr_scalar = scalar, gr_point = [], gr_in_vec = [[1]], gr_out_vec = [[1]], gr_order = order\<rparr>
      else
        (let split = length point div 2 in
         case order of
           LowToHigh \<Rightarrow>
             (let head = take (length point - 1) point; k = min split (length head);
                  out_point = take k head; in_point = drop k head in
              \<lparr>gr_index = length point, gr_scalar = scalar, gr_point = point,
                gr_in_vec = evals_cached in_point None, gr_out_vec = evals_cached out_point None, gr_order = order\<rparr>)
         | HighToLow \<Rightarrow>
             (let tail = drop 1 point; k = min split (length tail);
                  in_point = take k tail; out_point = drop k tail in
              \<lparr>gr_index = 0, gr_scalar = scalar, gr_point = point,
                gr_in_vec = evals_cached_rev in_point None, gr_out_vec = evals_cached_rev out_point None,
                gr_order = order\<rparr>)))"

definition current_point :: "'f gruen \<Rightarrow> 'f" where
  "current_point g =
     (case gr_order g of LowToHigh \<Rightarrow> gr_point g ! (gr_index g - 1) | HighToLow \<Rightarrow> gr_point g ! gr_index g)"

definition current_linear_evals :: "'f::comm_ring_1 gruen \<Rightarrow> 'f \<times> 'f" where
  "current_linear_evals g =
     (let at_one = gr_scalar g * current_point g in (gr_scalar g - at_one, at_one))"

definition e_in_current :: "'f gruen \<Rightarrow> 'f list" where
  "e_in_current g = gr_in_vec g ! (length (gr_in_vec g) - 1)"

definition e_out_current :: "'f gruen \<Rightarrow> 'f list" where
  "e_out_current g = gr_out_vec g ! (length (gr_out_vec g) - 1)"

definition e_out_in_for_window :: "'f gruen \<Rightarrow> nat \<Rightarrow> ('f list \<times> 'f list) option" where
  "e_out_in_for_window g window_size =
     (if gr_order g \<noteq> LowToHigh then None
      else
        (let window_size = min window_size (gr_index g); head_len = gr_index g - window_size;
             split = length (gr_point g) div 2;
             head_out_bits = min head_len split; head_in_bits = head_len - head_out_bits in
         case (nth_opt (gr_out_vec g) head_out_bits, nth_opt (gr_in_vec g) head_in_bits) of
           (Some e_out, Some e_in) \<Rightarrow> Some (e_out, e_in)
         | _ \<Rightarrow> None))"

definition e_active_for_window :: "'f::comm_ring_1 gruen \<Rightarrow> nat \<Rightarrow> 'f list option" where
  "e_active_for_window g window_size =
     (if gr_order g \<noteq> LowToHigh then None
      else if window_size \<le> 1 \<or> window_size > gr_index g then Some [1]
      else
        (let remaining_point = take (gr_index g) (gr_point g);
             window_point = drop (length remaining_point - window_size) remaining_point in
         Some (eq_evals (take (window_size - 1) window_point) None)))"

definition gruen_bind :: "'f::comm_ring_1 \<Rightarrow> 'f gruen \<Rightarrow> 'f gruen" where
  "gruen_bind challenge g =
     (if gr_point g = [] then g
      else
        (let point = current_point g; product = point * challenge;
             scalar = gr_scalar g * (1 - point - challenge + product + product);
             half = length (gr_point g) div 2 in
         case gr_order g of
           LowToHigh \<Rightarrow>
             (let index = gr_index g - 1; g = g\<lparr>gr_scalar := scalar, gr_index := index\<rparr> in
              if half < index \<and> 1 < length (gr_in_vec g) then g\<lparr>gr_in_vec := butlast (gr_in_vec g)\<rparr>
              else if 0 < index \<and> 1 < length (gr_out_vec g) then g\<lparr>gr_out_vec := butlast (gr_out_vec g)\<rparr>
              else g)
         | HighToLow \<Rightarrow>
             (let index = gr_index g + 1; g = g\<lparr>gr_scalar := scalar, gr_index := index\<rparr> in
              if index \<le> half \<and> 1 < length (gr_in_vec g) then g\<lparr>gr_in_vec := butlast (gr_in_vec g)\<rparr>
              else if index \<le> length (gr_point g) \<and> 1 < length (gr_out_vec g)
              then g\<lparr>gr_out_vec := butlast (gr_out_vec g)\<rparr>
              else g)))"

definition gruen_merge :: "'f::comm_ring_1 gruen \<Rightarrow> 'f dense_poly option" where
  "gruen_merge g =
     dp_new (case gr_order g of
       LowToHigh \<Rightarrow> eq_evals (take (gr_index g) (gr_point g)) (Some (gr_scalar g))
     | HighToLow \<Rightarrow> eq_evals (drop (gr_index g) (gr_point g)) (Some (gr_scalar g)))"

definition gruen_poly_deg_3 :: "'f::field gruen \<Rightarrow> 'f \<Rightarrow> 'f \<Rightarrow> 'f \<Rightarrow> 'f univariate_poly option" where
  "gruen_poly_deg_3 g q_constant q_quadratic_coeff s_0_plus_s_1 =
     (let eq_eval_1 = gr_scalar g * current_point g; eq_eval_0 = gr_scalar g - eq_eval_1;
          eq_m = eq_eval_1 - eq_eval_0; eq_eval_2 = eq_eval_1 + eq_m; eq_eval_3 = eq_eval_2 + eq_m;
          quadratic_eval_0 = q_constant; cubic_eval_0 = eq_eval_0 * quadratic_eval_0;
          cubic_eval_1 = s_0_plus_s_1 - cubic_eval_0 in
      case field_inverse eq_eval_1 of
        None \<Rightarrow> None
      | Some recip \<Rightarrow>
          (let quadratic_eval_1 = cubic_eval_1 * recip;
               e_times_2 = q_quadratic_coeff + q_quadratic_coeff;
               quadratic_eval_2 = quadratic_eval_1 + quadratic_eval_1 - quadratic_eval_0 + e_times_2;
               quadratic_eval_3 = quadratic_eval_2 + quadratic_eval_1 - quadratic_eval_0 + e_times_2 + e_times_2 in
           interpolate_over_integers
             [cubic_eval_0, cubic_eval_1, eq_eval_2 * quadratic_eval_2, eq_eval_3 * quadratic_eval_3]))"

definition times_linear_factor :: "'f::field list \<Rightarrow> 'f \<Rightarrow> 'f \<Rightarrow> 'f list" where
  "times_linear_factor q_coeffs l_c0 l_c1 =
     fold (\<lambda>(index, q_coeff) s.
         let s = s[index := s ! index + q_coeff * l_c0] in s[index + 1 := s ! (index + 1) + q_coeff * l_c1])
       (enumerate 0 q_coeffs) (replicate (length q_coeffs + 1) 0)"

definition gruen_poly_from_evals :: "'f::field gruen \<Rightarrow> 'f list \<Rightarrow> 'f \<Rightarrow> 'f univariate_poly option" where
  "gruen_poly_from_evals g q_evals s_0_plus_s_1 =
     (let r_round = current_point g; l_at_0 = gr_scalar g * (1 - r_round); l_at_1 = gr_scalar g * r_round in
      case (nth_opt q_evals 0, field_inverse l_at_0) of
        (Some q_eval_1, Some recip) \<Rightarrow>
          (let q_at_0 = (s_0_plus_s_1 - l_at_1 * q_eval_1) * recip in
           map_option (\<lambda>q_coeffs. times_linear_factor q_coeffs l_at_0 (l_at_1 - l_at_0))
             (from_evals_toom (q_at_0 # q_evals)))
      | _ \<Rightarrow> None)"

definition gruen_group_index :: "'f gruen \<Rightarrow> nat \<Rightarrow> nat \<Rightarrow> nat" where
  "gruen_group_index g x_out x_in = push_bit (twos (length (e_in_current g))) x_out OR x_in"

section \<open>The tensor table\<close>

lemma group_index_eq: "x_in < 2 ^ b \<Longrightarrow> push_bit b x_out OR x_in = x_out * 2 ^ b + x_in" for x_in :: nat
proof -
  assume x: "x_in < 2 ^ b"
  have "\<not> bit x_in n" if "b \<le> n" for n
    using x that by (metis bit_take_bit_iff leD take_bit_nat_eq_self_iff)
  then have "push_bit b x_out + x_in = push_bit b x_out OR x_in"
    by (intro disjunctive_add) (auto simp: bit_push_bit_iff)
  then show ?thesis by (simp add: push_bit_eq_mult)
qed

lemma mask_index: "index AND (push_bit b 1 - 1) = index mod 2 ^ b" for index :: nat
  by (simp add: push_bit_eq_mult take_bit_eq_mod [symmetric] take_bit_eq_mask mask_eq_exp_minus_1)

lemma eq_table_split:
  assumes "i < 2 ^ length (p @ q)"
  shows "eq_table s (p @ q) ! i = eq_table s p ! (i div 2 ^ length q) * eq_table 1 q ! (i mod 2 ^ length q)"
proof -
  have "i div 2 ^ length q < 2 ^ length p"
    using assms by (simp add: less_mult_imp_div_less power_add)
  then show ?thesis using assms
    by (simp add: nth_eq_table msb_bits_append eq_product_append mult.assoc)
qed

lemma mask_index': "index AND (2 ^ b - Suc 0) = index mod 2 ^ b" for index :: nat
  using mask_index [of index b] by (simp add: push_bit_eq_mult)

lemma tensor_index_correct:
  assumes "i < 2 ^ length p"
  shows "tensor_evaluate_index (tensor_new p) i = eq_table 1 p ! i"
  using eq_table_split [of i "take (length p div 2) p" "drop (length p div 2) p" 1] assms
  by (simp add: tensor_evaluate_index_def tensor_new_def Let_def eq_evals_eq mask_index' drop_bit_eq_div push_bit_eq_mult)

lemma inner_fold:
  fixes acc :: "'f::comm_ring_1 list"
  assumes "length acc = length vs"
  shows "fold (\<lambda>(x, e) acc. if e = 0 then acc else map2 (\<lambda>a v. a + e * v ! G x) acc vs) (enumerate k es) acc =
    map2 (\<lambda>a v. a + (\<Sum>(x, e)\<leftarrow>enumerate k es. e * v ! G x)) acc vs"
  using assms
proof (induction es arbitrary: acc k)
  case Nil
  then show ?case by (auto intro!: nth_equalityI)
next
  case (Cons e es)
  let ?acc = "if e = 0 then acc else map2 (\<lambda>a v. a + e * v ! G k) acc vs"
  have "?acc = map2 (\<lambda>a v. a + e * v ! G k) acc vs" using Cons.prems by (auto intro!: nth_equalityI)
  then show ?case using Cons.IH [of ?acc "Suc k"] Cons.prems
    by (auto intro!: nth_equalityI simp: add.assoc)
qed

lemma outer_fold:
  fixes f :: "nat \<Rightarrow> 'f::comm_ring_1 \<Rightarrow> 'a \<Rightarrow> 'f"
  assumes "length acc = length vs"
  shows "fold (\<lambda>(x, e) acc. let v = map (f x e) vs in Some (case acc of Some acc \<Rightarrow> map2 (+) acc v | None \<Rightarrow> v))
      (enumerate k es) (Some acc) =
    Some (map2 (\<lambda>a v. a + (\<Sum>(x, e)\<leftarrow>enumerate k es. f x e v)) acc vs)"
  using assms
proof (induction es arbitrary: acc k)
  case Nil
  then show ?case by (auto intro!: nth_equalityI)
next
  case (Cons e es)
  then show ?case using Cons.IH [of "map2 (+) acc (map (f k e) vs)" "Suc k"]
    by (auto intro!: nth_equalityI simp: add.assoc Let_def)
qed

lemma fold_out_in_slices:
  fixes vs :: "'f::comm_ring_1 list list"
  assumes "e_out \<noteq> []"
  shows "fold_out_in G e_out e_in (replicate (length vs) 0)
      (\<lambda>inner row x_in e_in. if e_in = 0 then inner else map2 (\<lambda>a v. a + e_in * v ! row) inner vs)
      (\<lambda>x_out e_out inner. if e_out = 0 then replicate (length inner) 0 else map (\<lambda>v. v * e_out) inner) (map2 (+)) =
    map (\<lambda>v. \<Sum>(x_out, eo)\<leftarrow>enumerate 0 e_out. (\<Sum>(x_in, ei)\<leftarrow>enumerate 0 e_in. ei * v ! G x_out x_in) * eo) vs"
proof -
  let ?inner = "\<lambda>x_out v. \<Sum>(x_in, ei)\<leftarrow>enumerate 0 e_in. ei * v ! G x_out x_in"
  have "map2 (\<lambda>a v. a + ?inner x_out v) (replicate (length vs) 0) vs = map (?inner x_out) vs" for x_out
    by (auto intro!: nth_equalityI)
  then have inner: "fold (\<lambda>(x, e) acc. if e = 0 then acc else map2 (\<lambda>a v. a + e * v ! G x_out x) acc vs) (enumerate 0 e_in)
      (replicate (length vs) 0) = map (?inner x_out) vs" for x_out
    by (subst inner_fold) simp_all
  have outer: "(if eo = 0 then replicate (length (map (?inner x_out) vs)) 0 else map (\<lambda>v. v * eo) (map (?inner x_out) vs)) =
      map (\<lambda>v. ?inner x_out v * eo) vs" for eo x_out
    by (auto intro!: nth_equalityI)
  obtain e es where e: "e_out = e # es" using assms by (cases e_out) auto
  show ?thesis
    unfolding fold_out_in_def Let_def inner outer e
    using outer_fold [of "map (\<lambda>v. ?inner 0 v * e) vs" vs "\<lambda>x e v. ?inner x v * e" 1 es]
    by (auto intro!: nth_equalityI simp: Let_def)
qed

lemma sum_enumerate: "(\<Sum>(i, x)\<leftarrow>enumerate 0 xs. f i x) = (\<Sum>i<length xs. f i (xs ! i))"
proof -
  have "(\<Sum>(i, x)\<leftarrow>enumerate k xs. f i x) = (\<Sum>i<length xs. f (k + i) (xs ! i))" for k
    by (induction xs arbitrary: k) (simp_all add: sum.lessThan_Suc_shift del: sum.lessThan_Suc)
  from this [of 0] show ?thesis by simp
qed

lemma sum_grid: "(\<Sum>i<a * b. g i) = (\<Sum>u<a. \<Sum>i<b. g (u * b + i))" for g :: "nat \<Rightarrow> 'a::comm_monoid_add"
proof -
  have "sum g {u * b..<u * b + b} = (\<Sum>i<b. g (u * b + i))" for u
    using sum.shift_bounds_nat_ivl [of g 0 "u * b" b] by (simp add: atLeast0LessThan add.commute)
  then show ?thesis by (simp flip: sum.nat_group)
qed

lemma table_mle_sum: "length e = 2 ^ length r \<Longrightarrow> table_mle e r = (\<Sum>i<2 ^ length r. e ! i * eq_table 1 r ! i)"
  by (simp add: table_mle_def sum_list_sum_nth atLeast0LessThan)

text \<open>One pass over the tensor table evaluates every slice.\<close>

lemma evaluate_slices_correct:
  fixes p :: "'f::comm_ring_1 list"
  assumes "\<And>v. v \<in> set vs \<Longrightarrow> length v = 2 ^ length p"
  shows "evaluate_slices (tensor_new p) vs = map (\<lambda>v. table_mle v p) vs"
proof (cases "vs = []")
  case False
  let ?h = "length p div 2" and ?p = "take (length p div 2) p" and ?q = "drop (length p div 2) p"
  let ?b = "length p - length p div 2"
  have lens: "length ?p = ?h" "length ?q = ?b" by simp_all
  have "(\<Sum>(u, eo)\<leftarrow>enumerate 0 (eq_table 1 ?p). (\<Sum>(i, ei)\<leftarrow>enumerate 0 (eq_table 1 ?q).
      ei * v ! tensor_group_index (tensor_new p) u i) * eo) = table_mle v p" if "v \<in> set vs" for v
  proof -
    have n: "(2::nat) ^ length p = 2 ^ ?h * 2 ^ ?b" by (simp add: power_add [symmetric])
    have entry: "eq_table 1 ?q ! i * v ! tensor_group_index (tensor_new p) u i * eq_table 1 ?p ! u =
        v ! (u * 2 ^ ?b + i) * eq_table 1 p ! (u * 2 ^ ?b + i)" if "u < 2 ^ ?h" "i < 2 ^ ?b" for u i
    proof -
      have "u * 2 ^ ?b + i < 2 ^ ?h * 2 ^ ?b"
        using that by (metis add.commute less_eq_Suc_le mult_Suc mult_le_mono1 nat_add_left_cancel_less order_less_le_trans)
      then show ?thesis using that eq_table_split [of "u * 2 ^ ?b + i" ?p ?q 1] n
        by (simp add: tensor_group_index_def tensor_new_def Let_def group_index_eq mult.commute mult.left_commute)
    qed
    have "table_mle v p = (\<Sum>i<2 ^ ?h * 2 ^ ?b. v ! i * eq_table 1 p ! i)"
      using table_mle_sum [OF assms [OF that]] n by simp
    also have "\<dots> = (\<Sum>u<2 ^ ?h. \<Sum>i<2 ^ ?b. v ! (u * 2 ^ ?b + i) * eq_table 1 p ! (u * 2 ^ ?b + i))"
      by (rule sum_grid)
    finally show ?thesis
      using entry by (simp add: sum_enumerate sum_distrib_right)
  qed
  moreover have "eq_table 1 ?p \<noteq> []" by (metis length_0_conv length_eq_table power_not_zero zero_neq_numeral)
  ultimately show ?thesis using False
    by (simp add: evaluate_slices_def tensor_new_def Let_def eq_evals_eq fold_out_in_slices)
qed (simp add: evaluate_slices_def)

end
