(* ===== verification/Read_Raf.thy ===== *)
theory Read_Raf
  imports Prefix_Suffix Split_Eq Gauss Sumcheck
begin

text \<open>
  The instruction read and RAF checking kernel: \<^verbatim>\<open>jolt-kernels/src/reference/instruction_read_raf.rs\<close>.
  The prover of the relation \<open>\<Sum> eq(r, j) ra(k, j) (Val_j(k) + \<gamma> RafVal_j(k))\<close> over addresses \<open>k\<close> and
  cycles \<open>j\<close>: 128 address rounds in phases of eight variables over prefix, suffix and RAF tables, then
  the cycle rounds over cycle-indexed tables. \<open>None\<close> stands for a panic.
\<close>

section \<open>Constants and rows\<close>

definition CHUNK_LEN :: nat where "CHUNK_LEN = 8"
definition CHUNK_SIZE :: nat where "CHUNK_SIZE = 2 ^ CHUNK_LEN"

text \<open>\<^verbatim>\<open>CANONICAL_INSTRUCTION_ADDRESS\<close> of \<^verbatim>\<open>jolt-claims\<close>.\<close>

definition CANONICAL_INSTRUCTION_ADDRESS :: bool where "CANONICAL_INSTRUCTION_ADDRESS = False"

record read_raf_row =
  rw_lookup_index :: u128
  rw_table_index :: "nat option"
  rw_raf_flag :: bool

text \<open>\<^verbatim>\<open>InstructionReadRafDimensions\<close>; the number of polynomials is not zero.\<close>

record read_raf_dimensions =
  dim_log_t :: nat
  dim_address_bits :: nat
  dim_ra_polys :: nat

definition sumcheck_rounds :: "read_raf_dimensions \<Rightarrow> nat" where
  "sumcheck_rounds d = dim_address_bits d + dim_log_t d"

datatype formula_point_error = ChallengeLengthMismatch nat nat

text \<open>The address point, the cycle point and the two joined.\<close>

definition read_raf_opening_point ::
    "read_raf_dimensions \<Rightarrow> 'f list \<Rightarrow> formula_point_error + ('f list \<times> 'f list \<times> 'f list)" where
  "read_raf_opening_point d challenges =
     (let expected = dim_address_bits d + dim_log_t d in
      if length challenges \<noteq> expected then Inl (ChallengeLengthMismatch expected (length challenges))
      else
        (let r_address = take (dim_address_bits d) challenges;
             r_cycle = rev (drop (dim_address_bits d) challenges) in
         Inr (r_address, r_cycle, r_address @ r_cycle)))"

text \<open>The extension of the top variable: at 0, at 1, else at 2.\<close>

definition extension_eval :: "'f::comm_ring_1 list \<Rightarrow> nat \<Rightarrow> nat \<Rightarrow> nat \<Rightarrow> 'f" where
  "extension_eval evals b half c =
     (let lo = evals ! b; hi = evals ! (b + half) in
      if c = 0 then lo else if c = 1 then hi else hi + hi - lo)"

text \<open>\<^verbatim>\<open>eq_table\<close> of \<^verbatim>\<open>reference/views.rs\<close>.\<close>

definition view_eq_table :: "'f::comm_ring_1 list \<Rightarrow> 'f list" where
  "view_eq_table point = eq_evals point None"

section \<open>A RAF decomposition\<close>

record 'f raf_decomposition =
  raf_prefix :: "'f dense_poly"
  raf_q_shift :: "'f dense_poly"
  raf_q_value :: "'f dense_poly"
  raf_checkpoint :: 'f

definition raf_empty :: "'f::comm_ring_1 raf_decomposition" where
  "raf_empty =
     (let p = \<lparr>dp_evals = [0], dp_num_vars = 0\<rparr> in
      \<lparr>raf_prefix = p, raf_q_shift = p, raf_q_value = p, raf_checkpoint = 0\<rparr>)"

definition raf_empty_product :: "'f::comm_ring_1 raf_decomposition" where
  "raf_empty_product = raf_empty\<lparr>raf_checkpoint := 1\<rparr>"

definition raf_message_eval :: "'f::comm_ring_1 raf_decomposition \<Rightarrow> nat \<Rightarrow> nat \<Rightarrow> nat \<Rightarrow> 'f" where
  "raf_message_eval d b half c =
     extension_eval (dp_evals (raf_prefix d)) b half c * extension_eval (dp_evals (raf_q_shift d)) b half c
       + extension_eval (dp_evals (raf_q_value d)) b half c"

definition raf_bind :: "'f::comm_ring_1 \<Rightarrow> 'f raf_decomposition \<Rightarrow> 'f raf_decomposition option" where
  "raf_bind challenge d =
     Option.bind (bind_with_order challenge HighToLow (raf_prefix d)) (\<lambda>p.
     Option.bind (bind_with_order challenge HighToLow (raf_q_shift d)) (\<lambda>qs.
     Option.bind (bind_with_order challenge HighToLow (raf_q_value d)) (\<lambda>qv.
     Some (d\<lparr>raf_prefix := p, raf_q_shift := qs, raf_q_value := qv\<rparr>))))"

text \<open>The tables a phase writes, the checkpoint kept.\<close>

definition raf_set :: "'f list \<Rightarrow> 'f list \<Rightarrow> 'f list \<Rightarrow> 'f raf_decomposition \<Rightarrow> 'f raf_decomposition option" where
  "raf_set prefix q_shift q_value d =
     Option.bind (dp_new prefix) (\<lambda>p.
     Option.bind (dp_new q_shift) (\<lambda>qs.
     Option.bind (dp_new q_value) (\<lambda>qv.
     Some (d\<lparr>raf_prefix := p, raf_q_shift := qs, raf_q_value := qv\<rparr>))))"

section \<open>The kernel\<close>

record 'f cycle_tables =
  ct_eq_reduction :: "'f dense_poly"
  ct_combined_val :: "'f dense_poly"
  ct_ra :: "'f dense_poly list"

record 'f read_raf =
  rr_dims :: read_raf_dimensions
  rr_gamma :: 'f
  rr_reduction :: "'f list"
  rr_rows :: "read_raf_row list"
  rr_buckets :: "nat list list"
  rr_u_evals :: "'f list"
  rr_prefix_checkpoints :: "'f list"
  rr_prefix_tables :: "'f dense_poly list"
  rr_suffix_tables :: "(wasm_table \<times> 'f dense_poly list) list"
  rr_left :: "'f raf_decomposition"
  rr_right :: "'f raf_decomposition"
  rr_identity :: "'f raf_decomposition"
  rr_upper_all_ones :: "'f raf_decomposition"
  rr_v_tables :: "'f list list"
  rr_phase_challenges :: "'f list"
  rr_cycle_challenges :: "'f list"
  rr_cycle_tables :: "'f cycle_tables option"
  rr_rounds_bound :: nat

text \<open>\<^verbatim>\<open>Index<Prefixes> for &[PrefixEval<F>]\<close>: the slice is in the order of the variants.\<close>

definition prefix_index :: "prefixes \<Rightarrow> nat" where
  "prefix_index p = length (takeWhile (\<lambda>q. q \<noteq> p) ALL_PREFIXES)"

definition prefix_at :: "'f list \<Rightarrow> 'f checkpoints" where
  "prefix_at evals p = evals ! prefix_index p"

definition rr_phases :: "'f read_raf \<Rightarrow> nat" where
  "rr_phases k = dim_address_bits (rr_dims k) div CHUNK_LEN"

text \<open>Phases stay below \<^const>\<open>rr_phases\<close>, so that the subtraction does not wrap.\<close>

definition rr_suffix_len :: "'f read_raf \<Rightarrow> nat \<Rightarrow> nat" where
  "rr_suffix_len k phase = dim_address_bits (rr_dims k) - (phase + 1) * CHUNK_LEN"

definition index_chunk :: "u128 \<Rightarrow> nat \<Rightarrow> nat" where
  "index_chunk index shift =
     unat ((ucast (drop_bit shift index) :: u64) AND (of_nat CHUNK_SIZE - 1))"

definition rr_chunk :: "'f read_raf \<Rightarrow> u128 \<Rightarrow> nat \<Rightarrow> nat" where
  "rr_chunk k index phase = index_chunk index (rr_suffix_len k phase)"

section \<open>The start of a phase\<close>

text \<open>The previous phase's weights enter the cycle masses.\<close>

definition condense :: "'f::comm_ring_1 read_raf \<Rightarrow> nat \<Rightarrow> 'f list option" where
  "condense k phase =
     (if phase = 0 then Some (rr_u_evals k)
      else Option.bind (nth_opt (rr_v_tables k) (phase - 1)) (\<lambda>v_prev.
        if length v_prev < CHUNK_SIZE then None
        else Some (map2 (\<lambda>u row. u * v_prev ! index_chunk (rw_lookup_index row) (rr_suffix_len k (phase - 1)))
          (rr_u_evals k) (rr_rows k) @ drop (length (rr_rows k)) (rr_u_evals k))))"

definition suffix_mask :: "nat \<Rightarrow> u128" where
  "suffix_mask suffix_len = (if suffix_len = 128 then - 1 else push_bit suffix_len 1 - 1)"

text \<open>\<^verbatim>\<open>q[chunk] += value\<close>; a chunk is below the size of the arrays.\<close>

definition accumulate :: "nat \<Rightarrow> 'f::comm_ring_1 \<Rightarrow> 'f list \<Rightarrow> 'f list" where
  "accumulate i v q = q[i := q ! i + v]"

record 'f raf_scan =
  q_shift_half_raw :: "'f list"
  q_left :: "'f list"
  q_right :: "'f list"
  q_shift_full_raw :: "'f list"
  q_identity :: "'f list"
  q_upper_all_ones :: "'f list"

definition raf_scan_step ::
    "'f::comm_ring_1 read_raf \<Rightarrow> nat \<Rightarrow> read_raf_row \<times> 'f \<Rightarrow> 'f raf_scan \<Rightarrow> 'f raf_scan" where
  "raf_scan_step k phase ru q = (case ru of (row, u) \<Rightarrow>
     (let suffix_len = rr_suffix_len k phase;
          chunk = rr_chunk k (rw_lookup_index row) phase;
          suffix_bits = rw_lookup_index row AND suffix_mask suffix_len;
          upper_suffix_bits = suffix_len - dim_address_bits (rr_dims k) div 2;
          q = (if CANONICAL_INSTRUCTION_ADDRESS \<and> rw_raf_flag row \<and>
                 (upper_suffix_bits = 0 \<or>
                  drop_bit (suffix_len - upper_suffix_bits) suffix_bits = push_bit upper_suffix_bits 1 - 1)
               then q\<lparr>q_upper_all_ones := accumulate chunk u (q_upper_all_ones q)\<rparr> else q) in
      if \<not> rw_raf_flag row then
        (case lb_uninterleave (lb_new suffix_bits suffix_len) of (left, right) \<Rightarrow>
          (let left = lb_u64 left; right = lb_u64 right;
               q = q\<lparr>q_shift_half_raw := accumulate chunk u (q_shift_half_raw q)\<rparr>;
               q = (if left \<noteq> 0 then q\<lparr>q_left := accumulate chunk (u * from_u64 left) (q_left q)\<rparr> else q) in
           if right \<noteq> 0 then q\<lparr>q_right := accumulate chunk (u * from_u64 right) (q_right q)\<rparr> else q))
      else
        (let q = q\<lparr>q_shift_full_raw := accumulate chunk u (q_shift_full_raw q)\<rparr> in
         if suffix_bits \<noteq> 0
         then q\<lparr>q_identity := accumulate chunk (u * from_u128 suffix_bits) (q_identity q)\<rparr> else q)))"

definition raf_scan_rows :: "'f::comm_ring_1 read_raf \<Rightarrow> nat \<Rightarrow> 'f raf_scan" where
  "raf_scan_rows k phase =
     (let zeros = replicate CHUNK_SIZE 0 in
      fold (raf_scan_step k phase) (zip (rr_rows k) (rr_u_evals k))
        \<lparr>q_shift_half_raw = zeros, q_left = zeros, q_right = zeros,
         q_shift_full_raw = zeros, q_identity = zeros, q_upper_all_ones = zeros\<rparr>)"

text \<open>The prefixes of the RAF decompositions over a chunk.\<close>

definition identity_prefix :: "'f::comm_ring_1 \<Rightarrow> 'f list" where
  "identity_prefix checkpoint =
     map (\<lambda>x. mul_pow_2_loop checkpoint CHUNK_LEN + from_u64 (of_nat x)) [0..<CHUNK_SIZE]"

definition operand_prefix :: "'f::comm_ring_1 \<Rightarrow> operand_side \<Rightarrow> 'f list" where
  "operand_prefix checkpoint side =
     map (\<lambda>x. case lb_uninterleave (lb_new (of_nat x) CHUNK_LEN) of (left, right) \<Rightarrow>
        mul_pow_2_loop checkpoint (CHUNK_LEN div 2)
          + from_u64 (lb_u64 (case side of Left_Operand \<Rightarrow> left | Right_Operand \<Rightarrow> right))) [0..<CHUNK_SIZE]"

definition upper_prefix :: "'f::comm_ring_1 read_raf \<Rightarrow> nat \<Rightarrow> 'f list" where
  "upper_prefix k phase =
     (let chunk_upper_bits = min (dim_address_bits (rr_dims k) div 2 - phase * CHUNK_LEN) CHUNK_LEN in
      map (\<lambda>x. if chunk_upper_bits = 0 \<or> x div 2 ^ (CHUNK_LEN - chunk_upper_bits) = 2 ^ chunk_upper_bits - 1
        then raf_checkpoint (rr_upper_all_ones k) else 0) [0..<CHUNK_SIZE])"

definition init_raf :: "'f::comm_ring_1 read_raf \<Rightarrow> nat \<Rightarrow> 'f read_raf option" where
  "init_raf k phase =
     (let suffix_len = rr_suffix_len k phase; q = raf_scan_rows k phase in
      Option.bind (those (map (\<lambda>v. mul_pow_2 v (suffix_len div 2)) (q_shift_half_raw q))) (\<lambda>q_shift_half.
      Option.bind (those (map (\<lambda>v. mul_pow_2 v suffix_len) (q_shift_full_raw q))) (\<lambda>q_shift_full.
      Option.bind (raf_set (operand_prefix (raf_checkpoint (rr_left k)) Left_Operand) q_shift_half (q_left q) (rr_left k)) (\<lambda>left.
      Option.bind (raf_set (operand_prefix (raf_checkpoint (rr_right k)) Right_Operand) q_shift_half (q_right q) (rr_right k)) (\<lambda>right.
      Option.bind (raf_set (identity_prefix (raf_checkpoint (rr_identity k))) q_shift_full (q_identity q) (rr_identity k)) (\<lambda>identity.
      let k = k\<lparr>rr_left := left, rr_right := right, rr_identity := identity\<rparr> in
      if CANONICAL_INSTRUCTION_ADDRESS then
        Option.bind (raf_set (upper_prefix k phase) (q_upper_all_ones q) (replicate CHUNK_SIZE 0) (rr_upper_all_ones k)) (\<lambda>upper.
        Some (k\<lparr>rr_upper_all_ones := upper\<rparr>))
      else Some k))))))"

text \<open>The suffix accumulators of a table.\<close>

definition suffix_scan_step ::
    "'f::comm_ring_1 read_raf \<Rightarrow> nat \<Rightarrow> suffixes list \<Rightarrow> nat \<Rightarrow> 'f list list \<Rightarrow> 'f list list" where
  "suffix_scan_step k phase suffixes j accumulators =
     (let row = rr_rows k ! j; u = rr_u_evals k ! j; suffix_len = rr_suffix_len k phase;
          chunk = rr_chunk k (rw_lookup_index row) phase;
          suffix_bits = lb_new (rw_lookup_index row AND suffix_mask suffix_len) suffix_len in
      map2 (\<lambda>accumulator suffix. let value = suffix_mle suffix suffix_bits in
          if value \<noteq> 0 then accumulate chunk (u * from_u64 value) accumulator else accumulator)
        accumulators suffixes)"

definition table_suffix_polys :: "'f::comm_ring_1 read_raf \<Rightarrow> nat \<Rightarrow> wasm_table \<Rightarrow> 'f dense_poly list option" where
  "table_suffix_polys k phase t =
     (let suffixes = table_suffixes t; bucket = rr_buckets k ! table_index t in
      if list_all (\<lambda>j. j < length (rr_rows k) \<and> j < length (rr_u_evals k)) bucket
      then those (map dp_new (fold (suffix_scan_step k phase suffixes) bucket
        (replicate (length suffixes) (replicate CHUNK_SIZE 0))))
      else None)"

definition init_suffix_tables :: "'f::comm_ring_1 read_raf \<Rightarrow> nat \<Rightarrow> (wasm_table \<times> 'f dense_poly list) list option" where
  "init_suffix_tables k phase =
     (if length (rr_buckets k) < TABLE_COUNT then None
      else those (map (\<lambda>t. map_option (Pair t) (table_suffix_polys k phase t))
        (filter (\<lambda>t. rr_buckets k ! table_index t \<noteq> []) wasm_tables)))"

definition prefix_chunk_table :: "'f::comm_ring_1 checkpoints \<Rightarrow> nat \<Rightarrow> prefixes \<Rightarrow> 'f list" where
  "prefix_chunk_table checkpoints suffix_len p =
     map (\<lambda>x. prefix_evaluate p checkpoints (lb_new (of_nat x) CHUNK_LEN) suffix_len) [0..<CHUNK_SIZE]"

definition init_prefix_tables :: "'f::comm_ring_1 read_raf \<Rightarrow> nat \<Rightarrow> 'f dense_poly list option" where
  "init_prefix_tables k phase =
     those (map (\<lambda>p. dp_new (prefix_chunk_table (prefix_at (rr_prefix_checkpoints k)) (rr_suffix_len k phase) p)) ALL_PREFIXES)"

definition init_phase :: "'f::comm_ring_1 read_raf \<Rightarrow> nat \<Rightarrow> 'f read_raf option" where
  "init_phase k phase =
     Option.bind (condense k phase) (\<lambda>u_evals.
     Option.bind (init_raf (k\<lparr>rr_u_evals := u_evals\<rparr>) phase) (\<lambda>k.
     Option.bind (init_suffix_tables k phase) (\<lambda>suffix_tables.
     let k = k\<lparr>rr_suffix_tables := suffix_tables\<rparr> in
     Option.bind (init_prefix_tables k phase) (\<lambda>prefix_tables.
     Some (k\<lparr>rr_prefix_tables := prefix_tables, rr_phase_challenges := []\<rparr>)))))"


section \<open>The messages\<close>

definition address_read :: "'f::comm_ring_1 read_raf \<Rightarrow> nat \<Rightarrow> nat \<Rightarrow> nat \<Rightarrow> 'f option" where
  "address_read k half c b =
     (let prefix_evals = map (\<lambda>p. extension_eval (dp_evals p) b half c) (rr_prefix_tables k) in
      map_option sum_list (those (map (\<lambda>(t, qs).
          table_combine t (prefix_at prefix_evals) (map (\<lambda>q. extension_eval (dp_evals q) b half c) qs))
        (rr_suffix_tables k))))"

definition raf_round_eval :: "'f::comm_ring_1 raf_decomposition \<Rightarrow> nat \<Rightarrow> nat \<Rightarrow> 'f" where
  "raf_round_eval d half c = (\<Sum>b\<leftarrow>[0..<half]. raf_message_eval d b half c)"

definition address_raf :: "'f::comm_ring_1 read_raf \<Rightarrow> nat \<Rightarrow> nat \<Rightarrow> 'f" where
  "address_raf k half c =
     (let gamma_sqr = rr_gamma k * rr_gamma k in
      rr_gamma k * raf_round_eval (rr_left k) half c +
      gamma_sqr * (raf_round_eval (rr_right k) half c + raf_round_eval (rr_identity k) half c) +
      (if CANONICAL_INSTRUCTION_ADDRESS then gamma_sqr * rr_gamma k * raf_round_eval (rr_upper_all_ones k) half c else 0))"

text \<open>Every table a round reads: in range where each has both halves.\<close>

definition raf_tables :: "'f raf_decomposition \<Rightarrow> 'f dense_poly list" where
  "raf_tables d = [raf_prefix d, raf_q_shift d, raf_q_value d]"

definition address_in_range :: "'f read_raf \<Rightarrow> nat \<Rightarrow> bool" where
  "address_in_range k half \<longleftrightarrow>
     length ALL_PREFIXES \<le> length (rr_prefix_tables k) \<and>
     list_all (\<lambda>p. 2 * half \<le> length (dp_evals p))
       (rr_prefix_tables k @ concat (map snd (rr_suffix_tables k)) @
        raf_tables (rr_left k) @ raf_tables (rr_right k) @ raf_tables (rr_identity k) @
        (if CANONICAL_INSTRUCTION_ADDRESS then raf_tables (rr_upper_all_ones k) else []))"

definition address_message :: "'f::comm_ring_1 read_raf \<Rightarrow> 'f list option" where
  "address_message k =
     (case rr_prefix_tables k of
        [] \<Rightarrow> None
      | first # _ \<Rightarrow>
          (let half = length (dp_evals first) div 2 in
           if \<not> address_in_range k half then None
           else those (map (\<lambda>c.
             map_option (\<lambda>reads. sum_list reads + address_raf k half c)
               (those (map (address_read k half c) [0..<half]))) [0, 1, 2])))"

definition cycle_product :: "'f::comm_ring_1 cycle_tables \<Rightarrow> nat \<Rightarrow> nat \<Rightarrow> 'f option" where
  "cycle_product tables c y =
     map_option prod_list (those (map (\<lambda>p. sumcheck_round_eval_with_order p y (of_nat c) LowToHigh)
       (ct_eq_reduction tables # ct_combined_val tables # ct_ra tables)))"

definition cycle_message :: "'f::comm_ring_1 read_raf \<Rightarrow> 'f sumcheck_error + 'f list" where
  "cycle_message k =
     (case rr_cycle_tables k of
        None \<Rightarrow> Inl (MissingEvaluationSource ''opening'')
      | Some tables \<Rightarrow>
          (let degree = dim_ra_polys (rr_dims k) + 2; half = length (dp_evals (ct_eq_reduction tables)) div 2 in
           ok_or (those (map (\<lambda>c. map_option sum_list (those (map (cycle_product tables c) [0..<half]))) [0..<Suc degree]))
             Sumcheck_Panicked))"

section \<open>The handoff to the cycle rounds\<close>

definition bound_table_values :: "'f::comm_ring_1 read_raf \<Rightarrow> 'f list option" where
  "bound_table_values k =
     those (map (\<lambda>t. table_combine t (prefix_at (rr_prefix_checkpoints k))
       (map (\<lambda>s. from_u64 (suffix_mle s (lb_new 0 0))) (table_suffixes t))) wasm_tables)"

definition combined_row_value :: "'f::comm_ring_1 read_raf \<Rightarrow> 'f list \<Rightarrow> read_raf_row \<Rightarrow> 'f option" where
  "combined_row_value k table_values row =
     (let gamma_sqr = rr_gamma k * rr_gamma k;
          raf_interleaved = rr_gamma k * raf_checkpoint (rr_left k) + gamma_sqr * raf_checkpoint (rr_right k);
          raf_identity = gamma_sqr * raf_checkpoint (rr_identity k) +
            (if CANONICAL_INSTRUCTION_ADDRESS then gamma_sqr * rr_gamma k * raf_checkpoint (rr_upper_all_ones k) else 0);
          raf_value = (if \<not> rw_raf_flag row then raf_interleaved else raf_identity) in
      map_option (\<lambda>table_value. table_value + raf_value)
        (case rw_table_index row of None \<Rightarrow> Some 0 | Some index \<Rightarrow> nth_opt table_values index))"

definition ra_row_value :: "'f::comm_ring_1 read_raf \<Rightarrow> nat \<Rightarrow> nat \<Rightarrow> read_raf_row \<Rightarrow> 'f option" where
  "ra_row_value k phases_per_ra i row =
     map_option prod_list (those (map (\<lambda>q. let phase = i * phases_per_ra + q in
         Option.bind (nth_opt (rr_v_tables k) phase) (\<lambda>v. nth_opt v (rr_chunk k (rw_lookup_index row) phase)))
       [0..<phases_per_ra]))"

definition init_cycle_rounds :: "'f::comm_ring_1 read_raf \<Rightarrow> 'f read_raf option" where
  "init_cycle_rounds k =
     Option.bind (bound_table_values k) (\<lambda>table_values.
     Option.bind (those (map (combined_row_value k table_values) (rr_rows k))) (\<lambda>combined_val.
     let ra_count = dim_ra_polys (rr_dims k); phases_per_ra = rr_phases k div ra_count in
     Option.bind (those (map (\<lambda>i. Option.bind (those (map (ra_row_value k phases_per_ra i) (rr_rows k))) dp_new)
       [0..<ra_count])) (\<lambda>ra.
     Option.bind (dp_new (view_eq_table (rr_reduction k))) (\<lambda>eq_reduction.
     Option.bind (dp_new combined_val) (\<lambda>combined_val.
     Some (k\<lparr>rr_cycle_tables := Some \<lparr>ct_eq_reduction = eq_reduction, ct_combined_val = combined_val, ct_ra = ra\<rparr>,
       rr_u_evals := [], rr_prefix_tables := [], rr_suffix_tables := [], rr_v_tables := []\<rparr>))))))"

section \<open>Binding\<close>

definition bind_dense :: "'f::comm_ring_1 \<Rightarrow> binding_order \<Rightarrow> 'f dense_poly list \<Rightarrow> 'f dense_poly list option" where
  "bind_dense challenge order ps = those (map (bind_with_order challenge order) ps)"

definition bind_address_tables :: "'f::comm_ring_1 \<Rightarrow> 'f read_raf \<Rightarrow> 'f read_raf option" where
  "bind_address_tables challenge k =
     Option.bind (bind_dense challenge HighToLow (rr_prefix_tables k)) (\<lambda>prefix_tables.
     Option.bind (those (map (\<lambda>(t, qs). map_option (Pair t) (bind_dense challenge HighToLow qs)) (rr_suffix_tables k))) (\<lambda>suffix_tables.
     Option.bind (raf_bind challenge (rr_left k)) (\<lambda>left.
     Option.bind (raf_bind challenge (rr_right k)) (\<lambda>right.
     Option.bind (raf_bind challenge (rr_identity k)) (\<lambda>identity.
     Option.bind (if CANONICAL_INSTRUCTION_ADDRESS then raf_bind challenge (rr_upper_all_ones k) else Some (rr_upper_all_ones k)) (\<lambda>upper.
     Some (k\<lparr>rr_prefix_tables := prefix_tables, rr_suffix_tables := suffix_tables, rr_left := left, rr_right := right,
       rr_identity := identity, rr_upper_all_ones := upper, rr_phase_challenges := rr_phase_challenges k @ [challenge]\<rparr>)))))))"

definition raf_close :: "'f raf_decomposition \<Rightarrow> 'f raf_decomposition option" where
  "raf_close d = map_option (\<lambda>v. d\<lparr>raf_checkpoint := v\<rparr>) (nth_opt (dp_evals (raf_prefix d)) 0)"

text \<open>The end of a phase: the fully bound tables become checkpoints.\<close>

definition close_phase :: "'f::comm_ring_1 read_raf \<Rightarrow> 'f read_raf option" where
  "close_phase k =
     (let v_tables = rr_v_tables k @ [view_eq_table (rr_phase_challenges k)] in
      Option.bind (those (map (\<lambda>p. nth_opt (dp_evals p) 0) (take (length (rr_prefix_checkpoints k)) (rr_prefix_tables k)))) (\<lambda>values.
      Option.bind (raf_close (rr_left k)) (\<lambda>left.
      Option.bind (raf_close (rr_right k)) (\<lambda>right.
      Option.bind (raf_close (rr_identity k)) (\<lambda>identity.
      Option.bind (if CANONICAL_INSTRUCTION_ADDRESS then raf_close (rr_upper_all_ones k) else Some (rr_upper_all_ones k)) (\<lambda>upper.
      Some (k\<lparr>rr_v_tables := v_tables,
        rr_prefix_checkpoints := values @ drop (length values) (rr_prefix_checkpoints k),
        rr_left := left, rr_right := right, rr_identity := identity, rr_upper_all_ones := upper\<rparr>)))))))"

definition bind_address :: "'f::comm_ring_1 \<Rightarrow> 'f read_raf \<Rightarrow> 'f read_raf option" where
  "bind_address challenge k =
     Option.bind (bind_address_tables challenge k) (\<lambda>k.
     if length (rr_phase_challenges k) = CHUNK_LEN then
       (let phase = rr_rounds_bound k div CHUNK_LEN in
        Option.bind (close_phase k) (\<lambda>k.
        if phase + 1 < rr_phases k then init_phase k (phase + 1) else init_cycle_rounds k))
     else Some k)"

definition bind_cycle :: "'f::comm_ring_1 \<Rightarrow> 'f read_raf \<Rightarrow> 'f sumcheck_error + 'f read_raf" where
  "bind_cycle challenge k =
     (case rr_cycle_tables k of
        None \<Rightarrow> Inl (MissingEvaluationSource ''opening'')
      | Some tables \<Rightarrow> ok_or
          (Option.bind (bind_with_order challenge LowToHigh (ct_eq_reduction tables)) (\<lambda>eq_reduction.
           Option.bind (bind_with_order challenge LowToHigh (ct_combined_val tables)) (\<lambda>combined_val.
           Option.bind (bind_dense challenge LowToHigh (ct_ra tables)) (\<lambda>ra.
           Some (k\<lparr>rr_cycle_tables := Some \<lparr>ct_eq_reduction = eq_reduction, ct_combined_val = combined_val, ct_ra = ra\<rparr>,
             rr_cycle_challenges := rr_cycle_challenges k @ [challenge]\<rparr>))))) Sumcheck_Panicked)"

definition rr_bind :: "'f::comm_ring_1 \<Rightarrow> 'f read_raf \<Rightarrow> 'f sumcheck_error + 'f read_raf" where
  "rr_bind challenge k =
     bind_res
       (if rr_rounds_bound k < dim_address_bits (rr_dims k) then ok_or (bind_address challenge k) Sumcheck_Panicked
        else bind_cycle challenge k) (\<lambda>k.
     Inr (k\<lparr>rr_rounds_bound := rr_rounds_bound k + 1\<rparr>))"

section \<open>The kernel's interface\<close>

datatype kernel_error =
    K_Unsupported
  | K_TableSizeMismatch string nat nat
  | K_InvariantViolation
  | K_Panicked

text \<open>The buckets of cycles by table.\<close>

definition bucket_row :: "nat \<times> read_raf_row \<Rightarrow> nat list list \<Rightarrow> kernel_error + nat list list" where
  "bucket_row jr buckets = (case jr of (j, row) \<Rightarrow>
     (case rw_table_index row of
        None \<Rightarrow> Inr buckets
      | Some i \<Rightarrow> if i < length buckets then Inr (buckets[i := buckets ! i @ [j]]) else Inl K_InvariantViolation))"

fun bucket_rows :: "(nat \<times> read_raf_row) list \<Rightarrow> nat list list \<Rightarrow> kernel_error + nat list list" where
  "bucket_rows [] buckets = Inr buckets"
| "bucket_rows (jr # rows) buckets = bind_res (bucket_row jr buckets) (bucket_rows rows)"

definition read_raf_new ::
    "read_raf_dimensions \<Rightarrow> 'f::comm_ring_1 list \<Rightarrow> read_raf_row list \<Rightarrow> 'f \<Rightarrow> kernel_error + 'f read_raf" where
  "read_raf_new d r_reduction rows gamma =
     (let address_bits = dim_address_bits d; log_t = dim_log_t d; ra_count = dim_ra_polys d in
      if address_bits \<noteq> 2 * XLEN then Inl K_Unsupported
      else if address_bits mod ra_count \<noteq> 0 \<or> address_bits div ra_count mod CHUNK_LEN \<noteq> 0 then Inl K_Unsupported
      else if length rows \<noteq> 2 ^ log_t then
        Inl (K_TableSizeMismatch ''stage-5 instruction rows'' (2 ^ log_t) (length rows))
      else if length r_reduction \<noteq> log_t then
        Inl (K_TableSizeMismatch ''instruction claim-reduction point'' log_t (length r_reduction))
      else bind_res (bucket_rows (enumerate 0 rows) (replicate TABLE_COUNT [])) (\<lambda>buckets.
        ok_or (init_phase
          \<lparr>rr_dims = d, rr_gamma = gamma, rr_reduction = r_reduction, rr_rows = rows, rr_buckets = buckets,
           rr_u_evals = view_eq_table r_reduction, rr_prefix_checkpoints = map default_checkpoint ALL_PREFIXES,
           rr_prefix_tables = [], rr_suffix_tables = [], rr_left = raf_empty, rr_right = raf_empty,
           rr_identity = raf_empty, rr_upper_all_ones = raf_empty_product, rr_v_tables = [],
           rr_phase_challenges = [], rr_cycle_challenges = [], rr_cycle_tables = None, rr_rounds_bound = 0\<rparr> 0)
          K_Panicked))"

definition rr_num_rounds :: "'f read_raf \<Rightarrow> nat" where
  "rr_num_rounds k = sumcheck_rounds (rr_dims k)"

definition rr_prove_round ::
    "'f::field read_raf \<Rightarrow> 'f option \<Rightarrow> nat \<Rightarrow> 'f \<Rightarrow> 'f sumcheck_error + ('f univariate_poly \<times> 'f read_raf)" where
  "rr_prove_round k bind round previous_claim =
     bind_res (case bind of None \<Rightarrow> Inr k | Some challenge \<Rightarrow> rr_bind challenge k) (\<lambda>k.
     bind_res
       (if rr_rounds_bound k < dim_address_bits (rr_dims k) then ok_or (address_message k) Sumcheck_Panicked
        else cycle_message k) (\<lambda>evals.
     let round_sum = evals ! 0 + evals ! 1 in
     if round_sum \<noteq> previous_claim then Inl (RoundCheckFailed round previous_claim round_sum)
     else bind_res (ok_or (from_evals evals) Sumcheck_Panicked) (\<lambda>poly. Inr (poly, k))))"

definition rr_finish_rounds :: "'f::field read_raf \<Rightarrow> 'f \<Rightarrow> 'f sumcheck_error + 'f read_raf" where
  "rr_finish_rounds k bind = rr_bind bind k"

datatype sumcheck_kernel_error = NotFullyBound nat | SK_InvariantViolation | SK_Panicked

record 'f read_raf_output_claims =
  lookup_table_flags :: "'f list"
  instruction_ra :: "'f list"
  instruction_raf_flag :: 'f

definition flag_step :: "read_raf_row \<times> 'f::comm_ring_1 \<Rightarrow> 'f list \<times> 'f \<Rightarrow> 'f list \<times> 'f" where
  "flag_step re st = (case (re, st) of ((row, eq), flags, raf_flag) \<Rightarrow>
     (case rw_table_index row of None \<Rightarrow> flags | Some index \<Rightarrow> accumulate index eq flags,
      if rw_raf_flag row then raf_flag + eq else raf_flag))"

definition rr_output_claims :: "'f::comm_ring_1 read_raf \<Rightarrow> sumcheck_kernel_error + 'f read_raf_output_claims" where
  "rr_output_claims k =
     (if rr_rounds_bound k \<noteq> rr_num_rounds k then Inl (NotFullyBound (rr_num_rounds k - rr_rounds_bound k))
      else case rr_cycle_tables k of
          None \<Rightarrow> Inl SK_InvariantViolation
        | Some tables \<Rightarrow>
            (let eq_cycle = view_eq_table (rev (rr_cycle_challenges k));
                 (flags, raf_flag) = fold flag_step (zip (rr_rows k) eq_cycle) (replicate TABLE_COUNT 0, 0) in
             bind_res (ok_or (those (map (\<lambda>ra. nth_opt (dp_evals ra) 0) (ct_ra tables))) SK_Panicked) (\<lambda>ra.
             Inr \<lparr>lookup_table_flags = flags, instruction_ra = ra, instruction_raf_flag = raf_flag\<rparr>)))"

end
