(* ===== verification/Gruen.thy ===== *)
theory Gruen
  imports Split_Eq
begin

text \<open>
  The split equality polynomial of \<^verbatim>\<open>jolt-poly/src/split_eq.rs\<close> refines the dense table of the
  scaled equality polynomial over the variables that are left: every bind of the one is the bind of
  the other, the current linear factor and the two cached tables give its pairs of values, and the
  round polynomials are the product of the linear factor with the other polynomial.
\<close>

section \<open>The dense view\<close>

definition gruen_rest :: "'f gruen \<Rightarrow> 'f list" where
  "gruen_rest g = (case gr_order g of LowToHigh \<Rightarrow> take (gr_index g) (gr_point g) | HighToLow \<Rightarrow> drop (gr_index g) (gr_point g))"

definition gruen_table :: "'f::comm_ring_1 gruen \<Rightarrow> 'f list" where
  "gruen_table g = eq_table (gr_scalar g) (gruen_rest g)"

definition prefix_tables :: "nat \<Rightarrow> 'f::comm_ring_1 list \<Rightarrow> 'f list list" where
  "prefix_tables k p = map (\<lambda>j. eq_table 1 (take j p)) [0..<Suc k]"

definition suffix_tables :: "nat \<Rightarrow> 'f::comm_ring_1 list \<Rightarrow> 'f list list" where
  "suffix_tables k p = map (\<lambda>j. eq_table 1 (drop (length p - j) p)) [0..<Suc k]"

text \<open>The number of bits each cached table still covers.\<close>

definition out_bits :: "'f gruen \<Rightarrow> nat" where
  "out_bits g = (let n = length (gr_point g); i = gr_index g in
     case gr_order g of LowToHigh \<Rightarrow> min (n div 2) (i - 1) | HighToLow \<Rightarrow> min (n - 1 - n div 2) (n - 1 - i))"

definition in_bits :: "'f gruen \<Rightarrow> nat" where
  "in_bits g = (let n = length (gr_point g); i = gr_index g in
     case gr_order g of LowToHigh \<Rightarrow> i - 1 - n div 2 | HighToLow \<Rightarrow> n div 2 - i)"

definition gruen_ok :: "'f::comm_ring_1 gruen \<Rightarrow> bool" where
  "gruen_ok g \<longleftrightarrow>
     (let point = gr_point g; n = length point; half = n div 2 in
      gr_index g \<le> n \<and> point \<noteq> [] \<and>
      (case gr_order g of
         LowToHigh \<Rightarrow>
           gr_out_vec g = prefix_tables (out_bits g) (take half (take (n - 1) point)) \<and>
           gr_in_vec g = prefix_tables (in_bits g) (drop half (take (n - 1) point))
       | HighToLow \<Rightarrow>
           gr_in_vec g = suffix_tables (in_bits g) (take half (drop 1 point)) \<and>
           gr_out_vec g = suffix_tables (out_bits g) (drop half (drop 1 point))))"

lemma tables_butlast:
  "butlast (prefix_tables (Suc k) p) = prefix_tables k p" "butlast (suffix_tables (Suc k) p) = suffix_tables k p"
  "length (prefix_tables k p) = Suc k" "length (suffix_tables k p) = Suc k"
  by (simp_all add: prefix_tables_def suffix_tables_def butlast_append)

lemma tables_last: "last (prefix_tables k p) = eq_table 1 (take k p)" "last (suffix_tables k p) = eq_table 1 (drop (length p - k) p)"
  by (simp_all add: prefix_tables_def suffix_tables_def)

lemma cached_tables_eq:
  "evals_cached p None = prefix_tables (length p) p" "evals_cached_rev p None = suffix_tables (length p) p"
  by (simp_all add: evals_cached_eq evals_cached_rev_eq prefix_tables_def suffix_tables_def del: upt_Suc)

lemma gruen_new_ok:
  assumes "point \<noteq> []"
  shows "gruen_ok (gruen_new_with_scaling point order s)"
proof -
  have "min (length point div 2) (length point - 1) = length point div 2" using assms by (cases point) auto
  then show ?thesis using assms
    by (cases order)
      (simp_all add: gruen_ok_def gruen_new_with_scaling_def Let_def cached_tables_eq out_bits_def in_bits_def)
qed

lemma gruen_new_table:
  "gruen_table (gruen_new_with_scaling point order s) = eq_table (case s of Some s \<Rightarrow> s | None \<Rightarrow> 1) point"
  by (cases order) (simp_all add: gruen_table_def gruen_rest_def gruen_new_with_scaling_def Let_def)

lemma twos_power: "twos (2 ^ n) = n"
  by (induction n) (simp_all add: twos.simps)

lemma dp_new_table: "length e = 2 ^ n \<Longrightarrow> dp_new e = Some \<lparr>dp_evals = e, dp_num_vars = n\<rparr>"
  by (auto simp: dp_new_def is_power_of_two_iff twos_power)

lemma gruen_merge_eq: "gruen_merge g = Some \<lparr>dp_evals = gruen_table g, dp_num_vars = length (gruen_rest g)\<rparr>"
  by (cases "gr_order g") (simp_all add: gruen_merge_def gruen_table_def gruen_rest_def eq_evals_eq dp_new_table)

section \<open>Binding\<close>

lemma bind_halves_eq_table: "bind_halves c (eq_table s (r # rs)) = eq_table (s * (1 - r - c + r * c + r * c)) rs"
proof -
  have "map2 (\<lambda>lo hi. lo + c * (hi - lo)) (map (\<lambda>x. s * (1 - r) * x) t) (map (\<lambda>x. s * r * x) t) =
      map (\<lambda>x. s * (1 - r - c + r * c + r * c) * x) t" for t
    by (induction t) (simp_all add: algebra_simps)
  then have "bind_halves c (eq_table s (r # rs)) = map (\<lambda>x. s * (1 - r - c + r * c + r * c) * x) (eq_table 1 rs)"
    by (simp only: bind_halves_def Let_def eq_table.simps eq_table_scale1 [of "s * (1 - r)"] eq_table_scale1 [of "s * r"])
      simp
  then show ?thesis by (simp only: eq_table_scale1 [of "s * (1 - r - c + r * c + r * c)"])
qed

lemma bind_pairs_eq_table: "bind_pairs c (eq_table s (rs @ [r])) = eq_table (s * (1 - r - c + r * c + r * c)) rs"
proof -
  have "bind_pairs c (concat (map (\<lambda>e. [e * (1 - r), e * r]) t)) = map (\<lambda>x. (1 - r - c + r * c + r * c) * x) t" for t
    by (induction t) (simp_all add: algebra_simps)
  then show ?thesis by (simp add: eq_table_snoc eq_table_scale)
qed

lemma gruen_bind_fields:
  assumes "gr_point g \<noteq> []"
  shows "gr_point (gruen_bind c g) = gr_point g" "gr_order (gruen_bind c g) = gr_order g"
    "gr_index (gruen_bind c g) = (case gr_order g of LowToHigh \<Rightarrow> gr_index g - 1 | HighToLow \<Rightarrow> gr_index g + 1)"
    "gr_scalar (gruen_bind c g) =
      gr_scalar g * (1 - current_point g - c + current_point g * c + current_point g * c)"
proof -
  show "gr_point (gruen_bind c g) = gr_point g" using assms
    unfolding gruen_bind_def Let_def by (simp split: binding_order.split)
  show "gr_order (gruen_bind c g) = gr_order g" using assms
    unfolding gruen_bind_def Let_def by (simp split: binding_order.split)
  show "gr_index (gruen_bind c g) = (case gr_order g of LowToHigh \<Rightarrow> gr_index g - 1 | HighToLow \<Rightarrow> gr_index g + 1)" using assms
    unfolding gruen_bind_def Let_def by (simp split: binding_order.split)
  show "gr_scalar (gruen_bind c g) =
      gr_scalar g * (1 - current_point g - c + current_point g * c + current_point g * c)" using assms
    unfolding gruen_bind_def Let_def by (simp split: binding_order.split)
qed

lemma gruen_rest_split:
  assumes "gruen_ok g" "gruen_rest g \<noteq> []"
  shows "gruen_rest g = (case gr_order g of LowToHigh \<Rightarrow> gruen_rest (gruen_bind c g) @ [current_point g]
    | HighToLow \<Rightarrow> current_point g # gruen_rest (gruen_bind c g))"
proof -
  have p: "gr_point g \<noteq> []" "gr_index g \<le> length (gr_point g)" using assms(1) by (auto simp: gruen_ok_def Let_def)
  show ?thesis
  proof (cases "gr_order g")
    case LowToHigh
    then obtain i where i: "gr_index g = Suc i" using assms(2) by (cases "gr_index g") (auto simp: gruen_rest_def)
    then show ?thesis using LowToHigh p
      by (simp add: gruen_rest_def gruen_bind_fields current_point_def take_Suc_conv_app_nth)
  next
    case HighToLow
    then show ?thesis using assms(2) p
      by (simp add: gruen_rest_def gruen_bind_fields current_point_def Cons_nth_drop_Suc)
  qed
qed

text \<open>A bind of the split polynomial is a bind of the dense one.\<close>

lemma gruen_bind_merge:
  assumes "gruen_ok g" "gruen_rest g \<noteq> []"
  shows "gruen_merge (gruen_bind c g) = Option.bind (gruen_merge g) (bind_with_order c (gr_order g))"
proof -
  have p: "gr_point g \<noteq> []" using assms(1) by (auto simp: gruen_ok_def Let_def)
  let ?r = "gruen_rest (gruen_bind c g)"
  note split = gruen_rest_split [OF assms, of c]
  show ?thesis
  proof (cases "gr_order g")
    case LowToHigh
    then have "gruen_table g = eq_table (gr_scalar g) (?r @ [current_point g])" using split by (simp add: gruen_table_def)
    then show ?thesis using LowToHigh p split
      by (simp add: gruen_merge_eq bind_with_order_def bind_low_to_high_def bind_low_loop_eq bind_pairs_eq_table)
        (simp add: gruen_table_def gruen_bind_fields)
  next
    case HighToLow
    then have t: "gruen_table g = eq_table (gr_scalar g) (current_point g # ?r)" using split by (simp add: gruen_table_def)
    have "bind_high_loop c (gruen_table g) = bind_halves c (gruen_table g)"
      by (rule bind_high_loop_eq [of _ "2 ^ length ?r"]) (simp add: t del: eq_table.simps)
    then show ?thesis using HighToLow p split
      by (simp add: gruen_merge_eq bind_with_order_def bind_high_to_low_def t bind_halves_eq_table del: eq_table.simps)
        (simp add: gruen_table_def gruen_bind_fields)
  qed
qed

section \<open>The invariant of the caches\<close>

lemma gruen_bind_ok:
  assumes "gruen_ok g" "gruen_rest g \<noteq> []"
  shows "gruen_ok (gruen_bind c g)"
proof (cases "gr_order g")
  case LowToHigh
  then obtain i where i: "gr_index g = Suc i" using assms(2) by (cases "gr_index g") (auto simp: gruen_rest_def)
  let ?half = "length (gr_point g) div 2"
  have ok: "Suc i \<le> length (gr_point g)" "gr_point g \<noteq> []"
    "gr_out_vec g = prefix_tables (min ?half i) (take ?half (take (length (gr_point g) - 1) (gr_point g)))"
    "gr_in_vec g = prefix_tables (i - ?half) (drop ?half (take (length (gr_point g) - 1) (gr_point g)))"
    using assms(1) LowToHigh i by (auto simp: gruen_ok_def Let_def out_bits_def in_bits_def)
  consider "?half < i" | "0 < i" "i \<le> ?half" | "i = 0" by linarith
  then show ?thesis
  proof cases
    case 1
    then have "i - ?half = Suc (i - 1 - ?half)" by simp
    then show ?thesis using 1 ok LowToHigh i
      by (simp add: gruen_bind_def Let_def gruen_ok_def out_bits_def in_bits_def tables_butlast)
  next
    case 2
    then have "min ?half i = Suc (min ?half (i - 1))" "i - ?half = 0" by simp_all
    moreover obtain k where "i = Suc k" using 2 by (cases i) auto
    ultimately show ?thesis using 2 ok LowToHigh i
      by (simp add: gruen_bind_def Let_def gruen_ok_def out_bits_def in_bits_def tables_butlast)
  next
    case 3
    then show ?thesis using ok LowToHigh i
      by (simp add: gruen_bind_def Let_def gruen_ok_def out_bits_def in_bits_def tables_butlast)
  qed
next
  case HighToLow
  let ?i = "gr_index g" and ?n = "length (gr_point g)" and ?half = "length (gr_point g) div 2"
  have i: "?i < ?n" using assms(2) HighToLow by (auto simp: gruen_rest_def)
  have ok: "gr_point g \<noteq> []"
    "gr_in_vec g = suffix_tables (?half - ?i) (take ?half (drop 1 (gr_point g)))"
    "gr_out_vec g = suffix_tables (min (?n - 1 - ?half) (?n - 1 - ?i)) (drop ?half (drop 1 (gr_point g)))"
    using assms(1) HighToLow by (auto simp: gruen_ok_def Let_def out_bits_def in_bits_def)
  consider "?i < ?half" | "?half \<le> ?i" "?i < ?n - 1" | "?i = ?n - 1" using i by linarith
  then show ?thesis
  proof cases
    case 1
    then have "?half - ?i = Suc (?half - Suc ?i)" "min (?n - 1 - ?half) (?n - 1 - ?i) = min (?n - 1 - ?half) (?n - 1 - Suc ?i)"
      by simp_all
    then show ?thesis using 1 ok HighToLow i
      by (simp add: gruen_bind_def Let_def gruen_ok_def out_bits_def in_bits_def tables_butlast)
  next
    case 2
    then have "?half - ?i = 0" "?half - Suc ?i = 0" "min (?n - 1 - ?half) (?n - 1 - ?i) = Suc (min (?n - 1 - ?half) (?n - 1 - Suc ?i))"
      by simp_all
    then show ?thesis using 2 ok HighToLow i
      by (simp add: gruen_bind_def Let_def gruen_ok_def out_bits_def in_bits_def tables_butlast)
  next
    case 3
    then have "?half - Suc ?i = ?half - ?i" "?n - 1 - Suc ?i = 0" "?n - 1 - ?i = 0" using i by simp_all
    then show ?thesis using 3 ok HighToLow i
      by (simp add: gruen_bind_def Let_def gruen_ok_def out_bits_def in_bits_def tables_butlast)
  qed
qed

section \<open>The pairs of values\<close>

lemma tables_nonempty: "prefix_tables k p \<noteq> []" "suffix_tables k p \<noteq> []"
  by (simp_all add: prefix_tables_def suffix_tables_def)

lemma current_last:
  "gr_out_vec g \<noteq> [] \<Longrightarrow> e_out_current g = last (gr_out_vec g)" "gr_in_vec g \<noteq> [] \<Longrightarrow> e_in_current g = last (gr_in_vec g)"
  by (simp_all add: e_out_current_def e_in_current_def last_conv_nth)

lemma drop_cut: "i \<le> h \<Longrightarrow> h \<le> length xs \<Longrightarrow> drop i xs = drop i (take h xs) @ drop h xs"
proof -
  assume "i \<le> h" "h \<le> length xs"
  then have "drop i (take h xs @ drop h xs) = drop i (take h xs) @ drop h xs" by (simp del: append_take_drop_id)
  then show ?thesis by simp
qed

lemma gruen_split_rest:
  assumes "gruen_ok g" "gruen_rest g \<noteq> []"
  obtains po pi where "e_out_current g = eq_table 1 po" "e_in_current g = eq_table 1 pi"
    "gruen_rest (gruen_bind c g) = (case gr_order g of LowToHigh \<Rightarrow> po @ pi | HighToLow \<Rightarrow> pi @ po)"
proof (cases "gr_order g")
  case LowToHigh
  then obtain i where i: "gr_index g = Suc i" using assms(2) by (cases "gr_index g") (auto simp: gruen_rest_def)
  let ?point = "gr_point g" and ?half = "length (gr_point g) div 2"
  have ok: "Suc i \<le> length ?point" "?point \<noteq> []"
    "gr_out_vec g = prefix_tables (min ?half i) (take ?half (take (length ?point - 1) ?point))"
    "gr_in_vec g = prefix_tables (i - ?half) (drop ?half (take (length ?point - 1) ?point))"
    using assms(1) LowToHigh i by (auto simp: gruen_ok_def Let_def out_bits_def in_bits_def)
  let ?po = "take (min ?half i) ?point" and ?pi = "take (i - ?half) (drop ?half ?point)"
  have "take i ?point = ?po @ ?pi"
    by (cases "i \<le> ?half") (simp_all add: min_def take_add [symmetric])
  moreover have take_tables:
    "take (min ?half i) (take ?half (take (length ?point - 1) ?point)) = ?po"
    "take (i - ?half) (drop ?half (take (length ?point - 1) ?point)) = ?pi"
    using ok(1) by (simp_all add: drop_take min_absorb1 min.assoc [symmetric])
  then have "e_out_current g = eq_table 1 ?po" "e_in_current g = eq_table 1 ?pi"
    using ok by (simp_all add: current_last tables_last tables_nonempty)
  ultimately show ?thesis using that [of ?po ?pi] LowToHigh i ok
    by (simp add: gruen_rest_def gruen_bind_fields)
next
  case HighToLow
  let ?point = "gr_point g" and ?n = "length (gr_point g)" and ?half = "length (gr_point g) div 2" and ?i = "gr_index g"
  have i: "?i < ?n" using assms(2) HighToLow by (auto simp: gruen_rest_def)
  have ok: "?point \<noteq> []" "gr_in_vec g = suffix_tables (?half - ?i) (take ?half (drop 1 ?point))"
    "gr_out_vec g = suffix_tables (min (?n - 1 - ?half) (?n - 1 - ?i)) (drop ?half (drop 1 ?point))"
    using assms(1) HighToLow by (auto simp: gruen_ok_def Let_def out_bits_def in_bits_def)
  let ?pi = "drop (?half - (?half - ?i)) (take ?half (drop 1 ?point))"
  let ?po = "drop (?n - 1 - ?half - min (?n - 1 - ?half) (?n - 1 - ?i)) (drop ?half (drop 1 ?point))"
  have half: "?half \<le> ?n - 1" using ok(1) by (cases ?point) auto
  have rest: "drop (Suc ?i) ?point = ?pi @ ?po"
  proof (cases "?i \<le> ?half")
    case True
    then show ?thesis using drop_cut [of ?i ?half "drop 1 ?point"] half by simp
  next
    case False
    then show ?thesis using half i by (simp add: min_def)
  qed
  moreover have "e_out_current g = eq_table 1 ?po" "e_in_current g = eq_table 1 ?pi"
    using ok half by (simp_all add: current_last tables_last tables_nonempty)
  ultimately show ?thesis using that [of ?po ?pi] HighToLow ok by (simp add: gruen_rest_def gruen_bind_fields)
qed

text \<open>The row of the dense table that an entry of the two caches stands for.\<close>

definition gruen_row :: "'f gruen \<Rightarrow> nat \<Rightarrow> nat \<Rightarrow> nat" where
  "gruen_row g x_out x_in =
     (case gr_order g of LowToHigh \<Rightarrow> x_out * length (e_in_current g) + x_in
      | HighToLow \<Rightarrow> x_in * length (e_out_current g) + x_out)"

lemma gruen_group_row:
  assumes "gruen_ok g" "gruen_rest g \<noteq> []" "gr_order g = LowToHigh" "x_in < length (e_in_current g)"
  shows "gruen_group_index g x_out x_in = gruen_row g x_out x_in"
proof -
  obtain po pi where "e_in_current g = eq_table 1 pi" by (rule gruen_split_rest [OF assms(1,2)])
  then show ?thesis using assms(3,4)
    by (simp add: gruen_group_index_def gruen_row_def twos_power group_index_eq)
qed

lemma sumcheck_pair_table:
  assumes "i < 2 ^ length rs"
  shows "sumcheck_eval_pair \<lparr>dp_evals = eq_table s (case order of LowToHigh \<Rightarrow> rs @ [r] | HighToLow \<Rightarrow> r # rs), dp_num_vars = n\<rparr> i order =
    Some (s * (1 - r) * eq_table 1 rs ! i, s * r * eq_table 1 rs ! i)"
proof (cases order)
  case LowToHigh
  have pairs: "i < length t \<Longrightarrow> concat (map (\<lambda>e. [e * (1 - r), e * r]) t) ! (2 * i) = t ! i * (1 - r) \<and>
      concat (map (\<lambda>e. [e * (1 - r), e * r]) t) ! (2 * i + 1) = t ! i * r" for t
    by (induction t arbitrary: i) (auto simp: nth_Cons split: nat.split)
  have "length (concat (map (\<lambda>e. [e * (1 - r), e * r]) t)) = 2 * length t" for t
    by (induction t) simp_all
  with pairs [of "eq_table s rs"] show ?thesis using LowToHigh assms
    by (simp add: sumcheck_eval_pair_def nth_opt_def eq_table_snoc) (simp add: eq_table_scale1 [of s] ac_simps)
next
  case HighToLow
  then show ?thesis using assms
    by (simp add: sumcheck_eval_pair_def nth_opt_def nth_append)
      (simp add: eq_table_scale1 [of "s * (1 - r)"] eq_table_scale1 [of "s * r"])
qed

lemma grid_index: "u < a \<Longrightarrow> v < b \<Longrightarrow> u * b + v < a * b" for u v a b :: nat
  by (metis add.commute less_eq_Suc_le mult_Suc mult_le_mono1 nat_add_left_cancel_less order_less_le_trans)

lemma gruen_row_bound:
  assumes "gruen_ok g" "gruen_rest g \<noteq> []" "x_out < length (e_out_current g)" "x_in < length (e_in_current g)"
  shows "gruen_row g x_out x_in < 2 ^ (length (gruen_rest g) - 1)"
    "eq_table 1 (gruen_rest (gruen_bind c g)) ! gruen_row g x_out x_in = e_out_current g ! x_out * e_in_current g ! x_in"
proof -
  obtain po pi where e: "e_out_current g = eq_table 1 po" "e_in_current g = eq_table 1 pi"
    "gruen_rest (gruen_bind c g) = (case gr_order g of LowToHigh \<Rightarrow> po @ pi | HighToLow \<Rightarrow> pi @ po)"
    by (rule gruen_split_rest [OF assms(1,2)])
  have len: "length (gruen_rest g) - 1 = length po + length pi"
    using gruen_rest_split [OF assms(1,2), of c] e(3) by (cases "gr_order g") simp_all
  have "gruen_row g x_out x_in < 2 ^ (length po + length pi) \<and>
    eq_table 1 (gruen_rest (gruen_bind c g)) ! gruen_row g x_out x_in = e_out_current g ! x_out * e_in_current g ! x_in"
  proof (cases "gr_order g")
    case LowToHigh
    then have row: "gruen_row g x_out x_in = x_out * 2 ^ length pi + x_in" by (simp add: gruen_row_def e)
    then have "gruen_row g x_out x_in < 2 ^ length (po @ pi)" using assms(3,4) grid_index by (simp add: e power_add)
    then show ?thesis using eq_table_split [of "gruen_row g x_out x_in" po pi 1] LowToHigh assms(3,4) row by (simp add: e)
  next
    case HighToLow
    then have row: "gruen_row g x_out x_in = x_in * 2 ^ length po + x_out" by (simp add: gruen_row_def e)
    then have "gruen_row g x_out x_in < 2 ^ length (pi @ po)" using assms(3,4) grid_index by (simp add: e power_add)
    then show ?thesis using eq_table_split [of "gruen_row g x_out x_in" pi po 1] HighToLow assms(3,4) row
      by (simp add: e add.commute mult.commute)
  qed
  then show "gruen_row g x_out x_in < 2 ^ (length (gruen_rest g) - 1)"
    "eq_table 1 (gruen_rest (gruen_bind c g)) ! gruen_row g x_out x_in = e_out_current g ! x_out * e_in_current g ! x_in"
    using len by simp_all
qed

lemma gruen_pair:
  assumes "gruen_ok g" "gruen_rest g \<noteq> []" "x_out < length (e_out_current g)" "x_in < length (e_in_current g)"
  shows "Option.bind (gruen_merge g) (\<lambda>p. sumcheck_eval_pair p (gruen_row g x_out x_in) (gr_order g)) =
    (let (l0, l1) = current_linear_evals g; e = e_out_current g ! x_out * e_in_current g ! x_in in Some (l0 * e, l1 * e))"
proof -
  let ?rs = "gruen_rest (gruen_bind 0 g)"
  note split = gruen_rest_split [OF assms(1,2), of 0]
  have table: "gruen_table g = eq_table (gr_scalar g) (case gr_order g of LowToHigh \<Rightarrow> ?rs @ [current_point g] | HighToLow \<Rightarrow> current_point g # ?rs)"
    using split by (cases "gr_order g") (simp_all add: gruen_table_def)
  have "length ?rs = length (gruen_rest g) - 1" using split by (cases "gr_order g") simp_all
  then show ?thesis using gruen_row_bound(1) [OF assms] gruen_row_bound(2) [OF assms, of 0]
    by (simp add: gruen_merge_eq table sumcheck_pair_table current_linear_evals_def Let_def algebra_simps)
qed

section \<open>The round polynomials\<close>

lemma sum_rows_pairs:
  fixes h :: "nat \<Rightarrow> 'f::comm_ring_1"
  shows "(\<Sum>x_out<a. \<Sum>x_in<b. h (x_out * b + x_in)) = (\<Sum>row<a * b. h row)"
    "(\<Sum>x_out<b. \<Sum>x_in<a. h (x_in * b + x_out)) = (\<Sum>row<a * b. h row)"
  using sum_grid [of h a b] sum.swap [of "\<lambda>x y. h (y * b + x)" "{..<a}" "{..<b}"] by simp_all

text \<open>The sum over the rows of the dense polynomial at a point of the current variable.\<close>

definition round_value :: "'f::comm_ring_1 gruen \<Rightarrow> (nat \<Rightarrow> 'f \<Rightarrow> 'f) \<Rightarrow> 'f \<Rightarrow> 'f" where
  "round_value g h t =
     (\<Sum>row<2 ^ (length (gruen_rest g) - 1). eq_table (gr_scalar (gruen_bind t g)) (gruen_rest (gruen_bind t g)) ! row * h row t)"

text \<open>The two nested folds a kernel makes over the cached tables.\<close>

definition split_fold :: "'f::comm_ring_1 gruen \<Rightarrow> (nat \<Rightarrow> 'f) \<Rightarrow> 'f" where
  "split_fold g h =
     (\<Sum>x_out<length (e_out_current g). \<Sum>x_in<length (e_in_current g).
       e_out_current g ! x_out * e_in_current g ! x_in * h (gruen_row g x_out x_in))"

lemma split_fold_rows:
  assumes "gruen_ok g" "gruen_rest g \<noteq> []"
  shows "split_fold g h =
    (\<Sum>row<2 ^ (length (gruen_rest g) - 1). eq_table 1 (gruen_rest (gruen_bind c g)) ! row * h row)"
proof -
  let ?k = "\<lambda>row. eq_table 1 (gruen_rest (gruen_bind c g)) ! row * h row"
  obtain po pi where e: "e_out_current g = eq_table 1 po" "e_in_current g = eq_table 1 pi"
    "gruen_rest (gruen_bind c g) = (case gr_order g of LowToHigh \<Rightarrow> po @ pi | HighToLow \<Rightarrow> pi @ po)"
    by (rule gruen_split_rest [OF assms])
  have len: "length (gruen_rest g) - 1 = length po + length pi"
    using gruen_rest_split [OF assms, of c] e(3) by (cases "gr_order g") simp_all
  have "split_fold g h = (\<Sum>x_out<2 ^ length po. \<Sum>x_in<2 ^ length pi. ?k (gruen_row g x_out x_in))"
    unfolding split_fold_def
    by (intro sum.cong) (use gruen_row_bound(2) [OF assms, of _ _ c] in \<open>simp_all add: e(1,2)\<close>)
  also have "\<dots> = (\<Sum>row<2 ^ length po * 2 ^ length pi. ?k row)"
    by (cases "gr_order g") (simp_all add: gruen_row_def e(1,2) sum_rows_pairs [of ?k] mult.commute [of "2 ^ length po"])
  finally show ?thesis unfolding len power_add .
qed

lemma bound_scalar:
  assumes "gr_point g \<noteq> []"
  shows "gr_scalar (gruen_bind t g) =
    fst (current_linear_evals g) + t * (snd (current_linear_evals g) - fst (current_linear_evals g))"
  using assms by (simp add: gruen_bind_fields current_linear_evals_def Let_def algebra_simps)

lemma round_value_split:
  assumes "gruen_ok g" "gruen_rest g \<noteq> []"
  shows "round_value g h t =
    (fst (current_linear_evals g) + t * (snd (current_linear_evals g) - fst (current_linear_evals g))) * split_fold g (\<lambda>row. h row t)"
proof -
  have p: "gr_point g \<noteq> []" using assms(1) by (auto simp: gruen_ok_def Let_def)
  have len: "length (gruen_rest (gruen_bind t g)) = length (gruen_rest g) - 1"
    using gruen_rest_split [OF assms, of t] by (cases "gr_order g") simp_all
  show ?thesis
    unfolding round_value_def split_fold_rows [OF assms, of _ t] bound_scalar [OF p, symmetric] sum_distrib_left
    by (intro sum.cong) (simp_all add: eq_table_scale1 [of "gr_scalar (gruen_bind t g)"] len mult.assoc)
qed

lemma split_fold_linear:
  "split_fold g (\<lambda>row. a row + b row) = split_fold g a + split_fold g b"
  "split_fold g (\<lambda>row. b row * t) = split_fold g b * t"
  by (simp_all add: split_fold_def sum.distrib [symmetric] sum_distrib_right distrib_left mult.assoc)

text \<open>The cubic round polynomial, from the constant and the quadratic coefficient of the other factor.\<close>

lemma cubic_round_poly:
  fixes g :: "'f::field gruen"
  assumes "gruen_ok g" "gruen_rest g \<noteq> []" "snd (current_linear_evals g) \<noteq> 0"
    and inj: "inj_on (of_nat :: nat \<Rightarrow> 'f) {..<4}"
    and h: "\<And>row t. h row t = a row + b row * t + c row * (t * t)"
  shows "\<exists>p. gruen_poly_deg_3 g (split_fold g a) (split_fold g c) (round_value g h 0 + round_value g h 1) = Some p \<and>
    (\<forall>t. up_evaluate p t = round_value g h t)"
proof -
  let ?la = "fst (current_linear_evals g)" and ?lb = "snd (current_linear_evals g)"
  let ?A = "split_fold g a" and ?B = "split_fold g b" and ?C = "split_fold g c"
  let ?q = "\<lambda>t. ?A + ?B * t + ?C * (t * t)"
  let ?line = "\<lambda>t. ?la + t * (?lb - ?la)"
  have inj4: "inj_on (of_nat :: nat \<Rightarrow> 'f) {..<Suc (Suc (Suc (Suc 0)))}" using inj by (simp add: eval_nat_numeral)
  have rv: "round_value g h t = ?line t * ?q t" for t
    by (simp add: round_value_split [OF assms(1,2)] h split_fold_linear)
  have l: "gr_scalar g * current_point g = ?lb" "gr_scalar g - ?lb = ?la"
    by (simp_all add: current_linear_evals_def Let_def)
  let ?evals = "[?line 0 * ?q 0, ?line 1 * ?q 1, ?line 2 * ?q 2, ?line 3 * ?q 3]"
  have "gruen_poly_deg_3 g ?A ?C (round_value g h 0 + round_value g h 1) = interpolate_over_integers ?evals"
  proof -
    have "(round_value g h 0 + round_value g h 1 - ?la * ?A) * inverse ?lb = ?q 1"
      using assms(3) by (simp add: rv)
    moreover have "round_value g h 0 + round_value g h 1 - ?la * ?A = ?line 1 * ?q 1" by (simp add: rv)
    moreover have "?lb + (?lb - ?la) = ?line 2" "?lb + (?lb - ?la) + (?lb - ?la) = ?line 3" by (simp_all add: algebra_simps)
    moreover have "?q 1 + ?q 1 - ?A + (?C + ?C) = ?q 2" "?q 2 + ?q 1 - ?A + (?C + ?C) + (?C + ?C) = ?q 3"
      by (simp_all add: algebra_simps)
    ultimately show ?thesis using assms(3)
      by (simp only: gruen_poly_deg_3_def Let_def field_inverse_def l if_False option.case) simp
  qed
  moreover have "from_evals ?evals = interpolate_over_integers ?evals"
    by (rule from_evals_interpolates) (simp_all add: inj4)
  moreover have "?evals \<noteq> []" "inj_on (of_nat :: nat \<Rightarrow> 'f) {..<length ?evals}" by (simp_all add: inj4)
  then obtain p where p: "from_evals ?evals = Some p" "length p = length ?evals"
    "\<And>i. i < length ?evals \<Longrightarrow> up_evaluate p (of_nat i) = ?evals ! i"
    by (rule from_evals_correct) blast
  moreover have "p = [?la * ?A, ?la * ?B + (?lb - ?la) * ?A, ?la * ?C + (?lb - ?la) * ?B, (?lb - ?la) * ?C]" (is "p = ?p")
  proof (rule poly_unique [of p 4 _ "map of_nat [0..<4]"])
    show "distinct (map (of_nat :: nat \<Rightarrow> 'f) [0..<4])" using inj by (rule distinct_of_nats)
    fix x assume "x \<in> set (map (of_nat :: nat \<Rightarrow> 'f) [0..<4])"
    then obtain i where i: "i < 4" "x = of_nat i" by auto
    then have "i = 0 \<or> i = 1 \<or> i = 2 \<or> i = 3" by linarith
    then show "up_evaluate p x = up_evaluate ?p x"
      using p(3) [of i] i by (elim disjE) (simp_all add: algebra_simps)
  qed (use p(2) in simp_all)
  moreover have "up_evaluate ?p t = round_value g h t" for t by (simp add: rv algebra_simps)
  ultimately show ?thesis by simp
qed

lemma times_linear_factor_fold:
  fixes q :: "'f::field list"
  assumes "k + length q < length s"
  shows "up_evaluate (fold (\<lambda>(index, q_coeff) s.
         let s = s[index := s ! index + q_coeff * l0] in s[index + 1 := s ! (index + 1) + q_coeff * l1])
       (enumerate k q) s) x = up_evaluate s x + x ^ k * (l0 + x * l1) * up_evaluate q x"
  using assms
proof (induction q arbitrary: k s)
  case (Cons c q)
  let ?s = "s[k := s ! k + c * l0]"
  have "up_evaluate (?s[k + 1 := ?s ! (k + 1) + c * l1]) x = up_evaluate s x + x ^ k * (l0 + x * l1) * c"
    using Cons.prems by (simp add: up_evaluate_update algebra_simps)
  then show ?case using Cons.IH [of "Suc k" "?s[k + 1 := ?s ! (k + 1) + c * l1]"] Cons.prems
    by (simp add: Let_def) (simp add: algebra_simps)
qed simp

lemma times_linear_factor_eval:
  "up_evaluate (times_linear_factor q l0 l1) x = (l0 + x * l1) * up_evaluate q x"
  unfolding times_linear_factor_def by (subst times_linear_factor_fold) simp_all

lemma split_fold_sum: "split_fold g (\<lambda>row. \<Sum>k \<in> K. f k row) = (\<Sum>k \<in> K. split_fold g (f k))"
  by (cases "finite K", induction K rule: finite_induct)
    (simp_all add: split_fold_linear, simp_all add: split_fold_def)

text \<open>The round polynomial of any degree, from the evaluations of the other factor at one, two,
  and on, and its leading coefficient.\<close>

lemma toom_round_poly:
  fixes g :: "'f::field gruen"
  assumes "gruen_ok g" "gruen_rest g \<noteq> []" "fst (current_linear_evals g) \<noteq> 0" "2 \<le> d"
    and inj: "inj_on (of_nat :: nat \<Rightarrow> 'f) {..<d}"
    and H: "\<And>row. length (H row) = Suc d"
  defines "h \<equiv> \<lambda>row. up_evaluate (H row)"
  shows "\<exists>p. gruen_poly_from_evals g
      (map (\<lambda>k. split_fold g (\<lambda>row. h row (of_nat k))) [1..<d] @ [split_fold g (\<lambda>row. H row ! d)])
      (round_value g h 0 + round_value g h 1) = Some p \<and>
    (\<forall>t. up_evaluate p t = round_value g h t)"
proof -
  let ?la = "fst (current_linear_evals g)" and ?lb = "snd (current_linear_evals g)"
  let ?Q = "map (\<lambda>k. split_fold g (\<lambda>row. H row ! k)) [0..<Suc d]"
  have Q: "up_evaluate ?Q t = split_fold g (\<lambda>row. h row t)" for t
  proof -
    have "up_evaluate ?Q t = (\<Sum>k<Suc d. split_fold g (\<lambda>row. H row ! k * t ^ k))"
      by (subst up_evaluate_sum [of _ "Suc d"]) (simp_all add: up_coeff_def split_fold_linear del: upt_Suc sum.lessThan_Suc)
    also have "\<dots> = split_fold g (\<lambda>row. up_evaluate (H row) t)"
      by (simp add: split_fold_sum [symmetric] up_evaluate_sum [of "H _" "Suc d"] H up_coeff_def del: sum.lessThan_Suc)
    finally show ?thesis by (simp add: h_def)
  qed
  have rv: "round_value g h t = (?la + t * (?lb - ?la)) * up_evaluate ?Q t" for t
    by (simp add: round_value_split [OF assms(1,2)] Q del: upt_Suc)
  have l: "gr_scalar g * (1 - current_point g) = ?la" "gr_scalar g * current_point g = ?lb"
    by (simp_all add: current_linear_evals_def Let_def algebra_simps)
  let ?qs = "map (\<lambda>k. split_fold g (\<lambda>row. h row (of_nat k))) [1..<d] @ [split_fold g (\<lambda>row. H row ! d)]"
  let ?es = "map (\<lambda>k. up_evaluate ?Q (of_nat k)) [0..<d] @ [?Q ! d]"
  have first: "nth_opt ?qs 0 = Some (up_evaluate ?Q 1)" using assms(4) by (simp add: nth_opt_def nth_append Q del: upt_Suc)
  have at_0: "(round_value g h 0 + round_value g h 1 - ?lb * up_evaluate ?Q 1) * inverse ?la = up_evaluate ?Q 0"
    using assms(3) by (simp add: rv)
  have es: "up_evaluate ?Q 0 # ?qs = ?es"
    using assms(4) by (auto simp: Q nth_append nth_Cons intro!: nth_equalityI split: nat.split simp del: upt_Suc)
  have "?es \<noteq> []" "inj_on (of_nat :: nat \<Rightarrow> 'f) {..<length ?es - 1}" using inj by simp_all
  then obtain p where p: "from_evals_toom ?es = Some p" "length p = length ?es"
    "\<And>i. i < length ?es - 1 \<Longrightarrow> up_evaluate p (of_nat i) = ?es ! i" "p ! (length ?es - 1) = last ?es"
    by (rule from_evals_toom_correct) blast
  have "up_evaluate p x = up_evaluate ?Q x" for x
  proof -
    have split: "up_evaluate r x = up_evaluate (take d r) x + x ^ d * r ! d" if "length r = Suc d" for r :: "'f list" and x
      using up_evaluate_append [of "take d r" "[r ! d]" x] that by (simp add: take_Suc_conv_app_nth [symmetric])
    have len: "length p = Suc d" "length ?Q = Suc d" using p(2) by simp_all
    have "take d p = take d ?Q"
    proof (rule poly_unique [of _ d _ "map of_nat [0..<d]"])
      show "distinct (map (of_nat :: nat \<Rightarrow> 'f) [0..<d])" using inj by (rule distinct_of_nats)
      fix x assume "x \<in> set (map (of_nat :: nat \<Rightarrow> 'f) [0..<d])"
      then obtain i where i: "i < d" "x = of_nat i" by auto
      then have "up_evaluate p x = up_evaluate ?Q x" using p(3) [of i] by (simp add: nth_append del: upt_Suc)
      moreover have "p ! d = ?Q ! d" using p(4) by simp
      ultimately show "up_evaluate (take d p) x = up_evaluate (take d ?Q) x"
        using split [OF len(1), of x] split [OF len(2), of x] by (simp del: upt_Suc)
    qed (use len in simp_all)
    moreover have "p ! d = ?Q ! d" using p(4) by simp
    ultimately show ?thesis using split [OF len(1), of x] split [OF len(2), of x] by simp
  qed
  moreover have "gruen_poly_from_evals g ?qs (round_value g h 0 + round_value g h 1) =
      Some (times_linear_factor p ?la (?lb - ?la))"
    using assms(3) by (simp only: gruen_poly_from_evals_def Let_def l first option.case prod.case at_0 es p(1)
        field_inverse_def if_False option.map)
  ultimately show ?thesis by (simp add: times_linear_factor_eval rv)
qed

end
