(* ===== verification/Read_Raf_Tables.thy ===== *)
theory Read_Raf_Tables
  imports Read_Raf Gruen Sumcheck_Correct
begin

text \<open>
  The tables of the read and RAF kernel as the multilinear functions they hold: construction,
  binding, the reading of a round and the accumulation of rows, and the linearity of \<^verbatim>\<open>combine\<close> in
  the suffixes.
\<close>

section \<open>Lists of options\<close>

lemma those_map_Some: "(\<And>x. x \<in> set xs \<Longrightarrow> f x = Some (g x)) \<Longrightarrow> those (map f xs) = Some (map g xs)"
  by (induction xs) simp_all

lemma those_map_rel:
  assumes "list_all2 R xs ys" "\<And>x y. R x y \<Longrightarrow> \<exists>x'. f x = Some x' \<and> S x' y"
  shows "\<exists>xs'. those (map f xs) = Some xs' \<and> list_all2 S xs' ys"
  using assms(1)
proof (induction xs ys)
  case (Cons x xs y ys)
  obtain x' where "f x = Some x'" "S x' y" using assms(2) [OF Cons(1)] by blast
  moreover obtain xs' where "those (map f xs) = Some xs'" "list_all2 S xs' ys" using Cons(3) by blast
  ultimately show ?case by (intro exI [of _ "x' # xs'"]) simp
qed simp

section \<open>A table and its function\<close>

definition represents :: "nat \<Rightarrow> 'f::comm_ring_1 dense_poly \<Rightarrow> ('f list \<Rightarrow> 'f) \<Rightarrow> bool" where
  "represents n p h \<longleftrightarrow> dp_num_vars p = n \<and> length (dp_evals p) = 2 ^ n \<and>
     (\<forall>r. length r = n \<longrightarrow> table_mle (dp_evals p) r = h r)"

lemma represents_new:
  assumes "length e = 2 ^ n" "\<And>r. length r = n \<Longrightarrow> table_mle e r = h r"
  shows "\<exists>p. dp_new e = Some p \<and> represents n p h"
  using assms by (simp add: dp_new_table represents_def)

lemma represents_bind:
  assumes "represents (Suc n) p h"
  shows "\<exists>p'. bind_with_order s HighToLow p = Some p' \<and> represents n p' (\<lambda>r. h (s # r))"
    "\<exists>p'. bind_with_order s LowToHigh p = Some p' \<and> represents n p' (\<lambda>r. h (r @ [s]))"
proof -
  have p: "dp_num_vars p = Suc n" "length (dp_evals p) = 2 ^ Suc n" "length (dp_evals p) = 2 * 2 ^ n"
    "\<And>r. length r = Suc n \<Longrightarrow> table_mle (dp_evals p) r = h r"
    using assms by (auto simp: represents_def)
  show "\<exists>p'. bind_with_order s HighToLow p = Some p' \<and> represents n p' (\<lambda>r. h (s # r))"
  proof -
    have "table_mle (bind_halves s (dp_evals p)) r = h (s # r)" if "length r = n" for r
      using that p by (simp add: table_mle_halves)
    moreover have "length (bind_halves s (dp_evals p)) = 2 ^ n" using p(3) by (simp add: bind_halves_def Let_def)
    ultimately show ?thesis using p(1) bind_high_loop_eq [OF p(3), of s]
      by (simp add: bind_with_order_def bind_high_to_low_def represents_def)
  qed
  show "\<exists>p'. bind_with_order s LowToHigh p = Some p' \<and> represents n p' (\<lambda>r. h (r @ [s]))"
    using p bind_pairs_nth [of s "dp_evals p"]
    by (simp add: bind_with_order_def bind_low_to_high_def represents_def bind_low_loop_eq table_mle_pairs)
qed

lemma represents_cong: "represents n p h \<Longrightarrow> (\<And>r. length r = n \<Longrightarrow> h r = h' r) \<Longrightarrow> represents n p h'"
  by (simp add: represents_def)

lemma represents_nth:
  assumes "represents n p h" "b < 2 ^ n"
  shows "dp_evals p ! b = h (bool_point (msb_bits n b))"
  using assms table_mle_bool [of "dp_evals p" n b] by (simp add: represents_def)

lemma represents_full:
  assumes "represents 0 p h"
  shows "nth_opt (dp_evals p) 0 = Some (h [])"
  using assms represents_nth [of 0 p h 0] by (simp add: represents_def)

text \<open>A function is determined on a line by two points.\<close>

lemma represents_line:
  assumes "represents (Suc n) p h" "length r = n"
  shows "h (c # r) = h (0 # r) + c * (h (1 # r) - h (0 # r))"
proof -
  let ?e = "dp_evals p"
  have len: "length ?e = 2 ^ Suc (length r)" using assms by (simp add: represents_def)
  have "h (s # r) = (1 - s) * table_mle (take (2 ^ length r) ?e) r + s * table_mle (drop (2 ^ length r) ?e) r" for s
    using table_mle_Cons [OF len, of s] assms by (simp add: represents_def)
  from this [of 0] this [of 1] this [of c] show ?thesis by (simp add: algebra_simps)
qed

lemma represents_extension:
  assumes "represents (Suc n) p h" "b < 2 ^ n" "c < 3"
  shows "extension_eval (dp_evals p) b (2 ^ n) c = h (of_nat c # bool_point (msb_bits n b))"
proof -
  have lo: "dp_evals p ! b = h (0 # bool_point (msb_bits n b))"
    using represents_nth [OF assms(1), of b] assms(2) by simp
  have "(b + 2 ^ n) div 2 ^ n = 1" using assms(2) by (simp add: div_add_self2)
  then have "msb_bits (Suc n) (b + 2 ^ n) = True # msb_bits n b" using msb_bits_add [of n b] by (simp add: add.commute)
  then have hi: "dp_evals p ! (b + 2 ^ n) = h (1 # bool_point (msb_bits n b))"
    using represents_nth [OF assms(1), of "b + 2 ^ n"] assms(2) by simp
  have "h (2 # bool_point (msb_bits n b)) =
      h (1 # bool_point (msb_bits n b)) + h (1 # bool_point (msb_bits n b)) - h (0 # bool_point (msb_bits n b))"
    using represents_line [OF assms(1), of "bool_point (msb_bits n b)" 2] by (simp add: algebra_simps)
  moreover have "c = 0 \<or> c = 1 \<or> c = 2" using assms(3) by auto
  ultimately show ?thesis using lo hi by (auto simp: extension_eval_def Let_def)
qed

section \<open>Accumulation\<close>

lemma length_accumulate [simp]: "length (accumulate i v q) = length q"
  by (simp add: accumulate_def)

lemma accumulate_mle:
  assumes "length q = 2 ^ n" "i < 2 ^ n" "length r = n"
  shows "table_mle (accumulate i v q) r = table_mle q r + v * eq_product (bool_point (msb_bits n i)) r"
proof -
  have "table_mle (accumulate i v q) r = (\<Sum>j<2 ^ n. (q ! j + (if j = i then v else 0)) * eq_table 1 r ! j)"
    using assms by (subst table_mle_sum) (auto simp: accumulate_def nth_list_update intro!: sum.cong)
  also have "\<dots> = (\<Sum>j<2 ^ n. q ! j * eq_table 1 r ! j + (if j = i then v * eq_table 1 r ! j else 0))"
    by (rule sum.cong) (auto simp: distrib_right)
  also have "\<dots> = table_mle q r + (\<Sum>j<2 ^ n. if j = i then v * eq_table 1 r ! j else 0)"
    using assms by (simp only: sum.distrib table_mle_sum)
  also have "(\<Sum>j<2 ^ n. if j = i then v * eq_table 1 r ! j else 0) = v * eq_table 1 r ! i"
    using assms(2) by simp
  also have "eq_table 1 r ! i = eq_product (bool_point (msb_bits n i)) r"
    using assms nth_eq_table [of i r 1] by (simp add: eq_product_commute)
  finally show ?thesis .
qed

lemma replicate_mle [simp]: "table_mle (replicate n 0) r = 0"
proof -
  have "sum_list (map2 (*) (replicate n 0) t) = 0" for t :: "'a list"
  proof (induction n arbitrary: t)
    case (Suc n)
    then show ?case by (cases t) simp_all
  qed simp
  then show ?thesis by (simp add: table_mle_def)
qed

section \<open>Linearity of the recombination\<close>

lemma combine_lin:
  assumes "table_combine t P xs = Some a" "table_combine t P ys = Some b"
  shows "table_combine t P (map2 (\<lambda>x y. w * x + y) xs ys) = Some (w * a + b)"
proof -
  note defs = table_combine.simps table_decomposition
  show ?thesis
    using assms by (cases t; auto simp: defs Let_def split: list.splits; simp add: algebra_simps)
qed

lemma combine_zero: "table_combine t P (replicate (length (table_suffixes t)) 0) = Some 0"
  by (cases t) (simp_all add: table_decomposition Let_def numeral_eq_Suc)

text \<open>The recombination of the sums over rows is the sum of the recombinations.\<close>

lemma combine_sum:
  assumes "\<And>j. j \<in> set js \<Longrightarrow> table_combine t P (map (f j) (table_suffixes t)) = Some (V j)"
  shows "table_combine t P (map (\<lambda>s. \<Sum>j\<leftarrow>js. w j * f j s) (table_suffixes t)) = Some (\<Sum>j\<leftarrow>js. w j * V j)"
  using assms
proof (induction js)
  case Nil
  then show ?case using combine_zero [of t P] by (simp add: map_replicate_const)
next
  case (Cons j js)
  have "map2 (\<lambda>x y. w j * x + y) (map (f j) (table_suffixes t)) (map (\<lambda>s. \<Sum>j\<leftarrow>js. w j * f j s) (table_suffixes t)) =
      map (\<lambda>s. \<Sum>j\<leftarrow>j # js. w j * f j s) (table_suffixes t)"
    by (simp add: map2_map_map)
  then show ?case using combine_lin [of t P _ "V j" _ "\<Sum>j\<leftarrow>js. w j * V j" "w j"] Cons by fastforce
qed

end
