(* ===== verification/Read_Raf_Phase.thy ===== *)
theory Read_Raf_Phase
  imports Read_Raf_Tables
begin

text \<open>
  The start of a phase of the read and RAF kernel: what the tables it fills hold, as functions of the
  address variables bound so far and of the eight variables of the phase.
\<close>

section \<open>The bits of an index\<close>

lemma index_chunk_eq: "index_chunk v s = unat v div 2 ^ s mod 2 ^ 8"
proof -
  have "(ucast (drop_bit s v) :: u64) AND (of_nat CHUNK_SIZE - 1) = ucast (take_bit 8 (drop_bit s v))"
  proof -
    have "(of_nat CHUNK_SIZE - 1 :: u64) = mask 8" by (simp add: CHUNK_SIZE_def CHUNK_LEN_def mask_eq_exp_minus_1)
    then show ?thesis by (simp only:) (rule bit_word_eqI, auto simp: bit_simps)
  qed
  then have "index_chunk v s = take_bit 64 (unat (take_bit 8 (drop_bit s v)))"
    unfolding index_chunk_def by (simp only: unsigned_ucast_eq) simp
  also have "unat (take_bit 8 (drop_bit s v)) = unat (drop_bit s v) mod 2 ^ 8" by (rule unat_take_bit_mod)
  also have "unat (drop_bit s v) = unat v div 2 ^ s"
  proof -
    have "unat v < 2 ^ 128" by (rule order.strict_trans2 [OF unsigned_less]) simp
    then have "take_bit 128 (unat v) = unat v" by (rule take_bit_nat_eq_self)
    then show ?thesis by (simp only: unsigned_drop_bit_eq) (simp add: drop_bit_eq_div)
  qed
  also have "take_bit 64 (unat v div 2 ^ s mod 2 ^ 8) = unat v div 2 ^ s mod 2 ^ 8"
    using mod_less_divisor [of "2 ^ 8" "unat v div 2 ^ s"] by (intro take_bit_nat_eq_self) simp
  finally show ?thesis .
qed

lemma index_chunk_less: "index_chunk v s < 2 ^ 8"
  unfolding index_chunk_eq by (rule mod_less_divisor) simp

definition chunk_bits :: "u128 \<Rightarrow> nat \<Rightarrow> 'f::comm_ring_1 list" where
  "chunk_bits v phase = bool_point (msb_bits 8 (index_chunk v (120 - 8 * phase)))"

lemma length_chunk_bits [simp]: "length (chunk_bits v phase) = 8"
  by (simp add: chunk_bits_def)

lemma index_point_split:
  assumes "phase < 16"
  shows "index_point v = take (8 * phase) (index_point v) @ chunk_bits v phase @ chunk_point (60 - 4 * phase) v"
proof -
  let ?i = "unat v" and ?s = "120 - 8 * phase"
  have "(128 :: nat) = 8 * phase + (8 + ?s)" using assms by simp
  then have "msb_bits 128 ?i = msb_bits (8 * phase) (?i div 2 ^ (8 + ?s)) @ msb_bits 8 (?i div 2 ^ ?s) @ msb_bits ?s ?i"
    using msb_bits_append [of "8 * phase" "8 + ?s" ?i] msb_bits_append [of 8 ?s ?i] by simp
  moreover have "msb_bits 8 (?i div 2 ^ ?s) = msb_bits 8 (index_chunk v ?s)" by (simp only: index_chunk_eq msb_bits_mod order_refl)
  moreover have "?s = 2 * (60 - 4 * phase)" using assms by simp
  ultimately show ?thesis by (simp add: index_point_def chunk_bits_def chunk_point_def)
qed

lemma take_index_point:
  assumes "phase < 16"
  shows "take (8 * phase + 8) (index_point v) = take (8 * phase) (index_point v) @ chunk_bits v phase"
proof -
  have "take (8 * phase + 8) (take (8 * phase) (index_point v) @ chunk_bits v phase @ chunk_point (60 - 4 * phase) v) =
      take (8 * phase) (index_point v) @ chunk_bits v phase" using assms by simp
  then show ?thesis unfolding index_point_split [OF assms, symmetric] .
qed

lemma lb_new_masked: "s < 128 \<Longrightarrow> lb_new (v AND suffix_mask s) s = lb_new v s"
proof -
  assume s: "s < 128"
  have "suffix_mask s = mask s" using s by (simp add: suffix_mask_def mask_eq_exp_minus_1)
  moreover have "take_bit s (v AND mask s) = take_bit s v" by (rule bit_word_eqI) (auto simp: bit_simps)
  ultimately show ?thesis using s by (simp add: lb_new_def bits_mod_push)
qed

section \<open>The values of the operands and of the address\<close>

fun operand_run :: "operand_side \<Rightarrow> 'f::comm_ring_1 \<Rightarrow> 'f list \<Rightarrow> 'f" where
  "operand_run side acc (x # y # r) =
     operand_run side (2 * acc + (case side of Left_Operand \<Rightarrow> x | Right_Operand \<Rightarrow> y)) r"
| "operand_run side acc _ = acc"

fun address_run :: "'f::comm_ring_1 \<Rightarrow> 'f list \<Rightarrow> 'f" where
  "address_run acc (x # r) = address_run (2 * acc + x) r"
| "address_run acc [] = acc"

lemma operand_run_append:
  "even (length r) \<Longrightarrow> operand_run side acc (r @ q) = operand_run side (operand_run side acc r) q"
  by (induction side acc r rule: operand_run.induct) auto

lemma address_run_append: "address_run acc (r @ q) = address_run (address_run acc r) q"
  by (induction acc r rule: address_run.induct) auto

definition side_operand :: "operand_side \<Rightarrow> u64 \<Rightarrow> u64 \<Rightarrow> u64" where
  "side_operand side x y = (case side of Left_Operand \<Rightarrow> x | Right_Operand \<Rightarrow> y)"

lemma operand_run_bits:
  "k \<le> 64 \<Longrightarrow> operand_run side acc (chunk_point k (interleave_bits x y)) =
    acc * 2 ^ k + of_nat (unat (side_operand side x y) mod 2 ^ k)"
proof (induction k arbitrary: acc)
  case 0
  then show ?case by (simp add: chunk_point_def)
next
  case (Suc k)
  then show ?case
    by (cases side) (simp_all add: chunk_point_Suc side_operand_def unat_mod_Suc algebra_simps del: power_Suc, simp_all add: algebra_simps)
qed

lemma address_run_bits: "address_run acc (bool_point (msb_bits n v)) = acc * 2 ^ n + of_nat (v mod 2 ^ n)"
proof (induction n arbitrary: acc)
  case (Suc n)
  have "v mod 2 ^ Suc n = v mod 2 ^ n + of_bool (odd (v div 2 ^ n)) * 2 ^ n"
    using mod_Suc_bits [of v n] by (simp add: bit_iff_odd)
  then show ?case using Suc by (simp add: algebra_simps del: power_Suc) (simp add: algebra_simps)
qed simp

lemma operand_run_affine:
  "multi_affine (2 * k) (operand_run side acc)"
  "(acc :: 'f::comm_ring_1) = a + s * (b - a) \<Longrightarrow> length r = 2 * k \<Longrightarrow>
    operand_run side acc r = operand_run side a r + s * (operand_run side b r - operand_run side a r)"
proof -
  have line: "operand_run side (a + s * (b - a)) r = operand_run side a r + s * (operand_run side b r - operand_run side a r)"
    if "length r = 2 * k" for k a b s and r :: "'f list"
    using that
  proof (induction k arbitrary: a b r)
    case (Suc k)
    then obtain x y q where r: "r = x # y # q" "length q = 2 * k" by (auto simp: length_Suc_conv)
    let ?z = "case side of Left_Operand \<Rightarrow> x | Right_Operand \<Rightarrow> y"
    have e: "2 * (a + s * (b - a)) + ?z = (2 * a + ?z) + s * ((2 * b + ?z) - (2 * a + ?z))" by (simp add: algebra_simps)
    show ?case unfolding r(1) operand_run.simps e by (rule Suc.IH [OF r(2)])
  qed simp
  then show "(acc :: 'f) = a + s * (b - a) \<Longrightarrow> length r = 2 * k \<Longrightarrow>
    operand_run side acc r = operand_run side a r + s * (operand_run side b r - operand_run side a r)" by simp
  show "multi_affine (2 * k) (operand_run side (acc :: 'f))"
  proof (induction k arbitrary: acc)
    case (Suc k)
    have "multi_affine (Suc (Suc (2 * k))) (operand_run side acc)"
    proof (rule multi_affine_SucI)
      fix s :: 'f and r :: "'f list"
      assume "length r = Suc (2 * k)"
      then obtain y q where r: "r = y # q" "length q = 2 * k" by (cases r) auto
      show "operand_run side acc (s # r) = operand_run side acc (0 # r) + s * (operand_run side acc (1 # r) - operand_run side acc (0 # r))"
        using line [OF r(2), of "2 * acc" s "2 * acc + 1"] by (cases side) (simp_all add: r)
    next
      fix x :: 'f
      show "multi_affine (Suc (2 * k)) (\<lambda>r. operand_run side acc (x # r))"
      proof (rule multi_affine_SucI)
        fix s :: 'f and q :: "'f list"
        assume q: "length q = 2 * k"
        show "operand_run side acc (x # s # q) =
            operand_run side acc (x # 0 # q) + s * (operand_run side acc (x # 1 # q) - operand_run side acc (x # 0 # q))"
          using line [OF q, of "2 * acc" s "2 * acc + 1"] by (cases side) simp_all
      next
        fix s :: 'f
        show "multi_affine (2 * k) (\<lambda>r. operand_run side acc (x # s # r))" using Suc by simp
      qed
    qed
    then show ?case by simp
  qed simp
qed

lemma address_run_affine: "multi_affine n (address_run (acc :: 'f::comm_ring_1))"
proof -
  have line: "address_run (a + s * (b - a)) r = address_run a r + s * (address_run b r - address_run a r)"
    for a b s and r :: "'f list"
  proof (induction r arbitrary: a b)
    case (Cons x r)
    have e: "2 * (a + s * (b - a)) + x = (2 * a + x) + s * ((2 * b + x) - (2 * a + x))" by (simp add: algebra_simps)
    show ?case unfolding address_run.simps e by (rule Cons.IH)
  qed simp
  show ?thesis
  proof (induction n arbitrary: acc)
    case (Suc n)
    show ?case
    proof (rule multi_affine_SucI)
      show "address_run acc (s # r) = address_run acc (0 # r) + s * (address_run acc (1 # r) - address_run acc (0 # r))" for s r
        using line [of "2 * acc" s "2 * acc + 1" r] by simp
      show "multi_affine n (\<lambda>r. address_run acc (s # r))" for s using Suc by simp
    qed
  qed simp
qed

lemma chunk_index_unat: "x < CHUNK_SIZE \<Longrightarrow> unat (of_nat x :: 'a::len word) = x" if "8 \<le> LENGTH('a)"
proof -
  assume "x < CHUNK_SIZE"
  then have "x < 2 ^ 8" by (simp add: CHUNK_SIZE_def CHUNK_LEN_def)
  also have "(2 :: nat) ^ 8 \<le> 2 ^ LENGTH('a)" using that by (rule power_increasing) simp
  finally show ?thesis unfolding unat_of_nat by (rule mod_less)
qed

lemma identity_prefix_mle:
  assumes "length r = 8"
  shows "table_mle (identity_prefix c) r = address_run c r"
proof -
  have "identity_prefix c = hypercube_table 8 (address_run c)"
    unfolding identity_prefix_def hypercube_table_def CHUNK_SIZE_def CHUNK_LEN_def
    by (rule map_cong) (use chunk_index_unat [where 'a = 64] in \<open>auto simp: address_run_bits mul_pow_2_loop_eq from_u64_def CHUNK_SIZE_def CHUNK_LEN_def\<close>)
  then show ?thesis using multi_affine_table [OF address_run_affine assms] by simp
qed

lemma operand_prefix_mle:
  assumes "length r = 8"
  shows "table_mle (operand_prefix c side) r = operand_run side c r"
proof -
  have "operand_prefix c side = hypercube_table 8 (operand_run side c)"
    unfolding operand_prefix_def hypercube_table_def CHUNK_SIZE_def CHUNK_LEN_def
  proof (rule map_cong)
    fix v assume "v \<in> set [0..<2 ^ 8]"
    then have v: "v < CHUNK_SIZE" unfolding CHUNK_SIZE_def CHUNK_LEN_def set_upt by simp
    obtain x y where w: "(of_nat v :: u128) = interleave_bits x y" using operands_of_index by blast
    have u: "unat (interleave_bits x y) = v" using chunk_index_unat [OF _ v, where 'a = 128] unfolding w by simp
    have "(lb_new (of_nat v) 8) = low_bits_of 4 x y" unfolding w by simp
    then have "(case lb_uninterleave (lb_new (of_nat v) 8) of (left, right) \<Rightarrow>
        mul_pow_2_loop c (8 div 2) + from_u64 (lb_u64 (case side of Left_Operand \<Rightarrow> left | Right_Operand \<Rightarrow> right))) =
      c * 2 ^ 4 + of_nat (unat (side_operand side x y) mod 2 ^ 4)"
      using chunk_operands [of 4 x y]
      by (cases side) (simp_all add: mul_pow_2_loop_eq lb_u64_new from_u64_take side_operand_def)
    also have "\<dots> = operand_run side c (bool_point (msb_bits 8 v))"
      using operand_run_bits [of 4 side c x y] by (simp add: chunk_point_def u)
    finally show "(case lb_uninterleave (lb_new (of_nat v) 8) of (left, right) \<Rightarrow>
        mul_pow_2_loop c (8 div 2) + from_u64 (lb_u64 (case side of Left_Operand \<Rightarrow> left | Right_Operand \<Rightarrow> right))) =
      operand_run side c (bool_point (msb_bits 8 v))" .
  qed simp
  then show ?thesis using multi_affine_table [OF operand_run_affine(1) [of 4 side c]] assms by simp
qed

lemma length_raf_prefixes: "length (identity_prefix c) = 2 ^ 8" "length (operand_prefix c side) = 2 ^ 8"
  by (simp_all add: identity_prefix_def operand_prefix_def CHUNK_SIZE_def CHUNK_LEN_def)

end
