(* ===== verification/Read_Raf_State.thy ===== *)
theory Read_Raf_State
  imports Read_Raf_Phase
begin

text \<open>
  The state of the read and RAF kernel in the address rounds, as a predicate over the inputs, the
  address variables of the closed phases and those bound in the phase; \<^verbatim>\<open>init_phase\<close> establishes it.
\<close>

section \<open>Inputs\<close>

record 'f read_raf_input =
  in_dims :: read_raf_dimensions
  in_reduction :: "'f list"
  in_rows :: "read_raf_row list"
  in_gamma :: 'f

text \<open>Well-formed input of the kernel. A row looks up no table, or one of the catalogue, at an index
  in the table's domain: for \<open>Srl\<close>, \<open>Sra\<close> and \<open>Rotr\<close> the right operand is a bitmask of ones above
  zeros (off-domain indices are unreachable in real traces, says \<^verbatim>\<open>tables/mod.rs\<close>). There are 128
  address variables, the selectors split them into chunks of whole bytes, there are \<open>2 ^ log_t\<close> rows,
  and the reduction point has \<open>log_t\<close> coordinates.\<close>

definition row_ok :: "read_raf_row \<Rightarrow> bool" where
  "row_ok row \<longleftrightarrow> (case rw_table_index row of None \<Rightarrow> True | Some i \<Rightarrow>
     i < TABLE_COUNT \<and> shift_operand (wasm_tables ! i) (snd (uninterleave_bits (rw_lookup_index row))))"

definition input_ok :: "'f read_raf_input \<Rightarrow> bool" where
  "input_ok inp \<longleftrightarrow> (let d = in_dims inp in
     dim_address_bits d = 128 \<and> 0 < dim_ra_polys d \<and> 128 mod dim_ra_polys d = 0 \<and> 128 div dim_ra_polys d mod 8 = 0 \<and>
     length (in_rows inp) = 2 ^ dim_log_t d \<and> length (in_reduction inp) = dim_log_t d \<and> list_all row_ok (in_rows inp))"

abbreviation in_index :: "'f read_raf_input \<Rightarrow> nat \<Rightarrow> u128" where
  "in_index inp j \<equiv> rw_lookup_index (in_rows inp ! j)"

abbreviation in_cycles :: "'f read_raf_input \<Rightarrow> nat list" where
  "in_cycles inp \<equiv> [0..<length (in_rows inp)]"

definition in_buckets :: "'f read_raf_input \<Rightarrow> nat list list" where
  "in_buckets inp = map (\<lambda>i. filter (\<lambda>j. rw_table_index (in_rows inp ! j) = Some i) (in_cycles inp)) [0..<TABLE_COUNT]"

lemma nth_in_buckets:
  "i < TABLE_COUNT \<Longrightarrow> in_buckets inp ! i = filter (\<lambda>j. rw_table_index (in_rows inp ! j) = Some i) (in_cycles inp)"
  by (simp add: in_buckets_def del: upt_Suc)

lemma table_index_less: "table_index t < TABLE_COUNT"
  by (cases t) (simp_all add: table_index_def TABLE_COUNT_def wasm_tables_def)

lemma bucket_rows_eq:
  assumes "list_all row_ok rows"
  shows "bucket_rows (enumerate n rows) (map B [0..<TABLE_COUNT]) =
    Inr (map (\<lambda>i. B i @ filter (\<lambda>j. rw_table_index (rows ! (j - n)) = Some i) [n..<n + length rows]) [0..<TABLE_COUNT])"
  using assms
proof (induction rows arbitrary: n B)
  case (Cons row rows)
  define B' where "B' i = B i @ (if rw_table_index row = Some i then [n] else [])" for i
  have "bucket_row (n, row) (map B [0..<TABLE_COUNT]) = Inr (map B' [0..<TABLE_COUNT])"
  proof (cases "rw_table_index row")
    case None
    then show ?thesis by (simp add: bucket_row_def B'_def)
  next
    case (Some i)
    then have i: "i < TABLE_COUNT" using Cons.prems by (simp add: row_ok_def)
    have "(map B [0..<TABLE_COUNT])[i := B i @ [n]] = map B' [0..<TABLE_COUNT]"
      by (rule nth_equalityI) (auto simp: nth_list_update B'_def Some)
    then show ?thesis using i Some by (simp add: bucket_row_def)
  qed
  moreover have "B' i @ filter (\<lambda>j. rw_table_index (rows ! (j - Suc n)) = Some i) [Suc n..<Suc n + length rows] =
      B i @ filter (\<lambda>j. rw_table_index ((row # rows) ! (j - n)) = Some i) [n..<n + length (row # rows)]" for i
  proof -
    have "[n..<n + length (row # rows)] = n # [Suc n..<Suc n + length rows]" by (simp add: upt_conv_Cons del: upt_Suc)
    moreover have "filter (\<lambda>j. rw_table_index ((row # rows) ! (j - n)) = Some i) [Suc n..<Suc n + length rows] =
        filter (\<lambda>j. rw_table_index (rows ! (j - Suc n)) = Some i) [Suc n..<Suc n + length rows]"
      by (rule filter_cong) (auto simp: nth_Cons' simp del: upt_Suc)
    ultimately show ?thesis by (simp add: B'_def del: upt_Suc)
  qed
  ultimately show ?case using Cons by (simp del: upt_Suc)
qed simp

lemma bucket_rows_input:
  assumes "input_ok inp"
  shows "bucket_rows (enumerate 0 (in_rows inp)) (replicate TABLE_COUNT []) = Inr (in_buckets inp)"
proof -
  have "replicate TABLE_COUNT [] = map (\<lambda>_. [] :: nat list) [0..<TABLE_COUNT]" by (simp add: map_replicate_const)
  then show ?thesis using bucket_rows_eq [of "in_rows inp" 0 "\<lambda>_. []"] assms
    by (simp add: in_buckets_def input_ok_def Let_def del: upt_Suc)
qed

section \<open>What the tables hold\<close>

text \<open>The mass of a cycle over the address variables \<open>a\<close>.\<close>

definition u_weight :: "'f::comm_ring_1 read_raf_input \<Rightarrow> 'f list \<Rightarrow> nat \<Rightarrow> 'f" where
  "u_weight inp a j = view_eq_table (in_reduction inp) ! j * eq_product (take (length a) (index_point (in_index inp j))) a"

definition suffix_fun :: "'f::comm_ring_1 read_raf_input \<Rightarrow> nat \<Rightarrow> wasm_table \<Rightarrow> suffixes \<Rightarrow> 'f list \<Rightarrow> 'f" where
  "suffix_fun inp phase t s a =
     (\<Sum>j\<leftarrow>in_buckets inp ! table_index t. u_weight inp a j * suffix_evaluate s (lb_new (in_index inp j) (120 - 8 * phase)))"

definition shift_fun :: "'f::comm_ring_1 read_raf_input \<Rightarrow> bool \<Rightarrow> nat \<Rightarrow> 'f list \<Rightarrow> 'f" where
  "shift_fun inp flag n a =
     (\<Sum>j\<leftarrow>in_cycles inp. if rw_raf_flag (in_rows inp ! j) = flag then u_weight inp a j * 2 ^ n else 0)"

definition low_operand :: "operand_side \<Rightarrow> nat \<Rightarrow> u128 \<Rightarrow> u64" where
  "low_operand side phase v = (case lb_uninterleave (lb_new v (120 - 8 * phase)) of (left, right) \<Rightarrow>
     lb_u64 (case side of Left_Operand \<Rightarrow> left | Right_Operand \<Rightarrow> right))"

definition operand_fun :: "'f::comm_ring_1 read_raf_input \<Rightarrow> operand_side \<Rightarrow> nat \<Rightarrow> 'f list \<Rightarrow> 'f" where
  "operand_fun inp side phase a =
     (\<Sum>j\<leftarrow>in_cycles inp. if rw_raf_flag (in_rows inp ! j) then 0
        else u_weight inp a j * from_u64 (low_operand side phase (in_index inp j)))"

definition identity_fun :: "'f::comm_ring_1 read_raf_input \<Rightarrow> nat \<Rightarrow> 'f list \<Rightarrow> 'f" where
  "identity_fun inp phase a =
     (\<Sum>j\<leftarrow>in_cycles inp. if rw_raf_flag (in_rows inp ! j)
        then u_weight inp a j * from_u128 (in_index inp j AND suffix_mask (120 - 8 * phase)) else 0)"

definition raf_represents ::
    "nat \<Rightarrow> 'f::comm_ring_1 raf_decomposition \<Rightarrow> ('f list \<Rightarrow> 'f) \<Rightarrow> ('f list \<Rightarrow> 'f) \<Rightarrow> ('f list \<Rightarrow> 'f) \<Rightarrow> bool" where
  "raf_represents n d P S V \<longleftrightarrow>
     represents n (raf_prefix d) P \<and> represents n (raf_q_shift d) S \<and> represents n (raf_q_value d) V"

definition suffix_tables_hold ::
    "'f::comm_ring_1 read_raf_input \<Rightarrow> nat \<Rightarrow> nat \<Rightarrow> 'f list \<Rightarrow> (wasm_table \<times> 'f dense_poly list) list \<Rightarrow> bool" where
  "suffix_tables_hold inp phase n a tables \<longleftrightarrow>
     list_all2 (\<lambda>(t, qs) t'. t = t' \<and> list_all2 (represents n) qs (map (\<lambda>s r. suffix_fun inp phase t' s (a @ r)) (table_suffixes t')))
       tables (filter (\<lambda>t. in_buckets inp ! table_index t \<noteq> []) wasm_tables)"

text \<open>\<open>cs\<close> are the variables of the closed phases, \<open>ds\<close> those bound in this one.\<close>

definition tables_hold :: "'f::comm_ring_1 read_raf_input \<Rightarrow> nat \<Rightarrow> 'f list \<Rightarrow> 'f list \<Rightarrow> 'f read_raf \<Rightarrow> bool" where
  "tables_hold inp phase cs ds k \<longleftrightarrow> (let n = 8 - length ds; a = cs @ ds; m = 60 - 4 * phase in
     list_all2 (represents n) (rr_prefix_tables k) (map (\<lambda>p r. bound_prefixes (a @ r) p) ALL_PREFIXES) \<and>
     suffix_tables_hold inp phase n a (rr_suffix_tables k) \<and>
     raf_represents n (rr_left k) (\<lambda>r. operand_run Left_Operand 0 (a @ r)) (\<lambda>r. shift_fun inp False m (a @ r))
       (\<lambda>r. operand_fun inp Left_Operand phase (a @ r)) \<and>
     raf_represents n (rr_right k) (\<lambda>r. operand_run Right_Operand 0 (a @ r)) (\<lambda>r. shift_fun inp False m (a @ r))
       (\<lambda>r. operand_fun inp Right_Operand phase (a @ r)) \<and>
     raf_represents n (rr_identity k) (\<lambda>r. address_run 0 (a @ r)) (\<lambda>r. shift_fun inp True (2 * m) (a @ r))
       (\<lambda>r. identity_fun inp phase (a @ r)))"

definition phase_table :: "'f::comm_ring_1 list \<Rightarrow> nat \<Rightarrow> 'f list" where
  "phase_table cs q = view_eq_table (take 8 (drop (8 * q) cs))"

text \<open>What a phase keeps: the inputs, and the checkpoints of the closed phases.\<close>

definition frame_holds :: "'f::comm_ring_1 read_raf_input \<Rightarrow> 'f list \<Rightarrow> 'f read_raf \<Rightarrow> bool" where
  "frame_holds inp cs k \<longleftrightarrow>
     rr_dims k = in_dims inp \<and> rr_gamma k = in_gamma inp \<and> rr_reduction k = in_reduction inp \<and> rr_rows k = in_rows inp \<and>
     rr_buckets k = in_buckets inp \<and> rr_cycle_challenges k = [] \<and>
     rr_prefix_checkpoints k = map (bound_prefixes cs) ALL_PREFIXES \<and>
     raf_checkpoint (rr_left k) = operand_run Left_Operand 0 cs \<and>
     raf_checkpoint (rr_right k) = operand_run Right_Operand 0 cs \<and>
     raf_checkpoint (rr_identity k) = address_run 0 cs \<and>
     rr_v_tables k = map (phase_table cs) [0..<length cs div 8]"

section \<open>The scans\<close>

lemma rr_suffix_len_eq: "dim_address_bits (rr_dims k) = 128 \<Longrightarrow> rr_suffix_len k phase = 120 - 8 * phase"
  by (simp add: rr_suffix_len_def CHUNK_LEN_def)

lemma rr_chunk_bits:
  assumes "dim_address_bits (rr_dims k) = 128"
  shows "bool_point (msb_bits 8 (rr_chunk k v phase)) = chunk_bits v phase" "rr_chunk k v phase < 2 ^ 8"
  using assms index_chunk_less by (simp_all add: rr_chunk_def rr_suffix_len_eq chunk_bits_def)

definition scan_lengths :: "'f raf_scan \<Rightarrow> bool" where
  "scan_lengths q \<longleftrightarrow> length (q_shift_half_raw q) = 2 ^ 8 \<and> length (q_left q) = 2 ^ 8 \<and> length (q_right q) = 2 ^ 8 \<and>
     length (q_shift_full_raw q) = 2 ^ 8 \<and> length (q_identity q) = 2 ^ 8"

lemma raf_scan_step_fields:
  fixes u :: "'f::comm_ring_1" and row :: read_raf_row
  assumes "dim_address_bits (rr_dims k) = 128" "phase < 16" "scan_lengths q" "length r = 8"
  defines "e \<equiv> eq_product (chunk_bits (rw_lookup_index row) phase) r" and "q' \<equiv> raf_scan_step k phase (row, u) q"
  shows "scan_lengths q'"
    "table_mle (q_shift_half_raw q') r = table_mle (q_shift_half_raw q) r + (if rw_raf_flag row then 0 else u * e)"
    "table_mle (q_left q') r = table_mle (q_left q) r +
       (if rw_raf_flag row then 0 else u * from_u64 (low_operand Left_Operand phase (rw_lookup_index row)) * e)"
    "table_mle (q_right q') r = table_mle (q_right q) r +
       (if rw_raf_flag row then 0 else u * from_u64 (low_operand Right_Operand phase (rw_lookup_index row)) * e)"
    "table_mle (q_shift_full_raw q') r = table_mle (q_shift_full_raw q) r + (if rw_raf_flag row then u * e else 0)"
    "table_mle (q_identity q') r = table_mle (q_identity q) r +
       (if rw_raf_flag row then u * from_u128 (rw_lookup_index row AND suffix_mask (120 - 8 * phase)) * e else 0)"
proof -
  let ?v = "rw_lookup_index row"
  have len: "length (q_shift_half_raw q) = 2 ^ 8" "length (q_left q) = 2 ^ 8" "length (q_right q) = 2 ^ 8"
    "length (q_shift_full_raw q) = 2 ^ 8" "length (q_identity q) = 2 ^ 8" using assms(3) by (simp_all add: scan_lengths_def)
  note acc = len [THEN accumulate_mle [OF _ rr_chunk_bits(2) [OF assms(1)] assms(4)], unfolded rr_chunk_bits(1) [OF assms(1)]]
  obtain left right where lr: "lb_uninterleave (lb_new ?v (120 - 8 * phase)) = (left, right)" by force
  have low: "low_operand Left_Operand phase ?v = lb_u64 left" "low_operand Right_Operand phase ?v = lb_u64 right"
    by (simp_all add: low_operand_def lr)
  have z: "from_u64 0 = (0 :: 'f)" "from_u128 0 = (0 :: 'f)" by (simp_all add: from_u64_def from_u128_def)
  note unfold = q'_def e_def raf_scan_step_def Let_def prod.case CANONICAL_INSTRUCTION_ADDRESS_def rr_suffix_len_eq [OF assms(1)] low
  have s: "lb_new (?v AND suffix_mask (120 - 8 * phase)) (120 - 8 * phase) = lb_new ?v (120 - 8 * phase)" by (rule lb_new_masked) simp
  show "scan_lengths q'" using assms(3) by (auto simp: unfold s lr scan_lengths_def)
  show "table_mle (q_shift_half_raw q') r = table_mle (q_shift_half_raw q) r + (if rw_raf_flag row then 0 else u * e)"
    by (auto simp: unfold s lr acc)
  show "table_mle (q_left q') r = table_mle (q_left q) r + (if rw_raf_flag row then 0 else u * from_u64 (low_operand Left_Operand phase ?v) * e)"
    by (auto simp: unfold s lr acc z)
  show "table_mle (q_right q') r = table_mle (q_right q) r + (if rw_raf_flag row then 0 else u * from_u64 (low_operand Right_Operand phase ?v) * e)"
    by (auto simp: unfold s lr acc z)
  show "table_mle (q_shift_full_raw q') r = table_mle (q_shift_full_raw q) r + (if rw_raf_flag row then u * e else 0)"
    by (auto simp: unfold s lr acc)
  show "table_mle (q_identity q') r = table_mle (q_identity q) r +
      (if rw_raf_flag row then u * from_u128 (?v AND suffix_mask (120 - 8 * phase)) * e else 0)"
    by (auto simp: unfold s lr acc z)
qed


lemma raf_scan_fold:
  fixes l :: "(read_raf_row \<times> 'f::comm_ring_1) list"
  assumes "dim_address_bits (rr_dims k) = 128" "phase < 16" "length r = 8"
  defines "e \<equiv> \<lambda>row. eq_product (chunk_bits (rw_lookup_index row) phase) r"
  shows "scan_lengths q \<Longrightarrow> scan_lengths (fold (raf_scan_step k phase) l q)"
    "scan_lengths q \<Longrightarrow> table_mle (q_shift_half_raw (fold (raf_scan_step k phase) l q)) r =
      table_mle (q_shift_half_raw q) r + (\<Sum>(row, u)\<leftarrow>l. if rw_raf_flag row then 0 else u * e row)"
    "scan_lengths q \<Longrightarrow> table_mle (q_left (fold (raf_scan_step k phase) l q)) r = table_mle (q_left q) r +
      (\<Sum>(row, u)\<leftarrow>l. if rw_raf_flag row then 0 else u * from_u64 (low_operand Left_Operand phase (rw_lookup_index row)) * e row)"
    "scan_lengths q \<Longrightarrow> table_mle (q_right (fold (raf_scan_step k phase) l q)) r = table_mle (q_right q) r +
      (\<Sum>(row, u)\<leftarrow>l. if rw_raf_flag row then 0 else u * from_u64 (low_operand Right_Operand phase (rw_lookup_index row)) * e row)"
    "scan_lengths q \<Longrightarrow> table_mle (q_shift_full_raw (fold (raf_scan_step k phase) l q)) r =
      table_mle (q_shift_full_raw q) r + (\<Sum>(row, u)\<leftarrow>l. if rw_raf_flag row then u * e row else 0)"
    "scan_lengths q \<Longrightarrow> table_mle (q_identity (fold (raf_scan_step k phase) l q)) r = table_mle (q_identity q) r +
      (\<Sum>(row, u)\<leftarrow>l. if rw_raf_flag row then u * from_u128 (rw_lookup_index row AND suffix_mask (120 - 8 * phase)) * e row else 0)"
proof (induction l arbitrary: q)
  case (Cons ru l)
  obtain row u where ru: "ru = (row, u)" by force
  note step = raf_scan_step_fields [OF assms(1,2) _ assms(3), of _ row u, folded ru]
  {
    case 1
    show ?case using Cons(1) [OF step(1) [OF 1]] by simp
  next
    case 2
    show ?case using Cons(2) [OF step(1) [OF 2]] step(2) [OF 2] by (simp add: ru e_def add.assoc)
  next
    case 3
    show ?case using Cons(3) [OF step(1) [OF 3]] step(3) [OF 3] by (simp add: ru e_def add.assoc)
  next
    case 4
    show ?case using Cons(4) [OF step(1) [OF 4]] step(4) [OF 4] by (simp add: ru e_def add.assoc)
  next
    case 5
    show ?case using Cons(5) [OF step(1) [OF 5]] step(5) [OF 5] by (simp add: ru e_def add.assoc)
  next
    case 6
    show ?case using Cons(6) [OF step(1) [OF 6]] step(6) [OF 6] by (simp add: ru e_def add.assoc)
  }
qed simp_all

text \<open>The masses at the start of a phase.\<close>

definition masses_hold :: "'f::comm_ring_1 read_raf_input \<Rightarrow> 'f list \<Rightarrow> 'f list \<Rightarrow> bool" where
  "masses_hold inp cs us \<longleftrightarrow> length us = length (in_rows inp) \<and> (\<forall>j < length (in_rows inp). us ! j = u_weight inp cs j)"

lemma u_weight_chunk:
  assumes "length cs = 8 * phase" "phase < 16" "length r = 8"
  shows "u_weight inp (cs @ r) j = u_weight inp cs j * eq_product (chunk_bits (in_index inp j) phase) r"
proof -
  have "length (take (8 * phase) (index_point (in_index inp j) :: 'a list)) = length cs" using assms by simp
  then show ?thesis using assms
    by (simp add: u_weight_def take_index_point eq_product_append mult.assoc)
qed

lemma raf_scan_rows_fields:
  fixes k :: "'f::comm_ring_1 read_raf"
  assumes "dim_address_bits (rr_dims k) = 128" "phase < 16" "length r = 8" "length cs = 8 * phase"
    "rr_rows k = in_rows inp" "masses_hold inp cs (rr_u_evals k)"
  shows "scan_lengths (raf_scan_rows k phase)"
    "table_mle (q_shift_half_raw (raf_scan_rows k phase)) r = shift_fun inp False 0 (cs @ r)"
    "table_mle (q_left (raf_scan_rows k phase)) r = operand_fun inp Left_Operand phase (cs @ r)"
    "table_mle (q_right (raf_scan_rows k phase)) r = operand_fun inp Right_Operand phase (cs @ r)"
    "table_mle (q_shift_full_raw (raf_scan_rows k phase)) r = shift_fun inp True 0 (cs @ r)"
    "table_mle (q_identity (raf_scan_rows k phase)) r = identity_fun inp phase (cs @ r)"
proof -
  let ?z = "replicate CHUNK_SIZE (0 :: 'f)"
  let ?q = "\<lparr>q_shift_half_raw = ?z, q_left = ?z, q_right = ?z, q_shift_full_raw = ?z, q_identity = ?z, q_upper_all_ones = ?z\<rparr>"
  have q: "scan_lengths ?q" by (simp add: scan_lengths_def CHUNK_SIZE_def CHUNK_LEN_def)
  have zip: "zip (rr_rows k) (rr_u_evals k) = map (\<lambda>j. (in_rows inp ! j, u_weight inp cs j)) (in_cycles inp)"
    using assms(5,6) by (intro nth_equalityI) (auto simp: masses_hold_def)
  have w: "u_weight inp (cs @ r) j = u_weight inp cs j * eq_product (chunk_bits (in_index inp j) phase) r" for j
    by (rule u_weight_chunk [OF assms(4,2,3)])
  note fields = raf_scan_fold [OF assms(1,2,3), where q = ?q, OF q]
  note unfold = raf_scan_rows_def Let_def fields zip map_map comp_def prod.case
  show "scan_lengths (raf_scan_rows k phase)" unfolding raf_scan_rows_def Let_def by (rule fields(1))
  show "table_mle (q_shift_half_raw (raf_scan_rows k phase)) r = shift_fun inp False 0 (cs @ r)"
    unfolding unfold shift_fun_def w by (auto intro!: arg_cong [where f = sum_list])
  show "table_mle (q_left (raf_scan_rows k phase)) r = operand_fun inp Left_Operand phase (cs @ r)"
    unfolding unfold operand_fun_def w by (auto intro!: arg_cong [where f = sum_list] simp: mult_ac)
  show "table_mle (q_right (raf_scan_rows k phase)) r = operand_fun inp Right_Operand phase (cs @ r)"
    unfolding unfold operand_fun_def w by (auto intro!: arg_cong [where f = sum_list] simp: mult_ac)
  show "table_mle (q_shift_full_raw (raf_scan_rows k phase)) r = shift_fun inp True 0 (cs @ r)"
    unfolding unfold shift_fun_def w by (simp cong: if_cong)
  show "table_mle (q_identity (raf_scan_rows k phase)) r = identity_fun inp phase (cs @ r)"
    unfolding unfold identity_fun_def w by (auto intro!: arg_cong [where f = sum_list] simp: mult_ac)
qed

lemma shift_fun_scale: "shift_fun inp flag n a = shift_fun inp flag 0 a * 2 ^ n"
proof -
  have "(\<Sum>j\<leftarrow>xs. if P j then f j * c else 0) = (\<Sum>j\<leftarrow>xs. if P j then f j else 0) * c" for xs :: "nat list" and P f and c :: 'a
    by (induction xs) (simp_all add: distrib_right)
  then show ?thesis by (simp add: shift_fun_def)
qed

lemma those_mul_pow_2: "n \<le> 255 \<Longrightarrow> those (map (\<lambda>v. mul_pow_2 v n) l) = Some (map (\<lambda>v. v * 2 ^ n) l)"
  by (rule those_map_Some) (simp add: mul_pow_2_def mul_pow_2_loop_eq)

lemma raf_set_represents:
  assumes "length P = 2 ^ n" "length S = 2 ^ n" "length V = 2 ^ n"
    "\<And>r. length r = n \<Longrightarrow> table_mle P r = fp r" "\<And>r. length r = n \<Longrightarrow> table_mle S r = fs r"
    "\<And>r. length r = n \<Longrightarrow> table_mle V r = fv r"
  shows "\<exists>d'. raf_set P S V d = Some d' \<and> raf_represents n d' fp fs fv \<and> raf_checkpoint d' = raf_checkpoint d"
  using represents_new [OF assms(1) assms(4)] represents_new [OF assms(2) assms(5)] represents_new [OF assms(3) assms(6)]
  by (auto simp: raf_set_def raf_represents_def)

lemma init_raf_holds:
  fixes k :: "'f::comm_ring_1 read_raf"
  assumes "dim_address_bits (rr_dims k) = 128" "phase < 16" "length cs = 8 * phase"
    "rr_rows k = in_rows inp" "masses_hold inp cs (rr_u_evals k)" "frame_holds inp cs k"
  shows "\<exists>left right identity. init_raf k phase = Some (k\<lparr>rr_left := left, rr_right := right, rr_identity := identity\<rparr>) \<and>
     raf_checkpoint left = raf_checkpoint (rr_left k) \<and> raf_checkpoint right = raf_checkpoint (rr_right k) \<and>
     raf_checkpoint identity = raf_checkpoint (rr_identity k) \<and>
     raf_represents 8 left (\<lambda>r. operand_run Left_Operand 0 (cs @ r)) (\<lambda>r. shift_fun inp False (60 - 4 * phase) (cs @ r))
       (\<lambda>r. operand_fun inp Left_Operand phase (cs @ r)) \<and>
     raf_represents 8 right (\<lambda>r. operand_run Right_Operand 0 (cs @ r)) (\<lambda>r. shift_fun inp False (60 - 4 * phase) (cs @ r))
       (\<lambda>r. operand_fun inp Right_Operand phase (cs @ r)) \<and>
     raf_represents 8 identity (\<lambda>r. address_run 0 (cs @ r)) (\<lambda>r. shift_fun inp True (2 * (60 - 4 * phase)) (cs @ r))
       (\<lambda>r. identity_fun inp phase (cs @ r))"
proof -
  let ?q = "raf_scan_rows k phase" and ?m = "60 - 4 * phase"
  note fields = raf_scan_rows_fields [OF assms(1,2) _ assms(3-5)]
  have len: "length (q_shift_half_raw ?q) = 2 ^ 8" "length (q_left ?q) = 2 ^ 8" "length (q_right ?q) = 2 ^ 8"
    "length (q_shift_full_raw ?q) = 2 ^ 8" "length (q_identity ?q) = 2 ^ 8"
    using fields(1) [of "replicate 8 0"] by (simp_all add: scan_lengths_def)
  have s: "rr_suffix_len k phase = 2 * ?m" "2 * ?m div 2 = ?m" "?m \<le> 255" "2 * ?m \<le> 255"
    using assms(2) by (simp_all add: rr_suffix_len_eq [OF assms(1)])
  let ?half = "map (\<lambda>v. v * 2 ^ ?m) (q_shift_half_raw ?q)" and ?full = "map (\<lambda>v. v * 2 ^ (2 * ?m)) (q_shift_full_raw ?q)"
  have half: "those (map (\<lambda>v. mul_pow_2 v ?m) (q_shift_half_raw ?q)) = Some ?half"
    "those (map (\<lambda>v. mul_pow_2 v (2 * ?m)) (q_shift_full_raw ?q)) = Some ?full"
    using s by (auto intro!: those_mul_pow_2)
  have mle: "table_mle ?half r = shift_fun inp False ?m (cs @ r)" "table_mle ?full r = shift_fun inp True (2 * ?m) (cs @ r)"
    if "length r = 8" for r
    using fields(2,5) [OF that] shift_fun_scale [of inp False ?m] shift_fun_scale [of inp True "2 * ?m"]
    by (simp_all only: table_mle_map)
  have even: "even (length cs)" using assms(3) by simp
  have cp: "raf_checkpoint (rr_left k) = operand_run Left_Operand 0 cs" "raf_checkpoint (rr_right k) = operand_run Right_Operand 0 cs"
    "raf_checkpoint (rr_identity k) = address_run 0 cs" using assms(6) by (simp_all add: frame_holds_def)
  have pre: "table_mle (operand_prefix (operand_run side 0 cs) side) r = operand_run side 0 (cs @ r)"
    "table_mle (identity_prefix (address_run 0 cs)) r = address_run 0 (cs @ r)" if "length r = 8" for r side
    using that by (simp_all add: operand_prefix_mle identity_prefix_mle operand_run_append [OF even] address_run_append)
  obtain left where left: "raf_set (operand_prefix (raf_checkpoint (rr_left k)) Left_Operand) ?half (q_left ?q) (rr_left k) = Some left"
      "raf_represents 8 left (\<lambda>r. operand_run Left_Operand 0 (cs @ r)) (\<lambda>r. shift_fun inp False ?m (cs @ r))
       (\<lambda>r. operand_fun inp Left_Operand phase (cs @ r))" "raf_checkpoint left = raf_checkpoint (rr_left k)"
    using raf_set_represents [OF length_raf_prefixes(2) _ len(2) pre(1) [where side = Left_Operand] mle(1) fields(3), of "rr_left k"] len(1)
    unfolding cp by auto
  obtain right where right: "raf_set (operand_prefix (raf_checkpoint (rr_right k)) Right_Operand) ?half (q_right ?q) (rr_right k) = Some right"
      "raf_represents 8 right (\<lambda>r. operand_run Right_Operand 0 (cs @ r)) (\<lambda>r. shift_fun inp False ?m (cs @ r))
       (\<lambda>r. operand_fun inp Right_Operand phase (cs @ r))" "raf_checkpoint right = raf_checkpoint (rr_right k)"
    using raf_set_represents [OF length_raf_prefixes(2) _ len(3) pre(1) [where side = Right_Operand] mle(1) fields(4), of "rr_right k"] len(1)
    unfolding cp by auto
  obtain identity where identity: "raf_set (identity_prefix (raf_checkpoint (rr_identity k))) ?full (q_identity ?q) (rr_identity k) = Some identity"
      "raf_represents 8 identity (\<lambda>r. address_run 0 (cs @ r)) (\<lambda>r. shift_fun inp True (2 * ?m) (cs @ r))
       (\<lambda>r. identity_fun inp phase (cs @ r))" "raf_checkpoint identity = raf_checkpoint (rr_identity k)"
    using raf_set_represents [OF length_raf_prefixes(1) _ len(5) pre(2) mle(2) fields(6), of "rr_identity k"] len(4)
    unfolding cp by auto
  have "init_raf k phase = Some (k\<lparr>rr_left := left, rr_right := right, rr_identity := identity\<rparr>)"
    unfolding init_raf_def Let_def s half CANONICAL_INSTRUCTION_ADDRESS_def by (simp add: left(1) right(1) identity(1))
  then show ?thesis using left(2,3) right(2,3) identity(2,3) by blast
qed

end
