(* ===== verification/Read_Raf_Init.thy ===== *)
theory Read_Raf_Init
  imports Read_Raf_State
begin

text \<open>
  \<^verbatim>\<open>init_phase\<close> of the read and RAF kernel: the suffix accumulators, the prefix tables, the masses,
  and the state at the start of a phase.
\<close>

section \<open>The suffix accumulators\<close>

definition suffix_row ::
    "'f::comm_ring_1 read_raf \<Rightarrow> nat \<Rightarrow> suffixes \<Rightarrow> nat \<Rightarrow> 'f list \<Rightarrow> 'f list" where
  "suffix_row k phase s j q =
     (let value = suffix_mle s (lb_new (rw_lookup_index (rr_rows k ! j)) (120 - 8 * phase)) in
      if value \<noteq> 0 then accumulate (rr_chunk k (rw_lookup_index (rr_rows k ! j)) phase) (rr_u_evals k ! j * from_u64 value) q else q)"

lemma suffix_fold:
  assumes "dim_address_bits (rr_dims k) = 128"
  shows "fold (suffix_scan_step k phase S) js (map A S) = map (\<lambda>s. fold (suffix_row k phase s) js (A s)) S"
proof (induction js arbitrary: A)
  case (Cons j js)
  have "suffix_scan_step k phase S j (map A S) = map (\<lambda>s. suffix_row k phase s j (A s)) S"
    by (simp add: suffix_scan_step_def suffix_row_def Let_def rr_suffix_len_eq [OF assms] lb_new_masked map2_map_map [where g = id, simplified])
  then show ?case using Cons by simp
qed simp

lemma suffix_row_mle:
  fixes q :: "'f::comm_ring_1 list"
  assumes "dim_address_bits (rr_dims k) = 128" "length q = 2 ^ 8"
  shows "length (suffix_row k phase s j q) = 2 ^ 8"
    "length r = 8 \<Longrightarrow> table_mle (suffix_row k phase s j q) r = table_mle q r +
      rr_u_evals k ! j * suffix_evaluate s (lb_new (rw_lookup_index (rr_rows k ! j)) (120 - 8 * phase)) *
      eq_product (chunk_bits (rw_lookup_index (rr_rows k ! j)) phase) r"
  using accumulate_mle [OF assms(2) rr_chunk_bits(2) [OF assms(1)], unfolded rr_chunk_bits(1) [OF assms(1)]] assms(2)
  by (simp_all add: suffix_row_def suffix_evaluate_def Let_def from_u64_def)

lemma suffix_rows_mle:
  fixes q :: "'f::comm_ring_1 list"
  assumes "dim_address_bits (rr_dims k) = 128" "length q = 2 ^ 8"
  shows "length (fold (suffix_row k phase s) js q) = 2 ^ 8 \<and> (length r = 8 \<longrightarrow>
    table_mle (fold (suffix_row k phase s) js q) r = table_mle q r +
      (\<Sum>j\<leftarrow>js. rr_u_evals k ! j * suffix_evaluate s (lb_new (rw_lookup_index (rr_rows k ! j)) (120 - 8 * phase)) *
         eq_product (chunk_bits (rw_lookup_index (rr_rows k ! j)) phase) r))"
  using assms(2)
proof (induction js arbitrary: q)
  case (Cons j js)
  show ?case using Cons.IH [OF suffix_row_mle(1) [OF assms(1) Cons.prems]] suffix_row_mle(2) [OF assms(1) Cons.prems, of r]
    by (simp add: add.assoc)
qed simp

lemma set_bucket: "j \<in> set (in_buckets inp ! table_index t) \<Longrightarrow> j < length (in_rows inp)"
  by (simp add: nth_in_buckets table_index_less)

lemma table_suffix_polys_holds:
  fixes k :: "'f::comm_ring_1 read_raf"
  assumes "dim_address_bits (rr_dims k) = 128" "phase < 16" "length cs = 8 * phase"
    "rr_rows k = in_rows inp" "rr_buckets k = in_buckets inp" "masses_hold inp cs (rr_u_evals k)"
  shows "\<exists>ps. table_suffix_polys k phase t = Some ps \<and>
    list_all2 (represents 8) ps (map (\<lambda>s r. suffix_fun inp phase t s (cs @ r)) (table_suffixes t))"
proof -
  let ?js = "in_buckets inp ! table_index t" and ?S = "table_suffixes t"
  let ?z = "replicate CHUNK_SIZE (0 :: 'f)"
  let ?B = "\<lambda>s. fold (suffix_row k phase s) ?js ?z"
  have len: "length (rr_u_evals k) = length (in_rows inp)" "\<And>j. j < length (in_rows inp) \<Longrightarrow> rr_u_evals k ! j = u_weight inp cs j"
    using assms(6) by (simp_all add: masses_hold_def)
  have z: "length ?z = 2 ^ 8" by (simp add: CHUNK_SIZE_def CHUNK_LEN_def)
  have rows: "table_mle (?B s) r = suffix_fun inp phase t s (cs @ r)" if "length r = 8" for s r
  proof -
    have "table_mle (?B s) r = (\<Sum>j\<leftarrow>?js. rr_u_evals k ! j * suffix_evaluate s (lb_new (in_index inp j) (120 - 8 * phase)) *
         eq_product (chunk_bits (in_index inp j) phase) r)"
      using suffix_rows_mle [OF assms(1) z, of phase s ?js r] that by (simp add: assms(4))
    also have "\<dots> = suffix_fun inp phase t s (cs @ r)" unfolding suffix_fun_def
    proof (intro arg_cong [where f = sum_list] map_cong refl)
      fix j assume j: "j \<in> set ?js"
      show "rr_u_evals k ! j * suffix_evaluate s (lb_new (in_index inp j) (120 - 8 * phase)) * eq_product (chunk_bits (in_index inp j) phase) r =
          u_weight inp (cs @ r) j * suffix_evaluate s (lb_new (in_index inp j) (120 - 8 * phase))"
        unfolding u_weight_chunk [OF assms(3,2) that] len(2) [OF set_bucket [OF j]] by (simp only: mult_ac)
    qed
    finally show ?thesis .
  qed
  have "\<exists>ps. those (map dp_new (map ?B ?S)) = Some ps \<and> list_all2 (represents 8) ps (map (\<lambda>s r. suffix_fun inp phase t s (cs @ r)) ?S)"
  proof (rule those_map_rel)
    show "list_all2 (\<lambda>e h. \<exists>s. e = ?B s \<and> h = (\<lambda>r. suffix_fun inp phase t s (cs @ r))) (map ?B ?S) (map (\<lambda>s r. suffix_fun inp phase t s (cs @ r)) ?S)"
      by (auto simp: list_all2_conv_all_nth)
    fix e h assume "\<exists>s. e = ?B s \<and> h = (\<lambda>r. suffix_fun inp phase t s (cs @ r))"
    then obtain s where "e = ?B s" "h = (\<lambda>r. suffix_fun inp phase t s (cs @ r))" by blast
    then show "\<exists>p. dp_new e = Some p \<and> represents 8 p h"
      using represents_new [of "?B s" 8 h] rows suffix_rows_mle [OF assms(1) z] by blast
  qed
  moreover have "fold (suffix_scan_step k phase ?S) ?js (replicate (length ?S) ?z) = map ?B ?S"
    using suffix_fold [OF assms(1), of phase ?S ?js "\<lambda>_. ?z"] by (simp add: map_replicate_const)
  moreover have "list_all (\<lambda>j. j < length (rr_rows k) \<and> j < length (rr_u_evals k)) ?js"
    using set_bucket by (auto simp: list_all_iff assms(4) len(1))
  ultimately show ?thesis by (simp add: table_suffix_polys_def assms(5))
qed

lemma init_suffix_tables_holds:
  fixes k :: "'f::comm_ring_1 read_raf"
  assumes "dim_address_bits (rr_dims k) = 128" "phase < 16" "length cs = 8 * phase"
    "rr_rows k = in_rows inp" "rr_buckets k = in_buckets inp" "masses_hold inp cs (rr_u_evals k)"
  shows "\<exists>ts. init_suffix_tables k phase = Some ts \<and> suffix_tables_hold inp phase 8 cs ts"
proof -
  let ?ts = "filter (\<lambda>t. in_buckets inp ! table_index t \<noteq> []) wasm_tables"
  have "\<exists>ts. those (map (\<lambda>t. map_option (Pair t) (table_suffix_polys k phase t)) ?ts) = Some ts \<and>
      list_all2 (\<lambda>(t, qs) t'. t = t' \<and> list_all2 (represents 8) qs (map (\<lambda>s r. suffix_fun inp phase t' s (cs @ r)) (table_suffixes t'))) ts ?ts"
  proof (rule those_map_rel)
    show "list_all2 (=) ?ts ?ts" by (simp add: list_all2_eq [symmetric])
    show "\<exists>x'. map_option (Pair t) (table_suffix_polys k phase t) = Some x' \<and>
        (case x' of (t, qs) \<Rightarrow> \<lambda>t'. t = t' \<and> list_all2 (represents 8) qs (map (\<lambda>s r. suffix_fun inp phase t' s (cs @ r)) (table_suffixes t'))) t'"
      if "t = t'" for t t'
      using table_suffix_polys_holds [OF assms, of t] that by auto
  qed
  then show ?thesis by (simp add: init_suffix_tables_def suffix_tables_hold_def assms(5)) (simp add: in_buckets_def)
qed

section \<open>The prefix tables\<close>

lemma prefix_at_map: "prefix_at (map f ALL_PREFIXES) = f"
proof
  fix p show "prefix_at (map f ALL_PREFIXES) p = f p" by (cases p) (simp_all add: prefix_at_def prefix_index_def ALL_PREFIXES_def)
qed

lemma bound_prefixes_append:
  assumes "length cs = 8 * phase"
  shows "bound_prefixes (cs @ r) = run_pairs (4 * phase) r (bound_prefixes cs)"
  using assms by (simp add: bound_prefixes_def run_pairs_append)

lemma init_prefix_tables_holds:
  fixes k :: "'f::comm_ring_1 read_raf"
  assumes "dim_address_bits (rr_dims k) = 128" "phase < 16" "length cs = 8 * phase"
    "rr_prefix_checkpoints k = map (bound_prefixes cs) ALL_PREFIXES"
  shows "\<exists>ps. init_prefix_tables k phase = Some ps \<and> list_all2 (represents 8) ps (map (\<lambda>p r. bound_prefixes (cs @ r) p) ALL_PREFIXES)"
proof -
  have al: "phase_aligned (4 * phase) 4" unfolding phase_aligned_def using assms(2) by presburger
  have ok: "checkpoints_ok (4 * phase) (bound_prefixes cs)"
    using checkpoints_ok_run [OF _ checkpoints_ok_default, of cs] assms(3) by (simp add: bound_prefixes_def)
  let ?e = "\<lambda>p. prefix_chunk_table (prefix_at (rr_prefix_checkpoints k)) (rr_suffix_len k phase) p"
  have rep: "\<exists>q. dp_new (?e p) = Some q \<and> represents 8 q (\<lambda>r. bound_prefixes (cs @ r) p)" for p
  proof (rule represents_new)
    show "length (?e p) = 2 ^ 8" by (simp add: prefix_chunk_table_def CHUNK_SIZE_def CHUNK_LEN_def)
    show "table_mle (?e p) r = bound_prefixes (cs @ r) p" if "length r = 8" for r
    proof -
      have e: "?e p = map (\<lambda>v. prefix_evaluate p (bound_prefixes cs) (lb_new (of_nat v) (2 * 4)) (128 - 2 * (4 * phase) - 2 * 4)) [0..<2 ^ (2 * 4)]"
        unfolding prefix_chunk_table_def assms(4) prefix_at_map rr_suffix_len_eq [OF assms(1)] CHUNK_SIZE_def CHUNK_LEN_def by simp
      show ?thesis unfolding e bound_prefixes_append [OF assms(3)]
        by (rule phase_table_bound [OF al ok]) (simp add: that)
    qed
  qed
  have "\<exists>ps. those (map (\<lambda>p. dp_new (?e p)) ALL_PREFIXES) = Some ps \<and>
      list_all2 (represents 8) ps (map (\<lambda>p r. bound_prefixes (cs @ r) p) ALL_PREFIXES)"
  proof (rule those_map_rel)
    show "list_all2 (\<lambda>p h. h = (\<lambda>r. bound_prefixes (cs @ r) p)) ALL_PREFIXES (map (\<lambda>p r. bound_prefixes (cs @ r) p) ALL_PREFIXES)"
      by (simp add: list_all2_map2 list_all2_same)
    show "\<exists>q. dp_new (?e p) = Some q \<and> represents 8 q h" if "h = (\<lambda>r. bound_prefixes (cs @ r) p)" for p h
      using rep that by simp
  qed
  then show ?thesis by (simp add: init_prefix_tables_def)
qed

section \<open>The masses\<close>

lemma condense_holds:
  fixes k :: "'f::comm_ring_1 read_raf"
  assumes "input_ok inp" "phase < 16" "length cs = 8 * phase" "frame_holds inp cs k"
    "masses_hold inp (take (8 * (phase - 1)) cs) (rr_u_evals k)"
  shows "\<exists>us. condense k phase = Some us \<and> masses_hold inp cs us"
proof (cases phase)
  case 0
  then show ?thesis using assms(3,5) by (simp add: condense_def)
next
  case (Suc p)
  let ?c = "take (8 * p) cs" and ?r = "drop (8 * p) cs" and ?us = "rr_u_evals k"
  have k: "rr_rows k = in_rows inp" "rr_v_tables k = map (phase_table cs) [0..<length cs div 8]" "dim_address_bits (rr_dims k) = 128"
    using assms(1,4) by (simp_all add: frame_holds_def input_ok_def Let_def)
  have len: "length ?us = length (in_rows inp)" "\<And>j. j < length (in_rows inp) \<Longrightarrow> ?us ! j = u_weight inp ?c j"
    using assms(5) Suc by (simp_all add: masses_hold_def)
  have r: "length ?r = 8" "length ?c = 8 * p" "p < 16" "?c @ ?r = cs" using assms(2,3) Suc by simp_all
  have v: "nth_opt (rr_v_tables k) p = Some (eq_table 1 ?r)" using assms(3) Suc r(1)
    by (simp add: k(2) nth_opt_def phase_table_def view_eq_table_def eq_evals_eq nth_append)
  have chunk: "eq_table 1 ?r ! index_chunk w (rr_suffix_len k p) = eq_product (chunk_bits w p) ?r" for w
    using nth_eq_table [of "index_chunk w (rr_suffix_len k p)" ?r 1] index_chunk_less r(1)
    by (simp add: rr_suffix_len_eq [OF k(3)] chunk_bits_def eq_product_commute)
  let ?m = "map2 (\<lambda>u row. u * eq_table 1 ?r ! index_chunk (rw_lookup_index row) (rr_suffix_len k p)) ?us (rr_rows k) @ drop (length (rr_rows k)) ?us"
  have "condense k phase = Some ?m" unfolding condense_def Suc diff_Suc_1 v using r(1) by (simp add: CHUNK_SIZE_def CHUNK_LEN_def)
  moreover have "masses_hold inp cs ?m"
    using len(1) len(2) u_weight_chunk [OF r(2,3,1), of inp] by (simp add: masses_hold_def k(1) chunk r(4))
  ultimately show ?thesis by blast
qed

section \<open>The start of a phase\<close>

lemma init_phase_holds:
  fixes k :: "'f::comm_ring_1 read_raf"
  assumes "input_ok inp" "phase < 16" "length cs = 8 * phase" "frame_holds inp cs k"
    "masses_hold inp (take (8 * (phase - 1)) cs) (rr_u_evals k)"
  shows "\<exists>k'. init_phase k phase = Some k' \<and> frame_holds inp cs k' \<and> masses_hold inp cs (rr_u_evals k') \<and>
    tables_hold inp phase cs [] k' \<and> rr_phase_challenges k' = [] \<and> rr_rounds_bound k' = rr_rounds_bound k"
proof -
  have dims: "dim_address_bits (rr_dims k) = 128" "rr_rows k = in_rows inp" "rr_buckets k = in_buckets inp"
    using assms(1,4) by (simp_all add: frame_holds_def input_ok_def Let_def)
  obtain us where us: "condense k phase = Some us" "masses_hold inp cs us" using condense_holds [OF assms] by blast
  let ?k1 = "k\<lparr>rr_u_evals := us\<rparr>"
  have f1: "frame_holds inp cs ?k1" using assms(4) by (simp add: frame_holds_def)
  obtain left right identity where raf: "init_raf ?k1 phase = Some (?k1\<lparr>rr_left := left, rr_right := right, rr_identity := identity\<rparr>)"
      "raf_checkpoint left = raf_checkpoint (rr_left k)" "raf_checkpoint right = raf_checkpoint (rr_right k)"
      "raf_checkpoint identity = raf_checkpoint (rr_identity k)"
      "raf_represents 8 left (\<lambda>r. operand_run Left_Operand 0 (cs @ r)) (\<lambda>r. shift_fun inp False (60 - 4 * phase) (cs @ r))
       (\<lambda>r. operand_fun inp Left_Operand phase (cs @ r))"
      "raf_represents 8 right (\<lambda>r. operand_run Right_Operand 0 (cs @ r)) (\<lambda>r. shift_fun inp False (60 - 4 * phase) (cs @ r))
       (\<lambda>r. operand_fun inp Right_Operand phase (cs @ r))"
      "raf_represents 8 identity (\<lambda>r. address_run 0 (cs @ r)) (\<lambda>r. shift_fun inp True (2 * (60 - 4 * phase)) (cs @ r))
       (\<lambda>r. identity_fun inp phase (cs @ r))"
    using init_raf_holds [of ?k1 phase cs inp] assms(2,3) dims us(2) f1 by auto
  let ?k2 = "?k1\<lparr>rr_left := left, rr_right := right, rr_identity := identity\<rparr>"
  obtain ts where ts: "init_suffix_tables ?k2 phase = Some ts" "suffix_tables_hold inp phase 8 cs ts"
    using init_suffix_tables_holds [of ?k2 phase cs inp] assms(2,3) dims us(2) by auto
  let ?k3 = "?k2\<lparr>rr_suffix_tables := ts\<rparr>"
  have "rr_prefix_checkpoints ?k3 = map (bound_prefixes cs) ALL_PREFIXES" using assms(4) by (simp add: frame_holds_def)
  then obtain ps where ps: "init_prefix_tables ?k3 phase = Some ps" "list_all2 (represents 8) ps (map (\<lambda>p r. bound_prefixes (cs @ r) p) ALL_PREFIXES)"
    using init_prefix_tables_holds [of ?k3 phase cs] assms(2,3) dims by auto
  let ?k4 = "?k3\<lparr>rr_prefix_tables := ps, rr_phase_challenges := []\<rparr>"
  have "init_phase k phase = Some ?k4" by (simp add: init_phase_def us(1) raf(1) ts(1) ps(1))
  moreover have "frame_holds inp cs ?k4" using assms(4) raf(2-4) by (simp add: frame_holds_def)
  moreover have "tables_hold inp phase cs [] ?k4" using raf(5-7) ts(2) ps(2) by (simp add: tables_hold_def Let_def)
  ultimately show ?thesis using us(2) by (intro exI [of _ ?k4]) simp
qed

end
