(* ===== verification/Read_Raf_Bind.thy ===== *)
theory Read_Raf_Bind
  imports Read_Raf_Init
begin

text \<open>
  The address rounds of the read and RAF kernel: the state over the address variables bound so far,
  established by \<^verbatim>\<open>new\<close> and kept by \<^verbatim>\<open>bind\<close> across the ends of the phases, up to the handoff.
\<close>

section \<open>The state of the address rounds\<close>

definition address_state :: "'f::comm_ring_1 read_raf_input \<Rightarrow> 'f list \<Rightarrow> 'f read_raf \<Rightarrow> bool" where
  "address_state inp a k \<longleftrightarrow> (let phase = length a div 8; cs = take (8 * phase) a; ds = drop (8 * phase) a in
     frame_holds inp cs k \<and> masses_hold inp cs (rr_u_evals k) \<and> tables_hold inp phase cs ds k \<and>
     rr_phase_challenges k = ds \<and> rr_rounds_bound k = length a)"

text \<open>A phase filled: the next one is to be started, with the masses of the one before.\<close>

definition phase_closed :: "'f::comm_ring_1 read_raf_input \<Rightarrow> 'f list \<Rightarrow> 'f read_raf \<Rightarrow> bool" where
  "phase_closed inp cs k \<longleftrightarrow> frame_holds inp cs k \<and> masses_hold inp (take (length cs - 8) cs) (rr_u_evals k)"

lemma frame_initial:
  fixes k :: "'f::comm_ring_1 read_raf"
  assumes "rr_dims k = in_dims inp" "rr_gamma k = in_gamma inp" "rr_reduction k = in_reduction inp" "rr_rows k = in_rows inp"
    "rr_buckets k = in_buckets inp" "rr_cycle_challenges k = []" "rr_prefix_checkpoints k = map default_checkpoint ALL_PREFIXES"
    "rr_left k = raf_empty" "rr_right k = raf_empty" "rr_identity k = raf_empty" "rr_v_tables k = []"
  shows "frame_holds inp [] k"
proof -
  have "bound_prefixes [] = (default_checkpoint :: prefixes \<Rightarrow> 'f)" by (simp add: bound_prefixes_def)
  then show ?thesis using assms by (simp add: frame_holds_def raf_empty_def Let_def)
qed

lemma read_raf_new_holds:
  fixes inp :: "'f::comm_ring_1 read_raf_input"
  assumes "input_ok inp"
  shows "\<exists>k. read_raf_new (in_dims inp) (in_reduction inp) (in_rows inp) (in_gamma inp) = Inr k \<and> address_state inp [] k"
proof -
  have ok: "dim_address_bits (in_dims inp) = 128" "128 mod dim_ra_polys (in_dims inp) = 0" "128 div dim_ra_polys (in_dims inp) mod 8 = 0"
    "length (in_rows inp) = 2 ^ dim_log_t (in_dims inp)" "length (in_reduction inp) = dim_log_t (in_dims inp)"
    using assms by (simp_all add: input_ok_def Let_def)
  define k0 :: "'f read_raf" where "k0 =
    \<lparr>rr_dims = in_dims inp, rr_gamma = in_gamma inp, rr_reduction = in_reduction inp, rr_rows = in_rows inp, rr_buckets = in_buckets inp,
     rr_u_evals = view_eq_table (in_reduction inp), rr_prefix_checkpoints = map default_checkpoint ALL_PREFIXES,
     rr_prefix_tables = [], rr_suffix_tables = [], rr_left = raf_empty, rr_right = raf_empty,
     rr_identity = raf_empty, rr_upper_all_ones = raf_empty_product, rr_v_tables = [],
     rr_phase_challenges = [], rr_cycle_challenges = [], rr_cycle_tables = None, rr_rounds_bound = 0\<rparr>"
  have frame: "frame_holds inp [] k0" by (rule frame_initial) (simp_all add: k0_def)
  have mass: "masses_hold inp (take (8 * (0 - 1)) []) (rr_u_evals k0)"
    using ok(4,5) by (simp add: masses_hold_def k0_def u_weight_def view_eq_table_def eq_evals_eq)
  obtain k where k: "init_phase k0 0 = Some k" "frame_holds inp [] k" "masses_hold inp [] (rr_u_evals k)" "tables_hold inp 0 [] [] k"
      "rr_phase_challenges k = []" "rr_rounds_bound k = rr_rounds_bound k0"
    using init_phase_holds [OF assms _ _ frame mass] by auto
  have "read_raf_new (in_dims inp) (in_reduction inp) (in_rows inp) (in_gamma inp) = Inr k"
    using ok k(1) [unfolded k0_def] bucket_rows_input [OF assms] by (simp add: read_raf_new_def Let_def XLEN_def CHUNK_LEN_def bind_res_def ok_or_def)
  moreover have "address_state inp [] k" using k by (simp add: address_state_def k0_def)
  ultimately show ?thesis by blast
qed

section \<open>Binding the tables\<close>

lemma bind_dense_holds:
  assumes "list_all2 (represents (Suc n)) ps (map (\<lambda>x r. F x (a @ r)) xs)"
  shows "\<exists>qs. bind_dense s HighToLow ps = Some qs \<and> list_all2 (represents n) qs (map (\<lambda>x r. F x ((a @ [s]) @ r)) xs)"
proof -
  have "list_all2 (\<lambda>p h. represents (Suc n) p (\<lambda>r. h (a @ r))) ps (map F xs)"
    using assms by (simp add: list_all2_map2)
  then have "\<exists>qs. those (map (bind_with_order s HighToLow) ps) = Some qs \<and> list_all2 (\<lambda>p h. represents n p (\<lambda>r. h ((a @ [s]) @ r))) qs (map F xs)"
    by (rule those_map_rel) (use represents_bind(1) in fastforce)
  then show ?thesis by (auto simp: bind_dense_def list_all2_map2)
qed

lemma raf_bind_holds:
  assumes "raf_represents (Suc n) d (\<lambda>r. P (a @ r)) (\<lambda>r. S (a @ r)) (\<lambda>r. V (a @ r))"
  shows "\<exists>d'. raf_bind s d = Some d' \<and> raf_checkpoint d' = raf_checkpoint d \<and>
    raf_represents n d' (\<lambda>r. P ((a @ [s]) @ r)) (\<lambda>r. S ((a @ [s]) @ r)) (\<lambda>r. V ((a @ [s]) @ r))"
  using represents_bind(1) [of n "raf_prefix d" "\<lambda>r. P (a @ r)" s] represents_bind(1) [of n "raf_q_shift d" "\<lambda>r. S (a @ r)" s]
    represents_bind(1) [of n "raf_q_value d" "\<lambda>r. V (a @ r)" s] assms
  by (auto simp: raf_represents_def raf_bind_def)

lemma suffix_tables_bind:
  assumes "suffix_tables_hold inp phase (Suc n) a tables"
  shows "\<exists>ts. those (map (\<lambda>(t, qs). map_option (Pair t) (bind_dense s HighToLow qs)) tables) = Some ts \<and>
    suffix_tables_hold inp phase n (a @ [s]) ts"
  unfolding suffix_tables_hold_def
proof (rule those_map_rel [OF assms [unfolded suffix_tables_hold_def]])
  fix tq t'
  assume "(case tq of (t, qs) \<Rightarrow> \<lambda>t'. t = t' \<and>
    list_all2 (represents (Suc n)) qs (map (\<lambda>s r. suffix_fun inp phase t' s (a @ r)) (table_suffixes t'))) t'"
  then obtain qs where tq: "tq = (t', qs)"
      "list_all2 (represents (Suc n)) qs (map (\<lambda>s r. suffix_fun inp phase t' s (a @ r)) (table_suffixes t'))" by (cases tq) auto
  from bind_dense_holds [OF tq(2), of s]
  show "\<exists>x'. (case tq of (t, qs) \<Rightarrow> map_option (Pair t) (bind_dense s HighToLow qs)) = Some x' \<and>
    (case x' of (t, qs) \<Rightarrow> \<lambda>t'. t = t' \<and>
      list_all2 (represents n) qs (map (\<lambda>sa r. suffix_fun inp phase t' sa ((a @ [s]) @ r)) (table_suffixes t'))) t'"
    by (auto simp: tq(1))
qed

lemma bind_address_tables_holds:
  fixes k :: "'f::comm_ring_1 read_raf"
  assumes "tables_hold inp phase cs ds k" "length ds < 8" "frame_holds inp cs k" "rr_phase_challenges k = ds"
  shows "\<exists>k'. bind_address_tables s k = Some k' \<and> tables_hold inp phase cs (ds @ [s]) k' \<and> frame_holds inp cs k' \<and>
    rr_phase_challenges k' = ds @ [s] \<and> rr_rounds_bound k' = rr_rounds_bound k \<and> rr_u_evals k' = rr_u_evals k"
proof -
  obtain n where n: "8 - length ds = Suc n" "8 - length (ds @ [s]) = n" using assms(2) by (cases "8 - length ds") simp_all
  note t = assms(1) [unfolded tables_hold_def Let_def n]
  obtain ps where ps: "bind_dense s HighToLow (rr_prefix_tables k) = Some ps"
      "list_all2 (represents n) ps (map (\<lambda>p r. bound_prefixes (((cs @ ds) @ [s]) @ r) p) ALL_PREFIXES)"
    using bind_dense_holds [of n _ "\<lambda>p a. bound_prefixes a p", of _ "cs @ ds"] t by blast
  obtain ts where ts: "those (map (\<lambda>(t, qs). map_option (Pair t) (bind_dense s HighToLow qs)) (rr_suffix_tables k)) = Some ts"
      "suffix_tables_hold inp phase n ((cs @ ds) @ [s]) ts"
    using suffix_tables_bind t by blast
  obtain left where left: "raf_bind s (rr_left k) = Some left" "raf_checkpoint left = raf_checkpoint (rr_left k)"
      "raf_represents n left (\<lambda>r. operand_run Left_Operand 0 (((cs @ ds) @ [s]) @ r)) (\<lambda>r. shift_fun inp False (60 - 4 * phase) (((cs @ ds) @ [s]) @ r))
       (\<lambda>r. operand_fun inp Left_Operand phase (((cs @ ds) @ [s]) @ r))"
    using raf_bind_holds [of n "rr_left k" _ "cs @ ds"] t by blast
  obtain right where right: "raf_bind s (rr_right k) = Some right" "raf_checkpoint right = raf_checkpoint (rr_right k)"
      "raf_represents n right (\<lambda>r. operand_run Right_Operand 0 (((cs @ ds) @ [s]) @ r)) (\<lambda>r. shift_fun inp False (60 - 4 * phase) (((cs @ ds) @ [s]) @ r))
       (\<lambda>r. operand_fun inp Right_Operand phase (((cs @ ds) @ [s]) @ r))"
    using raf_bind_holds [of n "rr_right k" _ "cs @ ds"] t by blast
  obtain identity where identity: "raf_bind s (rr_identity k) = Some identity" "raf_checkpoint identity = raf_checkpoint (rr_identity k)"
      "raf_represents n identity (\<lambda>r. address_run 0 (((cs @ ds) @ [s]) @ r)) (\<lambda>r. shift_fun inp True (2 * (60 - 4 * phase)) (((cs @ ds) @ [s]) @ r))
       (\<lambda>r. identity_fun inp phase (((cs @ ds) @ [s]) @ r))"
    using raf_bind_holds [of n "rr_identity k" _ "cs @ ds"] t by blast
  let ?k = "k\<lparr>rr_prefix_tables := ps, rr_suffix_tables := ts, rr_left := left, rr_right := right,
       rr_identity := identity, rr_upper_all_ones := rr_upper_all_ones k, rr_phase_challenges := rr_phase_challenges k @ [s]\<rparr>"
  have "bind_address_tables s k = Some ?k"
    by (simp add: bind_address_tables_def CANONICAL_INSTRUCTION_ADDRESS_def ps(1) ts(1) left(1) right(1) identity(1))
  moreover have "tables_hold inp phase cs (ds @ [s]) ?k"
    unfolding tables_hold_def Let_def n using ps(2) ts(2) left(3) right(3) identity(3) by simp
  moreover have "frame_holds inp cs ?k" using assms(3) left(2) right(2) identity(2) by (simp add: frame_holds_def)
  ultimately show ?thesis using assms(4) by (intro exI [of _ ?k]) simp
qed

section \<open>The end of a phase\<close>

lemma raf_close_holds:
  "raf_represents 0 d P S V \<Longrightarrow> raf_close d = Some (d\<lparr>raf_checkpoint := P []\<rparr>)"
  using represents_full [of "raf_prefix d" P] by (simp add: raf_represents_def raf_close_def)

lemma prefixes_closed:
  assumes "list_all2 (represents 0) ps (map (\<lambda>p r. F p r) xs)"
  shows "those (map (\<lambda>p. nth_opt (dp_evals p) 0) ps) = Some (map (\<lambda>p. F p []) xs)"
  using assms
proof (induction ps arbitrary: xs)
  case (Cons p ps)
  then obtain x ys where xs: "xs = x # ys" by (cases xs) auto
  have "nth_opt (dp_evals p) 0 = Some (F x [])" using Cons.prems xs by (intro represents_full) simp
  moreover have "those (map (\<lambda>p. nth_opt (dp_evals p) 0) ps) = Some (map (\<lambda>p. F p []) ys)" using Cons xs by simp
  ultimately show ?case unfolding xs list.map those.simps by (simp del: nth_opt_eq_Some)
qed simp

lemma close_phase_holds:
  fixes k :: "'f::comm_ring_1 read_raf"
  assumes "tables_hold inp phase cs ds k" "length ds = 8" "length cs = 8 * phase" "frame_holds inp cs k"
    "rr_phase_challenges k = ds" "masses_hold inp cs (rr_u_evals k)"
  shows "\<exists>k'. close_phase k = Some k' \<and> phase_closed inp (cs @ ds) k' \<and> rr_rounds_bound k' = rr_rounds_bound k"
proof -
  note t = assms(1) [unfolded tables_hold_def Let_def assms(2), simplified]
  have len: "length (rr_prefix_checkpoints k) = length ALL_PREFIXES" "length (rr_prefix_tables k) = length ALL_PREFIXES"
    using assms(4) t by (auto simp: frame_holds_def dest: list_all2_lengthD)
  have vals: "those (map (\<lambda>p. nth_opt (dp_evals p) 0) (take (length (rr_prefix_checkpoints k)) (rr_prefix_tables k))) =
      Some (map (bound_prefixes (cs @ ds)) ALL_PREFIXES)"
    using prefixes_closed [of "rr_prefix_tables k" "\<lambda>p r. bound_prefixes (cs @ ds @ r) p"] t len by simp
  have raf: "raf_close (rr_left k) = Some ((rr_left k)\<lparr>raf_checkpoint := operand_run Left_Operand 0 (cs @ ds)\<rparr>)"
    "raf_close (rr_right k) = Some ((rr_right k)\<lparr>raf_checkpoint := operand_run Right_Operand 0 (cs @ ds)\<rparr>)"
    "raf_close (rr_identity k) = Some ((rr_identity k)\<lparr>raf_checkpoint := address_run 0 (cs @ ds)\<rparr>)"
    using t by (auto dest: raf_close_holds)
  have v: "rr_v_tables k @ [view_eq_table ds] = map (phase_table (cs @ ds)) [0..<length (cs @ ds) div 8]"
  proof -
    have old: "phase_table cs q = phase_table (cs @ ds) q" if "q < phase" for q
    proof -
      have "8 * q + 8 \<le> length cs" using that assms(3) by simp
      then show ?thesis by (simp add: phase_table_def)
    qed
    have "phase_table (cs @ ds) phase = view_eq_table ds" using assms(2,3) by (simp add: phase_table_def)
    moreover have "rr_v_tables k = map (phase_table cs) [0..<phase]" using assms(3,4) by (simp add: frame_holds_def)
    ultimately show ?thesis using assms(2,3) old by simp
  qed
  let ?k = "k\<lparr>rr_v_tables := rr_v_tables k @ [view_eq_table ds], rr_prefix_checkpoints := map (bound_prefixes (cs @ ds)) ALL_PREFIXES,
     rr_left := (rr_left k)\<lparr>raf_checkpoint := operand_run Left_Operand 0 (cs @ ds)\<rparr>,
     rr_right := (rr_right k)\<lparr>raf_checkpoint := operand_run Right_Operand 0 (cs @ ds)\<rparr>,
     rr_identity := (rr_identity k)\<lparr>raf_checkpoint := address_run 0 (cs @ ds)\<rparr>\<rparr>"
  have "close_phase k = Some ?k"
    unfolding close_phase_def vals by (simp add: CANONICAL_INSTRUCTION_ADDRESS_def raf Let_def assms(5) len(1))
  moreover have "phase_closed inp (cs @ ds) ?k"
    unfolding phase_closed_def frame_holds_def using assms(4,6,2) v by (simp add: frame_holds_def)
  ultimately show ?thesis by (intro exI [of _ ?k]) simp
qed

section \<open>A round\<close>

lemma div_phase: "length a < 128 \<Longrightarrow> length a div 8 < 16" "length a - 8 * (length a div 8) < 8"
  by simp_all

lemma take_phase: "length (take (8 * (length a div 8)) a) = 8 * (length a div 8)"
  by simp

lemma rr_bind_address:
  assumes "rr_rounds_bound k < dim_address_bits (rr_dims k)" "bind_address_tables s k = Some k1"
  shows "length (rr_phase_challenges k1) \<noteq> 8 \<Longrightarrow> rr_bind s k = Inr (k1\<lparr>rr_rounds_bound := rr_rounds_bound k1 + 1\<rparr>)"
    "length (rr_phase_challenges k1) = 8 \<Longrightarrow> close_phase k1 = Some k2 \<Longrightarrow> rr_rounds_bound k1 div 8 + 1 < rr_phases k2 \<Longrightarrow>
      init_phase k2 (rr_rounds_bound k1 div 8 + 1) = Some k3 \<Longrightarrow> rr_bind s k = Inr (k3\<lparr>rr_rounds_bound := rr_rounds_bound k3 + 1\<rparr>)"
    "length (rr_phase_challenges k1) = 8 \<Longrightarrow> close_phase k1 = Some k2 \<Longrightarrow> \<not> rr_rounds_bound k1 div 8 + 1 < rr_phases k2 \<Longrightarrow>
      rr_bind s k = bind_res (ok_or (init_cycle_rounds k2) Sumcheck_Panicked) (\<lambda>k. Inr (k\<lparr>rr_rounds_bound := rr_rounds_bound k + 1\<rparr>))"
  using assms by (simp_all add: rr_bind_def bind_address_def CHUNK_LEN_def ok_or_def bind_res_def Let_def)

lemma bind_address_holds:
  fixes k :: "'f::comm_ring_1 read_raf"
  assumes "input_ok inp" "address_state inp a k" "length a < 128"
  shows "length (a @ [s]) < 128 \<Longrightarrow> \<exists>k'. rr_bind s k = Inr k' \<and> address_state inp (a @ [s]) k'"
    "length (a @ [s]) = 128 \<Longrightarrow> \<exists>k1. phase_closed inp (a @ [s]) k1 \<and> rr_rounds_bound k1 = 127 \<and>
      rr_bind s k = bind_res (ok_or (init_cycle_rounds k1) Sumcheck_Panicked) (\<lambda>k. Inr (k\<lparr>rr_rounds_bound := rr_rounds_bound k + 1\<rparr>))"
proof -
  define phase where "phase = length a div 8"
  define cs where "cs = take (8 * phase) a"
  define ds where "ds = drop (8 * phase) a"
  have a: "a = cs @ ds" "length cs = 8 * phase" "phase < 16" "length ds < 8" "length a = 8 * phase + length ds"
    using div_phase assms(3) by (simp_all add: cs_def ds_def phase_def)
  have st: "frame_holds inp cs k" "masses_hold inp cs (rr_u_evals k)" "tables_hold inp phase cs ds k"
    "rr_phase_challenges k = ds" "rr_rounds_bound k = length a"
    using assms(2) by (simp_all add: address_state_def Let_def phase_def cs_def ds_def)
  have bound: "rr_rounds_bound k < dim_address_bits (rr_dims k)"
    using assms(1,3) st(1,5) by (simp add: frame_holds_def input_ok_def Let_def)
  obtain k1 where k1: "bind_address_tables s k = Some k1" "tables_hold inp phase cs (ds @ [s]) k1" "frame_holds inp cs k1"
      "rr_phase_challenges k1 = ds @ [s]" "rr_rounds_bound k1 = length a" "rr_u_evals k1 = rr_u_evals k"
    using bind_address_tables_holds [OF st(3) a(4) st(1,4)] st(5) by metis
  have closed: "\<exists>k2. close_phase k1 = Some k2 \<and> phase_closed inp (a @ [s]) k2 \<and> rr_rounds_bound k2 = length a" if "length (ds @ [s]) = 8"
    using close_phase_holds [OF k1(2) that a(2) k1(3,4)] st(2) k1(5,6) by (simp add: a(1))
  have ph: "rr_phases k' = 16" if "frame_holds inp c k'" for c k'
    using that assms(1) by (simp add: frame_holds_def input_ok_def Let_def rr_phases_def CHUNK_LEN_def)
  show "\<exists>k'. rr_bind s k = Inr k' \<and> address_state inp (a @ [s]) k'" if short: "length (a @ [s]) < 128"
  proof (cases "length (ds @ [s]) = 8")
    case False
    have "length (a @ [s]) div 8 = phase" using a(4,5) False by (simp add: div_nat_eqI)
    then have "address_state inp (a @ [s]) (k1\<lparr>rr_rounds_bound := length a + 1\<rparr>)"
      using k1 st(2) a by (simp add: address_state_def Let_def frame_holds_def tables_hold_def)
    moreover have "rr_bind s k = Inr (k1\<lparr>rr_rounds_bound := length a + 1\<rparr>)"
      using rr_bind_address(1) [OF bound k1(1), unfolded k1(4,5)] False by blast
    ultimately show ?thesis by blast
  next
    case True
    obtain k2 where k2: "close_phase k1 = Some k2" "phase_closed inp (a @ [s]) k2" "rr_rounds_bound k2 = length a" using closed [OF True] by blast
    have nxt: "phase + 1 < 16" "length (a @ [s]) = 8 * (phase + 1)" using short True a(5) by simp_all
    have "take (length (a @ [s]) - 8) (a @ [s]) = take (8 * ((phase + 1) - 1)) (a @ [s])" using nxt(2) by simp
    then obtain k3 where k3: "init_phase k2 (phase + 1) = Some k3" "frame_holds inp (a @ [s]) k3" "masses_hold inp (a @ [s]) (rr_u_evals k3)"
        "tables_hold inp (phase + 1) (a @ [s]) [] k3" "rr_phase_challenges k3 = []" "rr_rounds_bound k3 = length a"
      using init_phase_holds [OF assms(1) nxt(1,2), of k2] k2(2,3) by (auto simp: phase_closed_def)
    have "address_state inp (a @ [s]) (k3\<lparr>rr_rounds_bound := length a + 1\<rparr>)"
      using k3 nxt by (simp add: address_state_def Let_def frame_holds_def tables_hold_def)
    moreover have "rr_bind s k = Inr (k3\<lparr>rr_rounds_bound := rr_rounds_bound k3 + 1\<rparr>)"
    proof (rule rr_bind_address(2) [OF bound k1(1) _ k2(1)])
      show "length (rr_phase_challenges k1) = 8" using True by (simp only: k1(4))
      have q: "rr_rounds_bound k1 div 8 = phase" using k1(5) by (simp only: phase_def)
      have "rr_phases k2 = 16" using k2(2) ph by (auto simp: phase_closed_def)
      then show "rr_rounds_bound k1 div 8 + 1 < rr_phases k2" unfolding q using nxt(1) by simp
      show "init_phase k2 (rr_rounds_bound k1 div 8 + 1) = Some k3" unfolding q by (rule k3(1))
    qed
    ultimately show ?thesis unfolding k3(6) by blast
  qed
  show "\<exists>k1. phase_closed inp (a @ [s]) k1 \<and> rr_rounds_bound k1 = 127 \<and>
      rr_bind s k = bind_res (ok_or (init_cycle_rounds k1) Sumcheck_Panicked) (\<lambda>k. Inr (k\<lparr>rr_rounds_bound := rr_rounds_bound k + 1\<rparr>))"
    if full: "length (a @ [s]) = 128"
  proof -
    have n: "length a = 127" using full by simp
    then have p: "phase = 15" by (simp add: phase_def)
    have d: "length (ds @ [s]) = 8" using n a(5) p by simp
    obtain k2 where k2: "close_phase k1 = Some k2" "phase_closed inp (a @ [s]) k2" "rr_rounds_bound k2 = 127"
      using closed [OF d] unfolding n by blast
    have "rr_phases k2 = 16" using k2(2) ph by (auto simp: phase_closed_def)
    then have "\<not> rr_rounds_bound k1 div 8 + 1 < rr_phases k2" unfolding k1(5) n by simp
    moreover have "length (rr_phase_challenges k1) = 8" using d by (simp only: k1(4))
    ultimately show ?thesis using rr_bind_address(3) [OF bound k1(1) _ k2(1)] k2(2,3) by blast
  qed
qed

end
