(* ===== verification/Read_Raf_Cycle.thy ===== *)
theory Read_Raf_Cycle
  imports Read_Raf_Bind
begin

text \<open>
  The handoff of the read and RAF kernel and its cycle rounds: the tables over the cycles, and the
  state over the cycle variables bound so far.
\<close>

section \<open>What the relation reads\<close>

text \<open>The address polynomials of the RAF part, at an address point.\<close>

definition raf_value :: "'f::comm_ring_1 read_raf_input \<Rightarrow> 'f list \<Rightarrow> bool \<Rightarrow> 'f" where
  "raf_value inp r flag =
     (if flag then in_gamma inp ^ 2 * address_run 0 r
      else in_gamma inp * operand_run Left_Operand 0 r + in_gamma inp ^ 2 * operand_run Right_Operand 0 r)"

text \<open>The value a row reads: its table's extension and the RAF value.\<close>

definition row_value :: "'f::comm_ring_1 read_raf_input \<Rightarrow> 'f list \<Rightarrow> read_raf_row \<Rightarrow> 'f" where
  "row_value inp r row =
     (case rw_table_index row of None \<Rightarrow> 0 | Some i \<Rightarrow> table_mle_value (wasm_tables ! i) r) + raf_value inp r (rw_raf_flag row)"

definition ra_phases :: "'f read_raf_input \<Rightarrow> nat" where
  "ra_phases inp = 16 div dim_ra_polys (in_dims inp)"

text \<open>The \<open>i\<close>th selector: the equality with the row's index over the \<open>i\<close>th group of chunks.\<close>

definition ra_value :: "'f::comm_ring_1 read_raf_input \<Rightarrow> 'f list \<Rightarrow> nat \<Rightarrow> read_raf_row \<Rightarrow> 'f" where
  "ra_value inp r i row =
     (\<Prod>p\<leftarrow>[i * ra_phases inp..<Suc i * ra_phases inp]. eq_product (chunk_bits (rw_lookup_index row) p) (take 8 (drop (8 * p) r)))"

lemma ra_phases_count:
  assumes "input_ok inp"
  shows "dim_ra_polys (in_dims inp) * ra_phases inp = 16" "0 < ra_phases inp"
proof -
  let ?n = "dim_ra_polys (in_dims inp)"
  have n: "0 < ?n" "128 mod ?n = 0" "128 div ?n mod 8 = 0" using assms by (simp_all add: input_ok_def Let_def)
  then obtain d where d: "128 div ?n = 8 * d" by (metis dvdE mod_0_imp_dvd)
  have "128 = ?n * (128 div ?n)" using n(2) by auto
  then have "?n * d = 16" unfolding d by (simp add: mult.commute)
  then show "?n * ra_phases inp = 16" unfolding ra_phases_def using n(1) by (metis nonzero_mult_div_cancel_left less_irrefl)
  then show "0 < ra_phases inp" by (cases "ra_phases inp") simp_all
qed

section \<open>The state of the cycle rounds\<close>

definition cycle_state :: "'f::comm_ring_1 read_raf_input \<Rightarrow> 'f list \<Rightarrow> 'f list \<Rightarrow> 'f read_raf \<Rightarrow> bool" where
  "cycle_state inp r ys k \<longleftrightarrow> (let n = dim_log_t (in_dims inp) - length ys in
     rr_dims k = in_dims inp \<and> rr_rows k = in_rows inp \<and> rr_cycle_challenges k = ys \<and> rr_rounds_bound k = 128 + length ys \<and>
     (\<exists>tables. rr_cycle_tables k = Some tables \<and>
        represents n (ct_eq_reduction tables) (\<lambda>z. table_mle (view_eq_table (in_reduction inp)) (z @ rev ys)) \<and>
        represents n (ct_combined_val tables) (\<lambda>z. table_mle (map (row_value inp r) (in_rows inp)) (z @ rev ys)) \<and>
        list_all2 (represents n) (ct_ra tables)
          (map (\<lambda>i z. table_mle (map (ra_value inp r i) (in_rows inp)) (z @ rev ys)) [0..<dim_ra_polys (in_dims inp)])))"

lemma nth_phase_table:
  assumes "length r = 128" "p < 16"
  shows "nth_opt (phase_table r p) (index_chunk v (120 - 8 * p)) = Some (eq_product (chunk_bits v p) (take 8 (drop (8 * p) r)))"
proof -
  have l: "length (take 8 (drop (8 * p) r)) = 8" using assms by simp
  then show ?thesis using nth_eq_table [of "index_chunk v (120 - 8 * p)" "take 8 (drop (8 * p) r)" 1] index_chunk_less [of v "120 - 8 * p"]
    by (simp add: phase_table_def view_eq_table_def eq_evals_eq chunk_bits_def eq_product_commute)
qed

lemma ra_row_value_holds:
  fixes k :: "'f::comm_ring_1 read_raf"
  assumes "input_ok inp" "length r = 128" "frame_holds inp r k" "i < dim_ra_polys (in_dims inp)"
  shows "ra_row_value k (ra_phases inp) i row = Some (ra_value inp r i row)"
proof -
  have k: "rr_v_tables k = map (phase_table r) [0..<16]" "dim_address_bits (rr_dims k) = 128"
    using assms(1-3) by (simp_all add: frame_holds_def input_ok_def Let_def)
  have lt: "i * ra_phases inp + q < 16" if "q < ra_phases inp" for q
  proof -
    have "Suc i * ra_phases inp \<le> dim_ra_polys (in_dims inp) * ra_phases inp" using assms(4) by (intro mult_le_mono1) simp
    then show ?thesis using that ra_phases_count(1) [OF assms(1)] by simp
  qed
  let ?f = "\<lambda>p. eq_product (chunk_bits (rw_lookup_index row) p) (take 8 (drop (8 * p) r))"
  have "(let phase = i * ra_phases inp + q in Option.bind (nth_opt (rr_v_tables k) phase) (\<lambda>v. nth_opt v (rr_chunk k (rw_lookup_index row) phase))) =
      Some (?f (i * ra_phases inp + q))" if "q \<in> set [0..<ra_phases inp]" for q
  proof -
    have q: "i * ra_phases inp + q < 16" using that lt by simp
    then have "nth_opt (rr_v_tables k) (i * ra_phases inp + q) = Some (phase_table r (i * ra_phases inp + q))"
      by (simp add: k(1) del: upt_Suc)
    then show ?thesis using nth_phase_table [OF assms(2) q, of "rw_lookup_index row"]
      unfolding Let_def rr_chunk_def rr_suffix_len_eq [OF k(2)] by (simp only: bind.bind_lunit)
  qed
  then have "ra_row_value k (ra_phases inp) i row = Some (prod_list (map (\<lambda>q. ?f (i * ra_phases inp + q)) [0..<ra_phases inp]))"
    unfolding ra_row_value_def by (subst those_map_Some) auto
  also have "map (\<lambda>q. ?f (i * ra_phases inp + q)) [0..<ra_phases inp] = map ?f [i * ra_phases inp..<Suc i * ra_phases inp]"
    by (rule nth_equalityI) (auto simp del: upt_Suc)
  finally show ?thesis by (simp only: ra_value_def)
qed

lemma bound_table_values_holds:
  fixes k :: "'f::comm_ring_1 read_raf"
  assumes "length r = 128" "frame_holds inp r k"
  shows "bound_table_values k = Some (map (\<lambda>t. table_mle_value t r) wasm_tables)"
  unfolding bound_table_values_def
proof (rule those_map_Some)
  fix t
  have "prefix_at (rr_prefix_checkpoints k) = bound_prefixes r" using assms(2) by (simp add: frame_holds_def prefix_at_map)
  moreover have "map (\<lambda>s. from_u64 (suffix_mle s (lb_new 0 0))) (table_suffixes t) = (suffix_values t (lb_new 0 0) :: 'f list)"
    by (simp add: suffix_values_def suffix_evaluate_def)
  ultimately show "table_combine t (prefix_at (rr_prefix_checkpoints k)) (map (\<lambda>s. from_u64 (suffix_mle s (lb_new 0 0))) (table_suffixes t)) =
      Some (table_mle_value t r)"
    using combine_bound [OF assms(1), of t 0] by (simp only:)
qed

lemma combined_row_value_holds:
  fixes k :: "'f::comm_ring_1 read_raf"
  assumes "frame_holds inp r k" "row_ok row"
  shows "combined_row_value k (map (\<lambda>t. table_mle_value t r) wasm_tables) row = Some (row_value inp r row)"
proof -
  have "length wasm_tables = TABLE_COUNT" by (simp add: TABLE_COUNT_def)
  then show ?thesis using assms
    by (auto simp: combined_row_value_def row_value_def raf_value_def frame_holds_def row_ok_def CANONICAL_INSTRUCTION_ADDRESS_def
        Let_def power2_eq_square nth_opt_def split: option.splits)
qed

lemma init_cycle_rounds_holds:
  fixes k :: "'f::comm_ring_1 read_raf"
  assumes "input_ok inp" "phase_closed inp r k" "length r = 128" "rr_rounds_bound k = 127"
  shows "\<exists>k'. init_cycle_rounds k = Some k' \<and> cycle_state inp r [] (k'\<lparr>rr_rounds_bound := rr_rounds_bound k' + 1\<rparr>)"
proof -
  have frame: "frame_holds inp r k" using assms(2) by (simp add: phase_closed_def)
  let ?n = "dim_log_t (in_dims inp)"
  have ok: "length (in_rows inp) = 2 ^ ?n" "length (in_reduction inp) = ?n" "list_all row_ok (in_rows inp)" "rr_rows k = in_rows inp"
    "rr_dims k = in_dims inp" "rr_reduction k = in_reduction inp" "rr_cycle_challenges k = []"
    "rr_phases k div dim_ra_polys (in_dims inp) = ra_phases inp"
    using assms(1) frame by (simp_all add: input_ok_def Let_def frame_holds_def rr_phases_def CHUNK_LEN_def ra_phases_def)
  have vals: "those (map (combined_row_value k (map (\<lambda>t. table_mle_value t r) wasm_tables)) (rr_rows k)) =
      Some (map (row_value inp r) (in_rows inp))"
    unfolding ok(4) using ok(3) by (intro those_map_Some combined_row_value_holds [OF frame]) (simp add: list_all_iff)
  have ra_rows: "those (map (ra_row_value k (ra_phases inp) i) (rr_rows k)) = Some (map (ra_value inp r i) (in_rows inp))"
    if "i < dim_ra_polys (in_dims inp)" for i
    unfolding ok(4) by (intro those_map_Some ra_row_value_holds [OF assms(1,3) frame that])
  have rep: "\<exists>p. dp_new e = Some p \<and> represents ?n p (\<lambda>z. table_mle e (z @ rev []))" if "length e = 2 ^ ?n" for e :: "'f list"
    using represents_new [OF that, of "table_mle e"] by simp
  let ?is = "[0..<dim_ra_polys (in_dims inp)]"
  have "\<exists>ra. those (map (\<lambda>i. Option.bind (those (map (ra_row_value k (ra_phases inp) i) (rr_rows k))) dp_new) ?is) = Some ra \<and>
      list_all2 (represents ?n) ra (map (\<lambda>i z. table_mle (map (ra_value inp r i) (in_rows inp)) (z @ rev [])) ?is)"
  proof (rule those_map_rel)
    show "list_all2 (\<lambda>i h. i < dim_ra_polys (in_dims inp) \<and> h = (\<lambda>z. table_mle (map (ra_value inp r i) (in_rows inp)) (z @ rev []))) ?is
        (map (\<lambda>i z. table_mle (map (ra_value inp r i) (in_rows inp)) (z @ rev [])) ?is)"
      by (simp add: list_all2_map2 list_all2_same)
    fix i h assume i: "i < dim_ra_polys (in_dims inp) \<and> h = (\<lambda>z. table_mle (map (ra_value inp r i) (in_rows inp)) (z @ rev []))"
    then show "\<exists>p. Option.bind (those (map (ra_row_value k (ra_phases inp) i) (rr_rows k))) dp_new = Some p \<and> represents ?n p h"
      using rep [of "map (ra_value inp r i) (in_rows inp)"] ra_rows [of i] ok(1) by auto
  qed
  then obtain ra where ra: "those (map (\<lambda>i. Option.bind (those (map (ra_row_value k (ra_phases inp) i) (rr_rows k))) dp_new) ?is) = Some ra"
      "list_all2 (represents ?n) ra (map (\<lambda>i z. table_mle (map (ra_value inp r i) (in_rows inp)) (z @ rev [])) ?is)" by blast
  obtain pe where pe: "dp_new (view_eq_table (in_reduction inp)) = Some pe"
      "represents ?n pe (\<lambda>z. table_mle (view_eq_table (in_reduction inp)) (z @ rev []))"
    using rep [of "view_eq_table (in_reduction inp)"] ok(2) by (auto simp: view_eq_table_def eq_evals_eq)
  obtain pv where pv: "dp_new (map (row_value inp r) (in_rows inp)) = Some pv"
      "represents ?n pv (\<lambda>z. table_mle (map (row_value inp r) (in_rows inp)) (z @ rev []))"
    using rep [of "map (row_value inp r) (in_rows inp)"] ok(1) by auto
  let ?k = "k\<lparr>rr_cycle_tables := Some \<lparr>ct_eq_reduction = pe, ct_combined_val = pv, ct_ra = ra\<rparr>,
       rr_u_evals := [], rr_prefix_tables := [], rr_suffix_tables := [], rr_v_tables := []\<rparr>"
  have "init_cycle_rounds k = Some ?k"
    using bound_table_values_holds [OF assms(3) frame] vals ra(1) pe(1) pv(1) ok(5,6,8) by (simp add: init_cycle_rounds_def Let_def)
  moreover have "cycle_state inp r [] (?k\<lparr>rr_rounds_bound := rr_rounds_bound ?k + 1\<rparr>)"
    using ok(4,5,7) pe(2) pv(2) ra(2) assms(4) by (simp add: cycle_state_def)
  ultimately show ?thesis by blast
qed

section \<open>Binding a cycle variable\<close>

lemma bind_cycle_holds:
  fixes k :: "'f::comm_ring_1 read_raf"
  assumes "input_ok inp" "cycle_state inp r ys k" "length ys < dim_log_t (in_dims inp)"
  shows "\<exists>k'. rr_bind s k = Inr k' \<and> cycle_state inp r (ys @ [s]) k'"
proof -
  obtain n where n: "dim_log_t (in_dims inp) - length ys = Suc n" "dim_log_t (in_dims inp) - length (ys @ [s]) = n"
    using assms(3) by (cases "dim_log_t (in_dims inp) - length ys") simp_all
  let ?V = "map (row_value inp r) (in_rows inp)" and ?R = "\<lambda>i. map (ra_value inp r i) (in_rows inp)"
  let ?is = "[0..<dim_ra_polys (in_dims inp)]"
  obtain T where k: "rr_dims k = in_dims inp" "rr_rows k = in_rows inp" "rr_cycle_challenges k = ys" "rr_rounds_bound k = 128 + length ys"
      "rr_cycle_tables k = Some T" and
    T: "represents (Suc n) (ct_eq_reduction T) (\<lambda>z. table_mle (view_eq_table (in_reduction inp)) (z @ rev ys))"
      "represents (Suc n) (ct_combined_val T) (\<lambda>z. table_mle ?V (z @ rev ys))"
      "list_all2 (represents (Suc n)) (ct_ra T) (map (\<lambda>i z. table_mle (?R i) (z @ rev ys)) ?is)"
    using assms(2) unfolding cycle_state_def Let_def n by blast
  obtain pe where pe: "bind_with_order s LowToHigh (ct_eq_reduction T) = Some pe"
      "represents n pe (\<lambda>z. table_mle (view_eq_table (in_reduction inp)) (z @ rev (ys @ [s])))"
    using represents_bind(2) [OF T(1), of s] by auto
  obtain pv where pv: "bind_with_order s LowToHigh (ct_combined_val T) = Some pv"
      "represents n pv (\<lambda>z. table_mle ?V (z @ rev (ys @ [s])))"
    using represents_bind(2) [OF T(2), of s] by auto
  have "list_all2 (\<lambda>p i. represents (Suc n) p (\<lambda>z. table_mle (?R i) (z @ rev ys))) (ct_ra T) ?is"
    using T(3) by (simp add: list_all2_map2)
  then have "\<exists>ra. those (map (bind_with_order s LowToHigh) (ct_ra T)) = Some ra \<and>
      list_all2 (\<lambda>p i. represents n p (\<lambda>z. table_mle (?R i) (z @ rev (ys @ [s])))) ra ?is"
    by (rule those_map_rel) (use represents_bind(2) in fastforce)
  then obtain ra where ra: "bind_dense s LowToHigh (ct_ra T) = Some ra"
      "list_all2 (represents n) ra (map (\<lambda>i z. table_mle (?R i) (z @ rev (ys @ [s]))) ?is)"
    by (auto simp: bind_dense_def list_all2_map2)
  let ?k = "k\<lparr>rr_cycle_tables := Some \<lparr>ct_eq_reduction = pe, ct_combined_val = pv, ct_ra = ra\<rparr>,
    rr_cycle_challenges := rr_cycle_challenges k @ [s], rr_rounds_bound := rr_rounds_bound k + 1\<rparr>"
  have "dim_address_bits (in_dims inp) = 128" using assms(1) by (simp add: input_ok_def Let_def)
  then have "rr_bind s k = Inr ?k"
    by (simp add: rr_bind_def bind_cycle_def k(1,4,5) pe(1) pv(1) ra(1) ok_or_def bind_res_def)
  moreover have "cycle_state inp r (ys @ [s]) ?k"
    unfolding cycle_state_def Let_def n using k pe(2) pv(2) ra(2) by simp
  ultimately show ?thesis by blast
qed

section \<open>The rounds\<close>

text \<open>The kernel after the challenges \<open>cs\<close> are bound.\<close>

fun rr_bind_all :: "'f::comm_ring_1 list \<Rightarrow> 'f read_raf \<Rightarrow> 'f sumcheck_error + 'f read_raf" where
  "rr_bind_all [] k = Inr k"
| "rr_bind_all (c # cs) k = bind_res (rr_bind c k) (rr_bind_all cs)"

definition read_raf_state :: "'f::comm_ring_1 read_raf_input \<Rightarrow> 'f list \<Rightarrow> 'f read_raf \<Rightarrow> bool" where
  "read_raf_state inp cs k \<longleftrightarrow>
     (if length cs < 128 then address_state inp cs k else cycle_state inp (take 128 cs) (drop 128 cs) k)"

lemma rr_bind_holds:
  fixes k :: "'f::comm_ring_1 read_raf"
  assumes "input_ok inp" "read_raf_state inp cs k" "length cs < sumcheck_rounds (in_dims inp)"
  shows "\<exists>k'. rr_bind s k = Inr k' \<and> read_raf_state inp (cs @ [s]) k'"
proof -
  have total: "sumcheck_rounds (in_dims inp) = 128 + dim_log_t (in_dims inp)"
    using assms(1) by (simp add: input_ok_def Let_def sumcheck_rounds_def)
  consider "length (cs @ [s]) < 128" | "length (cs @ [s]) = 128" | "128 \<le> length cs" by fastforce
  then show ?thesis
  proof cases
    case 1
    then show ?thesis using bind_address_holds(1) [OF assms(1) _ _ 1] assms(2) by (simp add: read_raf_state_def)
  next
    case 2
    then have "address_state inp cs k" "length cs < 128" using assms(2) by (simp_all add: read_raf_state_def)
    then obtain k1 where k1: "phase_closed inp (cs @ [s]) k1" "rr_rounds_bound k1 = 127"
        "rr_bind s k = bind_res (ok_or (init_cycle_rounds k1) Sumcheck_Panicked) (\<lambda>k. Inr (k\<lparr>rr_rounds_bound := rr_rounds_bound k + 1\<rparr>))"
      using bind_address_holds(2) [OF assms(1) _ _ 2] by blast
    obtain k2 where k2: "init_cycle_rounds k1 = Some k2" "cycle_state inp (cs @ [s]) [] (k2\<lparr>rr_rounds_bound := rr_rounds_bound k2 + 1\<rparr>)"
      using init_cycle_rounds_holds [OF assms(1) k1(1) 2 k1(2)] by blast
    then have "rr_bind s k = Inr (k2\<lparr>rr_rounds_bound := rr_rounds_bound k2 + 1\<rparr>)" by (simp add: k1(3) ok_or_def bind_res_def)
    moreover have "take 128 (cs @ [s]) = cs @ [s]" "drop 128 (cs @ [s]) = []" using 2 by simp_all
    ultimately show ?thesis using k2(2) 2 by (simp add: read_raf_state_def)
  next
    case 3
    then show ?thesis using bind_cycle_holds [OF assms(1), of "take 128 cs" "drop 128 cs" k s] assms(2,3) total
      by (simp add: read_raf_state_def)
  qed
qed

lemma rr_bind_all_holds:
  fixes k :: "'f::comm_ring_1 read_raf"
  assumes "input_ok inp" "read_raf_state inp cs k" "length cs + length ds \<le> sumcheck_rounds (in_dims inp)"
  shows "\<exists>k'. rr_bind_all ds k = Inr k' \<and> read_raf_state inp (cs @ ds) k'"
  using assms(2,3)
proof (induction ds arbitrary: cs k)
  case (Cons s ds)
  obtain k1 where k1: "rr_bind s k = Inr k1" "read_raf_state inp (cs @ [s]) k1"
    using rr_bind_holds [OF assms(1) Cons.prems(1), of s] Cons.prems(2) by auto
  then show ?case using Cons.IH [OF k1(2)] Cons.prems(2) by (simp add: bind_res_def)
qed simp

end
