(* ===== verification/Read_Raf_Sum.thy ===== *)
theory Read_Raf_Sum
  imports Read_Raf_Cycle
begin

text \<open>
  The sums of the read and RAF relation: sums over the boolean points of a number of variables, the
  collapse of a sum against an equality, and the value a row contributes to an address round.
\<close>

section \<open>Sums over boolean points\<close>

lemma grid_sum_append: "grid_sum H (m + n) g = grid_sum H m (\<lambda>xs. grid_sum H n (\<lambda>ys. g (xs @ ys)))"
  by (induction m arbitrary: g) simp_all

lemma grid_sum_cong: "(\<And>xs. length xs = n \<Longrightarrow> set xs \<subseteq> set H \<Longrightarrow> f xs = g xs) \<Longrightarrow> grid_sum H n f = grid_sum H n g"
proof (induction n arbitrary: f g)
  case (Suc n)
  have "grid_sum H n (\<lambda>xs. f (x # xs)) = grid_sum H n (\<lambda>xs. g (x # xs))" if "x \<in> set H" for x
    using Suc.prems that by (intro Suc.IH) simp
  then show ?case by (simp cong: map_cong)
qed simp

lemma grid_sum_linear:
  "grid_sum H n (\<lambda>xs. f xs + g xs) = grid_sum H n f + grid_sum H n g"
  "grid_sum H n (\<lambda>xs. c * f xs) = c * grid_sum H n f"
  by (induction n arbitrary: f g) (simp_all add: sum_list_addf sum_list_const_mult)

lemma grid_sum_zero [simp]: "grid_sum H n (\<lambda>_. 0) = 0"
  by (induction n) simp_all

lemma grid_sum_list: "grid_sum H n (\<lambda>xs. \<Sum>j\<leftarrow>js. f j xs) = (\<Sum>j\<leftarrow>js. grid_sum H n (f j))"
  by (induction js) (simp_all add: grid_sum_linear)

lemma grid_sum_snoc: "grid_sum H (Suc n) g = (\<Sum>x\<leftarrow>H. grid_sum H n (\<lambda>xs. g (xs @ [x])))"
  using grid_sum_append [of H n 1 g] by (simp add: grid_sum_list)

lemma grid_sum_rev: "grid_sum H n (\<lambda>xs. g (rev xs)) = grid_sum H n g"
proof (induction n arbitrary: g)
  case (Suc n)
  have "grid_sum H (Suc n) (\<lambda>xs. g (rev xs)) = (\<Sum>x\<leftarrow>H. grid_sum H n (\<lambda>xs. g (rev xs @ [x])))" by simp
  also have "\<dots> = (\<Sum>x\<leftarrow>H. grid_sum H n (\<lambda>xs. g (xs @ [x])))"
    using Suc [of "\<lambda>xs. g (xs @ [x])" for x] by simp
  finally show ?case by (simp only: grid_sum_snoc)
qed simp

lemma grid_sum_bits: "grid_sum [0, 1] n f = (\<Sum>v\<leftarrow>[0..<2 ^ n]. f (bool_point (msb_bits n v)))"
proof (induction n arbitrary: f)
  case (Suc n)
  have split: "[0..<2 ^ Suc n] = [0..<2 ^ n] @ map (\<lambda>v. 2 ^ n + v) [0..<2 ^ n]"
    using upt_add_eq_append [of 0 "2 ^ n" "2 ^ n"] map_add_upt [of "2 ^ n" "2 ^ n"] by (simp add: mult_2 add.commute)
  have "(\<Sum>v\<leftarrow>[0..<2 ^ n]. f (bool_point (msb_bits (Suc n) v))) = (\<Sum>v\<leftarrow>[0..<2 ^ n]. f (0 # bool_point (msb_bits n v)))"
    by (intro arg_cong [where f = sum_list] map_cong) simp_all
  moreover have "(\<Sum>v\<leftarrow>[0..<2 ^ n]. f (bool_point (msb_bits (Suc n) (2 ^ n + v)))) = (\<Sum>v\<leftarrow>[0..<2 ^ n]. f (1 # bool_point (msb_bits n v)))"
  proof (intro arg_cong [where f = sum_list] map_cong refl)
    fix v :: nat assume "v \<in> set [0..<2 ^ n]"
    then have "(2 ^ n + v) div 2 ^ n = 1" by (simp add: div_add_self1)
    then show "f (bool_point (msb_bits (Suc n) (2 ^ n + v))) = f (1 # bool_point (msb_bits n v))" by simp
  qed
  ultimately show ?case unfolding split using Suc by (simp add: o_def del: msb_bits.simps)
qed simp

text \<open>A sum against an equality with a boolean point is the value there.\<close>

lemma grid_sum_select: "grid_sum [0, 1] (length bs) (\<lambda>w. eq_product (bool_point bs) w * f w) = f (bool_point bs)"
proof (induction bs arbitrary: f)
  case (Cons b bs)
  have "grid_sum [0, 1] (length bs) (\<lambda>w. of_bool c * eq_product (bool_point bs) w * f (x # w)) = of_bool c * f (x # bool_point bs)" for c x
    using Cons [of "\<lambda>w. f (x # w)"] grid_sum_linear(2) [of "[0, 1]" "length bs" "of_bool c"] by (simp add: mult.assoc)
  from this [of "\<not> b" 0] this [of b 1] show ?case by (cases b) (simp_all add: mult.assoc)
qed simp

section \<open>The value of a row\<close>

lemma sum_list_if_filter: "(\<Sum>x\<leftarrow>filter P xs. f x) = (\<Sum>x\<leftarrow>xs. if P x then f x else 0 :: 'a::comm_monoid_add)"
  by (induction xs) simp_all

lemma sum_list_swap: "(\<Sum>x\<leftarrow>xs. \<Sum>y\<leftarrow>ys. f x y) = (\<Sum>y\<leftarrow>ys. \<Sum>x\<leftarrow>xs. f x y :: 'a::comm_monoid_add)"
  by (induction xs) (simp_all add: sum_list_addf)

lemma nth_table_index: "wasm_tables ! table_index t = t"
  by (cases t) (simp_all add: table_index_def wasm_tables_def)

lemma table_index_nth: "i < TABLE_COUNT \<Longrightarrow> table_index (wasm_tables ! i) = i"
proof -
  assume i: "i < TABLE_COUNT"
  have "distinct wasm_tables" by (simp add: wasm_tables_def)
  then show ?thesis using nth_table_index [of "wasm_tables ! i"] table_index_less [of "wasm_tables ! i"] i
    by (simp add: TABLE_COUNT_def nth_eq_iff_index_eq)
qed

text \<open>The sum over the present tables and their buckets is a sum over the cycles.\<close>

lemma sum_buckets:
  fixes F :: "wasm_table \<Rightarrow> nat \<Rightarrow> 'f::comm_ring_1"
  assumes "input_ok inp"
  shows "(\<Sum>t\<leftarrow>filter (\<lambda>t. in_buckets inp ! table_index t \<noteq> []) wasm_tables. \<Sum>j\<leftarrow>in_buckets inp ! table_index t. F t j) =
    (\<Sum>j\<leftarrow>in_cycles inp. case rw_table_index (in_rows inp ! j) of None \<Rightarrow> 0 | Some i \<Rightarrow> F (wasm_tables ! i) j)"
proof -
  let ?i = "\<lambda>j. rw_table_index (in_rows inp ! j)"
  have "(\<Sum>t\<leftarrow>filter (\<lambda>t. in_buckets inp ! table_index t \<noteq> []) wasm_tables. \<Sum>j\<leftarrow>in_buckets inp ! table_index t. F t j) =
      (\<Sum>t\<leftarrow>wasm_tables. \<Sum>j\<leftarrow>in_buckets inp ! table_index t. F t j)"
    unfolding sum_list_if_filter by (intro arg_cong [where f = sum_list] map_cong) auto
  also have "\<dots> = (\<Sum>t\<leftarrow>wasm_tables. \<Sum>j\<leftarrow>in_cycles inp. if ?i j = Some (table_index t) then F t j else 0)"
    by (simp add: nth_in_buckets table_index_less sum_list_if_filter)
  also have "\<dots> = (\<Sum>j\<leftarrow>in_cycles inp. \<Sum>t\<leftarrow>wasm_tables. if ?i j = Some (table_index t) then F t j else 0)"
    by (rule sum_list_swap)
  also have "\<dots> = (\<Sum>j\<leftarrow>in_cycles inp. case ?i j of None \<Rightarrow> 0 | Some i \<Rightarrow> F (wasm_tables ! i) j)"
  proof (intro arg_cong [where f = sum_list] map_cong refl)
    fix j assume j: "j \<in> set (in_cycles inp)"
    show "(\<Sum>t\<leftarrow>wasm_tables. if ?i j = Some (table_index t) then F t j else 0) = (case ?i j of None \<Rightarrow> 0 | Some i \<Rightarrow> F (wasm_tables ! i) j)"
    proof (cases "?i j")
      case (Some i)
      then have "i < TABLE_COUNT" using j assms by (auto simp: input_ok_def Let_def list_all_length row_ok_def)
      then have at: "table_index (wasm_tables ! i) = i" by (rule table_index_nth)
      have "(\<Sum>t\<leftarrow>wasm_tables. if i = table_index t then F t j else 0) = (\<Sum>t\<leftarrow>wasm_tables. if t = wasm_tables ! i then F t j else 0)"
        using at nth_table_index by (intro arg_cong [where f = sum_list] map_cong refl) auto
      also have "\<dots> = F (wasm_tables ! i) j"
        by (cases "wasm_tables ! i") (simp_all add: wasm_tables_def)
      finally show ?thesis using Some by simp
    qed simp
  qed
  finally show ?thesis .
qed

text \<open>The operands and the address of a row, its low bits outside the variables bound so far.\<close>

lemma low_operand_value:
  assumes "phase < 16"
  shows "from_u64 (low_operand side phase (interleave_bits x y)) = of_nat (unat (side_operand side x y) mod 2 ^ (60 - 4 * phase))"
proof -
  let ?m = "60 - 4 * phase"
  have m: "120 - 8 * phase = 2 * ?m" "?m \<le> 64" using assms by simp_all
  show ?thesis unfolding low_operand_def m(1) chunk_operands [OF m(2)] prod.case
    by (cases side) (simp_all add: lb_u64_new [OF m(2)] from_u64_take side_operand_def)
qed

lemma operand_run_row:
  assumes "phase < 16" "even (length a)"
  shows "operand_run side 0 a * 2 ^ (60 - 4 * phase) + from_u64 (low_operand side phase v) =
    operand_run side 0 (a @ chunk_point (60 - 4 * phase) v)"
proof -
  obtain x y where v: "v = interleave_bits x y" using operands_of_index by blast
  show ?thesis unfolding v low_operand_value [OF assms(1)] operand_run_append [OF assms(2)]
    by (subst operand_run_bits) (use assms(1) in simp_all)
qed

lemma address_run_row:
  assumes "phase < 16"
  shows "address_run 0 a * 2 ^ (2 * (60 - 4 * phase)) + from_u128 (v AND suffix_mask (120 - 8 * phase)) =
    address_run 0 (a @ chunk_point (60 - 4 * phase) v)"
proof -
  let ?m = "60 - 4 * phase"
  have m: "120 - 8 * phase = 2 * ?m" using assms by simp
  have "suffix_mask (2 * ?m) = mask (2 * ?m)" by (simp add: suffix_mask_def mask_eq_exp_minus_1)
  then have "v AND suffix_mask (2 * ?m) = take_bit (2 * ?m) v" by (simp only: take_bit_eq_mask)
  then show ?thesis unfolding m address_run_append chunk_point_def address_run_bits
    by (simp only: from_u128_def unat_take_bit_mod)
qed

lemma suffix_eval_row:
  fixes a :: "'f::comm_ring_1 list"
  assumes "phase < 16" "length a = 8 * phase + 8" "shift_operand t (snd (uninterleave_bits v))"
  shows "table_combine t (bound_prefixes a) (map (\<lambda>s. suffix_evaluate s (lb_new v (120 - 8 * phase))) (table_suffixes t)) =
    Some (table_mle_value t (a @ chunk_point (60 - 4 * phase) v))"
proof -
  let ?m = "60 - 4 * phase"
  have m: "length a = 2 * (4 * phase + 4)" "4 * phase + 4 + ?m = 64" "120 - 8 * phase = 2 * ?m" using assms(1,2) by simp_all
  have z: "?m = 0 \<or> 3 \<le> ?m" by presburger
  have "(suffix_values t (lb_new v (2 * ?m)) :: 'f list) = map (\<lambda>s. suffix_evaluate s (lb_new v (2 * ?m))) (table_suffixes t)" by (simp add: suffix_values_def)
  then show ?thesis unfolding m(3)
    using combine_prefix_suffix [OF m(1) _ m(2) z assms(3), of "fst (uninterleave_bits v)"] operands_of_index [of v] by simp
qed

end
