(* ===== verification/Read_Raf_Message.thy ===== *)
theory Read_Raf_Message
  imports Read_Raf_Sum
begin

text \<open>
  The messages of the read and RAF kernel are the rounds of one polynomial: the relation's summand,
  summed over the boolean values of the variables after the current one.
\<close>

section \<open>The polynomial of the relation\<close>

text \<open>Over the address variables, then the cycle variables from the least significant.\<close>

definition read_raf_poly :: "'f::comm_ring_1 read_raf_input \<Rightarrow> 'f list \<Rightarrow> 'f" where
  "read_raf_poly inp cs =
     (let r = take 128 cs; z = rev (drop 128 cs) in
      table_mle (view_eq_table (in_reduction inp)) z * table_mle (map (row_value inp r) (in_rows inp)) z *
      (\<Prod>i\<leftarrow>[0..<dim_ra_polys (in_dims inp)]. table_mle (map (ra_value inp r i) (in_rows inp)) z))"

definition read_raf_round :: "'f::field read_raf_input \<Rightarrow> 'f list \<Rightarrow> 'f \<Rightarrow> 'f" where
  "read_raf_round inp cs c =
     grid_sum [0, 1] (sumcheck_rounds (in_dims inp) - length cs - 1) (\<lambda>xs. read_raf_poly inp (cs @ c # xs))"

section \<open>The cycle rounds\<close>

lemma represents_round:
  assumes "represents (Suc n) p h" "y < 2 ^ n"
  shows "sumcheck_round_eval_with_order p y t LowToHigh = Some (h (bool_point (msb_bits n y) @ [t]))"
proof -
  have ok: "dp_ok p" "dp_num_vars p = Suc n" using assms(1) by (simp_all add: represents_def dp_ok_def)
  obtain p' where p': "bind_with_order t LowToHigh p = Some p'" "represents n p' (\<lambda>r. h (r @ [t]))"
    using represents_bind(2) [OF assms(1)] by blast
  then show ?thesis using round_eval_bound [OF ok, of y t LowToHigh] represents_nth [OF p'(2) assms(2)] assms(2)
    by (simp add: represents_def)
qed

lemma cycle_message_holds:
  fixes k :: "'f::field read_raf"
  assumes "input_ok inp" "cycle_state inp r ys k" "length ys < dim_log_t (in_dims inp)" "length r = 128"
  shows "cycle_message k = Inr (map (\<lambda>c. read_raf_round inp (r @ ys) (of_nat c)) [0..<dim_ra_polys (in_dims inp) + 3])"
proof -
  obtain n where n: "dim_log_t (in_dims inp) - length ys = Suc n" "sumcheck_rounds (in_dims inp) - length (r @ ys) - 1 = n"
    using assms(1,3,4) by (cases "dim_log_t (in_dims inp) - length ys") (auto simp: input_ok_def Let_def sumcheck_rounds_def)
  let ?E = "view_eq_table (in_reduction inp)" and ?V = "map (row_value inp r) (in_rows inp)"
  let ?R = "\<lambda>i. map (ra_value inp r i) (in_rows inp)" and ?is = "[0..<dim_ra_polys (in_dims inp)]"
  obtain T where k: "rr_dims k = in_dims inp" "rr_cycle_tables k = Some T" and
    T: "represents (Suc n) (ct_eq_reduction T) (\<lambda>z. table_mle ?E (z @ rev ys))"
      "represents (Suc n) (ct_combined_val T) (\<lambda>z. table_mle ?V (z @ rev ys))"
      "list_all2 (\<lambda>p i. represents (Suc n) p (\<lambda>z. table_mle (?R i) (z @ rev ys))) (ct_ra T) ?is"
    using assms(2) unfolding cycle_state_def Let_def n list_all2_map2 by blast
  have half: "length (dp_evals (ct_eq_reduction T)) div 2 = 2 ^ n" using T(1) by (simp add: represents_def)
  have prod: "cycle_product T c y = Some (read_raf_poly inp (r @ ys @ of_nat c # rev (bool_point (msb_bits n y))))" if "y < 2 ^ n" for c y
  proof -
    let ?z = "bool_point (msb_bits n y) @ of_nat c # rev ys"
    have "those (map (\<lambda>p. sumcheck_round_eval_with_order p y (of_nat c) LowToHigh) (ct_ra T)) = Some (map (\<lambda>i. table_mle (?R i) ?z) ?is)"
      using T(3)
    proof (induction rule: list_all2_induct)
      case (Cons p ps i js)
      then show ?case using represents_round [OF Cons(1) that, of "of_nat c"] by simp
    qed simp
    then show ?thesis using represents_round [OF T(1) that, of "of_nat c"] represents_round [OF T(2) that, of "of_nat c"] assms(4)
      by (simp add: cycle_product_def read_raf_poly_def Let_def mult.assoc)
  qed
  have "map_option sum_list (those (map (cycle_product T c) [0..<2 ^ n])) = Some (read_raf_round inp (r @ ys) (of_nat c))" for c
  proof -
    have "those (map (cycle_product T c) [0..<2 ^ n]) =
        Some (map (\<lambda>y. read_raf_poly inp (r @ ys @ of_nat c # rev (bool_point (msb_bits n y)))) [0..<2 ^ n])"
      by (rule those_map_Some) (simp add: prod)
    moreover have "read_raf_round inp (r @ ys) (of_nat c) = grid_sum [0, 1] n (\<lambda>xs. read_raf_poly inp (r @ ys @ of_nat c # xs))"
      unfolding read_raf_round_def n(2) by simp
    ultimately show ?thesis
      using grid_sum_bits [of n "\<lambda>xs. read_raf_poly inp (r @ ys @ of_nat c # rev xs)"]
        grid_sum_rev [of "[0, 1]" n "\<lambda>xs. read_raf_poly inp (r @ ys @ of_nat c # xs)"]
      by (simp del: upt_Suc)
  qed
  then have "those (map (\<lambda>c. map_option sum_list (those (map (cycle_product T c) [0..<2 ^ n]))) [0..<Suc (dim_ra_polys (in_dims inp) + 2)]) =
      Some (map (\<lambda>c. read_raf_round inp (r @ ys) (of_nat c)) [0..<Suc (dim_ra_polys (in_dims inp) + 2)])"
    by (intro those_map_Some)
  moreover have "Suc (dim_ra_polys (in_dims inp) + 2) = dim_ra_polys (in_dims inp) + 3" by simp
  ultimately show ?thesis unfolding cycle_message_def k(2) option.case Let_def half k(1) by (simp only: ok_or_def option.case)
qed

section \<open>The address rounds\<close>

lemma represents_extensions:
  assumes "list_all2 (represents (Suc n)) ps (map F xs)" "b < 2 ^ n" "c < 3"
  shows "map (\<lambda>p. extension_eval (dp_evals p) b (2 ^ n) c) ps = map (\<lambda>x. F x (of_nat c # bool_point (msb_bits n b))) xs"
  using assms(1) unfolding list_all2_map2
proof (induction rule: list_all2_induct)
  case (Cons p ps x xs)
  then show ?case using represents_extension [OF _ assms(2,3)] by simp
qed simp

text \<open>The variables of the phase up to the end, the current one at \<open>c\<close>, the later ones at the bits of \<open>b\<close>.\<close>

abbreviation phase_point :: "'f::comm_ring_1 list \<Rightarrow> nat \<Rightarrow> nat \<Rightarrow> nat \<Rightarrow> 'f list" where
  "phase_point a n c b \<equiv> a @ of_nat c # bool_point (msb_bits n b)"

lemma address_read_holds:
  fixes k :: "'f::comm_ring_1 read_raf"
  assumes "input_ok inp" "tables_hold inp phase cs ds k" "length cs = 8 * phase" "phase < 16" "8 - length ds = Suc n" "b < 2 ^ n" "c < 3"
  defines "q \<equiv> phase_point (cs @ ds) n c b"
  shows "address_read k (2 ^ n) c b = Some (\<Sum>j\<leftarrow>in_cycles inp. u_weight inp q j *
    (case rw_table_index (in_rows inp ! j) of None \<Rightarrow> 0
     | Some i \<Rightarrow> table_mle_value (wasm_tables ! i) (q @ chunk_point (60 - 4 * phase) (in_index inp j))))"
proof -
  let ?a = "cs @ ds" and ?ts = "filter (\<lambda>t. in_buckets inp ! table_index t \<noteq> []) wasm_tables"
  note t = assms(2) [unfolded tables_hold_def Let_def assms(5)]
  have q: "length q = 8 * phase + 8" using assms(3,5) by (simp add: q_def)
  have "map (\<lambda>p. extension_eval (dp_evals p) b (2 ^ n) c) (rr_prefix_tables k) = map (bound_prefixes q) ALL_PREFIXES"
    using represents_extensions [of n "rr_prefix_tables k" "\<lambda>p r. bound_prefixes (?a @ r) p" ALL_PREFIXES b c] t assms(6,7)
    by (simp add: q_def)
  then have pre: "prefix_at (map (\<lambda>p. extension_eval (dp_evals p) b (2 ^ n) c) (rr_prefix_tables k)) = bound_prefixes q"
    by (simp only: prefix_at_map)
  define W where "W u = (\<Sum>j\<leftarrow>in_buckets inp ! table_index u. u_weight inp q j * table_mle_value u (q @ chunk_point (60 - 4 * phase) (in_index inp j)))" for u
  have combine: "table_combine u (bound_prefixes q) (map (\<lambda>s. suffix_fun inp phase u s q) (table_suffixes u)) = Some (W u)" for u
    unfolding suffix_fun_def W_def
  proof (rule combine_sum)
    fix j assume j: "j \<in> set (in_buckets inp ! table_index u)"
    then have "j < length (in_rows inp)" "rw_table_index (in_rows inp ! j) = Some (table_index u)"
      by (simp_all add: nth_in_buckets table_index_less)
    then have "shift_operand u (snd (uninterleave_bits (in_index inp j)))"
      using assms(1) by (auto simp: input_ok_def Let_def list_all_length row_ok_def nth_table_index)
    then show "table_combine u (bound_prefixes q) (map (\<lambda>s. suffix_evaluate s (lb_new (in_index inp j) (120 - 8 * phase))) (table_suffixes u)) =
        Some (table_mle_value u (q @ chunk_point (60 - 4 * phase) (in_index inp j)))"
      by (rule suffix_eval_row [OF assms(4) q])
  qed
  have "those (map (\<lambda>(u, qs). table_combine u (bound_prefixes q) (map (\<lambda>p. extension_eval (dp_evals p) b (2 ^ n) c) qs)) (rr_suffix_tables k)) =
      Some (map W ?ts)"
    using t [unfolded suffix_tables_hold_def, THEN conjunct2, THEN conjunct1]
  proof (induction rule: list_all2_induct)
    case (Cons tq ts u us)
    then obtain qs where tq: "tq = (u, qs)" "list_all2 (represents (Suc n)) qs (map (\<lambda>s r. suffix_fun inp phase u s (?a @ r)) (table_suffixes u))"
      by (cases tq) auto
    then have "map (\<lambda>p. extension_eval (dp_evals p) b (2 ^ n) c) qs = map (\<lambda>s. suffix_fun inp phase u s q) (table_suffixes u)"
      using represents_extensions [of n qs "\<lambda>s r. suffix_fun inp phase u s (?a @ r)" "table_suffixes u" b c] assms(6,7) by (simp add: q_def)
    then show ?case using Cons.IH combine [of u] by (simp add: tq(1))
  qed simp
  then have "address_read k (2 ^ n) c b = Some (\<Sum>u\<leftarrow>?ts. W u)"
    by (simp add: address_read_def Let_def pre)
  also have "(\<Sum>u\<leftarrow>?ts. W u) = (\<Sum>j\<leftarrow>in_cycles inp. case rw_table_index (in_rows inp ! j) of None \<Rightarrow> 0
      | Some i \<Rightarrow> u_weight inp q j * table_mle_value (wasm_tables ! i) (q @ chunk_point (60 - 4 * phase) (in_index inp j)))"
    unfolding W_def by (rule sum_buckets [OF assms(1)])
  also have "\<dots> = (\<Sum>j\<leftarrow>in_cycles inp. u_weight inp q j *
    (case rw_table_index (in_rows inp ! j) of None \<Rightarrow> 0
     | Some i \<Rightarrow> table_mle_value (wasm_tables ! i) (q @ chunk_point (60 - 4 * phase) (in_index inp j))))"
    by (intro arg_cong [where f = sum_list] map_cong refl) (simp split: option.split)
  finally show ?thesis .
qed

lemma raf_message_row:
  fixes d :: "'f::comm_ring_1 raf_decomposition"
  assumes "raf_represents (Suc n) d (\<lambda>r. P (a @ r)) (\<lambda>r. S (a @ r)) (\<lambda>r. V (a @ r))" "b < 2 ^ n" "c < 3"
  shows "raf_message_eval d b (2 ^ n) c = P (phase_point a n c b) * S (phase_point a n c b) + V (phase_point a n c b)"
  using represents_extension [of n "raf_prefix d" "\<lambda>r. P (a @ r)" b c] represents_extension [of n "raf_q_shift d" "\<lambda>r. S (a @ r)" b c]
    represents_extension [of n "raf_q_value d" "\<lambda>r. V (a @ r)" b c] assms
  by (simp add: raf_message_eval_def raf_represents_def)

text \<open>The RAF values of the rows at a point of the phase.\<close>

lemma raf_rows:
  fixes q :: "'f::comm_ring_1 list"
  assumes "phase < 16" "even (length q)"
  shows "operand_run side 0 q * shift_fun inp False (60 - 4 * phase) q + operand_fun inp side phase q =
      (\<Sum>j\<leftarrow>in_cycles inp. u_weight inp q j * (if rw_raf_flag (in_rows inp ! j) then 0
         else operand_run side 0 (q @ chunk_point (60 - 4 * phase) (in_index inp j))))"
    "address_run 0 q * shift_fun inp True (2 * (60 - 4 * phase)) q + identity_fun inp phase q =
      (\<Sum>j\<leftarrow>in_cycles inp. u_weight inp q j * (if rw_raf_flag (in_rows inp ! j)
         then address_run 0 (q @ chunk_point (60 - 4 * phase) (in_index inp j)) else 0))"
  unfolding shift_fun_def operand_fun_def identity_fun_def operand_run_row [OF assms, symmetric] address_run_row [OF assms(1), symmetric]
  by (simp_all add: sum_list_const_mult [symmetric] sum_list_addf [symmetric])
    (intro arg_cong [where f = sum_list] map_cong refl; simp add: algebra_simps)+

lemma address_point_holds:
  fixes k :: "'f::comm_ring_1 read_raf"
  assumes "input_ok inp" "tables_hold inp phase cs ds k" "frame_holds inp cs k" "length cs = 8 * phase" "phase < 16"
    "8 - length ds = Suc n" "c < 3"
  defines "q \<equiv> phase_point (cs @ ds) n c" and "rest \<equiv> \<lambda>j. chunk_point (60 - 4 * phase) (in_index inp j)"
  shows "map_option (\<lambda>reads. sum_list reads + address_raf k (2 ^ n) c) (those (map (address_read k (2 ^ n) c) [0..<2 ^ n])) =
    Some (\<Sum>b\<leftarrow>[0..<2 ^ n]. \<Sum>j\<leftarrow>in_cycles inp. u_weight inp (q b) j * row_value inp (q b @ rest j) (in_rows inp ! j))"
proof -
  let ?row = "\<lambda>j. in_rows inp ! j" and ?g = "in_gamma inp"
  let ?T = "\<lambda>b j. case rw_table_index (?row j) of None \<Rightarrow> 0 | Some i \<Rightarrow> table_mle_value (wasm_tables ! i) (q b @ rest j)"
  let ?O = "\<lambda>side b j. if rw_raf_flag (?row j) then 0 else operand_run side 0 (q b @ rest j)"
  let ?A = "\<lambda>b j. if rw_raf_flag (?row j) then address_run 0 (q b @ rest j) else 0"
  have "length (q b) = 8 * phase + 8" for b using assms(4,6) by (simp add: q_def)
  then have even: "even (length (q b))" for b by simp
  have reads: "those (map (address_read k (2 ^ n) c) [0..<2 ^ n]) = Some (map (\<lambda>b. \<Sum>j\<leftarrow>in_cycles inp. u_weight inp (q b) j * ?T b j) [0..<2 ^ n])"
    unfolding q_def rest_def using address_read_holds [OF assms(1,2,4,5,6) _ assms(7)] by (intro those_map_Some) simp
  note t = assms(2) [unfolded tables_hold_def Let_def assms(6)]
  have "raf_message_eval (rr_left k) b (2 ^ n) c = (\<Sum>j\<leftarrow>in_cycles inp. u_weight inp (q b) j * ?O Left_Operand b j)" if "b < 2 ^ n" for b
    unfolding rest_def raf_rows(1) [OF assms(5) even [of b], symmetric] unfolding q_def
    by (rule raf_message_row [where a = "cs @ ds" and P = "operand_run Left_Operand 0" and S = "shift_fun inp False (60 - 4 * phase)" and V = "operand_fun inp Left_Operand phase"]) (use t that assms(7) in simp_all)
  then have left: "raf_round_eval (rr_left k) (2 ^ n) c = (\<Sum>b\<leftarrow>[0..<2 ^ n]. \<Sum>j\<leftarrow>in_cycles inp. u_weight inp (q b) j * ?O Left_Operand b j)"
    unfolding raf_round_eval_def by (intro arg_cong [where f = sum_list] map_cong) simp_all
  have "raf_message_eval (rr_right k) b (2 ^ n) c = (\<Sum>j\<leftarrow>in_cycles inp. u_weight inp (q b) j * ?O Right_Operand b j)" if "b < 2 ^ n" for b
    unfolding rest_def raf_rows(1) [OF assms(5) even [of b], symmetric] unfolding q_def
    by (rule raf_message_row [where a = "cs @ ds" and P = "operand_run Right_Operand 0" and S = "shift_fun inp False (60 - 4 * phase)" and V = "operand_fun inp Right_Operand phase"]) (use t that assms(7) in simp_all)
  then have right: "raf_round_eval (rr_right k) (2 ^ n) c = (\<Sum>b\<leftarrow>[0..<2 ^ n]. \<Sum>j\<leftarrow>in_cycles inp. u_weight inp (q b) j * ?O Right_Operand b j)"
    unfolding raf_round_eval_def by (intro arg_cong [where f = sum_list] map_cong) simp_all
  have "raf_message_eval (rr_identity k) b (2 ^ n) c = (\<Sum>j\<leftarrow>in_cycles inp. u_weight inp (q b) j * ?A b j)" if "b < 2 ^ n" for b
    unfolding rest_def raf_rows(2) [OF assms(5) even [of b], symmetric] unfolding q_def
    by (rule raf_message_row [where a = "cs @ ds" and P = "address_run 0" and S = "shift_fun inp True (2 * (60 - 4 * phase))" and V = "identity_fun inp phase"]) (use t that assms(7) in simp_all)
  then have identity: "raf_round_eval (rr_identity k) (2 ^ n) c = (\<Sum>b\<leftarrow>[0..<2 ^ n]. \<Sum>j\<leftarrow>in_cycles inp. u_weight inp (q b) j * ?A b j)"
    unfolding raf_round_eval_def by (intro arg_cong [where f = sum_list] map_cong) simp_all
  have gamma: "rr_gamma k = ?g" using assms(3) by (simp add: frame_holds_def)
  have "(\<Sum>b\<leftarrow>bs. \<Sum>j\<leftarrow>js. w b j * T b j) + (g * (\<Sum>b\<leftarrow>bs. \<Sum>j\<leftarrow>js. w b j * L b j) +
      g * g * ((\<Sum>b\<leftarrow>bs. \<Sum>j\<leftarrow>js. w b j * R b j) + (\<Sum>b\<leftarrow>bs. \<Sum>j\<leftarrow>js. w b j * A b j))) =
      (\<Sum>b\<leftarrow>bs. \<Sum>j\<leftarrow>js. w b j * (T b j + (g * L b j + g * g * (R b j + A b j))))"
    for bs js :: "nat list" and w T L R A :: "nat \<Rightarrow> nat \<Rightarrow> 'f" and g :: 'f
    by (simp add: distrib_left sum_list_addf sum_list_const_mult [symmetric] mult.left_commute mult.assoc)
  then have "(\<Sum>b\<leftarrow>[0..<2 ^ n]. \<Sum>j\<leftarrow>in_cycles inp. u_weight inp (q b) j * ?T b j) + address_raf k (2 ^ n) c =
      (\<Sum>b\<leftarrow>[0..<2 ^ n]. \<Sum>j\<leftarrow>in_cycles inp. u_weight inp (q b) j *
         (?T b j + (?g * ?O Left_Operand b j + ?g * ?g * (?O Right_Operand b j + ?A b j))))"
    unfolding address_raf_def Let_def left right identity gamma CANONICAL_INSTRUCTION_ADDRESS_def if_False add_0_right by (simp only:)
  also have "\<dots> = (\<Sum>b\<leftarrow>[0..<2 ^ n]. \<Sum>j\<leftarrow>in_cycles inp. u_weight inp (q b) j * row_value inp (q b @ rest j) (?row j))"
    by (intro arg_cong [where f = sum_list] map_cong refl) (simp add: row_value_def raf_value_def power2_eq_square)
  finally show ?thesis by (simp only: reads option.map)
qed

section \<open>The sum over the later variables\<close>

lemma prod_groups:
  fixes f :: "nat \<Rightarrow> 'f::comm_ring_1"
  shows "(\<Prod>i\<leftarrow>[0..<m]. \<Prod>p\<leftarrow>[i * d..<Suc i * d]. f p) = (\<Prod>p\<leftarrow>[0..<m * d]. f p)"
proof (induction m)
  case (Suc m)
  have "[0..<Suc m * d] = [0..<m * d] @ [m * d..<Suc m * d]" using upt_add_eq_append [of 0 "m * d" d] by (simp add: add.commute)
  then show ?case using Suc by simp
qed simp

lemma prod_chunks:
  assumes "m \<le> 16" "length r = 128"
  shows "(\<Prod>p\<leftarrow>[0..<m]. eq_product (chunk_bits v p) (take 8 (drop (8 * p) r))) = eq_product (take (8 * m) (index_point v)) (take (8 * m) r)"
  using assms(1)
proof (induction m)
  case (Suc m)
  have e: "8 * Suc m = 8 * m + 8" by simp
  have "take (8 * Suc m) r = take (8 * m) r @ take 8 (drop (8 * m) r)" unfolding e take_add ..
  moreover have "take (8 * Suc m) (index_point v) = take (8 * m) (index_point v) @ (chunk_bits v m :: 'a list)"
    using take_index_point [of m v] Suc.prems by (simp add: add.commute)
  ultimately show ?case using Suc assms(2) by (simp add: eq_product_append del: mult_Suc_right)
qed simp

lemma ra_product:
  assumes "input_ok inp" "length r = 128"
  shows "(\<Prod>i\<leftarrow>[0..<dim_ra_polys (in_dims inp)]. ra_value inp r i row) = eq_product (index_point (rw_lookup_index row)) r"
  using prod_chunks [of 16 r "rw_lookup_index row"] assms(2) ra_phases_count(1) [OF assms(1)]
  unfolding ra_value_def prod_groups by simp

lemma cycle_grid:
  fixes inp :: "'f::field read_raf_input"
  assumes "input_ok inp" "length r = 128"
  shows "grid_sum [0, 1] (dim_log_t (in_dims inp)) (\<lambda>z. read_raf_poly inp (r @ z)) =
    (\<Sum>j\<leftarrow>in_cycles inp. u_weight inp r j * row_value inp r (in_rows inp ! j))"
proof -
  let ?n = "dim_log_t (in_dims inp)" and ?E = "view_eq_table (in_reduction inp)"
  let ?V = "map (row_value inp r) (in_rows inp)" and ?R = "\<lambda>i. map (ra_value inp r i) (in_rows inp)"
  let ?F = "\<lambda>w. table_mle ?E w * table_mle ?V w * (\<Prod>i\<leftarrow>[0..<dim_ra_polys (in_dims inp)]. table_mle (?R i) w)"
  have len: "length (in_rows inp) = 2 ^ ?n" "length ?E = 2 ^ ?n"
    using assms(1) by (simp_all add: input_ok_def Let_def view_eq_table_def eq_evals_eq)
  have "grid_sum [0, 1] ?n (\<lambda>z. read_raf_poly inp (r @ z)) = grid_sum [0, 1] ?n (\<lambda>z. ?F (rev z))"
    using assms(2) by (simp add: read_raf_poly_def Let_def)
  also have "\<dots> = grid_sum [0, 1] ?n ?F" by (rule grid_sum_rev)
  also have "\<dots> = (\<Sum>j\<leftarrow>[0..<2 ^ ?n]. ?F (bool_point (msb_bits ?n j)))" by (rule grid_sum_bits)
  also have "\<dots> = (\<Sum>j\<leftarrow>in_cycles inp. u_weight inp r j * row_value inp r (in_rows inp ! j))"
    unfolding len(1)
  proof (intro arg_cong [where f = sum_list] map_cong refl)
    fix j assume "j \<in> set [0..<2 ^ ?n]"
    then have j: "j < 2 ^ ?n" by simp
    have R: "table_mle (?R i) (bool_point (msb_bits ?n j)) = ra_value inp r i (in_rows inp ! j)" for i
      using table_mle_bool [of "?R i" ?n j] len(1) j by simp
    have "?F (bool_point (msb_bits ?n j)) = ?E ! j * row_value inp r (in_rows inp ! j) * eq_product (index_point (in_index inp j)) r"
      using table_mle_bool [of ?E ?n j] table_mle_bool [of ?V ?n j] len j unfolding R ra_product [OF assms] by simp
    then show "?F (bool_point (msb_bits ?n j)) = u_weight inp r j * row_value inp r (in_rows inp ! j)"
      using assms(2) by (simp add: u_weight_def mult_ac)
  qed
  finally show ?thesis .
qed

lemma address_grid:
  fixes inp :: "'f::field read_raf_input"
  assumes "input_ok inp" "phase < 16" "length q = 8 * phase + 8"
  shows "grid_sum [0, 1] (2 * (60 - 4 * phase) + dim_log_t (in_dims inp)) (\<lambda>xs. read_raf_poly inp (q @ xs)) =
    (\<Sum>j\<leftarrow>in_cycles inp. u_weight inp q j * row_value inp (q @ chunk_point (60 - 4 * phase) (in_index inp j)) (in_rows inp ! j))"
proof -
  let ?m = "60 - 4 * phase"
  let ?v = "\<lambda>j. in_index inp j" and ?val = "\<lambda>j w. row_value inp (q @ w) (in_rows inp ! j)"
  have weight: "u_weight inp (q @ w) j = u_weight inp q j * eq_product (chunk_point ?m (?v j)) w" if "length w = 2 * ?m" for w j
  proof -
    have full: "length (q @ w) = 128" using assms(2,3) that by simp
    have "(index_point (?v j) :: 'f list) = take (length q) (index_point (?v j)) @ chunk_point ?m (?v j)"
      unfolding assms(3) take_index_point [OF assms(2)] append_assoc by (rule index_point_split [OF assms(2)])
    then have "take (length (q @ w)) (index_point (?v j) :: 'f list) = take (length q) (index_point (?v j)) @ chunk_point ?m (?v j)"
      unfolding full by simp
    moreover have l: "length (take (length q) (index_point (?v j) :: 'f list)) = length q" using assms(2,3) by simp
    ultimately show ?thesis by (simp add: u_weight_def eq_product_append [OF l] mult.assoc del: length_append)
  qed
  have "grid_sum [0, 1] (2 * ?m + dim_log_t (in_dims inp)) (\<lambda>xs. read_raf_poly inp (q @ xs)) =
      grid_sum [0, 1] (2 * ?m) (\<lambda>w. grid_sum [0, 1] (dim_log_t (in_dims inp)) (\<lambda>z. read_raf_poly inp ((q @ w) @ z)))"
    by (simp add: grid_sum_append)
  also have "\<dots> = grid_sum [0, 1] (2 * ?m) (\<lambda>w. \<Sum>j\<leftarrow>in_cycles inp. u_weight inp q j * (eq_product (chunk_point ?m (?v j)) w * ?val j w))"
  proof (rule grid_sum_cong)
    fix w :: "'f list" assume w: "length w = 2 * ?m"
    then have "length (q @ w) = 128" using assms(2,3) by simp
    then show "grid_sum [0, 1] (dim_log_t (in_dims inp)) (\<lambda>z. read_raf_poly inp ((q @ w) @ z)) =
        (\<Sum>j\<leftarrow>in_cycles inp. u_weight inp q j * (eq_product (chunk_point ?m (?v j)) w * ?val j w))"
      using cycle_grid [OF assms(1)] by (simp only: weight [OF w] mult.assoc)
  qed
  also have "\<dots> = (\<Sum>j\<leftarrow>in_cycles inp. u_weight inp q j * grid_sum [0, 1] (2 * ?m) (\<lambda>w. eq_product (chunk_point ?m (?v j)) w * ?val j w))"
    by (simp only: grid_sum_list grid_sum_linear(2))
  also have "\<dots> = (\<Sum>j\<leftarrow>in_cycles inp. u_weight inp q j * ?val j (chunk_point ?m (?v j)))"
    using grid_sum_select [of "msb_bits (2 * ?m) (unat (?v j))" "?val j" for j]
    by (simp add: chunk_point_def del: mult_Suc_right)
  finally show ?thesis .
qed

text \<open>Every table has both halves.\<close>

lemma represents_lengths:
  "list_all2 (represents (Suc n)) ps hs \<Longrightarrow> list_all (\<lambda>p. 2 * 2 ^ n \<le> length (dp_evals p)) ps"
  by (induction rule: list_all2_induct) (simp_all add: represents_def)

lemma raf_lengths:
  "raf_represents (Suc n) d P S V \<Longrightarrow> list_all (\<lambda>p. 2 * 2 ^ n \<le> length (dp_evals p)) (raf_tables d)"
  by (simp add: raf_represents_def raf_tables_def represents_def)

lemma suffix_tables_lengths:
  assumes "suffix_tables_hold inp phase (Suc n) a tables"
  shows "list_all (\<lambda>p. 2 * 2 ^ n \<le> length (dp_evals p)) (concat (map snd tables))"
  using assms unfolding suffix_tables_hold_def
proof (induction rule: list_all2_induct)
  case (Cons tq ts u us)
  then show ?case by (cases tq) (auto dest: represents_lengths)
qed simp

lemma tables_in_range:
  assumes "tables_hold inp phase cs ds k" "8 - length ds = Suc n"
  shows "address_in_range k (2 ^ n)"
proof -
  note t = assms(1) [unfolded tables_hold_def Let_def assms(2)]
  have "length ALL_PREFIXES \<le> length (rr_prefix_tables k)" using t by (auto dest: list_all2_lengthD)
  moreover have "list_all (\<lambda>p. 2 * 2 ^ n \<le> length (dp_evals p)) (rr_prefix_tables k)" using t by (blast intro: represents_lengths)
  moreover have "list_all (\<lambda>p. 2 * 2 ^ n \<le> length (dp_evals p)) (concat (map snd (rr_suffix_tables k)))" using t by (blast intro: suffix_tables_lengths)
  moreover have "list_all (\<lambda>p. 2 * 2 ^ n \<le> length (dp_evals p)) (raf_tables (rr_left k))"
    "list_all (\<lambda>p. 2 * 2 ^ n \<le> length (dp_evals p)) (raf_tables (rr_right k))"
    "list_all (\<lambda>p. 2 * 2 ^ n \<le> length (dp_evals p)) (raf_tables (rr_identity k))" using t by (blast intro: raf_lengths)+
  ultimately show ?thesis by (simp add: address_in_range_def CANONICAL_INSTRUCTION_ADDRESS_def)
qed

lemma address_message_holds:
  fixes k :: "'f::field read_raf"
  assumes "input_ok inp" "address_state inp a k" "length a < 128"
  shows "address_message k = Some (map (\<lambda>c. read_raf_round inp a (of_nat c)) [0..<3])"
proof -
  define phase where "phase = length a div 8"
  define cs where "cs = take (8 * phase) a"
  define ds where "ds = drop (8 * phase) a"
  have a: "a = cs @ ds" "length cs = 8 * phase" "phase < 16" "length ds < 8"
    using div_phase assms(3) by (simp_all add: cs_def ds_def phase_def)
  have st: "frame_holds inp cs k" "tables_hold inp phase cs ds k" using assms(2) by (simp_all add: address_state_def Let_def phase_def cs_def ds_def)
  obtain n where n: "8 - length ds = Suc n" using a(4) by (cases "8 - length ds") simp_all
  note t = st(2) [unfolded tables_hold_def Let_def n]
  obtain first tables where ft: "rr_prefix_tables k = first # tables" "represents (Suc n) first (\<lambda>r. bound_prefixes ((cs @ ds) @ r) (hd ALL_PREFIXES))"
    using t by (cases "rr_prefix_tables k") (auto simp: ALL_PREFIXES_def)
  have half: "length (dp_evals first) div 2 = 2 ^ n" using ft(2) by (simp add: represents_def)
  have range: "address_in_range k (2 ^ n)" by (rule tables_in_range [OF st(2) n])
  have round: "map_option (\<lambda>reads. sum_list reads + address_raf k (2 ^ n) c) (those (map (address_read k (2 ^ n) c) [0..<2 ^ n])) =
      Some (read_raf_round inp a (of_nat c))" if "c < 3" for c
  proof -
    let ?q = "phase_point (cs @ ds) n c"
    have q: "length (?q b) = 8 * phase + 8" for b using a(2) n by simp
    have rounds: "sumcheck_rounds (in_dims inp) - length a - 1 = n + (2 * (60 - 4 * phase) + dim_log_t (in_dims inp))"
      using assms(1) a n by (simp add: input_ok_def Let_def sumcheck_rounds_def)
    have "read_raf_round inp a (of_nat c) = (\<Sum>b\<leftarrow>[0..<2 ^ n]. grid_sum [0, 1] (2 * (60 - 4 * phase) + dim_log_t (in_dims inp)) (\<lambda>xs. read_raf_poly inp (?q b @ xs)))"
      unfolding read_raf_round_def rounds grid_sum_append [where m = n] grid_sum_bits [where n = n]
      by (simp only: a(1) append_assoc append_Cons)
    also have "\<dots> = (\<Sum>b\<leftarrow>[0..<2 ^ n]. \<Sum>j\<leftarrow>in_cycles inp. u_weight inp (?q b) j *
        row_value inp (?q b @ chunk_point (60 - 4 * phase) (in_index inp j)) (in_rows inp ! j))"
      by (simp only: address_grid [OF assms(1) a(3) q])
    finally show ?thesis by (simp only: address_point_holds [OF assms(1) st(2,1) a(2,3) n that])
  qed
  have three: "[0, 1, 2] = [0..<3 :: nat]" by (simp add: upt_rec)
  have "those (map (\<lambda>c. map_option (\<lambda>reads. sum_list reads + address_raf k (2 ^ n) c) (those (map (address_read k (2 ^ n) c) [0..<2 ^ n]))) [0..<3]) =
      Some (map (\<lambda>c. read_raf_round inp a (of_nat c)) [0..<3])"
    by (rule those_map_Some) (simp add: round)
  then show ?thesis unfolding address_message_def ft(1) list.case Let_def half three using range by simp
qed

end
