(* ===== verification/Read_Raf_Degree.thy ===== *)
theory Read_Raf_Degree
  imports Read_Raf_Message
begin

text \<open>
  The degrees of the rounds of the read and RAF relation: two in an address variable, the number of
  selectors plus two in a cycle variable, so that a round's message determines its polynomial.
\<close>

section \<open>Affine functions of one variable\<close>

definition affine1 :: "('f::comm_ring_1 \<Rightarrow> 'f) \<Rightarrow> bool" where
  "affine1 g \<longleftrightarrow> (\<forall>c. g c = g 0 + c * (g 1 - g 0))"

lemma affine1I: "(\<And>c. g c = a + c * b) \<Longrightarrow> affine1 g"
  by (simp add: affine1_def)

lemma affine1_const [simp]: "affine1 (\<lambda>_. a)"
  by (simp add: affine1_def)

lemma affine1_add:
  assumes "affine1 f" "affine1 g"
  shows "affine1 (\<lambda>c. f c + g c)"
proof (rule affine1I [where a = "f 0 + g 0" and b = "(f 1 - f 0) + (g 1 - g 0)"])
  fix c
  have h: "f c = f 0 + c * (f 1 - f 0)" "g c = g 0 + c * (g 1 - g 0)" using assms unfolding affine1_def by blast+
  show "f c + g c = f 0 + g 0 + c * (f 1 - f 0 + (g 1 - g 0))" by (subst h(1), subst h(2)) (simp add: algebra_simps)
qed

lemma affine1_scale:
  assumes "affine1 f"
  shows "affine1 (\<lambda>c. a * f c)"
proof (rule affine1I [where a = "a * f 0" and b = "a * (f 1 - f 0)"])
  fix c
  have h: "f c = f 0 + c * (f 1 - f 0)" using assms unfolding affine1_def by blast
  show "a * f c = a * f 0 + c * (a * (f 1 - f 0))" by (subst h) (simp add: algebra_simps)
qed

lemma multi_affine_at:
  "multi_affine (length pre + Suc n) f \<Longrightarrow> length w = n \<Longrightarrow> affine1 (\<lambda>c. f (pre @ c # w))"
proof (induction pre arbitrary: f)
  case Nil
  then have m: "multi_affine (Suc n) f" "length w = n" by simp_all
  show ?case unfolding affine1_def append_Nil by (intro allI multi_affine_head [OF m])
next
  case (Cons x pre)
  then have "multi_affine (length pre + Suc n) (\<lambda>r. f (x # r))" by (intro multi_affine_tail) simp
  from Cons.IH [OF this Cons.prems(2)] show ?case by simp
qed

lemma times_affine:
  assumes "affine1 f" "length p \<le> n"
  shows "\<exists>q. length q \<le> Suc n \<and> (\<forall>c. f c * up_evaluate p c = up_evaluate q (c :: 'f::field))"
proof -
  let ?q = "times_linear_factor p (f 0) (f 1 - f 0)"
  have "length (fold (\<lambda>(index, q_coeff) s. let s = s[index := s ! index + q_coeff * a] in s[index + 1 := s ! (index + 1) + q_coeff * b]) l s) = length s"
    for l and s :: "'f list" and a b by (induction l arbitrary: s) (auto simp: Let_def)
  then have "length ?q = length p + 1" by (simp add: times_linear_factor_def)
  moreover have "f c * up_evaluate p c = up_evaluate ?q c" for c
  proof -
    have "f c = f 0 + c * (f 1 - f 0)" using assms(1) unfolding affine1_def by blast
    then show ?thesis unfolding times_linear_factor_eval by (rule arg_cong)
  qed
  ultimately show ?thesis using assms(2) by (intro exI [of _ ?q]) simp
qed

lemma prod_affine:
  "list_all affine1 fs \<Longrightarrow> \<exists>p. length p \<le> Suc (length fs) \<and> (\<forall>c. (\<Prod>f\<leftarrow>fs. f c) = up_evaluate p (c :: 'f::field))"
proof (induction fs)
  case Nil
  then show ?case by (intro exI [of _ "[1]"]) simp
next
  case (Cons f fs)
  then obtain p where p: "length p \<le> Suc (length fs)" "\<And>c. (\<Prod>f\<leftarrow>fs. f c) = up_evaluate p c" by auto
  then show ?case using times_affine [of f p "Suc (length fs)"] Cons.prems by simp
qed

section \<open>The tables and the rows\<close>

lemma combine_mix:
  assumes "table_combine t A v = Some a" "table_combine t B v = Some b"
  shows "table_combine t (mix s A B) v = Some (a + s * (b - a))"
proof -
  note defs = table_combine.simps table_decomposition mix_def
  show ?thesis
    using assms by (cases t; auto simp: defs Let_def split: list.splits; simp add: algebra_simps)
qed

lemma table_value_affine: "multi_affine 128 (table_mle_value t :: 'f::comm_ring_1 list \<Rightarrow> 'f)"
proof -
  let ?v = "suffix_values t (lb_new 0 0) :: 'f list"
  let ?F = "\<lambda>P. the (table_combine t P ?v)"
  have some: "\<exists>a. table_combine t P ?v = Some a" for P
    by (cases t) (simp_all add: suffix_values_def table_combine.simps table_decomposition Let_def)
  have "affine_state ?F" unfolding affine_state_def
  proof (intro allI)
    fix s A B
    obtain a b where "table_combine t A ?v = Some a" "table_combine t B ?v = Some b" using some by blast
    then show "?F (mix s A B) = ?F A + s * (?F B - ?F A)" using combine_mix by fastforce
  qed
  then have "multi_affine (2 * 64) (\<lambda>r. ?F (run_pairs 0 r default_checkpoint))" by (rule run_pairs_affine)
  moreover have "?F (run_pairs 0 r default_checkpoint) = table_mle_value t r" if "length r = 2 * 64" for r
    using combine_bound [of r t 0] that by (simp add: bound_prefixes_def)
  ultimately have "multi_affine (2 * 64) (table_mle_value t :: 'f list \<Rightarrow> 'f)" by (rule multi_affine_cong)
  then show ?thesis by simp
qed

lemma operands_affine: "multi_affine 128 (operand_run side 0)" "multi_affine 128 (address_run 0)"
  using operand_run_affine(1) [of 64 side 0] address_run_affine by simp_all

lemma row_value_affine:
  assumes "length a + Suc (length w) = 128"
  shows "affine1 (\<lambda>c. row_value inp (a @ c # w) row)"
proof -
  note at = multi_affine_at [of a "length w" _ w, unfolded assms, OF _ refl]
  note ops = operands_affine(1) [THEN at] operands_affine(2) [THEN at]
  have "affine1 (\<lambda>c. case rw_table_index row of None \<Rightarrow> 0 | Some i \<Rightarrow> table_mle_value (wasm_tables ! i) (a @ c # w))"
    using table_value_affine [THEN at] by (cases "rw_table_index row") simp_all
  moreover have "affine1 (\<lambda>c. raf_value inp (a @ c # w) (rw_raf_flag row))"
    unfolding raf_value_def by (cases "rw_raf_flag row") (simp_all add: affine1_add affine1_scale ops)
  ultimately show ?thesis unfolding row_value_def by (rule affine1_add)
qed

lemma eq_product_affine: "affine1 (\<lambda>c. eq_product x (a @ c # w))"
proof (induction a arbitrary: x)
  case Nil
  show ?case
  proof (cases x)
    case (Cons b x)
    show ?thesis unfolding Cons by (rule affine1I [where a = "(1 - b) * eq_product x w" and b = "(2 * b - 1) * eq_product x w"]) (simp add: algebra_simps)
  qed simp
next
  case (Cons y a)
  then show ?case by (cases x) (simp_all add: affine1_scale)
qed

lemma u_weight_affine: "affine1 (\<lambda>c. u_weight inp (a @ c # w) j)"
  unfolding u_weight_def by simp (intro affine1_scale eq_product_affine)

section \<open>The rounds\<close>

lemma address_round_degree:
  fixes inp :: "'f::field read_raf_input"
  assumes "input_ok inp" "length cs < 128"
  shows "\<exists>p. length p \<le> 3 \<and> (\<forall>c. read_raf_round inp cs c = up_evaluate p c)"
proof -
  obtain n where n: "length cs + Suc n = 128" using assms(2) by (metis add_Suc_right less_imp_Suc_add)
  have total: "sumcheck_rounds (in_dims inp) - length cs - 1 = n + dim_log_t (in_dims inp)"
    using assms(1) n by (simp add: input_ok_def Let_def sumcheck_rounds_def)
  have "\<exists>p. length p \<le> Suc 2 \<and> (\<forall>c. (\<Sum>j\<leftarrow>in_cycles inp. u_weight inp (cs @ c # w) j * row_value inp (cs @ c # w) (in_rows inp ! j)) = up_evaluate p c)"
    if w: "length w = n" for w
  proof (rule sum_list_poly)
    fix j
    have "list_all affine1 [\<lambda>c. u_weight inp (cs @ c # w) j, \<lambda>c. row_value inp (cs @ c # w) (in_rows inp ! j)]"
      using u_weight_affine row_value_affine [of cs w] n w by simp
    from prod_affine [OF this]
    show "\<exists>p. length p \<le> Suc 2 \<and> (\<forall>c. u_weight inp (cs @ c # w) j * row_value inp (cs @ c # w) (in_rows inp ! j) = up_evaluate p c)"
      by (simp add: numeral_2_eq_2)
  qed
  moreover have "(\<Sum>j\<leftarrow>in_cycles inp. u_weight inp (cs @ c # w) j * row_value inp (cs @ c # w) (in_rows inp ! j)) =
      grid_sum [0, 1] (dim_log_t (in_dims inp)) (\<lambda>z. read_raf_poly inp ((cs @ c # w) @ z))" if "length w = n" for w c
    using cycle_grid [OF assms(1), of "cs @ c # w"] n that by simp
  ultimately have "\<exists>p. length p \<le> Suc 2 \<and> (\<forall>c. grid_sum [0, 1] (dim_log_t (in_dims inp)) (\<lambda>z. read_raf_poly inp ((cs @ c # w) @ z)) = up_evaluate p c)"
    if "length w = n" for w using that by simp
  from grid_sum_poly [of n 2 "\<lambda>c w. grid_sum [0, 1] (dim_log_t (in_dims inp)) (\<lambda>z. read_raf_poly inp ((cs @ c # w) @ z))", OF this, of "[0, 1]"]
  show ?thesis unfolding read_raf_round_def total grid_sum_append by simp
qed

lemma cycle_round_degree:
  fixes inp :: "'f::field read_raf_input"
  assumes "input_ok inp" "128 \<le> length cs" "length cs < sumcheck_rounds (in_dims inp)"
  shows "\<exists>p. length p \<le> dim_ra_polys (in_dims inp) + 3 \<and> (\<forall>c. read_raf_round inp cs c = up_evaluate p c)"
proof -
  define r where "r = take 128 cs"
  define ys where "ys = drop 128 cs"
  let ?m = "dim_ra_polys (in_dims inp)" and ?t = "dim_log_t (in_dims inp)"
  obtain n where n: "sumcheck_rounds (in_dims inp) - length cs - 1 = n" "n + Suc (length ys) = ?t"
    using assms by (auto simp: input_ok_def Let_def sumcheck_rounds_def ys_def)
  have cs: "cs = r @ ys" "length r = 128" using assms(2) by (simp_all add: r_def ys_def)
  have len: "length (in_rows inp) = 2 ^ ?t" "length (view_eq_table (in_reduction inp)) = 2 ^ ?t"
    using assms(1) by (simp_all add: input_ok_def Let_def view_eq_table_def eq_evals_eq)
  have "\<exists>p. length p \<le> Suc (?m + 2) \<and> (\<forall>c. read_raf_poly inp (cs @ c # xs) = up_evaluate p c)" if xs: "length xs = n" for xs
  proof -
    let ?f = "\<lambda>e c. table_mle e (rev xs @ c # rev ys)"
    have aff: "affine1 (?f e)" if "length e = 2 ^ ?t" for e
      using multi_affine_at [OF _ refl, of "rev xs" "rev ys" "table_mle e"] multi_affine_table_mle [OF that] n(2) xs by simp
    let ?fs = "?f (view_eq_table (in_reduction inp)) # ?f (map (row_value inp r) (in_rows inp)) # map (\<lambda>i. ?f (map (ra_value inp r i) (in_rows inp))) [0..<?m]"
    have "list_all affine1 ?fs" using len by (simp add: aff list_all_iff)
    from prod_affine [OF this] have "\<exists>p. length p \<le> Suc (?m + 2) \<and> (\<forall>c. (\<Prod>f\<leftarrow>?fs. f c) = up_evaluate p c)" by simp
    moreover have "read_raf_poly inp (cs @ c # xs) = (\<Prod>f\<leftarrow>?fs. f c)" for c
      using cs by (simp add: read_raf_poly_def Let_def comp_def mult.assoc)
    ultimately show ?thesis by simp
  qed
  from grid_sum_poly [of n "?m + 2" "\<lambda>c xs. read_raf_poly inp (cs @ c # xs)", OF this, of "[0, 1]"]
  show ?thesis unfolding read_raf_round_def n(1) by (simp add: numeral_3_eq_3)
qed

text \<open>Interpolation of a message: the polynomial is the round.\<close>

lemma from_evals_round:
  fixes f :: "'f::field \<Rightarrow> 'f"
  assumes "inj_on (of_nat :: nat \<Rightarrow> 'f) {..<n}" "0 < n" "length p \<le> n" "\<And>c. f c = up_evaluate p c"
  shows "\<exists>q. from_evals (map (\<lambda>c. f (of_nat c)) [0..<n]) = Some q \<and> length q = n \<and> (\<forall>c. up_evaluate q c = f c)"
proof -
  let ?e = "map (\<lambda>c. f (of_nat c)) [0..<n]"
  obtain q where q: "from_evals ?e = Some q" "length q = n" "\<And>i. i < n \<Longrightarrow> up_evaluate q (of_nat i) = f (of_nat i)"
    using from_evals_correct [of ?e] assms(1,2) by auto
  have "up_evaluate q c = f c" for c
  proof (rule ccontr)
    assume "up_evaluate q c \<noteq> f c"
    then have ne: "up_evaluate q c \<noteq> up_evaluate p c" by (simp add: assms(4))
    obtain d where d: "n = Suc d" using assms(2) by (cases n) simp_all
    note b = up_agree_bound [of q d p c, OF _ _ ne]
    have "of_nat ` {..<n} \<subseteq> {x. up_evaluate q x = up_evaluate p x}" using q(3) by (auto simp: assms(4))
    moreover have "finite {x. up_evaluate q x = up_evaluate p x} \<and> card {x. up_evaluate q x = up_evaluate p x} \<le> d"
      using b q(2) assms(3) d by simp
    ultimately have "card (of_nat ` {..<n} :: 'f set) \<le> d" by (meson card_mono order_trans)
    then show False using card_image [OF assms(1)] d by simp
  qed
  then show ?thesis using q(1,2) by blast
qed

end
