(* ===== verification/Read_Raf_Member.thy ===== *)
theory Read_Raf_Member
  imports Read_Raf_Degree Sumcheck_Batch
begin

text \<open>
  The read and RAF kernel as a member of the batched prover: its rounds prove the claims of the
  relation's polynomial, so that it is an honest member of any batch.
\<close>

section \<open>The claims\<close>

text \<open>\<^verbatim>\<open>impl ProveRounds for InstructionReadRafKernel\<close>.\<close>

definition read_raf_prover :: "('f::field read_raf, 'f) round_prover" where
  "read_raf_prover = \<lparr>rp_num_rounds = rr_num_rounds, rp_prove_round = rr_prove_round, rp_finish_rounds = rr_finish_rounds\<rparr>"

text \<open>The claim after the variables \<open>cs\<close>: the sum over the boolean values of the others.\<close>

definition read_raf_claim :: "'f::field read_raf_input \<Rightarrow> 'f list \<Rightarrow> 'f" where
  "read_raf_claim inp cs = grid_sum [0, 1] (sumcheck_rounds (in_dims inp) - length cs) (\<lambda>xs. read_raf_poly inp (cs @ xs))"

lemma read_raf_claim_split:
  assumes "length cs < sumcheck_rounds (in_dims inp)"
  shows "read_raf_claim inp cs = read_raf_round inp cs 0 + read_raf_round inp cs 1"
    "read_raf_claim inp (cs @ [c]) = read_raf_round inp cs c"
proof -
  obtain n where n: "sumcheck_rounds (in_dims inp) - length cs = Suc n" using assms by (cases "sumcheck_rounds (in_dims inp) - length cs") simp_all
  then have m: "sumcheck_rounds (in_dims inp) - length (cs @ [c]) = n" "sumcheck_rounds (in_dims inp) - length cs - 1 = n" by simp_all
  show "read_raf_claim inp cs = read_raf_round inp cs 0 + read_raf_round inp cs 1"
    unfolding read_raf_claim_def read_raf_round_def n by simp
  show "read_raf_claim inp (cs @ [c]) = read_raf_round inp cs c"
    unfolding read_raf_claim_def read_raf_round_def m by simp
qed

lemma read_raf_claim_full: "length cs = sumcheck_rounds (in_dims inp) \<Longrightarrow> read_raf_claim inp cs = read_raf_poly inp cs"
  by (simp add: read_raf_claim_def)

section \<open>A round\<close>

lemma rr_message_holds:
  fixes k :: "'f::field read_raf"
  assumes "input_ok inp" "inj_on (of_nat :: nat \<Rightarrow> 'f) {..<dim_ra_polys (in_dims inp) + 3}"
    "read_raf_state inp cs k" "length cs < sumcheck_rounds (in_dims inp)"
  shows "\<exists>evals p. (if rr_rounds_bound k < dim_address_bits (rr_dims k) then ok_or (address_message k) Sumcheck_Panicked else cycle_message k) = Inr evals \<and>
    evals ! 0 + evals ! 1 = read_raf_claim inp cs \<and> from_evals evals = Some p \<and>
    length p \<le> dim_ra_polys (in_dims inp) + 3 \<and> (\<forall>c. up_evaluate p c = read_raf_round inp cs c)"
proof -
  let ?m = "dim_ra_polys (in_dims inp)"
  have ok: "dim_address_bits (in_dims inp) = 128" using assms(1) by (simp add: input_ok_def Let_def)
  note claim = read_raf_claim_split(1) [OF assms(4)]
  have ends: "map (\<lambda>c. read_raf_round inp cs (of_nat c)) [0..<n] ! 0 + map (\<lambda>c. read_raf_round inp cs (of_nat c)) [0..<n] ! 1 = read_raf_claim inp cs"
    if "3 \<le> n" for n using that by (simp add: claim del: upt_Suc)
  show ?thesis
  proof (cases "length cs < 128")
    case True
    then have st: "address_state inp cs k" using assms(3) by (simp add: read_raf_state_def)
    then have "rr_rounds_bound k < dim_address_bits (rr_dims k)"
      using True ok by (simp add: address_state_def Let_def frame_holds_def)
    moreover have "address_message k = Some (map (\<lambda>c. read_raf_round inp cs (of_nat c)) [0..<3])"
      by (rule address_message_holds [OF assms(1) st True])
    moreover obtain p where "length p \<le> 3" "\<And>c. read_raf_round inp cs c = up_evaluate p c"
      using address_round_degree [OF assms(1) True] by blast
    moreover have "inj_on (of_nat :: nat \<Rightarrow> 'f) {..<3}" using assms(2) by (rule inj_on_subset) auto
    ultimately show ?thesis using from_evals_round [of 3 p "read_raf_round inp cs"] ends [of 3] by (auto simp: ok_or_def simp del: upt_Suc)
  next
    case False
    then have st: "cycle_state inp (take 128 cs) (drop 128 cs) k" using assms(3) by (simp add: read_raf_state_def)
    then have "\<not> rr_rounds_bound k < dim_address_bits (rr_dims k)" using ok by (simp add: cycle_state_def Let_def)
    moreover have "length (drop 128 cs) < dim_log_t (in_dims inp)" using assms(4) False ok by (simp add: sumcheck_rounds_def)
    then have "cycle_message k = Inr (map (\<lambda>c. read_raf_round inp cs (of_nat c)) [0..<?m + 3])"
      using cycle_message_holds [OF assms(1) st] False by simp
    moreover obtain p where "length p \<le> ?m + 3" "\<And>c. read_raf_round inp cs c = up_evaluate p c"
      using cycle_round_degree [OF assms(1) _ assms(4)] False by auto
    ultimately show ?thesis using from_evals_round [OF assms(2), of p "read_raf_round inp cs"] ends [of "?m + 3"] by (auto simp del: upt_Suc)
  qed
qed

lemma rr_prove_round_holds:
  fixes k :: "'f::field read_raf"
  assumes "input_ok inp" "inj_on (of_nat :: nat \<Rightarrow> 'f) {..<dim_ra_polys (in_dims inp) + 3}"
    "read_raf_state inp cs k" "length cs < sumcheck_rounds (in_dims inp)"
  shows "\<exists>p. rr_prove_round k None i (read_raf_claim inp cs) = Inr (p, k) \<and> length p \<le> dim_ra_polys (in_dims inp) + 3 \<and>
    (\<forall>c. up_evaluate p c = read_raf_claim inp (cs @ [c]))"
    "claim \<noteq> read_raf_claim inp cs \<Longrightarrow> rr_prove_round k None i claim = Inl (RoundCheckFailed i claim (read_raf_claim inp cs))"
proof -
  obtain evals p where m: "(if rr_rounds_bound k < dim_address_bits (rr_dims k) then ok_or (address_message k) Sumcheck_Panicked else cycle_message k) = Inr evals"
      "evals ! 0 + evals ! 1 = read_raf_claim inp cs" "from_evals evals = Some p" "length p \<le> dim_ra_polys (in_dims inp) + 3"
      "\<And>c. up_evaluate p c = read_raf_round inp cs c"
    using rr_message_holds [OF assms] by blast
  have run: "rr_prove_round k None i claim = (if read_raf_claim inp cs \<noteq> claim then Inl (RoundCheckFailed i claim (read_raf_claim inp cs)) else Inr (p, k))" for claim
    unfolding rr_prove_round_def option.case bind_res_def sum.case m(1) Let_def m(2,3) by (simp add: ok_or_def)
  show "\<exists>p. rr_prove_round k None i (read_raf_claim inp cs) = Inr (p, k) \<and> length p \<le> dim_ra_polys (in_dims inp) + 3 \<and>
      (\<forall>c. up_evaluate p c = read_raf_claim inp (cs @ [c]))"
    using run m(4,5) read_raf_claim_split(2) [OF assms(4)] by auto
  show "claim \<noteq> read_raf_claim inp cs \<Longrightarrow> rr_prove_round k None i claim = Inl (RoundCheckFailed i claim (read_raf_claim inp cs))"
    using run by auto
qed

section \<open>The member\<close>

text \<open>The challenge not bound yet.\<close>

fun pending :: "'f option \<Rightarrow> 'f list" where
  "pending None = []"
| "pending (Some r) = [r]"

definition read_raf_member :: "'f::field read_raf_input \<Rightarrow> 'f batch_member \<Rightarrow> nat \<Rightarrow> 'f read_raf \<Rightarrow> 'f option \<Rightarrow> 'f \<Rightarrow> bool" where
  "read_raf_member inp m n k b c \<longleftrightarrow> bm_rounds m = sumcheck_rounds (in_dims inp) \<and>
     (\<exists>cs. read_raf_state inp cs k \<and> length (cs @ pending b) = n \<and> n \<le> bm_rounds m \<and> c = read_raf_claim inp (cs @ pending b))"

lemma rr_bind_pending:
  fixes k :: "'f::field read_raf"
  assumes "input_ok inp" "read_raf_state inp cs k" "length (cs @ pending b) \<le> sumcheck_rounds (in_dims inp)"
  shows "\<exists>k'. (case b of None \<Rightarrow> Inr k | Some r \<Rightarrow> rr_bind r k) = Inr k' \<and> read_raf_state inp (cs @ pending b) k'"
  using rr_bind_holds [OF assms(1,2)] assms(2,3) by (cases b) auto

lemma rr_prove_round_bind:
  "(case b of None \<Rightarrow> Inr k | Some r \<Rightarrow> rr_bind r k) = Inr k' \<Longrightarrow> rr_prove_round k b i c = rr_prove_round k' None i c"
  by (simp add: rr_prove_round_def bind_res_def)

lemma read_raf_member_honest:
  fixes inp :: "'f::field read_raf_input"
  assumes "input_ok inp" "inj_on (of_nat :: nat \<Rightarrow> 'f) {..<dim_ra_polys (in_dims inp) + 3}"
  shows "honest_members read_raf_prover (dim_ra_polys (in_dims inp) + 2) (read_raf_member inp)"
  unfolding honest_members_def
proof (intro conjI allI impI)
  fix m n b c and k :: "'f read_raf"
  assume P: "read_raf_member inp m n k b c" and n: "n < bm_rounds m"
  then obtain cs where cs: "read_raf_state inp cs k" "length (cs @ pending b) = n" "c = read_raf_claim inp (cs @ pending b)"
      "bm_rounds m = sumcheck_rounds (in_dims inp)"
    by (auto simp: read_raf_member_def)
  let ?cs = "cs @ pending b"
  have len: "length ?cs < sumcheck_rounds (in_dims inp)" using cs(2,4) n by simp
  obtain k' where k': "(case b of None \<Rightarrow> Inr k | Some r \<Rightarrow> rr_bind r k) = Inr k'" "read_raf_state inp ?cs k'"
    using rr_bind_pending [OF assms(1) cs(1), of b] len by auto
  obtain p where p: "rr_prove_round k' None n c = Inr (p, k')" "length p \<le> dim_ra_polys (in_dims inp) + 3"
      "\<And>r. up_evaluate p r = read_raf_claim inp (?cs @ [r])"
    using rr_prove_round_holds(1) [OF assms k'(2) len] cs(3) by blast
  have "rp_prove_round read_raf_prover k b n c = Inr (p, k')"
    unfolding read_raf_prover_def by (simp add: rr_prove_round_bind [OF k'(1)] p(1))
  moreover have "up_degree p \<le> dim_ra_polys (in_dims inp) + 2" using p(2) by (simp add: degree_length)
  moreover have "up_evaluate p 0 + up_evaluate p 1 = c"
    unfolding p(3) read_raf_claim_split(2) [OF len] cs(3) read_raf_claim_split(1) [OF len] ..
  moreover have "read_raf_member inp m (Suc n) k' (Some r) (up_evaluate p r)" for r
    unfolding read_raf_member_def p(3) using k'(2) cs(2,4) n by (intro conjI exI [of _ ?cs]) simp_all
  ultimately show "\<exists>p k'. rp_prove_round read_raf_prover k b n c = Inr (p, k') \<and> up_degree p \<le> dim_ra_polys (in_dims inp) + 2 \<and>
      up_evaluate p 0 + up_evaluate p 1 = c \<and> (\<forall>r. read_raf_member inp m (Suc n) k' (Some r) (up_evaluate p r))" by blast
next
  fix m r c and k :: "'f read_raf"
  assume P: "read_raf_member inp m (bm_rounds m) k (Some r) c"
  then obtain cs where cs: "read_raf_state inp cs k" "length (cs @ [r]) = sumcheck_rounds (in_dims inp)" by (auto simp: read_raf_member_def)
  then show "\<exists>k'. rp_finish_rounds read_raf_prover k r = Inr k'"
    using rr_bind_holds [OF assms(1) cs(1), of r] by (auto simp: read_raf_prover_def rr_finish_rounds_def)
qed

end
