(* ===== verification/Claim_Ids.thy ===== *)
theory Claim_Ids
  imports Row_Model R1cs_Claims
begin

text \<open>
  The identifiers of the protocol's claims, \<^verbatim>\<open>jolt-claims/src/protocols/jolt/ids.rs\<close>: the relations,
  the polynomials and their openings, and the challenges and derived values of every relation. The
  variants keep their names, prefixed where two enumerations share them.
\<close>

section \<open>Relations, polynomials, openings\<close>

datatype relation_id =
    SpartanOuter | SpartanProductVirtualization | SpartanShift | InstructionClaimReduction
  | InstructionInputVirtualization | InstructionReadRaf | InstructionRaVirtualization | RamReadWriteChecking
  | RamRafEvaluation | RamOutputCheck | RamValCheck | RamRaClaimReduction | RamHammingBooleanity
  | RamRaVirtualization | RegistersClaimReduction | RegistersReadWriteChecking | RegistersValEvaluation
  | BytecodeReadRaf | Booleanity | BytecodeClaimReductionCyclePhase | BytecodeClaimReduction
  | ProgramImageClaimReductionCyclePhase | ProgramImageClaimReduction | IncClaimReduction
  | HammingWeightClaimReduction | ProgramImageReconstruction | BytecodeChunkReconstruction

datatype bytecode_register_lane = Lane_Rs1 | Lane_Rs2 | Lane_Rd

datatype committed_polynomial =
    CP_RdInc | CP_RamInc | CP_InstructionRa nat | CP_BytecodeRa nat | CP_BytecodeChunk nat | CP_RamRa nat
  | CP_ProgramImageInit | CP_BalancedIncDigit nat | CP_BalancedIncCarry
  | CP_BytecodeRegisterSelector nat bytecode_register_lane | CP_BytecodeCircuitFlag nat nat
  | CP_BytecodeInstructionFlag nat nat | CP_BytecodeLookupSelector nat | CP_BytecodeRafFlag nat
  | CP_BytecodeUnexpandedPcBytes nat | CP_BytecodeImmBytes nat | CP_ProgramImageBytes

datatype virtual_polynomial =
    VP_PC | VP_NextPC | VP_LeftLookupOperand | VP_RightLookupOperand | VP_LeftInstructionInput
  | VP_RightInstructionInput | VP_Product | VP_ShouldBranch | VP_Rd | VP_Imm | VP_Rs1Value | VP_Rs2Value
  | VP_RdWriteValue | VP_Rs1Ra | VP_Rs2Ra | VP_RdWa | VP_LookupOutput | VP_InstructionRaf
  | VP_InstructionRafFlag | VP_InstructionRa nat | VP_RegistersVal | VP_RamAddress | VP_RamRa
  | VP_RamReadValue | VP_RamWriteValue | VP_RamVal | VP_RamValInit | VP_RamValFinal | VP_RamHammingWeight
  | VP_UnivariateSkip | VP_RowFlag row_flag | VP_LookupTableFlag nat | VP_BytecodeValClaim nat
  | VP_BytecodeReadRafAddrClaim | VP_BooleanityAddrClaim | VP_BytecodeClaimReductionIntermediate
  | VP_ProgramImageInitContributionRw | VP_FusedInc

datatype polynomial_id = PI_Committed committed_polynomial | PI_Virtual virtual_polynomial

datatype opening_id = Polynomial_Opening polynomial_id relation_id

definition committed_opening :: "committed_polynomial \<Rightarrow> relation_id \<Rightarrow> opening_id" where
  "committed_opening p r = Polynomial_Opening (PI_Committed p) r"

definition virtual_opening :: "virtual_polynomial \<Rightarrow> relation_id \<Rightarrow> opening_id" where
  "virtual_opening p r = Polynomial_Opening (PI_Virtual p) r"

fun opening_polynomial_id :: "opening_id \<Rightarrow> polynomial_id" where
  "opening_polynomial_id (Polynomial_Opening p r) = p"

lemma opening_ids_eq [simp]:
  "committed_opening p r = committed_opening q s \<longleftrightarrow> p = q \<and> r = s"
  "virtual_opening v r = virtual_opening w s \<longleftrightarrow> v = w \<and> r = s"
  "committed_opening p r \<noteq> virtual_opening v s" "virtual_opening v r \<noteq> committed_opening p s"
  by (simp_all add: committed_opening_def virtual_opening_def)

section \<open>Challenges and derived values\<close>

datatype ram_read_write_challenge = RamReadWrite_Gamma

datatype ram_read_write_public = RamReadWrite_EqCycle

datatype ram_val_check_challenge = RamValCheck_Gamma

datatype ram_val_check_public =
    RamValCheck_LtCyclePlusGamma | RamValCheck_InitEval | RamValCheck_InitSelectorProgramImage

datatype ram_ra_claim_reduction_challenge = RamRaClaimReduction_Gamma

datatype ram_ra_virtualization_public = RamRaVirtualization_EqCycle

datatype ram_hamming_booleanity_public = RamHammingBooleanity_EqCycle

datatype ram_raf_evaluation_public = RamRafEvaluation_UnmapAddress

datatype ram_output_check_public = RamOutputCheck_EqAddress | RamOutputCheck_IoMask | RamOutputCheck_ValIo

datatype ram_ra_claim_reduction_public =
    RamRaClaimReduction_EqCycleRaf | RamRaClaimReduction_EqCycleReadWrite
  | RamRaClaimReduction_EqCycleValCheck

datatype booleanity_challenge = Booleanity_Gamma

datatype booleanity_public = Booleanity_EqAddressCycle

datatype inc_claim_reduction_challenge = IncClaimReduction_Gamma

datatype inc_claim_reduction_public =
    IncClaimReduction_EqRamReadWrite | IncClaimReduction_EqRamValCheck
  | IncClaimReduction_EqRegistersReadWrite | IncClaimReduction_EqRegistersValEvaluation

datatype hamming_weight_claim_reduction_challenge = HammingWeightClaimReduction_Gamma

datatype hamming_weight_claim_reduction_public =
    HammingWeightClaimReduction_EqBooleanity | HammingWeightClaimReduction_EqBooleanityAtDigitZero
  | HammingWeightClaimReduction_EqVirtualization nat
  | HammingWeightClaimReduction_EqVirtualizationAtDigitZero nat
  | HammingWeightClaimReduction_BalancedIncValueAtAddress

datatype bytecode_read_raf_challenge =
    BytecodeReadRaf_Gamma | BytecodeReadRaf_Stage1Gamma | BytecodeReadRaf_Stage2Gamma
  | BytecodeReadRaf_Stage3Gamma | BytecodeReadRaf_Stage4Gamma | BytecodeReadRaf_Stage5Gamma

datatype bytecode_read_raf_public =
    BytecodeReadRaf_StageValue nat | BytecodeReadRaf_StageCycleEq nat | BytecodeReadRaf_SpartanOuterRaf
  | BytecodeReadRaf_SpartanShiftRaf | BytecodeReadRaf_Entry

datatype bytecode_claim_reduction_challenge = BytecodeClaimReduction_Eta

datatype bytecode_claim_reduction_public = BytecodeClaimReduction_ChunkOutputWeight nat

datatype program_image_claim_reduction_public = ProgramImageClaimReduction_FinalScale

datatype spartan_shift_public = SpartanShift_EqPlusOneOuter

datatype spartan_product_virtualization_public =
    SpartanProductVirtualization_UniskipLagrangeWeight nat | SpartanProductVirtualization_LagrangeWeight nat
  | SpartanProductVirtualization_TauKernel

datatype spartan_outer_public =
    SpartanOuter_TauKernel | SpartanOuter_AzWeight nat | SpartanOuter_BzWeight nat | SpartanOuter_AzConstant
  | SpartanOuter_BzConstant

datatype registers_read_write_challenge = RegistersReadWrite_Gamma

datatype registers_read_write_public = RegistersReadWrite_EqCycle

datatype registers_val_evaluation_public = RegistersValEvaluation_LtCycle

datatype registers_claim_reduction_challenge = RegistersClaimReduction_Gamma

datatype registers_claim_reduction_public = RegistersClaimReduction_EqSpartan

datatype instruction_claim_reduction_challenge = InstructionClaimReduction_Gamma

datatype instruction_claim_reduction_public = InstructionClaimReduction_EqSpartan

datatype instruction_input_challenge = InstructionInput_Gamma

datatype instruction_input_public = InstructionInput_EqProduct

datatype instruction_read_raf_challenge = InstructionReadRaf_Gamma

datatype instruction_read_raf_public =
    InstructionReadRaf_EqTableValue nat | InstructionReadRaf_EqRafConstant | InstructionReadRaf_EqRafFlag

datatype instruction_ra_virtualization_challenge = InstructionRaVirtualization_Gamma

datatype instruction_ra_virtualization_public = InstructionRaVirtualization_EqCycle

datatype program_image_reconstruction_public = ProgramImageReconstruction_ByteDecode

datatype bytecode_chunk_reconstruction_challenge = BytecodeChunkReconstruction_Gamma

datatype bytecode_chunk_reconstruction_public =
    BytecodeChunkReconstruction_RegisterSelectorWeight bytecode_register_lane
  | BytecodeChunkReconstruction_LaneWeight nat | BytecodeChunkReconstruction_LookupSelectorWeight
  | BytecodeChunkReconstruction_PcByteDecode | BytecodeChunkReconstruction_ImmByteDecode

datatype challenge_id =
    CI_RamReadWrite ram_read_write_challenge | CI_RamValCheck ram_val_check_challenge
  | CI_RamRaClaimReduction ram_ra_claim_reduction_challenge | CI_Booleanity booleanity_challenge
  | CI_IncClaimReduction inc_claim_reduction_challenge
  | CI_HammingWeightClaimReduction hamming_weight_claim_reduction_challenge
  | CI_BytecodeReadRaf bytecode_read_raf_challenge
  | CI_BytecodeClaimReduction bytecode_claim_reduction_challenge
  | CI_RegistersReadWrite registers_read_write_challenge
  | CI_RegistersClaimReduction registers_claim_reduction_challenge
  | CI_InstructionClaimReduction instruction_claim_reduction_challenge
  | CI_InstructionInput instruction_input_challenge | CI_InstructionReadRaf instruction_read_raf_challenge
  | CI_InstructionRaVirtualization instruction_ra_virtualization_challenge
  | CI_BytecodeChunkReconstruction bytecode_chunk_reconstruction_challenge

datatype derived_id =
    DI_RamReadWrite ram_read_write_public | DI_RamValCheck ram_val_check_public
  | DI_RamRafEvaluation ram_raf_evaluation_public | DI_RamOutputCheck ram_output_check_public
  | DI_RamRaClaimReduction ram_ra_claim_reduction_public | DI_RamRaVirtualization ram_ra_virtualization_public
  | DI_RamHammingBooleanity ram_hamming_booleanity_public | DI_Booleanity booleanity_public
  | DI_IncClaimReduction inc_claim_reduction_public
  | DI_HammingWeightClaimReduction hamming_weight_claim_reduction_public
  | DI_BytecodeReadRaf bytecode_read_raf_public | DI_BytecodeClaimReduction bytecode_claim_reduction_public
  | DI_ProgramImageClaimReduction program_image_claim_reduction_public | DI_SpartanShift spartan_shift_public
  | DI_SpartanProductVirtualization spartan_product_virtualization_public
  | DI_SpartanOuter spartan_outer_public | DI_RegistersReadWrite registers_read_write_public
  | DI_RegistersValEvaluation registers_val_evaluation_public
  | DI_RegistersClaimReduction registers_claim_reduction_public
  | DI_InstructionClaimReduction instruction_claim_reduction_public
  | DI_InstructionInput instruction_input_public | DI_InstructionReadRaf instruction_read_raf_public
  | DI_InstructionRaVirtualization instruction_ra_virtualization_public
  | DI_ProgramImageReconstruction program_image_reconstruction_public
  | DI_BytecodeChunkReconstruction bytecode_chunk_reconstruction_public

type_synonym 'f jolt_expr = "('f, opening_id, derived_id, challenge_id) claim_expr"

end
