(* ===== verification/Read_Raf_Relation.thy ===== *)
theory Read_Raf_Relation
  imports Read_Raf_Member Mle Claim_Ids Sumcheck_Committed
begin

text \<open>
  The read and RAF relation: its claim expressions
  (\<^verbatim>\<open>jolt-claims/src/protocols/jolt/relations/instruction/read_raf.rs\<close>) and the values the verifier
  derives (\<^verbatim>\<open>jolt-verifier/src/stages/stage5/instruction_read_raf.rs\<close>).
\<close>

section \<open>Ids\<close>

abbreviation Read_Raf_Gamma :: challenge_id where
  "Read_Raf_Gamma \<equiv> CI_InstructionReadRaf InstructionReadRaf_Gamma"

abbreviation EqTableValue :: "nat \<Rightarrow> derived_id" where
  "EqTableValue i \<equiv> DI_InstructionReadRaf (InstructionReadRaf_EqTableValue i)"

abbreviation EqRafConstant :: derived_id where
  "EqRafConstant \<equiv> DI_InstructionReadRaf InstructionReadRaf_EqRafConstant"

abbreviation EqRafFlag :: derived_id where
  "EqRafFlag \<equiv> DI_InstructionReadRaf InstructionReadRaf_EqRafFlag"

definition lookup_output_reduced :: opening_id where
  "lookup_output_reduced = virtual_opening VP_LookupOutput InstructionClaimReduction"

definition left_lookup_operand_reduced :: opening_id where
  "left_lookup_operand_reduced = virtual_opening VP_LeftLookupOperand InstructionClaimReduction"

definition right_lookup_operand_reduced :: opening_id where
  "right_lookup_operand_reduced = virtual_opening VP_RightLookupOperand InstructionClaimReduction"

definition instruction_ra_id :: "nat \<Rightarrow> opening_id" where
  "instruction_ra_id i = virtual_opening (VP_InstructionRa i) InstructionReadRaf"

definition lookup_table_flag_id :: "wasm_table \<Rightarrow> opening_id" where
  "lookup_table_flag_id t = virtual_opening (VP_LookupTableFlag (table_index t)) InstructionReadRaf"

definition instruction_raf_flag_id :: opening_id where
  "instruction_raf_flag_id = virtual_opening VP_InstructionRafFlag InstructionReadRaf"

definition eq_table_value_id :: "wasm_table \<Rightarrow> derived_id" where
  "eq_table_value_id t = EqTableValue (table_index t)"

section \<open>The expressions\<close>

definition READ_RAF_BASE_DEGREE :: nat where "READ_RAF_BASE_DEGREE = 2"

definition read_raf_degree :: "read_raf_dimensions \<Rightarrow> nat" where
  "read_raf_degree d = dim_ra_polys d + READ_RAF_BASE_DEGREE"

definition instruction_ra_product :: "read_raf_dimensions \<Rightarrow> 'f::comm_ring_1 jolt_expr" where
  "instruction_ra_product d =
     fold (\<lambda>i product. expr_mul product (expr_opening (instruction_ra_id i))) [0..<dim_ra_polys d] expr_one"

definition read_raf_input_expression :: "'f::comm_ring_1 jolt_expr" where
  "read_raf_input_expression =
     (let gamma = expr_challenge Read_Raf_Gamma in
      expr_add
        (expr_add (expr_opening lookup_output_reduced) (expr_mul gamma (expr_opening left_lookup_operand_reduced)))
        (expr_mul (expr_pow gamma 2) (expr_opening right_lookup_operand_reduced)))"

definition read_raf_output_expression :: "read_raf_dimensions \<Rightarrow> 'f::comm_ring_1 jolt_expr" where
  "read_raf_output_expression d =
     (let ra_product = instruction_ra_product d;
          output = fold (\<lambda>t output. expr_add output
            (expr_mul (expr_mul (expr_derived (eq_table_value_id t)) ra_product) (expr_opening (lookup_table_flag_id t))))
            wasm_tables expr_zero in
      expr_add (expr_add output (expr_mul (expr_derived EqRafConstant) ra_product))
        (expr_mul (expr_mul (expr_derived EqRafFlag) ra_product) (expr_opening instruction_raf_flag_id)))"

section \<open>What the verifier derives\<close>

text \<open>The reasons in the errors are left out; a panic is an error of its own.\<close>

datatype verifier_error =
  StageClaimPublicInputFailed relation_id | MissingStageClaimDerived derived_id | Verifier_Panicked

abbreviation public_input_failed :: "verifier_error + 'a" where
  "public_input_failed \<equiv> Inl (StageClaimPublicInputFailed InstructionReadRaf)"

text \<open>The opening points: those of the RA polynomials end with the cycle point.\<close>

definition derive_opening_points ::
    "read_raf_dimensions \<Rightarrow> 'f list \<Rightarrow> verifier_error + 'f list read_raf_output_claims" where
  "derive_opening_points d sumcheck_point =
     (case read_raf_opening_point d sumcheck_point of
        Inl _ \<Rightarrow> public_input_failed
      | Inr (r_address, r_cycle, _) \<Rightarrow>
          (let ra_count = dim_ra_polys d in
           if ra_count = 0 then public_input_failed
           else
             (let chunk_size = length r_address div ra_count in
              if chunk_size * ra_count \<noteq> length r_address then public_input_failed
              else if chunk_size = 0 then Inl Verifier_Panicked
              else Inr \<lparr>lookup_table_flags = replicate TABLE_COUNT r_cycle,
                instruction_ra = map (\<lambda>chunk. chunk @ r_cycle) (chunks chunk_size r_address),
                instruction_raf_flag = r_cycle\<rparr>)))"

definition reconstruct_r_address :: "'f list read_raf_output_claims \<Rightarrow> nat \<Rightarrow> 'f list" where
  "reconstruct_r_address points cycle_len =
     concat (map (\<lambda>point. take (length point - cycle_len) point) (instruction_ra points))"

definition upper_half_all_ones :: "'f::comm_ring_1 list \<Rightarrow> 'f" where
  "upper_half_all_ones r_address = fold (\<lambda>coordinate acc. acc * coordinate) (take (length r_address div 2) r_address) 1"

definition derive_output_term ::
    "read_raf_dimensions \<Rightarrow> derived_id \<Rightarrow> 'f::comm_ring_1 list \<Rightarrow> 'f list read_raf_output_claims \<Rightarrow> 'f \<Rightarrow> verifier_error + 'f" where
  "derive_output_term d i lookup_output_point points gamma =
     (case i of
        DI_InstructionReadRaf public \<Rightarrow>
          (let r_cycle = instruction_raf_flag points; r_address = reconstruct_r_address points (length r_cycle) in
           case try_eq_mle lookup_output_point r_cycle of
             Inl _ \<Rightarrow> public_input_failed
           | Inr eq_reduction \<Rightarrow>
               (let address_bits = dim_address_bits d in
                if length r_address \<noteq> address_bits then public_input_failed
                else
                  (let left = ok_or (operand_evaluate address_bits Left_Operand r_address) Verifier_Panicked;
                       right = ok_or (operand_evaluate address_bits Right_Operand r_address) Verifier_Panicked;
                       gamma2 = gamma * gamma in
                   case public of
                     InstructionReadRaf_EqTableValue index \<Rightarrow>
                       (case table_from_index index of
                          None \<Rightarrow> public_input_failed
                        | Some t \<Rightarrow> bind_res (ok_or (evaluate_mle t r_address) Verifier_Panicked) (\<lambda>v. Inr (eq_reduction * v)))
                   | InstructionReadRaf_EqRafConstant \<Rightarrow>
                       bind_res left (\<lambda>l. bind_res right (\<lambda>r. Inr (eq_reduction * (gamma * l + gamma2 * r))))
                   | InstructionReadRaf_EqRafFlag \<Rightarrow>
                       bind_res (ok_or (identity_evaluate address_bits r_address) Verifier_Panicked) (\<lambda>identity.
                       bind_res left (\<lambda>l. bind_res right (\<lambda>r.
                         (let raf = gamma2 * identity - gamma * l - gamma2 * r;
                              raf = (if CANONICAL_INSTRUCTION_ADDRESS then raf + gamma2 * gamma * upper_half_all_ones r_address else raf) in
                          Inr (eq_reduction * raf))))))))
      | _ \<Rightarrow> Inl (MissingStageClaimDerived i))"

section \<open>The operand and identity polynomials\<close>

lemma operand_run_sum:
  "length r = 2 * k \<Longrightarrow> operand_run side acc r = acc * 2 ^ k +
    (\<Sum>b\<leftarrow>[0..<k]. r ! (2 * b + (case side of Left_Operand \<Rightarrow> 0 | Right_Operand \<Rightarrow> 1)) * 2 ^ (k - 1 - b))"
proof (induction k arbitrary: acc r)
  case (Suc k)
  then obtain x y q where r: "r = x # y # q" "length q = 2 * k" by (auto simp: length_Suc_conv)
  let ?o = "case side of Left_Operand \<Rightarrow> 0 | Right_Operand \<Rightarrow> 1"
  have "[0..<Suc k] = 0 # map Suc [0..<k]" by (simp add: upt_conv_Cons map_Suc_upt del: upt_Suc)
  then have "(\<Sum>b\<leftarrow>[0..<Suc k]. r ! (2 * b + ?o) * 2 ^ (Suc k - 1 - b)) =
      r ! ?o * 2 ^ k + (\<Sum>b\<leftarrow>[0..<k]. q ! (2 * b + ?o) * 2 ^ (k - 1 - b))"
    by (simp add: r(1) comp_def)
  moreover have "r ! ?o = (case side of Left_Operand \<Rightarrow> x | Right_Operand \<Rightarrow> y)" by (cases side) (simp_all add: r(1))
  ultimately show ?case using Suc.IH [OF r(2)] by (simp add: r(1) algebra_simps)
qed simp

lemma operand_evaluate_run: "length r = 128 \<Longrightarrow> operand_evaluate 128 side r = Some (operand_run side 0 r)"
proof -
  assume r: "length r = 128"
  let ?o = "case side of Left_Operand \<Rightarrow> 0 | Right_Operand \<Rightarrow> 1"
  have "weighted_fold (map (\<lambda>b. (r ! (2 * b + ?o), 64 - 1 - b)) [0..<64]) =
      Some (\<Sum>(x, pow)\<leftarrow>map (\<lambda>b. (r ! (2 * b + ?o), 64 - 1 - b)) [0..<64]. x * 2 ^ pow)"
    by (rule weighted_fold_eq) auto
  then show ?thesis using operand_run_sum [of r 64 side 0] r by (simp add: operand_evaluate_def Let_def comp_def)
qed

lemma address_run_sum:
  "address_run acc r = acc * 2 ^ length r + (\<Sum>(i, x)\<leftarrow>enumerate k r. x * 2 ^ (k + length r - 1 - i))"
proof (induction r arbitrary: acc k)
  case (Cons x r)
  show ?case using Cons.IH [of "2 * acc + x" "Suc k"] by (simp add: algebra_simps)
qed simp

lemma identity_evaluate_run: "length r = 128 \<Longrightarrow> identity_evaluate 128 r = Some (address_run 0 r)"
proof -
  assume r: "length r = 128"
  have "weighted_fold (map (\<lambda>(i, x). (x, 128 - 1 - i)) (enumerate 0 r)) =
      Some (\<Sum>(x, pow)\<leftarrow>map (\<lambda>(i, x). (x, 128 - 1 - i)) (enumerate 0 r). x * 2 ^ pow)"
    by (rule weighted_fold_eq) auto
  then show ?thesis using address_run_sum [of 0 r 0] r by (simp add: identity_evaluate_def comp_def case_prod_unfold)
qed

end
