(* ===== verification/Read_Raf_Claims.thy ===== *)
theory Read_Raf_Claims
  imports Read_Raf_Relation Mle_Entry
begin

text \<open>
  The two ends of the read and RAF sumcheck: its initial claim is the relation's input expression at
  the evaluations of the columns it reads, and its final claim is the output expression at the
  kernel's output claims and the verifier's derived values.
\<close>

section \<open>Expressions\<close>

definition expr_sources :: "('f, 'o, 'p, 'c) claim_expr \<Rightarrow> ('o, 'p, 'c) source set" where
  "expr_sources e = (\<Union>t \<in> set e. set (ct_factors t))"

lemma expr_sources_simps:
  "expr_sources (expr_add e f) = expr_sources e \<union> expr_sources f"
  "expr_sources (expr_mul e f) \<subseteq> expr_sources e \<union> expr_sources f"
  "expr_sources (expr_opening o1) = {Opening o1}" "expr_sources (expr_derived p1) = {Derived p1}"
  "expr_sources (expr_challenge c1) = {Challenge c1}" "expr_sources expr_one = {}" "expr_sources expr_zero = {}"
  by (auto simp: expr_sources_def expr_add_def expr_mul_def expr_is_zero_def expr_zero_def expr_opening_def expr_derived_def
      expr_challenge_def expr_one_def term_source_def term_constant_def)

lemma try_evaluate_sources:
  assumes "\<And>s. s \<in> expr_sources e \<Longrightarrow> try_resolve a b c s = Inr (resolve ro rc rd s)"
  shows "try_evaluate e a b c = Inr (expr_evaluate e ro rc rd)"
proof -
  have f: "try_factors (try_resolve a b c) ss v = Inr (v * prod_list (map (resolve ro rc rd) ss))"
    if "\<And>s. s \<in> set ss \<Longrightarrow> try_resolve a b c s = Inr (resolve ro rc rd s)" for ss v
    using that by (induction ss arbitrary: v) (simp_all add: mult.assoc)
  have "try_terms (try_resolve a b c) e v = Inr (v + (\<Sum>t \<leftarrow> e. term_value (resolve ro rc rd) t))" for v
    using assms by (induction e arbitrary: v) (simp_all add: f expr_sources_def term_value_def add.assoc)
  then show ?thesis by (simp add: try_evaluate_def expr_evaluate_sum)
qed

lemma expr_evaluate_atoms:
  "expr_evaluate (expr_opening i) ro rc rd = ro i" "expr_evaluate (expr_challenge c) ro rc rd = rc c"
  "expr_evaluate (expr_derived p) ro rc rd = rd p" "expr_evaluate expr_one ro rc rd = 1" "expr_evaluate expr_zero ro rc rd = 0"
  by (simp_all add: expr_evaluate_sum expr_opening_def expr_challenge_def expr_derived_def expr_one_def expr_zero_def
      term_source_def term_constant_def term_value_def)

lemmas expr_evaluate_simps = expr_evaluate_atoms expr_evaluate_add expr_evaluate_mul expr_evaluate_pow

lemma ra_product_evaluate:
  "expr_evaluate (instruction_ra_product d) ro rc rd = (\<Prod>i\<leftarrow>[0..<dim_ra_polys d]. ro (instruction_ra_id i))"
proof -
  have "expr_evaluate (fold (\<lambda>i product. expr_mul product (expr_opening (instruction_ra_id i))) is e) ro rc rd =
      expr_evaluate e ro rc rd * (\<Prod>i\<leftarrow>is. ro (instruction_ra_id i))" for "is" e
    by (induction "is" arbitrary: e) (simp_all add: expr_evaluate_simps mult.assoc)
  then show ?thesis by (simp add: instruction_ra_product_def expr_evaluate_simps)
qed

lemma output_expression_evaluate:
  "expr_evaluate (read_raf_output_expression d) ro rc rd =
    (\<Sum>t\<leftarrow>wasm_tables. rd (eq_table_value_id t) * (\<Prod>i\<leftarrow>[0..<dim_ra_polys d]. ro (instruction_ra_id i)) * ro (lookup_table_flag_id t)) +
    rd EqRafConstant * (\<Prod>i\<leftarrow>[0..<dim_ra_polys d]. ro (instruction_ra_id i)) +
    rd EqRafFlag * (\<Prod>i\<leftarrow>[0..<dim_ra_polys d]. ro (instruction_ra_id i)) * ro instruction_raf_flag_id"
proof -
  have "expr_evaluate (fold (\<lambda>t output. expr_add output (expr_mul (expr_mul (expr_derived (eq_table_value_id t)) p) (expr_opening (lookup_table_flag_id t)))) ts e) ro rc rd =
      expr_evaluate e ro rc rd + (\<Sum>t\<leftarrow>ts. rd (eq_table_value_id t) * expr_evaluate p ro rc rd * ro (lookup_table_flag_id t))" for ts e p
    by (induction ts arbitrary: e) (simp_all add: expr_evaluate_simps add.assoc)
  then show ?thesis by (simp add: read_raf_output_expression_def Let_def expr_evaluate_simps ra_product_evaluate)
qed

definition output_openings :: "read_raf_dimensions \<Rightarrow> opening_id set" where
  "output_openings d = instruction_ra_id ` {..<dim_ra_polys d} \<union> range lookup_table_flag_id \<union> {instruction_raf_flag_id}"

lemma ra_product_sources: "expr_sources (instruction_ra_product d :: 'f::comm_ring_1 jolt_expr) \<subseteq> Opening ` output_openings d"
proof -
  have "expr_sources (fold (\<lambda>i product. expr_mul product (expr_opening (instruction_ra_id i))) is e) \<subseteq> Opening ` output_openings d"
    if "expr_sources e \<subseteq> Opening ` output_openings d" "set is \<subseteq> {..<dim_ra_polys d}" for "is" and e :: "'f jolt_expr"
    using that
  proof (induction "is" arbitrary: e)
    case (Cons i js)
    have "expr_sources (expr_mul e (expr_opening (instruction_ra_id i))) \<subseteq> Opening ` output_openings d"
      using expr_sources_simps(2) [of e "expr_opening (instruction_ra_id i)"] Cons.prems by (auto simp: expr_sources_simps(3) output_openings_def)
    from Cons.IH [OF this] show ?case using Cons.prems(2) by simp
  qed simp
  then show ?thesis by (simp add: instruction_ra_product_def expr_sources_simps lessThan_atLeast0)
qed

lemma output_expression_sources:
  "expr_sources (read_raf_output_expression d :: 'f::comm_ring_1 jolt_expr) \<subseteq>
    Opening ` output_openings d \<union> {Derived EqRafConstant, Derived EqRafFlag} \<union> range (\<lambda>t. Derived (eq_table_value_id t))"
proof -
  let ?O = "Opening ` output_openings d :: (opening_id, derived_id, challenge_id) source set"
  let ?p = "instruction_ra_product d :: 'f jolt_expr"
  note mul = expr_sources_simps(2)
  have row: "expr_sources (expr_mul (expr_mul (expr_derived x) ?p) (expr_opening i)) \<subseteq> {Derived x} \<union> ?O" if "i \<in> output_openings d" for x i
    using mul [of "expr_mul (expr_derived x) ?p" "expr_opening i"] mul [of "expr_derived x" ?p] ra_product_sources [where d = d and 'f = 'f] that
    by (auto simp: expr_sources_simps(3,4))
  have "expr_sources (fold (\<lambda>t output. expr_add output (expr_mul (expr_mul (expr_derived (eq_table_value_id t)) ?p) (expr_opening (lookup_table_flag_id t)))) ts e) \<subseteq>
      expr_sources e \<union> ?O \<union> range (\<lambda>t. Derived (eq_table_value_id t))" for ts e
  proof (induction ts arbitrary: e)
    case (Cons t ts)
    show ?case using Cons [of "expr_add e (expr_mul (expr_mul (expr_derived (eq_table_value_id t)) ?p) (expr_opening (lookup_table_flag_id t)))"]
        row [of "lookup_table_flag_id t" "eq_table_value_id t"]
      by (auto simp: expr_sources_simps(1) output_openings_def)
  qed auto
  note tables = this [of wasm_tables expr_zero]
  have "expr_sources (expr_mul (expr_derived EqRafConstant) ?p) \<subseteq> {Derived EqRafConstant} \<union> ?O"
    using mul [of "expr_derived EqRafConstant" ?p] ra_product_sources [where d = d and 'f = 'f] by (auto simp: expr_sources_simps(4))
  moreover have "instruction_raf_flag_id \<in> output_openings d" by (simp add: output_openings_def)
  ultimately show ?thesis using tables row [of instruction_raf_flag_id EqRafFlag]
    unfolding read_raf_output_expression_def Let_def expr_sources_simps(1,7) by blast
qed

section \<open>The claims of the kernel\<close>

lemma table_mle_eq_table:
  "length x = length z \<Longrightarrow> table_mle (eq_table 1 x) z = eq_product x z"
proof (induction x z rule: list_induct2)
  case (Cons a x b z)
  have len: "length (eq_table 1 (a # x)) = 2 ^ Suc (length z)" using Cons.hyps by simp
  let ?l = "map (\<lambda>e. e * (1 - a)) (eq_table 1 x)" and ?r = "map (\<lambda>e. e * a) (eq_table 1 x)"
  have f: "eq_table 1 (a # x) = ?l @ ?r" by (simp only: eq_table_front right_diff_distrib mult_1_right)
  have "take (2 ^ length z) (?l @ ?r) = ?l" "drop (2 ^ length z) (?l @ ?r) = ?r" using Cons.hyps by simp_all
  then have "table_mle (eq_table 1 (a # x)) (b # z) = (1 - b) * table_mle ?l z + b * table_mle ?r z"
    using table_mle_Cons [OF len, of b] unfolding f by (simp only:)
  then show ?case by (simp only: table_mle_map Cons.IH eq_product_simps) (simp add: algebra_simps)
qed simp

text \<open>The sums of the flag claims.\<close>

definition flag_claim :: "'f::comm_ring_1 read_raf_input \<Rightarrow> 'f list \<Rightarrow> nat \<Rightarrow> 'f" where
  "flag_claim inp z i = (\<Sum>j\<leftarrow>in_cycles inp. if rw_table_index (in_rows inp ! j) = Some i then eq_table 1 z ! j else 0)"

definition raf_flag_claim :: "'f::comm_ring_1 read_raf_input \<Rightarrow> 'f list \<Rightarrow> 'f" where
  "raf_flag_claim inp z = (\<Sum>j\<leftarrow>in_cycles inp. if rw_raf_flag (in_rows inp ! j) then eq_table 1 z ! j else 0)"

lemma flag_fold:
  fixes flags :: "'f::comm_ring_1 list"
  assumes "list_all row_ok (map fst l)" "length flags = TABLE_COUNT"
  shows "fold flag_step l (flags, f) =
    (map (\<lambda>i. flags ! i + (\<Sum>(row, e)\<leftarrow>l. if rw_table_index row = Some i then e else 0)) [0..<TABLE_COUNT],
     f + (\<Sum>(row, e)\<leftarrow>l. if rw_raf_flag row then e else 0))"
  using assms
proof (induction l arbitrary: flags f)
  case Nil
  then show ?case using map_nth [of flags] by simp
next
  case (Cons re l)
  obtain row e where re: "re = (row, e)" by force
  let ?flags = "case rw_table_index row of None \<Rightarrow> flags | Some i \<Rightarrow> accumulate i e flags"
  have nth: "?flags ! i = flags ! i + (if rw_table_index row = Some i then e else 0)" if "i < TABLE_COUNT" for i
    using that Cons.prems by (auto simp: accumulate_def nth_list_update split: option.split)
  have "length ?flags = TABLE_COUNT" using Cons.prems by (simp split: option.split)
  moreover have "fold flag_step (re # l) (flags, f) = fold flag_step l (?flags, if rw_raf_flag row then f + e else f)"
    by (simp add: flag_step_def re)
  ultimately show ?case using Cons.IH [of ?flags] Cons.prems by (simp add: re nth add.assoc)
qed

lemma output_claims_hold:
  fixes inp :: "'f::comm_ring_1 read_raf_input"
  assumes "input_ok inp" "cycle_state inp r ys k" "length ys = dim_log_t (in_dims inp)"
  shows "rr_output_claims k = Inr \<lparr>lookup_table_flags = map (flag_claim inp (rev ys)) [0..<TABLE_COUNT],
     instruction_ra = map (\<lambda>i. table_mle (map (ra_value inp r i) (in_rows inp)) (rev ys)) [0..<dim_ra_polys (in_dims inp)],
     instruction_raf_flag = raf_flag_claim inp (rev ys)\<rparr>"
proof -
  obtain T where k: "rr_dims k = in_dims inp" "rr_rows k = in_rows inp" "rr_cycle_challenges k = ys" "rr_rounds_bound k = 128 + length ys"
      "rr_cycle_tables k = Some T"
      "list_all2 (represents 0) (ct_ra T) (map (\<lambda>i z. table_mle (map (ra_value inp r i) (in_rows inp)) (z @ rev ys)) [0..<dim_ra_polys (in_dims inp)])"
    using assms(2,3) by (auto simp: cycle_state_def Let_def)
  have ok: "dim_address_bits (in_dims inp) = 128" "length (in_rows inp) = 2 ^ dim_log_t (in_dims inp)" "list_all row_ok (in_rows inp)"
    using assms(1) by (simp_all add: input_ok_def Let_def)
  let ?e = "view_eq_table (rev ys)"
  have e: "?e = eq_table 1 (rev ys)" "length ?e = length (in_rows inp)" using ok(2) assms(3) by (simp_all add: view_eq_table_def eq_evals_eq)
  have zip: "zip (in_rows inp) ?e = map (\<lambda>j. (in_rows inp ! j, eq_table 1 (rev ys) ! j)) (in_cycles inp)"
    by (rule nth_equalityI) (use e in auto)
  have fold: "fold flag_step (zip (in_rows inp) ?e) (replicate TABLE_COUNT 0, 0) =
      (map (flag_claim inp (rev ys)) [0..<TABLE_COUNT], raf_flag_claim inp (rev ys))"
  proof -
    have rows: "list_all row_ok (map fst (zip (in_rows inp) ?e))" using ok(3) e(2) by simp
    show ?thesis unfolding flag_fold [OF rows length_replicate] unfolding zip
      by (simp add: flag_claim_def raf_flag_claim_def comp_def)
  qed
  have ra: "those (map (\<lambda>p. nth_opt (dp_evals p) 0) (ct_ra T)) =
      Some (map (\<lambda>i. table_mle (map (ra_value inp r i) (in_rows inp)) (rev ys)) [0..<dim_ra_polys (in_dims inp)])"
    using prefixes_closed [OF k(6)] by simp
  show ?thesis unfolding rr_output_claims_def rr_num_rounds_def sumcheck_rounds_def k(1-5) option.case Let_def fold prod.case ra
    using ok(1) assms(3) by (simp add: ok_or_def bind_res_def)
qed

section \<open>The final claim\<close>

text \<open>The opening values of the output claims.\<close>

fun output_claim_value :: "'f read_raf_output_claims \<Rightarrow> opening_id \<Rightarrow> 'f option" where
  "output_claim_value c (Polynomial_Opening (PI_Virtual (VP_InstructionRa i)) InstructionReadRaf) = nth_opt (instruction_ra c) i"
| "output_claim_value c (Polynomial_Opening (PI_Virtual (VP_LookupTableFlag i)) InstructionReadRaf) = nth_opt (lookup_table_flags c) i"
| "output_claim_value c (Polynomial_Opening (PI_Virtual VP_InstructionRafFlag) InstructionReadRaf) = Some (instruction_raf_flag c)"
| "output_claim_value c _ = None"

lemma concat_chunks_take:
  "0 < n \<Longrightarrow> concat (map (\<lambda>p. take (length p - length z) p) (map (\<lambda>c. c @ z) (chunks n r))) = r"
  by (simp add: comp_def chunks_concat)

lemma derive_opening_points_holds:
  assumes "input_ok inp" "length cs = sumcheck_rounds (in_dims inp)"
  shows "\<exists>points. derive_opening_points (in_dims inp) cs = Inr points \<and> instruction_raf_flag points = rev (drop 128 cs) \<and>
    reconstruct_r_address points (length (rev (drop 128 cs))) = take 128 cs"
proof -
  let ?n = "dim_ra_polys (in_dims inp)"
  have ok: "dim_address_bits (in_dims inp) = 128" "0 < ?n" "128 mod ?n = 0" "length cs = 128 + dim_log_t (in_dims inp)"
    using assms by (simp_all add: input_ok_def Let_def sumcheck_rounds_def)
  have chunk: "128 div ?n * ?n = 128" using ok(3) by auto
  then have pos: "0 < 128 div ?n" by (cases "128 div ?n") simp_all
  have "read_raf_opening_point (in_dims inp) cs = Inr (take 128 cs, rev (drop 128 cs), take 128 cs @ rev (drop 128 cs))"
    using ok by (simp add: read_raf_opening_point_def Let_def)
  then have "derive_opening_points (in_dims inp) cs = Inr \<lparr>lookup_table_flags = replicate TABLE_COUNT (rev (drop 128 cs)),
      instruction_ra = map (\<lambda>c. c @ rev (drop 128 cs)) (chunks (128 div ?n) (take 128 cs)), instruction_raf_flag = rev (drop 128 cs)\<rparr>"
    using ok(2,4) chunk pos by (simp add: derive_opening_points_def Let_def)
  then show ?thesis using concat_chunks_take [OF pos, of "rev (drop 128 cs)" "take 128 cs"] by (simp add: reconstruct_r_address_def)
qed

lemma derive_output_term_holds:
  fixes inp :: "'f::comm_ring_1 read_raf_input" and r z :: "'f list"
  assumes "input_ok inp" "instruction_raf_flag points = z" "reconstruct_r_address points (length z) = r" "length r = 128"
    "length z = dim_log_t (in_dims inp)"
  shows "derive_output_term (in_dims inp) (eq_table_value_id t) (in_reduction inp) points (in_gamma inp) =
      Inr (eq_product (in_reduction inp) z * table_mle_value t r)"
    "derive_output_term (in_dims inp) EqRafConstant (in_reduction inp) points (in_gamma inp) =
      Inr (eq_product (in_reduction inp) z * raf_value inp r False)"
    "derive_output_term (in_dims inp) EqRafFlag (in_reduction inp) points (in_gamma inp) =
      Inr (eq_product (in_reduction inp) z * (raf_value inp r True - raf_value inp r False))"
proof -
  have ok: "dim_address_bits (in_dims inp) = 128" "length (in_reduction inp) = dim_log_t (in_dims inp)"
    using assms(1) by (simp_all add: input_ok_def Let_def)
  have eq: "try_eq_mle (in_reduction inp) z = Inr (eq_product (in_reduction inp) z)"
    using ok(2) assms(5) by (simp add: try_eq_mle_def eq_mle_eq ok_or_def)
  have index: "table_from_index (table_index t) = Some t" using nth_table_index [of t] table_index_less [of t]
    by (simp add: table_from_index_def TABLE_COUNT_def)
  have "twos 64 = 6" using twos_power [of 6] by simp
  then have mle: "evaluate_mle t r = Some (table_mle_value t r)" using assms(4) by (cases t) (simp_all add: evaluate_mle_def XLEN_def log_xlen_def)
  note run = operand_evaluate_run [OF assms(4)] identity_evaluate_run [OF assms(4)]
  note unfold = derive_output_term_def Let_def assms(2,3) eq sum.case ok(1) assms(4) run ok_or_def option.case bind_res_def derived_id.case
  show "derive_output_term (in_dims inp) (eq_table_value_id t) (in_reduction inp) points (in_gamma inp) =
      Inr (eq_product (in_reduction inp) z * table_mle_value t r)"
    unfolding unfold eq_table_value_id_def by (simp add: index mle)
  show "derive_output_term (in_dims inp) EqRafConstant (in_reduction inp) points (in_gamma inp) =
      Inr (eq_product (in_reduction inp) z * raf_value inp r False)"
    unfolding unfold by (simp add: raf_value_def power2_eq_square)
  show "derive_output_term (in_dims inp) EqRafFlag (in_reduction inp) points (in_gamma inp) =
      Inr (eq_product (in_reduction inp) z * (raf_value inp r True - raf_value inp r False))"
    unfolding unfold by (simp add: raf_value_def power2_eq_square CANONICAL_INSTRUCTION_ADDRESS_def algebra_simps)
qed

text \<open>The extension of the row values, from the flag claims.\<close>

lemma row_values_mle:
  fixes inp :: "'f::comm_ring_1 read_raf_input"
  assumes "input_ok inp" "length z = dim_log_t (in_dims inp)"
  shows "table_mle (map (row_value inp r) (in_rows inp)) z =
    (\<Sum>t\<leftarrow>wasm_tables. table_mle_value t r * flag_claim inp z (table_index t)) + raf_value inp r False +
    (raf_value inp r True - raf_value inp r False) * raf_flag_claim inp z"
proof -
  let ?e = "eq_table 1 z" and ?i = "\<lambda>j. rw_table_index (in_rows inp ! j)" and ?f = "\<lambda>j. rw_raf_flag (in_rows inp ! j)"
  have len: "length ?e = length (in_rows inp)" using assms by (simp add: input_ok_def Let_def)
  have split: "(\<Sum>j\<leftarrow>js. A j + (c * e j + (if P j then d * e j else 0))) =
      (\<Sum>j\<leftarrow>js. A j) + (c * (\<Sum>j\<leftarrow>js. e j) + d * (\<Sum>j\<leftarrow>js. if P j then e j else 0))"
    for js :: "nat list" and A e :: "nat \<Rightarrow> 'f" and P c d by (induction js) (simp_all add: algebra_simps)
  have "map2 (*) (map (row_value inp r) (in_rows inp)) ?e = map (\<lambda>j. row_value inp r (in_rows inp ! j) * ?e ! j) (in_cycles inp)"
    by (rule nth_equalityI) (use len in auto)
  then have "table_mle (map (row_value inp r) (in_rows inp)) z =
      (\<Sum>j\<leftarrow>in_cycles inp. (case ?i j of None \<Rightarrow> 0 | Some i \<Rightarrow> table_mle_value (wasm_tables ! i) r * ?e ! j) +
        (raf_value inp r False * ?e ! j + (if ?f j then (raf_value inp r True - raf_value inp r False) * ?e ! j else 0)))"
    unfolding table_mle_def
    by (auto intro!: arg_cong [where f = sum_list] simp: row_value_def algebra_simps split: option.split)
  also have "\<dots> = (\<Sum>j\<leftarrow>in_cycles inp. case ?i j of None \<Rightarrow> 0 | Some i \<Rightarrow> table_mle_value (wasm_tables ! i) r * ?e ! j) +
      (raf_value inp r False * (\<Sum>j\<leftarrow>in_cycles inp. ?e ! j) + (raf_value inp r True - raf_value inp r False) * raf_flag_claim inp z)"
    unfolding raf_flag_claim_def by (rule split)
  also have "(\<Sum>j\<leftarrow>in_cycles inp. ?e ! j) = 1" using sum_eq_table [of 1 z] map_nth [of ?e] len by simp
  also have "(\<Sum>j\<leftarrow>in_cycles inp. case ?i j of None \<Rightarrow> 0 | Some i \<Rightarrow> table_mle_value (wasm_tables ! i) r * ?e ! j) =
      (\<Sum>t\<leftarrow>filter (\<lambda>t. in_buckets inp ! table_index t \<noteq> []) wasm_tables. \<Sum>j\<leftarrow>in_buckets inp ! table_index t. table_mle_value t r * ?e ! j)"
    by (rule sum_buckets [OF assms(1), symmetric])
  also have "\<dots> = (\<Sum>t\<leftarrow>wasm_tables. table_mle_value t r * flag_claim inp z (table_index t))"
    unfolding sum_list_if_filter
    by (intro arg_cong [where f = sum_list] map_cong refl)
      (auto simp: nth_in_buckets table_index_less flag_claim_def sum_list_const_mult sum_list_if_filter [symmetric])
  finally show ?thesis by (simp add: add.assoc)
qed

lemma output_claim_final:
  fixes inp :: "'f::comm_ring_1 read_raf_input"
  assumes "input_ok inp" "read_raf_state inp cs k" "length cs = sumcheck_rounds (in_dims inp)"
  shows "\<exists>claims points. rr_output_claims k = Inr claims \<and> derive_opening_points (in_dims inp) cs = Inr points \<and>
    try_evaluate (read_raf_output_expression (in_dims inp)) (\<lambda>i. ok_or (output_claim_value claims i) Verifier_Panicked)
      (\<lambda>_. Inr (in_gamma inp)) (\<lambda>p. derive_output_term (in_dims inp) p (in_reduction inp) points (in_gamma inp)) = Inr (read_raf_poly inp cs)"
proof -
  let ?d = "in_dims inp" and ?g = "in_gamma inp"
  define r where "r = take 128 cs"
  define z where "z = rev (drop 128 cs)"
  have len: "length r = 128" "length z = dim_log_t ?d" "\<not> length cs < 128"
    using assms(1,3) by (simp_all add: input_ok_def Let_def sumcheck_rounds_def r_def z_def)
  have st: "cycle_state inp r (drop 128 cs) k" using assms(2) len(3) by (simp add: read_raf_state_def r_def)
  let ?claims = "\<lparr>lookup_table_flags = map (flag_claim inp z) [0..<TABLE_COUNT],
     instruction_ra = map (\<lambda>i. table_mle (map (ra_value inp r i) (in_rows inp)) z) [0..<dim_ra_polys ?d], instruction_raf_flag = raf_flag_claim inp z\<rparr>"
  have claims: "rr_output_claims k = Inr ?claims" using output_claims_hold [OF assms(1) st] len(2) by (simp add: z_def)
  obtain points where points: "derive_opening_points ?d cs = Inr points" "instruction_raf_flag points = z"
      "reconstruct_r_address points (length z) = r"
    using derive_opening_points_holds [OF assms(1,3)] by (auto simp: r_def z_def)
  note derived = derive_output_term_holds [OF assms(1) points(2,3) len(1,2)]
  let ?ro = "\<lambda>i. case output_claim_value ?claims i of Some v \<Rightarrow> v | None \<Rightarrow> 0"
  let ?rd = "\<lambda>p. case derive_output_term ?d p (in_reduction inp) points ?g of Inr v \<Rightarrow> v | Inl _ \<Rightarrow> 0"
  have ra_open: "output_claim_value ?claims (instruction_ra_id i) = Some (table_mle (map (ra_value inp r i) (in_rows inp)) z)" if "i < dim_ra_polys ?d" for i
    using that by (simp add: instruction_ra_id_def virtual_opening_def)
  have flags: "output_claim_value ?claims (lookup_table_flag_id t) = Some (flag_claim inp z (table_index t))" for t
    using table_index_less [of t] by (simp add: lookup_table_flag_id_def virtual_opening_def del: upt_Suc)
  have raf: "output_claim_value ?claims instruction_raf_flag_id = Some (raf_flag_claim inp z)" by (simp add: instruction_raf_flag_id_def virtual_opening_def)
  have "try_evaluate (read_raf_output_expression ?d) (\<lambda>i. ok_or (output_claim_value ?claims i) Verifier_Panicked) (\<lambda>_. Inr ?g)
      (\<lambda>p. derive_output_term ?d p (in_reduction inp) points ?g) = Inr (expr_evaluate (read_raf_output_expression ?d) ?ro (\<lambda>_. ?g) ?rd)"
  proof (rule try_evaluate_sources)
    fix s assume "s \<in> expr_sources (read_raf_output_expression ?d :: 'f jolt_expr)"
    then consider i where "s = Opening i" "i \<in> output_openings ?d" | "s = Derived EqRafConstant" | "s = Derived EqRafFlag"
      | t where "s = Derived (eq_table_value_id t)" using output_expression_sources by blast
    then show "try_resolve (\<lambda>i. ok_or (output_claim_value ?claims i) Verifier_Panicked) (\<lambda>_. Inr ?g)
        (\<lambda>p. derive_output_term ?d p (in_reduction inp) points ?g) s = Inr (resolve ?ro (\<lambda>_. ?g) ?rd s)"
    proof cases
      case 1
      then have "\<exists>v. output_claim_value ?claims i = Some v" unfolding output_openings_def using ra_open flags raf by blast
      then show ?thesis using 1(1) by (auto simp: ok_or_def)
    qed (simp_all add: derived)
  qed
  also have "expr_evaluate (read_raf_output_expression ?d) ?ro (\<lambda>_. ?g) ?rd = read_raf_poly inp cs"
  proof -
    have ra: "(\<Prod>i\<leftarrow>[0..<dim_ra_polys ?d]. ?ro (instruction_ra_id i)) = (\<Prod>i\<leftarrow>[0..<dim_ra_polys ?d]. table_mle (map (ra_value inp r i) (in_rows inp)) z)"
      by (intro arg_cong [where f = prod_list] map_cong refl) (simp add: ra_open del: output_claim_value.simps)
    have len_red: "length (in_reduction inp) = length z" using assms(1) len(2) by (simp add: input_ok_def Let_def)
    have fact: "(\<Sum>t\<leftarrow>ts. E * T t * R * F t) = E * R * (\<Sum>t\<leftarrow>ts. T t * F t)" for E R :: 'f and T F and ts :: "wasm_table list"
      by (induction ts) (simp_all add: algebra_simps)
    show ?thesis unfolding output_expression_evaluate ra
      unfolding read_raf_poly_def Let_def r_def [symmetric] z_def [symmetric] row_values_mle [OF assms(1) len(2)] view_eq_table_def
        eq_evals_eq option.case table_mle_eq_table [OF len_red] derived sum.case flags raf fact
      by (simp add: algebra_simps)
  qed
  finally show ?thesis using claims points(1) by blast
qed

section \<open>The initial claim\<close>

text \<open>The columns that the relation's inputs open: the looked-up value and the operands of each row.\<close>

definition lookup_output_column :: "'f::comm_ring_1 read_raf_input \<Rightarrow> 'f list" where
  "lookup_output_column inp = map (\<lambda>row. case rw_table_index row of None \<Rightarrow> 0
     | Some i \<Rightarrow> from_u64 (materialize_entry (wasm_tables ! i) (rw_lookup_index row))) (in_rows inp)"

definition left_operand_column :: "'f::comm_ring_1 read_raf_input \<Rightarrow> 'f list" where
  "left_operand_column inp = map (\<lambda>row. if rw_raf_flag row then 0 else from_u64 (fst (uninterleave_bits (rw_lookup_index row)))) (in_rows inp)"

definition right_operand_column :: "'f::comm_ring_1 read_raf_input \<Rightarrow> 'f list" where
  "right_operand_column inp = map (\<lambda>row. if rw_raf_flag row then from_u128 (rw_lookup_index row)
     else from_u64 (snd (uninterleave_bits (rw_lookup_index row)))) (in_rows inp)"

lemma row_value_index:
  fixes inp :: "'f::comm_ring_1 read_raf_input"
  shows "row_value inp (index_point (rw_lookup_index row)) row =
    (case rw_table_index row of None \<Rightarrow> 0 | Some i \<Rightarrow> from_u64 (materialize_entry (wasm_tables ! i) (rw_lookup_index row))) +
    in_gamma inp * (if rw_raf_flag row then 0 else from_u64 (fst (uninterleave_bits (rw_lookup_index row)))) +
    in_gamma inp ^ 2 * (if rw_raf_flag row then from_u128 (rw_lookup_index row) else from_u64 (snd (uninterleave_bits (rw_lookup_index row))))"
proof -
  let ?v = "rw_lookup_index row"
  obtain x y where v: "?v = interleave_bits x y" "uninterleave_bits ?v = (x, y)"
    using operands_of_index [of ?v] by (cases "uninterleave_bits ?v") simp
  have point: "(index_point ?v :: 'f list) = chunk_point 64 ?v" by (simp add: index_point_def chunk_point_def)
  have u: "unat w mod 18446744073709551616 = unat w" for w :: u64 using unat_u64_less_numeral [of w] by simp
  have op: "operand_run side 0 (index_point ?v) = (from_u64 (side_operand side x y) :: 'f)" for side
    unfolding point unfolding v(1) using operand_run_bits [of 64 side 0 x y] by (simp add: u from_u64_def)
  have "unat ?v < 2 ^ 128" by (rule order.strict_trans2 [OF unsigned_less]) simp
  then have ad: "address_run 0 (index_point ?v) = (from_u128 ?v :: 'f)"
    unfolding index_point_def address_run_bits by (simp add: from_u128_def)
  show ?thesis unfolding row_value_def raf_value_def op ad table_mle_value_entry v(2)
    by (simp add: side_operand_def add.assoc split: option.split)
qed

lemma table_mle_column:
  "length rows = length (eq_table 1 z) \<Longrightarrow> table_mle (map f rows) z = (\<Sum>j\<leftarrow>[0..<length rows]. f (rows ! j) * eq_table 1 z ! j)"
  unfolding table_mle_def by (intro arg_cong [where f = sum_list] nth_equalityI) simp_all

lemma initial_claim_columns:
  fixes inp :: "'f::field read_raf_input"
  assumes "input_ok inp"
  shows "read_raf_claim inp [] = table_mle (lookup_output_column inp) (in_reduction inp) +
    in_gamma inp * table_mle (left_operand_column inp) (in_reduction inp) + in_gamma inp ^ 2 * table_mle (right_operand_column inp) (in_reduction inp)"
proof -
  let ?t = "dim_log_t (in_dims inp)" and ?E = "eq_table 1 (in_reduction inp)" and ?row = "\<lambda>j. in_rows inp ! j"
  have ok: "sumcheck_rounds (in_dims inp) = 128 + ?t" "length (in_rows inp) = length ?E"
    using assms by (simp_all add: input_ok_def Let_def sumcheck_rounds_def)
  have "read_raf_claim inp [] = grid_sum [0, 1] 128 (\<lambda>a. grid_sum [0, 1] ?t (\<lambda>z. read_raf_poly inp (a @ z)))"
    by (simp add: read_raf_claim_def ok(1) grid_sum_append)
  also have "\<dots> = grid_sum [0, 1] 128 (\<lambda>a. \<Sum>j\<leftarrow>in_cycles inp. ?E ! j * (eq_product (index_point (in_index inp j)) a * row_value inp a (?row j)))"
    using cycle_grid [OF assms] by (intro grid_sum_cong) (simp add: u_weight_def view_eq_table_def eq_evals_eq mult.assoc)
  also have "\<dots> = (\<Sum>j\<leftarrow>in_cycles inp. ?E ! j * grid_sum [0, 1] 128 (\<lambda>a. eq_product (index_point (in_index inp j)) a * row_value inp a (?row j)))"
    by (simp only: grid_sum_list grid_sum_linear(2))
  also have "\<dots> = (\<Sum>j\<leftarrow>in_cycles inp. ?E ! j * row_value inp (index_point (in_index inp j)) (?row j))"
    using grid_sum_select [of "msb_bits 128 (unat (in_index inp j))" "\<lambda>a. row_value inp a (?row j)" for j] by (simp add: index_point_def)
  finally show ?thesis
    unfolding lookup_output_column_def left_operand_column_def right_operand_column_def table_mle_column [OF ok(2)] row_value_index
    by (simp add: sum_list_const_mult [symmetric] sum_list_addf [symmetric] algebra_simps)
qed

end
