(* ===== verification/Read_Raf_Props.thy ===== *)
theory Read_Raf_Props
  imports Complex_Main Read_Raf_Claims Sumcheck_Props
begin

text \<open>
  The read and RAF sumcheck from end to end: the kernel built from the rows, its rounds, the claim it
  starts from, the claims it ends with, and its run in the batched prover; with two rows over the
  rationals as the example.
\<close>

section \<open>An example\<close>

definition two_rows :: "rat read_raf_input" where
  "two_rows = \<lparr>in_dims = \<lparr>dim_log_t = 1, dim_address_bits = 128, dim_ra_polys = 16\<rparr>, in_reduction = [3],
     in_rows = [\<lparr>rw_lookup_index = 5, rw_table_index = Some 0, rw_raf_flag = True\<rparr>,
       \<lparr>rw_lookup_index = 6, rw_table_index = Some 2, rw_raf_flag = False\<rparr>], in_gamma = 7\<rparr>"

lemma two_rows_ok: "input_ok two_rows"
  by (simp add: two_rows_def input_ok_def row_ok_def TABLE_COUNT_def wasm_tables_def shift_operand_def)

lemma two_rows_dims: "sumcheck_rounds (in_dims two_rows) = 129" "dim_ra_polys (in_dims two_rows) = 16"
  by (simp_all add: two_rows_def sumcheck_rounds_def)

lemma rat_of_nat_inj: "inj_on (of_nat :: nat \<Rightarrow> rat) A"
  by (simp add: inj_on_def)

lemma read_raf_bound:
  fixes inp :: "'f::field read_raf_input"
  assumes "input_ok inp" "length cs \<le> sumcheck_rounds (in_dims inp)"
  shows "\<exists>k k'. read_raf_new (in_dims inp) (in_reduction inp) (in_rows inp) (in_gamma inp) = Inr k \<and> read_raf_state inp [] k \<and>
    rr_bind_all cs k = Inr k' \<and> read_raf_state inp cs k'"
proof -
  obtain k where k: "read_raf_new (in_dims inp) (in_reduction inp) (in_rows inp) (in_gamma inp) = Inr k" "address_state inp [] k"
    using read_raf_new_holds [OF assms(1)] by blast
  then have st: "read_raf_state inp [] k" by (simp add: read_raf_state_def)
  then show ?thesis using rr_bind_all_holds [OF assms(1) st, of cs] assms(2) k(1) by simp
qed

section \<open>The rounds\<close>

text \<open>C6: the kernel's rounds are exact. From the rows, the kernel is built and binds any challenges,
  fewer than there are rounds; then its round, asked for the claim of the relation's polynomial at them, gives a polynomial of degree
  at most the relation's that at every field element is the claim after that challenge.
  The input is well formed (\<open>input_ok\<close>: dimensions, lengths and table numbers as the constructor
  wants them, and bitmask right operands in the rows of the shift and rotation tables), and the field tells the integers below the relation's degree plus one apart.\<close>

theorem read_raf_rounds_exact:
  fixes inp :: "'f::field read_raf_input"
  assumes "input_ok inp" "inj_on (of_nat :: nat \<Rightarrow> 'f) {..<dim_ra_polys (in_dims inp) + 3}"
    and "length cs < sumcheck_rounds (in_dims inp)"
  shows "\<exists>k k' p. read_raf_new (in_dims inp) (in_reduction inp) (in_rows inp) (in_gamma inp) = Inr k \<and> rr_bind_all cs k = Inr k' \<and>
    rr_prove_round k' None i (read_raf_claim inp cs) = Inr (p, k') \<and> up_degree p \<le> read_raf_degree (in_dims inp) \<and>
    (\<forall>c. up_evaluate p c = read_raf_claim inp (cs @ [c]))"
proof -
  obtain k k' where "read_raf_new (in_dims inp) (in_reduction inp) (in_rows inp) (in_gamma inp) = Inr k"
      "rr_bind_all cs k = Inr k'" "read_raf_state inp cs k'"
    using read_raf_bound [OF assms(1), of cs] assms(3) by auto
  then show ?thesis using rr_prove_round_holds(1) [OF assms(1,2) _ assms(3)]
    by (fastforce simp: degree_length read_raf_degree_def READ_RAF_BASE_DEGREE_def)
qed

theorem read_raf_rounds_exact_witness:
  "\<exists>k k' p. read_raf_new (in_dims two_rows) [3] (in_rows two_rows) 7 = Inr k \<and> rr_bind_all [2] k = Inr k' \<and>
    rr_prove_round k' None 1 (read_raf_claim two_rows [2]) = Inr (p, k') \<and> up_degree p \<le> 18 \<and>
    (\<forall>c. up_evaluate p c = read_raf_claim two_rows [2, c])"
  using read_raf_rounds_exact [OF two_rows_ok rat_of_nat_inj, of "[2]" 1]
  by (simp add: two_rows_dims read_raf_degree_def READ_RAF_BASE_DEGREE_def) (simp add: two_rows_def)

text \<open>C19: a wrong claim is refused. Asked for any other claim, the round returns the round check's
  error with the claim asked for and the right one. The input is well formed (\<open>input_ok\<close>: dimensions, lengths and table numbers as the constructor
  wants them, and bitmask right operands in the rows of the shift and rotation tables), fewer challenges are bound than
  there are rounds, and the field tells the integers below the relation's degree plus one apart.\<close>

theorem read_raf_wrong_claim:
  fixes inp :: "'f::field read_raf_input"
  assumes "input_ok inp" "inj_on (of_nat :: nat \<Rightarrow> 'f) {..<dim_ra_polys (in_dims inp) + 3}"
    and "length cs < sumcheck_rounds (in_dims inp)" "claim \<noteq> read_raf_claim inp cs"
  shows "\<exists>k k'. read_raf_new (in_dims inp) (in_reduction inp) (in_rows inp) (in_gamma inp) = Inr k \<and> rr_bind_all cs k = Inr k' \<and>
    rr_prove_round k' None i claim = Inl (RoundCheckFailed i claim (read_raf_claim inp cs))"
proof -
  obtain k k' where "read_raf_new (in_dims inp) (in_reduction inp) (in_rows inp) (in_gamma inp) = Inr k"
      "rr_bind_all cs k = Inr k'" "read_raf_state inp cs k'"
    using read_raf_bound [OF assms(1), of cs] assms(3) by auto
  then show ?thesis using rr_prove_round_holds(2) [OF assms(1,2) _ assms(3,4)] by blast
qed

theorem read_raf_wrong_claim_witness:
  "\<exists>k k'. read_raf_new (in_dims two_rows) [3] (in_rows two_rows) 7 = Inr k \<and> rr_bind_all [2] k = Inr k' \<and>
    rr_prove_round k' None 1 (read_raf_claim two_rows [2] + 1) =
      Inl (RoundCheckFailed 1 (read_raf_claim two_rows [2] + 1) (read_raf_claim two_rows [2]))"
  using read_raf_wrong_claim [OF two_rows_ok rat_of_nat_inj, of "[2]" "read_raf_claim two_rows [2] + 1" 1]
  by (simp add: two_rows_dims) (simp add: two_rows_def)

section \<open>The ends\<close>

text \<open>The openings of the input expression: the columns' extensions at the reduction point.\<close>

definition input_opening_value :: "'f::comm_ring_1 read_raf_input \<Rightarrow> opening_id \<Rightarrow> 'f" where
  "input_opening_value inp i =
     (if i = lookup_output_reduced then table_mle (lookup_output_column inp) (in_reduction inp)
      else if i = left_lookup_operand_reduced then table_mle (left_operand_column inp) (in_reduction inp)
      else if i = right_lookup_operand_reduced then table_mle (right_operand_column inp) (in_reduction inp)
      else 0)"

text \<open>C15: the sumcheck starts from the looked-up values. The sum of the relation's polynomial over
  all addresses and cycles is the relation's input expression at the extensions, at the reduction
  point, of the column of the table entries the rows look up and the two columns of their operands.
  The input is well formed (\<open>input_ok\<close>: dimensions, lengths and table numbers as the constructor
  wants them, and bitmask right operands in the rows of the shift and rotation tables).\<close>

theorem read_raf_initial_claim:
  fixes inp :: "'f::field read_raf_input"
  assumes "input_ok inp"
  shows "read_raf_claim inp [] =
    expr_evaluate read_raf_input_expression (input_opening_value inp) (\<lambda>_. in_gamma inp) (\<lambda>_. 0)"
  unfolding initial_claim_columns [OF assms]
  by (simp add: read_raf_input_expression_def Let_def expr_evaluate_simps input_opening_value_def
      lookup_output_reduced_def left_lookup_operand_reduced_def right_lookup_operand_reduced_def)

theorem read_raf_initial_claim_witness:
  "read_raf_claim two_rows [] =
    expr_evaluate read_raf_input_expression (input_opening_value two_rows) (\<lambda>_. 7) (\<lambda>_. 0)"
  using read_raf_initial_claim [OF two_rows_ok] by (simp add: two_rows_def)

text \<open>C5: the sumcheck ends where the verifier checks. With all challenges bound, the kernel gives
  its output claims, the verifier derives the opening points, and the relation's output expression,
  with the output claims as openings and the values the verifier derives at those points, is the
  claim that is left. The input is well formed (\<open>input_ok\<close>: dimensions, lengths and table numbers as the constructor
  wants them, and bitmask right operands in the rows of the shift and rotation tables).\<close>

theorem read_raf_final_claim:
  fixes inp :: "'f::field read_raf_input"
  assumes "input_ok inp" "length cs = sumcheck_rounds (in_dims inp)"
  shows "\<exists>k k' claims points. read_raf_new (in_dims inp) (in_reduction inp) (in_rows inp) (in_gamma inp) = Inr k \<and>
    rr_bind_all cs k = Inr k' \<and> rr_output_claims k' = Inr claims \<and> derive_opening_points (in_dims inp) cs = Inr points \<and>
    try_evaluate (read_raf_output_expression (in_dims inp)) (\<lambda>i. ok_or (output_claim_value claims i) Verifier_Panicked)
      (\<lambda>_. Inr (in_gamma inp)) (\<lambda>p. derive_output_term (in_dims inp) p (in_reduction inp) points (in_gamma inp)) =
    Inr (read_raf_claim inp cs)"
proof -
  obtain k k' where "read_raf_new (in_dims inp) (in_reduction inp) (in_rows inp) (in_gamma inp) = Inr k"
      "rr_bind_all cs k = Inr k'" "read_raf_state inp cs k'"
    using read_raf_bound [OF assms(1), of cs] assms(2) by auto
  then show ?thesis unfolding read_raf_claim_full [OF assms(2)] using output_claim_final [OF assms(1) _ assms(2)] by blast
qed

theorem read_raf_final_claim_witness:
  "\<exists>k k' claims points. read_raf_new (in_dims two_rows) [3] (in_rows two_rows) 7 = Inr k \<and>
    rr_bind_all (replicate 129 2) k = Inr k' \<and> rr_output_claims k' = Inr claims \<and> derive_opening_points (in_dims two_rows) (replicate 129 2) = Inr points \<and>
    try_evaluate (read_raf_output_expression (in_dims two_rows)) (\<lambda>i. ok_or (output_claim_value claims i) Verifier_Panicked)
      (\<lambda>_. Inr 7) (\<lambda>p. derive_output_term (in_dims two_rows) p [3] points 7) =
    Inr (read_raf_claim two_rows (replicate 129 2))"
proof -
  have "in_reduction two_rows = [3]" "in_gamma two_rows = 7" by (simp_all add: two_rows_def)
  then show ?thesis using read_raf_final_claim [OF two_rows_ok, of "replicate 129 2"] unfolding two_rows_dims(1) by (simp only: length_replicate simp_thms)
qed

section \<open>The kernel in a batch\<close>

definition read_raf_batch_member :: "'f::field read_raf_input \<Rightarrow> 'f \<Rightarrow> 'f batch_member" where
  "read_raf_batch_member inp a =
     \<lparr>bm_input_claim = read_raf_claim inp [], bm_coefficient = a, bm_rounds = sumcheck_rounds (in_dims inp), bm_offset = 0\<rparr>"

text \<open>C16: the kernel's sumcheck verifies. Run by the batched prover, in the batch whose only member it
  is, with the relation's claim, the kernel gets through every round on any transcript, and the compressed
  verifier accepts what is recorded, for the claim scaled by the batching coefficient and the relation's
  degree, with the prover's challenges and final claim. The input is well formed (\<open>input_ok\<close>: dimensions, lengths and table numbers as the constructor
  wants them, and bitmask right operands in the rows of the shift and rotation tables), and the field tells the integers below the relation's degree plus one apart.\<close>

theorem read_raf_proof_verifies:
  fixes inp :: "'f::field read_raf_input"
  assumes "input_ok inp" "inj_on (of_nat :: nat \<Rightarrow> 'f) {..<dim_ra_polys (in_dims inp) + 3}"
    and "prelude_new [read_raf_batch_member inp a] (sumcheck_rounds (in_dims inp)) (read_raf_degree (in_dims inp)) = Some prelude"
  shows "\<exists>k proved ks recorded t'. read_raf_new (in_dims inp) (in_reduction inp) (in_rows inp) (in_gamma inp) = Inr k \<and>
    prove_batch ops read_raf_prover prelude [k] t = Inr (proved, ks, recorded, t') \<and>
    verify_compressed_boolean ops (Clear (Compressed_Proof recorded) :: ('f, 'c) sumcheck_proof)
      (sumcheck_rounds (in_dims inp)) (read_raf_degree (in_dims inp)) (a * read_raf_claim inp []) t =
    Inr (\<lparr>ec_point = pb_challenges proved, ec_value = pb_final_claim proved\<rparr>, t')"
proof -
  let ?m = "read_raf_batch_member inp a" and ?n = "sumcheck_rounds (in_dims inp)" and ?d = "read_raf_degree (in_dims inp)"
  obtain k where k: "read_raf_new (in_dims inp) (in_reduction inp) (in_rows inp) (in_gamma inp) = Inr k" "read_raf_state inp [] k"
    using read_raf_bound [OF assms(1), of "[]"] by auto
  have d: "?d = dim_ra_polys (in_dims inp) + 2" by (simp add: read_raf_degree_def READ_RAF_BASE_DEGREE_def)
  have "rr_dims k = in_dims inp" using k(2) by (simp add: read_raf_state_def address_state_def frame_holds_def)
  then have ready: "members_ready read_raf_prover ?n (read_raf_member inp) [?m] [k]"
    using k(2) by (auto simp: members_ready_def read_raf_batch_member_def read_raf_prover_def rr_num_rounds_def read_raf_member_def intro!: exI [of _ "[]"])
  have "(of_nat 0 :: 'f) \<noteq> of_nat 2" using inj_onD [OF assms(2), of 0 2] by auto
  then have two: "(2 :: 'f) \<noteq> 0" by simp
  obtain proved ks recorded t' where run: "prove_batch ops read_raf_prover prelude [k] t = Inr (proved, ks, recorded, t')"
    using prove_batch_succeeds [OF assms(3) ready _ two, of ops t] read_raf_member_honest [OF assms(1,2)] d by auto
  have "bp_max_num_vars prelude = ?n" "bp_max_degree prelude = ?d" "bp_claimed_sum prelude = a * read_raf_claim inp []"
    using assms(3) by (auto simp: prelude_new_def read_raf_batch_member_def)
  then show ?thesis using prove_batch_verified [OF run] run k(1) d by (auto simp: claim_new_def)
qed

theorem read_raf_proof_verifies_witness:
  "\<exists>k proved ks recorded t'. read_raf_new (in_dims two_rows) [3] (in_rows two_rows) 7 = Inr k \<and>
    prove_batch coin_ops read_raf_prover (the (prelude_new [read_raf_batch_member two_rows 2] 129 18)) [k] [1, 2] = Inr (proved, ks, recorded, t') \<and>
    verify_compressed_boolean coin_ops (Clear (Compressed_Proof recorded) :: (rat, unit) sumcheck_proof) 129 18
      (2 * read_raf_claim two_rows []) [1, 2] = Inr (\<lparr>ec_point = pb_challenges proved, ec_value = pb_final_claim proved\<rparr>, t')"
proof -
  let ?p = "prelude_new [read_raf_batch_member two_rows 2] 129 18"
  have d: "read_raf_degree (in_dims two_rows) = 18" by (simp add: read_raf_degree_def READ_RAF_BASE_DEGREE_def two_rows_dims)
  have "?p = Some (the ?p)" by (simp add: prelude_new_def read_raf_batch_member_def two_rows_dims)
  moreover have "in_reduction two_rows = [3]" "in_gamma two_rows = 7" by (simp_all add: two_rows_def)
  ultimately show ?thesis
    using read_raf_proof_verifies [OF two_rows_ok rat_of_nat_inj, where a = 2 and prelude = "the ?p" and ops = coin_ops and t = "[1, 2]" and 'c = unit]
    unfolding d two_rows_dims(1) by simp
qed

end
