(* ===== verification/Table_Props.thy ===== *)
theory Table_Props
  imports Complex_Main Read_Raf_Degree
begin

text \<open>
  The lookup tables over the field: each table's evaluation at a point is the multilinear extension of
  its entries, and the prefix and suffix tables of the phases recombine to that evaluation.
\<close>

section \<open>Functions of a table\<close>

lemma multi_affine_unique:
  assumes "multi_affine n f" "multi_affine n g" "\<And>i. i < 2 ^ n \<Longrightarrow> f (bool_point (msb_bits n i)) = g (bool_point (msb_bits n i))"
    and "length r = n"
  shows "f r = g r"
proof -
  have "hypercube_table n f = hypercube_table n g" unfolding hypercube_table_def by (rule map_cong) (auto intro: assms(3))
  then show ?thesis using multi_affine_table [OF assms(1,4)] multi_affine_table [OF assms(2,4)] by simp
qed

lemma mle_length_128: "mle_length_ok t 128"
  by (cases t) (simp_all add: XLEN_def log_xlen_def twos_power [of 6, simplified])

text \<open>C17: the evaluation of a table extends its entries. At the bits of an index, every table of the
  catalogue evaluates to its entry; and at any field point of 128 coordinates it evaluates to the
  value of the entries' multilinear extension, the function that is affine in each coordinate and
  takes the entries at the indices.\<close>

theorem table_extends_entries:
  fixes g :: "'f::comm_ring_1 list \<Rightarrow> 'f"
  assumes "multi_affine 128 g" "\<And>v. g (index_point v) = from_u64 (materialize_entry t v)" "length r = 128"
  shows "evaluate_mle t (index_point v) = Some (from_u64 (materialize_entry t v) :: 'f) \<and> evaluate_mle t r = Some (g r)"
proof -
  have "table_mle_value t (bool_point (msb_bits 128 i)) = g (bool_point (msb_bits 128 i))" if "i < 2 ^ 128" for i
  proof -
    have "unat (of_nat i :: u128) = i" using that unfolding unat_of_nat by (simp add: take_bit_nat_eq_self)
    then have p: "bool_point (msb_bits 128 i) = index_point (of_nat i :: u128)" by (simp add: index_point_def)
    show ?thesis unfolding p table_mle_value_entry assms(2) ..
  qed
  then have "table_mle_value t r = g r" by (rule multi_affine_unique [OF table_value_affine assms(1) _ assms(3)])
  then show ?thesis using assms(3) by (simp add: evaluate_mle_def mle_length_128 table_mle_value_entry)
qed

theorem table_extends_entries_witness:
  "evaluate_mle Xor (index_point 6) = Some (3 :: rat) \<and> evaluate_mle Xor (replicate 128 (1 / 2)) = Some (table_mle_value Xor (replicate 128 (1 / 2 :: rat)))"
proof -
  have e: "materialize_entry Xor 6 = 3" by code_simp
  show ?thesis using table_extends_entries [OF table_value_affine table_mle_value_entry, of "replicate 128 (1 / 2 :: rat)" Xor 6]
    unfolding e by (simp add: from_u64_def)
qed

section \<open>The phases\<close>

text \<open>The prefix tables of a phase are built from the checkpoints and bound at the phase's challenges;
  their values are the next checkpoints.\<close>

fun run_phases :: "nat \<Rightarrow> 'f::comm_ring_1 list list \<Rightarrow> 'f checkpoints \<Rightarrow> 'f checkpoints" where
  "run_phases phase [] st = st"
| "run_phases phase (r # rs) st = run_phases (Suc phase) rs (\<lambda>p. table_mle (prefix_chunk_table st (120 - 8 * phase) p) r)"

lemma phase_checkpoints:
  assumes "phase < 16" "length cs = 8 * phase" "length r = 8"
  shows "table_mle (prefix_chunk_table (bound_prefixes cs) (120 - 8 * phase) p) r = bound_prefixes (cs @ r) p"
proof -
  have al: "phase_aligned (4 * phase) 4" unfolding phase_aligned_def using assms(1) by presburger
  have ok: "checkpoints_ok (4 * phase) (bound_prefixes cs)"
    using checkpoints_ok_run [OF _ checkpoints_ok_default, of cs] assms(2) by (simp add: bound_prefixes_def)
  have "prefix_chunk_table (bound_prefixes cs) (120 - 8 * phase) p =
      map (\<lambda>v. prefix_evaluate p (bound_prefixes cs) (lb_new (of_nat v) (2 * 4)) (128 - 2 * (4 * phase) - 2 * 4)) [0..<2 ^ (2 * 4)]"
    by (simp add: prefix_chunk_table_def CHUNK_SIZE_def CHUNK_LEN_def)
  then show ?thesis using phase_table_bound [OF al ok, of r p] assms(3) bound_prefixes_append [OF assms(2)] by simp
qed

lemma run_phases_bound:
  "phase + length rs \<le> 16 \<Longrightarrow> length cs = 8 * phase \<Longrightarrow> list_all (\<lambda>r. length r = 8) rs \<Longrightarrow>
   run_phases phase rs (bound_prefixes cs) = bound_prefixes (cs @ concat rs)"
proof (induction rs arbitrary: phase cs)
  case (Cons r rs)
  then have "(\<lambda>p. table_mle (prefix_chunk_table (bound_prefixes cs) (120 - 8 * phase) p) r) = bound_prefixes (cs @ r)"
    by (intro ext phase_checkpoints) simp_all
  then show ?case using Cons.IH [of "Suc phase" "cs @ r"] Cons.prems by simp
qed simp

lemma length_concat_chunks: "list_all (\<lambda>r. length r = n) rs \<Longrightarrow> length (concat rs) = n * length rs"
  by (induction rs) simp_all

text \<open>C18: the decomposition is exact. After one to sixteen phases of eight challenges each, a table's
  recombination of the checkpoints with its suffixes at the bits of an index that are left is the table's
  evaluation at the challenges followed by these bits. For the tables \<open>Srl\<close>, \<open>Sra\<close> and \<open>Rotr\<close> this is
  said only of an index whose right operand is a bitmask, ones above zeros (\<open>shift_operand\<close>): as
  \<^verbatim>\<open>tables/mod.rs\<close> notes at \<^verbatim>\<open>random_lookup_index\<close>, their decomposition matches the entries on the
  valid input domain only. For every other table the index is arbitrary.\<close>

theorem prefix_suffix_recombines:
  fixes rs :: "'f::comm_ring_1 list list"
  assumes "list_all (\<lambda>r. length r = 8) rs" "rs \<noteq> []" "length rs \<le> 16" "shift_operand t (snd (uninterleave_bits v))"
  shows "table_combine t (run_phases 0 rs default_checkpoint)
      (map (\<lambda>s. suffix_evaluate s (lb_new v (128 - 8 * length rs))) (table_suffixes t)) =
    evaluate_mle t (concat rs @ drop (8 * length rs) (index_point v))"
proof -
  obtain n where n: "length rs = Suc n" "n < 16" using assms(2,3) by (cases rs) auto
  have "default_checkpoint = (bound_prefixes [] :: 'f checkpoints)" by (simp add: bound_prefixes_def)
  then have run: "run_phases 0 rs default_checkpoint = bound_prefixes (concat rs)"
    using run_phases_bound [of 0 rs "[]"] assms(1,3) by simp
  have len: "length (concat rs) = 8 * n + 8" using length_concat_chunks [OF assms(1)] n(1) by simp
  have "drop (8 * n + 8) (index_point v) = (chunk_point (60 - 4 * n) v :: 'f list)"
    by (subst index_point_split [OF n(2)]) (use n(2) in simp)
  then have d: "drop (8 * length rs) (index_point v) = (chunk_point (60 - 4 * n) v :: 'f list)" using n(1) by (simp add: add.commute)
  have e: "128 - 8 * length rs = 120 - 8 * n" using n by simp
  have "8 * n + 8 + 2 * (60 - 4 * n) = 128" using n(2) by linarith
  then have "length (concat rs @ (chunk_point (60 - 4 * n) v :: 'f list)) = 128" using len by (simp del: length_concat)
  then have "evaluate_mle t (concat rs @ chunk_point (60 - 4 * n) v) = Some (table_mle_value t (concat rs @ chunk_point (60 - 4 * n) v))"
    unfolding evaluate_mle_def by (simp only: mle_length_128 if_True)
  then show ?thesis unfolding run d e using suffix_eval_row [OF n(2) len assms(4)] by (simp only:)
qed

theorem prefix_suffix_recombines_witness:
  "table_combine Xor (run_phases 0 [replicate 8 2, replicate 8 (1 / 3)] default_checkpoint)
      (map (\<lambda>s. suffix_evaluate s (lb_new 5 112)) (table_suffixes Xor)) =
    evaluate_mle Xor ((replicate 8 2 @ replicate 8 (1 / 3 :: rat)) @ drop 16 (index_point 5))"
  using prefix_suffix_recombines [of "[replicate 8 2, replicate 8 (1 / 3 :: rat)]" Xor 5] by (simp add: shift_operand_def)

end
