(* ===== verification/Lt_Poly.thy ===== *)
theory Lt_Poly
  imports Dense_Poly
begin

text \<open>
  \<^verbatim>\<open>jolt-poly/src/lt.rs\<close> and \<^verbatim>\<open>eq_plus_one.rs\<close>: the less-than polynomial, as a table, at a point,
  and split into tables over the high and the low coordinates; the polynomial of the successor
  relation, with its prefix and suffix tables.
\<close>

section \<open>lt.rs\<close>

text \<open>\<^verbatim>\<open>lt_evals\<close>: for the reversed coordinates, entry \<open>j\<close> of the left half and of the right half. The
  code first asserts that there are fewer than 64 coordinates (\<^verbatim>\<open>assert_shiftable_dim\<close>); the model has no
  such panic and stands for the code below that bound, beyond which no table fits a memory. The same
  goes for \<open>lt_new\<close>, at halves of fewer than 64 coordinates.\<close>

definition lt_layer :: "nat \<Rightarrow> 'f::comm_ring_1 \<Rightarrow> 'f list \<Rightarrow> 'f list" where
  "lt_layer i r evals =
     (let left = take (2 ^ i) evals; y = map (\<lambda>x. x * r) left in
      map2 (\<lambda>x y. x + (r - y)) left y @ y @ drop (2 * 2 ^ i) evals)"

definition lt_evals :: "'f::comm_ring_1 list \<Rightarrow> 'f list" where
  "lt_evals r = fold (\<lambda>(i, r). lt_layer i r) (enumerate 0 (rev r)) (replicate (2 ^ length r) 0)"

record 'f lt_poly =
  lt_lo :: "'f list"
  lt_hi :: "'f list"
  lt_eq_hi :: "'f list"
  lt_n_lo_vars :: nat
  lt_n_hi_vars :: nat

definition lt_new :: "'f::comm_ring_1 list \<Rightarrow> 'f lt_poly" where
  "lt_new r =
     (let mid = length r div 2; r_hi = take (length r - mid) r; r_lo = drop (length r - mid) r in
      \<lparr>lt_lo = lt_evals r_lo, lt_hi = lt_evals r_hi, lt_eq_hi = eq_evaluations r_hi,
        lt_n_lo_vars = length r_lo, lt_n_hi_vars = length r_hi\<rparr>)"

definition lt_num_vars :: "'f lt_poly \<Rightarrow> nat" where
  "lt_num_vars p = lt_n_hi_vars p + lt_n_lo_vars p"

definition lt_len :: "'f lt_poly \<Rightarrow> nat" where
  "lt_len p = length (lt_hi p) * length (lt_lo p)"

definition lt_get :: "'f::comm_ring_1 lt_poly \<Rightarrow> nat \<Rightarrow> 'f" where
  "lt_get p idx =
     (let lo_size = length (lt_lo p); i_hi = idx div lo_size; i_lo = idx mod lo_size in
      lt_hi p ! i_hi + lt_eq_hi p ! i_hi * lt_lo p ! i_lo)"

definition lt_sumcheck_eval_pair :: "'f::comm_ring_1 lt_poly \<Rightarrow> nat \<Rightarrow> 'f \<times> 'f" where
  "lt_sumcheck_eval_pair p j = (let half = lt_len p div 2 in (lt_get p j, lt_get p (j + half)))"

definition bind_in_place :: "'f::comm_ring_1 list \<Rightarrow> 'f \<Rightarrow> 'f list" where
  "bind_in_place v challenge =
     (let half = length v div 2 in
      take half (fold (\<lambda>j v. let lo = v ! j; hi = v ! (j + half) in v[j := lo + challenge * (hi - lo)])
        [0..<half] v))"

definition lt_bind :: "'f::comm_ring_1 \<Rightarrow> 'f lt_poly \<Rightarrow> 'f lt_poly option" where
  "lt_bind challenge p =
     (if lt_n_hi_vars p > 0
      then Some (p\<lparr>lt_hi := bind_in_place (lt_hi p) challenge, lt_eq_hi := bind_in_place (lt_eq_hi p) challenge,
        lt_n_hi_vars := lt_n_hi_vars p - 1\<rparr>)
      else if lt_n_lo_vars p = 0 then None
      else Some (p\<lparr>lt_lo := bind_in_place (lt_lo p) challenge, lt_n_lo_vars := lt_n_lo_vars p - 1\<rparr>))"

definition lt_evaluate :: "'f::comm_ring_1 list \<Rightarrow> 'f list \<Rightarrow> 'f option" where
  "lt_evaluate x r =
     (if length x \<noteq> length r then None
      else Some (fst (fold (\<lambda>(x, r) (lt, eq_prefix).
          (lt + (1 - x) * r * eq_prefix, eq_prefix * (x * r + (1 - x) * (1 - r)))) (zip x r) (0, 1))))"

section \<open>eq_plus_one.rs\<close>

definition eq_plus_one_evaluate :: "'f::comm_ring_1 list \<Rightarrow> 'f list \<Rightarrow> 'f option" where
  "eq_plus_one_evaluate x y =
     (let l = length x in
      if length y \<noteq> l then None
      else Some (\<Sum>k\<leftarrow>[0..<l].
        (let lower_bits = (\<Prod>i\<leftarrow>[0..<k]. x ! (l - 1 - i) * (1 - y ! (l - 1 - i)));
             flip = (1 - x ! (l - 1 - k)) * y ! (l - 1 - k);
             higher_bits = (\<Prod>i\<leftarrow>[k + 1..<l].
               x ! (l - 1 - i) * y ! (l - 1 - i) + (1 - x ! (l - 1 - i)) * (1 - y ! (l - 1 - i))) in
         lower_bits * flip * higher_bits)))"

text \<open>The loops of \<open>evals\<close> for a coordinate, over the entries a stride apart.\<close>

definition fill_eq_plus_one :: "nat \<Rightarrow> nat \<Rightarrow> 'f::comm_ring_1 \<Rightarrow> 'f list \<Rightarrow> 'f list \<Rightarrow> 'f list" where
  "fill_eq_plus_one sz step r_lower_product eqs eps =
     (let half_step = step div 2 in
      fold (\<lambda>m e. let idx = half_step + m * step in e[idx := eqs ! (idx - half_step) * r_lower_product])
        [0..<sz div step] eps)"

definition extend_eq :: "nat \<Rightarrow> nat \<Rightarrow> 'f::comm_ring_1 \<Rightarrow> 'f list \<Rightarrow> 'f list" where
  "extend_eq sz eq_step r eqs =
     fold (\<lambda>m e. let k = m * (eq_step * 2); v = e ! k * r in
           (e[k + eq_step := v])[k := e ! k - v]) [0..<sz div (eq_step * 2)] eqs"

definition eq_plus_one_evals :: "'f::comm_ring_1 list \<Rightarrow> 'f option \<Rightarrow> ('f list \<times> 'f list) option" where
  "eq_plus_one_evals r scaling_factor =
     (let ell = length r in
      if ell \<ge> 64 then None
      else
        (let sz = 2 ^ ell in
         Some (fold (\<lambda>i (eqs, eps).
             let step = 2 ^ (ell - i);
                 r_lower_product = fold (\<lambda>x p. p * x) (drop (i + 1) r) 1 * (1 - r ! i) in
             (extend_eq sz (2 ^ (ell - i - 1)) (r ! i) eqs,
              fill_eq_plus_one sz step r_lower_product eqs eps)) [0..<ell]
           ((replicate sz 0)[0 := (case scaling_factor of Some s \<Rightarrow> s | None \<Rightarrow> 1)], replicate sz 0))))"

record 'f eq_plus_one_prefix_suffix =
  prefix_0 :: "'f list"
  suffix_0 :: "'f list"
  prefix_1 :: "'f list"
  suffix_1 :: "'f list"

definition eq_plus_one_split :: "'f::comm_ring_1 list \<Rightarrow> 'f eq_plus_one_prefix_suffix option" where
  "eq_plus_one_split r =
     (if length r \<ge> 64 then None
      else
        (let mid = length r div 2; r_hi = take mid r; r_lo = drop mid r;
             ones = replicate (length r_lo) 1 in
         case (eq_mle ones r_lo, eq_plus_one_evals r_hi None, eq_plus_one_evals r_lo None) of
           (Some is_max_eval, Some (s0, s1), Some (_, p0)) \<Rightarrow>
             Some \<lparr>prefix_0 = p0, suffix_0 = s0,
               prefix_1 = (replicate (2 ^ length r_lo) 0)[0 := is_max_eval], suffix_1 = s1\<rparr>
         | _ \<Rightarrow> None))"

section \<open>The less-than polynomial\<close>

fun lt_product :: "'f::comm_ring_1 list \<Rightarrow> 'f list \<Rightarrow> 'f" where
  "lt_product (x # xs) (r # rs) = (1 - x) * r + (x * r + (1 - x) * (1 - r)) * lt_product xs rs"
| "lt_product _ _ = 0"

lemma lt_evaluate_eq: "length x = length r \<Longrightarrow> lt_evaluate x r = Some (lt_product x r)"
proof -
  assume len: "length x = length r"
  have "fst (fold (\<lambda>(x, r) (lt, eq_prefix).
      (lt + (1 - x) * r * eq_prefix, eq_prefix * (x * r + (1 - x) * (1 - r)))) (zip x r) (l, e)) =
      l + e * lt_product x r" for l e
    using len by (induction x r arbitrary: l e rule: list_induct2) (simp_all add: algebra_simps)
  then show ?thesis using len by (simp add: lt_evaluate_def)
qed

lemma lt_product_append:
  "length x = length r \<Longrightarrow> lt_product (x @ x') (r @ r') = lt_product x r + eq_product x r * lt_product x' r'"
  by (induction x r rule: list_induct2) (simp_all add: algebra_simps)

text \<open>Its value at two Boolean points is the comparison of the numbers.\<close>

lemma odd_top_bit:
  assumes "i < 2 * 2 ^ n"
  shows "odd (i div 2 ^ n) \<longleftrightarrow> 2 ^ n \<le> (i::nat)"
proof (cases "2 ^ n \<le> i")
  case True
  then obtain j where j: "i = 2 ^ n + j" by (auto simp: le_iff_add)
  then have "i div 2 ^ n = 1" using assms by (simp add: div_add1_eq)
  then show ?thesis using True by simp
qed simp

lemma msb_bits_low: "2 ^ n \<le> i \<Longrightarrow> msb_bits n i = msb_bits n (i - 2 ^ n)"
  using msb_bits_add [of n "i - 2 ^ n"] by simp

lemma lt_product_bool:
  "i < 2 ^ n \<Longrightarrow> j < 2 ^ n \<Longrightarrow>
   lt_product (bool_point (msb_bits n i)) (bool_point (msb_bits n j)) = (of_bool (i < j) :: 'f::comm_ring_1)"
proof (induction n arbitrary: i j)
  case (Suc n)
  show ?case
  proof (cases "2 ^ n \<le> i"; cases "2 ^ n \<le> j")
    assume "2 ^ n \<le> i" "2 ^ n \<le> j"
    then show ?thesis using Suc.IH [of "i - 2 ^ n" "j - 2 ^ n"] Suc.prems
      by (simp add: odd_top_bit msb_bits_low) (simp add: less_diff_conv2)
  qed (use Suc in \<open>simp_all add: odd_top_bit not_le\<close>)
qed simp

lemma length_lt_layer: "2 * 2 ^ i \<le> length e \<Longrightarrow> length (lt_layer i r e) = length e"
  by (simp add: lt_layer_def Let_def)

fun lt_table :: "'f::comm_ring_1 list \<Rightarrow> 'f list" where
  "lt_table [] = [0]"
| "lt_table (r # rs) = map (\<lambda>x. x + (r - x * r)) (lt_table rs) @ map (\<lambda>x. x * r) (lt_table rs)"

lemma length_lt_table [simp]: "length (lt_table r) = 2 ^ length r"
  by (induction r) simp_all

lemma lt_evals_eq: "lt_evals r = lt_table r"
proof -
  have "fold (\<lambda>(i, r). lt_layer i r) (enumerate (length done) (rev r)) (lt_table done @ rest) = lt_table (r @ done)"
    if "length rest + 2 ^ length done = 2 ^ (length r + length done)" for "done" rest :: "'a list" and r
    using that
  proof (induction r arbitrary: "done" rest rule: rev_induct)
    case (snoc a r)
    have le: "2 ^ length done \<le> length rest"
    proof -
      have "2 * 2 ^ length done \<le> (2::nat) ^ (length (r @ [a]) + length done)" by simp
      then show ?thesis using snoc.prems by linarith
    qed
    have "lt_layer (length done) a (lt_table done @ rest) = lt_table (a # done) @ drop (2 ^ length done) rest"
      using le by (simp add: lt_layer_def Let_def map2_same o_def)
    moreover have "length (drop (2 ^ length done) rest) + 2 ^ length (a # done) = 2 ^ (length r + length (a # done))"
      using snoc.prems le by simp
    ultimately show ?case using snoc.IH [of "drop (2 ^ length done) rest" "a # done"] by simp
  qed simp
  moreover have "replicate (2 ^ length r) 0 = lt_table [] @ replicate (2 ^ length r - 1) (0::'a)"
    by (cases "2 ^ length r :: nat") simp_all
  ultimately show ?thesis
    by (metis (no_types, lifting) lt_evals_def append_Nil2 length_replicate list.size(3) power_0 add_0_right
      le_add_diff_inverse2 one_le_numeral one_le_power)
qed

lemma nth_lt_table:
  "i < 2 ^ length r \<Longrightarrow> lt_table r ! i = lt_product (bool_point (msb_bits (length r) i)) r"
proof (induction r arbitrary: i)
  case (Cons a r)
  let ?n = "2 ^ length r :: nat"
  show ?case
  proof (cases "?n \<le> i")
    case True
    then have "i - ?n < ?n" using Cons.prems by simp
    then show ?thesis using True Cons
      by (simp add: nth_append odd_top_bit msb_bits_low mult.commute)
  next
    case False
    then show ?thesis using Cons by (simp add: nth_append odd_top_bit algebra_simps)
  qed
qed simp

section \<open>The split less-than table\<close>

definition lt_ok :: "'f lt_poly \<Rightarrow> bool" where
  "lt_ok p \<longleftrightarrow> length (lt_hi p) = 2 ^ lt_n_hi_vars p \<and> length (lt_eq_hi p) = 2 ^ lt_n_hi_vars p \<and>
     length (lt_lo p) = 2 ^ lt_n_lo_vars p"

definition lt_view :: "'f::comm_ring_1 lt_poly \<Rightarrow> 'f list" where
  "lt_view p = map (lt_get p) [0..<lt_len p]"

lemma length_lt_view: "lt_ok p \<Longrightarrow> length (lt_view p) = 2 ^ lt_num_vars p"
  by (simp add: lt_view_def lt_ok_def lt_len_def lt_num_vars_def power_add)

lemma lt_new_ok: "lt_ok (lt_new r)" "lt_num_vars (lt_new r) = length r"
  by (simp_all add: lt_ok_def lt_new_def Let_def lt_evals_eq eq_evaluations_eq lt_num_vars_def)

lemma lt_new_view: "lt_view (lt_new r) = lt_evals r"
proof (rule nth_equalityI)
  show "length (lt_view (lt_new r)) = length (lt_evals r)"
    by (simp add: length_lt_view lt_new_ok lt_evals_eq)
next
  fix i assume i: "i < length (lt_view (lt_new r))"
  let ?h = "length r - length r div 2" and ?l = "length r div 2"
  let ?hi = "take ?h r" and ?lo = "drop ?h r"
  have il: "i < 2 ^ length r" using i by (simp add: length_lt_view lt_new_ok)
  have lens: "length ?hi = ?h" "length ?lo = ?l" "?h + ?l = length r" by simp_all
  have "i < 2 ^ ?h * 2 ^ ?l" using il lens(3) by (simp add: power_add [symmetric])
  then have d: "i div 2 ^ ?l < 2 ^ ?h" by (rule less_mult_imp_div_less)
  have bits: "msb_bits (length r) i = msb_bits ?h (i div 2 ^ ?l) @ msb_bits ?l i"
    using msb_bits_append [of ?h ?l i] lens(3) by simp
  have "lt_table r ! i = lt_product (bool_point (msb_bits ?h (i div 2 ^ ?l)) @ bool_point (msb_bits ?l i)) (?hi @ ?lo)"
    using nth_lt_table [OF il] bits by simp
  also have "\<dots> = lt_product (bool_point (msb_bits ?h (i div 2 ^ ?l))) ?hi +
      eq_product (bool_point (msb_bits ?h (i div 2 ^ ?l))) ?hi * lt_product (bool_point (msb_bits ?l i)) ?lo"
    by (rule lt_product_append) simp
  also have "\<dots> = lt_get (lt_new r) i"
    using nth_lt_table [of "i div 2 ^ ?l" ?hi] nth_lt_table [of "i mod 2 ^ ?l" ?lo] nth_eq_table [of "i div 2 ^ ?l" ?hi 1] d
    by (simp add: lt_get_def lt_new_def Let_def lt_evals_eq eq_evaluations_eq eq_product_commute)
  finally show "lt_view (lt_new r) ! i = lt_evals r ! i"
    using i by (simp add: lt_view_def lt_evals_eq)
qed

lemma bind_in_place_eq: "bind_in_place v c = bind_high_loop c v"
  by (simp add: bind_in_place_def bind_high_loop_def Let_def)

lemma nth_bind_halves:
  "length e = 2 * h \<Longrightarrow> i < h \<Longrightarrow> bind_halves c e ! i = e ! i + c * (e ! (i + h) - e ! i)"
  "length e = 2 * h \<Longrightarrow> length (bind_halves c e) = h"
  by (simp_all add: bind_halves_def Let_def add.commute)

text \<open>Binding the split table is binding the full one.\<close>

lemma lt_bind_view:
  assumes "lt_ok p" "lt_num_vars p = Suc n"
  obtains p' where "lt_bind c p = Some p'" "lt_ok p'" "lt_num_vars p' = n"
    "lt_view p' = bind_halves c (lt_view p)"
proof (cases "lt_n_hi_vars p")
  case 0
  then obtain m where lo: "lt_n_lo_vars p = Suc m" using assms(2) by (cases "lt_n_lo_vars p") (auto simp: lt_num_vars_def)
  let ?p = "p\<lparr>lt_lo := bind_halves c (lt_lo p), lt_n_lo_vars := m\<rparr>"
  have llo: "length (lt_lo p) = 2 * 2 ^ m" using assms(1) lo by (simp add: lt_ok_def)
  have b: "lt_bind c p = Some ?p"
    using 0 lo by (simp add: lt_bind_def bind_in_place_eq bind_high_loop_eq [OF llo])
  have ok: "lt_ok ?p" using assms(1) nth_bind_halves(2) [OF llo] by (simp add: lt_ok_def)
  have nv: "lt_num_vars ?p = n" using assms(2) 0 lo by (simp add: lt_num_vars_def)
  have lv: "length (lt_view p) = 2 * 2 ^ m" using length_lt_view [OF assms(1)] 0 lo by (simp add: lt_num_vars_def)
  have len: "lt_len p = 2 * 2 ^ m" using lv by (simp add: lt_view_def)
  have "lt_view ?p = bind_halves c (lt_view p)"
  proof (rule nth_equalityI)
    show "length (lt_view ?p) = length (bind_halves c (lt_view p))"
      using length_lt_view [OF ok] nth_bind_halves(2) [OF lv] 0 by (simp add: lt_num_vars_def)
    fix i assume "i < length (lt_view ?p)"
    then have i: "i < 2 ^ m" using length_lt_view [OF ok] 0 by (simp add: lt_num_vars_def)
    then have "lt_view ?p ! i = lt_hi p ! 0 + lt_eq_hi p ! 0 * (bind_halves c (lt_lo p) ! i)"
      using nth_bind_halves(2) [OF llo] length_lt_view [OF ok] 0
      by (simp add: lt_view_def lt_get_def Let_def lt_num_vars_def)
    also have "\<dots> = lt_view p ! i + c * (lt_view p ! (i + 2 ^ m) - lt_view p ! i)"
      unfolding nth_bind_halves(1) [OF llo i] using i llo len
      by (simp add: lt_view_def lt_get_def Let_def) (simp add: algebra_simps)
    finally show "lt_view ?p ! i = bind_halves c (lt_view p) ! i" using nth_bind_halves(1) [OF lv i] by simp
  qed
  then show ?thesis using that b ok nv by blast
next
  case (Suc m)
  let ?L = "2 ^ lt_n_lo_vars p :: nat"
  let ?p = "p\<lparr>lt_hi := bind_halves c (lt_hi p), lt_eq_hi := bind_halves c (lt_eq_hi p), lt_n_hi_vars := m\<rparr>"
  have lhi: "length (lt_hi p) = 2 * 2 ^ m" "length (lt_eq_hi p) = 2 * 2 ^ m" and llo: "length (lt_lo p) = ?L"
    using assms(1) Suc by (simp_all add: lt_ok_def)
  have b: "lt_bind c p = Some ?p"
    using Suc by (simp add: lt_bind_def bind_in_place_eq bind_high_loop_eq [OF lhi(1)] bind_high_loop_eq [OF lhi(2)])
  have ok: "lt_ok ?p" using assms(1) nth_bind_halves(2) [OF lhi(1)] nth_bind_halves(2) [OF lhi(2)] by (simp add: lt_ok_def)
  have nv: "lt_num_vars ?p = n" using assms(2) Suc by (simp add: lt_num_vars_def)
  have lv: "length (lt_view p) = 2 * (2 ^ m * ?L)"
    using length_lt_view [OF assms(1)] Suc by (simp add: lt_num_vars_def power_add)
  have lv': "length (lt_view ?p) = 2 ^ m * ?L" using length_lt_view [OF ok] by (simp add: lt_num_vars_def power_add)
  have len: "lt_len p = 2 * (2 ^ m * ?L)" using lv by (simp add: lt_view_def)
  have "lt_view ?p = bind_halves c (lt_view p)"
  proof (rule nth_equalityI)
    show "length (lt_view ?p) = length (bind_halves c (lt_view p))"
      using lv' nth_bind_halves(2) [OF lv] by simp
    fix i assume "i < length (lt_view ?p)"
    then have i: "i < 2 ^ m * ?L" using lv' by simp
    let ?a = "i div ?L" and ?b = "i mod ?L"
    have a: "?a < 2 ^ m" using i by (rule less_mult_imp_div_less)
    have shift: "(i + 2 ^ m * ?L) div ?L = ?a + 2 ^ m" "(i + 2 ^ m * ?L) mod ?L = ?b" by simp_all
    have "lt_view ?p ! i = bind_halves c (lt_hi p) ! ?a + bind_halves c (lt_eq_hi p) ! ?a * lt_lo p ! ?b"
      using i lv' llo by (simp add: lt_view_def lt_get_def Let_def)
    also have "\<dots> = lt_get p i + c * (lt_get p (i + 2 ^ m * ?L) - lt_get p i)"
      unfolding nth_bind_halves(1) [OF lhi(1) a] nth_bind_halves(1) [OF lhi(2) a] lt_get_def Let_def llo shift
      by (simp add: algebra_simps)
    also have "\<dots> = bind_halves c (lt_view p) ! i"
      using i len nth_bind_halves(1) [OF lv i] by (simp add: lt_view_def)
    finally show "lt_view ?p ! i = bind_halves c (lt_view p) ! i" .
  qed
  then show ?thesis using that b ok nv by blast
qed

section \<open>The successor relation\<close>

definition ones_zeros :: "'f::comm_ring_1 list \<Rightarrow> 'f list \<Rightarrow> 'f" where
  "ones_zeros x y = (\<Prod>(x, y)\<leftarrow>zip x y. x * (1 - y))"

fun succ_product :: "'f::comm_ring_1 list \<Rightarrow> 'f list \<Rightarrow> 'f" where
  "succ_product (x # xs) (y # ys) =
     (x * y + (1 - x) * (1 - y)) * succ_product xs ys + (1 - x) * y * ones_zeros xs ys"
| "succ_product _ _ = 0"

lemma ones_zeros_simps [simp]:
  "ones_zeros [] y = 1" "ones_zeros (a # x) (b # y) = a * (1 - b) * ones_zeros x y"
  by (simp_all add: ones_zeros_def)

lemma prod_index:
  "length x = l \<Longrightarrow> length y = l \<Longrightarrow>
   (\<Prod>i\<leftarrow>[0..<l]. x ! (l - 1 - i) * (1 - y ! (l - 1 - i))) = ones_zeros x y"
proof (induction l arbitrary: x y)
  case (Suc l)
  then obtain a x' b y' where xy: "x = a # x'" "y = b # y'" "length x' = l" "length y' = l"
    by (metis length_Suc_conv)
  have "(\<Prod>i\<leftarrow>[0..<l]. x ! (l - i) * (1 - y ! (l - i))) = (\<Prod>i\<leftarrow>[0..<l]. x' ! (l - 1 - i) * (1 - y' ! (l - 1 - i)))"
    by (rule arg_cong [where f = prod_list], rule map_cong) (auto simp: xy nth_Cons' Suc_diff_Suc)
  then show ?case using Suc.IH [of x' y'] xy by (simp add: mult.commute)
qed simp

text \<open>The code's sum over the suffix lengths, by the first coordinate.\<close>

definition low_bits :: "nat \<Rightarrow> nat \<Rightarrow> 'f::comm_ring_1 list \<Rightarrow> 'f list \<Rightarrow> 'f" where
  "low_bits l k x y = (\<Prod>i\<leftarrow>[0..<k]. x ! (l - 1 - i) * (1 - y ! (l - 1 - i)))"

definition high_bits :: "nat \<Rightarrow> nat \<Rightarrow> 'f::comm_ring_1 list \<Rightarrow> 'f list \<Rightarrow> 'f" where
  "high_bits l k x y =
     (\<Prod>i\<leftarrow>[k + 1..<l]. x ! (l - 1 - i) * y ! (l - 1 - i) + (1 - x ! (l - 1 - i)) * (1 - y ! (l - 1 - i)))"

definition succ_sum :: "nat \<Rightarrow> 'f::comm_ring_1 list \<Rightarrow> 'f list \<Rightarrow> 'f" where
  "succ_sum l x y =
     (\<Sum>k\<leftarrow>[0..<l]. low_bits l k x y * ((1 - x ! (l - 1 - k)) * y ! (l - 1 - k)) * high_bits l k x y)"

lemma low_bits_Cons: "k \<le> l \<Longrightarrow> low_bits (Suc l) k (a # x) (b # y) = low_bits l k x y"
  unfolding low_bits_def
  by (rule arg_cong [where f = prod_list], rule map_cong) (auto simp: nth_Cons')

lemma high_bits_Cons:
  assumes "k < l"
  shows "high_bits (Suc l) k (a # x) (b # y) = high_bits l k x y * (a * b + (1 - a) * (1 - b))"
proof -
  have "(\<Prod>i\<leftarrow>[k + 1..<l]. (a # x) ! (l - i) * (b # y) ! (l - i) + (1 - (a # x) ! (l - i)) * (1 - (b # y) ! (l - i))) =
      high_bits l k x y"
    unfolding high_bits_def by (rule arg_cong [where f = prod_list], rule map_cong) (auto simp: nth_Cons')
  moreover have "[k + 1..<Suc l] = [k + 1..<l] @ [l]" using assms by simp
  ultimately show ?thesis by (simp add: high_bits_def)
qed

lemma succ_sum_Cons:
  assumes "length x = l" "length y = l"
  shows "succ_sum (Suc l) (a # x) (b # y) =
    succ_sum l x y * (a * b + (1 - a) * (1 - b)) + ones_zeros x y * ((1 - a) * b)"
proof -
  let ?e = "a * b + (1 - a) * (1 - b)"
  let ?s = "\<lambda>l x y k. low_bits l k x y * ((1 - x ! (l - 1 - k)) * y ! (l - 1 - k)) * high_bits l k x y"
  have "?s (Suc l) (a # x) (b # y) k = ?s l x y k * ?e" if "k < l" for k
    using that by (simp add: low_bits_Cons high_bits_Cons nth_Cons' mult.assoc)
  then have "(\<Sum>k\<leftarrow>[0..<l]. ?s (Suc l) (a # x) (b # y) k) = (\<Sum>k\<leftarrow>[0..<l]. ?s l x y k * ?e)"
    by (intro arg_cong [where f = sum_list] map_cong) auto
  moreover have "?s (Suc l) (a # x) (b # y) l = ones_zeros x y * ((1 - a) * b)"
  proof -
    have "low_bits (Suc l) l (a # x) (b # y) = ones_zeros x y"
      using prod_index [OF assms] low_bits_Cons [of l l a x b y] unfolding low_bits_def by simp
    then show ?thesis by (simp add: high_bits_def)
  qed
  ultimately show ?thesis by (simp add: succ_sum_def sum_list_mult_const)
qed

lemma succ_sum_eq: "length x = l \<Longrightarrow> length y = l \<Longrightarrow> succ_sum l x y = succ_product x y"
proof (induction l arbitrary: x y)
  case (Suc l)
  then obtain a x' b y' where "x = a # x'" "y = b # y'" "length x' = l" "length y' = l"
    by (metis length_Suc_conv)
  then show ?case using Suc.IH by (simp add: succ_sum_Cons algebra_simps)
qed (simp add: succ_sum_def)

lemma eq_plus_one_evaluate_eq:
  assumes "length x = length y"
  shows "eq_plus_one_evaluate x y = Some (succ_product x y)"
proof -
  have "eq_plus_one_evaluate x y = Some (succ_sum (length x) x y)"
    unfolding eq_plus_one_evaluate_def Let_def succ_sum_def low_bits_def high_bits_def
    by (simp only: assms not_True_eq_False if_False simp_thms)
  then show ?thesis using assms by (simp add: succ_sum_eq)
qed

lemma ones_zeros_bool:
  "i < 2 ^ n \<Longrightarrow> j < 2 ^ n \<Longrightarrow>
   ones_zeros (bool_point (msb_bits n i)) (bool_point (msb_bits n j)) = (of_bool (i = 2 ^ n - 1 \<and> j = 0) :: 'f::comm_ring_1)"
proof (induction n arbitrary: i j)
  case (Suc n)
  show ?case
  proof (cases "2 ^ n \<le> i"; cases "2 ^ n \<le> j")
    assume "2 ^ n \<le> i" "\<not> 2 ^ n \<le> j"
    then show ?thesis using Suc.IH [of "i - 2 ^ n" j] Suc.prems
      by (auto simp add: odd_top_bit msb_bits_low)
  qed (use Suc in \<open>auto simp add: odd_top_bit\<close>)
qed simp

text \<open>At Boolean points it is the successor relation, without wrap-around.\<close>

lemma succ_product_bool:
  fixes i j n :: nat
  shows "i < 2 ^ n \<Longrightarrow> j < 2 ^ n \<Longrightarrow>
   succ_product (bool_point (msb_bits n i)) (bool_point (msb_bits n j)) = (of_bool (j = i + 1) :: 'f::comm_ring_1)"
proof (induction n arbitrary: i j)
  case (Suc n)
  show ?case
  proof (cases "2 ^ n \<le> i"; cases "2 ^ n \<le> j")
    assume "2 ^ n \<le> i" "2 ^ n \<le> j"
    moreover from this have "(j - 2 ^ n = i - 2 ^ n + 1) = (j = i + 1)" by linarith
    ultimately show ?thesis using Suc.IH [of "i - 2 ^ n" "j - 2 ^ n"] Suc.prems
      by (simp add: odd_top_bit msb_bits_low)
  next
    assume "\<not> 2 ^ n \<le> i" "2 ^ n \<le> j"
    moreover from this have "(i = 2 ^ n - 1 \<and> j - 2 ^ n = 0) = (j = i + 1)" by linarith
    ultimately show ?thesis using ones_zeros_bool [of i n "j - 2 ^ n", where 'f = 'f] Suc.prems
      by (simp add: odd_top_bit msb_bits_low)
  next
    assume i: "2 ^ n \<le> i" "\<not> 2 ^ n \<le> j"
    then have "j \<noteq> i + 1" by linarith
    then show ?thesis using i Suc.prems by (simp add: odd_top_bit)
  next
    assume "\<not> 2 ^ n \<le> i" "\<not> 2 ^ n \<le> j"
    then show ?thesis using Suc.IH [of i j] Suc.prems by (simp add: odd_top_bit)
  qed
qed simp

lemma ones_zeros_append:
  "length x = length y \<Longrightarrow> ones_zeros (x @ x') (y @ y') = ones_zeros x y * ones_zeros x' y'"
  by (simp add: ones_zeros_def)

lemma succ_product_append:
  "length x = length y \<Longrightarrow> succ_product (x @ x') (y @ y') =
     eq_product x y * succ_product x' y' + succ_product x y * ones_zeros x' y'"
  by (induction x y rule: list_induct2) (simp_all add: ones_zeros_append algebra_simps)

section \<open>The strided construction\<close>

text \<open>A loop over the blocks of a list, every step changing its own block.\<close>

lemma fold_blocks:
  assumes step: "\<And>i A C. i < length vs \<Longrightarrow> length A = i * w \<Longrightarrow> f i (A @ blk (vs ! i) @ C) = A @ blk' (vs ! i) @ C"
    and len: "\<And>v. length (blk' v) = w"
  shows "fold f [0..<length vs] (concat (map blk vs)) = concat (map blk' vs)"
proof -
  have "fold f [0..<k] (concat (map blk vs)) = concat (map blk' (take k vs)) @ concat (map blk (drop k vs))"
    if "k \<le> length vs" for k
    using that
  proof (induction k)
    case (Suc k)
    have lk: "length (concat (map blk' (take k vs))) = k * w"
      using Suc.prems len by (simp add: length_concat o_def sum_list_triv min_absorb2)
    have "drop k vs = vs ! k # drop (Suc k) vs" using Suc.prems by (simp add: Cons_nth_drop_Suc)
    then have "fold f [0..<Suc k] (concat (map blk vs)) =
      f k (concat (map blk' (take k vs)) @ blk (vs ! k) @ concat (map blk (drop (Suc k) vs)))"
      using Suc by simp
    also have "\<dots> = concat (map blk' (take k vs)) @ blk' (vs ! k) @ concat (map blk (drop (Suc k) vs))"
      using Suc.prems lk by (intro step) simp_all
    finally show ?case using Suc.prems by (simp add: take_Suc_conv_app_nth)
  qed simp
  then show ?thesis by simp
qed

text \<open>The state before a coordinate: a list of pairs, each a block of one entry and zeros.\<close>

definition zero_block :: "nat \<Rightarrow> 'f::comm_ring_1 \<Rightarrow> 'f list" where
  "zero_block w v = v # replicate (w - 1) 0"

lemma length_zero_block [simp]: "0 < w \<Longrightarrow> length (zero_block w v) = w"
  by (simp add: zero_block_def)

lemma zero_block_double: "0 < w \<Longrightarrow> zero_block (2 * w) v = zero_block w v @ zero_block w 0"
  by (cases w) (simp_all add: zero_block_def replicate_add [symmetric] replicate_append_same flip: replicate_Suc)

lemma length_zero_blocks: "0 < w \<Longrightarrow> length (concat (map (\<lambda>v. zero_block w (f v)) vs)) = length vs * w"
  by (induction vs) simp_all

lemma nth_zero_blocks:
  assumes "0 < w" "m < length vs"
  shows "concat (map (\<lambda>v. zero_block w (f v)) vs) ! (m * w) = f (vs ! m)"
proof -
  let ?A = "concat (map (\<lambda>v. zero_block w (f v)) (take m vs))"
  have len: "length ?A = m * w" using assms by (simp add: length_zero_blocks min_absorb2)
  have "concat (map (\<lambda>v. zero_block w (f v)) vs) =
    ?A @ f (vs ! m) # (replicate (w - 1) 0 @ concat (map (\<lambda>v. zero_block w (f v)) (drop (Suc m) vs)))"
    by (subst id_take_nth_drop [OF assms(2)]) (simp add: zero_block_def)
  then show ?thesis using len by (metis nth_append_length)
qed

lemma update_second_block:
  assumes "length A = n" "0 < w"
  shows "(A @ zero_block (2 * w) x @ C)[w + n := y] = A @ (zero_block w x @ zero_block w y) @ C"
proof -
  have "A @ zero_block (2 * w) x @ C = (A @ zero_block w x) @ 0 # (replicate (w - 1) 0 @ C)"
    using assms(2) by (simp add: zero_block_double) (simp add: zero_block_def)
  moreover have "length (A @ zero_block w x) = w + n" using assms by simp
  ultimately show ?thesis
    using list_update_length [of "A @ zero_block w x" 0 "replicate (w - 1) 0 @ C" y] by (simp add: zero_block_def)
qed

lemma update_first_block:
  assumes "length A = n"
  shows "(A @ zero_block w x @ C)[n := y] = A @ zero_block w y @ C"
  using assms list_update_length [of A x "replicate (w - 1) 0 @ C" y] by (simp add: zero_block_def)

lemma fill_blocks:
  assumes "0 < w" "sz = length vs * (2 * w)"
  shows "fill_eq_plus_one sz (2 * w) c (concat (map (\<lambda>p. zero_block (2 * w) (fst p)) vs))
      (concat (map (\<lambda>p. zero_block (2 * w) (snd p)) vs)) =
    concat (map (\<lambda>p. zero_block w (snd p) @ zero_block w (fst p * c)) vs)"
proof -
  have "sz div (2 * w) = length vs" using assms by simp
  moreover have "fold (\<lambda>m e. e[w + m * (2 * w) := concat (map (\<lambda>p. zero_block (2 * w) (fst p)) vs) ! (m * (2 * w)) * c])
      [0..<length vs] (concat (map (\<lambda>p. zero_block (2 * w) (snd p)) vs)) =
    concat (map (\<lambda>p. zero_block w (snd p) @ zero_block w (fst p * c)) vs)"
    by (rule fold_blocks [where w = "2 * w"])
      (use assms(1) in \<open>simp_all add: nth_zero_blocks update_second_block\<close>)
  ultimately show ?thesis by (simp add: fill_eq_plus_one_def Let_def)
qed

lemma extend_blocks:
  assumes "0 < w" "sz = length vs * (2 * w)"
  shows "extend_eq sz w r (concat (map (\<lambda>p. zero_block (2 * w) (fst p)) vs)) =
    concat (map (\<lambda>p. zero_block w (fst p - fst p * r) @ zero_block w (fst p * r)) vs)"
proof -
  have sz: "sz div (w * 2) = length vs" using assms by simp
  have "fold (\<lambda>m e. let k = m * (w * 2); v = e ! k * r in (e[k + w := v])[k := e ! k - v])
      [0..<length vs] (concat (map (\<lambda>p. zero_block (2 * w) (fst p)) vs)) =
    concat (map (\<lambda>p. zero_block w (fst p - fst p * r) @ zero_block w (fst p * r)) vs)"
  proof (rule fold_blocks [where w = "2 * w"])
    fix i and A C :: "'a list" assume i: "i < length vs" "length A = i * (2 * w)"
    let ?e = "A @ zero_block (2 * w) (fst (vs ! i)) @ C"
    have k: "i * (w * 2) = length A" using i(2) by simp
    have "?e ! length A = fst (vs ! i)" by (simp add: nth_append zero_block_def)
    then show "(let k = i * (w * 2); v = ?e ! k * r in (?e[k + w := v])[k := ?e ! k - v]) =
        A @ (zero_block w (fst (vs ! i) - fst (vs ! i) * r) @ zero_block w (fst (vs ! i) * r)) @ C"
      unfolding k Let_def using update_second_block [OF refl assms(1), of A] update_first_block [OF refl, of A w]
      by (simp add: add.commute)
  qed (use assms(1) in simp)
  then show ?thesis by (simp add: extend_eq_def sz)
qed

text \<open>The blocks of the remaining coordinates, by the first of them.\<close>

fun pair_table :: "'f::comm_ring_1 list \<Rightarrow> 'f \<times> 'f \<Rightarrow> ('f \<times> 'f) list" where
  "pair_table [] p = [p]"
| "pair_table (r # rs) (v, h) =
     pair_table rs (v - v * r, h) @ pair_table rs (v * r, v * (prod_list rs * (1 - r)))"

lemma length_pair_table [simp]: "length (pair_table r p) = 2 ^ length r"
  by (induction r p rule: pair_table.induct) simp_all

lemma succ_product_zero [simp]: "succ_product r (bool_point (msb_bits (length r) 0)) = 0"
  by (induction r) simp_all

lemma nth_pair_table:
  "j < 2 ^ length r \<Longrightarrow> pair_table r (v, h) ! j =
     (v * eq_product r (bool_point (msb_bits (length r) j)),
      if j = 0 then h else v * succ_product r (bool_point (msb_bits (length r) j)))"
proof (induction r arbitrary: v h j)
  case (Cons a r)
  let ?n = "2 ^ length r :: nat"
  have ones: "ones_zeros r (bool_point (msb_bits (length r) k)) = (if k = 0 then prod_list r else 0)" if "k < ?n" for k
    using that
  proof (induction r arbitrary: k)
    case (Cons b r)
    show ?case
    proof (cases "2 ^ length r \<le> k")
      case False
      then show ?thesis using Cons by (simp add: odd_top_bit)
    qed (use Cons.prems in \<open>simp add: odd_top_bit\<close>)
  qed simp
  show ?case
  proof (cases "?n \<le> j")
    case True
    then have "j - ?n < ?n" using Cons.prems by simp
    then show ?thesis using True Cons ones [of "j - ?n"]
      by (auto simp add: nth_append odd_top_bit msb_bits_low algebra_simps)
  next
    case False
    then show ?thesis using Cons by (simp add: nth_append odd_top_bit algebra_simps)
  qed
qed (simp add: succ_product.simps)

definition pair_step :: "'f::comm_ring_1 \<Rightarrow> 'f list \<Rightarrow> 'f \<times> 'f \<Rightarrow> ('f \<times> 'f) list" where
  "pair_step r rs p = [(fst p - fst p * r, snd p), (fst p * r, fst p * (prod_list rs * (1 - r)))]"

lemma pair_step_blocks:
  "concat (map (\<lambda>p. zero_block w (fst p - fst p * r) @ zero_block w (fst p * r)) vs) =
     concat (map (\<lambda>p. zero_block w (fst p)) (concat (map (pair_step r rs) vs)))"
  "concat (map (\<lambda>p. zero_block w (snd p) @ zero_block w (fst p * (prod_list rs * (1 - r)))) vs) =
     concat (map (\<lambda>p. zero_block w (snd p)) (concat (map (pair_step r rs) vs)))"
  by (induction vs) (simp_all add: pair_step_def)

lemma fold_product: "fold (\<lambda>x p. p * x) xs a = a * prod_list xs" for a :: "'f::comm_ring_1"
  by (induction xs arbitrary: a) (simp_all add: mult.assoc)

lemma eq_plus_one_loop:
  assumes "length vs = 2 ^ length done" "r = done @ rs" "sz = 2 ^ length r"
  shows "fold (\<lambda>i (eqs, eps).
      let step = 2 ^ (length r - i); r_lower_product = fold (\<lambda>x p. p * x) (drop (i + 1) r) 1 * (1 - r ! i) in
      (extend_eq sz (2 ^ (length r - i - 1)) (r ! i) eqs, fill_eq_plus_one sz step r_lower_product eqs eps))
      [length done..<length r]
      (concat (map (\<lambda>p. zero_block (2 ^ length rs) (fst p)) vs), concat (map (\<lambda>p. zero_block (2 ^ length rs) (snd p)) vs)) =
    (map fst (concat (map (pair_table rs) vs)), map snd (concat (map (pair_table rs) vs)))"
    (is "fold ?body _ _ = _")
  using assms(1,2)
proof (induction rs arbitrary: "done" vs)
  case Nil
  have "concat (map (\<lambda>p. zero_block 1 (f p)) vs) = map f vs" for f :: "'a \<times> 'a \<Rightarrow> 'a"
    by (induction vs) (simp_all add: zero_block_def)
  moreover have "concat (map (pair_table []) vs) = vs" by (induction vs) simp_all
  ultimately show ?case using Nil by simp
next
  case (Cons a rs)
  let ?w = "2 ^ length rs :: nat" and ?vs = "concat (map (pair_step a rs) vs)"
  have sz: "sz = length vs * (2 * ?w)" using Cons.prems assms(3) by (simp add: power_add)
  have at: "r ! length done = a" "drop (length done + 1) r = rs" "length r - length done = Suc (length rs)"
    "length done < length r"
    using Cons.prems by simp_all
  have len: "length ?vs = 2 ^ length (done @ [a])"
    using Cons.prems by (simp add: length_concat o_def pair_step_def sum_list_triv)
  have "?body (length done) (concat (map (\<lambda>p. zero_block (2 * ?w) (fst p)) vs), concat (map (\<lambda>p. zero_block (2 * ?w) (snd p)) vs)) =
    (concat (map (\<lambda>p. zero_block ?w (fst p)) ?vs), concat (map (\<lambda>p. zero_block ?w (snd p)) ?vs))"
    using extend_blocks [OF _ sz, of a] fill_blocks [OF _ sz, of "prod_list rs * (1 - a)"]
    by (simp add: at at(2) [simplified] fold_product pair_step_blocks [where w = ?w and r = a and rs = rs] Let_def)
  then have "fold ?body [length done..<length r]
      (concat (map (\<lambda>p. zero_block (2 ^ length (a # rs)) (fst p)) vs), concat (map (\<lambda>p. zero_block (2 ^ length (a # rs)) (snd p)) vs)) =
    fold ?body [length (done @ [a])..<length r]
      (concat (map (\<lambda>p. zero_block ?w (fst p)) ?vs), concat (map (\<lambda>p. zero_block ?w (snd p)) ?vs))"
    using at(4) by (simp add: upt_rec [of "length done"])
  also have "\<dots> = (map fst (concat (map (pair_table rs) ?vs)), map snd (concat (map (pair_table rs) ?vs)))"
    using Cons.prems by (intro Cons.IH [OF len]) simp
  also have "concat (map (pair_table rs) ?vs) = concat (map (pair_table (a # rs)) vs)"
    by (induction vs) (auto simp: pair_step_def)
  finally show ?case .
qed

lemma eq_plus_one_evals_eq:
  assumes "length r < 64"
  shows "eq_plus_one_evals r s =
    (let c = (case s of Some s \<Rightarrow> s | None \<Rightarrow> 1) in
     Some (eq_table c r, map (\<lambda>j. c * succ_product r (bool_point (msb_bits (length r) j))) [0..<2 ^ length r]))"
proof -
  define c where "c = (case s of Some s \<Rightarrow> s | None \<Rightarrow> 1)"
  have start: "(replicate (2 ^ length r) 0)[0 := c] = zero_block (2 ^ length r) c"
    "replicate (2 ^ length r) 0 = zero_block (2 ^ length r) (0::'a)"
    "(zero_block (2 ^ length r) 0)[0 := c] = zero_block (2 ^ length r) c"
    by (cases "2 ^ length r :: nat"; simp add: zero_block_def)+
  have fst: "map fst (pair_table r (c, 0)) = eq_table c r"
    by (rule nth_equalityI) (simp_all add: nth_pair_table nth_eq_table)
  have snd: "map snd (pair_table r (c, 0)) =
      map (\<lambda>j. c * succ_product r (bool_point (msb_bits (length r) j))) [0..<2 ^ length r]"
    by (rule nth_equalityI) (simp_all add: nth_pair_table)
  show ?thesis
    using eq_plus_one_loop [of "[(c, 0)]" "[]" r r, OF _ _ refl] assms fst snd
    by (simp add: eq_plus_one_evals_def c_def [symmetric] start Let_def)
qed

text \<open>The split is the successor polynomial: the low coordinates do not wrap, or they wrap from
  the maximum to zero and the high ones move on.\<close>

lemma eq_plus_one_split_correct:
  assumes "length r < 64" "jh < 2 ^ (length r div 2)" "jl < 2 ^ (length r - length r div 2)"
  obtains d where "eq_plus_one_split r = Some d"
    "prefix_0 d ! jl * suffix_0 d ! jh + prefix_1 d ! jl * suffix_1 d ! jh =
      succ_product r (bool_point (msb_bits (length r) (jh * 2 ^ (length r - length r div 2) + jl)))"
proof -
  let ?m = "length r div 2" and ?hi = "take (length r div 2) r" and ?lo = "drop (length r div 2) r"
  let ?n = "length r - ?m"
  have eqs: "eq_plus_one_evals ?hi None =
      Some (eq_table 1 ?hi, map (\<lambda>j. succ_product ?hi (bool_point (msb_bits ?m j))) [0..<2 ^ ?m])"
    "eq_plus_one_evals ?lo None =
      Some (eq_table 1 ?lo, map (\<lambda>j. succ_product ?lo (bool_point (msb_bits ?n j))) [0..<2 ^ ?n])"
    using assms(1) by (simp_all add: eq_plus_one_evals_eq Let_def min_absorb2)
  define mx where "mx = eq_product (replicate ?n 1) ?lo"
  have max: "mx * of_bool (jl = 0) = ones_zeros ?lo (bool_point (msb_bits ?n jl))"
  proof -
    have "eq_product (replicate (length q) 1) q * of_bool (j = 0) = ones_zeros q (bool_point (msb_bits (length q) j))"
      if "j < 2 ^ length q" for q :: "'a list" and j
      using that
    proof (induction q arbitrary: j)
      case (Cons b q)
      show ?case
      proof (cases "2 ^ length q \<le> j")
        case False
        then show ?thesis using Cons.IH [of j] by (simp add: odd_top_bit mult.assoc)
      qed (use Cons.prems in \<open>auto simp add: odd_top_bit\<close>)
    qed simp
    from this [of jl ?lo] show ?thesis using assms(3) by (simp add: mx_def)
  qed
  let ?d = "\<lparr>prefix_0 = map (\<lambda>j. succ_product ?lo (bool_point (msb_bits ?n j))) [0..<2 ^ ?n],
      suffix_0 = eq_table 1 ?hi, prefix_1 = (replicate (2 ^ ?n) 0)[0 := mx],
      suffix_1 = map (\<lambda>j. succ_product ?hi (bool_point (msb_bits ?m j))) [0..<2 ^ ?m]\<rparr>"
  have d: "eq_plus_one_split r = Some ?d"
    using assms(1) eqs by (simp add: eq_plus_one_split_def Let_def eq_mle_eq mx_def)
  have bits: "msb_bits (length r) (jh * 2 ^ ?n + jl) = msb_bits ?m jh @ msb_bits ?n jl"
    using msb_bits_append [of ?m ?n "jh * 2 ^ ?n + jl"] msb_bits_mod [of ?n ?n "jh * 2 ^ ?n + jl"] assms(3)
    by (simp del: msb_bits_mod)
  have "succ_product r (bool_point (msb_bits (length r) (jh * 2 ^ ?n + jl))) =
      succ_product (?hi @ ?lo) (bool_point (msb_bits ?m jh) @ bool_point (msb_bits ?n jl))"
    using bits by simp
  also have "\<dots> = eq_product ?hi (bool_point (msb_bits ?m jh)) * succ_product ?lo (bool_point (msb_bits ?n jl)) +
      succ_product ?hi (bool_point (msb_bits ?m jh)) * ones_zeros ?lo (bool_point (msb_bits ?n jl))"
    by (rule succ_product_append) (simp add: min_absorb2)
  also have "\<dots> = prefix_0 ?d ! jl * suffix_0 ?d ! jh + prefix_1 ?d ! jl * suffix_1 ?d ! jh"
    using assms(2,3) max [symmetric] nth_eq_table [of jh ?hi 1]
    by (auto simp: nth_list_update min_absorb2 mult.commute)
  finally show ?thesis using that d by metis
qed

end
