(* ===== verification/Bind_Interface.thy ===== *)
theory Bind_Interface
  imports Gruen Lt_Poly
begin

text \<open>
  What a sumcheck needs of a polynomial it binds variable by variable, as an interface: a bind takes
  one variable, keeps the invariant and leaves the polynomial with the challenge at that variable's
  place. The dense table in both orders, the split less-than table and the split equality polynomial
  in both orders provide it.
\<close>

section \<open>The interface\<close>

locale bound_polynomial =
  fixes bind_var :: "'f::comm_ring_1 \<Rightarrow> 'p \<Rightarrow> 'p option"
    and vars :: "'p \<Rightarrow> nat"
    and eval :: "'p \<Rightarrow> 'f list \<Rightarrow> 'f"
    and invar :: "'p \<Rightarrow> bool"
    and place :: "'f \<Rightarrow> 'f list \<Rightarrow> 'f list"
  assumes bind_step: "invar p \<Longrightarrow> vars p = Suc n \<Longrightarrow>
      \<exists>p'. bind_var s p = Some p' \<and> invar p' \<and> vars p' = n \<and> (\<forall>r. length r = n \<longrightarrow> eval p' r = eval p (place s r))"
    and place_length: "length (place s r) = Suc (length r)"
begin

definition bind_list :: "'f list \<Rightarrow> 'p \<Rightarrow> 'p option" where
  "bind_list cs p = fold (\<lambda>s q. Option.bind q (bind_var s)) cs (Some p)"

lemma bind_list_simps [simp]:
  "bind_list [] p = Some p" "bind_list (s # cs) p = Option.bind (bind_var s p) (bind_list cs)"
proof -
  have "fold (\<lambda>s q. Option.bind q (bind_var s)) cs None = None" for cs by (induction cs) simp_all
  then show "bind_list (s # cs) p = Option.bind (bind_var s p) (bind_list cs)"
    by (cases "bind_var s p") (simp_all add: bind_list_def)
qed (simp add: bind_list_def)

lemma length_places: "length (foldr place cs r) = length cs + length r"
  by (induction cs) (simp_all add: place_length)

lemma bind_list_holds:
  "invar p \<Longrightarrow> vars p = length cs + n \<Longrightarrow>
   \<exists>p'. bind_list cs p = Some p' \<and> invar p' \<and> vars p' = n \<and> (\<forall>r. length r = n \<longrightarrow> eval p' r = eval p (foldr place cs r))"
proof (induction cs arbitrary: p)
  case (Cons s cs)
  obtain q where q: "bind_var s p = Some q" "invar q" "vars q = length cs + n"
    "\<And>r. length r = length cs + n \<Longrightarrow> eval q r = eval p (place s r)"
    using bind_step [of p "length cs + n" s] Cons.prems by auto
  then show ?case using Cons.IH [OF q(2,3)] by (auto simp: length_places)
qed simp

text \<open>With a challenge for every variable, what is left is the value at the challenges.\<close>

lemma bind_list_full:
  assumes "invar p" "vars p = length cs"
  shows "\<exists>p'. bind_list cs p = Some p' \<and> invar p' \<and> vars p' = 0 \<and> eval p' [] = eval p (foldr place cs [])"
  using bind_list_holds [OF assms(1), of cs 0] assms(2) by auto

end

lemma foldr_places: "foldr (#) cs r = cs @ r" "foldr (\<lambda>s r. r @ [s]) cs r = r @ rev cs"
  by (induction cs) simp_all

section \<open>The providers\<close>

lemma dense_bind:
  fixes p :: "'f::comm_ring_1 dense_poly"
  assumes "dp_ok p" "dp_num_vars p = Suc n"
  shows "\<exists>p'. bind_with_order s order p = Some p' \<and> dp_ok p' \<and> dp_num_vars p' = n \<and>
    (\<forall>r. length r = n \<longrightarrow> table_mle (dp_evals p') r = table_mle (dp_evals p) (case order of HighToLow \<Rightarrow> s # r | LowToHigh \<Rightarrow> r @ [s]))"
proof -
  have each: "\<exists>p'. bind_with_order s order p = Some p' \<and> dp_ok p' \<and> dp_num_vars p' = n \<and>
      table_mle (dp_evals p') r = table_mle (dp_evals p) (case order of HighToLow \<Rightarrow> s # r | LowToHigh \<Rightarrow> r @ [s])"
    if "length r = n" for r
  proof (rule bind_evaluates [of p r s order])
    fix p' assume "bind_with_order s order p = Some p'" "dp_ok p'" "dp_num_vars p' = length r"
      "dp_evaluate p' r = dp_evaluate p (case order of HighToLow \<Rightarrow> s # r | LowToHigh \<Rightarrow> r @ [s])"
    then show ?thesis using assms(2) that by (cases order) (simp_all add: dp_evaluate_eq)
  qed (use assms that in simp_all)
  obtain r0 :: "'f list" where "length r0 = n" using Ex_list_of_length by blast
  then obtain p' where p': "bind_with_order s order p = Some p'" "dp_ok p'" "dp_num_vars p' = n" using each by blast
  then have "\<forall>r. length r = n \<longrightarrow> table_mle (dp_evals p') r = table_mle (dp_evals p) (case order of HighToLow \<Rightarrow> s # r | LowToHigh \<Rightarrow> r @ [s])"
    using each by (metis option.inject)
  with p' show ?thesis by blast
qed

interpretation dense_high: bound_polynomial "\<lambda>s. bind_with_order s HighToLow" dp_num_vars "\<lambda>p. table_mle (dp_evals p)" dp_ok "(#)"
  by unfold_locales (use dense_bind [where order = HighToLow] in simp_all)

interpretation dense_low: bound_polynomial "\<lambda>s. bind_with_order s LowToHigh" dp_num_vars "\<lambda>p. table_mle (dp_evals p)" dp_ok "\<lambda>s r. r @ [s]"
  by unfold_locales (use dense_bind [where order = LowToHigh] in simp_all)

interpretation lt_split: bound_polynomial lt_bind lt_num_vars "\<lambda>p. table_mle (lt_view p)" lt_ok "(#)"
proof
  fix p :: "'a lt_poly" and n s assume p: "lt_ok p" "lt_num_vars p = Suc n"
  obtain p' where "lt_bind s p = Some p'" "lt_ok p'" "lt_num_vars p' = n" "lt_view p' = bind_halves s (lt_view p)"
    by (rule lt_bind_view [OF p])
  moreover have "length (lt_view p) = 2 * 2 ^ n" using length_lt_view [OF p(1)] p(2) by simp
  ultimately show "\<exists>p'. lt_bind s p = Some p' \<and> lt_ok p' \<and> lt_num_vars p' = n \<and>
      (\<forall>r. length r = n \<longrightarrow> table_mle (lt_view p') r = table_mle (lt_view p) (s # r))"
    by (auto simp: table_mle_halves)
qed simp

lemma gruen_bind_table:
  assumes "gruen_ok g" "length (gruen_rest g) = Suc n" "length r = n"
  shows "length (gruen_rest (gruen_bind s g)) = n"
    "table_mle (gruen_table (gruen_bind s g)) r =
      table_mle (gruen_table g) (case gr_order g of HighToLow \<Rightarrow> s # r | LowToHigh \<Rightarrow> r @ [s])"
proof -
  have ne: "gruen_rest g \<noteq> []" using assms(2) by auto
  show len: "length (gruen_rest (gruen_bind s g)) = n"
    using gruen_rest_split [OF assms(1) ne, of s] assms(2) by (cases "gr_order g") simp_all
  let ?p = "\<lparr>dp_evals = gruen_table g, dp_num_vars = length (gruen_rest g)\<rparr>"
  have b: "bind_with_order s (gr_order g) ?p = Some \<lparr>dp_evals = gruen_table (gruen_bind s g), dp_num_vars = n\<rparr>"
    using gruen_bind_merge [OF assms(1) ne, of s] len by (simp add: gruen_merge_eq)
  have ok: "dp_ok ?p" "dp_num_vars ?p = Suc (length r)" using assms(2,3) by (simp_all add: dp_ok_def gruen_table_def)
  show "table_mle (gruen_table (gruen_bind s g)) r =
      table_mle (gruen_table g) (case gr_order g of HighToLow \<Rightarrow> s # r | LowToHigh \<Rightarrow> r @ [s])"
    using dense_bind [of ?p n s "gr_order g"] ok b assms(2,3) by simp
qed

lemma gruen_bind_keeps:
  assumes "gruen_ok g" "length (gruen_rest g) = Suc n"
  shows "gruen_ok (gruen_bind s g)" "gr_order (gruen_bind s g) = gr_order g"
proof -
  have ne: "gruen_rest g \<noteq> []" using assms(2) by auto
  show "gruen_ok (gruen_bind s g)" by (rule gruen_bind_ok [OF assms(1) ne])
  show "gr_order (gruen_bind s g) = gr_order g"
    by (rule gruen_bind_fields(2)) (use assms(1) in \<open>auto simp: gruen_ok_def Let_def\<close>)
qed

interpretation gruen_high: bound_polynomial "\<lambda>s g. Some (gruen_bind s g)" "\<lambda>g. length (gruen_rest g)"
  "\<lambda>g. table_mle (gruen_table g)" "\<lambda>g. gruen_ok g \<and> gr_order g = HighToLow" "(#)"
proof
  fix g :: "'a gruen" and n s assume g: "gruen_ok g \<and> gr_order g = HighToLow" "length (gruen_rest g) = Suc n"
  obtain r :: "'a list" where "length r = n" using Ex_list_of_length by blast
  then show "\<exists>p'. Some (gruen_bind s g) = Some p' \<and> (gruen_ok p' \<and> gr_order p' = HighToLow) \<and> length (gruen_rest p') = n \<and>
      (\<forall>r. length r = n \<longrightarrow> table_mle (gruen_table p') r = table_mle (gruen_table g) (s # r))"
    using g gruen_bind_keeps [of g n s] gruen_bind_table [of g n _ s] by auto
qed simp

interpretation gruen_low: bound_polynomial "\<lambda>s g. Some (gruen_bind s g)" "\<lambda>g. length (gruen_rest g)"
  "\<lambda>g. table_mle (gruen_table g)" "\<lambda>g. gruen_ok g \<and> gr_order g = LowToHigh" "\<lambda>s r. r @ [s]"
proof
  fix g :: "'a gruen" and n s assume g: "gruen_ok g \<and> gr_order g = LowToHigh" "length (gruen_rest g) = Suc n"
  obtain r :: "'a list" where "length r = n" using Ex_list_of_length by blast
  then show "\<exists>p'. Some (gruen_bind s g) = Some p' \<and> (gruen_ok p' \<and> gr_order p' = LowToHigh) \<and> length (gruen_rest p') = n \<and>
      (\<forall>r. length r = n \<longrightarrow> table_mle (gruen_table p') r = table_mle (gruen_table g) (r @ [s]))"
    using g gruen_bind_keeps [of g n s] gruen_bind_table [of g n _ s] by auto
qed simp

section \<open>The less-than table as a function\<close>

lemma multi_affine_shift: "multi_affine n f \<Longrightarrow> multi_affine n (\<lambda>r. c + d * f r)"
proof (induction n arbitrary: f)
  case (Suc n)
  show ?case
  proof (rule multi_affine_SucI)
    show "multi_affine n (\<lambda>r. c + d * f (s # r))" for s by (rule Suc.IH [OF multi_affine_tail [OF Suc.prems]])
    show "c + d * f (s # r) = c + d * f (0 # r) + s * (c + d * f (1 # r) - (c + d * f (0 # r)))" if "length r = n" for s r
      unfolding multi_affine_head [OF Suc.prems that, of s] by (simp add: algebra_simps)
  qed
qed simp

lemma lt_product_affine: "multi_affine (length r) (\<lambda>x. lt_product x r)"
proof (induction r)
  case (Cons a r)
  show ?case unfolding list.size add_Suc_right add_0_right
  proof (rule multi_affine_SucI)
    fix s and q :: "'a list"
    show "lt_product (s # q) (a # r) = lt_product (0 # q) (a # r) + s * (lt_product (1 # q) (a # r) - lt_product (0 # q) (a # r))"
      by (simp add: algebra_simps)
  next
    fix s
    show "multi_affine (length r) (\<lambda>q. lt_product (s # q) (a # r))"
      using multi_affine_shift [OF Cons.IH, of "(1 - s) * a" "s * a + (1 - s) * (1 - a)"] by simp
  qed
qed simp

lemma lt_table_mle: "length x = length r \<Longrightarrow> table_mle (lt_table r) x = lt_product x r"
proof -
  assume len: "length x = length r"
  have "lt_table r = hypercube_table (length r) (\<lambda>x. lt_product x r)"
    by (rule nth_equalityI) (simp_all add: hypercube_table_def nth_lt_table)
  then show ?thesis using multi_affine_table [OF lt_product_affine len] by simp
qed

text \<open>Bound at a challenge for every variable, the split tables have one value left, the less-than
  polynomial's at the challenges and the point.\<close>

lemma lt_bound_value:
  assumes "length x = length r"
  shows "\<exists>p. lt_split.bind_list x (lt_new r) = Some p \<and> lt_len p = 1 \<and> lt_evaluate x r = Some (lt_get p 0)"
proof -
  obtain p where p: "lt_split.bind_list x (lt_new r) = Some p" "lt_ok p" "lt_num_vars p = 0"
    "table_mle (lt_view p) [] = table_mle (lt_view (lt_new r)) (foldr (#) x [])"
    using lt_split.bind_list_full [OF lt_new_ok(1) [of r], of x] lt_new_ok(2) [of r] assms by auto
  have len: "lt_len p = 1" using length_lt_view [OF p(2)] p(3) by (simp add: lt_view_def)
  then have "table_mle (lt_view p) [] = lt_get p 0" by (simp add: lt_view_def)
  then have "lt_get p 0 = lt_product x r" using p(4) assms by (simp add: lt_new_view lt_evals_eq lt_table_mle foldr_places)
  then show ?thesis using p(1) len lt_evaluate_eq [OF assms] by simp
qed

end
