(* ===== verification/Poly_Props.thy ===== *)
theory Poly_Props
  imports Complex_Main Bind_Interface
begin

text \<open>
  The polynomials of the sumchecks, as they are used: the tables of the equality polynomial, the split
  one against the dense one, the interpolation of a round, the mask of a range, and the successor
  polynomial.
\<close>

section \<open>Equality tables\<close>

text \<open>C36: every construction of the equality table gives the equality polynomial. The in-place, the
  serial, the parallel and the cached construction agree, whatever the scaling factor; and an entry is
  the scaled value of the polynomial at the big-endian bits of its index, which for a word index is
  also what the direct evaluation at the index gives.\<close>

theorem eq_tables_agree:
  fixes r :: "'f::comm_ring_1 list"
  defines "scale \<equiv> \<lambda>s. case s of Some s \<Rightarrow> s | None \<Rightarrow> 1"
  assumes "length r < 64" "i < 2 ^ length r"
  shows "evals_serial r s = eq_evals r s \<and> evals_parallel r s = eq_evals r s \<and> last (evals_cached r s) = eq_evals r s \<and>
    last (evals_cached_rev r s) = eq_evals r s \<and> eq_evaluations r = eq_evals r None \<and>
    map_option ((*) (scale s)) (eq_mle r (boolean_point_msb (length r) i)) = Some (eq_evals r s ! i) \<and>
    eq_index_msb r (of_nat i) = eq_evals r None ! i"
proof -
  have "(2 :: nat) ^ length r < 2 ^ 64" using assms(2) by (intro power_strict_increasing) simp_all
  then have i: "i < 2 ^ 64" using assms(3) by linarith
  then have u: "unat (of_nat i :: u128) = i" unfolding unat_of_nat by (simp add: take_bit_nat_eq_self)
  have "last (map f [0..<Suc n]) = f n" for f :: "nat \<Rightarrow> 'f list" and n by simp
  then show ?thesis
    using assms(3) unfolding evals_serial_eq evals_parallel_eq evals_cached_eq evals_cached_rev_eq eq_evaluations_eq eq_evals_eq
      boolean_point_msb_eq [OF i] eq_index_msb_eq u scale_def
    by (simp add: eq_mle_eq nth_eq_table)
qed

theorem eq_tables_agree_witness:
  "evals_serial [2, 3 :: rat] (Some 5) = eq_evals [2, 3] (Some 5) \<and> map_option ((*) 5) (eq_mle [2, 3 :: rat] (boolean_point_msb 2 1)) = Some (eq_evals [2, 3] (Some 5) ! 1)"
  using eq_tables_agree [of "[2, 3 :: rat]" 1 "Some 5"] by (simp add: numeral_2_eq_2)

section \<open>The split polynomial\<close>

lemma bound_gruen:
  "gruen_ok g \<Longrightarrow> length cs \<le> length (gruen_rest g) \<Longrightarrow>
   gruen_ok (fold gruen_bind cs g) \<and> length (gruen_rest (fold gruen_bind cs g)) = length (gruen_rest g) - length cs \<and>
   gr_order (fold gruen_bind cs g) = gr_order g \<and>
   gruen_merge (fold gruen_bind cs g) = fold (\<lambda>c p. Option.bind p (bind_with_order c (gr_order g))) cs (gruen_merge g)"
proof (induction cs arbitrary: g)
  case (Cons c cs)
  have ne: "gruen_rest g \<noteq> []" using Cons.prems(2) by auto
  have p: "gr_point g \<noteq> []" using Cons.prems(1) by (auto simp: gruen_ok_def Let_def)
  have len: "length (gruen_rest (gruen_bind c g)) = length (gruen_rest g) - 1"
    using gruen_rest_split [OF Cons.prems(1) ne, of c] by (cases "gr_order g") simp_all
  then show ?case using Cons.IH [OF gruen_bind_ok [OF Cons.prems(1) ne, of c]] Cons.prems(2)
    by (simp add: gruen_bind_merge [OF Cons.prems(1) ne] gruen_bind_fields(2) [OF p])
qed simp

lemma gruen_new_fields:
  assumes "point \<noteq> []"
  shows "gr_order (gruen_new_with_scaling point order s) = order" "gruen_rest (gruen_new_with_scaling point order s) = point"
  using assms by (cases order; simp add: gruen_new_with_scaling_def Let_def gruen_rest_def)+

text \<open>C34: the split equality polynomial refines the dense one. Bound at any challenges, in either
  order, with the cached half tables dropped on the way, it merges to what the dense table of the
  scaled equality polynomial becomes when it is bound at the same challenges.\<close>

theorem gruen_refines_dense:
  fixes point :: "'f::comm_ring_1 list"
  assumes "point \<noteq> []" "length cs \<le> length point"
  shows "gruen_merge (fold gruen_bind cs (gruen_new_with_scaling point order s)) =
    fold (\<lambda>c p. Option.bind p (bind_with_order c order)) cs (dp_new (eq_evals point s))"
proof -
  let ?g = "gruen_new_with_scaling point order s"
  have "gruen_merge ?g = dp_new (eq_evals point s)"
    by (simp add: gruen_merge_eq gruen_new_table gruen_new_fields [OF assms(1)] eq_evals_eq dp_new_table)
  then show ?thesis using bound_gruen [OF gruen_new_ok [OF assms(1)], of cs order s] assms(2)
    by (simp add: gruen_new_fields [OF assms(1)])
qed

theorem gruen_refines_dense_witness:
  "gruen_merge (fold gruen_bind [7, 8] (gruen_new_with_scaling [2, 3, 4 :: rat] HighToLow (Some 5))) =
    fold (\<lambda>c p. Option.bind p (bind_with_order c HighToLow)) [7, 8] (dp_new (eq_evals [2, 3, 4] (Some 5)))"
  by (rule gruen_refines_dense) simp_all

text \<open>C35: the cubic round is the dense sum. At any round, with the factor of the summand beside the
  equality polynomial quadratic in the current variable in every row, the round polynomial made from
  the folds over the two cached tables of its constant and leading coefficients, and from the claim, is
  at every field element the sum over the dense table bound there. The linear factor must not vanish at
  one, and the field must tell the four evaluation points apart.\<close>

theorem gruen_cubic_round:
  fixes point :: "'f::field list"
  assumes "point \<noteq> []" "length cs < length point" "inj_on (of_nat :: nat \<Rightarrow> 'f) {..<4}"
    and "g = fold gruen_bind cs (gruen_new_with_scaling point order s)"
    and "snd (current_linear_evals g) \<noteq> 0"
    and "\<And>row t. h row t = a row + b row * t + c row * (t * t)"
    and "\<And>t. dense t = (\<Sum>row<2 ^ (length point - length cs - 1). dp_evals (the (gruen_merge (gruen_bind t g))) ! row * h row t)"
  shows "\<exists>p. gruen_poly_deg_3 g (split_fold g a) (split_fold g c) (dense 0 + dense 1) = Some p \<and> (\<forall>t. up_evaluate p t = dense t)"
proof -
  have g: "gruen_ok g" "length (gruen_rest g) = length point - length cs"
    using bound_gruen [OF gruen_new_ok [OF assms(1)], of cs order s] assms(2) by (simp_all add: assms(4) gruen_new_fields [OF assms(1)])
  then have ne: "gruen_rest g \<noteq> []" using assms(2) by auto
  have "dense t = round_value g h t" for t
    by (simp add: assms(7) round_value_def g(2) gruen_merge_eq gruen_table_def)
  then show ?thesis using cubic_round_poly [OF g(1) ne assms(5,3,6)] by simp
qed

theorem gruen_cubic_round_witness:
  "let g = fold gruen_bind [7] (gruen_new_with_scaling [2, 3, 4 :: rat] LowToHigh None);
       h = (\<lambda>row t. 1 + of_nat row * t + 4 * (t * t));
       dense = (\<lambda>t. \<Sum>row<2 ^ (length [2, 3, 4 :: rat] - length [7 :: rat] - 1). dp_evals (the (gruen_merge (gruen_bind t g))) ! row * h row t) in
   \<exists>p. gruen_poly_deg_3 g (split_fold g (\<lambda>_. 1)) (split_fold g (\<lambda>_. 4)) (dense 0 + dense 1) = Some p \<and> (\<forall>t. up_evaluate p t = dense t)"
  unfolding Let_def
proof (rule gruen_cubic_round [where b = of_nat and point = "[2, 3, 4]" and cs = "[7]" and order = LowToHigh and s = None])
  show "snd (current_linear_evals (fold gruen_bind [7] (gruen_new_with_scaling [2, 3, 4 :: rat] LowToHigh None))) \<noteq> 0"
    by (simp add: gruen_new_with_scaling_def Let_def gruen_bind_def current_linear_evals_def current_point_def)
qed (simp_all add: inj_on_def)

section \<open>Interpolation\<close>

text \<open>C37: the elimination interpolates. From the values at zero, one, and on, of a nonempty list in a
  field that tells these points apart, the Gaussian elimination of the Vandermonde system returns the
  polynomial with as many coefficients that takes the values, which is the one that Lagrange's
  interpolation returns, and any polynomial no longer that takes them.\<close>

theorem from_evals_lagrange:
  fixes evals :: "'f::field list"
  assumes "evals \<noteq> []" "inj_on (of_nat :: nat \<Rightarrow> 'f) {..<length evals}"
  shows "\<exists>p. from_evals evals = Some p \<and> interpolate_over_integers evals = Some p \<and> length p = length evals \<and>
    (\<forall>i<length evals. up_evaluate p (of_nat i) = evals ! i) \<and>
    (\<forall>q. length q = length evals \<longrightarrow> (\<forall>i<length evals. up_evaluate q (of_nat i) = evals ! i) \<longrightarrow> q = p)"
proof -
  obtain p where p: "from_evals evals = Some p" "length p = length evals"
    "\<And>i. i < length evals \<Longrightarrow> up_evaluate p (of_nat i) = evals ! i"
    using from_evals_correct [OF assms] by metis
  have unique: "q = p" if "length q = length evals" "\<forall>i<length evals. up_evaluate q (of_nat i) = evals ! i" for q
    by (rule poly_unique [of q "length evals" p "map of_nat [0..<length evals]"])
      (use that p(2,3) in \<open>auto intro: distinct_of_nats [OF assms(2)]\<close>)
  have "interpolate_over_integers evals = Some p" using p(1) unfolding from_evals_interpolates [OF assms] .
  then show ?thesis using p(1,2) p(3) unique by (intro exI [of _ p] conjI allI impI) (assumption | blast)+
qed

theorem from_evals_lagrange_witness:
  "\<exists>p. from_evals [1, 3, 7 :: rat] = Some p \<and> interpolate_over_integers [1, 3, 7 :: rat] = Some p \<and> length p = 3 \<and> up_evaluate p 2 = 7"
proof -
  have inj: "inj_on (of_nat :: nat \<Rightarrow> rat) {..<length [1, 3, 7 :: rat]}" by (simp add: inj_on_def)
  show ?thesis
  proof (rule exE [OF from_evals_lagrange [OF list.simps(3) inj]], elim conjE)
    fix p :: "rat list" assume p: "from_evals [1, 3, 7] = Some p" "interpolate_over_integers [1, 3, 7] = Some p" "length p = length [1, 3, 7 :: rat]"
      and at: "\<forall>i<length [1, 3, 7 :: rat]. up_evaluate p (of_nat i) = [1, 3, 7] ! i"
    have "up_evaluate p 2 = 7" using at [rule_format, of 2] by (simp del: up_evaluate_simps)
    then show ?thesis using p by (intro exI [of _ p]) simp
  qed
qed

section \<open>Orders, ranges and successors\<close>

text \<open>C38: the split less-than table is the less-than polynomial. Built for a point and bound at
  a challenge for every variable, the high tables first and then the low one, it never fails, and the
  one value left is the polynomial's at the challenges and the point.\<close>

theorem lt_split_bound:
  fixes r :: "'f::comm_ring_1 list"
  assumes "length x = length r"
  shows "\<exists>p. fold (\<lambda>s q. Option.bind q (lt_bind s)) x (Some (lt_new r)) = Some p \<and> lt_len p = 1 \<and>
    lt_evaluate x r = Some (lt_get p 0)"
  using lt_bound_value [OF assms] unfolding lt_split.bind_list_def .

theorem lt_split_bound_witness:
  "\<exists>p. fold (\<lambda>s q. Option.bind q (lt_bind s)) [2, 1 / 2, 7] (Some (lt_new [3, 4, 5 :: rat])) = Some p \<and>
    lt_evaluate [2, 1 / 2, 7] [3, 4, 5] = Some (lt_get p 0)"
  using lt_split_bound [of "[2, 1 / 2, 7]" "[3, 4, 5 :: rat]"] by (simp only: list.size) blast

text \<open>C40: a range's mask. The mask succeeds exactly on a nonempty range within the domain, of fewer
  than 128 coordinates, and is then the sum of the equality polynomials of the indices of the range;
  the errors name the bounds.\<close>

theorem range_mask_sum:
  fixes r :: "'f::comm_ring_1 list"
  shows "range_mask_mle_msb a b r =
    (if b \<le> a then Inl (InvalidRange a b)
     else if 128 \<le> length r then Inl (DomainTooLarge (length r))
     else if 2 ^ length r < unat b then Inl (RangeEndOutOfDomain b (2 ^ length r))
     else Inr (\<Sum>i = unat a..<unat b. eq_index_msb r (of_nat i)))"
proof -
  have shl: "checked_shl1 (length r) = (if 128 \<le> length r then None else Some (2 ^ length r))"
    by (simp add: checked_shl1_def push_bit_of_1)
  have gt: "b > 2 ^ length r \<longleftrightarrow> 2 ^ length r < unat b" if "\<not> 128 \<le> length r"
    using unat_shl1 [of "length r"] that by (simp add: word_less_nat_alt push_bit_of_1)
  consider "b \<le> a" | "\<not> b \<le> a" "128 \<le> length r" | "\<not> b \<le> a" "\<not> 128 \<le> length r" "2 ^ length r < unat b"
    | "\<not> b \<le> a" "\<not> 128 \<le> length r" "\<not> 2 ^ length r < unat b" by blast
  then show ?thesis
  proof cases
    case 4
    then obtain v where v: "range_mask_mle_msb a b r = Inr v" using range_mask_total [of a b r] by (auto simp only: not_le not_less)
    then show ?thesis unfolding range_mask_correct(1) [OF v] v using 4 by (simp only: if_False)
  next
    case 3
    then show ?thesis unfolding range_mask_mle_msb_def shl by (simp only: if_False if_True ok_or_simps bind_res_simps gt [OF 3(2)])
  qed (simp_all only: range_mask_mle_msb_def shl if_True if_False ok_or_simps bind_res_simps)
qed

text \<open>C39: the successor polynomial. Its table, its value at a point and its split into tables over the
  high and the low coordinates are one polynomial, and at the bits of two indices it is one exactly
  when the second is the first plus one: the highest index has no successor.\<close>

theorem successor_polynomial:
  fixes r :: "'f::comm_ring_1 list"
  assumes "length r < 64" "jh < 2 ^ (length r div 2)" "jl < 2 ^ (length r - length r div 2)"
    and "j = jh * 2 ^ (length r - length r div 2) + jl" "i < 2 ^ length r"
  shows "\<exists>e d eq ep. eq_plus_one_evaluate r (bool_point (msb_bits (length r) j)) = Some e \<and>
    eq_plus_one_split r = Some d \<and> prefix_0 d ! jl * suffix_0 d ! jh + prefix_1 d ! jl * suffix_1 d ! jh = e \<and>
    eq_plus_one_evals r None = Some (eq, ep) \<and> ep ! j = e \<and>
    eq_plus_one_evaluate (bool_point (msb_bits (length r) i) :: 'f list) (bool_point (msb_bits (length r) j)) = Some (of_bool (j = i + 1))"
proof -
  let ?e = "succ_product r (bool_point (msb_bits (length r) j))"
  have "(2 :: nat) ^ length r = 2 ^ (length r div 2) * 2 ^ (length r - length r div 2)" by (simp add: power_add [symmetric])
  then have j: "j < 2 ^ length r" using assms(2-4) by (simp add: grid_index)
  obtain d where d: "eq_plus_one_split r = Some d" "prefix_0 d ! jl * suffix_0 d ! jh + prefix_1 d ! jl * suffix_1 d ! jh = ?e"
    using eq_plus_one_split_correct [OF assms(1-3)] assms(4) by metis
  then show ?thesis using assms(1,5) j
    by (simp add: eq_plus_one_evaluate_eq eq_plus_one_evals_eq succ_product_bool del: of_bool_eq_iff)
qed

theorem successor_polynomial_witness:
  "\<exists>e d eq ep. eq_plus_one_evaluate [2, 3, 5] (bool_point (msb_bits (length [2, 3, 5 :: rat]) 6)) = Some (e :: rat) \<and> eq_plus_one_split [2, 3, 5] = Some d \<and>
    prefix_0 d ! 2 * suffix_0 d ! 1 + prefix_1 d ! 2 * suffix_1 d ! 1 = e \<and> eq_plus_one_evals [2, 3, 5] None = Some (eq, ep) \<and> ep ! 6 = e \<and>
    eq_plus_one_evaluate (bool_point (msb_bits (length [2, 3, 5 :: rat]) 5) :: rat list) (bool_point (msb_bits (length [2, 3, 5 :: rat]) 6)) = Some 1"
  using successor_polynomial [of "[2, 3, 5 :: rat]" 1 2 6 5] by (simp del: msb_bits.simps length_Cons)

end
