(* ===== verification/Spec2Isabelle.thy ===== *)
theory Spec2Isabelle
  imports Example_Program Lowering_Examples R1cs_Correct Sumcheck_Props R1cs_Props Read_Raf_Props Table_Props Poly_Props
begin

text \<open>
  A verification library for the WebAssembly zero-knowledge virtual machine of this repository. The
  program compiles a WebAssembly module to a small register machine, runs it, and proves the run with
  sumchecks over lookup tables. The library models the path from a module to the claims a proof is
  about, in the order in which the code works, and shows that each part keeps its contract.

  \<^bold>\<open>The parts and how they meet.\<close> The instruction selector of \<^verbatim>\<open>jolt-wasm-frontend\<close> turns a decoded
  module into a \<^verbatim>\<open>Program\<close> of \<^verbatim>\<open>jolt-wasm-ir\<close>. The interpreter of \<^verbatim>\<open>jolt-wasm-backend\<close> runs it and emits
  one record per step; \<^verbatim>\<open>row.rs\<close> checks a record the way the proof does, and \<^verbatim>\<open>jolt-wasm-program\<close> stores
  it as a compact row. The constraints of \<^verbatim>\<open>jolt-r1cs\<close> relate the columns of a row; the lookup argument
  says that a row's output is the entry of a table of \<^verbatim>\<open>jolt-lookup-tables\<close> at the row's index. That
  argument is a sumcheck: the kernel \<^verbatim>\<open>instruction_read_raf\<close> of \<^verbatim>\<open>jolt-kernels\<close> computes its rounds from
  the polynomials of \<^verbatim>\<open>jolt-poly\<close>, \<^verbatim>\<open>jolt-sumcheck\<close> drives and verifies it, and the relation of
  \<^verbatim>\<open>jolt-claims\<close> fixes the claims at both ends. All paths below are under \<^verbatim>\<open>src/crates\<close>.

  \<^bold>\<open>Theories and the code they model.\<close>

  \<^item> \<^theory_text>\<open>Prelude\<close>: machine integers, results, the integer methods of the standard library, shared rules.
  \<^item> \<^theory_text>\<open>Layout\<close>, \<^theory_text>\<open>Wasm_Ir\<close>, \<^theory_text>\<open>Row_Model\<close>, \<^theory_text>\<open>Bytecode_Table\<close>: \<^verbatim>\<open>jolt-wasm-ir/src\<close> (\<^verbatim>\<open>layout.rs\<close>, \<^verbatim>\<open>ops.rs\<close> and
    \<^verbatim>\<open>ir.rs\<close>, \<^verbatim>\<open>row.rs\<close>, \<^verbatim>\<open>bytecode.rs\<close>): guest addresses, registers, the ALU catalogue with its reference
    semantics \<^verbatim>\<open>evaluate\<close>, instructions and programs, the flags of a row, the committed table.
  \<^item> \<^theory_text>\<open>Guest_Memory\<close>, \<^theory_text>\<open>Machine_Exec\<close>, \<^theory_text>\<open>Row_Check\<close>: \<^verbatim>\<open>jolt-wasm-backend/src\<close> (\<^verbatim>\<open>memory.rs\<close>, \<^verbatim>\<open>machine.rs\<close>,
    \<^verbatim>\<open>row.rs\<close>). The machine's state is the record \<open>machine\<close>: program, memory, registers, pc, step limit.
  \<^item> \<^theory_text>\<open>Wasm_Source\<close>, \<^theory_text>\<open>Lower_Emit\<close>, \<^theory_text>\<open>Lower_Expand\<close>, \<^theory_text>\<open>Lower_Control\<close>, \<^theory_text>\<open>Lower_Module\<close>:
    \<^verbatim>\<open>jolt-wasm-frontend/src\<close> (the types of \<^verbatim>\<open>source.rs\<close> and \<^verbatim>\<open>module.rs\<close>, all of \<^verbatim>\<open>lower.rs\<close>). The emitter's
    state is threaded through every method; a method that fails is an error value.
  \<^item> \<^theory_text>\<open>Lookup_Index\<close>, \<^theory_text>\<open>Lookup_Tables\<close>, \<^theory_text>\<open>Table_Mle\<close>, \<^theory_text>\<open>Table_Prefix\<close>: \<^verbatim>\<open>jolt-lookup-tables/src\<close> and
    \<^verbatim>\<open>jolt-wasm-tables/src/lib.rs\<close>: the interleaved index, and for each of the 24 tables its entries, its
    evaluation at a field point, its prefixes, its suffixes and their recombination.
  \<^item> \<^theory_text>\<open>Trace_Row\<close>, \<^theory_text>\<open>R1cs_Wasm\<close>, \<^theory_text>\<open>R1cs_Matrices\<close>, \<^theory_text>\<open>R1cs_Builder\<close>: \<^verbatim>\<open>jolt-wasm-program/src/trace_row.rs\<close> and
    \<^verbatim>\<open>r1cs.rs\<close>, \<^verbatim>\<open>jolt-r1cs/src\<close> (\<^verbatim>\<open>constraints/wasm.rs\<close>, \<^verbatim>\<open>constraint.rs\<close>, \<^verbatim>\<open>builder.rs\<close>).
  \<^item> \<^theory_text>\<open>R1cs_Claims\<close>, \<^theory_text>\<open>Claim_Ids\<close>, \<^theory_text>\<open>Sumcheck_R1cs\<close>: \<^verbatim>\<open>jolt-claims/src\<close> (\<^verbatim>\<open>claims.rs\<close>, \<^verbatim>\<open>ops.rs\<close>, the protocol's
    \<^verbatim>\<open>ids.rs\<close>), \<^verbatim>\<open>jolt-r1cs/src/lowering.rs\<close>, \<^verbatim>\<open>jolt-sumcheck/src/r1cs.rs\<close>.
  \<^item> \<^theory_text>\<open>Univariate_Poly\<close>, \<^theory_text>\<open>Gauss\<close>, \<^theory_text>\<open>Eq_Poly\<close>, \<^theory_text>\<open>Mle\<close>, \<^theory_text>\<open>Dense_Poly\<close>, \<^theory_text>\<open>Split_Eq\<close>, \<^theory_text>\<open>Lt_Poly\<close>: \<^verbatim>\<open>jolt-poly/src\<close>.
  \<^item> \<^theory_text>\<open>Sumcheck\<close>, \<^theory_text>\<open>Sumcheck_Batch\<close>, \<^theory_text>\<open>Sumcheck_Committed\<close>: the rest of \<^verbatim>\<open>jolt-sumcheck/src\<close>: claims, rounds,
    domains, the verifiers, the batched prover, proofs and committed rounds.
  \<^item> \<^theory_text>\<open>Read_Raf\<close>, \<^theory_text>\<open>Read_Raf_Relation\<close>: \<^verbatim>\<open>jolt-kernels/src/reference/instruction_read_raf.rs\<close>, the relation of
    \<^verbatim>\<open>jolt-claims/src/protocols/jolt\<close> and what \<^verbatim>\<open>jolt-verifier/src/stages/stage5\<close> derives for it. The kernel's
    state is the record \<open>read_raf\<close>.

  \<^bold>\<open>What is shown.\<close>

  \<^item> Compilation (\<^theory_text>\<open>Word_Facts\<close>, \<^theory_text>\<open>Exec_Rows\<close>, \<^theory_text>\<open>Expand_Correct\<close>, \<^theory_text>\<open>Lowering_Correct\<close>): \<^theory_text>\<open>Wasm_Semantics\<close> states
    the numeric instructions of the WebAssembly specification; the rows emitted for an operator, run by
    the machine, compute it, traps included. The quotient and remainder of a division are the prover's
    choice, and the rows after them admit only the right one, but for the 32-bit unsigned divisions.
  \<^item> Execution (\<^theory_text>\<open>Machine_Exec\<close>, \<^theory_text>\<open>Row_Check\<close>): the locale \<open>word_memory\<close> of \<^theory_text>\<open>Guest_Memory\<close> is the contract
    of a word store, interpreted by the guest memory and by the register file; from it, a run is
    consistent in memory and registers and its records are contiguous. A run returns within its step
    limit. Memory consistency is shown for runs whose writes to the size word only grow the memory, by
    whole words (\<open>log_grows\<close>); that lowered code writes it in no other way is not shown. The row check
    accepts every record of a run, and a record it accepts is the machine's step, for instructions that
    do not write the zero register and whose asserts and branches compare (\<open>row_ok\<close>).
  \<^item> Constraints (\<^theory_text>\<open>R1cs_Correct\<close>, \<^theory_text>\<open>R1cs_Props\<close>): the uniform constraints and the row check agree, in a
    ring in which no small integer but zero vanishes, on records of instructions that do not write the
    zero register, whose asserts and branches compare, and whose shift operands are bitmasks; the last
    is pinned by none of the other arguments. A trap row passes both, though the interpreter stops at it. The builder's
    matrices accept exactly what was asserted; lowered claim expressions have their values; the
    sumcheck's constraints hold exactly when its verifier accepts.
  \<^item> Tables (\<^theory_text>\<open>Mle_Entry\<close>, \<^theory_text>\<open>Table_State\<close>, \<^theory_text>\<open>Table_Phase\<close>, \<^theory_text>\<open>Table_Combine\<close>, \<^theory_text>\<open>Table_Suffix\<close>,
    \<^theory_text>\<open>Prefix_Suffix\<close>, \<^theory_text>\<open>Table_Props\<close>): the entry at a row's index is the operation's value; a table's
    evaluation extends its entries. The prefixes are one state that each pair of index bits updates,
    affinely in each bit: so bound prefix tables and the suffixes of the bits that are left recombine
    to the evaluation.
  \<^item> Polynomials (\<^theory_text>\<open>Gruen\<close>, \<^theory_text>\<open>Bind_Interface\<close>, \<^theory_text>\<open>Poly_Props\<close>): the in-place loops compute the functions
    they stand for; the split equality polynomial refines the dense one; elimination is interpolation.
    The locale \<open>bound_polynomial\<close> is the contract of a polynomial bound variable by variable,
    interpreted by the dense tables, the split less-than table and the split equality polynomial.
  \<^item> Sumcheck (\<^theory_text>\<open>Sumcheck_Correct\<close>, \<^theory_text>\<open>Sumcheck_Props\<close>): completeness, the soundness bound on the number of
    bad challenges, the equivalence of the full and compressed verifiers, and a batched prover whose
    honest members' proofs verify.
  \<^item> The lookup sumcheck (\<^theory_text>\<open>Read_Raf_Tables\<close> to \<^theory_text>\<open>Read_Raf_Props\<close>): a predicate on the kernel's state, kept
    from its construction through the address phases, the handoff and the cycle rounds, says which
    functions its tables hold. Hence every message is the round of one polynomial, the rounds start
    from the relation's input expression and end at its output expression, and the kernel is an honest
    member of any batch.

  \<^bold>\<open>Conventions, bounds, fuel.\<close> Unchecked arithmetic wraps, as in a release build. A \<^verbatim>\<open>Result\<close> is a sum
  with the error on the left; a panic is \<open>None\<close> or an error constructor of its own. A field is a type
  variable of class \<^verbatim>\<open>field\<close>, or of class \<^verbatim>\<open>comm_ring_1\<close> where the code only adds and multiplies; that
  small numbers differ in it is a named hypothesis where a lemma needs it, satisfied by the witnesses.
  Loops are structural recursions or folds over the ranges the code runs through; \<^verbatim>\<open>run\<close> recurses on the
  steps left under the machine's own step limit, so no fuel is added to the program. The kernel is
  treated at the dimensions the program fixes, 128 address variables in 16 phases of eight, and for any
  number of rows that is a power of two. For the shift and rotation tables, the entry is the
  operation's value, and the recombination the table's evaluation, only where the right operand is a
  bitmask, a run of ones above zeros; \<open>in_domain\<close> and \<open>shift_operand\<close> say so, and the statements about
  the constraints and the kernel carry it in \<open>in_table_domain\<close> and \<open>input_ok\<close>. Three operations are
  modelled short of sizes that no memory holds or no caller reaches: \<open>lt_evals\<close> and \<open>lt_new\<close> leave out
  the panic at 64 or more variables, \<open>checked_shl1\<close> the cast of a number of coordinates to 32 bits, and
  \<open>lb_split\<close> the underflow of a suffix longer than the vector.

  \<^bold>\<open>Parameters.\<close> The transcript is a state with the two operations the code calls; the vector
  commitment, the way it enters the transcript and the randomness are functions; a batch member is the
  object behind \<^verbatim>\<open>ProveRounds\<close>. The read and RAF kernel is a concrete one.

  \<^bold>\<open>Not modelled.\<close> The WebAssembly decoder reads a third-party parser's types. Field, curve, hash and
  commitment crates wrap third-party code. The optimized kernels compute the same sums as the reference
  ones with parallel and delayed-reduction loops over accumulators of the field crate; the reference
  kernels and the claim expressions of the other relations, the witness generator, the stages of the
  prover and of the verifier around the sumchecks, and the zero-knowledge folding are outside the
  library. Serialization, logging and parallel scheduling are left out of what is modelled: the serial
  variant of a loop stands for both.
\<close>

end
